(* ===== verification/Prelude.thy ===== *)
theory Prelude
  imports Main "HOL-Library.Word" "HOL-Library.Multiset"
begin

unbundle bit_operations_syntax

text \<open>
  Shared vocabulary of the development: the C integer types as words, the little- and big-endian
  readings of byte arrays that the on-disk and on-wire formats use, sub-array reads, and the
  generic facts about lists and words that several components share.
  Nothing in this theory models a source file on its own.
\<close>

section \<open>C integer types\<close>

type_synonym u8 = "8 word"
type_synonym u16 = "16 word"
type_synonym u32 = "32 word"
type_synonym u64 = "64 word"
type_synonym bytes = "u8 list"

named_theorems codec \<open>facts that reduce an encoded structure to its fields\<close>
named_theorems lens \<open>lengths of encoded structures\<close>

section \<open>Sub-arrays\<close>

definition slice :: "nat \<Rightarrow> nat \<Rightarrow> 'a list \<Rightarrow> 'a list" where
  "slice off n xs = take n (drop off xs)"

lemma length_slice [simp]: "length (slice off n xs) = min n (length xs - off)"
  by (simp add: slice_def)

lemma slice_append [codec]:
  "slice off n (xs @ ys) =
     slice off n xs @ slice (off - length xs) (n - (length xs - off)) ys"
  by (simp add: slice_def)

lemma slice_0_all [codec]: "length xs \<le> n \<Longrightarrow> slice 0 n xs = xs"
  by (simp add: slice_def)

lemma slice_beyond [codec]: "length xs \<le> off \<Longrightarrow> slice off n xs = []"
  by (simp add: slice_def)

lemma slice_none [codec]: "slice off 0 xs = []"
  by (simp add: slice_def)

lemma slice_0_append [codec]: "length xs = n \<Longrightarrow> slice 0 n (xs @ ys) = xs"
  by (simp add: slice_def)

lemma slice_skip [codec]: "length xs \<le> off \<Longrightarrow> slice off n (xs @ ys) = slice (off - length xs) n ys"
  by (simp add: slice_def)

section \<open>Little-endian words\<close>

text \<open>\<open>le n w\<close> is the memory image of an \<open>n\<close>-byte integer on the little-endian target;
  \<open>unle\<close> reads it back. The packed structures of the recorder are concatenations of these.\<close>

definition le :: "nat \<Rightarrow> 'a::len word \<Rightarrow> bytes" where
  "le n w = map (\<lambda>i. ucast (drop_bit (8 * i) w)) [0..<n]"

fun unle :: "bytes \<Rightarrow> 'a::len word" where
  "unle [] = 0"
| "unle (b # bs) = ucast b OR push_bit 8 (unle bs)"

lemma length_le [simp, lens]: "length (le n w) = n"
  by (simp add: le_def)

lemma bit_unle:
  "bit (unle bs :: 'a::len word) i \<longleftrightarrow>
     i < LENGTH('a) \<and> i div 8 < length bs \<and> bit (bs ! (i div 8)) (i mod 8)"
proof (induction bs arbitrary: i)
  case Nil
  show ?case by simp
next
  case (Cons b bs)
  show ?case
  proof (cases "i < 8")
    case True
    then show ?thesis by (auto simp: bit_simps)
  next
    case False
    then obtain k where k: "i = k + 8" by (metis add.commute le_Suc_ex not_less)
    have hi: "\<not> bit b (k + 8)" using bit_imp_le_length[of b "k + 8"] by auto
    have d: "(k + 8) div 8 = Suc (k div 8)" by simp
    show ?thesis
      using hi by (auto simp: k d Cons.IH bit_simps)
  qed
qed

lemma unle_le:
  assumes "LENGTH('a) = 8 * n"
  shows "unle (le n w) = (w :: 'a::len word)"
proof (rule bit_word_eqI)
  fix i assume i: "i < LENGTH('a)"
  then have "i div 8 < n" using assms by simp
  moreover have "8 * (i div 8) + i mod 8 = i" by simp
  moreover have "i mod 8 < 8" by simp
  ultimately show "bit (unle (le n w) :: 'a word) i = bit w i"
    using i by (simp add: bit_unle le_def bit_simps)
qed

lemma le_unle:
  assumes "LENGTH('a) = 8 * n" "length bs = n"
  shows "le n (unle bs :: 'a::len word) = bs"
proof (rule nth_equalityI)
  show "length (le n (unle bs :: 'a word)) = length bs" using assms by simp
next
  fix i assume "i < length (le n (unle bs :: 'a word))"
  then have i: "i < n" by simp
  show "le n (unle bs :: 'a word) ! i = bs ! i"
  proof (rule bit_word_eqI)
    fix j :: nat assume j: "j < LENGTH(8)"
    have "(8 * i + j) div 8 = i" "(8 * i + j) mod 8 = j" using j by auto
    moreover have "8 * i + j < LENGTH('a)" using i j assms by simp
    ultimately show "bit (le n (unle bs :: 'a word) ! i) j = bit (bs ! i) j"
      using i j assms(2) by (simp add: le_def bit_simps bit_unle)
  qed
qed

lemma unle_inj:
  assumes "8 * length xs \<le> LENGTH('a)" "length ys = length xs"
    and "(unle xs :: 'a::len word) = unle ys"
  shows "xs = ys"
proof (rule nth_equalityI)
  show "length xs = length ys" using assms by simp
next
  fix i assume i: "i < length xs"
  show "xs ! i = ys ! i"
  proof (rule bit_word_eqI)
    fix j :: nat assume j: "j < LENGTH(8)"
    have "(8 * i + j) div 8 = i" "(8 * i + j) mod 8 = j" "8 * i + j < LENGTH('a)"
      using i j assms(1) by auto
    then show "bit (xs ! i) j = bit (ys ! i) j"
      using i assms(2) bit_unle[of xs "8 * i + j", where ?'a = 'a]
        bit_unle[of ys "8 * i + j", where ?'a = 'a] assms(3) by simp
  qed
qed

lemma unle_le_16 [simp, codec]: "unle (le 2 (w :: u16)) = w"
  by (rule unle_le) simp

lemma unle_le_32 [simp, codec]: "unle (le 4 (w :: u32)) = w"
  by (rule unle_le) simp

lemma unle_le_64 [simp, codec]: "unle (le 8 (w :: u64)) = w"
  by (rule unle_le) simp

lemma unle_le_8 [simp, codec]: "unle (le (Suc 0) (w :: u8)) = w"
  by (rule unle_le) simp

lemma le_inj: "LENGTH('a) = 8 * n \<Longrightarrow> le n (v :: 'a::len word) = le n w \<Longrightarrow> v = w"
  by (metis unle_le)

section \<open>Big-endian words\<close>

definition be32 :: "u32 \<Rightarrow> bytes" where
  "be32 v = [ucast (drop_bit 24 v), ucast (drop_bit 16 v), ucast (drop_bit 8 v), ucast v]"

definition be16 :: "u32 \<Rightarrow> bytes" where
  "be16 v = [ucast (drop_bit 8 v), ucast v]"

lemma length_be32 [simp, lens]: "length (be32 v) = 4"
  by (simp add: be32_def)

lemma length_be16 [simp, lens]: "length (be16 v) = 2"
  by (simp add: be16_def)

section \<open>Unsigned arithmetic without wrap-around\<close>

lemma unat_add_nowrap: "unat a + unat b < 2 ^ LENGTH('a) \<Longrightarrow> unat (a + b :: 'a::len word) = unat a + unat b"
  by (simp add: unat_word_ariths)

lemma unat_mult_nowrap: "unat a * unat b < 2 ^ LENGTH('a) \<Longrightarrow> unat (a * b :: 'a::len word) = unat a * unat b"
  by (simp add: unat_word_ariths)

lemma unat_sub_nowrap: "unat b \<le> unat a \<Longrightarrow> unat (a - b :: 'a::len word) = unat a - unat b"
  by (simp add: unat_sub word_le_nat_alt)

lemma unat_div_word: "unat (a div b :: 'a::len word) = unat a div unat b"
  by (simp add: unat_div)

lemma unat_mod_word: "unat (a mod b :: 'a::len word) = unat a mod unat b"
  by (simp add: unat_mod)

lemma unat_of_nat_small: "n < 2 ^ LENGTH('a) \<Longrightarrow> unat (of_nat n :: 'a::len word) = n"
  by (simp add: unat_of_nat take_bit_nat_eq_self)

lemma unat_ucast_32_64 [simp]: "unat (ucast (a :: u32) :: u64) = unat a"
  using unsigned_less[of a, where ?'a = nat] by (simp add: unsigned_ucast_eq take_bit_nat_eq_self)

lemma unat_32_lt: "unat (a :: u32) < 2 ^ 32"
  using unsigned_less[of a] by simp

lemma unat_64_lt: "unat (a :: u64) < 2 ^ 64"
  using unsigned_less[of a] by simp

section \<open>Bits\<close>

lemma xor_eq_0_imp: "a XOR b = 0 \<Longrightarrow> a = (b :: 'a::len word)"
  by (simp add: bit_eq_iff bit_simps)

lemma xor_cancel_right: "(a XOR k) XOR k = (a :: 'a::len word)"
  by (simp add: xor.assoc)

lemma even_drop_bit_0:
  assumes "even z" "drop_bit 1 z = 0"
  shows "z = (0 :: 'a::len word)"
proof (rule bit_word_eqI)
  fix n assume "n < LENGTH('a)"
  show "bit z n = bit 0 n"
  proof (cases n)
    case 0
    then show ?thesis using assms(1) by (simp add: bit_0)
  next
    case (Suc m)
    have "bit (drop_bit 1 z) m = bit z (Suc m)" by (simp add: bit_drop_bit_eq)
    then show ?thesis using assms(2) Suc by simp
  qed
qed

lemma mask8_u32: "(255 :: u32) = mask 8"
  by (simp add: mask_eq_exp_minus_1)

lemma bit_255_u32: "bit (255 :: u32) i \<longleftrightarrow> i < 8"
  by (simp only: mask8_u32 bit_mask_iff) auto

lemma bit_255_int [simp]: "bit (255 :: int) i \<longleftrightarrow> i < 8"
proof -
  have "(255 :: int) = mask 8" by (simp add: mask_eq_exp_minus_1)
  then show ?thesis by (simp only: bit_mask_iff) simp
qed

lemma bit_16777215_int [simp]: "bit (16777215 :: int) i \<longleftrightarrow> i < 24"
proof -
  have "(16777215 :: int) = mask 24" by (simp add: mask_eq_exp_minus_1)
  then show ?thesis by (simp only: bit_mask_iff) simp
qed

lemma unat_and_255: "unat ((x :: u32) AND 255) < 256"
proof -
  have "x AND 255 = take_bit 8 x" by (simp only: mask8_u32 take_bit_eq_mask)
  then have "unat (x AND 255) = take_bit 8 (unat x)" by (simp add: unsigned_take_bit_eq)
  also have "\<dots> < 2 ^ 8" by (rule take_bit_nat_less_exp)
  finally show ?thesis by simp
qed

section \<open>Lists\<close>

lemma list_all_swap:
  "i < length xs \<Longrightarrow> j < length xs \<Longrightarrow> mset (xs[i := xs ! j, j := xs ! i]) = mset xs"
  by (rule mset_swap)

lemma length_fold_inv: "(\<And>x s. length (f x s) = length s) \<Longrightarrow> length (fold f xs s) = length s"
  by (induction xs arbitrary: s) auto

lemma fold_invariant_in: "(\<And>x s. x \<in> set xs \<Longrightarrow> P s \<Longrightarrow> P (f x s)) \<Longrightarrow> P s \<Longrightarrow> P (fold f xs s)"
  by (induction xs arbitrary: s) auto

lemma fold_invariant: "(\<And>x s. P s \<Longrightarrow> P (f x s)) \<Longrightarrow> P s \<Longrightarrow> P (fold f xs s)"
  by (induction xs arbitrary: s) auto

text \<open>The conversion \<open>%u\<close> of \<open>printf\<close>, and \<open>%d\<close>.\<close>

fun show_nat :: "nat \<Rightarrow> string" where
  "show_nat n = (if n < 10 then [char_of (48 + n)] else show_nat (n div 10) @ [char_of (48 + n mod 10)])"

declare show_nat.simps [simp del]

definition show_int :: "int \<Rightarrow> string" where
  "show_int k = (if k < 0 then ''-'' @ show_nat (nat (- k)) else show_nat (nat k))"

lemma length_show_nat: "0 < k \<Longrightarrow> n < 10 ^ k \<Longrightarrow> length (show_nat n) \<le> k"
proof (induction k arbitrary: n)
  case (Suc k)
  show ?case
  proof (cases "n < 10")
    case False
    then have "n div 10 < 10 ^ k" "0 < k" using Suc.prems by (cases k; simp add: div_less_iff_less_mult mult.commute)+
    then show ?thesis using Suc.IH[of "n div 10"] False by (subst show_nat.simps) simp
  qed (subst show_nat.simps, simp)
qed simp

text \<open>The number that the digits of a string spell.\<close>

definition read_nat :: "string \<Rightarrow> nat" where
  "read_nat ds = foldl (\<lambda>n d. n * 10 + (of_char d - 48)) 0 ds"

lemma read_nat_snoc: "read_nat (ds @ [d]) = read_nat ds * 10 + (of_char d - 48)"
  by (simp add: read_nat_def)

lemma read_show_nat [simp]: "read_nat (show_nat n) = n"
proof (induction n rule: less_induct)
  case (less n)
  show ?case
  proof (cases "n < 10")
    case True
    then show ?thesis by (subst show_nat.simps) (simp add: read_nat_def)
  next
    case False
    then have "read_nat (show_nat (n div 10)) = n div 10" by (intro less) simp
    then show ?thesis using False by (subst show_nat.simps) (simp add: read_nat_snoc)
  qed
qed

lemma show_nat_inject [simp]: "show_nat m = show_nat n \<longleftrightarrow> m = n"
  by (metis read_show_nat)

end
