(* ===== verification/Rsdk_Util.thy ===== *)
theory Rsdk_Util
  imports Prelude
begin

text \<open>
  components/recorder/src/rsdk_util.c, rsdk_core.c, rsdk_feature.c and the return codes of
  rsdk_types.h: the CRC-32 that guards every on-disk structure, the alignment arithmetic, the
  error names and the compile-time feature mask. The constants RSDK_CFG_* come from a generated
  header (rsdk_config.h), so they are a record argument here; \<open>rsdk_cfg_defaults\<close> holds the
  fallbacks of rsdk_feature.h.
\<close>

section \<open>Return codes\<close>

datatype rsdk_err =
  RSDK_OK | RSDK_E_IO | RSDK_E_PARAM | RSDK_E_NOTFOUND | RSDK_E_CORRUPT | RSDK_E_NOSPACE
| RSDK_E_DB | RSDK_E_CRYPTO | RSDK_E_FORMAT | RSDK_E_BUSY

fun rsdk_err_code :: "rsdk_err \<Rightarrow> int" where
  "rsdk_err_code RSDK_OK = 0"
| "rsdk_err_code RSDK_E_IO = -1"
| "rsdk_err_code RSDK_E_PARAM = -2"
| "rsdk_err_code RSDK_E_NOTFOUND = -3"
| "rsdk_err_code RSDK_E_CORRUPT = -4"
| "rsdk_err_code RSDK_E_NOSPACE = -5"
| "rsdk_err_code RSDK_E_DB = -6"
| "rsdk_err_code RSDK_E_CRYPTO = -7"
| "rsdk_err_code RSDK_E_FORMAT = -8"
| "rsdk_err_code RSDK_E_BUSY = -9"

definition rsdk_strerror :: "int \<Rightarrow> string" where
  "rsdk_strerror e =
     (if e = 0 then ''ok'' else if e = -1 then ''io error'' else if e = -2 then ''bad param''
      else if e = -3 then ''not found'' else if e = -4 then ''corrupt''
      else if e = -5 then ''no space'' else if e = -6 then ''db error''
      else if e = -7 then ''crypto error'' else if e = -8 then ''not formatted''
      else if e = -9 then ''busy'' else ''unknown'')"

lemma rsdk_err_code_inj: "rsdk_err_code a = rsdk_err_code b \<Longrightarrow> a = b"
  by (cases a; cases b; simp)

section \<open>Compile-time configuration and the feature mask\<close>

record rsdk_cfg =
  cfg_encryption :: bool
  cfg_metadata :: bool
  cfg_multidisk_balance :: bool
  cfg_backup_fmp4 :: bool
  cfg_slots_per_chunk :: u32
  cfg_meta_ratio_pct10 :: nat
  cfg_hdd_full :: u8

definition rsdk_cfg_defaults :: rsdk_cfg where
  "rsdk_cfg_defaults = \<lparr>cfg_encryption = False, cfg_metadata = False,
     cfg_multidisk_balance = False, cfg_backup_fmp4 = False, cfg_slots_per_chunk = 4,
     cfg_meta_ratio_pct10 = 5, cfg_hdd_full = 0\<rparr>"

definition RSDK_FEAT_ENCRYPTION :: u32 where "RSDK_FEAT_ENCRYPTION = 0x01"

definition RSDK_FEAT_METADATA :: u32 where "RSDK_FEAT_METADATA = 0x02"

definition RSDK_FEAT_MULTIDISK_BAL :: u32 where "RSDK_FEAT_MULTIDISK_BAL = 0x04"

definition RSDK_FEAT_BACKUP_FMP4 :: u32 where "RSDK_FEAT_BACKUP_FMP4 = 0x08"

datatype rsdk_feature_id =
  RSDK_F_ENCRYPTION | RSDK_F_METADATA | RSDK_F_MULTIDISK_BALANCE | RSDK_F_BACKUP_FMP4 | RSDK_F_MAX

fun rsdk_feature_on :: "rsdk_cfg \<Rightarrow> rsdk_feature_id \<Rightarrow> bool" where
  "rsdk_feature_on c RSDK_F_ENCRYPTION = cfg_encryption c"
| "rsdk_feature_on c RSDK_F_METADATA = cfg_metadata c"
| "rsdk_feature_on c RSDK_F_MULTIDISK_BALANCE = cfg_multidisk_balance c"
| "rsdk_feature_on c RSDK_F_BACKUP_FMP4 = cfg_backup_fmp4 c"
| "rsdk_feature_on c RSDK_F_MAX = False"

definition rsdk_feature_mask :: "rsdk_cfg \<Rightarrow> u32" where
  "rsdk_feature_mask c =
     (let m = (0 :: u32);
          m = (if cfg_encryption c then m OR RSDK_FEAT_ENCRYPTION else m);
          m = (if cfg_metadata c then m OR RSDK_FEAT_METADATA else m);
          m = (if cfg_multidisk_balance c then m OR RSDK_FEAT_MULTIDISK_BAL else m);
          m = (if cfg_backup_fmp4 c then m OR RSDK_FEAT_BACKUP_FMP4 else m)
      in m)"

fun feature_bit :: "rsdk_feature_id \<Rightarrow> u32" where
  "feature_bit RSDK_F_ENCRYPTION = RSDK_FEAT_ENCRYPTION"
| "feature_bit RSDK_F_METADATA = RSDK_FEAT_METADATA"
| "feature_bit RSDK_F_MULTIDISK_BALANCE = RSDK_FEAT_MULTIDISK_BAL"
| "feature_bit RSDK_F_BACKUP_FMP4 = RSDK_FEAT_BACKUP_FMP4"
| "feature_bit RSDK_F_MAX = 0"

lemma feature_mask_bit: "(rsdk_feature_mask c AND feature_bit f \<noteq> 0) = rsdk_feature_on c f"
  by (cases f) (simp_all add: rsdk_feature_mask_def RSDK_FEAT_ENCRYPTION_def
      RSDK_FEAT_METADATA_def RSDK_FEAT_MULTIDISK_BAL_def RSDK_FEAT_BACKUP_FMP4_def Let_def)

section \<open>CRC-32\<close>

definition crc_bit :: "u32 \<Rightarrow> u32" where
  "crc_bit c = (if c AND 1 \<noteq> 0 then 0xEDB88320 XOR drop_bit 1 c else drop_bit 1 c)"

definition crc_tab :: "u32 list" where
  "crc_tab = map (\<lambda>i. (crc_bit ^^ 8) (of_nat i)) [0..<256]"

definition crc_step :: "u32 \<Rightarrow> u8 \<Rightarrow> u32" where
  "crc_step c b = crc_tab ! unat ((c XOR ucast b) AND 0xFF) XOR drop_bit 8 c"

definition rsdk_crc32 :: "bytes \<Rightarrow> u32" where
  "rsdk_crc32 p = foldl crc_step 0xFFFFFFFF p XOR 0xFFFFFFFF"

subsection \<open>The table-driven loop against the bit-serial definition\<close>

lemma crc_bit_alt: "crc_bit c = (if odd c then 0xEDB88320 XOR drop_bit 1 c else drop_bit 1 c)"
  by (simp add: crc_bit_def and_one_eq odd_iff_mod_2_eq_one)

lemma crc_bit_xor: "crc_bit (a XOR b) = crc_bit a XOR crc_bit b"
  by (cases "odd a"; cases "odd b") (simp_all add: crc_bit_alt even_xor_iff xor.assoc xor.left_commute)

lemma crc_bits_xor: "(crc_bit ^^ n) (a XOR b) = (crc_bit ^^ n) a XOR (crc_bit ^^ n) b"
  by (induction n) (simp_all add: crc_bit_xor)

lemma crc_bits_low_zero: "(\<And>i. i < k \<Longrightarrow> \<not> bit x i) \<Longrightarrow> (crc_bit ^^ k) x = drop_bit k x"
proof (induction k arbitrary: x)
  case 0
  then show ?case by simp
next
  case (Suc k)
  have "even x" using Suc.prems[of 0] by (simp add: bit_0)
  then have one: "crc_bit x = drop_bit 1 x" by (simp add: crc_bit_alt)
  have "\<And>i. i < k \<Longrightarrow> \<not> bit (drop_bit 1 x) i" using Suc.prems by (simp add: bit_simps)
  then have "(crc_bit ^^ k) (drop_bit 1 x) = drop_bit k (drop_bit 1 x)" by (rule Suc.IH)
  then show ?case by (simp add: funpow_swap1 one)
qed

lemma crc_bit_top: "bit (crc_bit z) 31 \<longleftrightarrow> odd z"
  using bit_imp_le_length[of z 32] by (auto simp: crc_bit_alt bit_simps)

lemma crc_bit_zero: "crc_bit z = 0 \<Longrightarrow> z = 0"
proof -
  assume z: "crc_bit z = 0"
  have ev: "even z" using z crc_bit_top[of z] by simp
  then have "drop_bit 1 z = 0" using z by (simp add: crc_bit_alt)
  with ev show "z = 0" by (rule even_drop_bit_0)
qed

lemma crc_bits_inj: "(crc_bit ^^ n) a = (crc_bit ^^ n) b \<Longrightarrow> a = b"
proof (induction n)
  case 0
  then show ?case by simp
next
  case (Suc n)
  let ?a = "(crc_bit ^^ n) a" and ?b = "(crc_bit ^^ n) b"
  have e: "crc_bit ?a = crc_bit ?b" using Suc.prems by (simp only: funpow.simps comp_apply)
  have "crc_bit (?a XOR ?b) = crc_bit ?a XOR crc_bit ?b" by (rule crc_bit_xor)
  also have "\<dots> = 0" by (simp only: e xor_self_eq)
  finally have "?a XOR ?b = 0" by (rule crc_bit_zero)
  then have "?a = ?b" by (rule xor_eq_0_imp)
  then show ?case by (rule Suc.IH)
qed

lemma crc_step_serial: "crc_step c b = (crc_bit ^^ 8) (c XOR ucast b)"
proof -
  let ?x = "c XOR ucast b"
  have split: "?x = (?x AND 0xFF) XOR (?x AND NOT 0xFF)"
    by (rule bit_word_eqI) (auto simp: bit_simps)
  have "(crc_bit ^^ 8) (?x AND NOT 0xFF) = drop_bit 8 (?x AND NOT 0xFF)"
    by (rule crc_bits_low_zero) (simp add: bit_simps bit_255_u32)
  also have "\<dots> = drop_bit 8 c"
    by (rule bit_word_eqI) (auto simp: bit_simps bit_255_u32 dest: bit_imp_le_length)
  finally have hi: "(crc_bit ^^ 8) (?x AND NOT 0xFF) = drop_bit 8 c" .
  have lo: "crc_tab ! unat (?x AND 0xFF) = (crc_bit ^^ 8) (?x AND 0xFF)"
    using unat_and_255[of ?x] by (simp add: crc_tab_def del: funpow.simps)
  have "(crc_bit ^^ 8) ?x = (crc_bit ^^ 8) (?x AND 0xFF) XOR (crc_bit ^^ 8) (?x AND NOT 0xFF)"
    by (subst split) (rule crc_bits_xor)
  then show ?thesis by (simp only: crc_step_def hi lo)
qed

lemma crc_steps_word:
  "length bs \<le> 4 \<Longrightarrow> foldl crc_step c bs = (crc_bit ^^ (8 * length bs)) (c XOR unle bs)"
proof (induction bs arbitrary: c)
  case Nil
  show ?case by simp
next
  case (Cons b bs)
  let ?u = "unle bs :: u32"
  have len: "length bs \<le> 3" using Cons.prems by simp
  have cons: "unle (b # bs) = ucast b XOR push_bit 8 ?u"
    by (rule bit_word_eqI) (auto simp: bit_simps dest: bit_imp_le_length)
  have "(crc_bit ^^ 8) (push_bit 8 ?u) = drop_bit 8 (push_bit 8 ?u)"
    by (rule crc_bits_low_zero) (simp add: bit_simps)
  also have "\<dots> = ?u"
  proof (rule bit_word_eqI)
    fix n :: nat assume n: "n < LENGTH(32)"
    have "bit ?u n \<Longrightarrow> n < 24" using len by (auto simp: bit_unle)
    then show "bit (drop_bit 8 (push_bit 8 ?u)) n = bit ?u n" by (auto simp: bit_simps)
  qed
  finally have pu: "(crc_bit ^^ 8) (push_bit 8 ?u) = ?u" .
  have "foldl crc_step c (b # bs) = (crc_bit ^^ (8 * length bs)) (crc_step c b XOR ?u)"
    using Cons.IH len by simp
  also have "crc_step c b XOR ?u = (crc_bit ^^ 8) (c XOR unle (b # bs))"
    by (simp only: crc_step_serial cons crc_bits_xor pu flip: xor.assoc)
  also have "(crc_bit ^^ (8 * length bs)) \<dots> = (crc_bit ^^ (8 * length bs + 8)) (c XOR unle (b # bs))"
    by (simp only: funpow_add comp_apply)
  also have "8 * length bs + 8 = 8 * length (b # bs)" by simp
  finally show ?case .
qed

lemma crc_fold_inj: "foldl crc_step c ys = foldl crc_step d ys \<Longrightarrow> c = d"
proof (induction ys arbitrary: c d)
  case Nil
  then show ?case by simp
next
  case (Cons y ys)
  then have "crc_step c y = crc_step d y" by simp
  then have "c XOR ucast y = d XOR ucast y"
    by (simp only: crc_step_serial crc_bits_inj)
  then show ?case by (metis xor_cancel_right)
qed

text \<open>A corruption confined to at most four consecutive bytes always changes the checksum.\<close>

lemma crc32_burst:
  assumes "length bs \<le> 4" "length bs' = length bs" "bs \<noteq> bs'"
  shows "rsdk_crc32 (xs @ bs @ ys) \<noteq> rsdk_crc32 (xs @ bs' @ ys)"
proof
  let ?c = "foldl crc_step 0xFFFFFFFF xs"
  assume "rsdk_crc32 (xs @ bs @ ys) = rsdk_crc32 (xs @ bs' @ ys)"
  then have "foldl crc_step (foldl crc_step ?c bs) ys = foldl crc_step (foldl crc_step ?c bs') ys"
    by (simp add: rsdk_crc32_def) (metis xor_cancel_right)
  then have "foldl crc_step ?c bs = foldl crc_step ?c bs'" by (rule crc_fold_inj)
  then have "?c XOR unle bs = ?c XOR unle bs'"
    using assms by (simp add: crc_steps_word) (rule crc_bits_inj)
  then have "(unle bs :: u32) = unle bs'"
    by (metis xor_cancel_right xor.commute)
  then have "bs = bs'" by (rule unle_inj [rotated 2]) (use assms in simp_all)
  with assms(3) show False by simp
qed

section \<open>Alignment\<close>

definition rsdk_align_up :: "u64 \<Rightarrow> u64 \<Rightarrow> u64" where
  "rsdk_align_up v a = (v + a - 1) div a * a"

lemma align_up_nat:
  assumes "unat v + unat a \<le> 2 ^ 64" "0 < unat a"
  shows "unat (rsdk_align_up v a) = (unat v + unat a - 1) div unat a * unat a"
proof -
  have one: "unat (1 :: u64) \<le> unat a" using assms(2) by simp
  have a1: "unat (a - 1) = unat a - 1" using one by (subst unat_sub_nowrap) auto
  have "unat (v + (a - 1)) = unat v + unat (a - 1)"
    by (rule unat_add_nowrap) (use assms a1 in simp)
  moreover have "v + (a - 1) = v + a - 1" by (simp add: algebra_simps)
  ultimately have s: "unat (v + a - 1) = unat v + unat a - 1" using assms(2) a1 by simp
  have "(unat v + unat a - 1) div unat a * unat a \<le> unat v + unat a - 1" by simp
  also have "\<dots> < 2 ^ 64" using assms unat_64_lt[of v] unat_64_lt[of a] by linarith
  finally show ?thesis
    unfolding rsdk_align_up_def by (subst unat_mult_nowrap) (simp_all add: unat_div_word s)
qed

lemma align_nat_ge: "0 < (a::nat) \<Longrightarrow> v \<le> (v + a - 1) div a * a"
proof -
  assume a: "0 < a"
  have "(v + a - 1) div a * a + (v + a - 1) mod a = v + a - 1" by (rule div_mult_mod_eq)
  moreover have "(v + a - 1) mod a < a" using a by simp
  ultimately show ?thesis by linarith
qed

lemma align_nat_less: "0 < (a::nat) \<Longrightarrow> (v + a - 1) div a * a < v + a"
proof -
  assume a: "0 < a"
  have "(v + a - 1) div a * a \<le> v + a - 1" by simp
  then show ?thesis using a by linarith
qed

text \<open>The least multiple of the alignment that is not below the value.\<close>

lemma align_nat_least: "0 < (a::nat) \<Longrightarrow> v \<le> k * a \<Longrightarrow> (v + a - 1) div a * a \<le> k * a"
proof -
  assume a: "0 < a" and v: "v \<le> k * a"
  have "(v + a - 1) div a \<le> (k * a + a - 1) div a" using v by (intro div_le_mono) simp
  also have "k * a + a - 1 = (a - 1) + k * a" using a by simp
  also have "\<dots> div a = k" using a by (subst div_mult_self1) simp_all
  finally show ?thesis by simp
qed

section \<open>Properties\<close>

text \<open>The checksum detects every short burst. Two byte strings that differ only inside a window
  of at most four bytes have different CRC-32 values; the table-driven step used by the code is the bit-serial
  division by the reflected polynomial.\<close>

theorem crc32_detects_burst:
  assumes "length bs \<le> 4" "length bs' = length bs" "bs \<noteq> bs'"
  shows "rsdk_crc32 (xs @ bs @ ys) \<noteq> rsdk_crc32 (xs @ bs' @ ys) \<and>
    crc_step c b = (crc_bit ^^ 8) (c XOR ucast b)"
  using crc32_burst[OF assms] crc_step_serial by simp

lemma crc32_detects_burst_witness:
  "rsdk_crc32 ([1, 2] @ [3, 4, 5, 6] @ [7]) \<noteq> rsdk_crc32 ([1, 2] @ [3, 4, 5, 7] @ [7])"
  using crc32_detects_burst[of "[3, 4, 5, 6]" "[3, 4, 5, 7]" "[1, 2]" "[7]"] by simp

text \<open>Alignment. For a nonzero alignment and a value whose rounding fits 64 bits, \<open>rsdk_align_up\<close>
  is the least multiple of the alignment that is not below the value.\<close>

theorem align_up_least:
  assumes "unat v + unat a \<le> 2 ^ 64" "0 < unat a"
  shows "unat a dvd unat (rsdk_align_up v a) \<and> unat v \<le> unat (rsdk_align_up v a) \<and>
    unat (rsdk_align_up v a) < unat v + unat a \<and>
    (\<forall>k. unat v \<le> k * unat a \<longrightarrow> unat (rsdk_align_up v a) \<le> k * unat a)"
  unfolding align_up_nat[OF assms]
  using align_nat_ge[OF assms(2)] align_nat_less[OF assms(2)] align_nat_least[OF assms(2)] by simp

lemma align_up_least_witness: "unat (128 :: u64) dvd unat (rsdk_align_up 1000 128) \<and> unat (rsdk_align_up 1000 128) < 1128"
  using align_up_least[of 1000 128] by simp

end
