(* ===== verification/Rsdk_Types.thy ===== *)
theory Rsdk_Types
  imports Rsdk_Util
begin

text \<open>
  components/recorder/include/rsdk_types.h: the packed little-endian structures the recorder
  keeps on the raw disk (SuperBlock, SysTab, FrameRecord header, index slot), each as a record
  with one field per C member, its memory image and the reading of that image. A C byte array of
  fixed size is a list, and the \<open>*_wf\<close> predicates fix its length. The lemmas give the sizes the frozen
  on-disk format prescribes (512, 4096, 64 and 64 bytes) and that reading an image back gives
  the structure that was written.
\<close>

definition RSDK_SEC :: u64 where "RSDK_SEC = 512"

definition RSDK_FRAME_ALIGN :: u64 where "RSDK_FRAME_ALIGN = 128"

definition RSDK_SB_MAGIC :: bytes where
  "RSDK_SB_MAGIC = [0x52, 0x53, 0x44, 0x4B, 0x30, 0x31, 0, 0]"

definition RSDK_FRAME_MAGIC :: bytes where
  "RSDK_FRAME_MAGIC = [0x72, 0x73, 0x64, 0x6B, 0x66, 0x72, 0x6D, 0]"

definition RSDK_HDDFULL_OVERWRITE :: u8 where "RSDK_HDDFULL_OVERWRITE = 0"

definition RSDK_HDDFULL_STOP :: u8 where "RSDK_HDDFULL_STOP = 1"

definition RSDK_SLOT_VALID :: u8 where "RSDK_SLOT_VALID = 0x01"

definition RSDK_SLOT_EVENT :: u8 where "RSDK_SLOT_EVENT = 0x02"

definition RSDK_SLOT_OPEN :: u8 where "RSDK_SLOT_OPEN = 0x04"

definition RSDK_FRAME_I :: u8 where "RSDK_FRAME_I = 0"

definition RSDK_REC_CONTINUOUS :: int where "RSDK_REC_CONTINUOUS = 0"
definition RSDK_REC_MOTION :: int where "RSDK_REC_MOTION = 1"
definition RSDK_REC_HUMAN :: int where "RSDK_REC_HUMAN = 2"
definition RSDK_REC_FACE :: int where "RSDK_REC_FACE = 3"
definition RSDK_REC_VEHICLE :: int where "RSDK_REC_VEHICLE = 4"
definition RSDK_REC_LINECROSS :: int where "RSDK_REC_LINECROSS = 5"
definition RSDK_REC_INTRUSION :: int where "RSDK_REC_INTRUSION = 6"
definition RSDK_REC_ANIMAL :: int where "RSDK_REC_ANIMAL = 7"
definition RSDK_REC_PACKAGE :: int where "RSDK_REC_PACKAGE = 8"
definition RSDK_REC_DOORBELL :: int where "RSDK_REC_DOORBELL = 9"

section \<open>SuperBlock\<close>

record superblock =
  sb_magic :: bytes
  sb_version :: u32
  sb_crc32 :: u32
  sb_disk_uuid :: bytes
  sb_group_uuid :: bytes
  sb_group_disk_index :: u16
  sb_group_disk_count :: u16
  sb_total_sectors :: u64
  sb_rsv_start_sec :: u64
  sb_data_start_sec :: u64
  sb_chunk_sectors :: u64
  sb_chunk_count :: u64
  sb_write_ptr_chunk :: u64
  sb_seq_epoch :: u64
  sb_feature_mask :: u32
  sb_rsvf :: u32
  sb_meta_start_chunk :: u64
  sb_meta_chunk_count :: u64
  sb_enc_algo :: u8
  sb_enc_flags :: u8
  sb_hdd_full :: u8
  sb_rsv0 :: bytes
  sb_kdf_salt :: bytes
  sb_wrapped_dek :: bytes
  sb_dek_kcv :: bytes
  sb_pad :: bytes

definition sb_wf :: "superblock \<Rightarrow> bool" where
  "sb_wf s \<longleftrightarrow> length (sb_magic s) = 8 \<and> length (sb_disk_uuid s) = 16 \<and>
     length (sb_group_uuid s) = 16 \<and> length (sb_rsv0 s) = 5 \<and> length (sb_kdf_salt s) = 16 \<and>
     length (sb_wrapped_dek s) = 48 \<and> length (sb_dek_kcv s) = 8 \<and> length (sb_pad s) = 300"

definition sb_encode :: "superblock \<Rightarrow> bytes" where
  "sb_encode s =
     sb_magic s @ le 4 (sb_version s) @ le 4 (sb_crc32 s) @ sb_disk_uuid s @ sb_group_uuid s @
     le 2 (sb_group_disk_index s) @ le 2 (sb_group_disk_count s) @ le 8 (sb_total_sectors s) @
     le 8 (sb_rsv_start_sec s) @ le 8 (sb_data_start_sec s) @ le 8 (sb_chunk_sectors s) @
     le 8 (sb_chunk_count s) @ le 8 (sb_write_ptr_chunk s) @ le 8 (sb_seq_epoch s) @
     le 4 (sb_feature_mask s) @ le 4 (sb_rsvf s) @ le 8 (sb_meta_start_chunk s) @
     le 8 (sb_meta_chunk_count s) @ le 1 (sb_enc_algo s) @ le 1 (sb_enc_flags s) @ le 1 (sb_hdd_full s) @
     sb_rsv0 s @ sb_kdf_salt s @ sb_wrapped_dek s @ sb_dek_kcv s @ sb_pad s"

definition sb_decode :: "bytes \<Rightarrow> superblock" where
  "sb_decode b =
     \<lparr>sb_magic = slice 0 8 b, sb_version = unle (slice 8 4 b), sb_crc32 = unle (slice 12 4 b),
      sb_disk_uuid = slice 16 16 b, sb_group_uuid = slice 32 16 b,
      sb_group_disk_index = unle (slice 48 2 b), sb_group_disk_count = unle (slice 50 2 b),
      sb_total_sectors = unle (slice 52 8 b), sb_rsv_start_sec = unle (slice 60 8 b),
      sb_data_start_sec = unle (slice 68 8 b), sb_chunk_sectors = unle (slice 76 8 b),
      sb_chunk_count = unle (slice 84 8 b), sb_write_ptr_chunk = unle (slice 92 8 b),
      sb_seq_epoch = unle (slice 100 8 b), sb_feature_mask = unle (slice 108 4 b),
      sb_rsvf = unle (slice 112 4 b), sb_meta_start_chunk = unle (slice 116 8 b),
      sb_meta_chunk_count = unle (slice 124 8 b), sb_enc_algo = unle (slice 132 1 b),
      sb_enc_flags = unle (slice 133 1 b), sb_hdd_full = unle (slice 134 1 b),
      sb_rsv0 = slice 135 5 b, sb_kdf_salt = slice 140 16 b, sb_wrapped_dek = slice 156 48 b,
      sb_dek_kcv = slice 204 8 b, sb_pad = slice 212 300 b\<rparr>"

lemma sb_encode_length [lens]: "sb_wf s \<Longrightarrow> length (sb_encode s) = 512"
  by (simp add: sb_encode_def sb_wf_def)

lemma sb_roundtrip: "sb_wf s \<Longrightarrow> sb_decode (sb_encode s) = s"
  by (simp add: sb_decode_def sb_encode_def sb_wf_def slice_append slice_beyond slice_none slice_0_all)

lemma sb_decode_wf: "length b = 512 \<Longrightarrow> sb_wf (sb_decode b)"
  by (simp add: sb_decode_def sb_wf_def)

section \<open>SysTab\<close>

record chn_cursor =
  cc_cur_chunk :: u64
  cc_cur_off :: u32
  cc_seg_seq :: u32

definition chn_encode :: "chn_cursor \<Rightarrow> bytes" where
  "chn_encode c = le 8 (cc_cur_chunk c) @ le 4 (cc_cur_off c) @ le 4 (cc_seg_seq c)"

definition chn_decode :: "bytes \<Rightarrow> chn_cursor" where
  "chn_decode b = \<lparr>cc_cur_chunk = unle (slice 0 8 b), cc_cur_off = unle (slice 8 4 b),
     cc_seg_seq = unle (slice 12 4 b)\<rparr>"

lemma length_chn_encode [simp, lens]: "length (chn_encode c) = 16"
  by (simp add: chn_encode_def)

lemma chn_roundtrip: "chn_decode (chn_encode c) = c"
  by (simp add: chn_decode_def chn_encode_def slice_append slice_beyond slice_none slice_0_all)

record systab =
  st_magic :: u32
  st_sys_version :: u32
  st_systab_size :: u32
  st_crc32 :: u32
  st_format_time :: u64
  st_bitmap_start_sec :: u64
  st_bitmap_sectors :: u64
  st_index_start_sec :: u64
  st_index_sectors :: u64
  st_index_slot_size :: u32
  st_index_slot_count :: u32
  st_index_next :: u32
  st_rsvi :: u32
  st_meta_next_off :: u64
  st_meta_bytes :: u64
  st_chn :: "chn_cursor list"
  st_rsv :: bytes

definition st_wf :: "systab \<Rightarrow> bool" where
  "st_wf s \<longleftrightarrow> length (st_chn s) = 32 \<and> length (st_rsv s) = 3496"

definition st_encode :: "systab \<Rightarrow> bytes" where
  "st_encode s =
     le 4 (st_magic s) @ le 4 (st_sys_version s) @ le 4 (st_systab_size s) @ le 4 (st_crc32 s) @
     le 8 (st_format_time s) @ le 8 (st_bitmap_start_sec s) @ le 8 (st_bitmap_sectors s) @
     le 8 (st_index_start_sec s) @ le 8 (st_index_sectors s) @ le 4 (st_index_slot_size s) @
     le 4 (st_index_slot_count s) @ le 4 (st_index_next s) @ le 4 (st_rsvi s) @
     le 8 (st_meta_next_off s) @ le 8 (st_meta_bytes s) @
     concat (map chn_encode (st_chn s)) @ st_rsv s"

definition st_decode :: "bytes \<Rightarrow> systab" where
  "st_decode b =
     \<lparr>st_magic = unle (slice 0 4 b), st_sys_version = unle (slice 4 4 b),
      st_systab_size = unle (slice 8 4 b), st_crc32 = unle (slice 12 4 b),
      st_format_time = unle (slice 16 8 b), st_bitmap_start_sec = unle (slice 24 8 b),
      st_bitmap_sectors = unle (slice 32 8 b), st_index_start_sec = unle (slice 40 8 b),
      st_index_sectors = unle (slice 48 8 b), st_index_slot_size = unle (slice 56 4 b),
      st_index_slot_count = unle (slice 60 4 b), st_index_next = unle (slice 64 4 b),
      st_rsvi = unle (slice 68 4 b), st_meta_next_off = unle (slice 72 8 b),
      st_meta_bytes = unle (slice 80 8 b),
      st_chn = map (\<lambda>i. chn_decode (slice (16 * i) 16 (slice 88 512 b))) [0..<32],
      st_rsv = slice 600 3496 b\<rparr>"

lemma length_concat_chn: "length (concat (map chn_encode cs)) = 16 * length cs"
  by (induction cs) simp_all

lemma slice_concat_chn:
  "i < length cs \<Longrightarrow> slice (16 * i) 16 (concat (map chn_encode cs)) = chn_encode (cs ! i)"
proof (induction cs arbitrary: i)
  case Nil
  then show ?case by simp
next
  case (Cons c cs)
  show ?case
  proof (cases i)
    case 0
    then show ?thesis by (simp add: slice_0_append)
  next
    case (Suc j)
    then show ?thesis using Cons by (simp add: slice_skip)
  qed
qed

lemma chn_table_roundtrip:
  assumes "length cs = 32"
  shows "map (\<lambda>i. chn_decode (slice (16 * i) 16 (concat (map chn_encode cs)))) [0..<32] = cs"
proof (rule nth_equalityI)
  show "length (map (\<lambda>i. chn_decode (slice (16 * i) 16 (concat (map chn_encode cs)))) [0..<32])
      = length cs" using assms by simp
qed (use assms in \<open>simp add: slice_concat_chn chn_roundtrip\<close>)

lemma st_encode_length [lens]: "st_wf s \<Longrightarrow> length (st_encode s) = 4096"
  by (simp add: st_encode_def st_wf_def length_concat_chn)

lemma st_roundtrip:
  assumes "st_wf s"
  shows "st_decode (st_encode s) = s"
proof -
  have len: "length (concat (map chn_encode (st_chn s))) = 512" "length (st_chn s) = 32"
    "length (st_rsv s) = 3496"
    using assms by (simp_all add: st_wf_def length_concat_chn)
  have chn: "slice 88 512 (st_encode s) = concat (map chn_encode (st_chn s))"
    using len by (simp add: st_encode_def slice_append slice_beyond slice_none slice_0_all del: length_concat)
  show ?thesis
    unfolding st_decode_def chn chn_table_roundtrip[OF len(2)]
    using len by (simp add: st_encode_def slice_append slice_beyond slice_none slice_0_all del: length_concat)
qed

lemma st_decode_wf: "length b = 4096 \<Longrightarrow> st_wf (st_decode b)"
  by (simp add: st_decode_def st_wf_def)

section \<open>FrameRecord header\<close>

record frame_hdr =
  fh_magic :: bytes
  fh_chn :: u16
  fh_stream :: u8
  fh_codec :: u8
  fh_frame_type :: u8
  fh_enc :: u8
  fh_rsv0 :: u16
  fh_payload_len :: u32
  fh_seg_id :: u32
  fh_frame_seq :: u32
  fh_pts :: u64
  fh_wall_time :: u64
  fh_iv_nonce :: bytes
  fh_hdr_crc32 :: u32
  fh_rsvh :: bytes

definition fh_wf :: "frame_hdr \<Rightarrow> bool" where
  "fh_wf h \<longleftrightarrow> length (fh_magic h) = 8 \<and> length (fh_iv_nonce h) = 8 \<and> length (fh_rsvh h) = 8"

definition fh_encode :: "frame_hdr \<Rightarrow> bytes" where
  "fh_encode h =
     fh_magic h @ le 2 (fh_chn h) @ le 1 (fh_stream h) @ le 1 (fh_codec h) @ le 1 (fh_frame_type h) @
     le 1 (fh_enc h) @ le 2 (fh_rsv0 h) @ le 4 (fh_payload_len h) @ le 4 (fh_seg_id h) @
     le 4 (fh_frame_seq h) @ le 8 (fh_pts h) @ le 8 (fh_wall_time h) @ fh_iv_nonce h @
     le 4 (fh_hdr_crc32 h) @ fh_rsvh h"

definition fh_decode :: "bytes \<Rightarrow> frame_hdr" where
  "fh_decode b =
     \<lparr>fh_magic = slice 0 8 b, fh_chn = unle (slice 8 2 b), fh_stream = unle (slice 10 1 b),
      fh_codec = unle (slice 11 1 b), fh_frame_type = unle (slice 12 1 b),
      fh_enc = unle (slice 13 1 b), fh_rsv0 = unle (slice 14 2 b),
      fh_payload_len = unle (slice 16 4 b), fh_seg_id = unle (slice 20 4 b),
      fh_frame_seq = unle (slice 24 4 b), fh_pts = unle (slice 28 8 b),
      fh_wall_time = unle (slice 36 8 b), fh_iv_nonce = slice 44 8 b,
      fh_hdr_crc32 = unle (slice 52 4 b), fh_rsvh = slice 56 8 b\<rparr>"

lemma fh_encode_length [lens]: "fh_wf h \<Longrightarrow> length (fh_encode h) = 64"
  by (simp add: fh_encode_def fh_wf_def)

lemma fh_roundtrip: "fh_wf h \<Longrightarrow> fh_decode (fh_encode h) = h"
  by (simp add: fh_decode_def fh_encode_def fh_wf_def slice_append slice_beyond slice_none slice_0_all)

lemma fh_decode_wf: "length b = 64 \<Longrightarrow> fh_wf (fh_decode b)"
  by (simp add: fh_decode_def fh_wf_def)

section \<open>Index slot\<close>

record index_slot =
  sl_seg_id :: u32
  sl_chn :: u16
  sl_rectype :: u8
  sl_flags :: u8
  sl_start_time :: u32
  sl_end_time :: u32
  sl_frame_count :: u32
  sl_total_bytes :: u64
  sl_start_disk :: u16
  sl_end_disk :: u16
  sl_start_chunk :: u64
  sl_start_off :: u32
  sl_end_chunk :: u64
  sl_end_off :: u32
  sl_crc32 :: u32
  sl_pad :: bytes

definition sl_wf :: "index_slot \<Rightarrow> bool" where
  "sl_wf s \<longleftrightarrow> length (sl_pad s) = 4"

definition sl_encode :: "index_slot \<Rightarrow> bytes" where
  "sl_encode s =
     le 4 (sl_seg_id s) @ le 2 (sl_chn s) @ le 1 (sl_rectype s) @ le 1 (sl_flags s) @
     le 4 (sl_start_time s) @ le 4 (sl_end_time s) @ le 4 (sl_frame_count s) @
     le 8 (sl_total_bytes s) @ le 2 (sl_start_disk s) @ le 2 (sl_end_disk s) @
     le 8 (sl_start_chunk s) @ le 4 (sl_start_off s) @ le 8 (sl_end_chunk s) @
     le 4 (sl_end_off s) @ le 4 (sl_crc32 s) @ sl_pad s"

definition sl_decode :: "bytes \<Rightarrow> index_slot" where
  "sl_decode b =
     \<lparr>sl_seg_id = unle (slice 0 4 b), sl_chn = unle (slice 4 2 b),
      sl_rectype = unle (slice 6 1 b), sl_flags = unle (slice 7 1 b),
      sl_start_time = unle (slice 8 4 b), sl_end_time = unle (slice 12 4 b),
      sl_frame_count = unle (slice 16 4 b), sl_total_bytes = unle (slice 20 8 b),
      sl_start_disk = unle (slice 28 2 b), sl_end_disk = unle (slice 30 2 b),
      sl_start_chunk = unle (slice 32 8 b), sl_start_off = unle (slice 40 4 b),
      sl_end_chunk = unle (slice 44 8 b), sl_end_off = unle (slice 52 4 b),
      sl_crc32 = unle (slice 56 4 b), sl_pad = slice 60 4 b\<rparr>"

lemma sl_encode_length [lens]: "sl_wf s \<Longrightarrow> length (sl_encode s) = 64"
  by (simp add: sl_encode_def sl_wf_def)

lemma sl_roundtrip: "sl_wf s \<Longrightarrow> sl_decode (sl_encode s) = s"
  by (simp add: sl_decode_def sl_encode_def sl_wf_def slice_append slice_beyond slice_none slice_0_all)

lemma sl_decode_wf: "length b = 64 \<Longrightarrow> sl_wf (sl_decode b)"
  by (simp add: sl_decode_def sl_wf_def)

section \<open>Application-level frame and segment reference\<close>

record rsdk_frame =
  fr_chn :: u16
  fr_stream :: u8
  fr_codec :: u8
  fr_frame_type :: u8
  fr_pts :: u64
  fr_wall_time :: u64
  fr_data :: bytes

section \<open>Properties\<close>

text \<open>The on-disk structures round-trip. A well-formed SuperBlock, SysTab, frame header and
  index slot have the 512, 4096, 64 and 64 bytes of the frozen format, and reading back the bytes that were written gives
  the structure that was written, field by field.\<close>

theorem disk_structures_roundtrip:
  assumes "sb_wf sb" "st_wf st" "fh_wf fh" "sl_wf sl"
  shows "length (sb_encode sb) = 512 \<and> sb_decode (sb_encode sb) = sb \<and>
    length (st_encode st) = 4096 \<and> st_decode (st_encode st) = st \<and>
    length (fh_encode fh) = 64 \<and> fh_decode (fh_encode fh) = fh \<and>
    length (sl_encode sl) = 64 \<and> sl_decode (sl_encode sl) = sl"
  using sb_encode_length[OF assms(1)] sb_roundtrip[OF assms(1)] st_encode_length[OF assms(2)] st_roundtrip[OF assms(2)]
    fh_encode_length[OF assms(3)] fh_roundtrip[OF assms(3)] sl_encode_length[OF assms(4)] sl_roundtrip[OF assms(4)]
  by blast

lemma disk_structures_roundtrip_witness:
  "let sb = sb_decode (replicate 512 3); st = st_decode (replicate 4096 5); fh = fh_decode (replicate 64 7);
       sl = sl_decode (replicate 64 9)
   in sb_decode (sb_encode sb) = sb \<and> st_decode (st_encode st) = st \<and> fh_decode (fh_encode fh) = fh \<and>
      sl_decode (sl_encode sl) = sl"
  unfolding Let_def
  using disk_structures_roundtrip[OF sb_decode_wf st_decode_wf fh_decode_wf sl_decode_wf,
      OF length_replicate length_replicate length_replicate length_replicate, of 3 5 7 9] by blast

end
