(* ===== verification/Rsdk_Crypto.thy ===== *)
theory Rsdk_Crypto
  imports Rsdk_Types
begin

text \<open>
  components/recorder/src/rsdk_crypto.c: AES-256 (key expansion and block encryption), the CTR
  stream that encrypts frame payloads and snapshots, the key derivation and the wrapping of the
  data key. C arrays are lists. The model is the software path; the /dev/crypto path is compiled
  in only where that header exists, and falls back to this one when the device is missing.
\<close>

section \<open>AES-256 tables\<close>

definition SBOX :: "u8 list" where
  "SBOX = [
0x63,0x7c,0x77,0x7b,0xf2,0x6b,0x6f,0xc5,0x30,0x01,0x67,0x2b,0xfe,0xd7,0xab,0x76,
0xca,0x82,0xc9,0x7d,0xfa,0x59,0x47,0xf0,0xad,0xd4,0xa2,0xaf,0x9c,0xa4,0x72,0xc0,
0xb7,0xfd,0x93,0x26,0x36,0x3f,0xf7,0xcc,0x34,0xa5,0xe5,0xf1,0x71,0xd8,0x31,0x15,
0x04,0xc7,0x23,0xc3,0x18,0x96,0x05,0x9a,0x07,0x12,0x80,0xe2,0xeb,0x27,0xb2,0x75,
0x09,0x83,0x2c,0x1a,0x1b,0x6e,0x5a,0xa0,0x52,0x3b,0xd6,0xb3,0x29,0xe3,0x2f,0x84,
0x53,0xd1,0x00,0xed,0x20,0xfc,0xb1,0x5b,0x6a,0xcb,0xbe,0x39,0x4a,0x4c,0x58,0xcf,
0xd0,0xef,0xaa,0xfb,0x43,0x4d,0x33,0x85,0x45,0xf9,0x02,0x7f,0x50,0x3c,0x9f,0xa8,
0x51,0xa3,0x40,0x8f,0x92,0x9d,0x38,0xf5,0xbc,0xb6,0xda,0x21,0x10,0xff,0xf3,0xd2,
0xcd,0x0c,0x13,0xec,0x5f,0x97,0x44,0x17,0xc4,0xa7,0x7e,0x3d,0x64,0x5d,0x19,0x73,
0x60,0x81,0x4f,0xdc,0x22,0x2a,0x90,0x88,0x46,0xee,0xb8,0x14,0xde,0x5e,0x0b,0xdb,
0xe0,0x32,0x3a,0x0a,0x49,0x06,0x24,0x5c,0xc2,0xd3,0xac,0x62,0x91,0x95,0xe4,0x79,
0xe7,0xc8,0x37,0x6d,0x8d,0xd5,0x4e,0xa9,0x6c,0x56,0xf4,0xea,0x65,0x7a,0xae,0x08,
0xba,0x78,0x25,0x2e,0x1c,0xa6,0xb4,0xc6,0xe8,0xdd,0x74,0x1f,0x4b,0xbd,0x8b,0x8a,
0x70,0x3e,0xb5,0x66,0x48,0x03,0xf6,0x0e,0x61,0x35,0x57,0xb9,0x86,0xc1,0x1d,0x9e,
0xe1,0xf8,0x98,0x11,0x69,0xd9,0x8e,0x94,0x9b,0x1e,0x87,0xe9,0xce,0x55,0x28,0xdf,
0x8c,0xa1,0x89,0x0d,0xbf,0xe6,0x42,0x68,0x41,0x99,0x2d,0x0f,0xb0,0x54,0xbb,0x16]"

definition RCON :: "u8 list" where
  "RCON = [0x00,0x01,0x02,0x04,0x08,0x10,0x20,0x40,0x80,0x1b,0x36]"

definition sbox :: "u8 \<Rightarrow> u8" where
  "sbox b = SBOX ! unat b"

section \<open>Key expansion\<close>

definition subword :: "u32 \<Rightarrow> u32" where
  "subword w = push_bit 24 (ucast (sbox (ucast (drop_bit 24 w)))) OR
     push_bit 16 (ucast (sbox (ucast (drop_bit 16 w)))) OR
     push_bit 8 (ucast (sbox (ucast (drop_bit 8 w)))) OR ucast (sbox (ucast w))"

definition key_word :: "bytes \<Rightarrow> nat \<Rightarrow> u32" where
  "key_word key i = push_bit 24 (ucast (key ! (4 * i))) OR push_bit 16 (ucast (key ! (4 * i + 1))) OR
     push_bit 8 (ucast (key ! (4 * i + 2))) OR ucast (key ! (4 * i + 3))"

definition key_next :: "nat \<Rightarrow> u32 list \<Rightarrow> u32 list" where
  "key_next i rk =
     (let t = rk ! (i - 1);
          t = (if i mod 8 = 0
               then subword (push_bit 8 t OR drop_bit 24 t) XOR push_bit 24 (ucast (RCON ! (i div 8)))
               else if i mod 8 = 4 then subword t else t)
      in rk @ [rk ! (i - 8) XOR t])"

definition rsdk_aes256_key :: "bytes \<Rightarrow> u32 list" where
  "rsdk_aes256_key key = fold key_next [8..<60] (map (key_word key) [0..<8])"

section \<open>Block encryption\<close>

definition xtime :: "u8 \<Rightarrow> u8" where
  "xtime x = push_bit 1 x XOR (drop_bit 7 x * 0x1b)"

definition add_round_key :: "u32 list \<Rightarrow> nat \<Rightarrow> bytes \<Rightarrow> bytes" where
  "add_round_key rk r s =
     map (\<lambda>j. s ! j XOR ucast (drop_bit (24 - 8 * (j mod 4)) (rk ! (4 * r + j div 4)))) [0..<16]"

definition shift_rows :: "bytes \<Rightarrow> bytes" where
  "shift_rows s = map (\<lambda>j. s ! (4 * ((j div 4 + j mod 4) mod 4) + j mod 4)) [0..<16]"

fun mix_column :: "u8 \<Rightarrow> u8 \<Rightarrow> u8 \<Rightarrow> u8 \<Rightarrow> bytes" where
  "mix_column a0 a1 a2 a3 =
     [xtime a0 XOR (xtime a1 XOR a1) XOR a2 XOR a3,
      a0 XOR xtime a1 XOR (xtime a2 XOR a2) XOR a3,
      a0 XOR a1 XOR xtime a2 XOR (xtime a3 XOR a3),
      (xtime a0 XOR a0) XOR a1 XOR a2 XOR xtime a3]"

definition mix_columns :: "bytes \<Rightarrow> bytes" where
  "mix_columns s = concat (map (\<lambda>c. mix_column (s ! (4 * c)) (s ! (4 * c + 1))
     (s ! (4 * c + 2)) (s ! (4 * c + 3))) [0..<4])"

definition aes_round :: "u32 list \<Rightarrow> nat \<Rightarrow> bytes \<Rightarrow> bytes" where
  "aes_round rk r s =
     (let t = shift_rows (map sbox s);
          u = (if r \<noteq> 14 then mix_columns t else t)
      in add_round_key rk r u)"

definition rsdk_aes256_encrypt_block :: "u32 list \<Rightarrow> bytes \<Rightarrow> bytes" where
  "rsdk_aes256_encrypt_block rk inp = fold (aes_round rk) [1..<15] (add_round_key rk 0 inp)"


section \<open>The CTR stream\<close>

text \<open>The handle \<open>rsdk_crypto_t\<close> is its round keys: the software path reads nothing else.\<close>

type_synonym rsdk_crypto = "u32 list"

definition rsdk_crypto_open :: "bytes \<Rightarrow> rsdk_crypto" where
  "rsdk_crypto_open dek = rsdk_aes256_key dek"

definition ctr_block :: "u32 \<Rightarrow> u32 \<Rightarrow> u64 \<Rightarrow> bytes" where
  "ctr_block seg frm blk = be32 seg @ be32 frm @ map (\<lambda>i. ucast (drop_bit (56 - 8 * i) blk)) [0..<8]"

function xcrypt_loop :: "rsdk_crypto \<Rightarrow> u32 \<Rightarrow> u32 \<Rightarrow> u64 \<Rightarrow> nat \<Rightarrow> bytes \<Rightarrow> bytes" where
  "xcrypt_loop c seg frm blk skip buf =
     (if buf = [] then []
      else let ks = rsdk_aes256_encrypt_block c (ctr_block seg frm blk);
               n = min (16 - skip) (length buf)
           in map2 (XOR) (take n buf) (drop skip ks) @ xcrypt_loop c seg frm (blk + 1) 0 (drop n buf))"
  by pat_completeness auto
termination
  by (relation "measures [\<lambda>(c, seg, frm, blk, skip, buf). length buf, \<lambda>(c, seg, frm, blk, skip, buf). skip]")
    (simp_all flip: length_greater_0_conv, arith)

declare xcrypt_loop.simps [simp del]

definition rsdk_crypto_xcrypt :: "rsdk_crypto \<Rightarrow> u32 \<Rightarrow> u32 \<Rightarrow> u64 \<Rightarrow> bytes \<Rightarrow> bytes" where
  "rsdk_crypto_xcrypt c seg frm off buf = xcrypt_loop c seg frm (off div 16) (unat (off mod 16)) buf"

section \<open>Key derivation and wrapping\<close>

definition RSDK_DEFAULT_SN :: bytes where
  "RSDK_DEFAULT_SN = [0x4E, 0x54, 0x31, 0x32, 0x2D, 0x33, 0x32]"

definition rsdk_kdf_kek :: "bytes option \<Rightarrow> bytes \<Rightarrow> bytes" where
  "rsdk_kdf_kek sn salt =
     (let snb = (case sn of None \<Rightarrow> [] | Some s \<Rightarrow> take 16 (takeWhile (\<lambda>b. b \<noteq> 0) s));
          seed = map (\<lambda>i. 0x5a XOR salt ! i) [0..<16] @
                 map (\<lambda>i. if i < length snb then 0x5a XOR snb ! i else 0x5a) [0..<16];
          rk = rsdk_aes256_key seed;
          k0 = rsdk_aes256_encrypt_block rk (replicate 16 0);
          k1 = rsdk_aes256_encrypt_block rk (map (\<lambda>b. b XOR 0xff) k0)
      in k0 @ k1)"

definition kek_kcv :: "bytes \<Rightarrow> bytes" where
  "kek_kcv kek = take 8 (rsdk_aes256_encrypt_block (rsdk_crypto_open kek) (replicate 16 0))"

definition rsdk_dek_wrap :: "bytes \<Rightarrow> bytes \<Rightarrow> bytes \<times> bytes" where
  "rsdk_dek_wrap kek dek =
     (rsdk_crypto_xcrypt (rsdk_crypto_open kek) 0xA5A5A5A5 0 0 dek @ replicate 16 0, kek_kcv kek)"

definition rsdk_dek_unwrap :: "bytes \<Rightarrow> bytes \<Rightarrow> bytes \<Rightarrow> rsdk_err + bytes" where
  "rsdk_dek_unwrap kek wrapped kcv =
     (if kek_kcv kek \<noteq> kcv then Inl RSDK_E_CRYPTO
      else Inr (rsdk_crypto_xcrypt (rsdk_crypto_open kek) 0xA5A5A5A5 0 0 (take 32 wrapped)))"

section \<open>Lengths\<close>

lemma length_add_round_key [simp, lens]: "length (add_round_key rk r s) = 16"
  by (simp add: add_round_key_def)

lemma length_aes_round [simp, lens]: "length (aes_round rk r s) = 16"
  by (simp add: aes_round_def Let_def)

lemma length_encrypt_block [simp, lens]: "length (rsdk_aes256_encrypt_block rk inp) = 16"
proof -
  have "length s = 16 \<Longrightarrow> length (fold (aes_round rk) rs s) = 16" for rs s
    by (induction rs arbitrary: s) auto
  then show ?thesis by (simp add: rsdk_aes256_encrypt_block_def)
qed

lemma length_fold_key_next: "length (fold key_next is rk) = length rk + length is"
  by (induction "is" arbitrary: rk) (simp_all add: key_next_def Let_def)

lemma length_aes256_key: "length (rsdk_aes256_key key) = 60"
  unfolding rsdk_aes256_key_def length_fold_key_next by simp

lemma length_kdf_kek [lens]: "length (rsdk_kdf_kek sn salt) = 32"
  by (simp add: rsdk_kdf_kek_def Let_def)

lemma length_kek_kcv [lens]: "length (kek_kcv kek) = 8"
  by (simp add: kek_kcv_def)

section \<open>The stream, byte by byte\<close>

lemma xcrypt_loop_spec:
  "skip < 16 \<Longrightarrow>
     length (xcrypt_loop c seg frm blk skip buf) = length buf \<and>
     (\<forall>k < length buf. xcrypt_loop c seg frm blk skip buf ! k =
        buf ! k XOR rsdk_aes256_encrypt_block c (ctr_block seg frm (blk + of_nat ((skip + k) div 16)))
                      ! ((skip + k) mod 16))"
proof (induction c seg frm blk skip buf rule: xcrypt_loop.induct)
  case (1 c seg frm blk skip buf)
  show ?case
  proof (cases "buf = []")
    case True
    then show ?thesis by (simp add: xcrypt_loop.simps)
  next
    case False
    let ?E = "\<lambda>b. rsdk_aes256_encrypt_block c (ctr_block seg frm b)"
    let ?n = "min (16 - skip) (length buf)"
    let ?head = "map2 (XOR) (take ?n buf) (drop skip (?E blk))"
    let ?tail = "xcrypt_loop c seg frm (blk + 1) 0 (drop ?n buf)"
    have eq: "xcrypt_loop c seg frm blk skip buf = ?head @ ?tail"
      using False by (simp add: xcrypt_loop.simps[of c seg frm blk skip buf] Let_def)
    have lh: "length ?head = ?n" using "1.prems" by simp
    have IH: "length ?tail = length (drop ?n buf)"
      "\<And>k. k < length (drop ?n buf) \<Longrightarrow> ?tail ! k = drop ?n buf ! k XOR
          ?E (blk + 1 + of_nat ((0 + k) div 16)) ! ((0 + k) mod 16)"
      using "1.IH"[OF False refl refl] by simp_all
    have nth: "(?head @ ?tail) ! k = buf ! k XOR ?E (blk + of_nat ((skip + k) div 16)) ! ((skip + k) mod 16)"
      if k: "k < length buf" for k
    proof (cases "k < ?n")
      case True
      then have "skip + k < 16" using "1.prems" by auto
      with True k lh show ?thesis by (simp add: nth_append)
    next
      case False
      then have n: "?n = 16 - skip" and ge: "16 - skip \<le> k" using k by auto
      define j where "j = k - (16 - skip)"
      have kj: "k = (16 - skip) + j" "skip + k = j + 16" using ge "1.prems" by (auto simp: j_def)
      have d: "(skip + k) div 16 = Suc (j div 16)" "(skip + k) mod 16 = j mod 16"
        unfolding kj(2) by simp_all
      have "(?head @ ?tail) ! k = ?tail ! j" using lh n kj(1) by (simp add: nth_append)
      also have "\<dots> = drop ?n buf ! j XOR ?E (blk + 1 + of_nat (j div 16)) ! (j mod 16)"
        using IH(2)[of j] k kj(1) n by simp
      also have "drop ?n buf ! j = buf ! k" using n kj(1) k by simp
      finally show ?thesis unfolding d by (simp add: algebra_simps)
    qed
    show ?thesis unfolding eq using nth lh IH(1) by auto
  qed
qed

lemma skip_less: "unat (off mod (16 :: u64)) < 16"
  by (simp add: unat_mod_word)

lemma length_xcrypt [simp, lens]: "length (rsdk_crypto_xcrypt c seg frm off buf) = length buf"
  using xcrypt_loop_spec[OF skip_less] by (simp add: rsdk_crypto_xcrypt_def)

text \<open>The byte of the keystream at payload offset \<open>off + k\<close>.\<close>

definition keystream :: "rsdk_crypto \<Rightarrow> u32 \<Rightarrow> u32 \<Rightarrow> u64 \<Rightarrow> nat \<Rightarrow> u8" where
  "keystream c seg frm off k =
     rsdk_aes256_encrypt_block c (ctr_block seg frm (off div 16 + of_nat ((unat (off mod 16) + k) div 16)))
       ! ((unat (off mod 16) + k) mod 16)"

lemma xcrypt_nth:
  "k < length buf \<Longrightarrow> rsdk_crypto_xcrypt c seg frm off buf ! k = buf ! k XOR keystream c seg frm off k"
  using xcrypt_loop_spec[OF skip_less] by (simp add: rsdk_crypto_xcrypt_def keystream_def)

section \<open>Encryption and decryption, random access, key wrapping\<close>

lemma xcrypt_involution: "rsdk_crypto_xcrypt c seg frm off (rsdk_crypto_xcrypt c seg frm off buf) = buf"
  by (rule nth_equalityI) (simp_all add: xcrypt_nth xor_cancel_right)

lemma keystream_shift:
  assumes "unat off + j < 2 ^ 64"
  shows "keystream c seg frm (off + of_nat j) k = keystream c seg frm off (j + k)"
proof -
  have j: "unat (of_nat j :: u64) = j" using assms by (simp add: unsigned_of_nat take_bit_nat_eq_self)
  have s: "unat (off + of_nat j) = unat off + j"
    using assms j by (subst unat_add_nowrap) simp_all
  have m: "unat ((off + of_nat j) mod 16) = (unat off + j) mod 16" by (simp add: unat_mod_word s)
  have d: "(off + of_nat j) div 16 = of_nat ((unat off + j) div 16)"
    by (simp add: word_arith_nat_div[of "off + of_nat j" 16] s)
  have d0: "off div 16 = of_nat (unat off div 16)"
    by (simp add: word_arith_nat_div[of off 16])
  have m0: "unat (off mod 16) = unat off mod 16" by (simp add: unat_mod_word)
  have q1: "a div 16 + (a mod 16 + n) div 16 = (a + n) div 16" for a n :: nat
  proof -
    have "a + n = 16 * (a div 16) + (a mod 16 + n)" by simp
    then have "(a + n) div 16 = (16 * (a div 16) + (a mod 16 + n)) div 16" by (rule arg_cong)
    also have "\<dots> = a div 16 + (a mod 16 + n) div 16" by (rule div_mult_self4) simp
    finally show ?thesis by (rule sym)
  qed
  have q2: "(a mod 16 + n) mod 16 = (a + n) mod 16" for a n :: nat by (rule mod_add_left_eq)
  have i1: "(unat off + j) div 16 + ((unat off + j) mod 16 + k) div 16 =
      unat off div 16 + (unat off mod 16 + (j + k)) div 16"
    by (simp only: q1 add.assoc)
  have i2: "((unat off + j) mod 16 + k) mod 16 = (unat off mod 16 + (j + k)) mod 16"
    by (simp only: q2 add.assoc)
  show ?thesis
    unfolding keystream_def m m0 d d0 of_nat_add[symmetric] i1 i2 by (rule refl)
qed

lemma xcrypt_drop:
  assumes "unat off + j < 2 ^ 64"
  shows "rsdk_crypto_xcrypt c seg frm (off + of_nat j) (drop j buf) = drop j (rsdk_crypto_xcrypt c seg frm off buf)"
  by (rule nth_equalityI) (simp_all add: xcrypt_nth keystream_shift[OF assms])

lemma dek_unwrap_wrap:
  "length dek = 32 \<Longrightarrow>
     rsdk_dek_unwrap kek (fst (rsdk_dek_wrap kek dek)) (snd (rsdk_dek_wrap kek dek)) = Inr dek"
  by (simp add: rsdk_dek_wrap_def rsdk_dek_unwrap_def xcrypt_involution)

lemma dek_unwrap_other:
  "kek_kcv kek' \<noteq> kek_kcv kek \<Longrightarrow> rsdk_dek_unwrap kek' (fst (rsdk_dek_wrap kek dek)) (snd (rsdk_dek_wrap kek dek)) = Inl RSDK_E_CRYPTO"
  by (simp add: rsdk_dek_wrap_def rsdk_dek_unwrap_def)

section \<open>The block cipher is injective\<close>

text \<open>The inverse of the S-box, as a lookup table: evaluating it on the whole table shows that the
  S-box is a permutation.\<close>

definition INV_SBOX :: "nat list" where
  "INV_SBOX = [
0x52,0x09,0x6a,0xd5,0x30,0x36,0xa5,0x38,0xbf,0x40,0xa3,0x9e,0x81,0xf3,0xd7,0xfb,
0x7c,0xe3,0x39,0x82,0x9b,0x2f,0xff,0x87,0x34,0x8e,0x43,0x44,0xc4,0xde,0xe9,0xcb,
0x54,0x7b,0x94,0x32,0xa6,0xc2,0x23,0x3d,0xee,0x4c,0x95,0x0b,0x42,0xfa,0xc3,0x4e,
0x08,0x2e,0xa1,0x66,0x28,0xd9,0x24,0xb2,0x76,0x5b,0xa2,0x49,0x6d,0x8b,0xd1,0x25,
0x72,0xf8,0xf6,0x64,0x86,0x68,0x98,0x16,0xd4,0xa4,0x5c,0xcc,0x5d,0x65,0xb6,0x92,
0x6c,0x70,0x48,0x50,0xfd,0xed,0xb9,0xda,0x5e,0x15,0x46,0x57,0xa7,0x8d,0x9d,0x84,
0x90,0xd8,0xab,0x00,0x8c,0xbc,0xd3,0x0a,0xf7,0xe4,0x58,0x05,0xb8,0xb3,0x45,0x06,
0xd0,0x2c,0x1e,0x8f,0xca,0x3f,0x0f,0x02,0xc1,0xaf,0xbd,0x03,0x01,0x13,0x8a,0x6b,
0x3a,0x91,0x11,0x41,0x4f,0x67,0xdc,0xea,0x97,0xf2,0xcf,0xce,0xf0,0xb4,0xe6,0x73,
0x96,0xac,0x74,0x22,0xe7,0xad,0x35,0x85,0xe2,0xf9,0x37,0xe8,0x1c,0x75,0xdf,0x6e,
0x47,0xf1,0x1a,0x71,0x1d,0x29,0xc5,0x89,0x6f,0xb7,0x62,0x0e,0xaa,0x18,0xbe,0x1b,
0xfc,0x56,0x3e,0x4b,0xc6,0xd2,0x79,0x20,0x9a,0xdb,0xc0,0xfe,0x78,0xcd,0x5a,0xf4,
0x1f,0xdd,0xa8,0x33,0x88,0x07,0xc7,0x31,0xb1,0x12,0x10,0x59,0x27,0x80,0xec,0x5f,
0x60,0x51,0x7f,0xa9,0x19,0xb5,0x4a,0x0d,0x2d,0xe5,0x7a,0x9f,0x93,0xc9,0x9c,0xef,
0xa0,0xe0,0x3b,0x4d,0xae,0x2a,0xf5,0xb0,0xc8,0xeb,0xbb,0x3c,0x83,0x53,0x99,0x61,
0x17,0x2b,0x04,0x7e,0xba,0x77,0xd6,0x26,0xe1,0x69,0x14,0x63,0x55,0x21,0x0c,0x7d]"
lemma inv_sbox_table: "map (\<lambda>b. INV_SBOX ! unat b) SBOX = [0..<256]"
  by (simp add: SBOX_def INV_SBOX_def) code_simp
lemma sbox_inj: "sbox a = sbox b \<Longrightarrow> a = b"
proof -
  assume e: "sbox a = sbox b"
  have "distinct (map (\<lambda>b. INV_SBOX ! unat b) SBOX)" by (simp only: inv_sbox_table distinct_upt)
  then have d: "distinct SBOX" by (simp only: distinct_map)
  have l: "unat x < length SBOX" for x :: u8 using unsigned_less[of x, where ?'a = nat] by (simp add: SBOX_def)
  have "unat a = unat b"
    using e d l[of a] l[of b] by (simp only: sbox_def nth_eq_iff_index_eq)
  then show "a = b" by (rule unsigned_word_eqI)
qed

lemma drop_bit_7_u8: "drop_bit 7 (x :: u8) = of_bool (bit x 7)"
proof (rule bit_word_eqI)
  fix n :: nat
  show "bit (drop_bit 7 x) n = bit (of_bool (bit x 7) :: u8) n"
    using bit_imp_le_length[of x "7 + n"] by (cases n) (auto simp: bit_simps)
qed

lemma xtime_alt: "xtime x = push_bit 1 x XOR (if bit x 7 then 0x1b else 0)"
  by (simp add: xtime_def drop_bit_7_u8)

lemma xtime_xor: "xtime (a XOR b) = xtime a XOR xtime b"
  by (simp only: xtime_alt bit_xor_iff push_bit_xor) (auto simp: xor.assoc xor.left_commute)

definition gf_lin :: "bool \<Rightarrow> bool \<Rightarrow> bool \<Rightarrow> bool \<Rightarrow> u8 \<Rightarrow> u8" where
  "gf_lin b3 b2 b1 b0 x =
     (if b3 then xtime (xtime (xtime x)) else 0) XOR (if b2 then xtime (xtime x) else 0) XOR
     (if b1 then xtime x else 0) XOR (if b0 then x else 0)"

text \<open>The inverse matrix 14, 11, 13, 9 undoes a column; only the linearity of \<open>xtime\<close> is needed.\<close>

lemma mix_column_inverse:
  "mix_column a0 a1 a2 a3 = [b0, b1, b2, b3] \<Longrightarrow>
     gf_lin True True True False b0 XOR gf_lin True False True True b1 XOR
     gf_lin True True False True b2 XOR gf_lin True False False True b3 = a0 \<and>
     gf_lin True False False True b0 XOR gf_lin True True True False b1 XOR
     gf_lin True False True True b2 XOR gf_lin True True False True b3 = a1 \<and>
     gf_lin True True False True b0 XOR gf_lin True False False True b1 XOR
     gf_lin True True True False b2 XOR gf_lin True False True True b3 = a2 \<and>
     gf_lin True False True True b0 XOR gf_lin True True False True b1 XOR
     gf_lin True False False True b2 XOR gf_lin True True True False b3 = a3"
  by (auto simp: gf_lin_def xtime_xor xor.assoc xor.commute xor.left_commute)


lemma mix_column_inj: "mix_column a0 a1 a2 a3 = mix_column c0 c1 c2 c3 \<Longrightarrow> [a0, a1, a2, a3] = [c0, c1, c2, c3]"
proof -
  assume e: "mix_column a0 a1 a2 a3 = mix_column c0 c1 c2 c3"
  obtain b0 b1 b2 b3 where b: "mix_column a0 a1 a2 a3 = [b0, b1, b2, b3]" by simp
  from mix_column_inverse[OF b] mix_column_inverse[OF e[symmetric, unfolded b, symmetric, symmetric]]
  show ?thesis by auto
qed

lemma length_mix_columns [simp, lens]: "length (mix_columns s) = 16"
  by (simp add: mix_columns_def upt_rec)

lemma length_shift_rows [simp, lens]: "length (shift_rows s) = 16"
  by (simp add: shift_rows_def)

lemma add_round_key_inj:
  assumes "length s = 16" "length t = 16" "add_round_key rk r s = add_round_key rk r t"
  shows "s = t"
proof (rule nth_equalityI)
  fix i assume "i < length s"
  then have i: "i < 16" using assms by simp
  have "add_round_key rk r s ! i = add_round_key rk r t ! i" using assms(3) by simp
  then show "s ! i = t ! i"
    using i by (simp add: add_round_key_def) (metis xor_cancel_right)
qed (use assms in simp)

lemma shift_index: "i < 16 \<Longrightarrow> \<exists>j<16. 4 * ((j div 4 + j mod 4) mod 4) + j mod 4 = (i::nat)"
proof -
  assume i: "i < 16"
  define c r where "c = i div 4" and "r = i mod 4"
  define j where "j = 4 * ((c + (4 - r)) mod 4) + r"
  have r: "r < 4" and c: "c < 4" and ci: "4 * c + r = i" using i by (auto simp: c_def r_def)
  have j: "j div 4 = (c + (4 - r)) mod 4" "j mod 4 = r" using r by (simp_all add: j_def)
  have "((c + (4 - r)) mod 4 + r) mod 4 = (c + (4 - r) + r) mod 4" by (rule mod_add_left_eq)
  also have "c + (4 - r) + r = c + 4" using r by simp
  also have "(c + 4) mod 4 = c" using c by simp
  finally have "4 * ((j div 4 + j mod 4) mod 4) + j mod 4 = i" unfolding j using ci by simp
  moreover have "j < 16" using r mod_less_divisor[of 4 "c + (4 - r)"] unfolding j_def by linarith
  ultimately show ?thesis by blast
qed

lemma shift_rows_inj:
  assumes "length s = 16" "length t = 16" "shift_rows s = shift_rows t"
  shows "s = t"
proof (rule nth_equalityI)
  fix i assume "i < length s"
  then have "i < 16" using assms by simp
  then obtain j where j: "j < 16" "4 * ((j div 4 + j mod 4) mod 4) + j mod 4 = i"
    using shift_index by blast
  have "shift_rows s ! j = shift_rows t ! j" using assms(3) by simp
  then show "s ! i = t ! i" using j by (simp add: shift_rows_def)
qed (use assms in simp)

lemma length_mix_column [simp]: "length (mix_column a b c d) = 4"
  by simp

lemma mix_columns_inj:
  assumes "length s = 16" "length t = 16" "mix_columns s = mix_columns t"
  shows "s = t"
proof (rule nth_equalityI)
  fix i assume "i < length s"
  then have i: "i < 16" using assms by simp
  define c where "c = i div 4"
  have c: "c = 0 \<or> c = 1 \<or> c = 2 \<or> c = 3" using i unfolding c_def by linarith
  let ?col = "\<lambda>s c. mix_column (s ! (4 * c)) (s ! (4 * c + 1)) (s ! (4 * c + 2)) (s ! (4 * c + 3))"
  have "mix_columns u = ?col u 0 @ ?col u 1 @ ?col u 2 @ ?col u 3" for u
    by (simp add: mix_columns_def upt_rec del: mix_column.simps)
  then have "?col s 0 = ?col t 0 \<and> ?col s 1 = ?col t 1 \<and> ?col s 2 = ?col t 2 \<and> ?col s 3 = ?col t 3"
    using assms(3) by (simp only: append_eq_append_conv length_mix_column) (simp del: mix_column.simps)
  then have "?col s c = ?col t c" using c by blast
  from mix_column_inj[OF this]
  have col: "s ! (4 * c) = t ! (4 * c)" "s ! (4 * c + 1) = t ! (4 * c + 1)"
    "s ! (4 * c + 2) = t ! (4 * c + 2)" "s ! (4 * c + 3) = t ! (4 * c + 3)" by simp_all
  have "i = 4 * c \<or> i = 4 * c + 1 \<or> i = 4 * c + 2 \<or> i = 4 * c + 3" unfolding c_def by linarith
  then show "s ! i = t ! i" using col by blast
qed (use assms in simp)

lemma aes_round_inj:
  assumes "length s = 16" "length t = 16" "aes_round rk r s = aes_round rk r t"
  shows "s = t"
proof -
  let ?S = "shift_rows (map sbox s)" and ?T = "shift_rows (map sbox t)"
  have "?S = ?T"
  proof (cases "r = 14")
    case True
    then have "add_round_key rk r ?S = add_round_key rk r ?T" using assms(3) by (simp only: aes_round_def Let_def if_False not_True_eq_False simp_thms)
    then show ?thesis by (rule add_round_key_inj[rotated 2]) (rule length_shift_rows)+
  next
    case False
    then have "add_round_key rk r (mix_columns ?S) = add_round_key rk r (mix_columns ?T)"
      using assms(3) by (simp only: aes_round_def Let_def if_True not_False_eq_True)
    then have "mix_columns ?S = mix_columns ?T"
      by (rule add_round_key_inj[rotated 2]) (rule length_mix_columns)+
    then show ?thesis by (rule mix_columns_inj[rotated 2]) (rule length_shift_rows)+
  qed
  then have "map sbox s = map sbox t" by (rule shift_rows_inj[rotated 2]) (simp_all only: assms length_map)
  then show ?thesis by (rule map_injective) (rule injI, rule sbox_inj)
qed

lemma encrypt_block_inj:
  assumes "length x = 16" "length y = 16"
    and "rsdk_aes256_encrypt_block rk x = rsdk_aes256_encrypt_block rk y"
  shows "x = y"
proof -
  have f: "length s = 16 \<Longrightarrow> length t = 16 \<Longrightarrow> fold (aes_round rk) rs s = fold (aes_round rk) rs t \<Longrightarrow> s = t"
    for rs s t
  proof (induction rs arbitrary: s t)
    case Nil
    then show ?case by simp
  next
    case (Cons r rs)
    from Cons.prems(3) have "aes_round rk r s = aes_round rk r t"
      using Cons.IH[OF length_aes_round length_aes_round, of rk r s rk r t] by (simp only: fold_simps)
    with Cons.prems(1,2) show ?case by (rule aes_round_inj)
  qed
  have "add_round_key rk 0 x = add_round_key rk 0 y"
    using f[OF length_add_round_key length_add_round_key, of _ rk 0 x rk 0 y] assms(3)
    by (simp only: rsdk_aes256_encrypt_block_def)
  with assms(1,2) show ?thesis by (rule add_round_key_inj)
qed

lemma be_bytes_inj:
  assumes n: "LENGTH('a) = 8 * n"
    and e: "map (\<lambda>i. ucast (drop_bit (8 * n - 8 - 8 * i) v) :: u8) [0..<n] =
            map (\<lambda>i. ucast (drop_bit (8 * n - 8 - 8 * i) w)) [0..<n]"
  shows "v = (w :: 'a::len word)"
proof (rule bit_word_eqI)
  fix k :: nat assume k: "k < LENGTH('a)"
  define q where "q = k div 8"
  have q: "q < n" using k n by (simp add: q_def less_mult_imp_div_less mult.commute)
  have "map (\<lambda>i. ucast (drop_bit (8 * n - 8 - 8 * i) u) :: u8) [0..<n] ! (n - 1 - q) = ucast (drop_bit (8 * q) u)"
    for u :: "'a word"
  proof -
    have "8 * n - 8 - 8 * (n - 1 - q) = 8 * q" using q by (simp add: diff_mult_distrib2)
    moreover have "n - 1 - q < n" using q by simp
    ultimately show ?thesis by simp
  qed
  then have "(ucast (drop_bit (8 * q) v) :: u8) = ucast (drop_bit (8 * q) w)" using e by metis
  moreover have "bit (ucast (drop_bit (8 * q) u) :: u8) (k mod 8) = bit u k" for u :: "'a word"
    using k by (simp add: bit_simps q_def)
  ultimately show "bit v k = bit w k" by metis
qed

lemma be32_map: "be32 v = map (\<lambda>i. ucast (drop_bit (8 * 4 - 8 - 8 * i) v)) [0..<4]"
  by (simp add: be32_def upt_rec)

lemma be32_inj: "be32 a = be32 b \<Longrightarrow> a = b"
  unfolding be32_map by (rule be_bytes_inj[of 4]) (simp, assumption)

lemma length_ctr_block [simp, lens]: "length (ctr_block seg frm blk) = 16"
  by (simp add: ctr_block_def)

lemma ctr_block_inj:
  assumes "ctr_block seg frm blk = ctr_block seg' frm' blk'"
  shows "seg = seg' \<and> frm = frm' \<and> blk = blk'"
proof -
  have s: "be32 seg = be32 seg'" "be32 frm = be32 frm'"
    and t: "map (\<lambda>i. ucast (drop_bit (8 * 8 - 8 - 8 * i) blk) :: u8) [0..<8] =
       map (\<lambda>i. ucast (drop_bit (8 * 8 - 8 - 8 * i) blk')) [0..<8]"
    using assms by (simp_all add: ctr_block_def)
  have "blk = blk'" by (rule be_bytes_inj [OF _ t]) simp
  with s show ?thesis by (auto dest: be32_inj)
qed

text \<open>Distinct counters give distinct keystream blocks.\<close>

lemma keystream_block_distinct:
  "(seg, frm, blk) \<noteq> (seg', frm', blk') \<Longrightarrow>
     rsdk_aes256_encrypt_block c (ctr_block seg frm blk) \<noteq> rsdk_aes256_encrypt_block c (ctr_block seg' frm' blk')"
  using encrypt_block_inj[of "ctr_block seg frm blk" "ctr_block seg' frm' blk'" c] ctr_block_inj by fastforce

section \<open>The interface the recorder uses\<close>

text \<open>What the writer, the player and the snapshot store rely on: a length-preserving transformation
  of a payload, keyed by two counter words, that is its own inverse.\<close>

locale payload_cipher =
  fixes crypt :: "u32 \<Rightarrow> u32 \<Rightarrow> bytes \<Rightarrow> bytes"
  assumes crypt_length: "length (crypt seg frm buf) = length buf"
    and crypt_twice: "crypt seg frm (crypt seg frm buf) = buf"
begin

lemma crypt_inject: "crypt seg frm a = crypt seg frm b \<Longrightarrow> a = b"
  by (metis crypt_twice)

lemma crypt_empty_iff: "crypt seg frm buf = [] \<longleftrightarrow> buf = []"
  by (metis crypt_length length_0_conv)

end

interpretation ctr: payload_cipher "\<lambda>seg frm. rsdk_crypto_xcrypt c seg frm 0"
  by unfold_locales (simp_all add: xcrypt_involution)

section \<open>Properties\<close>

text \<open>C37: Decryption, from any offset. Applying the CTR stream twice gives the data back; and the
  tail of an encrypted payload can be processed on its own, starting at its byte offset, with the same result as
  processing the payload from the beginning.\<close>

theorem ctr_random_access:
  assumes "unat off + length buf < 2 ^ 64" "j \<le> length buf"
  shows "rsdk_crypto_xcrypt c seg frm off (rsdk_crypto_xcrypt c seg frm off buf) = buf \<and>
    rsdk_crypto_xcrypt c seg frm (off + of_nat j) (drop j buf) = drop j (rsdk_crypto_xcrypt c seg frm off buf)"
  using xcrypt_involution xcrypt_drop assms by simp

lemma ctr_random_access_witness:
  "rsdk_crypto_xcrypt (rsdk_crypto_open (replicate 32 1)) 5 6 (16 + of_nat 3) (drop 3 [1, 2, 3, 4, 5]) =
     drop 3 (rsdk_crypto_xcrypt (rsdk_crypto_open (replicate 32 1)) 5 6 16 [1, 2, 3, 4, 5])"
  using ctr_random_access[of 16 "[1, 2, 3, 4, 5]" 3 "rsdk_crypto_open (replicate 32 1)" 5 6] by simp

text \<open>C36: No keystream block is used twice. Under one key, two AES blocks of the stream that belong
  to different segments, different frames or different block positions are different: AES-256 with the table in the code is
  injective, and the counter block encodes all three.\<close>

theorem keystream_never_repeats:
  assumes "(seg, frm, blk) \<noteq> (seg', frm', blk')"
  shows "rsdk_aes256_encrypt_block c (ctr_block seg frm blk) \<noteq> rsdk_aes256_encrypt_block c (ctr_block seg' frm' blk')"
  using keystream_block_distinct[of seg frm blk seg' frm' blk' c] assms by blast

lemma keystream_never_repeats_witness:
  "rsdk_aes256_encrypt_block (rsdk_crypto_open (replicate 32 1)) (ctr_block 1 2 3) \<noteq>
   rsdk_aes256_encrypt_block (rsdk_crypto_open (replicate 32 1)) (ctr_block 1 3 3)"
  using keystream_never_repeats[of 1 2 3 1 3 3 "rsdk_crypto_open (replicate 32 1)"] by simp

end
