(* ===== verification/Rsdk_Rawdev.thy ===== *)
theory Rsdk_Rawdev
  imports Rsdk_Types
begin

text \<open>
  components/recorder/src/rsdk_rawdev.c: the raw disk or image file below everything else. The
  kernel's \<open>pread\<close> and \<open>pwrite\<close> are arguments of the transfer loops (they may serve a prefix
  of a request, hit the end of the device, or fail). On a device that serves every request the
  loops compute \<open>dread\<close> and \<open>dwrite\<close>, and the rest of the development uses those: the callers in
  the recorder ignore the transfer result codes, so a failing device is outside the model.
  A device is a map from byte addresses to bytes, zero beyond its end, as the read loop has it.
\<close>

type_synonym store = "nat \<Rightarrow> u8"

definition dread :: "store \<Rightarrow> nat \<Rightarrow> nat \<Rightarrow> bytes" where
  "dread m off n = map m [off..<off + n]"

definition dwrite :: "store \<Rightarrow> nat \<Rightarrow> bytes \<Rightarrow> store" where
  "dwrite m off buf = (\<lambda>a. if off \<le> a \<and> a < off + length buf then buf ! (a - off) else m a)"

section \<open>The transfer loops\<close>

datatype os_read = ReadErr | ReadGot bytes

datatype os_write = WriteErr | WritePut nat

text \<open>The k-th system call is \<open>os k\<close>; it sees the offset and the count it is given.\<close>

function pread_loop :: "(nat \<Rightarrow> nat \<Rightarrow> nat \<Rightarrow> os_read) \<Rightarrow> nat \<Rightarrow> nat \<Rightarrow> nat \<Rightarrow> bytes \<Rightarrow> rsdk_err + bytes" where
  "pread_loop os k off n buf =
     (if length buf < n
      then (case os k (off + length buf) (n - length buf) of
              ReadErr \<Rightarrow> Inl RSDK_E_IO
            | ReadGot r \<Rightarrow> if r = [] then Inr (buf @ replicate (n - length buf) 0)
                           else pread_loop os (Suc k) off n (buf @ r))
      else Inr buf)"
  by pat_completeness auto
termination
  by (relation "measure (\<lambda>(os, k, off, n, buf). n - length buf)") (auto simp: neq_Nil_conv)

declare pread_loop.simps [simp del]

partial_function (option) pwrite_loop ::
  "(nat \<Rightarrow> nat \<Rightarrow> nat \<Rightarrow> os_write) \<Rightarrow> nat \<Rightarrow> store \<Rightarrow> nat \<Rightarrow> bytes \<Rightarrow> nat \<Rightarrow> (rsdk_err \<times> store) option" where
  "pwrite_loop os k m off buf done_n =
     (if done_n < length buf
      then (case os k (off + done_n) (length buf - done_n) of
              WriteErr \<Rightarrow> Some (RSDK_E_IO, m)
            | WritePut r \<Rightarrow> pwrite_loop os (Suc k) (dwrite m (off + done_n) (take r (drop done_n buf)))
                              off buf (done_n + r))
      else Some (RSDK_OK, m))"

section \<open>Device and image table\<close>

record rawdev =
  rw_data :: store
  rw_sectors :: u64

record image =
  im_data :: store
  im_bytes :: u64

text \<open>The paths the process can open, with what is behind them.\<close>

type_synonym image_fs = "string \<rightharpoonup> image"

definition rsdk_rawdev_open :: "image_fs \<Rightarrow> string \<Rightarrow> rsdk_err + rawdev" where
  "rsdk_rawdev_open fs path =
     (case fs path of
        None \<Rightarrow> Inl RSDK_E_IO
      | Some im \<Rightarrow> Inr \<lparr>rw_data = im_data im, rw_sectors = im_bytes im div RSDK_SEC\<rparr>)"

definition rsdk_rawdev_sectors :: "rawdev \<Rightarrow> u64" where
  "rsdk_rawdev_sectors d = rw_sectors d"

definition rsdk_rawdev_pread :: "rawdev \<Rightarrow> u64 \<Rightarrow> nat \<Rightarrow> bytes" where
  "rsdk_rawdev_pread d off n = dread (rw_data d) (unat off) n"

definition rsdk_rawdev_pwrite :: "rawdev \<Rightarrow> u64 \<Rightarrow> bytes \<Rightarrow> rawdev" where
  "rsdk_rawdev_pwrite d off buf = d\<lparr>rw_data := dwrite (rw_data d) (unat off) buf\<rparr>"

section \<open>Read and write laws\<close>

text \<open>The interface every client of the device relies on.\<close>

locale byte_store =
  fixes rd :: "'s \<Rightarrow> nat \<Rightarrow> nat \<Rightarrow> bytes"
    and wr :: "'s \<Rightarrow> nat \<Rightarrow> bytes \<Rightarrow> 's"
  assumes rd_length: "length (rd s a n) = n"
    and rd_wr_same: "rd (wr s a buf) a (length buf) = buf"
    and rd_wr_other: "a + n \<le> b \<or> b + length buf \<le> a \<Longrightarrow> rd (wr s b buf) a n = rd s a n"
begin

definition wr_all :: "(nat \<times> bytes) list \<Rightarrow> 's \<Rightarrow> 's" where
  "wr_all ws s = fold (\<lambda>(a, buf) s. wr s a buf) ws s"

lemma rd_wr_all:
  "(\<And>b buf. (b, buf) \<in> set ws \<Longrightarrow> a + n \<le> b \<or> b + length buf \<le> a) \<Longrightarrow> rd (wr_all ws s) a n = rd s a n"
proof (induction ws arbitrary: s)
  case Nil
  then show ?case by (simp add: wr_all_def)
next
  case (Cons w ws)
  obtain b buf where w: "w = (b, buf)" by (cases w)
  have "rd (wr_all ws (wr s b buf)) a n = rd (wr s b buf) a n"
    using Cons.prems by (intro Cons.IH) simp
  also have "\<dots> = rd s a n" using Cons.prems w by (intro rd_wr_other) simp
  finally show ?case by (simp add: wr_all_def w)
qed

lemma rd_wr_len: "length buf = n \<Longrightarrow> rd (wr s a buf) a n = buf"
  using rd_wr_same by blast

end

lemma length_dread [simp]: "length (dread m off n) = n"
  by (simp add: dread_def)

lemma dread_dwrite_same: "dread (dwrite m off buf) off (length buf) = buf"
  by (rule nth_equalityI) (simp_all add: dread_def dwrite_def)

lemma dread_dwrite_other:
  "a + n \<le> b \<or> b + length buf \<le> a \<Longrightarrow> dread (dwrite m b buf) a n = dread m a n"
  by (rule nth_equalityI) (auto simp: dread_def dwrite_def)

interpretation mem: byte_store dread dwrite
  by unfold_locales (auto simp: dread_dwrite_same dread_dwrite_other)

lemma dread_append: "dread m off (n + k) = dread m off n @ dread m (off + n) k"
  using upt_add_eq_append[of off "off + n" k] by (simp add: dread_def add.assoc)

lemma dread_slice: "i + n \<le> k \<Longrightarrow> slice i n (dread m off k) = dread m (off + i) n"
  by (rule nth_equalityI) (simp_all add: dread_def slice_def add.assoc)

lemma dwrite_append: "dwrite (dwrite m off a) (off + length a) b = dwrite m off (a @ b)"
  by (rule ext) (auto simp: dwrite_def nth_append)

lemma dwrite_nil [simp]: "dwrite m off [] = m"
  unfolding dwrite_def by (rule ext, rule if_not_P) simp

lemma dread_cong: "(\<And>a. off \<le> a \<Longrightarrow> a < off + n \<Longrightarrow> m a = m' a) \<Longrightarrow> dread m off n = dread m' off n"
  by (simp add: dread_def)

section \<open>What the loops do on a device that serves requests\<close>

text \<open>\<open>serves\<close>: a call returns a nonempty prefix of what is there, and nothing only at or beyond the
  end of the device, where the contents count as zero.\<close>

definition serves :: "(nat \<Rightarrow> nat \<Rightarrow> nat \<Rightarrow> os_read) \<Rightarrow> store \<Rightarrow> nat \<Rightarrow> bool" where
  "serves os m sz \<longleftrightarrow> (\<forall>a \<ge> sz. m a = 0) \<and>
     (\<forall>k off n. 0 < n \<longrightarrow> (\<exists>j. os k off n = ReadGot (dread m off j) \<and> j \<le> n \<and> (j = 0 \<longrightarrow> sz \<le> off)))"

lemma pread_loop_serves:
  assumes s: "serves os m sz" and len: "i \<le> n"
  shows "pread_loop os k off n (dread m off i) = Inr (dread m off n)"
  using len
proof (induction "n - i" arbitrary: i k rule: less_induct)
  case less
  show ?case
  proof (cases "i < n")
    case False
    then show ?thesis using less.prems by (simp add: pread_loop.simps)
  next
    case True
    then obtain j where j: "os k (off + i) (n - i) = ReadGot (dread m (off + i) j)" "j \<le> n - i"
      "j = 0 \<longrightarrow> sz \<le> off + i"
      using s unfolding serves_def by (metis zero_less_diff)
    show ?thesis
    proof (cases "j = 0")
      case True
      have "replicate (n - i) 0 = dread m (off + i) (n - i)"
        using s j(3) True by (intro nth_equalityI) (simp_all add: dread_def serves_def)
      then have "dread m off i @ replicate (n - i) 0 = dread m off n"
        using dread_append[of m off i "n - i"] \<open>i < n\<close> by simp
      then show ?thesis using \<open>i < n\<close> j(1) True by (simp add: pread_loop.simps dread_def)
    next
      case False
      have "pread_loop os (Suc k) off n (dread m off (i + j)) = Inr (dread m off n)"
        using False j(2) \<open>i < n\<close> by (intro less.hyps) simp_all
      moreover have "dread m (off + i) j \<noteq> []" using False by (simp flip: length_0_conv)
      ultimately show ?thesis
        using \<open>i < n\<close> j(1) by (subst pread_loop.simps) (simp add: dread_append)
    qed
  qed
qed

definition accepts :: "(nat \<Rightarrow> nat \<Rightarrow> nat \<Rightarrow> os_write) \<Rightarrow> bool" where
  "accepts os \<longleftrightarrow> (\<forall>k off n. 0 < n \<longrightarrow> (\<exists>r. os k off n = WritePut r \<and> 0 < r \<and> r \<le> n))"

lemma pwrite_loop_accepts:
  assumes s: "accepts os" and len: "i \<le> length buf"
  shows "pwrite_loop os k (dwrite m off (take i buf)) off buf i = Some (RSDK_OK, dwrite m off buf)"
  using len
proof (induction "length buf - i" arbitrary: i k rule: less_induct)
  case less
  show ?case
  proof (cases "i < length buf")
    case False
    then show ?thesis using less.prems by (simp add: pwrite_loop.simps)
  next
    case True
    then obtain r where r: "os k (off + i) (length buf - i) = WritePut r" "0 < r" "r \<le> length buf - i"
      using s unfolding accepts_def by (metis zero_less_diff)
    have "pwrite_loop os (Suc k) (dwrite m off (take (i + r) buf)) off buf (i + r) = Some (RSDK_OK, dwrite m off buf)"
      using r(2,3) True by (intro less.hyps) simp_all
    moreover have "dwrite (dwrite m off (take i buf)) (off + i) (take r (drop i buf)) = dwrite m off (take (i + r) buf)"
      using dwrite_append[of m off "take i buf" "take r (drop i buf)"] True by (simp add: take_add)
    ultimately show ?thesis using True r(1) by (simp add: pwrite_loop.simps)
  qed
qed

section \<open>Properties\<close>

text \<open>C40: The transfer loops complete. On a kernel that serves every read with a nonempty prefix (nothing only at the
  end of the device) and accepts a nonempty prefix of every write, the read loop returns the whole request, padded with
  zeros beyond the end, and the write loop returns and has written the whole buffer, however the
  kernel splits the transfers.\<close>

theorem transfers_complete:
  assumes "serves ro m sz" "accepts wo"
  shows "pread_loop ro 0 off n [] = Inr (dread m off n) \<and>
    pwrite_loop wo 0 m off buf 0 = Some (RSDK_OK, dwrite m off buf)"
  using pread_loop_serves[OF assms(1), of 0 n 0 off] pwrite_loop_accepts[OF assms(2), of 0 buf 0 m off]
  by (simp add: dread_def)

definition byte_reads :: "nat \<Rightarrow> nat \<Rightarrow> nat \<Rightarrow> os_read" where
  "byte_reads k off n = ReadGot (dread (\<lambda>a. 0) off 1)"

definition byte_writes :: "nat \<Rightarrow> nat \<Rightarrow> nat \<Rightarrow> os_write" where
  "byte_writes k off n = WritePut 1"

lemma transfers_complete_witness:
  "pread_loop byte_reads 0 100 5 [] = Inr [0, 0, 0, 0, 0] \<and>
   pwrite_loop byte_writes 0 (\<lambda>a. 0) 100 [1, 2, 3] 0 = Some (RSDK_OK, dwrite (\<lambda>a. 0) 100 [1, 2, 3])"
proof -
  have r: "serves byte_reads (\<lambda>a. 0) 0" unfolding serves_def byte_reads_def
    by (intro conjI allI impI exI[of _ 1]) (simp_all add: Suc_le_eq)
  have w: "accepts byte_writes" unfolding accepts_def byte_writes_def
    by (intro allI impI exI[of _ 1]) (simp add: Suc_le_eq)
  show ?thesis using transfers_complete[OF r w, of 100 5 "[1, 2, 3]"]
    by (simp add: dread_def numeral_eq_Suc)
qed

end
