(* ===== verification/Rsdk_Storgedev.thy ===== *)
theory Rsdk_Storgedev
  imports Rsdk_Crypto Rsdk_Rawdev Complex_Main
begin

text \<open>
  components/recorder/src/rsdk_storgedev.c: laying a disk out, formatting it, opening it again,
  and the operations on the open handle (chunk ring, MetaRegion ring, flush of SuperBlock and
  SysTab, key rotation). \<open>struct rsdk_dev\<close> is the record \<open>rsdk_dev\<close>; an operation returns
  the updated handle, whose \<open>dv_raw\<close> holds the contents of the medium.

  Random bytes from /dev/urandom are arguments. A C \<open>double\<close> is an exact rational and every
  floating-point operation passes through a rounding function \<open>fl\<close>, which the properties constrain only by the
  documented behaviour of IEEE-754 (monotone, exact on integers up to \<open>2^53\<close>).
\<close>

section \<open>State\<close>

record rsdk_dev =
  dv_raw :: rawdev
  dv_sb :: superblock
  dv_st :: systab
  dv_crypto :: "rsdk_crypto option"
  dv_chunk_bytes :: u64
  dv_data_chunks :: u64
  dv_meta_base :: u64

definition SB_MAIN_SEC :: u64 where "SB_MAIN_SEC = 1"

definition SB_BAK_SEC :: u64 where "SB_BAK_SEC = 2"

definition ST_MAIN_SEC :: u64 where "ST_MAIN_SEC = 3"

definition ST_BAK_SEC :: u64 where "ST_BAK_SEC = 11"

definition BITMAP_SEC :: u64 where "BITMAP_SEC = 19"

definition STAB_MAGIC :: u32 where "STAB_MAGIC = 0x42415453"

lemmas sec_defs = RSDK_SEC_def SB_MAIN_SEC_def SB_BAK_SEC_def ST_MAIN_SEC_def ST_BAK_SEC_def BITMAP_SEC_def

text \<open>\<open>None\<close>: /dev/urandom cannot be opened, and the fixed pattern is used instead.\<close>

definition rnd_fill :: "bytes option \<Rightarrow> nat \<Rightarrow> bytes" where
  "rnd_fill r n = (case r of Some bs \<Rightarrow> take n bs | None \<Rightarrow> map (\<lambda>i. 0x11 * of_nat (i + 1)) [0..<n])"

definition rnd_ok :: "bytes option \<Rightarrow> nat \<Rightarrow> bool" where
  "rnd_ok r n = (case r of Some bs \<Rightarrow> n \<le> length bs | None \<Rightarrow> True)"

lemma length_rnd_fill [lens]: "rnd_ok r n \<Longrightarrow> length (rnd_fill r n) = n"
  by (simp add: rnd_ok_def rnd_fill_def split: option.splits)

section \<open>Layout\<close>

definition pick_chunk_mib :: "u64 \<Rightarrow> u32 \<Rightarrow> u32" where
  "pick_chunk_mib total_bytes req =
     (if req \<noteq> 0 then req
      else if total_bytes \<le> push_bit 40 4 then 8
      else if total_bytes \<le> push_bit 40 16 then 16
      else 32)"

record layout =
  lo_cc :: u64
  lo_bm :: u64
  lo_ix :: u64
  lo_ds :: u64

definition layout_step :: "u64 \<Rightarrow> u64 \<Rightarrow> u32 \<Rightarrow> layout \<Rightarrow> layout" where
  "layout_step tot chunk slots lo =
     (let cc = lo_cc lo;
          bitmap_bytes = ((cc * 2 + 7) div 8) * 2;
          index_bytes = cc * ucast slots * 64;
          bmS = rsdk_align_up bitmap_bytes RSDK_SEC div RSDK_SEC;
          ixS = rsdk_align_up index_bytes RSDK_SEC div RSDK_SEC;
          rsv_end = (BITMAP_SEC + bmS + ixS) * RSDK_SEC;
          ds = rsdk_align_up rsv_end chunk div RSDK_SEC
      in \<lparr>lo_cc = (tot - ds * RSDK_SEC) div chunk, lo_bm = bmS, lo_ix = ixS, lo_ds = ds\<rparr>)"

definition chunk_of_mib :: "u32 \<Rightarrow> u64" where
  "chunk_of_mib mib = push_bit 20 (ucast mib)"

definition compute_layout :: "u64 \<Rightarrow> u32 \<Rightarrow> u32 \<Rightarrow> u64 \<times> layout" where
  "compute_layout total_sectors chunk_mib slots =
     (let tot = total_sectors * RSDK_SEC;
          chunk = chunk_of_mib chunk_mib;
          lo = (layout_step tot chunk slots ^^ 4) \<lparr>lo_cc = tot div chunk, lo_bm = 0, lo_ix = 0, lo_ds = 0\<rparr>
      in (chunk div RSDK_SEC, lo))"

section \<open>Format\<close>

record format_opt =
  fo_sn :: "bytes option"
  fo_chunk_mib :: u32
  fo_slots_per_chunk :: u32
  fo_feature_mask :: u32
  fo_meta_ratio_pct :: rat
  fo_format_time :: u32
  fo_hdd_full :: u8

record format_rnd =
  rn_uuid :: "bytes option"
  rn_salt :: "bytes option"
  rn_dek :: "bytes option"

definition meta_chunks :: "(rat \<Rightarrow> rat) \<Rightarrow> u32 \<Rightarrow> u64 \<Rightarrow> rat \<Rightarrow> u64" where
  "meta_chunks fl fmask cc mratio =
     (let on = fmask AND RSDK_FEAT_METADATA \<noteq> 0;
          m = (if on then word_of_int \<lfloor>fl (fl (fl (of_nat (unat cc)) * mratio) / 100)\<rfloor> else 0)
      in if on \<and> m = 0 \<and> cc > 4 then 1 else m)"

definition GRP1 :: bytes where
  "GRP1 = [0x67, 0x72, 0x70, 0x31] @ replicate 12 0"

definition format_mask :: "rsdk_cfg \<Rightarrow> format_opt option \<Rightarrow> u32" where
  "format_mask cfg opt = (case opt of
     Some o' \<Rightarrow> if fo_feature_mask o' \<noteq> 0 then fo_feature_mask o' else rsdk_feature_mask cfg
   | None \<Rightarrow> rsdk_feature_mask cfg)"

definition format_slots :: "rsdk_cfg \<Rightarrow> format_opt option \<Rightarrow> u32" where
  "format_slots cfg opt = (case opt of
     Some o' \<Rightarrow> if fo_slots_per_chunk o' \<noteq> 0 then fo_slots_per_chunk o' else cfg_slots_per_chunk cfg
   | None \<Rightarrow> cfg_slots_per_chunk cfg)"

definition format_ratio :: "(rat \<Rightarrow> rat) \<Rightarrow> rsdk_cfg \<Rightarrow> format_opt option \<Rightarrow> rat" where
  "format_ratio fl cfg opt = (let dflt = fl (of_nat (cfg_meta_ratio_pct10 cfg) / 10) in case opt of
     Some o' \<Rightarrow> if fo_meta_ratio_pct o' > 0 then fo_meta_ratio_pct o' else dflt
   | None \<Rightarrow> dflt)"

definition format_sb :: "rsdk_cfg \<Rightarrow> format_rnd \<Rightarrow> format_opt option \<Rightarrow> u64 \<Rightarrow> u64 \<Rightarrow> layout \<Rightarrow> u64 \<Rightarrow> superblock" where
  "format_sb cfg rnd opt sectors cs lo meta_cc =
     (let fmask = format_mask cfg opt;
          sb = \<lparr>sb_magic = RSDK_SB_MAGIC, sb_version = 1, sb_crc32 = 0,
                sb_disk_uuid = rnd_fill (rn_uuid rnd) 16, sb_group_uuid = GRP1,
                sb_group_disk_index = 0, sb_group_disk_count = 1, sb_total_sectors = sectors,
                sb_rsv_start_sec = 1, sb_data_start_sec = lo_ds lo, sb_chunk_sectors = cs,
                sb_chunk_count = lo_cc lo, sb_write_ptr_chunk = 0, sb_seq_epoch = 1,
                sb_feature_mask = fmask, sb_rsvf = 0, sb_meta_start_chunk = lo_cc lo - meta_cc,
                sb_meta_chunk_count = meta_cc, sb_enc_algo = 0, sb_enc_flags = 0,
                sb_hdd_full = (case opt of Some o' \<Rightarrow> fo_hdd_full o' | None \<Rightarrow> cfg_hdd_full cfg),
                sb_rsv0 = replicate 5 0, sb_kdf_salt = replicate 16 0,
                sb_wrapped_dek = replicate 48 0, sb_dek_kcv = replicate 8 0, sb_pad = replicate 300 0\<rparr>;
          sb = (if fmask AND RSDK_FEAT_ENCRYPTION \<noteq> 0
                then let salt = rnd_fill (rn_salt rnd) 16;
                         dek = rnd_fill (rn_dek rnd) 32;
                         sn = (case opt of Some o' \<Rightarrow> (case fo_sn o' of Some s \<Rightarrow> s | None \<Rightarrow> RSDK_DEFAULT_SN)
                                         | None \<Rightarrow> RSDK_DEFAULT_SN);
                         (wrapped, kcv) = rsdk_dek_wrap (rsdk_kdf_kek (Some sn) salt) dek
                     in sb\<lparr>sb_enc_algo := 1, sb_kdf_salt := salt, sb_wrapped_dek := wrapped, sb_dek_kcv := kcv\<rparr>
                else sb)
      in sb\<lparr>sb_crc32 := rsdk_crc32 (sb_encode sb)\<rparr>)"

definition format_st :: "format_opt option \<Rightarrow> u64 \<Rightarrow> layout \<Rightarrow> u64 \<Rightarrow> systab" where
  "format_st opt cs lo meta_cc =
     (let st = \<lparr>st_magic = STAB_MAGIC, st_sys_version = 1, st_systab_size = 4096, st_crc32 = 0,
                st_format_time = (case opt of Some o' \<Rightarrow> ucast (fo_format_time o') | None \<Rightarrow> 0),
                st_bitmap_start_sec = BITMAP_SEC, st_bitmap_sectors = lo_bm lo,
                st_index_start_sec = BITMAP_SEC + lo_bm lo, st_index_sectors = lo_ix lo,
                st_index_slot_size = 64, st_index_slot_count = ucast (lo_ix lo * RSDK_SEC div 64),
                st_index_next = 0, st_rsvi = 0, st_meta_next_off = 0,
                st_meta_bytes = meta_cc * (cs * RSDK_SEC),
                st_chn = replicate 32 \<lparr>cc_cur_chunk = 0, cc_cur_off = 0, cc_seg_seq = 0\<rparr>,
                st_rsv = replicate 3496 0\<rparr>
      in st\<lparr>st_crc32 := rsdk_crc32 (st_encode st)\<rparr>)"

definition clear_sectors :: "nat \<Rightarrow> nat \<Rightarrow> rawdev \<Rightarrow> rawdev" where
  "clear_sectors a b raw =
     fold (\<lambda>s r. rsdk_rawdev_pwrite r (of_nat s * RSDK_SEC) (replicate 512 0)) [a..<b] raw"

definition format_write :: "superblock \<Rightarrow> systab \<Rightarrow> u64 \<Rightarrow> rawdev \<Rightarrow> rawdev" where
  "format_write sb st ixS raw =
     (let raw = rsdk_rawdev_pwrite raw 0 (replicate 512 0);
          raw = rsdk_rawdev_pwrite raw (SB_MAIN_SEC * RSDK_SEC) (sb_encode sb);
          raw = rsdk_rawdev_pwrite raw (SB_BAK_SEC * RSDK_SEC) (sb_encode sb);
          raw = rsdk_rawdev_pwrite raw (ST_MAIN_SEC * RSDK_SEC) (st_encode st);
          raw = rsdk_rawdev_pwrite raw (ST_BAK_SEC * RSDK_SEC) (st_encode st)
      in clear_sectors (unat BITMAP_SEC) (unat (st_index_start_sec st + ixS)) raw)"

definition rsdk_format ::
  "rsdk_cfg \<Rightarrow> (rat \<Rightarrow> rat) \<Rightarrow> format_rnd \<Rightarrow> image_fs \<Rightarrow> string \<Rightarrow> format_opt option \<Rightarrow> rsdk_err \<times> image_fs" where
  "rsdk_format cfg fl rnd fs path opt =
     (case fs path of
        None \<Rightarrow> (RSDK_E_IO, fs)
      | Some im \<Rightarrow>
         (let raw = \<lparr>rw_data = im_data im, rw_sectors = im_bytes im div RSDK_SEC\<rparr>;
              sectors = rsdk_rawdev_sectors raw in
          if sectors < 64 * 2048 then (RSDK_E_NOSPACE, fs)
          else
            let cmib = pick_chunk_mib (sectors * RSDK_SEC) (case opt of Some o' \<Rightarrow> fo_chunk_mib o' | None \<Rightarrow> 0);
                (cs, lo) = compute_layout sectors cmib (format_slots cfg opt);
                meta_cc = meta_chunks fl (format_mask cfg opt) (lo_cc lo) (format_ratio fl cfg opt);
                sb = format_sb cfg rnd opt sectors cs lo meta_cc;
                st = format_st opt cs lo meta_cc;
                raw = format_write sb st (lo_ix lo) raw
            in (RSDK_OK, fs(path \<mapsto> im\<lparr>im_data := rw_data raw\<rparr>))))"

section \<open>Open\<close>

definition dev_crypto_of :: "superblock \<Rightarrow> rsdk_crypto option" where
  "dev_crypto_of sb =
     (if sb_enc_algo sb = 1
      then case rsdk_dek_unwrap (rsdk_kdf_kek (Some RSDK_DEFAULT_SN) (sb_kdf_salt sb))
                  (sb_wrapped_dek sb) (sb_dek_kcv sb) of
             Inr dek \<Rightarrow> Some (rsdk_crypto_open dek)
           | Inl e \<Rightarrow> None
      else None)"

definition dev_assemble :: "rawdev \<Rightarrow> superblock \<Rightarrow> systab \<Rightarrow> rsdk_dev" where
  "dev_assemble raw sb st =
     (let chunk_bytes = sb_chunk_sectors sb * RSDK_SEC
      in \<lparr>dv_raw = raw, dv_sb = sb, dv_st = st, dv_crypto = dev_crypto_of sb,
          dv_chunk_bytes = chunk_bytes,
          dv_data_chunks = sb_chunk_count sb - sb_meta_chunk_count sb,
          dv_meta_base = sb_data_start_sec sb * RSDK_SEC + sb_meta_start_chunk sb * chunk_bytes\<rparr>)"

definition rsdk_dev_open :: "image_fs \<Rightarrow> string \<Rightarrow> rsdk_err + rsdk_dev" where
  "rsdk_dev_open fs path =
     (case rsdk_rawdev_open fs path of
        Inl e \<Rightarrow> Inl e
      | Inr raw \<Rightarrow>
         (let main = sb_decode (rsdk_rawdev_pread raw (SB_MAIN_SEC * RSDK_SEC) 512);
              sb = (if sb_magic main \<noteq> RSDK_SB_MAGIC
                    then sb_decode (rsdk_rawdev_pread raw (SB_BAK_SEC * RSDK_SEC) 512) else main) in
          if sb_magic sb \<noteq> RSDK_SB_MAGIC then Inl RSDK_E_FORMAT
          else if rsdk_crc32 (sb_encode (sb\<lparr>sb_crc32 := 0\<rparr>)) \<noteq> sb_crc32 sb then Inl RSDK_E_CORRUPT
          else
            let st = st_decode (rsdk_rawdev_pread raw (ST_MAIN_SEC * RSDK_SEC) 4096);
                st = (if st_magic st \<noteq> STAB_MAGIC
                      then st_decode (rsdk_rawdev_pread raw (ST_BAK_SEC * RSDK_SEC) 4096) else st)
            in Inr (dev_assemble raw sb st)))"

section \<open>Operations on the handle\<close>

record dev_info =
  di_total_sectors :: u64
  di_chunk_count :: u64
  di_chunk_sectors :: u64
  di_data_start_sec :: u64
  di_free_chunks :: u64
  di_meta_chunk_count :: u64
  di_feature_mask :: u32
  di_enc_algo :: u8
  di_hdd_full :: u8

definition rsdk_dev_info :: "rsdk_dev \<Rightarrow> dev_info" where
  "rsdk_dev_info d =
     \<lparr>di_total_sectors = sb_total_sectors (dv_sb d), di_chunk_count = sb_chunk_count (dv_sb d),
      di_chunk_sectors = sb_chunk_sectors (dv_sb d), di_data_start_sec = sb_data_start_sec (dv_sb d),
      di_free_chunks = dv_data_chunks d, di_meta_chunk_count = sb_meta_chunk_count (dv_sb d),
      di_feature_mask = sb_feature_mask (dv_sb d), di_enc_algo = sb_enc_algo (dv_sb d),
      di_hdd_full = sb_hdd_full (dv_sb d)\<rparr>"

text \<open>The CRC fields are computed over the structure with the field itself zero.\<close>

definition seal_sb :: "superblock \<Rightarrow> superblock" where
  "seal_sb sb = (let z = sb\<lparr>sb_crc32 := 0\<rparr> in z\<lparr>sb_crc32 := rsdk_crc32 (sb_encode z)\<rparr>)"

definition seal_st :: "systab \<Rightarrow> systab" where
  "seal_st st = (let z = st\<lparr>st_crc32 := 0\<rparr> in z\<lparr>st_crc32 := rsdk_crc32 (st_encode z)\<rparr>)"

text \<open>The writes of a flush, in program order: backups first, then the main copies.\<close>

definition flush_writes :: "rsdk_dev \<Rightarrow> (u64 \<times> bytes) list" where
  "flush_writes d =
     [(SB_BAK_SEC * RSDK_SEC, sb_encode (dv_sb d)), (ST_BAK_SEC * RSDK_SEC, st_encode (dv_st d)),
      (SB_MAIN_SEC * RSDK_SEC, sb_encode (dv_sb d)), (ST_MAIN_SEC * RSDK_SEC, st_encode (dv_st d))]"

definition apply_writes :: "(u64 \<times> bytes) list \<Rightarrow> rawdev \<Rightarrow> rawdev" where
  "apply_writes ws raw = fold (\<lambda>(off, buf) r. rsdk_rawdev_pwrite r off buf) ws raw"

definition seal :: "rsdk_dev \<Rightarrow> rsdk_dev" where
  "seal d = d\<lparr>dv_sb := seal_sb (dv_sb d), dv_st := seal_st (dv_st d)\<rparr>"

definition rsdk_dev_flush :: "rsdk_dev \<Rightarrow> rsdk_dev" where
  "rsdk_dev_flush d = (let d = seal d in d\<lparr>dv_raw := apply_writes (flush_writes d) (dv_raw d)\<rparr>)"

definition rsdk_dev_alloc_chunk :: "rsdk_dev \<Rightarrow> (rsdk_err + (u64 \<times> u64)) \<times> rsdk_dev" where
  "rsdk_dev_alloc_chunk d =
     (let sb = dv_sb d in
      if dv_data_chunks d = 0 then (Inl RSDK_E_NOSPACE, d)
      else if sb_hdd_full sb = RSDK_HDDFULL_STOP \<and> sb_write_ptr_chunk sb \<ge> dv_data_chunks d
      then (Inl RSDK_E_NOSPACE, d)
      else
        let c = sb_write_ptr_chunk sb;
            sb = sb\<lparr>sb_write_ptr_chunk := sb_write_ptr_chunk sb + 1\<rparr>;
            sb = (if sb_write_ptr_chunk sb \<ge> dv_data_chunks d
                  then if sb_hdd_full sb = RSDK_HDDFULL_STOP then sb
                       else sb\<lparr>sb_write_ptr_chunk := 0, sb_seq_epoch := sb_seq_epoch sb + 1\<rparr>
                  else sb)
        in (Inr (c, sb_data_start_sec sb * RSDK_SEC + c * dv_chunk_bytes d), d\<lparr>dv_sb := sb\<rparr>))"

definition rsdk_dev_is_wrapped :: "rsdk_dev \<Rightarrow> bool" where
  "rsdk_dev_is_wrapped d = (sb_seq_epoch (dv_sb d) > 1)"

definition rsdk_dev_meta_alloc :: "rsdk_dev \<Rightarrow> u64 \<Rightarrow> (rsdk_err + u64) \<times> rsdk_dev" where
  "rsdk_dev_meta_alloc d sz =
     (let st = dv_st d in
      if st_meta_bytes st = 0 then (Inl RSDK_E_NOSPACE, d)
      else
        let sz = rsdk_align_up sz 16 in
        if sz > st_meta_bytes st then (Inl RSDK_E_NOSPACE, d)
        else
          let st = (if st_meta_next_off st + sz > st_meta_bytes st then st\<lparr>st_meta_next_off := 0\<rparr> else st);
              abs_off = dv_meta_base d + st_meta_next_off st;
              st = st\<lparr>st_meta_next_off := st_meta_next_off st + sz\<rparr>
          in (Inr abs_off, rsdk_dev_flush (d\<lparr>dv_st := st\<rparr>)))"

definition rsdk_dev_index :: "rsdk_dev \<Rightarrow> u16" where
  "rsdk_dev_index d = sb_group_disk_index (dv_sb d)"

definition rsdk_dev_rekey :: "bytes option \<Rightarrow> rsdk_dev \<Rightarrow> rsdk_err \<times> rsdk_dev" where
  "rsdk_dev_rekey rnd d =
     (let sb = dv_sb d in
      if sb_enc_algo sb \<noteq> 1 then (RSDK_E_PARAM, d)
      else case rsdk_dek_unwrap (rsdk_kdf_kek (Some RSDK_DEFAULT_SN) (sb_kdf_salt sb))
                  (sb_wrapped_dek sb) (sb_dek_kcv sb) of
             Inl e \<Rightarrow> (RSDK_E_CRYPTO, d)
           | Inr dek \<Rightarrow>
              (let new_salt = rnd_fill rnd 16;
                   (wrapped, kcv) = rsdk_dek_wrap (rsdk_kdf_kek (Some RSDK_DEFAULT_SN) new_salt) dek
               in (RSDK_OK, rsdk_dev_flush (d\<lparr>dv_sb := sb\<lparr>sb_wrapped_dek := wrapped, sb_dek_kcv := kcv,
                                                           sb_kdf_salt := new_salt\<rparr>\<rparr>))))"

section \<open>The layout fits the disk\<close>

lemma align_sec_nat:
  assumes "unat v + 512 \<le> 2 ^ 64"
  shows "unat (rsdk_align_up v 512 div 512) = (unat v + 511) div 512"
  using align_up_nat[of v 512] assms by (simp add: unat_div_word)

text \<open>One round of the layout loop over the integers; \<open>layout_step_nat\<close> says that the 64-bit code computes it.\<close>

definition bm_nat :: "nat \<Rightarrow> nat" where "bm_nat cc = ((cc * 2 + 7) div 8 * 2 + 511) div 512"

definition ix_nat :: "nat \<Rightarrow> nat \<Rightarrow> nat" where "ix_nat slots cc = (cc * slots * 64 + 511) div 512"

definition ds_nat :: "nat \<Rightarrow> nat \<Rightarrow> nat \<Rightarrow> nat" where
  "ds_nat chunk slots cc = ((19 + bm_nat cc + ix_nat slots cc) * 512 + chunk - 1) div chunk * chunk"

definition fits :: "u64 \<Rightarrow> u64 \<Rightarrow> u32 \<Rightarrow> bool" where
  "fits tot chunk slots \<longleftrightarrow> unat tot < 2 ^ 63 \<and> 2 ^ 20 \<le> unat chunk \<and> 512 dvd unat chunk \<and>
     2 * unat chunk \<le> unat tot \<and> unat slots \<le> 4096"

lemma rsv_bound:
  fixes cc :: nat
  assumes "2 ^ 20 \<le> C" "2 * C \<le> T" "s \<le> 4096" "cc \<le> T div C"
  shows "(19 + bm_nat cc + ix_nat s cc) * 512 + C \<le> T"
proof -
  have ccC: "cc * C \<le> T" using assms(4) by (metis div_times_less_eq_dividend le_trans mult_le_mono1)
  have "cc * 2 ^ 20 \<le> T" using ccC assms(1) by (meson le_trans mult_le_mono2)
  moreover have "cc * s * 64 \<le> cc * 4096 * 64" using assms(3) by simp
  then have "ix_nat s cc * 512 \<le> cc * 262144 + 511"
    unfolding ix_nat_def by linarith
  moreover have "bm_nat cc * 512 \<le> cc + 520"
    unfolding bm_nat_def by linarith
  moreover have "(19 + bm_nat cc + ix_nat s cc) * 512 = 9728 + bm_nat cc * 512 + ix_nat s cc * 512" by simp
  ultimately show ?thesis using assms(1,2) by simp
qed

lemma layout_step_nat:
  assumes f: "fits tot chunk slots" and cc: "unat (lo_cc lo) \<le> unat tot div unat chunk"
  defines "r \<equiv> layout_step tot chunk slots lo"
    and "c \<equiv> unat (lo_cc lo)" and "C \<equiv> unat chunk" and "T \<equiv> unat tot" and "s \<equiv> unat slots"
  shows "unat (lo_bm r) = bm_nat c" "unat (lo_ix r) = ix_nat s c" "unat (lo_ds r) * 512 = ds_nat C s c"
    "ds_nat C s c \<le> T" "unat (lo_cc r) = (T - ds_nat C s c) div C"
proof -
  have F: "T < 2 ^ 63" "2 ^ 20 \<le> C" "512 dvd C" "2 * C \<le> T" "s \<le> 4096"
    using f by (simp_all add: fits_def T_def C_def s_def)
  have c: "c \<le> T div C" using cc by (simp add: c_def T_def C_def)
  have rsv: "(19 + bm_nat c + ix_nat s c) * 512 + C \<le> T" by (rule rsv_bound) (use F c in auto)
  have "c \<le> T div 2 ^ 20" using c F(2) by (meson div_le_mono2 le_trans zero_less_numeral zero_less_power)
  then have c43: "c < 2 ^ 43" using F(1) by simp
  have "c * s \<le> 2 ^ 43 * 4096" using c43 F(5) by (intro mult_le_mono) simp_all
  then have cs: "c * s * 64 \<le> 2 ^ 61" by simp
  define bb where "bb = ((lo_cc lo * 2 + 7) div 8) * 2"
  define ib where "ib = lo_cc lo * ucast slots * 64"
  have b1: "unat (lo_cc lo * 2) = c * 2" using c43 by (subst unat_mult_nowrap) (simp_all add: c_def)
  have b2: "unat (lo_cc lo * 2 + 7) = c * 2 + 7" using c43 b1 by (subst unat_add_nowrap) simp_all
  have b3: "unat ((lo_cc lo * 2 + 7) div 8) = (c * 2 + 7) div 8" by (simp add: unat_div_word b2)
  have b4: "(c * 2 + 7) div 8 < 2 ^ 62" using c43 by simp
  have bb: "unat bb = (c * 2 + 7) div 8 * 2"
    unfolding bb_def using b3 b4 by (subst unat_mult_nowrap) simp_all
  have i1: "unat (lo_cc lo * ucast slots) = c * s"
    using cs by (subst unat_mult_nowrap) (simp_all add: c_def s_def mult.commute)
  have ib: "unat ib = c * s * 64"
    unfolding ib_def using i1 cs by (subst unat_mult_nowrap) simp_all
  have bm: "unat (rsdk_align_up bb 512 div 512) = bm_nat c"
    using bb b4 by (subst align_sec_nat) (simp_all add: bm_nat_def)
  have ix: "unat (rsdk_align_up ib 512 div 512) = ix_nat s c"
    using ib cs by (subst align_sec_nat) (simp_all add: ix_nat_def)
  define re where "re = (19 + rsdk_align_up bb 512 div 512 + rsdk_align_up ib 512 div 512) * (512 :: u64)"
  have r1: "unat (19 + rsdk_align_up bb 512 div 512) = 19 + bm_nat c"
    using rsv F(1) bm by (subst unat_add_nowrap) simp_all
  have r2: "unat (19 + rsdk_align_up bb 512 div 512 + rsdk_align_up ib 512 div 512) = 19 + bm_nat c + ix_nat s c"
    using rsv F(1) ix r1 by (subst unat_add_nowrap) simp_all
  have re: "unat re = (19 + bm_nat c + ix_nat s c) * 512"
    unfolding re_def using rsv F(1) r2 by (subst unat_mult_nowrap) simp_all
  have ds0: "unat (rsdk_align_up re chunk) = ds_nat C s c"
    using rsv F re by (subst align_up_nat) (simp_all add: ds_nat_def C_def)
  have dvd: "512 dvd ds_nat C s c" using F(3) by (simp add: ds_nat_def)
  have ds1: "unat (rsdk_align_up re chunk div 512) * 512 = ds_nat C s c"
    using dvd by (simp add: unat_div_word ds0)
  have "ds_nat C s c < (19 + bm_nat c + ix_nat s c) * 512 + C"
    unfolding ds_nat_def using F(2) by (intro align_nat_less) simp
  then show le: "ds_nat C s c \<le> T" using rsv by linarith
  have r: "lo_bm r = rsdk_align_up bb 512 div 512" "lo_ix r = rsdk_align_up ib 512 div 512"
    "lo_ds r = rsdk_align_up re chunk div 512"
    "lo_cc r = (tot - rsdk_align_up re chunk div 512 * 512) div chunk"
    by (simp_all add: r_def layout_step_def Let_def bb_def ib_def re_def RSDK_SEC_def BITMAP_SEC_def)
  show "unat (lo_bm r) = bm_nat c" "unat (lo_ix r) = ix_nat s c" using r bm ix by simp_all
  show d: "unat (lo_ds r) * 512 = ds_nat C s c" using r ds1 by simp
  have "unat (rsdk_align_up re chunk div 512 * 512) = ds_nat C s c"
    using ds1 le F(1) by (subst unat_mult_nowrap) simp_all
  then show "unat (lo_cc r) = (T - ds_nat C s c) div C"
    using le by (simp add: r unat_div_word unat_sub_nowrap T_def C_def)
qed


definition layout_ok :: "u64 \<Rightarrow> u64 \<Rightarrow> u32 \<Rightarrow> layout \<Rightarrow> bool" where
  "layout_ok tot chunk slots lo \<longleftrightarrow>
     19 + unat (lo_bm lo) + unat (lo_ix lo) \<le> unat (lo_ds lo) \<and>
     unat chunk dvd unat (lo_ds lo) * 512 \<and>
     unat (lo_ds lo) * 512 + unat (lo_cc lo) * unat chunk \<le> unat tot \<and>
     unat tot < unat (lo_ds lo) * 512 + (unat (lo_cc lo) + 1) * unat chunk"

lemma ds_nat_ge: "0 < C \<Longrightarrow> (19 + bm_nat c + ix_nat s c) * 512 \<le> ds_nat C s c"
  unfolding ds_nat_def by (rule align_nat_ge)

lemma layout_step_ok:
  assumes f: "fits tot chunk slots" and cc: "unat (lo_cc lo) \<le> unat tot div unat chunk"
  defines "r \<equiv> layout_step tot chunk slots lo"
  shows "layout_ok tot chunk slots r" "unat (lo_cc r) \<le> unat tot div unat chunk"
proof -
  let ?d = "ds_nat (unat chunk) (unat slots) (unat (lo_cc lo))"
  note n = layout_step_nat[OF f cc, folded r_def]
  have C: "0 < unat chunk" using f by (simp add: fits_def)
  have q: "unat (lo_cc r) * unat chunk \<le> unat tot - ?d" "unat tot - ?d < (unat (lo_cc r) + 1) * unat chunk"
    using C by (simp_all add: n(5) dividend_less_div_times)
  have "(19 + bm_nat (unat (lo_cc lo)) + ix_nat (unat slots) (unat (lo_cc lo))) * 512 \<le> unat (lo_ds r) * 512"
    using ds_nat_ge[OF C] n(3) by simp
  moreover have "unat chunk dvd ?d" by (simp add: ds_nat_def)
  ultimately show "layout_ok tot chunk slots r"
    unfolding layout_ok_def using n(1-4) q by auto
  show "unat (lo_cc r) \<le> unat tot div unat chunk"
    unfolding n(5) by (intro div_le_mono) simp
qed

lemma layout_steps_ok:
  assumes f: "fits tot chunk slots" and cc: "unat (lo_cc lo) \<le> unat tot div unat chunk"
  shows "unat (lo_cc ((layout_step tot chunk slots ^^ n) lo)) \<le> unat tot div unat chunk \<and>
    (0 < n \<longrightarrow> layout_ok tot chunk slots ((layout_step tot chunk slots ^^ n) lo))"
proof (induction n)
  case 0
  then show ?case using cc by simp
next
  case (Suc n)
  then show ?case using layout_step_ok[OF f] by simp
qed

lemma unat_chunk_of_mib: "unat (chunk_of_mib mib) = unat mib * 2 ^ 20"
proof -
  have "unat mib * 2 ^ 20 < 2 ^ 64" using unat_32_lt[of mib] by simp
  then show ?thesis
    unfolding chunk_of_mib_def push_bit_eq_mult by (subst unat_mult_nowrap) simp_all
qed

lemma compute_layout_ok:
  assumes T: "unat sectors * 512 < 2 ^ 63" and m: "0 < mib" and two: "2 * (unat mib * 2 ^ 20) \<le> unat sectors * 512"
    and s: "unat slots \<le> 4096" and r: "compute_layout sectors mib slots = (cs, lo)"
  shows "unat cs * 512 = unat mib * 2 ^ 20"
    "layout_ok (sectors * 512) (chunk_of_mib mib) slots lo"
    "unat (sectors * 512) = unat sectors * 512"
proof -
  have t: "unat (sectors * 512) = unat sectors * 512" using T by (subst unat_mult_nowrap) simp_all
  have m0: "0 < unat mib" using m by (simp add: unat_gt_0 word_neq_0_conv)
  have "(512 :: nat) dvd 2 ^ 20" by simp
  then have dvd: "512 dvd unat mib * 2 ^ 20" by (rule dvd_mult)
  have f: "fits (sectors * 512) (chunk_of_mib mib) slots"
    unfolding fits_def t unat_chunk_of_mib using T two s m0 dvd by simp
  have cs: "cs = chunk_of_mib mib div 512"
    and lo: "lo = (layout_step (sectors * 512) (chunk_of_mib mib) slots ^^ 4)
      \<lparr>lo_cc = sectors * 512 div chunk_of_mib mib, lo_bm = 0, lo_ix = 0, lo_ds = 0\<rparr>"
    using r by (simp_all add: compute_layout_def Let_def RSDK_SEC_def)
  show "unat cs * 512 = unat mib * 2 ^ 20" using dvd by (simp add: cs unat_div_word unat_chunk_of_mib)
  show "layout_ok (sectors * 512) (chunk_of_mib mib) slots lo"
    unfolding lo using layout_steps_ok[OF f, of _ 4] by (simp add: unat_div_word)
  show "unat (sectors * 512) = unat sectors * 512" by (rule t)
qed

section \<open>What is on the medium\<close>

lemma pwrite_simps [simp]:
  "rw_data (rsdk_rawdev_pwrite r off buf) = dwrite (rw_data r) (unat off) buf"
  "rw_sectors (rsdk_rawdev_pwrite r off buf) = rw_sectors r"
  by (simp_all add: rsdk_rawdev_pwrite_def)

lemma sec_off [simp]:
  "unat (SB_MAIN_SEC * RSDK_SEC) = 512" "unat (SB_BAK_SEC * RSDK_SEC) = 1024"
  "unat (ST_MAIN_SEC * RSDK_SEC) = 1536" "unat (ST_BAK_SEC * RSDK_SEC) = 5632"
  "unat BITMAP_SEC = 19"
  by (simp_all add: sec_defs)

definition sb_sealed :: "superblock \<Rightarrow> bool" where
  "sb_sealed sb \<longleftrightarrow> sb_wf sb \<and> sb_magic sb = RSDK_SB_MAGIC \<and>
     rsdk_crc32 (sb_encode (sb\<lparr>sb_crc32 := 0\<rparr>)) = sb_crc32 sb"

definition st_sealed :: "systab \<Rightarrow> bool" where
  "st_sealed st \<longleftrightarrow> st_wf st \<and> st_magic st = STAB_MAGIC"

text \<open>Both copies of both structures are on the medium.\<close>

definition on_disk :: "store \<Rightarrow> superblock \<Rightarrow> systab \<Rightarrow> bool" where
  "on_disk m sb st \<longleftrightarrow> dread m 512 512 = sb_encode sb \<and> dread m 1024 512 = sb_encode sb \<and>
     dread m 1536 4096 = st_encode st \<and> dread m 5632 4096 = st_encode st"

lemma dev_open_main:
  assumes "fs path = Some im" "dread (im_data im) 512 512 = sb_encode sb"
    "dread (im_data im) 1536 4096 = st_encode st" "sb_sealed sb" "st_sealed st"
  shows "rsdk_dev_open fs path =
    Inr (dev_assemble \<lparr>rw_data = im_data im, rw_sectors = im_bytes im div RSDK_SEC\<rparr> sb st)"
  using assms
  by (simp add: rsdk_dev_open_def rsdk_rawdev_open_def rsdk_rawdev_pread_def Let_def sb_sealed_def
      st_sealed_def sb_roundtrip st_roundtrip)

lemma dev_open_backup:
  assumes "fs path = Some im" "sb_magic (sb_decode (dread (im_data im) 512 512)) \<noteq> RSDK_SB_MAGIC"
    "dread (im_data im) 1024 512 = sb_encode sb" "sb_sealed sb" "st_sealed st"
    "dread (im_data im) 1536 4096 = st_encode st \<or>
       st_magic (st_decode (dread (im_data im) 1536 4096)) \<noteq> STAB_MAGIC \<and>
       dread (im_data im) 5632 4096 = st_encode st"
  shows "rsdk_dev_open fs path =
    Inr (dev_assemble \<lparr>rw_data = im_data im, rw_sectors = im_bytes im div RSDK_SEC\<rparr> sb st)"
  using assms
  by (auto simp: rsdk_dev_open_def rsdk_rawdev_open_def rsdk_rawdev_pread_def Let_def sb_sealed_def
      st_sealed_def sb_roundtrip st_roundtrip)

lemma seal_sb_sealed: "sb_wf sb \<Longrightarrow> sb_magic sb = RSDK_SB_MAGIC \<Longrightarrow> sb_sealed (seal_sb sb)"
  by (simp add: sb_sealed_def seal_sb_def sb_wf_def Let_def)

lemma seal_st_sealed: "st_wf st \<Longrightarrow> st_magic st = STAB_MAGIC \<Longrightarrow> st_sealed (seal_st st)"
  by (simp add: st_sealed_def seal_st_def st_wf_def Let_def)

lemma seal_sb_idem: "sb_sealed sb \<Longrightarrow> seal_sb sb = sb"
  by (simp add: sb_sealed_def seal_sb_def Let_def)

subsection \<open>Flush\<close>

text \<open>The medium after the first \<open>k\<close> of the four writes of a flush.\<close>

definition flush_prefix :: "nat \<Rightarrow> rsdk_dev \<Rightarrow> rawdev" where
  "flush_prefix k d = apply_writes (take k (flush_writes (seal d))) (dv_raw d)"

lemma seal_simps [simp]:
  "dv_raw (seal d) = dv_raw d" "dv_sb (seal d) = seal_sb (dv_sb d)" "dv_st (seal d) = seal_st (dv_st d)"
  "dv_crypto (seal d) = dv_crypto d" "dv_chunk_bytes (seal d) = dv_chunk_bytes d"
  "dv_data_chunks (seal d) = dv_data_chunks d" "dv_meta_base (seal d) = dv_meta_base d"
  by (simp_all add: seal_def)

lemma flush_prefix_full: "dv_raw (rsdk_dev_flush d) = flush_prefix 4 d"
  by (simp add: rsdk_dev_flush_def flush_prefix_def flush_writes_def Let_def)

lemma rw_sectors_apply_writes [simp]: "rw_sectors (apply_writes ws r) = rw_sectors r"
  by (induction ws arbitrary: r) (auto simp: apply_writes_def)

lemma flush_prefix_reads:
  assumes "sb_sealed (seal_sb (dv_sb d))" "st_sealed (seal_st (dv_st d))"
    and disk: "on_disk (rw_data (dv_raw d)) sb0 st0" and k: "k \<le> 4"
  defines "m \<equiv> rw_data (flush_prefix k d)"
  shows "dread m 512 512 = sb_encode (if k < 3 then sb0 else seal_sb (dv_sb d))"
    and "dread m 1024 512 = sb_encode (if k < 1 then sb0 else seal_sb (dv_sb d))"
    and "dread m 1536 4096 = st_encode (if k < 4 then st0 else seal_st (dv_st d))"
    and "dread m 5632 4096 = st_encode (if k < 2 then st0 else seal_st (dv_st d))"
proof -
  have len: "length (sb_encode (seal_sb (dv_sb d))) = 512" "length (st_encode (seal_st (dv_st d))) = 4096"
    using assms(1,2) by (simp_all add: sb_sealed_def st_sealed_def sb_encode_length st_encode_length)
  have ks: "k = 0 \<or> k = 1 \<or> k = 2 \<or> k = 3 \<or> k = 4" using k by auto
  show "dread m 512 512 = sb_encode (if k < 3 then sb0 else seal_sb (dv_sb d))"
    "dread m 1024 512 = sb_encode (if k < 1 then sb0 else seal_sb (dv_sb d))"
    "dread m 1536 4096 = st_encode (if k < 4 then st0 else seal_st (dv_st d))"
    "dread m 5632 4096 = st_encode (if k < 2 then st0 else seal_st (dv_st d))"
    using ks disk len mem.rd_wr_len[OF len(1)] mem.rd_wr_len[OF len(2)]
    by (auto simp: on_disk_def m_def flush_prefix_def flush_writes_def apply_writes_def
        dread_dwrite_other take_Cons')
qed

lemma flush_on_disk:
  assumes "sb_sealed (seal_sb (dv_sb d))" "st_sealed (seal_st (dv_st d))"
  shows "on_disk (rw_data (dv_raw (rsdk_dev_flush d))) (seal_sb (dv_sb d)) (seal_st (dv_st d))"
proof -
  have len: "length (sb_encode (seal_sb (dv_sb d))) = 512" "length (st_encode (seal_st (dv_st d))) = 4096"
    using assms by (simp_all add: sb_sealed_def st_sealed_def sb_encode_length st_encode_length)
  show ?thesis
    using len mem.rd_wr_len[OF len(1)] mem.rd_wr_len[OF len(2)]
    by (simp add: on_disk_def rsdk_dev_flush_def Let_def flush_writes_def apply_writes_def dread_dwrite_other)
qed

lemma flush_simps [simp]:
  "dv_sb (rsdk_dev_flush d) = seal_sb (dv_sb d)" "dv_st (rsdk_dev_flush d) = seal_st (dv_st d)"
  "dv_crypto (rsdk_dev_flush d) = dv_crypto d" "dv_chunk_bytes (rsdk_dev_flush d) = dv_chunk_bytes d"
  "dv_data_chunks (rsdk_dev_flush d) = dv_data_chunks d" "dv_meta_base (rsdk_dev_flush d) = dv_meta_base d"
  "rw_sectors (dv_raw (rsdk_dev_flush d)) = rw_sectors (dv_raw d)"
  by (simp_all add: rsdk_dev_flush_def Let_def)

text \<open>A flush touches the two SuperBlock sectors and the two SysTabs only.\<close>

lemma flush_frame:
  assumes "sb_wf (dv_sb d)" "st_wf (dv_st d)" "9728 \<le> a"
  shows "dread (rw_data (dv_raw (rsdk_dev_flush d))) a n = dread (rw_data (dv_raw d)) a n"
proof -
  have "length (sb_encode (seal_sb (dv_sb d))) = 512" "length (st_encode (seal_st (dv_st d))) = 4096"
    using assms by (simp_all add: sb_encode_length st_encode_length seal_sb_def seal_st_def sb_wf_def st_wf_def Let_def)
  then show ?thesis using assms(3)
    by (simp add: rsdk_dev_flush_def Let_def flush_writes_def apply_writes_def dread_dwrite_other)
qed

section \<open>The invariant of an open disk\<close>

text \<open>\<open>geom_ok\<close>: the constants of the handle agree with the SuperBlock and no offset overflows.
  \<open>ring_ok\<close>: the write pointer is a data chunk (one past the end only under the stop policy).
  \<open>st_ok\<close>: the index region lies between the bitmap and the data, its cursor is a slot, the MetaRegion is as large as its chunks.\<close>

definition geom_ok :: "rsdk_dev \<Rightarrow> bool" where
  "geom_ok d \<longleftrightarrow>
     dv_chunk_bytes d = sb_chunk_sectors (dv_sb d) * RSDK_SEC \<and>
     2 ^ 20 dvd unat (dv_chunk_bytes d) \<and> 0 < unat (dv_chunk_bytes d) \<and>
     unat (sb_data_start_sec (dv_sb d)) * 512 + unat (sb_chunk_count (dv_sb d)) * unat (dv_chunk_bytes d) < 2 ^ 63 \<and>
     unat (sb_meta_chunk_count (dv_sb d)) \<le> unat (sb_chunk_count (dv_sb d)) \<and>
     dv_data_chunks d = sb_chunk_count (dv_sb d) - sb_meta_chunk_count (dv_sb d) \<and>
     sb_meta_start_chunk (dv_sb d) = dv_data_chunks d \<and>
     dv_meta_base d = sb_data_start_sec (dv_sb d) * RSDK_SEC + sb_meta_start_chunk (dv_sb d) * dv_chunk_bytes d"

definition ring_ok :: "rsdk_dev \<Rightarrow> bool" where
  "ring_ok d \<longleftrightarrow>
     unat (sb_write_ptr_chunk (dv_sb d)) \<le> unat (dv_data_chunks d) \<and>
     (sb_hdd_full (dv_sb d) \<noteq> RSDK_HDDFULL_STOP \<longrightarrow> 0 < unat (dv_data_chunks d) \<longrightarrow>
        unat (sb_write_ptr_chunk (dv_sb d)) < unat (dv_data_chunks d))"

definition st_ok :: "rsdk_dev \<Rightarrow> bool" where
  "st_ok d \<longleftrightarrow>
     19 \<le> unat (st_index_start_sec (dv_st d)) \<and>
     unat (st_index_start_sec (dv_st d)) + unat (st_index_sectors (dv_st d)) \<le> unat (sb_data_start_sec (dv_sb d)) \<and>
     unat (st_index_slot_count (dv_st d)) * 64 \<le> unat (st_index_sectors (dv_st d)) * 512 \<and>
     (0 < unat (st_index_slot_count (dv_st d)) \<longrightarrow> unat (st_index_next (dv_st d)) < unat (st_index_slot_count (dv_st d))) \<and>
     unat (st_meta_bytes (dv_st d)) = unat (sb_meta_chunk_count (dv_sb d)) * unat (dv_chunk_bytes d) \<and>
     unat (st_meta_next_off (dv_st d)) \<le> unat (st_meta_bytes (dv_st d))"

definition dev_ok :: "rsdk_dev \<Rightarrow> bool" where
  "dev_ok d \<longleftrightarrow> sb_wf (dv_sb d) \<and> sb_magic (dv_sb d) = RSDK_SB_MAGIC \<and> st_sealed (dv_st d) \<and>
     geom_ok d \<and> ring_ok d \<and> st_ok d"

lemma seal_sb_fields [simp]:
  "sb_magic (seal_sb s) = sb_magic s" "sb_chunk_sectors (seal_sb s) = sb_chunk_sectors s"
  "sb_chunk_count (seal_sb s) = sb_chunk_count s" "sb_data_start_sec (seal_sb s) = sb_data_start_sec s"
  "sb_meta_chunk_count (seal_sb s) = sb_meta_chunk_count s" "sb_meta_start_chunk (seal_sb s) = sb_meta_start_chunk s"
  "sb_write_ptr_chunk (seal_sb s) = sb_write_ptr_chunk s" "sb_hdd_full (seal_sb s) = sb_hdd_full s"
  "sb_seq_epoch (seal_sb s) = sb_seq_epoch s" "sb_enc_algo (seal_sb s) = sb_enc_algo s"
  "sb_kdf_salt (seal_sb s) = sb_kdf_salt s" "sb_wrapped_dek (seal_sb s) = sb_wrapped_dek s"
  "sb_dek_kcv (seal_sb s) = sb_dek_kcv s" "sb_wf (seal_sb s) = sb_wf s"
  "sb_group_disk_index (seal_sb s) = sb_group_disk_index s" "sb_group_uuid (seal_sb s) = sb_group_uuid s"
  by (simp_all add: seal_sb_def sb_wf_def Let_def)

lemma seal_st_fields [simp]:
  "st_magic (seal_st s) = st_magic s" "st_index_start_sec (seal_st s) = st_index_start_sec s"
  "st_index_sectors (seal_st s) = st_index_sectors s" "st_index_slot_count (seal_st s) = st_index_slot_count s"
  "st_meta_bytes (seal_st s) = st_meta_bytes s" "st_meta_next_off (seal_st s) = st_meta_next_off s"
  "st_index_next (seal_st s) = st_index_next s" "st_chn (seal_st s) = st_chn s" "st_wf (seal_st s) = st_wf s"
  by (simp_all add: seal_st_def st_wf_def Let_def)

lemma dev_ok_flush [simp]: "dev_ok (rsdk_dev_flush d) = dev_ok d"
  unfolding dev_ok_def st_sealed_def geom_ok_def ring_ok_def st_ok_def
  by (simp only: flush_simps seal_sb_fields seal_st_fields)

lemma dev_ok_sealed:
  assumes "dev_ok d"
  shows "sb_sealed (seal_sb (dv_sb d))" "st_sealed (seal_st (dv_st d))"
  using assms by (simp_all add: dev_ok_def seal_sb_sealed seal_st_sealed st_sealed_def)

text \<open>What a later open of the medium sees.\<close>

definition medium :: "image_fs \<Rightarrow> string \<Rightarrow> rawdev \<Rightarrow> u64 \<Rightarrow> image_fs" where
  "medium fs path raw bytes = fs(path \<mapsto> \<lparr>im_data = rw_data raw, im_bytes = bytes\<rparr>)"

lemma flush_crash_open:
  assumes ok: "dev_ok d" and disk: "on_disk (rw_data (dv_raw d)) sb0 st0" "sb_sealed sb0" "st_sealed st0"
    and k: "k \<le> 4"
  shows "\<exists>raw. rsdk_dev_open (medium fs path (flush_prefix k d) n) path =
    Inr (dev_assemble raw (if k < 3 then sb0 else seal_sb (dv_sb d)) (if k < 4 then st0 else seal_st (dv_st d)))"
proof -
  note s = dev_ok_sealed[OF ok]
  show ?thesis
    using flush_prefix_reads[OF s disk(1) k] disk(2,3) s
    by (intro exI[of _ "\<lparr>rw_data = rw_data (flush_prefix k d), rw_sectors = n div RSDK_SEC\<rparr>"])
      (subst dev_open_main[where im = "\<lparr>im_data = rw_data (flush_prefix k d), im_bytes = n\<rparr>"],
        auto simp: medium_def)
qed

lemma dev_open_bad_crc:
  assumes "fs path = Some im" "sb_magic sb = RSDK_SB_MAGIC" "sb = sb_decode (dread (im_data im) 512 512)"
    "rsdk_crc32 (sb_encode (sb\<lparr>sb_crc32 := 0\<rparr>)) \<noteq> sb_crc32 sb"
  shows "rsdk_dev_open fs path = Inl RSDK_E_CORRUPT"
  using assms by (simp add: rsdk_dev_open_def rsdk_rawdev_open_def rsdk_rawdev_pread_def Let_def)

section \<open>The chunk ring\<close>

abbreviation dN :: "rsdk_dev \<Rightarrow> nat" where "dN d \<equiv> unat (dv_data_chunks d)"

abbreviation dC :: "rsdk_dev \<Rightarrow> nat" where "dC d \<equiv> unat (dv_chunk_bytes d)"

abbreviation dD :: "rsdk_dev \<Rightarrow> nat" where "dD d \<equiv> unat (sb_data_start_sec (dv_sb d)) * 512"

lemma dev_ok_space:
  assumes "dev_ok d"
  shows "dN d = unat (sb_chunk_count (dv_sb d)) - unat (sb_meta_chunk_count (dv_sb d))"
    and "dD d + dN d * dC d + unat (st_meta_bytes (dv_st d)) < 2 ^ 63"
    and "unat (dv_meta_base d) = dD d + dN d * dC d"
    and "unat (sb_data_start_sec (dv_sb d) * RSDK_SEC) = dD d"
proof -
  have G: "geom_ok d" "st_ok d" using assms by (simp_all add: dev_ok_def)
  have le: "unat (sb_meta_chunk_count (dv_sb d)) \<le> unat (sb_chunk_count (dv_sb d))"
    and dc: "dv_data_chunks d = sb_chunk_count (dv_sb d) - sb_meta_chunk_count (dv_sb d)"
    and big: "dD d + unat (sb_chunk_count (dv_sb d)) * dC d < 2 ^ 63"
    and mb: "dv_meta_base d = sb_data_start_sec (dv_sb d) * RSDK_SEC + dv_data_chunks d * dv_chunk_bytes d"
    using G(1) unfolding geom_ok_def by metis+
  show n: "dN d = unat (sb_chunk_count (dv_sb d)) - unat (sb_meta_chunk_count (dv_sb d))"
    unfolding dc by (rule unat_sub_nowrap[OF le])
  have "unat (sb_chunk_count (dv_sb d)) = dN d + unat (sb_meta_chunk_count (dv_sb d))" using n le by simp
  moreover have "unat (st_meta_bytes (dv_st d)) = unat (sb_meta_chunk_count (dv_sb d)) * dC d"
    using G(2) unfolding st_ok_def by blast
  ultimately show sp: "dD d + dN d * dC d + unat (st_meta_bytes (dv_st d)) < 2 ^ 63"
    using big by (simp only: add_mult_distrib add.assoc)
  show a: "unat (sb_data_start_sec (dv_sb d) * RSDK_SEC) = dD d"
    using sp by (subst unat_mult_nowrap) (simp_all add: RSDK_SEC_def)
  have b: "unat (dv_data_chunks d * dv_chunk_bytes d) = dN d * dC d"
    using sp by (subst unat_mult_nowrap) simp_all
  show "unat (dv_meta_base d) = dD d + dN d * dC d"
    using sp a b by (simp add: mb unat_add_nowrap)
qed

definition chunk_byte_off :: "rsdk_dev \<Rightarrow> u64 \<Rightarrow> u64" where
  "chunk_byte_off d c = sb_data_start_sec (dv_sb d) * RSDK_SEC + c * dv_chunk_bytes d"

lemma unat_chunk_byte_off:
  assumes "dev_ok d" "unat c < dN d"
  shows "unat (chunk_byte_off d c) = dD d + unat c * dC d"
    and "unat (chunk_byte_off d c) + dC d \<le> unat (dv_meta_base d)"
proof -
  have "(unat c + 1) * dC d \<le> dN d * dC d" using assms(2) by (intro mult_le_mono1) simp
  then have le: "unat c * dC d + dC d \<le> dN d * dC d" by simp
  have "unat (c * dv_chunk_bytes d) = unat c * dC d"
    using le dev_ok_space(2)[OF assms(1)] by (subst unat_mult_nowrap) simp_all
  then show eq: "unat (chunk_byte_off d c) = dD d + unat c * dC d"
    using le dev_ok_space(2,4)[OF assms(1)] by (simp add: chunk_byte_off_def unat_add_nowrap)
  show "unat (chunk_byte_off d c) + dC d \<le> unat (dv_meta_base d)"
    using eq le dev_ok_space(3)[OF assms(1)] by simp
qed

lemma alloc_overwrite:
  assumes ok: "dev_ok d" and ow: "sb_hdd_full (dv_sb d) \<noteq> RSDK_HDDFULL_STOP" and N: "0 < dN d"
  defines "w \<equiv> unat (sb_write_ptr_chunk (dv_sb d))"
  shows "w < dN d"
    and "rsdk_dev_alloc_chunk d =
      (Inr (of_nat w, chunk_byte_off d (of_nat w)),
       d\<lparr>dv_sb := (dv_sb d)\<lparr>sb_write_ptr_chunk := of_nat ((w + 1) mod dN d),
                           sb_seq_epoch := sb_seq_epoch (dv_sb d) + of_nat ((w + 1) div dN d)\<rparr>\<rparr>)"
proof -
  have N0: "dv_data_chunks d \<noteq> 0" using N by auto
  show w: "w < dN d" using ok ow N by (simp add: dev_ok_def ring_ok_def w_def)
  have nw: "unat (sb_write_ptr_chunk (dv_sb d) + 1) = w + 1"
    using w unat_64_lt[of "dv_data_chunks d"] by (subst unat_add_nowrap) (simp_all add: w_def)
  have ow': "of_nat w = sb_write_ptr_chunk (dv_sb d)" by (simp add: w_def)
  show "rsdk_dev_alloc_chunk d =
      (Inr (of_nat w, chunk_byte_off d (of_nat w)),
       d\<lparr>dv_sb := (dv_sb d)\<lparr>sb_write_ptr_chunk := of_nat ((w + 1) mod dN d),
                           sb_seq_epoch := sb_seq_epoch (dv_sb d) + of_nat ((w + 1) div dN d)\<rparr>\<rparr>)"
  proof (cases "w + 1 = dN d")
    case True
    then have "dv_data_chunks d \<le> sb_write_ptr_chunk (dv_sb d) + 1" by (simp add: word_le_nat_alt nw)
    then show ?thesis
      using N0 ow True by (simp add: rsdk_dev_alloc_chunk_def Let_def chunk_byte_off_def ow')
  next
    case False
    then have lt: "w + 1 < dN d" using w by simp
    then have "\<not> dv_data_chunks d \<le> sb_write_ptr_chunk (dv_sb d) + 1" by (simp add: word_le_nat_alt nw)
    moreover have "of_nat (w + 1) = sb_write_ptr_chunk (dv_sb d) + 1" by (simp add: ow')
    ultimately show ?thesis
      using N0 ow lt by (simp add: rsdk_dev_alloc_chunk_def Let_def chunk_byte_off_def ow')
  qed
qed

lemma alloc_stop:
  assumes ok: "dev_ok d" and st: "sb_hdd_full (dv_sb d) = RSDK_HDDFULL_STOP"
  defines "w \<equiv> unat (sb_write_ptr_chunk (dv_sb d))"
  shows "rsdk_dev_alloc_chunk d =
      (if w < dN d then (Inr (of_nat w, chunk_byte_off d (of_nat w)),
           d\<lparr>dv_sb := (dv_sb d)\<lparr>sb_write_ptr_chunk := of_nat (w + 1)\<rparr>\<rparr>)
       else (Inl RSDK_E_NOSPACE, d))"
proof (cases "w < dN d")
  case True
  then have N0: "dv_data_chunks d \<noteq> 0" by auto
  have "\<not> dv_data_chunks d \<le> sb_write_ptr_chunk (dv_sb d)" using True by (simp add: word_le_nat_alt w_def)
  then show ?thesis
    using N0 True st by (simp add: rsdk_dev_alloc_chunk_def Let_def chunk_byte_off_def w_def add.commute)
next
  case False
  then have "dv_data_chunks d \<le> sb_write_ptr_chunk (dv_sb d)" by (simp add: word_le_nat_alt w_def)
  then show ?thesis using False st by (simp add: rsdk_dev_alloc_chunk_def Let_def)
qed

lemma geom_ok_cong:
  assumes "geom_ok d" "dv_chunk_bytes d' = dv_chunk_bytes d" "dv_data_chunks d' = dv_data_chunks d"
    "dv_meta_base d' = dv_meta_base d" "sb_chunk_sectors (dv_sb d') = sb_chunk_sectors (dv_sb d)"
    "sb_data_start_sec (dv_sb d') = sb_data_start_sec (dv_sb d)" "sb_chunk_count (dv_sb d') = sb_chunk_count (dv_sb d)"
    "sb_meta_chunk_count (dv_sb d') = sb_meta_chunk_count (dv_sb d)"
    "sb_meta_start_chunk (dv_sb d') = sb_meta_start_chunk (dv_sb d)"
  shows "geom_ok d'"
  using assms(1) unfolding geom_ok_def assms(2-) .

lemma st_ok_cong:
  assumes "st_ok d" "dv_chunk_bytes d' = dv_chunk_bytes d" "dv_st d' = dv_st d"
    "sb_data_start_sec (dv_sb d') = sb_data_start_sec (dv_sb d)"
    "sb_meta_chunk_count (dv_sb d') = sb_meta_chunk_count (dv_sb d)"
  shows "st_ok d'"
  using assms(1) unfolding st_ok_def assms(2-) .

lemma alloc_ok:
  assumes ok: "dev_ok d" and r: "rsdk_dev_alloc_chunk d = (res, d')"
  shows "dev_ok d'"
proof -
  have parts: "geom_ok d'" "st_ok d'" "sb_wf (dv_sb d')" "sb_magic (dv_sb d') = RSDK_SB_MAGIC" "st_sealed (dv_st d')"
    using ok r by (auto simp: dev_ok_def rsdk_dev_alloc_chunk_def Let_def sb_wf_def split: if_splits
        intro: geom_ok_cong st_ok_cong)
  have "ring_ok d'"
  proof (cases "sb_hdd_full (dv_sb d) = RSDK_HDDFULL_STOP")
    case True
    show ?thesis
    proof (cases "unat (sb_write_ptr_chunk (dv_sb d)) < dN d")
      case lt: True
      have e: "d' = d\<lparr>dv_sb := (dv_sb d)\<lparr>sb_write_ptr_chunk := of_nat (unat (sb_write_ptr_chunk (dv_sb d)) + 1)\<rparr>\<rparr>"
        using alloc_stop[OF ok True] r lt by simp
      have "unat (of_nat (unat (sb_write_ptr_chunk (dv_sb d)) + 1) :: u64) \<le> dN d"
        using lt unat_64_lt[of "dv_data_chunks d"] by (subst unat_of_nat_small) simp_all
      then show ?thesis using True by (simp add: ring_ok_def e del: of_nat_add)
    next
      case False
      then show ?thesis using alloc_stop[OF ok True] r ok by (simp add: dev_ok_def)
    qed
  next
    case ow: False
    show ?thesis
    proof (cases "0 < dN d")
      case N: True
      let ?v = "(unat (sb_write_ptr_chunk (dv_sb d)) + 1) mod dN d"
      have e: "sb_write_ptr_chunk (dv_sb d') = of_nat ?v" "dv_data_chunks d' = dv_data_chunks d"
        using alloc_overwrite(2)[OF ok ow N] r by auto
      have "?v < dN d" using N by simp
      moreover then have "unat (of_nat ?v :: u64) = ?v"
        using unat_64_lt[of "dv_data_chunks d"] by (simp add: unat_of_nat)
      ultimately show ?thesis by (simp add: ring_ok_def e del: of_nat_add)
    next
      case False
      then have "dv_data_chunks d = 0" by (simp add: unat_eq_zero)
      then show ?thesis using r ok by (simp add: rsdk_dev_alloc_chunk_def Let_def dev_ok_def)
    qed
  qed
  with parts show ?thesis by (simp add: dev_ok_def)
qed

lemma alloc_fields:
  assumes "rsdk_dev_alloc_chunk d = (res, d')"
  shows "dv_raw d' = dv_raw d" "dv_st d' = dv_st d" "dv_crypto d' = dv_crypto d"
    "dv_chunk_bytes d' = dv_chunk_bytes d" "dv_data_chunks d' = dv_data_chunks d" "dv_meta_base d' = dv_meta_base d"
    "sb_data_start_sec (dv_sb d') = sb_data_start_sec (dv_sb d)" "sb_hdd_full (dv_sb d') = sb_hdd_full (dv_sb d)"
    "chunk_byte_off d' = chunk_byte_off d" "sb_group_disk_index (dv_sb d') = sb_group_disk_index (dv_sb d)"
    "sb_wf (dv_sb d') = sb_wf (dv_sb d)"
  using assms by (auto simp: rsdk_dev_alloc_chunk_def Let_def sb_wf_def chunk_byte_off_def fun_eq_iff split: if_splits)

text \<open>A run of \<open>n\<close> allocations.\<close>

fun alloc_many :: "nat \<Rightarrow> rsdk_dev \<Rightarrow> (rsdk_err + (u64 \<times> u64)) list \<times> rsdk_dev" where
  "alloc_many 0 d = ([], d)"
| "alloc_many (Suc n) d =
     (let (r, d1) = rsdk_dev_alloc_chunk d; (rs, d2) = alloc_many n d1 in (r # rs, d2))"

lemma map_upt_Suc_shift: "map f [0..<Suc n] = f 0 # map (\<lambda>k. f (Suc k)) [0..<n]"
  by (simp add: upt_conv_Cons map_Suc_upt[symmetric] del: upt_Suc)

lemma alloc_many_overwrite:
  assumes "dev_ok d" "sb_hdd_full (dv_sb d) \<noteq> RSDK_HDDFULL_STOP" "0 < dN d"
    and "w = unat (sb_write_ptr_chunk (dv_sb d))"
  shows "fst (alloc_many n d) = map (\<lambda>k. let c = of_nat ((w + k) mod dN d) in Inr (c, chunk_byte_off d c)) [0..<n] \<and>
    dev_ok (snd (alloc_many n d)) \<and>
    sb_seq_epoch (dv_sb (snd (alloc_many n d))) = sb_seq_epoch (dv_sb d) + of_nat ((w + n) div dN d) \<and>
    unat (sb_write_ptr_chunk (dv_sb (snd (alloc_many n d)))) = (w + n) mod dN d"
  using assms
proof (induction n arbitrary: d w)
  case 0
  then show ?case using alloc_overwrite(1)[OF 0(1-3)] by simp
next
  case (Suc n)
  define d1 where "d1 = d\<lparr>dv_sb := (dv_sb d)\<lparr>sb_write_ptr_chunk := of_nat ((w + 1) mod dN d),
                           sb_seq_epoch := sb_seq_epoch (dv_sb d) + of_nat ((w + 1) div dN d)\<rparr>\<rparr>"
  have step: "rsdk_dev_alloc_chunk d = (Inr (of_nat w, chunk_byte_off d (of_nat w)), d1)" and w: "w < dN d"
    using alloc_overwrite[OF Suc.prems(1-3)] Suc.prems(4) by (simp_all add: d1_def)
  have pre: "dev_ok d1" "sb_hdd_full (dv_sb d1) \<noteq> RSDK_HDDFULL_STOP" "0 < dN d1"
    using alloc_ok[OF Suc.prems(1) step] Suc.prems(2,3) by (simp_all add: d1_def)
  have "(w + 1) mod dN d < dN d" using Suc.prems(3) by simp
  then have w1: "(w + 1) mod dN d = unat (sb_write_ptr_chunk (dv_sb d1))"
    using unat_64_lt[of "dv_data_chunks d"] by (simp add: d1_def unat_of_nat)
  have e1: "dN d1 = dN d" "chunk_byte_off d1 = chunk_byte_off d"
    "sb_seq_epoch (dv_sb d1) = sb_seq_epoch (dv_sb d) + of_nat ((w + 1) div dN d)"
    by (simp_all add: d1_def chunk_byte_off_def fun_eq_iff)
  have md: "((w + 1) mod dN d + k) mod dN d = (w + Suc k) mod dN d" for k
    by (simp add: mod_add_left_eq)
  have "w + Suc n = ((w + 1) mod dN d + n) + dN d * ((w + 1) div dN d)"
    using mod_mult_div_eq[of "w + 1" "dN d"] by simp
  then have dv: "(w + 1) div dN d + ((w + 1) mod dN d + n) div dN d = (w + Suc n) div dN d"
    using Suc.prems(3) by (metis add.commute div_mult_self2 less_numeral_extra(3))
  note IH = Suc.IH[OF pre w1, unfolded e1]
  have many: "alloc_many (Suc n) d =
      (Inr (of_nat w, chunk_byte_off d (of_nat w)) # fst (alloc_many n d1), snd (alloc_many n d1))"
    by (simp add: step case_prod_beta)
  have "sb_seq_epoch (dv_sb d) + of_nat ((w + 1) div dN d) + of_nat (((w + 1) mod dN d + n) div dN d)
      = sb_seq_epoch (dv_sb d) + of_nat ((w + Suc n) div dN d)"
    unfolding dv[symmetric] by (simp only: of_nat_add add.assoc)
  then show ?case
    unfolding many fst_conv snd_conv map_upt_Suc_shift using IH w by (simp only: md) (simp add: Let_def)
qed

lemma alloc_many_stop:
  assumes "dev_ok d" "sb_hdd_full (dv_sb d) = RSDK_HDDFULL_STOP"
    and "w = unat (sb_write_ptr_chunk (dv_sb d))"
  shows "fst (alloc_many n d) = map (\<lambda>k. if w + k < dN d then Inr (of_nat (w + k), chunk_byte_off d (of_nat (w + k)))
      else Inl RSDK_E_NOSPACE) [0..<n] \<and>
    dev_ok (snd (alloc_many n d)) \<and>
    sb_seq_epoch (dv_sb (snd (alloc_many n d))) = sb_seq_epoch (dv_sb d)"
  using assms
proof (induction n arbitrary: d w)
  case 0
  then show ?case by simp
next
  case (Suc n)
  note step = alloc_stop[OF Suc.prems(1,2), folded Suc.prems(3)]
  show ?case
  proof (cases "w < dN d")
    case True
    define d1 where "d1 = d\<lparr>dv_sb := (dv_sb d)\<lparr>sb_write_ptr_chunk := of_nat (w + 1)\<rparr>\<rparr>"
    have st: "rsdk_dev_alloc_chunk d = (Inr (of_nat w, chunk_byte_off d (of_nat w)), d1)"
      using step True by (simp add: d1_def)
    have pre: "dev_ok d1" "sb_hdd_full (dv_sb d1) = RSDK_HDDFULL_STOP"
      using alloc_ok[OF Suc.prems(1) st] Suc.prems(2) by (simp_all add: d1_def)
    have "unat (of_nat (w + 1) :: u64) = w + 1"
      using True unat_64_lt[of "dv_data_chunks d"] by (intro unat_of_nat_small) simp
    then have "w + 1 = unat (sb_write_ptr_chunk (dv_sb d1))" by (simp add: d1_def del: of_nat_add)
    note IH = Suc.IH[OF pre this]
    have "dN d1 = dN d" "chunk_byte_off d1 = chunk_byte_off d" "sb_seq_epoch (dv_sb d1) = sb_seq_epoch (dv_sb d)"
      by (simp_all add: d1_def chunk_byte_off_def fun_eq_iff)
    then show ?thesis
      using IH True by (simp add: st case_prod_beta map_upt_Suc_shift del: upt_Suc)
  next
    case False
    then have st: "rsdk_dev_alloc_chunk d = (Inl RSDK_E_NOSPACE, d)" using step by simp
    show ?thesis
      using Suc.IH[OF Suc.prems] False by (simp add: st case_prod_beta map_upt_Suc_shift del: upt_Suc)
  qed
qed

section \<open>The MetaRegion ring\<close>

lemma dev_ok_set_next:
  assumes ok: "dev_ok d" and n: "unat v \<le> unat (st_meta_bytes (dv_st d))"
  shows "dev_ok (d\<lparr>dv_st := (dv_st d)\<lparr>st_meta_next_off := v\<rparr>\<rparr>)"
proof -
  let ?d = "d\<lparr>dv_st := (dv_st d)\<lparr>st_meta_next_off := v\<rparr>\<rparr>"
  have "geom_ok ?d" by (rule geom_ok_cong[of d]) (use ok in \<open>simp_all add: dev_ok_def\<close>)
  moreover have "ring_ok ?d" "st_ok ?d" "st_sealed (dv_st ?d)"
    using ok n by (simp_all add: dev_ok_def ring_ok_def st_ok_def st_sealed_def st_wf_def)
  ultimately show ?thesis using ok by (simp add: dev_ok_def)
qed

lemma meta_alloc_result:
  assumes ok: "dev_ok d" and sz: "unat sz + 16 \<le> 2 ^ 64"
  defines "n \<equiv> (unat sz + 15) div 16 * 16" and "B \<equiv> unat (st_meta_bytes (dv_st d))"
  defines "p \<equiv> (if unat (st_meta_next_off (dv_st d)) + n > B then 0 else unat (st_meta_next_off (dv_st d)))"
  shows "0 < B \<Longrightarrow> n \<le> B \<Longrightarrow> \<exists>off d'. rsdk_dev_meta_alloc d sz = (Inr off, d') \<and> dev_ok d' \<and>
      unat off = unat (dv_meta_base d) + p \<and> p + n \<le> B \<and>
      unat (st_meta_next_off (dv_st d')) = p + n \<and> unat off + n < 2 ^ 63"
    and "B = 0 \<or> B < n \<Longrightarrow> rsdk_dev_meta_alloc d sz = (Inl RSDK_E_NOSPACE, d)"
proof -
  have al: "unat (rsdk_align_up sz 16) = n" using align_up_nat[of sz 16] sz by (simp add: n_def)
  {
    assume B: "0 < B" and nB: "n \<le> B"
    have B63: "unat (dv_meta_base d) + B < 2 ^ 63"
      using dev_ok_space(2,3)[OF ok] by (simp add: B_def)
    have next_le: "unat (st_meta_next_off (dv_st d)) \<le> B"
      using ok by (simp add: dev_ok_def st_ok_def B_def)
    have "unat (st_meta_next_off (dv_st d) + rsdk_align_up sz 16) = unat (st_meta_next_off (dv_st d)) + n"
      using next_le nB B63 al by (subst unat_add_nowrap) simp_all
    then have w: "(st_meta_bytes (dv_st d) < st_meta_next_off (dv_st d) + rsdk_align_up sz 16)
        = (B < unat (st_meta_next_off (dv_st d)) + n)"
      by (simp add: word_less_nat_alt B_def)
    define q where "q = (if B < unat (st_meta_next_off (dv_st d)) + n then 0 else st_meta_next_off (dv_st d))"
    have q: "unat q = p" and pB: "p + n \<le> B" using nB by (auto simp: q_def p_def)
    have qn: "unat (q + rsdk_align_up sz 16) = p + n"
      using pB B63 q al by (subst unat_add_nowrap) simp_all
    have base: "unat (dv_meta_base d + q) = unat (dv_meta_base d) + p"
      using pB B63 q by (subst unat_add_nowrap) simp_all
    have nb: "\<not> st_meta_bytes (dv_st d) < rsdk_align_up sz 16" "st_meta_bytes (dv_st d) \<noteq> 0"
      using nB B al by (auto simp: word_less_nat_alt B_def)
    have "rsdk_dev_meta_alloc d sz = (Inr (dv_meta_base d + q),
        rsdk_dev_flush (d\<lparr>dv_st := (dv_st d)\<lparr>st_meta_next_off := q + rsdk_align_up sz 16\<rparr>\<rparr>))"
      using nb w by (simp add: rsdk_dev_meta_alloc_def Let_def q_def)
    moreover have "dev_ok (rsdk_dev_flush (d\<lparr>dv_st := (dv_st d)\<lparr>st_meta_next_off := q + rsdk_align_up sz 16\<rparr>\<rparr>))"
      unfolding dev_ok_flush by (rule dev_ok_set_next[OF ok]) (use qn pB in \<open>simp add: B_def\<close>)
    ultimately show "\<exists>off d'. rsdk_dev_meta_alloc d sz = (Inr off, d') \<and> dev_ok d' \<and>
      unat off = unat (dv_meta_base d) + p \<and> p + n \<le> B \<and>
      unat (st_meta_next_off (dv_st d')) = p + n \<and> unat off + n < 2 ^ 63"
      using base qn pB B63 by (intro exI conjI) (assumption | simp)+
  }
  show "B = 0 \<or> B < n \<Longrightarrow> rsdk_dev_meta_alloc d sz = (Inl RSDK_E_NOSPACE, d)"
    using al by (auto simp: rsdk_dev_meta_alloc_def Let_def word_less_nat_alt B_def unat_eq_zero)
qed

section \<open>Key rotation\<close>

lemma length_sb_magic [simp, lens]: "length RSDK_SB_MAGIC = 8"
  by (simp add: RSDK_SB_MAGIC_def)

lemma rekey_result:
  assumes ok: "dev_ok d" and e: "sb_enc_algo (dv_sb d) = 1" and r: "rnd_ok rnd 16"
    and u: "rsdk_dek_unwrap (rsdk_kdf_kek (Some RSDK_DEFAULT_SN) (sb_kdf_salt (dv_sb d)))
              (sb_wrapped_dek (dv_sb d)) (sb_dek_kcv (dv_sb d)) = Inr dek"
  shows "\<exists>d'. rsdk_dev_rekey rnd d = (RSDK_OK, d') \<and> dev_ok d' \<and>
     sb_kdf_salt (dv_sb d') = rnd_fill rnd 16 \<and>
     dev_crypto_of (dv_sb d') = Some (rsdk_crypto_open dek) \<and> dev_crypto_of (dv_sb d) = Some (rsdk_crypto_open dek) \<and>
     dv_crypto d' = dv_crypto d \<and> on_disk (rw_data (dv_raw d')) (dv_sb d') (dv_st d')"
proof -
  let ?salt = "rnd_fill rnd 16"
  let ?kek = "rsdk_kdf_kek (Some RSDK_DEFAULT_SN) ?salt"
  obtain w k where wk: "rsdk_dek_wrap ?kek dek = (w, k)" by fastforce
  let ?sb = "(dv_sb d)\<lparr>sb_wrapped_dek := w, sb_dek_kcv := k, sb_kdf_salt := ?salt\<rparr>"
  let ?d = "d\<lparr>dv_sb := ?sb\<rparr>"
  have ld: "length dek = 32"
    using u ok by (auto simp: rsdk_dek_unwrap_def dev_ok_def sb_wf_def split: if_splits)
  have w: "rsdk_dek_unwrap ?kek w k = Inr dek" using dek_unwrap_wrap[OF ld, of ?kek] wk by simp
  have lw: "length w = 48" "length k = 8" using wk ld by (auto simp: rsdk_dek_wrap_def length_kek_kcv)
  have res: "rsdk_dev_rekey rnd d = (RSDK_OK, rsdk_dev_flush ?d)"
    using e u wk by (simp add: rsdk_dev_rekey_def Let_def)
  have "geom_ok ?d" "ring_ok ?d" "st_ok ?d"
    using ok by (auto simp: dev_ok_def ring_ok_def intro: geom_ok_cong st_ok_cong)
  then have ok': "dev_ok ?d"
    using ok lw length_rnd_fill[OF r] by (simp add: dev_ok_def sb_wf_def)
  have "on_disk (rw_data (dv_raw (rsdk_dev_flush ?d))) (dv_sb (rsdk_dev_flush ?d)) (dv_st (rsdk_dev_flush ?d))"
    using flush_on_disk[OF dev_ok_sealed[OF ok']] by simp
  then show ?thesis
    using res ok' w u e by (intro exI[of _ "rsdk_dev_flush ?d"]) (simp add: dev_crypto_of_def)
qed

section \<open>Format, then open\<close>

lemma clear_sectors_data:
  assumes "a \<le> b" "b * 512 < 2 ^ 64"
  shows "rw_data (clear_sectors a b raw) = (\<lambda>x. if a * 512 \<le> x \<and> x < b * 512 then 0 else rw_data raw x)"
    and "rw_sectors (clear_sectors a b raw) = rw_sectors raw"
  using assms
proof (induction b)
  case 0
  {
    case 1 then show ?case by (simp add: clear_sectors_def)
  next
    case 2 then show ?case by (simp add: clear_sectors_def)
  }
next
  case (Suc b)
  have st: "clear_sectors a (Suc b) raw =
      rsdk_rawdev_pwrite (clear_sectors a b raw) (of_nat b * RSDK_SEC) (replicate 512 0)" if "a \<le> b"
    using that by (simp add: clear_sectors_def)
  have off: "unat (of_nat b * RSDK_SEC) = b * 512" if "Suc b * 512 < 2 ^ 64"
  proof -
    have "unat (of_nat b :: u64) = b" using that by (intro unat_of_nat_small) simp
    then show ?thesis using that by (subst unat_mult_nowrap) (simp_all add: RSDK_SEC_def)
  qed
  {
    case 1
    show ?case
    proof (cases "a \<le> b")
      case True
      then show ?thesis using 1 Suc.IH(1) st off by (auto simp: dwrite_def fun_eq_iff)
    next
      case False
      then have "a = Suc b" using 1 by simp
      then show ?thesis by (intro ext) (auto simp: clear_sectors_def)
    qed
  next
    case 2
    then show ?case using Suc.IH(2) st by (cases "a \<le> b") (auto simp: clear_sectors_def)
  }
qed


lemma meta_chunks_le:
  assumes mono: "\<And>x y. x \<le> y \<Longrightarrow> fl x \<le> fl y" and exact: "\<And>n. n \<le> 2 ^ 53 \<Longrightarrow> fl (of_nat n) = of_nat n"
    and r: "0 \<le> ratio" "ratio \<le> 100" and cc: "unat cc < 2 ^ 44"
  shows "unat (meta_chunks fl m cc ratio) \<le> unat cc"
proof -
  define n where "n = unat cc"
  define x where "x = fl (fl (fl (of_nat n) * ratio) / 100)"
  have cn: "n < 2 ^ 44" using cc by (simp add: n_def)
  have e1: "fl (of_nat n) = of_nat n" using cn by (intro exact) simp
  have e100: "fl (of_nat (n * 100)) = of_nat (n * 100)" using cn by (intro exact) simp
  have "of_nat n * ratio \<le> (of_nat (n * 100) :: rat)"
    using mult_left_mono[OF r(2), of "of_nat n"] by simp
  then have "fl (of_nat n * ratio) \<le> of_nat (n * 100)"
    using mono e100 by metis
  then have "fl (of_nat n * ratio) / 100 \<le> of_nat n" by simp
  then have hi: "x \<le> of_nat n" unfolding x_def e1 using mono e1 by metis
  have z: "fl 0 = 0" using exact[of 0] by simp
  have "0 \<le> of_nat n * ratio" using r(1) by simp
  then have "0 \<le> fl (of_nat n * ratio)" using mono z by metis
  then have "0 \<le> fl (of_nat n * ratio) / 100" by simp
  then have lo: "0 \<le> x" unfolding x_def e1 using mono z by metis
  have "\<lfloor>x\<rfloor> \<le> int n" using hi by (simp add: floor_le_iff le_less_trans)
  then have b: "0 \<le> \<lfloor>x\<rfloor>" "\<lfloor>x\<rfloor> \<le> int n" using lo by simp_all
  have "(word_of_int \<lfloor>x\<rfloor> :: u64) = of_nat (nat \<lfloor>x\<rfloor>)" using b by simp
  then have "unat (word_of_int \<lfloor>x\<rfloor> :: u64) = nat \<lfloor>x\<rfloor>"
    using b cn by (simp only:) (intro unat_of_nat_small, simp)
  then have "unat (word_of_int \<lfloor>x\<rfloor> :: u64) \<le> n" using b by simp
  moreover have "4 < cc \<Longrightarrow> 1 \<le> n" by (simp add: word_less_nat_alt n_def)
  ultimately show ?thesis
    unfolding meta_chunks_def Let_def n_def[symmetric] x_def[symmetric] by auto
qed

lemma format_sb_sealed:
  assumes "rnd_ok (rn_uuid rnd) 16" "rnd_ok (rn_salt rnd) 16" "rnd_ok (rn_dek rnd) 32"
  shows "sb_sealed (format_sb cfg rnd opt sectors cs lo mc)"
proof -
  have w: "length (fst (rsdk_dek_wrap k (rnd_fill (rn_dek rnd) 32))) = 48" "length (snd (rsdk_dek_wrap k d)) = 8" for k d
    using length_rnd_fill[OF assms(3)] by (simp_all add: rsdk_dek_wrap_def length_kek_kcv)
  show ?thesis
    using length_rnd_fill[OF assms(1)] length_rnd_fill[OF assms(2)] w
    by (simp add: format_sb_def sb_sealed_def Let_def sb_wf_def GRP1_def case_prod_beta)
qed

lemma format_st_sealed: "st_sealed (format_st opt cs lo mc)"
  by (simp add: format_st_def st_sealed_def st_wf_def Let_def)

lemma format_sb_fields [simp]:
  "sb_write_ptr_chunk (format_sb cfg rnd opt sectors cs lo mc) = 0"
  "sb_seq_epoch (format_sb cfg rnd opt sectors cs lo mc) = 1"
  "sb_data_start_sec (format_sb cfg rnd opt sectors cs lo mc) = lo_ds lo"
  "sb_chunk_sectors (format_sb cfg rnd opt sectors cs lo mc) = cs"
  "sb_chunk_count (format_sb cfg rnd opt sectors cs lo mc) = lo_cc lo"
  "sb_meta_chunk_count (format_sb cfg rnd opt sectors cs lo mc) = mc"
  "sb_meta_start_chunk (format_sb cfg rnd opt sectors cs lo mc) = lo_cc lo - mc"
  "sb_feature_mask (format_sb cfg rnd opt sectors cs lo mc) = format_mask cfg opt"
  "sb_group_disk_index (format_sb cfg rnd opt sectors cs lo mc) = 0"
  "sb_group_disk_count (format_sb cfg rnd opt sectors cs lo mc) = 1"
  "sb_version (format_sb cfg rnd opt sectors cs lo mc) = 1"
  by (simp_all add: format_sb_def Let_def case_prod_beta)

lemma format_st_fields [simp]:
  "st_index_start_sec (format_st opt cs lo mc) = BITMAP_SEC + lo_bm lo"
  "st_index_sectors (format_st opt cs lo mc) = lo_ix lo"
  "st_index_slot_count (format_st opt cs lo mc) = ucast (lo_ix lo * RSDK_SEC div 64)"
  "st_meta_bytes (format_st opt cs lo mc) = mc * (cs * RSDK_SEC)"
  "st_meta_next_off (format_st opt cs lo mc) = 0" "st_index_next (format_st opt cs lo mc) = 0"
  "st_chn (format_st opt cs lo mc) = replicate 32 \<lparr>cc_cur_chunk = 0, cc_cur_off = 0, cc_seg_seq = 0\<rparr>"
  by (simp_all add: format_st_def Let_def)

text \<open>The medium after \<open>format_write\<close>: both copies in place, bitmap and index region zero, data untouched.\<close>

lemma format_write_disk:
  fixes raw :: rawdev
  assumes "length (sb_encode sb) = 512" "length (st_encode st) = 4096"
    and e: "unat (st_index_start_sec st + ixS) = E" "19 \<le> E" "E * 512 < 2 ^ 64"
  defines "m \<equiv> rw_data (format_write sb st ixS raw)"
  shows "on_disk m sb st"
    and "\<And>a. 9728 \<le> a \<Longrightarrow> a < E * 512 \<Longrightarrow> m a = 0"
    and "\<And>a. E * 512 \<le> a \<Longrightarrow> m a = rw_data raw a"
proof -
  define r0 where "r0 = dwrite (dwrite (dwrite (dwrite (dwrite (rw_data raw) 0 (replicate 512 0)) 512 (sb_encode sb))
      1024 (sb_encode sb)) 1536 (st_encode st)) 5632 (st_encode st)"
  have m: "m = (\<lambda>x. if 9728 \<le> x \<and> x < E * 512 then 0 else r0 x)"
    using e clear_sectors_data(1)[of 19 E] by (simp add: m_def format_write_def Let_def r0_def cong: if_cong)
  have eq: "dread m a n = dread r0 a n" if "a + n \<le> 9728" for a n
    using that by (intro dread_cong) (simp add: m)
  have "on_disk r0 sb st"
    using assms(1,2) mem.rd_wr_len[OF assms(1)] mem.rd_wr_len[OF assms(2)]
    by (simp add: on_disk_def r0_def dread_dwrite_other)
  then show "on_disk m sb st" by (simp add: on_disk_def eq)
  show "\<And>a. 9728 \<le> a \<Longrightarrow> a < E * 512 \<Longrightarrow> m a = 0" by (simp add: m)
  show "m a = rw_data raw a" if "E * 512 \<le> a" for a
  proof -
    have "9728 \<le> a" using that e(2) by simp
    then show ?thesis using that assms(1,2) by (simp add: m r0_def dwrite_def)
  qed
qed

lemma pick_chunk_pos: "0 < pick_chunk_mib t r"
  by (simp add: pick_chunk_mib_def word_neq_0_conv)

lemma format_dev_ok:
  assumes lay: "compute_layout sectors mib slots = (cs, lo)" and m: "0 < mib"
    and T: "unat sectors * 512 < 2 ^ 63" and two: "2 * (unat mib * 2 ^ 20) \<le> unat sectors * 512"
    and sl: "unat slots \<le> 4096" and mc: "unat mc \<le> unat (lo_cc lo)"
    and sb: "sb_sealed (format_sb cfg rnd opt sectors cs lo mc)"
  shows "dev_ok (dev_assemble raw (format_sb cfg rnd opt sectors cs lo mc) (format_st opt cs lo mc))"
proof -
  let ?d = "dev_assemble raw (format_sb cfg rnd opt sectors cs lo mc) (format_st opt cs lo mc)"
  note L = compute_layout_ok[OF T m two sl lay]
  define C where "C = unat mib * 2 ^ 20"
  have m0: "0 < unat mib" using m by (simp add: unat_gt_0 word_neq_0_conv)
  have C: "unat (cs * RSDK_SEC) = C"
    using L(1) unat_32_lt[of mib] by (subst unat_mult_nowrap) (simp_all add: RSDK_SEC_def C_def)
  have Cpos: "0 < C" "2 ^ 20 dvd C" using m0 by (simp_all add: C_def)
  have lok: "19 + unat (lo_bm lo) + unat (lo_ix lo) \<le> unat (lo_ds lo)"
    "unat (lo_ds lo) * 512 + unat (lo_cc lo) * C \<le> unat sectors * 512"
    using L(2,3) by (simp_all add: layout_ok_def unat_chunk_of_mib C_def)
  have ds: "unat (lo_ds lo) < 2 ^ 54" using lok(2) T by simp
  have bs: "unat (BITMAP_SEC + lo_bm lo) = 19 + unat (lo_bm lo)"
    using lok(1) ds by (subst unat_add_nowrap) simp_all
  have sc: "unat (ucast (lo_ix lo * RSDK_SEC div 64) :: u32) * 64 \<le> unat (lo_ix lo) * 512"
  proof -
    have "unat (ucast (lo_ix lo * RSDK_SEC div 64) :: u32) \<le> unat (lo_ix lo * RSDK_SEC div 64)"
      by (simp add: unsigned_ucast_eq take_bit_nat_less_eq_self)
    also have "\<dots> = unat (lo_ix lo) * 512 div 64"
      using lok(1) ds by (simp add: unat_div_word RSDK_SEC_def unat_mult_nowrap)
    finally show ?thesis by simp
  qed
  have mb: "unat (mc * (cs * RSDK_SEC)) = unat mc * C"
  proof -
    have "unat mc * C \<le> unat (lo_cc lo) * C" using mc by simp
    then have "unat mc * C < 2 ^ 63" using lok(2) T by linarith
    then show ?thesis using C by (subst unat_mult_nowrap) simp_all
  qed
  have "geom_ok ?d"
    unfolding geom_ok_def dev_assemble_def using Cpos lok(2) T mc C by (simp add: Let_def)
  moreover have "ring_ok ?d" by (simp add: ring_ok_def dev_assemble_def Let_def)
  moreover have "st_ok ?d"
    unfolding st_ok_def dev_assemble_def using bs lok(1) sc mb C by (simp add: Let_def)
  ultimately show ?thesis
    using sb format_st_sealed unfolding dev_ok_def by (simp add: dev_assemble_def Let_def sb_sealed_def)
qed

text \<open>A formatted disk opens, its handle satisfies the invariant, and the index region is empty.\<close>

lemma format_open:
  assumes f: "rsdk_format cfg fl rnd fs path opt = (RSDK_OK, fs')" and im: "fs path = Some im"
    and T: "unat (im_bytes im div 512) * 512 < 2 ^ 63"
    and two: "2 * (unat (pick_chunk_mib (im_bytes im div 512 * 512) (case opt of Some p \<Rightarrow> fo_chunk_mib p | None \<Rightarrow> 0)) * 2 ^ 20)
       \<le> unat (im_bytes im div 512) * 512"
    and sl: "unat (format_slots cfg opt) \<le> 4096"
    and fl: "\<And>x y. x \<le> y \<Longrightarrow> fl x \<le> fl y" "\<And>n. n \<le> 2 ^ 53 \<Longrightarrow> fl (of_nat n) = of_nat n"
    and ratio: "0 \<le> format_ratio fl cfg opt" "format_ratio fl cfg opt \<le> 100"
    and rnd: "rnd_ok (rn_uuid rnd) 16" "rnd_ok (rn_salt rnd) 16" "rnd_ok (rn_dek rnd) 32"
  shows "\<exists>d. rsdk_dev_open fs' path = Inr d \<and> dev_ok d \<and>
     on_disk (rw_data (dv_raw d)) (dv_sb d) (dv_st d) \<and>
     sb_write_ptr_chunk (dv_sb d) = 0 \<and> sb_seq_epoch (dv_sb d) = 1 \<and> st_index_next (dv_st d) = 0 \<and>
     sb_feature_mask (dv_sb d) = format_mask cfg opt \<and>
     (\<forall>a. 9728 \<le> a \<longrightarrow> a < unat (st_index_start_sec (dv_st d) + st_index_sectors (dv_st d)) * 512 \<longrightarrow>
        rw_data (dv_raw d) a = 0) \<and>
     sb_version (dv_sb d) = 1 \<and> sb_group_disk_index (dv_sb d) = 0 \<and> sb_group_disk_count (dv_sb d) = 1"
proof -
  define sectors where "sectors = im_bytes im div 512"
  define mib where "mib = pick_chunk_mib (sectors * RSDK_SEC) (case opt of Some p \<Rightarrow> fo_chunk_mib p | None \<Rightarrow> 0)"
  obtain cs lo where lay: "compute_layout sectors mib (format_slots cfg opt) = (cs, lo)" by fastforce
  define mc where "mc = meta_chunks fl (format_mask cfg opt) (lo_cc lo) (format_ratio fl cfg opt)"
  define sb where "sb = format_sb cfg rnd opt sectors cs lo mc"
  define st where "st = format_st opt cs lo mc"
  define raw where "raw = format_write sb st (lo_ix lo) \<lparr>rw_data = im_data im, rw_sectors = sectors\<rparr>"
  have fs': "fs' = fs(path \<mapsto> im\<lparr>im_data := rw_data raw\<rparr>)"
    using f lay im unfolding rsdk_format_def
    by (auto simp: Let_def rsdk_rawdev_sectors_def RSDK_SEC_def sectors_def mib_def raw_def sb_def st_def mc_def
        split: if_splits)
  have mpos: "0 < mib" unfolding mib_def by (rule pick_chunk_pos)
  have T': "unat sectors * 512 < 2 ^ 63" "2 * (unat mib * 2 ^ 20) \<le> unat sectors * 512"
    using T two by (simp_all add: sectors_def mib_def RSDK_SEC_def)
  note L = compute_layout_ok[OF T'(1) mpos T'(2) sl lay]
  have lok: "19 + unat (lo_bm lo) + unat (lo_ix lo) \<le> unat (lo_ds lo)"
    "unat (lo_ds lo) * 512 + unat (lo_cc lo) * (unat mib * 2 ^ 20) \<le> unat sectors * 512"
    using L(2,3) by (simp_all add: layout_ok_def unat_chunk_of_mib)
  have "1 * 2 ^ 20 \<le> unat mib * 2 ^ 20"
    using mpos by (intro mult_le_mono1) (simp add: unat_gt_0 word_neq_0_conv Suc_leI)
  then have "unat (lo_cc lo) * 2 ^ 20 \<le> unat (lo_cc lo) * (unat mib * 2 ^ 20)"
    by (intro mult_le_mono2) simp
  then have "unat (lo_cc lo) * 2 ^ 20 < 2 ^ 63" using lok(2) T'(1) by linarith
  then have mc: "unat mc \<le> unat (lo_cc lo)"
    unfolding mc_def by (intro meta_chunks_le fl ratio) simp_all
  have sealed: "sb_sealed sb" "st_sealed st"
    unfolding sb_def st_def by (rule format_sb_sealed[OF rnd], rule format_st_sealed)
  have len: "length (sb_encode sb) = 512" "length (st_encode st) = 4096"
    using sealed by (simp_all add: sb_sealed_def st_sealed_def sb_encode_length st_encode_length)
  have E: "unat (st_index_start_sec st + lo_ix lo) = 19 + unat (lo_bm lo) + unat (lo_ix lo)"
    using lok T'(1) by (simp add: st_def unat_add_nowrap)
  have disk: "on_disk (rw_data raw) sb st"
    "\<And>a. 9728 \<le> a \<Longrightarrow> a < (19 + unat (lo_bm lo) + unat (lo_ix lo)) * 512 \<Longrightarrow> rw_data raw a = 0"
    unfolding raw_def using lok T'(1) by (intro format_write_disk[OF len E]; simp)+
  let ?raw = "\<lparr>rw_data = rw_data raw, rw_sectors = im_bytes im div RSDK_SEC\<rparr>"
  have "rsdk_dev_open fs' path = Inr (dev_assemble ?raw sb st)"
    using dev_open_main[of fs' path "im\<lparr>im_data := rw_data raw\<rparr>" sb st] disk(1) sealed
    by (simp add: fs' on_disk_def)
  moreover have "dev_ok (dev_assemble ?raw sb st)"
    unfolding sb_def st_def
    by (rule format_dev_ok[OF lay mpos T' sl mc]) (use sealed in \<open>simp add: sb_def\<close>)
  ultimately show ?thesis
    using disk E by (intro exI[of _ "dev_assemble ?raw sb st"]) (simp add: dev_assemble_def Let_def sb_def st_def)
qed

section \<open>A small disk for the witnesses\<close>

definition demo_sb :: "u8 \<Rightarrow> superblock" where
  "demo_sb hdd_full = \<lparr>sb_magic = RSDK_SB_MAGIC, sb_version = 1, sb_crc32 = 0, sb_disk_uuid = replicate 16 1,
     sb_group_uuid = GRP1, sb_group_disk_index = 0, sb_group_disk_count = 1, sb_total_sectors = 20480,
     sb_rsv_start_sec = 1, sb_data_start_sec = 2048, sb_chunk_sectors = 2048, sb_chunk_count = 9,
     sb_write_ptr_chunk = 0, sb_seq_epoch = 1, sb_feature_mask = 0, sb_rsvf = 0, sb_meta_start_chunk = 8,
     sb_meta_chunk_count = 1, sb_enc_algo = 0, sb_enc_flags = 0, sb_hdd_full = hdd_full,
     sb_rsv0 = replicate 5 0, sb_kdf_salt = replicate 16 0, sb_wrapped_dek = replicate 48 0,
     sb_dek_kcv = replicate 8 0, sb_pad = replicate 300 0\<rparr>"

definition demo_st :: systab where
  "demo_st = \<lparr>st_magic = STAB_MAGIC, st_sys_version = 1, st_systab_size = 4096, st_crc32 = 0, st_format_time = 0,
     st_bitmap_start_sec = 19, st_bitmap_sectors = 1, st_index_start_sec = 20, st_index_sectors = 8,
     st_index_slot_size = 64, st_index_slot_count = 64, st_index_next = 0, st_rsvi = 0, st_meta_next_off = 0,
     st_meta_bytes = 1048576, st_chn = replicate 32 \<lparr>cc_cur_chunk = 0, cc_cur_off = 0, cc_seg_seq = 0\<rparr>,
     st_rsv = replicate 3496 0\<rparr>"

definition demo_disk :: "u8 \<Rightarrow> rsdk_dev" where
  "demo_disk hdd_full = dev_assemble \<lparr>rw_data = (\<lambda>a. 0), rw_sectors = 20480\<rparr> (demo_sb hdd_full) demo_st"

lemma demo_disk_ok: "dev_ok (demo_disk h)"
  by (simp add: dev_ok_def geom_ok_def ring_ok_def st_ok_def demo_disk_def dev_assemble_def demo_sb_def demo_st_def
      sb_wf_def st_wf_def st_sealed_def GRP1_def RSDK_SEC_def Let_def)

lemma demo_disk_facts [simp]:
  "dv_data_chunks (demo_disk h) = 8" "dv_chunk_bytes (demo_disk h) = 1048576" "dv_meta_base (demo_disk h) = 9437184"
  "sb_hdd_full (dv_sb (demo_disk h)) = h" "sb_write_ptr_chunk (dv_sb (demo_disk h)) = 0"
  "sb_seq_epoch (dv_sb (demo_disk h)) = 1" "st_index_slot_count (dv_st (demo_disk h)) = 64"
  "st_meta_bytes (dv_st (demo_disk h)) = 1048576" "st_meta_next_off (dv_st (demo_disk h)) = 0"
  by (simp_all add: demo_disk_def dev_assemble_def demo_sb_def demo_st_def RSDK_SEC_def Let_def)

section \<open>Properties\<close>

text \<open>The layout fits the disk. For a disk that holds at least two chunks and at most 4096 index
  slots per chunk, the four rounds of the layout loop leave the bitmap and the index behind sector 19 and before
  the data area, align the data area to a chunk, and cut out exactly the number of whole chunks that fit
  behind it; no 64-bit step wraps.\<close>

theorem layout_fits:
  assumes "unat sectors * 512 < 2 ^ 63" "0 < mib" "2 * (unat mib * 2 ^ 20) \<le> unat sectors * 512"
    and "unat slots \<le> 4096" "compute_layout sectors mib slots = (cs, lo)"
  shows "unat cs * 512 = unat mib * 2 ^ 20 \<and>
    19 + unat (lo_bm lo) + unat (lo_ix lo) \<le> unat (lo_ds lo) \<and>
    unat mib * 2 ^ 20 dvd unat (lo_ds lo) * 512 \<and>
    unat (lo_ds lo) * 512 + unat (lo_cc lo) * (unat mib * 2 ^ 20) \<le> unat sectors * 512 \<and>
    unat sectors * 512 < unat (lo_ds lo) * 512 + (unat (lo_cc lo) + 1) * (unat mib * 2 ^ 20)"
  using compute_layout_ok[OF assms] by (simp add: layout_ok_def unat_chunk_of_mib)

lemma layout_fits_witness:
  "unat (fst (compute_layout 262144 8 4)) * 512 = 8 * 2 ^ 20 \<and>
   unat (lo_ds (snd (compute_layout 262144 8 4))) * 512 + unat (lo_cc (snd (compute_layout 262144 8 4))) * (8 * 2 ^ 20) \<le> 262144 * 512"
  using layout_fits[of 262144 8 4 "fst (compute_layout 262144 8 4)" "snd (compute_layout 262144 8 4)"] by simp

text \<open>C35: A formatted disk opens. After a successful format of a disk with room for two chunks,
  opening the same path gives a handle that satisfies the invariant, both copies of SuperBlock and SysTab are on the
  medium, the chunk ring starts at its first chunk in epoch 1, and the whole bitmap and index area reads zero.
  The hypotheses about \<open>fl\<close> are the IEEE-754 behaviour of rounding.\<close>

theorem format_then_open:
  assumes f: "rsdk_format cfg fl rnd fs path opt = (RSDK_OK, fs')" and im: "fs path = Some im"
    and T: "unat (im_bytes im div 512) * 512 < 2 ^ 63"
    and two: "2 * (unat (pick_chunk_mib (im_bytes im div 512 * 512) (case opt of Some p \<Rightarrow> fo_chunk_mib p | None \<Rightarrow> 0)) * 2 ^ 20)
       \<le> unat (im_bytes im div 512) * 512"
    and sl: "unat (format_slots cfg opt) \<le> 4096"
    and fl: "\<And>x y. x \<le> y \<Longrightarrow> fl x \<le> fl y" "\<And>n. n \<le> 2 ^ 53 \<Longrightarrow> fl (of_nat n) = of_nat n"
    and ratio: "0 \<le> format_ratio fl cfg opt" "format_ratio fl cfg opt \<le> 100"
    and rnd: "rnd_ok (rn_uuid rnd) 16" "rnd_ok (rn_salt rnd) 16" "rnd_ok (rn_dek rnd) 32"
  shows "\<exists>d. rsdk_dev_open fs' path = Inr d \<and> dev_ok d \<and>
     on_disk (rw_data (dv_raw d)) (dv_sb d) (dv_st d) \<and>
     sb_write_ptr_chunk (dv_sb d) = 0 \<and> sb_seq_epoch (dv_sb d) = 1 \<and> st_index_next (dv_st d) = 0 \<and>
     sb_feature_mask (dv_sb d) = format_mask cfg opt \<and>
     (\<forall>a. 9728 \<le> a \<longrightarrow> a < unat (st_index_start_sec (dv_st d) + st_index_sectors (dv_st d)) * 512 \<longrightarrow>
        rw_data (dv_raw d) a = 0)"
  using format_open[OF assms] by blast

definition demo_image :: image where
  "demo_image = \<lparr>im_data = (\<lambda>a. 0), im_bytes = 134217728\<rparr>"

definition demo_rnd :: format_rnd where
  "demo_rnd = \<lparr>rn_uuid = None, rn_salt = None, rn_dek = None\<rparr>"

lemma format_then_open_witness:
  "\<exists>fs' d. rsdk_format rsdk_cfg_defaults (\<lambda>x. x) demo_rnd [''/dev/sda'' \<mapsto> demo_image] ''/dev/sda'' None = (RSDK_OK, fs') \<and>
     rsdk_dev_open fs' ''/dev/sda'' = Inr d \<and> dev_ok d"
proof -
  let ?fs = "[''/dev/sda'' \<mapsto> demo_image]"
  have f: "rsdk_format rsdk_cfg_defaults (\<lambda>x. x) demo_rnd ?fs ''/dev/sda'' None
      = (RSDK_OK, snd (rsdk_format rsdk_cfg_defaults (\<lambda>x. x) demo_rnd ?fs ''/dev/sda'' None))"
    by (simp add: rsdk_format_def demo_image_def rsdk_rawdev_sectors_def RSDK_SEC_def Let_def case_prod_beta)
  have "\<exists>d. rsdk_dev_open (snd (rsdk_format rsdk_cfg_defaults (\<lambda>x. x) demo_rnd ?fs ''/dev/sda'' None)) ''/dev/sda'' = Inr d \<and> dev_ok d"
    using format_then_open[OF f, of demo_image]
    by (force simp: demo_image_def demo_rnd_def pick_chunk_mib_def format_slots_def format_ratio_def
        rsdk_cfg_defaults_def rnd_ok_def Let_def)
  then show ?thesis using f by blast
qed

text \<open>C2: A flush is crash-safe write by write. The medium holds a committed SuperBlock and
  SysTab; a flush is cut after \<open>k\<close> of its four writes. Opening the disk then succeeds and sees the old SuperBlock while
  fewer than three writes are done and the new one from then on, and the old SysTab until the fourth:
  never anything else (after exactly three writes the two are of different generations).\<close>

theorem flush_crash:
  assumes "dev_ok d" "on_disk (rw_data (dv_raw d)) sb0 st0" "sb_sealed sb0" "st_sealed st0" "k \<le> 4"
  shows "\<exists>raw. rsdk_dev_open (medium fs path (flush_prefix k d) n) path =
    Inr (dev_assemble raw (if k < 3 then sb0 else seal_sb (dv_sb d)) (if k < 4 then st0 else seal_st (dv_st d)))"
  using flush_crash_open[OF assms] .

lemma flush_crash_witness:
  "\<exists>raw. rsdk_dev_open (medium Map.empty ''d'' (flush_prefix 3 (rsdk_dev_flush (demo_disk 0))) 10485760) ''d'' =
    Inr (dev_assemble raw (seal_sb (dv_sb (rsdk_dev_flush (demo_disk 0)))) (seal_st (dv_st (demo_disk 0))))"
proof -
  note s = dev_ok_sealed[OF demo_disk_ok[of 0]]
  have lt: "(3 :: nat) \<le> 4" "\<not> (3 :: nat) < 3" "(3 :: nat) < 4" by simp_all
  have ok: "dev_ok (rsdk_dev_flush (demo_disk 0))" by (simp only: dev_ok_flush demo_disk_ok)
  show ?thesis
    using flush_crash[OF ok flush_on_disk[OF s] s lt(1), of Map.empty "''d''" 10485760]
    by (simp only: lt if_True if_False)
qed

text \<open>A damaged main SuperBlock is refused, the backup is not consulted. When the main
  sector still carries the magic but fails its CRC, opening returns CORRUPT, whatever the backup sector
  holds: the fallback to the backup is taken on a wrong magic only.\<close>

theorem open_corrupt_main:
  assumes "fs path = Some im" "sb_magic (sb_decode (dread (im_data im) 512 512)) = RSDK_SB_MAGIC"
    and "sb_decode (dread (im_data im) 512 512) = sb"
    and "rsdk_crc32 (sb_encode (sb\<lparr>sb_crc32 := 0\<rparr>)) \<noteq> sb_crc32 sb"
    and "dread (im_data im) 1024 512 = sb_encode good" "sb_sealed good"
  shows "rsdk_dev_open fs path = Inl RSDK_E_CORRUPT"
  by (rule dev_open_bad_crc[of fs path im sb, OF assms(1) _ assms(3)[symmetric] assms(4)]) (use assms(2,3) in simp)

lemma open_corrupt_main_witness:
  "\<exists>im. sb_sealed (sb_decode (dread (im_data im) 1024 512)) \<and>
     rsdk_dev_open [''d'' \<mapsto> im] ''d'' = Inl RSDK_E_CORRUPT"
proof -
  define good where "good = seal_sb (demo_sb 0)"
  define bad where "bad = good\<lparr>sb_crc32 := sb_crc32 good + 1\<rparr>"
  define m where "m = dwrite (dwrite (\<lambda>a. 0) 512 (sb_encode bad)) 1024 (sb_encode good)"
  have wf: "sb_wf (demo_sb 0)" "sb_magic (demo_sb 0) = RSDK_SB_MAGIC"
    by (simp_all add: demo_sb_def sb_wf_def GRP1_def)
  then have good: "sb_sealed good" unfolding good_def by (rule seal_sb_sealed)
  then have wfg: "sb_wf good" "sb_wf bad" by (simp_all add: sb_sealed_def bad_def sb_wf_def)
  have len: "length (sb_encode good) = 512" "length (sb_encode bad) = 512" using wfg by (simp_all add: sb_encode_length)
  have r: "dread m 1024 512 = sb_encode good" "dread m 512 512 = sb_encode bad"
    using mem.rd_wr_len[OF len(1)] mem.rd_wr_len[OF len(2)] len by (simp_all add: m_def dread_dwrite_other)
  have "rsdk_crc32 (sb_encode (bad\<lparr>sb_crc32 := 0\<rparr>)) = sb_crc32 good" using good by (simp add: sb_sealed_def bad_def)
  then have "rsdk_crc32 (sb_encode (bad\<lparr>sb_crc32 := 0\<rparr>)) \<noteq> sb_crc32 bad" by (simp add: bad_def)
  then have "rsdk_dev_open [''d'' \<mapsto> \<lparr>im_data = m, im_bytes = 10485760\<rparr>] ''d'' = Inl RSDK_E_CORRUPT"
    using r good wfg
    by (intro open_corrupt_main[where sb = bad and good = good and im = "\<lparr>im_data = m, im_bytes = 10485760\<rparr>"])
      (simp_all add: sb_roundtrip sb_sealed_def bad_def)
  moreover have "sb_sealed (sb_decode (dread m 1024 512))" using r good wfg by (simp add: sb_roundtrip)
  ultimately show ?thesis by (intro exI[of _ "\<lparr>im_data = m, im_bytes = 10485760\<rparr>"]) simp
qed

text \<open>C6: The chunk ring in overwrite mode. A run of \<open>n\<close> allocations always succeeds and hands
  out the chunks \<open>w, w + 1, ...\<close> modulo the number of data chunks, each with its byte offset inside the data area and
  before the MetaRegion; any window of as many allocations as there are chunks has no repetition, so the
  chunk given out is always the oldest; the epoch counts the wrap-arounds; the invariant is kept.\<close>

theorem alloc_ring_overwrite:
  assumes ok: "dev_ok d" and ow: "sb_hdd_full (dv_sb d) \<noteq> RSDK_HDDFULL_STOP" and N: "0 < dN d"
  defines "w \<equiv> unat (sb_write_ptr_chunk (dv_sb d))"
  shows "fst (alloc_many n d) = map (\<lambda>k. let c = of_nat ((w + k) mod dN d) in Inr (c, chunk_byte_off d c)) [0..<n] \<and>
    dev_ok (snd (alloc_many n d)) \<and>
    sb_seq_epoch (dv_sb (snd (alloc_many n d))) = sb_seq_epoch (dv_sb d) + of_nat ((w + n) div dN d) \<and>
    (\<forall>i j. i < j \<longrightarrow> j < i + dN d \<longrightarrow> (w + i) mod dN d \<noteq> (w + j) mod dN d) \<and>
    (\<forall>k. dD d \<le> unat (chunk_byte_off d (of_nat ((w + k) mod dN d))) \<and>
       unat (chunk_byte_off d (of_nat ((w + k) mod dN d))) + dC d \<le> unat (dv_meta_base d))"
proof -
  note A = alloc_many_overwrite[OF ok ow N refl, folded w_def]
  have d: "(w + i) mod dN d \<noteq> (w + j) mod dN d" if "i < j" "j < i + dN d" for i j
  proof
    assume "(w + i) mod dN d = (w + j) mod dN d"
    then have "dN d dvd (w + j) - (w + i)" using that(1) mod_eq_dvd_iff_nat[of "w + i" "w + j" "dN d"] by simp
    then have "dN d dvd j - i" by simp
    moreover have "0 < j - i" "j - i < dN d" using that by simp_all
    ultimately show False using nat_dvd_not_less by blast
  qed
  have o: "dD d \<le> unat (chunk_byte_off d (of_nat ((w + k) mod dN d)))"
    "unat (chunk_byte_off d (of_nat ((w + k) mod dN d))) + dC d \<le> unat (dv_meta_base d)" for k
  proof -
    have lt: "(w + k) mod dN d < dN d" using N by simp
    then have u: "unat (of_nat ((w + k) mod dN d) :: u64) = (w + k) mod dN d"
      using unat_64_lt[of "dv_data_chunks d"] by (intro unat_of_nat_small) simp
    then have "unat (of_nat ((w + k) mod dN d) :: u64) < dN d" using lt by simp
    from unat_chunk_byte_off[OF ok this]
    show "dD d \<le> unat (chunk_byte_off d (of_nat ((w + k) mod dN d)))"
      "unat (chunk_byte_off d (of_nat ((w + k) mod dN d))) + dC d \<le> unat (dv_meta_base d)" by simp_all
  qed
  show ?thesis using A d o by blast
qed

lemma alloc_ring_overwrite_witness:
  "fst (alloc_many 10 (demo_disk 0)) =
     map (\<lambda>k. let c = of_nat ((0 + k) mod 8) in Inr (c, chunk_byte_off (demo_disk 0) c)) [0..<10] \<and>
   sb_seq_epoch (dv_sb (snd (alloc_many 10 (demo_disk 0)))) = 2"
  using alloc_ring_overwrite[OF demo_disk_ok[of 0], of 10] by (simp add: RSDK_HDDFULL_STOP_def del: upt_rec_numeral)

text \<open>The chunk ring in stop mode. Chunks are handed out in order up to the last data chunk and
  never again: every later allocation reports NOSPACE; the epoch does not move, so \<open>rsdk_dev_is_wrapped\<close> stays
  false however full the disk is.\<close>

theorem alloc_ring_stop:
  assumes "dev_ok d" "sb_hdd_full (dv_sb d) = RSDK_HDDFULL_STOP"
  defines "w \<equiv> unat (sb_write_ptr_chunk (dv_sb d))"
  shows "fst (alloc_many n d) = map (\<lambda>k. if w + k < dN d then Inr (of_nat (w + k), chunk_byte_off d (of_nat (w + k)))
      else Inl RSDK_E_NOSPACE) [0..<n] \<and>
    dev_ok (snd (alloc_many n d)) \<and> rsdk_dev_is_wrapped (snd (alloc_many n d)) = rsdk_dev_is_wrapped d"
  using alloc_many_stop[OF assms(1,2) refl, folded w_def] by (simp add: rsdk_dev_is_wrapped_def)

lemma alloc_ring_stop_witness:
  "fst (alloc_many 10 (demo_disk 1)) = map (\<lambda>k. if 0 + k < 8
       then Inr (of_nat (0 + k), chunk_byte_off (demo_disk 1) (of_nat (0 + k))) else Inl RSDK_E_NOSPACE) [0..<10] \<and>
   \<not> rsdk_dev_is_wrapped (snd (alloc_many 10 (demo_disk 1)))"
  using alloc_ring_stop[OF demo_disk_ok[of 1], of 10]
  by (simp add: RSDK_HDDFULL_STOP_def rsdk_dev_is_wrapped_def del: upt_rec_numeral)

text \<open>MetaRegion allocations stay in the MetaRegion. A request that fits, rounded up to 16 bytes, is
  placed at the cursor or, when it would cross the end, at the start; it lies entirely behind the data area and inside
  the region, the cursor moves to its end and the invariant is kept. A larger request, and any request without a
  region, reports NOSPACE and changes nothing.\<close>

theorem meta_alloc_region:
  assumes ok: "dev_ok d" and sz: "unat sz + 16 \<le> 2 ^ 64"
  defines "n \<equiv> (unat sz + 15) div 16 * 16" and "B \<equiv> unat (st_meta_bytes (dv_st d))"
  defines "p \<equiv> (if unat (st_meta_next_off (dv_st d)) + n > B then 0 else unat (st_meta_next_off (dv_st d)))"
  shows "if 0 < B \<and> n \<le> B
    then \<exists>off d'. rsdk_dev_meta_alloc d sz = (Inr off, d') \<and> dev_ok d' \<and>
      unat off = dD d + dN d * dC d + p \<and> p + n \<le> B \<and> unat sz \<le> n \<and> unat (st_meta_next_off (dv_st d')) = p + n
    else rsdk_dev_meta_alloc d sz = (Inl RSDK_E_NOSPACE, d)"
proof (cases "0 < B \<and> n \<le> B")
  case True
  have le: "unat sz \<le> n" unfolding n_def using align_nat_ge[of 16 "unat sz"] by simp
  show ?thesis
    using meta_alloc_result(1)[OF ok sz, folded n_def B_def, folded p_def] True le dev_ok_space(3)[OF ok] by auto
next
  case False
  then have "B = 0 \<or> B < n" by auto
  then show ?thesis using meta_alloc_result(2)[OF ok sz, folded n_def B_def] False by simp
qed

lemma meta_alloc_region_witness:
  "\<exists>off d'. rsdk_dev_meta_alloc (demo_disk 0) 1000 = (Inr off, d') \<and> dev_ok d' \<and> unat (st_meta_next_off (dv_st d')) = 1008"
  using meta_alloc_region[OF demo_disk_ok[of 0], of 1000] by auto

text \<open>Key rotation keeps the data key. If the stored key unwraps to \<open>dek\<close>, rotation
  stores a fresh salt and a new wrapping of the same \<open>dek\<close> and flushes both structures: opening the disk later yields
  the same cipher, and the handle goes on with the one it has.\<close>

theorem rekey_keeps_dek:
  assumes "dev_ok d" "sb_enc_algo (dv_sb d) = 1" "rnd_ok rnd 16"
    and "rsdk_dek_unwrap (rsdk_kdf_kek (Some RSDK_DEFAULT_SN) (sb_kdf_salt (dv_sb d)))
              (sb_wrapped_dek (dv_sb d)) (sb_dek_kcv (dv_sb d)) = Inr dek"
  shows "\<exists>d'. rsdk_dev_rekey rnd d = (RSDK_OK, d') \<and> dev_ok d' \<and>
     sb_kdf_salt (dv_sb d') = rnd_fill rnd 16 \<and>
     dev_crypto_of (dv_sb d') = Some (rsdk_crypto_open dek) \<and> dev_crypto_of (dv_sb d) = Some (rsdk_crypto_open dek) \<and>
     dv_crypto d' = dv_crypto d \<and> on_disk (rw_data (dv_raw d')) (dv_sb d') (dv_st d')"
  using rekey_result[OF assms] .

definition demo_crypt_disk :: "bytes \<Rightarrow> rsdk_dev" where
  "demo_crypt_disk dek =
     (let (w, k) = rsdk_dek_wrap (rsdk_kdf_kek (Some RSDK_DEFAULT_SN) (replicate 16 0)) dek
      in dev_assemble \<lparr>rw_data = (\<lambda>a. 0), rw_sectors = 20480\<rparr>
           ((demo_sb 0)\<lparr>sb_enc_algo := 1, sb_wrapped_dek := w, sb_dek_kcv := k\<rparr>) demo_st)"

lemma demo_crypt_disk_ok: "length dek = 32 \<Longrightarrow> dev_ok (demo_crypt_disk dek)"
  by (simp add: demo_crypt_disk_def case_prod_beta rsdk_dek_wrap_def length_kek_kcv dev_ok_def geom_ok_def ring_ok_def
      st_ok_def dev_assemble_def demo_sb_def demo_st_def sb_wf_def st_wf_def st_sealed_def GRP1_def RSDK_SEC_def Let_def)

lemma rekey_keeps_dek_witness:
  "\<exists>d'. rsdk_dev_rekey None (demo_crypt_disk (replicate 32 7)) = (RSDK_OK, d') \<and>
     dev_crypto_of (dv_sb d') = Some (rsdk_crypto_open (replicate 32 7))"
proof -
  let ?dek = "replicate 32 (7 :: u8)"
  let ?d = "demo_crypt_disk ?dek"
  have f: "sb_enc_algo (dv_sb ?d) = 1" "sb_kdf_salt (dv_sb ?d) = replicate 16 0"
    "sb_wrapped_dek (dv_sb ?d) = fst (rsdk_dek_wrap (rsdk_kdf_kek (Some RSDK_DEFAULT_SN) (replicate 16 0)) ?dek)"
    "sb_dek_kcv (dv_sb ?d) = snd (rsdk_dek_wrap (rsdk_kdf_kek (Some RSDK_DEFAULT_SN) (replicate 16 0)) ?dek)"
    by (simp_all add: demo_crypt_disk_def case_prod_beta dev_assemble_def demo_sb_def Let_def)
  have l: "length ?dek = 32" by (simp only: length_replicate)
  have u: "rsdk_dek_unwrap (rsdk_kdf_kek (Some RSDK_DEFAULT_SN) (sb_kdf_salt (dv_sb ?d)))
              (sb_wrapped_dek (dv_sb ?d)) (sb_dek_kcv (dv_sb ?d)) = Inr ?dek"
    unfolding f(2-4) by (rule dek_unwrap_wrap[OF l])
  have r: "rnd_ok None 16" by (simp add: rnd_ok_def)
  show ?thesis using rekey_keeps_dek[OF demo_crypt_disk_ok[OF l] f(1) r u] by blast
qed

text \<open>Which key a formatted disk opens with. Format wraps the random data key under the
  serial number it is given, open always unwraps under the default one: without a serial number opening yields the
  cipher of the data key; with one, opening yields no cipher at all (and reports no error) unless the check
  values of the two derived keys happen to agree.\<close>

theorem format_key_opens:
  assumes enc: "format_mask cfg opt AND RSDK_FEAT_ENCRYPTION \<noteq> 0" and rnd: "rnd_ok (rn_dek rnd) 32"
  defines "salt \<equiv> rnd_fill (rn_salt rnd) 16" and "dek \<equiv> rnd_fill (rn_dek rnd) 32"
    and "sn \<equiv> (case opt of Some p \<Rightarrow> (case fo_sn p of Some s \<Rightarrow> s | None \<Rightarrow> RSDK_DEFAULT_SN) | None \<Rightarrow> RSDK_DEFAULT_SN)"
  shows "dev_crypto_of (format_sb cfg rnd opt sectors cs lo mc) =
    (if sn = RSDK_DEFAULT_SN then Some (rsdk_crypto_open dek)
     else if kek_kcv (rsdk_kdf_kek (Some RSDK_DEFAULT_SN) salt) \<noteq> kek_kcv (rsdk_kdf_kek (Some sn) salt) then None
     else Some (rsdk_crypto_open (rsdk_crypto_xcrypt (rsdk_crypto_open (rsdk_kdf_kek (Some RSDK_DEFAULT_SN) salt)) 0xA5A5A5A5 0 0
            (rsdk_crypto_xcrypt (rsdk_crypto_open (rsdk_kdf_kek (Some sn) salt)) 0xA5A5A5A5 0 0 dek))))"
proof -
  have l: "length dek = 32" unfolding dek_def by (rule length_rnd_fill[OF rnd])
  define sb where "sb = format_sb cfg rnd opt sectors cs lo mc"
  have f: "sb_enc_algo sb = 1" "sb_kdf_salt sb = salt"
    "sb_wrapped_dek sb = fst (rsdk_dek_wrap (rsdk_kdf_kek (Some sn) salt) dek)"
    "sb_dek_kcv sb = snd (rsdk_dek_wrap (rsdk_kdf_kek (Some sn) salt) dek)"
    using enc by (simp_all add: sb_def format_sb_def Let_def case_prod_beta salt_def dek_def sn_def)
  show ?thesis
    unfolding sb_def[symmetric] dev_crypto_of_def f
    using dek_unwrap_wrap[OF l, of "rsdk_kdf_kek (Some RSDK_DEFAULT_SN) salt"] l
    by (simp add: rsdk_dek_unwrap_def rsdk_dek_wrap_def)
qed

lemma format_key_opens_witness:
  "dev_crypto_of (format_sb (rsdk_cfg_defaults\<lparr>cfg_encryption := True\<rparr>) demo_rnd None 262144 16384
      \<lparr>lo_cc = 15, lo_bm = 1, lo_ix = 8, lo_ds = 16384\<rparr> 0) = Some (rsdk_crypto_open (rnd_fill None 32))"
  using format_key_opens[of "rsdk_cfg_defaults\<lparr>cfg_encryption := True\<rparr>" None demo_rnd 262144 16384
      "\<lparr>lo_cc = 15, lo_bm = 1, lo_ix = 8, lo_ds = 16384\<rparr>" 0]
  by (simp add: format_mask_def rsdk_feature_mask_def rsdk_cfg_defaults_def RSDK_FEAT_ENCRYPTION_def demo_rnd_def rnd_ok_def)

end
