(* ===== verification/Rsdk_Index.thy ===== *)
theory Rsdk_Index
  imports Rsdk_Storgedev
begin

text \<open>
  components/recorder/src/rsdk_index.c: the ring of 64-byte segment slots in the index region.
  A slot is written over the one with the same segment id if that is among the last 8192 written,
  and at the ring position otherwise; queries read every slot, drop the invalid and the damaged
  ones and sort what is left by start time. A formatted disk has at least one slot; with none the
  C code divides by zero in \<open>rsdk_index_write\<close>, so the lemmas about it assume a slot.
\<close>

section \<open>Slots\<close>

definition slot_off :: "rsdk_dev \<Rightarrow> u32 \<Rightarrow> u64" where
  "slot_off d i = st_index_start_sec (dv_st d) * RSDK_SEC + ucast i * 64"

definition rd_slot :: "rsdk_dev \<Rightarrow> u32 \<Rightarrow> index_slot" where
  "rd_slot d i = sl_decode (rsdk_rawdev_pread (dv_raw d) (slot_off d i) 64)"

definition wr_slot :: "rsdk_dev \<Rightarrow> u32 \<Rightarrow> index_slot \<Rightarrow> rsdk_dev" where
  "wr_slot d i s = d\<lparr>dv_raw := rsdk_rawdev_pwrite (dv_raw d) (slot_off d i) (sl_encode s)\<rparr>"

definition seal_sl :: "index_slot \<Rightarrow> index_slot" where
  "seal_sl s = (let z = s\<lparr>sl_crc32 := 0\<rparr> in z\<lparr>sl_crc32 := rsdk_crc32 (sl_encode z)\<rparr>)"

definition slot_live :: "index_slot \<Rightarrow> bool" where
  "slot_live s = (sl_flags s AND (RSDK_SLOT_VALID OR RSDK_SLOT_OPEN) \<noteq> 0)"

section \<open>Writing\<close>

text \<open>The slot to overwrite, among the last \<open>ks\<close> written.\<close>

fun index_scan :: "rsdk_dev \<Rightarrow> u32 \<Rightarrow> u32 \<Rightarrow> nat list \<Rightarrow> u32 option" where
  "index_scan d seg n [] = None"
| "index_scan d seg n (k # ks) =
     (let i = (st_index_next (dv_st d) + n - of_nat k) mod n;
          cur = rd_slot d i in
      if slot_live cur \<and> sl_seg_id cur = seg then Some i
      else if sl_flags cur = 0 \<and> sl_seg_id cur = 0 then None
      else index_scan d seg n ks)"

definition rsdk_index_write :: "rsdk_dev \<Rightarrow> index_slot \<Rightarrow> rsdk_err \<times> rsdk_dev" where
  "rsdk_index_write d inp =
     (let st = dv_st d;
          s = seal_sl inp;
          n = st_index_slot_count st;
          scan = (if n < 8192 then n else 8192) in
      case index_scan d (sl_seg_id inp) n [1..<Suc (unat scan)] of
        Some i \<Rightarrow> (RSDK_OK, wr_slot d i s)
      | None \<Rightarrow>
         (let d = wr_slot d (st_index_next st) s;
              d = d\<lparr>dv_st := st\<lparr>st_index_next := (st_index_next st + 1) mod n\<rparr>\<rparr>
          in (RSDK_OK, rsdk_dev_flush d)))"

section \<open>Queries\<close>

definition slot_matches :: "u32 \<Rightarrow> u32 \<Rightarrow> int \<Rightarrow> int \<Rightarrow> index_slot \<Rightarrow> bool" where
  "slot_matches t0 t1 chn rectype s =
     (if sl_flags s AND RSDK_SLOT_VALID = 0 then False
      else if rsdk_crc32 (sl_encode (s\<lparr>sl_crc32 := 0\<rparr>)) \<noteq> sl_crc32 s then False
      else
        let e = (if sl_end_time s = 0xFFFFFFFF then t1 else sl_end_time s) in
        if e < t0 \<or> sl_start_time s > t1 then False
        else if chn \<ge> 0 \<and> uint (sl_chn s) \<noteq> chn then False
        else if rectype \<ge> 0 \<and> uint (sl_rectype s) \<noteq> rectype then False
        else True)"

fun query_loop :: "rsdk_dev \<Rightarrow> (index_slot \<Rightarrow> bool) \<Rightarrow> int \<Rightarrow> nat list \<Rightarrow> index_slot list \<Rightarrow> index_slot list" where
  "query_loop d P cap [] out = out"
| "query_loop d P cap (i # is) out =
     (if int (length out) < cap
      then let s = rd_slot d (of_nat i) in query_loop d P cap is (if P s then out @ [s] else out)
      else out)"

text \<open>The exchange sort over an output array, used with a key by the index and the group query.\<close>

definition exchange_step :: "('a \<Rightarrow> 'k::linorder) \<Rightarrow> nat \<Rightarrow> nat \<Rightarrow> 'a list \<Rightarrow> 'a list" where
  "exchange_step key a b out = (if key (out ! b) < key (out ! a) then out[a := out ! b, b := out ! a] else out)"

definition exchange_sort :: "('a \<Rightarrow> 'k::linorder) \<Rightarrow> 'a list \<Rightarrow> 'a list" where
  "exchange_sort key out =
     fold (\<lambda>a out. fold (exchange_step key a) [a + 1..<length out] out) [0..<length out] out"

definition rsdk_index_query :: "rsdk_dev \<Rightarrow> u32 \<Rightarrow> u32 \<Rightarrow> int \<Rightarrow> int \<Rightarrow> int \<Rightarrow> index_slot list" where
  "rsdk_index_query d t0 t1 chn rectype cap =
     (if cap \<le> 0 then []
      else
        let t1 = (if t1 = 0 then 0xFFFFFFFF else t1);
            out = query_loop d (slot_matches t0 t1 chn rectype) cap
                    [0..<unat (st_index_slot_count (dv_st d))] []
        in exchange_sort sl_start_time out)"

section \<open>Reclaiming a chunk, and the left end of the time line\<close>

definition invalidate_step :: "u64 \<Rightarrow> nat \<Rightarrow> rsdk_dev \<times> int \<Rightarrow> rsdk_dev \<times> int" where
  "invalidate_step chunk i = (\<lambda>(d, cleared).
     let s = rd_slot d (of_nat i) in
     if slot_live s \<and> sl_start_chunk s = chunk
     then (wr_slot d (of_nat i) (seal_sl (s\<lparr>sl_flags := 0\<rparr>)), cleared + 1)
     else (d, cleared))"

definition rsdk_index_invalidate_chunk :: "rsdk_dev \<Rightarrow> u64 \<Rightarrow> rsdk_dev \<times> int" where
  "rsdk_index_invalidate_chunk d chunk =
     fold (invalidate_step chunk) [0..<unat (st_index_slot_count (dv_st d))] (d, 0)"

definition earliest_step :: "rsdk_dev \<Rightarrow> nat \<Rightarrow> u32 \<times> bool \<Rightarrow> u32 \<times> bool" where
  "earliest_step d i = (\<lambda>(best, any).
     let s = rd_slot d (of_nat i) in
     if sl_flags s AND RSDK_SLOT_VALID \<noteq> 0 \<and> sl_start_time s < best then (sl_start_time s, True) else (best, any))"

definition rsdk_index_earliest :: "rsdk_dev \<Rightarrow> rsdk_err + u32" where
  "rsdk_index_earliest d =
     (let (best, any) = fold (earliest_step d) [0..<unat (st_index_slot_count (dv_st d))] (0xFFFFFFFF, False)
      in if any then Inr best else Inl RSDK_E_NOTFOUND)"

section \<open>The exchange sort\<close>

lemma length_exchange_step [simp]: "length (exchange_step key a b out) = length out"
  by (simp add: exchange_step_def)

lemma length_exchange_pass [simp]: "length (fold (exchange_step key a) bs out) = length out"
  by (rule length_fold_inv) simp

lemma mset_exchange_pass:
  assumes "a < length out" "\<And>b. b \<in> set bs \<Longrightarrow> b < length out"
  shows "mset (fold (exchange_step key a) bs out) = mset out"
  using assms
proof (induction bs arbitrary: out)
  case (Cons b bs)
  have "mset (exchange_step key a b out) = mset out"
    using Cons.prems list_all_swap[of a out b] by (simp add: exchange_step_def)
  moreover have "mset (fold (exchange_step key a) bs (exchange_step key a b out)) = mset (exchange_step key a b out)"
    using Cons.prems by (intro Cons.IH) simp_all
  ultimately show ?case by simp
qed simp

text \<open>One pass puts a least element of \<open>out\<close> from \<open>a\<close> on at \<open>a\<close>, and keeps what is before.\<close>

lemma exchange_pass_min:
  assumes "Suc a \<le> m" "m \<le> length out"
  shows "(\<forall>j. a < j \<longrightarrow> j < m \<longrightarrow>
      key (fold (exchange_step key a) [a + 1..<m] out ! a) \<le> key (fold (exchange_step key a) [a + 1..<m] out ! j)) \<and>
    (\<forall>j < length out. j < a \<or> m \<le> j \<longrightarrow> fold (exchange_step key a) [a + 1..<m] out ! j = out ! j) \<and>
    (\<forall>j. a \<le> j \<longrightarrow> j < m \<longrightarrow>
      (\<exists>i. a \<le> i \<and> i < m \<and> fold (exchange_step key a) [a + 1..<m] out ! j = out ! i))"
  using assms
proof (induction m rule: dec_induct)
  case base
  then show ?case by auto
next
  case (step m)
  define p where "p = fold (exchange_step key a) [a + 1..<m] out"
  have IH: "\<forall>j. a < j \<longrightarrow> j < m \<longrightarrow> key (p ! a) \<le> key (p ! j)"
    "\<forall>j < length out. j < a \<or> m \<le> j \<longrightarrow> p ! j = out ! j"
    "\<forall>j. a \<le> j \<longrightarrow> j < m \<longrightarrow> (\<exists>i. a \<le> i \<and> i < m \<and> p ! j = out ! i)"
    using step by (simp_all add: p_def)
  have lp: "length p = length out" by (simp add: p_def)
  have r: "fold (exchange_step key a) [a + 1..<Suc m] out = exchange_step key a m p"
    using step.hyps by (simp add: p_def)
  have pm: "p ! m = out ! m" using IH(2) step.prems by simp
  obtain ia where ia: "a \<le> ia" "ia < m" "p ! a = out ! ia" using IH(3) step.hyps by auto
  have am: "a < m" "m < length p" "a < length p" using step.hyps step.prems lp by auto
  show ?case
  proof (cases "key (p ! m) < key (p ! a)")
    case True
    then have q: "exchange_step key a m p = p[a := p ! m, m := p ! a]" by (simp add: exchange_step_def)
    have qa: "p[a := p ! m, m := p ! a] ! a = p ! m" "p[a := p ! m, m := p ! a] ! m = p ! a"
      using am by (simp_all add: nth_list_update)
    have qj: "p[a := p ! m, m := p ! a] ! j = p ! j" if "j \<noteq> a" "j \<noteq> m" for j
      using that by (simp add: nth_list_update)
    have "key (p ! m) \<le> key (p[a := p ! m, m := p ! a] ! j)" if "a < j" "j < Suc m" for j
      using that True IH(1) qa qj[of j] by (cases "j = m") (auto intro: less_imp_le order_trans)
    moreover have "p[a := p ! m, m := p ! a] ! j = out ! j" if "j < length out" "j < a \<or> Suc m \<le> j" for j
      using that qj[of j] am IH(2) by auto
    moreover have "\<exists>i. a \<le> i \<and> i < Suc m \<and> p[a := p ! m, m := p ! a] ! j = out ! i" if ab: "a \<le> j" "j < Suc m" for j
    proof -
      consider "j = a" | "j = m" | "a < j \<and> j < m" using ab by linarith
      then show ?thesis
      proof cases
        case 1
        then show ?thesis using qa pm am by (intro exI[of _ m]) simp
      next
        case 2
        then show ?thesis using qa ia by (intro exI[of _ ia]) simp
      next
        case 3
        then show ?thesis using qj[of j] IH(3) by (metis less_SucI less_imp_le_nat nat_neq_iff)
      qed
    qed
    ultimately show ?thesis unfolding r q qa(1) by blast
  next
    case False
    then have q: "exchange_step key a m p = p" by (simp add: exchange_step_def)
    show ?thesis
      unfolding r q using IH False pm am
      by (auto simp: less_Suc_eq not_less)
  qed
qed

lemma exchange_sort_prefix:
  fixes key :: "'a \<Rightarrow> 'k::linorder"
  assumes "n \<le> length out"
  defines "r \<equiv> fold (\<lambda>a out. fold (exchange_step key a) [a + 1..<length out] out) [0..<n] out"
  shows "length r = length out \<and> mset r = mset out \<and>
    (\<forall>i j. i < n \<longrightarrow> i < j \<longrightarrow> j < length out \<longrightarrow> key (r ! i) \<le> key (r ! j))"
  using assms(1) unfolding r_def
proof (induction n)
  case 0
  then show ?case by simp
next
  case (Suc n)
  define p where "p = fold (\<lambda>a out. fold (exchange_step key a) [a + 1..<length out] out) [0..<n] out"
  have IH: "length p = length out" "mset p = mset out"
    "\<forall>i j. i < n \<longrightarrow> i < j \<longrightarrow> j < length out \<longrightarrow> key (p ! i) \<le> key (p ! j)"
    using Suc by (simp_all add: p_def)
  define q where "q = fold (exchange_step key n) [n + 1..<length p] p"
  have r: "fold (\<lambda>a out. fold (exchange_step key a) [a + 1..<length out] out) [0..<Suc n] out = q"
    by (simp add: p_def q_def)
  have n: "n < length p" using Suc.prems IH(1) by simp
  have "mset q = mset p" unfolding q_def using n by (intro mset_exchange_pass) simp_all
  then have lq: "length q = length out" "mset q = mset out" using IH(1,2) by (simp_all add: q_def)
  note M = exchange_pass_min[of n "length p" p key, folded q_def]
  have min: "key (q ! n) \<le> key (q ! j)" if "n < j" "j < length out" for j
    using M n that IH(1) by simp
  have keep: "q ! j = p ! j" if "j < n" for j using M n that by simp
  have from_p: "\<exists>i. n \<le> i \<and> i < length p \<and> q ! j = p ! i" if "n \<le> j" "j < length p" for j
    using M n that by simp
  have "key (q ! i) \<le> key (q ! j)" if ij: "i < Suc n" "i < j" "j < length out" for i j
  proof (cases "i = n")
    case True
    then show ?thesis using min ij by simp
  next
    case False
    then have i: "i < n" using ij by simp
    show ?thesis
    proof (cases "j < n")
      case True
      then show ?thesis using i ij IH(3) keep by simp
    next
      case False
      then obtain k where "n \<le> k" "k < length p" "q ! j = p ! k" using from_p[of j] ij IH(1) by auto
      then show ?thesis using i IH(1,3) keep[OF i] by simp
    qed
  qed
  then show ?case unfolding r using lq by simp
qed

lemma exchange_sort_mset [simp]: "mset (exchange_sort key out) = mset out"
  using exchange_sort_prefix[of "length out" out key] by (simp add: exchange_sort_def)

lemma exchange_sort_sorted: "sorted (map key (exchange_sort key out))"
  using exchange_sort_prefix[of "length out" out key]
  by (auto simp: exchange_sort_def sorted_iff_nth_mono_less)

lemma exchange_sort_set [simp]: "set (exchange_sort key out) = set out"
  using exchange_sort_mset[of key out] by (metis set_mset_mset)

lemma exchange_sort_length [simp]: "length (exchange_sort key out) = length out"
  using exchange_sort_mset[of key out] by (metis size_mset)

section \<open>The slot array\<close>

text \<open>An array of slots with its laws; what one sweep that rewrites the slots satisfying a test does.\<close>

locale slot_store =
  fixes get :: "'s \<Rightarrow> nat \<Rightarrow> 'a"
    and put :: "'s \<Rightarrow> nat \<Rightarrow> 'a \<Rightarrow> 's"
    and cnt :: "'s \<Rightarrow> nat"
    and ok :: "'s \<Rightarrow> bool"
    and fine :: "'a \<Rightarrow> bool"
  assumes get_put_same: "ok s \<Longrightarrow> i < cnt s \<Longrightarrow> fine x \<Longrightarrow> get (put s i x) i = x"
    and get_put_other: "ok s \<Longrightarrow> i < cnt s \<Longrightarrow> j < cnt s \<Longrightarrow> i \<noteq> j \<Longrightarrow> fine x \<Longrightarrow> get (put s i x) j = get s j"
    and ok_put: "ok s \<Longrightarrow> i < cnt s \<Longrightarrow> fine x \<Longrightarrow> ok (put s i x)"
    and cnt_put: "cnt (put s i x) = cnt s"
    and fine_get: "ok s \<Longrightarrow> i < cnt s \<Longrightarrow> fine (get s i)"
begin

definition sweep :: "('a \<Rightarrow> bool) \<Rightarrow> ('a \<Rightarrow> 'a) \<Rightarrow> nat list \<Rightarrow> 's \<times> int \<Rightarrow> 's \<times> int" where
  "sweep P f is st = fold (\<lambda>i (s, c). if P (get s i) then (put s i (f (get s i)), c + 1) else (s, c)) is st"

lemma sweep_spec:
  assumes "ok s" "distinct is" "\<And>i. i \<in> set is \<Longrightarrow> i < cnt s" "\<And>x. fine x \<Longrightarrow> fine (f x)"
  shows "ok (fst (sweep P f is (s, c))) \<and> cnt (fst (sweep P f is (s, c))) = cnt s \<and>
    (\<forall>j < cnt s. get (fst (sweep P f is (s, c))) j =
       (if j \<in> set is \<and> P (get s j) then f (get s j) else get s j)) \<and>
    snd (sweep P f is (s, c)) = c + int (length (filter (\<lambda>i. P (get s i)) is))"
  using assms(1-3)
proof (induction "is" arbitrary: s c)
  case Nil
  then show ?case by (simp add: sweep_def)
next
  case (Cons i "is")
  show ?case
  proof (cases "P (get s i)")
    case False
    then have st: "sweep P f (i # is) (s, c) = sweep P f is (s, c)" by (simp add: sweep_def)
    have IH: "ok (fst (sweep P f is (s, c))) \<and> cnt (fst (sweep P f is (s, c))) = cnt s \<and>
      (\<forall>j < cnt s. get (fst (sweep P f is (s, c))) j = (if j \<in> set is \<and> P (get s j) then f (get s j) else get s j)) \<and>
      snd (sweep P f is (s, c)) = c + int (length (filter (\<lambda>i. P (get s i)) is))"
      using Cons.prems by (intro Cons.IH) simp_all
    show ?thesis unfolding st using IH False by auto
  next
    case True
    define s1 where "s1 = put s i (f (get s i))"
    have i: "i < cnt s" "fine (f (get s i))" using Cons.prems assms(4) fine_get by simp_all
    have g: "get s1 i = f (get s i)" "\<And>j. j < cnt s \<Longrightarrow> j \<noteq> i \<Longrightarrow> get s1 j = get s j" "cnt s1 = cnt s" "ok s1"
      using i Cons.prems get_put_same get_put_other cnt_put ok_put by (simp_all add: s1_def)
    have st: "sweep P f (i # is) (s, c) = sweep P f is (s1, c + 1)" using True by (simp add: sweep_def s1_def)
    have IH: "ok (fst (sweep P f is (s1, c + 1))) \<and> cnt (fst (sweep P f is (s1, c + 1))) = cnt s1 \<and>
      (\<forall>j < cnt s1. get (fst (sweep P f is (s1, c + 1))) j = (if j \<in> set is \<and> P (get s1 j) then f (get s1 j) else get s1 j)) \<and>
      snd (sweep P f is (s1, c + 1)) = c + 1 + int (length (filter (\<lambda>i. P (get s1 i)) is))"
      using Cons.prems g by (intro Cons.IH) simp_all
    have same: "get s1 x = get s x" if "x \<in> set is" for x
      using that Cons.prems by (intro g(2)) auto
    then have "filter (\<lambda>i. P (get s1 i)) is = filter (\<lambda>i. P (get s i)) is"
      by (intro filter_cong) auto
    moreover have "get (fst (sweep P f is (s1, c + 1))) j =
        (if j \<in> set (i # is) \<and> P (get s j) then f (get s j) else get s j)" if j: "j < cnt s" for j
    proof (cases "j = i")
      case True
      then show ?thesis using IH j g Cons.prems(2) \<open>P (get s i)\<close> by simp
    next
      case False
      then have "get s1 j = get s j" using g(2) j by simp
      then show ?thesis using IH j g False by simp
    qed
    ultimately show ?thesis unfolding st using IH True g by simp
  qed
qed

end

lemma slot_off_nat:
  assumes "dev_ok d" "unat i < unat (st_index_slot_count (dv_st d))"
  shows "unat (slot_off d i) = unat (st_index_start_sec (dv_st d)) * 512 + unat i * 64"
    and "9728 \<le> unat (slot_off d i)"
    and "unat (slot_off d i) + 64 \<le> dD d"
    and "unat (slot_off d i) + 64 \<le> (unat (st_index_start_sec (dv_st d)) + unat (st_index_sectors (dv_st d))) * 512"
proof -
  have I: "19 \<le> unat (st_index_start_sec (dv_st d))"
    "unat (st_index_start_sec (dv_st d)) + unat (st_index_sectors (dv_st d)) \<le> unat (sb_data_start_sec (dv_sb d))"
    "unat (st_index_slot_count (dv_st d)) * 64 \<le> unat (st_index_sectors (dv_st d)) * 512"
    using assms(1) by (simp_all add: dev_ok_def st_ok_def)
  have D: "dD d < 2 ^ 63" using dev_ok_space(2)[OF assms(1)] by simp
  have le: "unat i * 64 + 64 \<le> unat (st_index_sectors (dv_st d)) * 512" using I(3) assms(2) by linarith
  have b: "unat (st_index_start_sec (dv_st d)) * 512 + unat i * 64 + 64 \<le> dD d" using I(2) le by linarith
  have "unat (st_index_start_sec (dv_st d) * RSDK_SEC) = unat (st_index_start_sec (dv_st d)) * 512"
    using b D by (subst unat_mult_nowrap) (simp_all add: RSDK_SEC_def)
  moreover have "unat (ucast i * 64 :: u64) = unat i * 64"
    using b D by (subst unat_mult_nowrap) simp_all
  ultimately show o: "unat (slot_off d i) = unat (st_index_start_sec (dv_st d)) * 512 + unat i * 64"
    using b D by (simp add: slot_off_def unat_add_nowrap)
  show "9728 \<le> unat (slot_off d i)" "unat (slot_off d i) + 64 \<le> dD d"
    "unat (slot_off d i) + 64 \<le> (unat (st_index_start_sec (dv_st d)) + unat (st_index_sectors (dv_st d))) * 512"
    using o I(1) b le by simp_all
qed

lemma wr_slot_simps [simp]:
  "dv_sb (wr_slot d i s) = dv_sb d" "dv_st (wr_slot d i s) = dv_st d" "dv_crypto (wr_slot d i s) = dv_crypto d"
  "dv_chunk_bytes (wr_slot d i s) = dv_chunk_bytes d" "dv_data_chunks (wr_slot d i s) = dv_data_chunks d"
  "dv_meta_base (wr_slot d i s) = dv_meta_base d"
  "rw_data (dv_raw (wr_slot d i s)) = dwrite (rw_data (dv_raw d)) (unat (slot_off d i)) (sl_encode s)"
  "slot_off (wr_slot d i s) = slot_off d"
  by (simp_all add: wr_slot_def slot_off_def fun_eq_iff)

lemma dev_ok_raw_cong:
  assumes "dev_ok d" "dv_sb d' = dv_sb d" "dv_st d' = dv_st d" "dv_chunk_bytes d' = dv_chunk_bytes d"
    "dv_data_chunks d' = dv_data_chunks d" "dv_meta_base d' = dv_meta_base d"
  shows "dev_ok d'"
  using assms(1) unfolding dev_ok_def geom_ok_def ring_ok_def st_ok_def assms(2-) .

lemma dev_ok_wr_slot: "dev_ok d \<Longrightarrow> dev_ok (wr_slot d i s)"
  by (rule dev_ok_raw_cong[of d]) simp_all

lemma rd_slot_wf: "sl_wf (rd_slot d i)"
  by (simp add: rd_slot_def rsdk_rawdev_pread_def sl_decode_wf)

lemma rd_wr_slot_same: "sl_wf s \<Longrightarrow> rd_slot (wr_slot d i s) i = s"
  by (simp add: rd_slot_def rsdk_rawdev_pread_def mem.rd_wr_len sl_encode_length sl_roundtrip)

lemma rd_wr_slot_other:
  assumes "dev_ok d" "unat i < unat (st_index_slot_count (dv_st d))" "unat j < unat (st_index_slot_count (dv_st d))"
    "i \<noteq> j" "sl_wf s"
  shows "rd_slot (wr_slot d i s) j = rd_slot d j"
proof -
  have "unat i \<noteq> unat j" using assms(4) by (simp add: word_unat_eq_iff)
  then have "unat (slot_off d j) + 64 \<le> unat (slot_off d i) \<or> unat (slot_off d i) + 64 \<le> unat (slot_off d j)"
    using slot_off_nat(1)[OF assms(1,2)] slot_off_nat(1)[OF assms(1,3)] by linarith
  then show ?thesis
    using assms(5) by (simp add: rd_slot_def rsdk_rawdev_pread_def dread_dwrite_other sl_encode_length)
qed

lemma unat_slot_index: "i < unat (n :: u32) \<Longrightarrow> unat (of_nat i :: u32) = i"
  using unat_32_lt[of n] by (intro unat_of_nat_small) simp

interpretation slots: slot_store "\<lambda>d i. rd_slot d (of_nat i)" "\<lambda>d i. wr_slot d (of_nat i)"
  "\<lambda>d. unat (st_index_slot_count (dv_st d))" dev_ok sl_wf
proof
  fix s :: rsdk_dev and i j x
  assume ok: "dev_ok s" and i: "i < unat (st_index_slot_count (dv_st s))" and x: "sl_wf x"
  show "rd_slot (wr_slot s (of_nat i) x) (of_nat i) = x" by (rule rd_wr_slot_same[OF x])
  assume j: "j < unat (st_index_slot_count (dv_st s))" and ne: "i \<noteq> j"
  have "(of_nat i :: u32) \<noteq> of_nat j" using ne unat_slot_index[OF i] unat_slot_index[OF j] by metis
  then show "rd_slot (wr_slot s (of_nat i) x) (of_nat j) = rd_slot s (of_nat j)"
    using i j by (intro rd_wr_slot_other ok x) (simp_all add: unat_slot_index)
qed (simp_all add: dev_ok_wr_slot rd_slot_wf)

lemma seal_sl_wf [simp]: "sl_wf (seal_sl s) = sl_wf s"
  by (simp add: seal_sl_def sl_wf_def Let_def)

lemma seal_sl_fields [simp]:
  "sl_seg_id (seal_sl s) = sl_seg_id s" "sl_chn (seal_sl s) = sl_chn s" "sl_rectype (seal_sl s) = sl_rectype s"
  "sl_flags (seal_sl s) = sl_flags s" "sl_start_time (seal_sl s) = sl_start_time s"
  "sl_end_time (seal_sl s) = sl_end_time s" "sl_start_chunk (seal_sl s) = sl_start_chunk s"
  "sl_start_off (seal_sl s) = sl_start_off s" "sl_end_off (seal_sl s) = sl_end_off s"
  "sl_start_disk (seal_sl s) = sl_start_disk s" "sl_frame_count (seal_sl s) = sl_frame_count s"
  by (simp_all add: seal_sl_def Let_def)

lemma seal_sl_crc: "rsdk_crc32 (sl_encode ((seal_sl s)\<lparr>sl_crc32 := 0\<rparr>)) = sl_crc32 (seal_sl s)"
  by (simp add: seal_sl_def Let_def)

section \<open>Reclaiming\<close>

abbreviation slot_count :: "rsdk_dev \<Rightarrow> nat" where
  "slot_count d \<equiv> unat (st_index_slot_count (dv_st d))"

abbreviation slot_at :: "rsdk_dev \<Rightarrow> nat \<Rightarrow> index_slot" where
  "slot_at d i \<equiv> rd_slot d (of_nat i)"

lemma sl_wf_flags [simp]: "sl_wf (s\<lparr>sl_flags := v\<rparr>) = sl_wf s"
  by (simp add: sl_wf_def)

lemma invalidate_sweep:
  "rsdk_index_invalidate_chunk d chunk =
     slots.sweep (\<lambda>s. slot_live s \<and> sl_start_chunk s = chunk) (\<lambda>s. seal_sl (s\<lparr>sl_flags := 0\<rparr>)) [0..<slot_count d] (d, 0)"
  unfolding rsdk_index_invalidate_chunk_def slots.sweep_def invalidate_step_def Let_def by simp

lemma invalidate_spec:
  assumes "dev_ok d" "rsdk_index_invalidate_chunk d chunk = (d', c)"
  shows "dev_ok d'" "slot_count d' = slot_count d"
    "\<And>j. j < slot_count d \<Longrightarrow> slot_at d' j =
       (if slot_live (slot_at d j) \<and> sl_start_chunk (slot_at d j) = chunk
        then seal_sl ((slot_at d j)\<lparr>sl_flags := 0\<rparr>) else slot_at d j)"
    "c = int (length (filter (\<lambda>i. slot_live (slot_at d i) \<and> sl_start_chunk (slot_at d i) = chunk) [0..<slot_count d]))"
proof -
  have wf: "sl_wf x \<Longrightarrow> sl_wf (seal_sl (x\<lparr>sl_flags := 0\<rparr>))" for x by simp
  note S = slots.sweep_spec[of d "[0..<slot_count d]" "\<lambda>s. seal_sl (s\<lparr>sl_flags := 0\<rparr>)"
      "\<lambda>s. slot_live s \<and> sl_start_chunk s = chunk" 0, folded invalidate_sweep, unfolded assms(2) fst_conv snd_conv,
      OF assms(1) _ _ wf]
  show "dev_ok d'" "slot_count d' = slot_count d"
    "\<And>j. j < slot_count d \<Longrightarrow> slot_at d' j =
       (if slot_live (slot_at d j) \<and> sl_start_chunk (slot_at d j) = chunk
        then seal_sl ((slot_at d j)\<lparr>sl_flags := 0\<rparr>) else slot_at d j)"
    "c = int (length (filter (\<lambda>i. slot_live (slot_at d i) \<and> sl_start_chunk (slot_at d i) = chunk) [0..<slot_count d]))"
    using S by simp_all
qed

text \<open>Rewriting slots leaves the handle and every byte outside the index region alone.\<close>

definition same_but_index :: "rsdk_dev \<Rightarrow> rsdk_dev \<Rightarrow> bool" where
  "same_but_index d d' \<longleftrightarrow> dv_sb d' = dv_sb d \<and> dv_st d' = dv_st d \<and> dv_crypto d' = dv_crypto d \<and>
     dv_chunk_bytes d' = dv_chunk_bytes d \<and> dv_data_chunks d' = dv_data_chunks d \<and> dv_meta_base d' = dv_meta_base d \<and>
     (\<forall>a n. a + n \<le> 9728 \<or> dD d \<le> a \<longrightarrow> dread (rw_data (dv_raw d')) a n = dread (rw_data (dv_raw d)) a n)"

lemma wr_slot_frame:
  assumes "dev_ok d" "unat i < slot_count d" "sl_wf s"
  shows "same_but_index d (wr_slot d i s)"
  using slot_off_nat[OF assms(1,2)] assms(3)
  by (auto simp: same_but_index_def sl_encode_length intro!: dread_dwrite_other)

lemma same_but_index_trans: "same_but_index d d' \<Longrightarrow> same_but_index d' d'' \<Longrightarrow> same_but_index d d''"
  unfolding same_but_index_def by metis

lemma invalidate_frame:
  assumes "dev_ok d"
  shows "same_but_index d (fst (rsdk_index_invalidate_chunk d chunk))"
proof -
  have "(\<lambda>(d', c). dev_ok d' \<and> slot_count d' = slot_count d \<and> same_but_index d d')
      (fold (invalidate_step chunk) [0..<slot_count d] (d, 0))"
  proof (rule fold_invariant_in)
    fix i and dc :: "rsdk_dev \<times> int"
    assume i: "i \<in> set [0..<slot_count d]"
      and h: "(\<lambda>(d', c). dev_ok d' \<and> slot_count d' = slot_count d \<and> same_but_index d d') dc"
    obtain d' c where dc: "dc = (d', c)" by (cases dc)
    have u: "unat (of_nat i :: u32) < slot_count d'" using i h by (simp add: dc unat_slot_index)
    have "same_but_index d' (wr_slot d' (of_nat i) (seal_sl ((slot_at d' i)\<lparr>sl_flags := 0\<rparr>)))"
      using h u rd_slot_wf by (intro wr_slot_frame) (simp_all add: dc)
    then show "(\<lambda>(d', c). dev_ok d' \<and> slot_count d' = slot_count d \<and> same_but_index d d') (invalidate_step chunk i dc)"
      using h same_but_index_trans by (auto simp: dc invalidate_step_def Let_def dev_ok_wr_slot)
  qed (use assms in \<open>simp add: same_but_index_def\<close>)
  then show ?thesis by (simp add: rsdk_index_invalidate_chunk_def case_prod_beta)
qed

section \<open>Queries\<close>

lemma query_loop_eq:
  "int (length out) \<le> cap \<Longrightarrow>
     query_loop d P cap is out = take (nat cap) (out @ filter P (map (\<lambda>i. rd_slot d (of_nat i)) is))"
proof (induction "is" arbitrary: out)
  case Nil
  then show ?case by simp
next
  case (Cons i "is")
  show ?case
  proof (cases "int (length out) < cap")
    case True
    then show ?thesis using Cons.IH[of "out @ [slot_at d i]"] Cons.IH[of out] by (simp add: Let_def)
  next
    case False
    then show ?thesis using Cons.prems by simp
  qed
qed

lemma slot_matches_iff:
  "slot_matches t0 t1 chn rt s \<longleftrightarrow>
     sl_flags s AND RSDK_SLOT_VALID \<noteq> 0 \<and> rsdk_crc32 (sl_encode (s\<lparr>sl_crc32 := 0\<rparr>)) = sl_crc32 s \<and>
     sl_start_time s \<le> t1 \<and> t0 \<le> (if sl_end_time s = 0xFFFFFFFF then t1 else sl_end_time s) \<and>
     (chn < 0 \<or> uint (sl_chn s) = chn) \<and> (rt < 0 \<or> uint (sl_rectype s) = rt)"
  by (auto simp: slot_matches_def Let_def not_less not_le)

lemma query_spec:
  assumes "0 < cap"
  shows "mset (rsdk_index_query d t0 t1 chn rt cap) =
      mset (take (nat cap) (filter (slot_matches t0 (if t1 = 0 then 0xFFFFFFFF else t1) chn rt) (map (slot_at d) [0..<slot_count d])))"
    and "sorted (map sl_start_time (rsdk_index_query d t0 t1 chn rt cap))"
  using assms by (simp_all add: rsdk_index_query_def Let_def query_loop_eq exchange_sort_sorted)

lemma query_sound:
  assumes "s \<in> set (rsdk_index_query d t0 t1 chn rt cap)"
  shows "\<exists>i < slot_count d. s = slot_at d i \<and> slot_matches t0 (if t1 = 0 then 0xFFFFFFFF else t1) chn rt s"
proof -
  have "0 < cap" using assms by (auto simp: rsdk_index_query_def split: if_splits)
  then have "s \<in> set (take (nat cap) (filter (slot_matches t0 (if t1 = 0 then 0xFFFFFFFF else t1) chn rt)
      (map (slot_at d) [0..<slot_count d])))"
    using assms query_spec(1) by (metis set_mset_mset)
  then have "s \<in> set (filter (slot_matches t0 (if t1 = 0 then 0xFFFFFFFF else t1) chn rt) (map (slot_at d) [0..<slot_count d]))"
    by (rule in_set_takeD)
  then show ?thesis by auto
qed

text \<open>A reclaimed chunk is in no query result.\<close>

lemma invalidate_query:
  assumes "dev_ok d" "rsdk_index_invalidate_chunk d chunk = (d', c)"
    "s \<in> set (rsdk_index_query d' t0 t1 chn rt cap)"
  shows "sl_start_chunk s \<noteq> chunk"
proof
  assume ch: "sl_start_chunk s = chunk"
  obtain i where i: "i < slot_count d'" "s = slot_at d' i"
    "slot_matches t0 (if t1 = 0 then 0xFFFFFFFF else t1) chn rt s"
    using query_sound[OF assms(3)] by blast
  note I = invalidate_spec[OF assms(1,2)]
  have v: "sl_flags s AND RSDK_SLOT_VALID \<noteq> 0" using i(3) by (simp add: slot_matches_iff)
  have s: "s = (if slot_live (slot_at d i) \<and> sl_start_chunk (slot_at d i) = chunk
      then seal_sl ((slot_at d i)\<lparr>sl_flags := 0\<rparr>) else slot_at d i)"
    using I(2,3) i(1,2) by simp
  show False
  proof (cases "slot_live (slot_at d i) \<and> sl_start_chunk (slot_at d i) = chunk")
    case True
    then have "sl_flags s = 0" using s by simp
    then show False using v by simp
  next
    case False
    then have "s = slot_at d i" using s by (simp only: if_False)
    then have "\<not> slot_live s" using False ch by simp
    then have "sl_flags s AND (RSDK_SLOT_VALID OR RSDK_SLOT_OPEN) = 0" by (simp add: slot_live_def)
    then have "sl_flags s AND RSDK_SLOT_VALID = 0"
      by (auto simp: bit_eq_iff bit_simps)
    then show False using v by simp
  qed
qed


section \<open>Writing\<close>

lemma same_but_index_slots:
  "same_but_index d d' \<Longrightarrow> slot_count d' = slot_count d"
  by (simp add: same_but_index_def)

lemma rd_slot_flush:
  assumes "dev_ok d" "unat j < slot_count d"
  shows "rd_slot (rsdk_dev_flush d) j = rd_slot d j"
proof -
  have "sb_wf (dv_sb d)" "st_wf (dv_st d)" using assms(1) by (simp_all add: dev_ok_def st_sealed_def)
  moreover have "slot_off (rsdk_dev_flush d) j = slot_off d j" by (simp add: slot_off_def)
  ultimately show ?thesis
    using slot_off_nat(2)[OF assms] by (simp add: rd_slot_def rsdk_rawdev_pread_def flush_frame)
qed

lemma index_scan_some:
  assumes "index_scan d seg n ks = Some i" "0 < unat n"
  shows "unat i < unat n" "slot_live (rd_slot d i)" "sl_seg_id (rd_slot d i) = seg"
  using assms
  by (induction d seg n ks rule: index_scan.induct) (auto simp: Let_def unat_mod_word split: if_splits)

text \<open>The written slot is at some position, the other positions and everything outside the index
  region and the SuperBlock and SysTab sectors are as before.\<close>

lemma index_write_spec:
  assumes ok: "dev_ok d" and n: "0 < slot_count d" and wf: "sl_wf inp"
    and w: "rsdk_index_write d inp = (e, d')"
  shows "e = RSDK_OK" and "dev_ok d'" and "slot_count d' = slot_count d"
    and "\<exists>i. unat i < slot_count d \<and> rd_slot d' i = seal_sl inp \<and>
      (\<forall>j. unat j < slot_count d \<longrightarrow> j \<noteq> i \<longrightarrow> rd_slot d' j = rd_slot d j) \<and>
      (i = st_index_next (dv_st d) \<or> slot_live (rd_slot d i) \<and> sl_seg_id (rd_slot d i) = sl_seg_id inp)"
    and "\<And>a k. dD d \<le> a \<Longrightarrow> dread (rw_data (dv_raw d')) a k = dread (rw_data (dv_raw d)) a k"
    and "seal_sb (dv_sb d') = seal_sb (dv_sb d)" "dv_crypto d' = dv_crypto d" "dv_chunk_bytes d' = dv_chunk_bytes d"
    and "dv_data_chunks d' = dv_data_chunks d" "dv_meta_base d' = dv_meta_base d" "st_chn (dv_st d') = st_chn (dv_st d)"
proof -
  let ?n = "st_index_slot_count (dv_st d)"
  let ?s = "seal_sl inp"
  have wfs: "sl_wf ?s" using wf by simp
  define o' where "o' = index_scan d (sl_seg_id inp) ?n [1..<Suc (unat (if ?n < 8192 then ?n else 8192))]"
  have seal2: "seal_sb (seal_sb s) = seal_sb s" for s by (simp add: seal_sb_def Let_def)
  have "e = RSDK_OK \<and> dev_ok d' \<and> slot_count d' = slot_count d \<and>
     (\<exists>i. unat i < slot_count d \<and> rd_slot d' i = ?s \<and>
      (\<forall>j. unat j < slot_count d \<longrightarrow> j \<noteq> i \<longrightarrow> rd_slot d' j = rd_slot d j) \<and>
      (i = st_index_next (dv_st d) \<or> slot_live (rd_slot d i) \<and> sl_seg_id (rd_slot d i) = sl_seg_id inp)) \<and>
    (\<forall>a k. dD d \<le> a \<longrightarrow> dread (rw_data (dv_raw d')) a k = dread (rw_data (dv_raw d)) a k) \<and>
    seal_sb (dv_sb d') = seal_sb (dv_sb d) \<and> dv_crypto d' = dv_crypto d \<and> dv_chunk_bytes d' = dv_chunk_bytes d \<and>
    dv_data_chunks d' = dv_data_chunks d \<and> dv_meta_base d' = dv_meta_base d \<and> st_chn (dv_st d') = st_chn (dv_st d)"
  proof (cases o')
    case (Some i)
    have d': "e = RSDK_OK" "d' = wr_slot d i ?s"
      using w Some unfolding o'_def by (simp_all add: rsdk_index_write_def Let_def)
    note I = index_scan_some[OF Some[unfolded o'_def] n]
    have fr: "same_but_index d d'" unfolding d' by (rule wr_slot_frame[OF ok I(1) wfs])
    have "rd_slot d' j = rd_slot d j" if "unat j < slot_count d" "j \<noteq> i" for j
      unfolding d' using that I(1) by (intro rd_wr_slot_other ok wfs) auto
    moreover have "rd_slot d' i = ?s" unfolding d' by (rule rd_wr_slot_same[OF wfs])
    moreover have "dev_ok d'" unfolding d' by (rule dev_ok_wr_slot[OF ok])
    ultimately show ?thesis using d'(1) I fr unfolding same_but_index_def by (intro conjI) (blast | simp)+
  next
    case None
    define i where "i = st_index_next (dv_st d)"
    define d1 where "d1 = wr_slot d i ?s"
    define d2 where "d2 = d1\<lparr>dv_st := (dv_st d)\<lparr>st_index_next := (i + 1) mod ?n\<rparr>\<rparr>"
    have d': "e = RSDK_OK" "d' = rsdk_dev_flush d2"
      using w None unfolding o'_def by (simp_all add: rsdk_index_write_def Let_def d2_def d1_def i_def)
    have i: "unat i < slot_count d" using ok n by (simp add: dev_ok_def st_ok_def i_def)
    have fr: "same_but_index d d1" unfolding d1_def by (rule wr_slot_frame[OF ok i wfs])
    have ok1: "dev_ok d1" unfolding d1_def by (rule dev_ok_wr_slot[OF ok])
    have nx: "unat ((i + 1) mod ?n) < slot_count d" using n by (simp add: unat_mod_word)
    have "geom_ok d2" by (rule geom_ok_cong[of d1]) (use ok1 in \<open>simp_all add: d2_def dev_ok_def\<close>)
    moreover have "ring_ok d2" "st_ok d2" "st_sealed (dv_st d2)"
      using ok1 ok nx by (simp_all add: d2_def d1_def dev_ok_def ring_ok_def st_ok_def st_sealed_def st_wf_def)
    ultimately have ok2: "dev_ok d2" using ok1 by (simp add: dev_ok_def d2_def)
    have sc2: "slot_count d2 = slot_count d" by (simp add: d2_def)
    have rd2: "rd_slot d2 j = rd_slot d1 j" for j
      by (simp add: rd_slot_def slot_off_def d2_def d1_def)
    have rd: "rd_slot d' j = rd_slot d1 j" if "unat j < slot_count d" for j
      unfolding d' using rd_slot_flush[OF ok2] that sc2 rd2 by simp
    have "rd_slot d' j = rd_slot d j" if "unat j < slot_count d" "j \<noteq> i" for j
      using rd[OF that(1)] rd_wr_slot_other[OF ok i that(1) _ wfs] that(2) by (simp add: d1_def)
    moreover have "rd_slot d' i = ?s" using rd[OF i] rd_wr_slot_same[OF wfs] by (simp add: d1_def)
    moreover have "dread (rw_data (dv_raw d')) a k = dread (rw_data (dv_raw d)) a k" if a: "dD d \<le> a" for a k
    proof -
      have "9728 \<le> dD d" using slot_off_nat(2,3)[OF ok i] by linarith
      then have "9728 \<le> a" using a by simp
      then have "dread (rw_data (dv_raw d')) a k = dread (rw_data (dv_raw d2)) a k"
        unfolding d' using ok2 by (intro flush_frame) (simp_all add: dev_ok_def st_sealed_def)
      also have "\<dots> = dread (rw_data (dv_raw d1)) a k" by (simp add: d2_def)
      finally show ?thesis using fr a by (simp add: same_but_index_def)
    qed
    moreover have "seal_sb (dv_sb d') = seal_sb (dv_sb d)" "dv_crypto d' = dv_crypto d" "dv_chunk_bytes d' = dv_chunk_bytes d"
      "dv_data_chunks d' = dv_data_chunks d" "dv_meta_base d' = dv_meta_base d" "st_chn (dv_st d') = st_chn (dv_st d)"
      "slot_count d' = slot_count d"
      by (simp_all add: d' d2_def d1_def seal2)
    ultimately show ?thesis using d'(1) ok2 i by (intro conjI) (auto simp: d' i_def)
  qed
  then show "e = RSDK_OK" "dev_ok d'" "slot_count d' = slot_count d"
    "\<exists>i. unat i < slot_count d \<and> rd_slot d' i = ?s \<and>
      (\<forall>j. unat j < slot_count d \<longrightarrow> j \<noteq> i \<longrightarrow> rd_slot d' j = rd_slot d j) \<and>
      (i = st_index_next (dv_st d) \<or> slot_live (rd_slot d i) \<and> sl_seg_id (rd_slot d i) = sl_seg_id inp)"
    "\<And>a k. dD d \<le> a \<Longrightarrow> dread (rw_data (dv_raw d')) a k = dread (rw_data (dv_raw d)) a k"
    "seal_sb (dv_sb d') = seal_sb (dv_sb d)" "dv_crypto d' = dv_crypto d" "dv_chunk_bytes d' = dv_chunk_bytes d"
    "dv_data_chunks d' = dv_data_chunks d" "dv_meta_base d' = dv_meta_base d" "st_chn (dv_st d') = st_chn (dv_st d)"
    by simp_all
qed

section \<open>The left end of the time line\<close>

lemma earliest_fold:
  "fold (earliest_step d) is (b, a) = (b', a') \<Longrightarrow>
     b' \<le> b \<and> (a' \<longleftrightarrow> a \<or> b' < b) \<and>
     (\<forall>i \<in> set is. sl_flags (slot_at d i) AND RSDK_SLOT_VALID \<noteq> 0 \<longrightarrow> b' \<le> sl_start_time (slot_at d i)) \<and>
     (b' < b \<longrightarrow> (\<exists>i \<in> set is. sl_flags (slot_at d i) AND RSDK_SLOT_VALID \<noteq> 0 \<and> b' = sl_start_time (slot_at d i)))"
proof (induction "is" arbitrary: b a)
  case Nil
  then show ?case by simp
next
  case (Cons i "is")
  show ?case
  proof (cases "sl_flags (slot_at d i) AND RSDK_SLOT_VALID \<noteq> 0 \<and> sl_start_time (slot_at d i) < b")
    case True
    then have "earliest_step d i (b, a) = (sl_start_time (slot_at d i), True)"
      by (simp add: earliest_step_def Let_def)
    then have "fold (earliest_step d) is (sl_start_time (slot_at d i), True) = (b', a')"
      using Cons.prems by simp
    from Cons.IH[OF this] True show ?thesis by (auto simp: order.order_iff_strict)
  next
    case False
    then have "earliest_step d i (b, a) = (b, a)"
      by (auto simp: earliest_step_def Let_def)
    then have "fold (earliest_step d) is (b, a) = (b', a')"
      using Cons.prems by simp
    from Cons.IH[OF this] False show ?thesis by (auto simp: not_less)
  qed
qed


lemma earliest_spec:
  shows "rsdk_index_earliest d = Inr t \<Longrightarrow>
      (\<exists>i < slot_count d. sl_flags (slot_at d i) AND RSDK_SLOT_VALID \<noteq> 0 \<and> sl_start_time (slot_at d i) = t) \<and>
      (\<forall>i < slot_count d. sl_flags (slot_at d i) AND RSDK_SLOT_VALID \<noteq> 0 \<longrightarrow> t \<le> sl_start_time (slot_at d i))"
    and "rsdk_index_earliest d = Inl e \<Longrightarrow> e = RSDK_E_NOTFOUND \<and>
      (\<forall>i < slot_count d. sl_flags (slot_at d i) AND RSDK_SLOT_VALID \<noteq> 0 \<longrightarrow> sl_start_time (slot_at d i) = 0xFFFFFFFF)"
proof -
  obtain b a where f: "fold (earliest_step d) [0..<slot_count d] (0xFFFFFFFF, False) = (b, a)" by fastforce
  note F = earliest_fold[OF f]
  have top: "x \<le> (0xFFFFFFFF :: u32)" for x
  proof -
    have "(0xFFFFFFFF :: u32) = - 1" by simp
    then show ?thesis by (simp only: word_n1_ge)
  qed
  show "rsdk_index_earliest d = Inr t \<Longrightarrow>
      (\<exists>i < slot_count d. sl_flags (slot_at d i) AND RSDK_SLOT_VALID \<noteq> 0 \<and> sl_start_time (slot_at d i) = t) \<and>
      (\<forall>i < slot_count d. sl_flags (slot_at d i) AND RSDK_SLOT_VALID \<noteq> 0 \<longrightarrow> t \<le> sl_start_time (slot_at d i))"
    using F by (auto simp: rsdk_index_earliest_def f split: if_splits)
  show "rsdk_index_earliest d = Inl e \<Longrightarrow> e = RSDK_E_NOTFOUND \<and>
      (\<forall>i < slot_count d. sl_flags (slot_at d i) AND RSDK_SLOT_VALID \<noteq> 0 \<longrightarrow> sl_start_time (slot_at d i) = 0xFFFFFFFF)"
  proof -
    assume "rsdk_index_earliest d = Inl e"
    then have "\<not> a" "e = RSDK_E_NOTFOUND" by (auto simp: rsdk_index_earliest_def f split: if_splits)
    moreover from this have "\<not> b < 0xFFFFFFFF" using F by blast
    then have "b = 0xFFFFFFFF" using top[of b] by (metis order.not_eq_order_implies_strict)
    ultimately show ?thesis using F top by (auto intro: order.antisym)
  qed
qed

section \<open>Properties\<close>

text \<open>C13: A query returns exactly the matching slots, by start time. Its result is a permutation of the
  first \<open>cap\<close> slots of the index that are valid and intact, whose recording (up to the end of the window when it is still
  running) meets the closed window, and that are of the channel and the type asked for, where a negative number
  means any; it is sorted by start time. An end of zero means no upper bound.\<close>

theorem index_query_exact:
  assumes "0 < cap" "T = (if t1 = 0 then 0xFFFFFFFF else t1)"
  shows "mset (rsdk_index_query d t0 t1 chn rt cap) =
      mset (take (nat cap) (filter (\<lambda>s.
          sl_flags s AND RSDK_SLOT_VALID \<noteq> 0 \<and> rsdk_crc32 (sl_encode (s\<lparr>sl_crc32 := 0\<rparr>)) = sl_crc32 s \<and>
          sl_start_time s \<le> T \<and> t0 \<le> (if sl_end_time s = 0xFFFFFFFF then T else sl_end_time s) \<and>
          (chn < 0 \<or> uint (sl_chn s) = chn) \<and> (rt < 0 \<or> uint (sl_rectype s) = rt))
        (map (slot_at d) [0..<slot_count d]))) \<and>
    sorted (map sl_start_time (rsdk_index_query d t0 t1 chn rt cap))"
  unfolding assms(2) slot_matches_iff[symmetric]
  using query_spec[OF assms(1)] by blast

lemma index_query_exact_witness:
  "sorted (map sl_start_time (rsdk_index_query (demo_disk 0) 0 0 (-1) (-1) 16))"
  using index_query_exact[of 16 "0xFFFFFFFF" 0 "demo_disk 0" 0 "-1" "-1"] by simp

text \<open>Writing a slot. On a disk that satisfies the invariant the write succeeds, the sealed slot is
  afterwards at exactly one position that was either the ring cursor or the live slot of the same segment,
  every other slot reads as before, the data area is untouched and the invariant is kept.\<close>

theorem index_write_one_slot:
  assumes "dev_ok d" "0 < slot_count d" "sl_wf inp"
  shows "\<exists>d'. rsdk_index_write d inp = (RSDK_OK, d') \<and> dev_ok d' \<and>
    (\<exists>i. unat i < slot_count d \<and> rd_slot d' i = seal_sl inp \<and>
      (\<forall>j. unat j < slot_count d \<longrightarrow> j \<noteq> i \<longrightarrow> rd_slot d' j = rd_slot d j) \<and>
      (i = st_index_next (dv_st d) \<or> slot_live (rd_slot d i) \<and> sl_seg_id (rd_slot d i) = sl_seg_id inp)) \<and>
    (\<forall>a k. dD d \<le> a \<longrightarrow> dread (rw_data (dv_raw d')) a k = dread (rw_data (dv_raw d)) a k)"
proof -
  obtain e d' where w: "rsdk_index_write d inp = (e, d')" by fastforce
  note I = index_write_spec[OF assms w]
  show ?thesis using w I(1,2,4,5) by (intro exI[of _ d']) blast
qed

definition demo_slot :: index_slot where
  "demo_slot = \<lparr>sl_seg_id = 0x03000001, sl_chn = 3, sl_rectype = 0, sl_flags = RSDK_SLOT_VALID, sl_start_time = 100,
     sl_end_time = 160, sl_frame_count = 25, sl_total_bytes = 100000, sl_start_disk = 0, sl_end_disk = 0,
     sl_start_chunk = 2, sl_start_off = 0, sl_end_chunk = 2, sl_end_off = 98304, sl_crc32 = 0, sl_pad = replicate 4 0\<rparr>"

lemma index_write_one_slot_witness:
  "\<exists>d' i. rsdk_index_write (demo_disk 0) demo_slot = (RSDK_OK, d') \<and> dev_ok d' \<and> rd_slot d' i = seal_sl demo_slot"
  using index_write_one_slot[OF demo_disk_ok[of 0], of demo_slot] by (auto simp: demo_slot_def sl_wf_def)

text \<open>Reclaiming a chunk. Every live slot of the chunk is voided and counted, no other slot changes,
  the data area is untouched, and no query returns a segment of that chunk any more.\<close>

theorem reclaim_chunk:
  assumes "dev_ok d" "rsdk_index_invalidate_chunk d chunk = (d', c)"
  shows "dev_ok d' \<and>
    (\<forall>j < slot_count d. slot_at d' j =
       (if slot_live (slot_at d j) \<and> sl_start_chunk (slot_at d j) = chunk
        then seal_sl ((slot_at d j)\<lparr>sl_flags := 0\<rparr>) else slot_at d j)) \<and>
    c = int (length (filter (\<lambda>i. slot_live (slot_at d i) \<and> sl_start_chunk (slot_at d i) = chunk) [0..<slot_count d])) \<and>
    (\<forall>t0 t1 chn rt cap. \<forall>s \<in> set (rsdk_index_query d' t0 t1 chn rt cap). sl_start_chunk s \<noteq> chunk) \<and>
    (\<forall>a n. dD d \<le> a \<longrightarrow> dread (rw_data (dv_raw d')) a n = dread (rw_data (dv_raw d)) a n)"
  using invalidate_spec[OF assms] invalidate_query[OF assms] invalidate_frame[OF assms(1), of chunk] assms(2)
  by (auto simp: same_but_index_def)

lemma reclaim_chunk_witness:
  "\<exists>d' c. rsdk_index_invalidate_chunk (snd (rsdk_index_write (demo_disk 0) demo_slot)) 2 = (d', c) \<and> dev_ok d' \<and>
     (\<forall>s \<in> set (rsdk_index_query d' 0 0 (-1) (-1) 64). sl_start_chunk s \<noteq> 2)"
proof -
  have wf: "sl_wf demo_slot" by (simp add: demo_slot_def sl_wf_def)
  have n: "0 < slot_count (demo_disk 0)" by simp
  obtain e d1 where w: "rsdk_index_write (demo_disk 0) demo_slot = (e, d1)" by fastforce
  obtain d' c where i: "rsdk_index_invalidate_chunk d1 2 = (d', c)" by fastforce
  show ?thesis using reclaim_chunk[OF index_write_spec(2)[OF demo_disk_ok n wf w] i] i w by auto
qed

text \<open>The left end of the time line. The earliest date is the least start time of the valid slots; not
  found means that no valid slot starts before the maximal time stamp.\<close>

theorem index_earliest_min:
  "case rsdk_index_earliest d of
     Inr t \<Rightarrow> (\<exists>i < slot_count d. sl_flags (slot_at d i) AND RSDK_SLOT_VALID \<noteq> 0 \<and> sl_start_time (slot_at d i) = t) \<and>
       (\<forall>i < slot_count d. sl_flags (slot_at d i) AND RSDK_SLOT_VALID \<noteq> 0 \<longrightarrow> t \<le> sl_start_time (slot_at d i))
   | Inl e \<Rightarrow> e = RSDK_E_NOTFOUND \<and>
       (\<forall>i < slot_count d. sl_flags (slot_at d i) AND RSDK_SLOT_VALID \<noteq> 0 \<longrightarrow> sl_start_time (slot_at d i) = 0xFFFFFFFF)"
  using earliest_spec[of d] by (auto split: sum.split)

lemma index_earliest_min_witness: "rsdk_index_earliest (demo_disk 0) \<in> {Inl RSDK_E_NOTFOUND} \<union> range Inr"
  using index_earliest_min[of "demo_disk 0"] by (cases "rsdk_index_earliest (demo_disk 0)") auto

end
