(* ===== verification/Rsdk_Group.thy ===== *)
theory Rsdk_Group
  imports Rsdk_Index
begin

text \<open>
  components/recorder/src/rsdk_balance.c, first half: opening a group of disks and choosing the disk of
  the next segment. The loads are C doubles: exact rationals through the rounding function \<open>fl\<close>.
  A pointer to a member disk is its index in the group.
\<close>

record rsdk_group =
  gr_devs :: "rsdk_dev list"
  gr_rr :: u32

definition dev_load :: "(rat \<Rightarrow> rat) \<Rightarrow> rsdk_dev \<Rightarrow> rat" where
  "dev_load fl d =
     (let sb = dv_sb d; cap = sb_chunk_count sb - sb_meta_chunk_count sb in
      if cap \<noteq> 0 then fl (fl (of_nat (unat (sb_write_ptr_chunk sb))) / fl (of_nat (unat cap))) else 1)"

fun group_open_loop :: "image_fs \<Rightarrow> string list \<Rightarrow> rsdk_dev list \<Rightarrow> rsdk_err + rsdk_dev list" where
  "group_open_loop fs [] devs = Inr devs"
| "group_open_loop fs (p # ps) devs =
     (case rsdk_dev_open fs p of Inl e \<Rightarrow> Inl e | Inr d \<Rightarrow> group_open_loop fs ps (devs @ [d]))"

definition rsdk_group_open :: "image_fs \<Rightarrow> string list \<Rightarrow> rsdk_err + rsdk_group" where
  "rsdk_group_open fs paths =
     (if paths = [] then Inl RSDK_E_PARAM
      else case group_open_loop fs paths [] of
             Inl e \<Rightarrow> Inl e
           | Inr devs \<Rightarrow> Inr \<lparr>gr_devs = devs, gr_rr = 0\<rparr>)"

definition rsdk_group_count :: "rsdk_group \<Rightarrow> nat" where
  "rsdk_group_count g = length (gr_devs g)"

definition rsdk_group_dev :: "rsdk_group \<Rightarrow> int \<Rightarrow> rsdk_dev option" where
  "rsdk_group_dev g i = (if 0 \<le> i \<and> i < int (length (gr_devs g)) then Some (gr_devs g ! nat i) else None)"

definition set_dev :: "rsdk_group \<Rightarrow> nat \<Rightarrow> rsdk_dev \<Rightarrow> rsdk_group" where
  "set_dev g i d = g\<lparr>gr_devs := (gr_devs g)[i := d]\<rparr>"

definition best_load :: "(rat \<Rightarrow> rat) \<Rightarrow> rsdk_dev list \<Rightarrow> rat" where
  "best_load fl devs = foldl (\<lambda>best d. let l = dev_load fl d in if l < best then l else best) 2 devs"

definition pick_candidates :: "(rat \<Rightarrow> rat) \<Rightarrow> rsdk_group \<Rightarrow> nat list" where
  "pick_candidates fl g =
     (let best = best_load fl (gr_devs g); eps = fl (1 / 100000) in
      take 64 (filter (\<lambda>i. dev_load fl (gr_devs g ! i) \<le> fl (best + eps)) [0..<length (gr_devs g)]))"

definition rsdk_balance_pick :: "(rat \<Rightarrow> rat) \<Rightarrow> rsdk_group \<Rightarrow> nat \<times> rsdk_group" where
  "rsdk_balance_pick fl g =
     (let cand = pick_candidates fl g
      in (cand ! (unat (gr_rr g) mod length cand), g\<lparr>gr_rr := gr_rr g + 1\<rparr>))"

section \<open>The choice\<close>

text \<open>IEEE-754 rounding, as far as the code relies on it.\<close>

definition rounding :: "(rat \<Rightarrow> rat) \<Rightarrow> bool" where
  "rounding fl \<longleftrightarrow> (\<forall>x y. x \<le> y \<longrightarrow> fl x \<le> fl y) \<and> (\<forall>n :: nat. n \<le> 2 ^ 53 \<longrightarrow> fl (of_nat n) = of_nat n) \<and>
     (\<forall>x. fl (fl x) = fl x)"

lemma rounding_id: "rounding (\<lambda>x. x)"
  by (simp add: rounding_def)

lemma rounding_0_1:
  assumes "rounding fl"
  shows "fl 0 = 0" "fl 1 = 1"
proof -
  have e: "fl (of_nat n) = of_nat n" if "n \<le> 2 ^ 53" for n :: nat using assms that by (simp add: rounding_def)
  show "fl 0 = 0" "fl 1 = 1" using e[of 0] e[of 1] by simp_all
qed

lemma set_dev_simps [simp]:
  "length (gr_devs (set_dev g i d)) = length (gr_devs g)" "gr_rr (set_dev g i d) = gr_rr g"
  "i < length (gr_devs g) \<Longrightarrow> gr_devs (set_dev g i d) ! i = d"
  "i \<noteq> j \<Longrightarrow> gr_devs (set_dev g i d) ! j = gr_devs g ! j"
  by (simp_all add: set_dev_def)

lemma group_open_loop_ok:
  "group_open_loop fs ps devs = Inr devs' \<Longrightarrow>
     length devs' = length devs + length ps \<and> take (length devs) devs' = devs \<and>
     (\<forall>i < length ps. rsdk_dev_open fs (ps ! i) = Inr (devs' ! (length devs + i)))"
proof (induction ps arbitrary: devs)
  case Nil
  then show ?case by simp
next
  case (Cons p ps)
  obtain d where d: "rsdk_dev_open fs p = Inr d" "group_open_loop fs ps (devs @ [d]) = Inr devs'"
    using Cons.prems by (auto split: sum.splits)
  note IH = Cons.IH[OF d(2)]
  have t: "take (Suc (length devs)) devs' = devs @ [d]" using IH by simp
  then have "take (length devs) devs' = devs" by (metis append_eq_conv_conj butlast_snoc butlast_take diff_Suc_1 IH length_append_singleton le_add1)
  moreover have "devs' ! length devs = d" using t IH
    by (metis Suc_le_lessD length_append_singleton lessI nth_append_length nth_take)
  ultimately show ?case
    using IH d(1) by (auto simp: nth_Cons split: nat.splits)
qed

lemma foldl_best:
  "foldl (\<lambda>best d. let l = dev_load fl d in if l < best then l else best) b ds \<le> b \<and>
   (\<forall>d \<in> set ds. foldl (\<lambda>best d. let l = dev_load fl d in if l < best then l else best) b ds \<le> dev_load fl d) \<and>
   (foldl (\<lambda>best d. let l = dev_load fl d in if l < best then l else best) b ds = b \<or>
    (\<exists>d \<in> set ds. foldl (\<lambda>best d. let l = dev_load fl d in if l < best then l else best) b ds = dev_load fl d))"
proof (induction ds arbitrary: b)
  case Nil
  then show ?case by simp
next
  case (Cons d ds)
  define f where "f = (\<lambda>best d. let l = dev_load fl d in if l < best then l else best)"
  define b' where "b' = f b d"
  have b': "b' \<le> b" "b' \<le> dev_load fl d" "b' = b \<or> b' = dev_load fl d"
    by (auto simp: b'_def f_def Let_def)
  note IH = Cons.IH[of b', folded f_def]
  have "foldl f b (d # ds) = foldl f b' ds" by (simp add: b'_def)
  then show ?case unfolding f_def[symmetric] using IH b' by fastforce
qed

lemma load_le_1:
  assumes "rounding fl" "dev_ok d"
  shows "0 \<le> dev_load fl d" "dev_load fl d \<le> 1"
proof -
  have mono: "x \<le> y \<Longrightarrow> fl x \<le> fl y" for x y using assms(1) by (simp add: rounding_def)
  have e: "\<And>n :: nat. n \<le> 2 ^ 53 \<Longrightarrow> fl (of_nat n) = of_nat n" using assms(1) by (simp add: rounding_def)
  have one: "fl 1 = 1" "fl 0 = 0" using e[of 1] e[of 0] by simp_all
  define w where "w = unat (sb_write_ptr_chunk (dv_sb d))"
  have cap: "dv_data_chunks d = sb_chunk_count (dv_sb d) - sb_meta_chunk_count (dv_sb d)"
    using assms(2) by (simp add: dev_ok_def geom_ok_def)
  have w: "w \<le> dN d" using assms(2) by (simp add: dev_ok_def ring_ok_def w_def)
  have "(of_nat w :: rat) \<le> of_nat (dN d)" using w by (simp only: of_nat_le_iff)
  then have m: "fl (of_nat w) \<le> fl (of_nat (dN d))" by (rule mono)
  have "(0 :: rat) \<le> of_nat w" by simp
  from mono[OF this] have z: "0 \<le> fl (of_nat w)" using one by simp
  have "fl (of_nat w) / fl (of_nat (dN d)) \<le> 1" "0 \<le> fl (of_nat w) / fl (of_nat (dN d))"
    using m z by (cases "fl (of_nat (dN d)) = 0"; simp add: divide_le_eq)+
  then have "fl (fl (of_nat w) / fl (of_nat (dN d))) \<le> 1" "0 \<le> fl (fl (of_nat w) / fl (of_nat (dN d)))"
    using mono one by metis+
  then show "0 \<le> dev_load fl d" "dev_load fl d \<le> 1"
    unfolding dev_load_def Let_def cap[symmetric] w_def by simp_all
qed

lemma best_load_spec:
  assumes "rounding fl" "\<And>d. d \<in> set devs \<Longrightarrow> dev_ok d" "devs \<noteq> []"
  shows "\<exists>d \<in> set devs. best_load fl devs = dev_load fl d" "\<And>d. d \<in> set devs \<Longrightarrow> best_load fl devs \<le> dev_load fl d"
proof -
  note F = foldl_best[of fl 2 devs, folded best_load_def]
  show le: "best_load fl devs \<le> dev_load fl d" if "d \<in> set devs" for d using F that by blast
  have "best_load fl devs \<noteq> 2"
  proof
    assume two: "best_load fl devs = 2"
    obtain d where d: "d \<in> set devs" using assms(3) by (cases devs) auto
    show False using le[OF d] load_le_1(2)[OF assms(1) assms(2)[OF d]] two by simp
  qed
  then show "\<exists>d \<in> set devs. best_load fl devs = dev_load fl d" using F by blast
qed

text \<open>The chosen disk is in the group, no disk is less loaded by more than the threshold, and the
  counter advances so that equally loaded disks take turns.\<close>

lemma pick_spec:
  assumes fl: "rounding fl" and ok: "\<And>d. d \<in> set (gr_devs g) \<Longrightarrow> dev_ok d" and ne: "gr_devs g \<noteq> []"
    and p: "rsdk_balance_pick fl g = (i, g')"
  shows "i < length (gr_devs g)"
    and "d \<in> set (gr_devs g) \<Longrightarrow> dev_load fl (gr_devs g ! i) \<le> fl (dev_load fl d + fl (1 / 100000))"
    and "gr_devs g' = gr_devs g" "gr_rr g' = gr_rr g + 1"
    and "i = pick_candidates fl g ! (unat (gr_rr g) mod length (pick_candidates fl g))"
    and "pick_candidates fl g \<noteq> []"
proof -
  have okD: "d \<in> set (gr_devs g) \<Longrightarrow> dev_ok d" for d by (rule ok)
  note B = best_load_spec[OF fl okD ne]
  have mono: "x \<le> y \<Longrightarrow> fl x \<le> fl y" for x y using fl by (simp add: rounding_def)
  have fi: "fl (fl x) = fl x" for x using fl by (simp add: rounding_def)
  obtain k where k: "k < length (gr_devs g)" "best_load fl (gr_devs g) = dev_load fl (gr_devs g ! k)"
    using B(1) by (metis in_set_conv_nth)
  have "dev_load fl (gr_devs g ! k) \<le> fl (best_load fl (gr_devs g) + fl (1 / 100000))"
  proof -
    have "0 \<le> fl (1 / 100000)" using mono[of 0 "1 / 100000"] rounding_0_1[OF fl] by simp
    then have "dev_load fl (gr_devs g ! k) \<le> best_load fl (gr_devs g) + fl (1 / 100000)" using k(2) by simp
    moreover have "fl (dev_load fl (gr_devs g ! k)) = dev_load fl (gr_devs g ! k)"
      using rounding_0_1[OF fl] fi by (simp add: dev_load_def Let_def)
    ultimately show ?thesis using mono by metis
  qed
  then show ne': "pick_candidates fl g \<noteq> []"
    using k(1) by (auto simp: pick_candidates_def Let_def filter_empty_conv)
  have i: "i = pick_candidates fl g ! (unat (gr_rr g) mod length (pick_candidates fl g))"
    "g' = g\<lparr>gr_rr := gr_rr g + 1\<rparr>"
    using p by (auto simp: rsdk_balance_pick_def Let_def)
  then show "i = pick_candidates fl g ! (unat (gr_rr g) mod length (pick_candidates fl g))" by simp
  have "i \<in> set (pick_candidates fl g)" using ne' i(1) by simp
  then have ic: "i < length (gr_devs g)" "dev_load fl (gr_devs g ! i) \<le> fl (best_load fl (gr_devs g) + fl (1 / 100000))"
    by (auto simp: pick_candidates_def Let_def dest: in_set_takeD)
  then show "i < length (gr_devs g)" by simp
  show "dev_load fl (gr_devs g ! i) \<le> fl (dev_load fl d + fl (1 / 100000))" if d: "d \<in> set (gr_devs g)"
    using ic(2) B(2)[OF _ d] mono by (meson add_right_mono order_trans)
  show "gr_devs g' = gr_devs g" "gr_rr g' = gr_rr g + 1" using i by simp_all
qed

section \<open>Properties\<close>

text \<open>Load balancing. The pick returns a member of the group whose load exceeds that of no member
  by more than the tie threshold; among the tied disks it is the one the round-robin counter points at, and the counter
  advances. Loads are IEEE quotients, rounded by \<open>fl\<close>.\<close>

theorem balance_picks_least_loaded:
  assumes "rounding fl" "\<And>d. d \<in> set (gr_devs g) \<Longrightarrow> dev_ok d" "gr_devs g \<noteq> []"
    and "rsdk_balance_pick fl g = (i, g')"
  shows "i < length (gr_devs g) \<and>
    (\<forall>d \<in> set (gr_devs g). dev_load fl (gr_devs g ! i) \<le> fl (dev_load fl d + fl (1 / 100000))) \<and>
    gr_devs g' = gr_devs g \<and> gr_rr g' = gr_rr g + 1 \<and>
    i = pick_candidates fl g ! (unat (gr_rr g) mod length (pick_candidates fl g))"
  using pick_spec[OF assms] by blast

definition demo_group :: rsdk_group where
  "demo_group = \<lparr>gr_devs = [demo_disk 0, demo_disk 1], gr_rr = 0\<rparr>"

lemma balance_picks_least_loaded_witness: "fst (rsdk_balance_pick (\<lambda>x. x) demo_group) < 2"
proof -
  have ok: "d \<in> set (gr_devs demo_group) \<Longrightarrow> dev_ok d" for d using demo_disk_ok by (auto simp: demo_group_def)
  have ne: "gr_devs demo_group \<noteq> []" "length (gr_devs demo_group) = 2" by (simp_all add: demo_group_def)
  show ?thesis
    using balance_picks_least_loaded[OF rounding_id ok ne(1) prod.collapse[symmetric]] ne(2) by simp
qed

end
