(* ===== verification/Rsdk_Rec.thy ===== *)
theory Rsdk_Rec
  imports Rsdk_Group
begin

text \<open>
  components/recorder/src/rsdk_rec.c: the segment writer. \<open>struct rsdk_writer\<close> is the record \<open>rsdk_writer\<close>;
  the device pointer is an index into the disks of a group (a writer on one disk works on a group
  of one and never picks). Each operation takes and returns the group and the writer. A call of the reclaim
  callback is recorded in \<open>wr_reclaimed\<close>, and the payload staging buffer has no counterpart.
\<close>

section \<open>The writer\<close>

record rsdk_writer =
  wr_d :: nat
  wr_group :: bool
  wr_chn :: int
  wr_rectype :: int
  wr_seg_id :: u32
  wr_chunk :: u64
  wr_base_off :: u64
  wr_cur_off :: u32
  wr_frame_seq :: u32
  wr_frame_count :: u32
  wr_total_bytes :: u64
  wr_start_time :: u32
  wr_last_time :: u32
  wr_end_off :: u32
  wr_open_written :: bool
  wr_reclaim :: bool
  wr_reclaimed :: "(u16 \<times> u64) list"

definition writer0 :: rsdk_writer where
  "writer0 = \<lparr>wr_d = 0, wr_group = False, wr_chn = 0, wr_rectype = 0, wr_seg_id = 0, wr_chunk = 0,
     wr_base_off = 0, wr_cur_off = 0, wr_frame_seq = 0, wr_frame_count = 0, wr_total_bytes = 0,
     wr_start_time = 0, wr_last_time = 0, wr_end_off = 0, wr_open_written = False, wr_reclaim = False,
     wr_reclaimed = []\<rparr>"

definition rsdk_rec_set_reclaim :: "rsdk_writer \<Rightarrow> bool \<Rightarrow> rsdk_writer" where
  "rsdk_rec_set_reclaim w cb = w\<lparr>wr_reclaim := cb\<rparr>"

definition next_seg_id :: "rsdk_dev \<Rightarrow> int \<Rightarrow> u32 \<times> rsdk_dev" where
  "next_seg_id d chn =
     (let st = dv_st d; k = nat (chn AND 31); c = st_chn st ! k;
          seq = cc_seg_seq c + 1
      in (push_bit 24 (word_of_int (chn AND 0xFF)) OR (seq AND 0x00FFFFFF),
          d\<lparr>dv_st := st\<lparr>st_chn := (st_chn st)[k := c\<lparr>cc_seg_seq := seq\<rparr>]\<rparr>\<rparr>))"

definition start_seg ::
  "(rat \<Rightarrow> rat) \<Rightarrow> rsdk_group \<Rightarrow> rsdk_writer \<Rightarrow> rsdk_err \<times> rsdk_group \<times> rsdk_writer" where
  "start_seg fl g w =
     (let (g, w) = (if wr_group w then (let (i, g) = rsdk_balance_pick fl g in (g, w\<lparr>wr_d := i\<rparr>)) else (g, w));
          i = wr_d w in
      case rsdk_dev_alloc_chunk (gr_devs g ! i) of
        (Inl e, d) \<Rightarrow> (e, g, w)
      | (Inr (chunk, off), d) \<Rightarrow>
         (let (d, w) =
                (if rsdk_dev_is_wrapped d
                 then (fst (rsdk_index_invalidate_chunk d chunk),
                       if wr_reclaim w then w\<lparr>wr_reclaimed := wr_reclaimed w @ [(rsdk_dev_index d, chunk)]\<rparr> else w)
                 else (d, w));
              (seg, d) = next_seg_id d (wr_chn w)
          in (RSDK_OK, set_dev g i d,
              w\<lparr>wr_chunk := chunk, wr_base_off := off, wr_cur_off := 0, wr_seg_id := seg,
                wr_frame_seq := 0, wr_frame_count := 0, wr_total_bytes := 0, wr_start_time := 0,
                wr_last_time := 0, wr_end_off := 0, wr_open_written := False\<rparr>)))"

definition fill_slot :: "rsdk_group \<Rightarrow> rsdk_writer \<Rightarrow> bool \<Rightarrow> index_slot" where
  "fill_slot g w fin =
     (let disk = sb_group_disk_index (dv_sb (gr_devs g ! wr_d w));
          flags = (if fin then RSDK_SLOT_VALID else RSDK_SLOT_OPEN)
      in \<lparr>sl_seg_id = wr_seg_id w, sl_chn = word_of_int (wr_chn w), sl_rectype = word_of_int (wr_rectype w),
          sl_flags = (if wr_rectype w \<noteq> RSDK_REC_CONTINUOUS then flags OR RSDK_SLOT_EVENT else flags),
          sl_start_time = wr_start_time w, sl_end_time = (if fin then wr_last_time w else 0xFFFFFFFF),
          sl_frame_count = wr_frame_count w, sl_total_bytes = wr_total_bytes w,
          sl_start_disk = disk, sl_end_disk = disk, sl_start_chunk = wr_chunk w, sl_start_off = 0,
          sl_end_chunk = wr_chunk w, sl_end_off = wr_end_off w, sl_crc32 = 0, sl_pad = replicate 4 0\<rparr>)"

definition finalize_seg :: "rsdk_group \<Rightarrow> rsdk_writer \<Rightarrow> rsdk_err \<times> rsdk_group" where
  "finalize_seg g w =
     (if wr_frame_count w = 0 then (RSDK_OK, g)
      else let (e, d) = rsdk_index_write (gr_devs g ! wr_d w) (fill_slot g w True) in (e, set_dev g (wr_d w) d))"

definition rsdk_rec_open ::
  "(rat \<Rightarrow> rat) \<Rightarrow> rsdk_group \<Rightarrow> nat \<Rightarrow> int \<Rightarrow> int \<Rightarrow> (rsdk_err + rsdk_writer) \<times> rsdk_group" where
  "rsdk_rec_open fl g i chn rectype =
     (case start_seg fl g (writer0\<lparr>wr_d := i, wr_chn := chn, wr_rectype := rectype\<rparr>) of
        (e, g, w) \<Rightarrow> (if e \<noteq> RSDK_OK then Inl e else Inr w, g))"

definition rsdk_rec_open_group ::
  "(rat \<Rightarrow> rat) \<Rightarrow> rsdk_group \<Rightarrow> int \<Rightarrow> int \<Rightarrow> (rsdk_err + rsdk_writer) \<times> rsdk_group" where
  "rsdk_rec_open_group fl g chn rectype =
     (case start_seg fl g (writer0\<lparr>wr_group := True, wr_chn := chn, wr_rectype := rectype\<rparr>) of
        (e, g, w) \<Rightarrow> (if e \<noteq> RSDK_OK then Inl e else Inr w, g))"

definition rsdk_rec_seg_id :: "rsdk_writer \<Rightarrow> u32" where
  "rsdk_rec_seg_id w = wr_seg_id w"

definition rsdk_rec_cur_chunk :: "rsdk_writer \<Rightarrow> u64" where
  "rsdk_rec_cur_chunk w = wr_chunk w"

section \<open>Writing a frame\<close>

text \<open>\<open>rsdk_rec_write_frame\<close> in the three stretches of the C body: make room, open the segment's
  slot, put the frame.\<close>

definition frame_len :: "rsdk_frame \<Rightarrow> u32" where
  "frame_len f = of_nat (length (fr_data f))"

definition frame_need :: "rsdk_frame \<Rightarrow> u32" where
  "frame_need f = ucast (rsdk_align_up (ucast (64 + frame_len f)) RSDK_FRAME_ALIGN)"

definition make_room ::
  "(rat \<Rightarrow> rat) \<Rightarrow> rsdk_group \<Rightarrow> rsdk_writer \<Rightarrow> rsdk_frame \<Rightarrow> rsdk_err \<times> rsdk_group \<times> rsdk_writer" where
  "make_room fl g w f =
     (let chunk_bytes = sb_chunk_sectors (dv_sb (gr_devs g ! wr_d w)) * RSDK_SEC in
      if wr_frame_count w > 0 \<and> ucast (wr_cur_off w + frame_need f) > chunk_bytes
      then (case finalize_seg g w of
              (e, g) \<Rightarrow> if e \<noteq> RSDK_OK then (e, g, w) else start_seg fl g w)
      else (RSDK_OK, g, w))"

definition open_slot :: "rsdk_group \<Rightarrow> rsdk_writer \<Rightarrow> rsdk_frame \<Rightarrow> rsdk_group \<times> rsdk_writer" where
  "open_slot g w f =
     (if wr_frame_count w = 0
      then let w = w\<lparr>wr_start_time := ucast (fr_wall_time f)\<rparr>;
               (e, d) = rsdk_index_write (gr_devs g ! wr_d w) (fill_slot g w False)
           in (set_dev g (wr_d w) d, w\<lparr>wr_open_written := True\<rparr>)
      else (g, w))"

definition frame_header :: "u32 \<Rightarrow> u32 \<Rightarrow> rsdk_frame \<Rightarrow> bool \<Rightarrow> frame_hdr" where
  "frame_header seg seq f enc =
     (let h = \<lparr>fh_magic = RSDK_FRAME_MAGIC, fh_chn = fr_chn f, fh_stream = fr_stream f, fh_codec = fr_codec f,
               fh_frame_type = fr_frame_type f, fh_enc = (if enc then 1 else 0), fh_rsv0 = 0,
               fh_payload_len = frame_len f, fh_seg_id = seg, fh_frame_seq = seq,
               fh_pts = fr_pts f, fh_wall_time = fr_wall_time f,
               fh_iv_nonce = map (\<lambda>i. ucast (drop_bit ((i mod 4) * 8) seq)) [0..<8],
               fh_hdr_crc32 = 0, fh_rsvh = replicate 8 0\<rparr>
      in h\<lparr>fh_hdr_crc32 := rsdk_crc32 (fh_encode h)\<rparr>)"

definition put_frame :: "rsdk_dev \<Rightarrow> rsdk_writer \<Rightarrow> rsdk_frame \<Rightarrow> rsdk_dev \<times> rsdk_writer" where
  "put_frame d w f =
     (let (payload, enc) = (case dv_crypto d of
            Some cr \<Rightarrow> (rsdk_crypto_xcrypt cr (wr_seg_id w) (wr_frame_seq w) 0 (fr_data f), True)
          | None \<Rightarrow> (fr_data f, False));
          off = wr_base_off w + ucast (wr_cur_off w);
          raw = rsdk_rawdev_pwrite (dv_raw d) off (fh_encode (frame_header (wr_seg_id w) (wr_frame_seq w) f enc));
          raw = rsdk_rawdev_pwrite raw (off + 64) payload
      in (d\<lparr>dv_raw := raw\<rparr>,
          w\<lparr>wr_end_off := wr_cur_off w, wr_cur_off := wr_cur_off w + frame_need f,
            wr_last_time := ucast (fr_wall_time f), wr_frame_seq := wr_frame_seq w + 1,
            wr_frame_count := wr_frame_count w + 1, wr_total_bytes := wr_total_bytes w + ucast (frame_len f)\<rparr>))"

definition rsdk_rec_write_frame ::
  "(rat \<Rightarrow> rat) \<Rightarrow> rsdk_group \<Rightarrow> rsdk_writer \<Rightarrow> rsdk_frame \<Rightarrow> rsdk_err \<times> rsdk_group \<times> rsdk_writer" where
  "rsdk_rec_write_frame fl g w f =
     (if frame_len f = 0 then (RSDK_E_PARAM, g, w)
      else if 64 + ucast (frame_len f) > sb_chunk_sectors (dv_sb (gr_devs g ! wr_d w)) * RSDK_SEC
      then (RSDK_E_NOSPACE, g, w)
      else case make_room fl g w f of
        (e, g, w) \<Rightarrow>
          if e \<noteq> RSDK_OK then (e, g, w)
          else
            let (g, w) = open_slot g w f;
                (d, w') = put_frame (gr_devs g ! wr_d w) w f
            in (RSDK_OK, set_dev g (wr_d w) d, w'))"

section \<open>Changing the type, closing\<close>

definition rsdk_rec_change_type ::
  "(rat \<Rightarrow> rat) \<Rightarrow> rsdk_group \<Rightarrow> rsdk_writer \<Rightarrow> int \<Rightarrow> rsdk_err \<times> rsdk_group \<times> rsdk_writer" where
  "rsdk_rec_change_type fl g w rectype =
     (case finalize_seg g w of
        (e, g) \<Rightarrow> if e \<noteq> RSDK_OK then (e, g, w) else start_seg fl g (w\<lparr>wr_rectype := rectype\<rparr>))"

definition rsdk_rec_close :: "rsdk_group \<Rightarrow> rsdk_writer \<Rightarrow> rsdk_err \<times> rsdk_group" where
  "rsdk_rec_close g w =
     (case finalize_seg g w of
        (e, g) \<Rightarrow>
          (e, if wr_group w then g\<lparr>gr_devs := map rsdk_dev_flush (gr_devs g)\<rparr>
              else set_dev g (wr_d w) (rsdk_dev_flush (gr_devs g ! wr_d w))))"

end
