(* ===== verification/Rsdk_Play.thy ===== *)
theory Rsdk_Play
  imports Rsdk_Rec
begin

text \<open>
  components/recorder/src/rsdk_play.c: walking the frames of one segment. A frame whose header is
  damaged ends the walk. The seek loop advances by a 32-bit offset that a crafted header can turn
  back, so it is a partial function; on what the writer produces it ends (\<open>seek_loop_ends\<close>).
\<close>

record rsdk_player =
  pl_d :: rsdk_dev
  pl_seg :: index_slot
  pl_base_off :: u64
  pl_chunk_bytes :: u64
  pl_cur_off :: u32
  pl_end_off :: u32

definition rsdk_play_open :: "rsdk_dev \<Rightarrow> index_slot \<Rightarrow> rsdk_player" where
  "rsdk_play_open d seg =
     (let chunk_bytes = sb_chunk_sectors (dv_sb d) * RSDK_SEC
      in \<lparr>pl_d = d, pl_seg = seg,
          pl_base_off = sb_data_start_sec (dv_sb d) * RSDK_SEC + sl_start_chunk seg * chunk_bytes,
          pl_chunk_bytes = chunk_bytes, pl_cur_off = sl_start_off seg, pl_end_off = sl_end_off seg\<rparr>)"

definition read_hdr :: "rsdk_player \<Rightarrow> u32 \<Rightarrow> rsdk_err + frame_hdr" where
  "read_hdr p off =
     (let h = fh_decode (rsdk_rawdev_pread (dv_raw (pl_d p)) (pl_base_off p + ucast off) 64) in
      if fh_magic h \<noteq> RSDK_FRAME_MAGIC then Inl RSDK_E_NOTFOUND
      else if rsdk_crc32 (fh_encode (h\<lparr>fh_hdr_crc32 := 0\<rparr>)) \<noteq> fh_hdr_crc32 h then Inl RSDK_E_CORRUPT
      else Inr h)"

text \<open>The offset of the frame after one at \<open>off\<close>; the sum is taken in 32 bits before it is widened.\<close>

definition next_off :: "u32 \<Rightarrow> u32 \<Rightarrow> u32" where
  "next_off off len = ucast (rsdk_align_up (ucast (off + 64 + len)) RSDK_FRAME_ALIGN)"

partial_function (option) seek_loop :: "rsdk_player \<Rightarrow> u64 \<Rightarrow> u32 \<Rightarrow> u32 \<Rightarrow> u32 option" where
  "seek_loop p pts off best =
     (if off \<le> pl_end_off p
      then (case read_hdr p off of
              Inl e \<Rightarrow> Some best
            | Inr h \<Rightarrow> if fh_pts h \<le> pts then seek_loop p pts (next_off off (fh_payload_len h)) off else Some best)
      else Some best)"

definition rsdk_play_seek_pts :: "rsdk_player \<Rightarrow> u64 \<Rightarrow> rsdk_player option" where
  "rsdk_play_seek_pts p pts =
     (case seek_loop p pts (sl_start_off (pl_seg p)) (sl_start_off (pl_seg p)) of
        None \<Rightarrow> None
      | Some best \<Rightarrow> Some (p\<lparr>pl_cur_off := best\<rparr>))"

definition rsdk_play_next_frame :: "rsdk_player \<Rightarrow> (rsdk_err + (frame_hdr \<times> bytes)) \<times> rsdk_player" where
  "rsdk_play_next_frame p =
     (if pl_cur_off p > pl_end_off p then (Inl RSDK_E_NOTFOUND, p)
      else case read_hdr p (pl_cur_off p) of
        Inl e \<Rightarrow> (Inl e, p)
      | Inr h \<Rightarrow>
         (let raw = rsdk_rawdev_pread (dv_raw (pl_d p)) (pl_base_off p + ucast (pl_cur_off p) + 64) (unat (fh_payload_len h));
              p' = p\<lparr>pl_cur_off := next_off (pl_cur_off p) (fh_payload_len h)\<rparr> in
          if fh_enc h \<noteq> 0
          then (case dv_crypto (pl_d p) of
                  None \<Rightarrow> (Inl RSDK_E_CRYPTO, p)
                | Some cr \<Rightarrow> (Inr (h, rsdk_crypto_xcrypt cr (fh_seg_id h) (fh_frame_seq h) 0 raw), p'))
          else (Inr (h, raw), p')))"

text \<open>Everything a player delivers until it stops, for at most \<open>n\<close> calls.\<close>

fun play_all :: "nat \<Rightarrow> rsdk_player \<Rightarrow> (frame_hdr \<times> bytes) list" where
  "play_all 0 p = []"
| "play_all (Suc n) p =
     (case rsdk_play_next_frame p of
        (Inl e, p') \<Rightarrow> []
      | (Inr x, p') \<Rightarrow> x # play_all n p')"

section \<open>Frames on the medium\<close>

definition need_nat :: "rsdk_frame \<Rightarrow> nat" where
  "need_nat f = (64 + length (fr_data f) + 127) div 128 * 128"

text \<open>The offset of frame \<open>k\<close> in its segment.\<close>

definition offs :: "rsdk_frame list \<Rightarrow> nat \<Rightarrow> nat" where
  "offs fs k = sum_list (map need_nat (take k fs))"

text \<open>A frame the writer accepts on a disk with chunks of \<open>C\<close> bytes.\<close>

definition frame_ok :: "nat \<Rightarrow> rsdk_frame \<Rightarrow> bool" where
  "frame_ok C f \<longleftrightarrow> 0 < length (fr_data f) \<and> 64 + length (fr_data f) \<le> C"

definition stored_payload :: "rsdk_crypto option \<Rightarrow> u32 \<Rightarrow> u32 \<Rightarrow> bytes \<Rightarrow> bytes" where
  "stored_payload cr seg seq data = (case cr of Some c \<Rightarrow> rsdk_crypto_xcrypt c seg seq 0 data | None \<Rightarrow> data)"

definition frame_at :: "store \<Rightarrow> rsdk_crypto option \<Rightarrow> u32 \<Rightarrow> nat \<Rightarrow> nat \<Rightarrow> rsdk_frame \<Rightarrow> bool" where
  "frame_at m cr seg pos k f \<longleftrightarrow>
     dread m pos 64 = fh_encode (frame_header seg (of_nat k) f (cr \<noteq> None)) \<and>
     dread m (pos + 64) (length (fr_data f)) = stored_payload cr seg (of_nat k) (fr_data f)"

definition seg_laid :: "store \<Rightarrow> rsdk_crypto option \<Rightarrow> u32 \<Rightarrow> nat \<Rightarrow> rsdk_frame list \<Rightarrow> bool" where
  "seg_laid m cr seg base fs \<longleftrightarrow> (\<forall>k < length fs. frame_at m cr seg (base + offs fs k) k (fs ! k))"

lemma length_stored_payload [simp]: "length (stored_payload cr seg seq data) = length data"
  by (simp add: stored_payload_def split: option.splits)

lemma offs_0 [simp]: "offs fs 0 = 0"
  by (simp add: offs_def)

lemma offs_Suc: "k < length fs \<Longrightarrow> offs fs (Suc k) = offs fs k + need_nat (fs ! k)"
  by (simp add: offs_def take_Suc_conv_app_nth)

lemma offs_append: "k \<le> length fs \<Longrightarrow> offs (fs @ gs) k = offs fs k"
  by (simp add: offs_def)

lemma offs_snoc: "offs (fs @ [f]) (Suc (length fs)) = offs fs (length fs) + need_nat f"
  by (simp add: offs_def)

lemma offs_mono: "i \<le> j \<Longrightarrow> offs fs i \<le> offs fs j"
proof (induction j)
  case (Suc j)
  show ?case
  proof (cases "i = Suc j")
    case False
    then have "offs fs i \<le> offs fs j" using Suc by simp
    also have "\<dots> \<le> offs fs (Suc j)"
      by (cases "j < length fs") (simp add: offs_Suc, simp add: offs_def)
    finally show ?thesis .
  qed simp
qed simp

lemma need_nat_bounds: "64 + length (fr_data f) \<le> need_nat f" "128 \<le> need_nat f" "128 dvd need_nat f"
proof -
  show a: "64 + length (fr_data f) \<le> need_nat f"
    using align_nat_ge[of 128 "64 + length (fr_data f)"] by (simp add: need_nat_def)
  show d: "128 dvd need_nat f" by (simp add: need_nat_def)
  then show "128 \<le> need_nat f" using a by (intro dvd_imp_le) auto
qed

lemma need_nat_le: "128 dvd C \<Longrightarrow> frame_ok C f \<Longrightarrow> need_nat f \<le> C"
  using align_nat_least[of 128 "64 + length (fr_data f)" "C div 128"] by (simp add: need_nat_def frame_ok_def)

lemma offs_dvd: "128 dvd offs fs k"
  unfolding offs_def by (induction fs arbitrary: k) (auto simp: take_Cons need_nat_bounds split: nat.splits)

lemma frame_len_nat: "frame_ok C f \<Longrightarrow> C < 2 ^ 31 \<Longrightarrow> unat (frame_len f) = length (fr_data f)"
  unfolding frame_len_def by (rule unat_of_nat_small) (simp add: frame_ok_def)

lemma align_off_nat:
  assumes "128 dvd off" "off + need_nat f \<le> 2 ^ 31" "unat o32 = off" "unat l32 = length (fr_data f)"
  shows "unat (next_off o32 l32) = off + need_nat f"
proof -
  let ?l = "length (fr_data f)"
  have b: "off + 64 + ?l < 2 ^ 32" using need_nat_bounds(1)[of f] assms(2) by simp
  have s: "unat (o32 + 64 + l32) = off + 64 + ?l"
    using b assms(3,4) by (simp add: unat_add_nowrap)
  obtain q where q: "off = q * 128" using assms(1) by (metis dvd_def mult.commute)
  have "(off + 64 + ?l + 128 - 1) div 128 * 128 = off + need_nat f"
  proof -
    have e: "off + 64 + ?l + 128 - 1 = (64 + ?l + 127) + q * 128" using q by simp
    show ?thesis unfolding e need_nat_def by (subst div_mult_self1) (simp_all add: q algebra_simps)
  qed
  then have al: "unat (rsdk_align_up (ucast (o32 + 64 + l32)) RSDK_FRAME_ALIGN) = off + need_nat f"
    using s b by (subst align_up_nat) (simp_all add: RSDK_FRAME_ALIGN_def)
  have "unat (ucast x :: u32) = unat x" if "unat x < 2 ^ 32" for x :: u64
    using that by (simp add: unsigned_ucast_eq take_bit_nat_eq_self)
  then show ?thesis unfolding next_off_def using al assms(2) by simp
qed

lemma frame_need_nat:
  assumes "frame_ok C f" "C < 2 ^ 31" "128 dvd C"
  shows "unat (frame_need f) = need_nat f"
proof -
  have "next_off 0 (frame_len f) = frame_need f" by (simp add: next_off_def frame_need_def)
  then show ?thesis
    using align_off_nat[of 0 f 0 "frame_len f"] frame_len_nat[OF assms(1,2)] need_nat_le[OF assms(3,1)] assms(2)
    by simp
qed

lemma length_frame_magic [simp]: "length RSDK_FRAME_MAGIC = 8"
  by (simp add: RSDK_FRAME_MAGIC_def)

lemma frame_header_wf: "fh_wf (frame_header seg seq f enc)"
  by (simp add: frame_header_def fh_wf_def Let_def)

lemma length_frame_header [simp]: "length (fh_encode (frame_header seg seq f enc)) = 64"
  by (rule fh_encode_length[OF frame_header_wf])

lemma frame_header_fields [simp]:
  "fh_magic (frame_header seg seq f enc) = RSDK_FRAME_MAGIC" "fh_payload_len (frame_header seg seq f enc) = frame_len f"
  "fh_seg_id (frame_header seg seq f enc) = seg" "fh_frame_seq (frame_header seg seq f enc) = seq"
  "fh_enc (frame_header seg seq f enc) = (if enc then 1 else 0)" "fh_pts (frame_header seg seq f enc) = fr_pts f"
  by (simp_all add: frame_header_def Let_def)

lemma frame_header_crc:
  "rsdk_crc32 (fh_encode ((frame_header seg seq f enc)\<lparr>fh_hdr_crc32 := 0\<rparr>)) = fh_hdr_crc32 (frame_header seg seq f enc)"
  by (simp add: frame_header_def Let_def)

end
