(* ===== verification/Rsdk_Playback.thy ===== *)
theory Rsdk_Playback
  imports Rsdk_Play
begin

text \<open>
  The recorder from one end to the other: what the writer puts on the medium, that its invariant
  holds through index writes, rollovers and allocations, and that the player, opened on the slots of a
  recording, delivers the frames that were written, in order, and then stops. The segments of a recording go round the
  chunk ring; the number of segments is bounded by twice the bytes written over the chunk size, so a recording of less
  than half the ring never reuses one of its own chunks.
\<close>

section \<open>Playing a segment back\<close>

text \<open>What \<open>read_hdr\<close> finds at a frame the writer put there.\<close>

lemma read_hdr_frame:
  assumes "frame_at (rw_data (dv_raw (pl_d p))) cr seg (unat (pl_base_off p + ucast off)) k f"
  shows "read_hdr p off = Inr (frame_header seg (of_nat k) f (cr \<noteq> None))"
  using assms unfolding frame_at_def
  by (simp add: read_hdr_def rsdk_rawdev_pread_def fh_roundtrip[OF frame_header_wf] frame_header_crc Let_def)

definition plays :: "rsdk_player \<Rightarrow> rsdk_crypto option \<Rightarrow> u32 \<Rightarrow> rsdk_frame list \<Rightarrow> bool" where
  "plays p cr seg fs \<longleftrightarrow> fs \<noteq> [] \<and> dv_crypto (pl_d p) = cr \<and>
     (\<exists>C. C < 2 ^ 31 \<and> (\<forall>f \<in> set fs. frame_ok C f)) \<and>
     unat (pl_base_off p) + offs fs (length fs) < 2 ^ 63 \<and> offs fs (length fs) \<le> 2 ^ 31 \<and>
     unat (pl_end_off p) = offs fs (length fs - 1) \<and>
     seg_laid (rw_data (dv_raw (pl_d p))) cr seg (unat (pl_base_off p)) fs"

definition out_frame :: "rsdk_crypto option \<Rightarrow> u32 \<Rightarrow> rsdk_frame list \<Rightarrow> nat \<Rightarrow> frame_hdr \<times> bytes" where
  "out_frame cr seg fs k = (frame_header seg (of_nat k) (fs ! k) (cr \<noteq> None), fr_data (fs ! k))"

lemma plays_frame:
  assumes P: "plays p cr seg fs" and k: "k < length fs" and o: "unat off = offs fs k"
  shows "read_hdr p off = Inr (frame_header seg (of_nat k) (fs ! k) (cr \<noteq> None))"
    and "unat (pl_base_off p + ucast off) = unat (pl_base_off p) + offs fs k"
    and "unat (pl_base_off p + ucast off + 64) = unat (pl_base_off p) + offs fs k + 64"
    and "unat (frame_len (fs ! k)) = length (fr_data (fs ! k))"
    and "unat (next_off off (frame_len (fs ! k))) = offs fs (Suc k)"
    and "off \<le> pl_end_off p"
proof -
  obtain C where C: "C < 2 ^ 31" "frame_ok C (fs ! k)" using P k unfolding plays_def by auto
  have le: "offs fs (Suc k) \<le> offs fs (length fs)" using k by (intro offs_mono) simp
  have b: "offs fs k + need_nat (fs ! k) \<le> 2 ^ 31" "unat (pl_base_off p) + (offs fs k + need_nat (fs ! k)) < 2 ^ 63"
    using le P k by (simp_all add: plays_def offs_Suc)
  have n: "64 + length (fr_data (fs ! k)) \<le> need_nat (fs ! k)" by (rule need_nat_bounds)
  show a: "unat (pl_base_off p + ucast off) = unat (pl_base_off p) + offs fs k"
    using b(2) o by (subst unat_add_nowrap) simp_all
  then show "unat (pl_base_off p + ucast off + 64) = unat (pl_base_off p) + offs fs k + 64"
    using b(2) n by (subst unat_add_nowrap) simp_all
  show "read_hdr p off = Inr (frame_header seg (of_nat k) (fs ! k) (cr \<noteq> None))"
    using P k a by (intro read_hdr_frame) (simp add: plays_def seg_laid_def)
  show l: "unat (frame_len (fs ! k)) = length (fr_data (fs ! k))" by (rule frame_len_nat[OF C(2,1)])
  show "unat (next_off off (frame_len (fs ! k))) = offs fs (Suc k)"
    using align_off_nat[OF offs_dvd b(1) o l] k by (simp add: offs_Suc)
  have "offs fs k \<le> offs fs (length fs - 1)" using k by (intro offs_mono) simp
  then show "off \<le> pl_end_off p" using P o by (simp add: word_le_nat_alt plays_def)
qed

lemma next_frame_step:
  assumes P: "plays p cr seg fs" and k: "k < length fs" and o: "unat (pl_cur_off p) = offs fs k"
  shows "\<exists>p'. rsdk_play_next_frame p = (Inr (out_frame cr seg fs k), p') \<and> plays p' cr seg fs \<and>
    unat (pl_cur_off p') = offs fs (Suc k)"
proof -
  note F = plays_frame[OF P k o]
  have fa: "frame_at (rw_data (dv_raw (pl_d p))) cr seg (unat (pl_base_off p) + offs fs k) k (fs ! k)"
    using P k by (simp add: plays_def seg_laid_def)
  have data: "rsdk_rawdev_pread (dv_raw (pl_d p)) (pl_base_off p + ucast (pl_cur_off p) + 64) (unat (frame_len (fs ! k)))
      = stored_payload cr seg (of_nat k) (fr_data (fs ! k))"
    using fa F(3,4) by (simp add: rsdk_rawdev_pread_def frame_at_def)
  have cr: "dv_crypto (pl_d p) = cr" using P by (simp add: plays_def)
  define p' where "p' = p\<lparr>pl_cur_off := next_off (pl_cur_off p) (frame_len (fs ! k))\<rparr>"
  have "rsdk_play_next_frame p = (Inr (out_frame cr seg fs k), p')"
    using F(1,6) data cr
    by (cases cr) (simp_all add: rsdk_play_next_frame_def Let_def p'_def out_frame_def stored_payload_def xcrypt_involution)
  moreover have "plays p' cr seg fs" using P by (simp add: plays_def p'_def)
  ultimately show ?thesis using F(5) by (intro exI[of _ p']) (simp add: p'_def)
qed

lemma plays_end_off:
  assumes "plays p cr seg fs"
  shows "unat (pl_end_off p) < offs fs (length fs)"
proof -
  have ne: "fs \<noteq> []" using assms by (simp add: plays_def)
  then have "offs fs (length fs) = offs fs (length fs - 1) + need_nat (fs ! (length fs - 1))"
    using offs_Suc[of "length fs - 1" fs] by (cases fs) simp_all
  then have "offs fs (length fs - 1) < offs fs (length fs)"
    using need_nat_bounds(2)[of "fs ! (length fs - 1)"] by simp
  then show ?thesis using assms by (simp add: plays_def)
qed

lemma next_frame_end:
  assumes "plays p cr seg fs" "unat (pl_cur_off p) = offs fs (length fs)"
  shows "rsdk_play_next_frame p = (Inl RSDK_E_NOTFOUND, p)"
  using plays_end_off[OF assms(1)] assms(2) by (simp add: rsdk_play_next_frame_def word_less_nat_alt)

text \<open>From frame \<open>k\<close> on, the player delivers the remaining frames and then reports the end.\<close>

lemma play_all_from:
  assumes "plays p cr seg fs" "k \<le> length fs" "unat (pl_cur_off p) = offs fs k" "length fs - k < n"
  shows "play_all n p = map (out_frame cr seg fs) [k..<length fs]"
  using assms
proof (induction n arbitrary: k p)
  case 0
  then show ?case by simp
next
  case (Suc n)
  show ?case
  proof (cases "k < length fs")
    case True
    obtain p' where p': "rsdk_play_next_frame p = (Inr (out_frame cr seg fs k), p')" "plays p' cr seg fs"
      "unat (pl_cur_off p') = offs fs (Suc k)"
      using next_frame_step[OF Suc.prems(1) True Suc.prems(3)] by blast
    have "play_all n p' = map (out_frame cr seg fs) [Suc k..<length fs]"
      using Suc.IH[OF p'(2) _ p'(3)] True Suc.prems(4) by simp
    then show ?thesis using p'(1) True by (simp add: upt_conv_Cons)
  next
    case False
    then have k: "k = length fs" using Suc.prems(2) by simp
    then show ?thesis using next_frame_end[OF Suc.prems(1)] Suc.prems(3) by simp
  qed
qed

text \<open>Seeking ends, at the last frame of the longest run whose timestamps are not after the target.\<close>

lemma seek_loop_ends:
  assumes P: "plays p cr seg fs" and k: "k \<le> length fs" "unat off = offs fs k"
  shows "seek_loop p pts off best =
    Some (case takeWhile (\<lambda>f. fr_pts f \<le> pts) (drop k fs) of [] \<Rightarrow> best
          | g # gs \<Rightarrow> of_nat (offs fs (k + length gs)))"
  using k
proof (induction "length fs - k" arbitrary: k off best)
  case 0
  then have kl: "k = length fs" by simp
  then have "\<not> off \<le> pl_end_off p"
    using plays_end_off[OF P] 0(3) by (simp add: word_le_nat_alt)
  then show ?case using kl by (simp add: seek_loop.simps)
next
  case (Suc n)
  then have k: "k < length fs" by simp
  note F = plays_frame[OF P k Suc.prems(2)]
  have d: "drop k fs = fs ! k # drop (Suc k) fs" using k by (simp add: Cons_nth_drop_Suc)
  show ?case
  proof (cases "fr_pts (fs ! k) \<le> pts")
    case False
    then show ?thesis using F(1,6) d by (simp add: seek_loop.simps)
  next
    case True
    have IH: "seek_loop p pts (next_off off (frame_len (fs ! k))) off =
      Some (case takeWhile (\<lambda>f. fr_pts f \<le> pts) (drop (Suc k) fs) of [] \<Rightarrow> off
          | g # gs \<Rightarrow> of_nat (offs fs (Suc k + length gs)))"
      using Suc.hyps(2) k F(5) by (intro Suc.hyps(1)) simp_all
    have "off = of_nat (offs fs k)" using Suc.prems(2)[symmetric] by simp
    moreover have "seek_loop p pts off best = seek_loop p pts (next_off off (frame_len (fs ! k))) off"
      using F(1,6) True by (subst seek_loop.simps) simp
    ultimately show ?thesis using True d IH by (simp split: list.splits)
  qed
qed

section \<open>What the writer keeps\<close>

text \<open>The frames of the writer's current segment are on the medium, and its cursors say so.\<close>

definition w_inv :: "rsdk_dev \<Rightarrow> rsdk_writer \<Rightarrow> rsdk_frame list \<Rightarrow> bool" where
  "w_inv d w fs \<longleftrightarrow>
     unat (wr_chunk w) < dN d \<and> wr_base_off w = chunk_byte_off d (wr_chunk w) \<and>
     (\<forall>f \<in> set fs. frame_ok (dC d) f) \<and>
     unat (wr_cur_off w) = offs fs (length fs) \<and> offs fs (length fs) \<le> dC d \<and>
     (fs \<noteq> [] \<longrightarrow> unat (wr_end_off w) = offs fs (length fs - 1)) \<and>
     wr_frame_seq w = of_nat (length fs) \<and> wr_frame_count w = of_nat (length fs) \<and>
     seg_laid (rw_data (dv_raw d)) (dv_crypto d) (wr_seg_id w) (unat (wr_base_off w)) fs"

lemma offs_count: "128 * length fs \<le> offs fs (length fs)"
proof (induction fs)
  case (Cons f fs)
  have "offs (f # fs) (length (f # fs)) = need_nat f + offs fs (length fs)" by (simp add: offs_def)
  then show ?case using Cons need_nat_bounds(2)[of f] by simp
qed simp

lemma w_inv_count:
  assumes "w_inv d w fs" "dC d < 2 ^ 31"
  shows "unat (wr_frame_count w) = length fs" "(wr_frame_count w = 0) = (fs = [])" "length fs < 2 ^ 24"
proof -
  have l: "128 * length fs < 2 ^ 31" using assms offs_count[of fs] by (simp add: w_inv_def)
  then show "length fs < 2 ^ 24" by simp
  have "unat (of_nat (length fs) :: u32) = length fs" using l by (intro unat_of_nat_small) simp
  then show u: "unat (wr_frame_count w) = length fs" using assms(1) by (simp add: w_inv_def)
  then show "(wr_frame_count w = 0) = (fs = [])" by (metis length_0_conv unat_eq_zero)
qed

text \<open>The invariant only looks at the data region.\<close>

lemma seg_laid_cong:
  assumes "seg_laid m cr seg base fs" "\<And>a n. base \<le> a \<Longrightarrow> a + n \<le> base + offs fs (length fs) \<Longrightarrow> dread m' a n = dread m a n"
  shows "seg_laid m' cr seg base fs"
  unfolding seg_laid_def frame_at_def
proof (intro allI impI)
  fix k assume k: "k < length fs"
  have "offs fs (Suc k) \<le> offs fs (length fs)" using k by (intro offs_mono) simp
  then have le: "offs fs k + need_nat (fs ! k) \<le> offs fs (length fs)" using k by (simp add: offs_Suc)
  note n = need_nat_bounds(1)[of "fs ! k"]
  have "dread m' (base + offs fs k) 64 = dread m (base + offs fs k) 64"
    "dread m' (base + offs fs k + 64) (length (fr_data (fs ! k))) = dread m (base + offs fs k + 64) (length (fr_data (fs ! k)))"
    using le n by (intro assms(2); simp)+
  then show "dread m' (base + offs fs k) 64 = fh_encode (frame_header seg (word_of_nat k) (fs ! k) (cr \<noteq> None)) \<and>
      dread m' (base + offs fs k + 64) (length (fr_data (fs ! k))) = stored_payload cr seg (word_of_nat k) (fr_data (fs ! k))"
    using assms(1) k by (simp add: seg_laid_def frame_at_def)
qed

lemma w_inv_base:
  assumes "w_inv d w fs" "dev_ok d"
  shows "unat (wr_base_off w) = dD d + unat (wr_chunk w) * dC d" "dD d \<le> unat (wr_base_off w)"
    "unat (wr_base_off w) + dC d \<le> unat (dv_meta_base d)" "unat (wr_base_off w) + dC d < 2 ^ 63"
proof -
  have c: "unat (wr_chunk w) < dN d" "wr_base_off w = chunk_byte_off d (wr_chunk w)"
    using assms(1) by (simp_all add: w_inv_def)
  note U = unat_chunk_byte_off[OF assms(2) c(1), folded c(2)]
  show "unat (wr_base_off w) = dD d + unat (wr_chunk w) * dC d" "unat (wr_base_off w) + dC d \<le> unat (dv_meta_base d)"
    "dD d \<le> unat (wr_base_off w)"
    using U by simp_all
  then show "unat (wr_base_off w) + dC d < 2 ^ 63"
    using dev_ok_space(2,3)[OF assms(2)] by linarith
qed

lemma w_inv_cong:
  assumes "w_inv d w fs" "dev_ok d"
    and "dv_data_chunks d' = dv_data_chunks d" "dv_chunk_bytes d' = dv_chunk_bytes d" "dv_crypto d' = dv_crypto d"
    and "sb_data_start_sec (dv_sb d') = sb_data_start_sec (dv_sb d)"
    and "\<And>a n. dD d \<le> a \<Longrightarrow> dread (rw_data (dv_raw d')) a n = dread (rw_data (dv_raw d)) a n"
  shows "w_inv d' w fs"
proof -
  have "seg_laid (rw_data (dv_raw d)) (dv_crypto d) (wr_seg_id w) (unat (wr_base_off w)) fs"
    using assms(1) unfolding w_inv_def by (elim conjE)
  then have "seg_laid (rw_data (dv_raw d')) (dv_crypto d) (wr_seg_id w) (unat (wr_base_off w)) fs"
    by (rule seg_laid_cong) (use w_inv_base(2)[OF assms(1,2)] assms(7) in simp)
  then show ?thesis using assms by (simp add: w_inv_def chunk_byte_off_def)
qed

lemma dev_ok_128: "dev_ok d \<Longrightarrow> 128 dvd dC d"
proof -
  assume "dev_ok d"
  then have "2 ^ 20 dvd dC d" unfolding dev_ok_def geom_ok_def by (elim conjE)
  moreover have "(128 :: nat) dvd 2 ^ 20" by simp
  ultimately show ?thesis using dvd_trans by blast
qed

lemma put_frame_inv:
  assumes ok: "dev_ok d" and C: "dC d < 2 ^ 31" and inv: "w_inv d w fs" and f: "frame_ok (dC d) f"
    and room: "offs fs (length fs) + need_nat f \<le> dC d" and p: "put_frame d w f = (d', w')"
  shows "w_inv d' w' (fs @ [f])" and "dev_ok d'"
    and "\<And>a n. a + n \<le> unat (wr_base_off w) \<or> unat (wr_base_off w) + dC d \<le> a \<Longrightarrow>
           dread (rw_data (dv_raw d')) a n = dread (rw_data (dv_raw d)) a n"
    and "dv_sb d' = dv_sb d" "dv_st d' = dv_st d" "dv_crypto d' = dv_crypto d" "wr_chunk w' = wr_chunk w"
    and "wr_base_off w' = wr_base_off w" "wr_seg_id w' = wr_seg_id w" "wr_d w' = wr_d w"
    and "dv_data_chunks d' = dv_data_chunks d" "dv_chunk_bytes d' = dv_chunk_bytes d"
proof -
  define n where "n = length fs"
  define B where "B = unat (wr_base_off w)"
  define O' where "O' = offs fs n"
  define H where "H = fh_encode (frame_header (wr_seg_id w) (wr_frame_seq w) f (dv_crypto d \<noteq> None))"
  define P where "P = stored_payload (dv_crypto d) (wr_seg_id w) (wr_frame_seq w) (fr_data f)"
  note Bs = w_inv_base[OF inv ok]
  have cur: "unat (wr_cur_off w) = O'" using inv by (simp add: w_inv_def O'_def n_def)
  have nb: "64 + length (fr_data f) \<le> need_nat f" by (rule need_nat_bounds)
  have room': "O' + need_nat f \<le> dC d" using room by (simp add: O'_def n_def)
  have o1: "unat (wr_base_off w + ucast (wr_cur_off w)) = B + O'"
    using Bs(4) room' nb cur by (subst unat_add_nowrap) (simp_all add: B_def)
  have o2: "unat (wr_base_off w + ucast (wr_cur_off w) + 64) = B + O' + 64"
    using Bs(4) room' nb o1 by (subst unat_add_nowrap) (simp_all add: B_def)
  have lens: "length H = 64" "length P = length (fr_data f)" by (simp_all add: H_def P_def)
  have m': "rw_data (dv_raw d') = dwrite (dwrite (rw_data (dv_raw d)) (B + O') H) (B + O' + 64) P"
    using p o1 o2 by (auto simp: put_frame_def Let_def H_def P_def stored_payload_def split: option.splits)
  have d': "dv_sb d' = dv_sb d" "dv_st d' = dv_st d" "dv_crypto d' = dv_crypto d"
    "dv_data_chunks d' = dv_data_chunks d" "dv_chunk_bytes d' = dv_chunk_bytes d" "dv_meta_base d' = dv_meta_base d"
    using p by (auto simp: put_frame_def Let_def split: option.splits)
  have w': "w' = w\<lparr>wr_end_off := wr_cur_off w, wr_cur_off := wr_cur_off w + frame_need f,
            wr_last_time := ucast (fr_wall_time f), wr_frame_seq := wr_frame_seq w + 1,
            wr_frame_count := wr_frame_count w + 1, wr_total_bytes := wr_total_bytes w + ucast (frame_len f)\<rparr>"
    using p by (auto simp: put_frame_def Let_def split: option.splits)
  show "dev_ok d'" by (rule dev_ok_raw_cong[OF ok]) (simp_all add: d')
  have fr: "dread (rw_data (dv_raw d')) a k = dread (rw_data (dv_raw d)) a k"
    if "a + k \<le> B + O' \<or> B + dC d \<le> a" for a k
    using that lens nb room' by (auto simp: m' dread_dwrite_other)
  then show "\<And>a n. a + n \<le> unat (wr_base_off w) \<or> unat (wr_base_off w) + dC d \<le> a \<Longrightarrow>
           dread (rw_data (dv_raw d')) a n = dread (rw_data (dv_raw d)) a n"
    by (auto simp: B_def)
  have laid: "seg_laid (rw_data (dv_raw d)) (dv_crypto d) (wr_seg_id w) B fs"
    using inv unfolding w_inv_def B_def by (elim conjE)
  have old: "seg_laid (rw_data (dv_raw d')) (dv_crypto d) (wr_seg_id w) B fs"
    by (rule seg_laid_cong[OF laid], rule fr) (simp add: O'_def n_def)
  have at_H: "dread (rw_data (dv_raw d')) (B + O') 64 = H"
    using lens(1) mem.rd_wr_len[OF lens(1)] by (simp add: m' dread_dwrite_other)
  have at_P: "dread (rw_data (dv_raw d')) (B + O' + 64) (length (fr_data f)) = P"
    using mem.rd_wr_len[OF lens(2)] by (simp add: m')
  have seq: "wr_frame_seq w = of_nat n" using inv by (simp add: w_inv_def n_def)
  have new: "seg_laid (rw_data (dv_raw d')) (dv_crypto d) (wr_seg_id w) B (fs @ [f])"
    unfolding seg_laid_def
  proof (intro allI impI)
    fix k assume "k < length (fs @ [f])"
    then consider "k < length fs" | "k = length fs" by fastforce
    then show "frame_at (rw_data (dv_raw d')) (dv_crypto d) (wr_seg_id w) (B + offs (fs @ [f]) k) k ((fs @ [f]) ! k)"
    proof cases
      case 1
      then show ?thesis using old by (simp add: seg_laid_def offs_append nth_append)
    next
      case 2
      then show ?thesis
        using at_H at_P seq by (simp add: frame_at_def offs_append H_def P_def O'_def n_def)
    qed
  qed
  have "unat (wr_cur_off w + frame_need f) = O' + need_nat f"
    using frame_need_nat[OF f C dev_ok_128[OF ok]] cur room' C by (subst unat_add_nowrap) simp_all
  then show "w_inv d' w' (fs @ [f])"
    using inv new cur room' f d' w' by (simp add: w_inv_def chunk_byte_off_def offs_snoc offs_append O'_def n_def B_def add.commute)
  show "dv_sb d' = dv_sb d" "dv_st d' = dv_st d" "dv_crypto d' = dv_crypto d" "wr_chunk w' = wr_chunk w"
    "wr_base_off w' = wr_base_off w" "wr_seg_id w' = wr_seg_id w" "wr_d w' = wr_d w"
    "dv_data_chunks d' = dv_data_chunks d" "dv_chunk_bytes d' = dv_chunk_bytes d"
    using d' w' by simp_all
qed

section \<open>Segments: start, slot, rollover\<close>

definition disk_ok :: "rsdk_dev \<Rightarrow> bool" where
  "disk_ok d \<longleftrightarrow> dev_ok d \<and> dC d < 2 ^ 31 \<and> 0 < slot_count d"

text \<open>Everything an index write or a segment start leaves alone: geometry, keys and the data region.\<close>

definition same_data :: "rsdk_dev \<Rightarrow> rsdk_dev \<Rightarrow> bool" where
  "same_data d d' \<longleftrightarrow> dv_crypto d' = dv_crypto d \<and> dv_chunk_bytes d' = dv_chunk_bytes d \<and>
     dv_data_chunks d' = dv_data_chunks d \<and> dv_meta_base d' = dv_meta_base d \<and>
     sb_data_start_sec (dv_sb d') = sb_data_start_sec (dv_sb d) \<and> sb_chunk_sectors (dv_sb d') = sb_chunk_sectors (dv_sb d) \<and>
     sb_hdd_full (dv_sb d') = sb_hdd_full (dv_sb d) \<and> slot_count d' = slot_count d \<and>
     (\<forall>a n. dD d \<le> a \<longrightarrow> dread (rw_data (dv_raw d')) a n = dread (rw_data (dv_raw d)) a n)"

lemma same_data_refl [simp]: "same_data d d"
  by (simp add: same_data_def)

lemma same_data_trans: "same_data d d' \<Longrightarrow> same_data d' d'' \<Longrightarrow> same_data d d''"
  unfolding same_data_def by metis

lemma w_inv_same_data: "w_inv d w fs \<Longrightarrow> dev_ok d \<Longrightarrow> same_data d d' \<Longrightarrow> w_inv d' w fs"
  unfolding same_data_def by (elim conjE) (rule w_inv_cong, assumption+, blast)

lemma seal_sb_eqD:
  assumes "seal_sb a = seal_sb b"
  shows "sb_data_start_sec a = sb_data_start_sec b" "sb_chunk_sectors a = sb_chunk_sectors b"
    "sb_hdd_full a = sb_hdd_full b" "sb_write_ptr_chunk a = sb_write_ptr_chunk b"
    "sb_group_disk_index a = sb_group_disk_index b"
  using assms seal_sb_fields by metis+

lemma fill_slot_wf [simp]: "sl_wf (fill_slot g w c)"
  by (simp add: fill_slot_def Let_def sl_wf_def)

lemma index_write_data:
  assumes "disk_ok d" "sl_wf s" "rsdk_index_write d s = (e, d')"
  shows "e = RSDK_OK" "disk_ok d'" "same_data d d'" "sb_write_ptr_chunk (dv_sb d') = sb_write_ptr_chunk (dv_sb d)"
    "\<exists>i. unat i < slot_count d \<and> rd_slot d' i = seal_sl s"
proof -
  have ok: "dev_ok d" "0 < slot_count d" "dC d < 2 ^ 31" using assms(1) by (simp_all add: disk_ok_def)
  note I = index_write_spec[OF ok(1,2) assms(2,3)]
  note S = seal_sb_eqD[OF I(6)]
  show "e = RSDK_OK" by (rule I(1))
  show "disk_ok d'" using I(2,3,8) ok by (simp add: disk_ok_def)
  show "same_data d d'" using I S by (simp add: same_data_def)
  show "sb_write_ptr_chunk (dv_sb d') = sb_write_ptr_chunk (dv_sb d)" by (rule S)
  show "\<exists>i. unat i < slot_count d \<and> rd_slot d' i = seal_sl s" using I(4) by blast
qed

lemma next_seg_id_data:
  assumes "disk_ok d" "next_seg_id d chn = (s, d')"
  shows "disk_ok d'" "same_data d d'" "dv_sb d' = dv_sb d"
proof -
  obtain cs where d': "d' = d\<lparr>dv_st := (dv_st d)\<lparr>st_chn := cs\<rparr>\<rparr>" and l: "length cs = length (st_chn (dv_st d))"
    using assms(2) by (auto simp: next_seg_id_def Let_def)
  have ok: "dev_ok d" using assms(1) by (simp add: disk_ok_def)
  have "geom_ok d'" by (rule geom_ok_cong[of d]) (use ok in \<open>simp_all add: d' dev_ok_def\<close>)
  moreover have "ring_ok d'" "st_ok d'" "st_sealed (dv_st d')"
    using ok l by (simp_all add: d' dev_ok_def ring_ok_def st_ok_def st_sealed_def st_wf_def)
  ultimately show "disk_ok d'" using assms(1) by (simp add: disk_ok_def dev_ok_def d')
  show "same_data d d'" "dv_sb d' = dv_sb d" by (simp_all add: d' same_data_def)
qed

lemma alloc_data:
  assumes "disk_ok d" "rsdk_dev_alloc_chunk d = (Inr (c, off), d')"
  shows "disk_ok d'" "same_data d d'" "unat c < dN d" "off = chunk_byte_off d c"
    "c = sb_write_ptr_chunk (dv_sb d)"
proof -
  have ok: "dev_ok d" using assms(1) by (simp add: disk_ok_def)
  note F = alloc_fields[OF assms(2)]
  have cs: "sb_chunk_sectors (dv_sb d') = sb_chunk_sectors (dv_sb d)"
    using assms(2) by (auto simp: rsdk_dev_alloc_chunk_def Let_def split: if_splits)
  show "disk_ok d'" using alloc_ok[OF ok assms(2)] assms(1) F by (simp add: disk_ok_def)
  show "same_data d d'" using F cs by (simp add: same_data_def)
  show "c = sb_write_ptr_chunk (dv_sb d)"
    using assms(2) by (auto simp: rsdk_dev_alloc_chunk_def Let_def split: if_splits)
  show "unat c < dN d" "off = chunk_byte_off d c"
  proof -
    have N: "0 < dN d"
    proof -
      have "dv_data_chunks d \<noteq> 0" using assms(2) by (auto simp: rsdk_dev_alloc_chunk_def Let_def split: if_splits)
      then show ?thesis by (simp add: unat_gt_0)
    qed
    show "unat c < dN d" "off = chunk_byte_off d c"
    proof (atomize (full), cases "sb_hdd_full (dv_sb d) = RSDK_HDDFULL_STOP")
      case True
      have lt: "unat (sb_write_ptr_chunk (dv_sb d)) < dN d"
        using alloc_stop[OF ok True] assms(2) by (auto split: if_splits)
      then show "unat c < dN d \<and> off = chunk_byte_off d c"
        using alloc_stop[OF ok True] assms(2) by auto
    next
      case False
      show "unat c < dN d \<and> off = chunk_byte_off d c"
        using alloc_overwrite[OF ok False N] assms(2) by auto
    qed
  qed
qed

lemma invalidate_data:
  assumes "disk_ok d"
  shows "disk_ok (fst (rsdk_index_invalidate_chunk d c))" "same_data d (fst (rsdk_index_invalidate_chunk d c))"
    "dv_sb (fst (rsdk_index_invalidate_chunk d c)) = dv_sb d"
proof -
  have ok: "dev_ok d" using assms by (simp add: disk_ok_def)
  obtain d' n where i: "rsdk_index_invalidate_chunk d c = (d', n)" by fastforce
  note F = invalidate_frame[OF ok, of c, unfolded i fst_conv same_but_index_def]
  show "disk_ok (fst (rsdk_index_invalidate_chunk d c))"
    using invalidate_spec(1,2)[OF ok i] F assms by (simp add: disk_ok_def i)
  show "same_data d (fst (rsdk_index_invalidate_chunk d c))" "dv_sb (fst (rsdk_index_invalidate_chunk d c)) = dv_sb d"
    using F by (simp_all add: same_data_def i)
qed

text \<open>What \<open>start_seg\<close> does to its disk, with the choice of the disk and the writer's fields apart.\<close>

lemma start_seg_disk:
  assumes g: "\<not> wr_group w" "wr_d w < length (gr_devs g)" and ok: "disk_ok (gr_devs g ! wr_d w)"
    and r: "start_seg fl g w = (RSDK_OK, g', w')"
  shows "\<exists>c off d1 d2. rsdk_dev_alloc_chunk (gr_devs g ! wr_d w) = (Inr (c, off), d1) \<and>
     disk_ok d2 \<and> same_data d1 d2 \<and> dv_sb d2 = dv_sb d1 \<and>
     wr_chunk w' = c \<and> wr_base_off w' = off \<and> wr_cur_off w' = 0 \<and> wr_frame_seq w' = 0 \<and> wr_frame_count w' = 0 \<and>
     wr_d w' = wr_d w \<and> \<not> wr_group w' \<and> wr_chn w' = wr_chn w \<and> wr_rectype w' = wr_rectype w \<and>
     g' = set_dev g (wr_d w) d2"
proof -
  let ?d = "gr_devs g ! wr_d w"
  obtain r1 d1 where al: "rsdk_dev_alloc_chunk ?d = (r1, d1)" by fastforce
  obtain c off where r1: "r1 = Inr (c, off)"
    using r g(1) al by (cases r1) (auto simp: start_seg_def Let_def rsdk_dev_alloc_chunk_def split: if_splits)
  define d2 where "d2 = (if rsdk_dev_is_wrapped d1 then fst (rsdk_index_invalidate_chunk d1 c) else d1)"
  obtain seg d3 where sg: "next_seg_id d2 (wr_chn w) = (seg, d3)" by fastforce
  note A = alloc_data[OF ok al[unfolded r1]]
  have d2: "disk_ok d2" "same_data d1 d2" "dv_sb d2 = dv_sb d1"
    using invalidate_data[OF A(1), of c] A(1) by (simp_all add: d2_def)
  note S = next_seg_id_data[OF d2(1) sg]
  define w1 where "w1 = (if rsdk_dev_is_wrapped d1 \<and> wr_reclaim w
      then w\<lparr>wr_reclaimed := wr_reclaimed w @ [(rsdk_dev_index d1, c)]\<rparr> else w)"
  have w1: "wr_d w1 = wr_d w" "wr_group w1 = wr_group w" "wr_chn w1 = wr_chn w" "wr_rectype w1 = wr_rectype w"
    by (simp_all add: w1_def)
  have split: "(if rsdk_dev_is_wrapped d1
                 then (fst (rsdk_index_invalidate_chunk d1 c),
                       if wr_reclaim w then w\<lparr>wr_reclaimed := wr_reclaimed w @ [(rsdk_dev_index d1, c)]\<rparr> else w)
                 else (d1, w)) = (d2, w1)"
    by (simp add: d2_def w1_def)
  have "start_seg fl g w = (RSDK_OK, set_dev g (wr_d w) d3,
      w1\<lparr>wr_chunk := c, wr_base_off := off, wr_cur_off := 0, wr_seg_id := seg,
         wr_frame_seq := 0, wr_frame_count := 0, wr_total_bytes := 0, wr_start_time := 0,
         wr_last_time := 0, wr_end_off := 0, wr_open_written := False\<rparr>)"
    using g(1) al r1 split sg w1 by (simp add: start_seg_def Let_def)
  then have "g' = set_dev g (wr_d w) d3" "wr_chunk w' = c" "wr_base_off w' = off" "wr_cur_off w' = 0"
    "wr_frame_seq w' = 0" "wr_frame_count w' = 0" "wr_d w' = wr_d w" "\<not> wr_group w'"
    "wr_chn w' = wr_chn w" "wr_rectype w' = wr_rectype w"
    using r g(1) w1 by auto
  then show ?thesis
    using al r1 S d2 same_data_trans by (intro exI[of _ c] exI[of _ off] exI[of _ d1] exI[of _ d3]) auto
qed

lemma start_seg_single:
  assumes g: "\<not> wr_group w" "wr_d w < length (gr_devs g)" and ok: "disk_ok (gr_devs g ! wr_d w)"
    and r: "start_seg fl g w = (RSDK_OK, g', w')"
  shows "disk_ok (gr_devs g' ! wr_d w)" "same_data (gr_devs g ! wr_d w) (gr_devs g' ! wr_d w)"
    "w_inv (gr_devs g' ! wr_d w) w' []" "length (gr_devs g') = length (gr_devs g)"
    "wr_d w' = wr_d w" "\<not> wr_group w'" "wr_chunk w' = sb_write_ptr_chunk (dv_sb (gr_devs g ! wr_d w))"
    "\<exists>r d1. rsdk_dev_alloc_chunk (gr_devs g ! wr_d w) = (r, d1) \<and>
       sb_write_ptr_chunk (dv_sb (gr_devs g' ! wr_d w)) = sb_write_ptr_chunk (dv_sb d1)"
proof -
  let ?d = "gr_devs g ! wr_d w"
  obtain c off d1 d2 where *: "rsdk_dev_alloc_chunk ?d = (Inr (c, off), d1)" "disk_ok d2" "same_data d1 d2" "dv_sb d2 = dv_sb d1"
    "wr_chunk w' = c" "wr_base_off w' = off" "wr_cur_off w' = 0" "wr_frame_seq w' = 0" "wr_frame_count w' = 0"
    "wr_d w' = wr_d w" "\<not> wr_group w'" "g' = set_dev g (wr_d w) d2"
    using start_seg_disk[OF assms] by blast
  note A = alloc_data[OF ok *(1)]
  have d': "gr_devs g' ! wr_d w = d2" using *(12) g(2) by simp
  show "disk_ok (gr_devs g' ! wr_d w)" using *(2) d' by simp
  show sd: "same_data ?d (gr_devs g' ! wr_d w)" using same_data_trans[OF A(2) *(3)] d' by simp
  show "length (gr_devs g') = length (gr_devs g)" using *(12) by simp
  show "wr_d w' = wr_d w" "\<not> wr_group w'" by fact+
  show "wr_chunk w' = sb_write_ptr_chunk (dv_sb ?d)" using *(5) A(5) by simp
  show "\<exists>r d1. rsdk_dev_alloc_chunk ?d = (r, d1) \<and>
       sb_write_ptr_chunk (dv_sb (gr_devs g' ! wr_d w)) = sb_write_ptr_chunk (dv_sb d1)"
    using *(1,4) d' by auto
  show "w_inv (gr_devs g' ! wr_d w) w' []"
    using *(5-9) A(3,4) sd by (simp add: w_inv_def same_data_def seg_laid_def chunk_byte_off_def)
qed

text \<open>The slot of a segment leads a player to the segment's frames.\<close>

lemma play_open_fields [simp]:
  "pl_d (rsdk_play_open d s) = d" "pl_cur_off (rsdk_play_open d s) = sl_start_off s"
  "pl_end_off (rsdk_play_open d s) = sl_end_off s" "pl_seg (rsdk_play_open d s) = s"
  by (simp_all add: rsdk_play_open_def Let_def)

lemma play_base:
  "dev_ok d \<Longrightarrow> pl_base_off (rsdk_play_open d s) = chunk_byte_off d (sl_start_chunk s)"
  by (simp add: rsdk_play_open_def chunk_byte_off_def dev_ok_def geom_ok_def Let_def)

lemma fill_slot_fields [simp]:
  "sl_start_chunk (fill_slot g w b) = wr_chunk w" "sl_start_off (fill_slot g w b) = 0"
  "sl_end_off (fill_slot g w b) = wr_end_off w" "sl_seg_id (fill_slot g w b) = wr_seg_id w"
  "sl_start_time (fill_slot g w b) = wr_start_time w"
  by (simp_all add: fill_slot_def Let_def)

lemma w_inv_plays:
  assumes inv: "w_inv d w fs" and ok: "disk_ok d" and ne: "fs \<noteq> []"
    and s: "sl_start_chunk s = wr_chunk w" "sl_end_off s = wr_end_off w"
  shows "plays (rsdk_play_open d s) (dv_crypto d) (wr_seg_id w) fs"
proof -
  have dok: "dev_ok d" and C: "dC d < 2 ^ 31" using ok by (simp_all add: disk_ok_def)
  have b: "pl_base_off (rsdk_play_open d s) = wr_base_off w"
    using inv s(1) play_base[OF dok] by (simp add: w_inv_def)
  note B = w_inv_base(4)[OF inv dok]
  have "\<exists>C. C < 2 ^ 31 \<and> (\<forall>f\<in>set fs. frame_ok C f)" using C inv unfolding w_inv_def by blast
  moreover have "seg_laid (rw_data (dv_raw d)) (dv_crypto d) (wr_seg_id w) (unat (wr_base_off w)) fs"
    using inv unfolding w_inv_def by (elim conjE)
  moreover have "offs fs (length fs) \<le> dC d" "unat (wr_end_off w) = offs fs (length fs - 1)"
    using inv ne by (simp_all add: w_inv_def)
  ultimately show ?thesis
    unfolding plays_def play_open_fields b s(2) using ne B C by (intro conjI) simp_all
qed

lemma plays_cong:
  assumes P: "plays (rsdk_play_open d s) (dv_crypto d) seg fs"
    and ok: "dev_ok d" "dev_ok d'"
    and sd: "dv_crypto d' = dv_crypto d" "sb_data_start_sec (dv_sb d') = sb_data_start_sec (dv_sb d)"
      "dv_chunk_bytes d' = dv_chunk_bytes d"
    and C: "offs fs (length fs) \<le> dC d"
    and dr: "\<And>a n. unat (chunk_byte_off d (sl_start_chunk s)) \<le> a \<Longrightarrow>
        a + n \<le> unat (chunk_byte_off d (sl_start_chunk s)) + dC d \<Longrightarrow>
        dread (rw_data (dv_raw d')) a n = dread (rw_data (dv_raw d)) a n"
  shows "plays (rsdk_play_open d' s) (dv_crypto d') seg fs"
proof -
  have b: "pl_base_off (rsdk_play_open d' s) = pl_base_off (rsdk_play_open d s)"
    using play_base[OF ok(1), of s] play_base[OF ok(2), of s] sd by (simp add: chunk_byte_off_def)
  have "seg_laid (rw_data (dv_raw d)) (dv_crypto d) seg (unat (pl_base_off (rsdk_play_open d s))) fs"
    using P unfolding plays_def by simp
  then have "seg_laid (rw_data (dv_raw d')) (dv_crypto d) seg (unat (pl_base_off (rsdk_play_open d s))) fs"
    by (rule seg_laid_cong) (use dr C play_base[OF ok(1), of s] in auto)
  then show ?thesis using P unfolding plays_def b play_open_fields sd(1) by simp
qed

section \<open>A whole recording\<close>

fun rec_run :: "(rat \<Rightarrow> rat) \<Rightarrow> rsdk_group \<Rightarrow> rsdk_writer \<Rightarrow> rsdk_frame list \<Rightarrow> rsdk_err \<times> rsdk_group \<times> rsdk_writer" where
  "rec_run fl g w [] = (RSDK_OK, g, w)"
| "rec_run fl g w (f # fs) =
     (case rsdk_rec_write_frame fl g w f of
        (e, g, w) \<Rightarrow> if e \<noteq> RSDK_OK then (e, g, w) else rec_run fl g w fs)"

text \<open>A recording on one disk in overwrite mode: the segments already closed, each with its slot and
  its frames, and the frames of the current one. Segment \<open>j\<close> is in the \<open>j\<close>-th chunk of the ring
  from where the recording began.\<close>

definition seg_ok :: "rsdk_dev \<Rightarrow> nat \<Rightarrow> index_slot \<times> rsdk_frame list \<Rightarrow> bool" where
  "seg_ok d c = (\<lambda>(s, fs). sl_start_chunk s = of_nat c \<and> sl_start_off s = 0 \<and>
     offs fs (length fs) \<le> dC d \<and> plays (rsdk_play_open d s) (dv_crypto d) (sl_seg_id s) fs)"

definition seg_size :: "rsdk_frame list \<Rightarrow> nat" where
  "seg_size fs = offs fs (length fs)"

definition rec_core ::
  "rsdk_group \<Rightarrow> rsdk_writer \<Rightarrow> nat \<Rightarrow> (index_slot \<times> rsdk_frame list) list \<Rightarrow> rsdk_frame list \<Rightarrow> bool" where
  "rec_core g w w0 cl cur \<longleftrightarrow>
     \<not> wr_group w \<and> wr_d w < length (gr_devs g) \<and> disk_ok (gr_devs g ! wr_d w) \<and>
     sb_hdd_full (dv_sb (gr_devs g ! wr_d w)) \<noteq> RSDK_HDDFULL_STOP \<and>
     w_inv (gr_devs g ! wr_d w) w cur \<and>
     wr_chunk w = of_nat ((w0 + length cl) mod dN (gr_devs g ! wr_d w)) \<and>
     unat (sb_write_ptr_chunk (dv_sb (gr_devs g ! wr_d w))) = (w0 + length cl + 1) mod dN (gr_devs g ! wr_d w) \<and>
     (\<forall>j < length cl. seg_ok (gr_devs g ! wr_d w) ((w0 + j) mod dN (gr_devs g ! wr_d w)) (cl ! j))"

text \<open>Two consecutive segments exceed a chunk, so the number of segments is bounded by the bytes written.\<close>

definition closed_size :: "(index_slot \<times> rsdk_frame list) list \<Rightarrow> nat" where
  "closed_size cl = sum_list (map (seg_size \<circ> snd) cl)"

definition rec_inv ::
  "rsdk_group \<Rightarrow> rsdk_writer \<Rightarrow> nat \<Rightarrow> (index_slot \<times> rsdk_frame list) list \<Rightarrow> rsdk_frame list \<Rightarrow> bool" where
  "rec_inv g w w0 cl cur \<longleftrightarrow> rec_core g w w0 cl cur \<and>
     length cl * dC (gr_devs g ! wr_d w) \<le> 2 * closed_size cl + seg_size cur"

lemma seg_size_snoc: "seg_size (fs @ [f]) = seg_size fs + need_nat f"
  by (simp add: seg_size_def offs_def)

lemma open_slot_single:
  assumes "wr_d w < length (gr_devs g)" "disk_ok (gr_devs g ! wr_d w)" "open_slot g w f = (g1, w1)"
  shows "disk_ok (gr_devs g1 ! wr_d w)" "same_data (gr_devs g ! wr_d w) (gr_devs g1 ! wr_d w)"
    "sb_write_ptr_chunk (dv_sb (gr_devs g1 ! wr_d w)) = sb_write_ptr_chunk (dv_sb (gr_devs g ! wr_d w))"
    "length (gr_devs g1) = length (gr_devs g)" "wr_d w1 = wr_d w" "wr_group w1 = wr_group w" "wr_chunk w1 = wr_chunk w"
    "wr_seg_id w1 = wr_seg_id w" "w_inv d w1 fs = w_inv d w fs"
proof -
  let ?w = "w\<lparr>wr_start_time := ucast (fr_wall_time f)\<rparr>"
  obtain e dd where iw: "rsdk_index_write (gr_devs g ! wr_d w) (fill_slot g ?w False) = (e, dd)" by fastforce
  note I = index_write_data[OF assms(2) _ iw]
  have r: "(g1, w1) = (if wr_frame_count w = 0 then (set_dev g (wr_d w) dd, ?w\<lparr>wr_open_written := True\<rparr>) else (g, w))"
    using assms(3) iw by (cases "wr_frame_count w = 0") (simp_all add: open_slot_def Let_def)
  show "disk_ok (gr_devs g1 ! wr_d w)" "same_data (gr_devs g ! wr_d w) (gr_devs g1 ! wr_d w)"
    "sb_write_ptr_chunk (dv_sb (gr_devs g1 ! wr_d w)) = sb_write_ptr_chunk (dv_sb (gr_devs g ! wr_d w))"
    using r I assms(1,2) by (simp_all split: if_splits)
  show "length (gr_devs g1) = length (gr_devs g)" "wr_d w1 = wr_d w" "wr_group w1 = wr_group w" "wr_chunk w1 = wr_chunk w"
    "wr_seg_id w1 = wr_seg_id w" "w_inv d w1 fs = w_inv d w fs"
    using r by (simp_all add: w_inv_def split: if_splits)
qed

text \<open>Moving the disk to a state with the same data keeps the closed segments.\<close>

lemma seg_ok_same_data:
  assumes "seg_ok d c x" "dev_ok d" "dev_ok d'" "same_data d d'" "c < dN d"
  shows "seg_ok d' c x"
proof -
  obtain s fs where x: "x = (s, fs)" by (cases x)
  have s: "sl_start_chunk s = of_nat c" "offs fs (length fs) \<le> dC d" using assms(1) by (simp_all add: seg_ok_def x)
  have "unat (of_nat c :: u64) = c" using assms(5) unat_64_lt[of "dv_data_chunks d"] by (intro unat_of_nat_small) simp
  then have "dD d \<le> unat (chunk_byte_off d (sl_start_chunk s))"
    using unat_chunk_byte_off(1)[OF assms(2), of "of_nat c"] assms(5) s(1) by simp
  then have "plays (rsdk_play_open d' s) (dv_crypto d') (sl_seg_id s) fs"
    using assms(1,4) s by (intro plays_cong[OF _ assms(2,3)]) (simp_all add: seg_ok_def x same_data_def)
  then show ?thesis using assms(1,4) by (simp add: seg_ok_def x same_data_def)
qed

text \<open>Putting a frame into one chunk keeps the segments in the others.\<close>

lemma seg_ok_put:
  assumes sg: "seg_ok d c x" and ok: "dev_ok d" "dC d < 2 ^ 31" "w_inv d w fs" "frame_ok (dC d) f"
    and room: "offs fs (length fs) + need_nat f \<le> dC d" and p: "put_frame d w f = (d', w')"
    and c: "c < dN d" "wr_chunk w = of_nat b" "b < dN d" "b \<noteq> c"
  shows "seg_ok d' c x"
proof -
  obtain s gs where x: "x = (s, gs)" by (cases x)
  note P = put_frame_inv[OF ok room p]
  have u: "unat (of_nat a :: u64) = a" if "a < dN d" for a
    using that unat_64_lt[of "dv_data_chunks d"] by (intro unat_of_nat_small) simp
  have o: "unat (chunk_byte_off d (sl_start_chunk s)) = dD d + c * dC d"
    using unat_chunk_byte_off(1)[OF ok(1), of "of_nat c"] c(1) u sg by (simp add: seg_ok_def x)
  have b: "unat (wr_base_off w) = dD d + b * dC d"
    using w_inv_base(1)[OF ok(3,1)] c(2,3) u by simp
  have "c * dC d + dC d \<le> b * dC d \<or> b * dC d + dC d \<le> c * dC d"
  proof (cases "c < b")
    case True
    then have "(c + 1) * dC d \<le> b * dC d" by (intro mult_le_mono1) simp
    then show ?thesis by simp
  next
    case False
    then have "(b + 1) * dC d \<le> c * dC d" using c(4) by (intro mult_le_mono1) simp
    then show ?thesis by simp
  qed
  then have "plays (rsdk_play_open d' s) (dv_crypto d') (sl_seg_id s) gs"
    using sg P o b
    by (intro plays_cong[OF _ ok(1) P(2)]) (auto simp: seg_ok_def x)
  then show ?thesis using sg P by (simp add: seg_ok_def x)
qed

lemma mod_ring_distinct:
  assumes "i < j" "j < (N::nat)"
  shows "(w + i) mod N \<noteq> (w + j) mod N"
proof
  assume "(w + i) mod N = (w + j) mod N"
  then have "N dvd (w + j) - (w + i)" using assms(1) mod_eq_dvd_iff_nat[of "w + i" "w + j" N] by simp
  then have "N dvd j - i" by simp
  moreover have "0 < j - i" "j - i < N" using assms by simp_all
  ultimately show False using nat_dvd_not_less by blast
qed

lemma put_step:
  assumes core: "rec_core g w w0 cl cur" and f: "frame_ok (dC (gr_devs g ! wr_d w)) f"
    and room: "seg_size cur + need_nat f \<le> dC (gr_devs g ! wr_d w)"
    and m: "length cl < dN (gr_devs g ! wr_d w)"
    and os: "open_slot g w f = (g1, w1)" and p: "put_frame (gr_devs g1 ! wr_d w1) w1 f = (d2, w2)"
  shows "rec_core (set_dev g1 (wr_d w1) d2) w2 w0 cl (cur @ [f])"
    "dN d2 = dN (gr_devs g ! wr_d w)" "dC d2 = dC (gr_devs g ! wr_d w)" "wr_d w2 = wr_d w"
    "dv_crypto d2 = dv_crypto (gr_devs g ! wr_d w)" "gr_devs (set_dev g1 (wr_d w1) d2) ! wr_d w2 = d2"
proof -
  let ?d = "gr_devs g ! wr_d w"
  let ?d1 = "gr_devs g1 ! wr_d w"
  have c: "\<not> wr_group w" "wr_d w < length (gr_devs g)" "disk_ok ?d" "sb_hdd_full (dv_sb ?d) \<noteq> RSDK_HDDFULL_STOP"
    "w_inv ?d w cur" "wr_chunk w = of_nat ((w0 + length cl) mod dN ?d)"
    "unat (sb_write_ptr_chunk (dv_sb ?d)) = (w0 + length cl + 1) mod dN ?d"
    "\<And>j. j < length cl \<Longrightarrow> seg_ok ?d ((w0 + j) mod dN ?d) (cl ! j)"
    using core by (simp_all add: rec_core_def)
  note O = open_slot_single[OF c(2,3) os]
  have ok: "dev_ok ?d" "dev_ok ?d1" "dC ?d1 < 2 ^ 31" using c(3) O(1) by (simp_all add: disk_ok_def)
  have same: "dN ?d1 = dN ?d" "dC ?d1 = dC ?d" "dv_crypto ?d1 = dv_crypto ?d"
    "sb_hdd_full (dv_sb ?d1) = sb_hdd_full (dv_sb ?d)" "slot_count ?d1 = slot_count ?d"
    using O(2) by (simp_all add: same_data_def)
  have w1: "w_inv ?d1 w1 cur" using w_inv_same_data[OF c(5) ok(1) O(2)] O(9) by simp
  have room1: "offs cur (length cur) + need_nat f \<le> dC ?d1" using room same by (simp add: seg_size_def)
  have p1: "put_frame ?d1 w1 f = (d2, w2)" using p O(5) by simp
  note P = put_frame_inv[OF ok(2,3) w1 _ room1 p1]
  have f1: "frame_ok (dC ?d1) f" using f same by simp
  note P = P[OF f1]
  have dev2: "gr_devs (set_dev g1 (wr_d w1) d2) ! wr_d w2 = d2" using O(4,5) P(10) c(2) by simp
  have N: "0 < dN ?d" using m by simp
  have segs: "seg_ok d2 ((w0 + j) mod dN ?d) (cl ! j)" if j: "j < length cl" for j
  proof (rule seg_ok_put[OF _ ok(2,3) w1 f1 room1 p1])
    show "seg_ok ?d1 ((w0 + j) mod dN ?d) (cl ! j)"
      by (rule seg_ok_same_data[OF c(8)[OF j] ok(1,2) O(2)]) (use N in simp)
    show "(w0 + j) mod dN ?d < dN ?d1" "(w0 + length cl) mod dN ?d < dN ?d1" using N same by simp_all
    show "wr_chunk w1 = of_nat ((w0 + length cl) mod dN ?d)" using O(7) c(6) by simp
    show "(w0 + length cl) mod dN ?d \<noteq> (w0 + j) mod dN ?d" using mod_ring_distinct[OF j m] by metis
  qed
  have "disk_ok d2" using O(1) P(2,5,12) by (simp add: disk_ok_def)
  moreover have "wr_group w2 = wr_group w" using p1 O(6) by (auto simp: put_frame_def Let_def split: option.splits)
  ultimately show "rec_core (set_dev g1 (wr_d w1) d2) w2 w0 cl (cur @ [f])"
    unfolding rec_core_def dev2 using c O P same segs by simp
  show "dN d2 = dN ?d" "dC d2 = dC ?d" "wr_d w2 = wr_d w" "dv_crypto d2 = dv_crypto ?d"
    "gr_devs (set_dev g1 (wr_d w1) d2) ! wr_d w2 = d2"
    using P same O dev2 by simp_all
qed

text \<open>Closing the current segment and starting the next one.\<close>

lemma rollover_step:
  assumes core: "rec_core g w w0 cl cur" and ne: "cur \<noteq> []"
    and fin: "finalize_seg g w = (RSDK_OK, g1)" and st: "start_seg fl g1 w = (RSDK_OK, g2, w2)"
  shows "\<exists>s. rec_core g2 w2 w0 (cl @ [(s, cur)]) []"
    "dN (gr_devs g2 ! wr_d w2) = dN (gr_devs g ! wr_d w)" "dC (gr_devs g2 ! wr_d w2) = dC (gr_devs g ! wr_d w)"
    "wr_d w2 = wr_d w" "dv_crypto (gr_devs g2 ! wr_d w2) = dv_crypto (gr_devs g ! wr_d w)"
proof -
  let ?d = "gr_devs g ! wr_d w"
  let ?s = "fill_slot g w True"
  have c: "\<not> wr_group w" "wr_d w < length (gr_devs g)" "disk_ok ?d" "sb_hdd_full (dv_sb ?d) \<noteq> RSDK_HDDFULL_STOP"
    "w_inv ?d w cur" "wr_chunk w = of_nat ((w0 + length cl) mod dN ?d)"
    "unat (sb_write_ptr_chunk (dv_sb ?d)) = (w0 + length cl + 1) mod dN ?d"
    "\<And>j. j < length cl \<Longrightarrow> seg_ok ?d ((w0 + j) mod dN ?d) (cl ! j)"
    using core by (simp_all add: rec_core_def)
  have ok: "dev_ok ?d" "dC ?d < 2 ^ 31" using c(3) by (simp_all add: disk_ok_def)
  obtain e d1 where iw: "rsdk_index_write ?d ?s = (e, d1)" by fastforce
  have "wr_frame_count w \<noteq> 0" using w_inv_count(2)[OF c(5) ok(2)] ne by simp
  then have g1: "g1 = set_dev g (wr_d w) d1" using fin iw by (simp add: finalize_seg_def)
  note I = index_write_data[OF c(3) _ iw, simplified]
  have d1: "gr_devs g1 ! wr_d w = d1" "wr_d w < length (gr_devs g1)" using g1 c(2) by simp_all
  note S = start_seg_single[OF c(1) d1(2) _ st, unfolded d1(1), OF I(2)]
  let ?d2 = "gr_devs g2 ! wr_d w"
  have sd: "same_data ?d ?d2" by (rule same_data_trans[OF I(3) S(2)])
  have ok2: "dev_ok ?d2" using S(1) by (simp add: disk_ok_def)
  have same: "dN ?d2 = dN ?d" "dC ?d2 = dC ?d" "dv_crypto ?d2 = dv_crypto ?d"
    "sb_hdd_full (dv_sb ?d2) = sb_hdd_full (dv_sb ?d)"
    using sd by (simp_all add: same_data_def)
  have N: "0 < dN ?d" using c(5) by (simp add: w_inv_def)
  have dN1: "dN d1 = dN ?d" "sb_hdd_full (dv_sb d1) = sb_hdd_full (dv_sb ?d)" using I(3) by (simp_all add: same_data_def)
  have "dev_ok d1" using I(2) by (simp add: disk_ok_def)
  then have al: "rsdk_dev_alloc_chunk d1 = (r, dd) \<Longrightarrow>
      sb_write_ptr_chunk (dv_sb dd) = of_nat ((unat (sb_write_ptr_chunk (dv_sb d1)) + 1) mod dN ?d)" for r dd
    using alloc_overwrite(2)[of d1] N dN1 c(4) by auto
  have u: "unat (of_nat a :: u64) = a" if "a < dN ?d" for a
    using that unat_64_lt[of "dv_data_chunks ?d"] by (intro unat_of_nat_small) simp
  have wp2: "unat (sb_write_ptr_chunk (dv_sb ?d2)) = (w0 + length (cl @ [(?s, cur)]) + 1) mod dN ?d"
  proof -
    have "sb_write_ptr_chunk (dv_sb ?d2) = of_nat (((w0 + length cl + 1) mod dN ?d + 1) mod dN ?d)"
      using S(8) al I(4) c(7) by auto
    also have "((w0 + length cl + 1) mod dN ?d + 1) mod dN ?d = (w0 + length cl + 1 + 1) mod dN ?d"
      by (rule mod_add_left_eq)
    finally show ?thesis using u[of "(w0 + length cl + 1 + 1) mod dN ?d"] N by simp
  qed
  have ch2: "wr_chunk w2 = of_nat ((w0 + length (cl @ [(?s, cur)])) mod dN ?d)"
  proof -
    have "wr_chunk w2 = of_nat (unat (sb_write_ptr_chunk (dv_sb ?d)))" using S(7) I(4) by simp
    then show ?thesis unfolding c(7) by simp
  qed
  show "\<exists>s. rec_core g2 w2 w0 (cl @ [(s, cur)]) []"
  proof
    have new: "seg_ok ?d ((w0 + length cl) mod dN ?d) (?s, cur)"
      using w_inv_plays[OF c(5,3) ne, of ?s] c(5,6) by (simp add: seg_ok_def w_inv_def)
    have "seg_ok ?d2 ((w0 + j) mod dN ?d) ((cl @ [(?s, cur)]) ! j)" if "j < length (cl @ [(?s, cur)])" for j
      using that new c(8) by (intro seg_ok_same_data[OF _ ok(1) ok2 sd]) (auto simp: nth_append less_Suc_eq N)
    then show "rec_core g2 w2 w0 (cl @ [(?s, cur)]) []"
      unfolding rec_core_def S(5) using S(1,3,4,6) c(2,4) same wp2 ch2 d1(2) g1 by simp
  qed
  show "dN (gr_devs g2 ! wr_d w2) = dN ?d" "dC (gr_devs g2 ! wr_d w2) = dC ?d" "wr_d w2 = wr_d w"
    "dv_crypto (gr_devs g2 ! wr_d w2) = dv_crypto ?d"
    using same S(5) by simp_all
qed

lemma closed_size_snoc: "closed_size (cl @ [(s, gs)]) = closed_size cl + seg_size gs"
  by (simp add: closed_size_def)

lemma mult_less_imp_less: "a * c < b * (c::nat) \<Longrightarrow> a < b"
  by simp

lemma write_step:
  assumes inv: "rec_inv g w w0 cl cur" and f: "frame_ok (dC (gr_devs g ! wr_d w)) f"
    and tot: "2 * (closed_size cl + seg_size cur + need_nat f) < dN (gr_devs g ! wr_d w) * dC (gr_devs g ! wr_d w)"
    and r: "rsdk_rec_write_frame fl g w f = (RSDK_OK, g', w')"
  shows "\<exists>cl' cur'. rec_inv g' w' w0 cl' cur' \<and> cur' \<noteq> [] \<and>
      concat (map snd cl') @ cur' = concat (map snd cl) @ cur @ [f] \<and>
      closed_size cl' + seg_size cur' = closed_size cl + seg_size cur + need_nat f"
    "dN (gr_devs g' ! wr_d w') = dN (gr_devs g ! wr_d w)" "dC (gr_devs g' ! wr_d w') = dC (gr_devs g ! wr_d w)"
    "wr_d w' = wr_d w" "dv_crypto (gr_devs g' ! wr_d w') = dv_crypto (gr_devs g ! wr_d w)"
proof -
  let ?d = "gr_devs g ! wr_d w"
  have core: "rec_core g w w0 cl cur" and J: "length cl * dC ?d \<le> 2 * closed_size cl + seg_size cur"
    using inv by (simp_all add: rec_inv_def)
  have c: "disk_ok ?d" "w_inv ?d w cur" using core by (simp_all add: rec_core_def)
  have ok: "dev_ok ?d" "dC ?d < 2 ^ 31" using c(1) by (simp_all add: disk_ok_def)
  have chunk: "sb_chunk_sectors (dv_sb ?d) * RSDK_SEC = dv_chunk_bytes ?d"
    using ok(1) by (simp add: dev_ok_def geom_ok_def)
  have need: "need_nat f \<le> dC ?d" "unat (frame_need f) = need_nat f"
    using need_nat_le[OF dev_ok_128[OF ok(1)] f] frame_need_nat[OF f ok(2) dev_ok_128[OF ok(1)]] by simp_all
  have cur: "unat (wr_cur_off w) = seg_size cur" "seg_size cur \<le> dC ?d"
    using c(2) by (simp_all add: w_inv_def seg_size_def)
  have sum: "unat (wr_cur_off w + frame_need f) = seg_size cur + need_nat f"
    using cur need ok(2) by (subst unat_add_nowrap) simp_all
  have cond: "(0 < wr_frame_count w \<and> dv_chunk_bytes ?d < ucast (wr_cur_off w + frame_need f)) =
      (cur \<noteq> [] \<and> dC ?d < seg_size cur + need_nat f)"
    using w_inv_count(2)[OF c(2) ok(2)] sum by (simp add: word_less_nat_alt unat_gt_0 word_neq_0_conv[symmetric])
  obtain e ga wa where mr: "make_room fl g w f = (e, ga, wa)" by (cases "make_room fl g w f") auto
  have e: "e = RSDK_OK" using r mr by (auto simp: rsdk_rec_write_frame_def split: if_splits prod.splits)
  obtain g1 w1 where os: "open_slot ga wa f = (g1, w1)" by fastforce
  obtain d2 w2 where pf: "put_frame (gr_devs g1 ! wr_d w1) w1 f = (d2, w2)" by fastforce
  have fin: "g' = set_dev g1 (wr_d w1) d2" "w' = w2"
    using r mr e os pf by (auto simp: rsdk_rec_write_frame_def Let_def split: if_splits)
  have "((\<exists>cl' cur'. rec_inv g' w' w0 cl' cur' \<and> cur' \<noteq> [] \<and>
      concat (map snd cl') @ cur' = concat (map snd cl) @ cur @ [f] \<and>
      closed_size cl' + seg_size cur' = closed_size cl + seg_size cur + need_nat f) \<and>
    dN (gr_devs g' ! wr_d w') = dN ?d \<and> dC (gr_devs g' ! wr_d w') = dC ?d \<and>
    wr_d w' = wr_d w \<and> dv_crypto (gr_devs g' ! wr_d w') = dv_crypto ?d)"
  proof (cases "cur \<noteq> [] \<and> dC ?d < seg_size cur + need_nat f")
    case True
    obtain gf where fs: "finalize_seg g w = (RSDK_OK, gf)" "start_seg fl gf w = (RSDK_OK, ga, wa)"
      using mr e True cond chunk by (auto simp: make_room_def Let_def split: prod.splits if_splits)
    note R = rollover_step[OF core conjunct1[OF True] fs]
    obtain s where s: "rec_core ga wa w0 (cl @ [(s, cur)]) []" using R(1) by blast
    have J': "length (cl @ [(s, cur)]) * dC ?d \<le> 2 * closed_size (cl @ [(s, cur)]) + need_nat f"
      using J True by (simp add: closed_size_snoc)
    also have "\<dots> < dN ?d * dC ?d" using tot by (simp add: closed_size_snoc)
    finally have m: "length (cl @ [(s, cur)]) < dN ?d" by (rule mult_less_imp_less)
    have fa: "frame_ok (dC (gr_devs ga ! wr_d wa)) f" "seg_size [] + need_nat f \<le> dC (gr_devs ga ! wr_d wa)"
      "length (cl @ [(s, cur)]) < dN (gr_devs ga ! wr_d wa)"
      using f R(2,3) need(1) m by (simp_all add: seg_size_def)
    note P = put_step[OF s fa os pf, folded fin]
    have "rec_inv g' w' w0 (cl @ [(s, cur)]) [f]"
      using P J' R(2,3) seg_size_snoc[of "[]" f] by (simp add: rec_inv_def seg_size_def fin)
    then show ?thesis
      using P R seg_size_snoc[of "[]" f]
      by (intro conjI exI[of _ "cl @ [(s, cur)]"] exI[of _ "[f]"]) (simp_all add: closed_size_snoc seg_size_def fin)
  next
    case False
    have ga: "ga = g" "wa = w"
      using mr False cond chunk by (auto simp: make_room_def Let_def)
    have room: "seg_size cur + need_nat f \<le> dC ?d"
      using False need(1) by (cases "cur = []") (auto simp: seg_size_def)
    have "length cl * dC ?d \<le> 2 * (closed_size cl + seg_size cur + need_nat f)"
      by (rule order_trans[OF J]) simp
    then have "length cl * dC ?d < dN ?d * dC ?d" using tot by (rule le_less_trans)
    then have m: "length cl < dN ?d" by (rule mult_less_imp_less)
    note P = put_step[OF core f room m os[unfolded ga] pf, folded fin]
    have "rec_inv g' w' w0 cl (cur @ [f])"
      using P J by (simp add: rec_inv_def seg_size_snoc fin)
    then show ?thesis
      using P by (intro conjI exI[of _ cl] exI[of _ "cur @ [f]"]) (simp_all add: seg_size_snoc fin)
  qed
  then show "\<exists>cl' cur'. rec_inv g' w' w0 cl' cur' \<and> cur' \<noteq> [] \<and>
      concat (map snd cl') @ cur' = concat (map snd cl) @ cur @ [f] \<and>
      closed_size cl' + seg_size cur' = closed_size cl + seg_size cur + need_nat f"
    "dN (gr_devs g' ! wr_d w') = dN ?d" "dC (gr_devs g' ! wr_d w') = dC ?d"
    "wr_d w' = wr_d w" "dv_crypto (gr_devs g' ! wr_d w') = dv_crypto ?d"
    by blast+
qed

lemma rec_run_inv:
  assumes "rec_inv g w w0 cl cur" "\<And>f. f \<in> set fs \<Longrightarrow> frame_ok (dC (gr_devs g ! wr_d w)) f"
    "2 * (closed_size cl + seg_size cur + sum_list (map need_nat fs)) < dN (gr_devs g ! wr_d w) * dC (gr_devs g ! wr_d w)"
    "rec_run fl g w fs = (RSDK_OK, g', w')"
  shows "\<exists>cl' cur'. rec_inv g' w' w0 cl' cur' \<and> concat (map snd cl') @ cur' = concat (map snd cl) @ cur @ fs \<and>
      (cur \<noteq> [] \<or> fs \<noteq> [] \<longrightarrow> cur' \<noteq> []) \<and> wr_d w' = wr_d w \<and> dv_crypto (gr_devs g' ! wr_d w') = dv_crypto (gr_devs g ! wr_d w)"
  using assms
proof (induction fs arbitrary: g w cl cur)
  case Nil
  then show ?case by auto
next
  case (Cons f fs)
  obtain g1 w1 where st: "rsdk_rec_write_frame fl g w f = (RSDK_OK, g1, w1)" and run: "rec_run fl g1 w1 fs = (RSDK_OK, g', w')"
    using Cons.prems(4) by (auto split: prod.splits if_splits)
  have fo: "frame_ok (dC (gr_devs g ! wr_d w)) f" using Cons.prems(2) by simp
  have t1: "2 * (closed_size cl + seg_size cur + need_nat f) < dN (gr_devs g ! wr_d w) * dC (gr_devs g ! wr_d w)"
    using Cons.prems(3) by simp
  note W = write_step[OF Cons.prems(1) fo t1 st]
  obtain cl1 cur1 where o: "rec_inv g1 w1 w0 cl1 cur1" "cur1 \<noteq> []"
    "concat (map snd cl1) @ cur1 = concat (map snd cl) @ cur @ [f]"
    "closed_size cl1 + seg_size cur1 = closed_size cl + seg_size cur + need_nat f"
    using W(1) by blast
  have "\<exists>cl' cur'. rec_inv g' w' w0 cl' cur' \<and> concat (map snd cl') @ cur' = concat (map snd cl1) @ cur1 @ fs \<and>
      (cur1 \<noteq> [] \<or> fs \<noteq> [] \<longrightarrow> cur' \<noteq> []) \<and> wr_d w' = wr_d w1 \<and> dv_crypto (gr_devs g' ! wr_d w') = dv_crypto (gr_devs g1 ! wr_d w1)"
    using Cons.prems(2,3) W(2,3) o(4) by (intro Cons.IH[OF o(1) _ _ run]) simp_all
  then obtain cl' cur' where r: "rec_inv g' w' w0 cl' cur'" "concat (map snd cl') @ cur' = concat (map snd cl1) @ cur1 @ fs"
    "cur1 \<noteq> [] \<or> fs \<noteq> [] \<longrightarrow> cur' \<noteq> []" "wr_d w' = wr_d w1" "dv_crypto (gr_devs g' ! wr_d w') = dv_crypto (gr_devs g1 ! wr_d w1)"
    by blast
  have "concat (map snd cl') @ cur' = concat (map snd cl) @ cur @ f # fs"
    using r(2) o(3) by (metis append.assoc append_Cons append_Nil)
  then show ?case using r(1,3,4,5) W(4,5) o(2) by (intro exI[of _ cl'] exI[of _ cur']) simp
qed

section \<open>Record, close, query, play\<close>

lemma flush_data:
  assumes "disk_ok d"
  shows "disk_ok (rsdk_dev_flush d)" "same_data d (rsdk_dev_flush d)"
proof -
  have ok: "dev_ok d" "0 < slot_count d" using assms by (simp_all add: disk_ok_def)
  show "disk_ok (rsdk_dev_flush d)" using assms by (simp add: disk_ok_def)
  have "9728 \<le> dD d" using slot_off_nat(2,3)[OF ok(1), of 0] ok(2) by simp
  then show "same_data d (rsdk_dev_flush d)"
    using ok(1) by (simp add: same_data_def dev_ok_def st_sealed_def flush_frame)
qed

definition delivered :: "frame_hdr \<times> bytes \<Rightarrow> rsdk_frame" where
  "delivered = (\<lambda>(h, b). \<lparr>fr_chn = fh_chn h, fr_stream = fh_stream h, fr_codec = fh_codec h,
     fr_frame_type = fh_frame_type h, fr_pts = fh_pts h, fr_wall_time = fh_wall_time h, fr_data = b\<rparr>)"

lemma delivered_out_frame: "delivered (out_frame cr seg fs k) = fs ! k"
  by (simp add: delivered_def out_frame_def frame_header_def Let_def)

lemma seg_ok_played:
  assumes "seg_ok d c (s, fs)" "length fs < n"
  shows "map delivered (play_all n (rsdk_play_open d s)) = fs"
proof -
  have "play_all n (rsdk_play_open d s) = map (out_frame (dv_crypto d) (sl_seg_id s) fs) [0..<length fs]"
    using assms by (intro play_all_from) (simp_all add: seg_ok_def)
  then show ?thesis by (simp add: delivered_out_frame comp_def map_nth)
qed

lemma rec_open_inv:
  assumes "i < length (gr_devs g)" "disk_ok (gr_devs g ! i)" "sb_hdd_full (dv_sb (gr_devs g ! i)) \<noteq> RSDK_HDDFULL_STOP"
    and "rsdk_rec_open fl g i chn rt = (Inr w, g1)"
  shows "rec_inv g1 w (unat (sb_write_ptr_chunk (dv_sb (gr_devs g ! i)))) [] []" "wr_d w = i"
    "same_data (gr_devs g ! i) (gr_devs g1 ! i)"
proof -
  let ?w = "writer0\<lparr>wr_d := i, wr_chn := chn, wr_rectype := rt\<rparr>"
  let ?d = "gr_devs g ! i"
  have st: "start_seg fl g ?w = (RSDK_OK, g1, w)"
    using assms(4) by (auto simp: rsdk_rec_open_def split: prod.splits if_splits)
  have w: "\<not> wr_group ?w" "wr_d ?w = i" by (simp_all add: writer0_def)
  note S = start_seg_single[OF w(1) _ _ st, unfolded w(2), OF assms(1,2)]
  have same: "dN (gr_devs g1 ! i) = dN ?d" "sb_hdd_full (dv_sb (gr_devs g1 ! i)) = sb_hdd_full (dv_sb ?d)"
    using S(2) by (simp_all add: same_data_def)
  have N: "0 < dN ?d" using S(3) same by (simp add: w_inv_def)
  have ok: "dev_ok ?d" using assms(2) by (simp add: disk_ok_def)
  note A = alloc_overwrite[OF ok assms(3) N]
  let ?w0 = "unat (sb_write_ptr_chunk (dv_sb ?d))"
  have "(?w0 + 1) mod dN ?d < dN ?d" using N by simp
  then have "(?w0 + 1) mod dN ?d < 2 ^ 64" using unat_64_lt[of "dv_data_chunks ?d"] by simp
  then have u: "unat (of_nat ((?w0 + 1) mod dN ?d) :: u64) = (?w0 + 1) mod dN ?d" by (intro unat_of_nat_small) simp
  have wp: "unat (sb_write_ptr_chunk (dv_sb (gr_devs g1 ! i))) = (?w0 + 1) mod dN ?d"
    using S(8) A(2) u by auto
  show "rec_inv g1 w ?w0 [] []"
    using S assms(1,3) same wp A(1) by (simp add: rec_inv_def rec_core_def closed_size_def)
  show "wr_d w = i" "same_data ?d (gr_devs g1 ! i)" using S(2,5) by simp_all
qed

lemma query_complete:
  assumes "i < slot_count d" "slot_matches t0 (if t1 = 0 then 0xFFFFFFFF else t1) chn rt (slot_at d i)" "int (slot_count d) \<le> cap"
  shows "slot_at d i \<in> set (rsdk_index_query d t0 t1 chn rt cap)"
proof -
  let ?P = "slot_matches t0 (if t1 = 0 then 0xFFFFFFFF else t1) chn rt"
  have n: "slot_count d \<le> nat cap" using assms(3) by linarith
  have "length (filter ?P (map (slot_at d) [0..<slot_count d])) \<le> slot_count d"
    by (rule order_trans[OF length_filter_le]) simp
  then have "take (nat cap) (filter ?P (map (slot_at d) [0..<slot_count d])) = filter ?P (map (slot_at d) [0..<slot_count d])"
    by (rule take_all[OF order_trans[OF _ n]])
  moreover have "0 < cap" using assms(1,3) by linarith
  ultimately have "mset (rsdk_index_query d t0 t1 chn rt cap) = mset (filter ?P (map (slot_at d) [0..<slot_count d]))"
    using query_spec(1) by metis
  then have "set (rsdk_index_query d t0 t1 chn rt cap) = set (filter ?P (map (slot_at d) [0..<slot_count d]))"
    by (metis set_mset_mset)
  then show ?thesis using assms(1,2) by auto
qed

lemma rd_slot_flush': "dev_ok d \<Longrightarrow> i < slot_count d \<Longrightarrow> slot_at (rsdk_dev_flush d) i = slot_at d i"
  by (rule rd_slot_flush) (simp_all add: unat_slot_index)

lemma plays_seal: "plays (rsdk_play_open d (seal_sl s)) cr seg fs = plays (rsdk_play_open d s) cr seg fs"
  by (simp add: plays_def rsdk_play_open_def Let_def)

lemma close_segments:
  assumes inv: "rec_inv g w w0 cl cur" and ne: "cur \<noteq> []" and cl: "rsdk_rec_close g w = (e, g')"
  defines "s \<equiv> fill_slot g w True" and "d' \<equiv> gr_devs g' ! wr_d w"
  shows "e = RSDK_OK"
    and "\<forall>j < length cl. \<exists>c. seg_ok d' c (cl ! j)"
    and "\<exists>c. seg_ok d' c (s, cur)" and "seg_ok d' c (s, cur) \<Longrightarrow> seg_ok d' c (seal_sl s, cur)"
    and "\<exists>i < slot_count d'. slot_at d' i = seal_sl s" and "disk_ok d'"
proof -
  let ?d = "gr_devs g ! wr_d w"
  have c: "\<not> wr_group w" "wr_d w < length (gr_devs g)" "disk_ok ?d" "w_inv ?d w cur"
    "\<And>j. j < length cl \<Longrightarrow> seg_ok ?d ((w0 + j) mod dN ?d) (cl ! j)" 
    "wr_chunk w = of_nat ((w0 + length cl) mod dN ?d)"
    using inv by (simp_all add: rec_inv_def rec_core_def)
  have ok: "dev_ok ?d" "dC ?d < 2 ^ 31" using c(3) by (simp_all add: disk_ok_def)
  have N: "0 < dN ?d" using c(4) by (simp add: w_inv_def)
  obtain e1 d1 where iw: "rsdk_index_write ?d s = (e1, d1)" by fastforce
  have wf: "sl_wf s" by (simp add: s_def)
  note I = index_write_data[OF c(3) wf iw]
  have "wr_frame_count w \<noteq> 0" using w_inv_count(2)[OF c(4) ok(2)] ne by simp
  then have r: "e = e1" "g' = set_dev (set_dev g (wr_d w) d1) (wr_d w) (rsdk_dev_flush d1)"
    using cl iw c(1,2) by (simp_all add: rsdk_rec_close_def finalize_seg_def s_def)
  have d': "d' = rsdk_dev_flush d1" using r(2) c(2) by (simp add: d'_def)
  note F = flush_data[OF I(2)]
  have sd: "same_data ?d d'" unfolding d' by (rule same_data_trans[OF I(3) F(2)])
  show "disk_ok d'" unfolding d' by (rule F(1))
  then have ok': "dev_ok d'" by (simp add: disk_ok_def)
  show "e = RSDK_OK" using r(1) I(1) by simp
  show "\<forall>j < length cl. \<exists>c. seg_ok d' c (cl ! j)"
    using seg_ok_same_data[OF c(5) ok(1) ok' sd] N by auto
  have "seg_ok ?d ((w0 + length cl) mod dN ?d) (s, cur)"
    using w_inv_plays[OF c(4,3) ne, of s] c(4,6) by (simp add: seg_ok_def w_inv_def s_def)
  then have "seg_ok d' ((w0 + length cl) mod dN ?d) (s, cur)"
    by (rule seg_ok_same_data[OF _ ok(1) ok' sd]) (use N in simp)
  then show "\<exists>c. seg_ok d' c (s, cur)" by blast
  show "seg_ok d' c (s, cur) \<Longrightarrow> seg_ok d' c (seal_sl s, cur)"
    by (simp add: seg_ok_def plays_seal)
  obtain i where i: "unat i < slot_count ?d" "rd_slot d1 i = seal_sl s" using I(5) by blast
  have sc: "slot_count d1 = slot_count ?d" using I(3) by (simp add: same_data_def)
  have d1ok: "dev_ok d1" using I(2) by (simp add: disk_ok_def)
  have "slot_at d' (unat i) = seal_sl s"
    unfolding d' using rd_slot_flush'[OF d1ok, of "unat i"] i sc by simp
  then show "\<exists>i < slot_count d'. slot_at d' i = seal_sl s"
    using i(1) sc d' by (intro exI[of _ "unat i"]) simp
qed

lemma disk_ok_demo: "disk_ok (demo_disk h)"
  by (simp add: disk_ok_def demo_disk_ok)

lemma start_seg_progress:
  assumes "\<not> wr_group w" "disk_ok (gr_devs g ! wr_d w)" "sb_hdd_full (dv_sb (gr_devs g ! wr_d w)) \<noteq> RSDK_HDDFULL_STOP"
    "0 < dN (gr_devs g ! wr_d w)"
  shows "\<exists>g' w'. start_seg fl g w = (RSDK_OK, g', w')"
proof -
  have ok: "dev_ok (gr_devs g ! wr_d w)" using assms(2) by (simp add: disk_ok_def)
  show ?thesis
    using alloc_overwrite(2)[OF ok assms(3,4)] assms(1)
    by (simp add: start_seg_def Let_def split: prod.split)
qed

lemma write_progress:
  assumes core: "rec_core g w w0 cl cur" and f: "frame_ok (dC (gr_devs g ! wr_d w)) f"
  shows "\<exists>g' w'. rsdk_rec_write_frame fl g w f = (RSDK_OK, g', w')"
proof -
  let ?d = "gr_devs g ! wr_d w"
  have c: "\<not> wr_group w" "wr_d w < length (gr_devs g)" "disk_ok ?d" "sb_hdd_full (dv_sb ?d) \<noteq> RSDK_HDDFULL_STOP"
    "w_inv ?d w cur"
    using core by (simp_all add: rec_core_def)
  have ok: "dev_ok ?d" "dC ?d < 2 ^ 31" using c(3) by (simp_all add: disk_ok_def)
  have len: "unat (frame_len f) = length (fr_data f)" by (rule frame_len_nat[OF f ok(2)])
  have chunk: "sb_chunk_sectors (dv_sb ?d) * RSDK_SEC = dv_chunk_bytes ?d"
    using ok(1) by (simp add: dev_ok_def geom_ok_def)
  have pos: "frame_len f \<noteq> 0" using len f by (auto simp: frame_ok_def)
  have "unat (64 + ucast (frame_len f) :: u64) = 64 + length (fr_data f)"
    using len f ok(2) by (subst unat_add_nowrap) (simp_all add: frame_ok_def)
  then have small: "\<not> sb_chunk_sectors (dv_sb ?d) * RSDK_SEC < 64 + ucast (frame_len f)"
    using f chunk by (simp add: word_less_nat_alt frame_ok_def)
  have "\<exists>ga wa. make_room fl g w f = (RSDK_OK, ga, wa)"
  proof (cases "wr_frame_count w > 0 \<and> ucast (wr_cur_off w + frame_need f) > sb_chunk_sectors (dv_sb ?d) * RSDK_SEC")
    case False
    then show ?thesis by (auto simp: make_room_def Let_def)
  next
    case True
    obtain e d1 where iw: "rsdk_index_write ?d (fill_slot g w True) = (e, d1)" by fastforce
    note I = index_write_data[OF c(3) _ iw, simplified]
    have fin: "finalize_seg g w = (RSDK_OK, set_dev g (wr_d w) d1)"
      using True iw I(1) word_neq_0_conv[of "wr_frame_count w"] by (simp add: finalize_seg_def)
    have "0 < dN d1" using I(3) c(5) by (simp add: same_data_def w_inv_def)
    then have "\<exists>g' w'. start_seg fl (set_dev g (wr_d w) d1) w = (RSDK_OK, g', w')"
      using c I by (intro start_seg_progress) (simp_all add: same_data_def)
    then show ?thesis using True fin by (simp add: make_room_def Let_def)
  qed
  then obtain ga wa where mr: "make_room fl g w f = (RSDK_OK, ga, wa)" by blast
  show ?thesis using pos small mr by (simp add: rsdk_rec_write_frame_def Let_def split: prod.split)
qed

lemma run_progress:
  assumes "rec_inv g w w0 cl cur" "\<And>f. f \<in> set fs \<Longrightarrow> frame_ok (dC (gr_devs g ! wr_d w)) f"
    "2 * (closed_size cl + seg_size cur + sum_list (map need_nat fs)) < dN (gr_devs g ! wr_d w) * dC (gr_devs g ! wr_d w)"
  shows "\<exists>g' w'. rec_run fl g w fs = (RSDK_OK, g', w')"
  using assms
proof (induction fs arbitrary: g w cl cur)
  case Nil
  then show ?case by simp
next
  case (Cons f fs)
  have fo: "frame_ok (dC (gr_devs g ! wr_d w)) f" using Cons.prems(2) by simp
  have core: "rec_core g w w0 cl cur" using Cons.prems(1) by (simp add: rec_inv_def)
  obtain g1 w1 where st: "rsdk_rec_write_frame fl g w f = (RSDK_OK, g1, w1)" using write_progress[OF core fo] by blast
  have t1: "2 * (closed_size cl + seg_size cur + need_nat f) < dN (gr_devs g ! wr_d w) * dC (gr_devs g ! wr_d w)"
    using Cons.prems(3) by simp
  note W = write_step[OF Cons.prems(1) fo t1 st]
  obtain cl1 cur1 where o: "rec_inv g1 w1 w0 cl1 cur1" "closed_size cl1 + seg_size cur1 = closed_size cl + seg_size cur + need_nat f"
    using W(1) by blast
  have "\<exists>g' w'. rec_run fl g1 w1 fs = (RSDK_OK, g', w')"
    using Cons.prems(2,3) W(2,3) o(2) by (intro Cons.IH[OF o(1)]) simp_all
  then show ?case using st by simp
qed

lemma slot_matches_closed:
  assumes "s = seal_sl (fill_slot g w True)"
  shows "slot_matches 0 0xFFFFFFFF (-1) (-1) s"
proof -
  have top: "x \<le> (0xFFFFFFFF :: u32)" for x
  proof -
    have "(0xFFFFFFFF :: u32) = - 1" by simp
    then show ?thesis by (simp only: word_n1_ge)
  qed
  have v: "sl_flags (fill_slot g w True) AND RSDK_SLOT_VALID \<noteq> 0"
    by (simp add: fill_slot_def Let_def RSDK_SLOT_VALID_def RSDK_SLOT_EVENT_def)
  show ?thesis
    using v top[of "sl_start_time s"] seal_sl_crc[of "fill_slot g w True"]
    by (simp add: assms slot_matches_def Let_def not_less)
qed

text \<open>A recording leaves segments of which every one can be played, and the last one can be queried.\<close>

lemma recording_segs:
  assumes i: "i < length (gr_devs g)" and d: "disk_ok (gr_devs g ! i)"
    and ow: "sb_hdd_full (dv_sb (gr_devs g ! i)) \<noteq> RSDK_HDDFULL_STOP" and N: "0 < dN (gr_devs g ! i)"
    and ne: "fs \<noteq> []" and fok: "\<And>f. f \<in> set fs \<Longrightarrow> frame_ok (dC (gr_devs g ! i)) f"
    and tot: "2 * sum_list (map need_nat fs) < dN (gr_devs g ! i) * dC (gr_devs g ! i)"
  shows "\<exists>w g1 g2 w2 g3 segs.
    rsdk_rec_open fl g i chn rt = (Inr w, g1) \<and> rec_run fl g1 w fs = (RSDK_OK, g2, w2) \<and>
    rsdk_rec_close g2 w2 = (RSDK_OK, g3) \<and> concat (map snd segs) = fs \<and>
    (\<forall>x \<in> set segs. \<exists>c. seg_ok (gr_devs g3 ! i) c x) \<and>
    segs \<noteq> [] \<and> (\<forall>cap \<ge> int (slot_count (gr_devs g3 ! i)).
       fst (last segs) \<in> set (rsdk_index_query (gr_devs g3 ! i) 0 0 (-1) (-1) cap))"
proof -
  let ?w0 = "writer0\<lparr>wr_d := i, wr_chn := chn, wr_rectype := rt\<rparr>"
  have "\<exists>g' w'. start_seg fl g ?w0 = (RSDK_OK, g', w')"
    using d ow N by (intro start_seg_progress) (simp_all add: writer0_def)
  then obtain w g1 where op: "rsdk_rec_open fl g i chn rt = (Inr w, g1)" by (auto simp: rsdk_rec_open_def)
  note O = rec_open_inv[OF i d ow op]
  have same: "dN (gr_devs g1 ! wr_d w) = dN (gr_devs g ! i)" "dC (gr_devs g1 ! wr_d w) = dC (gr_devs g ! i)"
    using O(2,3) by (simp_all add: same_data_def)
  have f1: "\<And>f. f \<in> set fs \<Longrightarrow> frame_ok (dC (gr_devs g1 ! wr_d w)) f"
    and t1: "2 * (closed_size [] + seg_size [] + sum_list (map need_nat fs)) < dN (gr_devs g1 ! wr_d w) * dC (gr_devs g1 ! wr_d w)"
    using fok tot same by (simp_all add: closed_size_def seg_size_def)
  obtain g2 w2 where run: "rec_run fl g1 w fs = (RSDK_OK, g2, w2)" using run_progress[OF O(1) f1 t1] by blast
  obtain cl cur where r: "rec_inv g2 w2 (unat (sb_write_ptr_chunk (dv_sb (gr_devs g ! i)))) cl cur"
    "concat (map snd cl) @ cur = fs" "cur \<noteq> []" "wr_d w2 = i"
    using rec_run_inv[OF O(1) f1 t1 run] ne O(2) by auto
  obtain e g3 where cls: "rsdk_rec_close g2 w2 = (e, g3)" by fastforce
  note C = close_segments[OF r(1,3) cls, unfolded r(4)]
  let ?s = "seal_sl (fill_slot g2 w2 True)"
  let ?segs = "cl @ [(?s, cur)]"
  have all: "\<exists>c. seg_ok (gr_devs g3 ! i) c x" if "x \<in> set ?segs" for x
    using that C(2,3,4) by (auto simp: in_set_conv_nth)
  have "?s \<in> set (rsdk_index_query (gr_devs g3 ! i) 0 0 (-1) (-1) cap)" if "int (slot_count (gr_devs g3 ! i)) \<le> cap" for cap
  proof -
    obtain k where k: "k < slot_count (gr_devs g3 ! i)" "slot_at (gr_devs g3 ! i) k = ?s" using C(5) by blast
    show ?thesis using query_complete[OF k(1), of 0 0 "-1" "-1" cap] slot_matches_closed[OF refl] that k(2) by simp
  qed
  then show ?thesis
    using all op run cls C(1) r(2)
    by - (rule exI[of _ w], rule exI[of _ g1], rule exI[of _ g2], rule exI[of _ w2], rule exI[of _ g3],
      rule exI[of _ ?segs], auto)
qed


text \<open>C1: Recording and playing back. On a disk that satisfies the invariant, in overwrite mode, a
  recording of frames that each fit a chunk and together take less than half of the chunk ring always succeeds,
  across any number of segment changes; afterwards the medium holds segments whose frames, concatenated,
  are exactly the frames written, the player opened on each segment's slot delivers exactly its frames (header fields
  and decrypted payload) and then stops, and an unrestricted index query finds the last segment.\<close>

theorem record_playback:
  assumes i: "i < length (gr_devs g)" and d: "disk_ok (gr_devs g ! i)"
    and ow: "sb_hdd_full (dv_sb (gr_devs g ! i)) \<noteq> RSDK_HDDFULL_STOP" and N: "0 < dN (gr_devs g ! i)"
    and ne: "fs \<noteq> []" and fok: "\<And>f. f \<in> set fs \<Longrightarrow> frame_ok (dC (gr_devs g ! i)) f"
    and tot: "2 * sum_list (map need_nat fs) < dN (gr_devs g ! i) * dC (gr_devs g ! i)"
  shows "\<exists>w g1 g2 w2 g3 segs.
    rsdk_rec_open fl g i chn rt = (Inr w, g1) \<and> rec_run fl g1 w fs = (RSDK_OK, g2, w2) \<and>
    rsdk_rec_close g2 w2 = (RSDK_OK, g3) \<and> concat (map snd segs) = fs \<and>
    (\<forall>(s, gs) \<in> set segs. \<forall>n > length gs.
       map delivered (play_all n (rsdk_play_open (gr_devs g3 ! i) s)) = gs) \<and>
    segs \<noteq> [] \<and> (\<forall>cap \<ge> int (slot_count (gr_devs g3 ! i)).
       fst (last segs) \<in> set (rsdk_index_query (gr_devs g3 ! i) 0 0 (-1) (-1) cap))"
proof -
  obtain w g1 g2 w2 g3 segs where S: "rsdk_rec_open fl g i chn rt = (Inr w, g1)" "rec_run fl g1 w fs = (RSDK_OK, g2, w2)"
    "rsdk_rec_close g2 w2 = (RSDK_OK, g3)" "concat (map snd segs) = fs"
    "\<forall>x \<in> set segs. \<exists>c. seg_ok (gr_devs g3 ! i) c x"
    "segs \<noteq> [] \<and> (\<forall>cap \<ge> int (slot_count (gr_devs g3 ! i)).
       fst (last segs) \<in> set (rsdk_index_query (gr_devs g3 ! i) 0 0 (-1) (-1) cap))"
    using recording_segs[OF assms, of fl chn rt] by blast
  have "map delivered (play_all n (rsdk_play_open (gr_devs g3 ! i) s)) = gs"
    if "(s, gs) \<in> set segs" "length gs < n" for s gs n
    using S(5) seg_ok_played that by blast
  then show ?thesis using S by blast
qed

definition demo_frame :: "nat \<Rightarrow> rsdk_frame" where
  "demo_frame k = \<lparr>fr_chn = 3, fr_stream = 0, fr_codec = 1, fr_frame_type = (if k = 0 then 0 else 1),
     fr_pts = of_nat (40 * k), fr_wall_time = of_nat (1700000000 + k), fr_data = replicate (1000 + k) (of_nat k)\<rparr>"

lemma record_playback_witness:
  "\<exists>w g1 g2 w2 g3 segs.
    rsdk_rec_open (\<lambda>x. x) \<lparr>gr_devs = [demo_disk 0], gr_rr = 0\<rparr> 0 3 0 = (Inr w, g1) \<and>
    rec_run (\<lambda>x. x) g1 w [demo_frame 0, demo_frame 1] = (RSDK_OK, g2, w2) \<and>
    rsdk_rec_close g2 w2 = (RSDK_OK, g3) \<and> concat (map snd segs) = [demo_frame 0, demo_frame 1] \<and>
    (\<forall>(s, gs) \<in> set segs. \<forall>n > length gs.
       map delivered (play_all n (rsdk_play_open (gr_devs g3 ! 0) s)) = gs)"
proof -
  have 1: "0 < length (gr_devs \<lparr>gr_devs = [demo_disk 0], gr_rr = 0\<rparr>)"
    and 2: "disk_ok (gr_devs \<lparr>gr_devs = [demo_disk 0], gr_rr = 0\<rparr> ! 0)"
    and 3: "sb_hdd_full (dv_sb (gr_devs \<lparr>gr_devs = [demo_disk 0], gr_rr = 0\<rparr> ! 0)) \<noteq> RSDK_HDDFULL_STOP"
    and 4: "0 < dN (gr_devs \<lparr>gr_devs = [demo_disk 0], gr_rr = 0\<rparr> ! 0)"
    by (simp_all add: disk_ok_demo RSDK_HDDFULL_STOP_def)
  show ?thesis
    using record_playback[OF 1 2 3 4, of "[demo_frame 0, demo_frame 1]" "\<lambda>x. x" 3 0]
    by (force simp: frame_ok_def demo_frame_def need_nat_def)
qed

end
