(* ===== verification/Rsdk_Group_Play.thy ===== *)
theory Rsdk_Group_Play
  imports Rsdk_Playback
begin

text \<open>
  components/recorder/src/rsdk_balance.c, second half: querying all disks of a group and playing a list
  of segments that may lie on different disks. The group itself is not changed by playing, so the operations take it
  and return the player. A seek that does not end (see Rsdk_Play) is the value None.
\<close>

section \<open>The query over a group\<close>

definition retag :: "nat \<Rightarrow> index_slot \<Rightarrow> index_slot" where
  "retag i s = s\<lparr>sl_start_disk := of_nat i\<rparr>"

fun group_query_loop ::
  "u32 \<Rightarrow> u32 \<Rightarrow> int \<Rightarrow> int \<Rightarrow> int \<Rightarrow> nat \<Rightarrow> rsdk_dev list \<Rightarrow> index_slot list \<Rightarrow> index_slot list" where
  "group_query_loop t0 t1 chn rectype cap i [] out = out"
| "group_query_loop t0 t1 chn rectype cap i (d # ds) out =
     (if int (length out) < cap
      then group_query_loop t0 t1 chn rectype cap (Suc i) ds
             (out @ map (retag i) (rsdk_index_query d t0 t1 chn rectype (cap - int (length out))))
      else out)"

definition rsdk_group_query :: "rsdk_group \<Rightarrow> u32 \<Rightarrow> u32 \<Rightarrow> int \<Rightarrow> int \<Rightarrow> int \<Rightarrow> index_slot list" where
  "rsdk_group_query g t0 t1 chn rectype cap =
     (if cap \<le> 0 then []
      else exchange_sort sl_start_time (group_query_loop t0 t1 chn rectype cap 0 (gr_devs g) []))"

section \<open>The group player\<close>

record group_player =
  gp_segs :: "index_slot list"
  gp_cur :: nat
  gp_pl :: "rsdk_player option"
  gp_seek_pts :: u64
  gp_seek_pending :: bool

definition open_cur :: "rsdk_group \<Rightarrow> group_player \<Rightarrow> (rsdk_err \<times> group_player) option" where
  "open_cur g p =
     (let p = p\<lparr>gp_pl := None\<rparr> in
      if length (gp_segs p) \<le> gp_cur p then Some (RSDK_E_NOTFOUND, p)
      else let s = gp_segs p ! gp_cur p in
        case rsdk_group_dev g (uint (sl_start_disk s)) of
          None \<Rightarrow> Some (RSDK_E_NOTFOUND, p)
        | Some d \<Rightarrow>
           (let pl = rsdk_play_open d s in
            if gp_seek_pending p
            then (case rsdk_play_seek_pts pl (gp_seek_pts p) of
                    None \<Rightarrow> None
                  | Some pl \<Rightarrow> Some (RSDK_OK, p\<lparr>gp_pl := Some pl, gp_seek_pending := False\<rparr>))
            else Some (RSDK_OK, p\<lparr>gp_pl := Some pl\<rparr>)))"

definition rsdk_group_play_open :: "rsdk_group \<Rightarrow> index_slot list \<Rightarrow> (rsdk_err + group_player) option" where
  "rsdk_group_play_open g segs =
     (if segs = [] then Some (Inl RSDK_E_PARAM)
      else case open_cur g \<lparr>gp_segs = segs, gp_cur = 0, gp_pl = None, gp_seek_pts = 0, gp_seek_pending = False\<rparr> of
        None \<Rightarrow> None
      | Some (e, p) \<Rightarrow> Some (if e \<noteq> RSDK_OK then Inl e else Inr p))"

lemma open_cur_keeps: "open_cur g p = Some (e, p') \<Longrightarrow> gp_segs p' = gp_segs p \<and> gp_cur p' = gp_cur p"
  by (auto simp: open_cur_def Let_def split: if_splits option.splits)

lemma open_cur_in_range: "open_cur g p = Some (RSDK_OK, p') \<Longrightarrow> gp_cur p < length (gp_segs p)"
  by (auto simp: open_cur_def Let_def split: if_splits)

text \<open>The loop of \<open>rsdk_group_play_next\<close> moves to a later segment on every turn, so it ends.\<close>

function rsdk_group_play_next ::
  "rsdk_group \<Rightarrow> group_player \<Rightarrow> ((rsdk_err + (frame_hdr \<times> bytes \<times> u16)) \<times> group_player) option" where
  "rsdk_group_play_next g p =
     (case gp_pl p of
        None \<Rightarrow> Some (Inl RSDK_E_NOTFOUND, p)
      | Some pl \<Rightarrow>
         (case rsdk_play_next_frame pl of
            (Inr (h, b), pl') \<Rightarrow> Some (Inr (h, b, sl_start_disk (gp_segs p ! gp_cur p)), p\<lparr>gp_pl := Some pl'\<rparr>)
          | (Inl e, pl') \<Rightarrow>
             (case open_cur g (p\<lparr>gp_pl := Some pl', gp_cur := gp_cur p + 1\<rparr>) of
                None \<Rightarrow> None
              | Some (e', p') \<Rightarrow>
                  if e' \<noteq> RSDK_OK then Some (Inl RSDK_E_NOTFOUND, p') else rsdk_group_play_next g p')))"
  by pat_completeness auto
termination
proof (relation "measure (\<lambda>(g, p). length (gp_segs p) - gp_cur p)", simp, clarsimp)
  fix g p pl e pl' p'
  assume "open_cur g (p\<lparr>gp_pl := Some pl', gp_cur := Suc (gp_cur p)\<rparr>) = Some (RSDK_OK, p')"
  from open_cur_keeps[OF this] open_cur_in_range[OF this]
  show "length (gp_segs p') - gp_cur p' < length (gp_segs p) - gp_cur p" by simp
qed

declare rsdk_group_play_next.simps [simp del]

text \<open>The scan of \<open>rsdk_group_play_seek_pts\<close>: the last segment, before the first one that starts
  after the target, whose first frame is not after it; segments that cannot be read are skipped.\<close>

fun seek_scan :: "rsdk_group \<Rightarrow> u64 \<Rightarrow> nat \<Rightarrow> index_slot list \<Rightarrow> nat \<Rightarrow> nat" where
  "seek_scan g pts i [] idx = idx"
| "seek_scan g pts i (s # ss) idx =
     (case rsdk_group_dev g (uint (sl_start_disk s)) of
        None \<Rightarrow> seek_scan g pts (Suc i) ss idx
      | Some d \<Rightarrow>
         (case fst (rsdk_play_next_frame (rsdk_play_open d s)) of
            Inl e \<Rightarrow> seek_scan g pts (Suc i) ss idx
          | Inr (h, b) \<Rightarrow> if fh_pts h \<le> pts then seek_scan g pts (Suc i) ss i else idx))"

definition rsdk_group_play_seek_pts :: "rsdk_group \<Rightarrow> group_player \<Rightarrow> u64 \<Rightarrow> (rsdk_err \<times> group_player) option" where
  "rsdk_group_play_seek_pts g p pts =
     open_cur g (p\<lparr>gp_cur := seek_scan g pts 0 (gp_segs p) 0, gp_seek_pts := pts, gp_seek_pending := True\<rparr>)"

text \<open>Everything a group player delivers in at most \<open>n\<close> calls, each frame with the disk it came from.\<close>

fun group_play_all :: "nat \<Rightarrow> rsdk_group \<Rightarrow> group_player \<Rightarrow> (frame_hdr \<times> bytes \<times> u16) list" where
  "group_play_all 0 g p = []"
| "group_play_all (Suc n) g p =
     (case rsdk_group_play_next g p of
        Some (Inr x, p') \<Rightarrow> x # group_play_all n g p'
      | _ \<Rightarrow> [])"

section \<open>The merged query\<close>

lemma mset_take_replace:
  assumes "mset q = mset (take (n - length out) f)" "length out \<le> n"
  shows "mset (take n (out @ q @ r)) = mset (take n (out @ f @ r))"
proof -
  have l: "length q = min (n - length out) (length f)" using mset_eq_length[OF assms(1)] by simp
  show ?thesis
  proof (cases "length f \<le> n - length out")
    case True
    then show ?thesis using assms l by simp
  next
    case False
    then show ?thesis using assms l by simp
  qed
qed

definition disk_slots :: "u32 \<Rightarrow> u32 \<Rightarrow> int \<Rightarrow> int \<Rightarrow> nat \<Rightarrow> rsdk_dev \<Rightarrow> index_slot list" where
  "disk_slots t0 t1 chn rt i d = map (retag i)
     (filter (slot_matches t0 (if t1 = 0 then 0xFFFFFFFF else t1) chn rt) (map (slot_at d) [0..<slot_count d]))"

lemma retag_query_mset:
  assumes "0 < cap"
  shows "mset (map (retag i) (rsdk_index_query d t0 t1 chn rt cap)) = mset (take (nat cap) (disk_slots t0 t1 chn rt i d))"
proof -
  have "mset (map (retag i) (rsdk_index_query d t0 t1 chn rt cap)) = image_mset (retag i)
      (mset (take (nat cap) (filter (slot_matches t0 (if t1 = 0 then 0xFFFFFFFF else t1) chn rt) (map (slot_at d) [0..<slot_count d]))))"
    using query_spec(1)[OF assms] by simp
  then show ?thesis by (simp add: disk_slots_def take_map)
qed

lemma group_query_loop_mset:
  assumes "int (length out) \<le> cap"
  shows "mset (group_query_loop t0 t1 chn rt cap i ds out) =
    mset (take (nat cap) (out @ concat (map (\<lambda>(k, d). disk_slots t0 t1 chn rt k d) (enumerate i ds))))"
  using assms
proof (induction ds arbitrary: i out)
  case Nil
  then show ?case by (simp add: le_nat_iff)
next
  case (Cons d ds)
  show ?case
  proof (cases "int (length out) < cap")
    case False
    then have "nat cap = length out" using Cons.prems by simp
    then show ?thesis using False by simp
  next
    case True
    define q where "q = map (retag i) (rsdk_index_query d t0 t1 chn rt (cap - int (length out)))"
    have c: "nat (cap - int (length out)) = nat cap - length out" by (simp add: nat_diff_distrib)
    have q: "mset q = mset (take (nat cap - length out) (disk_slots t0 t1 chn rt i d))"
      unfolding q_def using retag_query_mset[of "cap - int (length out)"] True c by simp
    have "length q \<le> nat cap - length out" using mset_eq_length[OF q] by simp
    then have le: "int (length (out @ q)) \<le> cap" using True by simp
    have "group_query_loop t0 t1 chn rt cap i (d # ds) out = group_query_loop t0 t1 chn rt cap (Suc i) ds (out @ q)"
      using True by (simp add: q_def)
    then show ?thesis
      using Cons.IH[OF le] mset_take_replace[OF q, of "concat (map (\<lambda>(k, d). disk_slots t0 t1 chn rt k d) (enumerate (Suc i) ds))"] True
      by simp
  qed
qed

lemma group_query_spec:
  assumes "0 < cap"
  shows "mset (rsdk_group_query g t0 t1 chn rt cap) =
      mset (take (nat cap) (concat (map (\<lambda>(k, d). disk_slots t0 t1 chn rt k d) (enumerate 0 (gr_devs g)))))"
    and "sorted (map sl_start_time (rsdk_group_query g t0 t1 chn rt cap))"
  using assms group_query_loop_mset[of "[]" cap] by (simp_all add: rsdk_group_query_def exchange_sort_sorted)

section \<open>Playing across disks\<close>

text \<open>Slot \<open>s\<close> leads, on the disk of the group it names, to the frames \<open>fs\<close>.\<close>

definition seg_plays :: "rsdk_group \<Rightarrow> index_slot \<Rightarrow> rsdk_frame list \<Rightarrow> bool" where
  "seg_plays g s fs \<longleftrightarrow> sl_start_off s = 0 \<and>
     (\<exists>d. rsdk_group_dev g (uint (sl_start_disk s)) = Some d \<and>
          plays (rsdk_play_open d s) (dv_crypto d) (sl_seg_id s) fs)"

text \<open>What a player of the group delivers, with the disk of each frame.\<close>

definition tagged :: "frame_hdr \<times> bytes \<times> u16 \<Rightarrow> rsdk_frame \<times> u16" where
  "tagged = (\<lambda>(h, b, disk). (delivered (h, b), disk))"

definition seg_out :: "index_slot \<times> rsdk_frame list \<Rightarrow> (rsdk_frame \<times> u16) list" where
  "seg_out = (\<lambda>(s, fs). map (\<lambda>f. (f, sl_start_disk s)) fs)"

text \<open>The player stands before frame \<open>j\<close> of segment \<open>k\<close>.\<close>

definition gp_at :: "group_player \<Rightarrow> (index_slot \<times> rsdk_frame list) list \<Rightarrow> nat \<Rightarrow> nat \<Rightarrow> bool" where
  "gp_at p sf k j \<longleftrightarrow> gp_segs p = map fst sf \<and> gp_cur p = k \<and> k < length sf \<and> j \<le> length (snd (sf ! k)) \<and>
     \<not> gp_seek_pending p \<and>
     (\<exists>pl cr. gp_pl p = Some pl \<and> plays pl cr (sl_seg_id (fst (sf ! k))) (snd (sf ! k)) \<and>
       unat (pl_cur_off pl) = offs (snd (sf ! k)) j)"

lemma open_cur_at:
  assumes "seg_plays g (fst (sf ! k)) (snd (sf ! k))" "k < length sf" "gp_segs p = map fst sf" "gp_cur p = k"
    "\<not> gp_seek_pending p"
  shows "\<exists>p'. open_cur g p = Some (RSDK_OK, p') \<and> gp_at p' sf k 0"
  using assms by (auto simp: open_cur_def gp_at_def seg_plays_def Let_def)

lemma open_cur_end: "length (gp_segs p) \<le> gp_cur p \<Longrightarrow> open_cur g p = Some (RSDK_E_NOTFOUND, p\<lparr>gp_pl := None\<rparr>)"
  by (simp add: open_cur_def)

lemma group_next_inside:
  assumes at: "gp_at p sf k j" and j: "j < length (snd (sf ! k))"
  shows "\<exists>x p'. rsdk_group_play_next g p = Some (Inr x, p') \<and> gp_at p' sf k (Suc j) \<and>
    tagged x = (snd (sf ! k) ! j, sl_start_disk (fst (sf ! k)))"
proof -
  obtain pl cr where pl: "gp_pl p = Some pl" "plays pl cr (sl_seg_id (fst (sf ! k))) (snd (sf ! k))"
    "unat (pl_cur_off pl) = offs (snd (sf ! k)) j"
    using at by (auto simp: gp_at_def)
  obtain pl' where n: "rsdk_play_next_frame pl = (Inr (out_frame cr (sl_seg_id (fst (sf ! k))) (snd (sf ! k)) j), pl')"
    "plays pl' cr (sl_seg_id (fst (sf ! k))) (snd (sf ! k))" "unat (pl_cur_off pl') = offs (snd (sf ! k)) (Suc j)"
    using next_frame_step[OF pl(2) j pl(3)] by blast
  obtain h b where hb: "out_frame cr (sl_seg_id (fst (sf ! k))) (snd (sf ! k)) j = (h, b)" by fastforce
  show ?thesis
  proof (intro exI conjI)
    show "rsdk_group_play_next g p = Some (Inr (h, b, sl_start_disk (gp_segs p ! gp_cur p)), p\<lparr>gp_pl := Some pl'\<rparr>)"
      using pl(1) n(1) hb by (subst rsdk_group_play_next.simps) simp
    show "gp_at (p\<lparr>gp_pl := Some pl'\<rparr>) sf k (Suc j)" using at n(2,3) j by (auto simp: gp_at_def)
    show "tagged (h, b, sl_start_disk (gp_segs p ! gp_cur p)) = (snd (sf ! k) ! j, sl_start_disk (fst (sf ! k)))"
      using at delivered_out_frame[of cr "sl_seg_id (fst (sf ! k))" "snd (sf ! k)" j] hb by (simp add: tagged_def gp_at_def)
  qed
qed

lemma group_next_over:
  assumes at: "gp_at p sf k (length (snd (sf ! k)))" and S: "\<And>x. x \<in> set sf \<Longrightarrow> seg_plays g (fst x) (snd x)"
  shows "if Suc k < length sf then (\<exists>p'. rsdk_group_play_next g p = rsdk_group_play_next g p' \<and> gp_at p' sf (Suc k) 0)
    else (\<exists>p'. rsdk_group_play_next g p = Some (Inl RSDK_E_NOTFOUND, p'))"
proof -
  obtain pl cr where pl: "gp_pl p = Some pl" "plays pl cr (sl_seg_id (fst (sf ! k))) (snd (sf ! k))"
    "unat (pl_cur_off pl) = offs (snd (sf ! k)) (length (snd (sf ! k)))"
    using at by (auto simp: gp_at_def)
  note e = next_frame_end[OF pl(2,3)]
  let ?p = "p\<lparr>gp_pl := Some pl, gp_cur := gp_cur p + 1\<rparr>"
  have f: "gp_segs ?p = map fst sf" "gp_cur ?p = Suc k" "\<not> gp_seek_pending ?p" using at by (simp_all add: gp_at_def)
  show ?thesis
  proof (cases "Suc k < length sf")
    case True
    obtain p' where p': "open_cur g ?p = Some (RSDK_OK, p')" "gp_at p' sf (Suc k) 0"
      using open_cur_at[OF S[OF nth_mem[OF True]] True f] by blast
    have "rsdk_group_play_next g p = rsdk_group_play_next g p'"
      using pl(1) e p'(1) by (subst rsdk_group_play_next.simps) simp
    then show ?thesis using True p'(2) by auto
  next
    case False
    then have "open_cur g ?p = Some (RSDK_E_NOTFOUND, ?p\<lparr>gp_pl := None\<rparr>)" using f by (intro open_cur_end) simp
    then have "rsdk_group_play_next g p = Some (Inl RSDK_E_NOTFOUND, ?p\<lparr>gp_pl := None\<rparr>)"
      using pl(1) e by (subst rsdk_group_play_next.simps) simp
    then show ?thesis using False by auto
  qed
qed

lemma seg_plays_ne: "seg_plays g s fs \<Longrightarrow> fs \<noteq> []"
  by (auto simp: seg_plays_def plays_def)

lemma group_play_all_from:
  assumes "gp_at p sf k j" "\<And>x. x \<in> set sf \<Longrightarrow> seg_plays g (fst x) (snd x)"
    "length (concat (map snd (drop k sf))) - j < n"
  shows "map tagged (group_play_all n g p) = drop j (concat (map seg_out (drop k sf)))"
  using assms
proof (induction n arbitrary: p k j)
  case 0
  then show ?case by simp
next
  case (Suc n)
  have k: "k < length sf" "j \<le> length (snd (sf ! k))" using Suc.prems(1) by (simp_all add: gp_at_def)
  have d: "drop k sf = sf ! k # drop (Suc k) sf" using k(1) by (simp add: Cons_nth_drop_Suc)
  have so: "length (seg_out x) = length (snd x)" for x by (cases x) (simp add: seg_out_def)
  have step: "map tagged (group_play_all (Suc n) g p) = drop j (concat (map seg_out (drop k sf)))"
    if at: "gp_at p sf k j" and j: "j < length (snd (sf ! k))" and kl: "k < length sf"
      and n: "length (concat (map snd (drop k sf))) - j < Suc n" for p k j
  proof -
    obtain x p' where x: "rsdk_group_play_next g p = Some (Inr x, p')" "gp_at p' sf k (Suc j)"
      "tagged x = (snd (sf ! k) ! j, sl_start_disk (fst (sf ! k)))"
      using group_next_inside[OF at j] by blast
    have dk: "drop k sf = sf ! k # drop (Suc k) sf" using kl by (simp add: Cons_nth_drop_Suc)
    have "map tagged (group_play_all n g p') = drop (Suc j) (concat (map seg_out (drop k sf)))"
      using n j by (intro Suc.IH[OF x(2) Suc.prems(2)]) (simp_all add: dk)
    moreover have "drop j (concat (map seg_out (drop k sf))) = tagged x # drop (Suc j) (concat (map seg_out (drop k sf)))"
      unfolding dk using j x(3) so[of "sf ! k"]
      by (subst Cons_nth_drop_Suc[symmetric]) (simp_all add: nth_append seg_out_def split: prod.splits)
    ultimately show ?thesis using x(1) by simp
  qed
  show ?case
  proof (cases "j < length (snd (sf ! k))")
    case True
    then show ?thesis using step[OF Suc.prems(1) True k(1) Suc.prems(3)] by simp
  next
    case False
    then have j: "j = length (snd (sf ! k))" using k(2) by simp
    show ?thesis
    proof (cases "Suc k < length sf")
      case True
      then obtain p' where p': "rsdk_group_play_next g p = rsdk_group_play_next g p'" "gp_at p' sf (Suc k) 0"
        using group_next_over[OF Suc.prems(1)[unfolded j] Suc.prems(2)] by auto
      have ne: "0 < length (snd (sf ! Suc k))" using seg_plays_ne[OF Suc.prems(2)[OF nth_mem[OF True]]] by simp
      have "group_play_all (Suc n) g p = group_play_all (Suc n) g p'" using p'(1) by simp
      moreover have "map tagged (group_play_all (Suc n) g p') = concat (map seg_out (drop (Suc k) sf))"
        using step[OF p'(2) ne True] Suc.prems(3) j by (simp add: d)
      ultimately show ?thesis using so by (simp add: d j)
    next
      case False
      then show ?thesis
        using group_next_over[OF Suc.prems(1)[unfolded j] Suc.prems(2)] so d j by (auto)
    qed
  qed
qed

section \<open>Seeking across disks\<close>

definition seek_seg :: "u64 \<Rightarrow> (index_slot \<times> rsdk_frame list) list \<Rightarrow> nat" where
  "seek_seg pts sf = length (takeWhile (\<lambda>(s, fs). fr_pts (hd fs) \<le> pts) sf) - 1"

definition seek_frame :: "u64 \<Rightarrow> rsdk_frame list \<Rightarrow> nat" where
  "seek_frame pts fs = length (takeWhile (\<lambda>f. fr_pts f \<le> pts) fs) - 1"

lemma out_frame_pts: "fh_pts (fst (out_frame cr seg fs k)) = fr_pts (fs ! k)"
  by (simp add: out_frame_def)

lemma seek_scan_spec:
  assumes "\<And>x. x \<in> set sf \<Longrightarrow> seg_plays g (fst x) (snd x)"
  shows "seek_scan g pts i (map fst sf) idx =
    (case takeWhile (\<lambda>(s, fs). fr_pts (hd fs) \<le> pts) sf of [] \<Rightarrow> idx | y # ys \<Rightarrow> i + length ys)"
  using assms
proof (induction sf arbitrary: i idx)
  case Nil
  then show ?case by simp
next
  case (Cons x sf)
  obtain d where d: "rsdk_group_dev g (uint (sl_start_disk (fst x))) = Some d" "sl_start_off (fst x) = 0"
    "plays (rsdk_play_open d (fst x)) (dv_crypto d) (sl_seg_id (fst x)) (snd x)"
    using Cons.prems[of x] by (auto simp: seg_plays_def)
  have ne: "0 < length (snd x)" using d(3) by (simp add: plays_def)
  obtain pl' where "rsdk_play_next_frame (rsdk_play_open d (fst x)) = (Inr (out_frame (dv_crypto d) (sl_seg_id (fst x)) (snd x) 0), pl')"
    using next_frame_step[OF d(3) ne] d(2) by auto
  moreover obtain h b where hb: "out_frame (dv_crypto d) (sl_seg_id (fst x)) (snd x) 0 = (h, b)" by fastforce
  moreover have "fh_pts h = fr_pts (hd (snd x))"
    using out_frame_pts[of "dv_crypto d" "sl_seg_id (fst x)" "snd x" 0] hb ne by (simp add: hd_conv_nth)
  ultimately show ?case
    using d(1) Cons.IH[of "Suc i" i] Cons.prems by (auto simp: case_prod_beta split: list.splits)
qed

lemma play_seek_spec:
  assumes P: "plays pl cr seg fs" and o: "sl_start_off (pl_seg pl) = 0"
  shows "\<exists>pl'. rsdk_play_seek_pts pl pts = Some pl' \<and> plays pl' cr seg fs \<and>
    unat (pl_cur_off pl') = offs fs (seek_frame pts fs)"
proof -
  have z: "unat (0 :: u32) = offs fs 0" by simp
  define best where "best = (case takeWhile (\<lambda>f. fr_pts f \<le> pts) fs of [] \<Rightarrow> (0 :: u32) | g # gs \<Rightarrow> of_nat (offs fs (length gs)))"
  have s: "rsdk_play_seek_pts pl pts = Some (pl\<lparr>pl_cur_off := best\<rparr>)"
    using seek_loop_ends[OF P _ z, of pts 0] o by (simp add: rsdk_play_seek_pts_def best_def cong: list.case_cong)
  have "seek_frame pts fs \<le> length fs" using length_takeWhile_le[of "\<lambda>f. fr_pts f \<le> pts" fs] by (simp add: seek_frame_def)
  then have "offs fs (seek_frame pts fs) \<le> offs fs (length fs)" by (rule offs_mono)
  moreover have "offs fs (length fs) \<le> 2 ^ 31" using P by (simp add: plays_def)
  ultimately have "offs fs (seek_frame pts fs) < 2 ^ 32" by simp
  then have u: "unat (of_nat (offs fs (seek_frame pts fs)) :: u32) = offs fs (seek_frame pts fs)"
    by (intro unat_of_nat_small) simp
  have "unat best = offs fs (seek_frame pts fs)"
  proof (cases "takeWhile (\<lambda>f. fr_pts f \<le> pts) fs")
    case (Cons a list)
    then show ?thesis using u by (simp add: best_def seek_frame_def)
  qed (simp add: best_def seek_frame_def)
  then show ?thesis using s P by (intro exI[of _ "pl\<lparr>pl_cur_off := best\<rparr>"]) (simp add: plays_def)
qed

lemma group_seek_at:
  assumes S: "\<And>x. x \<in> set sf \<Longrightarrow> seg_plays g (fst x) (snd x)" and ne: "sf \<noteq> []" and p: "gp_segs p = map fst sf"
  shows "\<exists>p'. rsdk_group_play_seek_pts g p pts = Some (RSDK_OK, p') \<and>
    gp_at p' sf (seek_seg pts sf) (seek_frame pts (snd (sf ! seek_seg pts sf)))"
proof -
  let ?k = "seek_seg pts sf"
  have scan: "seek_scan g pts 0 (map fst sf) 0 = ?k"
    using seek_scan_spec[OF S, of sf pts 0 0] by (simp add: seek_seg_def split: list.splits)
  have k: "?k < length sf"
    using length_takeWhile_le[of "\<lambda>(s, fs). fr_pts (hd fs) \<le> pts" sf] ne by (cases sf) (auto simp: seek_seg_def)
  obtain d where d: "rsdk_group_dev g (uint (sl_start_disk (fst (sf ! ?k)))) = Some d" "sl_start_off (fst (sf ! ?k)) = 0"
    "plays (rsdk_play_open d (fst (sf ! ?k))) (dv_crypto d) (sl_seg_id (fst (sf ! ?k))) (snd (sf ! ?k))"
    using S[OF nth_mem[OF k]] by (auto simp: seg_plays_def)
  have o: "sl_start_off (pl_seg (rsdk_play_open d (fst (sf ! ?k)))) = 0" using d(2) by simp
  obtain pl' where pl': "rsdk_play_seek_pts (rsdk_play_open d (fst (sf ! ?k))) pts = Some pl'"
    "plays pl' (dv_crypto d) (sl_seg_id (fst (sf ! ?k))) (snd (sf ! ?k))"
    "unat (pl_cur_off pl') = offs (snd (sf ! ?k)) (seek_frame pts (snd (sf ! ?k)))"
    using play_seek_spec[OF d(3) o] by blast
  have j: "seek_frame pts (snd (sf ! ?k)) \<le> length (snd (sf ! ?k))"
    using length_takeWhile_le[of "\<lambda>f. fr_pts f \<le> pts" "snd (sf ! ?k)"] by (simp add: seek_frame_def)
  show ?thesis
    using scan p k d(1) pl' j
    by (auto simp: rsdk_group_play_seek_pts_def open_cur_def Let_def gp_at_def)
qed

section \<open>Properties\<close>

text \<open>A query over a disk group. It returns a permutation of the first \<open>cap\<close> matching slots of all
  disks, taken disk by disk and marked with the index of their disk, sorted by start time across the disks.\<close>

theorem group_query_merges:
  assumes "0 < cap"
  shows "mset (rsdk_group_query g t0 t1 chn rt cap) =
      mset (take (nat cap) (concat (map (\<lambda>(k, d). disk_slots t0 t1 chn rt k d) (enumerate 0 (gr_devs g))))) \<and>
    sorted (map sl_start_time (rsdk_group_query g t0 t1 chn rt cap)) \<and>
    int (length (rsdk_group_query g t0 t1 chn rt cap)) \<le> cap"
proof -
  note Q = group_query_spec[OF assms, of g t0 t1 chn rt]
  show ?thesis using Q mset_eq_length[OF Q(1)] assms by auto
qed

lemma group_query_merges_witness:
  "int (length (rsdk_group_query demo_group 0 0 (-1) (-1) 16)) \<le> 16"
  using group_query_merges[of 16 demo_group 0 0 "-1" "-1"] by simp

text \<open>C5: Playing across disks. Opened on segments whose slots lead to frames on the disks they name, the
  group player opens, delivers the frames of all segments in the order of the segments, each with its disk, and then
  stops; after a seek it delivers from the last frame of the chosen segment's initial run that is not after the target,
  where the segment is the last of the initial run of segments whose first frame is not after it.\<close>

theorem group_playback:
  assumes "\<And>x. x \<in> set sf \<Longrightarrow> seg_plays g (fst x) (snd x)" "sf \<noteq> []" "length (concat (map snd sf)) < n"
  shows "\<exists>p. rsdk_group_play_open g (map fst sf) = Some (Inr p) \<and>
    map tagged (group_play_all n g p) = concat (map seg_out sf) \<and>
    (\<exists>p'. rsdk_group_play_seek_pts g p pts = Some (RSDK_OK, p') \<and>
      map tagged (group_play_all n g p') =
        drop (seek_frame pts (snd (sf ! seek_seg pts sf))) (concat (map seg_out (drop (seek_seg pts sf) sf))))"
proof -
  let ?p = "\<lparr>gp_segs = map fst sf, gp_cur = 0, gp_pl = None, gp_seek_pts = 0, gp_seek_pending = False\<rparr>"
  have len: "0 < length sf" using assms(2) by simp
  have l: "length (concat (map snd (drop k sf))) \<le> length (concat (map snd sf))" for k
    by (metis append_take_drop_id concat_append le_add2 length_append map_append)
  obtain p where p: "open_cur g ?p = Some (RSDK_OK, p)" "gp_at p sf 0 0"
    using open_cur_at[OF assms(1)[OF nth_mem[OF len]] len, of ?p] by auto
  have "map tagged (group_play_all n g p) = concat (map seg_out sf)"
    using group_play_all_from[OF p(2) assms(1), of n] assms(3) by simp
  moreover obtain p' where p': "rsdk_group_play_seek_pts g p pts = Some (RSDK_OK, p')"
      "gp_at p' sf (seek_seg pts sf) (seek_frame pts (snd (sf ! seek_seg pts sf)))"
    using group_seek_at[OF assms(1,2), of p pts] p(2) by (auto simp: gp_at_def)
  moreover have "map tagged (group_play_all n g p') =
      drop (seek_frame pts (snd (sf ! seek_seg pts sf))) (concat (map seg_out (drop (seek_seg pts sf) sf)))"
    using l[of "seek_seg pts sf"] assms(3) by (intro group_play_all_from[OF p'(2) assms(1)]) simp_all
  moreover have "rsdk_group_play_open g (map fst sf) = Some (Inr p)"
    using p(1) assms(2) by (simp add: rsdk_group_play_open_def)
  ultimately show ?thesis by blast
qed

lemma demo_recorded: "\<exists>d s. sl_start_off s = 0 \<and> plays (rsdk_play_open d s) (dv_crypto d) (sl_seg_id s) [demo_frame 0]"
proof -
  let ?g = "\<lparr>gr_devs = [demo_disk 0], gr_rr = 0\<rparr>"
  have h: "0 < length (gr_devs ?g)" "disk_ok (gr_devs ?g ! 0)" "0 < dN (gr_devs ?g ! 0)"
    "sb_hdd_full (dv_sb (gr_devs ?g ! 0)) \<noteq> RSDK_HDDFULL_STOP"
    by (simp_all add: disk_ok_demo RSDK_HDDFULL_STOP_def)
  have f: "\<And>f. f \<in> set [demo_frame 0] \<Longrightarrow> frame_ok (dC (gr_devs ?g ! 0)) f"
    "2 * sum_list (map need_nat [demo_frame 0]) < dN (gr_devs ?g ! 0) * dC (gr_devs ?g ! 0)"
    by (simp_all add: frame_ok_def demo_frame_def need_nat_def)
  have "\<exists>w g1 g2 w2 g3 segs. rsdk_rec_open (\<lambda>x. x) ?g 0 3 0 = (Inr w, g1) \<and>
      rec_run (\<lambda>x. x) g1 w [demo_frame 0] = (RSDK_OK, g2, w2) \<and> rsdk_rec_close g2 w2 = (RSDK_OK, g3) \<and>
      concat (map snd segs) = [demo_frame 0] \<and> (\<forall>x \<in> set segs. \<exists>c. seg_ok (gr_devs g3 ! 0) c x) \<and>
      segs \<noteq> [] \<and> (\<forall>cap \<ge> int (slot_count (gr_devs g3 ! 0)).
         fst (last segs) \<in> set (rsdk_index_query (gr_devs g3 ! 0) 0 0 (-1) (-1) cap))"
    by (rule recording_segs[OF h(1,2,4,3)]) (simp_all add: f[simplified])
  then obtain g3 :: rsdk_group and segs where S: "concat (map snd segs) = [demo_frame 0]" "\<forall>x \<in> set segs. \<exists>c. seg_ok (gr_devs g3 ! 0) c x"
    by blast
  obtain s gs ss where x: "segs = (s, gs) # ss" using S(1) by (cases segs) auto
  then have P: "sl_start_off s = 0" "plays (rsdk_play_open (gr_devs g3 ! 0) s) (dv_crypto (gr_devs g3 ! 0)) (sl_seg_id s) gs"
    using S(2) by (auto simp: seg_ok_def)
  then have "gs = [demo_frame 0]" using S(1) x by (auto simp: plays_def append_eq_Cons_conv)
  then show ?thesis using P by blast
qed

lemma group_playback_witness:
  "\<exists>g s p. map tagged (group_play_all 9 g p) = [(demo_frame 0, 0), (demo_frame 0, 1)] \<and>
     rsdk_group_play_open g [retag 0 s, retag 1 s] = Some (Inr p)"
proof -
  obtain d s where d: "sl_start_off s = 0" "plays (rsdk_play_open d s) (dv_crypto d) (sl_seg_id s) [demo_frame 0]"
    using demo_recorded by blast
  let ?g = "\<lparr>gr_devs = [d, d], gr_rr = 0\<rparr>" and ?sf = "[(retag 0 s, [demo_frame 0]), (retag 1 s, [demo_frame 0])]"
  have r: "plays (rsdk_play_open d (s\<lparr>sl_start_disk := v\<rparr>)) (dv_crypto d) (sl_seg_id s) [demo_frame 0]" for v
    using d(2) by (simp add: plays_def rsdk_play_open_def Let_def)
  have "\<And>x. x \<in> set ?sf \<Longrightarrow> seg_plays ?g (fst x) (snd x)"
    using d(1) r by (auto simp: seg_plays_def rsdk_group_dev_def) (simp_all add: retag_def)
  from group_playback[OF this, of ?sf 9 0] obtain p
    where "rsdk_group_play_open ?g (map fst ?sf) = Some (Inr p)" "map tagged (group_play_all 9 ?g p) = concat (map seg_out ?sf)"
    by auto
  then show ?thesis
    by (intro exI[of _ ?g] exI[of _ s] exI[of _ p]) (simp add: seg_out_def retag_def)
qed

end
