(* ===== verification/Nop_Base.thy ===== *)
theory Nop_Base
  imports Prelude Complex_Main
begin

text \<open>
  components/nop/src/base: the status codes of the NOP SDK (nop_err.c), the vocabulary of detection types
  (business/nop_detect_types.c) and the JSON facade (nop_json.c) over third_party/cJSON. A cJSON tree is a value of the
  datatype \<open>json\<close>; a pointer that may be NULL is an option. A double is an exact rational: the facade only
  stores and returns numbers. Parsing and printing text are cJSON's and stay parameters where they are used.
\<close>

section \<open>Status codes\<close>

datatype nop_status =
    NOP_OK | NOP_ERR_PARAM | NOP_ERR_NOTIMPL | NOP_ERR_IO | NOP_ERR_NOMEM | NOP_ERR_TIMEOUT | NOP_ERR_AUTH
  | NOP_ERR_NOTFOUND | NOP_ERR_STATE | NOP_ERR_INTERNAL | NOP_ERR_CONFLICT | NOP_ERR_STORAGE_FULL | NOP_STATUS_MAX

fun nop_strerror :: "nop_status \<Rightarrow> string" where
  "nop_strerror NOP_OK = ''OK''"
| "nop_strerror NOP_ERR_PARAM = ''bad parameter''"
| "nop_strerror NOP_ERR_NOTIMPL = ''not implemented''"
| "nop_strerror NOP_ERR_IO = ''I/O error''"
| "nop_strerror NOP_ERR_NOMEM = ''out of memory''"
| "nop_strerror NOP_ERR_TIMEOUT = ''timeout''"
| "nop_strerror NOP_ERR_AUTH = ''authentication failed''"
| "nop_strerror NOP_ERR_NOTFOUND = ''not found''"
| "nop_strerror NOP_ERR_STATE = ''invalid state''"
| "nop_strerror NOP_ERR_INTERNAL = ''internal error''"
| "nop_strerror NOP_ERR_CONFLICT = ''conflict''"
| "nop_strerror NOP_ERR_STORAGE_FULL = ''insufficient storage''"
| "nop_strerror NOP_STATUS_MAX = ''unknown''"

fun nop_status_to_http :: "nop_status \<Rightarrow> int" where
  "nop_status_to_http NOP_OK = 200"
| "nop_status_to_http NOP_ERR_PARAM = 400"
| "nop_status_to_http NOP_ERR_CONFLICT = 409"
| "nop_status_to_http NOP_ERR_NOTIMPL = 501"
| "nop_status_to_http NOP_ERR_NOTFOUND = 501"
| "nop_status_to_http NOP_ERR_STORAGE_FULL = 507"
| "nop_status_to_http _ = 400"

section \<open>JSON values\<close>

datatype json =
    JNull
  | JBool bool
  | JNum rat
  | JStr string
  | JArr "json list"
  | JObj "(string \<times> json) list"

definition nop_json_obj :: json where "nop_json_obj = JObj []"
definition nop_json_arr :: json where "nop_json_arr = JArr []"

fun nop_json_add :: "json \<Rightarrow> string \<Rightarrow> json \<Rightarrow> json" where
  "nop_json_add (JObj kvs) key v = JObj (kvs @ [(key, v)])"
| "nop_json_add j key v = j"

definition nop_json_add_str :: "json \<Rightarrow> string \<Rightarrow> string \<Rightarrow> json" where
  "nop_json_add_str obj key v = nop_json_add obj key (JStr v)"

definition nop_json_add_int :: "json \<Rightarrow> string \<Rightarrow> rat \<Rightarrow> json" where
  "nop_json_add_int obj key v = nop_json_add obj key (JNum v)"

definition nop_json_add_bool :: "json \<Rightarrow> string \<Rightarrow> bool \<Rightarrow> json" where
  "nop_json_add_bool obj key v = nop_json_add obj key (JBool v)"

fun nop_json_arr_push :: "json \<Rightarrow> json \<Rightarrow> json" where
  "nop_json_arr_push (JArr xs) v = JArr (xs @ [v])"
| "nop_json_arr_push j v = j"

definition nop_json_arr_push_str :: "json \<Rightarrow> string \<Rightarrow> json" where
  "nop_json_arr_push_str arr v = nop_json_arr_push arr (JStr v)"

definition nop_json_arr_push_int :: "json \<Rightarrow> rat \<Rightarrow> json" where
  "nop_json_arr_push_int arr v = nop_json_arr_push arr (JNum v)"

fun nop_json_get :: "json option \<Rightarrow> string \<Rightarrow> json option" where
  "nop_json_get (Some (JObj kvs)) key = map_of kvs key"
| "nop_json_get _ key = None"

definition nop_json_as_str :: "json option \<Rightarrow> string option \<Rightarrow> string option" where
  "nop_json_as_str node dflt = (case node of Some (JStr s) \<Rightarrow> Some s | _ \<Rightarrow> dflt)"

definition nop_json_as_num :: "json option \<Rightarrow> rat \<Rightarrow> rat" where
  "nop_json_as_num node dflt = (case node of Some (JNum q) \<Rightarrow> q | _ \<Rightarrow> dflt)"

definition nop_json_str :: "json option \<Rightarrow> string \<Rightarrow> string option \<Rightarrow> string option" where
  "nop_json_str obj key dflt = (case nop_json_get obj key of Some (JStr s) \<Rightarrow> Some s | _ \<Rightarrow> dflt)"

definition nop_json_num :: "json option \<Rightarrow> string \<Rightarrow> rat \<Rightarrow> rat" where
  "nop_json_num obj key dflt = (case nop_json_get obj key of Some (JNum q) \<Rightarrow> q | _ \<Rightarrow> dflt)"

definition nop_json_bool :: "json option \<Rightarrow> string \<Rightarrow> bool \<Rightarrow> bool" where
  "nop_json_bool obj key dflt = (case nop_json_get obj key of Some (JBool b) \<Rightarrow> b | _ \<Rightarrow> dflt)"

definition nop_json_has :: "json option \<Rightarrow> string \<Rightarrow> bool" where
  "nop_json_has obj key \<longleftrightarrow> nop_json_get obj key \<noteq> None"

definition nop_json_is_arr :: "json option \<Rightarrow> bool" where
  "nop_json_is_arr j = (case j of Some (JArr xs) \<Rightarrow> True | _ \<Rightarrow> False)"

text \<open>The children of a node: the elements of an array or the members of an object.\<close>

fun json_children :: "json option \<Rightarrow> json list" where
  "json_children (Some (JArr xs)) = xs"
| "json_children (Some (JObj kvs)) = map snd kvs"
| "json_children _ = []"

definition nop_json_arr_size :: "json option \<Rightarrow> int" where
  "nop_json_arr_size arr = int (length (json_children arr))"

definition nop_json_arr_at :: "json option \<Rightarrow> int \<Rightarrow> json option" where
  "nop_json_arr_at arr i =
     (if 0 \<le> i \<and> i < int (length (json_children arr)) then Some (json_children arr ! nat i) else None)"

text \<open>The conversion of a double to an int truncates towards zero; values outside the range of int are
  undefined behaviour in C and are not reduced here.\<close>

definition c_int :: "rat \<Rightarrow> int" where
  "c_int q = (if q < 0 then - \<lfloor>- q\<rfloor> else \<lfloor>q\<rfloor>)"

lemma c_int_of_int [simp]: "c_int (of_int i) = i"
  by (simp add: c_int_def flip: of_int_minus)

lemma c_int_numeral [simp]: "c_int 0 = 0" "c_int 1 = 1" "c_int (numeral n) = numeral n"
  by (simp_all add: c_int_def)

lemma json_add_get [simp]:
  "nop_json_get (Some (nop_json_add (JObj kvs) key v)) key' =
     (case map_of kvs key' of Some w \<Rightarrow> Some w | None \<Rightarrow> if key' = key then Some v else None)"
  by (auto simp: map_add_def split: option.splits)

section \<open>Detection types\<close>

datatype nop_detect_type =
    NOP_DETECT_PIXEL_CHANGE | NOP_DETECT_MOTION | NOP_DETECT_HUMAN | NOP_DETECT_VEHICLE | NOP_DETECT_ANIMAL
  | NOP_DETECT_PACKAGE | NOP_DETECT_FACE | NOP_DETECT_PIR | NOP_DETECT_DOORBELL_RING | NOP_DETECT_LINE_CROSS
  | NOP_DETECT_FIELD_INTRUSION | NOP_DETECT_BABY_CRY | NOP_DETECT_GUN_SHOT | NOP_DETECT_FIRE_ALARM
  | NOP_DETECT_FACIAL_RECOGNITION | NOP_DETECT_OBJECT_DETECTION | NOP_DETECT_TYPE_MAX

definition detect_types :: "nop_detect_type list" where
  "detect_types = [NOP_DETECT_PIXEL_CHANGE, NOP_DETECT_MOTION, NOP_DETECT_HUMAN, NOP_DETECT_VEHICLE,
     NOP_DETECT_ANIMAL, NOP_DETECT_PACKAGE, NOP_DETECT_FACE, NOP_DETECT_PIR, NOP_DETECT_DOORBELL_RING,
     NOP_DETECT_LINE_CROSS, NOP_DETECT_FIELD_INTRUSION, NOP_DETECT_BABY_CRY, NOP_DETECT_GUN_SHOT,
     NOP_DETECT_FIRE_ALARM, NOP_DETECT_FACIAL_RECOGNITION, NOP_DETECT_OBJECT_DETECTION]"

definition k_detect_type_names :: "string list" where
  "k_detect_type_names = [''pixelChange'', ''motion'', ''human'', ''vehicle'', ''animal'', ''package'', ''face'',
     ''pir'', ''doorbellRing'', ''lineCross'', ''fieldIntrusion'', ''babyCry'', ''gunShot'', ''fireAlarm'',
     ''facialRecognition'', ''objectDetection'']"

fun detect_index :: "nop_detect_type \<Rightarrow> nat" where
  "detect_index NOP_DETECT_PIXEL_CHANGE = 0"
| "detect_index NOP_DETECT_MOTION = 1"
| "detect_index NOP_DETECT_HUMAN = 2"
| "detect_index NOP_DETECT_VEHICLE = 3"
| "detect_index NOP_DETECT_ANIMAL = 4"
| "detect_index NOP_DETECT_PACKAGE = 5"
| "detect_index NOP_DETECT_FACE = 6"
| "detect_index NOP_DETECT_PIR = 7"
| "detect_index NOP_DETECT_DOORBELL_RING = 8"
| "detect_index NOP_DETECT_LINE_CROSS = 9"
| "detect_index NOP_DETECT_FIELD_INTRUSION = 10"
| "detect_index NOP_DETECT_BABY_CRY = 11"
| "detect_index NOP_DETECT_GUN_SHOT = 12"
| "detect_index NOP_DETECT_FIRE_ALARM = 13"
| "detect_index NOP_DETECT_FACIAL_RECOGNITION = 14"
| "detect_index NOP_DETECT_OBJECT_DETECTION = 15"
| "detect_index NOP_DETECT_TYPE_MAX = 16"

definition nop_detect_type_name :: "nop_detect_type \<Rightarrow> string" where
  "nop_detect_type_name t = (if detect_index t \<ge> 16 then '''' else k_detect_type_names ! detect_index t)"

fun detect_find :: "string \<Rightarrow> (string \<times> nop_detect_type) list \<Rightarrow> nop_detect_type" where
  "detect_find name [] = NOP_DETECT_TYPE_MAX"
| "detect_find name ((n, t) # rest) = (if name = n then t else detect_find name rest)"

definition nop_detect_type_from_name :: "string option \<Rightarrow> nop_detect_type" where
  "nop_detect_type_from_name name =
     (case name of None \<Rightarrow> NOP_DETECT_TYPE_MAX
      | Some s \<Rightarrow> detect_find s (zip k_detect_type_names detect_types))"

lemma detect_type_roundtrip: "nop_detect_type_from_name (Some (nop_detect_type_name t)) = t"
  by (cases t) (simp_all add: nop_detect_type_from_name_def nop_detect_type_name_def
      k_detect_type_names_def detect_types_def)

end
