(* ===== verification/Nop_Map.thy ===== *)
theory Nop_Map
  imports Nop_Base
begin

text \<open>
  components/nop/src/base/nop_map.c: the string-keyed hash table behind the router. A bucket is the list of
  its nodes from the head; \<open>unsigned long\<close> is 64 bits wide, and the laws below hold for any hash. The
  table refines a finite map; \<open>key_store\<close> is the interface its clients rely on.
\<close>

definition NOP_MAP_DEFAULT_BUCKETS :: nat where "NOP_MAP_DEFAULT_BUCKETS = 64"

record 'v nop_map =
  nm_buckets :: "(string \<times> 'v) list list"
  nm_entry_count :: nat

definition hash_djb2 :: "string \<Rightarrow> u64" where
  "hash_djb2 key = foldl (\<lambda>hash c. (push_bit 5 hash + hash) + of_nat (of_char c)) 5381 key"

definition nop_map_create :: "nat \<Rightarrow> 'v nop_map" where
  "nop_map_create bucket_count =
     (let n = (if bucket_count = 0 then NOP_MAP_DEFAULT_BUCKETS else bucket_count)
      in \<lparr>nm_buckets = replicate n [], nm_entry_count = 0\<rparr>)"

definition bucket_index :: "'v nop_map \<Rightarrow> string \<Rightarrow> nat" where
  "bucket_index m key = unat (hash_djb2 key) mod length (nm_buckets m)"

text \<open>Walking a chain for a node with the key and replacing its value.\<close>

fun chain_replace :: "string \<Rightarrow> 'v \<Rightarrow> (string \<times> 'v) list \<Rightarrow> (string \<times> 'v) list option" where
  "chain_replace key v [] = None"
| "chain_replace key v ((k, w) # nodes) =
     (if k = key then Some ((k, v) # nodes) else map_option (Cons (k, w)) (chain_replace key v nodes))"

definition nop_map_put :: "string \<Rightarrow> 'v \<Rightarrow> 'v nop_map \<Rightarrow> 'v nop_map" where
  "nop_map_put key v m =
     (let i = bucket_index m key; nodes = nm_buckets m ! i in
      case chain_replace key v nodes of
        Some nodes' \<Rightarrow> m\<lparr>nm_buckets := (nm_buckets m)[i := nodes']\<rparr>
      | None \<Rightarrow> m\<lparr>nm_buckets := (nm_buckets m)[i := (key, v) # nodes], nm_entry_count := nm_entry_count m + 1\<rparr>)"

fun chain_find :: "string \<Rightarrow> (string \<times> 'v) list \<Rightarrow> 'v option" where
  "chain_find key [] = None"
| "chain_find key ((k, w) # nodes) = (if k = key then Some w else chain_find key nodes)"

definition nop_map_get :: "'v nop_map \<Rightarrow> string \<Rightarrow> 'v option" where
  "nop_map_get m key = chain_find key (nm_buckets m ! bucket_index m key)"

definition nop_map_size :: "'v nop_map \<Rightarrow> nat" where
  "nop_map_size m = nm_entry_count m"

text \<open>\<open>nop_map_foreach\<close>: the callback sees the entries one by one and stops the walk by returning true;
  its \<open>user\<close> state is threaded through. The result says whether it stopped.\<close>

fun foreach_chain :: "(string \<Rightarrow> 'v \<Rightarrow> 's \<Rightarrow> bool \<times> 's) \<Rightarrow> (string \<times> 'v) list \<Rightarrow> 's \<Rightarrow> bool \<times> 's" where
  "foreach_chain callback [] user = (False, user)"
| "foreach_chain callback ((k, w) # nodes) user =
     (case callback k w user of (stop, user) \<Rightarrow> if stop then (True, user) else foreach_chain callback nodes user)"

fun foreach_buckets :: "(string \<Rightarrow> 'v \<Rightarrow> 's \<Rightarrow> bool \<times> 's) \<Rightarrow> (string \<times> 'v) list list \<Rightarrow> 's \<Rightarrow> bool \<times> 's" where
  "foreach_buckets callback [] user = (False, user)"
| "foreach_buckets callback (nodes # buckets) user =
     (case foreach_chain callback nodes user of
        (stop, user) \<Rightarrow> if stop then (True, user) else foreach_buckets callback buckets user)"

definition nop_map_foreach :: "'v nop_map \<Rightarrow> (string \<Rightarrow> 'v \<Rightarrow> 's \<Rightarrow> bool \<times> 's) \<Rightarrow> 's \<Rightarrow> 's" where
  "nop_map_foreach m callback user = snd (foreach_buckets callback (nm_buckets m) user)"

section \<open>The interface of a string-keyed store\<close>

locale key_store =
  fixes lookup :: "'m \<Rightarrow> 'k \<Rightarrow> 'v option"
    and update :: "'k \<Rightarrow> 'v \<Rightarrow> 'm \<Rightarrow> 'm"
    and inv :: "'m \<Rightarrow> bool"
  assumes inv_update: "inv m \<Longrightarrow> inv (update k v m)"
    and lookup_update: "inv m \<Longrightarrow> lookup (update k v m) k' = (if k' = k then Some v else lookup m k')"
begin

definition updates :: "('k \<times> 'v) list \<Rightarrow> 'm \<Rightarrow> 'm" where
  "updates kvs m = fold (\<lambda>(k, v). update k v) kvs m"

lemma updates_simps [simp]: "updates [] m = m" "updates ((k, v) # kvs) m = updates kvs (update k v m)"
  by (simp_all add: updates_def)

lemma inv_updates: "inv m \<Longrightarrow> inv (updates kvs m)"
  by (induction kvs arbitrary: m) (auto simp: inv_update)

lemma lookup_updates:
  "inv m \<Longrightarrow> lookup (updates kvs m) k = (case map_of (rev kvs) k of Some v \<Rightarrow> Some v | None \<Rightarrow> lookup m k)"
  by (induction kvs arbitrary: m) (auto simp: inv_update lookup_update map_add_def split: option.splits)

end

section \<open>The hash table refines a map\<close>

definition map_inv :: "'v nop_map \<Rightarrow> bool" where
  "map_inv m \<longleftrightarrow> nm_buckets m \<noteq> [] \<and> distinct (map fst (concat (nm_buckets m))) \<and>
     (\<forall>i < length (nm_buckets m). \<forall>x \<in> set (nm_buckets m ! i). bucket_index m (fst x) = i) \<and>
     nm_entry_count m = length (concat (nm_buckets m))"

definition map_abs :: "'v nop_map \<Rightarrow> string \<Rightarrow> 'v option" where
  "map_abs m = map_of (concat (nm_buckets m))"

lemma chain_find_eq: "chain_find key c = map_of c key"
  by (induction c) auto

lemma chain_replace_none: "chain_replace key v c = None \<longleftrightarrow> key \<notin> fst ` set c"
proof (induction c)
  case (Cons x c)
  then show ?case by (cases x) auto
qed simp

lemma chain_replace_some:
  "chain_replace key v c = Some c' \<Longrightarrow> map fst c' = map fst c \<and> map_of c' = (map_of c)(key \<mapsto> v)"
  by (induction c arbitrary: c') (auto split: if_splits simp: fun_eq_iff)

lemma create_inv: "map_inv (nop_map_create n)" "map_abs (nop_map_create n) = Map.empty"
  by (simp_all add: map_inv_def map_abs_def nop_map_create_def NOP_MAP_DEFAULT_BUCKETS_def Let_def)

lemma bucket_index_lt: "nm_buckets m \<noteq> [] \<Longrightarrow> bucket_index m key < length (nm_buckets m)"
  by (simp add: bucket_index_def)

lemma concat_at: "i < length bs \<Longrightarrow> concat bs = concat (take i bs) @ bs ! i @ concat (drop (Suc i) bs)"
  by (metis Cons_nth_drop_Suc append_take_drop_id concat.simps(2) concat_append)

lemma concat_update: "i < length bs \<Longrightarrow> concat (bs[i := c]) = concat (take i bs) @ c @ concat (drop (Suc i) bs)"
  by (simp add: upd_conv_take_nth_drop)

text \<open>A key occurs in its own bucket only.\<close>

lemma key_elsewhere:
  assumes "map_inv m" "i = bucket_index m key"
  shows "key \<notin> fst ` set (concat (take i (nm_buckets m)))" "key \<notin> fst ` set (concat (drop (Suc i) (nm_buckets m)))"
proof -
  have B: "\<And>j x. j < length (nm_buckets m) \<Longrightarrow> x \<in> set (nm_buckets m ! j) \<Longrightarrow> bucket_index m (fst x) = j"
    using assms(1) by (simp add: map_inv_def)
  show "key \<notin> fst ` set (concat (take i (nm_buckets m)))"
    using B assms(2) by (fastforce simp: in_set_conv_nth)
  show "key \<notin> fst ` set (concat (drop (Suc i) (nm_buckets m)))"
  proof
    assume "key \<in> fst ` set (concat (drop (Suc i) (nm_buckets m)))"
    then obtain x where x: "x \<in> set (concat (drop (Suc i) (nm_buckets m)))" "fst x = key" by auto
    then obtain c where "c \<in> set (drop (Suc i) (nm_buckets m))" "x \<in> set c" by auto
    then obtain j where "j < length (nm_buckets m) - Suc i" "x \<in> set (nm_buckets m ! (Suc i + j))" "fst x = key"
      using x(2) by (auto simp: in_set_conv_nth[of c])
    moreover have "Suc i + j < length (nm_buckets m)" using calculation(1) by linarith
    ultimately show False using B[of "Suc i + j" x] assms(2) by simp
  qed
qed

lemma map_of_notin: "key \<notin> fst ` set xs \<Longrightarrow> map_of xs key = None"
  by (induction xs) auto

lemma get_abs: "map_inv m \<Longrightarrow> nop_map_get m key = map_abs m key"
proof -
  assume inv: "map_inv m"
  let ?i = "bucket_index m key"
  have i: "?i < length (nm_buckets m)" using inv by (simp add: map_inv_def bucket_index_lt)
  note K = key_elsewhere[OF inv refl, of key]
  show ?thesis
    unfolding nop_map_get_def map_abs_def chain_find_eq concat_at[OF i]
    using map_of_notin[OF K(1)] map_of_notin[OF K(2)] by (simp add: map_add_def split: option.split)
qed

lemma put_buckets:
  fixes key
  assumes "map_inv m"
  defines "i \<equiv> bucket_index m key"
  shows "\<exists>c. nm_buckets (nop_map_put key v m) = (nm_buckets m)[i := c] \<and>
    map_of c = (map_of (nm_buckets m ! i))(key \<mapsto> v) \<and>
    distinct (map fst c) \<and> fst ` set c = insert key (fst ` set (nm_buckets m ! i)) \<and>
    nm_entry_count (nop_map_put key v m) + length (nm_buckets m ! i) = nm_entry_count m + length c"
proof -
  have i: "i < length (nm_buckets m)" using assms by (simp add: map_inv_def bucket_index_lt)
  have d: "distinct (map fst (nm_buckets m ! i))"
    using assms(1) concat_at[OF i] by (simp add: map_inv_def)
  show ?thesis
  proof (cases "chain_replace key v (nm_buckets m ! i)")
    case (Some c)
    note C = chain_replace_some[OF Some]
    have l: "length c = length (nm_buckets m ! i)" using C map_eq_imp_length_eq by blast
    have k: "key \<in> fst ` set (nm_buckets m ! i)" using Some chain_replace_none[of key v] by (metis option.distinct(1))
    have s: "fst ` set c = fst ` set (nm_buckets m ! i)" using C by (metis list.set_map)
    show ?thesis
      using Some C d l k s by (intro exI[of _ c]) (auto simp: nop_map_put_def Let_def i_def)
  next
    case None
    then show ?thesis
      using d None chain_replace_none[of key v "nm_buckets m ! i"] by (intro exI[of _ "(key, v) # nm_buckets m ! i"])
        (auto simp: nop_map_put_def Let_def i_def)
  qed
qed

lemma put_spec:
  assumes inv: "map_inv m"
  shows "map_inv (nop_map_put key v m)" "map_abs (nop_map_put key v m) = (map_abs m)(key \<mapsto> v)"
proof -
  let ?i = "bucket_index m key" and ?bs = "nm_buckets m"
  have i: "?i < length ?bs" using inv by (simp add: map_inv_def bucket_index_lt)
  obtain c where c: "nm_buckets (nop_map_put key v m) = ?bs[?i := c]" "map_of c = (map_of (?bs ! ?i))(key \<mapsto> v)"
    "distinct (map fst c)" "fst ` set c = insert key (fst ` set (?bs ! ?i))"
    "nm_entry_count (nop_map_put key v m) + length (?bs ! ?i) = nm_entry_count m + length c"
    using put_buckets[OF inv] by blast
  note K = key_elsewhere[OF inv refl, of key]
  let ?l = "concat (take ?i ?bs)" and ?r = "concat (drop (Suc ?i) ?bs)"
  have old: "concat ?bs = ?l @ ?bs ! ?i @ ?r" by (rule concat_at[OF i])
  have new: "concat (nm_buckets (nop_map_put key v m)) = ?l @ c @ ?r" using c(1) concat_update[OF i] by simp
  have bi: "bucket_index (nop_map_put key v m) k = bucket_index m k" for k
    using c(1) by (simp add: bucket_index_def)
  show "map_abs (nop_map_put key v m) = (map_abs m)(key \<mapsto> v)"
    unfolding map_abs_def new old using c(2) map_of_notin[OF K(1)] map_of_notin[OF K(2)]
    by (auto simp: fun_eq_iff map_add_def split: option.splits)
  have "distinct (map fst (concat ?bs))" using inv by (simp add: map_inv_def)
  then have "distinct (map fst (?l @ c @ ?r))" using K c(3,4) unfolding old by auto
  moreover have "\<forall>j < length (nm_buckets (nop_map_put key v m)). \<forall>x \<in> set (nm_buckets (nop_map_put key v m) ! j).
      bucket_index (nop_map_put key v m) (fst x) = j"
  proof (intro allI impI ballI)
    fix j x
    assume j: "j < length (nm_buckets (nop_map_put key v m))" and x: "x \<in> set (nm_buckets (nop_map_put key v m) ! j)"
    show "bucket_index (nop_map_put key v m) (fst x) = j"
    proof (cases "j = ?i")
      case True
      have B: "\<And>y. y \<in> set (?bs ! ?i) \<Longrightarrow> bucket_index m (fst y) = ?i" using inv i by (simp add: map_inv_def)
      have "fst x \<in> insert key (fst ` set (?bs ! ?i))" using True x c(1,4) i by (metis imageI nth_list_update_eq)
      then show ?thesis using B True bi by fastforce
    next
      case False
      then show ?thesis using x j c(1) inv bi by (simp add: map_inv_def)
    qed
  qed
  moreover have "nm_entry_count (nop_map_put key v m) = length (?l @ c @ ?r)"
    using c(5) inv old by (simp add: map_inv_def)
  moreover have "nm_buckets (nop_map_put key v m) \<noteq> []" using c(1) i by auto
  ultimately show "map_inv (nop_map_put key v m)" unfolding map_inv_def new by blast
qed

interpretation nmap: key_store nop_map_get nop_map_put map_inv
  by unfold_locales (simp_all add: put_spec get_abs)

lemma size_abs:
  assumes "map_inv m"
  shows "nop_map_size m = card (dom (map_abs m))"
proof -
  have d: "distinct (map fst (concat (nm_buckets m)))" "nm_entry_count m = length (concat (nm_buckets m))"
    using assms by (simp_all add: map_inv_def)
  have "card (dom (map_abs m)) = card (set (map fst (concat (nm_buckets m))))"
    by (simp only: map_abs_def dom_map_of_conv_image_fst list.set_map)
  also have "\<dots> = length (map fst (concat (nm_buckets m)))" using d(1) by (rule distinct_card)
  finally show ?thesis using d(2) by (simp add: nop_map_size_def)
qed

text \<open>The walk visits the entries in the order of the buckets, each once, up to the one that stops it.\<close>

lemma foreach_chain_append:
  "foreach_chain f (xs @ ys) u = (case foreach_chain f xs u of (stop, u) \<Rightarrow> if stop then (True, u) else foreach_chain f ys u)"
  by (induction xs arbitrary: u) (auto split: prod.splits)

lemma foreach_buckets_concat: "foreach_buckets f bs u = foreach_chain f (concat bs) u"
  by (induction bs arbitrary: u) (auto simp: foreach_chain_append split: prod.splits)

lemma foreach_chain_all:
  assumes "\<forall>k v u. \<not> fst (f k v u)"
  shows "snd (foreach_chain f xs u) = fold (\<lambda>(k, v) u. snd (f k v u)) xs u"
proof (induction xs arbitrary: u)
  case (Cons x xs)
  obtain k v where x: "x = (k, v)" by fastforce
  obtain stop u' where f: "f k v u = (stop, u')" by fastforce
  then have "\<not> stop" using assms by (metis fst_conv)
  then show ?case using Cons x f by simp
qed simp

section \<open>Properties\<close>

text \<open>C4: The hash table refines a finite map. Under the representation invariant (every key in the
  bucket of its hash, no key twice, the entry counter right), which creation establishes and insertion keeps, a lookup
  reads the abstract map, an insertion updates it at one key, the size is the number of keys, and a walk that never
  stops folds over every entry once.\<close>

theorem nop_map_refines:
  assumes "map_inv m"
  shows "nop_map_get m k = map_abs m k \<and>
    map_inv (nop_map_put k v m) \<and> map_abs (nop_map_put k v m) = (map_abs m)(k \<mapsto> v) \<and>
    nop_map_size m = card (dom (map_abs m)) \<and>
    (\<exists>es. map_of es = map_abs m \<and> distinct (map fst es) \<and>
       (\<forall>f u. (\<forall>k v u. \<not> fst (f k v u)) \<longrightarrow>
          nop_map_foreach m f u = fold (\<lambda>(k, v) u. snd (f k v u)) es (u :: nat)))"
proof -
  have "\<forall>f u. (\<forall>k v u. \<not> fst (f k v u)) \<longrightarrow>
      nop_map_foreach m f u = fold (\<lambda>(k, v) u. snd (f k v u)) (concat (nm_buckets m)) (u :: nat)"
    by (simp add: nop_map_foreach_def foreach_buckets_concat foreach_chain_all)
  moreover have "map_of (concat (nm_buckets m)) = map_abs m" "distinct (map fst (concat (nm_buckets m)))"
    using assms by (simp_all add: map_abs_def map_inv_def)
  ultimately show ?thesis
    using put_spec[OF assms] get_abs[OF assms] size_abs[OF assms] by blast
qed

lemma nop_map_refines_witness:
  "nop_map_get (nop_map_put ''a'' (1 :: nat) (nop_map_create 4)) ''a'' = Some 1"
  using nop_map_refines[OF put_spec(1)[OF create_inv(1)], of "''a''" "1 :: nat" 4 "''a''"] put_spec(2)[OF create_inv(1), of "''a''" "1::nat" 4]
  by simp

end
