(* ===== verification/Nop_Router.thy ===== *)
theory Nop_Router
  imports Nop_Map
begin

text \<open>
  components/nop/src: the capability registry (capability/cap_registry.c), the request and response envelope
  (nop/nop_envelope.c) and the command router (nop/nop_router.c). A handler is a function of the request, the prepared
  response and the handler context, returning its status, the response and the new context. The registry the
  router points to is a field of the router. A route entry is stored by value, so updating it in
  place is an insertion under the same key. cJSON's parser and printer are the parameters \<open>parse\<close> and \<open>print\<close>.
\<close>

section \<open>The capability registry\<close>

type_synonym nop_cap_id = int

definition CAP_DEVICE :: nop_cap_id where "CAP_DEVICE = 0"
definition CAP_AUTH :: nop_cap_id where "CAP_AUTH = 1"
definition CAP_SYSTEM :: nop_cap_id where "CAP_SYSTEM = 2"
definition CAP_STREAM :: nop_cap_id where "CAP_STREAM = 3"
definition CAP_PTZ :: nop_cap_id where "CAP_PTZ = 4"
definition CAP_LIGHT :: nop_cap_id where "CAP_LIGHT = 5"
definition CAP_AI :: nop_cap_id where "CAP_AI = 6"
definition CAP_AUDIO :: nop_cap_id where "CAP_AUDIO = 7"
definition CAP_STORAGE :: nop_cap_id where "CAP_STORAGE = 8"
definition CAP_RECORD :: nop_cap_id where "CAP_RECORD = 9"
definition CAP_CLOUD :: nop_cap_id where "CAP_CLOUD = 10"
definition CAP_OTA :: nop_cap_id where "CAP_OTA = 11"
definition CAP_PUSH :: nop_cap_id where "CAP_PUSH = 12"
definition CAP_NETWORK :: nop_cap_id where "CAP_NETWORK = 13"
definition CAP_BIND :: nop_cap_id where "CAP_BIND = 14"
definition CAP_NOTIFY :: nop_cap_id where "CAP_NOTIFY = 15"
definition CAP_MISC :: nop_cap_id where "CAP_MISC = 16"
definition NOP_CAP_MAX :: nop_cap_id where "NOP_CAP_MAX = 17"

lemmas cap_ids = CAP_DEVICE_def CAP_AUTH_def CAP_SYSTEM_def CAP_STREAM_def CAP_PTZ_def CAP_LIGHT_def CAP_AI_def
  CAP_AUDIO_def CAP_STORAGE_def CAP_RECORD_def CAP_CLOUD_def CAP_OTA_def CAP_PUSH_def CAP_NETWORK_def
  CAP_BIND_def CAP_NOTIFY_def CAP_MISC_def NOP_CAP_MAX_def

definition cap_names :: "string list" where
  "cap_names = [''device'', ''auth'', ''system'', ''stream'', ''ptz'', ''light'', ''ai'', ''audio'', ''storage'',
     ''record'', ''cloud'', ''ota'', ''push'', ''network'', ''bind'', ''notify'', ''misc'']"

definition nop_cap_name :: "nop_cap_id \<Rightarrow> string" where
  "nop_cap_name c = (if 0 \<le> c \<and> c < NOP_CAP_MAX then cap_names ! nat c else '''')"

definition nop_cap_from_name :: "string \<Rightarrow> nop_cap_id" where
  "nop_cap_from_name name =
     (case find (\<lambda>i. name = nop_cap_name i) (map int [0..<nat NOP_CAP_MAX]) of Some i \<Rightarrow> i | None \<Rightarrow> NOP_CAP_MAX)"

definition cap_bit :: "nop_cap_id \<Rightarrow> u32" where
  "cap_bit c = push_bit (nat c) 1"

definition CAP_ALWAYS_ENABLED :: u32 where
  "CAP_ALWAYS_ENABLED = cap_bit CAP_DEVICE OR cap_bit CAP_AUTH OR cap_bit CAP_SYSTEM OR cap_bit CAP_NETWORK OR
     cap_bit CAP_PUSH OR cap_bit CAP_NOTIFY OR cap_bit CAP_AI OR cap_bit CAP_MISC"

record cap_registry =
  cr_enabled_mask :: u32

definition cap_registry_create :: cap_registry where
  "cap_registry_create = \<lparr>cr_enabled_mask = CAP_ALWAYS_ENABLED\<rparr>"

definition cap_registry_enable :: "cap_registry \<Rightarrow> nop_cap_id \<Rightarrow> bool \<Rightarrow> nop_status \<times> cap_registry" where
  "cap_registry_enable r c on =
     (if c < 0 \<or> NOP_CAP_MAX \<le> c then (NOP_ERR_PARAM, r)
      else let mask = (if on then cr_enabled_mask r OR cap_bit c else cr_enabled_mask r AND NOT (cap_bit c))
           in (NOP_OK, r\<lparr>cr_enabled_mask := mask OR CAP_ALWAYS_ENABLED\<rparr>))"

definition cap_registry_is_enabled :: "cap_registry \<Rightarrow> nop_cap_id \<Rightarrow> bool" where
  "cap_registry_is_enabled r c \<longleftrightarrow> \<not> (c < 0 \<or> NOP_CAP_MAX \<le> c) \<and> cr_enabled_mask r AND cap_bit c \<noteq> 0"

definition capability_feature_string :: "nop_cap_id \<Rightarrow> string option" where
  "capability_feature_string c =
     (if c = CAP_PTZ then Some ''ptz'' else if c = CAP_LIGHT then Some ''floodlight''
      else if c = CAP_CLOUD then Some ''cloudRecording'' else if c = CAP_STORAGE then Some ''format''
      else if c = CAP_AUDIO then Some ''speaker'' else None)"

definition cap_registry_summary :: "cap_registry \<Rightarrow> int \<Rightarrow> json" where
  "cap_registry_summary r channel_count =
     (let caps = fold (\<lambda>i arr. if cap_registry_is_enabled r i
                             then (case capability_feature_string i of Some f \<Rightarrow> nop_json_arr_push_str arr f | None \<Rightarrow> arr)
                             else arr) (map int [0..<nat NOP_CAP_MAX]) nop_json_arr;
          chans = fold (\<lambda>i arr. nop_json_arr_push arr (nop_json_add_int nop_json_obj ''channel'' (of_int i)))
                    (map int [0..<nat channel_count]) nop_json_arr
      in nop_json_add (nop_json_add nop_json_obj ''device'' (nop_json_add nop_json_obj ''capabilities'' caps))
           ''channels'' chans)"

section \<open>The envelope\<close>

record nop_request =
  rq_func :: string
  rq_args :: "json option"

record nop_response =
  rs_status :: int
  rs_msg :: "string option"
  rs_content :: "json option"

definition nop_envelope_parse :: "(string \<Rightarrow> json option) \<Rightarrow> string \<Rightarrow> nop_status + nop_request" where
  "nop_envelope_parse parse text =
     (case parse text of
        None \<Rightarrow> Inl NOP_ERR_PARAM
      | Some tree \<Rightarrow>
          (case nop_json_get (Some tree) ''func'' of
             Some (JStr f) \<Rightarrow>
               if f = [] then Inl NOP_ERR_PARAM
               else Inr \<lparr>rq_func = f, rq_args = nop_json_get (Some tree) ''args''\<rparr>
           | _ \<Rightarrow> Inl NOP_ERR_PARAM))"

definition nop_response_init :: nop_response where
  "nop_response_init = \<lparr>rs_status = 200, rs_msg = Some ''OK'', rs_content = None\<rparr>"

definition nop_status_msg :: "int \<Rightarrow> string" where
  "nop_status_msg code =
     (if code = 200 then ''OK'' else if code = 400 then ''Bad Request'' else if code = 409 then ''Conflict''
      else if code = 501 then ''Not Implemented'' else if code = 507 then ''Insufficient Storage'' else ''Error'')"

definition envelope_json :: "nop_response \<Rightarrow> json" where
  "envelope_json r =
     (let e = nop_json_add_int nop_json_obj ''statusCode'' (of_int (rs_status r));
          e = nop_json_add_str e ''statusMsg'' (case rs_msg r of Some m \<Rightarrow> m | None \<Rightarrow> nop_status_msg (rs_status r))
      in case rs_content r of Some c \<Rightarrow> nop_json_add e ''content'' c | None \<Rightarrow> e)"

definition nop_envelope_build :: "(json \<Rightarrow> string) \<Rightarrow> nop_response \<Rightarrow> string" where
  "nop_envelope_build print r = print (envelope_json r)"

section \<open>The router\<close>

type_synonym 's nop_handler = "nop_request \<Rightarrow> nop_response \<Rightarrow> 's \<Rightarrow> nop_status \<times> nop_response \<times> 's"

record 's nop_router =
  nr_routes_by_func :: "(nop_cap_id \<times> 's nop_handler) nop_map"
  nr_capability_registry :: cap_registry
  nr_handler_context :: 's

definition NOP_BATCH_FUNC :: string where "NOP_BATCH_FUNC = ''batchCmd''"

definition nop_router_create :: "cap_registry \<Rightarrow> 's \<Rightarrow> 's nop_router" where
  "nop_router_create reg ctx =
     \<lparr>nr_routes_by_func = nop_map_create 256, nr_capability_registry = reg, nr_handler_context = ctx\<rparr>"

definition nop_router_register :: "string \<Rightarrow> nop_cap_id \<Rightarrow> 's nop_handler \<Rightarrow> 's nop_router \<Rightarrow> 's nop_router" where
  "nop_router_register func cap handler r =
     r\<lparr>nr_routes_by_func := nop_map_put func (cap, handler) (nr_routes_by_func r)\<rparr>"

definition nop_router_count :: "'s nop_router \<Rightarrow> nat" where
  "nop_router_count r = nop_map_size (nr_routes_by_func r)"

definition dispatch_one :: "'s nop_router \<Rightarrow> string \<Rightarrow> json option \<Rightarrow> nop_response \<times> 's nop_router" where
  "dispatch_one r func args =
     (let response = nop_response_init in
      case nop_map_get (nr_routes_by_func r) func of
        None \<Rightarrow> (response\<lparr>rs_status := 501, rs_msg := Some (nop_status_msg 501)\<rparr>, r)
      | Some (cap, handler) \<Rightarrow>
          if \<not> cap_registry_is_enabled (nr_capability_registry r) cap
          then (response\<lparr>rs_status := 501, rs_msg := Some (nop_status_msg 501)\<rparr>, r)
          else
            (case handler \<lparr>rq_func = func, rq_args = args\<rparr> response (nr_handler_context r) of
               (st, response, ctx) \<Rightarrow>
                 (if st \<noteq> NOP_OK
                  then response\<lparr>rs_status := nop_status_to_http st,
                                rs_msg := Some (nop_status_msg (nop_status_to_http st)), rs_content := None\<rparr>
                  else response,
                  r\<lparr>nr_handler_context := ctx\<rparr>)))"

text \<open>One element of a batch: the result entry it appends.\<close>

definition batch_entry :: "'s nop_router \<Rightarrow> json \<Rightarrow> json \<times> 's nop_router" where
  "batch_entry r command =
     (let sub_func = nop_json_get (Some command) ''func''; sub_args = nop_json_get (Some command) ''args'' in
      case sub_func of
        Some (JStr f) \<Rightarrow>
          if f = NOP_BATCH_FUNC
          then (nop_json_add_int (nop_json_add_str nop_json_obj ''func'' f) ''statusCode'' 400, r)
          else
            (case dispatch_one r f sub_args of
               (sub, r) \<Rightarrow>
                 let e = nop_json_add_int (nop_json_add_str nop_json_obj ''func'' f) ''statusCode'' (of_int (rs_status sub))
                 in (case rs_content sub of Some c \<Rightarrow> nop_json_add e ''content'' c | None \<Rightarrow> e, r))
      | _ \<Rightarrow> (nop_json_add_int (nop_json_add_str nop_json_obj ''func'' '''') ''statusCode'' 400, r))"

fun batch_loop :: "'s nop_router \<Rightarrow> json list \<Rightarrow> json \<Rightarrow> json \<times> 's nop_router" where
  "batch_loop r [] results = (results, r)"
| "batch_loop r (c # cs) results =
     (case batch_entry r c of (e, r) \<Rightarrow> batch_loop r cs (nop_json_arr_push results e))"

definition dispatch_batch :: "'s nop_router \<Rightarrow> json option \<Rightarrow> nop_response \<times> 's nop_router" where
  "dispatch_batch r args =
     (let response = nop_response_init; commands = nop_json_get args ''cmds'' in
      if \<not> nop_json_is_arr commands
      then (response\<lparr>rs_status := 400, rs_msg := Some (nop_status_msg 400)\<rparr>, r)
      else (case batch_loop r (json_children commands) nop_json_arr of
              (results, r) \<Rightarrow> (response\<lparr>rs_content := Some (nop_json_add nop_json_obj ''results'' results)\<rparr>, r)))"

definition nop_router_dispatch ::
  "(string \<Rightarrow> json option) \<Rightarrow> (json \<Rightarrow> string) \<Rightarrow> 's nop_router \<Rightarrow> string \<Rightarrow> string \<times> 's nop_router" where
  "nop_router_dispatch parse print r text =
     (case nop_envelope_parse parse text of
        Inl e \<Rightarrow> (nop_envelope_build print (nop_response_init\<lparr>rs_status := 400, rs_msg := Some (nop_status_msg 400)\<rparr>), r)
      | Inr req \<Rightarrow>
          (case (if rq_func req = NOP_BATCH_FUNC then dispatch_batch r (rq_args req)
                 else dispatch_one r (rq_func req) (rq_args req)) of
             (response, r) \<Rightarrow> (nop_envelope_build print response, r)))"

section \<open>Which capabilities are on\<close>

text \<open>The core capabilities, which \<open>CAP_ALWAYS_ENABLED\<close> keeps on.\<close>

definition core_caps :: "nop_cap_id list" where
  "core_caps = [CAP_DEVICE, CAP_AUTH, CAP_SYSTEM, CAP_AI, CAP_PUSH, CAP_NETWORK, CAP_NOTIFY, CAP_MISC]"

lemma enabled_bit:
  "cap_registry_is_enabled r c \<longleftrightarrow> 0 \<le> c \<and> c < NOP_CAP_MAX \<and> bit (cr_enabled_mask r) (nat c)"
  by (auto simp: cap_registry_is_enabled_def cap_bit_def bit_iff_and_push_bit_not_eq_0)

lemma bit_cap_bit: "0 \<le> c \<Longrightarrow> c < NOP_CAP_MAX \<Longrightarrow> bit (cap_bit c) n \<longleftrightarrow> int n = c"
  by (auto simp: cap_bit_def bit_simps NOP_CAP_MAX_def)

lemma always_bits: "0 \<le> c \<Longrightarrow> c < NOP_CAP_MAX \<Longrightarrow> bit CAP_ALWAYS_ENABLED (nat c) \<longleftrightarrow> c \<in> set core_caps"
  unfolding CAP_ALWAYS_ENABLED_def bit_or_iff by (simp add: bit_cap_bit core_caps_def) (auto simp: bit_cap_bit cap_ids)

lemma cap_in_word: "c < NOP_CAP_MAX \<Longrightarrow> nat c < 32"
  by (simp add: NOP_CAP_MAX_def)

lemma core_caps_range: "c \<in> set core_caps \<Longrightarrow> 0 \<le> c \<and> c < NOP_CAP_MAX"
  by (auto simp: core_caps_def cap_ids)

lemma enable_spec:
  "cap_registry_is_enabled (snd (cap_registry_enable r c0 on)) c \<longleftrightarrow>
     (if 0 \<le> c0 \<and> c0 < NOP_CAP_MAX
      then 0 \<le> c \<and> c < NOP_CAP_MAX \<and> (c \<in> set core_caps \<or> (if c = c0 then on else cap_registry_is_enabled r c))
      else cap_registry_is_enabled r c)"
  by (auto simp: enabled_bit cap_registry_enable_def bit_or_iff bit_and_iff bit_not_iff always_bits bit_cap_bit cap_in_word)

fun enable_all :: "(nop_cap_id \<times> bool) list \<Rightarrow> cap_registry \<Rightarrow> cap_registry" where
  "enable_all [] r = r"
| "enable_all ((c, on) # cs) r = enable_all cs (snd (cap_registry_enable r c on))"

lemma enable_all_enabled:
  "(\<And>c. c \<in> set core_caps \<Longrightarrow> cap_registry_is_enabled r c) \<Longrightarrow>
   cap_registry_is_enabled (enable_all cs r) c \<longleftrightarrow> 0 \<le> c \<and> c < NOP_CAP_MAX \<and>
     (c \<in> set core_caps \<or> (case map_of (rev cs) c of Some on \<Rightarrow> on | None \<Rightarrow> cap_registry_is_enabled r c))"
proof (induction cs arbitrary: r)
  case Nil
  then show ?case by (auto simp: enabled_bit)
next
  case (Cons x cs)
  obtain c0 on where x: "x = (c0, on)" by fastforce
  have core: "\<And>c. c \<in> set core_caps \<Longrightarrow> cap_registry_is_enabled (snd (cap_registry_enable r c0 on)) c"
    using Cons.prems core_caps_range by (auto simp: enable_spec)
  have IH: "cap_registry_is_enabled (enable_all cs (snd (cap_registry_enable r c0 on))) c \<longleftrightarrow> 0 \<le> c \<and> c < NOP_CAP_MAX \<and>
      (c \<in> set core_caps \<or> (case map_of (rev cs) c of Some on \<Rightarrow> on
        | None \<Rightarrow> cap_registry_is_enabled (snd (cap_registry_enable r c0 on)) c))"
    by (rule Cons.IH) (rule core)
  show ?case
    unfolding x enable_all.simps IH by (auto simp: enable_spec map_add_def split: option.splits)
qed

section \<open>Routing\<close>

fun register_all :: "(string \<times> nop_cap_id \<times> 's nop_handler) list \<Rightarrow> 's nop_router \<Rightarrow> 's nop_router" where
  "register_all [] r = r"
| "register_all ((f, c, h) # rs) r = register_all rs (nop_router_register f c h r)"

lemma register_all_routes:
  "nr_routes_by_func (register_all rs r) = nmap.updates rs (nr_routes_by_func r)"
  "nr_capability_registry (register_all rs r) = nr_capability_registry r"
  "nr_handler_context (register_all rs r) = nr_handler_context r"
proof (induction rs arbitrary: r)
  case (Cons x rs)
  { case 1 then show ?case using Cons(1) by (cases x) (simp add: nop_router_register_def)
  next case 2 then show ?case using Cons(2) by (cases x) (simp add: nop_router_register_def)
  next case 3 then show ?case using Cons(3) by (cases x) (simp add: nop_router_register_def) }
qed simp_all

lemma route_lookup:
  "nop_map_get (nr_routes_by_func (register_all rs (nop_router_create reg ctx))) f = map_of (rev rs) f"
proof -
  have e: "nop_map_get (nop_map_create 256 :: (nop_cap_id \<times> 'a nop_handler) nop_map) f = None"
    by (simp add: get_abs create_inv)
  show ?thesis
    unfolding register_all_routes(1) nop_router_create_def nop_router.select_convs
    by (simp add: nmap.lookup_updates create_inv(1) e split: option.split)
qed

text \<open>The commands of a batch, as texts of their own and as one batch.\<close>

definition cmd_json :: "string \<times> json \<Rightarrow> json" where
  "cmd_json = (\<lambda>(f, a). JObj [(''func'', JStr f), (''args'', a)])"

definition batch_json :: "(string \<times> json) list \<Rightarrow> json" where
  "batch_json cmds = JObj [(''func'', JStr NOP_BATCH_FUNC), (''args'', JObj [(''cmds'', JArr (map cmd_json cmds))])]"

fun dispatch_seq ::
  "(string \<Rightarrow> json option) \<Rightarrow> (json \<Rightarrow> string) \<Rightarrow> 's nop_router \<Rightarrow> string list \<Rightarrow> string list \<times> 's nop_router" where
  "dispatch_seq parse print r [] = ([], r)"
| "dispatch_seq parse print r (t # ts) =
     (case nop_router_dispatch parse print r t of
        (out, r) \<Rightarrow> (case dispatch_seq parse print r ts of (outs, r) \<Rightarrow> (out # outs, r)))"

definition result_entry :: "string \<times> json \<Rightarrow> nop_response \<Rightarrow> json" where
  "result_entry c resp = JObj ([(''func'', JStr (fst c)), (''statusCode'', JNum (of_int (rs_status resp)))] @
     (case rs_content resp of Some j \<Rightarrow> [(''content'', j)] | None \<Rightarrow> []))"

lemma batch_entry_cmd:
  assumes "f \<noteq> NOP_BATCH_FUNC" "dispatch_one r f (Some a) = (resp, r')"
  shows "batch_entry r (cmd_json (f, a)) = (result_entry (f, a) resp, r')"
  using assms
  by (simp add: batch_entry_def cmd_json_def result_entry_def nop_json_add_str_def nop_json_add_int_def nop_json_obj_def
      split: option.splits)

lemma dispatch_cmd:
  assumes "f \<noteq> NOP_BATCH_FUNC" "f \<noteq> []" "parse t = Some (cmd_json (f, a))" "dispatch_one r f (Some a) = (resp, r')"
  shows "nop_router_dispatch parse print r t = (nop_envelope_build print resp, r')"
  using assms by (simp add: nop_router_dispatch_def nop_envelope_parse_def cmd_json_def)

lemma batch_seq:
  assumes "list_all2 (\<lambda>t c. parse t = Some (cmd_json c)) ts cmds" "\<forall>(f, a) \<in> set cmds. f \<noteq> [] \<and> f \<noteq> NOP_BATCH_FUNC"
  shows "\<exists>resps r'. length resps = length cmds \<and>
    dispatch_seq parse print r ts = (map (nop_envelope_build print) resps, r') \<and>
    batch_loop r (map cmd_json cmds) (JArr done) = (JArr (done @ map2 result_entry cmds resps), r')"
  using assms
proof (induction ts cmds arbitrary: r "done" rule: list_all2_induct)
  case Nil
  then show ?case by (intro exI[of _ "[]"] exI[of _ r]) simp
next
  case (Cons t ts c cmds)
  obtain f a where c: "c = (f, a)" by fastforce
  obtain resp r1 where d: "dispatch_one r f (Some a) = (resp, r1)" by fastforce
  have f: "f \<noteq> []" "f \<noteq> NOP_BATCH_FUNC" and rest: "\<forall>(f, a) \<in> set cmds. f \<noteq> [] \<and> f \<noteq> NOP_BATCH_FUNC"
    using Cons.prems c by auto
  have t: "parse t = Some (cmd_json (f, a))" using Cons.hyps(1) c by simp
  obtain resps r' where IH: "length resps = length cmds" "dispatch_seq parse print r1 ts = (map (nop_envelope_build print) resps, r')"
    "batch_loop r1 (map cmd_json cmds) (JArr (done @ [result_entry c resp])) =
       (JArr ((done @ [result_entry c resp]) @ map2 result_entry cmds resps), r')"
    using Cons.IH[OF rest, of r1 "done @ [result_entry c resp]"] by blast
  show ?case
    using IH batch_entry_cmd[OF f(2) d] dispatch_cmd[where parse = parse, OF f(2,1) t d] c
    by (intro exI[of _ "resp # resps"] exI[of _ r']) simp
qed

section \<open>Properties\<close>

text \<open>Capability gating. From the registry's creation, after any sequence of enable and disable calls,
  valid or not, a capability is on exactly if it is a core capability or the last call that names it
  turned it on; ids outside the range are never on.\<close>

theorem capability_gate:
  "cap_registry_is_enabled (enable_all cs cap_registry_create) c \<longleftrightarrow>
     0 \<le> c \<and> c < NOP_CAP_MAX \<and> (c \<in> set core_caps \<or> map_of (rev cs) c = Some True)"
proof -
  have e: "cap_registry_is_enabled cap_registry_create c \<longleftrightarrow> c \<in> set core_caps" for c
    using core_caps_range by (auto simp: enabled_bit cap_registry_create_def always_bits)
  show ?thesis by (subst enable_all_enabled) (auto simp: e split: option.splits)
qed

text \<open>C21: Dispatching a command. On a router with any list of registrations, a command text that is
  not a batch is answered by the handler of the last registration of its name if that registration's capability is
  enabled, and by 501 without content and without running any handler otherwise; a handler that fails
  yields the mapped status and no content; a text without a function name yields 400.\<close>

theorem dispatch_gated:
  assumes "r = register_all rs (nop_router_create reg ctx)"
  shows "nop_router_dispatch parse print r text =
    (case nop_envelope_parse parse text of
       Inl e \<Rightarrow> (print (envelope_json \<lparr>rs_status = 400, rs_msg = Some ''Bad Request'', rs_content = None\<rparr>), r)
     | Inr req \<Rightarrow>
        if rq_func req = NOP_BATCH_FUNC
        then (case dispatch_batch r (rq_args req) of (resp, r') \<Rightarrow> (print (envelope_json resp), r'))
        else (case map_of (rev rs) (rq_func req) of
          Some (cap, h) \<Rightarrow>
           if cap_registry_is_enabled reg cap
           then (case h req nop_response_init ctx of
                   (st, resp, ctx') \<Rightarrow>
                     (print (envelope_json (if st = NOP_OK then resp
                        else \<lparr>rs_status = nop_status_to_http st, rs_msg = Some (nop_status_msg (nop_status_to_http st)),
                              rs_content = None\<rparr>)),
                      r\<lparr>nr_handler_context := ctx'\<rparr>))
           else (print (envelope_json \<lparr>rs_status = 501, rs_msg = Some ''Not Implemented'', rs_content = None\<rparr>), r)
        | None \<Rightarrow> (print (envelope_json \<lparr>rs_status = 501, rs_msg = Some ''Not Implemented'', rs_content = None\<rparr>), r)))"
proof -
  have g: "nop_map_get (nr_routes_by_func r) f = map_of (rev rs) f" for f using route_lookup assms by simp
  have c: "nr_capability_registry r = reg" "nr_handler_context r = ctx"
    using assms by (simp_all add: register_all_routes nop_router_create_def)
  have rq: "\<lparr>rq_func = rq_func req, rq_args = rq_args req\<rparr> = req" for req by (cases req) simp
  have u: "(x :: nop_response)\<lparr>rs_status := i, rs_msg := j, rs_content := k\<rparr> = \<lparr>rs_status = i, rs_msg = j, rs_content = k\<rparr>"
    for x i j k by (cases x) simp
  have m: "nop_status_msg 400 = ''Bad Request''" "nop_status_msg 501 = ''Not Implemented''"
    by (simp_all add: nop_status_msg_def)
  show ?thesis
    by (auto simp: nop_router_dispatch_def dispatch_one_def g c rq nop_envelope_build_def nop_response_init_def
        m u Let_def split: sum.split option.split prod.split)
qed

definition demo_handler :: "nat nop_handler" where
  "demo_handler req resp n = (NOP_OK, resp\<lparr>rs_content := Some (JNum (of_nat n))\<rparr>, n + 1)"

definition demo_router :: "nat nop_router" where
  "demo_router = register_all [(''next'', CAP_DEVICE, demo_handler), (''zoom'', CAP_PTZ, demo_handler)]
     (nop_router_create cap_registry_create 5)"

lemma dispatch_gated_witness:
  "nop_router_dispatch (\<lambda>t. Some (cmd_json (t, JNull))) (\<lambda>j. case nop_json_get (Some j) ''statusMsg'' of Some (JStr s) \<Rightarrow> s | _ \<Rightarrow> [])
     demo_router ''zoom'' = (''Not Implemented'', demo_router)"
proof -
  have "\<not> cap_registry_is_enabled cap_registry_create CAP_PTZ"
    using always_bits[of CAP_PTZ] by (simp add: enabled_bit cap_registry_create_def) (simp add: core_caps_def cap_ids)
  then show ?thesis
  using dispatch_gated[OF demo_router_def, of "\<lambda>t. Some (cmd_json (t, JNull))"
      "\<lambda>j. case nop_json_get (Some j) ''statusMsg'' of Some (JStr s) \<Rightarrow> s | _ \<Rightarrow> []" "''zoom''"]
    by (simp add: nop_envelope_parse_def cmd_json_def NOP_BATCH_FUNC_def
        envelope_json_def nop_json_add_str_def nop_json_add_int_def nop_json_obj_def)
qed

text \<open>C22: A batch equals its commands one by one. Dispatching a batch of commands answers 200 with one
  result entry per command, in order, whose status and content are those of the replies that dispatching the
  commands one after the other gives, and it leaves the router in the same state.\<close>

theorem batch_equals_sequence:
  assumes "list_all2 (\<lambda>t c. parse t = Some (cmd_json c)) ts cmds" "\<forall>(f, a) \<in> set cmds. f \<noteq> [] \<and> f \<noteq> NOP_BATCH_FUNC"
    and "parse text = Some (batch_json cmds)"
  shows "\<exists>resps r'. length resps = length cmds \<and>
    dispatch_seq parse print r ts = (map (nop_envelope_build print) resps, r') \<and>
    nop_router_dispatch parse print r text =
      (print (envelope_json \<lparr>rs_status = 200, rs_msg = Some ''OK'',
          rs_content = Some (JObj [(''results'', JArr (map2 result_entry cmds resps))])\<rparr>), r')"
proof -
  obtain resps r' where R: "length resps = length cmds" "dispatch_seq parse print r ts = (map (nop_envelope_build print) resps, r')"
    "batch_loop r (map cmd_json cmds) (JArr []) = (JArr (map2 result_entry cmds resps), r')"
    using batch_seq[OF assms(1,2), of print r "[]"] by auto
  have "nop_router_dispatch parse print r text =
      (print (envelope_json \<lparr>rs_status = 200, rs_msg = Some ''OK'',
          rs_content = Some (JObj [(''results'', JArr (map2 result_entry cmds resps))])\<rparr>), r')"
    using assms(3) R(3)
    by (simp add: nop_router_dispatch_def nop_envelope_parse_def batch_json_def NOP_BATCH_FUNC_def dispatch_batch_def
        nop_json_is_arr_def nop_json_arr_def nop_json_obj_def nop_response_init_def nop_envelope_build_def Let_def)
  then show ?thesis using R(1,2) by blast
qed

lemma batch_equals_sequence_witness:
  "\<exists>resps. length resps = 1 \<and> fst (dispatch_seq (\<lambda>t. Some (if t = ''b'' then batch_json [(''next'', JNull)] else cmd_json (''next'', JNull)))
      (\<lambda>j. ''x'') demo_router [''a'']) = map (nop_envelope_build (\<lambda>j. ''x'')) resps"
  using batch_equals_sequence[of "\<lambda>t. Some (if t = ''b'' then batch_json [(''next'', JNull)] else cmd_json (''next'', JNull))"
      "[''a'']" "[(''next'', JNull)]" "''b''" "\<lambda>j. ''x''" demo_router]
  by (auto simp: NOP_BATCH_FUNC_def)

end
