(* ===== verification/Nop_Event.thy ===== *)
theory Nop_Event
  imports Nop_Base
begin

text \<open>
  components/nop/src/services: the event hub (svc_event.c) and the push engine behind it (svc_push.c). A
  sink with its context is one value of type \<open>'k\<close>. The critical sections of the hub are atomic; publishing
  invokes the sinks outside the lock, so a publish is a thread with the sinks it still has to
  invoke, and the interleavings of publishers, subscribers and unsubscribers are the runs of \<open>hub_step\<close>.
\<close>

section \<open>The hub\<close>

definition NOP_EVENT_MAX_SINKS :: nat where "NOP_EVENT_MAX_SINKS = 8"
definition NOP_EVENT_STORE_SIZE :: nat where "NOP_EVENT_STORE_SIZE = 64"

record nop_event =
  ev_channel :: int
  ev_type :: nop_detect_type
  ev_timestamp_ms :: u64
  ev_jpeg :: "bytes option"
  ev_extra_json :: "string option"

record nop_event_record =
  er_channel :: int
  er_type :: nop_detect_type
  er_timestamp_ms :: u64

record 'k nop_event_hub =
  eh_sinks :: "'k option list"
  eh_store :: "nop_event_record list"
  eh_store_count :: nat
  eh_store_head :: nat
  eh_publishing :: int

definition nop_event_hub_create :: "'k nop_event_hub" where
  "nop_event_hub_create =
     \<lparr>eh_sinks = replicate NOP_EVENT_MAX_SINKS None,
      eh_store = replicate NOP_EVENT_STORE_SIZE \<lparr>er_channel = 0, er_type = NOP_DETECT_PIXEL_CHANGE, er_timestamp_ms = 0\<rparr>,
      eh_store_count = 0, eh_store_head = 0, eh_publishing = 0\<rparr>"

fun first_free :: "nat \<Rightarrow> 'k option list \<Rightarrow> nat option" where
  "first_free i [] = None"
| "first_free i (None # xs) = Some i"
| "first_free i (Some k # xs) = first_free (Suc i) xs"

definition nop_event_subscribe :: "'k nop_event_hub \<Rightarrow> 'k \<Rightarrow> nat option \<times> 'k nop_event_hub" where
  "nop_event_subscribe h sink =
     (case first_free 0 (eh_sinks h) of
        Some i \<Rightarrow> (Some i, h\<lparr>eh_sinks := (eh_sinks h)[i := Some sink]\<rparr>)
      | None \<Rightarrow> (None, h))"

text \<open>The critical section that clears a subscription; the caller then waits while a publish is in flight.\<close>

definition unsubscribe_clear :: "'k nop_event_hub \<Rightarrow> nat \<Rightarrow> 'k nop_event_hub" where
  "unsubscribe_clear h i = h\<lparr>eh_sinks := (eh_sinks h)[i := None]\<rparr>"

definition unsubscribe_may_return :: "'k nop_event_hub \<Rightarrow> bool" where
  "unsubscribe_may_return h \<longleftrightarrow> \<not> eh_publishing h > 0"

text \<open>The first critical section of a publish: record the event, snapshot the active sinks, count the publish.\<close>

definition store_event :: "'k nop_event_hub \<Rightarrow> nop_event \<Rightarrow> 'k nop_event_hub" where
  "store_event h e =
     h\<lparr>eh_store := (eh_store h)[eh_store_head h :=
          \<lparr>er_channel = ev_channel e, er_type = ev_type e, er_timestamp_ms = ev_timestamp_ms e\<rparr>],
       eh_store_head := (eh_store_head h + 1) mod NOP_EVENT_STORE_SIZE,
       eh_store_count := (if eh_store_count h < NOP_EVENT_STORE_SIZE then eh_store_count h + 1 else eh_store_count h)\<rparr>"

fun active_of :: "'k option list \<Rightarrow> 'k list" where
  "active_of [] = []"
| "active_of (Some k # xs) = k # active_of xs"
| "active_of (None # xs) = active_of xs"

definition active_sinks :: "'k nop_event_hub \<Rightarrow> 'k list" where
  "active_sinks h = active_of (eh_sinks h)"

definition publish_begin :: "'k nop_event_hub \<Rightarrow> nop_event \<Rightarrow> 'k list \<times> 'k nop_event_hub" where
  "publish_begin h e =
     (let h = store_event h e in (active_sinks h, h\<lparr>eh_publishing := eh_publishing h + 1\<rparr>))"

definition publish_end :: "'k nop_event_hub \<Rightarrow> 'k nop_event_hub" where
  "publish_end h = h\<lparr>eh_publishing := eh_publishing h - 1\<rparr>"

text \<open>A publish that nothing interleaves with: the sinks it invokes, in order, and the hub afterwards.\<close>

definition nop_event_publish :: "'k nop_event_hub \<Rightarrow> nop_event \<Rightarrow> 'k list \<times> 'k nop_event_hub" where
  "nop_event_publish h e = (case publish_begin h e of (sinks, h) \<Rightarrow> (sinks, publish_end h))"

definition nop_event_subscriber_count :: "'k nop_event_hub \<Rightarrow> nat" where
  "nop_event_subscriber_count h = length (filter (\<lambda>s. s \<noteq> None) (eh_sinks h))"

definition ring_read :: "'k nop_event_hub \<Rightarrow> nat \<Rightarrow> nop_event" where
  "ring_read h i =
     (let idx = nat ((int (eh_store_head h) - 1 - int i + int NOP_EVENT_STORE_SIZE) mod int NOP_EVENT_STORE_SIZE);
          r = eh_store h ! idx
      in \<lparr>ev_channel = er_channel r, ev_type = er_type r, ev_timestamp_ms = er_timestamp_ms r,
          ev_jpeg = None, ev_extra_json = None\<rparr>)"

fun recent_loop :: "'k nop_event_hub \<Rightarrow> nat \<Rightarrow> nat list \<Rightarrow> nop_event list \<Rightarrow> nop_event list" where
  "recent_loop h limit [] out = out"
| "recent_loop h limit (i # is) out =
     (if length out < limit then recent_loop h limit is (out @ [ring_read h i]) else out)"

definition nop_event_hub_recent :: "'k nop_event_hub \<Rightarrow> int \<Rightarrow> nop_event list" where
  "nop_event_hub_recent h limit = (if limit \<le> 0 then [] else recent_loop h (nat limit) [0..<eh_store_count h] [])"

fun nop_event_msgtype_code :: "nop_detect_type \<Rightarrow> u32" where
  "nop_event_msgtype_code NOP_DETECT_MOTION = 1"
| "nop_event_msgtype_code NOP_DETECT_HUMAN = 2"
| "nop_event_msgtype_code NOP_DETECT_FACE = 3"
| "nop_event_msgtype_code NOP_DETECT_VEHICLE = 30305"
| "nop_event_msgtype_code NOP_DETECT_DOORBELL_RING = 30312"
| "nop_event_msgtype_code NOP_DETECT_ANIMAL = 30316"
| "nop_event_msgtype_code NOP_DETECT_PACKAGE = 30317"
| "nop_event_msgtype_code NOP_DETECT_LINE_CROSS = 30103"
| "nop_event_msgtype_code NOP_DETECT_FIELD_INTRUSION = 30104"
| "nop_event_msgtype_code _ = 0"

section \<open>Threads over the hub\<close>

text \<open>A publisher in flight: the sinks it still has to invoke, and the sink whose unsubscription it
  waits for when one of its sinks called \<open>nop_event_unsubscribe\<close>.\<close>

record 'k publisher =
  pb_pending :: "'k list"
  pb_waits :: "'k option"

text \<open>The system: the hub, the publishers, the unsubscriptions waiting on their own threads, the sinks whose
  unsubscription has returned, and the log of invocations.\<close>

record 'k hub_sys =
  hs_hub :: "'k nop_event_hub"
  hs_pubs :: "'k publisher list"
  hs_waiting :: "'k list"
  hs_gone :: "'k set"
  hs_calls :: "'k list"

inductive hub_step :: "'k hub_sys \<Rightarrow> 'k hub_sys \<Rightarrow> bool" where
  Subscribe: "\<lbrakk>k \<notin> set (active_sinks (hs_hub s)); k \<notin> set (hs_waiting s);
      \<forall>p \<in> set (hs_pubs s). k \<notin> set (pb_pending p) \<and> pb_waits p \<noteq> Some k;
      nop_event_subscribe (hs_hub s) k = (r, h)\<rbrakk> \<Longrightarrow>
    hub_step s (s\<lparr>hs_hub := h, hs_gone := hs_gone s - {k}\<rparr>)"
| Publish: "publish_begin (hs_hub s) e = (ks, h) \<Longrightarrow>
    hub_step s (s\<lparr>hs_hub := h, hs_pubs := hs_pubs s @ [\<lparr>pb_pending = ks, pb_waits = None\<rparr>]\<rparr>)"
| Invoke: "\<lbrakk>i < length (hs_pubs s); hs_pubs s ! i = \<lparr>pb_pending = k # ks, pb_waits = None\<rparr>\<rbrakk> \<Longrightarrow>
    hub_step s (s\<lparr>hs_pubs := (hs_pubs s)[i := \<lparr>pb_pending = ks, pb_waits = None\<rparr>], hs_calls := hs_calls s @ [k]\<rparr>)"
| Finish: "\<lbrakk>i < length (hs_pubs s); hs_pubs s ! i = \<lparr>pb_pending = [], pb_waits = None\<rparr>\<rbrakk> \<Longrightarrow>
    hub_step s (s\<lparr>hs_hub := publish_end (hs_hub s), hs_pubs := take i (hs_pubs s) @ drop (Suc i) (hs_pubs s)\<rparr>)"
| Unsubscribe: "\<lbrakk>j < length (eh_sinks (hs_hub s)); eh_sinks (hs_hub s) ! j = Some k\<rbrakk> \<Longrightarrow>
    hub_step s (s\<lparr>hs_hub := unsubscribe_clear (hs_hub s) j, hs_waiting := hs_waiting s @ [k]\<rparr>)"
| Return: "\<lbrakk>j < length (hs_waiting s); unsubscribe_may_return (hs_hub s)\<rbrakk> \<Longrightarrow>
    hub_step s (s\<lparr>hs_waiting := take j (hs_waiting s) @ drop (Suc j) (hs_waiting s),
      hs_gone := insert (hs_waiting s ! j) (hs_gone s)\<rparr>)"
| Reenter: "\<lbrakk>i < length (hs_pubs s); hs_pubs s ! i = \<lparr>pb_pending = ks, pb_waits = None\<rparr>;
      j < length (eh_sinks (hs_hub s)); eh_sinks (hs_hub s) ! j = Some k\<rbrakk> \<Longrightarrow>
    hub_step s (s\<lparr>hs_hub := unsubscribe_clear (hs_hub s) j,
      hs_pubs := (hs_pubs s)[i := \<lparr>pb_pending = ks, pb_waits = Some k\<rparr>]\<rparr>)"
| Reenter_return: "\<lbrakk>i < length (hs_pubs s); hs_pubs s ! i = \<lparr>pb_pending = ks, pb_waits = Some k\<rparr>;
      unsubscribe_may_return (hs_hub s)\<rbrakk> \<Longrightarrow>
    hub_step s (s\<lparr>hs_pubs := (hs_pubs s)[i := \<lparr>pb_pending = ks, pb_waits = None\<rparr>], hs_gone := insert k (hs_gone s)\<rparr>)"

definition hub_sys0 :: "'k hub_sys" where
  "hub_sys0 = \<lparr>hs_hub = nop_event_hub_create, hs_pubs = [], hs_waiting = [], hs_gone = {}, hs_calls = []\<rparr>"

inductive_cases hub_stepE: "hub_step s s'"

section \<open>The push policy\<close>

definition NOP_PUSH_MAX_CHANNELS :: int where "NOP_PUSH_MAX_CHANNELS = 16"

record nop_push =
  pu_min_interval_ms :: int
  pu_silent_window_ms :: int
  pu_last_sent_ms :: "int \<Rightarrow> nat \<Rightarrow> u64"
  pu_last_global_ms :: u64

definition nop_push_start :: "int \<Rightarrow> int \<Rightarrow> nop_push" where
  "nop_push_start min_interval silent_window =
     \<lparr>pu_min_interval_ms = min_interval, pu_silent_window_ms = silent_window, pu_last_sent_ms = (\<lambda>_ _. 0), pu_last_global_ms = 0\<rparr>"

definition channel_index :: "int \<Rightarrow> int" where
  "channel_index c = (if c < 0 \<or> NOP_PUSH_MAX_CHANNELS \<le> c then 0 else c)"

definition elapsed_ms :: "u64 \<Rightarrow> u64 \<Rightarrow> u64" where
  "elapsed_ms now since = (if since \<le> now then now - since else 0)"

definition type_index :: "nop_event \<Rightarrow> nat" where
  "type_index e = (if detect_index (ev_type e) < 16 then detect_index (ev_type e) else 0)"

definition policy_allows :: "nop_push \<Rightarrow> nop_event \<Rightarrow> u64 \<Rightarrow> bool \<times> nop_push" where
  "policy_allows p e now =
     (let is_doorbell = (ev_type e = NOP_DETECT_DOORBELL_RING);
          ch = channel_index (ev_channel e); ty = type_index e;
          last = pu_last_sent_ms p ch ty;
          allow = (if is_doorbell then True
                   else
                     let allow = \<not> (pu_silent_window_ms p > 0 \<and> last \<noteq> 0 \<and>
                                     elapsed_ms now last < word_of_int (pu_silent_window_ms p))
                     in allow \<and> \<not> (pu_min_interval_ms p > 0 \<and> pu_last_global_ms p \<noteq> 0 \<and>
                                   elapsed_ms now (pu_last_global_ms p) < word_of_int (pu_min_interval_ms p)))
      in (allow,
          if allow
          then p\<lparr>pu_last_sent_ms := (pu_last_sent_ms p)(ch := (pu_last_sent_ms p ch)(ty := now)), pu_last_global_ms := now\<rparr>
          else p))"

text \<open>\<open>push_sink\<close> over a run of events, each with the clock it is handled at: the events sent.\<close>

fun push_run :: "nop_push \<Rightarrow> (nop_event \<times> u64) list \<Rightarrow> (nop_event \<times> u64) list" where
  "push_run p [] = []"
| "push_run p ((e, now) # es) =
     (case policy_allows p e now of (allow, p) \<Rightarrow> if allow then (e, now) # push_run p es else push_run p es)"

section \<open>What the interleavings keep\<close>

definition hub_inv :: "'k hub_sys \<Rightarrow> bool" where
  "hub_inv s \<longleftrightarrow> eh_publishing (hs_hub s) = int (length (hs_pubs s)) \<and>
     (\<forall>k \<in> hs_gone s. k \<notin> set (active_sinks (hs_hub s)) \<and> (\<forall>p \<in> set (hs_pubs s). k \<notin> set (pb_pending p))) \<and>
     (\<forall>k \<in> set (hs_waiting s). k \<notin> set (active_sinks (hs_hub s))) \<and>
     (\<forall>p \<in> set (hs_pubs s). \<forall>k. pb_waits p = Some k \<longrightarrow> k \<notin> set (active_sinks (hs_hub s))) \<and>
     distinct (active_sinks (hs_hub s))"

lemma active_of_append: "active_of (xs @ ys) = active_of xs @ active_of ys"
  by (induction xs rule: active_of.induct) simp_all

lemma active_of_split: "i < length xs \<Longrightarrow>
  active_of xs = active_of (take i xs) @ active_of [xs ! i] @ active_of (drop (Suc i) xs)"
  by (metis append_Cons append_Nil active_of_append id_take_nth_drop)

lemma active_of_update: "i < length xs \<Longrightarrow>
  active_of (xs[i := y]) = active_of (take i xs) @ active_of [y] @ active_of (drop (Suc i) xs)"
  by (metis append_Cons append_Nil active_of_append upd_conv_take_nth_drop)

lemma active_clear:
  assumes "j < length (eh_sinks h)" "eh_sinks h ! j = Some k" "distinct (active_sinks h)"
  shows "set (active_sinks (unsubscribe_clear h j)) = set (active_sinks h) - {k}" "distinct (active_sinks (unsubscribe_clear h j))"
  using assms(2,3) active_of_split[OF assms(1)] active_of_update[OF assms(1), of None]
  by (auto simp: active_sinks_def unsubscribe_clear_def)

lemma first_free_some: "first_free n xs = Some i \<Longrightarrow> \<exists>j. i = n + j \<and> j < length xs \<and> xs ! j = None"
proof (induction n xs rule: first_free.induct)
  case (3 n k xs)
  then obtain j where "i = Suc n + j \<and> j < length xs \<and> xs ! j = None" by auto
  then show ?case by (intro exI[of _ "Suc j"]) simp
qed auto

lemma active_subscribe:
  assumes "nop_event_subscribe h k = (r, h')" "k \<notin> set (active_sinks h)" "distinct (active_sinks h)"
  shows "set (active_sinks h') \<subseteq> insert k (set (active_sinks h))" "distinct (active_sinks h')" "eh_publishing h' = eh_publishing h"
proof -
  have "set (active_sinks h') \<subseteq> insert k (set (active_sinks h)) \<and> distinct (active_sinks h') \<and> eh_publishing h' = eh_publishing h"
  proof (cases "first_free 0 (eh_sinks h)")
    case None
    then show ?thesis using assms by (auto simp: nop_event_subscribe_def)
  next
    case (Some i)
    have i: "i < length (eh_sinks h)" "eh_sinks h ! i = None" using first_free_some[OF Some] by auto
    have "h' = h\<lparr>eh_sinks := (eh_sinks h)[i := Some k]\<rparr>" using assms(1) Some by (simp add: nop_event_subscribe_def)
    then show ?thesis
      using assms(2,3) i(2) active_of_split[OF i(1)] active_of_update[OF i(1), of "Some k"] by (auto simp: active_sinks_def)
  qed
  then show "set (active_sinks h') \<subseteq> insert k (set (active_sinks h))" "distinct (active_sinks h')" "eh_publishing h' = eh_publishing h"
    by blast+
qed

lemma active_publish:
  "publish_begin h e = (ks, h') \<Longrightarrow> ks = active_sinks h \<and> active_sinks h' = active_sinks h \<and> eh_publishing h' = eh_publishing h + 1"
  by (auto simp: publish_begin_def store_event_def active_sinks_def Let_def)

lemma active_publish_end [simp]:
  "active_sinks (publish_end h) = active_sinks h" "eh_publishing (publish_end h) = eh_publishing h - 1"
  by (simp_all add: publish_end_def active_sinks_def)

lemma publishing_clear [simp]: "eh_publishing (unsubscribe_clear h j) = eh_publishing h"
  by (simp add: unsubscribe_clear_def)

lemma hub_inv0: "hub_inv hub_sys0"
  by (simp add: hub_inv_def hub_sys0_def nop_event_hub_create_def active_sinks_def NOP_EVENT_MAX_SINKS_def eval_nat_numeral)

lemma set_removed: "set (take i xs @ drop (Suc i) xs) \<subseteq> set xs"
  by (auto dest: in_set_takeD in_set_dropD)

lemma set_updD: "x \<in> set (xs[i := y]) \<Longrightarrow> x = y \<or> x \<in> set xs"
  by (metis insertE set_update_subset_insert subsetD)

lemma hub_step_inv: "hub_step s s' \<Longrightarrow> hub_inv s \<Longrightarrow> hub_inv s'"
proof (induction rule: hub_step.induct)
  case (Subscribe k s r h)
  have d: "distinct (active_sinks (hs_hub s))" using Subscribe.prems by (simp add: hub_inv_def)
  note A = active_subscribe[OF Subscribe.hyps(4,1) d]
  show ?case using Subscribe.prems Subscribe.hyps(2,3) A unfolding hub_inv_def by auto
next
  case (Publish s e ks h)
  then show ?case using active_publish[OF Publish.hyps] by (auto simp: hub_inv_def)
next
  case (Invoke i s k ks)
  have "hs_pubs s ! i \<in> set (hs_pubs s)" using Invoke.hyps(1) by (rule nth_mem)
  then have "\<forall>x \<in> set (k # ks). x \<notin> hs_gone s" using Invoke.prems Invoke.hyps(2) unfolding hub_inv_def by fastforce
  then show ?case using Invoke.prems unfolding hub_inv_def by (auto dest!: set_updD)
next
  case (Finish i s)
  have "length (take i (hs_pubs s) @ drop (Suc i) (hs_pubs s)) = length (hs_pubs s) - 1" "0 < length (hs_pubs s)" using Finish.hyps by auto
  then have "int (length (take i (hs_pubs s) @ drop (Suc i) (hs_pubs s))) = int (length (hs_pubs s)) - 1" by linarith
  then show ?case using Finish.prems unfolding hub_inv_def by (auto simp del: length_append dest: in_set_takeD in_set_dropD)
next
  case (Unsubscribe j s k)
  have d: "distinct (active_sinks (hs_hub s))" using Unsubscribe.prems by (simp add: hub_inv_def)
  show ?case using Unsubscribe.prems active_clear[OF Unsubscribe.hyps d] unfolding hub_inv_def by auto
next
  case (Return j s)
  have p: "hs_pubs s = []" using Return by (simp add: hub_inv_def unsubscribe_may_return_def)
  have "hs_waiting s ! j \<in> set (hs_waiting s)" using Return.hyps by simp
  then show ?case using Return.prems p unfolding hub_inv_def by (auto dest: in_set_takeD in_set_dropD)
next
  case (Reenter i s ks j k)
  have d: "distinct (active_sinks (hs_hub s))" using Reenter.prems by (simp add: hub_inv_def)
  have "hs_pubs s ! i \<in> set (hs_pubs s)" using Reenter.hyps(1) by (rule nth_mem)
  then have "\<forall>x \<in> set ks. x \<notin> hs_gone s" using Reenter.prems Reenter.hyps(2) unfolding hub_inv_def by fastforce
  then show ?case
    using Reenter.prems active_clear[OF Reenter.hyps(3,4) d] unfolding hub_inv_def by (auto dest!: set_updD)
next
  case (Reenter_return i s ks k)
  have "hs_pubs s = []" using Reenter_return by (simp add: hub_inv_def unsubscribe_may_return_def)
  then show ?case using Reenter_return.hyps(1) by simp
qed

lemma hub_reach_inv: "hub_step\<^sup>*\<^sup>* s s' \<Longrightarrow> hub_inv s \<Longrightarrow> hub_inv s'"
  by (induction rule: rtranclp_induct) (auto intro: hub_step_inv)

lemma pubs_drain:
  "\<lbrakk>\<forall>p \<in> set (hs_pubs s). pb_waits p = None; eh_publishing (hs_hub s) = int (length (hs_pubs s))\<rbrakk> \<Longrightarrow>
   \<exists>s'. hub_step\<^sup>*\<^sup>* s s' \<and> hs_pubs s' = [] \<and> hs_waiting s' = hs_waiting s \<and> eh_publishing (hs_hub s') = 0"
proof (induction "sum_list (map (\<lambda>p. Suc (length (pb_pending p))) (hs_pubs s))" arbitrary: s rule: less_induct)
  case less
  show ?case
  proof (cases "hs_pubs s")
    case Nil
    then show ?thesis using less.prems by (intro exI[of _ s]) simp
  next
    case (Cons p ps)
    obtain ks where p: "p = \<lparr>pb_pending = ks, pb_waits = None\<rparr>"
      using less.prems(1) Cons by (cases p) auto
    have i: "0 < length (hs_pubs s)" "hs_pubs s ! 0 = p" using Cons by simp_all
    obtain s1 where s1: "hub_step s s1" "hs_waiting s1 = hs_waiting s" "\<forall>p \<in> set (hs_pubs s1). pb_waits p = None"
      "eh_publishing (hs_hub s1) = int (length (hs_pubs s1))"
      "sum_list (map (\<lambda>p. Suc (length (pb_pending p))) (hs_pubs s1)) < sum_list (map (\<lambda>p. Suc (length (pb_pending p))) (hs_pubs s))"
    proof (cases ks)
      case Nil
      show ?thesis
        by (rule that[OF hub_step.Finish[of 0 s]]) (use i p Nil less.prems Cons in auto)
    next
      case (Cons k ks')
      show ?thesis
        by (rule that[OF hub_step.Invoke[of 0 s k ks']]) (use i p Cons less.prems \<open>hs_pubs s = p # ps\<close> in auto)
    qed
    from less.hyps[OF s1(5,3,4)] s1(1,2) show ?thesis by (metis converse_rtranclp_into_rtranclp)
  qed
qed

lemma blocked_stays:
  assumes "hub_step s s'" "hub_inv s" "\<exists>p \<in> set (hs_pubs s). pb_waits p \<noteq> None"
  shows "\<exists>p \<in> set (hs_pubs s'). pb_waits p \<noteq> None"
proof -
  obtain n where n: "n < length (hs_pubs s)" "pb_waits (hs_pubs s ! n) \<noteq> None"
    using assms(3) by (auto simp: in_set_conv_nth)
  have np: "\<not> unsubscribe_may_return (hs_hub s)"
    using assms(2) n(1) by (auto simp: hub_inv_def unsubscribe_may_return_def)
  show ?thesis
    using assms(1)
  proof (cases rule: hub_step.cases)
    case (Subscribe k r h)
    then show ?thesis using assms(3) by simp
  next
    case (Publish e ks h)
    then show ?thesis using assms(3) by auto
  next
    case (Invoke i k ks)
    then have "n \<noteq> i" using n by auto
    then have "hs_pubs s' ! n = hs_pubs s ! n" "n < length (hs_pubs s')" using Invoke n by auto
    then show ?thesis using n(2) by (metis nth_mem)
  next
    case (Finish i)
    then have "n \<noteq> i" using n by auto
    then have "hs_pubs s ! n \<in> set (take i (hs_pubs s)) \<union> set (drop (Suc i) (hs_pubs s))"
      using n(1) by (cases "n < i") (auto simp: in_set_conv_nth intro: exI[of _ n] exI[of _ "n - Suc i"])
    then show ?thesis using Finish n(2) by auto
  next
    case (Unsubscribe j k)
    then show ?thesis using assms(3) by simp
  next
    case (Return j)
    then show ?thesis using np by simp
  next
    case (Reenter i ks j k)
    then show ?thesis by (auto simp: set_conv_nth intro!: exI[of _ "\<lparr>pb_pending = ks, pb_waits = Some k\<rparr>"] exI[of _ i])
  next
    case (Reenter_return i ks k)
    then show ?thesis using np by simp
  qed
qed

section \<open>The ring of recent events\<close>

definition publish_all :: "nop_event list \<Rightarrow> 'k nop_event_hub \<Rightarrow> 'k nop_event_hub" where
  "publish_all es h = fold (\<lambda>e h. snd (nop_event_publish h e)) es h"

definition event_meta :: "nop_event \<Rightarrow> nop_event" where
  "event_meta e = e\<lparr>ev_jpeg := None, ev_extra_json := None\<rparr>"

definition ring_holds :: "'k nop_event_hub \<Rightarrow> nop_event list \<Rightarrow> bool" where
  "ring_holds h es \<longleftrightarrow> length (eh_store h) = 64 \<and> eh_store_head h = length es mod 64 \<and>
     eh_store_count h = min 64 (length es) \<and>
     (\<forall>i < length es. length es \<le> i + 64 \<longrightarrow> eh_store h ! (i mod 64) =
        \<lparr>er_channel = ev_channel (es ! i), er_type = ev_type (es ! i), er_timestamp_ms = ev_timestamp_ms (es ! i)\<rparr>)"

lemma ring_create: "ring_holds nop_event_hub_create []"
  by (simp add: ring_holds_def nop_event_hub_create_def NOP_EVENT_STORE_SIZE_def)

lemma ring_publish: "ring_holds h es \<Longrightarrow> ring_holds (snd (nop_event_publish h e)) (es @ [e])"
proof -
  assume R: "ring_holds h es"
  have st: "eh_store (snd (nop_event_publish h e)) = (eh_store h)[length es mod 64 :=
      \<lparr>er_channel = ev_channel e, er_type = ev_type e, er_timestamp_ms = ev_timestamp_ms e\<rparr>]"
    "eh_store_head (snd (nop_event_publish h e)) = Suc (length es) mod 64"
    "eh_store_count (snd (nop_event_publish h e)) = min 64 (Suc (length es))"
    using R by (auto simp: nop_event_publish_def publish_begin_def publish_end_def store_event_def ring_holds_def
        NOP_EVENT_STORE_SIZE_def Let_def mod_Suc)
  have ne: "i mod 64 \<noteq> length es mod 64" if "i < length es" "Suc (length es) \<le> i + 64" for i
  proof
    assume "i mod 64 = length es mod 64"
    then have "(64 :: nat) dvd length es - i" using that(1) by (metis less_or_eq_imp_le mod_eq_dvd_iff_nat)
    then show False using that by (auto dest: dvd_imp_le)
  qed
  have "\<forall>i < length (es @ [e]). length (es @ [e]) \<le> i + 64 \<longrightarrow> eh_store (snd (nop_event_publish h e)) ! (i mod 64) =
      \<lparr>er_channel = ev_channel ((es @ [e]) ! i), er_type = ev_type ((es @ [e]) ! i), er_timestamp_ms = ev_timestamp_ms ((es @ [e]) ! i)\<rparr>"
  proof (intro allI impI)
    fix i
    assume i: "i < length (es @ [e])" "length (es @ [e]) \<le> i + 64"
    have l: "length (eh_store h) = 64" using R by (simp add: ring_holds_def)
    show "eh_store (snd (nop_event_publish h e)) ! (i mod 64) =
      \<lparr>er_channel = ev_channel ((es @ [e]) ! i), er_type = ev_type ((es @ [e]) ! i), er_timestamp_ms = ev_timestamp_ms ((es @ [e]) ! i)\<rparr>"
    proof (cases "i = length es")
      case True
      then show ?thesis using l by (simp add: st(1))
    next
      case False
      then have j: "i < length es" "Suc (length es) \<le> i + 64" using i by auto
      then show ?thesis using R ne[OF j] by (simp add: st(1) ring_holds_def nth_append)
    qed
  qed
  then show ?thesis
    using R unfolding ring_holds_def st(2,3) by (simp add: st(1))
qed

lemma ring_all: "ring_holds h es0 \<Longrightarrow> ring_holds (publish_all es h) (es0 @ es)"
proof (induction es arbitrary: h es0)
  case (Cons e es)
  then show ?case using Cons.IH[OF ring_publish[OF Cons.prems], of e] by (simp add: publish_all_def)
qed (simp add: publish_all_def)

lemma recent_loop_eq: "recent_loop h limit is out = out @ take (limit - length out) (map (ring_read h) is)"
proof (induction "is" arbitrary: out)
  case (Cons i "is")
  show ?case
  proof (cases "length out < limit")
    case True
    then have "limit - length out = Suc (limit - Suc (length out))" by simp
    then show ?thesis using True Cons.IH[of "out @ [ring_read h i]"] by simp
  qed simp
qed simp

lemma ring_read_at:
  assumes "ring_holds h es" "i < 64" "i < length es"
  shows "ring_read h i = event_meta (es ! (length es - 1 - i))"
proof -
  let ?n = "length es"
  have "int (eh_store_head h) = int ?n mod 64" using assms(1) by (simp add: ring_holds_def zmod_int)
  then have "(int (eh_store_head h) - 1 - int i + 64) mod 64 = (int ?n mod 64 + (63 - int i)) mod 64" by (simp add: algebra_simps)
  also have "\<dots> = (int ?n + (63 - int i)) mod 64" by (rule mod_add_left_eq)
  also have "int ?n + (63 - int i) = (int ?n - 1 - int i) + 64" by simp
  also have "\<dots> mod 64 = (int ?n - 1 - int i) mod 64" by (rule mod_add_self2)
  also have "int ?n - 1 - int i = int (?n - 1 - i)" using assms(3) by (simp add: of_nat_diff)
  finally have "nat ((int (eh_store_head h) - 1 - int i + 64) mod 64) = (?n - 1 - i) mod 64" by (simp add: nat_mod_as_int)
  moreover have "?n - 1 - i < ?n" "?n \<le> ?n - 1 - i + 64" using assms(2,3) by auto
  ultimately show ?thesis
    using assms(1) by (simp add: ring_holds_def ring_read_def NOP_EVENT_STORE_SIZE_def event_meta_def Let_def)
qed

lemma recent_spec:
  assumes "ring_holds h es" "0 < limit"
  shows "nop_event_hub_recent h limit = take (min 64 (nat limit)) (map event_meta (rev es))"
proof -
  have "map (ring_read h) [0..<min 64 (length es)] = take 64 (map event_meta (rev es))"
    by (rule nth_equalityI) (auto simp: rev_nth ring_read_at[OF assms(1)])
  then show ?thesis
    using assms by (simp add: nop_event_hub_recent_def recent_loop_eq ring_holds_def min.commute)
qed

section \<open>The push windows\<close>

text \<open>The gap the policy keeps before a later event: the silent window of its channel and type, and the
  global interval. A last-sent time of zero means that nothing was sent.\<close>

definition spaced :: "nop_push \<Rightarrow> nop_event \<times> u64 \<Rightarrow> nop_event \<times> u64 \<Rightarrow> bool" where
  "spaced p x y \<longleftrightarrow> ev_type (fst y) \<noteq> NOP_DETECT_DOORBELL_RING \<longrightarrow>
     (0 < pu_min_interval_ms p \<longrightarrow> uint (snd x) + pu_min_interval_ms p \<le> uint (snd y)) \<and>
     (0 < pu_silent_window_ms p \<and> channel_index (ev_channel (fst x)) = channel_index (ev_channel (fst y)) \<and>
        type_index (fst x) = type_index (fst y) \<longrightarrow> uint (snd x) + pu_silent_window_ms p \<le> uint (snd y))"

definition push_cfg :: "nop_push \<Rightarrow> bool" where
  "push_cfg p \<longleftrightarrow> pu_min_interval_ms p < 2 ^ 31 \<and> pu_silent_window_ms p < 2 ^ 31"

lemma uint_window: "0 < i \<Longrightarrow> i < 2 ^ 31 \<Longrightarrow> uint (word_of_int i :: u64) = i"
  by (simp add: uint_word_of_int_eq take_bit_int_eq_self)

lemma elapsed_window:
  assumes "\<not> elapsed_ms now prev < word_of_int i" "prev \<le> now" "0 < i" "i < 2 ^ 31"
  shows "uint prev + i \<le> uint now"
proof -
  have "word_of_int i \<le> now - prev" using assms(1,2) by (simp add: elapsed_ms_def not_less)
  then have "i \<le> uint (now - prev)" using uint_window[OF assms(3,4)] by (simp add: word_le_def)
  then show ?thesis using assms(2) by (simp add: uint_sub_if' word_le_def split: if_splits)
qed

lemma policy_cfg: "policy_allows p e now = (a, p') \<Longrightarrow>
  pu_min_interval_ms p' = pu_min_interval_ms p \<and> pu_silent_window_ms p' = pu_silent_window_ms p"
  by (auto simp: policy_allows_def Let_def)

lemma policy_denied: "policy_allows p e now = (False, p') \<Longrightarrow> p' = p"
  by (auto simp: policy_allows_def Let_def)

lemma policy_allowed:
  assumes "policy_allows p e now = (True, p')" "push_cfg p"
  shows "pu_last_global_ms p' = now"
    "pu_last_sent_ms p' = (pu_last_sent_ms p)(channel_index (ev_channel e) :=
       (pu_last_sent_ms p (channel_index (ev_channel e)))(type_index e := now))"
    "\<lbrakk>ev_type e \<noteq> NOP_DETECT_DOORBELL_RING; 0 < pu_min_interval_ms p; pu_last_global_ms p \<noteq> 0; pu_last_global_ms p \<le> now\<rbrakk> \<Longrightarrow>
       uint (pu_last_global_ms p) + pu_min_interval_ms p \<le> uint now"
    "\<lbrakk>ev_type e \<noteq> NOP_DETECT_DOORBELL_RING; 0 < pu_silent_window_ms p;
       pu_last_sent_ms p (channel_index (ev_channel e)) (type_index e) \<noteq> 0;
       pu_last_sent_ms p (channel_index (ev_channel e)) (type_index e) \<le> now\<rbrakk> \<Longrightarrow>
       uint (pu_last_sent_ms p (channel_index (ev_channel e)) (type_index e)) + pu_silent_window_ms p \<le> uint now"
  using assms by (auto simp: policy_allows_def Let_def push_cfg_def intro!: elapsed_window split: if_splits)

text \<open>The events sent from a state in which something was sent at \<open>x\<close> keep their distance from it.\<close>

definition after :: "nop_push \<Rightarrow> nop_event \<times> u64 \<Rightarrow> bool" where
  "after p x \<longleftrightarrow> snd x \<noteq> 0 \<and> snd x \<le> pu_last_global_ms p \<and>
     snd x \<le> pu_last_sent_ms p (channel_index (ev_channel (fst x))) (type_index (fst x))"

definition behind :: "nop_push \<Rightarrow> u64 \<Rightarrow> bool" where
  "behind p now \<longleftrightarrow> pu_last_global_ms p \<le> now \<and> (\<forall>c t. pu_last_sent_ms p c t \<le> now)"

lemma push_step_inv:
  assumes "policy_allows p e now = (True, p')" "push_cfg p" "behind p now" "now \<noteq> 0"
  shows "behind p' now" "push_cfg p'" "after p' (e, now)" "after p x \<Longrightarrow> after p' x" "after p x \<Longrightarrow> spaced p x (e, now)"
proof -
  note A = policy_allowed[OF assms(1,2)]
  show "behind p' now" using assms(3) A(1,2) by (auto simp: behind_def)
  show "push_cfg p'" using assms(2) policy_cfg[OF assms(1)] by (simp add: push_cfg_def)
  show "after p' (e, now)" using A(1,2) assms(4) by (simp add: after_def)
  show "after p' x" if "after p x" using that A(1,2) assms(3) by (auto simp: after_def behind_def intro: order_trans)
  show "spaced p x (e, now)" if a: "after p x"
  proof -
    have nz: "pu_last_global_ms p \<noteq> 0" "pu_last_sent_ms p (channel_index (ev_channel (fst x))) (type_index (fst x)) \<noteq> 0"
      using a by (auto simp: after_def)
    have le: "pu_last_global_ms p \<le> now" "pu_last_sent_ms p c t \<le> now" for c t using assms(3) by (simp_all add: behind_def)
    have xs: "uint (snd x) \<le> uint (pu_last_global_ms p)"
      "uint (snd x) \<le> uint (pu_last_sent_ms p (channel_index (ev_channel (fst x))) (type_index (fst x)))"
      using a by (simp_all add: after_def word_le_def)
    show ?thesis using A(3)[OF _ _ nz(1) le(1)] A(4) nz(2) le(2) xs by (fastforce simp: spaced_def)
  qed
qed

lemma behind_later: "behind p now \<Longrightarrow> now \<le> now' \<Longrightarrow> behind p now'"
  by (auto simp: behind_def intro: order_trans)

lemma push_run_after:
  "\<lbrakk>push_cfg p; sorted (map snd es); \<forall>x \<in> set es. snd x \<noteq> 0 \<and> behind p (snd x)\<rbrakk> \<Longrightarrow>
    (\<forall>x. after p x \<longrightarrow> (\<forall>y \<in> set (push_run p es). spaced p x y)) \<and> sorted_wrt (spaced p) (push_run p es) \<and>
    filter (\<lambda>x. ev_type (fst x) = NOP_DETECT_DOORBELL_RING) (push_run p es) =
    filter (\<lambda>x. ev_type (fst x) = NOP_DETECT_DOORBELL_RING) es"
proof (induction es arbitrary: p)
  case Nil
  then show ?case by simp
next
  case (Cons x es)
  obtain e now where x: "x = (e, now)" by fastforce
  obtain a p' where pa: "policy_allows p e now = (a, p')" by fastforce
  show ?case
  proof (cases a)
    case True
    have pT: "policy_allows p e now = (True, p')" using pa True by simp
    note S = push_step_inv[OF pT Cons.prems(1)]
    have b: "behind p now" "now \<noteq> 0" using Cons.prems(3) x by auto
    have later: "\<forall>y \<in> set es. snd y \<noteq> 0 \<and> behind p' (snd y)"
      using Cons.prems(2,3) x S(1)[OF b] by (auto intro: behind_later)
    have sp: "spaced p' = spaced p" using policy_cfg[OF pa] by (intro ext) (simp add: spaced_def)
    note IH = Cons.IH[OF S(2)[OF b] _ later, unfolded sp]
    have srt: "sorted (map snd es)" using Cons.prems(2) x by simp
    show ?thesis using IH[OF srt] S(3)[OF b] S(4)[OF b] S(5)[OF b] pa True x by auto
  next
    case False
    then have "p' = p" "ev_type e \<noteq> NOP_DETECT_DOORBELL_RING"
      using policy_denied pa by (auto simp: policy_allows_def Let_def)
    then show ?thesis using Cons.IH[OF Cons.prems(1)] Cons.prems(2,3) pa False x by auto
  qed
qed

section \<open>Properties\<close>

definition demo_event :: "u64 \<Rightarrow> nop_event" where
  "demo_event t = \<lparr>ev_channel = 0, ev_type = NOP_DETECT_HUMAN, ev_timestamp_ms = t, ev_jpeg = None, ev_extra_json = None\<rparr>"

text \<open>C3: The unsubscribe barrier. In every interleaving of publishers, subscribers and unsubscribers, a
  sink whose unsubscription has returned (and that was not subscribed again) is in no publisher's snapshot, so
  no later step invokes it: its context may be freed at once.\<close>

theorem unsubscribe_barrier:
  assumes "hub_step\<^sup>*\<^sup>* hub_sys0 s" "k \<in> hs_gone s" "hub_step s s'"
  shows "hs_calls s' \<noteq> hs_calls s @ [k] \<and> (\<forall>p \<in> set (hs_pubs s). k \<notin> set (pb_pending p)) \<and>
    k \<notin> set (active_sinks (hs_hub s))"
proof -
  have inv: "hub_inv s" by (rule hub_reach_inv[OF assms(1) hub_inv0])
  then have k: "\<forall>p \<in> set (hs_pubs s). k \<notin> set (pb_pending p)" "k \<notin> set (active_sinks (hs_hub s))"
    using assms(2) by (auto simp: hub_inv_def)
  have "hs_calls s' \<noteq> hs_calls s @ [k]"
    using assms(3)
  proof (cases rule: hub_step.cases)
    case (Invoke i k' ks)
    then show ?thesis using k(1) by (auto dest: bspec[OF _ nth_mem])
  qed auto
  then show ?thesis using k by blast
qed

lemma demo_gone: "\<exists>s. hub_step\<^sup>*\<^sup>* hub_sys0 s \<and> (7 :: nat) \<in> hs_gone s"
proof -
  define h1 where "h1 = snd (nop_event_subscribe nop_event_hub_create (7 :: nat))"
  define s1 where "s1 = hub_sys0\<lparr>hs_hub := h1, hs_gone := hs_gone hub_sys0 - {7}\<rparr>"
  define s2 where "s2 = s1\<lparr>hs_hub := unsubscribe_clear h1 0, hs_waiting := [7]\<rparr>"
  define s3 where "s3 = s2\<lparr>hs_waiting := [], hs_gone := insert 7 (hs_gone s2)\<rparr>"
  have h1: "eh_sinks h1 = Some 7 # replicate 7 None" "eh_publishing h1 = 0"
    by (simp_all add: h1_def nop_event_subscribe_def nop_event_hub_create_def NOP_EVENT_MAX_SINKS_def eval_nat_numeral)
  have "hub_step hub_sys0 s1"
    unfolding s1_def
    by (rule hub_step.Subscribe[where r = "fst (nop_event_subscribe nop_event_hub_create (7 :: nat))"])
      (auto simp: hub_sys0_def h1_def nop_event_hub_create_def active_sinks_def NOP_EVENT_MAX_SINKS_def eval_nat_numeral)
  moreover have "hub_step s1 s2"
    using hub_step.Unsubscribe[of 0 s1 7] h1 by (simp add: s1_def s2_def hub_sys0_def)
  moreover have "hub_step s2 s3"
    using hub_step.Return[of 0 s2] h1 by (simp add: s1_def s2_def s3_def unsubscribe_may_return_def unsubscribe_clear_def)
  ultimately have "hub_step\<^sup>*\<^sup>* hub_sys0 s3" by (meson converse_rtranclp_into_rtranclp rtranclp.rtrancl_refl)
  then show ?thesis by (intro exI[of _ s3]) (simp add: s3_def)
qed

lemma unsubscribe_barrier_witness:
  "\<exists>s s'. hub_step s s' \<and> (7 :: nat) \<in> hs_gone s \<and> hs_calls s' \<noteq> hs_calls s @ [7]"
proof -
  obtain s where s: "hub_step\<^sup>*\<^sup>* hub_sys0 s" "(7 :: nat) \<in> hs_gone s" using demo_gone by blast
  obtain ks h where h: "publish_begin (hs_hub s) (demo_event 1) = (ks, h)" by fastforce
  show ?thesis using unsubscribe_barrier[OF s hub_step.Publish[OF h]] hub_step.Publish[OF h] s(2) by blast
qed

text \<open>Unsubscribing can always complete, unless a sink unsubscribes itself. From every reachable state in
  which no sink is inside \<open>nop_event_unsubscribe\<close>, the publishers can run to their end, after which every waiting
  unsubscription may return; but once a sink calls it on its publisher's thread, the publish that waits for itself stays
  in flight in every continuation, and no unsubscription ever returns again.\<close>

theorem unsubscribe_progress:
  assumes "hub_step\<^sup>*\<^sup>* hub_sys0 s"
  shows "if \<forall>p \<in> set (hs_pubs s). pb_waits p = None
    then \<exists>s'. hub_step\<^sup>*\<^sup>* s s' \<and> hs_pubs s' = [] \<and> hs_waiting s' = hs_waiting s \<and> unsubscribe_may_return (hs_hub s')
    else \<forall>s'. hub_step\<^sup>*\<^sup>* s s' \<longrightarrow> \<not> unsubscribe_may_return (hs_hub s')"
proof -
  have inv: "hub_inv s" by (rule hub_reach_inv[OF assms hub_inv0])
  show ?thesis
  proof (cases "\<forall>p \<in> set (hs_pubs s). pb_waits p = None")
    case True
    then show ?thesis using pubs_drain[OF True] inv by (auto simp: hub_inv_def unsubscribe_may_return_def)
  next
    case False
    have "hub_inv s' \<and> (\<exists>p \<in> set (hs_pubs s'). pb_waits p \<noteq> None)" if "hub_step\<^sup>*\<^sup>* s s'" for s'
      using that
    proof (induction rule: rtranclp_induct)
      case base
      then show ?case using False inv by blast
    next
      case (step y z)
      then show ?case using hub_step_inv blocked_stays by blast
    qed
    then have "\<not> unsubscribe_may_return (hs_hub s')" if "hub_step\<^sup>*\<^sup>* s s'" for s'
      using that by (fastforce simp: hub_inv_def unsubscribe_may_return_def)
    then show ?thesis using False by auto
  qed
qed

lemma unsubscribe_progress_witness:
  "\<exists>s'. hub_step\<^sup>*\<^sup>* (hub_sys0 :: nat hub_sys) s' \<and> unsubscribe_may_return (hs_hub s')"
  using unsubscribe_progress[of "hub_sys0 :: nat hub_sys"] by (auto simp: hub_sys0_def)

text \<open>The recent events. After any sequence of publishes the query returns, newest first, the last
  events published: as many as asked for, at most 64, with channel, type and time and without payloads.\<close>

theorem recent_events:
  assumes "0 < limit"
  shows "nop_event_hub_recent (publish_all es nop_event_hub_create) limit = take (min 64 (nat limit)) (map event_meta (rev es))"
  using recent_spec[OF ring_all[OF ring_create, of es] assms] by simp

lemma recent_events_witness:
  "nop_event_hub_recent (publish_all [demo_event 1, demo_event 2, demo_event 3] (nop_event_hub_create :: nat nop_event_hub)) 2 =
     [demo_event 3, demo_event 2]"
  using recent_events[of 2 "[demo_event 1, demo_event 2, demo_event 3]", where 'a = nat]
  by (simp add: event_meta_def demo_event_def)

text \<open>The push policy. Over a run of events at non-decreasing, non-zero clock readings, any two pushes
  keep the configured distances (a window that is not positive is off): a later push that is not a doorbell ring comes
  at least the global interval after every earlier push, and the silent window after an earlier push of the same channel
  and type; every doorbell ring is pushed.\<close>

theorem push_windows:
  assumes "min_interval < 2 ^ 31" "silent < 2 ^ 31" "sorted (map snd es)" "\<forall>x \<in> set es. snd x \<noteq> 0"
  shows "sorted_wrt (spaced (nop_push_start min_interval silent)) (push_run (nop_push_start min_interval silent) es) \<and>
    filter (\<lambda>x. ev_type (fst x) = NOP_DETECT_DOORBELL_RING) (push_run (nop_push_start min_interval silent) es) =
    filter (\<lambda>x. ev_type (fst x) = NOP_DETECT_DOORBELL_RING) es"
  using push_run_after[of "nop_push_start min_interval silent" es] assms
  by (auto simp: push_cfg_def nop_push_start_def behind_def)

lemma push_windows_witness:
  "sorted_wrt (spaced (nop_push_start 1000 30000)) (push_run (nop_push_start 1000 30000) [(demo_event 1, 5), (demo_event 2, 6)])"
  using push_windows[of 1000 30000 "[(demo_event 1, 5), (demo_event 2, 6)]"] by simp

end
