(* ===== verification/Nop_App.thy ===== *)
theory Nop_App
  imports Nop_Router Nop_Event
begin

text \<open>
  components/nop/src: the long-poll mask (nop/nop_longpoll.c), the HAL table (hal/hal_registry.c), the device
  provisioning (config/nop_config.c) and the application facade (app/nop_app.c) that ties registry, router, long-poll and
  event hub together. The capability handlers register as lists of (name, capability, handler) that are arguments
  here. Event hubs are looked up by a number that stands for the hub's pointer; the bridge from events to the long-poll
  mask is the sink \<open>Bridge\<close>. The business context is the record the handlers get; attached engines are
  numbers for their pointers.
\<close>

section \<open>Long polling\<close>

definition nop_longpoll_signal :: "u32 \<Rightarrow> u32 \<Rightarrow> u32" where
  "nop_longpoll_signal pending bits = pending OR bits"

definition nop_longpoll_drain :: "u32 \<Rightarrow> u32 \<times> u32" where
  "nop_longpoll_drain pending = (pending, 0)"

datatype longpoll_op = Signal u32 | Drain

text \<open>A sequence of calls: the masks drained, and what is pending at the end.\<close>

fun longpoll_run :: "longpoll_op list \<Rightarrow> u32 \<Rightarrow> u32 list \<times> u32" where
  "longpoll_run [] p = ([], p)"
| "longpoll_run (Signal b # ops) p = longpoll_run ops (nop_longpoll_signal p b)"
| "longpoll_run (Drain # ops) p =
     (case nop_longpoll_drain p of (d, p) \<Rightarrow> case longpoll_run ops p of (ds, p) \<Rightarrow> (d # ds, p))"

section \<open>The HAL table\<close>

type_synonym hal_id = int

definition HAL_VIDEO :: hal_id where "HAL_VIDEO = 0"
definition HAL_PTZ :: hal_id where "HAL_PTZ = 1"
definition HAL_LIGHT :: hal_id where "HAL_LIGHT = 2"
definition HAL_STORAGE :: hal_id where "HAL_STORAGE = 4"
definition HAL_RECORD :: hal_id where "HAL_RECORD = 5"
definition HAL_AUDIO :: hal_id where "HAL_AUDIO = 6"
definition HAL_OTA :: hal_id where "HAL_OTA = 7"
definition HAL_ID_MAX :: hal_id where "HAL_ID_MAX = 9"

type_synonym 'v hal_table = "hal_id \<Rightarrow> 'v option"

definition hal_register :: "hal_id \<Rightarrow> 'v option \<Rightarrow> 'v hal_table \<Rightarrow> nop_status \<times> 'v hal_table" where
  "hal_register i vtable t = (if i < 0 \<or> HAL_ID_MAX \<le> i then (NOP_ERR_PARAM, t) else (NOP_OK, t(i := vtable)))"

definition hal_registry_get :: "'v hal_table \<Rightarrow> hal_id \<Rightarrow> 'v option" where
  "hal_registry_get t i = (if i < 0 \<or> HAL_ID_MAX \<le> i then None else t i)"

definition hal_registry_has :: "'v hal_table \<Rightarrow> hal_id \<Rightarrow> bool" where
  "hal_registry_has t i \<longleftrightarrow> 0 \<le> i \<and> i < HAL_ID_MAX \<and> t i \<noteq> None"

section \<open>Device provisioning\<close>

record nop_config_ota =
  co_company :: string
  co_product :: string
  co_model :: string
  co_url_base :: string
  co_auto_update :: bool

record nop_config_tutk =
  ct_enable :: bool
  ct_uid :: string
  ct_auth_key :: string
  ct_license_key :: string

record nop_device_config =
  dc_manufacturer :: string
  dc_model :: string
  dc_firmware_version :: string
  dc_serial_number :: string
  dc_hardware_id :: string
  dc_type :: string
  dc_max_channel_count :: int
  dc_http_port :: int
  dc_capabilities :: "string list"
  dc_detection_types :: "nop_detect_type list"
  dc_ota :: nop_config_ota
  dc_tutk :: nop_config_tutk

definition copy_str :: "nat \<Rightarrow> string option \<Rightarrow> string" where
  "copy_str cap src = (case src of None \<Rightarrow> '''' | Some s \<Rightarrow> if cap = 0 then '''' else take (cap - 1) s)"

definition nop_device_config_init :: nop_device_config where
  "nop_device_config_init =
     \<lparr>dc_manufacturer = copy_str 64 (Some ''NightOwl''), dc_model = copy_str 64 (Some ''NOP-Device''),
      dc_firmware_version = copy_str 64 (Some ''1.0''), dc_serial_number = '''',
      dc_hardware_id = copy_str 64 (Some ''1.0''), dc_type = copy_str 32 (Some ''standaloneIpCamera''),
      dc_max_channel_count = 1, dc_http_port = 8089, dc_capabilities = [],
      dc_detection_types = [NOP_DETECT_HUMAN, NOP_DETECT_VEHICLE, NOP_DETECT_ANIMAL, NOP_DETECT_PACKAGE],
      dc_ota = \<lparr>co_company = '''', co_product = '''', co_model = '''', co_url_base = '''', co_auto_update = True\<rparr>,
      dc_tutk = \<lparr>ct_enable = False, ct_uid = '''', ct_auth_key = '''', ct_license_key = ''''\<rparr>\<rparr>"

definition read_str :: "json option \<Rightarrow> string \<Rightarrow> nat \<Rightarrow> string \<Rightarrow> string" where
  "read_str obj key cap dst = (case nop_json_str obj key None of Some v \<Rightarrow> copy_str cap (Some v) | None \<Rightarrow> dst)"

definition load_identity :: "json option \<Rightarrow> nop_device_config \<Rightarrow> nop_device_config" where
  "load_identity device c =
     (case device of None \<Rightarrow> c
      | Some d \<Rightarrow>
         c\<lparr>dc_manufacturer := read_str device ''manufacturer'' 64 (dc_manufacturer c),
           dc_model := read_str device ''model'' 64 (dc_model c),
           dc_firmware_version := read_str device ''firmwareVersion'' 64 (dc_firmware_version c),
           dc_serial_number := read_str device ''serialNumber'' 32 (dc_serial_number c),
           dc_hardware_id := read_str device ''hardwareId'' 64 (dc_hardware_id c),
           dc_type := read_str device ''type'' 32 (dc_type c),
           dc_max_channel_count := c_int (nop_json_num device ''maxChannelCount'' (of_int (dc_max_channel_count c)))\<rparr>)"

fun capability_loop :: "json list \<Rightarrow> string list \<Rightarrow> string list" where
  "capability_loop [] caps = caps"
| "capability_loop (j # js) caps =
     (if int (length caps) < NOP_CAP_MAX
      then (case nop_json_as_str (Some j) None of
              Some name \<Rightarrow> capability_loop js (caps @ [copy_str 24 (Some name)])
            | None \<Rightarrow> capability_loop js caps)
      else caps)"

definition load_capabilities :: "json option \<Rightarrow> nop_device_config \<Rightarrow> nop_device_config" where
  "load_capabilities caps c =
     c\<lparr>dc_capabilities := (if nop_json_is_arr caps then capability_loop (json_children caps) [] else [])\<rparr>"

fun detection_loop :: "json list \<Rightarrow> nop_detect_type list \<Rightarrow> nop_detect_type list" where
  "detection_loop [] types = types"
| "detection_loop (j # js) types =
     (if length types < 16
      then let t = nop_detect_type_from_name (nop_json_as_str (Some j) None) in
           if t \<noteq> NOP_DETECT_TYPE_MAX then detection_loop js (types @ [t]) else detection_loop js types
      else types)"

definition load_detection :: "json option \<Rightarrow> nop_device_config \<Rightarrow> nop_device_config" where
  "load_detection detection c =
     (let types = (case detection of Some d \<Rightarrow> nop_json_get detection ''supportedTypes'' | None \<Rightarrow> None) in
      if nop_json_is_arr types then c\<lparr>dc_detection_types := detection_loop (json_children types) []\<rparr> else c)"

definition load_ota :: "json option \<Rightarrow> nop_device_config \<Rightarrow> nop_device_config" where
  "load_ota ota c =
     (case ota of None \<Rightarrow> c
      | Some _ \<Rightarrow>
         let o0 = dc_ota c in
         c\<lparr>dc_ota := \<lparr>co_company = read_str ota ''company'' 64 (co_company o0),
                      co_product = read_str ota ''product'' 64 (co_product o0),
                      co_model = read_str ota ''model'' 64 (co_model o0),
                      co_url_base = read_str ota ''urlBase'' 256 (co_url_base o0),
                      co_auto_update = nop_json_bool ota ''autoUpdate'' (co_auto_update o0)\<rparr>\<rparr>)"

definition load_tutk :: "json option \<Rightarrow> nop_device_config \<Rightarrow> nop_device_config" where
  "load_tutk tutk c =
     (case tutk of None \<Rightarrow> c
      | Some _ \<Rightarrow>
         let t0 = dc_tutk c in
         c\<lparr>dc_tutk := \<lparr>ct_enable = nop_json_bool tutk ''enable'' False,
                       ct_uid = read_str tutk ''uid'' 24 (ct_uid t0),
                       ct_auth_key = read_str tutk ''authKey'' 64 (ct_auth_key t0),
                       ct_license_key = read_str tutk ''licenseKey'' 128 (ct_license_key t0)\<rparr>\<rparr>)"

definition nop_device_config_load_json ::
  "(string \<Rightarrow> json option) \<Rightarrow> string \<Rightarrow> nop_device_config \<Rightarrow> nop_status \<times> nop_device_config" where
  "nop_device_config_load_json parse text c =
     (case parse text of
        None \<Rightarrow> (NOP_ERR_PARAM, c)
      | Some tree \<Rightarrow>
         let get = nop_json_get (Some tree);
             c = load_identity (get ''device'') c;
             c = c\<lparr>dc_http_port := c_int (nop_json_num (Some tree) ''httpPort'' (of_int (dc_http_port c)))\<rparr>;
             c = load_capabilities (get ''capabilities'') c;
             c = load_detection (get ''detection'') c;
             c = load_ota (get ''ota'') c;
             c = load_tutk (get ''tutk'') c
         in (NOP_OK, c))"

text \<open>The file system is a function from paths to contents; a file of more than a mebibyte is refused.\<close>

definition nop_device_config_load_file ::
  "(string \<Rightarrow> json option) \<Rightarrow> (string \<Rightarrow> string option) \<Rightarrow> string \<Rightarrow> nop_device_config \<Rightarrow> nop_status \<times> nop_device_config" where
  "nop_device_config_load_file parse read_file path c =
     (case read_file path of
        None \<Rightarrow> (NOP_ERR_IO, c)
      | Some text \<Rightarrow> if length text > 2 ^ 20 then (NOP_ERR_IO, c) else nop_device_config_load_json parse text c)"

section \<open>The application\<close>

datatype nop_role = NOP_ROLE_IPC | NOP_ROLE_NVR

datatype event_sink = Bridge | Sink nat

record nop_business_context =
  bc_longpoll :: u32
  bc_device_config :: "nop_device_config option"
  bc_event_hub :: "nat option"
  bc_nvr_addcamera :: "nat option"
  bc_ptz_patrol :: "nat option"
  bc_chime :: "nat option"
  bc_channels :: "nat option"
  bc_onvif_backend :: "nat option"

type_synonym registrations = "(string \<times> nop_cap_id \<times> nop_business_context nop_handler) list"
type_synonym hubs = "nat \<Rightarrow> event_sink nop_event_hub"

record nop_app =
  na_router :: "nop_business_context nop_router"
  na_bridged_hub :: "nat option"
  na_event_subscription :: "nat option"

definition nop_business_register_all ::
  "(string \<times> nop_cap_id \<times> 's nop_handler) list \<Rightarrow> (string \<times> nop_cap_id \<times> 's nop_handler) list \<Rightarrow> nop_role \<Rightarrow> 's nop_router \<Rightarrow> 's nop_router" where
  "nop_business_register_all shared recorder role r =
     (let r = register_all shared r in if role = NOP_ROLE_NVR then register_all recorder r else r)"

definition light_one :: "'v hal_table \<Rightarrow> hal_id \<times> nop_cap_id \<Rightarrow> cap_registry \<Rightarrow> cap_registry" where
  "light_one t = (\<lambda>(h, c) reg. if hal_registry_has t h then snd (cap_registry_enable reg c True) else reg)"

definition light_pairs :: "(hal_id \<times> nop_cap_id) list" where
  "light_pairs = [(HAL_VIDEO, CAP_STREAM), (HAL_PTZ, CAP_PTZ), (HAL_LIGHT, CAP_LIGHT), (HAL_STORAGE, CAP_STORAGE),
     (HAL_RECORD, CAP_RECORD), (HAL_AUDIO, CAP_AUDIO), (HAL_OTA, CAP_OTA)]"

definition auto_light_capabilities :: "'v hal_table \<Rightarrow> cap_registry \<Rightarrow> cap_registry" where
  "auto_light_capabilities t reg = fold (light_one t) light_pairs reg"

definition business_context0 :: nop_business_context where
  "business_context0 = \<lparr>bc_longpoll = 0, bc_device_config = None, bc_event_hub = None, bc_nvr_addcamera = None,
     bc_ptz_patrol = None, bc_chime = None, bc_channels = None, bc_onvif_backend = None\<rparr>"

definition nop_app_create ::
  "registrations \<Rightarrow> registrations \<Rightarrow> 'v hal_table \<Rightarrow> (nop_role \<times> bool) option \<Rightarrow> nop_app" where
  "nop_app_create shared recorder t config =
     (let auto_caps = (case config of Some (role, a) \<Rightarrow> a | None \<Rightarrow> True);
          role = (case config of Some (role, a) \<Rightarrow> role | None \<Rightarrow> NOP_ROLE_IPC);
          r = nop_business_register_all shared recorder role (nop_router_create cap_registry_create business_context0);
          r = (if auto_caps then r\<lparr>nr_capability_registry := auto_light_capabilities t (nr_capability_registry r)\<rparr> else r)
      in \<lparr>na_router = r, na_bridged_hub = None, na_event_subscription = None\<rparr>)"

definition nop_app_dispatch ::
  "(string \<Rightarrow> json option) \<Rightarrow> (json \<Rightarrow> string) \<Rightarrow> nop_app \<Rightarrow> string \<Rightarrow> string \<times> nop_app" where
  "nop_app_dispatch parse print app text =
     (case nop_router_dispatch parse print (na_router app) text of (out, r) \<Rightarrow> (out, app\<lparr>na_router := r\<rparr>))"

definition nop_app_set_capability :: "nop_app \<Rightarrow> int \<Rightarrow> bool \<Rightarrow> nop_status \<times> nop_app" where
  "nop_app_set_capability app c enable =
     (if c < 0 \<or> NOP_CAP_MAX \<le> c then (NOP_ERR_PARAM, app)
      else case cap_registry_enable (nr_capability_registry (na_router app)) c enable of
        (st, reg) \<Rightarrow> (st, app\<lparr>na_router := (na_router app)\<lparr>nr_capability_registry := reg\<rparr>\<rparr>))"

definition app_context :: "(nop_business_context \<Rightarrow> nop_business_context) \<Rightarrow> nop_app \<Rightarrow> nop_app" where
  "app_context f app = app\<lparr>na_router := (na_router app)\<lparr>nr_handler_context := f (nr_handler_context (na_router app))\<rparr>\<rparr>"

definition nop_app_set_device_config :: "nop_app \<Rightarrow> nop_device_config option \<Rightarrow> nop_app" where
  "nop_app_set_device_config app c = app_context (\<lambda>bc. bc\<lparr>bc_device_config := c\<rparr>) app"

text \<open>Detaching waits while a publish is in flight on the old hub: then the call does not return (None).\<close>

definition nop_app_set_event_hub :: "nop_app \<Rightarrow> hubs \<Rightarrow> nat option \<Rightarrow> (nop_app \<times> hubs) option" where
  "nop_app_set_event_hub app hubs hub =
     (let detached =
        (case (na_bridged_hub app, na_event_subscription app) of
           (Some b, Some i) \<Rightarrow>
             (let h = unsubscribe_clear (hubs b) i in
              if unsubscribe_may_return h
              then Some (app\<lparr>na_event_subscription := None, na_bridged_hub := None\<rparr>, hubs(b := h)) else None)
         | _ \<Rightarrow> Some (app, hubs)) in
      case detached of
        None \<Rightarrow> None
      | Some (app, hubs) \<Rightarrow>
         (let app = app_context (\<lambda>bc. bc\<lparr>bc_event_hub := hub\<rparr>) app in
          case hub of
            None \<Rightarrow> Some (app, hubs)
          | Some b \<Rightarrow>
             (case nop_event_subscribe (hubs b) Bridge of
                (i, h) \<Rightarrow> Some (app\<lparr>na_bridged_hub := Some b, na_event_subscription := i\<rparr>, hubs(b := h)))))"

definition nop_app_event_to_longpoll :: "nop_app \<Rightarrow> nop_app" where
  "nop_app_event_to_longpoll app = app_context (\<lambda>bc. bc\<lparr>bc_longpoll := nop_longpoll_signal (bc_longpoll bc) 1\<rparr>) app"

text \<open>A publish on hub \<open>b\<close>, as the application sees it: the bridge runs when it is among the sinks invoked.\<close>

definition app_publish :: "nop_app \<Rightarrow> hubs \<Rightarrow> nat \<Rightarrow> nop_event \<Rightarrow> nop_app \<times> hubs" where
  "app_publish app hubs b e =
     (case nop_event_publish (hubs b) e of
        (sinks, h) \<Rightarrow> (fold (\<lambda>k app. if k = Bridge then nop_app_event_to_longpoll app else app) sinks app, hubs(b := h)))"

definition nop_app_set_nvr_addcamera :: "nop_app \<Rightarrow> nat option \<Rightarrow> nop_app" where
  "nop_app_set_nvr_addcamera app x = app_context (\<lambda>bc. bc\<lparr>bc_nvr_addcamera := x\<rparr>) app"

definition nop_app_set_ptz_patrol :: "nop_app \<Rightarrow> nat option \<Rightarrow> nop_app" where
  "nop_app_set_ptz_patrol app x = app_context (\<lambda>bc. bc\<lparr>bc_ptz_patrol := x\<rparr>) app"

definition nop_app_set_chime :: "nop_app \<Rightarrow> nat option \<Rightarrow> nop_app" where
  "nop_app_set_chime app x = app_context (\<lambda>bc. bc\<lparr>bc_chime := x\<rparr>) app"

definition nop_app_set_nvr_channels :: "nop_app \<Rightarrow> nat option \<Rightarrow> nop_app" where
  "nop_app_set_nvr_channels app x = app_context (\<lambda>bc. bc\<lparr>bc_channels := x\<rparr>) app"

definition nop_app_set_onvif_backend :: "nop_app \<Rightarrow> nat option \<Rightarrow> nop_app" where
  "nop_app_set_onvif_backend app x = app_context (\<lambda>bc. bc\<lparr>bc_onvif_backend := x\<rparr>) app"

definition nop_device_config_apply_capabilities :: "nop_app \<Rightarrow> nop_device_config \<Rightarrow> bool \<Rightarrow> nop_app" where
  "nop_device_config_apply_capabilities app c exclusive =
     (let app = (if exclusive then fold (\<lambda>i app. snd (nop_app_set_capability app i False)) (map int [0..<nat NOP_CAP_MAX]) app
                 else app)
      in fold (\<lambda>name app. let cap = nop_cap_from_name name in
                          if cap \<noteq> NOP_CAP_MAX then snd (nop_app_set_capability app cap True) else app)
           (dc_capabilities c) app)"

section \<open>The configuration stays within its buffers\<close>

text \<open>Every string of the configuration is shorter than its C array, and the two lists fit theirs.\<close>

definition ota_wf :: "nop_config_ota \<Rightarrow> bool" where
  "ota_wf c \<longleftrightarrow> length (co_company c) < 64 \<and> length (co_product c) < 64 \<and> length (co_model c) < 64 \<and>
     length (co_url_base c) < 256"

definition tutk_wf :: "nop_config_tutk \<Rightarrow> bool" where
  "tutk_wf c \<longleftrightarrow> length (ct_uid c) < 24 \<and> length (ct_auth_key c) < 64 \<and> length (ct_license_key c) < 128"

definition config_wf :: "nop_device_config \<Rightarrow> bool" where
  "config_wf c \<longleftrightarrow> length (dc_manufacturer c) < 64 \<and> length (dc_model c) < 64 \<and> length (dc_firmware_version c) < 64 \<and>
     length (dc_serial_number c) < 32 \<and> length (dc_hardware_id c) < 64 \<and> length (dc_type c) < 32 \<and>
     length (dc_capabilities c) \<le> 17 \<and> (\<forall>s \<in> set (dc_capabilities c). length s < 24) \<and>
     length (dc_detection_types c) \<le> 16 \<and> NOP_DETECT_TYPE_MAX \<notin> set (dc_detection_types c) \<and>
     ota_wf (dc_ota c) \<and> tutk_wf (dc_tutk c)"

lemma copy_str_length: "0 < cap \<Longrightarrow> length (copy_str cap src) < cap"
  by (auto simp: copy_str_def split: option.split)

lemma read_str_length: "0 < cap \<Longrightarrow> length dst < cap \<Longrightarrow> length (read_str obj key cap dst) < cap"
  by (auto simp: read_str_def copy_str_length split: option.split)

lemma capability_loop_wf:
  "length caps \<le> 17 \<Longrightarrow> \<forall>s \<in> set caps. length s < 24 \<Longrightarrow>
     length (capability_loop js caps) \<le> 17 \<and> (\<forall>s \<in> set (capability_loop js caps). length s < 24)"
proof (induction js arbitrary: caps)
  case (Cons j js)
  show ?case
  proof (cases "length caps < 17")
    case True
    have "\<forall>s \<in> set (caps @ [copy_str 24 (Some n)]). length s < 24" for n
      using Cons.prems(2) copy_str_length[of 24 "Some n"] by auto
    then have "length (capability_loop js (caps @ [copy_str 24 (Some n)])) \<le> 17 \<and>
        (\<forall>s \<in> set (capability_loop js (caps @ [copy_str 24 (Some n)])). length s < 24)" for n
      using True by (intro Cons.IH) simp_all
    then show ?thesis using True Cons.IH[OF Cons.prems] by (simp add: NOP_CAP_MAX_def split: option.split)
  qed (use Cons.prems in \<open>simp add: NOP_CAP_MAX_def\<close>)
qed simp

lemma detection_loop_wf:
  "length ts \<le> 16 \<Longrightarrow> NOP_DETECT_TYPE_MAX \<notin> set ts \<Longrightarrow>
     length (detection_loop js ts) \<le> 16 \<and> NOP_DETECT_TYPE_MAX \<notin> set (detection_loop js ts)"
  by (induction js arbitrary: ts) (auto simp: Let_def)

lemma config_init_wf: "config_wf nop_device_config_init"
  by (simp add: config_wf_def nop_device_config_init_def ota_wf_def tutk_wf_def copy_str_def)

lemma load_steps_wf:
  assumes "config_wf c"
  shows "config_wf (load_identity d c)" "config_wf (c\<lparr>dc_http_port := port\<rparr>)" "config_wf (load_capabilities d c)"
    "config_wf (load_detection d c)" "config_wf (load_ota d c)" "config_wf (load_tutk d c)"
proof -
  show "config_wf (load_identity d c)"
    using assms by (cases d) (auto simp: load_identity_def config_wf_def intro!: read_str_length)
  show "config_wf (c\<lparr>dc_http_port := port\<rparr>)" using assms by (simp add: config_wf_def)
  show "config_wf (load_capabilities d c)"
    using assms capability_loop_wf[of "[]" "json_children d"] by (simp add: load_capabilities_def config_wf_def)
  show "config_wf (load_detection d c)"
    using assms detection_loop_wf[of "[]"] by (simp add: load_detection_def config_wf_def Let_def)
  show "config_wf (load_ota d c)"
    using assms by (cases d) (auto simp: load_ota_def config_wf_def ota_wf_def Let_def intro!: read_str_length)
  show "config_wf (load_tutk d c)"
    using assms by (cases d) (auto simp: load_tutk_def config_wf_def tutk_wf_def Let_def intro!: read_str_length)
qed

section \<open>Which capabilities a configuration leaves on\<close>

definition app_enabled :: "nop_app \<Rightarrow> nop_cap_id \<Rightarrow> bool" where
  "app_enabled app c \<longleftrightarrow> cap_registry_is_enabled (nr_capability_registry (na_router app)) c"

lemma set_capability_enabled:
  "app_enabled (snd (nop_app_set_capability app c0 on)) c \<longleftrightarrow>
     (if 0 \<le> c0 \<and> c0 < NOP_CAP_MAX
      then 0 \<le> c \<and> c < NOP_CAP_MAX \<and> (c \<in> set core_caps \<or> (if c = c0 then on else app_enabled app c))
      else app_enabled app c)"
proof (cases "0 \<le> c0 \<and> c0 < NOP_CAP_MAX")
  case True
  then have e: "snd (nop_app_set_capability app c0 on) =
      app\<lparr>na_router := (na_router app)\<lparr>nr_capability_registry := snd (cap_registry_enable (nr_capability_registry (na_router app)) c0 on)\<rparr>\<rparr>"
    by (auto simp: nop_app_set_capability_def split: prod.splits)
  show ?thesis using True unfolding e by (simp add: app_enabled_def enable_spec)
next
  case False
  then show ?thesis by (auto simp: nop_app_set_capability_def)
qed

lemma app_enabled_range: "app_enabled app c \<Longrightarrow> 0 \<le> c \<and> c < NOP_CAP_MAX"
  by (simp add: app_enabled_def enabled_bit)

lemma disable_fold:
  "app_enabled (fold (\<lambda>i app. snd (nop_app_set_capability app i False)) is app) c \<longleftrightarrow>
     (if \<exists>i \<in> set is. 0 \<le> i \<and> i < NOP_CAP_MAX
      then 0 \<le> c \<and> c < NOP_CAP_MAX \<and> (c \<in> set core_caps \<or> (c \<notin> set is \<and> app_enabled app c))
      else app_enabled app c)"
proof (induction "is" arbitrary: app)
  case (Cons i "is")
  then show ?case by (auto simp: set_capability_enabled dest: app_enabled_range)
qed simp

lemma enable_names_fold:
  "(\<forall>c \<in> set core_caps. app_enabled app c) \<Longrightarrow>
   app_enabled (fold (\<lambda>name app. let cap = nop_cap_from_name name in
       if cap \<noteq> NOP_CAP_MAX then snd (nop_app_set_capability app cap True) else app) names app) c \<longleftrightarrow>
     app_enabled app c \<or> (c \<in> nop_cap_from_name ` set names \<and> 0 \<le> c \<and> c < NOP_CAP_MAX)"
proof (induction names arbitrary: app)
  case (Cons n names)
  let ?app = "if nop_cap_from_name n \<noteq> NOP_CAP_MAX then snd (nop_app_set_capability app (nop_cap_from_name n) True) else app"
  have "\<forall>c \<in> set core_caps. app_enabled ?app c"
    using Cons.prems core_caps_range by (auto simp: set_capability_enabled)
  from Cons.IH[OF this] Cons.prems show ?case
    by (auto simp: Let_def set_capability_enabled dest: app_enabled_range)
qed simp

lemma cap_from_name_range: "0 \<le> nop_cap_from_name name \<and> nop_cap_from_name name \<le> NOP_CAP_MAX"
  by (auto simp: nop_cap_from_name_def NOP_CAP_MAX_def find_Some_iff split: option.split)

section \<open>Long polling loses nothing\<close>

fun signalled :: "longpoll_op list \<Rightarrow> u32" where
  "signalled [] = 0"
| "signalled (Signal b # ops) = b OR signalled ops"
| "signalled (Drain # ops) = signalled ops"

lemma longpoll_run_or:
  "longpoll_run ops p = (ds, p') \<Longrightarrow> foldr (OR) ds p' = p OR signalled ops \<and> length ds = length (filter (\<lambda>x. x = Drain) ops)"
proof (induction ops p arbitrary: ds p' rule: longpoll_run.induct)
  case (1 p)
  then show ?case by auto
next
  case (2 b ops p)
  then show ?case by (simp add: nop_longpoll_signal_def or.assoc)
next
  case (3 ops p)
  obtain ds0 where d: "longpoll_run ops 0 = (ds0, p')" "ds = p # ds0"
    using 3(2) by (auto simp: nop_longpoll_drain_def split: prod.splits)
  have "foldr (OR) ds0 p' = 0 OR signalled ops \<and> length ds0 = length (filter (\<lambda>x. x = Drain) ops)"
    by (rule 3(1)[of p 0]) (simp_all add: nop_longpoll_drain_def d(1))
  then show ?case using d(2) by simp
qed

section \<open>Properties\<close>

text \<open>C38: The provisioning is well typed. Whatever the text, loading it into a configuration whose strings and
  lists fit their buffers gives one whose strings and lists fit, with known detection types only; a text that does not parse
  is an error and changes nothing. The initial configuration is well typed.\<close>

theorem config_well_typed:
  assumes "config_wf c" "nop_device_config_load_json parse text c = (st, c')"
  shows "config_wf c' \<and> (st \<noteq> NOP_OK \<longrightarrow> c' = c) \<and> (st = NOP_OK \<longleftrightarrow> parse text \<noteq> None) \<and> config_wf nop_device_config_init"
proof (cases "parse text")
  case None
  then show ?thesis using assms config_init_wf by (auto simp: nop_device_config_load_json_def)
next
  case (Some tree)
  then have "st = NOP_OK" and c': "c' = load_tutk (nop_json_get (Some tree) ''tutk'') (load_ota (nop_json_get (Some tree) ''ota'')
      (load_detection (nop_json_get (Some tree) ''detection'') (load_capabilities (nop_json_get (Some tree) ''capabilities'')
        ((load_identity (nop_json_get (Some tree) ''device'') c)\<lparr>dc_http_port := c_int (nop_json_num (Some tree) ''httpPort''
           (of_int (dc_http_port (load_identity (nop_json_get (Some tree) ''device'') c))))\<rparr>))))"
    using assms(2) by (simp_all add: nop_device_config_load_json_def Let_def)
  have "config_wf c'" unfolding c' by (intro load_steps_wf assms(1))
  then show ?thesis using \<open>st = NOP_OK\<close> Some config_init_wf by simp
qed

lemma config_well_typed_witness:
  "config_wf (snd (nop_device_config_load_json
     (\<lambda>t. Some (JObj [(''device'', JObj [(''model'', JStr t)])])) ''camera'' nop_device_config_init))"
  using config_well_typed[OF config_init_wf prod.collapse[symmetric]] by blast

text \<open>The configured capability level. On an application whose core capabilities are on, applying a
  configuration turns on the capabilities it names; in exclusive mode exactly these and the core ones are on afterwards,
  otherwise those that were on stay on.\<close>

theorem config_capabilities:
  assumes "\<forall>c \<in> set core_caps. app_enabled app c"
  shows "app_enabled (nop_device_config_apply_capabilities app cfg exclusive) c \<longleftrightarrow>
    0 \<le> c \<and> c < NOP_CAP_MAX \<and>
    (c \<in> nop_cap_from_name ` set (dc_capabilities cfg) \<or> c \<in> set core_caps \<or> (\<not> exclusive \<and> app_enabled app c))"
proof -
  let ?ids = "map int [0..<nat NOP_CAP_MAX]"
  let ?app = "if exclusive then fold (\<lambda>i app. snd (nop_app_set_capability app i False)) ?ids app else app"
  have ids: "c \<in> set ?ids \<longleftrightarrow> 0 \<le> c \<and> c < NOP_CAP_MAX" for c
    by (auto simp: NOP_CAP_MAX_def image_iff intro: bexI[of _ "nat c"])
  have "0 \<in> set ?ids" by (simp add: NOP_CAP_MAX_def)
  then have ex: "\<exists>i \<in> set ?ids. 0 \<le> i \<and> i < NOP_CAP_MAX" using ids by blast
  have e: "app_enabled ?app c \<longleftrightarrow> 0 \<le> c \<and> c < NOP_CAP_MAX \<and> (c \<in> set core_caps \<or> (\<not> exclusive \<and> app_enabled app c))" for c
    using assms ex ids[of c] disable_fold[of ?ids app c] app_enabled_range[of app c] core_caps_range[of c] by auto
  have core: "\<forall>c \<in> set core_caps. app_enabled ?app c" using e core_caps_range by blast
  show ?thesis
    using enable_names_fold[OF core, of "dc_capabilities cfg" c] e[of c]
    by (auto simp: nop_device_config_apply_capabilities_def Let_def)
qed

lemma config_capabilities_witness:
  "app_enabled (nop_device_config_apply_capabilities (nop_app_create [] [] (\<lambda>_. None :: nat option) None)
     (nop_device_config_init\<lparr>dc_capabilities := [''ptz'']\<rparr>) True) CAP_PTZ"
proof -
  have "\<forall>c \<in> set core_caps. app_enabled (nop_app_create [] [] (\<lambda>_. None :: nat option) None) c"
    using core_caps_range always_bits
    by (auto simp: app_enabled_def nop_app_create_def nop_business_register_all_def nop_router_create_def enabled_bit
        cap_registry_create_def auto_light_capabilities_def light_pairs_def light_one_def hal_registry_has_def)
  from config_capabilities[OF this, of "nop_device_config_init\<lparr>dc_capabilities := [''ptz'']\<rparr>" True CAP_PTZ]
  show ?thesis by (simp add: nop_cap_from_name_def nop_cap_name_def cap_names_def cap_ids upt_rec)
qed

text \<open>Long polling loses nothing. Over any sequence of signals and drains, what the drains returned together
  with what is still pending is exactly what was pending before and what was signalled; each bit is
  delivered, and none is invented.\<close>

theorem longpoll_no_loss:
  assumes "longpoll_run ops p = (ds, p')"
  shows "foldr (OR) ds p' = p OR signalled ops \<and> length ds = length (filter (\<lambda>x. x = Drain) ops)"
  using longpoll_run_or[OF assms] by simp

lemma longpoll_no_loss_witness: "foldr (OR) [1, 6] 0 = (7 :: u32)"
  using longpoll_no_loss[of "[Signal 1, Drain, Signal 4, Signal 2, Drain]" 0 "[1, 6]" 0]
  by (simp add: nop_longpoll_signal_def nop_longpoll_drain_def)

end
