(* ===== verification/Nop_Patrol.thy ===== *)
theory Nop_Patrol
  imports Nop_Base
begin

text \<open>
  components/nop/src/services/svc_ptz_patrol.c: the patrol engine, one controller (start, stop, destroy are
  serialised by \<open>ctl\<close>) and one worker thread. The worker's program counter is \<open>worker\<close>; each rule of
  \<open>patrol_step\<close> is a stretch between two points where the other thread can be seen. \<open>pt_moves\<close> logs the
  goto-preset calls of the current run. The PTZ driver is present (otherwise start answers not-implemented and
  changes nothing, \<open>patrol_start_status\<close>).
\<close>

definition NOP_PTZ_PATROL_STEP_FLOOR_MS :: int where "NOP_PTZ_PATROL_STEP_FLOOR_MS = 20"
definition NOP_PTZ_PATROL_TICK_MS :: int where "NOP_PTZ_PATROL_TICK_MS = 20"

record nop_ptz_spot =
  sp_preset :: int
  sp_dwell_seconds :: int
  sp_speed :: int

datatype worker = Cycle nat | Goto nat nop_ptz_spot | Hold nat int | Exited

text \<open>The controller: idle, or inside \<open>patrol_stop_inner\<close> waiting for the worker, with what follows: nothing
  (stop) or the channel and spots of a start.\<close>

datatype ctl = Idle | Joining "(int \<times> nop_ptz_spot list) option"

record nop_ptz_patrol =
  pt_ctl :: ctl
  pt_worker :: "worker option"
  pt_running :: bool
  pt_channel :: int
  pt_spots :: "nop_ptz_spot list"
  pt_step_count :: nat
  pt_moves :: "(int \<times> int) list"

definition nop_ptz_patrol_create :: nop_ptz_patrol where
  "nop_ptz_patrol_create = \<lparr>pt_ctl = Idle, pt_worker = None, pt_running = False, pt_channel = 0, pt_spots = [],
     pt_step_count = 0, pt_moves = []\<rparr>"

definition hold_start :: "int \<Rightarrow> int" where
  "hold_start dwell_seconds =
     (let remaining = dwell_seconds * 1000
      in if remaining < NOP_PTZ_PATROL_STEP_FLOOR_MS then NOP_PTZ_PATROL_STEP_FLOOR_MS else remaining)"

text \<open>The checks of \<open>nop_ptz_patrol_start\<close> before it takes the lock.\<close>

definition patrol_start_status :: "bool \<Rightarrow> nop_ptz_spot list \<Rightarrow> nop_status" where
  "patrol_start_status has_ptz spots =
     (if spots = [] then NOP_ERR_PARAM else if \<not> has_ptz then NOP_ERR_NOTIMPL else NOP_OK)"

definition nop_ptz_patrol_is_running :: "nop_ptz_patrol \<Rightarrow> bool" where
  "nop_ptz_patrol_is_running e = pt_running e"

definition nop_ptz_patrol_step_count :: "nop_ptz_patrol \<Rightarrow> nat" where
  "nop_ptz_patrol_step_count e = pt_step_count e"

text \<open>One round of \<open>patrol_worker\<close> up to the goto, and the steps of \<open>patrol_hold\<close>.\<close>

definition worker_step :: "nop_ptz_patrol \<Rightarrow> nop_ptz_patrol" where
  "worker_step e =
     (case pt_worker e of
        Some (Cycle i) \<Rightarrow>
          if \<not> pt_running e \<or> pt_spots e = [] then e\<lparr>pt_worker := Some Exited\<rparr>
          else let i = (if length (pt_spots e) \<le> i then 0 else i)
               in e\<lparr>pt_worker := Some (Goto (i + 1) (pt_spots e ! i)), pt_step_count := pt_step_count e + 1\<rparr>
      | Some (Goto i spot) \<Rightarrow>
          e\<lparr>pt_worker := Some (Hold i (hold_start (sp_dwell_seconds spot))),
            pt_moves := pt_moves e @ [(pt_channel e, sp_preset spot)]\<rparr>
      | Some (Hold i remaining) \<Rightarrow>
          if 0 < remaining
          then if \<not> pt_running e then e\<lparr>pt_worker := Some Exited\<rparr>
               else e\<lparr>pt_worker := Some (Hold i (remaining - NOP_PTZ_PATROL_TICK_MS))\<rparr>
          else if pt_running e then e\<lparr>pt_worker := Some (Cycle i)\<rparr> else e\<lparr>pt_worker := Some Exited\<rparr>
      | _ \<Rightarrow> e)"

definition stop_signal :: "(int \<times> nop_ptz_spot list) option \<Rightarrow> nop_ptz_patrol \<Rightarrow> nop_ptz_patrol" where
  "stop_signal k e = e\<lparr>pt_running := False, pt_ctl := Joining k\<rparr>"

definition stop_joined :: "nop_ptz_patrol \<Rightarrow> nop_ptz_patrol" where
  "stop_joined e = e\<lparr>pt_worker := None, pt_spots := []\<rparr>"

definition start_worker :: "bool \<Rightarrow> int \<Rightarrow> nop_ptz_spot list \<Rightarrow> nop_ptz_patrol \<Rightarrow> nop_ptz_patrol" where
  "start_worker created channel spots e =
     (if created
      then e\<lparr>pt_channel := channel, pt_spots := spots, pt_step_count := 0, pt_running := True,
             pt_worker := Some (Cycle 0), pt_moves := [], pt_ctl := Idle\<rparr>
      else e\<lparr>pt_channel := channel, pt_spots := [], pt_step_count := 0, pt_running := False, pt_moves := [], pt_ctl := Idle\<rparr>)"

inductive patrol_step :: "nop_ptz_patrol \<Rightarrow> nop_ptz_patrol \<Rightarrow> bool" where
  Work: "pt_worker e \<noteq> None \<Longrightarrow> patrol_step e (worker_step e)"
| Stop: "pt_ctl e = Idle \<Longrightarrow> patrol_step e (stop_signal None e)"
| Start: "\<lbrakk>pt_ctl e = Idle; patrol_start_status True spots = NOP_OK\<rbrakk> \<Longrightarrow> patrol_step e (stop_signal (Some (ch, spots)) e)"
| Stopped: "\<lbrakk>pt_ctl e = Joining None; pt_worker e = None \<or> pt_worker e = Some Exited\<rbrakk> \<Longrightarrow>
    patrol_step e ((stop_joined e)\<lparr>pt_ctl := Idle\<rparr>)"
| Started: "\<lbrakk>pt_ctl e = Joining (Some (ch, spots)); pt_worker e = None \<or> pt_worker e = Some Exited\<rbrakk> \<Longrightarrow>
    patrol_step e (start_worker created ch spots (stop_joined e))"

inductive_cases patrol_stepE: "patrol_step e e'"

section \<open>The tour\<close>

text \<open>The moves of a run visit the spots in order, cyclically; the counter is at most one ahead of the
  log, and the worker's index points at the next spot.\<close>

definition tour :: "int \<Rightarrow> nop_ptz_spot list \<Rightarrow> nat \<Rightarrow> (int \<times> int) list" where
  "tour ch spots n = map (\<lambda>k. (ch, sp_preset (spots ! (k mod length spots)))) [0..<n]"

definition patrol_inv :: "nop_ptz_patrol \<Rightarrow> bool" where
  "patrol_inv e \<longleftrightarrow>
     (pt_running e \<longrightarrow> pt_ctl e = Idle \<and> pt_worker e \<noteq> None \<and> pt_worker e \<noteq> Some Exited) \<and>
     (case pt_ctl e of Joining (Some (ch, spots)) \<Rightarrow> spots \<noteq> [] | _ \<Rightarrow> True) \<and>
     (case pt_worker e of
        None \<Rightarrow> \<not> pt_running e
      | Some w \<Rightarrow> pt_spots e \<noteq> [] \<and> pt_moves e = tour (pt_channel e) (pt_spots e) (length (pt_moves e)) \<and>
         (case w of
            Cycle i \<Rightarrow> pt_step_count e = length (pt_moves e) \<and> i \<le> length (pt_spots e) \<and>
              i mod length (pt_spots e) = length (pt_moves e) mod length (pt_spots e)
          | Goto i s \<Rightarrow> pt_step_count e = Suc (length (pt_moves e)) \<and> i \<le> length (pt_spots e) \<and>
              i mod length (pt_spots e) = Suc (length (pt_moves e)) mod length (pt_spots e) \<and>
              s = pt_spots e ! (length (pt_moves e) mod length (pt_spots e))
          | Hold i r \<Rightarrow> pt_step_count e = length (pt_moves e) \<and> i \<le> length (pt_spots e) \<and>
              i mod length (pt_spots e) = length (pt_moves e) mod length (pt_spots e)
          | Exited \<Rightarrow> pt_step_count e = length (pt_moves e)))"

lemma patrol_inv0: "patrol_inv nop_ptz_patrol_create"
  by (simp add: patrol_inv_def nop_ptz_patrol_create_def)

lemma length_tour [simp]: "length (tour ch spots n) = n"
  by (simp add: tour_def)

lemma tour_Suc: "tour ch spots (Suc n) = tour ch spots n @ [(ch, sp_preset (spots ! (n mod length spots)))]"
  by (simp add: tour_def)

lemma worker_step_inv:
  assumes "patrol_inv e" "pt_worker e \<noteq> None"
  shows "patrol_inv (worker_step e)"
proof -
  obtain w where w: "pt_worker e = Some w" using assms(2) by blast
  show ?thesis
  proof (cases w)
    case (Cycle i)
    then show ?thesis
    proof (cases "\<not> pt_running e \<or> pt_spots e = []")
      case True
      then show ?thesis using assms(1) w Cycle by (auto simp: patrol_inv_def worker_step_def)
    next
      case False
      let ?i = "if length (pt_spots e) \<le> i then 0 else i"
      have I: "i \<le> length (pt_spots e)" "i mod length (pt_spots e) = length (pt_moves e) mod length (pt_spots e)"
        using assms(1) w Cycle by (simp_all add: patrol_inv_def)
      have pos: "length (pt_moves e) mod length (pt_spots e) < length (pt_spots e)" using False by simp
      have i: "?i = length (pt_moves e) mod length (pt_spots e)"
        using I pos by (cases "i = length (pt_spots e)") simp_all
      have "?i < length (pt_spots e)" using pos I by simp
      moreover have "Suc ?i mod length (pt_spots e) = Suc (length (pt_moves e)) mod length (pt_spots e)"
        unfolding i by (rule mod_Suc_eq)
      ultimately show ?thesis
        using assms(1) w Cycle False i pos by (auto simp: patrol_inv_def worker_step_def Let_def Suc_le_eq)
    qed
  next
    case (Goto i s)
    have "pt_moves e @ [(pt_channel e, sp_preset s)] = tour (pt_channel e) (pt_spots e) (Suc (length (pt_moves e)))"
      unfolding tour_Suc using assms(1) w Goto by (simp add: patrol_inv_def)
    then show ?thesis using assms(1) w Goto by (auto simp: patrol_inv_def worker_step_def)
  next
    case (Hold i r)
    then show ?thesis using assms(1) w by (auto simp: patrol_inv_def worker_step_def)
  next
    case Exited
    then show ?thesis using assms(1) w by (simp add: worker_step_def)
  qed
qed

lemma patrol_step_inv: "patrol_step e e' \<Longrightarrow> patrol_inv e \<Longrightarrow> patrol_inv e'"
proof (induction rule: patrol_step.induct)
  case (Work e)
  then show ?case using worker_step_inv by blast
next
  case (Stop e)
  then show ?case by (auto simp: patrol_inv_def stop_signal_def split: option.splits worker.splits)
next
  case (Start e spots ch)
  then show ?case
    by (auto simp: patrol_inv_def stop_signal_def patrol_start_status_def split: option.splits worker.splits if_splits)
next
  case (Stopped e)
  then show ?case by (auto simp: patrol_inv_def stop_joined_def)
next
  case (Started e ch spots created)
  then show ?case by (auto simp: patrol_inv_def stop_joined_def start_worker_def tour_def)
qed

lemma patrol_reach_inv: "patrol_step\<^sup>*\<^sup>* e e' \<Longrightarrow> patrol_inv e \<Longrightarrow> patrol_inv e'"
  by (induction rule: rtranclp_induct) (auto intro: patrol_step_inv)

lemma worker_step_keeps [simp]:
  "pt_ctl (worker_step e) = pt_ctl e" "pt_running (worker_step e) = pt_running e"
  by (auto simp: worker_step_def Let_def split: option.split worker.split)

text \<open>Once told to stop, the worker exits after at most three of its own steps.\<close>

lemma worker_exits:
  assumes "\<not> pt_running e" "pt_worker e \<noteq> None"
  shows "\<exists>n \<le> 3. pt_worker ((worker_step ^^ n) e) = Some Exited"
proof -
  have H: "pt_worker (worker_step x) = Some Exited" if "\<not> pt_running x" "pt_worker x = Some (Hold i r)" for x i r
    using that by (simp add: worker_step_def)
  obtain w where w: "pt_worker e = Some w" using assms(2) by blast
  show ?thesis
  proof (cases w)
    case (Cycle i)
    then show ?thesis using assms(1) w by (intro exI[of _ 1]) (simp add: worker_step_def)
  next
    case (Goto i s)
    then have "pt_worker (worker_step e) = Some (Hold i (hold_start (sp_dwell_seconds s)))" using w by (simp add: worker_step_def)
    then have "pt_worker (worker_step (worker_step e)) = Some Exited" using H assms(1) by simp
    then show ?thesis by (intro exI[of _ 2]) (simp add: numeral_2_eq_2)
  next
    case (Hold i r)
    then show ?thesis using H assms(1) w by (intro exI[of _ 1]) simp
  next
    case Exited
    then show ?thesis using w by (intro exI[of _ 0]) simp
  qed
qed

lemma worker_steps_reach: "patrol_step\<^sup>*\<^sup>* e ((worker_step ^^ n) e)"
proof (induction n)
  case (Suc n)
  show ?case
  proof (cases "pt_worker ((worker_step ^^ n) e) = None")
    case True
    then have "worker_step ((worker_step ^^ n) e) = (worker_step ^^ n) e" by (simp add: worker_step_def)
    then show ?thesis using Suc by simp
  next
    case False
    then show ?thesis using Suc patrol_step.Work by (metis funpow.simps(2) comp_apply rtranclp.rtrancl_into_rtrancl)
  qed
qed simp

lemma worker_funpow_ctl: "pt_ctl ((worker_step ^^ n) e) = pt_ctl e"
  by (induction n) simp_all

section \<open>Properties\<close>

text \<open>C20: The patrol. In every interleaving of the controller and the worker, the camera moves of a run are
  the presets of its spots in order, over and over, on the run's channel; the step counter is the number of
  moves, or one more while a move is under way; a patrol is running only while its worker lives; with the controller
  idle and no worker, no step moves the camera; and a stop or restart always gets to return.\<close>

theorem patrol_tour:
  assumes "patrol_step\<^sup>*\<^sup>* nop_ptz_patrol_create e"
  shows "(pt_worker e \<noteq> None \<longrightarrow> pt_moves e = tour (pt_channel e) (pt_spots e) (length (pt_moves e)) \<and>
      length (pt_moves e) \<le> nop_ptz_patrol_step_count e \<and> nop_ptz_patrol_step_count e \<le> Suc (length (pt_moves e))) \<and>
    (nop_ptz_patrol_is_running e \<longrightarrow> pt_worker e \<noteq> None) \<and>
    (pt_worker e = None \<longrightarrow> (\<forall>e'. patrol_step e e' \<longrightarrow> pt_moves e' \<in> {pt_moves e, []})) \<and>
    (pt_ctl e \<noteq> Idle \<longrightarrow> (\<exists>e'. patrol_step\<^sup>*\<^sup>* e e' \<and> pt_ctl e' = Idle))"
proof -
  have inv: "patrol_inv e" by (rule patrol_reach_inv[OF assms patrol_inv0])
  have "pt_moves e' \<in> {pt_moves e, []}" if "pt_worker e = None" "patrol_step e e'" for e'
    using that(2,1) by (cases rule: patrol_step.cases) (auto simp: stop_signal_def stop_joined_def start_worker_def)
  moreover have "\<exists>e'. patrol_step\<^sup>*\<^sup>* e e' \<and> pt_ctl e' = Idle" if c: "pt_ctl e \<noteq> Idle"
  proof -
    obtain k where k: "pt_ctl e = Joining k" using c by (cases "pt_ctl e") auto
    have nr: "\<not> pt_running e" using inv c by (auto simp: patrol_inv_def)
    have "\<exists>n. pt_worker ((worker_step ^^ n) e) = None \<or> pt_worker ((worker_step ^^ n) e) = Some Exited"
    proof (cases "pt_worker e = None")
      case True
      then show ?thesis by (intro exI[of _ 0]) simp
    next
      case False
      then show ?thesis using worker_exits[OF nr] by blast
    qed
    then obtain n where n: "pt_worker ((worker_step ^^ n) e) = None \<or> pt_worker ((worker_step ^^ n) e) = Some Exited"
      by blast
    let ?x = "(worker_step ^^ n) e"
    have kx: "pt_ctl ?x = Joining k" using k by (simp add: worker_funpow_ctl)
    have "\<exists>y. patrol_step ?x y \<and> pt_ctl y = Idle"
    proof (cases k)
      case None
      then show ?thesis using patrol_step.Stopped[OF _ n] kx by (intro exI) auto
    next
      case (Some a)
      obtain ch spots where "a = (ch, spots)" by fastforce
      then show ?thesis
        using patrol_step.Started[OF _ n, of ch spots True] kx Some
        by (intro exI[of _ "start_worker True ch spots (stop_joined ?x)"]) (simp add: start_worker_def)
    qed
    then show ?thesis using worker_steps_reach by (meson rtranclp.rtrancl_into_rtrancl)
  qed
  ultimately show ?thesis
    using inv by (auto simp: patrol_inv_def nop_ptz_patrol_step_count_def nop_ptz_patrol_is_running_def
        split: option.splits worker.splits)
qed

lemma patrol_tour_witness:
  "\<exists>e. patrol_step\<^sup>*\<^sup>* nop_ptz_patrol_create e \<and> pt_ctl e \<noteq> Idle \<and> (\<exists>e'. patrol_step\<^sup>*\<^sup>* e e' \<and> pt_ctl e' = Idle)"
proof -
  let ?e = "stop_signal None nop_ptz_patrol_create"
  have "patrol_step\<^sup>*\<^sup>* nop_ptz_patrol_create ?e"
    by (rule r_into_rtranclp, rule patrol_step.Stop) (simp add: nop_ptz_patrol_create_def)
  then show ?thesis using patrol_tour[of ?e] by (intro exI[of _ ?e]) (simp add: stop_signal_def)
qed

end
