(* ===== verification/Nop_Slots.thy ===== *)
theory Nop_Slots
  imports Nop_Base
begin

text \<open>
  The slot tables of the NOP services (chimes, NVR channels): an array whose used slots hold entries, scanned
  linearly for an entry or for a free slot, and read as a finite map from the entries' keys. Nothing in this theory
  models a source file on its own.
\<close>

fun scan :: "('a \<Rightarrow> bool) \<Rightarrow> 'a list \<Rightarrow> nat \<Rightarrow> int" where
  "scan P [] k = -1"
| "scan P (s # ss) k = (if P s then int k else scan P ss (Suc k))"

definition used :: "('e \<Rightarrow> bool) \<Rightarrow> 'e option \<Rightarrow> bool" where
  "used P s = (case s of None \<Rightarrow> False | Some e \<Rightarrow> P e)"

fun filled :: "'a option list \<Rightarrow> 'a list" where
  "filled [] = []"
| "filled (None # ss) = filled ss"
| "filled (Some e # ss) = e # filled ss"

lemma used_simps [simp]: "used P None = False" "used P (Some e) = P e"
  by (simp_all add: used_def)

lemma filled_append [simp]: "filled (xs @ ys) = filled xs @ filled ys"
  by (induction xs rule: filled.induct) simp_all

lemma filled_replicate [simp]: "filled (replicate n None) = []"
  by (induction n) simp_all

lemma length_filled: "length (filled ss) \<le> length ss"
  by (induction ss rule: filled.induct) simp_all

lemma filled_eq_length: "length (filled ss) = length ss \<longleftrightarrow> None \<notin> set ss"
proof (induction ss rule: filled.induct)
  case (2 ss)
  then show ?case using length_filled[of ss] by auto
qed simp_all

lemma scan_spec:
  "(scan P ss k = -1 \<and> (\<forall>s \<in> set ss. \<not> P s)) \<or>
   (\<exists>A s B. ss = A @ s # B \<and> scan P ss k = int (k + length A) \<and> P s \<and> (\<forall>a \<in> set A. \<not> P a))"
proof (induction P ss k rule: scan.induct)
  case (2 P s ss k)
  show ?case
  proof (cases "P s")
    case True
    then show ?thesis by (intro disjI2 exI[of _ "[]"]) auto
  next
    case False
    then consider "scan P ss (Suc k) = -1" "\<forall>s \<in> set ss. \<not> P s"
      | A r B where "ss = A @ r # B" "scan P ss (Suc k) = int (Suc k + length A)" "P r" "\<forall>a \<in> set A. \<not> P a" using 2 by auto
    then show ?thesis
    proof cases
      case 2
      then show ?thesis using False by (intro disjI2, intro exI[of _ "s # A"] exI[of _ r] exI[of _ B]) simp
    qed (use False in simp)
  qed
qed simp

lemma in_filled: "e \<in> set (filled ss) \<longleftrightarrow> Some e \<in> set ss"
  by (induction ss rule: filled.induct) auto

text \<open>A scan for an entry fails, and no entry qualifies, or splits the array at the slot it found.\<close>

lemma scan_used:
  obtains (none) "scan (used P) ss 0 = -1" "\<forall>e \<in> set (filled ss). \<not> P e"
  | (slot) A e B where "ss = A @ Some e # B" "scan (used P) ss 0 = int (length A)" "P e"
proof -
  consider "scan (used P) ss 0 = -1" "\<forall>s \<in> set ss. \<not> used P s"
    | A s B where "ss = A @ s # B" "scan (used P) ss 0 = int (length A)" "used P s"
    using scan_spec[of "used P" ss 0] by auto
  then show thesis
  proof cases
    case 1
    then show thesis by (intro none) (fastforce simp: in_filled)+
  next
    case (2 A s B)
    then show thesis by (cases s) (auto intro: slot)
  qed
qed

lemma scan_free:
  obtains (full) "scan (\<lambda>s. s = None) ss 0 = -1" "length (filled ss) = length ss"
  | (slot) A B where "ss = A @ None # B" "scan (\<lambda>s. s = None) ss 0 = int (length A)" "length (filled ss) < length ss"
proof -
  consider "scan (\<lambda>s. s = None) ss 0 = -1" "\<forall>s \<in> set ss. s \<noteq> None"
    | A B where "ss = A @ None # B" "scan (\<lambda>s. s = None) ss 0 = int (length A)"
    using scan_spec[of "\<lambda>s. s = None" ss 0] by auto
  then show thesis
  proof cases
    case 1
    then show thesis by (intro full) (auto simp: filled_eq_length)
  next
    case (2 A B)
    then show thesis using length_filled[of A] length_filled[of B] by (intro slot[of A B]) simp_all
  qed
qed

section \<open>Keyed tables\<close>

definition keyed :: "('e \<Rightarrow> 'k) \<Rightarrow> 'e option list \<Rightarrow> bool" where
  "keyed key ss \<longleftrightarrow> distinct (map key (filled ss))"

definition slot_map :: "('e \<Rightarrow> 'k) \<Rightarrow> 'e option list \<Rightarrow> 'k \<rightharpoonup> 'e" where
  "slot_map key ss = map_of (map (\<lambda>e. (key e, e)) (filled ss))"

lemma keyed_empty [simp]: "keyed key (replicate n None)" "slot_map key (replicate n None) = Map.empty"
  by (simp_all add: keyed_def slot_map_def)

lemma map_ext: "(\<And>k x. m k = Some x \<longleftrightarrow> m' k = Some x) \<Longrightarrow> m = m'"
  by (rule ext) (metis option.exhaust)

lemma slot_map_Some: "keyed key ss \<Longrightarrow> slot_map key ss i = Some e \<longleftrightarrow> e \<in> set (filled ss) \<and> key e = i"
  by (auto simp: slot_map_def keyed_def comp_def map_of_eq_Some_iff)

lemma slot_dom: "dom (slot_map key ss) = key ` set (filled ss)"
  by (simp add: slot_map_def dom_map_of_conv_image_fst image_image)

lemma slot_card: "keyed key ss \<Longrightarrow> card (dom (slot_map key ss)) = length (filled ss)"
  unfolding slot_dom using distinct_card[of "map key (filled ss)"] by (simp add: keyed_def)

lemma slot_ran: "keyed key ss \<Longrightarrow> ran (slot_map key ss) = set (filled ss)"
  by (auto simp: ran_def slot_map_Some)

lemma slot_replace:
  assumes "keyed key (A @ Some e # B)" "key f = key e"
  shows "keyed key (A @ Some f # B)" "slot_map key (A @ Some f # B) = (slot_map key (A @ Some e # B))(key e \<mapsto> f)"
proof -
  show k: "keyed key (A @ Some f # B)" using assms by (simp add: keyed_def)
  show "slot_map key (A @ Some f # B) = (slot_map key (A @ Some e # B))(key e \<mapsto> f)"
    using assms by (intro map_ext) (auto simp: slot_map_Some[OF k] slot_map_Some[OF assms(1)], (auto simp: keyed_def image_iff))
qed

lemma slot_insert:
  assumes "keyed key (A @ None # B)" "key f \<notin> dom (slot_map key (A @ None # B))"
  shows "keyed key (A @ Some f # B)" "slot_map key (A @ Some f # B) = (slot_map key (A @ None # B))(key f \<mapsto> f)"
proof -
  show k: "keyed key (A @ Some f # B)" using assms by (auto simp: keyed_def slot_dom)
  show "slot_map key (A @ Some f # B) = (slot_map key (A @ None # B))(key f \<mapsto> f)"
    using assms(2) by (intro map_ext) (auto simp: slot_map_Some[OF k] slot_map_Some[OF assms(1)] slot_dom image_iff ball_Un)
qed

lemma slot_delete:
  assumes "keyed key (A @ Some e # B)"
  shows "keyed key (A @ None # B)" "slot_map key (A @ None # B) = (slot_map key (A @ Some e # B))(key e := None)"
proof -
  show k: "keyed key (A @ None # B)" using assms by (simp add: keyed_def)
  show "slot_map key (A @ None # B) = (slot_map key (A @ Some e # B))(key e := None)"
    using assms by (intro map_ext) (auto simp: slot_map_Some[OF k] slot_map_Some[OF assms(1)], (auto simp: keyed_def image_iff))
qed

end
