(* ===== verification/Nop_Chime.thy ===== *)
theory Nop_Chime
  imports Nop_Slots
begin

text \<open>
  components/nop/src/services/svc_chime.c: the wireless chime registry and its pairing window. A slot of the C
  array is an \<open>option\<close> (\<open>used\<close>); an id or name is the text a char array holds. Every operation runs under the
  registry's mutex, so a history is a list of operations; the clock readings they take are arguments.
\<close>

definition NOP_CHIME_DEFAULT_PAIR_SECONDS :: int where "NOP_CHIME_DEFAULT_PAIR_SECONDS = 60"

record nop_chime_entry =
  ce_id :: string
  ce_name :: string
  ce_volume :: int
  ce_tone_id :: int

datatype nop_chime_pair_state = NOP_CHIME_IDLE | NOP_CHIME_PAIRING | NOP_CHIME_DONE

record nop_chime =
  ch_slots :: "nop_chime_entry option list"
  ch_count :: int
  ch_state :: nop_chime_pair_state
  ch_added_count :: int
  ch_window_start_ms :: u64
  ch_window_ms :: u64

definition nop_chime_create :: "int \<Rightarrow> nop_chime option" where
  "nop_chime_create max_chimes =
     (if max_chimes \<le> 0 then None
      else Some \<lparr>ch_slots = replicate (nat max_chimes) None, ch_count = 0, ch_state = NOP_CHIME_IDLE, ch_added_count = 0,
        ch_window_start_ms = 0, ch_window_ms = 0\<rparr>)"

definition chime_terminate :: "nop_chime_entry \<Rightarrow> nop_chime_entry" where
  "chime_terminate e = e\<lparr>ce_id := take 31 (ce_id e), ce_name := take 47 (ce_name e)\<rparr>"

text \<open>\<open>strncmp(a, b, 32) == 0\<close>.\<close>

definition id_eq :: "string \<Rightarrow> string \<Rightarrow> bool" where
  "id_eq a b \<longleftrightarrow> take 32 a = take 32 b"

definition chime_find_locked :: "nop_chime \<Rightarrow> string \<Rightarrow> int" where
  "chime_find_locked c i = (if i = [] then -1 else scan (used (\<lambda>e. id_eq (ce_id e) i)) (ch_slots c) 0)"

definition chime_refresh_locked :: "nop_chime \<Rightarrow> u64 \<Rightarrow> nop_chime" where
  "chime_refresh_locked c now_ms =
     (if ch_state c = NOP_CHIME_PAIRING \<and> ch_window_start_ms c \<le> now_ms \<and> ch_window_ms c \<le> now_ms - ch_window_start_ms c
      then c\<lparr>ch_state := NOP_CHIME_DONE\<rparr> else c)"

text \<open>\<open>now1\<close> and \<open>now2\<close> are the two clock readings of \<open>nop_chime_pair_start\<close>.\<close>

definition nop_chime_pair_start :: "nop_chime \<Rightarrow> int \<Rightarrow> u64 \<Rightarrow> u64 \<Rightarrow> nop_chime \<times> nop_status" where
  "nop_chime_pair_start c seconds now1 now2 =
     (let seconds = (if seconds \<le> 0 then NOP_CHIME_DEFAULT_PAIR_SECONDS else seconds);
          c = chime_refresh_locked c now1
      in if ch_state c = NOP_CHIME_PAIRING then (c, NOP_ERR_STATE)
         else (c\<lparr>ch_state := NOP_CHIME_PAIRING, ch_added_count := 0, ch_window_start_ms := now2,
                 ch_window_ms := of_int seconds * 1000\<rparr>, NOP_OK))"

definition nop_chime_pair_stop :: "nop_chime \<Rightarrow> nop_chime \<times> nop_status" where
  "nop_chime_pair_stop c = (c\<lparr>ch_state := NOP_CHIME_IDLE\<rparr>, NOP_OK)"

definition nop_chime_pair_status :: "nop_chime \<Rightarrow> u64 \<Rightarrow> nop_chime \<times> nop_chime_pair_state \<times> int \<times> int" where
  "nop_chime_pair_status c now_ms =
     (let c = chime_refresh_locked c now_ms;
          elapsed = now_ms - ch_window_start_ms c;
          left = (if elapsed < ch_window_ms c then ch_window_ms c - elapsed else 0)
      in (c, ch_state c, ch_added_count c,
          if ch_state c = NOP_CHIME_PAIRING then sint (ucast (left div 1000) :: u32) else 0))"

definition nop_chime_offer :: "nop_chime \<Rightarrow> nop_chime_entry \<Rightarrow> u64 \<Rightarrow> nop_chime \<times> int" where
  "nop_chime_offer c found now_ms =
     (if ce_id found = [] then (c, -1)
      else let c = chime_refresh_locked c now_ms
      in if ch_state c \<noteq> NOP_CHIME_PAIRING then (c, -1)
      else let i = chime_find_locked c (ce_id found)
      in if 0 \<le> i then (c\<lparr>ch_slots := (ch_slots c)[nat i := Some (chime_terminate found)]\<rparr>, i)
      else let slot_index = scan (\<lambda>s. s = None) (ch_slots c) 0
      in if slot_index < 0 then (c, -1)
      else (c\<lparr>ch_slots := (ch_slots c)[nat slot_index := Some (chime_terminate found)], ch_count := ch_count c + 1,
               ch_added_count := ch_added_count c + 1\<rparr>, slot_index))"

fun list_slots :: "nop_chime_entry option list \<Rightarrow> int \<Rightarrow> nop_chime_entry list" where
  "list_slots [] m = []"
| "list_slots (s # ss) m =
     (if m \<le> 0 then [] else case s of None \<Rightarrow> list_slots ss m | Some e \<Rightarrow> e # list_slots ss (m - 1))"

definition nop_chime_list :: "nop_chime \<Rightarrow> int \<Rightarrow> nop_chime_entry list" where
  "nop_chime_list c m = list_slots (ch_slots c) m"

definition nop_chime_count :: "nop_chime \<Rightarrow> int" where "nop_chime_count c = ch_count c"

definition nop_chime_set :: "nop_chime \<Rightarrow> string \<Rightarrow> int \<Rightarrow> int \<Rightarrow> nop_chime \<times> nop_status" where
  "nop_chime_set c i volume tone_id =
     (let k = chime_find_locked c i
      in if 0 \<le> k
         then (c\<lparr>ch_slots := (ch_slots c)[nat k :=
                 map_option (\<lambda>e. e\<lparr>ce_volume := volume, ce_tone_id := tone_id\<rparr>) (ch_slots c ! nat k)]\<rparr>, NOP_OK)
         else (c, NOP_ERR_NOTFOUND))"

definition nop_chime_remove :: "nop_chime \<Rightarrow> string \<Rightarrow> nop_chime \<times> nop_status" where
  "nop_chime_remove c i =
     (let k = chime_find_locked c i
      in if 0 \<le> k then (c\<lparr>ch_slots := (ch_slots c)[nat k := None], ch_count := ch_count c - 1\<rparr>, NOP_OK)
         else (c, NOP_ERR_NOTFOUND))"

definition nop_chime_find :: "nop_chime \<Rightarrow> string \<Rightarrow> bool" where
  "nop_chime_find c i \<longleftrightarrow> 0 \<le> chime_find_locked c i"

section \<open>The registry as a finite map\<close>

text \<open>Registries built by offers whose ids fit their array are keyed by id.\<close>

definition chime_inv :: "nop_chime \<Rightarrow> bool" where
  "chime_inv c \<longleftrightarrow> keyed ce_id (ch_slots c) \<and> ch_count c = int (length (filled (ch_slots c))) \<and>
     (\<forall>e \<in> set (filled (ch_slots c)). ce_id e \<noteq> [] \<and> length (ce_id e) < 32 \<and> length (ce_name e) < 48)"

definition chime_map :: "nop_chime \<Rightarrow> string \<rightharpoonup> nop_chime_entry" where
  "chime_map c = slot_map ce_id (ch_slots c)"

lemma id_eq_stored: "length a < 32 \<Longrightarrow> id_eq a b \<longleftrightarrow> a = b"
  by (auto simp: id_eq_def take_all_iff dest!: arg_cong[of "take _ _" _ length] split: if_splits)

lemma list_slots_take: "list_slots ss m = take (nat m) (filled ss)"
  by (induction ss m rule: list_slots.induct) (auto simp: take_Cons' nat_diff_distrib' split: option.split)

lemma chime_map_Some:
  "chime_inv c \<Longrightarrow> chime_map c i = Some e \<longleftrightarrow> e \<in> set (filled (ch_slots c)) \<and> ce_id e = i"
  by (simp add: chime_map_def chime_inv_def slot_map_Some)

lemma chime_dom: "dom (chime_map c) = ce_id ` set (filled (ch_slots c))"
  by (simp add: chime_map_def slot_dom)

lemma chime_card: "chime_inv c \<Longrightarrow> ch_count c = int (card (dom (chime_map c)))"
  by (simp add: chime_map_def chime_inv_def slot_card)

lemma chime_refresh_keeps [simp]:
  "ch_slots (chime_refresh_locked c t) = ch_slots c" "ch_count (chime_refresh_locked c t) = ch_count c"
  "chime_inv (chime_refresh_locked c t) = chime_inv c" "chime_map (chime_refresh_locked c t) = chime_map c"
  "chime_find_locked (chime_refresh_locked c t) i = chime_find_locked c i"
  by (simp_all add: chime_refresh_locked_def chime_inv_def chime_map_def chime_find_locked_def)

text \<open>A lookup: absent, or the slot of the entry in a split of the array.\<close>

lemma chime_find_spec:
  assumes "chime_inv c"
  obtains (none) "chime_find_locked c i = -1" "i \<notin> dom (chime_map c)"
  | (slot) A e B where "ch_slots c = A @ Some e # B" "chime_find_locked c i = int (length A)" "ce_id e = i"
      "chime_map c i = Some e"
proof (cases "i = []")
  case True
  then have "i \<notin> dom (chime_map c)" using assms by (auto simp: chime_dom chime_inv_def)
  then show ?thesis using True none by (simp add: chime_find_locked_def)
next
  case False
  have sh: "\<forall>e \<in> set (filled (ch_slots c)). id_eq (ce_id e) i \<longleftrightarrow> ce_id e = i"
    using assms by (simp add: chime_inv_def id_eq_stored)
  show ?thesis
  proof (rule scan_used[of "\<lambda>e. id_eq (ce_id e) i" "ch_slots c"])
    assume "scan (used (\<lambda>e. id_eq (ce_id e) i)) (ch_slots c) 0 = -1" "\<forall>e \<in> set (filled (ch_slots c)). \<not> id_eq (ce_id e) i"
    then show thesis using False sh by (intro none) (auto simp: chime_find_locked_def chime_dom)
  next
    fix A e B
    assume s: "ch_slots c = A @ Some e # B" "scan (used (\<lambda>e. id_eq (ce_id e) i)) (ch_slots c) 0 = int (length A)" "id_eq (ce_id e) i"
    then have "ce_id e = i" using sh by simp
    then show thesis using False assms s by (intro slot[of A e B]) (simp_all add: chime_find_locked_def chime_map_Some)
  qed
qed

lemma chime_replace:
  assumes "chime_inv c" "ch_slots c = A @ Some e # B" "ce_id f = ce_id e" "length (ce_name f) < 48"
  shows "chime_inv (c\<lparr>ch_slots := A @ Some f # B\<rparr>)"
    "chime_map (c\<lparr>ch_slots := A @ Some f # B\<rparr>) = (chime_map c)(ce_id e \<mapsto> f)"
  using assms slot_replace[of ce_id A e B f] by (auto simp: chime_inv_def chime_map_def)

lemma chime_insert:
  assumes "chime_inv c" "ch_slots c = A @ None # B" "ce_id f \<notin> dom (chime_map c)" "ce_id f \<noteq> []" "length (ce_id f) < 32"
    "length (ce_name f) < 48"
  shows "chime_inv (c\<lparr>ch_slots := A @ Some f # B, ch_count := ch_count c + 1, ch_added_count := n\<rparr>)"
    "chime_map (c\<lparr>ch_slots := A @ Some f # B, ch_count := ch_count c + 1, ch_added_count := n\<rparr>) = (chime_map c)(ce_id f \<mapsto> f)"
  using assms slot_insert[of ce_id A B f] by (auto simp: chime_inv_def chime_map_def)

lemma chime_delete:
  assumes "chime_inv c" "ch_slots c = A @ Some e # B"
  shows "chime_inv (c\<lparr>ch_slots := A @ None # B, ch_count := ch_count c - 1\<rparr>)"
    "chime_map (c\<lparr>ch_slots := A @ None # B, ch_count := ch_count c - 1\<rparr>) = (chime_map c)(ce_id e := None)"
  using assms slot_delete[of ce_id A e B] by (auto simp: chime_inv_def chime_map_def)

section \<open>Operation histories\<close>

datatype chime_op =
    PairStart int u64 u64
  | PairStop
  | PairStatus u64
  | Offer nop_chime_entry u64
  | SetTone string int int
  | Remove string

fun chime_step :: "chime_op \<Rightarrow> nop_chime \<Rightarrow> nop_chime" where
  "chime_step (PairStart s t1 t2) c = fst (nop_chime_pair_start c s t1 t2)"
| "chime_step PairStop c = fst (nop_chime_pair_stop c)"
| "chime_step (PairStatus t) c = fst (nop_chime_pair_status c t)"
| "chime_step (Offer e t) c = fst (nop_chime_offer c e t)"
| "chime_step (SetTone i v n) c = fst (nop_chime_set c i v n)"
| "chime_step (Remove i) c = fst (nop_chime_remove c i)"

text \<open>The operations offered to the registry use ids that fit their array with its terminator.\<close>

fun short_id :: "chime_op \<Rightarrow> bool" where
  "short_id (Offer e t) = (length (ce_id e) < 32)"
| "short_id _ = True"

definition chime_window_open :: "nop_chime \<Rightarrow> u64 \<Rightarrow> bool" where
  "chime_window_open c t \<longleftrightarrow> ch_state (chime_refresh_locked c t) = NOP_CHIME_PAIRING"

lemma chime_state_keeps [simp]:
  "chime_inv (c\<lparr>ch_state := s\<rparr>) = chime_inv c" "chime_map (c\<lparr>ch_state := s\<rparr>) = chime_map c"
  "chime_inv (c\<lparr>ch_state := s, ch_added_count := a, ch_window_start_ms := w, ch_window_ms := m\<rparr>) = chime_inv c"
  "chime_map (c\<lparr>ch_state := s, ch_added_count := a, ch_window_start_ms := w, ch_window_ms := m\<rparr>) = chime_map c"
  by (simp_all add: chime_inv_def chime_map_def)

lemma terminate_short [simp]: "length (ce_id e) < 32 \<Longrightarrow> ce_id (chime_terminate e) = ce_id e"
  "length (ce_name (chime_terminate e)) < 48"
  by (simp_all add: chime_terminate_def)

lemma chime_offer_spec:
  assumes "chime_inv c" "length (ce_id e) < 32" "nop_chime_offer c e t = (c', i)"
  shows "chime_inv c'" "length (ch_slots c') = length (ch_slots c)"
    "0 \<le> i \<longleftrightarrow> ce_id e \<noteq> [] \<and> chime_window_open c t \<and>
       (ce_id e \<in> dom (chime_map c) \<or> card (dom (chime_map c)) < length (ch_slots c))"
    "chime_map c' = (if 0 \<le> i then (chime_map c)(ce_id e \<mapsto> chime_terminate e) else chime_map c)"
proof -
  let ?r = "chime_refresh_locked c t"
  have inv: "chime_inv ?r" using assms(1) by simp
  have "chime_inv c' \<and> length (ch_slots c') = length (ch_slots c) \<and>
    (0 \<le> i \<longleftrightarrow> ce_id e \<noteq> [] \<and> chime_window_open c t \<and>
       (ce_id e \<in> dom (chime_map c) \<or> card (dom (chime_map c)) < length (ch_slots c))) \<and>
    chime_map c' = (if 0 \<le> i then (chime_map c)(ce_id e \<mapsto> chime_terminate e) else chime_map c)"
  proof (cases "ce_id e = [] \<or> \<not> chime_window_open c t")
    case True
    then show ?thesis using assms by (auto simp: nop_chime_offer_def chime_window_open_def split: if_splits)
  next
    case False
    then have o: "nop_chime_offer c e t = (let i = chime_find_locked c (ce_id e)
      in if 0 \<le> i then (?r\<lparr>ch_slots := (ch_slots c)[nat i := Some (chime_terminate e)]\<rparr>, i)
      else let k = scan (\<lambda>s. s = None) (ch_slots c) 0
      in if k < 0 then (?r, -1)
      else (?r\<lparr>ch_slots := (ch_slots c)[nat k := Some (chime_terminate e)], ch_count := ch_count c + 1,
               ch_added_count := ch_added_count ?r + 1\<rparr>, k))"
      by (simp add: nop_chime_offer_def chime_window_open_def Let_def)
    have card: "card (dom (chime_map c)) = length (filled (ch_slots c))"
      using chime_card[OF assms(1)] assms(1) by (simp add: chime_inv_def)
    from assms(1) show ?thesis
    proof (cases rule: chime_find_spec[where i = "ce_id e"])
      case none
      show ?thesis
      proof (rule scan_free[of "ch_slots c"])
        assume "scan (\<lambda>s. s = None) (ch_slots c) 0 = -1" "length (filled (ch_slots c)) = length (ch_slots c)"
        then show ?thesis using assms o none card False by auto
      next
        fix A B
        assume s: "ch_slots c = A @ None # B" "scan (\<lambda>s. s = None) (ch_slots c) 0 = int (length A)"
          "length (filled (ch_slots c)) < length (ch_slots c)"
        then show ?thesis
          using chime_insert[OF inv, of A B "chime_terminate e"] assms o none card False by auto
      qed
    next
      case (slot A f B)
      then show ?thesis
        using chime_replace[OF inv, of A f B "chime_terminate e"] assms o False by auto
    qed
  qed
  then show "chime_inv c'" "length (ch_slots c') = length (ch_slots c)"
    "0 \<le> i \<longleftrightarrow> ce_id e \<noteq> [] \<and> chime_window_open c t \<and>
       (ce_id e \<in> dom (chime_map c) \<or> card (dom (chime_map c)) < length (ch_slots c))"
    "chime_map c' = (if 0 \<le> i then (chime_map c)(ce_id e \<mapsto> chime_terminate e) else chime_map c)"
    by auto
qed

lemma chime_set_spec:
  assumes "chime_inv c" "nop_chime_set c i v n = (c', s)"
  shows "chime_inv c'" "length (ch_slots c') = length (ch_slots c)" "s = NOP_OK \<longleftrightarrow> i \<in> dom (chime_map c)"
    "chime_map c' = (chime_map c)(i := map_option (\<lambda>e. e\<lparr>ce_volume := v, ce_tone_id := n\<rparr>) (chime_map c i))"
proof -
  have "chime_inv c' \<and> length (ch_slots c') = length (ch_slots c) \<and> (s = NOP_OK \<longleftrightarrow> i \<in> dom (chime_map c)) \<and>
    chime_map c' = (chime_map c)(i := map_option (\<lambda>e. e\<lparr>ce_volume := v, ce_tone_id := n\<rparr>) (chime_map c i))"
    using assms(1)
  proof (cases rule: chime_find_spec[where i = i])
    case none
    then have "chime_map c i = None" by blast
    then show ?thesis using assms none by (auto simp: nop_chime_set_def fun_eq_iff)
  next
    case (slot A e B)
    then have "length (ce_name e) < 48" using assms(1) by (simp add: chime_inv_def)
    then show ?thesis
      using chime_replace[OF assms(1) slot(1), of "e\<lparr>ce_volume := v, ce_tone_id := n\<rparr>"] assms slot
      by (auto simp: nop_chime_set_def Let_def comp_def)
  qed
  then show "chime_inv c'" "length (ch_slots c') = length (ch_slots c)" "s = NOP_OK \<longleftrightarrow> i \<in> dom (chime_map c)"
    "chime_map c' = (chime_map c)(i := map_option (\<lambda>e. e\<lparr>ce_volume := v, ce_tone_id := n\<rparr>) (chime_map c i))"
    by blast+
qed

lemma chime_remove_spec:
  assumes "chime_inv c" "nop_chime_remove c i = (c', s)"
  shows "chime_inv c'" "length (ch_slots c') = length (ch_slots c)" "s = NOP_OK \<longleftrightarrow> i \<in> dom (chime_map c)"
    "chime_map c' = (chime_map c)(i := None)"
proof -
  have "chime_inv c' \<and> length (ch_slots c') = length (ch_slots c) \<and> (s = NOP_OK \<longleftrightarrow> i \<in> dom (chime_map c)) \<and>
    chime_map c' = (chime_map c)(i := None)"
    using assms(1)
  proof (cases rule: chime_find_spec[where i = i])
    case none
    then have "chime_map c i = None" by blast
    then show ?thesis using assms none by (auto simp: nop_chime_remove_def fun_eq_iff)
  next
    case (slot A e B)
    then show ?thesis
      using chime_delete[OF assms(1) slot(1)] assms by (auto simp: nop_chime_remove_def Let_def)
  qed
  then show "chime_inv c'" "length (ch_slots c') = length (ch_slots c)" "s = NOP_OK \<longleftrightarrow> i \<in> dom (chime_map c)"
    "chime_map c' = (chime_map c)(i := None)"
    by blast+
qed

lemma chime_step_inv:
  assumes "chime_inv c" "short_id op"
  shows "chime_inv (chime_step op c) \<and> length (ch_slots (chime_step op c)) = length (ch_slots c)"
proof (cases op)
  case (PairStart s t1 t2)
  then show ?thesis using assms by (auto simp: nop_chime_pair_start_def Let_def)
next
  case (Offer e t)
  then show ?thesis using assms chime_offer_spec(1,2)[of c e t] by (cases "nop_chime_offer c e t") auto
next
  case (SetTone i v n)
  then show ?thesis using assms chime_set_spec(1,2)[of c i v n] by (cases "nop_chime_set c i v n") auto
next
  case (Remove i)
  then show ?thesis using assms chime_remove_spec(1,2)[of c i] by (cases "nop_chime_remove c i") auto
qed (use assms in \<open>auto simp: nop_chime_pair_stop_def nop_chime_pair_status_def Let_def\<close>)

lemma chime_run_inv:
  assumes "nop_chime_create m = Some c0" "\<forall>op \<in> set ops. short_id op"
  shows "chime_inv (fold chime_step ops c0) \<and> int (length (ch_slots (fold chime_step ops c0))) = m"
proof (rule fold_invariant_in[where P = "\<lambda>c. chime_inv c \<and> int (length (ch_slots c)) = m"])
  show "chime_inv c0 \<and> int (length (ch_slots c0)) = m"
    using assms(1) by (auto simp: nop_chime_create_def chime_inv_def split: if_splits)
  show "chime_inv (chime_step op c) \<and> int (length (ch_slots (chime_step op c))) = m"
    if "op \<in> set ops" "chime_inv c \<and> int (length (ch_slots c)) = m" for op c
    using chime_step_inv[of c op] that assms(2) by auto
qed

text \<open>Between two starts the window stays put, and once it is over it never reopens.\<close>

fun no_start :: "chime_op \<Rightarrow> bool" where
  "no_start (PairStart s t1 t2) = False"
| "no_start _ = True"

lemma no_start_window:
  assumes "no_start op"
  shows "ch_window_start_ms (chime_step op c) = ch_window_start_ms c \<and> ch_window_ms (chime_step op c) = ch_window_ms c"
  using assms
  by (cases op) (auto simp: nop_chime_pair_stop_def nop_chime_pair_status_def nop_chime_offer_def nop_chime_set_def
      nop_chime_remove_def chime_refresh_locked_def Let_def)

lemma no_start_window_run:
  "\<forall>op \<in> set ops. no_start op \<Longrightarrow> ch_window_start_ms (fold chime_step ops c) = ch_window_start_ms c \<and>
     ch_window_ms (fold chime_step ops c) = ch_window_ms c"
  by (rule fold_invariant_in) (simp_all add: no_start_window)

lemma no_start_closed:
  "no_start op \<Longrightarrow> ch_state c \<noteq> NOP_CHIME_PAIRING \<Longrightarrow> ch_state (chime_step op c) \<noteq> NOP_CHIME_PAIRING"
  by (cases op) (auto simp: nop_chime_pair_stop_def nop_chime_pair_status_def nop_chime_offer_def nop_chime_set_def
      nop_chime_remove_def chime_refresh_locked_def Let_def)

lemma no_start_closed_run:
  "\<forall>op \<in> set ops. no_start op \<Longrightarrow> ch_state c \<noteq> NOP_CHIME_PAIRING \<Longrightarrow> ch_state (fold chime_step ops c) \<noteq> NOP_CHIME_PAIRING"
  by (rule fold_invariant_in) (simp_all add: no_start_closed)

lemma stop_closes_run:
  assumes "\<forall>op \<in> set ops. no_start op" "PairStop \<in> set ops"
  shows "ch_state (fold chime_step ops c) \<noteq> NOP_CHIME_PAIRING"
proof -
  obtain xs ys where "ops = xs @ PairStop # ys" using assms(2) by (meson split_list)
  then show ?thesis using assms(1) no_start_closed_run[of ys] by (simp add: nop_chime_pair_stop_def)
qed

section \<open>Properties\<close>

text \<open>C25: The registry refines a finite map from ids to entries. After any history of operations
  that offers ids which fit their array, the count is the size of the map and at most the capacity, find and list answer
  from the map, an offer is admitted exactly in the open window for a known id or while there is room and
  then stores the entry under its id, and set and remove update that one entry and report a missing id.\<close>

theorem chime_refines_map:
  assumes "nop_chime_create m = Some c0" "\<forall>op \<in> set ops. short_id op" "c = fold chime_step ops c0"
  shows "nop_chime_count c = int (card (dom (chime_map c))) \<and> nop_chime_count c \<le> m \<and>
    (\<forall>i. nop_chime_find c i \<longleftrightarrow> i \<in> dom (chime_map c)) \<and>
    set (nop_chime_list c m) = ran (chime_map c) \<and>
    (\<forall>e t c' i. length (ce_id e) < 32 \<longrightarrow> nop_chime_offer c e t = (c', i) \<longrightarrow>
       (0 \<le> i \<longleftrightarrow> ce_id e \<noteq> [] \<and> chime_window_open c t \<and> (ce_id e \<in> dom (chime_map c) \<or> nop_chime_count c < m)) \<and>
       chime_map c' = (if 0 \<le> i then (chime_map c)(ce_id e \<mapsto> chime_terminate e) else chime_map c)) \<and>
    (\<forall>i v n c' s. nop_chime_set c i v n = (c', s) \<longrightarrow> (s = NOP_OK \<longleftrightarrow> i \<in> dom (chime_map c)) \<and>
       chime_map c' = (chime_map c)(i := map_option (\<lambda>e. e\<lparr>ce_volume := v, ce_tone_id := n\<rparr>) (chime_map c i))) \<and>
    (\<forall>i c' s. nop_chime_remove c i = (c', s) \<longrightarrow> (s = NOP_OK \<longleftrightarrow> i \<in> dom (chime_map c)) \<and>
       chime_map c' = (chime_map c)(i := None))"
proof -
  have inv: "chime_inv c" and cap: "int (length (ch_slots c)) = m" using chime_run_inv[OF assms(1,2)] assms(3) by simp_all
  have cnt: "ch_count c = int (card (dom (chime_map c)))" by (rule chime_card[OF inv])
  have len: "ch_count c = int (length (filled (ch_slots c)))" "ch_count c \<le> m"
    using inv cap length_filled[of "ch_slots c"] by (simp_all add: chime_inv_def)
  have find: "nop_chime_find c i \<longleftrightarrow> i \<in> dom (chime_map c)" for i
    using inv by (cases rule: chime_find_spec[where i = i]) (auto simp: nop_chime_find_def)
  have "set (nop_chime_list c m) = set (filled (ch_slots c))"
    using len by (simp add: nop_chime_list_def list_slots_take)
  moreover have "\<dots> = ran (chime_map c)" using inv by (simp add: chime_map_def chime_inv_def slot_ran)
  moreover have "card (dom (chime_map c)) < length (ch_slots c) \<longleftrightarrow> ch_count c < m" using cnt cap by linarith
  ultimately show ?thesis
    using cnt len find chime_offer_spec(3,4)[OF inv] chime_set_spec(3,4)[OF inv] chime_remove_spec(3,4)[OF inv]
    unfolding nop_chime_count_def by (intro conjI allI impI) (simp; fail)+
qed

lemma chime_refines_map_witness:
  "\<exists>c. nop_chime_create 1 = Some (the (nop_chime_create 1)) \<and>
     c = fold chime_step [PairStart 60 0 0, Offer \<lparr>ce_id = ''c1'', ce_name = ''hall'', ce_volume = 50, ce_tone_id = 1\<rparr> 10]
       (the (nop_chime_create 1)) \<and> nop_chime_count c = int (card (dom (chime_map c))) \<and> nop_chime_find c ''c1''"
proof -
  let ?o = "[PairStart 60 0 0, Offer \<lparr>ce_id = ''c1'', ce_name = ''hall'', ce_volume = 50, ce_tone_id = 1\<rparr> 10]"
  have c: "nop_chime_create 1 = Some (the (nop_chime_create 1))" by (simp add: nop_chime_create_def)
  have s: "\<forall>op \<in> set ?o. short_id op" by simp
  have f: "nop_chime_find (fold chime_step ?o (the (nop_chime_create 1))) ''c1''" by code_simp
  show ?thesis using chime_refines_map[OF c s refl] c f by (intro exI conjI) (rule refl | blast)+
qed

text \<open>The pairing window. After a start of \<open>s\<close> seconds at time \<open>t0\<close>, whatever follows short of another
  start, no chime is admitted at a time \<open>1000 * s\<close> milliseconds or more after \<open>t0\<close>, and none after a stop.\<close>

theorem chime_window:
  assumes "nop_chime_pair_start c s t1 t0 = (c1, NOP_OK)" "0 < s" "s < 2 ^ 31"
    "\<forall>op \<in> set ops. no_start op" "nop_chime_offer (fold chime_step ops c1) e t = (c2, i)"
    "unat t0 + nat s * 1000 \<le> unat t \<or> PairStop \<in> set ops"
  shows "i = -1"
proof -
  let ?c = "fold chime_step ops c1"
  have w: "ch_window_start_ms c1 = t0" "ch_window_ms c1 = of_int s * 1000"
    using assms(1,2) by (auto simp: nop_chime_pair_start_def Let_def split: if_splits)
  have s: "unat (of_int s :: u64) = nat s"
    using unat_of_nat_small[of "nat s", where ?'a = 64] assms(2,3) by simp
  have "unat (of_int s * 1000 :: u64) = nat s * 1000"
    using assms(2,3) s by (subst unat_mult_nowrap) simp_all
  then have "of_int s * 1000 \<le> t - t0 \<and> t0 \<le> t" if "unat t0 + nat s * 1000 \<le> unat t"
    using that by (simp add: word_le_nat_alt unat_sub)
  then have "ch_state (chime_refresh_locked ?c t) \<noteq> NOP_CHIME_PAIRING"
    using no_start_window_run[OF assms(4), of c1] w assms(6) stop_closes_run[OF assms(4), of c1]
    by (auto simp: chime_refresh_locked_def)
  then show ?thesis using assms(5) by (auto simp: nop_chime_offer_def Let_def split: if_splits)
qed

lemma chime_window_witness:
  "\<exists>c c1. nop_chime_create 1 = Some c \<and> nop_chime_pair_start c 30 5 5 = (c1, NOP_OK) \<and>
     snd (nop_chime_offer c1 \<lparr>ce_id = ''c1'', ce_name = ''hall'', ce_volume = 50, ce_tone_id = 1\<rparr> 30005) = -1 \<and>
     snd (nop_chime_offer c1 \<lparr>ce_id = ''c1'', ce_name = ''hall'', ce_volume = 50, ce_tone_id = 1\<rparr> 30004) = 0"
proof -
  let ?c = "the (nop_chime_create 1)" and ?e = "\<lparr>ce_id = ''c1'', ce_name = ''hall'', ce_volume = 50, ce_tone_id = 1\<rparr>"
  let ?c1 = "fst (nop_chime_pair_start ?c 30 5 5)"
  have c: "nop_chime_create 1 = Some ?c" by (simp add: nop_chime_create_def)
  have st: "nop_chime_pair_start ?c 30 5 5 = (?c1, NOP_OK)" by code_simp
  have "snd (nop_chime_offer ?c1 ?e 30005) = -1"
    by (rule chime_window[OF st, where ops = "[]" and e = ?e and t = 30005 and ?c2.0 = "fst (nop_chime_offer ?c1 ?e 30005)"])
      (simp_all)
  moreover have "snd (nop_chime_offer ?c1 ?e 30004) = 0" by code_simp
  ultimately show ?thesis using c st by blast
qed

text \<open>Why the ids have to fit: a 32-character id is stored with its last character cut but compared over all 32,
  so the same chime offered twice is admitted twice.\<close>

lemma chime_long_id_admitted_twice:
  "nop_chime_count (fold chime_step
     (PairStart 60 0 0 # replicate 2 (Offer \<lparr>ce_id = replicate 32 CHR ''a'', ce_name = ''hall'', ce_volume = 50, ce_tone_id = 1\<rparr> 1))
     (the (nop_chime_create 4))) = 2"
  by code_simp

end
