(* ===== verification/Nop_Channels.thy ===== *)
theory Nop_Channels
  imports Nop_Slots
begin

text \<open>
  components/nop/src/services/nvr/svc_nvr_channels.c, the table of cameras an NVR has bound, and
  svc_nvr_addcamera.c, the timed window in which discovered cameras are admitted into it. A char array is the text
  it holds. Every table operation runs under the table's mutex.
\<close>

section \<open>The channel table\<close>

datatype nop_camera_source =
  NOP_CAMERA_SOURCE_MANUAL | NOP_CAMERA_SOURCE_ONVIF | NOP_CAMERA_SOURCE_POE | NOP_CAMERA_SOURCE_ANALOG

datatype nop_camera_backend = NOP_BACKEND_NOP | NOP_BACKEND_ONVIF

record nop_nvr_channel_entry =
  nc_channel :: int
  nc_enabled :: int
  nc_source :: nop_camera_source
  nc_backend :: nop_camera_backend
  nc_host :: string
  nc_port :: int
  nc_username :: string
  nc_password :: string
  nc_stream_uri_main :: string
  nc_stream_uri_sub :: string
  nc_name :: string
  nc_mac :: string
  nc_model :: string

record nop_nvr_channels =
  nc_slots :: "nop_nvr_channel_entry option list"
  nc_count :: int

definition nop_nvr_channels_create :: "int \<Rightarrow> nop_nvr_channels option" where
  "nop_nvr_channels_create max_channels =
     (if max_channels \<le> 0 then None else Some \<lparr>nc_slots = replicate (nat max_channels) None, nc_count = 0\<rparr>)"

text \<open>\<open>strncmp(a, b, sizeof host) == 0\<close>.\<close>

definition host_eq :: "string \<Rightarrow> string \<Rightarrow> bool" where
  "host_eq a b \<longleftrightarrow> take 64 a = take 64 b"

definition find_by_host_locked :: "nop_nvr_channel_entry option list \<Rightarrow> string \<Rightarrow> int \<Rightarrow> int" where
  "find_by_host_locked ss host port = scan (used (\<lambda>e. nc_port e = port \<and> host_eq (nc_host e) host)) ss 0"

definition find_by_channel_locked :: "nop_nvr_channel_entry option list \<Rightarrow> int \<Rightarrow> int" where
  "find_by_channel_locked ss channel = scan (used (\<lambda>e. nc_channel e = channel)) ss 0"

definition channel_in_use_locked :: "nop_nvr_channel_entry option list \<Rightarrow> int \<Rightarrow> bool" where
  "channel_in_use_locked ss channel \<longleftrightarrow> 0 \<le> find_by_channel_locked ss channel"

lemma channel_in_use: "channel_in_use_locked ss k \<longleftrightarrow> k \<in> nc_channel ` set (filled ss)"
  by (rule scan_used[of "\<lambda>e. nc_channel e = k" ss])
    (auto simp: channel_in_use_locked_def find_by_channel_locked_def)

text \<open>The loop that looks for the lowest free channel from \<open>k\<close> on.\<close>

function lowest_free :: "nop_nvr_channel_entry option list \<Rightarrow> int \<Rightarrow> int" where
  "lowest_free ss k = (if channel_in_use_locked ss k then lowest_free ss (k + 1) else k)"
  by pat_completeness auto

termination
proof (relation "measure (\<lambda>(ss, k). card {c \<in> nc_channel ` set (filled ss). k \<le> c})")
  fix ss k
  assume "channel_in_use_locked ss k"
  then have "k \<in> {c \<in> nc_channel ` set (filled ss). k \<le> c}" by (simp add: channel_in_use)
  moreover have "k \<notin> {c \<in> nc_channel ` set (filled ss). k + 1 \<le> c}" by simp
  moreover have "{c \<in> nc_channel ` set (filled ss). k + 1 \<le> c} \<subseteq> {c \<in> nc_channel ` set (filled ss). k \<le> c}" by auto
  ultimately have "{c \<in> nc_channel ` set (filled ss). k + 1 \<le> c} \<subset> {c \<in> nc_channel ` set (filled ss). k \<le> c}" by blast
  then have "card {c \<in> nc_channel ` set (filled ss). k + 1 \<le> c} < card {c \<in> nc_channel ` set (filled ss). k \<le> c}"
    by (intro psubset_card_mono) simp_all
  then show "((ss, k + 1), ss, k) \<in> measure (\<lambda>(ss, k). card {c \<in> nc_channel ` set (filled ss). k \<le> c})" by simp
qed simp

declare lowest_free.simps [simp del]

definition assign_channel :: "nop_nvr_channel_entry option list \<Rightarrow> int \<Rightarrow> int" where
  "assign_channel ss wanted = (if 0 \<le> wanted \<and> \<not> channel_in_use_locked ss wanted then wanted else lowest_free ss 0)"

definition nop_nvr_channels_add :: "nop_nvr_channels \<Rightarrow> nop_nvr_channel_entry \<Rightarrow> nop_nvr_channels \<times> int" where
  "nop_nvr_channels_add c entry =
     (if nc_host entry = [] then (c, -1)
      else let ss = nc_slots c; i = find_by_host_locked ss (nc_host entry) (nc_port entry)
      in if 0 \<le> i then (c, nc_channel (the (ss ! nat i)))
      else let assigned = assign_channel ss (nc_channel entry);
               slot_index = scan (\<lambda>s. s = None) ss 0
      in if slot_index < 0 then (c, -1)
      else (c\<lparr>nc_slots := ss[nat slot_index := Some (entry\<lparr>nc_channel := assigned\<rparr>)], nc_count := nc_count c + 1\<rparr>, assigned))"

definition nop_nvr_channels_remove :: "nop_nvr_channels \<Rightarrow> int \<Rightarrow> nop_nvr_channels \<times> nop_status" where
  "nop_nvr_channels_remove c channel =
     (let i = find_by_channel_locked (nc_slots c) channel
      in if i < 0 then (c, NOP_ERR_NOTFOUND)
         else (c\<lparr>nc_slots := (nc_slots c)[nat i := None], nc_count := nc_count c - 1\<rparr>, NOP_OK))"

definition nop_nvr_channels_get :: "nop_nvr_channels \<Rightarrow> int \<Rightarrow> nop_nvr_channel_entry option" where
  "nop_nvr_channels_get c channel =
     (let i = find_by_channel_locked (nc_slots c) channel in if 0 \<le> i then nc_slots c ! nat i else None)"

text \<open>The insertion of \<open>e\<close> into the output array: entries with a greater channel move up, from the back.\<close>

definition ins_back :: "nop_nvr_channel_entry \<Rightarrow> nop_nvr_channel_entry list \<Rightarrow> nop_nvr_channel_entry list" where
  "ins_back e out =
     (let j = length out - length (takeWhile (\<lambda>x. nc_channel e < nc_channel x) (rev out))
      in take j out @ e # drop j out)"

fun list_loop :: "nop_nvr_channel_entry option list \<Rightarrow> int \<Rightarrow> nop_nvr_channel_entry list \<Rightarrow> nop_nvr_channel_entry list" where
  "list_loop [] m out = out"
| "list_loop (s # ss) m out =
     (if int (length out) < m then case s of None \<Rightarrow> list_loop ss m out | Some e \<Rightarrow> list_loop ss m (ins_back e out)
      else out)"

definition nop_nvr_channels_list :: "nop_nvr_channels \<Rightarrow> int \<Rightarrow> nop_nvr_channel_entry list" where
  "nop_nvr_channels_list c m = (if m \<le> 0 then [] else list_loop (nc_slots c) m [])"

definition nop_nvr_channels_count :: "nop_nvr_channels \<Rightarrow> int" where "nop_nvr_channels_count c = nc_count c"

definition nop_nvr_channels_find :: "nop_nvr_channels \<Rightarrow> string \<Rightarrow> int \<Rightarrow> int" where
  "nop_nvr_channels_find c host port =
     (let i = find_by_host_locked (nc_slots c) host port in if 0 \<le> i then nc_channel (the (nc_slots c ! nat i)) else -1)"

section \<open>The add-camera window\<close>

definition NOP_ADDCAMERA_DEFAULT_SECONDS :: int where "NOP_ADDCAMERA_DEFAULT_SECONDS = 60"

datatype nop_addcamera_state = NOP_ADDCAMERA_IDLE | NOP_ADDCAMERA_SCANNING | NOP_ADDCAMERA_DONE

record nop_nvr_addcamera =
  ac_registry :: nop_nvr_channels
  ac_state :: nop_addcamera_state
  ac_added_count :: int
  ac_window_start_ms :: u64
  ac_window_ms :: u64

definition nop_nvr_addcamera_create :: "nop_nvr_channels \<Rightarrow> nop_nvr_addcamera" where
  "nop_nvr_addcamera_create registry =
     \<lparr>ac_registry = registry, ac_state = NOP_ADDCAMERA_IDLE, ac_added_count = 0, ac_window_start_ms = 0, ac_window_ms = 0\<rparr>"

definition refresh_state_locked :: "nop_nvr_addcamera \<Rightarrow> u64 \<Rightarrow> nop_nvr_addcamera" where
  "refresh_state_locked s now_ms =
     (if ac_state s \<noteq> NOP_ADDCAMERA_SCANNING then s
      else if ac_window_start_ms s \<le> now_ms \<and> ac_window_ms s \<le> now_ms - ac_window_start_ms s
      then s\<lparr>ac_state := NOP_ADDCAMERA_DONE\<rparr> else s)"

definition nop_nvr_addcamera_start :: "nop_nvr_addcamera \<Rightarrow> int \<Rightarrow> u64 \<Rightarrow> u64 \<Rightarrow> nop_nvr_addcamera \<times> nop_status" where
  "nop_nvr_addcamera_start s scan_seconds now1 now2 =
     (let scan_seconds = (if scan_seconds \<le> 0 then NOP_ADDCAMERA_DEFAULT_SECONDS else scan_seconds);
          s = refresh_state_locked s now1
      in if ac_state s = NOP_ADDCAMERA_SCANNING then (s, NOP_ERR_STATE)
         else (s\<lparr>ac_state := NOP_ADDCAMERA_SCANNING, ac_added_count := 0, ac_window_start_ms := now2,
                 ac_window_ms := of_int scan_seconds * 1000\<rparr>, NOP_OK))"

definition nop_nvr_addcamera_stop :: "nop_nvr_addcamera \<Rightarrow> nop_nvr_addcamera \<times> nop_status" where
  "nop_nvr_addcamera_stop s = (s\<lparr>ac_state := NOP_ADDCAMERA_IDLE\<rparr>, NOP_OK)"

definition nop_nvr_addcamera_status :: "nop_nvr_addcamera \<Rightarrow> u64 \<Rightarrow> nop_nvr_addcamera \<times> nop_addcamera_state \<times> int \<times> int" where
  "nop_nvr_addcamera_status s now_ms =
     (let s = refresh_state_locked s now_ms;
          elapsed = now_ms - ac_window_start_ms s;
          left_ms = (if elapsed < ac_window_ms s then ac_window_ms s - elapsed else 0)
      in (s, ac_state s, ac_added_count s,
          if ac_state s = NOP_ADDCAMERA_SCANNING then sint (ucast (left_ms div 1000) :: u32) else 0))"

text \<open>The three critical sections of \<open>nop_nvr_addcamera_offer\<close>: the window check, the table's own add, and the
  count. Other threads may run between them.\<close>

definition offer_check :: "nop_nvr_addcamera \<Rightarrow> u64 \<Rightarrow> nop_nvr_addcamera \<times> bool" where
  "offer_check s now_ms = (let s = refresh_state_locked s now_ms in (s, ac_state s = NOP_ADDCAMERA_SCANNING))"

definition offer_add :: "nop_nvr_addcamera \<Rightarrow> nop_nvr_channel_entry \<Rightarrow> nop_nvr_addcamera \<times> int" where
  "offer_add s found = (case nop_nvr_channels_add (ac_registry s) found of (r, channel) \<Rightarrow> (s\<lparr>ac_registry := r\<rparr>, channel))"

definition offer_count :: "nop_nvr_addcamera \<Rightarrow> nop_nvr_addcamera" where
  "offer_count s = (if ac_state s = NOP_ADDCAMERA_SCANNING then s\<lparr>ac_added_count := ac_added_count s + 1\<rparr> else s)"

definition nop_nvr_addcamera_offer :: "nop_nvr_addcamera \<Rightarrow> nop_nvr_channel_entry \<Rightarrow> u64 \<Rightarrow> nop_nvr_addcamera \<times> int" where
  "nop_nvr_addcamera_offer s found now_ms =
     (case offer_check s now_ms of (s, scanning) \<Rightarrow>
        if \<not> scanning then (s, -1)
        else case offer_add s found of (s, channel) \<Rightarrow>
          if channel < 0 then (s, -1) else (offer_count s, channel))"

section \<open>The table as a map\<close>

text \<open>Channels are distinct and not negative; hosts with their ports are distinct.\<close>

abbreviation nc_addr :: "nop_nvr_channel_entry \<Rightarrow> string \<times> int" where
  "nc_addr e \<equiv> (nc_host e, nc_port e)"

definition channels_inv :: "nop_nvr_channels \<Rightarrow> bool" where
  "channels_inv c \<longleftrightarrow> keyed nc_channel (nc_slots c) \<and> keyed nc_addr (nc_slots c) \<and>
     nc_count c = int (length (filled (nc_slots c))) \<and>
     (\<forall>e \<in> set (filled (nc_slots c)). 0 \<le> nc_channel e \<and> nc_host e \<noteq> [] \<and> length (nc_host e) \<le> 64)"

definition channel_map :: "nop_nvr_channels \<Rightarrow> int \<rightharpoonup> nop_nvr_channel_entry" where
  "channel_map c = slot_map nc_channel (nc_slots c)"

definition addr_map :: "nop_nvr_channels \<Rightarrow> string \<times> int \<rightharpoonup> nop_nvr_channel_entry" where
  "addr_map c = slot_map nc_addr (nc_slots c)"

lemma channel_dom: "dom (channel_map c) = nc_channel ` set (filled (nc_slots c))"
  by (simp add: channel_map_def slot_dom)

lemma channel_find_spec:
  obtains (none) "find_by_channel_locked (nc_slots c) k = -1" "k \<notin> dom (channel_map c)"
  | (slot) A e B where "nc_slots c = A @ Some e # B" "find_by_channel_locked (nc_slots c) k = int (length A)" "nc_channel e = k"
proof (rule scan_used[of "\<lambda>e. nc_channel e = k" "nc_slots c"])
  assume "scan (used (\<lambda>e. nc_channel e = k)) (nc_slots c) 0 = -1" "\<forall>e \<in> set (filled (nc_slots c)). nc_channel e \<noteq> k"
  then show thesis by (intro none) (auto simp: find_by_channel_locked_def channel_dom)
qed (auto simp: find_by_channel_locked_def intro: slot)

lemma host_find_spec:
  assumes "channels_inv c" "length host \<le> 64"
  obtains (none) "find_by_host_locked (nc_slots c) host port = -1" "(host, port) \<notin> dom (addr_map c)"
  | (slot) A e B where "nc_slots c = A @ Some e # B" "find_by_host_locked (nc_slots c) host port = int (length A)"
      "nc_addr e = (host, port)" "addr_map c (host, port) = Some e"
proof -
  have eq: "\<forall>e \<in> set (filled (nc_slots c)). nc_port e = port \<and> host_eq (nc_host e) host \<longleftrightarrow> nc_addr e = (host, port)"
    using assms by (auto simp: channels_inv_def host_eq_def)
  show thesis
  proof (rule scan_used[of "\<lambda>e. nc_port e = port \<and> host_eq (nc_host e) host" "nc_slots c"])
    assume "scan (used (\<lambda>e. nc_port e = port \<and> host_eq (nc_host e) host)) (nc_slots c) 0 = -1"
      "\<forall>e \<in> set (filled (nc_slots c)). \<not> (nc_port e = port \<and> host_eq (nc_host e) host)"
    then show thesis using eq by (intro none) (auto simp: find_by_host_locked_def addr_map_def slot_dom)
  next
    fix A e B
    assume s: "nc_slots c = A @ Some e # B" "scan (used (\<lambda>e. nc_port e = port \<and> host_eq (nc_host e) host)) (nc_slots c) 0 = int (length A)"
      "nc_port e = port \<and> host_eq (nc_host e) host"
    then have "nc_addr e = (host, port)" using eq by simp
    then show thesis using s assms(1)
      by (intro slot[of A e B]) (simp_all add: find_by_host_locked_def addr_map_def channels_inv_def slot_map_Some)
  qed
qed

lemma lowest_free_spec:
  "lowest_free ss k \<notin> nc_channel ` set (filled ss) \<and> k \<le> lowest_free ss k \<and>
   (\<forall>j. k \<le> j \<and> j < lowest_free ss k \<longrightarrow> j \<in> nc_channel ` set (filled ss))"
proof (induction ss k rule: lowest_free.induct)
  case (1 ss k)
  show ?case
  proof (cases "channel_in_use_locked ss k")
    case True
    then have eq: "lowest_free ss k = lowest_free ss (k + 1)" by (simp add: lowest_free.simps)
    have "j \<in> nc_channel ` set (filled ss)" if "k \<le> j" "j < lowest_free ss (k + 1)" for j
      using that 1[OF True] True by (cases "j = k") (auto simp: channel_in_use)
    then show ?thesis unfolding eq using 1[OF True] by auto
  next
    case False
    then have "lowest_free ss k = k" by (simp add: lowest_free.simps)
    then show ?thesis using False by (auto simp: channel_in_use)
  qed
qed

text \<open>The channel an add of a new camera gives: the one asked for if it is free, else the lowest free one.\<close>

definition assigned_channel :: "int set \<Rightarrow> int \<Rightarrow> int \<Rightarrow> bool" where
  "assigned_channel taken wanted k \<longleftrightarrow>
     (if 0 \<le> wanted \<and> wanted \<notin> taken then k = wanted
      else 0 \<le> k \<and> k \<notin> taken \<and> (\<forall>j. 0 \<le> j \<and> j < k \<longrightarrow> j \<in> taken))"

lemma channels_add_spec:
  assumes "channels_inv c" "length (nc_host e) \<le> 64" "nop_nvr_channels_add c e = (c', k)"
  shows "channels_inv c' \<and> length (nc_slots c') = length (nc_slots c) \<and>
    (case addr_map c (nc_addr e) of
       Some old \<Rightarrow> c' = c \<and> k = nc_channel old
     | None \<Rightarrow>
         if nc_host e \<noteq> [] \<and> card (dom (channel_map c)) < length (nc_slots c)
         then assigned_channel (dom (channel_map c)) (nc_channel e) k \<and>
           channel_map c' = (channel_map c)(k \<mapsto> e\<lparr>nc_channel := k\<rparr>)
         else c' = c \<and> k = -1)"
proof (cases "nc_host e = []")
  case True
  then have "nc_addr e \<notin> dom (addr_map c)" using assms(1) by (auto simp: channels_inv_def addr_map_def slot_dom)
  then have "addr_map c (nc_addr e) = None" by blast
  then show ?thesis using True assms by (simp add: nop_nvr_channels_add_def)
next
  case False
  have card: "card (dom (channel_map c)) = length (filled (nc_slots c))"
    using assms(1) by (simp add: channel_map_def channels_inv_def slot_card)
  from assms(1,2) show ?thesis
  proof (cases rule: host_find_spec[where port = "nc_port e"])
    case (slot A f B)
    then show ?thesis using assms False by (auto simp: nop_nvr_channels_add_def Let_def)
  next
    case none
    let ?k = "assign_channel (nc_slots c) (nc_channel e)"
    have N: "addr_map c (nc_addr e) = None" using none(2) by blast
    have k: "assigned_channel (dom (channel_map c)) (nc_channel e) ?k" "?k \<notin> dom (channel_map c)" "0 \<le> ?k"
      using lowest_free_spec[of "nc_slots c" 0] by (auto simp: assign_channel_def assigned_channel_def channel_dom channel_in_use)
    show ?thesis
    proof (rule scan_free[of "nc_slots c"])
      assume "scan (\<lambda>s. s = None) (nc_slots c) 0 = -1" "length (filled (nc_slots c)) = length (nc_slots c)"
      then show ?thesis using assms none(1) N False card by (simp add: nop_nvr_channels_add_def Let_def)
    next
      fix A B
      assume s: "nc_slots c = A @ None # B" "scan (\<lambda>s. s = None) (nc_slots c) 0 = int (length A)"
        "length (filled (nc_slots c)) < length (nc_slots c)"
      have c': "c' = c\<lparr>nc_slots := A @ Some (e\<lparr>nc_channel := ?k\<rparr>) # B, nc_count := nc_count c + 1\<rparr>" "k = ?k"
        using assms(3) none(1) False s(1,2) by (auto simp: nop_nvr_channels_add_def Let_def)
      have C: "keyed nc_channel (A @ Some (e\<lparr>nc_channel := ?k\<rparr>) # B)"
        "slot_map nc_channel (A @ Some (e\<lparr>nc_channel := ?k\<rparr>) # B) = (channel_map c)(?k \<mapsto> e\<lparr>nc_channel := ?k\<rparr>)"
        using slot_insert[of nc_channel A B "e\<lparr>nc_channel := ?k\<rparr>"] assms(1) k(2) s(1)
        by (simp_all add: channels_inv_def channel_map_def)
      have H: "keyed nc_addr (A @ Some (e\<lparr>nc_channel := ?k\<rparr>) # B)"
        using slot_insert(1)[of nc_addr A B "e\<lparr>nc_channel := ?k\<rparr>"] assms(1) none(2) s(1)
        by (simp add: channels_inv_def addr_map_def)
      have "channels_inv c'" using assms(1,2) C(1) H k(3) s(1) False unfolding c' by (simp add: channels_inv_def)
      then show ?thesis using N k(1) C(2) s card False unfolding c' by (simp add: channel_map_def)
    qed
  qed
qed

lemma channels_remove_spec:
  assumes "channels_inv c" "nop_nvr_channels_remove c k = (c', s)"
  shows "channels_inv c' \<and> length (nc_slots c') = length (nc_slots c) \<and> (s = NOP_OK \<longleftrightarrow> k \<in> dom (channel_map c)) \<and>
    channel_map c' = (channel_map c)(k := None)"
proof (rule channel_find_spec[of c k])
  assume n: "find_by_channel_locked (nc_slots c) k = -1" "k \<notin> dom (channel_map c)"
  then have "channel_map c k = None" by blast
  then show ?thesis using n assms by (auto simp: nop_nvr_channels_remove_def fun_eq_iff)
next
  fix A e B
  assume s: "nc_slots c = A @ Some e # B" "find_by_channel_locked (nc_slots c) k = int (length A)" "nc_channel e = k"
  have c': "c' = c\<lparr>nc_slots := A @ None # B, nc_count := nc_count c - 1\<rparr>" "s = NOP_OK"
    using assms(2) s(1,2) by (simp_all add: nop_nvr_channels_remove_def)
  have C: "keyed nc_channel (A @ None # B)" "slot_map nc_channel (A @ None # B) = (channel_map c)(k := None)"
    using slot_delete[of nc_channel A e B] assms(1) s by (simp_all add: channels_inv_def channel_map_def)
  have "keyed nc_addr (A @ None # B)" using slot_delete(1)[of nc_addr A e B] assms(1) s(1) by (simp add: channels_inv_def)
  then have "channels_inv c'" using assms(1) C(1) s(1) by (simp add: c' channels_inv_def)
  moreover have "k \<in> dom (channel_map c)" using s(1,3) by (simp add: channel_dom)
  ultimately show ?thesis using C(2) s(1) by (simp add: c' channel_map_def)
qed

text \<open>The listing sorts what it collects.\<close>

lemma mset_ins_back: "mset (ins_back e out) = add_mset e (mset out)"
proof -
  have "mset (take j out) + mset (drop j out) = mset out" for j by (metis append_take_drop_id mset_append)
  then show ?thesis by (simp add: ins_back_def Let_def)
qed

lemma ins_back_eq:
  "ins_back e out = rev (dropWhile (\<lambda>x. nc_channel e < nc_channel x) (rev out)) @
     e # rev (takeWhile (\<lambda>x. nc_channel e < nc_channel x) (rev out))"
proof -
  define T D where "T = takeWhile (\<lambda>x. nc_channel e < nc_channel x) (rev out)"
    and "D = dropWhile (\<lambda>x. nc_channel e < nc_channel x) (rev out)"
  have "rev out = T @ D" by (simp add: T_def D_def)
  then have "out = rev D @ rev T" by (metis rev_append rev_rev_ident)
  then show ?thesis unfolding ins_back_def T_def[symmetric] D_def[symmetric] by simp
qed

lemma sorted_ins_back:
  assumes "sorted (map nc_channel out)"
  shows "sorted (map nc_channel (ins_back e out))"
proof -
  let ?P = "\<lambda>x. nc_channel e < nc_channel x"
  let ?D = "dropWhile ?P (rev out)" and ?T = "takeWhile ?P (rev out)"
  have out: "out = rev ?D @ rev ?T" by (metis rev_append rev_rev_ident takeWhile_dropWhile_id)
  then have s: "sorted (map nc_channel (rev ?D @ rev ?T))" using assms by simp
  have "nc_channel x \<le> nc_channel e" if "x \<in> set ?D" for x
  proof -
    have "?D \<noteq> []" using that by fastforce
    then obtain d D where D: "?D = d # D" by (meson neq_Nil_conv)
    then have "\<not> ?P d" by (metis hd_dropWhile list.sel(1) list.distinct(1))
    moreover have "nc_channel x \<le> nc_channel d" using s that unfolding D by (auto simp: sorted_append)
    ultimately show ?thesis by simp
  qed
  moreover have "nc_channel e \<le> nc_channel x" if "x \<in> set ?T" for x using set_takeWhileD[OF that] by simp
  ultimately show ?thesis using s unfolding ins_back_eq by (auto simp: sorted_append dest: order_trans)
qed

lemma list_loop_spec:
  assumes "int (length out + length (filled ss)) \<le> m" "sorted (map nc_channel out)"
  shows "sorted (map nc_channel (list_loop ss m out)) \<and> mset (list_loop ss m out) = mset out + mset (filled ss)"
  using assms
proof (induction ss m out rule: list_loop.induct)
  case (2 s ss m out)
  show ?case
  proof (cases s)
    case None
    then show ?thesis using 2 by (cases "int (length out) < m") (auto simp flip: length_0_conv)
  next
    case (Some e)
    have "length (ins_back e out) = Suc (length out)" using mset_ins_back[of e out] by (metis size_add_mset size_mset)
    then show ?thesis using 2 Some by (simp add: sorted_ins_back mset_ins_back)
  qed
qed simp

section \<open>Properties\<close>

datatype channel_op = Bind nop_nvr_channel_entry | Unbind int

fun channel_step :: "channel_op \<Rightarrow> nop_nvr_channels \<Rightarrow> nop_nvr_channels" where
  "channel_step (Bind e) c = fst (nop_nvr_channels_add c e)"
| "channel_step (Unbind k) c = fst (nop_nvr_channels_remove c k)"

text \<open>The host of a bound entry lies in its 64-byte array.\<close>

fun host_fits :: "channel_op \<Rightarrow> bool" where
  "host_fits (Bind e) = (length (nc_host e) \<le> 64)"
| "host_fits (Unbind k) = True"

lemma channels_run_inv:
  assumes "nop_nvr_channels_create m = Some c0" "\<forall>op \<in> set ops. host_fits op"
  shows "channels_inv (fold channel_step ops c0) \<and> int (length (nc_slots (fold channel_step ops c0))) = m"
proof (rule fold_invariant_in[where P = "\<lambda>c. channels_inv c \<and> int (length (nc_slots c)) = m"])
  show "channels_inv c0 \<and> int (length (nc_slots c0)) = m"
    using assms(1) by (auto simp: nop_nvr_channels_create_def channels_inv_def split: if_splits)
  show "channels_inv (channel_step op c) \<and> int (length (nc_slots (channel_step op c))) = m"
    if "op \<in> set ops" "channels_inv c \<and> int (length (nc_slots c)) = m" for op c
  proof (cases op)
    case (Bind e)
    then show ?thesis using channels_add_spec[of c e] that assms(2) by (cases "nop_nvr_channels_add c e") fastforce
  next
    case (Unbind k)
    then show ?thesis using channels_remove_spec[of c k] that by (cases "nop_nvr_channels_remove c k") auto
  qed
qed

lemma channel_get_spec:
  assumes "channels_inv c"
  shows "nop_nvr_channels_get c k = channel_map c k"
proof (rule channel_find_spec[of c k])
  fix A e B
  assume s: "nc_slots c = A @ Some e # B" "find_by_channel_locked (nc_slots c) k = int (length A)" "nc_channel e = k"
  then have "channel_map c k = Some e" using assms by (simp add: channel_map_def channels_inv_def slot_map_Some)
  then show ?thesis using s by (simp add: nop_nvr_channels_get_def)
next
  assume s: "find_by_channel_locked (nc_slots c) k = -1" "k \<notin> dom (channel_map c)"
  then have "channel_map c k = None" by blast
  then show ?thesis using s by (simp add: nop_nvr_channels_get_def)
qed

lemma channel_list_spec:
  assumes "channels_inv c" "int (length (nc_slots c)) = m" "0 < m"
  shows "sorted (map nc_channel (nop_nvr_channels_list c m))" "distinct (map nc_channel (nop_nvr_channels_list c m))"
    "set (nop_nvr_channels_list c m) = ran (channel_map c)"
proof -
  have l: "sorted (map nc_channel (nop_nvr_channels_list c m)) \<and> mset (nop_nvr_channels_list c m) = mset (filled (nc_slots c))"
    using list_loop_spec[of "[]" "nc_slots c" m] assms length_filled[of "nc_slots c"] by (simp add: nop_nvr_channels_list_def)
  then show "sorted (map nc_channel (nop_nvr_channels_list c m))" by simp
  have "mset (map nc_channel (nop_nvr_channels_list c m)) = mset (map nc_channel (filled (nc_slots c)))" using l by simp
  then show "distinct (map nc_channel (nop_nvr_channels_list c m))"
    using assms(1) by (metis channels_inv_def keyed_def mset_eq_imp_distinct_iff)
  have "ran (channel_map c) = set (filled (nc_slots c))" using assms(1) by (simp add: channel_map_def channels_inv_def slot_ran)
  then show "set (nop_nvr_channels_list c m) = ran (channel_map c)" using l by (metis set_mset_mset)
qed

text \<open>The table of bound cameras. After any history of binds and unbinds: no two cameras share a channel
  or an address, channels are not negative, the count is the number of cameras and at most the capacity, a listing
  gives all of them in ascending channel order, and get and find agree with the table. A bind of a known address
  returns its channel and changes nothing; a bind of a new one, while there is room, gives it the channel it asks for
  if that is free and the lowest free one otherwise; an unbind frees exactly its channel.\<close>

theorem channel_table:
  assumes "nop_nvr_channels_create m = Some c0" "\<forall>op \<in> set ops. host_fits op" "c = fold channel_step ops c0"
  shows "inj_on nc_addr (ran (channel_map c)) \<and> (\<forall>k \<in> dom (channel_map c). 0 \<le> k) \<and>
    nop_nvr_channels_count c = int (card (dom (channel_map c))) \<and> nop_nvr_channels_count c \<le> m \<and>
    sorted (map nc_channel (nop_nvr_channels_list c m)) \<and> distinct (map nc_channel (nop_nvr_channels_list c m)) \<and>
    set (nop_nvr_channels_list c m) = ran (channel_map c) \<and>
    (\<forall>k. nop_nvr_channels_get c k = channel_map c k) \<and>
    (\<forall>e c' k. length (nc_host e) \<le> 64 \<longrightarrow> nop_nvr_channels_add c e = (c', k) \<longrightarrow>
      (let known = nop_nvr_channels_find c (nc_host e) (nc_port e)
       in if 0 \<le> known then c' = c \<and> k = known
          else if nc_host e \<noteq> [] \<and> nop_nvr_channels_count c < m
          then assigned_channel (dom (channel_map c)) (nc_channel e) k \<and>
            channel_map c' = (channel_map c)(k \<mapsto> e\<lparr>nc_channel := k\<rparr>)
          else c' = c \<and> k = -1)) \<and>
    (\<forall>k c' s. nop_nvr_channels_remove c k = (c', s) \<longrightarrow> (s = NOP_OK \<longleftrightarrow> k \<in> dom (channel_map c)) \<and>
      channel_map c' = (channel_map c)(k := None))"
proof -
  have inv: "channels_inv c" and cap: "int (length (nc_slots c)) = m" using channels_run_inv[OF assms(1,2)] assms(3) by simp_all
  have ran: "ran (channel_map c) = set (filled (nc_slots c))" using inv by (simp add: channel_map_def channels_inv_def slot_ran)
  have cnt: "nc_count c = int (card (dom (channel_map c)))" using inv by (simp add: channel_map_def channels_inv_def slot_card)
  have len: "nc_count c = int (length (filled (nc_slots c)))" "nc_count c \<le> m"
    using inv cap length_filled[of "nc_slots c"] by (simp_all add: channels_inv_def)
  have room: "card (dom (channel_map c)) < length (nc_slots c) \<longleftrightarrow> nc_count c < m" using cnt cap by linarith
  have "inj_on nc_addr (ran (channel_map c))" unfolding ran using inv by (simp add: channels_inv_def keyed_def distinct_map)
  moreover have "\<forall>k \<in> dom (channel_map c). 0 \<le> k" using inv by (auto simp: channels_inv_def channel_dom)
  moreover have "0 < m" using assms(1) by (auto simp: nop_nvr_channels_create_def split: if_splits)
  note lst = channel_list_spec[OF inv cap this]
  moreover have "let known = nop_nvr_channels_find c (nc_host e) (nc_port e)
       in if 0 \<le> known then c' = c \<and> k = known
          else if nc_host e \<noteq> [] \<and> nop_nvr_channels_count c < m
          then assigned_channel (dom (channel_map c)) (nc_channel e) k \<and>
            channel_map c' = (channel_map c)(k \<mapsto> e\<lparr>nc_channel := k\<rparr>)
          else c' = c \<and> k = -1"
    if e: "length (nc_host e) \<le> 64" "nop_nvr_channels_add c e = (c', k)" for e c' k
    using inv e(1)
  proof (cases rule: host_find_spec[where port = "nc_port e"])
    case none
    then have N: "addr_map c (nc_addr e) = None" by blast
    then show ?thesis using channels_add_spec[OF inv e] none(1) room
      by (simp add: nop_nvr_channels_find_def nop_nvr_channels_count_def)
  next
    case (slot A f B)
    then have "0 \<le> nc_channel f" using inv by (simp add: channels_inv_def)
    then show ?thesis using channels_add_spec[OF inv e] slot by (simp add: nop_nvr_channels_find_def)
  qed
  ultimately show ?thesis
    using cnt len(2) lst channel_get_spec[OF inv] channels_remove_spec[OF inv] unfolding nop_nvr_channels_count_def by (intro conjI allI impI) blast+
qed

lemma channel_table_witness:
  "\<exists>c0 c e. nop_nvr_channels_create 4 = Some c0 \<and> c = fold channel_step [Bind e, Unbind 3, Bind e] c0 \<and>
     nop_nvr_channels_count c = 1 \<and> nop_nvr_channels_find c (nc_host e) (nc_port e) = 0 \<and>
     nop_nvr_channels_count c = int (card (dom (channel_map c)))"
proof -
  define e :: nop_nvr_channel_entry where "e = \<lparr>nc_channel = -1, nc_enabled = 1, nc_source = NOP_CAMERA_SOURCE_ONVIF,
    nc_backend = NOP_BACKEND_ONVIF, nc_host = ''10.0.0.7'', nc_port = 80, nc_username = ''admin'', nc_password = ''pw'',
    nc_stream_uri_main = ''main'', nc_stream_uri_sub = ''sub'', nc_name = ''yard'', nc_mac = ''m'', nc_model = ''x''\<rparr>"
  let ?c0 = "the (nop_nvr_channels_create 4)" and ?ops = "[Bind e, Unbind 3, Bind e]"
  have c: "nop_nvr_channels_create 4 = Some ?c0" by (simp add: nop_nvr_channels_create_def)
  have f: "\<forall>op \<in> set ?ops. host_fits op" by (simp add: e_def)
  have n: "nop_nvr_channels_count (fold channel_step ?ops ?c0) = 1" unfolding e_def by code_simp
  have k: "nop_nvr_channels_find (fold channel_step ?ops ?c0) (nc_host e) (nc_port e) = 0" unfolding e_def by code_simp
  show ?thesis using c n k channel_table[OF c f refl] by blast
qed

text \<open>A window offer of a camera that is bound already adds nothing to the table but counts as one admitted.\<close>

lemma addcamera_counts_known:
  assumes "channels_inv (ac_registry s)" "length (nc_host e) \<le> 64" "addr_map (ac_registry s) (nc_addr e) = Some old"
    "ac_state (refresh_state_locked s t) = NOP_ADDCAMERA_SCANNING" "nop_nvr_addcamera_offer s e t = (s', k)"
  shows "ac_registry s' = ac_registry s \<and> ac_added_count s' = ac_added_count s + 1"
proof -
  have r: "ac_registry (refresh_state_locked s t) = ac_registry s" "ac_added_count (refresh_state_locked s t) = ac_added_count s"
    by (simp_all add: refresh_state_locked_def)
  have k: "nop_nvr_channels_add (ac_registry s) e = (ac_registry s, nc_channel old)"
    using channels_add_spec[OF assms(1,2) surjective_pairing] assms(3) by (simp add: prod_eq_iff)
  have "old \<in> set (filled (nc_slots (ac_registry s)))"
    using assms(1,3) by (simp add: addr_map_def channels_inv_def slot_map_Some)
  then have "0 \<le> nc_channel old" using assms(1) by (simp add: channels_inv_def)
  then show ?thesis using assms(4,5) k r
    by (auto simp: nop_nvr_addcamera_offer_def offer_check_def offer_add_def offer_count_def Let_def)
qed

end
