(* ===== verification/Nop_Wizard.thy ===== *)
theory Nop_Wizard
  imports Nop_Base
begin

text \<open>
  components/nop/src/services/nvr/svc_wizard.c: the start-up wizard of an NVR and its Admin password policy. Every
  operation runs under the wizard's mutex, so a history is a list of operations.
\<close>

datatype nop_wizard_state = NOP_WIZARD_PENDING | NOP_WIZARD_IN_PROGRESS | NOP_WIZARD_COMPLETE

datatype nop_wizard_step =
    NOP_WIZARD_STEP_PASSWORD | NOP_WIZARD_STEP_DEVICE_NAME | NOP_WIZARD_STEP_CHANNEL_IMAGING | NOP_WIZARD_STEP_FIRMWARE
  | NOP_WIZARD_STEP_DONE

datatype nop_wizard_pw_result = NOP_WIZARD_PW_OK | NOP_WIZARD_PW_TOO_SHORT | NOP_WIZARD_PW_TOO_LONG | NOP_WIZARD_PW_BAD_CHAR

definition NOP_WIZARD_PW_MIN :: nat where "NOP_WIZARD_PW_MIN = 6"
definition NOP_WIZARD_PW_MAX :: nat where "NOP_WIZARD_PW_MAX = 20"

record nop_wizard =
  wz_state :: nop_wizard_state
  wz_has_password :: bool
  wz_has_device_name :: bool
  wz_channel_imaging_done :: bool
  wz_firmware_checked :: bool
  wz_device_name :: string

definition is_alphanumeric :: "char \<Rightarrow> bool" where
  "is_alphanumeric c \<longleftrightarrow>
     (of_char (CHR ''0'') \<le> (of_char c :: nat) \<and> (of_char c :: nat) \<le> of_char (CHR ''9'')) \<or>
     (of_char (CHR ''a'') \<le> (of_char c :: nat) \<and> (of_char c :: nat) \<le> of_char (CHR ''z'')) \<or>
     (of_char (CHR ''A'') \<le> (of_char c :: nat) \<and> (of_char c :: nat) \<le> of_char (CHR ''Z''))"

fun check_chars :: "string \<Rightarrow> nop_wizard_pw_result" where
  "check_chars [] = NOP_WIZARD_PW_OK"
| "check_chars (c # cs) = (if \<not> is_alphanumeric c then NOP_WIZARD_PW_BAD_CHAR else check_chars cs)"

definition nop_wizard_check_password :: "string option \<Rightarrow> nop_wizard_pw_result" where
  "nop_wizard_check_password password =
     (case password of None \<Rightarrow> NOP_WIZARD_PW_TOO_SHORT
      | Some pw \<Rightarrow> if length pw < NOP_WIZARD_PW_MIN then NOP_WIZARD_PW_TOO_SHORT
          else if NOP_WIZARD_PW_MAX < length pw then NOP_WIZARD_PW_TOO_LONG else check_chars pw)"

definition nop_wizard_create :: "bool \<Rightarrow> nop_wizard" where
  "nop_wizard_create already_complete =
     \<lparr>wz_state = (if already_complete then NOP_WIZARD_COMPLETE else NOP_WIZARD_PENDING), wz_has_password = False,
      wz_has_device_name = False, wz_channel_imaging_done = False, wz_firmware_checked = False, wz_device_name = []\<rparr>"

definition wizard_touch_locked :: "nop_wizard \<Rightarrow> nop_wizard" where
  "wizard_touch_locked w = (if wz_state w = NOP_WIZARD_PENDING then w\<lparr>wz_state := NOP_WIZARD_IN_PROGRESS\<rparr> else w)"

definition nop_wizard_set_password :: "nop_wizard \<Rightarrow> string option \<Rightarrow> nop_wizard \<times> nop_status" where
  "nop_wizard_set_password w password =
     (if nop_wizard_check_password password \<noteq> NOP_WIZARD_PW_OK then (w, NOP_ERR_PARAM)
      else (wizard_touch_locked (w\<lparr>wz_has_password := True\<rparr>), NOP_OK))"

text \<open>\<open>snprintf\<close> into the 48-byte array keeps 47 characters.\<close>

definition nop_wizard_set_device_name :: "nop_wizard \<Rightarrow> string option \<Rightarrow> nop_wizard \<times> nop_status" where
  "nop_wizard_set_device_name w name =
     (case name of None \<Rightarrow> (w, NOP_ERR_PARAM)
      | Some n \<Rightarrow> if n = [] then (w, NOP_ERR_PARAM)
          else (wizard_touch_locked (w\<lparr>wz_device_name := take 47 n, wz_has_device_name := True\<rparr>), NOP_OK))"

definition nop_wizard_mark_channel_imaging :: "nop_wizard \<Rightarrow> nop_wizard" where
  "nop_wizard_mark_channel_imaging w = wizard_touch_locked (w\<lparr>wz_channel_imaging_done := True\<rparr>)"

definition nop_wizard_mark_firmware_checked :: "nop_wizard \<Rightarrow> nop_wizard" where
  "nop_wizard_mark_firmware_checked w = wizard_touch_locked (w\<lparr>wz_firmware_checked := True\<rparr>)"

definition nop_wizard_complete :: "nop_wizard \<Rightarrow> nop_wizard \<times> nop_status" where
  "nop_wizard_complete w =
     (if \<not> wz_has_password w then (w, NOP_ERR_STATE) else (w\<lparr>wz_state := NOP_WIZARD_COMPLETE\<rparr>, NOP_OK))"

definition nop_wizard_reset :: "nop_wizard \<Rightarrow> nop_wizard" where
  "nop_wizard_reset w =
     w\<lparr>wz_state := NOP_WIZARD_PENDING, wz_has_password := False, wz_has_device_name := False,
       wz_channel_imaging_done := False, wz_firmware_checked := False, wz_device_name := []\<rparr>"

definition nop_wizard_is_complete :: "nop_wizard \<Rightarrow> bool" where
  "nop_wizard_is_complete w \<longleftrightarrow> wz_state w = NOP_WIZARD_COMPLETE"

text \<open>The \<open>step\<close> field of the status snapshot; its other fields are copies of the wizard's.\<close>

definition nop_wizard_next_step :: "nop_wizard \<Rightarrow> nop_wizard_step" where
  "nop_wizard_next_step w =
     (if wz_state w = NOP_WIZARD_COMPLETE then NOP_WIZARD_STEP_DONE
      else if \<not> wz_has_password w then NOP_WIZARD_STEP_PASSWORD
      else if \<not> wz_has_device_name w then NOP_WIZARD_STEP_DEVICE_NAME
      else if \<not> wz_channel_imaging_done w then NOP_WIZARD_STEP_CHANNEL_IMAGING
      else if \<not> wz_firmware_checked w then NOP_WIZARD_STEP_FIRMWARE
      else NOP_WIZARD_STEP_DONE)"

section \<open>Histories\<close>

datatype wizard_op = SetPassword "string option" | SetName "string option" | MarkImaging | MarkFirmware | Complete | Reset

fun wizard_op_step :: "wizard_op \<Rightarrow> nop_wizard \<Rightarrow> nop_wizard" where
  "wizard_op_step (SetPassword p) w = fst (nop_wizard_set_password w p)"
| "wizard_op_step (SetName n) w = fst (nop_wizard_set_device_name w n)"
| "wizard_op_step MarkImaging w = nop_wizard_mark_channel_imaging w"
| "wizard_op_step MarkFirmware w = nop_wizard_mark_firmware_checked w"
| "wizard_op_step Complete w = fst (nop_wizard_complete w)"
| "wizard_op_step Reset w = nop_wizard_reset w"

text \<open>What has happened since the last reset.\<close>

definition since_reset :: "wizard_op list \<Rightarrow> wizard_op list" where
  "since_reset ops = rev (takeWhile (\<lambda>op. op \<noteq> Reset) (rev ops))"

fun accepted :: "wizard_op \<Rightarrow> bool" where
  "accepted (SetPassword p) = (case p of None \<Rightarrow> False | Some pw \<Rightarrow> 6 \<le> length pw \<and> length pw \<le> 20 \<and> list_all is_alphanumeric pw)"
| "accepted op = False"

fun named :: "wizard_op \<Rightarrow> bool" where
  "named (SetName n) = (case n of None \<Rightarrow> False | Some s \<Rightarrow> s \<noteq> [])"
| "named op = False"

lemma check_chars_ok: "check_chars pw = NOP_WIZARD_PW_OK \<longleftrightarrow> list_all is_alphanumeric pw"
  by (induction pw) auto

lemma check_password_ok: "nop_wizard_check_password p = NOP_WIZARD_PW_OK \<longleftrightarrow> accepted (SetPassword p)"
  by (auto simp: nop_wizard_check_password_def check_chars_ok NOP_WIZARD_PW_MIN_def NOP_WIZARD_PW_MAX_def split: option.split)

lemma since_reset_snoc: "since_reset (ops @ [op]) = (if op = Reset then [] else since_reset ops @ [op])"
  by (simp add: since_reset_def)

text \<open>Complete, since the last reset: a finish asked for when a password had been accepted before.\<close>

fun finished :: "bool \<Rightarrow> wizard_op list \<Rightarrow> bool" where
  "finished pw [] = False"
| "finished pw (Complete # ops) = (pw \<or> finished pw ops)"
| "finished pw (op # ops) = finished (pw \<or> accepted op) ops"

lemma finished_snoc: "finished pw (ops @ [op]) \<longleftrightarrow> finished pw ops \<or> op = Complete \<and> (pw \<or> list_ex accepted ops)"
proof (induction pw ops rule: finished.induct)
  case (1 pw)
  then show ?case by (cases op) auto
qed auto

lemmas wizard_defs = nop_wizard_set_password_def nop_wizard_set_device_name_def nop_wizard_mark_channel_imaging_def
  nop_wizard_mark_firmware_checked_def nop_wizard_complete_def nop_wizard_reset_def wizard_touch_locked_def

text \<open>What one operation does to each field.\<close>

lemma wizard_step_fields:
  "wz_has_password (wizard_op_step op w) \<longleftrightarrow> op \<noteq> Reset \<and> (wz_has_password w \<or> accepted op)"
  "wz_has_device_name (wizard_op_step op w) \<longleftrightarrow> op \<noteq> Reset \<and> (wz_has_device_name w \<or> named op)"
  "wz_channel_imaging_done (wizard_op_step op w) \<longleftrightarrow> op \<noteq> Reset \<and> (wz_channel_imaging_done w \<or> op = MarkImaging)"
  "wz_firmware_checked (wizard_op_step op w) \<longleftrightarrow> op \<noteq> Reset \<and> (wz_firmware_checked w \<or> op = MarkFirmware)"
  by (cases op; auto simp: wizard_defs check_password_ok simp del: accepted.simps(1) split: option.split)+

lemma wizard_step_state:
  "wz_state (wizard_op_step op w) = NOP_WIZARD_COMPLETE \<longleftrightarrow>
     op \<noteq> Reset \<and> (wz_state w = NOP_WIZARD_COMPLETE \<or> op = Complete \<and> wz_has_password w)"
  "wz_state (wizard_op_step op w) = NOP_WIZARD_PENDING \<longleftrightarrow>
     op = Reset \<or> wz_state w = NOP_WIZARD_PENDING \<and> \<not> accepted op \<and> \<not> named op \<and> op \<noteq> MarkImaging \<and> op \<noteq> MarkFirmware \<and>
       \<not> (op = Complete \<and> wz_has_password w)"
  by (cases op; auto simp: wizard_defs check_password_ok simp del: accepted.simps(1) split: option.split)+

lemma wizard_state:
  fixes w defines "w \<equiv> \<lambda>ops. fold wizard_op_step ops (nop_wizard_create False)"
  shows "wz_has_password (w ops) = list_ex accepted (since_reset ops) \<and>
    wz_has_device_name (w ops) = list_ex named (since_reset ops) \<and>
    wz_channel_imaging_done (w ops) = (MarkImaging \<in> set (since_reset ops)) \<and>
    wz_firmware_checked (w ops) = (MarkFirmware \<in> set (since_reset ops)) \<and>
    (wz_state (w ops) = NOP_WIZARD_COMPLETE) = finished False (since_reset ops) \<and>
    (wz_state (w ops) = NOP_WIZARD_PENDING) =
      (\<not> wz_has_password (w ops) \<and> \<not> wz_has_device_name (w ops) \<and> \<not> wz_channel_imaging_done (w ops) \<and>
       \<not> wz_firmware_checked (w ops))"
proof (induction ops rule: rev_induct)
  case Nil
  show ?case by (simp add: w_def nop_wizard_create_def since_reset_def)
next
  case (snoc op ops)
  have w: "w (ops @ [op]) = wizard_op_step op (w ops)" by (simp add: w_def)
  show ?case
    using snoc unfolding w wizard_step_fields wizard_step_state since_reset_snoc
    by (cases "op = Reset") (auto simp: finished_snoc)
qed

section \<open>Properties\<close>

text \<open>The wizard. On a factory-fresh device, after any history: the wizard is complete exactly if, since the
  last reset, a finish was asked for after a password of 6 to 20 alphanumeric characters had been set; it is pending exactly
  if no step has been done since then; finishing succeeds exactly if such a password has been set; and the next step
  reported is the first one not done, or done when it is complete.\<close>

theorem wizard_protocol:
  "let w = fold wizard_op_step ops (nop_wizard_create False); since = since_reset ops
   in nop_wizard_is_complete w = finished False since \<and>
    (wz_state w = NOP_WIZARD_PENDING) = list_all (\<lambda>op. \<not> accepted op \<and> \<not> named op \<and> op \<noteq> MarkImaging \<and> op \<noteq> MarkFirmware) since \<and>
    (snd (nop_wizard_complete w) = NOP_OK) = list_ex accepted since \<and>
    nop_wizard_next_step w =
      (if finished False since then NOP_WIZARD_STEP_DONE else if \<not> list_ex accepted since then NOP_WIZARD_STEP_PASSWORD
       else if \<not> list_ex named since then NOP_WIZARD_STEP_DEVICE_NAME
       else if MarkImaging \<notin> set since then NOP_WIZARD_STEP_CHANNEL_IMAGING
       else if MarkFirmware \<notin> set since then NOP_WIZARD_STEP_FIRMWARE else NOP_WIZARD_STEP_DONE)"
proof -
  define w since where "w = fold wizard_op_step ops (nop_wizard_create False)" and "since = since_reset ops"
  note st = wizard_state[of ops, folded w_def since_def]
  have "(wz_state w = NOP_WIZARD_PENDING) = list_all (\<lambda>op. \<not> accepted op \<and> \<not> named op \<and> op \<noteq> MarkImaging \<and> op \<noteq> MarkFirmware) since"
    using st by (auto simp: list_all_iff list_ex_iff)
  then show ?thesis
    using st unfolding Let_def w_def[symmetric] since_def[symmetric]
    by (simp add: nop_wizard_is_complete_def nop_wizard_complete_def nop_wizard_next_step_def)
qed

end
