(* ===== verification/Nop_Client.thy ===== *)
theory Nop_Client
  imports Nop_App
begin

text \<open>
  components/nop/src/client: the client core (nop_client.c) over an injected channel, and the loopback channel
  (channel_loopback.c) that dispatches straight into an application. A channel is a function of the request text and the
  state \<open>'w\<close> behind it, giving a return code and a response that may be missing. The JSON parser and printer are
  cJSON's and stay parameters.
\<close>

definition NOP_CLIENT_DEFAULT_TIMEOUT_MS :: int where "NOP_CLIENT_DEFAULT_TIMEOUT_MS = 5000"

type_synonym 'w nop_client_channel = "string \<Rightarrow> int \<Rightarrow> 'w \<Rightarrow> int \<times> string option \<times> 'w"

text \<open>The request envelope: missing, empty or malformed arguments become the empty object.\<close>

definition client_args :: "(string \<Rightarrow> json option) \<Rightarrow> string option \<Rightarrow> json" where
  "client_args parse args_json =
     (case args_json of
        Some t \<Rightarrow> if t \<noteq> [] then (case parse t of Some a \<Rightarrow> a | None \<Rightarrow> nop_json_obj) else nop_json_obj
      | None \<Rightarrow> nop_json_obj)"

definition client_envelope :: "string \<Rightarrow> json \<Rightarrow> json" where
  "client_envelope func args = nop_json_add (nop_json_add_str nop_json_obj ''func'' func) ''args'' args"

definition nop_client_call ::
  "(string \<Rightarrow> json option) \<Rightarrow> (json \<Rightarrow> string) \<Rightarrow> 'w nop_client_channel \<Rightarrow> string \<Rightarrow> string option \<Rightarrow> 'w \<Rightarrow>
     nop_status \<times> string option \<times> 'w" where
  "nop_client_call parse print channel func args_json w =
     (case channel (print (client_envelope func (client_args parse args_json))) NOP_CLIENT_DEFAULT_TIMEOUT_MS w of
        (rc, response, w) \<Rightarrow>
          if rc \<noteq> 0 then (NOP_ERR_IO, None, w)
          else (case response of None \<Rightarrow> (NOP_ERR_IO, None, w) | Some t \<Rightarrow> (NOP_OK, Some t, w)))"

text \<open>The status code and the content text it writes through its two out-pointers, both present.\<close>

definition nop_client_call_status ::
  "(string \<Rightarrow> json option) \<Rightarrow> (json \<Rightarrow> string) \<Rightarrow> 'w nop_client_channel \<Rightarrow> string \<Rightarrow> string option \<Rightarrow> 'w \<Rightarrow>
     nop_status \<times> int \<times> string option \<times> 'w" where
  "nop_client_call_status parse print channel func args_json w =
     (case nop_client_call parse print channel func args_json w of
        (st, response, w) \<Rightarrow>
          if st \<noteq> NOP_OK then (st, 0, None, w)
          else (case parse (the response) of
                  None \<Rightarrow> (NOP_ERR_INTERNAL, 0, None, w)
                | Some envelope \<Rightarrow>
                    (NOP_OK, c_int (nop_json_num (Some envelope) ''statusCode'' 0),
                     Some (print (case nop_json_get (Some envelope) ''content'' of Some c \<Rightarrow> c | None \<Rightarrow> nop_json_obj)), w)))"

definition loopback_request :: "(string \<Rightarrow> json option) \<Rightarrow> (json \<Rightarrow> string) \<Rightarrow> nop_app nop_client_channel" where
  "loopback_request parse print request_json timeout_ms app =
     (case nop_app_dispatch parse print app request_json of (out, app) \<Rightarrow> (0, Some out, app))"

definition nop_channel_loopback_init :: "(string \<Rightarrow> json option) \<Rightarrow> (json \<Rightarrow> string) \<Rightarrow> nop_app nop_client_channel" where
  "nop_channel_loopback_init parse print = loopback_request parse print"

section \<open>End to end\<close>

lemma client_envelope_simp: "client_envelope f a = cmd_json (f, a)"
  by (simp add: client_envelope_def cmd_json_def nop_json_obj_def nop_json_add_str_def)

lemma envelope_json_fields:
  "nop_json_get (Some (envelope_json r)) ''content'' = rs_content r"
  "nop_json_num (Some (envelope_json r)) ''statusCode'' 0 = of_int (rs_status r)"
  by (simp_all add: envelope_json_def nop_json_obj_def nop_json_add_int_def nop_json_add_str_def nop_json_num_def
      nop_json_as_num_def Let_def split: option.split)

section \<open>Properties\<close>

text \<open>A client call over the loopback channel is a dispatch. Whatever the application and its handlers, as
  long as cJSON reads back the two envelopes it has printed, a call of a command other than a batch gives exactly the
  status code and the content of dispatching that command with the given arguments (the empty object when they are
  missing or malformed), and leaves the application as that dispatch leaves it; and over any channel, a failed or
  missing response is an I/O error without content.\<close>

theorem client_loopback:
  assumes "func \<noteq> NOP_BATCH_FUNC" "func \<noteq> []"
    and "dispatch_one (na_router app) func (Some (client_args parse args)) = (resp, r')"
    and "parse (print (client_envelope func (client_args parse args))) = Some (client_envelope func (client_args parse args))"
    and "parse (print (envelope_json resp)) = Some (envelope_json resp)"
  shows "nop_client_call_status parse print (nop_channel_loopback_init parse print) func args app =
      (NOP_OK, rs_status resp, Some (print (case rs_content resp of Some c \<Rightarrow> c | None \<Rightarrow> nop_json_obj)), app\<lparr>na_router := r'\<rparr>) \<and>
    (\<forall>(ch :: 'w nop_client_channel) w rc t w'. ch (print (client_envelope func (client_args parse args))) NOP_CLIENT_DEFAULT_TIMEOUT_MS w = (rc, t, w') \<longrightarrow>
       (rc \<noteq> 0 \<or> t = None) \<longrightarrow> nop_client_call_status parse print ch func args w = (NOP_ERR_IO, 0, None, w'))"
proof -
  let ?t = "print (client_envelope func (client_args parse args))"
  have "nop_app_dispatch parse print app ?t = (nop_envelope_build print resp, app\<lparr>na_router := r'\<rparr>)"
    using dispatch_cmd[OF assms(1,2) _ assms(3), where t = ?t and print = print] assms(4) by (simp add: nop_app_dispatch_def client_envelope_simp)
  then have "nop_client_call parse print (nop_channel_loopback_init parse print) func args app =
      (NOP_OK, Some (print (envelope_json resp)), app\<lparr>na_router := r'\<rparr>)"
    by (simp add: nop_client_call_def nop_channel_loopback_init_def loopback_request_def nop_envelope_build_def)
  then show ?thesis
    using assms(5) envelope_json_fields[of resp]
    by (auto simp: nop_client_call_status_def nop_client_call_def split: option.split)
qed

lemma client_loopback_witness:
  "\<exists>parse print app. fst (nop_client_call_status parse print (nop_channel_loopback_init parse print) ''ping'' None app) = NOP_OK \<and>
     fst (snd (nop_client_call_status parse print (nop_channel_loopback_init parse print) ''ping'' None app)) = 200"
proof -
  define reg :: registrations where "reg = [(''ping'', CAP_DEVICE, \<lambda>rq rs s. (NOP_OK, rs\<lparr>rs_content := rq_args rq\<rparr>, s))]"
  define r where "r = register_all reg (nop_router_create cap_registry_create business_context0)"
  define app where "app = \<lparr>na_router = r, na_bridged_hub = None, na_event_subscription = None\<rparr>"
  define resp where "resp = \<lparr>rs_status = 200, rs_msg = Some ''OK'', rs_content = Some nop_json_obj\<rparr>"
  let ?req = "client_envelope ''ping'' nop_json_obj" and ?env = "envelope_json resp"
  define parse :: "string \<Rightarrow> json option" where "parse t = (if t = ''q'' then Some ?req else Some ?env)" for t
  define print where "print j = (if j = ?req then ''q'' else ''r'')" for j
  have args: "client_args parse None = nop_json_obj" by (simp add: client_args_def)
  have ne: "?env \<noteq> ?req" by (simp add: resp_def envelope_json_def client_envelope_def nop_json_obj_def nop_json_add_int_def nop_json_add_str_def)
  have on: "cap_registry_is_enabled (nr_capability_registry r) CAP_DEVICE"
    using always_bits[of CAP_DEVICE]
    by (simp add: r_def register_all_routes nop_router_create_def enabled_bit cap_registry_create_def core_caps_def)
      (simp add: cap_ids)
  have "fst (dispatch_one (na_router app) ''ping'' (Some nop_json_obj)) = resp"
    using on by (simp add: app_def r_def dispatch_one_def route_lookup) (simp add: reg_def resp_def nop_response_init_def)
  then obtain r' where d: "dispatch_one (na_router app) ''ping'' (Some (client_args parse None)) = (resp, r')"
    unfolding args by (metis prod.collapse)
  have j: "parse (print (client_envelope ''ping'' (client_args parse None))) = Some (client_envelope ''ping'' (client_args parse None))"
    "parse (print ?env) = Some ?env" using ne by (simp_all add: parse_def print_def args)
  have "nop_client_call_status parse print (nop_channel_loopback_init parse print) ''ping'' None app =
      (NOP_OK, rs_status resp, Some (print (case rs_content resp of Some c \<Rightarrow> c | None \<Rightarrow> nop_json_obj)), app\<lparr>na_router := r'\<rparr>)"
    by (rule conjunct1[OF client_loopback[OF _ _ d j]]) (simp_all add: NOP_BATCH_FUNC_def)
  then show ?thesis by (intro exI[of _ parse] exI[of _ print] exI[of _ app]) (simp add: resp_def)
qed

end
