(* ===== verification/Nop_Ring.thy ===== *)
theory Nop_Ring
  imports Prelude
begin

text \<open>
  Ring buffers of the NOP services: an array of fixed length with a head (the next position to write) and a count,
  overwritten from the oldest entry when full. Its contents, oldest first, are \<open>ring_items\<close>. Nothing in this
  theory models a source file on its own.
\<close>

definition ring_items :: "'a list \<Rightarrow> nat \<Rightarrow> nat \<Rightarrow> 'a list" where
  "ring_items xs n h = map (\<lambda>i. xs ! ((h + length xs - n + i) mod length xs)) [0..<n]"

definition ring_ok :: "'a list \<Rightarrow> nat \<Rightarrow> nat \<Rightarrow> bool" where
  "ring_ok xs n h \<longleftrightarrow> h < length xs \<and> n \<le> length xs"

lemma ring_items_0 [simp]: "ring_items xs 0 h = []"
  by (simp add: ring_items_def)

lemma length_ring_items [simp]: "length (ring_items xs n h) = n"
  by (simp add: ring_items_def)

lemma ring_items_nth: "i < n \<Longrightarrow> ring_items xs n h ! i = xs ! ((h + length xs - n + i) mod length xs)"
  by (simp add: ring_items_def)

lemma add_mod_other: "0 < k \<Longrightarrow> k < L \<Longrightarrow> h < L \<Longrightarrow> (h + k) mod L \<noteq> (h :: nat)"
  by (cases "h + k < L") (auto simp: mod_if le_mod_geq not_less)

lemma ring_ok_push: "ring_ok xs n h \<Longrightarrow> ring_ok (xs[h := x]) (if n = length xs then n else n + 1) ((h + 1) mod length xs)"
  by (cases "length xs = 0") (auto simp: ring_ok_def)

text \<open>A push appends; on a full ring it drops the oldest entry.\<close>

lemma ring_items_push:
  assumes "ring_ok xs n h"
  shows "ring_items (xs[h := x]) (if n = length xs then n else n + 1) ((h + 1) mod length xs) =
    (if n = length xs then tl (ring_items xs n h) else ring_items xs n h) @ [x]"
proof -
  define L where "L = length xs"
  have h: "h < L" and n: "n \<le> L" using assms by (auto simp: ring_ok_def L_def)
  show ?thesis
  proof (cases "n = L")
    case True
    show ?thesis
    proof (rule nth_equalityI)
      fix i assume "i < length (ring_items (xs[h := x]) (if n = length xs then n else n + 1) ((h + 1) mod length xs))"
      then have i: "i < L" using True by (simp add: L_def)
      have ix: "((h + 1) mod L + L - L + i) mod L = (h + (i + 1)) mod L"
        using mod_add_left_eq[of "h + 1" L i] by (simp add: add.commute add.left_commute)
      show "ring_items (xs[h := x]) (if n = length xs then n else n + 1) ((h + 1) mod length xs) ! i =
        ((if n = length xs then tl (ring_items xs n h) else ring_items xs n h) @ [x]) ! i"
      proof (cases "i + 1 = L")
        case True
        moreover from this have "i = L - 1" by simp
        ultimately show ?thesis using \<open>n = L\<close> i h ix by (simp add: L_def[symmetric] ring_items_nth nth_append)
      next
        case False
        then have "i < L - 1" using i by simp
        then show ?thesis using False \<open>n = L\<close> i h ix add_mod_other[of "i + 1" L h]
          by (simp add: L_def[symmetric] ring_items_nth nth_append nth_tl)
      qed
    qed (use True h in \<open>simp add: L_def\<close>)
  next
    case False
    show ?thesis
    proof (rule nth_equalityI)
      fix i assume "i < length (ring_items (xs[h := x]) (if n = length xs then n else n + 1) ((h + 1) mod length xs))"
      then have i: "i \<le> n" using False by (simp add: L_def)
      have "(h + 1) mod L + L - (n + 1) + i = (h + 1) mod L + (L - (n + 1) + i)" using False n by simp
      then have "((h + 1) mod L + L - (n + 1) + i) mod L = (h + 1 + (L - (n + 1) + i)) mod L"
        by (metis mod_add_left_eq)
      also have "h + 1 + (L - (n + 1) + i) = h + (L - n + i)" using False n by simp
      finally have ix: "((h + 1) mod L + L - (n + 1) + i) mod L = (h + (L - n + i)) mod L" .
      show "ring_items (xs[h := x]) (if n = length xs then n else n + 1) ((h + 1) mod length xs) ! i =
        ((if n = length xs then tl (ring_items xs n h) else ring_items xs n h) @ [x]) ! i"
      proof (cases "i = n")
        case True
        then show ?thesis using \<open>n \<noteq> L\<close> h n ix by (simp add: L_def[symmetric] ring_items_nth nth_append)
      next
        case i': False
        have "(h + (L - n + i)) mod L \<noteq> h" using i i' n h False by (intro add_mod_other) auto
        moreover have "h + L - n + i = h + (L - n + i)" using n by simp
        ultimately show ?thesis using False i i' h n ix by (simp add: L_def[symmetric] ring_items_nth nth_append)
      qed
    qed (use False in \<open>simp add: L_def\<close>)
  qed
qed

text \<open>Reading backwards from the head, newest entry first.\<close>

lemma ring_newest:
  assumes "ring_ok xs n h" "i < n"
  shows "xs ! ((h + length xs - 1 - i) mod length xs) = ring_items xs n h ! (n - 1 - i)"
proof -
  have "h + length xs - n + (n - 1 - i) = h + length xs - 1 - i" using assms by (auto simp: ring_ok_def)
  then show ?thesis using assms by (simp add: ring_items_nth)
qed

end
