(* ===== verification/Nop_Record.thy ===== *)
theory Nop_Record
  imports Nop_Ring Nop_Event
begin

text \<open>
  components/nop/src/services/svc_record.c: the SD recording engine of a camera, which cuts the encoder's frames into
  container files, keeps a ring of the closed ones, and in event mode records around detections with a pre-roll. The
  muxer behind it is HAL_VIDEO's: its three hooks may be missing, opening may fail (an arbitrary function of what has
  been done so far), and every call made on it, and every file removed, is logged in \<open>re_calls\<close>. Each sink runs under
  the engine's mutex. Memory never runs out, and a config's seconds are small enough for their frame count to be an int.
\<close>

section \<open>The engine\<close>

datatype nop_record_mode = NOP_RECORD_OFF | NOP_RECORD_CONTINUOUS | NOP_RECORD_EVENT

record nop_record_config =
  rg_storage_dir :: string
  rg_channel :: int
  rg_stream :: int
  rg_mode :: nop_record_mode
  rg_segment_seconds :: int
  rg_max_segments :: int
  rg_pre_record_seconds :: int
  rg_post_record_seconds :: int
  rg_event_max_seconds :: int

record nop_record_segment =
  rs_path :: string
  rs_channel :: int
  rs_stream :: int
  rs_start_ms :: u64
  rs_end_ms :: u64
  rs_event_mask :: u32
  rs_complete :: bool

datatype hal_video_codec = HAL_VIDEO_CODEC_H264 | HAL_VIDEO_CODEC_H265

record hal_video_frame =
  vf_stream :: int
  vf_codec :: hal_video_codec
  vf_is_keyframe :: bool
  vf_timestamp_ms :: u64
  vf_data :: bytes

record nop_record_pre_frame =
  pf_data :: "bytes option"
  pf_is_keyframe :: bool
  pf_timestamp_ms :: u64

datatype mux_call = MuxOpen string | MuxWrite hal_video_frame | MuxClose | FileRemove string

record hal_video =
  hv_mux_open :: "(mux_call list \<Rightarrow> string \<Rightarrow> bool) option"
  hv_mux_write :: bool
  hv_mux_close :: bool

record nop_record =
  re_config :: nop_record_config
  re_video :: "hal_video option"
  re_media :: bool
  re_event_hub :: "nat option"
  re_segment_open :: bool
  re_segment_path :: string
  re_segment_start_ms :: u64
  re_segment_last_ms :: u64
  re_segment_event_mask :: u32
  re_last_frame_ms :: u64
  re_event_recording :: bool
  re_event_last_trigger_ms :: u64
  re_trigger_pending :: bool
  re_pending_event_mask :: u32
  re_segments :: "nop_record_segment list"
  re_segment_count :: nat
  re_segment_head :: nat
  re_pre_frames :: "nop_record_pre_frame list"
  re_pre_count :: nat
  re_pre_head :: nat
  re_calls :: "mux_call list"

definition re_call :: "mux_call \<Rightarrow> nop_record \<Rightarrow> nop_record" where
  "re_call c r = r\<lparr>re_calls := re_calls r @ [c]\<rparr>"

text \<open>The capacities are the lengths of the two arrays.\<close>

abbreviation re_segment_capacity :: "nop_record \<Rightarrow> nat" where "re_segment_capacity r \<equiv> length (re_segments r)"
abbreviation re_pre_capacity :: "nop_record \<Rightarrow> nat" where "re_pre_capacity r \<equiv> length (re_pre_frames r)"

definition zero_segment :: nop_record_segment where
  "zero_segment = \<lparr>rs_path = '''', rs_channel = 0, rs_stream = 0, rs_start_ms = 0, rs_end_ms = 0, rs_event_mask = 0, rs_complete = False\<rparr>"

definition zero_pre_frame :: nop_record_pre_frame where
  "zero_pre_frame = \<lparr>pf_data = None, pf_is_keyframe = False, pf_timestamp_ms = 0\<rparr>"

section \<open>Segments\<close>

definition record_index_add_locked :: "nop_record \<Rightarrow> nop_record" where
  "record_index_add_locked r =
     (let r = (if re_segment_count r = re_segment_capacity r
               then re_call (FileRemove (rs_path (re_segments r ! re_segment_head r))) r
               else r\<lparr>re_segment_count := re_segment_count r + 1\<rparr>)
      in r\<lparr>re_segments := (re_segments r)[re_segment_head r :=
             \<lparr>rs_path = re_segment_path r, rs_channel = rg_channel (re_config r), rs_stream = rg_stream (re_config r),
              rs_start_ms = re_segment_start_ms r, rs_end_ms = re_segment_last_ms r,
              rs_event_mask = re_segment_event_mask r, rs_complete = True\<rparr>],
           re_segment_head := (re_segment_head r + 1) mod re_segment_capacity r\<rparr>)"

definition segment_path_of :: "nop_record_config \<Rightarrow> u64 \<Rightarrow> string" where
  "segment_path_of c t = rg_storage_dir c @ ''/ch'' @ show_int (rg_channel c) @ ''_s'' @ show_int (rg_stream c) @
     ''_'' @ show_nat (unat t) @ ''.mp4''"

definition record_open_segment_locked :: "nop_record \<Rightarrow> u64 \<Rightarrow> nop_record \<times> nop_status" where
  "record_open_segment_locked r start_ms =
     (case Option.bind (re_video r) hv_mux_open of
        None \<Rightarrow> (r, NOP_ERR_NOTIMPL)
      | Some mux_open \<Rightarrow>
          let path = segment_path_of (re_config r) start_ms;
              r = r\<lparr>re_segment_path := take 255 path\<rparr>
          in if length path \<ge> 256 then (r, NOP_ERR_PARAM)
             else if \<not> mux_open (re_calls r) path then (r, NOP_ERR_IO)
             else ((re_call (MuxOpen path) r)\<lparr>re_segment_open := True, re_segment_start_ms := start_ms,
                     re_segment_last_ms := start_ms, re_segment_event_mask := 0\<rparr>, NOP_OK))"

definition record_write_frame_locked :: "hal_video_frame \<Rightarrow> nop_record \<Rightarrow> nop_record" where
  "record_write_frame_locked f r =
     (let r = (case re_video r of Some v \<Rightarrow> if hv_mux_write v then re_call (MuxWrite f) r else r | None \<Rightarrow> r)
      in if vf_timestamp_ms f > re_segment_last_ms r then r\<lparr>re_segment_last_ms := vf_timestamp_ms f\<rparr> else r)"

definition record_close_segment_locked :: "nop_record \<Rightarrow> nop_record" where
  "record_close_segment_locked r =
     (if \<not> re_segment_open r then r
      else let r = (case re_video r of Some v \<Rightarrow> if hv_mux_close v then re_call MuxClose r else r | None \<Rightarrow> r)
           in (record_index_add_locked r)\<lparr>re_segment_open := False\<rparr>)"

section \<open>The pre-record ring\<close>

definition record_pre_clear_locked :: "nop_record \<Rightarrow> nop_record" where
  "record_pre_clear_locked r = r\<lparr>re_pre_frames := map (\<lambda>p. p\<lparr>pf_data := None\<rparr>) (re_pre_frames r), re_pre_count := 0, re_pre_head := 0\<rparr>"

definition record_pre_push_locked :: "hal_video_frame \<Rightarrow> nop_record \<Rightarrow> nop_record" where
  "record_pre_push_locked f r =
     (if re_pre_capacity r = 0 then r
      else r\<lparr>re_pre_count := (if re_pre_count r = re_pre_capacity r then re_pre_count r else re_pre_count r + 1),
             re_pre_frames := (re_pre_frames r)[re_pre_head r :=
               \<lparr>pf_data = Some (vf_data f), pf_is_keyframe = vf_is_keyframe f, pf_timestamp_ms = vf_timestamp_ms f\<rparr>],
             re_pre_head := (re_pre_head r + 1) mod re_pre_capacity r\<rparr>)"

text \<open>The buffered frames, oldest first, as the three loops below walk them.\<close>

definition pre_oldest :: "nop_record \<Rightarrow> nat \<Rightarrow> nop_record_pre_frame" where
  "pre_oldest r i =
     (let oldest = nat ((int (re_pre_head r) - int (re_pre_count r) + int (re_pre_capacity r)) mod int (re_pre_capacity r))
      in re_pre_frames r ! ((oldest + i) mod re_pre_capacity r))"

fun earliest_keyframe :: "nop_record_pre_frame list \<Rightarrow> u64 \<Rightarrow> u64" where
  "earliest_keyframe [] fallback = fallback"
| "earliest_keyframe (p # ps) fallback =
     (if pf_is_keyframe p \<and> pf_data p \<noteq> None then pf_timestamp_ms p else earliest_keyframe ps fallback)"

definition record_pre_earliest_keyframe_locked :: "nop_record \<Rightarrow> u64 \<Rightarrow> u64" where
  "record_pre_earliest_keyframe_locked r fallback =
     (if re_pre_count r = 0 then fallback else earliest_keyframe (map (pre_oldest r) [0..<re_pre_count r]) fallback)"

definition record_pre_has_keyframe_locked :: "nop_record \<Rightarrow> bool" where
  "record_pre_has_keyframe_locked r \<longleftrightarrow>
     re_pre_count r \<noteq> 0 \<and> (\<exists>p \<in> set (map (pre_oldest r) [0..<re_pre_count r]). pf_is_keyframe p \<and> pf_data p \<noteq> None)"

fun flush_loop :: "nop_record_pre_frame list \<Rightarrow> bool \<Rightarrow> nop_record \<Rightarrow> nop_record" where
  "flush_loop [] started r = r"
| "flush_loop (p # ps) started r =
     (case pf_data p of
        None \<Rightarrow> flush_loop ps started r
      | Some d \<Rightarrow>
          if \<not> started \<and> \<not> pf_is_keyframe p then flush_loop ps started r
          else flush_loop ps True (record_write_frame_locked
                 \<lparr>vf_stream = rg_stream (re_config r), vf_codec = HAL_VIDEO_CODEC_H264, vf_is_keyframe = pf_is_keyframe p,
                  vf_timestamp_ms = pf_timestamp_ms p, vf_data = d\<rparr> r))"

definition record_pre_flush_locked :: "nop_record \<Rightarrow> nop_record" where
  "record_pre_flush_locked r =
     (if re_pre_count r = 0 then r
      else record_pre_clear_locked (flush_loop (map (pre_oldest r) [0..<re_pre_count r]) False r))"

section \<open>The two sinks\<close>

definition record_segment_ms :: "nop_record \<Rightarrow> u64" where
  "record_segment_ms r = of_int (rg_segment_seconds (re_config r)) * 1000"

definition record_elapsed_ms :: "u64 \<Rightarrow> u64 \<Rightarrow> u64" where
  "record_elapsed_ms now start = (if now \<ge> start then now - start else 0)"

definition record_event_mask_bit :: "nop_detect_type \<Rightarrow> u32" where
  "record_event_mask_bit t = (if detect_index t < 32 then push_bit (detect_index t) 1 else 0)"

definition record_continuous_frame :: "hal_video_frame \<Rightarrow> nop_record \<Rightarrow> nop_record" where
  "record_continuous_frame f r =
     (let r = (if re_segment_open r \<and> vf_is_keyframe f \<and>
                  record_elapsed_ms (vf_timestamp_ms f) (re_segment_start_ms r) \<ge> record_segment_ms r
               then record_close_segment_locked r else r)
      in if re_segment_open r then record_write_frame_locked f r
         else if \<not> vf_is_keyframe f then r
         else case record_open_segment_locked r (vf_timestamp_ms f) of
             (r, rc) \<Rightarrow> if rc \<noteq> NOP_OK then r else record_write_frame_locked f r)"

definition record_event_frame :: "hal_video_frame \<Rightarrow> nop_record \<Rightarrow> nop_record" where
  "record_event_frame f r =
     (if re_trigger_pending r \<and> \<not> re_event_recording r then
        if \<not> vf_is_keyframe f then record_pre_push_locked f r
        else case record_open_segment_locked r (vf_timestamp_ms f) of
            (r, rc) \<Rightarrow>
              if rc \<noteq> NOP_OK then r
              else record_write_frame_locked f
                (r\<lparr>re_event_recording := True, re_trigger_pending := False, re_event_last_trigger_ms := vf_timestamp_ms f,
                   re_segment_event_mask := re_segment_event_mask r OR re_pending_event_mask r, re_pending_event_mask := 0\<rparr>)
      else if re_event_recording r then
        let post_ms = of_int (rg_post_record_seconds (re_config r)) * 1000;
            event_max_ms = of_int (rg_event_max_seconds (re_config r)) * 1000;
            r = record_write_frame_locked f r
        in if record_elapsed_ms (vf_timestamp_ms f) (re_event_last_trigger_ms r) \<ge> post_ms \<or>
              record_elapsed_ms (vf_timestamp_ms f) (re_segment_start_ms r) \<ge> event_max_ms
           then (record_close_segment_locked r)\<lparr>re_event_recording := False\<rparr>
           else r
      else record_pre_push_locked f r)"

definition record_on_frame_locked :: "hal_video_frame \<Rightarrow> nop_record \<Rightarrow> nop_record" where
  "record_on_frame_locked f r =
     (let r = r\<lparr>re_last_frame_ms := vf_timestamp_ms f\<rparr>
      in case rg_mode (re_config r) of
           NOP_RECORD_CONTINUOUS \<Rightarrow> record_continuous_frame f r
         | NOP_RECORD_EVENT \<Rightarrow> record_event_frame f r
         | NOP_RECORD_OFF \<Rightarrow> r)"

definition record_media_sink :: "int \<Rightarrow> hal_video_frame \<Rightarrow> nop_record \<Rightarrow> nop_record" where
  "record_media_sink channel f r =
     (if channel \<noteq> rg_channel (re_config r) \<or> vf_stream f \<noteq> rg_stream (re_config r) then r
      else record_on_frame_locked f r)"

definition record_event_trigger :: "u32 \<Rightarrow> nop_record \<Rightarrow> nop_record" where
  "record_event_trigger b r =
     (if re_event_recording r then
        r\<lparr>re_event_last_trigger_ms := re_last_frame_ms r, re_segment_event_mask := re_segment_event_mask r OR b\<rparr>
      else if record_pre_has_keyframe_locked r then
        let start_ms = record_pre_earliest_keyframe_locked r (re_last_frame_ms r)
        in case record_open_segment_locked r start_ms of
            (r, rc) \<Rightarrow>
              if rc = NOP_OK then
                let r = record_pre_flush_locked (r\<lparr>re_event_recording := True\<rparr>)
                in r\<lparr>re_event_last_trigger_ms := re_last_frame_ms r, re_segment_event_mask := re_segment_event_mask r OR b\<rparr>
              else r
      else r\<lparr>re_trigger_pending := True, re_pending_event_mask := re_pending_event_mask r OR b\<rparr>)"

definition record_event_sink :: "nop_event \<Rightarrow> nop_record \<Rightarrow> nop_record" where
  "record_event_sink e r =
     (if ev_channel e \<noteq> rg_channel (re_config r) then r
      else let b = record_event_mask_bit (ev_type e)
           in case rg_mode (re_config r) of
                NOP_RECORD_CONTINUOUS \<Rightarrow>
                  if re_segment_open r then r\<lparr>re_segment_event_mask := re_segment_event_mask r OR b\<rparr> else r
              | NOP_RECORD_EVENT \<Rightarrow> record_event_trigger b r
              | NOP_RECORD_OFF \<Rightarrow> r)"

section \<open>Life cycle and queries\<close>

definition resolve_config :: "nop_record_config \<Rightarrow> nop_record_config" where
  "resolve_config c =
     c\<lparr>rg_segment_seconds := (if rg_segment_seconds c \<le> 0 then 60 else rg_segment_seconds c),
       rg_max_segments := (if rg_max_segments c \<le> 0 then 48 else rg_max_segments c),
       rg_post_record_seconds := (if rg_post_record_seconds c \<le> 0 then 30 else rg_post_record_seconds c),
       rg_event_max_seconds :=
         (if rg_event_max_seconds c \<le> 0 \<or> rg_event_max_seconds c > 600 then 600 else rg_event_max_seconds c)\<rparr>"

definition nop_record_create :: "hal_video option \<Rightarrow> nop_record_config \<Rightarrow> nop_record option" where
  "nop_record_create video config =
     (if rg_storage_dir config = '''' then None
      else
        let c = resolve_config config;
            frames = (if rg_pre_record_seconds c > 0 then min (rg_pre_record_seconds c * 30) 900 else 0)
        in Some \<lparr>re_config = c, re_video = video, re_media = False, re_event_hub = None, re_segment_open = False,
             re_segment_path = '''', re_segment_start_ms = 0, re_segment_last_ms = 0, re_segment_event_mask = 0,
             re_last_frame_ms = 0, re_event_recording = False, re_event_last_trigger_ms = 0, re_trigger_pending = False,
             re_pending_event_mask = 0, re_segments = replicate (nat (rg_max_segments c)) zero_segment,
             re_segment_count = 0, re_segment_head = 0, re_pre_frames = replicate (nat frames) zero_pre_frame,
             re_pre_count = 0, re_pre_head = 0, re_calls = []\<rparr>)"

text \<open>Destruction, after the sources are detached: what is left of the engine is its index and its files.\<close>

definition nop_record_destroy :: "nop_record \<Rightarrow> nop_record" where
  "nop_record_destroy r =
     (let r = record_close_segment_locked (r\<lparr>re_media := False, re_event_hub := None\<rparr>)
      in if re_pre_capacity r = 0 then r else record_pre_clear_locked r)"

text \<open>\<open>subscribed\<close> is the answer of the media plane.\<close>

definition nop_record_attach_media :: "bool \<Rightarrow> nop_record \<Rightarrow> nop_record \<times> nop_status" where
  "nop_record_attach_media subscribed r =
     (if re_media r then (r, NOP_ERR_STATE)
      else if \<not> subscribed then (r, NOP_ERR_STATE)
      else (r\<lparr>re_media := True\<rparr>, NOP_OK))"

definition nop_record_attach_event_hub ::
  "'k \<Rightarrow> nop_record \<Rightarrow> 'k nop_event_hub \<Rightarrow> nop_record \<times> 'k nop_event_hub \<times> nop_status" where
  "nop_record_attach_event_hub sink r hub =
     (if re_event_hub r \<noteq> None then (r, hub, NOP_ERR_STATE)
      else case nop_event_subscribe hub sink of
          (None, hub) \<Rightarrow> (r, hub, NOP_ERR_STATE)
        | (Some i, hub) \<Rightarrow> (r\<lparr>re_event_hub := Some i\<rparr>, hub, NOP_OK))"

fun segments_loop :: "nop_record \<Rightarrow> int \<Rightarrow> nat list \<Rightarrow> nop_record_segment list \<Rightarrow> nop_record_segment list" where
  "segments_loop r limit [] out = out"
| "segments_loop r limit (i # is) out =
     (if int (length out) < limit
      then segments_loop r limit is (out @ [re_segments r !
             nat ((int (re_segment_head r) - 1 - int i + int (re_segment_capacity r)) mod int (re_segment_capacity r))])
      else out)"

definition nop_record_segments :: "nop_record \<Rightarrow> int \<Rightarrow> nop_record_segment list" where
  "nop_record_segments r limit =
     (if limit \<le> 0 then [] else segments_loop r limit [0..<re_segment_count r] [])"

definition nop_record_segment_count :: "nop_record \<Rightarrow> nat" where
  "nop_record_segment_count r = re_segment_count r"

section \<open>What the log says\<close>

text \<open>The files the muxer was given, in order of opening, each with the frames written to it; and the files removed.\<close>

type_synonym clip = "string \<times> hal_video_frame list"

fun clip_step :: "clip list \<Rightarrow> mux_call \<Rightarrow> clip list" where
  "clip_step cs (MuxOpen p) = cs @ [(p, [])]"
| "clip_step cs (MuxWrite f) = butlast cs @ [(fst (last cs), snd (last cs) @ [f])]"
| "clip_step cs MuxClose = cs"
| "clip_step cs (FileRemove p) = cs"

definition clips :: "mux_call list \<Rightarrow> clip list" where
  "clips calls = foldl clip_step [] calls"

definition removed_files :: "mux_call list \<Rightarrow> string list" where
  "removed_files calls = concat (map (\<lambda>c. case c of FileRemove p \<Rightarrow> [p] | _ \<Rightarrow> []) calls)"

lemma clips_simps [simp]: "clips [] = []" "clips (cs @ [c]) = clip_step (clips cs) c"
  by (simp_all add: clips_def)

lemma removed_simps [simp]:
  "removed_files [] = []"
  "removed_files (cs @ [c]) = removed_files cs @ (case c of FileRemove p \<Rightarrow> [p] | _ \<Rightarrow> [])"
  by (simp_all add: removed_files_def)

definition max_ts :: "u64 \<Rightarrow> hal_video_frame list \<Rightarrow> u64" where
  "max_ts t fs = fold max (map vf_timestamp_ms fs) t"

text \<open>What the index says of a closed file: its name, the time of its first frame, the greatest time of a frame.\<close>

definition clip_entry :: "clip \<Rightarrow> string \<times> u64 \<times> u64" where
  "clip_entry c = (fst c, vf_timestamp_ms (hd (snd c)), Max (set (map vf_timestamp_ms (snd c))))"

definition segment_entry :: "nop_record_segment \<Rightarrow> string \<times> u64 \<times> u64" where
  "segment_entry s = (rs_path s, rs_start_ms s, rs_end_ms s)"

definition clip_good :: "clip \<Rightarrow> bool" where
  "clip_good c \<longleftrightarrow> snd c \<noteq> [] \<and> vf_is_keyframe (hd (snd c))"

definition hooks :: "hal_video option \<Rightarrow> bool" where
  "hooks v \<longleftrightarrow> (\<exists>h. v = Some h \<and> hv_mux_open h \<noteq> None \<and> hv_mux_write h \<and> hv_mux_close h)"

text \<open>\<open>eng r cl cur\<close>: the files \<open>cl\<close> are closed and indexed, and \<open>cur\<close> are the frames of the open one.\<close>

definition eng :: "nop_record \<Rightarrow> clip list \<Rightarrow> hal_video_frame list option \<Rightarrow> bool" where
  "eng r cl cur \<longleftrightarrow> hooks (re_video r) \<and> ring_ok (re_segments r) (re_segment_count r) (re_segment_head r) \<and>
     re_segment_count r = min (length cl) (re_segment_capacity r) \<and>
     map segment_entry (ring_items (re_segments r) (re_segment_count r) (re_segment_head r)) =
       map clip_entry (drop (length cl - re_segment_capacity r) cl) \<and>
     removed_files (re_calls r) = map fst (take (length cl - re_segment_capacity r) cl) \<and>
     re_segment_open r = (cur \<noteq> None) \<and>
     clips (re_calls r) = cl @ (case cur of None \<Rightarrow> [] | Some fs \<Rightarrow> [(re_segment_path r, fs)]) \<and>
     (case cur of None \<Rightarrow> True | Some fs \<Rightarrow> re_segment_last_ms r = max_ts (re_segment_start_ms r) fs)"

text \<open>The open file has frames, starting with a keyframe, and its start time is that frame's.\<close>

definition anchored :: "nop_record \<Rightarrow> hal_video_frame list \<Rightarrow> bool" where
  "anchored r fs \<longleftrightarrow> fs \<noteq> [] \<and> vf_is_keyframe (hd fs) \<and> vf_timestamp_ms (hd fs) = re_segment_start_ms r"

lemma eng_open:
  assumes "eng r cl None" "record_open_segment_locked r t = (r', NOP_OK)"
  shows "eng r' cl (Some [])" "re_segment_start_ms r' = t"
    "r' = r\<lparr>re_calls := re_calls r', re_segment_path := re_segment_path r', re_segment_open := True,
       re_segment_start_ms := t, re_segment_last_ms := t, re_segment_event_mask := 0\<rparr>"
    "re_segment_path r' = segment_path_of (re_config r) t"
  using assms by (auto simp: eng_def record_open_segment_locked_def hooks_def re_call_def Let_def max_ts_def
      split: option.splits if_splits)

lemma eng_open_fails:
  assumes "eng r cl None" "record_open_segment_locked r t = (r', rc)" "rc \<noteq> NOP_OK"
  shows "eng r' cl None" "\<exists>p. r' = r\<lparr>re_segment_path := p\<rparr>"
proof -
  have "\<exists>p. r' = r\<lparr>re_segment_path := p\<rparr>"
    using assms by (auto simp: record_open_segment_locked_def Let_def split: option.splits if_splits)
      (metis nop_record.surjective nop_record.update_convs(6))+
  then show "\<exists>p. r' = r\<lparr>re_segment_path := p\<rparr>" .
  then show "eng r' cl None" using assms(1) by (auto simp: eng_def)
qed

lemma eng_write:
  assumes "eng r cl (Some fs)"
  shows "eng (record_write_frame_locked f r) cl (Some (fs @ [f]))"
    "record_write_frame_locked f r = r\<lparr>re_calls := re_calls r @ [MuxWrite f],
       re_segment_last_ms := max (re_segment_last_ms r) (vf_timestamp_ms f)\<rparr>"
  using assms by (auto simp: eng_def record_write_frame_locked_def hooks_def re_call_def max_ts_def Let_def max_def not_less)

lemma max_ts_eq: "fs \<noteq> [] \<Longrightarrow> max_ts (vf_timestamp_ms (hd fs)) fs = Max (set (map vf_timestamp_ms fs))"
  by (cases fs) (simp_all add: max_ts_def Max.set_eq_fold del: list.set)

lemma record_close_unfold:
  assumes "eng r cl (Some fs)"
  shows "record_close_segment_locked r = (record_index_add_locked (re_call MuxClose r))\<lparr>re_segment_open := False\<rparr>"
  using assms by (auto simp: eng_def record_close_segment_locked_def hooks_def)

lemma index_add_fields:
  "re_segments (record_index_add_locked r) = (re_segments r)[re_segment_head r :=
     \<lparr>rs_path = re_segment_path r, rs_channel = rg_channel (re_config r), rs_stream = rg_stream (re_config r),
      rs_start_ms = re_segment_start_ms r, rs_end_ms = re_segment_last_ms r,
      rs_event_mask = re_segment_event_mask r, rs_complete = True\<rparr>]"
  "re_segment_count (record_index_add_locked r) =
     (if re_segment_count r = re_segment_capacity r then re_segment_count r else re_segment_count r + 1)"
  "re_segment_head (record_index_add_locked r) = (re_segment_head r + 1) mod re_segment_capacity r"
  "re_calls (record_index_add_locked r) = re_calls r @
     (if re_segment_count r = re_segment_capacity r then [FileRemove (rs_path (re_segments r ! re_segment_head r))] else [])"
  "re_video (record_index_add_locked r) = re_video r"
  by (simp_all add: record_index_add_locked_def re_call_def Let_def)

lemma drop_snoc_window:
  assumes "0 < cap" "xs = cl @ [x]" "n = length cl"
  shows "drop (Suc n - cap) xs = (if cap \<le> n then tl (drop (n - cap) cl) else cl) @ [x]"
    and "take (Suc n - cap) xs = take (n - cap) cl @ (if cap \<le> n then [cl ! (n - cap)] else [])"
  using assms by (auto simp: Suc_diff_le drop_Suc tl_drop take_Suc_conv_app_nth)

lemma eng_close:
  assumes E: "eng r cl (Some fs)" and A: "anchored r fs"
  shows "eng (record_close_segment_locked r) (cl @ [(re_segment_path r, fs)]) None"
proof -
  let ?L = "re_segment_capacity r" and ?n = "length cl" and ?r = "record_close_segment_locked r"
  let ?items = "ring_items (re_segments r) (re_segment_count r) (re_segment_head r)"
  let ?c = "(re_segment_path r, fs)"
  note U = record_close_unfold[OF E]
  have ok: "ring_ok (re_segments r) (re_segment_count r) (re_segment_head r)" and cnt: "re_segment_count r = min ?n ?L"
    and it: "map segment_entry ?items = map clip_entry (drop (?n - ?L) cl)"
    and rm: "removed_files (re_calls r) = map fst (take (?n - ?L) cl)"
    and cl: "clips (re_calls r) = cl @ [?c]" and hk: "hooks (re_video r)"
    and last: "re_segment_last_ms r = max_ts (re_segment_start_ms r) fs"
    using E unfolding eng_def by auto
  have L: "0 < ?L" using ok by (cases "re_segments r") (auto simp: ring_ok_def)
  have full: "re_segment_count r = ?L \<longleftrightarrow> ?L \<le> ?n" using cnt by auto
  define new where "new = \<lparr>rs_path = re_segment_path r, rs_channel = rg_channel (re_config r), rs_stream = rg_stream (re_config r),
      rs_start_ms = re_segment_start_ms r, rs_end_ms = re_segment_last_ms r,
      rs_event_mask = re_segment_event_mask r, rs_complete = True\<rparr>"
  have ne: "segment_entry new = clip_entry ?c"
    using A last max_ts_eq[of fs] by (simp add: new_def segment_entry_def clip_entry_def anchored_def)
  have segs: "re_segments ?r = (re_segments r)[re_segment_head r := new]"
    "re_segment_count ?r = (if re_segment_count r = ?L then re_segment_count r else re_segment_count r + 1)"
    "re_segment_head ?r = (re_segment_head r + 1) mod ?L"
    "re_calls ?r = re_calls r @ MuxClose # (if ?L \<le> ?n then [FileRemove (rs_path (re_segments r ! re_segment_head r))] else [])"
    "re_video ?r = re_video r" "re_segment_open ?r = False"
    by (simp_all add: U index_add_fields re_call_def new_def full)
  have items: "ring_items (re_segments ?r) (re_segment_count ?r) (re_segment_head ?r) =
      (if ?L \<le> ?n then tl ?items else ?items) @ [new]"
    using ring_items_push[OF ok, of new] by (simp add: segs(1-3) full)
  have dr: "drop (Suc ?n - ?L) (cl @ [?c]) = (if ?L \<le> ?n then tl (drop (?n - ?L) cl) else cl) @ [?c]"
    and tk: "take (Suc ?n - ?L) (cl @ [?c]) = take (?n - ?L) cl @ (if ?L \<le> ?n then [cl ! (?n - ?L)] else [])"
    using drop_snoc_window[where cl = cl and x = ?c, OF L refl refl] by (simp_all only:)
  have it': "map segment_entry (ring_items (re_segments ?r) (re_segment_count ?r) (re_segment_head ?r)) =
      map clip_entry (drop (Suc ?n - ?L) (cl @ [?c]))"
    unfolding items dr using it ne by (auto simp: map_tl)
  have head: "rs_path (re_segments r ! re_segment_head r) = fst (cl ! (?n - ?L))" if f: "?L \<le> ?n"
  proof -
    have "?items ! 0 = re_segments r ! re_segment_head r"
      using f L ok full by (subst ring_items_nth) (auto simp: ring_ok_def)
    moreover have "segment_entry (?items ! 0) = clip_entry (drop (?n - ?L) cl ! 0)"
      using it f L full by (metis length_map length_ring_items nth_map)
    ultimately show ?thesis using f L by (simp add: segment_entry_def clip_entry_def)
  qed
  have rm': "removed_files (re_calls ?r) = map fst (take (Suc ?n - ?L) (cl @ [?c]))"
    unfolding tk segs(4) using rm head removed_simps(2)[of "re_calls r @ [MuxClose]"] by (cases "?L \<le> ?n") simp_all
  have cl': "clips (re_calls ?r) = cl @ [?c]"
    unfolding segs(4) using cl clips_simps(2)[of "re_calls r @ [MuxClose]"] by (cases "?L \<le> ?n") simp_all
  have ok': "ring_ok (re_segments ?r) (re_segment_count ?r) (re_segment_head ?r)"
    using ring_ok_push[OF ok, of new] by (simp add: segs(1-3))
  show ?thesis
    unfolding eng_def using ok' it' rm' cl' hk cnt by (simp add: segs(1,2,5,6) min_def)
qed

lemma close_fields:
  assumes "eng r cl (Some fs)"
  shows "re_config (record_close_segment_locked r) = re_config r"
    "re_pre_frames (record_close_segment_locked r) = re_pre_frames r"
    "re_pre_count (record_close_segment_locked r) = re_pre_count r"
    "re_pre_head (record_close_segment_locked r) = re_pre_head r"
    "re_event_recording (record_close_segment_locked r) = re_event_recording r"
    "re_trigger_pending (record_close_segment_locked r) = re_trigger_pending r"
    "re_last_frame_ms (record_close_segment_locked r) = re_last_frame_ms r"
  by (simp_all add: record_close_unfold[OF assms] record_index_add_locked_def re_call_def Let_def)

text \<open>The pre-record ring, as the frames it holds, oldest first.\<close>

definition pre_items :: "nop_record \<Rightarrow> nop_record_pre_frame list" where
  "pre_items r = ring_items (re_pre_frames r) (re_pre_count r) (re_pre_head r)"

definition pre_ok :: "nop_record \<Rightarrow> bool" where
  "pre_ok r \<longleftrightarrow> (re_pre_capacity r = 0 \<and> re_pre_count r = 0 \<or> ring_ok (re_pre_frames r) (re_pre_count r) (re_pre_head r)) \<and>
     (\<forall>p \<in> set (pre_items r). pf_data p \<noteq> None)"

definition flushed :: "int \<Rightarrow> nop_record_pre_frame \<Rightarrow> hal_video_frame" where
  "flushed stream p = \<lparr>vf_stream = stream, vf_codec = HAL_VIDEO_CODEC_H264, vf_is_keyframe = pf_is_keyframe p,
     vf_timestamp_ms = pf_timestamp_ms p, vf_data = the (pf_data p)\<rparr>"

definition preroll :: "nop_record \<Rightarrow> hal_video_frame list" where
  "preroll r = map (flushed (rg_stream (re_config r))) (dropWhile (\<lambda>p. \<not> pf_is_keyframe p) (pre_items r))"

lemma pre_oldest_items:
  assumes "pre_ok r"
  shows "map (pre_oldest r) [0..<re_pre_count r] = pre_items r"
proof (cases "re_pre_capacity r = 0")
  case False
  then have ok: "ring_ok (re_pre_frames r) (re_pre_count r) (re_pre_head r)" using assms by (auto simp: pre_ok_def)
  then have le: "re_pre_count r \<le> re_pre_capacity r" by (simp add: ring_ok_def)
  have "int (re_pre_head r) - int (re_pre_count r) + int (re_pre_capacity r) =
      int (re_pre_head r + re_pre_capacity r - re_pre_count r)" using le by simp
  then have "nat ((int (re_pre_head r) - int (re_pre_count r) + int (re_pre_capacity r)) mod int (re_pre_capacity r)) =
      (re_pre_head r + re_pre_capacity r - re_pre_count r) mod re_pre_capacity r"
    by (simp add: nat_mod_as_int)
  then show ?thesis by (simp add: pre_items_def ring_items_def pre_oldest_def mod_add_left_eq)
qed (use assms in \<open>auto simp: pre_ok_def pre_items_def ring_ok_def\<close>)

lemma set_tl_subset: "set (tl xs) \<subseteq> set xs"
  by (cases xs) auto

lemma pre_push_ok: "pre_ok r \<Longrightarrow> pre_ok (record_pre_push_locked f r)"
proof -
  assume P: "pre_ok r"
  show ?thesis
  proof (cases "re_pre_capacity r = 0")
    case False
    let ?x = "\<lparr>pf_data = Some (vf_data f), pf_is_keyframe = vf_is_keyframe f, pf_timestamp_ms = vf_timestamp_ms f\<rparr>"
    have ok: "ring_ok (re_pre_frames r) (re_pre_count r) (re_pre_head r)" using P False by (auto simp: pre_ok_def)
    have "set (pre_items (record_pre_push_locked f r)) \<subseteq> insert ?x (set (pre_items r))"
      using ring_items_push[OF ok, of ?x] False
      set_tl_subset[of "ring_items (re_pre_frames r) (re_pre_count r) (re_pre_head r)"]
      by (auto simp: pre_items_def record_pre_push_locked_def split: if_splits)
    then show ?thesis
      using P ring_ok_push[OF ok, of ?x] False by (auto simp: pre_ok_def record_pre_push_locked_def)
  qed (use P in \<open>simp add: record_pre_push_locked_def\<close>)
qed

lemma pre_push_fields:
  "eng (record_pre_push_locked f r) cl cur = eng r cl cur"
  "re_config (record_pre_push_locked f r) = re_config r"
  "re_event_recording (record_pre_push_locked f r) = re_event_recording r"
  "re_segment_start_ms (record_pre_push_locked f r) = re_segment_start_ms r"
  by (cases cur; simp add: record_pre_push_locked_def eng_def)
    (simp_all add: record_pre_push_locked_def)

lemma pre_clear:
  "eng (record_pre_clear_locked r) cl cur = eng r cl cur" "pre_ok r \<Longrightarrow> pre_ok (record_pre_clear_locked r)"
  by (cases cur; simp add: record_pre_clear_locked_def eng_def)
    (auto simp: record_pre_clear_locked_def pre_ok_def ring_ok_def pre_items_def)

lemma has_keyframe_eq:
  assumes "pre_ok r"
  shows "record_pre_has_keyframe_locked r \<longleftrightarrow> (\<exists>p \<in> set (pre_items r). pf_is_keyframe p)"
  using assms unfolding record_pre_has_keyframe_locked_def pre_oldest_items[OF assms]
  by (cases "re_pre_count r = 0") (auto simp: pre_ok_def pre_items_def)

lemma earliest_keyframe_eq:
  "\<forall>p \<in> set ps. pf_data p \<noteq> None \<Longrightarrow>
   earliest_keyframe ps t = (case dropWhile (\<lambda>p. \<not> pf_is_keyframe p) ps of [] \<Rightarrow> t | p # _ \<Rightarrow> pf_timestamp_ms p)"
  by (induction ps) auto

lemma flush_loop_spec:
  assumes "eng r cl (Some fs)" "\<forall>p \<in> set ps. pf_data p \<noteq> None"
  shows "eng (flush_loop ps started r) cl
      (Some (fs @ map (flushed (rg_stream (re_config r))) (if started then ps else dropWhile (\<lambda>p. \<not> pf_is_keyframe p) ps)))"
    "\<exists>calls last. flush_loop ps started r = r\<lparr>re_calls := calls, re_segment_last_ms := last\<rparr>"
  using assms
proof (induction ps arbitrary: r fs started)
  case Nil
  { case 1 then show ?case by simp }
  { case 2 have "flush_loop [] started r = r\<lparr>re_calls := re_calls r, re_segment_last_ms := re_segment_last_ms r\<rparr>" by simp
    then show ?case by blast }
next
  case (Cons p ps)
  { case 1
    then obtain d where d: "pf_data p = Some d" by auto
    let ?w = "record_write_frame_locked (flushed (rg_stream (re_config r)) p) r"
    have "eng ?w cl (Some (fs @ [flushed (rg_stream (re_config r)) p]))" "re_config ?w = re_config r"
      using eng_write[OF 1(1)] by (simp_all)
    then show ?case using Cons.IH(1)[of ?w "fs @ [flushed (rg_stream (re_config r)) p]" True] Cons.IH(1)[OF 1(1), of False] 1(2) d
      by (auto simp: flushed_def) }
  { case 2
    then obtain d where d: "pf_data p = Some d" by auto
    let ?w = "record_write_frame_locked (flushed (rg_stream (re_config r)) p) r"
    have e: "eng ?w cl (Some (fs @ [flushed (rg_stream (re_config r)) p]))" and
      w: "?w = r\<lparr>re_calls := re_calls ?w, re_segment_last_ms := re_segment_last_ms ?w\<rparr>"
      using eng_write[OF 2(1)] by simp_all
    have ps: "\<forall>p \<in> set ps. pf_data p \<noteq> None" using 2(2) by simp
    obtain c l where "flush_loop ps True ?w = ?w\<lparr>re_calls := c, re_segment_last_ms := l\<rparr>"
      using Cons.IH(2)[OF e ps, of True] by blast
    moreover have "?w\<lparr>re_calls := c, re_segment_last_ms := l\<rparr> = r\<lparr>re_calls := c, re_segment_last_ms := l\<rparr>" by (subst w) simp
    ultimately show ?case using Cons.IH(2)[OF 2(1), of False] 2(2) d by (auto simp: flushed_def) }
qed

section \<open>The invariant\<close>

lemma eng_upd [simp]:
  "eng (r\<lparr>re_event_recording := a\<rparr>) cl cur = eng r cl cur"
  "eng (r\<lparr>re_trigger_pending := a\<rparr>) cl cur = eng r cl cur"
  "eng (r\<lparr>re_event_last_trigger_ms := t\<rparr>) cl cur = eng r cl cur"
  "eng (r\<lparr>re_segment_event_mask := m\<rparr>) cl cur = eng r cl cur"
  "eng (r\<lparr>re_pending_event_mask := m\<rparr>) cl cur = eng r cl cur"
  "eng (r\<lparr>re_last_frame_ms := t\<rparr>) cl cur = eng r cl cur"
  "eng (r\<lparr>re_media := b\<rparr>) cl cur = eng r cl cur"
  "eng (r\<lparr>re_event_hub := h\<rparr>) cl cur = eng r cl cur"
  by (cases cur; simp add: eng_def)+

lemma pre_ok_cong:
  "re_pre_frames r' = re_pre_frames r \<Longrightarrow> re_pre_count r' = re_pre_count r \<Longrightarrow> re_pre_head r' = re_pre_head r \<Longrightarrow>
   pre_ok r' = pre_ok r"
  by (simp add: pre_ok_def pre_items_def)

definition rec_state :: "nop_record \<Rightarrow> clip list \<Rightarrow> hal_video_frame list option \<Rightarrow> bool" where
  "rec_state r cl cur \<longleftrightarrow> eng r cl cur \<and> list_all clip_good cl \<and>
     (case cur of Some fs \<Rightarrow> anchored r fs | None \<Rightarrow> True) \<and> pre_ok r \<and>
     (rg_mode (re_config r) = NOP_RECORD_EVENT \<longrightarrow> re_event_recording r = (cur \<noteq> None)) \<and>
     (rg_mode (re_config r) = NOP_RECORD_OFF \<longrightarrow> cur = None)"

lemma rec_state_cur: "rec_state r cl cur \<Longrightarrow> (cur \<noteq> None) = re_segment_open r"
  by (auto simp: rec_state_def eng_def)

text \<open>Opening a file on a keyframe and writing it.\<close>

lemma open_write:
  assumes "eng r cl None" "vf_is_keyframe f" "record_open_segment_locked r (vf_timestamp_ms f) = (r', NOP_OK)"
    "eng r'' cl (Some [])" "re_segment_start_ms r'' = vf_timestamp_ms f"
  shows "eng (record_write_frame_locked f r'') cl (Some [f])" "anchored (record_write_frame_locked f r'') [f]"
  using eng_write[OF assms(4), of f] assms(2,5) by (simp_all add: anchored_def)

lemma write_anchored:
  assumes "eng r cl (Some fs)" "anchored r fs"
  shows "anchored (record_write_frame_locked f r) (fs @ [f])"
  using assms(2) eng_write(2)[OF assms(1), of f] by (simp add: anchored_def)

lemma write_other:
  assumes "eng r cl (Some fs)"
  shows "re_config (record_write_frame_locked f r) = re_config r" "pre_ok (record_write_frame_locked f r) = pre_ok r"
    "re_event_recording (record_write_frame_locked f r) = re_event_recording r"
    "re_segment_path (record_write_frame_locked f r) = re_segment_path r"
    "re_segment_start_ms (record_write_frame_locked f r) = re_segment_start_ms r"
  using eng_write(2)[OF assms, of f] by (simp_all add: pre_ok_def pre_items_def)

lemma close_state:
  assumes "rec_state r cl (Some fs)"
  shows "eng (record_close_segment_locked r) (cl @ [(re_segment_path r, fs)]) None"
    "list_all clip_good (cl @ [(re_segment_path r, fs)])" "pre_ok (record_close_segment_locked r)"
    "re_config (record_close_segment_locked r) = re_config r"
proof -
  have E: "eng r cl (Some fs)" and A: "anchored r fs" using assms by (simp_all add: rec_state_def)
  show "eng (record_close_segment_locked r) (cl @ [(re_segment_path r, fs)]) None" by (rule eng_close[OF E A])
  show "list_all clip_good (cl @ [(re_segment_path r, fs)])" using assms A
    by (simp add: rec_state_def clip_good_def anchored_def)
  show "pre_ok (record_close_segment_locked r)" "re_config (record_close_segment_locked r) = re_config r"
    using assms close_fields[OF E] pre_ok_cong[of "record_close_segment_locked r" r] by (simp_all add: rec_state_def)
qed

lemma open_other:
  assumes "eng r cl None" "record_open_segment_locked r t = (r', rc)"
  shows "re_config r' = re_config r" "pre_ok r' = pre_ok r" "re_event_recording r' = re_event_recording r"
    "pre_items r' = pre_items r" "re_pre_count r' = re_pre_count r" "re_last_frame_ms r' = re_last_frame_ms r"
    "re_pending_event_mask r' = re_pending_event_mask r"
  using assms(2) by (auto simp: record_open_segment_locked_def re_call_def Let_def pre_ok_def pre_items_def
      split: option.splits if_splits)

text \<open>A frame in continuous mode: cut, wait for a keyframe, or write.\<close>

definition rotate_due :: "nop_record \<Rightarrow> hal_video_frame \<Rightarrow> bool" where
  "rotate_due r f \<longleftrightarrow> vf_is_keyframe f \<and> record_elapsed_ms (vf_timestamp_ms f) (re_segment_start_ms r) \<ge> record_segment_ms r"

lemma start_clip:
  assumes "eng r cl None" "list_all clip_good cl" "pre_ok r" "rg_mode (re_config r) = NOP_RECORD_CONTINUOUS" "vf_is_keyframe f"
  defines "r' \<equiv> (case record_open_segment_locked r (vf_timestamp_ms f) of
             (r, rc) \<Rightarrow> if rc \<noteq> NOP_OK then r else record_write_frame_locked f r)"
  shows "\<exists>cur. rec_state r' cl cur \<and> (cur = None \<or> cur = Some [f])" "re_config r' = re_config r"
proof -
  obtain r1 rc where o: "record_open_segment_locked r (vf_timestamp_ms f) = (r1, rc)" by fastforce
  note O = open_other[OF assms(1) o]
  have "(\<exists>cur. rec_state r' cl cur \<and> (cur = None \<or> cur = Some [f])) \<and> re_config r' = re_config r"
  proof (cases "rc = NOP_OK")
    case True
    note E = eng_open[OF assms(1) o[unfolded True]]
    note W = open_write[OF assms(1,5) o[unfolded True] E(1,2)]
    have "rec_state r' cl (Some [f])"
      using W O write_other[OF E(1), of f] assms(2,3,4) True o by (simp add: rec_state_def r'_def)
    then show ?thesis using True o O write_other[OF E(1), of f] by (auto simp: r'_def)
  next
    case False
    then have "rec_state r' cl None"
      using eng_open_fails[OF assms(1) o False] O assms(2,3,4) o by (simp add: rec_state_def r'_def)
    then show ?thesis using False o O by (auto simp: r'_def)
  qed
  then show "\<exists>cur. rec_state r' cl cur \<and> (cur = None \<or> cur = Some [f])" "re_config r' = re_config r" by blast+
qed

text \<open>A muxer that opens every file, with names that fit.\<close>

definition opens :: "hal_video option \<Rightarrow> nop_record_config \<Rightarrow> bool" where
  "opens v c \<longleftrightarrow> (\<exists>h mo. v = Some h \<and> hv_mux_open h = Some mo \<and> (\<forall>l p. mo l p)) \<and> (\<forall>t. length (segment_path_of c t) < 256)"

lemma opens_ok: "opens (re_video r) (re_config r) \<Longrightarrow> snd (record_open_segment_locked r t) = NOP_OK"
  by (auto simp: opens_def record_open_segment_locked_def Let_def not_le)

lemma continuous_step:
  assumes R: "rec_state r cl cur" and m: "rg_mode (re_config r) = NOP_RECORD_CONTINUOUS" and r'_def: "r' = record_continuous_frame f r"
  shows "\<exists>cl' cur'. rec_state r' cl' cur' \<and> re_config r' = re_config r \<and>
    (case cur of
       None \<Rightarrow> cl' = cl \<and> (cur' = None \<or> vf_is_keyframe f \<and> cur' = Some [f])
     | Some fs \<Rightarrow> if rotate_due r f then cl' = cl @ [(re_segment_path r, fs)] \<and> (cur' = None \<or> cur' = Some [f])
         else cl' = cl \<and> cur' = Some (fs @ [f]))"
proof (cases cur)
  case None
  have c: "\<not> re_segment_open r" using rec_state_cur[OF R] None by simp
  show ?thesis
  proof (cases "vf_is_keyframe f")
    case True
    have "eng r cl None" "list_all clip_good cl" "pre_ok r" using R None by (simp_all add: rec_state_def)
    note S = start_clip[OF this m True]
    have "r' = (case record_open_segment_locked r (vf_timestamp_ms f) of
             (r, rc) \<Rightarrow> if rc \<noteq> NOP_OK then r else record_write_frame_locked f r)"
      using c True by (simp add: r'_def record_continuous_frame_def)
    then show ?thesis using S None True by auto
  next
    case False
    then have "r' = r" using c by (simp add: r'_def record_continuous_frame_def)
    then show ?thesis using R None by auto
  qed
next
  case (Some fs)
  have c: "re_segment_open r" using rec_state_cur[OF R] Some by simp
  have E: "eng r cl (Some fs)" using R Some by (simp add: rec_state_def)
  show ?thesis
  proof (cases "rotate_due r f")
    case True
    let ?q = "record_close_segment_locked r"
    note C = close_state[OF R[unfolded Some]]
    have o: "\<not> re_segment_open ?q" using C(1) by (simp add: eng_def)
    have "r' = (case record_open_segment_locked ?q (vf_timestamp_ms f) of
             (r, rc) \<Rightarrow> if rc \<noteq> NOP_OK then r else record_write_frame_locked f r)"
      using c o True by (simp add: r'_def record_continuous_frame_def rotate_due_def Let_def)
    moreover have "rg_mode (re_config ?q) = NOP_RECORD_CONTINUOUS" using C(4) m by simp
    ultimately show ?thesis
      using start_clip[OF C(1,2,3), of f] True C(4) Some by (auto simp: rotate_due_def)
  next
    case False
    then have "r' = record_write_frame_locked f r"
      using c by (auto simp: r'_def record_continuous_frame_def rotate_due_def Let_def)
    then have "rec_state r' cl (Some (fs @ [f]))" "re_config r' = re_config r"
      using eng_write(1)[OF E] write_anchored[OF E] write_other[OF E] R Some m by (simp_all add: rec_state_def)
    then show ?thesis using False Some by auto
  qed
qed

lemma continuous_step_opens:
  assumes R: "rec_state r cl cur" and m: "rg_mode (re_config r) = NOP_RECORD_CONTINUOUS"
    and o: "opens (re_video r) (re_config r)"
  shows "re_segment_open (record_continuous_frame f r) \<longleftrightarrow> re_segment_open r \<or> vf_is_keyframe f"
    and "re_video (record_continuous_frame f r) = re_video r"
proof -
  have v: "re_video (record_write_frame_locked g q) = re_video q" "re_segment_open (record_write_frame_locked g q) = re_segment_open q"
    for g q by (auto simp: record_write_frame_locked_def re_call_def Let_def split: option.splits)
  have cv: "re_video (record_close_segment_locked r) = re_video r" "re_config (record_close_segment_locked r) = re_config r"
    "re_segment_open (record_close_segment_locked r) = False"
    by (auto simp: record_close_segment_locked_def record_index_add_locked_def re_call_def Let_def split: option.splits)
  have ov: "re_video (fst (record_open_segment_locked q t)) = re_video q" for q t
    by (auto simp: record_open_segment_locked_def re_call_def Let_def split: option.splits)
  have oo: "re_segment_open (fst (record_open_segment_locked q t))" if "snd (record_open_segment_locked q t) = NOP_OK" for q t
    using that by (auto simp: record_open_segment_locked_def Let_def split: option.splits if_splits)
  have s: "snd (record_open_segment_locked q t) = NOP_OK"
    if "re_video q = re_video r" "re_config q = re_config r" for q t
    using opens_ok[of q t] o that by simp
  have "(re_segment_open (record_continuous_frame f r) \<longleftrightarrow> re_segment_open r \<or> vf_is_keyframe f) \<and>
      re_video (record_continuous_frame f r) = re_video r"
    using s[OF refl refl] s[OF cv(1,2)] cv v ov oo
    by (auto simp: record_continuous_frame_def Let_def case_prod_unfold)
  then show "re_segment_open (record_continuous_frame f r) \<longleftrightarrow> re_segment_open r \<or> vf_is_keyframe f"
    "re_video (record_continuous_frame f r) = re_video r" by blast+
qed

text \<open>Event mode.\<close>

lemma event_frame_step:
  assumes R: "rec_state r cl cur" and m: "rg_mode (re_config r) = NOP_RECORD_EVENT"
  shows "\<exists>cl' cur'. rec_state (record_event_frame f r) cl' cur' \<and> re_config (record_event_frame f r) = re_config r"
proof -
  have rec: "re_event_recording r = (cur \<noteq> None)" using R m by (simp add: rec_state_def)
  have push: "rec_state (record_pre_push_locked f r) cl None" if "cur = None"
    using R m that pre_push_ok[of r f] by (simp add: rec_state_def pre_push_fields)
  show ?thesis
  proof (cases cur)
    case (Some fs)
    have E: "eng r cl (Some fs)" and A: "anchored r fs" using R Some by (simp_all add: rec_state_def)
    let ?w = "record_write_frame_locked f r"
    have W: "rec_state ?w cl (Some (fs @ [f]))" "re_config ?w = re_config r"
      using eng_write(1)[OF E] write_anchored[OF E A] write_other[OF E] R Some m by (simp_all add: rec_state_def)
    have "rec_state ((record_close_segment_locked ?w)\<lparr>re_event_recording := False\<rparr>) (cl @ [(re_segment_path ?w, fs @ [f])]) None"
      using close_state[OF W(1)] W(2) m pre_ok_cong[of "(record_close_segment_locked ?w)\<lparr>re_event_recording := False\<rparr>"]
      by (simp add: rec_state_def)
    then show ?thesis
      using W rec Some close_state(4)[OF W(1)] by (auto simp: record_event_frame_def Let_def)
  next
    case None
    have E: "eng r cl None" using R None by (simp add: rec_state_def)
    show ?thesis
    proof (cases "re_trigger_pending r \<and> vf_is_keyframe f")
      case False
      then have "record_event_frame f r = record_pre_push_locked f r" using rec None by (auto simp: record_event_frame_def)
      then show ?thesis using push[OF None] pre_push_fields(2) by metis
    next
      case True
      obtain r1 rc where o: "record_open_segment_locked r (vf_timestamp_ms f) = (r1, rc)" by fastforce
      note O = open_other[OF E o]
      show ?thesis
      proof (cases "rc = NOP_OK")
        case ok: True
        note E1 = eng_open[OF E o[unfolded ok]]
        let ?r2 = "r1\<lparr>re_event_recording := True, re_trigger_pending := False, re_event_last_trigger_ms := vf_timestamp_ms f,
                   re_segment_event_mask := re_segment_event_mask r1 OR re_pending_event_mask r1, re_pending_event_mask := 0\<rparr>"
        have E2: "eng ?r2 cl (Some [])" "re_segment_start_ms ?r2 = vf_timestamp_ms f" using E1 by simp_all
        note W = open_write[OF E True[THEN conjunct2] o[unfolded ok] E2]
        have "record_event_frame f r = record_write_frame_locked f ?r2"
          using True rec None o ok by (simp add: record_event_frame_def)
        moreover have "rec_state (record_write_frame_locked f ?r2) cl (Some [f])"
          using W O write_other[OF E2(1), of f] R m pre_ok_cong[of ?r2 r1] by (simp add: rec_state_def)
        moreover have "re_config (record_write_frame_locked f ?r2) = re_config r" using O write_other[OF E2(1), of f] by simp
        ultimately show ?thesis by auto
      next
        case False
        then have "record_event_frame f r = r1" using True rec None o by (simp add: record_event_frame_def)
        then show ?thesis using eng_open_fails[OF E o False] O R m rec None by (auto simp: rec_state_def)
      qed
    qed
  qed
qed

lemma preroll_anchor:
  assumes "pre_ok r" "record_pre_has_keyframe_locked r"
  shows "preroll r \<noteq> []" "vf_is_keyframe (hd (preroll r))"
    "vf_timestamp_ms (hd (preroll r)) = record_pre_earliest_keyframe_locked r t" "re_pre_count r \<noteq> 0"
proof -
  obtain p ps where d: "dropWhile (\<lambda>p. \<not> pf_is_keyframe p) (pre_items r) = p # ps" and k: "pf_is_keyframe p"
    using assms(2) unfolding has_keyframe_eq[OF assms(1)]
    by (metis dropWhile_eq_Nil_conv hd_dropWhile list.exhaust_sel)
  show c: "re_pre_count r \<noteq> 0" using assms(2) by (simp add: record_pre_has_keyframe_locked_def)
  have "\<forall>p \<in> set (pre_items r). pf_data p \<noteq> None" using assms(1) by (simp add: pre_ok_def)
  then show "vf_timestamp_ms (hd (preroll r)) = record_pre_earliest_keyframe_locked r t"
    using c d earliest_keyframe_eq[of "pre_items r" t]
    by (simp add: record_pre_earliest_keyframe_locked_def pre_oldest_items[OF assms(1)] preroll_def flushed_def)
  show "preroll r \<noteq> []" "vf_is_keyframe (hd (preroll r))" using d k by (simp_all add: preroll_def flushed_def)
qed

lemma trigger_preroll:
  assumes R: "rec_state r cl None" and m: "rg_mode (re_config r) = NOP_RECORD_EVENT"
    and k: "record_pre_has_keyframe_locked r"
    and o: "record_open_segment_locked r (record_pre_earliest_keyframe_locked r (re_last_frame_ms r)) = (r1, NOP_OK)"
  shows "rec_state (record_event_trigger b r) cl (Some (preroll r))" "re_config (record_event_trigger b r) = re_config r"
    "re_pre_count (record_event_trigger b r) = 0" "re_event_last_trigger_ms (record_event_trigger b r) = re_last_frame_ms r"
    "re_segment_path (record_event_trigger b r) = segment_path_of (re_config r) (vf_timestamp_ms (hd (preroll r)))"
proof -
  have E: "eng r cl None" and P: "pre_ok r" and nr: "\<not> re_event_recording r" using R m by (simp_all add: rec_state_def)
  note O = open_other[OF E o] and E1 = eng_open[OF E o] and A = preroll_anchor[OF P k]
  let ?r2 = "r1\<lparr>re_event_recording := True\<rparr>"
  have E2: "eng ?r2 cl (Some [])" using E1 by simp
  have P2: "pre_ok ?r2" using O P pre_ok_cong[of ?r2 r1] by simp
  have it: "pre_items ?r2 = pre_items r" "re_pre_count ?r2 = re_pre_count r" "re_config ?r2 = re_config r"
    using O by (simp_all add: pre_items_def)
  have nd: "\<forall>p \<in> set (pre_items ?r2). pf_data p \<noteq> None" using P2 by (simp add: pre_ok_def)
  let ?r3 = "flush_loop (pre_items ?r2) False ?r2"
  obtain c l where F: "?r3 = ?r2\<lparr>re_calls := c, re_segment_last_ms := l\<rparr>" using flush_loop_spec(2)[OF E2 nd, of False] by blast
  have E3: "eng ?r3 cl (Some (preroll r))" using flush_loop_spec(1)[OF E2 nd, of False] it by (simp add: preroll_def)
  let ?r4 = "record_pre_clear_locked ?r3"
  let ?r5 = "?r4\<lparr>re_event_last_trigger_ms := re_last_frame_ms ?r4, re_segment_event_mask := re_segment_event_mask ?r4 OR b\<rparr>"
  have fl: "record_pre_flush_locked ?r2 = ?r4"
    unfolding record_pre_flush_locked_def pre_oldest_items[OF P2] using A(4) it(2) by simp
  have eq: "record_event_trigger b r = ?r5"
    using nr k o fl by (simp add: record_event_trigger_def Let_def)
  have P5: "pre_ok ?r5"
    using pre_clear(2)[of ?r3] pre_ok_cong[of ?r3 ?r2] pre_ok_cong[of ?r5 ?r4] P2 F by simp
  have f5: "re_config ?r5 = re_config r" "re_event_recording ?r5" "re_segment_start_ms ?r5 = vf_timestamp_ms (hd (preroll r))"
    "re_pre_count ?r5 = 0" "re_last_frame_ms ?r5 = re_last_frame_ms r" "re_segment_path ?r5 = re_segment_path r1"
    using O E1(2) A(3) by (simp_all add: record_pre_clear_locked_def F)
  show "rec_state (record_event_trigger b r) cl (Some (preroll r))"
    using E3 P5 f5 R A m pre_clear(1)[of ?r3] unfolding eq by (simp add: rec_state_def anchored_def)
  show "re_config (record_event_trigger b r) = re_config r" "re_pre_count (record_event_trigger b r) = 0"
    "re_event_last_trigger_ms (record_event_trigger b r) = re_last_frame_ms r"
    "re_segment_path (record_event_trigger b r) = segment_path_of (re_config r) (vf_timestamp_ms (hd (preroll r)))"
    unfolding eq using f5 E1(4) A(3) by simp_all
qed

lemma trigger_step:
  assumes R: "rec_state r cl cur" and m: "rg_mode (re_config r) = NOP_RECORD_EVENT"
  shows "\<exists>cl' cur'. rec_state (record_event_trigger b r) cl' cur' \<and> re_config (record_event_trigger b r) = re_config r"
proof (cases "cur = None \<and> record_pre_has_keyframe_locked r")
  case False
  have "re_event_recording r = (cur \<noteq> None)" using R m by (simp add: rec_state_def)
  then show ?thesis
    using False R pre_ok_cong[of "r\<lparr>re_event_last_trigger_ms := re_last_frame_ms r, re_segment_event_mask := re_segment_event_mask r OR b\<rparr>" r]
      pre_ok_cong[of "r\<lparr>re_trigger_pending := True, re_pending_event_mask := re_pending_event_mask r OR b\<rparr>" r]
    by (intro exI[of _ cl] exI[of _ cur]) (auto simp: record_event_trigger_def rec_state_def anchored_def split: option.splits)
next
  case True
  have E: "eng r cl None" and nr: "\<not> re_event_recording r" using R m True by (simp_all add: rec_state_def)
  obtain r1 rc where o: "record_open_segment_locked r (record_pre_earliest_keyframe_locked r (re_last_frame_ms r)) = (r1, rc)"
    by fastforce
  show ?thesis
  proof (cases "rc = NOP_OK")
    case ok: True
    show ?thesis using trigger_preroll[OF _ m _ o[unfolded ok]] R True by blast
  next
    case False
    then have "record_event_trigger b r = r1" using nr True o by (simp add: record_event_trigger_def)
    then show ?thesis using eng_open_fails[OF E o False] open_other[OF E o] R True nr m by (auto simp: rec_state_def)
  qed
qed

section \<open>Histories\<close>

text \<open>What reaches an attached engine: frames of any channel from the media plane, detections from the hub.\<close>

datatype rec_input = Frame int hal_video_frame | Detection nop_event

fun rec_step :: "rec_input \<Rightarrow> nop_record \<Rightarrow> nop_record" where
  "rec_step (Frame channel f) r = record_media_sink channel f r"
| "rec_step (Detection e) r = record_event_sink e r"

lemma rec_state_upd:
  "rec_state (r\<lparr>re_last_frame_ms := t\<rparr>) cl cur = rec_state r cl cur"
  "rec_state (r\<lparr>re_segment_event_mask := k\<rparr>) cl cur = rec_state r cl cur"
  using pre_ok_cong[of "r\<lparr>re_last_frame_ms := t\<rparr>" r] pre_ok_cong[of "r\<lparr>re_segment_event_mask := k\<rparr>" r]
  by (cases cur; simp add: rec_state_def anchored_def)+

lemma rec_step_state:
  assumes R: "rec_state r cl cur"
  shows "\<exists>cl' cur'. rec_state (rec_step x r) cl' cur' \<and> re_config (rec_step x r) = re_config r"
proof (cases x)
  case (Frame channel f)
  let ?r = "r\<lparr>re_last_frame_ms := vf_timestamp_ms f\<rparr>"
  have R': "rec_state ?r cl cur" using R by (simp add: rec_state_upd)
  have "\<exists>cl' cur'. rec_state (record_on_frame_locked f r) cl' cur' \<and> re_config (record_on_frame_locked f r) = re_config r"
  proof (cases "rg_mode (re_config r)")
    case NOP_RECORD_OFF
    then show ?thesis using R' by (auto simp: record_on_frame_locked_def)
  next
    case NOP_RECORD_CONTINUOUS
    then show ?thesis using continuous_step[OF R' _ refl] by (fastforce simp: record_on_frame_locked_def)
  next
    case NOP_RECORD_EVENT
    then show ?thesis using event_frame_step[OF R'] by (fastforce simp: record_on_frame_locked_def)
  qed
  then show ?thesis using R Frame by (auto simp: record_media_sink_def)
next
  case (Detection e)
  show ?thesis
  proof (cases "rg_mode (re_config r)")
    case NOP_RECORD_EVENT
    then show ?thesis using trigger_step[OF R] R Detection by (auto simp: record_event_sink_def Let_def)
  qed (use R Detection in \<open>auto simp: record_event_sink_def Let_def rec_state_upd\<close>)
qed

lemma rec_run_state:
  "rec_state r cl cur \<Longrightarrow> \<exists>cl' cur'. rec_state (fold rec_step xs r) cl' cur' \<and> re_config (fold rec_step xs r) = re_config r"
proof (induction xs arbitrary: r cl cur)
  case (Cons x xs)
  obtain cl' cur' where S: "rec_state (rec_step x r) cl' cur'" "re_config (rec_step x r) = re_config r"
    using rec_step_state[OF Cons.prems] by blast
  show ?case using Cons.IH[OF S(1)] S(2) by simp
qed auto

lemma max_segments_pos: "0 < rg_max_segments (resolve_config c)"
  by (simp add: resolve_config_def)

lemma create_fields:
  assumes "nop_record_create video c = Some r"
  shows "re_config r = resolve_config c" "re_segments r = replicate (nat (rg_max_segments (resolve_config c))) zero_segment"
    "re_calls r = []" "re_video r = video" "re_segment_count r = 0" "re_segment_head r = 0" "re_segment_open r = False"
    "re_pre_count r = 0" "re_pre_head r = 0" "re_event_recording r = False"
proof -
  have ne: "rg_storage_dir c \<noteq> ''''" using assms by (auto simp: nop_record_create_def)
  have r: "r = the (nop_record_create video c)" using assms by simp
  show "re_config r = resolve_config c" "re_segments r = replicate (nat (rg_max_segments (resolve_config c))) zero_segment"
    "re_calls r = []" "re_video r = video" "re_segment_count r = 0" "re_segment_head r = 0" "re_segment_open r = False"
    "re_pre_count r = 0" "re_pre_head r = 0" "re_event_recording r = False"
    unfolding r nop_record_create_def Let_def using ne by simp_all
qed

lemma create_state:
  assumes "nop_record_create video c = Some r" "hooks video"
  shows "rec_state r [] None"
proof -
  note F = create_fields[OF assms(1)]
  have "eng r [] None" using F assms(2) max_segments_pos[of c] by (simp add: eng_def ring_ok_def)
  moreover have "pre_ok r" using F by (simp add: pre_ok_def pre_items_def ring_ok_def)
  ultimately show ?thesis using F by (simp add: rec_state_def)
qed

lemma eng_capacity: "re_segment_capacity (record_close_segment_locked r) = re_segment_capacity r"
  by (simp add: record_close_segment_locked_def record_index_add_locked_def re_call_def Let_def split: option.splits)

lemma capacity_step: "re_segment_capacity (rec_step x r) = re_segment_capacity r"
proof -
  have o: "re_segment_capacity (fst (record_open_segment_locked q t)) = re_segment_capacity q" for q t
    by (auto simp: record_open_segment_locked_def re_call_def Let_def split: option.splits)
  have w: "re_segment_capacity (record_write_frame_locked f q) = re_segment_capacity q" for f q
    by (auto simp: record_write_frame_locked_def re_call_def Let_def split: option.splits)
  have p: "re_segment_capacity (record_pre_push_locked f q) = re_segment_capacity q" for f q
    by (simp add: record_pre_push_locked_def)
  have fl: "re_segment_capacity (flush_loop ps st q) = re_segment_capacity q" for ps st q
    by (induction ps st q rule: flush_loop.induct) (auto simp: w split: option.splits)
  have f: "re_segment_capacity (record_pre_flush_locked q) = re_segment_capacity q" for q
    by (simp add: record_pre_flush_locked_def record_pre_clear_locked_def fl)
  show ?thesis
    by (cases x; simp add: record_media_sink_def record_on_frame_locked_def record_continuous_frame_def record_event_frame_def
        record_event_sink_def record_event_trigger_def Let_def case_prod_unfold o w p f eng_capacity split: nop_record_mode.splits)
qed

lemma capacity_run: "re_segment_capacity (fold rec_step xs r) = re_segment_capacity r"
  by (induction xs arbitrary: r) (simp_all add: capacity_step)

text \<open>The query walks the ring from its newest entry.\<close>

lemma segments_loop_eq:
  "segments_loop r limit is out = out @ take (nat limit - length out) (map (\<lambda>i. re_segments r !
     nat ((int (re_segment_head r) - 1 - int i + int (re_segment_capacity r)) mod int (re_segment_capacity r))) is)"
proof (induction "is" arbitrary: out)
  case (Cons i "is")
  show ?case
  proof (cases "int (length out) < limit")
    case True
    then have "nat limit - length out = Suc (nat limit - Suc (length out))" by simp
    then show ?thesis using True Cons.IH by simp
  qed simp
qed simp

lemma segments_query:
  assumes "eng r cl cur"
  shows "map segment_entry (nop_record_segments r limit) =
    take (nat limit) (rev (map clip_entry (drop (length cl - re_segment_capacity r) cl)))"
proof -
  let ?n = "re_segment_count r" and ?L = "re_segment_capacity r"
  let ?it = "ring_items (re_segments r) ?n (re_segment_head r)"
  have ok: "ring_ok (re_segments r) ?n (re_segment_head r)"
    and it: "map segment_entry ?it = map clip_entry (drop (length cl - ?L) cl)"
    using assms unfolding eng_def by auto
  have at: "re_segments r ! nat ((int (re_segment_head r) - 1 - int i + int ?L) mod int ?L) = ?it ! (?n - 1 - i)"
    if "i < ?n" for i
  proof -
    have "int (re_segment_head r) - 1 - int i + int ?L = int (re_segment_head r + ?L - 1 - i)"
      using that ok by (auto simp: ring_ok_def)
    then have "nat ((int (re_segment_head r) - 1 - int i + int ?L) mod int ?L) = (re_segment_head r + ?L - 1 - i) mod ?L"
      by (simp add: nat_mod_as_int)
    then show ?thesis using ring_newest[OF ok that] by simp
  qed
  have "map (\<lambda>i. re_segments r ! nat ((int (re_segment_head r) - 1 - int i + int ?L) mod int ?L)) [0..<?n] =
      map (\<lambda>i. ?it ! (?n - 1 - i)) [0..<?n]"
    by (rule map_cong[OF refl]) (rule at, simp)
  also have "\<dots> = rev ?it" by (rule nth_equalityI) (auto simp: rev_nth)
  finally have "map (\<lambda>i. re_segments r ! nat ((int (re_segment_head r) - 1 - int i + int ?L) mod int ?L)) [0..<?n] = rev ?it" .
  then have "nop_record_segments r limit = take (nat limit) (rev ?it)"
    by (simp add: nop_record_segments_def segments_loop_eq)
  then show ?thesis using it by (simp add: take_map[symmetric] rev_map[symmetric])
qed

section \<open>Continuous recording cuts the stream\<close>

definition taken :: "nop_record_config \<Rightarrow> rec_input list \<Rightarrow> hal_video_frame list" where
  "taken c xs = concat (map (\<lambda>x. case x of
     Frame channel f \<Rightarrow> if channel = rg_channel c \<and> vf_stream f = rg_stream c then [f] else [] | Detection e \<Rightarrow> []) xs)"

lemma taken_simps [simp]:
  "taken c [] = []"
  "taken c (xs @ [x]) = taken c xs @ (case x of
     Frame channel f \<Rightarrow> if channel = rg_channel c \<and> vf_stream f = rg_stream c then [f] else [] | Detection e \<Rightarrow> [])"
  by (simp_all add: taken_def)

definition clip_start :: "clip \<Rightarrow> u64" where
  "clip_start c = vf_timestamp_ms (hd (snd c))"

text \<open>The cuts come at the first keyframe that is \<open>S\<close> milliseconds into a file.\<close>

definition cut_at :: "u64 \<Rightarrow> clip list \<Rightarrow> bool" where
  "cut_at S cs \<longleftrightarrow>
     (\<forall>c \<in> set cs. snd c \<noteq> [] \<and> vf_is_keyframe (hd (snd c)) \<and>
        (\<forall>f \<in> set (tl (snd c)). vf_is_keyframe f \<longrightarrow> record_elapsed_ms (vf_timestamp_ms f) (clip_start c) < S)) \<and>
     (\<forall>i. Suc i < length cs \<longrightarrow> S \<le> record_elapsed_ms (clip_start (cs ! Suc i)) (clip_start (cs ! i)))"

lemma cut_at_start: "vf_is_keyframe f \<Longrightarrow> cut_at S [(p, [f])]"
  by (simp add: cut_at_def)

lemma cut_at_append:
  assumes "cut_at S (cs @ [(p, fs)])" "\<not> (vf_is_keyframe f \<and> S \<le> record_elapsed_ms (vf_timestamp_ms f) (vf_timestamp_ms (hd fs)))"
  shows "cut_at S (cs @ [(p, fs @ [f])])"
proof -
  have st: "clip_start ((cs @ [(p, fs @ [f])]) ! i) = clip_start ((cs @ [(p, fs)]) ! i)" if "i \<le> length cs" for i
    using assms(1) that by (auto simp: nth_append clip_start_def cut_at_def)
  have "fs \<noteq> []" using assms(1) by (simp add: cut_at_def)
  then show ?thesis using assms st by (auto simp: cut_at_def clip_start_def not_le)
qed

lemma cut_at_new:
  assumes "cut_at S (cs @ [(p, fs)])" "vf_is_keyframe f" "S \<le> record_elapsed_ms (vf_timestamp_ms f) (vf_timestamp_ms (hd fs))"
  shows "cut_at S (cs @ [(p, fs), (q, [f])])"
proof -
  have "S \<le> record_elapsed_ms (clip_start ((cs @ [(p, fs), (q, [f])]) ! Suc i)) (clip_start ((cs @ [(p, fs), (q, [f])]) ! i))"
    if "Suc i < length (cs @ [(p, fs), (q, [f])])" for i
  proof (cases "Suc i = Suc (length cs)")
    case True
    then show ?thesis using assms(3) by (simp add: nth_append clip_start_def)
  next
    case False
    then have i: "Suc i < length (cs @ [(p, fs)])" using that by simp
    then have "(cs @ [(p, fs), (q, [f])]) ! Suc i = (cs @ [(p, fs)]) ! Suc i" "(cs @ [(p, fs), (q, [f])]) ! i = (cs @ [(p, fs)]) ! i"
      by (auto simp: nth_append)
    then show ?thesis using assms(1) i by (simp add: cut_at_def)
  qed
  then show ?thesis using assms(1,2) by (auto simp: cut_at_def)
qed

definition cont_state :: "hal_video option \<Rightarrow> nop_record_config \<Rightarrow> hal_video_frame list \<Rightarrow> nop_record \<Rightarrow> bool" where
  "cont_state v c fs r \<longleftrightarrow> re_config r = c \<and> re_video r = v \<and>
     (\<exists>cl cur. rec_state r cl cur \<and> (cur = None \<longrightarrow> cl = [])) \<and>
     concat (map snd (clips (re_calls r))) = dropWhile (\<lambda>f. \<not> vf_is_keyframe f) fs \<and>
     cut_at (record_segment_ms r) (clips (re_calls r))"

lemma cont_frame:
  assumes C: "cont_state v c fs r" and o: "opens v c" and m: "rg_mode c = NOP_RECORD_CONTINUOUS"
  shows "cont_state v c (fs @ [f]) (record_on_frame_locked f r)"
proof -
  let ?q = "r\<lparr>re_last_frame_ms := vf_timestamp_ms f\<rparr>" and ?r' = "record_continuous_frame f (r\<lparr>re_last_frame_ms := vf_timestamp_ms f\<rparr>)"
  let ?S = "record_segment_ms r" and ?nk = "\<lambda>f. \<not> vf_is_keyframe f"
  have cfg: "re_config r = c" "re_video r = v" using C by (simp_all add: cont_state_def)
  obtain cl cur where R: "rec_state ?q cl cur" and n: "cur = None \<longrightarrow> cl = []"
    using C by (auto simp: cont_state_def rec_state_upd)
  have fr: "concat (map snd (clips (re_calls r))) = dropWhile ?nk fs" and cut: "cut_at ?S (clips (re_calls r))"
    using C by (simp_all add: cont_state_def)
  have r': "record_on_frame_locked f r = ?r'" using m cfg by (simp add: record_on_frame_locked_def)
  have op: "re_segment_open ?r' \<longleftrightarrow> re_segment_open ?q \<or> vf_is_keyframe f" and vd: "re_video ?r' = v"
    using continuous_step_opens[OF R, of f] m cfg o by auto
  obtain cl' cur' where S: "rec_state ?r' cl' cur'" and cf: "re_config ?r' = c"
    and ca: "case cur of
       None \<Rightarrow> cl' = cl \<and> (cur' = None \<or> vf_is_keyframe f \<and> cur' = Some [f])
     | Some fs \<Rightarrow> if rotate_due ?q f then cl' = cl @ [(re_segment_path ?q, fs)] \<and> (cur' = None \<or> cur' = Some [f])
         else cl' = cl \<and> cur' = Some (fs @ [f])"
    using continuous_step[OF R _ refl, of f] m cfg by auto
  have cs: "clips (re_calls r) = cl @ (case cur of None \<Rightarrow> [] | Some fs \<Rightarrow> [(re_segment_path r, fs)])"
    and cs': "clips (re_calls ?r') = cl' @ (case cur' of None \<Rightarrow> [] | Some fs \<Rightarrow> [(re_segment_path ?r', fs)])"
    using R S by (cases cur; simp add: rec_state_def eng_def) (use S in \<open>simp add: rec_state_def eng_def\<close>)+
  have ms: "record_segment_ms ?r' = ?S" using cf cfg by (simp add: record_segment_ms_def)
  have open_iff: "(cur' \<noteq> None) \<longleftrightarrow> cur \<noteq> None \<or> vf_is_keyframe f"
    using op rec_state_cur[OF R] rec_state_cur[OF S] by simp
  have "(cur' = None \<longrightarrow> cl' = []) \<and> concat (map snd (clips (re_calls ?r'))) = dropWhile ?nk (fs @ [f]) \<and>
      cut_at ?S (clips (re_calls ?r'))"
  proof (cases cur)
    case None
    then have e: "clips (re_calls r) = []" "\<forall>g \<in> set fs. ?nk g" using cs n fr by (auto simp: dropWhile_eq_Nil_conv[symmetric])
    show ?thesis using None n ca e open_iff cs' cut by (auto simp: dropWhile_append cut_at_start cut_at_def)
  next
    case (Some gs)
    have A: "gs \<noteq> []" "re_segment_start_ms r = vf_timestamp_ms (hd gs)" using R Some by (auto simp: rec_state_def anchored_def)
    have k: "\<not> (\<forall>g \<in> set fs. ?nk g)"
    proof
      assume "\<forall>g \<in> set fs. ?nk g"
      then have "dropWhile ?nk fs = []" by (simp add: dropWhile_eq_Nil_conv)
      then show False using fr cs Some A by (simp del: dropWhile_eq_Nil_conv)
    qed
    have d: "dropWhile ?nk (fs @ [f]) = dropWhile ?nk fs @ [f]" using k by (auto simp: dropWhile_append)
    have rd: "rotate_due ?q f \<longleftrightarrow> vf_is_keyframe f \<and> ?S \<le> record_elapsed_ms (vf_timestamp_ms f) (vf_timestamp_ms (hd gs))"
      using A by (simp add: rotate_due_def record_segment_ms_def)
    have cut2: "cut_at ?S (cl @ [(re_segment_path r, gs)])" using cut cs Some by simp
    show ?thesis
    proof (cases "rotate_due ?q f")
      case True
      then have "cl' = cl @ [(re_segment_path r, gs)]" "cur' = Some [f]" using ca Some open_iff by auto
      then show ?thesis using cut_at_new[OF cut2] True rd cs' cs fr d Some by simp
    next
      case False
      have "re_segment_path ?r' = re_segment_path r"
        using False Some rec_state_cur[OF R] write_other(4)[of ?q cl gs f] R
        by (auto simp: record_continuous_frame_def rotate_due_def Let_def rec_state_def)
      then show ?thesis using cut_at_append[OF cut2] False rd cs' cs fr d Some ca by auto
    qed
  qed
  then show ?thesis unfolding r' cont_state_def using S cf vd ms by auto
qed

lemma cont_step:
  assumes C: "cont_state v c fs r" and o: "opens v c" and m: "rg_mode c = NOP_RECORD_CONTINUOUS"
  shows "cont_state v c (fs @ taken c [x]) (rec_step x r)"
proof (cases x)
  case (Frame channel f)
  then show ?thesis using cont_frame[OF assms] C by (auto simp: record_media_sink_def taken_def cont_state_def)
next
  case (Detection e)
  have "cont_state v c fs (r\<lparr>re_segment_event_mask := k\<rparr>)" for k
  proof -
    have "record_segment_ms (r\<lparr>re_segment_event_mask := k\<rparr>) = record_segment_ms r" by (simp add: record_segment_ms_def)
    then show ?thesis using C by (simp add: cont_state_def rec_state_upd)
  qed
  then show ?thesis using C Detection m by (auto simp: record_event_sink_def taken_def cont_state_def Let_def)
qed

lemma cont_run:
  assumes "cont_state v c [] r" "opens v c" "rg_mode c = NOP_RECORD_CONTINUOUS"
  shows "cont_state v c (taken c xs) (fold rec_step xs r)"
proof (induction xs rule: rev_induct)
  case (snoc x xs)
  then show ?case using cont_step[OF snoc.IH assms(2,3), of x] by (simp add: taken_def)
qed (use assms in simp)

section \<open>Names that fit\<close>

lemma path_fits:
  assumes "length (rg_storage_dir c) + length (show_int (rg_channel c)) + length (show_int (rg_stream c)) \<le> 225"
  shows "length (segment_path_of c t) < 256"
proof -
  have "unat t < 10 ^ 20" using unat_64_lt[of t] by simp
  then have "length (show_nat (unat t)) \<le> 20" by (rule length_show_nat[rotated]) simp
  then show ?thesis using assms by (simp add: segment_path_of_def)
qed

lemma resolve_fields:
  "rg_mode (resolve_config c) = rg_mode c" "rg_channel (resolve_config c) = rg_channel c"
  "rg_stream (resolve_config c) = rg_stream c" "rg_storage_dir (resolve_config c) = rg_storage_dir c"
  by (simp_all add: resolve_config_def)

section \<open>Properties\<close>

text \<open>C31: The files of a recording. After any history of frames and detections, in any mode and whatever the muxer
  refuses to open, every file that was opened holds frames and starts with a keyframe; the closed files beyond
  the capacity of the index were removed, oldest first, and no other; and a query lists the remaining ones, newest first, each with its name, the time of its first frame and the greatest time of its
  frames.\<close>

theorem recorded_files:
  assumes "nop_record_create video c = Some r0" "hooks video" "r = fold rec_step xs r0"
    "cs = clips (re_calls r)" "old = (if re_segment_open r then butlast cs else cs)"
    "cap = nat (rg_max_segments (re_config r0))"
  shows "(\<forall>(p, fs) \<in> set cs. fs \<noteq> [] \<and> vf_is_keyframe (hd fs)) \<and>
    removed_files (re_calls r) = map fst (take (length old - cap) old) \<and>
    map segment_entry (nop_record_segments r limit) =
      take (nat limit) (rev (map (\<lambda>(p, fs). (p, vf_timestamp_ms (hd fs), Max (set (map vf_timestamp_ms fs)))) (drop (length old - cap) old)))"
proof -
  note F = create_fields[OF assms(1)]
  obtain cl cur where S: "rec_state r cl cur" using rec_run_state[OF create_state[OF assms(1,2)], of xs] assms(3) by blast
  have E: "eng r cl cur" using S by (simp add: rec_state_def)
  have cs: "cs = cl @ (case cur of None \<Rightarrow> [] | Some fs \<Rightarrow> [(re_segment_path r, fs)])"
    using E unfolding assms(4) by (simp add: eng_def)
  have cl: "old = cl" unfolding assms(5) cs using rec_state_cur[OF S] by (cases cur) auto
  have cap: "re_segment_capacity r = cap" unfolding assms(3,6) capacity_run using F by simp
  have "\<forall>(p, fs) \<in> set cs. fs \<noteq> [] \<and> vf_is_keyframe (hd fs)"
    using S unfolding cs by (auto simp: rec_state_def list_all_iff clip_good_def anchored_def split: option.splits)
  moreover have "removed_files (re_calls r) = map fst (take (length old - cap) old)"
    using E unfolding cl cap[symmetric] by (simp add: eng_def)
  moreover have "(\<lambda>(p, fs). (p, vf_timestamp_ms (hd fs), Max (set (map vf_timestamp_ms fs)))) = clip_entry"
    by (auto simp: clip_entry_def)
  ultimately show ?thesis using segments_query[OF E, of limit] unfolding cl cap by simp
qed

definition demo_hal :: hal_video where
  "demo_hal = \<lparr>hv_mux_open = Some (\<lambda>calls path. True), hv_mux_write = True, hv_mux_close = True\<rparr>"

definition demo_record_config :: "nop_record_mode \<Rightarrow> nop_record_config" where
  "demo_record_config m = \<lparr>rg_storage_dir = ''/mnt/sd'', rg_channel = 0, rg_stream = 0, rg_mode = m, rg_segment_seconds = 60,
     rg_max_segments = 2, rg_pre_record_seconds = 1, rg_post_record_seconds = 10, rg_event_max_seconds = 600\<rparr>"

definition demo_vf :: "bool \<Rightarrow> u64 \<Rightarrow> hal_video_frame" where
  "demo_vf k t = \<lparr>vf_stream = 0, vf_codec = HAL_VIDEO_CODEC_H265, vf_is_keyframe = k, vf_timestamp_ms = t, vf_data = [1, 2]\<rparr>"

lemma demo_hal_hooks: "hooks (Some demo_hal)"
  by (simp add: hooks_def demo_hal_def)

lemma demo_created: "nop_record_create (Some demo_hal) (demo_record_config m) = Some (the (nop_record_create (Some demo_hal) (demo_record_config m)))"
  by (simp add: nop_record_create_def Let_def demo_record_config_def)

lemma recorded_files_witness:
  "list_all (\<lambda>(p, fs). fs \<noteq> [] \<and> vf_is_keyframe (hd fs))
     (clips (re_calls (fold rec_step [Frame 0 (demo_vf True 5), Frame 0 (demo_vf False 9)]
       (the (nop_record_create (Some demo_hal) (demo_record_config NOP_RECORD_CONTINUOUS))))))"
  unfolding list_all_iff using recorded_files[OF demo_created demo_hal_hooks refl refl refl refl] by blast

text \<open>C33: Continuous recording loses nothing and cuts at keyframes. With a muxer that opens every file, the files of a
  continuous recording, put together, are the frames of its channel and stream from the first keyframe on, whatever else
  arrives in between; each file starts with a keyframe, the next one starts with a keyframe at least the segment duration
  after it, and no keyframe inside a file is that late.\<close>

theorem continuous_cut:
  assumes "nop_record_create (Some v) c = Some r0" "hv_mux_open v = Some (\<lambda>calls path. True)" "hv_mux_write v" "hv_mux_close v"
    "rg_mode c = NOP_RECORD_CONTINUOUS"
    "length (rg_storage_dir c) + length (show_int (rg_channel c)) + length (show_int (rg_stream c)) \<le> 225"
    "cs = clips (re_calls (fold rec_step xs r0))" "S = record_segment_ms r0"
  shows "concat (map snd cs) = dropWhile (\<lambda>f. \<not> vf_is_keyframe f) (taken c xs) \<and>
    (\<forall>c \<in> set cs. snd c \<noteq> [] \<and> vf_is_keyframe (hd (snd c)) \<and>
       (\<forall>f \<in> set (tl (snd c)). vf_is_keyframe f \<longrightarrow> record_elapsed_ms (vf_timestamp_ms f) (clip_start c) < S)) \<and>
    (\<forall>i. Suc i < length cs \<longrightarrow> S \<le> record_elapsed_ms (clip_start (cs ! Suc i)) (clip_start (cs ! i)))"
proof -
  let ?c = "resolve_config c"
  note F = create_fields[OF assms(1)]
  have "hooks (Some v)" using assms(2-4) by (simp add: hooks_def)
  note R = create_state[OF assms(1) this]
  have "opens (Some v) ?c" using assms(2,6) path_fits[of ?c] by (simp add: opens_def resolve_fields)
  moreover have "cont_state (Some v) ?c [] r0" using R F by (auto simp: cont_state_def cut_at_def)
  ultimately have C: "cont_state (Some v) ?c (taken ?c xs) (fold rec_step xs r0)"
    using cont_run assms(5) by (simp add: resolve_fields)
  have "taken ?c xs = taken c xs" unfolding taken_def resolve_fields by (rule refl)
  moreover have "record_segment_ms (fold rec_step xs r0) = S" using C F assms(8) by (simp add: cont_state_def record_segment_ms_def)
  ultimately show ?thesis using C unfolding assms(7) by (simp add: cont_state_def cut_at_def)
qed

lemma continuous_cut_witness:
  "concat (map snd (clips (re_calls (fold rec_step [Frame 0 (demo_vf False 1), Frame 0 (demo_vf True 5), Frame 0 (demo_vf False 9)]
      (the (nop_record_create (Some demo_hal) (demo_record_config NOP_RECORD_CONTINUOUS))))))) = [demo_vf True 5, demo_vf False 9]"
proof -
  have "length (rg_storage_dir (demo_record_config m)) + length (show_int (rg_channel (demo_record_config m))) +
      length (show_int (rg_stream (demo_record_config m))) \<le> 225" for m
    by (simp add: demo_record_config_def show_int_def show_nat.simps[of 0])
  then show ?thesis
    using continuous_cut[OF demo_created[of NOP_RECORD_CONTINUOUS] _ _ _ _ _ refl refl,
        where xs = "[Frame 0 (demo_vf False 1), Frame 0 (demo_vf True 5), Frame 0 (demo_vf False 9)]"]
    by (simp add: demo_hal_def taken_def demo_record_config_def demo_vf_def)
qed

text \<open>The pre-roll of a detection forgets the codec: a buffered frame of an H.265 camera is written as H.264.\<close>

lemma preroll_forgets_codec: "f \<in> set (preroll r) \<Longrightarrow> vf_codec f = HAL_VIDEO_CODEC_H264"
  by (auto simp: preroll_def flushed_def)

end
