(* ===== verification/Ts_Mux.thy ===== *)
theory Ts_Mux
  imports Prelude
begin

text \<open>
  components/cloud_uploader/src/ts_mux.c: the MPEG-2 transport stream packer of the cloud uploader. The growing
  buffer is a byte list (\<open>put\<close> appends, memory never runs out). The two parts that \<open>emit_pes\<close> copies from, the PES header and the
  elementary stream data, are one list that the loop consumes. A reference demultiplexer, written from the packet layout
  of ISO 13818-1, states what the packets mean.
\<close>

definition TS_PKT :: nat where "TS_PKT = 188"
definition PID_PMT :: u16 where "PID_PMT = 0x1000"
definition PID_VIDEO :: u16 where "PID_VIDEO = 0x100"
definition PID_AUDIO :: u16 where "PID_AUDIO = 0x101"
definition STREAM_VIDEO :: u8 where "STREAM_VIDEO = 0xE0"
definition STREAM_AUDIO :: u8 where "STREAM_AUDIO = 0xC0"

record ts_mux =
  tm_buf :: bytes
  tm_h265 :: bool
  tm_wrote_psi :: bool
  tm_cc_pat :: u8
  tm_cc_pmt :: u8
  tm_cc_v :: u8
  tm_cc_a :: u8

definition ts_mux_new :: "bool \<Rightarrow> ts_mux" where
  "ts_mux_new h265 =
     \<lparr>tm_buf = [], tm_h265 = h265, tm_wrote_psi = False, tm_cc_pat = 0, tm_cc_pmt = 0, tm_cc_v = 0, tm_cc_a = 0\<rparr>"

definition put :: "ts_mux \<Rightarrow> bytes \<Rightarrow> ts_mux" where
  "put m p = m\<lparr>tm_buf := tm_buf m @ p\<rparr>"

section \<open>Program tables\<close>

fun crc_bits :: "nat \<Rightarrow> u32 \<Rightarrow> u32" where
  "crc_bits 0 c = c"
| "crc_bits (Suc b) c = crc_bits b (if c AND 0x80000000 \<noteq> 0 then push_bit 1 c XOR 0x04C11DB7 else push_bit 1 c)"

definition crc32_mpeg :: "bytes \<Rightarrow> u32" where
  "crc32_mpeg d = fold (\<lambda>x c. crc_bits 8 (c XOR push_bit 24 (ucast x))) d 0xFFFFFFFF"

text \<open>The bytes written over a packet of 188 bytes preset to 0xFF.\<close>

definition ts_fill :: "bytes \<Rightarrow> bytes" where
  "ts_fill xs = xs @ replicate (TS_PKT - length xs) 0xFF"

definition next_cc :: "u8 \<Rightarrow> u8" where
  "next_cc cc = (cc + 1) AND 0x0F"

definition psi_packet :: "u16 \<Rightarrow> u8 \<Rightarrow> bytes \<Rightarrow> bytes" where
  "psi_packet pid cc sec =
     ts_fill ([0x47, 0x40 OR (ucast (drop_bit 8 pid) AND 0x1F), ucast pid, 0x10 OR (cc AND 0x0F), 0x00] @ sec)"

definition with_crc :: "bytes \<Rightarrow> bytes" where
  "with_crc s = s @ be32 (crc32_mpeg s)"

definition pat_section :: bytes where
  "pat_section = with_crc [0x00, 0xB0, 0x0D, 0x00, 0x01, 0xC1, 0x00, 0x00, 0x00, 0x01,
     0xE0 OR (ucast (drop_bit 8 PID_PMT) AND 0x1F), ucast PID_PMT]"

definition emit_pat :: "ts_mux \<Rightarrow> ts_mux" where
  "emit_pat m = put (m\<lparr>tm_cc_pat := next_cc (tm_cc_pat m)\<rparr>) (psi_packet 0 (tm_cc_pat m) pat_section)"

definition pmt_section :: "bool \<Rightarrow> bytes" where
  "pmt_section h265 =
     (let pid = (\<lambda>p. [0xE0 OR (ucast (drop_bit 8 p) AND 0x1F), ucast p]);
          body = [0x00, 0x01, 0xC1, 0x00, 0x00] @ pid PID_VIDEO @ [0xF0, 0x00, if h265 then 0x24 else 0x1B] @ pid PID_VIDEO @
            [0xF0, 0x00, 0x0F] @ pid PID_AUDIO @ [0xF0, 0x00];
          seclen = length body + 4
      in with_crc ([0x02, 0xB0 OR (of_nat (seclen div 256) AND 0x0F), of_nat (seclen mod 256)] @ body))"

definition emit_pmt :: "ts_mux \<Rightarrow> ts_mux" where
  "emit_pmt m = put (m\<lparr>tm_cc_pmt := next_cc (tm_cc_pmt m)\<rparr>) (psi_packet PID_PMT (tm_cc_pmt m) (pmt_section (tm_h265 m)))"

definition ensure_psi :: "ts_mux \<Rightarrow> ts_mux" where
  "ensure_psi m = (if \<not> tm_wrote_psi m then (emit_pmt (emit_pat m))\<lparr>tm_wrote_psi := True\<rparr> else m)"

section \<open>PES packets\<close>

definition pes_header :: "u8 \<Rightarrow> nat \<Rightarrow> u64 \<Rightarrow> bytes" where
  "pes_header sid eslen p =
     (let pkt_len = (if sid = STREAM_VIDEO then 0 else eslen + 3 + 5)
      in [0x00, 0x00, 0x01, sid, of_nat (pkt_len div 256), of_nat pkt_len, 0x80, 0x80, 0x05,
          0x21 OR (ucast (drop_bit 29 p) AND 0x0E), ucast (drop_bit 22 p), 0x01 OR (ucast (drop_bit 14 p) AND 0xFE),
          ucast (drop_bit 7 p), 0x01 OR (ucast (push_bit 1 p) AND 0xFE)])"

text \<open>The adaptation field of a key frame's first packet (length, flags, PCR), and the one that stuffs a short packet.\<close>

definition pcr_field :: "u64 \<Rightarrow> bytes" where
  "pcr_field pcr = [7, 0x40 OR 0x10, ucast (drop_bit 25 pcr), ucast (drop_bit 17 pcr), ucast (drop_bit 9 pcr),
     ucast (drop_bit 1 pcr), push_bit 7 (ucast (pcr AND 1)) OR 0x7E, 0x00]"

definition stuffing :: "nat \<Rightarrow> bytes" where
  "stuffing stuff = of_nat (stuff - 1) # (if 2 \<le> stuff then 0x00 # replicate (stuff - 2) 0xFF else [])"

text \<open>One packet of the loop: its bytes, and how many bytes of \<open>rest\<close> it carries.\<close>

definition pes_packet :: "u16 \<Rightarrow> u8 \<Rightarrow> u8 \<Rightarrow> u64 \<Rightarrow> bool \<Rightarrow> bool \<Rightarrow> bytes \<Rightarrow> bytes \<times> nat" where
  "pes_packet pid cc sid pts90k rai first rest =
     (let head = [0x47, (if first then 0x40 else 0x00) OR (ucast (drop_bit 8 pid) AND 0x1F), ucast pid];
          adapt = (first \<and> rai \<and> sid = STREAM_VIDEO);
          space = (if adapt then TS_PKT - 12 else TS_PKT - 4);
          remain = length rest
      in if adapt
         then (ts_fill (head @ [0x30 OR (cc AND 0x0F)] @ pcr_field pts90k @ take space rest), min space remain)
         else if remain < space
         then (ts_fill (head @ [0x30 OR (cc AND 0x0F)] @ stuffing (space - remain) @ rest), remain)
         else (ts_fill (head @ [0x10 OR (cc AND 0x0F)] @ take space rest), space))"

function pes_loop :: "u16 \<Rightarrow> u8 \<Rightarrow> u8 \<Rightarrow> u64 \<Rightarrow> bool \<Rightarrow> bool \<Rightarrow> bytes \<Rightarrow> bytes list \<times> u8" where
  "pes_loop pid cc sid pts90k rai first rest =
     (if rest = [] then ([], cc)
      else case pes_packet pid cc sid pts90k rai first rest of (pkt, n) \<Rightarrow>
        case pes_loop pid (next_cc cc) sid pts90k rai False (drop n rest) of (pkts, cc) \<Rightarrow> (pkt # pkts, cc))"
  by pat_completeness auto

termination
by (relation "measure (\<lambda>(pid, cc, sid, pts, rai, first, rest). length rest)")
  (auto simp: pes_packet_def Let_def TS_PKT_def split: if_splits)

declare pes_loop.simps [simp del]

definition emit_pes_video :: "ts_mux \<Rightarrow> bytes \<Rightarrow> u64 \<Rightarrow> bool \<Rightarrow> ts_mux" where
  "emit_pes_video m es pts90k rai =
     (case pes_loop PID_VIDEO (tm_cc_v m) STREAM_VIDEO pts90k rai True (pes_header STREAM_VIDEO (length es) pts90k @ es) of
        (pkts, cc) \<Rightarrow> put (m\<lparr>tm_cc_v := cc\<rparr>) (concat pkts))"

definition emit_pes_audio :: "ts_mux \<Rightarrow> bytes \<Rightarrow> u64 \<Rightarrow> ts_mux" where
  "emit_pes_audio m es pts90k =
     (case pes_loop PID_AUDIO (tm_cc_a m) STREAM_AUDIO pts90k False True (pes_header STREAM_AUDIO (length es) pts90k @ es) of
        (pkts, cc) \<Rightarrow> put (m\<lparr>tm_cc_a := cc\<rparr>) (concat pkts))"

definition ts_mux_write_video :: "ts_mux \<Rightarrow> bytes \<Rightarrow> u64 \<Rightarrow> bool \<Rightarrow> ts_mux \<times> int" where
  "ts_mux_write_video m annexb pts90k is_key =
     (if annexb = [] then (m, -1) else (emit_pes_video (ensure_psi m) annexb pts90k is_key, 0))"

definition ts_mux_write_audio :: "ts_mux \<Rightarrow> bytes \<Rightarrow> u64 \<Rightarrow> ts_mux \<times> int" where
  "ts_mux_write_audio m adts pts90k = (if adts = [] then (m, -1) else (emit_pes_audio (ensure_psi m) adts pts90k, 0))"

definition ts_mux_data :: "ts_mux \<Rightarrow> bytes" where "ts_mux_data m = tm_buf m"

definition ts_mux_reset :: "ts_mux \<Rightarrow> ts_mux" where
  "ts_mux_reset m = m\<lparr>tm_buf := [], tm_wrote_psi := False\<rparr>"

section \<open>The reference demultiplexer\<close>

function ts_packets :: "bytes \<Rightarrow> bytes list" where
  "ts_packets buf = (if length buf < TS_PKT then [] else take TS_PKT buf # ts_packets (drop TS_PKT buf))"
  by pat_completeness auto
termination by (relation "measure length") (auto simp: TS_PKT_def)

declare ts_packets.simps [simp del]

definition ts_pid :: "bytes \<Rightarrow> u16" where
  "ts_pid pkt = push_bit 8 (ucast (pkt ! 1 AND 0x1F)) OR ucast (pkt ! 2)"

definition ts_cc :: "bytes \<Rightarrow> u8" where "ts_cc pkt = pkt ! 3 AND 0x0F"

definition ts_start :: "bytes \<Rightarrow> bool" where "ts_start pkt \<longleftrightarrow> pkt ! 1 AND 0x40 \<noteq> 0"

definition ts_payload :: "bytes \<Rightarrow> bytes" where
  "ts_payload pkt = (if pkt ! 3 AND 0x20 \<noteq> 0 then drop (5 + unat (pkt ! 4)) pkt else drop 4 pkt)"

definition pes_pts :: "bytes \<Rightarrow> u64" where
  "pes_pts h = push_bit 30 (drop_bit 1 (ucast (h ! 9 AND 0x0E))) OR push_bit 22 (ucast (h ! 10)) OR
     push_bit 15 (drop_bit 1 (ucast (h ! 11))) OR push_bit 7 (ucast (h ! 12)) OR drop_bit 1 (ucast (h ! 13))"

lemma ts_packets_concat:
  "\<forall>p \<in> set ps. length p = TS_PKT \<Longrightarrow> ts_packets (concat ps) = ps"
proof (induction ps)
  case Nil
  show ?case by (simp add: ts_packets.simps TS_PKT_def)
next
  case (Cons p ps)
  then show ?case by (subst ts_packets.simps) simp
qed

lemma length_pes_header [simp]: "length (pes_header sid n p) = 14"
  by (simp add: pes_header_def Let_def)

lemma length_stuffing [simp]: "0 < n \<Longrightarrow> length (stuffing n) = n"
  by (auto simp: stuffing_def)

lemma cc_bits [simp]:
  "(0x30 OR (c AND 0x0F)) AND 0x20 = (0x20 :: u8)" "(0x10 OR (c AND 0x0F)) AND 0x20 = (0 :: u8)"
  "(0x30 OR (c AND 0x0F)) AND 0x0F = c AND (0x0F :: u8)" "(0x10 OR (c AND 0x0F)) AND 0x0F = c AND (0x0F :: u8)"
  by (simp_all add: bit.conj_disj_distrib2 and.assoc)

lemma bit_u8_masks:
  "bit (0xFE :: u8) k \<longleftrightarrow> 1 \<le> k \<and> k < 8" "bit (0x0E :: u8) k \<longleftrightarrow> 1 \<le> k \<and> k < 4" "bit (0x21 :: u8) k \<longleftrightarrow> k = 0 \<or> k = 5"
proof -
  have "(0xFE :: u8) = push_bit 1 (mask 7)" "(0x0E :: u8) = push_bit 1 (mask 3)" "(0x21 :: u8) = push_bit 5 1 OR 1"
    by (simp_all add: mask_eq_exp_minus_1 push_bit_eq_mult)
  then show "bit (0xFE :: u8) k \<longleftrightarrow> 1 \<le> k \<and> k < 8" "bit (0x0E :: u8) k \<longleftrightarrow> 1 \<le> k \<and> k < 4"
    "bit (0x21 :: u8) k \<longleftrightarrow> k = 0 \<or> k = 5"
    by (simp_all only: bit_push_bit_iff bit_mask_iff bit_or_iff bit_1_iff) (simp_all, arith+)
qed

lemma bit_u8_1: "bit (1 :: u8) k \<longleftrightarrow> k = 0"
  by (simp add: bit_1_iff)

lemma bit_mask_values:
  "bit (7 :: int) k \<longleftrightarrow> k < 3" "bit (127 :: int) k \<longleftrightarrow> k < 7" "bit (16 :: int) k \<longleftrightarrow> k = 4"
proof -
  have "(7 :: int) = mask 3" "(127 :: int) = mask 7" "(16 :: int) = push_bit 4 1" by (simp_all add: mask_eq_exp_minus_1 push_bit_eq_mult)
  then show "bit (7 :: int) k \<longleftrightarrow> k < 3" "bit (127 :: int) k \<longleftrightarrow> k < 7" "bit (16 :: int) k \<longleftrightarrow> k = 4"
    by (simp_all only: bit_mask_iff bit_push_bit_iff bit_1_iff) auto
qed

lemma pts_roundtrip: "pes_pts (pes_header sid n p) = take_bit 33 p"
proof (rule bit_word_eqI)
  fix i assume i: "i < LENGTH(64)"
  consider "i < 7" | "7 \<le> i" "i < 15" | "15 \<le> i" "i < 22" | "22 \<le> i" "i < 30" | "30 \<le> i" "i < 33" | "33 \<le> i" by linarith
  then show "bit (pes_pts (pes_header sid n p)) i = bit (take_bit 33 p) i"
    using i unfolding pes_pts_def pes_header_def Let_def
    by cases (simp_all add: bit_simps bit_u8_masks bit_u8_1 bit_mask_values del: push_bit_Suc push_bit_of_1 cong: conj_cong, auto)
qed

section \<open>What the packets mean\<close>

text \<open>The packets that \<open>pid\<close> would get: whole, with the sync byte, on that PID.\<close>

definition on_pid :: "u16 \<Rightarrow> bytes \<Rightarrow> bool" where
  "on_pid pid p \<longleftrightarrow> length p = TS_PKT \<and> p ! 0 = 0x47 \<and> ts_pid p = pid"

definition ccs :: "u8 \<Rightarrow> nat \<Rightarrow> u8 list" where
  "ccs c n = map (\<lambda>i. (next_cc ^^ i) c AND 0x0F) [0..<n]"

lemma ccs_0 [simp]: "ccs c 0 = []"
  by (simp add: ccs_def)

lemma length_ccs [simp]: "length (ccs c n) = n"
  by (simp add: ccs_def)

lemma cc_comp: "(next_cc ^^ a) ((next_cc ^^ b) c) = (next_cc ^^ (b + a)) c"
  by (simp add: funpow_add add.commute[of b])

lemma ccs_Suc: "ccs c (Suc n) = (c AND 0x0F) # ccs (next_cc c) n"
  by (simp add: ccs_def upt_conv_Cons funpow_swap1 comp_def flip: map_Suc_upt del: upt_Suc)

lemma ccs_add: "ccs c (m + n) = ccs c m @ ccs ((next_cc ^^ m) c) n"
  by (induction m arbitrary: c) (simp_all add: ccs_Suc funpow_swap1)

lemma fill_length: "length xs \<le> TS_PKT \<Longrightarrow> length (ts_fill xs) = TS_PKT"
  by (simp add: ts_fill_def)

lemma pid_bytes:
  "pid \<in> {PID_VIDEO, PID_AUDIO, PID_PMT, 0} \<Longrightarrow> b \<in> {0x40, 0} \<Longrightarrow>
     push_bit 8 (ucast ((b OR (ucast (drop_bit 8 pid) AND 0x1F)) AND (0x1F :: u8))) OR ucast (ucast pid :: u8) = (pid :: u16) \<and>
     (b OR (ucast (drop_bit 8 pid) AND 0x1F)) AND 0x40 = (b :: u8)"
  by (auto simp: PID_VIDEO_def PID_AUDIO_def PID_PMT_def)

lemma head_decodes:
  assumes "pid \<in> {PID_VIDEO, PID_AUDIO, PID_PMT, 0}" "length xs \<le> 184"
  shows "on_pid pid (ts_fill ([0x47, (if f then 0x40 else 0x00) OR (ucast (drop_bit 8 pid) AND 0x1F), ucast pid, x] @ xs))"
    "ts_start (ts_fill ([0x47, (if f then 0x40 else 0x00) OR (ucast (drop_bit 8 pid) AND 0x1F), ucast pid, x] @ xs)) = f"
  using pid_bytes[OF assms(1), of "if f then 0x40 else 0x00"] assms(2)
  by (simp_all add: on_pid_def fill_length TS_PKT_def) (auto simp: ts_fill_def ts_pid_def ts_start_def)

lemma cc_decodes: "ts_cc (ts_fill ([a, b, c, x] @ xs)) = x AND 0x0F"
  by (simp add: ts_fill_def ts_cc_def)

text \<open>The payload of a packet is what it carries of the PES packet, unless it is the first of a key frame too
  short to fill it.\<close>

lemma pes_packet_spec:
  assumes "pes_packet pid cc sid pts rai first rest = (pkt, n)" "pid \<in> {PID_VIDEO, PID_AUDIO, PID_PMT, 0}" "rest \<noteq> []"
    "first \<and> rai \<and> sid = STREAM_VIDEO \<longrightarrow> 176 \<le> length rest"
  shows "on_pid pid pkt \<and> ts_start pkt = first \<and> ts_cc pkt = cc AND 0x0F \<and> ts_payload pkt = take n rest \<and> 0 < n"
proof -
  let ?h = "[0x47, (if first then 0x40 else 0x00) OR (ucast (drop_bit 8 pid) AND 0x1F), ucast pid] :: bytes"
  consider (key) "first \<and> rai \<and> sid = STREAM_VIDEO" | (short) "\<not> (first \<and> rai \<and> sid = STREAM_VIDEO)" "length rest < 184"
    | (full) "\<not> (first \<and> rai \<and> sid = STREAM_VIDEO)" "184 \<le> length rest" by linarith
  then show ?thesis
  proof cases
    case key
    then have p: "pkt = ts_fill (?h @ [0x30 OR (cc AND 0x0F)] @ pcr_field pts @ take 176 rest)" "n = 176"
      using assms(1,4) by (auto simp: pes_packet_def Let_def TS_PKT_def)
    have "ts_payload pkt = take 176 rest" using key assms(4) by (simp add: p ts_payload_def ts_fill_def TS_PKT_def pcr_field_def)
    then show ?thesis using head_decodes[OF assms(2), where xs = "pcr_field pts @ take 176 rest" and f = first and x = "0x30 OR (cc AND 0x0F)"] p
      by (simp add: pcr_field_def cc_decodes[simplified])
  next
    case short
    then have p: "pkt = ts_fill (?h @ [0x30 OR (cc AND 0x0F)] @ stuffing (184 - length rest) @ rest)" "n = length rest"
      using assms(1) by (auto simp: pes_packet_def Let_def TS_PKT_def)
    let ?s = "184 - length rest"
    have "unat (of_nat (?s - 1) :: u8) = ?s - 1" by (rule unat_of_nat_small) simp
    moreover have X: "pkt = (?h @ [0x30 OR (cc AND 0x0F)] @ stuffing ?s) @ rest" "length (?h @ [0x30 OR (cc AND 0x0F)] @ stuffing ?s) = 4 + ?s"
      using short by (simp_all add: p ts_fill_def TS_PKT_def)
    moreover have "pkt ! 4 = of_nat (?s - 1)" "pkt ! 3 AND 0x20 \<noteq> 0" by (simp_all add: X(1) stuffing_def)
    moreover have "5 + (?s - 1) = 4 + ?s" using short by simp
    ultimately have "ts_payload pkt = rest" unfolding ts_payload_def by (metis append_eq_conv_conj)
    then show ?thesis using head_decodes[OF assms(2), where xs = "stuffing ?s @ rest" and f = first and x = "0x30 OR (cc AND 0x0F)"] p short assms(3)
      by (simp add: cc_decodes[simplified])
  next
    case full
    then have p: "pkt = ts_fill (?h @ [0x10 OR (cc AND 0x0F)] @ take 184 rest)" "n = 184"
      using assms(1) by (auto simp: pes_packet_def Let_def TS_PKT_def)
    have "ts_payload pkt = take 184 rest" using full by (simp add: p ts_payload_def ts_fill_def TS_PKT_def)
    then show ?thesis using head_decodes[OF assms(2), where xs = "take 184 rest" and f = first and x = "0x10 OR (cc AND 0x0F)"] p
      by (simp add: cc_decodes[simplified])
  qed
qed

lemma pes_loop_spec:
  assumes "pes_loop pid cc sid pts rai first rest = (pkts, cc')" "pid \<in> {PID_VIDEO, PID_AUDIO, PID_PMT, 0}"
    "first \<and> rai \<and> sid = STREAM_VIDEO \<longrightarrow> 176 \<le> length rest"
  shows "(\<forall>p \<in> set pkts. on_pid pid p) \<and> concat (map ts_payload pkts) = rest \<and> map ts_cc pkts = ccs cc (length pkts) \<and>
    cc' = (next_cc ^^ length pkts) cc \<and> (rest \<noteq> [] \<longrightarrow> map ts_start pkts = first # replicate (length pkts - 1) False)"
  using assms
proof (induction pid cc sid pts rai first rest arbitrary: pkts cc' rule: pes_loop.induct)
  case (1 pid cc sid pts rai first rest)
  show ?case
  proof (cases "rest = []")
    case True
    then show ?thesis using 1(2) by (simp add: pes_loop.simps)
  next
    case False
    obtain pkt n where p: "pes_packet pid cc sid pts rai first rest = (pkt, n)" by fastforce
    obtain qs c where q: "pes_loop pid (next_cc cc) sid pts rai False (drop n rest) = (qs, c)" by fastforce
    have r: "pkts = pkt # qs" "cc' = c" using 1(2) False p q by (simp_all add: pes_loop.simps[of pid cc])
    note P = pes_packet_spec[OF p 1(3) False 1(4)]
    note Q = 1(1)[OF False p[symmetric] q 1(3)]
    have "map ts_start qs = replicate (length qs) False"
    proof (cases "drop n rest = []")
      case True
      then have "qs = []" using q by (subst (asm) pes_loop.simps) simp
      then show ?thesis by simp
    next
      case False
      then show ?thesis using Q by (cases qs) auto
    qed
    then show ?thesis using P Q by (simp add: r ccs_Suc funpow_swap1)
  qed
qed

section \<open>Slices\<close>

datatype ts_au = Video bytes u64 bool | Audio bytes u64

fun ts_write :: "ts_au \<Rightarrow> ts_mux \<Rightarrow> ts_mux" where
  "ts_write (Video es pts key) m = fst (ts_mux_write_video m es pts key)"
| "ts_write (Audio es pts) m = fst (ts_mux_write_audio m es pts)"

text \<open>Access units that the packer handles: not empty, and a key frame of at least 162 bytes.\<close>

fun au_ok :: "ts_au \<Rightarrow> bool" where
  "au_ok (Video es pts key) = (es \<noteq> [] \<and> (key \<longrightarrow> 162 \<le> length es))"
| "au_ok (Audio es pts) = (es \<noteq> [])"

fun video_pes :: "ts_au \<Rightarrow> bytes" where
  "video_pes (Video es pts key) = pes_header STREAM_VIDEO (length es) pts @ es"
| "video_pes (Audio es pts) = []"

fun audio_pes :: "ts_au \<Rightarrow> bytes" where
  "audio_pes (Video es pts key) = []"
| "audio_pes (Audio es pts) = pes_header STREAM_AUDIO (length es) pts @ es"

definition es_of :: "u16 \<Rightarrow> bytes list \<Rightarrow> bytes" where
  "es_of pid ps = concat (map ts_payload (filter (\<lambda>p. ts_pid p = pid) ps))"

definition cc_of :: "u16 \<Rightarrow> bytes list \<Rightarrow> u8 list" where
  "cc_of pid ps = map ts_cc (filter (\<lambda>p. ts_pid p = pid) ps)"

lemma of_append [simp]: "es_of pid (ps @ qs) = es_of pid ps @ es_of pid qs" "cc_of pid (ps @ qs) = cc_of pid ps @ cc_of pid qs"
  by (simp_all add: es_of_def cc_of_def)

lemma of_same: "\<forall>p \<in> set qs. on_pid pid p \<Longrightarrow> es_of pid qs = concat (map ts_payload qs) \<and> cc_of pid qs = map ts_cc qs"
  by (simp add: es_of_def cc_of_def on_pid_def filter_id_conv[THEN iffD2])

lemma of_other: "\<forall>p \<in> set qs. on_pid pid' p \<Longrightarrow> pid' \<noteq> pid \<Longrightarrow> es_of pid qs = [] \<and> cc_of pid qs = []"
  by (simp add: es_of_def cc_of_def on_pid_def filter_empty_conv)

definition slice_inv :: "ts_mux \<Rightarrow> ts_au list \<Rightarrow> bytes list \<Rightarrow> ts_mux \<Rightarrow> bool" where
  "slice_inv m0 ws ps m \<longleftrightarrow> tm_buf m = concat ps \<and> (\<forall>p \<in> set ps. length p = TS_PKT \<and> p ! 0 = 0x47) \<and>
     tm_wrote_psi m = (ws \<noteq> []) \<and> (ws \<noteq> [] \<longrightarrow> map ts_pid (take 2 ps) = [0, PID_PMT]) \<and>
     es_of PID_VIDEO ps = concat (map video_pes ws) \<and> es_of PID_AUDIO ps = concat (map audio_pes ws) \<and>
     cc_of PID_VIDEO ps = ccs (tm_cc_v m0) (length (cc_of PID_VIDEO ps)) \<and>
     tm_cc_v m = (next_cc ^^ length (cc_of PID_VIDEO ps)) (tm_cc_v m0) \<and>
     cc_of PID_AUDIO ps = ccs (tm_cc_a m0) (length (cc_of PID_AUDIO ps)) \<and>
     tm_cc_a m = (next_cc ^^ length (cc_of PID_AUDIO ps)) (tm_cc_a m0)"

lemma length_sections [simp]: "length pat_section = 16" "length (pmt_section h) = 26"
  by (simp_all add: pat_section_def pmt_section_def with_crc_def Let_def)

lemma psi_on_pid:
  "on_pid 0 (psi_packet 0 cc pat_section)" "on_pid PID_PMT (psi_packet PID_PMT cc (pmt_section h))"
  using head_decodes(1)[of 0 "0 # pat_section" True "0x10 OR (cc AND 0x0F)"]
    head_decodes(1)[of PID_PMT "0 # pmt_section h" True "0x10 OR (cc AND 0x0F)"]
  by (simp_all add: psi_packet_def)

lemma pids_distinct [simp]: "PID_VIDEO \<noteq> PID_AUDIO" "PID_AUDIO \<noteq> PID_VIDEO" "PID_PMT \<noteq> PID_VIDEO" "PID_PMT \<noteq> PID_AUDIO"
  "PID_VIDEO \<noteq> 0" "PID_AUDIO \<noteq> 0"
  by (simp_all add: PID_VIDEO_def PID_AUDIO_def PID_PMT_def)

text \<open>The tables in front: what the slice looks like after \<open>ensure_psi\<close>.\<close>

lemma ensure_psi_slice:
  assumes "slice_inv m0 ws ps m" "\<forall>w \<in> set ws. au_ok w" "ws = [] \<longrightarrow> ps = []"
  obtains qs where "tm_buf (ensure_psi m) = concat qs" "\<forall>p \<in> set qs. length p = TS_PKT \<and> p ! 0 = 0x47"
    "tm_wrote_psi (ensure_psi m)" "map ts_pid (take 2 qs) = [0, PID_PMT]" "2 \<le> length qs"
    "\<forall>pid \<in> {PID_VIDEO, PID_AUDIO}. es_of pid qs = es_of pid ps \<and> cc_of pid qs = cc_of pid ps"
    "tm_cc_v (ensure_psi m) = tm_cc_v m" "tm_cc_a (ensure_psi m) = tm_cc_a m"
proof (cases "ws = []")
  case True
  let ?a = "psi_packet 0 (tm_cc_pat m) pat_section" and ?b = "psi_packet PID_PMT (tm_cc_pmt m) (pmt_section (tm_h265 m))"
  have "\<forall>pid \<in> {PID_VIDEO, PID_AUDIO}. es_of pid [?a, ?b] = [] \<and> cc_of pid [?a, ?b] = []"
    using psi_on_pid(1)[of "tm_cc_pat m"] psi_on_pid(2)[of "tm_cc_pmt m" "tm_h265 m"] by (auto simp: es_of_def cc_of_def on_pid_def)
  then show thesis
    using assms True psi_on_pid
    by (intro that[of "[?a, ?b]"])
      (auto simp: slice_inv_def ensure_psi_def emit_pat_def emit_pmt_def put_def on_pid_def es_of_def cc_of_def)
next
  case False
  then have "2 \<le> length ps" using assms(1) by (auto simp: slice_inv_def dest!: arg_cong[of "map ts_pid _" _ length])
  then show thesis using assms(1) False by (intro that[of ps]) (auto simp: slice_inv_def ensure_psi_def)
qed

lemma write_slice:
  assumes "slice_inv m0 ws ps m" "\<forall>w \<in> set ws. au_ok w" "ws = [] \<longrightarrow> ps = []" "au_ok w"
  shows "\<exists>ps'. slice_inv m0 (ws @ [w]) ps' (ts_write w m)"
proof -
  let ?m = "ensure_psi m"
  obtain qs where q: "tm_buf ?m = concat qs" "\<forall>p \<in> set qs. length p = TS_PKT \<and> p ! 0 = 0x47"
    "tm_wrote_psi ?m" "map ts_pid (take 2 qs) = [0, PID_PMT]" "2 \<le> length qs"
    "\<forall>pid \<in> {PID_VIDEO, PID_AUDIO}. es_of pid qs = es_of pid ps \<and> cc_of pid qs = cc_of pid ps"
    "tm_cc_v ?m = tm_cc_v m" "tm_cc_a ?m = tm_cc_a m"
    using ensure_psi_slice[OF assms(1-3)] by metis
  show ?thesis
  proof (cases w)
    case (Video es pts key)
    let ?rest = "pes_header STREAM_VIDEO (length es) pts @ es"
    obtain pkts cc where l: "pes_loop PID_VIDEO (tm_cc_v m) STREAM_VIDEO pts key True ?rest = (pkts, cc)" by fastforce
    have P: "(\<forall>p \<in> set pkts. on_pid PID_VIDEO p)" "concat (map ts_payload pkts) = ?rest" "map ts_cc pkts = ccs (tm_cc_v m) (length pkts)"
      "cc = (next_cc ^^ length pkts) (tm_cc_v m)"
      using pes_loop_spec[OF l] assms(4) Video by auto
    have m': "ts_write w m = put (?m\<lparr>tm_cc_v := cc\<rparr>) (concat pkts)"
      using assms(4) Video l q(7) by (simp add: ts_mux_write_video_def emit_pes_video_def)
    have "slice_inv m0 (ws @ [w]) (qs @ pkts) (ts_write w m)"
      using assms(1) q P of_same[OF P(1)] of_other[OF P(1), of PID_AUDIO] Video
      unfolding slice_inv_def m' by (auto simp: put_def on_pid_def ccs_add cc_comp)
    then show ?thesis by blast
  next
    case (Audio es pts)
    let ?rest = "pes_header STREAM_AUDIO (length es) pts @ es"
    obtain pkts cc where l: "pes_loop PID_AUDIO (tm_cc_a m) STREAM_AUDIO pts False True ?rest = (pkts, cc)" by fastforce
    have P: "(\<forall>p \<in> set pkts. on_pid PID_AUDIO p)" "concat (map ts_payload pkts) = ?rest" "map ts_cc pkts = ccs (tm_cc_a m) (length pkts)"
      "cc = (next_cc ^^ length pkts) (tm_cc_a m)"
      using pes_loop_spec[OF l] by auto
    have m': "ts_write w m = put (?m\<lparr>tm_cc_a := cc\<rparr>) (concat pkts)"
      using assms(4) Audio l q(8) by (simp add: ts_mux_write_audio_def emit_pes_audio_def)
    have "slice_inv m0 (ws @ [w]) (qs @ pkts) (ts_write w m)"
      using assms(1) q P of_same[OF P(1)] of_other[OF P(1), of PID_VIDEO] Audio
      unfolding slice_inv_def m' by (auto simp: put_def on_pid_def ccs_add cc_comp)
    then show ?thesis by blast
  qed
qed

lemma slice_run:
  assumes "tm_buf m = []" "\<not> tm_wrote_psi m" "\<forall>w \<in> set ws. au_ok w"
  shows "\<exists>ps. slice_inv m ws ps (fold ts_write ws m) \<and> (ws = [] \<longrightarrow> ps = [])"
  using assms(3)
proof (induction ws rule: rev_induct)
  case Nil
  show ?case using assms(1,2) by (simp add: slice_inv_def es_of_def cc_of_def)
next
  case (snoc w ws)
  then obtain ps where "slice_inv m ws ps (fold ts_write ws m)" "ws = [] \<longrightarrow> ps = []" by auto
  then show ?case using write_slice[of m ws ps "fold ts_write ws m" w] snoc(2) by auto
qed

text \<open>The counters are consecutive modulo 16.\<close>

lemma next_cc_take: "next_cc c = take_bit 4 (c + 1)"
proof -
  have "(15 :: u8) = mask 4" by (simp add: mask_eq_exp_minus_1)
  then show ?thesis by (simp only: next_cc_def take_bit_eq_mask)
qed

lemma ccs_consecutive: "Suc i < n \<Longrightarrow> unat (ccs c n ! Suc i) = (unat (ccs c n ! i) + 1) mod 16"
proof -
  have m: "(x AND 15 :: u8) = take_bit 4 x" for x
  proof -
    have "(15 :: u8) = mask 4" by (simp add: mask_eq_exp_minus_1)
    then show ?thesis by (simp only: take_bit_eq_mask)
  qed
  let ?x = "(next_cc ^^ i) c"
  have "unat (take_bit 4 (?x + 1)) = (unat ?x + 1) mod 256 mod 16"
    by (simp add: unsigned_take_bit_eq take_bit_eq_mod unat_word_ariths)
  also have "\<dots> = (unat ?x + 1) mod 16" by (rule mod_mod_cancel) simp
  also have "\<dots> = (unat ?x mod 16 + 1) mod 16" by (simp add: mod_simps)
  also have "unat ?x mod 16 = unat (take_bit 4 ?x)" by (simp add: unsigned_take_bit_eq take_bit_eq_mod unat_mod_word)
  finally have "unat (take_bit 4 (?x + 1)) = (unat (take_bit 4 ?x) + 1) mod 16" .
  then show "Suc i < n \<Longrightarrow> unat (ccs c n ! Suc i) = (unat (ccs c n ! i) + 1) mod 16"
    by (simp add: ccs_def m next_cc_take)
qed

section \<open>Properties\<close>

text \<open>C7: A slice demultiplexes to what was written. Writing access units (not empty, key frames of at least
  162 bytes) to a fresh slice gives a whole number of 188-byte packets with the sync byte; the program tables come first;
  the payloads of the video and of the audio PID are the PES packets of the access units in order; the
  continuity counters of each PID run modulo 16, from where the previous slice left them to where the next one
  takes them up; and each PES header carries the lower 33 bits of its time stamp.\<close>

theorem ts_slice_roundtrip:
  assumes "tm_buf m = []" "\<not> tm_wrote_psi m" "\<forall>w \<in> set ws. au_ok w"
    "m' = fold ts_write ws m" "ps = ts_packets (ts_mux_data m')"
  shows "concat ps = ts_mux_data m' \<and> (\<forall>p \<in> set ps. length p = TS_PKT \<and> p ! 0 = 0x47) \<and>
    (ws \<noteq> [] \<longrightarrow> map ts_pid (take 2 ps) = [0, PID_PMT]) \<and>
    es_of PID_VIDEO ps = concat (map video_pes ws) \<and> es_of PID_AUDIO ps = concat (map audio_pes ws) \<and>
    (\<forall>i. Suc i < length (cc_of PID_VIDEO ps) \<longrightarrow> unat (cc_of PID_VIDEO ps ! Suc i) = (unat (cc_of PID_VIDEO ps ! i) + 1) mod 16) \<and>
    (\<forall>i. Suc i < length (cc_of PID_AUDIO ps) \<longrightarrow> unat (cc_of PID_AUDIO ps ! Suc i) = (unat (cc_of PID_AUDIO ps ! i) + 1) mod 16) \<and>
    cc_of PID_VIDEO ps @ [tm_cc_v (ts_mux_reset m') AND 0x0F] = ccs (tm_cc_v m) (length (cc_of PID_VIDEO ps) + 1) \<and>
    cc_of PID_AUDIO ps @ [tm_cc_a (ts_mux_reset m') AND 0x0F] = ccs (tm_cc_a m) (length (cc_of PID_AUDIO ps) + 1) \<and>
    pes_pts (pes_header sid n pts) = take_bit 33 pts"
proof -
  obtain qs where q: "slice_inv m ws qs m'" using slice_run[OF assms(1-3)] assms(4) by auto
  then have "ps = qs" using ts_packets_concat[of qs] assms(5) by (simp add: slice_inv_def ts_mux_data_def)
  then have P: "slice_inv m ws ps m'" using q by simp
  have one: "ccs x 1 = [x AND 0x0F]" for x by (simp add: ccs_def)
  have cc: "cc_of PID_VIDEO ps = ccs (tm_cc_v m) (length (cc_of PID_VIDEO ps))"
    "cc_of PID_AUDIO ps = ccs (tm_cc_a m) (length (cc_of PID_AUDIO ps))"
    "tm_cc_v m' = (next_cc ^^ length (cc_of PID_VIDEO ps)) (tm_cc_v m)"
    "tm_cc_a m' = (next_cc ^^ length (cc_of PID_AUDIO ps)) (tm_cc_a m)"
    using P by (simp_all add: slice_inv_def)
  have "cc_of PID_VIDEO ps @ [tm_cc_v m' AND 0x0F] = ccs (tm_cc_v m) (length (cc_of PID_VIDEO ps) + 1)"
    "cc_of PID_AUDIO ps @ [tm_cc_a m' AND 0x0F] = ccs (tm_cc_a m) (length (cc_of PID_AUDIO ps) + 1)"
    unfolding ccs_add one using cc by simp_all
  moreover have "\<forall>i. Suc i < length (cc_of PID_VIDEO ps) \<longrightarrow> unat (cc_of PID_VIDEO ps ! Suc i) = (unat (cc_of PID_VIDEO ps ! i) + 1) mod 16"
    using ccs_consecutive cc(1) by metis
  moreover have "\<forall>i. Suc i < length (cc_of PID_AUDIO ps) \<longrightarrow> unat (cc_of PID_AUDIO ps ! Suc i) = (unat (cc_of PID_AUDIO ps ! i) + 1) mod 16"
    using ccs_consecutive cc(2) by metis
  ultimately show ?thesis using P pts_roundtrip by (simp add: slice_inv_def ts_mux_data_def ts_mux_reset_def)
qed

lemma ts_slice_roundtrip_witness:
  "let ws = [Video (replicate 200 1) 9000 True, Audio [2, 3] 9100]; m' = fold ts_write ws (ts_mux_new False) in
   es_of PID_AUDIO (ts_packets (ts_mux_data m')) = pes_header STREAM_AUDIO 2 9100 @ [2, 3] \<and>
   tm_buf (ts_mux_new False) = []"
proof -
  let ?ws = "[Video (replicate 200 1) 9000 True, Audio [2, 3] 9100]"
  have m: "tm_buf (ts_mux_new False) = []" "\<not> tm_wrote_psi (ts_mux_new False)" by (simp_all add: ts_mux_new_def)
  have ok: "\<forall>w \<in> set ?ws. au_ok w" by simp
  show ?thesis using ts_slice_roundtrip[OF m ok refl refl] m(1) by (simp add: Let_def numeral_2_eq_2)
qed

text \<open>Why a key frame has to fill its first packet: a shorter one is followed by 0xFF bytes that the packet
  header presents as its payload, because the first packet of a key frame is never stuffed.\<close>

lemma short_key_frame_padded:
  assumes "0 < length es" "length es < 162"
  shows "\<exists>pkt cc'. pes_loop PID_VIDEO cc STREAM_VIDEO pts True True (pes_header STREAM_VIDEO (length es) pts @ es) = ([pkt], cc') \<and>
    ts_payload pkt = pes_header STREAM_VIDEO (length es) pts @ es @ replicate (162 - length es) 0xFF"
proof -
  let ?r = "pes_header STREAM_VIDEO (length es) pts @ es"
  let ?p = "ts_fill ([0x47, 0x40 OR (ucast (drop_bit 8 PID_VIDEO) AND 0x1F), ucast PID_VIDEO] @ [0x30 OR (cc AND 0x0F)] @ pcr_field pts @ ?r)"
  have "pes_packet PID_VIDEO cc STREAM_VIDEO pts True True ?r = (?p, length ?r)"
    using assms by (simp add: pes_packet_def Let_def TS_PKT_def)
  then have "pes_loop PID_VIDEO cc STREAM_VIDEO pts True True ?r = ([?p], next_cc cc)"
    using assms by (simp add: pes_loop.simps)
  moreover have "ts_payload ?p = ?r @ replicate (162 - length es) 0xFF"
    using assms by (simp add: ts_payload_def ts_fill_def TS_PKT_def pcr_field_def)
  ultimately show ?thesis by (metis append.assoc)
qed

end
