(* ===== verification/Rsdk_Group_Loop.thy ===== *)
theory Rsdk_Group_Loop
  imports Rsdk_Group_Play
begin

text \<open>
  The loop that every client of the group player runs (the exporter, the uploader): take frames until there is none. The
  locale states what such a loop is; inside it, a loop over segments that play is the fold over their frames.
\<close>

locale group_client =
  fixes g :: rsdk_group
    and loop :: "group_player \<Rightarrow> 'c \<Rightarrow> 'r option"
    and feed :: "rsdk_frame \<Rightarrow> 'c \<Rightarrow> 'c"
    and fin :: "'c \<Rightarrow> 'r"
  assumes next_frame: "rsdk_group_play_next g p = Some (Inr x, p') \<Longrightarrow> loop p c = loop p' (feed (delivered (fst x, fst (snd x))) c)"
    and no_more: "rsdk_group_play_next g p = Some (Inl e, p') \<Longrightarrow> loop p c = Some (fin c)"
    and same_next: "rsdk_group_play_next g p = rsdk_group_play_next g p' \<Longrightarrow> loop p c = loop p' c"
begin

lemma loop_inside:
  assumes "gp_at p sf k j" "j < length (snd (sf ! k))"
  shows "\<exists>p'. gp_at p' sf k (Suc j) \<and> loop p u = loop p' (feed (snd (sf ! k) ! j) u)"
proof -
  obtain x p' where x: "rsdk_group_play_next g p = Some (Inr x, p')" "gp_at p' sf k (Suc j)"
    "tagged x = (snd (sf ! k) ! j, sl_start_disk (fst (sf ! k)))"
    using group_next_inside[OF assms] by blast
  then have "delivered (fst x, fst (snd x)) = snd (sf ! k) ! j" by (simp add: tagged_def case_prod_beta)
  then show ?thesis using next_frame[OF x(1), of u] x(2) by auto
qed

lemma loop_from:
  assumes "gp_at p sf k j" "\<And>x. x \<in> set sf \<Longrightarrow> seg_plays g (fst x) (snd x)"
  shows "loop p u = Some (fin (fold feed (drop j (concat (map snd (drop k sf)))) u))"
  using assms
proof (induction "length (concat (map snd (drop k sf))) - j" arbitrary: p k j u rule: less_induct)
  case less
  have k: "k < length sf" "j \<le> length (snd (sf ! k))" using less.prems(1) by (simp_all add: gp_at_def)
  have step: "loop p u = Some (fin (fold feed (drop j (concat (map snd (drop k sf)))) u))"
    if at: "gp_at p sf k j" and j: "j < length (snd (sf ! k))" and kl: "k < length sf"
      and IH: "\<And>p' u. gp_at p' sf k (Suc j) \<Longrightarrow> loop p' u = Some (fin (fold feed (drop (Suc j) (concat (map snd (drop k sf)))) u))"
    for p k j u
  proof -
    obtain p' where p': "gp_at p' sf k (Suc j)" "loop p u = loop p' (feed (snd (sf ! k) ! j) u)"
      using loop_inside[OF at j] by blast
    have dk: "drop k sf = sf ! k # drop (Suc k) sf" using kl by (simp add: Cons_nth_drop_Suc)
    have "drop j (concat (map snd (drop k sf))) = snd (sf ! k) ! j # drop (Suc j) (concat (map snd (drop k sf)))"
      unfolding dk using j by (subst Cons_nth_drop_Suc[symmetric]) (simp_all add: nth_append)
    then show ?thesis using IH[OF p'(1)] p'(2) by simp
  qed
  have d: "drop k sf = sf ! k # drop (Suc k) sf" using k(1) by (simp add: Cons_nth_drop_Suc)
  show ?case
  proof (cases "j < length (snd (sf ! k))")
    case True
    show ?thesis
      by (rule step[OF less.prems(1) True k(1)], rule less.hyps[OF _ _ less.prems(2)]) (use True in \<open>auto simp: d\<close>)
  next
    case False
    then have j: "j = length (snd (sf ! k))" using k(2) by simp
    show ?thesis
    proof (cases "Suc k < length sf")
      case True
      then obtain p' where p': "rsdk_group_play_next g p = rsdk_group_play_next g p'" "gp_at p' sf (Suc k) 0"
        using group_next_over[OF less.prems(1)[unfolded j] less.prems(2)] by auto
      have ne: "0 < length (snd (sf ! Suc k))" using seg_plays_ne[OF less.prems(2)[OF nth_mem[OF True]]] by simp
      have "loop p u = loop p' u" by (rule same_next[OF p'(1)])
      moreover have "loop p' u = Some (fin (fold feed (drop 0 (concat (map snd (drop (Suc k) sf)))) u))"
      proof (rule step[OF p'(2) ne True])
        fix q w assume q: "gp_at q sf (Suc k) (Suc 0)"
        have d': "drop (Suc k) sf = sf ! Suc k # drop (Suc (Suc k)) sf" using True by (simp add: Cons_nth_drop_Suc)
        show "loop q w = Some (fin (fold feed (drop (Suc 0) (concat (map snd (drop (Suc k) sf)))) w))"
          by (rule less.hyps[OF _ q less.prems(2)]) (use j ne in \<open>auto simp: d d'\<close>)
      qed
      ultimately show ?thesis by (simp add: d j)
    next
      case False
      then obtain p' where "rsdk_group_play_next g p = Some (Inl RSDK_E_NOTFOUND, p')"
        using group_next_over[OF less.prems(1)[unfolded j] less.prems(2)] by auto
      from no_more[OF this, of u] show ?thesis using False d j by simp
    qed
  qed
qed

lemma loop_all:
  assumes "\<And>x. x \<in> set sf \<Longrightarrow> seg_plays g (fst x) (snd x)" "sf \<noteq> []"
  shows "\<exists>p. rsdk_group_play_open g (map fst sf) = Some (Inr p) \<and> (\<forall>u. loop p u = Some (fin (fold feed (concat (map snd sf)) u)))"
proof -
  let ?p = "\<lparr>gp_segs = map fst sf, gp_cur = 0, gp_pl = None, gp_seek_pts = 0, gp_seek_pending = False\<rparr>"
  have len: "0 < length sf" using assms(2) by simp
  obtain p where p: "open_cur g ?p = Some (RSDK_OK, p)" "gp_at p sf 0 0"
    using open_cur_at[OF assms(1)[OF nth_mem[OF len]] len, of ?p] by auto
  then have "rsdk_group_play_open g (map fst sf) = Some (Inr p)" using assms(2) by (simp add: rsdk_group_play_open_def)
  then show ?thesis using loop_from[OF p(2) assms(1)] by auto
qed

end

end
