(* ===== verification/Cloud_Upload.thy ===== *)
theory Cloud_Upload
  imports Rsdk_Group_Loop Ts_Mux
begin

text \<open>
  components/cloud_uploader/src/uploader.c: the worker that takes pending cloud events, finds their recording in the
  disk group, plays it, packs it into transport stream slices and posts them. The VSaaS server (http_vsaas.c, libcurl) is
  the record \<open>vsaas\<close> of functions, whose answers may depend on everything sent so far; the requests and the state changes
  reported to the event store (rsdk_cloud.c, SQLite) are logged. A player that never ends (see Rsdk_Play) is None. The
  clock, the poll interval and the thread itself are not modelled: a poll is one turn of the worker.
\<close>

section \<open>Events, requests and state\<close>

datatype rsdk_cloud_state =
    RSDK_CLOUD_NONE | RSDK_CLOUD_PENDING | RSDK_CLOUD_UPLOADING | RSDK_CLOUD_DONE | RSDK_CLOUD_FAILED | RSDK_CLOUD_LOST

record rsdk_cloud_event =
  cv_event_id :: u64
  cv_chn :: int
  cv_rectype :: u32
  cv_starttime :: u32
  cv_end_time :: u32
  cv_state :: rsdk_cloud_state
  cv_seg_id :: u32
  cv_disk :: u16
  cv_start_chunk :: u64
  cv_attempts :: u32
  cv_updated_ts :: u32
  cv_last_err :: int

record vsaas_url =
  vu_http_ok :: bool
  vu_err_code :: int
  vu_url :: string
  vu_max_length :: int

record vsaas_post =
  po_url :: string
  po_ts :: bytes
  po_start_ms :: u64
  po_dur_ms :: u32
  po_event_end :: bool

datatype cloud_call =
    SetState u64 rsdk_cloud_state int
  | GetUrl int string string u32 int string
  | PostTs vsaas_post

record vsaas =
  vs_get_url :: "cloud_call list \<Rightarrow> cloud_call \<Rightarrow> vsaas_url option"
  vs_post_ts :: "cloud_call list \<Rightarrow> vsaas_post \<Rightarrow> bool"

record nvr_cloud_uploader_cfg =
  uc_udid :: string
  uc_stage :: int
  uc_worker_count :: int
  uc_poll_interval_s :: int
  uc_slice_ms :: int

record nvr_cloud_uploader =
  up_cfg :: nvr_cloud_uploader_cfg
  up_group :: rsdk_group
  up_stoken :: string
  up_sw_on :: bool
  up_running :: bool

definition event_id_code :: "u32 \<Rightarrow> int" where
  "event_id_code rectype =
     (if uint rectype = RSDK_REC_DOORBELL then 30312
      else if uint rectype = RSDK_REC_FACE then 30303
      else if uint rectype = RSDK_REC_HUMAN then 30302
      else if uint rectype = RSDK_REC_VEHICLE then 30305
      else 1)"

definition rectype_tag :: "u32 \<Rightarrow> string" where
  "rectype_tag rectype =
     (if uint rectype = RSDK_REC_DOORBELL then ''doorbellRing''
      else if uint rectype = RSDK_REC_FACE then ''face''
      else if uint rectype = RSDK_REC_HUMAN then ''human''
      else if uint rectype = RSDK_REC_VEHICLE then ''vehicle''
      else ''pixelChange'')"

section \<open>One event\<close>

text \<open>The local variables of the slicing loop.\<close>

record upload =
  ul_mux :: ts_mux
  ul_slice_base_pts :: u64
  ul_first_pts :: u64
  ul_have_first :: bool
  ul_slice_idx :: nat
  ul_rc_all :: int
  ul_hdr_pts :: u64
  ul_calls :: "cloud_call list"

definition upload_start :: "cloud_call list \<Rightarrow> upload" where
  "upload_start calls = \<lparr>ul_mux = ts_mux_new False, ul_slice_base_pts = 0, ul_first_pts = 0, ul_have_first = False,
     ul_slice_idx = 0, ul_rc_all = 0, ul_hdr_pts = 0, ul_calls = calls\<rparr>"

definition take_frame :: "frame_hdr \<Rightarrow> bytes \<Rightarrow> upload \<Rightarrow> upload" where
  "take_frame h data u =
     (let u = (if \<not> ul_have_first u
               then u\<lparr>ul_have_first := True, ul_first_pts := fh_pts h, ul_slice_base_pts := fh_pts h\<rparr> else u)
      in u\<lparr>ul_hdr_pts := fh_pts h, ul_mux := fst (ts_mux_write_video (ul_mux u) data (fh_pts h) (fh_frame_type h = 0))\<rparr>)"

definition slice_step :: "vsaas \<Rightarrow> int \<Rightarrow> string \<Rightarrow> u64 \<Rightarrow> bool \<Rightarrow> upload \<Rightarrow> upload" where
  "slice_step v slice_ms url base_ms eof u =
     (let cur_ms = (if ul_have_first u then (ul_hdr_pts u - ul_slice_base_pts u) div 90 else 0);
          slice_due = (cur_ms \<ge> of_int slice_ms \<or> eof);
          ts = ts_mux_data (ul_mux u)
      in if slice_due \<and> length ts > 0 then
           let fstart_ms = base_ms + (ul_slice_base_pts u - ul_first_pts u) div 90;
               fdur_ms = ucast ((if ul_have_first u then ul_hdr_pts u - ul_slice_base_pts u else 0) div 90);
               fdur_ms = (if fdur_ms = 0 then of_int slice_ms else fdur_ms);
               post = \<lparr>po_url = url, po_ts = ts, po_start_ms = fstart_ms, po_dur_ms = fdur_ms, po_event_end = eof\<rparr>
           in u\<lparr>ul_rc_all := (if vs_post_ts v (ul_calls u) post then ul_rc_all u else -1),
                ul_calls := ul_calls u @ [PostTs post], ul_mux := ts_mux_reset (ul_mux u),
                ul_slice_base_pts := ul_hdr_pts u, ul_slice_idx := ul_slice_idx u + 1\<rparr>
         else u)"

partial_function (option) upload_loop ::
  "vsaas \<Rightarrow> int \<Rightarrow> string \<Rightarrow> u64 \<Rightarrow> rsdk_group \<Rightarrow> group_player \<Rightarrow> upload \<Rightarrow> upload option" where
  "upload_loop v slice_ms url base_ms g p u =
     (case rsdk_group_play_next g p of
        None \<Rightarrow> None
      | Some (r, p') \<Rightarrow>
          (case r of
             Inl e \<Rightarrow> Some (slice_step v slice_ms url base_ms True u)
           | Inr x \<Rightarrow>
               upload_loop v slice_ms url base_ms g p'
                 (slice_step v slice_ms url base_ms False (take_frame (fst x) (fst (snd x)) u))))"

text \<open>The last digit of the start time is replaced by the channel, and kept in the tags.\<close>

definition embed_starttime :: "rsdk_cloud_event \<Rightarrow> u32" where
  "embed_starttime ev = cv_starttime ev - cv_starttime ev mod 10 + of_int (cv_chn ev mod 10)"

definition event_tags :: "rsdk_cloud_event \<Rightarrow> string" where
  "event_tags ev = rectype_tag (cv_rectype ev) @ '',starttimeOrg'' @ show_nat (unat (cv_starttime ev mod 10))"

definition refused :: "int \<Rightarrow> bool" where
  "refused code \<longleftrightarrow> code = -1002 \<or> code = -1003 \<or> code = -1004"

definition process_event ::
  "vsaas \<Rightarrow> nvr_cloud_uploader \<Rightarrow> rsdk_cloud_event \<Rightarrow> string \<Rightarrow> cloud_call list \<Rightarrow> (int \<times> cloud_call list) option" where
  "process_event v up ev stoken calls =
     (let id = cv_event_id ev; failed = (\<lambda>calls err. calls @ [SetState id RSDK_CLOUD_FAILED err]);
          calls = calls @ [SetState id RSDK_CLOUD_UPLOADING 0];
          segs = rsdk_group_query (up_group up) (cv_starttime ev) (cv_starttime ev + 300) (cv_chn ev) RSDK_REC_CONTINUOUS 64
      in if segs = [] then Some (-1, failed calls (-1))
         else case rsdk_group_play_open (up_group up) segs of
             None \<Rightarrow> None
           | Some (Inl e) \<Rightarrow> Some (-1, failed calls (-2))
           | Some (Inr pl) \<Rightarrow>
              (let st = embed_starttime ev;
                   req = GetUrl (uc_stage (up_cfg up)) (uc_udid (up_cfg up)) stoken st (event_id_code (cv_rectype ev)) (event_tags ev);
                   answer = vs_get_url v calls req;
                   calls = calls @ [req]
               in case answer of
                    None \<Rightarrow> Some (-1, failed calls (-3))
                  | Some vu \<Rightarrow>
                      if refused (vu_err_code vu) then Some (-1000, failed calls (vu_err_code vu))
                      else if \<not> vu_http_ok vu then Some (-1, failed calls (-4))
                      else (case upload_loop v (uc_slice_ms (up_cfg up)) (vu_url vu) (ucast st * 1000) (up_group up) pl (upload_start calls) of
                          None \<Rightarrow> None
                        | Some u \<Rightarrow>
                            if ul_rc_all u = 0 then Some (0, ul_calls u @ [SetState id RSDK_CLOUD_DONE 0])
                            else Some (-1, failed (ul_calls u) (-5)))))"

section \<open>The worker and its switches\<close>

definition nvr_cloud_uploader_set_switch :: "bool \<Rightarrow> nvr_cloud_uploader \<Rightarrow> nvr_cloud_uploader" where
  "nvr_cloud_uploader_set_switch on up = up\<lparr>up_sw_on := on\<rparr>"

definition nvr_cloud_uploader_set_stoken :: "string option \<Rightarrow> nvr_cloud_uploader \<Rightarrow> nvr_cloud_uploader" where
  "nvr_cloud_uploader_set_stoken stoken up =
     up\<lparr>up_stoken := take 255 (case stoken of None \<Rightarrow> '''' | Some s \<Rightarrow> s)\<rparr>"

definition nvr_cloud_uploader_force_off :: "nvr_cloud_uploader \<Rightarrow> nvr_cloud_uploader" where
  "nvr_cloud_uploader_force_off up = nvr_cloud_uploader_set_switch False up"

definition nvr_cloud_uploader_online :: "nvr_cloud_uploader \<Rightarrow> bool" where
  "nvr_cloud_uploader_online up \<longleftrightarrow> up_sw_on up \<and> up_stoken up \<noteq> ''''"

text \<open>\<open>stop i\<close> tells that the uploader was stopped before event \<open>i\<close> of the batch.\<close>

fun poll_loop ::
  "vsaas \<Rightarrow> (nat \<Rightarrow> bool) \<Rightarrow> string \<Rightarrow> nat \<Rightarrow> rsdk_cloud_event list \<Rightarrow> nvr_cloud_uploader \<Rightarrow> cloud_call list \<Rightarrow>
   (nvr_cloud_uploader \<times> cloud_call list) option" where
  "poll_loop v stop stoken i [] up calls = Some (up, calls)"
| "poll_loop v stop stoken i (ev # evs) up calls =
     (if stop i then Some (up\<lparr>up_running := False\<rparr>, calls)
      else case process_event v up ev stoken calls of
          None \<Rightarrow> None
        | Some (rc, calls) \<Rightarrow>
            if rc = -1000 then Some (nvr_cloud_uploader_force_off up, calls)
            else poll_loop v stop stoken (Suc i) evs up calls)"

definition worker_poll ::
  "vsaas \<Rightarrow> (nat \<Rightarrow> bool) \<Rightarrow> rsdk_cloud_event list \<Rightarrow> nvr_cloud_uploader \<Rightarrow> cloud_call list \<Rightarrow>
   (nvr_cloud_uploader \<times> cloud_call list) option" where
  "worker_poll v stop pending up calls =
     (if \<not> up_running up then Some (up, calls)
      else if up_sw_on up \<and> up_stoken up \<noteq> ''''
      then poll_loop v stop (up_stoken up) 0 (take 32 pending) up calls
      else Some (up, calls))"

definition nvr_cloud_uploader_start :: "nvr_cloud_uploader_cfg \<Rightarrow> rsdk_group \<Rightarrow> string option \<Rightarrow> nvr_cloud_uploader" where
  "nvr_cloud_uploader_start cfg g stoken =
     \<lparr>up_cfg = cfg\<lparr>uc_poll_interval_s := (if uc_poll_interval_s cfg \<le> 0 then 5 else uc_poll_interval_s cfg),
                   uc_slice_ms := (if uc_slice_ms cfg \<le> 0 then 15000 else uc_slice_ms cfg),
                   uc_worker_count := (if uc_worker_count cfg \<le> 0 then 1 else uc_worker_count cfg)\<rparr>,
      up_group = g, up_stoken = take 255 (case stoken of None \<Rightarrow> '''' | Some s \<Rightarrow> s), up_sw_on = False, up_running = True\<rparr>"

definition nvr_cloud_uploader_stop :: "nvr_cloud_uploader \<Rightarrow> nvr_cloud_uploader" where
  "nvr_cloud_uploader_stop up = up\<lparr>up_running := False\<rparr>"

section \<open>Playing and slicing\<close>

definition take_rsdk :: "rsdk_frame \<Rightarrow> upload \<Rightarrow> upload" where
  "take_rsdk f u =
     (let u = (if \<not> ul_have_first u
               then u\<lparr>ul_have_first := True, ul_first_pts := fr_pts f, ul_slice_base_pts := fr_pts f\<rparr> else u)
      in u\<lparr>ul_hdr_pts := fr_pts f, ul_mux := fst (ts_mux_write_video (ul_mux u) (fr_data f) (fr_pts f) (fr_frame_type f = 0))\<rparr>)"

lemma take_frame_delivered: "take_frame h b u = take_rsdk (delivered (h, b)) u"
  by (simp add: take_frame_def take_rsdk_def delivered_def Let_def)

definition feed :: "vsaas \<Rightarrow> int \<Rightarrow> string \<Rightarrow> u64 \<Rightarrow> rsdk_frame \<Rightarrow> upload \<Rightarrow> upload" where
  "feed v ms url base_ms f u = slice_step v ms url base_ms False (take_rsdk f u)"

text \<open>On segments that play, the loop ends, and it is the fold over their frames.\<close>

interpretation up: group_client g "upload_loop v ms url base_ms g" "feed v ms url base_ms" "slice_step v ms url base_ms True"
  for v ms url base_ms g
proof
  fix p x p' u assume "rsdk_group_play_next g p = Some (Inr x, p')"
  then show "upload_loop v ms url base_ms g p u = upload_loop v ms url base_ms g p' (feed v ms url base_ms (delivered (fst x, fst (snd x))) u)"
    by (simp add: upload_loop.simps[of v ms url base_ms g p] take_frame_delivered feed_def)
next
  fix p e p' u assume "rsdk_group_play_next g p = Some (Inl e, p')"
  then show "upload_loop v ms url base_ms g p u = Some (slice_step v ms url base_ms True u)"
    by (simp add: upload_loop.simps[of v ms url base_ms g p])
next
  fix p p' u assume "rsdk_group_play_next g p = rsdk_group_play_next g p'"
  then show "upload_loop v ms url base_ms g p u = upload_loop v ms url base_ms g p' u"
    by (simp add: upload_loop.simps[of v ms url base_ms g p] upload_loop.simps[of v ms url base_ms g p'])
qed

section \<open>What a slice holds\<close>

definition au :: "rsdk_frame \<Rightarrow> ts_au" where
  "au f = Video (fr_data f) (fr_pts f) (fr_frame_type f = 0)"

definition fresh :: "ts_mux \<Rightarrow> bool" where
  "fresh m \<longleftrightarrow> tm_buf m = [] \<and> \<not> tm_wrote_psi m"

text \<open>A slice is a whole transport stream of its frames.\<close>

definition slice_of :: "rsdk_frame list \<Rightarrow> bytes \<Rightarrow> bool" where
  "slice_of gs ts \<longleftrightarrow> concat (ts_packets ts) = ts \<and> map ts_pid (take 2 (ts_packets ts)) = [0, PID_PMT] \<and>
     es_of PID_VIDEO (ts_packets ts) = concat (map video_pes (map au gs))"

lemma slice_of_run:
  assumes "fresh m" "gs \<noteq> []" "\<forall>f \<in> set gs. au_ok (au f)"
  shows "slice_of gs (ts_mux_data (fold ts_write (map au gs) m))" "ts_mux_data (fold ts_write (map au gs) m) \<noteq> []"
proof -
  obtain qs where q: "slice_inv m (map au gs) qs (fold ts_write (map au gs) m)"
    using slice_run[of m "map au gs"] assms by (auto simp: fresh_def)
  then have p: "ts_packets (ts_mux_data (fold ts_write (map au gs) m)) = qs"
    using ts_packets_concat[of qs] by (simp add: slice_inv_def ts_mux_data_def)
  show "slice_of gs (ts_mux_data (fold ts_write (map au gs) m))"
    using q assms(2) unfolding slice_of_def p by (simp add: slice_inv_def ts_mux_data_def)
  have "map ts_pid (take 2 qs) = [0, PID_PMT]" using q assms(2) by (simp add: slice_inv_def)
  then obtain a b r where "qs = a # b # r" by (cases qs; cases "tl qs") auto
  then show "ts_mux_data (fold ts_write (map au gs) m) \<noteq> []"
    using q by (auto simp: slice_inv_def ts_mux_data_def TS_PKT_def)
qed

text \<open>The time a slice starts at: the first frame of the event, then the last frame of the slice before.\<close>

definition base_pts :: "u64 \<Rightarrow> rsdk_frame list list \<Rightarrow> nat \<Rightarrow> u64" where
  "base_pts t0 gss i = (if i = 0 then t0 else fr_pts (last (gss ! (i - 1))))"

definition full_slice :: "int \<Rightarrow> u64 \<Rightarrow> rsdk_frame list list \<Rightarrow> nat \<Rightarrow> bool" where
  "full_slice ms t0 gss i \<longleftrightarrow> of_int ms \<le> (fr_pts (last (gss ! i)) - base_pts t0 gss i) div 90"

definition posted :: "vsaas \<Rightarrow> u64 \<Rightarrow> cloud_call list \<Rightarrow> u64 \<Rightarrow> rsdk_frame list list \<Rightarrow> vsaas_post list \<Rightarrow> upload \<Rightarrow> bool" where
  "posted v base_ms calls t0 gss ps u \<longleftrightarrow> length ps = length gss \<and> ul_calls u = calls @ map PostTs ps \<and>
     (\<forall>i < length ps. gss ! i \<noteq> [] \<and> slice_of (gss ! i) (po_ts (ps ! i)) \<and>
        po_start_ms (ps ! i) = base_ms + (base_pts t0 gss i - t0) div 90) \<and>
     (ul_rc_all u = 0 \<longleftrightarrow> (\<forall>i < length ps. vs_post_ts v (calls @ map PostTs (take i ps)) (ps ! i)))"

definition up_inv :: "vsaas \<Rightarrow> int \<Rightarrow> u64 \<Rightarrow> cloud_call list \<Rightarrow> u64 \<Rightarrow> rsdk_frame list \<Rightarrow> rsdk_frame list list \<Rightarrow>
    rsdk_frame list \<Rightarrow> vsaas_post list \<Rightarrow> upload \<Rightarrow> bool" where
  "up_inv v ms base_ms calls t0 fs gss cur ps u \<longleftrightarrow> posted v base_ms calls t0 gss ps u \<and> concat gss @ cur = fs \<and>
     (\<exists>m. fresh m \<and> ul_mux u = fold ts_write (map au cur) m) \<and> ul_have_first u = (fs \<noteq> []) \<and>
     (fs \<noteq> [] \<longrightarrow> fr_pts (hd fs) = t0 \<and> ul_first_pts u = t0 \<and> ul_hdr_pts u = fr_pts (last fs) \<and>
        ul_slice_base_pts u = base_pts t0 gss (length gss))"

lemma base_pts_snoc [simp]:
  "i \<le> length gss \<Longrightarrow> base_pts t0 (gss @ [gs]) i = base_pts t0 gss i"
  "base_pts t0 (gss @ [gs]) (Suc (length gss)) = fr_pts (last gs)"
  by (auto simp: base_pts_def nth_append)

lemma full_slice_snoc [simp]: "i < length gss \<Longrightarrow> full_slice ms t0 (gss @ [gs]) i = full_slice ms t0 gss i"
  by (simp add: full_slice_def nth_append)

lemma up_inv_start: "up_inv v ms base_ms calls t0 [] [] [] [] (upload_start calls)"
  by (auto simp: up_inv_def posted_def upload_start_def fresh_def ts_mux_new_def intro!: exI[of _ "ts_mux_new False"])

lemma posted_upd:
  "posted v base_ms calls t0 gss ps (u\<lparr>ul_have_first := a, ul_first_pts := b, ul_slice_base_pts := c\<rparr>) = posted v base_ms calls t0 gss ps u"
  "posted v base_ms calls t0 gss ps (u\<lparr>ul_hdr_pts := d, ul_mux := m\<rparr>) = posted v base_ms calls t0 gss ps u"
  by (simp_all add: posted_def)

lemma up_inv_take:
  assumes I: "up_inv v ms base_ms calls t0 fs gss cur ps u" and t: "fs = [] \<Longrightarrow> t0 = fr_pts f"
  shows "up_inv v ms base_ms calls t0 (fs @ [f]) gss (cur @ [f]) ps (take_rsdk f u)"
proof (cases "fs = []")
  case True
  then have g: "gss = []" "cur = []" using I by (auto simp: up_inv_def posted_def)
    (metis length_greater_0_conv nth_mem)+
  show ?thesis using I True g t[OF True]
    by (auto simp: up_inv_def take_rsdk_def posted_upd au_def base_pts_def)
next
  case False
  then show ?thesis using I by (auto simp: up_inv_def take_rsdk_def posted_upd au_def)
qed

text \<open>A turn of the loop after a frame: nothing happens, or the frames since the last cut are posted.\<close>

lemma slice_step_cases:
  assumes I: "up_inv v ms base_ms calls t0 fs gss cur ps u" and ok: "\<forall>f \<in> set cur. au_ok (au f)"
    and u'_def: "u' = slice_step v ms url base_ms eof u"
    and due_def: "due \<longleftrightarrow> of_int ms \<le> (fr_pts (last fs) - base_pts t0 gss (length gss)) div 90"
  shows "cur = [] \<or> \<not> due \<and> \<not> eof \<Longrightarrow> u' = u"
    and "cur \<noteq> [] \<Longrightarrow> due \<or> eof \<Longrightarrow> \<exists>post. up_inv v ms base_ms calls t0 fs (gss @ [cur]) [] (ps @ [post]) u' \<and>
      po_event_end post = eof \<and> (full_slice ms t0 (gss @ [cur]) (length gss) = due)"
proof -
  obtain m where m: "fresh m" "ul_mux u = fold ts_write (map au cur) m" using I by (auto simp: up_inv_def)
  have cur0: "ts_mux_data (ul_mux u) = []" if "cur = []" using m that by (simp add: fresh_def ts_mux_data_def)
  have F: "ul_have_first u" "ul_hdr_pts u = fr_pts (last fs)" "ul_slice_base_pts u = base_pts t0 gss (length gss)"
    "ul_first_pts u = t0" "last fs = last cur" if "cur \<noteq> []"
    using I that by (auto simp: up_inv_def)
  show "u' = u" if "cur = [] \<or> \<not> due \<and> \<not> eof"
    using that cur0 F by (cases "cur = []") (auto simp: u'_def slice_step_def due_def Let_def)
  show "\<exists>post. up_inv v ms base_ms calls t0 fs (gss @ [cur]) [] (ps @ [post]) u' \<and>
      po_event_end post = eof \<and> (full_slice ms t0 (gss @ [cur]) (length gss) = due)" if c: "cur \<noteq> []" and d: "due \<or> eof"
  proof -
    note S = slice_of_run[OF m(1) c ok]
    let ?d = "ucast ((ul_hdr_pts u - ul_slice_base_pts u) div 90) :: u32"
    let ?post = "\<lparr>po_url = url, po_ts = ts_mux_data (ul_mux u), po_start_ms = base_ms + (base_pts t0 gss (length gss) - t0) div 90,
        po_dur_ms = (if ?d = 0 then of_int ms else ?d), po_event_end = eof\<rparr>"
    have u': "u' = u\<lparr>ul_rc_all := (if vs_post_ts v (ul_calls u) ?post then ul_rc_all u else -1),
                ul_calls := ul_calls u @ [PostTs ?post], ul_mux := ts_mux_reset (ul_mux u),
                ul_slice_base_pts := ul_hdr_pts u, ul_slice_idx := ul_slice_idx u + 1\<rparr>"
      using S(2) d F[OF c] m(2) unfolding u'_def slice_step_def Let_def due_def by auto
    have P: "posted v base_ms calls t0 gss ps u" and fs: "concat gss @ cur = fs" using I by (simp_all add: up_inv_def)
    have "posted v base_ms calls t0 (gss @ [cur]) (ps @ [?post]) u'"
      using P S(1) m(2) c unfolding u' by (auto simp: posted_def nth_append less_Suc_eq)
    moreover have "fresh (ts_mux_reset (ul_mux u))" by (simp add: fresh_def ts_mux_reset_def)
    ultimately have "up_inv v ms base_ms calls t0 fs (gss @ [cur]) [] (ps @ [?post]) u'"
      using I c F[OF c] fs P unfolding up_inv_def by (auto simp: u')
    moreover have "full_slice ms t0 (gss @ [cur]) (length gss) = due"
      using F(5)[OF c] by (simp add: full_slice_def due_def)
    ultimately show ?thesis by (intro exI[of _ ?post]) simp
  qed
qed

lemma feed_run:
  assumes "\<forall>f \<in> set fs. au_ok (au f)" "fs \<noteq> [] \<Longrightarrow> t0 = fr_pts (hd fs)"
  shows "\<exists>gss cur ps. up_inv v ms base_ms calls t0 fs gss cur ps (fold (feed v ms url base_ms) fs (upload_start calls)) \<and>
    (\<forall>i < length gss. \<not> po_event_end (ps ! i) \<and> full_slice ms t0 gss i) \<and>
    (cur \<noteq> [] \<longrightarrow> \<not> of_int ms \<le> (fr_pts (last fs) - base_pts t0 gss (length gss)) div 90)"
  using assms
proof (induction fs rule: rev_induct)
  case Nil
  show ?case using up_inv_start by fastforce
next
  case (snoc f fs)
  let ?u = "fold (feed v ms url base_ms) fs (upload_start calls)"
  have t: "t0 = fr_pts f" if "fs = []" using snoc.prems(2) that by simp
  have "\<exists>gss cur ps. up_inv v ms base_ms calls t0 fs gss cur ps ?u \<and>
    (\<forall>i < length gss. \<not> po_event_end (ps ! i) \<and> full_slice ms t0 gss i) \<and>
    (cur \<noteq> [] \<longrightarrow> \<not> of_int ms \<le> (fr_pts (last fs) - base_pts t0 gss (length gss)) div 90)"
    by (rule snoc.IH) (use snoc.prems in \<open>auto simp: hd_append\<close>)
  then obtain gss cur ps where I: "up_inv v ms base_ms calls t0 fs gss cur ps ?u"
    and full: "\<forall>i < length gss. \<not> po_event_end (ps ! i) \<and> full_slice ms t0 gss i" by blast
  let ?w = "take_rsdk f ?u"
  have T: "up_inv v ms base_ms calls t0 (fs @ [f]) gss (cur @ [f]) ps ?w" by (rule up_inv_take[OF I t])
  have ok: "\<forall>f \<in> set (cur @ [f]). au_ok (au f)" using snoc.prems(1) I by (auto simp: up_inv_def)
  have len: "length ps = length gss" using I by (simp add: up_inv_def posted_def)
  have fd: "fold (feed v ms url base_ms) (fs @ [f]) (upload_start calls) = slice_step v ms url base_ms False ?w"
    by (simp add: feed_def)
  note C = slice_step_cases[OF T ok refl refl, where url = url and eof = False]
  show ?case
  proof (cases "of_int ms \<le> (fr_pts f - base_pts t0 gss (length gss)) div 90")
    case True
    then obtain post where p: "up_inv v ms base_ms calls t0 (fs @ [f]) (gss @ [cur @ [f]]) [] (ps @ [post])
        (slice_step v ms url base_ms False ?w)" "\<not> po_event_end post" "full_slice ms t0 (gss @ [cur @ [f]]) (length gss)"
      using C(2) by auto
    have "\<forall>i < length (gss @ [cur @ [f]]). \<not> po_event_end ((ps @ [post]) ! i) \<and> full_slice ms t0 (gss @ [cur @ [f]]) i"
      using full p(2,3) len by (auto simp: nth_append less_Suc_eq)
    then show ?thesis unfolding fd using p(1) by blast
  next
    case False
    then have "slice_step v ms url base_ms False ?w = ?w" using C(1) by simp
    then show ?thesis unfolding fd using T full False by (intro exI[of _ gss] exI[of _ "cur @ [f]"] exI[of _ ps]) simp
  qed
qed

section \<open>Every event is settled\<close>

definition state_change :: "cloud_call \<Rightarrow> bool" where
  "state_change c \<longleftrightarrow> (case c of SetState i st err \<Rightarrow> True | _ \<Rightarrow> False)"

lemma slice_step_calls: "\<exists>ps. ul_calls (slice_step v ms url base_ms eof u) = ul_calls u @ map PostTs ps"
  by (auto simp: slice_step_def Let_def intro: exI[of _ "[]"] exI[of _ "[x]" for x])

lemma take_frame_calls [simp]: "ul_calls (take_frame h b u) = ul_calls u"
  by (simp add: take_frame_def Let_def)

lemma upload_loop_calls:
  assumes "upload_loop v ms url base_ms g p u = Some u'"
  shows "\<exists>ps. ul_calls u' = ul_calls u @ map PostTs ps"
proof (rule upload_loop.raw_induct[where P = "\<lambda>v ms url base_ms g p u u'. \<exists>ps. ul_calls u' = ul_calls u @ map PostTs ps", rotated])
  show "upload_loop v ms url base_ms g p u = Some u'" by (rule assms)
next
  fix loop :: "vsaas \<Rightarrow> int \<Rightarrow> string \<Rightarrow> u64 \<Rightarrow> rsdk_group \<Rightarrow> group_player \<Rightarrow> upload \<Rightarrow> upload option"
    and v ms url base_ms g p u u'
  assume IH: "\<And>v ms url base_ms g p u u'. loop v ms url base_ms g p u = Some u' \<Longrightarrow> \<exists>ps. ul_calls u' = ul_calls u @ map PostTs ps"
    and e: "(case rsdk_group_play_next g p of None \<Rightarrow> None
      | Some (r, p') \<Rightarrow> (case r of Inl e \<Rightarrow> Some (slice_step v ms url base_ms True u)
           | Inr x \<Rightarrow> loop v ms url base_ms g p' (slice_step v ms url base_ms False (take_frame (fst x) (fst (snd x)) u)))) = Some u'"
  show "\<exists>ps. ul_calls u' = ul_calls u @ map PostTs ps"
  proof (cases "rsdk_group_play_next g p")
    case None
    then show ?thesis using e by simp
  next
    case (Some rp)
    obtain r p' where rp: "rp = (r, p')" by fastforce
    show ?thesis
    proof (cases r)
      case (Inl er)
      then show ?thesis using e Some rp slice_step_calls[of v ms url base_ms True u] by auto
    next
      case (Inr x)
      let ?w = "slice_step v ms url base_ms False (take_frame (fst x) (fst (snd x)) u)"
      obtain ps where "ul_calls u' = ul_calls ?w @ map PostTs ps" using e Some rp Inr IH by fastforce
      moreover obtain qs where "ul_calls ?w = ul_calls u @ map PostTs qs"
        using slice_step_calls[of v ms url base_ms False "take_frame (fst x) (fst (snd x)) u"] by auto
      ultimately show ?thesis by (intro exI[of _ "qs @ ps"]) simp
    qed
  qed
qed

text \<open>\<open>settled\<close>: the calls for event \<open>i\<close> mark it as being uploaded, change no state in between, and end by
  marking it done or failed, in accordance with the result.\<close>

definition settled :: "cloud_call list \<Rightarrow> u64 \<Rightarrow> int \<Rightarrow> cloud_call list \<Rightarrow> bool" where
  "settled calls i rc calls' \<longleftrightarrow>
     (\<exists>mid st err. calls' = calls @ [SetState i RSDK_CLOUD_UPLOADING 0] @ mid @ [SetState i st err] \<and>
        (\<forall>c \<in> set mid. \<not> state_change c) \<and> (if rc = 0 then st = RSDK_CLOUD_DONE else st = RSDK_CLOUD_FAILED) \<and>
        (rc = -1000 \<longleftrightarrow> refused err))"

lemma settledI:
  assumes "\<forall>c \<in> set mid. \<not> state_change c" "if rc = 0 then st = RSDK_CLOUD_DONE else st = RSDK_CLOUD_FAILED"
    "rc = -1000 \<longleftrightarrow> refused err" "calls' = calls @ [SetState i RSDK_CLOUD_UPLOADING 0] @ mid @ [SetState i st err]"
  shows "settled calls i rc calls'"
  unfolding settled_def using assms by blast

lemma process_event_settles:
  assumes "process_event v up ev stoken calls = Some (rc, calls')"
  shows "settled calls (cv_event_id ev) rc calls'"
proof -
  let ?segs = "rsdk_group_query (up_group up) (cv_starttime ev) (cv_starttime ev + 300) (cv_chn ev) RSDK_REC_CONTINUOUS 64"
  let ?req = "GetUrl (uc_stage (up_cfg up)) (uc_udid (up_cfg up)) stoken (embed_starttime ev) (event_id_code (cv_rectype ev)) (event_tags ev)"
  let ?c = "calls @ [SetState (cv_event_id ev) RSDK_CLOUD_UPLOADING 0]"
  have req: "\<not> state_change ?req" by (simp add: state_change_def)
  have codes: "\<not> refused (-1)" "\<not> refused (-2)" "\<not> refused (-3)" "\<not> refused (-4)" "\<not> refused (-5)" "\<not> refused 0"
    by (simp_all add: refused_def)
  show ?thesis
  proof (cases "?segs = []")
    case True
    then show ?thesis using assms codes by (intro settledI[of "[]" _ _ "-1"]) (auto simp: process_event_def Let_def)
  next
    case ne: False
    show ?thesis
    proof (cases "rsdk_group_play_open (up_group up) ?segs")
      case (Some o1)
      show ?thesis
      proof (cases o1)
        case (Inl e)
        then show ?thesis using assms codes ne Some by (intro settledI[of "[]" _ _ "-2"]) (auto simp: process_event_def Let_def)
      next
        case (Inr pl)
        show ?thesis
        proof (cases "vs_get_url v ?c ?req")
          case None
          then show ?thesis using assms codes ne Some Inr req
            by (intro settledI[of "[?req]" _ _ "-3"]) (auto simp: process_event_def Let_def)
        next
          case url: (Some vu)
          show ?thesis
          proof (cases "refused (vu_err_code vu) \<or> \<not> vu_http_ok vu")
            case True
            then show ?thesis using assms codes ne Some Inr req url
              by (intro settledI[of "[?req]" _ _ "if refused (vu_err_code vu) then vu_err_code vu else -4"])
                (auto simp: process_event_def Let_def split: if_splits)
          next
            case False
            then obtain u where u: "upload_loop v (uc_slice_ms (up_cfg up)) (vu_url vu) (ucast (embed_starttime ev) * 1000) (up_group up) pl
                (upload_start (?c @ [?req])) = Some u"
              using assms ne Some Inr url by (auto simp: process_event_def Let_def split: option.splits)
            then obtain ps where ps: "ul_calls u = ?c @ ?req # map PostTs ps"
              using upload_loop_calls by (fastforce simp: upload_start_def)
            have "\<forall>c \<in> set (?req # map PostTs ps). \<not> state_change c" using req by (auto simp: state_change_def)
            then show ?thesis using assms codes ne Some Inr url False u ps
              by (intro settledI[of "?req # map PostTs ps" _ "if ul_rc_all u = 0 then RSDK_CLOUD_DONE else RSDK_CLOUD_FAILED" "if ul_rc_all u = 0 then 0 else -5"])
                (auto simp: process_event_def Let_def split: if_splits)
          qed
        qed
      qed
    qed (use assms ne in \<open>auto simp: process_event_def Let_def\<close>)
  qed
qed

section \<open>Properties\<close>

text \<open>C32: What an event's upload sends. When the segments of an event play, the slicing loop returns, and its posts
  are, in order, transport streams of consecutive groups of the recorded frames (for frames the packer handles); each
  carries its program tables and starts at the time of the last frame before it, relative to the first frame; every group
  but the last spans at least the slice duration; the last one is marked as the end of the event exactly if it does not span
  it; and the upload counts as successful exactly if every post was accepted.\<close>

theorem upload_slices:
  assumes "\<And>x. x \<in> set sf \<Longrightarrow> seg_plays g (fst x) (snd x)" "rsdk_group_play_open g (map fst sf) = Some (Inr p)"
    "fs = concat (map snd sf)" "\<forall>f \<in> set fs. au_ok (au f)" "fs \<noteq> []" "t0 = fr_pts (hd fs)"
  shows "\<exists>u gss ps. upload_loop v ms url base_ms g p (upload_start calls) = Some u \<and>
    ul_calls u = calls @ map PostTs ps \<and> concat gss = fs \<and> length ps = length gss \<and>
    (\<forall>i < length ps. gss ! i \<noteq> [] \<and> slice_of (gss ! i) (po_ts (ps ! i)) \<and>
       po_start_ms (ps ! i) = base_ms + (base_pts t0 gss i - t0) div 90 \<and>
       (Suc i < length ps \<longrightarrow> full_slice ms t0 gss i) \<and>
       (po_event_end (ps ! i) \<longleftrightarrow> Suc i = length ps \<and> \<not> full_slice ms t0 gss i)) \<and>
    (ul_rc_all u = 0 \<longleftrightarrow> (\<forall>i < length ps. vs_post_ts v (calls @ map PostTs (take i ps)) (ps ! i)))"
proof -
  have ne: "sf \<noteq> []" using assms(3,5) by auto
  have at: "gp_at p sf 0 0"
    using open_cur_at[of g sf 0 "\<lparr>gp_segs = map fst sf, gp_cur = 0, gp_pl = None, gp_seek_pts = 0, gp_seek_pending = False\<rparr>"]
      assms(1,2) ne by (auto simp: rsdk_group_play_open_def split: option.splits if_splits)
  let ?u = "fold (feed v ms url base_ms) fs (upload_start calls)" and ?fin = "slice_step v ms url base_ms True"
  have loop: "upload_loop v ms url base_ms g p (upload_start calls) = Some (?fin ?u)"
    using up.loop_from[OF at assms(1)] assms(3) by simp
  obtain gss cur ps where I: "up_inv v ms base_ms calls t0 fs gss cur ps ?u"
    and full: "\<forall>i < length gss. \<not> po_event_end (ps ! i) \<and> full_slice ms t0 gss i"
    and nd: "cur \<noteq> [] \<Longrightarrow> \<not> of_int ms \<le> (fr_pts (last fs) - base_pts t0 gss (length gss)) div 90"
    using feed_run[OF assms(4), of t0] assms(6) by blast
  have ok: "\<forall>f \<in> set cur. au_ok (au f)" using assms(4) I by (auto simp: up_inv_def)
  note C = slice_step_cases[OF I ok refl refl, where url = url and eof = True]
  show ?thesis
  proof (cases "cur = []")
    case True
    have "?fin ?u = ?u" using C(1) True by simp
    then show ?thesis using loop I full True
      by (intro exI[of _ ?u] exI[of _ gss] exI[of _ ps]) (auto simp: up_inv_def posted_def)
  next
    case False
    then obtain post where p: "up_inv v ms base_ms calls t0 fs (gss @ [cur]) [] (ps @ [post]) (?fin ?u)"
      "po_event_end post" "\<not> full_slice ms t0 (gss @ [cur]) (length gss)"
      using C(2) nd by auto
    have len: "length ps = length gss" using I by (simp add: up_inv_def posted_def)
    have "\<forall>i < length (ps @ [post]). (Suc i < length (ps @ [post]) \<longrightarrow> full_slice ms t0 (gss @ [cur]) i) \<and>
       (po_event_end ((ps @ [post]) ! i) \<longleftrightarrow> Suc i = length (ps @ [post]) \<and> \<not> full_slice ms t0 (gss @ [cur]) i)"
      using full p(2,3) len by (auto simp: nth_append less_Suc_eq)
    then show ?thesis using loop p(1)
      by (intro exI[of _ "?fin ?u"] exI[of _ "gss @ [cur]"] exI[of _ "ps @ [post]"]) (auto simp: up_inv_def posted_def)
  qed
qed

definition demo_vsaas :: vsaas where
  "demo_vsaas = \<lparr>vs_get_url = \<lambda>calls req. None, vs_post_ts = \<lambda>calls post. True\<rparr>"

lemma upload_slices_witness:
  "\<exists>g p u ps. upload_loop demo_vsaas 15000 '''' 0 g p (upload_start []) = Some u \<and> ul_calls u = map PostTs ps \<and>
     length ps = 1 \<and> slice_of [demo_frame 0] (po_ts (ps ! 0)) \<and> ul_rc_all u = 0"
proof -
  obtain d s where d: "sl_start_off s = 0" "plays (rsdk_play_open d s) (dv_crypto d) (sl_seg_id s) [demo_frame 0]"
    using demo_recorded by blast
  let ?g = "\<lparr>gr_devs = [d], gr_rr = 0\<rparr>" and ?sf = "[(retag 0 s, [demo_frame 0])]"
  have r: "plays (rsdk_play_open d (s\<lparr>sl_start_disk := v\<rparr>)) (dv_crypto d) (sl_seg_id s) [demo_frame 0]" for v
    using d(2) by (simp add: plays_def rsdk_play_open_def Let_def)
  have S: "\<And>x. x \<in> set ?sf \<Longrightarrow> seg_plays ?g (fst x) (snd x)"
    using d(1) r by (auto simp: seg_plays_def rsdk_group_dev_def) (simp_all add: retag_def)
  have "\<exists>p. rsdk_group_play_open ?g (map fst ?sf) = Some (Inr p)"
    using open_cur_at[of ?g ?sf 0 "\<lparr>gp_segs = map fst ?sf, gp_cur = 0, gp_pl = None, gp_seek_pts = 0, gp_seek_pending = False\<rparr>"] S
    by (auto simp: rsdk_group_play_open_def)
  then obtain p where p: "rsdk_group_play_open ?g (map fst ?sf) = Some (Inr p)" by blast
  have ok: "\<forall>f \<in> set (concat (map snd ?sf)). au_ok (au f)" by (simp add: au_def demo_frame_def)
  obtain u gss ps where U: "upload_loop demo_vsaas 15000 '''' 0 ?g p (upload_start []) = Some u" "ul_calls u = map PostTs ps"
    "concat gss = [demo_frame 0]" "length ps = length gss" "\<forall>i < length ps. gss ! i \<noteq> [] \<and> slice_of (gss ! i) (po_ts (ps ! i))"
    "ul_rc_all u = 0"
    using upload_slices[OF S p refl ok, where v = demo_vsaas and ms = 15000 and url = "''''" and base_ms = 0 and calls = "[]"]
    by (auto simp: demo_vsaas_def)
  have "\<forall>gs \<in> set gss. gs \<noteq> []" using U(4,5) by (metis in_set_conv_nth)
  then have "gss = [[demo_frame 0]]" using U(3) by (cases gss; cases "tl gss") (auto simp: append_eq_Cons_conv)
  then show ?thesis using U by (intro exI[of _ ?g] exI[of _ p] exI[of _ u] exI[of _ ps]) auto
qed

text \<open>The packer is created before the first frame tells the codec, so every stream is announced as H.264.\<close>

lemma upload_announces_h264:
  "\<not> tm_h265 (ul_mux (fold (feed v ms url base_ms) fs (upload_start calls)))"
proof (induction fs rule: rev_induct)
  case (snoc f fs)
  have w: "tm_h265 (fst (ts_mux_write_video m d t k)) = tm_h265 m" for m d t k
    by (simp add: ts_mux_write_video_def emit_pes_video_def ensure_psi_def emit_pat_def emit_pmt_def put_def split: prod.splits)
  have "tm_h265 (ul_mux (slice_step v ms url base_ms e u)) = tm_h265 (ul_mux u)" for e u
    by (simp add: slice_step_def ts_mux_reset_def Let_def)
  then show ?case using snoc by (simp add: feed_def take_rsdk_def w Let_def)
qed (simp add: upload_start_def ts_mux_new_def)

end
