(* ===== verification/App_Classify.thy ===== *)
theory App_Classify
  imports Prelude
begin

text \<open>
  components/onvif/src/nvr_dev_classify.c: from the scopes a camera announces over WS-Discovery to its class. A C string
  is a char list without NUL; a pointer into it is the rest of the list. Also the \<open>%d\<close> conversion of \<open>sscanf\<close>, which
  the channel manager uses too.
\<close>

datatype nvr_dev_kind = NVR_DEV_KIND_NOP | NVR_DEV_KIND_NOPONVIF | NVR_DEV_KIND_ONVIF
datatype nvr_backend = NVR_BACKEND_NOP | NVR_BACKEND_ONVIF

record nvr_dev_class =
  cl_kind :: nvr_dev_kind
  cl_backend :: nvr_backend
  cl_mac :: string
  cl_serial :: string
  cl_is_nightowl :: bool
  cl_nop_version_x :: int
  cl_active :: bool
  cl_bound :: bool

section \<open>The C library\<close>

definition code :: "char \<Rightarrow> nat" where "code c = of_char c"

definition tolower :: "char \<Rightarrow> char" where
  "tolower c = (if 65 \<le> code c \<and> code c \<le> 90 then char_of (code c + 32) else c)"

definition isdigit :: "char \<Rightarrow> bool" where "isdigit c \<longleftrightarrow> 48 \<le> code c \<and> code c \<le> 57"

definition isxdigit :: "char \<Rightarrow> bool" where
  "isxdigit c \<longleftrightarrow> isdigit c \<or> (65 \<le> code c \<and> code c \<le> 70) \<or> (97 \<le> code c \<and> code c \<le> 102)"

definition isspace :: "char \<Rightarrow> bool" where "isspace c \<longleftrightarrow> code c = 32 \<or> (9 \<le> code c \<and> code c \<le> 13)"

definition decimal :: "string \<Rightarrow> int" where
  "decimal ds = foldl (\<lambda>n d. n * 10 + (int (code d) - 48)) 0 ds"

text \<open>\<open>%d\<close>: blanks, an optional sign, digits; the value and what follows, or no match.\<close>

definition scan_d :: "string \<Rightarrow> (int \<times> string) option" where
  "scan_d s =
     (let s = dropWhile isspace s;
          neg = (s \<noteq> [] \<and> hd s = CHR ''-'');
          s = (if s \<noteq> [] \<and> (hd s = CHR ''-'' \<or> hd s = CHR ''+'') then tl s else s);
          ds = takeWhile isdigit s
      in if ds = [] then None else Some (if neg then - decimal ds else decimal ds, dropWhile isdigit s))"

section \<open>Classification\<close>

fun ci_prefix :: "string \<Rightarrow> string \<Rightarrow> bool" where
  "ci_prefix [] p = True"
| "ci_prefix (n # ns) [] = False"
| "ci_prefix (n # ns) (p # ps) = (tolower p = tolower n \<and> ci_prefix ns ps)"

fun ci_strstr :: "string \<Rightarrow> string \<Rightarrow> string option" where
  "ci_strstr [] needle = None"
| "ci_strstr (p # ps) needle =
     (if needle = [] then None else if ci_prefix needle (p # ps) then Some (p # ps) else ci_strstr ps needle)"

definition extract_mac :: "string \<Rightarrow> nat \<Rightarrow> string" where
  "extract_mac scopes cap =
     (case ci_strstr scopes ''/mac/'' of None \<Rightarrow> []
      | Some m \<Rightarrow> take (cap - 1) (takeWhile (\<lambda>c. isxdigit c \<or> c = CHR '':'' \<or> c = CHR ''-'') (drop 5 m)))"

definition extract_serial :: "string \<Rightarrow> nat \<Rightarrow> string" where
  "extract_serial scopes cap =
     (let found = (case ci_strstr scopes ''/serial/'' of Some m \<Rightarrow> Some (drop 8 m)
                   | None \<Rightarrow> map_option (drop 4) (ci_strstr scopes ''/sn/''))
      in case found of None \<Rightarrow> []
         | Some m \<Rightarrow> take (cap - 1) (takeWhile (\<lambda>c. code c \<notin> {32, 9, 13, 10} \<and> c \<noteq> CHR ''/'') m))"

fun nvr_dev_backend_of :: "nvr_dev_kind \<Rightarrow> nvr_backend" where
  "nvr_dev_backend_of kind = (if kind = NVR_DEV_KIND_NOP then NVR_BACKEND_NOP else NVR_BACKEND_ONVIF)"

fun nvr_dev_kind_name :: "nvr_dev_kind \<Rightarrow> string" where
  "nvr_dev_kind_name NVR_DEV_KIND_NOP = ''NOP''"
| "nvr_dev_kind_name NVR_DEV_KIND_NOPONVIF = ''NOPONVIF''"
| "nvr_dev_kind_name NVR_DEV_KIND_ONVIF = ''ONVIF''"

definition has :: "string \<Rightarrow> string \<Rightarrow> bool" where
  "has scopes needle \<longleftrightarrow> ci_strstr scopes needle \<noteq> None"

definition nvr_dev_classify :: "string option \<Rightarrow> nvr_dev_class" where
  "nvr_dev_classify scopes =
     (let scopes = (case scopes of Some s \<Rightarrow> s | None \<Rightarrow> []);
          mac = extract_mac scopes 24;
          mac_owl = (mac \<noteq> [] \<and> ci_strstr mac ''54:2b:57'' = Some mac);
          name_owl = (has scopes ''nightowl'' \<or> has scopes ''night_owl'');
          nv = ci_strstr scopes ''nopversion/'';
          version = (case nv of None \<Rightarrow> 0 | Some m \<Rightarrow> (case scan_d (drop 11 m) of Some (x, _) \<Rightarrow> x | None \<Rightarrow> 0));
          kind = (if nv \<noteq> None \<or> has scopes ''a1c2b3'' then NVR_DEV_KIND_NOP
                  else if has scopes ''noponvif'' then NVR_DEV_KIND_NOPONVIF else NVR_DEV_KIND_ONVIF)
      in \<lparr>cl_kind = kind, cl_backend = nvr_dev_backend_of kind, cl_mac = mac, cl_serial = extract_serial scopes 64,
          cl_is_nightowl = (mac_owl \<or> name_owl), cl_nop_version_x = version, cl_active = has scopes ''nopstate/active'',
          cl_bound = has scopes ''/bound''\<rparr>)"

text \<open>A search succeeds exactly if the needle occurs somewhere, letter case aside.\<close>

lemma ci_prefix_iff: "ci_prefix n p \<longleftrightarrow> (\<exists>a b. p = a @ b \<and> map tolower a = map tolower n)"
proof (induction n p rule: ci_prefix.induct)
  case (3 n ns p ps)
  show ?case
  proof
    assume "ci_prefix (n # ns) (p # ps)"
    then obtain a b where "ps = a @ b" "map tolower a = map tolower ns" "tolower p = tolower n" using 3 by auto
    then have "p # ps = (p # a) @ b \<and> map tolower (p # a) = map tolower (n # ns)" by simp
    then show "\<exists>a b. p # ps = a @ b \<and> map tolower a = map tolower (n # ns)" by blast
  next
    assume "\<exists>a b. p # ps = a @ b \<and> map tolower a = map tolower (n # ns)"
    then show "ci_prefix (n # ns) (p # ps)" using 3 by (auto simp: Cons_eq_append_conv)
  qed
qed auto

lemma has_iff:
  assumes "needle \<noteq> []"
  shows "has hay needle \<longleftrightarrow> (\<exists>a m b. hay = a @ m @ b \<and> map tolower m = map tolower needle)"
proof (induction hay)
  case Nil
  then show ?case using assms by (simp add: has_def)
next
  case (Cons p ps)
  show ?case
  proof (cases "ci_prefix needle (p # ps)")
    case True
    then obtain m b where "p # ps = [] @ m @ b" "map tolower m = map tolower needle" unfolding ci_prefix_iff by auto
    then have "\<exists>a m b. p # ps = a @ m @ b \<and> map tolower m = map tolower needle" by blast
    moreover have "has (p # ps) needle" using True assms by (simp add: has_def)
    ultimately show ?thesis by blast
  next
    case False
    have "(\<exists>a m b. p # ps = a @ m @ b \<and> map tolower m = map tolower needle) \<longleftrightarrow>
        (\<exists>a m b. ps = a @ m @ b \<and> map tolower m = map tolower needle)"
    proof
      assume "\<exists>a m b. p # ps = a @ m @ b \<and> map tolower m = map tolower needle"
      then obtain a m b where h: "p # ps = a @ m @ b" "map tolower m = map tolower needle" by blast
      have "a \<noteq> []" using h False unfolding ci_prefix_iff by auto
      then obtain a' where "ps = a' @ m @ b" using h(1) by (cases a) auto
      then show "\<exists>a m b. ps = a @ m @ b \<and> map tolower m = map tolower needle" using h(2) by blast
    next
      assume "\<exists>a m b. ps = a @ m @ b \<and> map tolower m = map tolower needle"
      then show "\<exists>a m b. p # ps = a @ m @ b \<and> map tolower m = map tolower needle" by (metis append_Cons)
    qed
    then show ?thesis using Cons False assms by (simp add: has_def)
  qed
qed

end
