(* ===== verification/App_Channel.thy ===== *)
theory App_Channel
  imports App_Classify
begin

text \<open>
  app/channel/nvr_channel.c: the channel manager of the NVR application, which binds cameras to channels, drives the
  streaming manager and tells the application when a channel comes up or goes down. The calls it makes on the
  streaming manager (components/streaming) and its two callbacks, both installed, are logged in \<open>cm_log\<close>; what it reads (the stream
  state, the URL an ONVIF query gives, the cameras a discovery finds, the clock) are arguments.
\<close>

definition NVR_MAX_CH :: nat where "NVR_MAX_CH = 32"
definition NVR_POE_PORTS :: int where "NVR_POE_PORTS = 16"
definition NVR_IP_CH_BASE :: nat where "NVR_IP_CH_BASE = 16"
definition NVR_CODEC_AUTO :: int where "NVR_CODEC_AUTO = -1"
definition NVR_STREAM_MAIN :: int where "NVR_STREAM_MAIN = 0"
definition NVR_STREAM_SUB :: int where "NVR_STREAM_SUB = 1"

datatype nvr_chan_status =
    NVR_CHAN_EMPTY | NVR_CHAN_BOUND | NVR_CHAN_CONNECTING | NVR_CHAN_ONLINE | NVR_CHAN_NOSIGNAL | NVR_CHAN_FAIL
  | NVR_CHAN_DISABLED

datatype nvr_ch_state = NVR_CH_IDLE | NVR_CH_CONNECTING | NVR_CH_PLAYING | NVR_CH_NOSIGNAL | NVR_CH_FAIL

record nvr_channel =
  ch_chn :: int
  ch_name :: string
  ch_url :: string
  ch_user :: string
  ch_pass :: string
  ch_codec :: int
  ch_stream :: int
  ch_record :: int
  ch_vout_win :: int
  ch_onvif_auto :: bool
  ch_onvif_ip :: string
  ch_onvif_port :: int
  ch_poe_port :: int
  ch_kind :: nvr_dev_kind
  ch_backend :: nvr_backend
  ch_enabled :: bool

record nvr_stream_chan_cfg =
  sc_chn :: int
  sc_url :: string
  sc_user :: string
  sc_pass :: string
  sc_codec :: int
  sc_stream :: int
  sc_record :: int
  sc_vout_win :: int
  sc_over_tcp :: int
  sc_enc_w :: int
  sc_enc_h :: int
  sc_fps :: int

datatype chan_act =
    StreamAdd nvr_stream_chan_cfg | StreamStart int | StreamStop int | StreamStartAll | StreamStopAll
  | Online int | Offline int

record chan_slot =
  cs_d :: nvr_channel
  cs_in_use :: bool
  cs_status :: nvr_chan_status
  cs_backoff_s :: int
  cs_next_retry :: int
  cs_notified_online :: bool

record nvr_chan_mgr =
  cm_base_s :: int
  cm_max_s :: int
  cm_slots :: "chan_slot list"
  cm_log :: "chan_act list"

fun nvr_chan_status_name :: "nvr_chan_status \<Rightarrow> string" where
  "nvr_chan_status_name NVR_CHAN_EMPTY = ''EMPTY''"
| "nvr_chan_status_name NVR_CHAN_BOUND = ''BOUND''"
| "nvr_chan_status_name NVR_CHAN_CONNECTING = ''CONNECTING''"
| "nvr_chan_status_name NVR_CHAN_ONLINE = ''ONLINE''"
| "nvr_chan_status_name NVR_CHAN_NOSIGNAL = ''NOSIGNAL''"
| "nvr_chan_status_name NVR_CHAN_FAIL = ''FAIL''"
| "nvr_chan_status_name NVR_CHAN_DISABLED = ''DISABLED''"

definition zero_channel :: nvr_channel where
  "zero_channel =
     \<lparr>ch_chn = 0, ch_name = [], ch_url = [], ch_user = [], ch_pass = [], ch_codec = 0, ch_stream = 0, ch_record = 0,
      ch_vout_win = 0, ch_onvif_auto = False, ch_onvif_ip = [], ch_onvif_port = 0, ch_poe_port = 0,
      ch_kind = NVR_DEV_KIND_NOP, ch_backend = NVR_BACKEND_NOP, ch_enabled = False\<rparr>"

definition zero_slot :: chan_slot where
  "zero_slot = \<lparr>cs_d = zero_channel, cs_in_use = False, cs_status = NVR_CHAN_EMPTY, cs_backoff_s = 0, cs_next_retry = 0,
     cs_notified_online = False\<rparr>"

definition slot_ok :: "int \<Rightarrow> bool" where
  "slot_ok chn \<longleftrightarrow> \<not> (chn < 0 \<or> int NVR_MAX_CH \<le> chn)"

definition nvr_chan_mgr_init :: "int \<Rightarrow> int \<Rightarrow> nvr_chan_mgr" where
  "nvr_chan_mgr_init base max_s =
     \<lparr>cm_base_s = (if base \<le> 0 then 5 else base), cm_max_s = (if max_s \<le> 0 then 30 else max_s),
      cm_slots = replicate NVR_MAX_CH zero_slot, cm_log = []\<rparr>"

definition do_act :: "chan_act \<Rightarrow> nvr_chan_mgr \<Rightarrow> nvr_chan_mgr" where
  "do_act a m = m\<lparr>cm_log := cm_log m @ [a]\<rparr>"

definition set_slot :: "nat \<Rightarrow> chan_slot \<Rightarrow> nvr_chan_mgr \<Rightarrow> nvr_chan_mgr" where
  "set_slot i s m = m\<lparr>cm_slots := (cm_slots m)[i := s]\<rparr>"

text \<open>\<open>nvr_onvif_get_url\<close>: address, port, user, password and stream name to a URL, or no answer.\<close>

type_synonym onvif_url = "string \<Rightarrow> int \<Rightarrow> string \<Rightarrow> string \<Rightarrow> string \<Rightarrow> string option"

definition resolve_url :: "onvif_url \<Rightarrow> nvr_channel \<Rightarrow> nat \<Rightarrow> string option" where
  "resolve_url get_url d cap =
     (if ch_url d \<noteq> [] then Some (take (cap - 1) (ch_url d))
      else if ch_onvif_auto d \<and> ch_onvif_ip d \<noteq> []
      then get_url (ch_onvif_ip d) (ch_onvif_port d) (ch_user d) (ch_pass d)
             (if ch_stream d = NVR_STREAM_SUB then ''sub'' else ''main'')
      else None)"

definition stream_cfg :: "nvr_channel \<Rightarrow> string \<Rightarrow> nvr_stream_chan_cfg" where
  "stream_cfg d url =
     \<lparr>sc_chn = ch_chn d, sc_url = url, sc_user = take 63 (ch_user d), sc_pass = take 63 (ch_pass d), sc_codec = ch_codec d,
      sc_stream = ch_stream d, sc_record = ch_record d, sc_vout_win = ch_vout_win d, sc_over_tcp = 1,
      sc_enc_w = 0, sc_enc_h = 0, sc_fps = 0\<rparr>"

definition install_slot :: "onvif_url \<Rightarrow> nvr_channel \<Rightarrow> nvr_chan_mgr \<Rightarrow> nvr_chan_mgr \<times> int" where
  "install_slot get_url d m =
     (if \<not> slot_ok (ch_chn d) then (m, -1)
      else let i = nat (ch_chn d);
               s = (cm_slots m ! i)\<lparr>cs_d := d, cs_in_use := True, cs_backoff_s := cm_base_s m, cs_next_retry := 0,
                     cs_notified_online := False\<rparr>
      in if \<not> ch_enabled d then (set_slot i (s\<lparr>cs_status := NVR_CHAN_DISABLED\<rparr>) m, 0)
      else (case resolve_url get_url d 256 of
          Some url \<Rightarrow> (set_slot i (s\<lparr>cs_status := NVR_CHAN_BOUND\<rparr>) (do_act (StreamAdd (stream_cfg d url)) m), ch_chn d)
        | None \<Rightarrow> (set_slot i (s\<lparr>cs_status := NVR_CHAN_BOUND\<rparr>) m, ch_chn d)))"

fun nvr_chan_load_config :: "onvif_url \<Rightarrow> nvr_channel list \<Rightarrow> nvr_chan_mgr \<Rightarrow> nvr_chan_mgr \<times> int" where
  "nvr_chan_load_config get_url [] m = (m, 0)"
| "nvr_chan_load_config get_url (e # es) m =
     (if ch_chn e < 0 \<or> int NVR_MAX_CH \<le> ch_chn e then nvr_chan_load_config get_url es m
      else case install_slot get_url e m of (m, r) \<Rightarrow>
        case nvr_chan_load_config get_url es m of (m, n) \<Rightarrow> (m, if 0 \<le> r then n + 1 else n))"

definition nvr_chan_remove :: "int \<Rightarrow> nvr_chan_mgr \<Rightarrow> nvr_chan_mgr \<times> int" where
  "nvr_chan_remove chn m =
     (if \<not> slot_ok chn \<or> \<not> cs_in_use (cm_slots m ! nat chn) then (m, -1)
      else let s = cm_slots m ! nat chn;
               m = do_act (StreamStop chn) m;
               m = (if cs_notified_online s then do_act (Offline chn) m else m)
           in (set_slot (nat chn) zero_slot m, 0))"

definition nvr_chan_add :: "onvif_url \<Rightarrow> nvr_channel \<Rightarrow> nvr_chan_mgr \<Rightarrow> nvr_chan_mgr \<times> int" where
  "nvr_chan_add get_url desc m =
     (if \<not> slot_ok (ch_chn desc) then (m, -1)
      else let m = (if cs_in_use (cm_slots m ! nat (ch_chn desc)) then fst (nvr_chan_remove (ch_chn desc) m) else m)
           in install_slot get_url desc m)"

text \<open>\<open>"Camera %d"\<close> of a positive number.\<close>

definition camera_name :: "int \<Rightarrow> string" where
  "camera_name k = take 63 (''Camera '' @ show_nat (nat k))"

definition nvr_chan_bind_poe ::
  "onvif_url \<Rightarrow> int \<Rightarrow> string option \<Rightarrow> string option \<Rightarrow> string option \<Rightarrow> nvr_chan_mgr \<Rightarrow> nvr_chan_mgr \<times> int" where
  "nvr_chan_bind_poe get_url poe_port ip user pass m =
     (if poe_port < 1 \<or> NVR_POE_PORTS < poe_port then (m, -1)
      else nvr_chan_add get_url (zero_channel\<lparr>ch_chn := poe_port - 1, ch_enabled := True, ch_record := 1, ch_poe_port := poe_port,
        ch_onvif_auto := True, ch_onvif_port := 80, ch_stream := NVR_STREAM_MAIN, ch_codec := NVR_CODEC_AUTO,
        ch_vout_win := poe_port - 1, ch_name := camera_name poe_port,
        ch_onvif_ip := take 63 (case ip of Some a \<Rightarrow> a | None \<Rightarrow> []),
        ch_user := take 63 (case user of Some u \<Rightarrow> u | None \<Rightarrow> ''admin''),
        ch_pass := take 63 (case pass of Some p \<Rightarrow> p | None \<Rightarrow> [])\<rparr>) m)"

definition reclassify :: "nat \<Rightarrow> nvr_dev_class \<Rightarrow> nvr_chan_mgr \<Rightarrow> nvr_chan_mgr" where
  "reclassify i c m =
     (let s = cm_slots m ! i in set_slot i (s\<lparr>cs_d := (cs_d s)\<lparr>ch_kind := cl_kind c, ch_backend := cl_backend c\<rparr>\<rparr>) m)"

definition nvr_chan_apply_discovery :: "int \<Rightarrow> string option \<Rightarrow> nvr_chan_mgr \<Rightarrow> nvr_chan_mgr \<times> int" where
  "nvr_chan_apply_discovery chn scopes m =
     (if \<not> slot_ok chn \<or> \<not> cs_in_use (cm_slots m ! nat chn) then (m, -1)
      else (reclassify (nat chn) (nvr_dev_classify scopes) m, 0))"

section \<open>Discovery\<close>

record nvr_onvif_cam =
  oc_host :: string
  oc_port :: int
  oc_scopes :: string

fun find_chn :: "(chan_slot \<Rightarrow> bool) \<Rightarrow> chan_slot list \<Rightarrow> int \<Rightarrow> int" where
  "find_chn P [] i = -1"
| "find_chn P (s # ss) i = (if P s then i else find_chn P ss (i + 1))"

definition chn_by_host :: "nvr_chan_mgr \<Rightarrow> string \<Rightarrow> int" where
  "chn_by_host m host = find_chn (\<lambda>s. cs_in_use s \<and> ch_onvif_ip (cs_d s) = host) (cm_slots m) 0"

definition free_ip_chn :: "nvr_chan_mgr \<Rightarrow> int" where
  "free_ip_chn m = find_chn (\<lambda>s. \<not> cs_in_use s) (drop NVR_IP_CH_BASE (cm_slots m)) (int NVR_IP_CH_BASE)"

text \<open>\<open>sscanf(host, "%d.%d.%d.%d")\<close> when all four are converted.\<close>

fun scan_dotted :: "nat \<Rightarrow> string \<Rightarrow> int list option" where
  "scan_dotted n s =
     (case scan_d s of None \<Rightarrow> None
      | Some (x, rest) \<Rightarrow>
          (case n of 0 \<Rightarrow> Some [x]
           | Suc k \<Rightarrow> if rest \<noteq> [] \<and> hd rest = CHR ''.'' then map_option ((#) x) (scan_dotted k (tl rest)) else None))"

declare scan_dotted.simps [simp del]

text \<open>The channel for a new camera: the port's own on the PoE network 198.18, else a free LAN channel.\<close>

definition discovered_chn :: "string \<Rightarrow> nvr_chan_mgr \<Rightarrow> int" where
  "discovered_chn host m =
     (case scan_dotted 3 host of
        Some [a, b, cc, dd] \<Rightarrow> if a = 198 \<and> b = 18 \<and> 1 \<le> cc \<and> cc \<le> NVR_POE_PORTS then cc - 1 else free_ip_chn m
      | _ \<Rightarrow> free_ip_chn m)"

definition discovered_channel :: "nvr_onvif_cam \<Rightarrow> nvr_dev_class \<Rightarrow> int \<Rightarrow> nvr_channel" where
  "discovered_channel cam cls chn =
     zero_channel\<lparr>ch_chn := chn, ch_enabled := True, ch_record := 1,
       ch_poe_port := (if chn < NVR_POE_PORTS then chn + 1 else 0), ch_onvif_auto := True,
       ch_onvif_port := (if 0 < oc_port cam then oc_port cam else 80), ch_stream := NVR_STREAM_MAIN,
       ch_codec := NVR_CODEC_AUTO, ch_vout_win := chn, ch_kind := cl_kind cls, ch_backend := cl_backend cls,
       ch_onvif_ip := take 63 (oc_host cam), ch_user := ''admin'', ch_name := camera_name (chn + 1)\<rparr>"

definition on_discovered :: "onvif_url \<Rightarrow> nvr_onvif_cam \<Rightarrow> nvr_chan_mgr \<times> int \<Rightarrow> nvr_chan_mgr \<times> int" where
  "on_discovered get_url cam = (\<lambda>(m, bound).
     if oc_host cam = [] then (m, bound)
     else let cls = nvr_dev_classify (Some (oc_scopes cam)); chn = chn_by_host m (oc_host cam)
     in if 0 \<le> chn then (reclassify (nat chn) cls m, bound)
     else let chn = discovered_chn (oc_host cam) m
     in if chn < 0 \<or> cs_in_use (cm_slots m ! nat chn) then (m, bound)
     else case nvr_chan_add get_url (discovered_channel cam cls chn) m of
          (m, r) \<Rightarrow> (m, if 0 \<le> r then bound + 1 else bound))"

definition nvr_chan_run_discovery :: "onvif_url \<Rightarrow> nvr_onvif_cam list \<Rightarrow> nvr_chan_mgr \<Rightarrow> nvr_chan_mgr \<times> int" where
  "nvr_chan_run_discovery get_url cams m = fold (on_discovered get_url) cams (m, 0)"

section \<open>Running\<close>

definition nvr_chan_start_all :: "nvr_chan_mgr \<Rightarrow> nvr_chan_mgr" where
  "nvr_chan_start_all m = do_act StreamStartAll m"

definition nvr_chan_stop_all :: "nvr_chan_mgr \<Rightarrow> nvr_chan_mgr" where
  "nvr_chan_stop_all m =
     (do_act StreamStopAll m)\<lparr>cm_slots := map (\<lambda>s. if cs_in_use s then s\<lparr>cs_status := NVR_CHAN_BOUND\<rparr> else s) (cm_slots m)\<rparr>"

text \<open>The first half of \<open>tick_slot\<close>: a channel whose URL was not known yet is resolved and started.\<close>

definition tick_resolve :: "onvif_url \<Rightarrow> chan_slot \<Rightarrow> chan_slot \<times> chan_act list" where
  "tick_resolve get_url s =
     (let d = cs_d s in
      if ch_url d = [] \<and> ch_onvif_auto d \<and> ch_onvif_ip d \<noteq> []
      then (case resolve_url get_url d 256 of
              None \<Rightarrow> (s, [])
            | Some url \<Rightarrow> (s\<lparr>cs_d := d\<lparr>ch_url := take 255 url\<rparr>\<rparr>, [StreamAdd (stream_cfg d (take 255 url)), StreamStart (ch_chn d)]))
      else (s, []))"

text \<open>The second half: the stream state becomes the channel's, with the notices and the retry it causes.\<close>

definition tick_retry :: "int \<Rightarrow> int \<Rightarrow> chan_slot \<Rightarrow> chan_slot \<times> chan_act list" where
  "tick_retry max_s now s =
     (if cs_next_retry s \<le> now
      then (s\<lparr>cs_next_retry := now + cs_backoff_s s,
              cs_backoff_s := (if max_s < cs_backoff_s s * 2 then max_s else cs_backoff_s s * 2)\<rparr>,
            [StreamStop (ch_chn (cs_d s)), StreamStart (ch_chn (cs_d s))])
      else (s, []))"

definition tick_state :: "int \<Rightarrow> int \<Rightarrow> int \<Rightarrow> nvr_ch_state \<Rightarrow> chan_slot \<Rightarrow> chan_slot \<times> chan_act list" where
  "tick_state base max_s now st s =
     (let chn = ch_chn (cs_d s) in
      case st of
        NVR_CH_PLAYING \<Rightarrow>
          (s\<lparr>cs_status := NVR_CHAN_ONLINE, cs_backoff_s := base, cs_notified_online := True\<rparr>,
           if \<not> cs_notified_online s then [Online chn] else [])
      | NVR_CH_CONNECTING \<Rightarrow> (s\<lparr>cs_status := NVR_CHAN_CONNECTING\<rparr>, [])
      | NVR_CH_IDLE \<Rightarrow> (s, [])
      | _ \<Rightarrow>
          (case tick_retry max_s now (s\<lparr>cs_status := (if st = NVR_CH_NOSIGNAL then NVR_CHAN_NOSIGNAL else NVR_CHAN_FAIL),
              cs_notified_online := False\<rparr>) of
             (s', acts) \<Rightarrow> (s', (if cs_notified_online s then [Offline chn] else []) @ acts)))"

definition tick_slot :: "onvif_url \<Rightarrow> int \<Rightarrow> int \<Rightarrow> int \<Rightarrow> (int \<Rightarrow> nvr_ch_state) \<Rightarrow> chan_slot \<Rightarrow> chan_slot \<times> chan_act list" where
  "tick_slot get_url base max_s now stream s =
     (if cs_status s = NVR_CHAN_DISABLED then (s, [])
      else case tick_resolve get_url s of (s, acts1) \<Rightarrow>
        case tick_state base max_s now (stream (ch_chn (cs_d s))) s of (s, acts2) \<Rightarrow> (s, acts1 @ acts2))"

text \<open>The stream states are those read while the tick runs; the calls of a slot do not change another's.\<close>

definition tick_one :: "onvif_url \<Rightarrow> int \<Rightarrow> (int \<Rightarrow> nvr_ch_state) \<Rightarrow> nat \<Rightarrow> nvr_chan_mgr \<Rightarrow> nvr_chan_mgr" where
  "tick_one get_url now stream i m =
     (let s = cm_slots m ! i in
      if cs_in_use s
      then case tick_slot get_url (cm_base_s m) (cm_max_s m) now stream s of
             (s, acts) \<Rightarrow> (set_slot i s m)\<lparr>cm_log := cm_log m @ acts\<rparr>
      else m)"

definition nvr_chan_tick :: "onvif_url \<Rightarrow> int \<Rightarrow> (int \<Rightarrow> nvr_ch_state) \<Rightarrow> nvr_chan_mgr \<Rightarrow> nvr_chan_mgr" where
  "nvr_chan_tick get_url now stream m = fold (tick_one get_url now stream) [0..<NVR_MAX_CH] m"

definition nvr_chan_get :: "nvr_chan_mgr \<Rightarrow> int \<Rightarrow> nvr_channel option" where
  "nvr_chan_get m chn =
     (if \<not> slot_ok chn \<or> \<not> cs_in_use (cm_slots m ! nat chn) then None else Some (cs_d (cm_slots m ! nat chn)))"

fun chan_list_loop :: "chan_slot list \<Rightarrow> int \<Rightarrow> nvr_channel list" where
  "chan_list_loop [] cap = []"
| "chan_list_loop (s # ss) cap =
     (if cap \<le> 0 then [] else if cs_in_use s then cs_d s # chan_list_loop ss (cap - 1) else chan_list_loop ss cap)"

definition nvr_chan_list :: "nvr_chan_mgr \<Rightarrow> int \<Rightarrow> nvr_channel list" where
  "nvr_chan_list m cap = chan_list_loop (cm_slots m) cap"

definition nvr_chan_status_of :: "nvr_chan_mgr \<Rightarrow> int \<Rightarrow> nvr_chan_status" where
  "nvr_chan_status_of m chn =
     (if slot_ok chn \<and> cs_in_use (cm_slots m ! nat chn) then cs_status (cm_slots m ! nat chn) else NVR_CHAN_EMPTY)"

section \<open>Notices\<close>

text \<open>The notices of channel \<open>chn\<close> in a log (True for up), and whether they alternate from a state.\<close>

fun notices :: "int \<Rightarrow> chan_act list \<Rightarrow> bool list" where
  "notices chn [] = []"
| "notices chn (Online c # as) = (if c = chn then True # notices chn as else notices chn as)"
| "notices chn (Offline c # as) = (if c = chn then False # notices chn as else notices chn as)"
| "notices chn (a # as) = notices chn as"

fun alternate :: "bool \<Rightarrow> bool list \<Rightarrow> bool" where
  "alternate up [] = True"
| "alternate up (x # xs) = (x = (\<not> up) \<and> alternate x xs)"

fun after :: "bool \<Rightarrow> bool list \<Rightarrow> bool" where
  "after up [] = up"
| "after up (x # xs) = after x xs"

lemma notices_append [simp]: "notices c (as @ bs) = notices c as @ notices c bs"
  by (induction c as rule: notices.induct) simp_all

lemma alternate_append [simp]: "alternate up (xs @ ys) \<longleftrightarrow> alternate up xs \<and> alternate (after up xs) ys"
  by (induction up xs rule: alternate.induct) simp_all

lemma after_append [simp]: "after up (xs @ ys) = after (after up xs) ys"
  by (induction up xs rule: after.induct) simp_all

definition mgr_inv :: "nvr_chan_mgr \<Rightarrow> bool" where
  "mgr_inv m \<longleftrightarrow> length (cm_slots m) = NVR_MAX_CH \<and>
     (\<forall>i < NVR_MAX_CH. let s = cm_slots m ! i in
        (cs_in_use s \<longrightarrow> ch_chn (cs_d s) = int i) \<and> (\<not> cs_in_use s \<longrightarrow> \<not> cs_notified_online s) \<and>
        (cs_status s = NVR_CHAN_ONLINE \<longrightarrow> cs_notified_online s) \<and>
        alternate False (notices (int i) (cm_log m)) \<and> after False (notices (int i) (cm_log m)) = cs_notified_online s)"

text \<open>Replacing one slot and appending actions of its own channel keeps the invariant.\<close>

lemma mgr_inv_set:
  assumes "mgr_inv m" "i < NVR_MAX_CH" "\<And>j. j \<noteq> int i \<Longrightarrow> notices j acts = []"
    "cs_in_use s \<Longrightarrow> ch_chn (cs_d s) = int i" "\<not> cs_in_use s \<Longrightarrow> \<not> cs_notified_online s"
    "cs_status s = NVR_CHAN_ONLINE \<Longrightarrow> cs_notified_online s"
    "alternate (cs_notified_online (cm_slots m ! i)) (notices (int i) acts)"
    "after (cs_notified_online (cm_slots m ! i)) (notices (int i) acts) = cs_notified_online s"
  shows "mgr_inv ((set_slot i s m)\<lparr>cm_log := cm_log m @ acts\<rparr>)"
  unfolding mgr_inv_def Let_def
proof (intro conjI allI impI)
  show "length (cm_slots ((set_slot i s m)\<lparr>cm_log := cm_log m @ acts\<rparr>)) = NVR_MAX_CH"
    using assms(1) by (simp add: mgr_inv_def set_slot_def)
next
  fix j assume j: "j < NVR_MAX_CH"
  let ?m = "(set_slot i s m)\<lparr>cm_log := cm_log m @ acts\<rparr>" let ?s = "cm_slots ?m ! j"
  have J: "(cs_in_use ?s \<longrightarrow> ch_chn (cs_d ?s) = int j) \<and> (\<not> cs_in_use ?s \<longrightarrow> \<not> cs_notified_online ?s) \<and>
      (cs_status ?s = NVR_CHAN_ONLINE \<longrightarrow> cs_notified_online ?s) \<and>
      alternate False (notices (int j) (cm_log ?m)) \<and> after False (notices (int j) (cm_log ?m)) = cs_notified_online ?s"
    using assms j by (cases "j = i") (simp_all add: mgr_inv_def set_slot_def Let_def)
  then show "cs_in_use ?s \<Longrightarrow> ch_chn (cs_d ?s) = int j" "\<not> cs_in_use ?s \<Longrightarrow> \<not> cs_notified_online ?s"
    "cs_status ?s = NVR_CHAN_ONLINE \<Longrightarrow> cs_notified_online ?s"
    "alternate False (notices (int j) (cm_log ?m))" "after False (notices (int j) (cm_log ?m)) = cs_notified_online ?s"
    by blast+
qed

lemma set_slot_act: "set_slot i s (do_act a m) = (set_slot i s m)\<lparr>cm_log := cm_log m @ [a]\<rparr>"
  by (cases m) (simp add: set_slot_def do_act_def)

lemma slot_ok_nat: "slot_ok c \<Longrightarrow> nat c < NVR_MAX_CH \<and> int (nat c) = c"
  by (auto simp: slot_ok_def)

lemma mgr_invD: "mgr_inv m \<Longrightarrow> i < NVR_MAX_CH \<Longrightarrow> \<not> cs_in_use (cm_slots m ! i) \<Longrightarrow> \<not> cs_notified_online (cm_slots m ! i)"
  "mgr_inv m \<Longrightarrow> i < NVR_MAX_CH \<Longrightarrow> cs_in_use (cm_slots m ! i) \<Longrightarrow> ch_chn (cs_d (cm_slots m ! i)) = int i"
  "mgr_inv m \<Longrightarrow> i < NVR_MAX_CH \<Longrightarrow> cs_status (cm_slots m ! i) = NVR_CHAN_ONLINE \<Longrightarrow> cs_notified_online (cm_slots m ! i)"
  "mgr_inv m \<Longrightarrow> length (cm_slots m) = NVR_MAX_CH"
  by (auto simp: mgr_inv_def Let_def)

lemma install_inv:
  assumes "mgr_inv m" "slot_ok (ch_chn d) \<Longrightarrow> \<not> cs_notified_online (cm_slots m ! nat (ch_chn d))"
  shows "mgr_inv (fst (install_slot get_url d m))"
proof (cases "slot_ok (ch_chn d)")
  case True
  let ?i = "nat (ch_chn d)"
  have i: "?i < NVR_MAX_CH" "int ?i = ch_chn d" using slot_ok_nat[OF True] by auto
  have log: "mgr_inv ((set_slot ?i s m)\<lparr>cm_log := cm_log m @ acts\<rparr>)"
    if "cs_in_use s" "cs_d s = d" "\<not> cs_notified_online s" "cs_status s \<noteq> NVR_CHAN_ONLINE" "\<And>j. notices j acts = []" for s acts
    using that assms i True by (intro mgr_inv_set) auto
  have nolog: "(set_slot i s m)\<lparr>cm_log := cm_log m @ []\<rparr> = set_slot i s m" for i s by (simp add: set_slot_def)
  show ?thesis
  proof (cases "resolve_url get_url d 256")
    case None
    then show ?thesis using True log[of _ "[]", unfolded nolog] by (simp add: install_slot_def Let_def)
  next
    case (Some url)
    then show ?thesis using True log[of _ "[]", unfolded nolog] log[of _ "[StreamAdd (stream_cfg d url)]"]
      by (simp add: install_slot_def Let_def set_slot_act)
  qed
qed (simp add: install_slot_def assms(1))

lemma remove_inv:
  assumes "mgr_inv m"
  shows "mgr_inv (fst (nvr_chan_remove c m))" "slot_ok c \<Longrightarrow> \<not> cs_in_use (cm_slots (fst (nvr_chan_remove c m)) ! nat c)"
proof -
  have "mgr_inv (fst (nvr_chan_remove c m)) \<and> (slot_ok c \<longrightarrow> \<not> cs_in_use (cm_slots (fst (nvr_chan_remove c m)) ! nat c))"
  proof (cases "slot_ok c \<and> cs_in_use (cm_slots m ! nat c)")
    case True
    have i: "nat c < NVR_MAX_CH" "int (nat c) = c" using slot_ok_nat True by auto
    let ?n = "cs_notified_online (cm_slots m ! nat c)"
    let ?acts = "StreamStop c # (if ?n then [Offline c] else [])"
    have "mgr_inv ((set_slot (nat c) zero_slot m)\<lparr>cm_log := cm_log m @ ?acts\<rparr>)"
      using assms i by (intro mgr_inv_set) (auto simp: zero_slot_def)
    moreover have "fst (nvr_chan_remove c m) = (set_slot (nat c) zero_slot m)\<lparr>cm_log := cm_log m @ ?acts\<rparr>"
      using True by (simp add: nvr_chan_remove_def Let_def set_slot_def do_act_def)
    ultimately show ?thesis using i assms by (simp add: set_slot_def mgr_invD(4) zero_slot_def)
  qed (auto simp: nvr_chan_remove_def assms)
  then show "mgr_inv (fst (nvr_chan_remove c m))" "slot_ok c \<Longrightarrow> \<not> cs_in_use (cm_slots (fst (nvr_chan_remove c m)) ! nat c)"
    by auto
qed

lemma add_inv:
  assumes "mgr_inv m"
  shows "mgr_inv (fst (nvr_chan_add get_url d m))"
proof (cases "slot_ok (ch_chn d)")
  case True
  let ?m = "if cs_in_use (cm_slots m ! nat (ch_chn d)) then fst (nvr_chan_remove (ch_chn d) m) else m"
  have "mgr_inv ?m" "\<not> cs_in_use (cm_slots ?m ! nat (ch_chn d))" using assms remove_inv True by auto
  then show ?thesis using True install_inv[of ?m d get_url] mgr_invD(1)[of ?m] slot_ok_nat
    by (simp add: nvr_chan_add_def Let_def)
qed (simp add: nvr_chan_add_def assms)

lemma bind_inv: "mgr_inv m \<Longrightarrow> mgr_inv (fst (nvr_chan_bind_poe get_url p ip u pw m))"
  by (simp add: nvr_chan_bind_poe_def add_inv)

lemma reclassify_inv:
  assumes "mgr_inv m" "i < NVR_MAX_CH"
  shows "mgr_inv (reclassify i c m)"
proof -
  let ?s = "(cm_slots m ! i)\<lparr>cs_d := (cs_d (cm_slots m ! i))\<lparr>ch_kind := cl_kind c, ch_backend := cl_backend c\<rparr>\<rparr>"
  have "mgr_inv ((set_slot i ?s m)\<lparr>cm_log := cm_log m @ []\<rparr>)"
    using mgr_invD(1-3)[OF assms] assms by (intro mgr_inv_set) auto
  then show ?thesis by (simp add: reclassify_def Let_def set_slot_def)
qed

lemma find_chn_bound: "find_chn P ss k = -1 \<or> k \<le> find_chn P ss k \<and> find_chn P ss k < k + int (length ss)"
proof (induction ss arbitrary: k)
  case (Cons a ss)
  show ?case using Cons.IH[of "k + 1"] by auto
qed simp

lemma discovered_inv:
  assumes "mgr_inv (fst mb)"
  shows "mgr_inv (fst (on_discovered get_url cam mb))"
proof -
  obtain m b where mb: "mb = (m, b)" by fastforce
  have m: "mgr_inv m" using assms mb by simp
  let ?cls = "nvr_dev_classify (Some (oc_scopes cam))"
  have host: "chn_by_host m (oc_host cam) = -1 \<or> 0 \<le> chn_by_host m (oc_host cam) \<and> nat (chn_by_host m (oc_host cam)) < NVR_MAX_CH"
    using find_chn_bound[of "\<lambda>s. cs_in_use s \<and> ch_onvif_ip (cs_d s) = oc_host cam" "cm_slots m" 0] mgr_invD(4)[OF m]
    by (auto simp: chn_by_host_def)
  obtain m2 r where a: "nvr_chan_add get_url (discovered_channel cam ?cls (discovered_chn (oc_host cam) m)) m = (m2, r)" by fastforce
  have "mgr_inv m2" using add_inv[OF m] a by (metis fst_conv)
  then show ?thesis using m host reclassify_inv[OF m] a by (auto simp: mb on_discovered_def Let_def)
qed

lemma discovery_inv: "mgr_inv m \<Longrightarrow> mgr_inv (fst (nvr_chan_run_discovery get_url cams m))"
  unfolding nvr_chan_run_discovery_def by (rule fold_invariant[where P = "\<lambda>mb. mgr_inv (fst mb)"]) (simp_all add: discovered_inv)

text \<open>What a tick does to its slot.\<close>

lemma tick_slot_spec:
  assumes "tick_slot get_url base max_s now stream s = (s', acts)"
  shows "cs_in_use s' = cs_in_use s \<and> ch_chn (cs_d s') = ch_chn (cs_d s) \<and> (\<forall>j. j \<noteq> ch_chn (cs_d s) \<longrightarrow> notices j acts = []) \<and>
    alternate (cs_notified_online s) (notices (ch_chn (cs_d s)) acts) \<and>
    after (cs_notified_online s) (notices (ch_chn (cs_d s)) acts) = cs_notified_online s' \<and>
    (cs_status s' = NVR_CHAN_ONLINE \<longrightarrow> (cs_status s = NVR_CHAN_ONLINE \<longrightarrow> cs_notified_online s) \<longrightarrow> cs_notified_online s')"
proof (cases "cs_status s = NVR_CHAN_DISABLED")
  case False
  obtain s1 a1 where r: "tick_resolve get_url s = (s1, a1)" by fastforce
  have R: "cs_in_use s1 = cs_in_use s" "ch_chn (cs_d s1) = ch_chn (cs_d s)" "cs_notified_online s1 = cs_notified_online s"
    "cs_status s1 = cs_status s" "\<And>j. notices j a1 = []"
    using r by (auto simp: tick_resolve_def Let_def split: if_splits option.splits)
  obtain s2 a2 where t: "tick_state base max_s now (stream (ch_chn (cs_d s1))) s1 = (s2, a2)" by fastforce
  have "s' = s2" "acts = a1 @ a2" using assms False r t by (simp_all add: tick_slot_def)
  then show ?thesis using t R
    by (cases "stream (ch_chn (cs_d s1))") (auto simp: tick_state_def tick_retry_def Let_def split: if_splits)
qed (use assms in \<open>simp add: tick_slot_def\<close>)

lemma tick_one_inv:
  assumes "mgr_inv m" "i < NVR_MAX_CH"
  shows "mgr_inv (tick_one get_url now stream i m)"
proof (cases "cs_in_use (cm_slots m ! i)")
  case True
  obtain s acts where t: "tick_slot get_url (cm_base_s m) (cm_max_s m) now stream (cm_slots m ! i) = (s, acts)" by fastforce
  note T = tick_slot_spec[OF t]
  have "mgr_inv ((set_slot i s m)\<lparr>cm_log := cm_log m @ acts\<rparr>)"
    using T assms True mgr_invD(2,3)[OF assms] by (intro mgr_inv_set) auto
  then show ?thesis using True t by (simp add: tick_one_def)
qed (simp add: tick_one_def assms)

lemma tick_inv: "mgr_inv m \<Longrightarrow> mgr_inv (nvr_chan_tick get_url now stream m)"
  unfolding nvr_chan_tick_def by (rule fold_invariant_in) (auto intro: tick_one_inv)

lemma start_stop_inv: "mgr_inv m \<Longrightarrow> mgr_inv (nvr_chan_start_all m)" "mgr_inv m \<Longrightarrow> mgr_inv (nvr_chan_stop_all m)"
  by (auto simp: mgr_inv_def nvr_chan_start_all_def nvr_chan_stop_all_def do_act_def Let_def)

lemma init_inv: "mgr_inv (nvr_chan_mgr_init base mx)"
  by (simp add: mgr_inv_def nvr_chan_mgr_init_def zero_slot_def)

definition quiet :: "nvr_chan_mgr \<Rightarrow> bool" where
  "quiet m \<longleftrightarrow> (\<forall>i < NVR_MAX_CH. \<not> cs_notified_online (cm_slots m ! i))"

lemma install_quiet: "mgr_inv m \<Longrightarrow> quiet m \<Longrightarrow> quiet (fst (install_slot get_url d m))"
  using slot_ok_nat[of "ch_chn d"] mgr_invD(4)[of m]
  by (auto simp: quiet_def install_slot_def Let_def set_slot_def do_act_def nth_list_update split: option.split)

lemma load_inv: "mgr_inv m \<Longrightarrow> quiet m \<Longrightarrow> mgr_inv (fst (nvr_chan_load_config get_url es m)) \<and> quiet (fst (nvr_chan_load_config get_url es m))"
proof (induction get_url es m rule: nvr_chan_load_config.induct)
  case (2 get_url e es m)
  obtain m1 r where i: "install_slot get_url e m = (m1, r)" by fastforce
  have q: "\<not> cs_notified_online (cm_slots m ! nat (ch_chn e))" if "slot_ok (ch_chn e)"
    using 2(4) slot_ok_nat[OF that] by (simp add: quiet_def)
  have "mgr_inv m1" "quiet m1" using install_inv[OF 2(3) q, of get_url] install_quiet[OF 2(3,4), of get_url e] i by simp_all
  then show ?case using 2 i by (auto split: prod.split)
qed simp

section \<open>Histories\<close>

datatype chan_op =
    AddCh onvif_url nvr_channel
  | RemoveCh int
  | BindPoe onvif_url int "string option" "string option" "string option"
  | Classify int "string option"
  | Discover onvif_url "nvr_onvif_cam list"
  | StartAll
  | StopAll
  | Tick onvif_url int "int \<Rightarrow> nvr_ch_state"

fun chan_step :: "chan_op \<Rightarrow> nvr_chan_mgr \<Rightarrow> nvr_chan_mgr" where
  "chan_step (AddCh u d) m = fst (nvr_chan_add u d m)"
| "chan_step (RemoveCh c) m = fst (nvr_chan_remove c m)"
| "chan_step (BindPoe u p ip us pw) m = fst (nvr_chan_bind_poe u p ip us pw m)"
| "chan_step (Classify c sc) m = fst (nvr_chan_apply_discovery c sc m)"
| "chan_step (Discover u cams) m = fst (nvr_chan_run_discovery u cams m)"
| "chan_step StartAll m = nvr_chan_start_all m"
| "chan_step StopAll m = nvr_chan_stop_all m"
| "chan_step (Tick u now st) m = nvr_chan_tick u now st m"

lemma chan_step_inv: "mgr_inv m \<Longrightarrow> mgr_inv (chan_step op m)"
  by (cases op) (auto simp: add_inv remove_inv(1) bind_inv discovery_inv start_stop_inv tick_inv nvr_chan_apply_discovery_def
      reclassify_inv dest: slot_ok_nat)

lemma chan_run_inv: "mgr_inv m \<Longrightarrow> mgr_inv (fold chan_step ops m)"
  by (rule fold_invariant) (rule chan_step_inv)

text \<open>Retries of a channel that does not play: the times at which its stream is restarted.\<close>

fun retries :: "int \<Rightarrow> int \<Rightarrow> chan_slot \<Rightarrow> (int \<times> nvr_ch_state) list \<Rightarrow> int list" where
  "retries base mx s [] = []"
| "retries base mx s ((t, st) # ts) =
     (case tick_state base mx t st s of (s', acts) \<Rightarrow>
        (if StreamStart (ch_chn (cs_d s)) \<in> set acts then [t] else []) @ retries base mx s' ts)"

definition delay :: "int \<Rightarrow> int \<Rightarrow> nat \<Rightarrow> int" where
  "delay base mx k = min (base * 2 ^ k) mx"

lemma delay_Suc: "0 < base \<Longrightarrow> 0 < mx \<Longrightarrow> (if mx < delay base mx k * 2 then mx else delay base mx k * 2) = delay base mx (Suc k)"
  by (auto simp: delay_def min_def)

lemma retries_spaced:
  assumes "0 < base" "0 < mx" "cs_backoff_s s = delay base mx k" "\<forall>(t, st) \<in> set ts. st \<noteq> NVR_CH_PLAYING"
  shows "(\<forall>i. Suc i < length (retries base mx s ts) \<longrightarrow>
      retries base mx s ts ! i + delay base mx (k + i) \<le> retries base mx s ts ! Suc i) \<and>
    (retries base mx s ts \<noteq> [] \<longrightarrow> cs_next_retry s \<le> hd (retries base mx s ts))"
  using assms(3,4)
proof (induction ts arbitrary: s k)
  case (Cons x ts)
  obtain t st where x: "x = (t, st)" by fastforce
  obtain s' acts where e: "tick_state base mx t st s = (s', acts)" by fastforce
  show ?case
  proof (cases "(st = NVR_CH_FAIL \<or> st = NVR_CH_NOSIGNAL) \<and> cs_next_retry s \<le> t")
    case True
    have s': "cs_backoff_s s' = delay base mx (Suc k)" "cs_next_retry s' = t + delay base mx k" "StreamStart (ch_chn (cs_d s)) \<in> set acts"
      using e True Cons.prems(1) delay_Suc[OF assms(1,2), of k] by (auto simp: tick_state_def tick_retry_def Let_def)
    let ?rs = "retries base mx s' ts"
    have IH: "\<forall>i. Suc i < length ?rs \<longrightarrow> ?rs ! i + delay base mx (Suc k + i) \<le> ?rs ! Suc i"
      "?rs \<noteq> [] \<longrightarrow> cs_next_retry s' \<le> hd ?rs" using Cons.IH[OF s'(1)] Cons.prems(2) by auto
    have rs: "retries base mx s (x # ts) = t # ?rs" using e s'(3) x by simp
    have "(t # ?rs) ! i + delay base mx (k + i) \<le> (t # ?rs) ! Suc i" if "Suc i < length (t # ?rs)" for i
      using that IH s'(2) by (cases i) (auto simp: hd_conv_nth)
    then show ?thesis unfolding rs using True by auto
  next
    case False
    have "cs_backoff_s s' = delay base mx k" "cs_next_retry s' = cs_next_retry s" "StreamStart (ch_chn (cs_d s)) \<notin> set acts"
      using e False Cons.prems x by (cases st; auto simp: tick_state_def tick_retry_def Let_def split: if_splits)+
    then show ?thesis using Cons.IH[of s' k] Cons.prems(2) e x by simp
  qed
qed simp

section \<open>Properties\<close>

text \<open>C8: The application hears of every channel in turn. Whatever configuration is loaded at start and whatever
  follows (cameras added, bound, discovered, removed, streams ticking), the notices of a channel alternate between
  online and offline, beginning with online; the last one was online exactly if the channel is in use and counted as up; and a
  channel shown online has been announced.\<close>

theorem channel_notices:
  "let m = fold chan_step ops (fst (nvr_chan_load_config get_url es (nvr_chan_mgr_init base mx)));
       ns = notices chn (cm_log m)
   in slot_ok chn \<longrightarrow> alternate False ns \<and>
        after False ns = (cs_in_use (cm_slots m ! nat chn) \<and> cs_notified_online (cm_slots m ! nat chn)) \<and>
        (nvr_chan_status_of m chn = NVR_CHAN_ONLINE \<longrightarrow> after False ns)"
proof -
  let ?m = "fold chan_step ops (fst (nvr_chan_load_config get_url es (nvr_chan_mgr_init base mx)))"
  have "quiet (nvr_chan_mgr_init base mx)" by (simp add: quiet_def nvr_chan_mgr_init_def zero_slot_def)
  then have "mgr_inv ?m" using load_inv[OF init_inv] chan_run_inv by blast
  then show ?thesis using slot_ok_nat[of chn]
    by (auto simp: Let_def mgr_inv_def nvr_chan_status_of_def split: if_splits)
qed

lemma channel_notices_witness:
  "\<exists>d st. slot_ok 3 \<and> alternate False (notices 3 (cm_log (fold chan_step [AddCh (\<lambda>_ _ _ _ _. None) d, Tick (\<lambda>_ _ _ _ _. None) 100 st, RemoveCh 3]
     (fst (nvr_chan_load_config (\<lambda>_ _ _ _ _. None) [] (nvr_chan_mgr_init 5 30))))))"
  using channel_notices[of "[AddCh (\<lambda>_ _ _ _ _. None) (zero_channel\<lparr>ch_chn := 3, ch_enabled := True\<rparr>),
      Tick (\<lambda>_ _ _ _ _. None) 100 (\<lambda>_. NVR_CH_PLAYING), RemoveCh 3]" "\<lambda>_ _ _ _ _. None" "[]" 5 30 3]
  by (intro exI[of _ "zero_channel\<lparr>ch_chn := 3, ch_enabled := True\<rparr>"] exI[of _ "\<lambda>_. NVR_CH_PLAYING"])
    (simp only: Let_def slot_ok_def NVR_MAX_CH_def, simp)

text \<open>C39: Reconnecting backs off. From a slot at the base delay, where playing puts it, and while the channel does
  not play, its \<open>i\<close>-th and next restart are at least \<open>min (base * 2 ^ i) max\<close> seconds apart, whatever the ticks
  and states between them.\<close>

theorem reconnect_backoff:
  assumes "0 < base" "0 < mx" "base \<le> mx" "cs_backoff_s s = base"
    "\<forall>(t, st) \<in> set ts. st \<noteq> NVR_CH_PLAYING" "Suc i < length (retries base mx s ts)"
  shows "retries base mx s ts ! Suc i - retries base mx s ts ! i \<ge> min (base * 2 ^ i) mx \<and>
    cs_backoff_s (fst (tick_state base mx t NVR_CH_PLAYING s0)) = base"
proof -
  have "cs_backoff_s s = delay base mx 0" using assms(3,4) by (simp add: delay_def)
  then show ?thesis using retries_spaced[OF assms(1,2) _ assms(5), of s 0] assms(6)
    by (fastforce simp: delay_def tick_state_def Let_def)
qed

lemma reconnect_backoff_witness:
  "let rs = retries 5 30 (zero_slot\<lparr>cs_backoff_s := 5\<rparr>) [(1, NVR_CH_FAIL), (2, NVR_CH_FAIL), (6, NVR_CH_NOSIGNAL)]
   in rs ! Suc 0 - rs ! 0 \<ge> min (5 * 2 ^ 0) 30"
  unfolding Let_def
  by (rule conjunct1[OF reconnect_backoff]) (simp_all add: tick_state_def tick_retry_def zero_slot_def Let_def)

end
