(* ===== verification/Streaming.thy ===== *)
theory Streaming
  imports App_Channel Rsdk_Types Complex_Main
begin

text \<open>
  components/streaming and platform/media_hal/mhal_budget.c: the stream manager (stream_mgr.cpp, stream_puller.cpp), the
  router that sends a channel's frames to the decoder and to the recorder (stream_router.c), the NAL classifier that
  gates recording (stream_nal.c), and the decoding budget that admits decoders (mhal_budget.c, and the budget side of
  mhal_vdec.c). What the RTSP client, the decoder hardware and the recorder answer is the record \<open>answers\<close> of the call; the
  calls made on client, decoder and recorder are logged. The display is up. A client calls back between its start and its close; a
  client that was forgotten, because its channel was added again while it ran, goes on calling back for the channel.
  The budget's doubles are exact rationals: an admitted cost is an integer no larger than the total, far below 2^53.
\<close>

section \<open>Classifying a frame\<close>

text \<open>The next start code from position \<open>i\<close> on: the offset behind it.\<close>

function next_nal :: "bytes \<Rightarrow> nat \<Rightarrow> nat option" where
  "next_nal d i =
     (if i + 3 < length d then
        if d ! i = 0 \<and> d ! (i + 1) = 0 \<and> d ! (i + 2) = 1 then Some (i + 3)
        else if d ! i = 0 \<and> d ! (i + 1) = 0 \<and> d ! (i + 2) = 0 \<and> d ! (i + 3) = 1 then Some (i + 4)
        else next_nal d (i + 1)
      else None)"
  by pat_completeness auto
termination by (relation "measure (\<lambda>(d, i). length d - i)") auto

declare next_nal.simps [simp del]

record nal_class =
  nl_is_key :: bool
  nl_is_param :: bool
  nl_frame_type :: u8

datatype nal_kind = NalParam | NalKey | NalDelta | NalOther

definition nal_kind_of :: "int \<Rightarrow> u8 \<Rightarrow> nal_kind" where
  "nal_kind_of codec nh =
     (if codec = 0 then
        let t = nh AND 0x1F in
        if t = 7 \<or> t = 8 then NalParam else if t = 5 then NalKey else if t = 1 then NalDelta else NalOther
      else
        let t = drop_bit 1 nh AND 0x3F in
        if t \<ge> 32 \<and> t \<le> 34 then NalParam
        else if t \<ge> 16 \<and> t \<le> 23 then NalKey
        else if t \<le> 9 \<or> t \<ge> 10 \<and> t \<le> 15 then NalDelta
        else NalOther)"

lemma next_nal_greater: "next_nal d i = Some j \<Longrightarrow> i < j"
  by (induction d i rule: next_nal.induct) (auto simp: next_nal.simps split: if_splits dest: Suc_lessD)

function nal_loop :: "int \<Rightarrow> bytes \<Rightarrow> nat \<Rightarrow> nal_class \<Rightarrow> nal_class" where
  "nal_loop codec d off c =
     (if off < length d then
        case nal_kind_of codec (d ! off) of
          NalKey \<Rightarrow> c\<lparr>nl_frame_type := 0, nl_is_key := True\<rparr>
        | NalDelta \<Rightarrow> c\<lparr>nl_frame_type := 1\<rparr>
        | k \<Rightarrow>
            let c = (if k = NalParam then c\<lparr>nl_is_param := True, nl_is_key := True\<rparr> else c)
            in case next_nal d (off + 1) of
                 None \<Rightarrow> if nl_is_param c then c\<lparr>nl_frame_type := 0\<rparr> else c
               | Some nx \<Rightarrow> nal_loop codec d nx c
      else if nl_is_param c then c\<lparr>nl_frame_type := 0\<rparr> else c)"
  by pat_completeness auto
termination
  by (relation "measure (\<lambda>(codec, d, off, c). length d - off)") (auto dest!: next_nal_greater)

declare nal_loop.simps [simp del]

definition nal_classify :: "bytes \<Rightarrow> int \<Rightarrow> nal_class" where
  "nal_classify d codec =
     (let c = \<lparr>nl_is_key = False, nl_is_param = False, nl_frame_type = 1\<rparr>
      in if length d < 5 then c
         else nal_loop codec d (case next_nal d 0 of None \<Rightarrow> 0 | Some off \<Rightarrow> off) c)"

section \<open>The decoding budget\<close>

record mhal_budget =
  mb_total :: rat
  mb_used :: rat

definition MHAL_BUDGET_DEFAULT_TOTAL :: rat where "MHAL_BUDGET_DEFAULT_TOTAL = 1920 * 1080 * 360"

definition mhal_budget_init :: mhal_budget where
  "mhal_budget_init = \<lparr>mb_total = MHAL_BUDGET_DEFAULT_TOTAL, mb_used = 0\<rparr>"

definition mhal_budget_set_total :: "rat \<Rightarrow> mhal_budget \<Rightarrow> mhal_budget" where
  "mhal_budget_set_total t b = b\<lparr>mb_total := (if t > 0 then t else MHAL_BUDGET_DEFAULT_TOTAL)\<rparr>"

definition mhal_budget_cost :: "int \<Rightarrow> int \<Rightarrow> int \<Rightarrow> rat" where
  "mhal_budget_cost w h fps =
     (if w \<le> 0 \<or> h \<le> 0 then 0
      else of_int w * of_int h * of_int (if fps \<le> 0 then 25 else fps))"

definition mhal_budget_try_reserve :: "int \<Rightarrow> int \<Rightarrow> int \<Rightarrow> mhal_budget \<Rightarrow> mhal_budget \<times> int" where
  "mhal_budget_try_reserve w h fps b =
     (let cost = mhal_budget_cost w h fps
      in if cost > 0 \<and> mb_used b + cost > mb_total b then (b, -1)
         else (b\<lparr>mb_used := mb_used b + cost\<rparr>, 0))"

definition mhal_budget_release :: "int \<Rightarrow> int \<Rightarrow> int \<Rightarrow> mhal_budget \<Rightarrow> mhal_budget" where
  "mhal_budget_release w h fps b =
     (let used = mb_used b - mhal_budget_cost w h fps
      in b\<lparr>mb_used := (if used < 0 then 0 else used)\<rparr>)"

section \<open>Channels\<close>

record mhal_vdec =
  vd_w :: int
  vd_h :: int
  vd_fps :: int

record stream_chan =
  st_cfg :: nvr_stream_chan_cfg
  st_codec :: int
  st_state :: nvr_ch_state
  st_vdec :: "mhal_vdec option"
  st_decode_denied :: bool
  st_writer :: bool
  st_rec_gated :: bool
  st_puller :: bool

text \<open>\<open>Connected\<close> carries the codec the channel is configured for and the one the stream's description names.\<close>

datatype stream_call =
    Connected int int int
  | DecSend int bytes u32
  | RecOpen int
  | RecWrite int rsdk_frame
  | RecClose int

text \<open>The first 16 channels of the manager; None is a slot never added. \<open>ss_group\<close> tells whether there is a disk group.\<close>

definition STREAM_MAX_CH :: nat where "STREAM_MAX_CH = 16"

record stream_mgr =
  ss_group :: bool
  ss_conn_timeout :: int
  ss_rx_timeout :: int
  ss_ch :: "stream_chan option list"
  ss_budget :: mhal_budget
  ss_log :: "stream_call list"

record answers =
  an_connects :: bool
  an_video_codec :: int
  an_plays :: bool
  an_hardware :: bool
  an_rec_opens :: bool

definition VIDEO_CODEC_H265 :: int where "VIDEO_CODEC_H265 = 4"

definition to_rsdk_codec :: "int \<Rightarrow> int" where
  "to_rsdk_codec vc = (if vc = VIDEO_CODEC_H265 then 1 else 0)"

definition slot_of :: "stream_mgr \<Rightarrow> int \<Rightarrow> stream_chan option" where
  "slot_of m chn = (if chn < 0 \<or> chn \<ge> int STREAM_MAX_CH then None else ss_ch m ! nat chn)"

definition put_chan :: "int \<Rightarrow> stream_chan \<Rightarrow> stream_mgr \<Rightarrow> stream_mgr" where
  "put_chan chn c m = m\<lparr>ss_ch := (ss_ch m)[nat chn := Some c]\<rparr>"

definition log_call :: "stream_call \<Rightarrow> stream_mgr \<Rightarrow> stream_mgr" where
  "log_call a m = m\<lparr>ss_log := ss_log m @ [a]\<rparr>"

section \<open>The router\<close>

definition resolve_dim :: "nvr_stream_chan_cfg \<Rightarrow> int \<times> int \<times> int" where
  "resolve_dim cfg =
     (let (w, h) = (if sc_enc_w cfg > 0 \<and> sc_enc_h cfg > 0 then (sc_enc_w cfg, sc_enc_h cfg)
                    else if sc_stream cfg = NVR_STREAM_SUB then (640, 360) else (1920, 1080))
      in (w, h, if sc_fps cfg > 0 then sc_fps cfg else 20))"

definition MHAL_VDEC_EBUDGET :: int where "MHAL_VDEC_EBUDGET = -2"

text \<open>The part of \<open>mhal_vdec_open\<close> that decides: the size limit, the budget, and giving it back when the hardware fails.\<close>

definition mhal_vdec_open :: "bool \<Rightarrow> int \<Rightarrow> int \<Rightarrow> int \<Rightarrow> mhal_budget \<Rightarrow> mhal_budget \<times> mhal_vdec option \<times> int" where
  "mhal_vdec_open hardware w h fps b =
     (if w > 8192 \<or> h > 8192 then (b, None, MHAL_VDEC_EBUDGET)
      else case mhal_budget_try_reserve w h fps b of
          (b, rc) \<Rightarrow>
            if rc \<noteq> 0 then (b, None, MHAL_VDEC_EBUDGET)
            else if hardware then (b, Some \<lparr>vd_w = w, vd_h = h, vd_fps = fps\<rparr>, 0)
            else (mhal_budget_release w h fps b, None, -1))"

definition mhal_vdec_close :: "mhal_vdec option \<Rightarrow> mhal_budget \<Rightarrow> mhal_budget" where
  "mhal_vdec_close d b = (case d of None \<Rightarrow> b | Some d \<Rightarrow> mhal_budget_release (vd_w d) (vd_h d) (vd_fps d) b)"

definition stream_router_open :: "answers \<Rightarrow> int \<Rightarrow> stream_chan \<Rightarrow> stream_mgr \<Rightarrow> stream_chan \<times> stream_mgr" where
  "stream_router_open an chn c m =
     (let c = c\<lparr>st_decode_denied := False\<rparr>;
          (c, m) = (if sc_vout_win (st_cfg c) \<ge> 0
                    then case resolve_dim (st_cfg c) of (w, h, fps) \<Rightarrow>
                      (case mhal_vdec_open (an_hardware an) w h fps (ss_budget m) of
                         (b, d, rc) \<Rightarrow>
                           (if rc = MHAL_VDEC_EBUDGET then c\<lparr>st_vdec := None, st_decode_denied := True\<rparr>
                            else if rc \<noteq> 0 then c\<lparr>st_vdec := None\<rparr>
                            else c\<lparr>st_vdec := d\<rparr>, m\<lparr>ss_budget := b\<rparr>))
                    else (c, m));
          (c, m) = (if sc_record (st_cfg c) \<noteq> 0 \<and> ss_group m
                    then if an_rec_opens an then (c\<lparr>st_writer := True\<rparr>, log_call (RecOpen chn) m)
                         else (c\<lparr>st_writer := False\<rparr>, m)
                    else (c, m))
      in (c\<lparr>st_rec_gated := False\<rparr>, m))"

definition stream_route_video :: "int \<Rightarrow> bytes \<Rightarrow> u32 \<Rightarrow> u64 \<Rightarrow> stream_chan \<Rightarrow> stream_mgr \<Rightarrow> stream_chan \<times> stream_mgr" where
  "stream_route_video chn data ts now c m =
     (if data = [] then (c, m)
      else
        let m = (if st_vdec c \<noteq> None then log_call (DecSend chn data ts) m else m)
        in if \<not> st_writer c then (c, m)
           else
             let nc = nal_classify data (st_codec c)
             in if \<not> st_rec_gated c \<and> \<not> nl_is_key nc then (c, m)
                else (c\<lparr>st_rec_gated := True\<rparr>,
                      log_call (RecWrite chn \<lparr>fr_chn = of_int (sc_chn (st_cfg c)), fr_stream = of_int (sc_stream (st_cfg c)),
                        fr_codec = of_int (st_codec c), fr_frame_type = nl_frame_type nc, fr_pts = ucast ts, fr_wall_time = now,
                        fr_data = data\<rparr>) m))"

definition RSDK_CODEC_AAC :: u8 where "RSDK_CODEC_AAC = 2"
definition RSDK_FRAME_AUDIO :: u8 where "RSDK_FRAME_AUDIO = 3"

definition stream_route_audio :: "int \<Rightarrow> bytes \<Rightarrow> u32 \<Rightarrow> u64 \<Rightarrow> stream_chan \<Rightarrow> stream_mgr \<Rightarrow> stream_mgr" where
  "stream_route_audio chn data ts now c m =
     (if \<not> st_writer c \<or> \<not> st_rec_gated c \<or> data = [] then m
      else log_call (RecWrite chn \<lparr>fr_chn = of_int (sc_chn (st_cfg c)), fr_stream = 2, fr_codec = RSDK_CODEC_AAC,
             fr_frame_type = RSDK_FRAME_AUDIO, fr_pts = ucast ts, fr_wall_time = now, fr_data = data\<rparr>) m)"

definition stream_router_close :: "int \<Rightarrow> stream_chan \<Rightarrow> stream_mgr \<Rightarrow> stream_chan \<times> stream_mgr" where
  "stream_router_close chn c m =
     (let m = (if st_writer c then log_call (RecClose chn) m else m);
          m = m\<lparr>ss_budget := mhal_vdec_close (st_vdec c) (ss_budget m)\<rparr>
      in (c\<lparr>st_writer := False, st_vdec := None, st_rec_gated := False\<rparr>, m))"

section \<open>The puller\<close>

datatype rtsp_event =
    RTSP_EVE_CONNECTING | RTSP_EVE_CONNSUCC | RTSP_EVE_CONNFAIL | RTSP_EVE_AUTHFAILED | RTSP_EVE_NOSIGNAL | RTSP_EVE_NODATA
  | RTSP_EVE_RESUME | RTSP_EVE_STOPPED | RTSP_EVE_OTHER

fun on_notify :: "rtsp_event \<Rightarrow> stream_chan \<Rightarrow> stream_chan" where
  "on_notify RTSP_EVE_CONNECTING c = c\<lparr>st_state := NVR_CH_CONNECTING\<rparr>"
| "on_notify RTSP_EVE_CONNSUCC c = c\<lparr>st_state := NVR_CH_PLAYING\<rparr>"
| "on_notify RTSP_EVE_CONNFAIL c = c\<lparr>st_state := NVR_CH_FAIL\<rparr>"
| "on_notify RTSP_EVE_AUTHFAILED c = c\<lparr>st_state := NVR_CH_FAIL\<rparr>"
| "on_notify RTSP_EVE_NOSIGNAL c = c\<lparr>st_state := NVR_CH_NOSIGNAL\<rparr>"
| "on_notify RTSP_EVE_NODATA c = c\<lparr>st_state := NVR_CH_NOSIGNAL\<rparr>"
| "on_notify RTSP_EVE_RESUME c = c\<lparr>st_state := NVR_CH_PLAYING\<rparr>"
| "on_notify RTSP_EVE_STOPPED c = c\<lparr>st_state := NVR_CH_IDLE\<rparr>"
| "on_notify RTSP_EVE_OTHER c = c"

definition puller_start :: "answers \<Rightarrow> int \<Rightarrow> stream_chan \<Rightarrow> stream_mgr \<Rightarrow> stream_chan \<times> stream_mgr \<times> int" where
  "puller_start an chn c m =
     (let c = c\<lparr>st_puller := True, st_state := NVR_CH_CONNECTING\<rparr>
      in if \<not> an_connects an then (c\<lparr>st_state := NVR_CH_FAIL, st_puller := False\<rparr>, m, -1)
         else
           let c = c\<lparr>st_codec := (if sc_codec (st_cfg c) = NVR_CODEC_AUTO then to_rsdk_codec (an_video_codec an)
                                  else sc_codec (st_cfg c))\<rparr>;
               m = log_call (Connected chn (sc_codec (st_cfg c)) (an_video_codec an)) m
           in case stream_router_open an chn c m of
                (c, m) \<Rightarrow> if \<not> an_plays an then (c\<lparr>st_state := NVR_CH_FAIL\<rparr>, m, -1) else (c, m, 0))"

definition puller_stop :: "int \<Rightarrow> stream_chan \<Rightarrow> stream_mgr \<Rightarrow> stream_chan \<times> stream_mgr" where
  "puller_stop chn c m =
     (if \<not> st_puller c then (c, m)
      else case stream_router_close chn (c\<lparr>st_puller := False\<rparr>) m of (c, m) \<Rightarrow> (c\<lparr>st_state := NVR_CH_IDLE\<rparr>, m))"

section \<open>The manager\<close>

definition nvr_stream_mgr_init :: "bool \<Rightarrow> int \<Rightarrow> int \<Rightarrow> stream_mgr" where
  "nvr_stream_mgr_init grp conn rx =
     \<lparr>ss_group = grp, ss_conn_timeout = (if conn \<le> 0 then 5 else conn), ss_rx_timeout = (if rx \<le> 0 then 10 else rx),
      ss_ch = replicate STREAM_MAX_CH None, ss_budget = mhal_budget_init, ss_log = []\<rparr>"

definition nvr_stream_add_channel :: "nvr_stream_chan_cfg \<Rightarrow> stream_mgr \<Rightarrow> stream_mgr \<times> rsdk_err" where
  "nvr_stream_add_channel cfg m =
     (if sc_chn cfg < 0 \<or> sc_chn cfg \<ge> int STREAM_MAX_CH then (m, RSDK_E_PARAM)
      else (put_chan (sc_chn cfg)
              \<lparr>st_cfg = cfg, st_codec = (if sc_codec cfg = NVR_CODEC_AUTO then -1 else sc_codec cfg), st_state = NVR_CH_IDLE,
               st_vdec = None, st_decode_denied = False, st_writer = False, st_rec_gated = False, st_puller = False\<rparr> m,
            RSDK_OK))"

definition nvr_stream_start :: "answers \<Rightarrow> int \<Rightarrow> stream_mgr \<Rightarrow> stream_mgr \<times> rsdk_err" where
  "nvr_stream_start an chn m =
     (case slot_of m chn of
        None \<Rightarrow> (m, RSDK_E_NOTFOUND)
      | Some c \<Rightarrow>
          if st_puller c then (m, RSDK_OK)
          else case puller_start an chn c m of
              (c, m, rc) \<Rightarrow> (put_chan chn c m, if rc = 0 then RSDK_OK else RSDK_E_IO))"

definition stop_chan :: "int \<Rightarrow> stream_chan \<Rightarrow> stream_mgr \<Rightarrow> stream_mgr" where
  "stop_chan chn c m = (case puller_stop chn c m of (c, m) \<Rightarrow> put_chan chn c m)"

definition nvr_stream_stop :: "int \<Rightarrow> stream_mgr \<Rightarrow> stream_mgr \<times> rsdk_err" where
  "nvr_stream_stop chn m =
     (case slot_of m chn of None \<Rightarrow> (m, RSDK_E_NOTFOUND) | Some c \<Rightarrow> (stop_chan chn c m, RSDK_OK))"

definition nvr_stream_start_all :: "(nat \<Rightarrow> answers) \<Rightarrow> stream_mgr \<Rightarrow> stream_mgr" where
  "nvr_stream_start_all ans m =
     fold (\<lambda>i m. if ss_ch m ! i \<noteq> None then fst (nvr_stream_start (ans i) (int i) m) else m) [0..<STREAM_MAX_CH] m"

definition nvr_stream_stop_all :: "stream_mgr \<Rightarrow> stream_mgr" where
  "nvr_stream_stop_all m =
     fold (\<lambda>i m. case ss_ch m ! i of None \<Rightarrow> m | Some c \<Rightarrow> stop_chan (int i) c m) [0..<STREAM_MAX_CH] m"

definition nvr_stream_mgr_deinit :: "stream_mgr \<Rightarrow> stream_mgr" where
  "nvr_stream_mgr_deinit m = nvr_stream_stop_all m"

definition nvr_stream_switch_stream :: "answers \<Rightarrow> int \<Rightarrow> int \<Rightarrow> string \<Rightarrow> stream_mgr \<Rightarrow> stream_mgr \<times> rsdk_err" where
  "nvr_stream_switch_stream an chn stream url m =
     (case slot_of m chn of
        None \<Rightarrow> (m, RSDK_E_PARAM)
      | Some c \<Rightarrow>
          (case puller_stop chn c m of
             (c, m) \<Rightarrow> nvr_stream_start an chn
                (put_chan chn (c\<lparr>st_cfg := (st_cfg c)\<lparr>sc_stream := stream, sc_url := take 255 url\<rparr>\<rparr>) m)))"

definition nvr_stream_set_record :: "answers \<Rightarrow> int \<Rightarrow> int \<Rightarrow> stream_mgr \<Rightarrow> stream_mgr \<times> rsdk_err" where
  "nvr_stream_set_record an chn on m =
     (case slot_of m chn of
        None \<Rightarrow> (m, RSDK_E_NOTFOUND)
      | Some c \<Rightarrow>
          if sc_record (st_cfg c) = on then (m, RSDK_OK)
          else
            let c = c\<lparr>st_cfg := (st_cfg c)\<lparr>sc_record := on\<rparr>\<rparr>; m = put_chan chn c m
            in if st_puller c then nvr_stream_start an chn (stop_chan chn c m) else (m, RSDK_OK))"

definition nvr_stream_state :: "stream_mgr \<Rightarrow> int \<Rightarrow> nvr_ch_state" where
  "nvr_stream_state m chn = (case slot_of m chn of None \<Rightarrow> NVR_CH_IDLE | Some c \<Rightarrow> st_state c)"

definition nvr_stream_decode_denied :: "stream_mgr \<Rightarrow> int \<Rightarrow> bool" where
  "nvr_stream_decode_denied m chn = (case slot_of m chn of None \<Rightarrow> False | Some c \<Rightarrow> st_decode_denied c)"

section \<open>Histories\<close>

text \<open>What happens to a manager: its operations, with the answers they get, and the callbacks of the clients. A client that \<open>AddChannel\<close>
  forgot still calls back, so a callback may come for any channel that was added; without decoder and writer a frame has no effect.\<close>

datatype stream_op =
    AddChannel nvr_stream_chan_cfg
  | Start answers int
  | Stop int
  | StartAll "nat \<Rightarrow> answers"
  | StopAll
  | SwitchStream answers int int string
  | SetRecord answers int int
  | OnVideo int bytes u32 u64
  | OnAudio int bytes u32 u64
  | OnNotify int rtsp_event

definition added :: "stream_mgr \<Rightarrow> int \<Rightarrow> bool" where
  "added m chn \<longleftrightarrow> slot_of m chn \<noteq> None"

definition running :: "stream_mgr \<Rightarrow> int \<Rightarrow> bool" where
  "running m chn \<longleftrightarrow> (case slot_of m chn of None \<Rightarrow> False | Some c \<Rightarrow> st_puller c)"

fun stream_step :: "stream_op \<Rightarrow> stream_mgr \<Rightarrow> stream_mgr" where
  "stream_step (AddChannel cfg) m = fst (nvr_stream_add_channel cfg m)"
| "stream_step (Start an chn) m = fst (nvr_stream_start an chn m)"
| "stream_step (Stop chn) m = fst (nvr_stream_stop chn m)"
| "stream_step (StartAll ans) m = nvr_stream_start_all ans m"
| "stream_step StopAll m = nvr_stream_stop_all m"
| "stream_step (SwitchStream an chn stream url) m = fst (nvr_stream_switch_stream an chn stream url m)"
| "stream_step (SetRecord an chn on) m = fst (nvr_stream_set_record an chn on m)"
| "stream_step (OnVideo chn data ts now) m =
     (if added m chn then case stream_route_video chn data ts now (the (slot_of m chn)) m of (c, m) \<Rightarrow> put_chan chn c m else m)"
| "stream_step (OnAudio chn data ts now) m =
     (if added m chn then stream_route_audio chn data ts now (the (slot_of m chn)) m else m)"
| "stream_step (OnNotify chn e) m =
     (if added m chn then put_chan chn (on_notify e (the (slot_of m chn))) m else m)"

text \<open>Whether a channel is ever added again while it runs, and the cost of the decoders that such additions forget: \<open>memset\<close> clears the
  only pointer to a decoder that is open and that nothing will close.\<close>

fun adds_stopped :: "stream_op list \<Rightarrow> stream_mgr \<Rightarrow> bool" where
  "adds_stopped [] m = True"
| "adds_stopped (x # xs) m \<longleftrightarrow>
     (case x of AddChannel cfg \<Rightarrow> \<not> running m (sc_chn cfg) | _ \<Rightarrow> True) \<and> adds_stopped xs (stream_step x m)"

definition vdec_cost :: "stream_chan option \<Rightarrow> rat" where
  "vdec_cost c = (case Option.bind c st_vdec of None \<Rightarrow> 0 | Some d \<Rightarrow> mhal_budget_cost (vd_w d) (vd_h d) (vd_fps d))"

fun forgotten :: "stream_op list \<Rightarrow> stream_mgr \<Rightarrow> rat" where
  "forgotten [] m = 0"
| "forgotten (x # xs) m =
     (case x of AddChannel cfg \<Rightarrow> vdec_cost (slot_of m (sc_chn cfg)) | _ \<Rightarrow> 0) + forgotten xs (stream_step x m)"

text \<open>The recorder as the log shows it for one channel: whether its writer is open, and whether nothing was written yet.\<close>

definition track_step :: "int \<Rightarrow> bool \<times> bool \<Rightarrow> stream_call \<Rightarrow> bool \<times> bool" where
  "track_step chn s a = (case a of
     RecOpen c \<Rightarrow> if c = chn then (True, True) else s
   | RecWrite c f \<Rightarrow> if c = chn then (fst s, False) else s
   | RecClose c \<Rightarrow> if c = chn then (False, False) else s
   | _ \<Rightarrow> s)"

definition track :: "int \<Rightarrow> stream_call list \<Rightarrow> bool \<times> bool" where
  "track chn l = foldl (track_step chn) (False, False) l"

text \<open>The codec of a channel's stream: what it is configured for, or what the description of its last connection names (0 is H.264, 1 is H.265).\<close>

definition codec_step :: "int \<Rightarrow> int \<Rightarrow> stream_call \<Rightarrow> int" where
  "codec_step chn k a = (case a of
     Connected c configured described \<Rightarrow>
       if c \<noteq> chn then k else if configured \<noteq> NVR_CODEC_AUTO then configured else if described = VIDEO_CODEC_H265 then 1 else 0
   | _ \<Rightarrow> k)"

definition codec_of :: "int \<Rightarrow> stream_call list \<Rightarrow> int" where
  "codec_of chn l = foldl (codec_step chn) (-1) l"

lemma track_simps [simp]: "track chn [] = (False, False)" "track chn (l @ [a]) = track_step chn (track chn l) a"
  by (simp_all add: track_def)

lemma codec_simps [simp]: "codec_of chn [] = -1" "codec_of chn (l @ [a]) = codec_step chn (codec_of chn l) a"
  by (simp_all add: codec_of_def)

text \<open>A frame that decoding can start with, stated on the units of its byte stream: the first unit that is a picture or a parameter set
  is not a picture that needs earlier ones. Units begin behind a start code 00 00 01; without a start code the frame is one unit.\<close>

fun nal_headers :: "bytes \<Rightarrow> bytes" where
  "nal_headers [] = []"
| "nal_headers (b # d) = (if b = 0 \<and> 3 \<le> length d \<and> d ! 0 = 0 \<and> d ! 1 = 1 then d ! 2 # nal_headers (drop 3 d) else nal_headers d)"

definition unit_type :: "int \<Rightarrow> u8 \<Rightarrow> nat" where
  "unit_type codec h = (if codec = 0 then unat (h AND 0x1F) else unat (drop_bit 1 h AND 0x3F))"

definition parameter_set :: "int \<Rightarrow> nat \<Rightarrow> bool" where
  "parameter_set codec t \<longleftrightarrow> (if codec = 0 then t = 7 \<or> t = 8 else 32 \<le> t \<and> t \<le> 34)"

definition intra_picture :: "int \<Rightarrow> nat \<Rightarrow> bool" where
  "intra_picture codec t \<longleftrightarrow> (if codec = 0 then t = 5 else 16 \<le> t \<and> t \<le> 23)"

definition predicted_picture :: "int \<Rightarrow> nat \<Rightarrow> bool" where
  "predicted_picture codec t \<longleftrightarrow> (if codec = 0 then t = 1 else t \<le> 15)"

definition opens :: "int \<Rightarrow> bytes \<Rightarrow> bool" where
  "opens codec hs = (case find (\<lambda>t. parameter_set codec t \<or> intra_picture codec t \<or> predicted_picture codec t) (map (unit_type codec) hs) of
     None \<Rightarrow> False | Some t \<Rightarrow> \<not> predicted_picture codec t)"

definition key_frame :: "int \<Rightarrow> bytes \<Rightarrow> bool" where
  "key_frame codec d \<longleftrightarrow> 5 \<le> length d \<and> opens codec (if nal_headers d = [] then [d ! 0] else nal_headers d)"

text \<open>The classifier finds exactly these.\<close>

lemma kind_of_type:
  "nal_kind_of codec h = (let t = unit_type codec h in
     if parameter_set codec t then NalParam else if intra_picture codec t then NalKey else if predicted_picture codec t then NalDelta else NalOther)"
proof -
  have e: "(w :: u8) = of_nat n \<longleftrightarrow> unat w = n" "(of_nat n :: u8) \<le> w \<longleftrightarrow> n \<le> unat w" "w \<le> (of_nat n :: u8) \<longleftrightarrow> unat w \<le> n"
    if "n < 256" for w n
    using that unat_of_nat_small[of n, where 'a = 8] by (auto simp: word_le_nat_alt word_unat_eq_iff)
  show ?thesis
    using e(1)[of 7 "h AND 0x1F"] e(1)[of 8 "h AND 0x1F"] e(1)[of 5 "h AND 0x1F"] e(1)[of 1 "h AND 0x1F"]
      e(2,3)[of 32 "drop_bit 1 h AND 0x3F"] e(2,3)[of 34 "drop_bit 1 h AND 0x3F"] e(2,3)[of 16 "drop_bit 1 h AND 0x3F"]
      e(2,3)[of 23 "drop_bit 1 h AND 0x3F"] e(2,3)[of 9 "drop_bit 1 h AND 0x3F"] e(2,3)[of 10 "drop_bit 1 h AND 0x3F"] e(2,3)[of 15 "drop_bit 1 h AND 0x3F"]
    by (auto simp: nal_kind_of_def unit_type_def parameter_set_def intra_picture_def predicted_picture_def Let_def)
qed

definition rest_headers :: "bytes \<Rightarrow> nat \<Rightarrow> bytes" where
  "rest_headers d off = (if off < length d then d ! off # nal_headers (drop (off + 1) d) else [])"

lemma short_headers: "length d \<le> 3 \<Longrightarrow> nal_headers d = []"
  by (induction d rule: nal_headers.induct) auto

lemma headers_next: "nal_headers (drop i d) = (case next_nal d i of None \<Rightarrow> [] | Some off \<Rightarrow> rest_headers d off)"
proof (induction d i rule: next_nal.induct)
  case (1 d i)
  show ?case
  proof (cases "i + 3 < length d")
    case True
    have step: "nal_headers (drop j d) = (if d ! j = 0 \<and> d ! (j + 1) = 0 \<and> d ! (j + 2) = 1 then rest_headers d (j + 3) else nal_headers (drop (j + 1) d))"
      if "j + 3 < length d" for j
    proof -
      have d: "drop j d = d ! j # drop (Suc j) d" and l: "3 \<le> length (drop (Suc j) d)" using that by (simp_all add: Cons_nth_drop_Suc)
      have n: "drop (Suc j) d ! 0 = d ! (j + 1)" "drop (Suc j) d ! 1 = d ! (j + 2)" "drop (Suc j) d ! 2 = d ! (j + 3)"
        "drop 3 (drop (Suc j) d) = drop (j + 3 + 1) d"
        using that by (simp_all add: numeral_3_eq_3)
      show ?thesis unfolding d nal_headers.simps n using l that by (simp add: rest_headers_def)
    qed
    have four: "nal_headers (drop (i + 1) d) = rest_headers d (i + 4)" if "d ! (i + 1) = 0" "d ! (i + 2) = 0" "d ! (i + 3) = 1"
    proof (cases "i + 4 < length d")
      case True
      have e: "i + 1 + 1 = i + 2" "i + 1 + 2 = i + 3" "i + 1 + 3 = i + 4" by simp_all
      show ?thesis using step[of "i + 1", unfolded e] that True by simp
    next
      case False
      then show ?thesis using short_headers[of "drop (i + 1) d"] by (simp add: rest_headers_def)
    qed
    show ?thesis using True 1 step[of i] four by (subst next_nal.simps) auto
  next
    case False
    then show ?thesis by (subst next_nal.simps) (simp add: short_headers)
  qed
qed

lemma loop_key: "nl_is_key (nal_loop codec d off c) \<longleftrightarrow> nl_is_key c \<or> opens codec (rest_headers d off)"
proof (induction codec d off c rule: nal_loop.induct)
  case (1 codec d off c)
  show ?case
  proof (cases "off < length d")
    case True
    let ?t = "unit_type codec (d ! off)"
    let ?hs = "nal_headers (drop (off + 1) d)"
    have r: "rest_headers d off = d ! off # ?hs" using True by (simp add: rest_headers_def)
    consider "nal_kind_of codec (d ! off) = NalKey" | "nal_kind_of codec (d ! off) = NalDelta" | "nal_kind_of codec (d ! off) = NalParam"
      | "nal_kind_of codec (d ! off) = NalOther" by (cases "nal_kind_of codec (d ! off)") auto
    then show ?thesis
    proof cases
      case 1
      then have "opens codec (rest_headers d off)"
        by (auto simp: r opens_def kind_of_type Let_def intra_picture_def predicted_picture_def split: if_splits)
      then show ?thesis using 1 True by (simp add: nal_loop.simps)
    next
      case 2
      then have "\<not> opens codec (rest_headers d off)" by (auto simp: r opens_def kind_of_type Let_def split: if_splits)
      then show ?thesis using 2 True by (simp add: nal_loop.simps)
    next
      case 3
      then have "opens codec (rest_headers d off)"
        by (auto simp: r opens_def kind_of_type Let_def parameter_set_def predicted_picture_def split: if_splits)
      then show ?thesis using "1.IH" 3 True by (subst nal_loop.simps) (auto simp: Let_def split: option.split)
    next
      case 4
      then have "opens codec (rest_headers d off) \<longleftrightarrow> opens codec ?hs" by (auto simp: r opens_def kind_of_type Let_def split: if_splits)
      then show ?thesis using "1.IH" 4 True headers_next[of "off + 1" d]
        by (subst nal_loop.simps) (auto simp: opens_def split: option.split)
    qed
  qed (simp add: nal_loop.simps rest_headers_def opens_def)
qed

lemma classified_key: "nl_is_key (nal_classify d codec) \<Longrightarrow> key_frame codec d"
proof -
  assume k: "nl_is_key (nal_classify d codec)"
  then have len: "5 \<le> length d" by (auto simp: nal_classify_def Let_def split: if_splits)
  then have o: "opens codec (rest_headers d (case next_nal d 0 of None \<Rightarrow> 0 | Some off \<Rightarrow> off))"
    using k by (simp add: nal_classify_def Let_def loop_key)
  show ?thesis
  proof (cases "next_nal d 0")
    case None
    have "d = d ! 0 # drop 1 d" using len by (cases d) auto
    then have "nal_headers d = [] \<longrightarrow> nal_headers (drop 1 d) = []" "d \<noteq> []" using len by (cases d; auto)+
    then show ?thesis using o len None headers_next[of 0 d] by (auto simp: key_frame_def rest_headers_def)
  next
    case (Some off)
    then show ?thesis using o len headers_next[of 0 d] by (auto simp: key_frame_def opens_def)
  qed
qed

definition writes_ok :: "stream_call list \<Rightarrow> bool" where
  "writes_ok l \<longleftrightarrow> (\<forall>pre chn f post. l = pre @ RecWrite chn f # post \<longrightarrow>
     fst (track chn pre) \<and> (snd (track chn pre) \<longrightarrow> fr_codec f = of_int (codec_of chn pre) \<and> key_frame (codec_of chn pre) (fr_data f)))"

lemma writes_ok_snoc:
  "writes_ok (l @ [a]) \<longleftrightarrow> writes_ok l \<and>
     (case a of RecWrite chn f \<Rightarrow> fst (track chn l) \<and>
        (snd (track chn l) \<longrightarrow> fr_codec f = of_int (codec_of chn l) \<and> key_frame (codec_of chn l) (fr_data f)) | _ \<Rightarrow> True)"
proof -
  have "l @ [a] = pre @ RecWrite chn f # post \<longleftrightarrow>
      (post = [] \<and> l = pre \<and> a = RecWrite chn f) \<or> (\<exists>post'. post = post' @ [a] \<and> l = pre @ RecWrite chn f # post')"
    for pre chn f post by (cases post rule: rev_cases) auto
  then have "writes_ok (l @ [a]) \<longleftrightarrow> writes_ok l \<and>
      (\<forall>chn f. a = RecWrite chn f \<longrightarrow> fst (track chn l) \<and>
        (snd (track chn l) \<longrightarrow> fr_codec f = of_int (codec_of chn l) \<and> key_frame (codec_of chn l) (fr_data f)))"
    unfolding writes_ok_def by (simp only:) blast
  then show ?thesis by (cases a) auto
qed

section \<open>The invariant\<close>

definition chan_ok :: "stream_chan \<Rightarrow> bool" where
  "chan_ok c \<longleftrightarrow> \<not> st_puller c \<longrightarrow> st_vdec c = None \<and> \<not> st_writer c"

text \<open>What a channel with a writer knows of the log: the writer is open, the codec is the stream's, and the gate is shut until the first write.
  The rational \<open>z\<close> is the cost of the decoders that were forgotten.\<close>

definition log_view :: "int \<Rightarrow> stream_chan \<Rightarrow> stream_call list \<Rightarrow> bool" where
  "log_view chn c l \<longleftrightarrow> (st_writer c \<longrightarrow> fst (track chn l) \<and> codec_of chn l = st_codec c \<and> (st_rec_gated c \<longrightarrow> \<not> snd (track chn l)))"

definition others_same :: "int \<Rightarrow> stream_call list \<Rightarrow> stream_call list \<Rightarrow> bool" where
  "others_same chn l l' \<longleftrightarrow> (\<forall>k. k \<noteq> chn \<longrightarrow> track k l' = track k l \<and> codec_of k l' = codec_of k l)"

definition stream_inv :: "rat \<Rightarrow> stream_mgr \<Rightarrow> bool" where
  "stream_inv z m \<longleftrightarrow> length (ss_ch m) = STREAM_MAX_CH \<and>
     mb_total (ss_budget m) = MHAL_BUDGET_DEFAULT_TOTAL \<and>
     mb_used (ss_budget m) = sum_list (map vdec_cost (ss_ch m)) + z \<and> 0 \<le> z \<and> mb_used (ss_budget m) \<le> mb_total (ss_budget m) \<and>
     (\<forall>c. Some c \<in> set (ss_ch m) \<longrightarrow> chan_ok c) \<and>
     (\<forall>chn c. slot_of m chn = Some c \<longrightarrow> log_view chn c (ss_log m)) \<and> writes_ok (ss_log m)"

lemma cost_nonneg: "0 \<le> mhal_budget_cost w h fps"
  by (simp add: mhal_budget_cost_def)

lemma vdec_cost_nonneg: "0 \<le> vdec_cost c"
  by (simp add: vdec_cost_def cost_nonneg split: option.splits)

lemma sum_list_map_update:
  "i < length xs \<Longrightarrow> sum_list (map f (xs[i := x])) = sum_list (map f xs) - f (xs ! i) + (f x :: rat)"
  by (induction xs arbitrary: i) (auto split: nat.splits)

lemma slot_some:
  assumes "slot_of m chn = Some c" "length (ss_ch m) = STREAM_MAX_CH"
  shows "0 \<le> chn" "nat chn < length (ss_ch m)" "ss_ch m ! nat chn = Some c"
  using assms by (auto simp: slot_of_def split: if_splits)

lemma slot_put:
  assumes "0 \<le> chn" "nat chn < STREAM_MAX_CH" "length (ss_ch m) = STREAM_MAX_CH"
  shows "slot_of (put_chan chn c m) chn' = (if chn' = chn then Some c else slot_of m chn')"
  using assms by (auto simp: slot_of_def put_chan_def nth_list_update nat_eq_iff)

lemma slot_cong: "ss_ch m' = ss_ch m \<Longrightarrow> slot_of m' chn = slot_of m chn"
  by (simp add: slot_of_def)

text \<open>Replacing one channel: the channel's share of the budget and its view of the log move together.\<close>

lemma inv_put:
  assumes I: "stream_inv z m" and c: "slot_of m chn = Some c"
    and m': "ss_ch m' = ss_ch m" "mb_total (ss_budget m') = mb_total (ss_budget m)"
      "mb_used (ss_budget m') = mb_used (ss_budget m) - vdec_cost (Some c) + vdec_cost (Some c')"
      "mb_used (ss_budget m') \<le> mb_total (ss_budget m)"
    and ok: "chan_ok c'" and lg: "log_view chn c' (ss_log m')" "others_same chn (ss_log m) (ss_log m')"
    and w: "writes_ok (ss_log m')"
  shows "stream_inv z (put_chan chn c' m')" "slot_of (put_chan chn c' m') chn = Some c'"
proof -
  have L: "length (ss_ch m) = STREAM_MAX_CH" using I by (simp add: stream_inv_def)
  note S = slot_some[OF c L]
  have lt: "nat chn < STREAM_MAX_CH" using S L by simp
  have sp: "slot_of (put_chan chn c' m') k = (if k = chn then Some c' else slot_of m k)" for k
    using slot_put[OF S(1) lt, of m' c' k] L m'(1) slot_cong[OF m'(1)] by simp
  then show "slot_of (put_chan chn c' m') chn = Some c'" by simp
  have "set (ss_ch (put_chan chn c' m')) \<subseteq> insert (Some c') (set (ss_ch m))"
    using set_update_subset_insert[of "ss_ch m" "nat chn" "Some c'"] by (simp add: put_chan_def m'(1))
  moreover have "sum_list (map vdec_cost (ss_ch (put_chan chn c' m')))  + z = mb_used (ss_budget m')"
    using I S m'(1,3) sum_list_map_update[of "nat chn" "ss_ch m" vdec_cost "Some c'"] by (simp add: put_chan_def stream_inv_def)
  ultimately show "stream_inv z (put_chan chn c' m')"
    using I m' ok w lg sp by (auto simp: stream_inv_def put_chan_def others_same_def log_view_def)
qed

text \<open>A channel taken out of its slot, worked on and not yet put back.\<close>

definition pair_inv :: "rat \<Rightarrow> int \<Rightarrow> stream_chan \<Rightarrow> stream_mgr \<Rightarrow> bool" where
  "pair_inv z chn c m \<longleftrightarrow> 0 \<le> chn \<and> chn < int STREAM_MAX_CH \<and> stream_inv z (put_chan chn c m)"

lemma put_put [simp]: "put_chan chn c' (put_chan chn c m) = put_chan chn c' m"
  by (simp add: put_chan_def)

lemma put_chan_same: "\<lbrakk>slot_of m chn = Some c; length (ss_ch m) = STREAM_MAX_CH\<rbrakk> \<Longrightarrow> put_chan chn c m = m"
  using slot_some[of m chn c] by (simp add: put_chan_def list_update_same_conv)

lemma pair_of_slot: "\<lbrakk>stream_inv z m; slot_of m chn = Some c\<rbrakk> \<Longrightarrow> pair_inv z chn c m"
  using slot_some[of m chn c] put_chan_same[of m chn c] by (auto simp: pair_inv_def stream_inv_def)

lemma put_sel [simp]:
  "ss_budget (put_chan chn c m) = ss_budget m" "ss_log (put_chan chn c m) = ss_log m" "ss_group (put_chan chn c m) = ss_group m"
  "length (ss_ch (put_chan chn c m)) = length (ss_ch m)"
  by (simp_all add: put_chan_def)

lemma pair_slot: "pair_inv z chn c m \<Longrightarrow> slot_of (put_chan chn c m) chn = Some c"
  using slot_put[of chn m c chn] by (auto simp: pair_inv_def stream_inv_def)

lemma pair_facts:
  assumes "pair_inv z chn c m"
  shows "log_view chn c (ss_log m)" "writes_ok (ss_log m)" "chan_ok c"
    "mb_used (ss_budget m) \<le> mb_total (ss_budget m)" "vdec_cost (Some c) \<le> mb_used (ss_budget m)"
proof -
  define m1 where "m1 = put_chan chn c m"
  have I: "stream_inv z m1" and s: "slot_of m1 chn = Some c"
    using assms pair_slot[OF assms] by (simp_all add: pair_inv_def m1_def)
  then have L: "length (ss_ch m1) = STREAM_MAX_CH" by (simp add: stream_inv_def)
  note S = slot_some[OF s L]
  show "log_view chn c (ss_log m)" "writes_ok (ss_log m)"
      "mb_used (ss_budget m) \<le> mb_total (ss_budget m)"
    using I s by (simp_all add: stream_inv_def m1_def)
  have "Some c \<in> set (ss_ch m1)" using S nth_mem by metis
  then show "chan_ok c" using I by (simp add: stream_inv_def)
  have "0 \<le> sum_list (map vdec_cost ((ss_ch m1)[nat chn := None]))"
    by (rule sum_list_nonneg) (auto simp: vdec_cost_nonneg)
  then show "vdec_cost (Some c) \<le> mb_used (ss_budget m)"
    using sum_list_map_update[of "nat chn" "ss_ch m1" vdec_cost None] S I
    by (simp add: stream_inv_def vdec_cost_def m1_def)
qed

lemma pair_step:
  assumes P: "pair_inv z chn c m"
    and m': "ss_ch m' = ss_ch m" "mb_total (ss_budget m') = mb_total (ss_budget m)"
      "mb_used (ss_budget m') = mb_used (ss_budget m) - vdec_cost (Some c) + vdec_cost (Some c')"
      "mb_used (ss_budget m') \<le> mb_total (ss_budget m)"
    and ok: "chan_ok c'" and lg: "log_view chn c' (ss_log m')" "others_same chn (ss_log m) (ss_log m')"
    and w: "writes_ok (ss_log m')"
  shows "pair_inv z chn c' m'"
  using inv_put(1)[of z "put_chan chn c m" chn c "put_chan chn c m'" c'] pair_slot[OF P] P m' ok lg w
  by (simp add: pair_inv_def put_chan_def)

text \<open>The recorder's view of a channel is left alone by changes of the other fields.\<close>

lemma pair_same:
  assumes "pair_inv z chn c m" "st_vdec c' = st_vdec c" "st_writer c' = st_writer c" "st_rec_gated c' = st_rec_gated c"
    "st_writer c \<longrightarrow> st_codec c' = st_codec c" "st_puller c \<longrightarrow> st_puller c'"
  shows "pair_inv z chn c' m"
  by (rule pair_step[OF assms(1)]) (use assms pair_facts[OF assms(1)] in \<open>auto simp: vdec_cost_def chan_ok_def log_view_def others_same_def\<close>)

lemma pair_dec_send:
  assumes "pair_inv z chn c m"
  shows "pair_inv z chn c (log_call (DecSend chn d t) m)"
  by (rule pair_step[OF assms]) (use assms pair_facts[OF assms] in \<open>auto simp: log_call_def track_step_def codec_step_def writes_ok_snoc log_view_def others_same_def\<close>)

lemma pair_rec_write:
  assumes "pair_inv z chn c m" "st_writer c" "st_rec_gated c \<or> fr_codec f = of_int (st_codec c) \<and> key_frame (st_codec c) (fr_data f)"
  shows "pair_inv z chn (c\<lparr>st_rec_gated := True\<rparr>) (log_call (RecWrite chn f) m)"
  by (rule pair_step[OF assms(1)]) (use assms pair_facts[OF assms(1)] in \<open>auto simp: log_call_def track_step_def codec_step_def writes_ok_snoc log_view_def others_same_def vdec_cost_def chan_ok_def\<close>)

lemma pair_rec_open:
  assumes "pair_inv z chn c m" "st_puller c" "\<not> st_rec_gated c" "codec_of chn (ss_log m) = st_codec c"
  shows "pair_inv z chn (c\<lparr>st_writer := True\<rparr>) (log_call (RecOpen chn) m)"
  by (rule pair_step[OF assms(1)]) (use assms pair_facts[OF assms(1)] in \<open>auto simp: log_call_def track_step_def codec_step_def writes_ok_snoc log_view_def others_same_def vdec_cost_def chan_ok_def\<close>)

lemma pair_rec_close:
  assumes "pair_inv z chn c m"
  shows "pair_inv z chn (c\<lparr>st_writer := False\<rparr>) (log_call (RecClose chn) m)"
  by (rule pair_step[OF assms]) (use assms pair_facts[OF assms] in \<open>auto simp: log_call_def track_step_def codec_step_def writes_ok_snoc log_view_def others_same_def vdec_cost_def chan_ok_def\<close>)

lemma pair_connected:
  assumes "pair_inv z chn c m" "\<not> st_writer c"
  shows "pair_inv z chn c (log_call (Connected chn configured described) m)"
  by (rule pair_step[OF assms(1)]) (use assms pair_facts[OF assms(1)] in \<open>auto simp: log_call_def track_step_def codec_step_def writes_ok_snoc log_view_def others_same_def\<close>)

lemma pair_ungate:
  assumes "pair_inv z chn c m" "\<not> st_writer c"
  shows "pair_inv z chn (c\<lparr>st_rec_gated := False\<rparr>) m"
  by (rule pair_step[OF assms(1)]) (use assms pair_facts[OF assms(1)] in \<open>auto simp: log_view_def others_same_def vdec_cost_def chan_ok_def\<close>)

text \<open>A decoder is admitted within the budget, and a refused one costs nothing.\<close>

lemma vdec_open_budget:
  assumes "mhal_vdec_open hw w h fps b = (b', d, rc)" "0 \<le> mb_used b" "mb_used b \<le> mb_total b"
  shows "mb_total b' = mb_total b" "mb_used b' \<le> mb_total b" "rc = 0 \<longleftrightarrow> d \<noteq> None"
    "mb_used b' = mb_used b + (case d of None \<Rightarrow> 0 | Some d \<Rightarrow> mhal_budget_cost (vd_w d) (vd_h d) (vd_fps d))"
  using assms cost_nonneg[of w h fps]
  by (auto simp: mhal_vdec_open_def mhal_budget_try_reserve_def mhal_budget_release_def MHAL_VDEC_EBUDGET_def Let_def
           split: if_splits)

lemma budget_nonneg: "pair_inv z chn c m \<Longrightarrow> 0 \<le> mb_used (ss_budget m)"
  using pair_facts(5)[of z chn c m] vdec_cost_nonneg[of "Some c"] by linarith

lemma pair_vdec:
  assumes P: "pair_inv z chn c m" and c: "st_vdec c = None" "st_puller c"
    and o: "mhal_vdec_open hw w h fps (ss_budget m) = (b, d, rc)"
  shows "pair_inv z chn (c\<lparr>st_vdec := d\<rparr>) (m\<lparr>ss_budget := b\<rparr>)"
  by (rule pair_step[OF P])
     (use c pair_facts[OF P] vdec_open_budget[OF o budget_nonneg[OF P] pair_facts(4)[OF P]]
      in \<open>auto simp: vdec_cost_def chan_ok_def log_view_def others_same_def\<close>)

lemma pair_router_open:
  assumes P: "pair_inv z chn c m" and c: "st_vdec c = None" "st_puller c" "\<not> st_writer c" "codec_of chn (ss_log m) = st_codec c"
    and o: "stream_router_open an chn c m = (c', m')"
  shows "pair_inv z chn c' m'" "st_puller c'"
proof -
  define c0 where "c0 = c\<lparr>st_decode_denied := False\<rparr>"
  have P0: "pair_inv z chn c0 m" by (rule pair_same[OF P]) (simp_all add: c0_def)
  define r where "r = (if sc_vout_win (st_cfg c0) \<ge> 0
        then case resolve_dim (st_cfg c0) of (w, h, fps) \<Rightarrow>
          (case mhal_vdec_open (an_hardware an) w h fps (ss_budget m) of
             (b, d, rc) \<Rightarrow>
               (if rc = MHAL_VDEC_EBUDGET then c0\<lparr>st_vdec := None, st_decode_denied := True\<rparr>
                else if rc \<noteq> 0 then c0\<lparr>st_vdec := None\<rparr>
                else c0\<lparr>st_vdec := d\<rparr>, m\<lparr>ss_budget := b\<rparr>))
        else (c0, m))"
  obtain c1 m1 where 1: "r = (c1, m1)" by (cases r)
  have P1: "pair_inv z chn c1 m1 \<and> st_puller c1 \<and> \<not> st_writer c1 \<and> codec_of chn (ss_log m1) = st_codec c1"
  proof (cases "sc_vout_win (st_cfg c0) \<ge> 0")
    case True
    obtain w h fps where rd: "resolve_dim (st_cfg c0) = (w, h, fps)" by (metis surj_pair)
    obtain b d rc where vo: "mhal_vdec_open (an_hardware an) w h fps (ss_budget m) = (b, d, rc)" by (metis surj_pair)
    have "st_vdec c0 = None" "st_puller c0" using c by (simp_all add: c0_def)
    note V = pair_vdec[OF P0 this vo]
    have d: "rc = 0 \<longleftrightarrow> d \<noteq> None" by (rule vdec_open_budget(3)[OF vo budget_nonneg[OF P0] pair_facts(4)[OF P0]])
    have c1: "c1 = (if rc = MHAL_VDEC_EBUDGET then c0\<lparr>st_vdec := None, st_decode_denied := True\<rparr>
               else if rc \<noteq> 0 then c0\<lparr>st_vdec := None\<rparr> else c0\<lparr>st_vdec := d\<rparr>)" and m1: "m1 = m\<lparr>ss_budget := b\<rparr>"
      using 1 True rd vo by (simp_all add: r_def)
    have "pair_inv z chn c1 m1" unfolding m1
      by (rule pair_same[OF V]) (use d in \<open>auto simp: c1 MHAL_VDEC_EBUDGET_def\<close>)
    then show ?thesis using c by (simp add: c1 m1 c0_def)
  qed (use 1 P0 c in \<open>auto simp: c0_def r_def\<close>)
  define c2 where "c2 = c1\<lparr>st_rec_gated := False\<rparr>"
  have P2: "pair_inv z chn c2 m1" using pair_ungate P1 by (simp add: c2_def)
  have W: "pair_inv z chn (c2\<lparr>st_writer := True\<rparr>) (log_call (RecOpen chn) m1)"
    using pair_rec_open[OF P2] P1 by (simp add: c2_def)
  have N: "pair_inv z chn (c2\<lparr>st_writer := False\<rparr>) m1" by (rule pair_same[OF P2]) (use P1 in \<open>simp_all add: c2_def\<close>)
  have sw: "c1\<lparr>st_writer := x, st_rec_gated := False\<rparr> = c2\<lparr>st_writer := x\<rparr>" for x
    by (cases c1) (simp add: c2_def)
  show "pair_inv z chn c' m'" "st_puller c'"
    using o 1 W N P1 P2 unfolding stream_router_open_def Let_def c0_def[symmetric] r_def[symmetric]
    by (auto simp: sw c2_def split: if_splits)
qed

lemma pair_route_video:
  assumes P: "pair_inv z chn c m" and o: "stream_route_video chn data ts now c m = (c', m')"
  shows "pair_inv z chn c' m'"
proof -
  define m1 where "m1 = (if st_vdec c \<noteq> None then log_call (DecSend chn data ts) m else m)"
  have P1: "pair_inv z chn c m1" using P pair_dec_send by (simp add: m1_def)
  show ?thesis
    using o P P1 classified_key[of data "st_codec c"] unfolding stream_route_video_def Let_def m1_def[symmetric]
    by (auto split: if_splits intro!: pair_rec_write)
qed

lemma rec_same:
  "st_rec_gated c \<Longrightarrow> c\<lparr>st_rec_gated := True\<rparr> = c" "\<not> st_writer c \<Longrightarrow> c\<lparr>st_writer := False\<rparr> = c"
  by (cases c, simp)+

lemma pair_route_audio: "pair_inv z chn c m \<Longrightarrow> pair_inv z chn c (stream_route_audio chn data ts now c m)"
  using pair_rec_write[of z chn c m] unfolding stream_route_audio_def by (auto simp: rec_same)

lemma pair_puller_start:
  assumes P: "pair_inv z chn c m" "\<not> st_puller c" and o: "puller_start an chn c m = (c', m', rc)"
  shows "pair_inv z chn c' m'"
proof -
  have c: "st_vdec c = None" "\<not> st_writer c" using pair_facts(3)[OF P(1)] P(2) by (simp_all add: chan_ok_def)
  let ?m = "log_call (Connected chn (sc_codec (st_cfg c)) (an_video_codec an)) m"
  let ?k = "if sc_codec (st_cfg c) = NVR_CODEC_AUTO then to_rsdk_codec (an_video_codec an) else sc_codec (st_cfg c)"
  have k: "codec_of chn (ss_log ?m) = ?k" by (simp add: log_call_def codec_step_def to_rsdk_codec_def)
  have B: "pair_inv z chn c1 m" if "st_vdec c1 = None" "\<not> st_writer c1" "st_rec_gated c1 = st_rec_gated c" for c1
    by (rule pair_same[OF P(1)]) (use c P that in simp_all)
  have A: "pair_inv z chn c1 ?m" if "st_vdec c1 = None" "\<not> st_writer c1" "st_rec_gated c1 = st_rec_gated c" for c1
    by (rule pair_connected[OF B[OF that]]) (rule that(2))
  obtain c2 m2 where ro: "stream_router_open an chn
      (c\<lparr>st_puller := True, st_state := NVR_CH_CONNECTING,
         st_codec := ?k\<rparr>) ?m = (c2, m2)" by (metis surj_pair)
  note R = pair_router_open[OF A _ _ _ _ ro]
  have R': "pair_inv z chn c2 m2" using R(1) c k by simp
  have "pair_inv z chn (c2\<lparr>st_state := NVR_CH_FAIL\<rparr>) m2" by (rule pair_same[OF R']) simp_all
  then show ?thesis
    using o ro R' B c unfolding puller_start_def Let_def by (auto split: if_splits)
qed

lemma sub_le: "\<lbrakk>(0::rat) \<le> x; u \<le> t\<rbrakk> \<Longrightarrow> u - x \<le> t"
  by linarith

lemma pair_puller_stop:
  assumes P: "pair_inv z chn c m" and o: "puller_stop chn c m = (c', m')"
  shows "pair_inv z chn c' m'" "\<not> st_puller c'" "st_cfg c' = st_cfg c"
proof -
  define m1 where "m1 = (if st_writer c then log_call (RecClose chn) m else m)"
  define c1 where "c1 = c\<lparr>st_writer := False\<rparr>"
  have P1: "pair_inv z chn c1 m1"
    using pair_rec_close[OF P] P by (cases "st_writer c") (simp_all add: c1_def m1_def rec_same)
  have P2: "pair_inv z chn (c1\<lparr>st_puller := False, st_vdec := None, st_rec_gated := False, st_state := NVR_CH_IDLE\<rparr>)
      (m1\<lparr>ss_budget := mhal_vdec_close (st_vdec c1) (ss_budget m1)\<rparr>)"
    by (rule pair_step[OF P1])
       (use pair_facts[OF P1] in \<open>auto simp: vdec_cost_def chan_ok_def log_view_def others_same_def c1_def mhal_vdec_close_def
          mhal_budget_release_def Let_def cost_nonneg intro!: sub_le split: option.splits\<close>)
  have c': "c1\<lparr>st_puller := False, st_vdec := None, st_rec_gated := False, st_state := NVR_CH_IDLE\<rparr>
      = c\<lparr>st_puller := False, st_writer := False, st_vdec := None, st_rec_gated := False, st_state := NVR_CH_IDLE\<rparr>"
    by (simp add: c1_def)
  have "if st_puller c then (c', m') = (c1\<lparr>st_puller := False, st_vdec := None, st_rec_gated := False, st_state := NVR_CH_IDLE\<rparr>,
        m1\<lparr>ss_budget := mhal_vdec_close (st_vdec c1) (ss_budget m1)\<rparr>) else (c', m') = (c, m)"
    using o unfolding puller_stop_def stream_router_close_def Let_def m1_def c'
    by (cases "st_puller c"; cases "st_writer c") (simp_all add: c1_def log_call_def)
  then show "pair_inv z chn c' m'" "\<not> st_puller c'" "st_cfg c' = st_cfg c"
    using P2 P by (auto split: if_splits simp: c1_def)
qed

text \<open>Every operation keeps the invariant.\<close>

lemma inv_notify: "pair_inv z chn c m \<Longrightarrow> pair_inv z chn (on_notify e c) m"
  by (rule pair_same[of z chn c m]) (cases e; simp)+

lemma pair_done: "pair_inv z chn c m \<Longrightarrow> stream_inv z (put_chan chn c m)"
  by (simp add: pair_inv_def)

lemma inv_start: "stream_inv z m \<Longrightarrow> stream_inv z (fst (nvr_stream_start an chn m))"
  unfolding nvr_stream_start_def
  by (auto split: option.splits prod.splits intro: pair_done pair_puller_start pair_of_slot)

lemma inv_stop_chan: "pair_inv z chn c m \<Longrightarrow> stream_inv z (stop_chan chn c m)"
  unfolding stop_chan_def by (auto split: prod.splits intro: pair_done pair_puller_stop)

lemma inv_stop: "stream_inv z m \<Longrightarrow> stream_inv z (fst (nvr_stream_stop chn m))"
  unfolding nvr_stream_stop_def by (auto split: option.splits intro: inv_stop_chan pair_of_slot)

lemma slot_nat: "i < STREAM_MAX_CH \<Longrightarrow> slot_of m (int i) = ss_ch m ! i"
  by (simp add: slot_of_def)

lemma inv_fold: "\<lbrakk>stream_inv z m; \<And>i m. i \<in> set is \<Longrightarrow> stream_inv z m \<Longrightarrow> stream_inv z (f i m)\<rbrakk> \<Longrightarrow> stream_inv z (fold f is m)"
  by (induction "is" arbitrary: m) auto

lemma inv_start_all: "stream_inv z m \<Longrightarrow> stream_inv z (nvr_stream_start_all ans m)"
  unfolding nvr_stream_start_all_def by (rule inv_fold) (auto intro: inv_start)

lemma inv_stop_all: "stream_inv z m \<Longrightarrow> stream_inv z (nvr_stream_stop_all m)"
  unfolding nvr_stream_stop_all_def
  by (rule inv_fold) (auto split: option.splits intro!: inv_stop_chan pair_of_slot simp: slot_nat)

lemma inv_switch: "stream_inv z m \<Longrightarrow> stream_inv z (fst (nvr_stream_switch_stream an chn stream url m))"
  unfolding nvr_stream_switch_stream_def
  by (auto split: option.splits prod.splits intro!: inv_start pair_done
        intro: pair_same[OF pair_puller_stop(1)[OF pair_of_slot]])

lemma inv_set_record: 
  assumes "stream_inv z m"
  shows "stream_inv z (fst (nvr_stream_set_record an chn on m))"
proof (cases "slot_of m chn")
  case None
  then show ?thesis using assms by (simp add: nvr_stream_set_record_def)
next
  case (Some c)
  define c1 where "c1 = c\<lparr>st_cfg := (st_cfg c)\<lparr>sc_record := on\<rparr>\<rparr>"
  have P: "pair_inv z chn c1 m" by (rule pair_same[OF pair_of_slot[OF assms Some]]) (simp_all add: c1_def)
  then have "pair_inv z chn c1 (put_chan chn c1 m)" by (simp add: pair_inv_def)
  then show ?thesis using Some assms P
    by (simp add: nvr_stream_set_record_def Let_def c1_def[symmetric] inv_start inv_stop_chan pair_done)
qed

lemma inv_add:
  assumes I: "stream_inv z m"
  shows "stream_inv (z + vdec_cost (slot_of m (sc_chn cfg))) (fst (nvr_stream_add_channel cfg m))"
proof (cases "sc_chn cfg < 0 \<or> sc_chn cfg \<ge> int STREAM_MAX_CH")
  case False
  define chn where "chn = sc_chn cfg"
  define c where "c = \<lparr>st_cfg = cfg, st_codec = (if sc_codec cfg = NVR_CODEC_AUTO then -1 else sc_codec cfg),
     st_state = NVR_CH_IDLE, st_vdec = None, st_decode_denied = False, st_writer = False, st_rec_gated = False, st_puller = False\<rparr>"
  have L: "length (ss_ch m) = STREAM_MAX_CH" and lt: "0 \<le> chn" "nat chn < STREAM_MAX_CH"
    using I False by (auto simp: stream_inv_def chn_def)
  have old: "slot_of m chn = ss_ch m ! nat chn" using lt by (auto simp: slot_of_def)
  have "set (ss_ch (put_chan chn c m)) \<subseteq> insert (Some c) (set (ss_ch m))"
    using set_update_subset_insert[of "ss_ch m" "nat chn" "Some c"] by (simp add: put_chan_def)
  moreover have "sum_list (map vdec_cost (ss_ch (put_chan chn c m))) + (z + vdec_cost (slot_of m chn)) = mb_used (ss_budget m)"
    using I lt L sum_list_map_update[of "nat chn" "ss_ch m" vdec_cost "Some c"]
    by (simp add: put_chan_def stream_inv_def old) (simp add: vdec_cost_def c_def)
  moreover have "chan_ok c" "\<And>k l. log_view k c l" by (simp_all add: chan_ok_def log_view_def c_def)
  moreover have "slot_of (put_chan chn c m) k = (if k = chn then Some c else slot_of m k)" for k
    using slot_put[OF lt L] .
  ultimately have "stream_inv (z + vdec_cost (slot_of m chn)) (put_chan chn c m)"
    using I vdec_cost_nonneg[of "slot_of m chn"] by (auto simp: stream_inv_def split: if_splits)
  then show ?thesis using False by (simp add: nvr_stream_add_channel_def chn_def c_def)
qed (use I in \<open>auto simp: nvr_stream_add_channel_def slot_of_def vdec_cost_def\<close>)

lemma inv_step:
  assumes "stream_inv z m"
  shows "stream_inv (z + (case x of AddChannel cfg \<Rightarrow> vdec_cost (slot_of m (sc_chn cfg)) | _ \<Rightarrow> 0)) (stream_step x m)"
proof (cases x)
  case (OnVideo chn data ts now)
  then show ?thesis using assms
    by (auto simp: added_def split: prod.splits intro!: pair_done intro: pair_route_video[OF pair_of_slot])
next
  case (OnAudio chn data ts now)
  have ch: "ss_ch (stream_route_audio chn data ts now c m) = ss_ch m" for c by (simp add: stream_route_audio_def log_call_def)
  have "stream_route_audio chn data ts now c m = put_chan chn c (stream_route_audio chn data ts now c m)"
    if "slot_of m chn = Some c" for c
    using put_chan_same[of "stream_route_audio chn data ts now c m" chn c] that assms(1) ch slot_cong[OF ch]
    unfolding stream_inv_def by metis
  then show ?thesis using assms OnAudio
    by (auto simp: added_def) (metis pair_done pair_route_audio pair_of_slot)
next
  case (OnNotify chn e)
  then show ?thesis using assms
    by (auto simp: added_def intro!: pair_done intro: inv_notify[OF pair_of_slot])
qed (use assms in \<open>auto simp: inv_add inv_start inv_stop inv_start_all inv_stop_all inv_switch inv_set_record\<close>)

lemma inv_init: "stream_inv 0 (nvr_stream_mgr_init grp conn rx)"
proof -
  have "slot_of (nvr_stream_mgr_init grp conn rx) chn = None" for chn
    by (simp add: slot_of_def nvr_stream_mgr_init_def nat_less_iff)
  then show ?thesis
    by (simp add: stream_inv_def nvr_stream_mgr_init_def mhal_budget_init_def MHAL_BUDGET_DEFAULT_TOTAL_def vdec_cost_def
          log_view_def others_same_def writes_ok_def sum_list_replicate)
qed

lemma inv_run: "stream_inv z m \<Longrightarrow> stream_inv (z + forgotten xs m) (fold stream_step xs m)"
proof (induction xs arbitrary: z m)
  case (Cons x xs)
  show ?case using Cons.IH[OF inv_step[OF Cons.prems, of x]] by (simp add: add.assoc)
qed simp

lemma nothing_forgotten: "\<lbrakk>stream_inv z m; adds_stopped xs m\<rbrakk> \<Longrightarrow> forgotten xs m = 0"
proof (induction xs arbitrary: z m)
  case (Cons x xs)
  have "vdec_cost (slot_of m chn) = 0" if "\<not> running m chn" for chn
  proof (cases "slot_of m chn")
    case (Some c)
    then show ?thesis using that pair_facts(3)[OF pair_of_slot[OF Cons.prems(1) Some]] by (simp add: running_def chan_ok_def vdec_cost_def)
  qed (simp add: vdec_cost_def)
  then show ?case using Cons.IH[OF inv_step[OF Cons.prems(1), of x]] Cons.prems(2) by (auto split: stream_op.splits)
qed simp

section \<open>What the component promises\<close>

text \<open>The recording manager has 16 channels: the channels from 16 on, which the application gives to cameras added by address, can never be added or started.\<close>

lemma high_channels_never_stream:
  "16 \<le> sc_chn cfg \<Longrightarrow> nvr_stream_add_channel cfg m = (m, RSDK_E_PARAM) \<and> nvr_stream_start an (sc_chn cfg) m = (m, RSDK_E_NOTFOUND)"
  by (simp add: nvr_stream_add_channel_def nvr_stream_start_def slot_of_def STREAM_MAX_CH_def)

text \<open>A play that failed leaves the client in place: starting the channel again reports success and does nothing.\<close>

lemma failed_play_is_not_retried:
  assumes "stream_inv z m" "slot_of m chn = Some c" "\<not> st_puller c" "an_connects an" "\<not> an_plays an"
    and r: "nvr_stream_start an chn m = (m', e)"
  shows "e = RSDK_E_IO \<and> nvr_stream_start an2 chn m' = (m', RSDK_OK) \<and> nvr_stream_state m' chn = NVR_CH_FAIL"
proof -
  obtain c' m2 rc where ps: "puller_start an chn c m = (c', m2, rc)" by (metis prod_cases3)
  have P: "pair_inv z chn c m" by (rule pair_of_slot[OF assms(1,2)])
  have pu: "st_puller (fst (stream_router_open an chn c m)) = st_puller c" for c m
    unfolding stream_router_open_def Let_def by (auto split: prod.splits if_splits)
  have c': "st_puller c'" "st_state c' = NVR_CH_FAIL" "rc = -1"
    using ps assms(4,5) pu unfolding puller_start_def Let_def
    by (auto split: prod.splits if_splits simp: case_prod_beta)
  have "slot_of m' chn = Some c'" using r assms(2,3) ps c' pair_slot[OF pair_puller_start[OF P assms(3) ps]]
    by (auto simp: nvr_stream_start_def)
  then show ?thesis using r assms(2,3) ps c' by (auto simp: nvr_stream_start_def nvr_stream_state_def)
qed

text \<open>C26: In every history of a stream manager - channels added, also again and while they run, starts, stops, stream switches, recording
  switched on and off, frames and notifications in any order, whatever the connection, the decoder hardware and the recorder answer -
  the budget in use is exactly the cost of the decoders that the channels have open now and of those that were forgotten by adding a
  running channel again, and it stays within the total: none is admitted beyond it. What was forgotten is never given back; when a
  channel is added again only while it is stopped, nothing is forgotten, and no decoder leaks budget.\<close>

theorem decode_budget:
  "mb_used (ss_budget (fold stream_step xs (nvr_stream_mgr_init grp conn rx))) =
     sum_list (map vdec_cost (ss_ch (fold stream_step xs (nvr_stream_mgr_init grp conn rx)))) + forgotten xs (nvr_stream_mgr_init grp conn rx) \<and>
   mb_used (ss_budget (fold stream_step xs (nvr_stream_mgr_init grp conn rx))) \<le> MHAL_BUDGET_DEFAULT_TOTAL \<and>
   (adds_stopped xs (nvr_stream_mgr_init grp conn rx) \<longrightarrow> forgotten xs (nvr_stream_mgr_init grp conn rx) = 0)"
  using inv_run[OF inv_init, of xs grp conn rx] nothing_forgotten[OF inv_init] by (simp add: stream_inv_def)

text \<open>C27: In every such history each frame given to the recorder goes to a writer that is open, and the first frame written after the
  writer of a channel was opened is labelled with the codec of the channel's stream - the configured one, else the one its description
  names - and is a key frame of that codec: the first picture or parameter set in it is not a picture that needs earlier ones. So a recording
  never starts with frames that cannot be decoded.\<close>

theorem record_gate:
  assumes "ss_log (fold stream_step xs (nvr_stream_mgr_init grp conn rx)) = pre @ RecWrite chn f # post"
  shows "fst (track chn pre) \<and>
    (snd (track chn pre) \<longrightarrow> fr_codec f = of_int (codec_of chn pre) \<and> key_frame (codec_of chn pre) (fr_data f))"
proof -
  have "writes_ok (ss_log (fold stream_step xs (nvr_stream_mgr_init grp conn rx)))"
    using inv_run[OF inv_init] by (simp add: stream_inv_def)
  then show ?thesis unfolding writes_ok_def using assms by blast
qed

definition demo_cfg :: nvr_stream_chan_cfg where
  "demo_cfg = \<lparr>sc_chn = 3, sc_url = ''rtsp://10.0.0.3/1'', sc_user = ''admin'', sc_pass = ''p'', sc_codec = 0, sc_stream = NVR_STREAM_SUB,
     sc_record = 1, sc_vout_win = 0, sc_over_tcp = 1, sc_enc_w = 0, sc_enc_h = 0, sc_fps = 0\<rparr>"

definition demo_answers :: answers where
  "demo_answers = \<lparr>an_connects = True, an_video_codec = 3, an_plays = True, an_hardware = True, an_rec_opens = True\<rparr>"

definition demo_history :: "stream_op list" where
  "demo_history = [AddChannel demo_cfg, Start demo_answers 3, OnVideo 3 [0, 0, 0, 1, 0x41, 9] 40 1000,
     OnVideo 3 [0, 0, 0, 1, 0x65, 7] 80 1040]"

lemma demo_run:
  "adds_stopped demo_history (nvr_stream_mgr_init True 0 0)"
  "ss_log (fold stream_step demo_history (nvr_stream_mgr_init True 0 0)) =
     [Connected 3 0 3, RecOpen 3, DecSend 3 [0, 0, 0, 1, 0x41, 9] 40, DecSend 3 [0, 0, 0, 1, 0x65, 7] 80] @
      RecWrite 3 \<lparr>fr_chn = 3, fr_stream = 1, fr_codec = 0, fr_frame_type = 0, fr_pts = 80, fr_wall_time = 1040,
        fr_data = [0, 0, 0, 1, 0x65, 7]\<rparr> # []"
  by code_simp+

theorem decode_budget_witness:
  "mb_used (ss_budget (fold stream_step demo_history (nvr_stream_mgr_init True 0 0))) = 640 * 360 * 20 \<and>
   sum_list (map vdec_cost (ss_ch (fold stream_step demo_history (nvr_stream_mgr_init True 0 0)))) = 640 * 360 * 20"
proof -
  have "mb_used (ss_budget (fold stream_step demo_history (nvr_stream_mgr_init True 0 0))) = 640 * 360 * 20" by code_simp
  then show ?thesis using decode_budget[of demo_history True 0 0] demo_run(1) by simp
qed

theorem record_gate_witness:
  "key_frame 0 [0, 0, 0, 1, 0x65, 7] \<and> \<not> key_frame 0 [0, 0, 0, 1, 0x41, 9] \<and> \<not> key_frame 1 [0, 0, 0, 1, 0x02, 1, 0, 0, 1, 0x26]"
proof -
  have t: "snd (track 3 [Connected 3 0 3, RecOpen 3, DecSend 3 [0, 0, 0, 1, 0x41, 9] 40, DecSend 3 [0, 0, 0, 1, 0x65, 7] 80])"
    "codec_of 3 [Connected 3 0 3, RecOpen 3, DecSend 3 [0, 0, 0, 1, 0x41, 9] 40, DecSend 3 [0, 0, 0, 1, 0x65, 7] 80] = 0" by code_simp+
  have "key_frame 0 [0, 0, 0, 1, 0x65, 7]" using record_gate[OF demo_run(2)] unfolding t(2) using t(1) by simp
  moreover have "\<not> key_frame 0 [0, 0, 0, 1, 0x41, 9]" "\<not> key_frame 1 [0, 0, 0, 1, 0x02, 1, 0, 0, 1, 0x26]" by code_simp+
  ultimately show ?thesis by blast
qed

section \<open>The channel manager and the stream manager\<close>

text \<open>The calls that the channel manager of the application makes, as operations of the stream manager, with one answer for all of them.\<close>

fun ops_of :: "answers \<Rightarrow> chan_act \<Rightarrow> stream_op list" where
  "ops_of an (StreamAdd cfg) = [AddChannel cfg]"
| "ops_of an (StreamStart chn) = [Start an chn]"
| "ops_of an (StreamStop chn) = [Stop chn]"
| "ops_of an StreamStartAll = [StartAll (\<lambda>_. an)]"
| "ops_of an StreamStopAll = [StopAll]"
| "ops_of an (Online chn) = []"
| "ops_of an (Offline chn) = []"

definition replay :: "answers \<Rightarrow> chan_act list \<Rightarrow> stream_op list" where
  "replay an acts = concat (map (ops_of an) acts)"

lemma forgotten_append: "forgotten (xs @ ys) m = forgotten xs m + forgotten ys (fold stream_step xs m)"
  by (induction xs arbitrary: m) (simp_all add: add.assoc)

lemma fold_one:
  assumes "i < n" "\<And>j s. \<lbrakk>j < n; j \<noteq> i; P s\<rbrakk> \<Longrightarrow> f j s = s" "P s" "P (f i s)"
  shows "fold f [0..<n] s = f i s"
proof -
  have keep: "fold f js t = t" if "P t" "\<forall>j \<in> set js. j < n \<and> j \<noteq> i" for js t
    using that by (induction js) (auto simp: assms(2))
  have "[0..<n] = [0..<i] @ i # [Suc i..<n]" using assms(1) upt_add_eq_append[of 0 i "n - i"] upt_conv_Cons[of i n] by simp
  then show ?thesis using keep[of s "[0..<i]"] keep[of "f i s" "[Suc i..<n]"] assms by simp
qed

lemma nothing_added: "list_all (\<lambda>a. case a of StreamAdd cfg \<Rightarrow> False | _ \<Rightarrow> True) acts \<Longrightarrow> forgotten (replay an acts) m = 0"
proof (induction acts arbitrary: m)
  case (Cons a acts)
  have "replay an (a # acts) = ops_of an a @ replay an acts" by (simp add: replay_def)
  moreover have "forgotten (ops_of an a) m = 0" using Cons.prems by (cases a) auto
  ultimately show ?case using Cons by (simp add: forgotten_append)
qed (simp add: replay_def)

lemma tick_state_adds_nothing: "list_all (\<lambda>a. case a of StreamAdd cfg \<Rightarrow> False | _ \<Rightarrow> True) (snd (tick_state base max_s now st s))"
  by (cases st) (simp_all add: tick_state_def tick_retry_def Let_def)

text \<open>One channel that is added to a new manager and started: its decoder.\<close>

lemma started_decoder:
  assumes "0 \<le> sc_chn cfg" "sc_chn cfg < 16" "an_connects an" "an_hardware an" "0 \<le> sc_vout_win cfg" "resolve_dim cfg = (1920, 1080, 20)"
  shows "vdec_cost (slot_of (stream_step (StartAll (\<lambda>_. an)) (stream_step (AddChannel cfg) (nvr_stream_mgr_init grp conn rx))) (sc_chn cfg)) =
    1920 * 1080 * 20"
proof -
  define i where "i = nat (sc_chn cfg)"
  define m where "m = stream_step (AddChannel cfg) (nvr_stream_mgr_init grp conn rx)"
  define f where "f = (\<lambda>i m. if ss_ch m ! i \<noteq> None then fst (nvr_stream_start an (int i) m) else m)"
  have i: "i < STREAM_MAX_CH" "int i = sc_chn cfg" using assms(1,2) by (simp_all add: i_def STREAM_MAX_CH_def)
  define c where "c = \<lparr>st_cfg = cfg, st_codec = (if sc_codec cfg = NVR_CODEC_AUTO then -1 else sc_codec cfg),
     st_state = NVR_CH_IDLE, st_vdec = None, st_decode_denied = False, st_writer = False, st_rec_gated = False, st_puller = False\<rparr>"
  have m: "m = put_chan (sc_chn cfg) c (nvr_stream_mgr_init grp conn rx)"
    using assms(1,2) by (simp add: m_def nvr_stream_add_channel_def c_def STREAM_MAX_CH_def)
  have ch: "ss_ch m = (replicate STREAM_MAX_CH None)[i := Some c]" "ss_budget m = mhal_budget_init"
    by (simp_all add: m put_chan_def nvr_stream_mgr_init_def i_def)
  have slot: "slot_of m (sc_chn cfg) = Some c" using i assms(1,2) by (simp add: slot_of_def ch STREAM_MAX_CH_def i_def[symmetric])
  obtain c' m' rc where ps: "puller_start an (sc_chn cfg) c m = (c', m', rc)" by (metis surj_pair)
  have r: "0 \<le> sc_vout_win (st_cfg c)" "resolve_dim (st_cfg c) = (1920, 1080, 20)" using assms(5,6) by (simp_all add: c_def)
  have d: "st_vdec c' = Some \<lparr>vd_w = 1920, vd_h = 1080, vd_fps = 20\<rparr> \<and> ss_ch m' = ss_ch m"
    using ps assms(3,4) r
    by (auto simp: puller_start_def stream_router_open_def Let_def log_call_def mhal_vdec_open_def mhal_budget_try_reserve_def
        mhal_budget_cost_def ch(2) mhal_budget_init_def MHAL_BUDGET_DEFAULT_TOTAL_def MHAL_VDEC_EBUDGET_def split: if_splits)
  have st: "f i m = put_chan (sc_chn cfg) c' m'"
    using i slot ps by (simp add: f_def ch nvr_stream_start_def) (simp add: c_def)
  define P where "P = (\<lambda>m :: stream_mgr. \<forall>j < STREAM_MAX_CH. j \<noteq> i \<longrightarrow> ss_ch m ! j = (None :: stream_chan option))"
  have "P m" "P (f i m)" using d unfolding P_def st by (simp_all add: ch put_chan_def i_def[symmetric])
  then have "fold f [0..<STREAM_MAX_CH] m = f i m" using fold_one[of i STREAM_MAX_CH P f m] i by (auto simp: P_def f_def)
  then have "stream_step (StartAll (\<lambda>_. an)) m = put_chan (sc_chn cfg) c' m'"
    unfolding stream_step.simps nvr_stream_start_all_def st[symmetric] by (simp only: f_def)
  moreover have "slot_of (put_chan (sc_chn cfg) c' m') (sc_chn cfg) = Some c'"
    using i assms(1,2) d by (simp add: slot_of_def put_chan_def i_def[symmetric] ch STREAM_MAX_CH_def)
  ultimately have "slot_of (stream_step (StartAll (\<lambda>_. an)) m) (sc_chn cfg) = Some c'" by simp
  then show ?thesis using d by (simp add: m_def vdec_cost_def mhal_budget_cost_def)
qed

text \<open>C28: A camera with ONVIF that is bound before the start is started twice. The application loads the channel of a camera whose URL is asked from
  the camera (no URL configured, an address given), starts all streams and ticks: whatever the stream states are, the tick adds the
  running channel again, so the decoder of its main stream (1920 x 1080 at 20 frames) is forgotten open, with its share of the budget.\<close>

theorem onvif_camera_started_twice:
  assumes "0 \<le> ch_chn d" "ch_chn d < 16" "ch_url d = []" "ch_onvif_auto d" "ch_onvif_ip d \<noteq> []" "ch_enabled d"
    "ch_stream d \<noteq> NVR_STREAM_SUB" "0 \<le> ch_vout_win d" "resolve_url get_url d 256 = Some url" "an_connects an" "an_hardware an"
    "m = nvr_chan_tick get_url now stream (nvr_chan_start_all (fst (nvr_chan_load_config get_url [d] (nvr_chan_mgr_init base max_s))))"
  shows "forgotten (replay an (cm_log m)) (nvr_stream_mgr_init grp conn rx) = 1920 * 1080 * 20"
proof -
  define i where "i = nat (ch_chn d)"
  have i: "i < NVR_MAX_CH" "int i = ch_chn d" using assms(1,2) by (simp_all add: i_def NVR_MAX_CH_def)
  define m1 where "m1 = nvr_chan_start_all (fst (nvr_chan_load_config get_url [d] (nvr_chan_mgr_init base max_s)))"
  define s1 where "s1 = cm_slots m1 ! i"
  have ok: "slot_ok (ch_chn d)" "\<not> (ch_chn d < 0 \<or> int NVR_MAX_CH \<le> ch_chn d)" using assms(1,2) by (simp_all add: slot_ok_def NVR_MAX_CH_def)
  have m1: "cm_log m1 = [StreamAdd (stream_cfg d url), StreamStartAll]" "cs_in_use s1" "cs_d s1 = d" "cs_status s1 = NVR_CHAN_BOUND"
    "\<forall>j < NVR_MAX_CH. j \<noteq> i \<longrightarrow> \<not> cs_in_use (cm_slots m1 ! j)" "length (cm_slots m1) = NVR_MAX_CH"
    using ok i assms(6,9)
    by (simp_all add: m1_def s1_def install_slot_def Let_def nvr_chan_start_all_def do_act_def set_slot_def nvr_chan_mgr_init_def
        i_def[symmetric] zero_slot_def)
  let ?t = "tick_one get_url now stream"
  define P where "P = (\<lambda>m :: nvr_chan_mgr. \<forall>j < NVR_MAX_CH. j \<noteq> i \<longrightarrow> \<not> cs_in_use (cm_slots m ! j))"
  have "cm_slots (?t i m1) = (cm_slots m1)[i := cm_slots (?t i m1) ! i]"
    using i(1) m1(6) by (auto simp: tick_one_def Let_def set_slot_def split: prod.split)
  then have "P m1" "P (?t i m1)" using m1(5) by (auto simp: P_def) (metis nth_list_update_neq)
  then have "fold ?t [0..<NVR_MAX_CH] m1 = ?t i m1"
    by (intro fold_one[where P = P] i(1)) (simp_all add: P_def tick_one_def Let_def)
  then have "m = ?t i m1" using assms(12)[folded m1_def, unfolded nvr_chan_tick_def] by (rule trans[rotated])
  moreover obtain s2 where r: "tick_resolve get_url s1 = (s2, [StreamAdd (stream_cfg d (take 255 url)), StreamStart (ch_chn d)])"
    using assms(3-5,9) m1(3) by (simp add: tick_resolve_def Let_def)
  ultimately obtain acts where acts: "cm_log m = [StreamAdd (stream_cfg d url), StreamStartAll] @
      [StreamAdd (stream_cfg d (take 255 url)), StreamStart (ch_chn d)] @ acts" "list_all (\<lambda>a. case a of StreamAdd cfg \<Rightarrow> False | _ \<Rightarrow> True) acts"
    using m1(1,2,4) tick_state_adds_nothing[of "cm_base_s m1" "cm_max_s m1" now "stream (ch_chn (cs_d s2))" s2]
    by (simp add: tick_one_def s1_def[symmetric] Let_def tick_slot_def case_prod_beta)
  let ?c = "stream_cfg d url" and ?m = "nvr_stream_mgr_init grp conn rx"
  have none: "vdec_cost (slot_of ?m k) = 0" for k by (simp add: slot_of_def nvr_stream_mgr_init_def vdec_cost_def nat_less_iff)
  have "vdec_cost (slot_of (stream_step (StartAll (\<lambda>_. an)) (stream_step (AddChannel ?c) ?m)) (sc_chn ?c)) = 1920 * 1080 * 20"
    using assms(1,2,7,8,10,11) by (intro started_decoder) (simp_all add: stream_cfg_def resolve_dim_def)
  moreover have "replay an (cm_log m) = [AddChannel ?c, StartAll (\<lambda>_. an), AddChannel (stream_cfg d (take 255 url)), Start an (ch_chn d)] @ replay an acts"
    unfolding acts(1) by (simp add: replay_def)
  ultimately show ?thesis using none nothing_added[OF acts(2), of an]
    by (simp add: stream_cfg_def forgotten_append del: stream_step.simps)
qed


definition demo_camera :: nvr_channel where
  "demo_camera = zero_channel\<lparr>ch_chn := 2, ch_enabled := True, ch_onvif_auto := True, ch_onvif_ip := ''192.168.1.20'', ch_onvif_port := 80,
     ch_codec := NVR_CODEC_AUTO, ch_record := 1, ch_vout_win := 2\<rparr>"

definition demo_url :: onvif_url where "demo_url = (\<lambda>ip port user pass which. Some (''rtsp://'' @ ip @ ''/'' @ which))"

theorem onvif_camera_started_twice_witness:
  "forgotten (replay demo_answers (cm_log (nvr_chan_tick demo_url 0 (\<lambda>_. NVR_CH_PLAYING)
     (nvr_chan_start_all (fst (nvr_chan_load_config demo_url [demo_camera] (nvr_chan_mgr_init 5 30))))))) (nvr_stream_mgr_init True 0 0) =
   1920 * 1080 * 20"
  by (rule onvif_camera_started_twice[where d = demo_camera and url = "''rtsp://192.168.1.20/main''"])
    (simp_all add: demo_camera_def zero_channel_def NVR_STREAM_SUB_def resolve_url_def demo_url_def demo_answers_def)

end
