(* ===== verification/Cap_Base.thy ===== *)
theory Cap_Base
  imports Nop_App
begin

text \<open>
  What the capability handlers of components/nop/src/business/caps share: reading arguments, answering, the fixed-size
  string fields, the helpers of business/cap_helpers.c, the registration of a family of commands, and the contract of a setting:
  a setter and a getter of the same per-channel value. A handler is a function of request, response and the module's static state;
  a module's static variables are the fields of a record, an array indexed by a clamped channel is a function.
\<close>

section \<open>Arguments and answers\<close>

definition arg_has :: "nop_request \<Rightarrow> string \<Rightarrow> bool" where
  "arg_has rq k = nop_json_has (rq_args rq) k"

definition arg_get :: "nop_request \<Rightarrow> string \<Rightarrow> json option" where
  "arg_get rq k = nop_json_get (rq_args rq) k"

definition arg_str :: "nop_request \<Rightarrow> string \<Rightarrow> string option" where
  "arg_str rq k = nop_json_str (rq_args rq) k None"

definition arg_str_or :: "nop_request \<Rightarrow> string \<Rightarrow> string \<Rightarrow> string" where
  "arg_str_or rq k d = (case arg_str rq k of Some v \<Rightarrow> v | None \<Rightarrow> d)"

definition arg_num :: "nop_request \<Rightarrow> string \<Rightarrow> rat \<Rightarrow> rat" where
  "arg_num rq k d = nop_json_num (rq_args rq) k d"

definition arg_int :: "nop_request \<Rightarrow> string \<Rightarrow> int \<Rightarrow> int" where
  "arg_int rq k d = c_int (nop_json_num (rq_args rq) k (of_int d))"

definition arg_bool :: "nop_request \<Rightarrow> string \<Rightarrow> bool \<Rightarrow> bool" where
  "arg_bool rq k d = nop_json_bool (rq_args rq) k d"

definition arg_arr :: "nop_request \<Rightarrow> string \<Rightarrow> bool" where
  "arg_arr rq k = nop_json_is_arr (nop_json_get (rq_args rq) k)"

definition ok_obj :: "(string \<times> json) list \<Rightarrow> nop_response \<Rightarrow> 's \<Rightarrow> nop_status \<times> nop_response \<times> 's" where
  "ok_obj kvs rs s = (NOP_OK, rs\<lparr>rs_content := Some (JObj kvs)\<rparr>, s)"

definition ok_empty :: "nop_response \<Rightarrow> 's \<Rightarrow> nop_status \<times> nop_response \<times> 's" where
  "ok_empty rs s = (NOP_OK, rs, s)"

definition fails :: "nop_status \<Rightarrow> nop_response \<Rightarrow> 's \<Rightarrow> nop_status \<times> nop_response \<times> 's" where
  "fails e rs s = (e, rs, s)"

definition need :: "bool \<Rightarrow> nop_status \<times> nop_response \<times> 's \<Rightarrow> nop_response \<Rightarrow> 's \<Rightarrow> nop_status \<times> nop_response \<times> 's" where
  "need c r rs s = (if c then r else fails NOP_ERR_PARAM rs s)"

text \<open>A value copied into a char array of \<open>n\<close> bytes keeps n - 1 characters.\<close>

definition field :: "nat \<Rightarrow> string \<Rightarrow> string" where
  "field n v = take (n - 1) v"

definition JInt :: "int \<Rightarrow> json" where
  "JInt i = JNum (of_int i)"

definition or_default :: "string \<Rightarrow> string \<Rightarrow> string" where
  "or_default v d = (if v = [] then d else v)"

lemma cap_state [simp]:
  "snd (snd (ok_obj kvs rs s)) = s" "snd (snd (ok_empty rs s)) = s" "snd (snd (fails e rs s)) = s"
  "snd (snd (need c r rs s)) = (if c then snd (snd r) else s)"
  by (simp_all add: ok_obj_def ok_empty_def fails_def need_def)

lemmas cap_simps = arg_has_def arg_get_def arg_str_def arg_str_or_def arg_num_def arg_int_def arg_bool_def arg_arr_def
  ok_obj_def ok_empty_def fails_def need_def

section \<open>Printing and parsing of a stored value\<close>

text \<open>cJSON's printer and parser, as the modules use them to keep a snapshot of a value.\<close>

record json_codec =
  jc_print :: "json \<Rightarrow> string option"
  jc_parse :: "string \<Rightarrow> json option"

text \<open>The answer of a getter that keeps a snapshot: the snapshot parsed, or the default object.\<close>

definition snapshot_or :: "json_codec \<Rightarrow> string option \<Rightarrow> json option \<Rightarrow> json \<Rightarrow> json" where
  "snapshot_or jc text content dflt =
     (let content = (case text of None \<Rightarrow> content | Some t \<Rightarrow> jc_parse jc t)
      in case content of None \<Rightarrow> dflt | Some c \<Rightarrow> c)"

section \<open>The mapping layer\<close>

text \<open>Which channels are ONVIF cameras, and what the mapping answers for them.\<close>

record onvif_map =
  om_is_onvif :: "int \<Rightarrow> bool"
  om_dispatch :: "nop_request \<Rightarrow> nop_response \<Rightarrow> nop_status \<times> nop_response"

definition mapped :: "onvif_map \<Rightarrow> int \<Rightarrow> nop_request \<Rightarrow> nop_response \<Rightarrow> 's \<Rightarrow>
    nop_status \<times> nop_response \<times> 's \<Rightarrow> nop_status \<times> nop_response \<times> 's" where
  "mapped om channel rq rs s native =
     (if om_is_onvif om channel then case om_dispatch om rq rs of (st, rs) \<Rightarrow> (st, rs, s) else native)"

lemma mapped_state [simp]: "snd (snd (mapped om ch rq rs s r)) = (if om_is_onvif om ch then s else snd (snd r))"
  by (simp add: mapped_def split: prod.split)

section \<open>Detection types (cap_helpers.c)\<close>

definition k_default_detection_types :: "nop_detect_type list" where
  "k_default_detection_types = [NOP_DETECT_HUMAN, NOP_DETECT_VEHICLE, NOP_DETECT_ANIMAL, NOP_DETECT_PACKAGE]"

definition cap_for_each_detection_type :: "nop_device_config option \<Rightarrow> (string \<Rightarrow> json) \<Rightarrow> json list" where
  "cap_for_each_detection_type config emit =
     map (\<lambda>t. emit (nop_detect_type_name t))
       (case config of
          Some c \<Rightarrow> if dc_detection_types c \<noteq> [] then dc_detection_types c else k_default_detection_types
        | None \<Rightarrow> k_default_detection_types)"

definition cap_emit_detection_type_names :: "nop_device_config option \<Rightarrow> json list" where
  "cap_emit_detection_type_names config = cap_for_each_detection_type config JStr"

section \<open>Families of commands\<close>

type_synonym 's cap_regs = "(string \<times> nop_cap_id \<times> 's nop_handler) list"

type_synonym command = "string \<times> json option"

text \<open>One command executed by its handler, and a history of commands.\<close>

definition cap_reply :: "'s cap_regs \<Rightarrow> command \<Rightarrow> 's \<Rightarrow> nop_status \<times> nop_response \<times> 's" where
  "cap_reply regs c s =
     (case map_of regs (fst c) of
        None \<Rightarrow> (NOP_ERR_NOTIMPL, nop_response_init, s)
      | Some (cap, h) \<Rightarrow> h \<lparr>rq_func = fst c, rq_args = snd c\<rparr> nop_response_init s)"

definition cap_exec :: "'s cap_regs \<Rightarrow> command \<Rightarrow> 's \<Rightarrow> 's" where
  "cap_exec regs c s = snd (snd (cap_reply regs c s))"

definition cap_run :: "'s cap_regs \<Rightarrow> command list \<Rightarrow> 's \<Rightarrow> 's" where
  "cap_run regs cs s = fold (cap_exec regs) cs s"

definition cap_answer :: "'s cap_regs \<Rightarrow> command \<Rightarrow> 's \<Rightarrow> nop_status \<times> json option" where
  "cap_answer regs c s = (case cap_reply regs c s of (st, rs, s') \<Rightarrow> (st, rs_content rs))"

text \<open>The commands of a family that are named as setters.\<close>

fun starts_with :: "string \<Rightarrow> string \<Rightarrow> bool" where
  "starts_with [] s = True"
| "starts_with (c # p) [] = False"
| "starts_with (c # p) (d # s) = (c = d \<and> starts_with p s)"

definition is_setter :: "string \<Rightarrow> bool" where
  "is_setter f \<longleftrightarrow> starts_with ''set'' f \<or> starts_with ''X_NightOwl_set'' f \<or> starts_with ''GUI_set'' f \<or> starts_with ''AI_set'' f"

definition setters_of :: "'s cap_regs \<Rightarrow> string list" where
  "setters_of regs = filter is_setter (map fst regs)"

section \<open>Settings\<close>

text \<open>A setting is a pair of commands: what the getter answers on a channel is what the last accepted setter on that channel
  determined. \<open>sd_need\<close> tells when the getter's request is accepted, \<open>sd_wr\<close> what a setter's request determines, None when it is refused; \<open>sd_chan\<close> the channel a request is about.\<close>

record setting_decl =
  sd_set :: string
  sd_get :: string
  sd_chan :: "nop_request \<Rightarrow> int"
  sd_need :: "nop_request \<Rightarrow> bool"
  sd_wr :: "nop_request \<Rightarrow> json option"
  sd_dflt :: "int \<Rightarrow> json"

definition note_write :: "setting_decl \<Rightarrow> command \<Rightarrow> (int \<Rightarrow> json) \<Rightarrow> int \<Rightarrow> json" where
  "note_write d c m =
     (let rq = \<lparr>rq_func = fst c, rq_args = snd c\<rparr>
      in if fst c = sd_set d then (case sd_wr d rq of None \<Rightarrow> m | Some v \<Rightarrow> m(sd_chan d rq := v)) else m)"

definition last_write :: "setting_decl \<Rightarrow> command list \<Rightarrow> int \<Rightarrow> json" where
  "last_write d cs = fold (note_write d) cs (sd_dflt d)"

definition setting_ok :: "'s cap_regs \<Rightarrow> 's \<Rightarrow> setting_decl \<Rightarrow> bool" where
  "setting_ok regs s0 d \<longleftrightarrow> (\<forall>cs args. cap_answer regs (sd_get d, args) (cap_run regs cs s0) =
     (let rq = \<lparr>rq_func = sd_get d, rq_args = args\<rparr>
      in if sd_need d rq then (NOP_OK, Some (last_write d cs (sd_chan d rq))) else (NOP_ERR_PARAM, None)))"

locale setting =
  fixes regs :: "'s cap_regs" and d :: setting_decl and sel :: "'s \<Rightarrow> int \<Rightarrow> json" and s0 :: 's
  assumes step: "list_all (\<lambda>(f, cap, h). \<forall>rq rs s k. sel (snd (snd (h rq rs s))) k =
      (if f = sd_set d then (case sd_wr d rq of None \<Rightarrow> sel s k | Some v \<Rightarrow> if k = sd_chan d rq then v else sel s k) else sel s k)) regs"
    and unknown: "sd_set d \<in> fst ` set regs"
    and answer: "\<And>args s. cap_answer regs (sd_get d, args) s =
      (let rq = \<lparr>rq_func = sd_get d, rq_args = args\<rparr> in if sd_need d rq then (NOP_OK, Some (sel s (sd_chan d rq))) else (NOP_ERR_PARAM, None))"
    and init: "\<And>k. sel s0 k = sd_dflt d k"
begin

lemma exec_step: "sel (cap_exec regs c s) = note_write d c (sel s)"
proof (cases "map_of regs (fst c)")
  case None
  then have "fst c \<notin> fst ` set regs" by (simp add: map_of_eq_None_iff)
  then have "fst c \<noteq> sd_set d" using unknown by metis
  then show ?thesis using None by (simp add: cap_exec_def cap_reply_def note_write_def)
next
  case (Some r)
  obtain cap h where r: "r = (cap, h)" by (cases r)
  have "(fst c, cap, h) \<in> set regs" using map_of_SomeD[OF Some] r by simp
  then have "sel (snd (snd (h rq rs s))) k = (if fst c = sd_set d
      then (case sd_wr d rq of None \<Rightarrow> sel s k | Some v \<Rightarrow> if k = sd_chan d rq then v else sel s k) else sel s k)" for rq rs s k
    using step unfolding list_all_iff by blast
  then show ?thesis using Some r
    by (auto simp: cap_exec_def cap_reply_def note_write_def Let_def fun_eq_iff split: option.splits)
qed

lemma run_sel: "sel (cap_run regs cs s) = fold (note_write d) cs (sel s)"
  unfolding cap_run_def by (induction cs arbitrary: s) (simp_all add: exec_step)

lemma holds: "setting_ok regs s0 d"
proof -
  have "sel s0 = sd_dflt d" by (rule ext) (rule init)
  then show ?thesis by (simp add: setting_ok_def answer run_sel last_write_def Let_def)
qed

end

text \<open>The common settings: one value of a request under a key, kept as a bool, an int or a string of at most n - 1 characters.\<close>

definition bool_setting :: "string \<Rightarrow> string \<Rightarrow> (nop_request \<Rightarrow> int) \<Rightarrow> string \<Rightarrow> bool \<Rightarrow> bool \<Rightarrow> setting_decl" where
  "bool_setting setf getf chan key dflt init =
     \<lparr>sd_set = setf, sd_get = getf, sd_chan = chan, sd_need = \<lambda>_. True,
      sd_wr = \<lambda>rq. if arg_has rq key then Some (JObj [(key, JBool (arg_bool rq key dflt))]) else None,
      sd_dflt = \<lambda>_. JObj [(key, JBool init)]\<rparr>"

definition int_setting :: "string \<Rightarrow> string \<Rightarrow> (nop_request \<Rightarrow> int) \<Rightarrow> string \<Rightarrow> int \<Rightarrow> int \<Rightarrow> setting_decl" where
  "int_setting setf getf chan key dflt init =
     \<lparr>sd_set = setf, sd_get = getf, sd_chan = chan, sd_need = \<lambda>_. True,
      sd_wr = \<lambda>rq. if arg_has rq key then Some (JObj [(key, JInt (arg_int rq key dflt))]) else None,
      sd_dflt = \<lambda>_. JObj [(key, JInt init)]\<rparr>"

definition str_setting :: "string \<Rightarrow> string \<Rightarrow> (nop_request \<Rightarrow> int) \<Rightarrow> nat \<Rightarrow> string \<Rightarrow> string \<Rightarrow> setting_decl" where
  "str_setting setf getf chan n key dflt =
     \<lparr>sd_set = setf, sd_get = getf, sd_chan = chan, sd_need = \<lambda>_. True,
      sd_wr = \<lambda>rq. if arg_has rq key then Some (JObj [(key, JStr (or_default (field n (arg_str_or rq key dflt)) dflt))]) else None,
      sd_dflt = \<lambda>_. JObj [(key, JStr dflt)]\<rparr>"

definition text_setting :: "string \<Rightarrow> string \<Rightarrow> (nop_request \<Rightarrow> int) \<Rightarrow> nat \<Rightarrow> string \<Rightarrow> string \<Rightarrow> string \<Rightarrow> setting_decl" where
  "text_setting setf getf chan n argkey key init =
     \<lparr>sd_set = setf, sd_get = getf, sd_chan = chan, sd_need = \<lambda>_. True,
      sd_wr = \<lambda>rq. map_option (\<lambda>v. JObj [(key, JStr (field n v))]) (arg_str rq argkey),
      sd_dflt = \<lambda>_. JObj [(key, JStr init)]\<rparr>"

text \<open>A switch whose setter keeps the current value when the new one is not a boolean.\<close>

definition keep_setting :: "string \<Rightarrow> string \<Rightarrow> string \<Rightarrow> bool \<Rightarrow> setting_decl" where
  "keep_setting setf getf key init =
     \<lparr>sd_set = setf, sd_get = getf, sd_chan = \<lambda>_. 0, sd_need = \<lambda>_. True,
      sd_wr = \<lambda>rq. (case arg_get rq key of Some (JBool b) \<Rightarrow> Some (JObj [(key, JBool b)]) | _ \<Rightarrow> None),
      sd_dflt = \<lambda>_. JObj [(key, JBool init)]\<rparr>"

definition needing :: "(nop_request \<Rightarrow> bool) \<Rightarrow> setting_decl \<Rightarrow> setting_decl" where
  "needing c d = d\<lparr>sd_need := c, sd_wr := \<lambda>rq. if c rq then sd_wr d rq else None\<rparr>"

text \<open>A setter that keeps nothing of what it accepts: its getter's answer is always the same.\<close>

definition lost_setting :: "string \<Rightarrow> string \<Rightarrow> (nop_request \<Rightarrow> bool) \<Rightarrow> json \<Rightarrow> setting_decl" where
  "lost_setting setf getf c answer =
     \<lparr>sd_set = setf, sd_get = getf, sd_chan = \<lambda>_. 0, sd_need = c, sd_wr = \<lambda>_. None, sd_dflt = \<lambda>_. answer\<rparr>"

text \<open>The setters of a family that none of the declared settings is about.\<close>

definition left_over :: "'s cap_regs \<Rightarrow> setting_decl list \<Rightarrow> string list" where
  "left_over regs ds = filter (\<lambda>f. f \<notin> set (map sd_set ds)) (setters_of regs)"

lemmas setting_simps = lost_setting_def needing_def text_setting_def keep_setting_def bool_setting_def int_setting_def str_setting_def

lemma cap_answer_at:
  "\<lbrakk>map_of regs f = Some (cap, h)\<rbrakk> \<Longrightarrow>
     cap_answer regs (f, args) s = (case h \<lparr>rq_func = f, rq_args = args\<rparr> nop_response_init s of (st, rs, s') \<Rightarrow> (st, rs_content rs))"
  by (simp add: cap_answer_def cap_reply_def)

lemma cap_exec_all:
  assumes "list_all (\<lambda>(f, cap, h). \<forall>rq rs. P (snd (snd (h rq rs s)))) regs" "P s"
  shows "P (cap_exec regs c s)"
proof (cases "map_of regs (fst c)")
  case (Some r)
  obtain cap h where r: "r = (cap, h)" by (cases r)
  have "(fst c, cap, h) \<in> set regs" using map_of_SomeD[OF Some] r by simp
  then show ?thesis using assms(1) Some r by (auto simp: list_all_iff cap_exec_def cap_reply_def)
qed (use assms(2) in \<open>simp add: cap_exec_def cap_reply_def\<close>)

end
