(* ===== verification/Cap_Floodlight.thy ===== *)
theory Cap_Floodlight
  imports Cap_Base
begin

text \<open>
  business/caps/cap_floodlight.c: the flood light and light settings of the channels. The module's arrays of 16 entries,
  indexed by the channel of the request (an index out of range is taken for channel 0), are the fields of the record; a flag
  kept as 0 or 1 is a bool. The schedules are kept as printed JSON and parsed again when they are asked for.
\<close>

definition fl_chan :: "nop_request \<Rightarrow> int" where
  "fl_chan rq = (let c = arg_int rq ''channel'' 0 in if c < 0 \<or> c \<ge> 16 then 0 else c)"

record floodlight =
  fl_switch :: "int \<Rightarrow> bool"
  fl_detect_switch :: "int \<Rightarrow> bool"
  fl_pir_switch :: "int \<Rightarrow> bool"
  fl_duration_seconds :: "int \<Rightarrow> int"
  fl_indicator_switch :: "int \<Rightarrow> bool"
  fl_intensity_percent :: "int \<Rightarrow> int"
  fl_distance :: "int \<Rightarrow> string"
  fl_night_vision_mode :: "int \<Rightarrow> string"
  fl_schedule_json :: "int \<Rightarrow> string option"
  fl_auto_trigger_set :: "int \<Rightarrow> bool"
  fl_auto_trigger :: "int \<Rightarrow> string"
  fl_auto_duration_seconds :: "int \<Rightarrow> int"
  fl_detection_switch :: "int \<Rightarrow> bool"
  fl_light_duration_seconds :: "int \<Rightarrow> int"
  fl_light_mode :: "int \<Rightarrow> string"
  fl_light_switch :: "int \<Rightarrow> bool"
  fl_light_schedule_json :: "int \<Rightarrow> string option"

definition floodlight0 :: floodlight where
  "floodlight0 = \<lparr>fl_switch = \<lambda>_. False, fl_detect_switch = \<lambda>_. False, fl_pir_switch = \<lambda>_. False, fl_duration_seconds = \<lambda>_. 0,
     fl_indicator_switch = \<lambda>_. False, fl_intensity_percent = \<lambda>_. 0, fl_distance = \<lambda>_. [], fl_night_vision_mode = \<lambda>_. [],
     fl_schedule_json = \<lambda>_. None, fl_auto_trigger_set = \<lambda>_. False, fl_auto_trigger = \<lambda>_. [], fl_auto_duration_seconds = \<lambda>_. 0,
     fl_detection_switch = \<lambda>_. False, fl_light_duration_seconds = \<lambda>_. 0, fl_light_mode = \<lambda>_. [], fl_light_switch = \<lambda>_. False,
     fl_light_schedule_json = \<lambda>_. None\<rparr>"

definition handle_get_floodlight_switch :: "floodlight nop_handler" where
  "handle_get_floodlight_switch rq rs s = ok_obj [(''value'', JBool (fl_switch s (fl_chan rq)))] rs s"

definition handle_set_floodlight_switch :: "floodlight nop_handler" where
  "handle_set_floodlight_switch rq rs s =
     need (arg_has rq ''value'') (ok_empty rs (s\<lparr>fl_switch := (fl_switch s)(fl_chan rq := arg_bool rq ''value'' False)\<rparr>)) rs s"

definition handle_get_floodlight_detect_switch :: "floodlight nop_handler" where
  "handle_get_floodlight_detect_switch rq rs s = ok_obj [(''value'', JBool (fl_detect_switch s (fl_chan rq)))] rs s"

definition handle_set_floodlight_detect_switch :: "floodlight nop_handler" where
  "handle_set_floodlight_detect_switch rq rs s =
     need (arg_has rq ''value'') (ok_empty rs (s\<lparr>fl_detect_switch := (fl_detect_switch s)(fl_chan rq := arg_bool rq ''value'' False)\<rparr>)) rs s"

definition handle_get_floodlight_pir_switch :: "floodlight nop_handler" where
  "handle_get_floodlight_pir_switch rq rs s = ok_obj [(''value'', JBool (fl_pir_switch s (fl_chan rq)))] rs s"

definition handle_set_floodlight_pir_switch :: "floodlight nop_handler" where
  "handle_set_floodlight_pir_switch rq rs s =
     need (arg_has rq ''value'') (ok_empty rs (s\<lparr>fl_pir_switch := (fl_pir_switch s)(fl_chan rq := arg_bool rq ''value'' False)\<rparr>)) rs s"

definition handle_get_floodlight_duration :: "floodlight nop_handler" where
  "handle_get_floodlight_duration rq rs s = ok_obj [(''value'', JInt (fl_duration_seconds s (fl_chan rq)))] rs s"

definition handle_set_floodlight_duration :: "floodlight nop_handler" where
  "handle_set_floodlight_duration rq rs s =
     need (arg_has rq ''value'') (ok_empty rs (s\<lparr>fl_duration_seconds := (fl_duration_seconds s)(fl_chan rq := arg_int rq ''value'' 30)\<rparr>)) rs s"

text \<open>The schedule of the flood light.\<close>

definition floodlight_rules :: json where
  "floodlight_rules = JArr [JObj [(''startTime'', JStr ''180000''), (''endTime'', JStr ''060000'')]]"

definition add_default_floodlight_schedule :: json where
  "add_default_floodlight_schedule = JObj [(''switch'', JStr ''on''), (''rules'', floodlight_rules)]"

definition handle_get_floodlight_schedule :: "json_codec \<Rightarrow> floodlight nop_handler" where
  "handle_get_floodlight_schedule jc rq rs s =
     (NOP_OK, rs\<lparr>rs_content := Some (snapshot_or jc (fl_schedule_json s (fl_chan rq)) (rs_content rs) add_default_floodlight_schedule)\<rparr>, s)"

text \<open>The rules of a request, copied through their text; None when they cannot be copied.\<close>

definition copied_rules :: "json_codec \<Rightarrow> nop_request \<Rightarrow> json option" where
  "copied_rules jc rq = Option.bind (arg_get rq ''rules'') (\<lambda>r. Option.bind (jc_print jc r) (jc_parse jc))"

definition floodlight_snapshot :: "json_codec \<Rightarrow> nop_request \<Rightarrow> json" where
  "floodlight_snapshot jc rq =
     (let sw = JStr (if arg_has rq ''switch'' then arg_str_or rq ''switch'' ''on'' else ''on'')
      in case copied_rules jc rq of
           Some r \<Rightarrow> JObj [(''switch'', sw), (''rules'', r)]
         | None \<Rightarrow> JObj [(''switch'', sw), (''rules'', floodlight_rules)])"

definition handle_set_floodlight_schedule :: "json_codec \<Rightarrow> floodlight nop_handler" where
  "handle_set_floodlight_schedule jc rq rs s =
     need (arg_has rq ''switch'' \<or> arg_has rq ''rules'')
       (ok_empty rs (s\<lparr>fl_schedule_json := (fl_schedule_json s)(fl_chan rq := jc_print jc (floodlight_snapshot jc rq))\<rparr>)) rs s"

definition handle_get_indicator_light_switch :: "floodlight nop_handler" where
  "handle_get_indicator_light_switch rq rs s = ok_obj [(''value'', JBool (fl_indicator_switch s (fl_chan rq)))] rs s"

definition handle_set_indicator_light_switch :: "floodlight nop_handler" where
  "handle_set_indicator_light_switch rq rs s =
     need (arg_has rq ''value'') (ok_empty rs (s\<lparr>fl_indicator_switch := (fl_indicator_switch s)(fl_chan rq := arg_bool rq ''value'' False)\<rparr>)) rs s"

definition handle_get_floodlight_distance :: "floodlight nop_handler" where
  "handle_get_floodlight_distance rq rs s = ok_obj [(''value'', JStr (or_default (fl_distance s (fl_chan rq)) ''far''))] rs s"

definition handle_set_floodlight_distance :: "floodlight nop_handler" where
  "handle_set_floodlight_distance rq rs s =
     need (arg_has rq ''value'')
       (ok_empty rs (s\<lparr>fl_distance := (fl_distance s)(fl_chan rq := field 16 (arg_str_or rq ''value'' ''far''))\<rparr>)) rs s"

definition handle_get_floodlight_intensity :: "floodlight nop_handler" where
  "handle_get_floodlight_intensity rq rs s = ok_obj [(''value'', JInt (fl_intensity_percent s (fl_chan rq)))] rs s"

definition handle_set_floodlight_intensity :: "floodlight nop_handler" where
  "handle_set_floodlight_intensity rq rs s =
     need (arg_has rq ''value'') (ok_empty rs (s\<lparr>fl_intensity_percent := (fl_intensity_percent s)(fl_chan rq := arg_int rq ''value'' 80)\<rparr>)) rs s"

definition handle_get_floodlight_night_vision_mode :: "floodlight nop_handler" where
  "handle_get_floodlight_night_vision_mode rq rs s = ok_obj [(''mode'', JStr (or_default (fl_night_vision_mode s (fl_chan rq)) ''on''))] rs s"

definition handle_set_floodlight_night_vision_mode :: "floodlight nop_handler" where
  "handle_set_floodlight_night_vision_mode rq rs s =
     need (arg_has rq ''mode'')
       (ok_empty rs (s\<lparr>fl_night_vision_mode := (fl_night_vision_mode s)(fl_chan rq := field 8 (arg_str_or rq ''mode'' ''on''))\<rparr>)) rs s"

definition handle_get_auto_light_trigger :: "floodlight nop_handler" where
  "handle_get_auto_light_trigger rq rs s =
     (let ch = fl_chan rq; set = fl_auto_trigger_set s ch
      in ok_obj [(''trigger'', JStr (if set then fl_auto_trigger s ch else nop_detect_type_name NOP_DETECT_MOTION)),
                 (''duration'', JInt (if set then fl_auto_duration_seconds s ch else 3))] rs s)"

definition handle_set_auto_light_trigger :: "floodlight nop_handler" where
  "handle_set_auto_light_trigger rq rs s =
     (let ch = fl_chan rq
      in need (arg_has rq ''trigger'')
           (ok_empty rs (s\<lparr>fl_auto_trigger := (fl_auto_trigger s)(ch := field 16 (arg_str_or rq ''trigger'' (nop_detect_type_name NOP_DETECT_MOTION))),
              fl_auto_duration_seconds := (fl_auto_duration_seconds s)(ch := arg_int rq ''duration'' 3),
              fl_auto_trigger_set := (fl_auto_trigger_set s)(ch := True)\<rparr>)) rs s)"

definition handle_get_light_detection_switch :: "floodlight nop_handler" where
  "handle_get_light_detection_switch rq rs s = ok_obj [(''value'', JBool (fl_detection_switch s (fl_chan rq)))] rs s"

definition handle_set_light_detection_switch :: "floodlight nop_handler" where
  "handle_set_light_detection_switch rq rs s =
     need (arg_has rq ''value'') (ok_empty rs (s\<lparr>fl_detection_switch := (fl_detection_switch s)(fl_chan rq := arg_bool rq ''value'' False)\<rparr>)) rs s"

definition handle_get_light_duration :: "floodlight nop_handler" where
  "handle_get_light_duration rq rs s = ok_obj [(''value'', JInt (fl_light_duration_seconds s (fl_chan rq)))] rs s"

definition handle_set_light_duration :: "floodlight nop_handler" where
  "handle_set_light_duration rq rs s =
     need (arg_has rq ''value'') (ok_empty rs (s\<lparr>fl_light_duration_seconds := (fl_light_duration_seconds s)(fl_chan rq := arg_int rq ''value'' 3)\<rparr>)) rs s"

definition handle_get_light_mode :: "floodlight nop_handler" where
  "handle_get_light_mode rq rs s = ok_obj [(''value'', JStr (or_default (fl_light_mode s (fl_chan rq)) ''fixed''))] rs s"

definition handle_set_light_mode :: "floodlight nop_handler" where
  "handle_set_light_mode rq rs s =
     need (arg_has rq ''value'')
       (ok_empty rs (s\<lparr>fl_light_mode := (fl_light_mode s)(fl_chan rq := field 8 (arg_str_or rq ''value'' ''fixed''))\<rparr>)) rs s"

definition handle_get_light_switch :: "floodlight nop_handler" where
  "handle_get_light_switch rq rs s = ok_obj [(''value'', JBool (fl_light_switch s (fl_chan rq)))] rs s"

definition handle_set_light_switch :: "floodlight nop_handler" where
  "handle_set_light_switch rq rs s =
     need (arg_has rq ''value'') (ok_empty rs (s\<lparr>fl_light_switch := (fl_light_switch s)(fl_chan rq := arg_bool rq ''value'' False)\<rparr>)) rs s"

text \<open>The schedule of the light.\<close>

definition light_rules :: json where
  "light_rules = JArr [JObj [(''id'', JStr ''rule-id-1''), (''triggers'', JArr [JStr (nop_detect_type_name NOP_DETECT_MOTION)]),
     (''weekdays'', JArr [JInt 1, JInt 2, JInt 7]), (''startTime'', JStr ''110000''), (''endTime'', JStr ''203000'')]]"

definition add_default_light_schedule :: "(string \<times> json) list" where
  "add_default_light_schedule = [(''rules'', light_rules), (''switch'', JStr ''on'')]"

definition handle_get_light_schedule :: "json_codec \<Rightarrow> floodlight nop_handler" where
  "handle_get_light_schedule jc rq rs s =
     (NOP_OK, rs\<lparr>rs_content := Some (snapshot_or jc (fl_light_schedule_json s (fl_chan rq)) (rs_content rs)
        (JObj add_default_light_schedule))\<rparr>, s)"

definition light_snapshot :: "json_codec \<Rightarrow> nop_request \<Rightarrow> json" where
  "light_snapshot jc rq =
     JObj ((case copied_rules jc rq of Some r \<Rightarrow> [(''rules'', r)] | None \<Rightarrow> add_default_light_schedule) @
           [(''switch'', JStr (arg_str_or rq ''switch'' ''on''))])"

definition handle_set_light_schedule :: "json_codec \<Rightarrow> floodlight nop_handler" where
  "handle_set_light_schedule jc rq rs s =
     need (arg_has rq ''switch'' \<or> arg_has rq ''rules'')
       (ok_empty rs (s\<lparr>fl_light_schedule_json := (fl_light_schedule_json s)(fl_chan rq := jc_print jc (light_snapshot jc rq))\<rparr>)) rs s"

definition cap_floodlight_register :: "json_codec \<Rightarrow> floodlight cap_regs" where
  "cap_floodlight_register jc =
    [(''getChannelFloodLightDetectSwitch'', CAP_LIGHT, handle_get_floodlight_detect_switch),
     (''setChannelFloodLightDetectSwitch'', CAP_LIGHT, handle_set_floodlight_detect_switch),
     (''getChannelFloodLightDuration'', CAP_LIGHT, handle_get_floodlight_duration),
     (''setChannelFloodLightDuration'', CAP_LIGHT, handle_set_floodlight_duration),
     (''getChannelFloodLightPirSwitch'', CAP_LIGHT, handle_get_floodlight_pir_switch),
     (''setChannelFloodLightPirSwitch'', CAP_LIGHT, handle_set_floodlight_pir_switch),
     (''getChannelFloodLightSchedule'', CAP_LIGHT, handle_get_floodlight_schedule jc),
     (''setChannelFloodLightSchedule'', CAP_LIGHT, handle_set_floodlight_schedule jc),
     (''getChannelFloodLightSwitch'', CAP_LIGHT, handle_get_floodlight_switch),
     (''setChannelFloodLightSwitch'', CAP_LIGHT, handle_set_floodlight_switch),
     (''getChannelIndicatorLightSwitch'', CAP_LIGHT, handle_get_indicator_light_switch),
     (''setChannelIndicatorLightSwitch'', CAP_LIGHT, handle_set_indicator_light_switch),
     (''getFloodLightDistance'', CAP_LIGHT, handle_get_floodlight_distance),
     (''setFloodLightDistance'', CAP_LIGHT, handle_set_floodlight_distance),
     (''getFloodLightIntensity'', CAP_LIGHT, handle_get_floodlight_intensity),
     (''setFloodLightIntensity'', CAP_LIGHT, handle_set_floodlight_intensity),
     (''getFloodLightNightVisionMode'', CAP_LIGHT, handle_get_floodlight_night_vision_mode),
     (''setFloodLightNightVisionMode'', CAP_LIGHT, handle_set_floodlight_night_vision_mode),
     (''X_NightOwl_getChannelAutoLightTrigger'', CAP_LIGHT, handle_get_auto_light_trigger),
     (''X_NightOwl_setChannelAutoLightTrigger'', CAP_LIGHT, handle_set_auto_light_trigger),
     (''X_NightOwl_getChannelLightDetectionSwitch'', CAP_LIGHT, handle_get_light_detection_switch),
     (''X_NightOwl_setChannelLightDetectionSwitch'', CAP_LIGHT, handle_set_light_detection_switch),
     (''X_NightOwl_getChannelLightDuration'', CAP_LIGHT, handle_get_light_duration),
     (''X_NightOwl_setChannelLightDuration'', CAP_LIGHT, handle_set_light_duration),
     (''X_NightOwl_getChannelLightMode'', CAP_LIGHT, handle_get_light_mode),
     (''X_NightOwl_setChannelLightMode'', CAP_LIGHT, handle_set_light_mode),
     (''X_NightOwl_getChannelLightSchedule'', CAP_LIGHT, handle_get_light_schedule jc),
     (''X_NightOwl_setChannelLightSchedule'', CAP_LIGHT, handle_set_light_schedule jc),
     (''X_NightOwl_getChannelLightSwitch'', CAP_LIGHT, handle_get_light_switch),
     (''X_NightOwl_setChannelLightSwitch'', CAP_LIGHT, handle_set_light_switch)]"

lemmas floodlight_handlers = handle_get_floodlight_switch_def handle_set_floodlight_switch_def handle_get_floodlight_detect_switch_def handle_set_floodlight_detect_switch_def
  handle_get_floodlight_pir_switch_def handle_set_floodlight_pir_switch_def handle_get_floodlight_duration_def handle_set_floodlight_duration_def
  handle_get_floodlight_schedule_def handle_set_floodlight_schedule_def handle_get_indicator_light_switch_def handle_set_indicator_light_switch_def
  handle_get_floodlight_distance_def handle_set_floodlight_distance_def handle_get_floodlight_intensity_def handle_set_floodlight_intensity_def
  handle_get_floodlight_night_vision_mode_def handle_set_floodlight_night_vision_mode_def handle_get_auto_light_trigger_def handle_set_auto_light_trigger_def
  handle_get_light_detection_switch_def handle_set_light_detection_switch_def handle_get_light_duration_def handle_set_light_duration_def
  handle_get_light_mode_def handle_set_light_mode_def handle_get_light_switch_def handle_set_light_switch_def
  handle_get_light_schedule_def handle_set_light_schedule_def

lemmas floodlight_simps = cap_floodlight_register_def setting_simps floodlight_handlers Let_def ok_obj_def cap_answer_def
  cap_reply_def floodlight0_def nop_response_init_def snapshot_or_def or_default_def

text \<open>The schedules and the trigger as settings.\<close>

definition floodlight_schedule_setting :: "json_codec \<Rightarrow> setting_decl" where
  "floodlight_schedule_setting jc =
     \<lparr>sd_set = ''setChannelFloodLightSchedule'', sd_get = ''getChannelFloodLightSchedule'', sd_chan = fl_chan, sd_need = \<lambda>_. True,
      sd_wr = \<lambda>rq. if arg_has rq ''switch'' \<or> arg_has rq ''rules''
                   then Some (snapshot_or jc (jc_print jc (floodlight_snapshot jc rq)) None add_default_floodlight_schedule) else None,
      sd_dflt = \<lambda>_. add_default_floodlight_schedule\<rparr>"

definition light_schedule_setting :: "json_codec \<Rightarrow> setting_decl" where
  "light_schedule_setting jc =
     \<lparr>sd_set = ''X_NightOwl_setChannelLightSchedule'', sd_get = ''X_NightOwl_getChannelLightSchedule'', sd_chan = fl_chan, sd_need = \<lambda>_. True,
      sd_wr = \<lambda>rq. if arg_has rq ''switch'' \<or> arg_has rq ''rules''
                   then Some (snapshot_or jc (jc_print jc (light_snapshot jc rq)) None (JObj add_default_light_schedule)) else None,
      sd_dflt = \<lambda>_. JObj add_default_light_schedule\<rparr>"

definition auto_trigger_setting :: setting_decl where
  "auto_trigger_setting =
     \<lparr>sd_set = ''X_NightOwl_setChannelAutoLightTrigger'', sd_get = ''X_NightOwl_getChannelAutoLightTrigger'', sd_chan = fl_chan, sd_need = \<lambda>_. True,
      sd_wr = \<lambda>rq. if arg_has rq ''trigger''
                   then Some (JObj [(''trigger'', JStr (field 16 (arg_str_or rq ''trigger'' (nop_detect_type_name NOP_DETECT_MOTION)))),
                                    (''duration'', JInt (arg_int rq ''duration'' 3))]) else None,
      sd_dflt = \<lambda>_. JObj [(''trigger'', JStr (nop_detect_type_name NOP_DETECT_MOTION)), (''duration'', JInt 3)]\<rparr>"

interpretation floodlight_switch: setting "cap_floodlight_register jc"
    "bool_setting ''setChannelFloodLightSwitch'' ''getChannelFloodLightSwitch'' fl_chan ''value'' False False"
    "\<lambda>s ch. JObj [(''value'', JBool (fl_switch s ch))]" floodlight0 for jc
  by unfold_locales (simp_all add: floodlight_simps floodlight_schedule_setting_def light_schedule_setting_def auto_trigger_setting_def)

interpretation floodlight_detect_switch: setting "cap_floodlight_register jc"
    "bool_setting ''setChannelFloodLightDetectSwitch'' ''getChannelFloodLightDetectSwitch'' fl_chan ''value'' False False"
    "\<lambda>s ch. JObj [(''value'', JBool (fl_detect_switch s ch))]" floodlight0 for jc
  by unfold_locales (simp_all add: floodlight_simps floodlight_schedule_setting_def light_schedule_setting_def auto_trigger_setting_def)

interpretation floodlight_pir_switch: setting "cap_floodlight_register jc"
    "bool_setting ''setChannelFloodLightPirSwitch'' ''getChannelFloodLightPirSwitch'' fl_chan ''value'' False False"
    "\<lambda>s ch. JObj [(''value'', JBool (fl_pir_switch s ch))]" floodlight0 for jc
  by unfold_locales (simp_all add: floodlight_simps floodlight_schedule_setting_def light_schedule_setting_def auto_trigger_setting_def)

interpretation floodlight_duration: setting "cap_floodlight_register jc"
    "int_setting ''setChannelFloodLightDuration'' ''getChannelFloodLightDuration'' fl_chan ''value'' 30 0"
    "\<lambda>s ch. JObj [(''value'', JInt (fl_duration_seconds s ch))]" floodlight0 for jc
  by unfold_locales (simp_all add: floodlight_simps floodlight_schedule_setting_def light_schedule_setting_def auto_trigger_setting_def)

interpretation floodlight_indicator: setting "cap_floodlight_register jc"
    "bool_setting ''setChannelIndicatorLightSwitch'' ''getChannelIndicatorLightSwitch'' fl_chan ''value'' False False"
    "\<lambda>s ch. JObj [(''value'', JBool (fl_indicator_switch s ch))]" floodlight0 for jc
  by unfold_locales (simp_all add: floodlight_simps floodlight_schedule_setting_def light_schedule_setting_def auto_trigger_setting_def)

interpretation floodlight_distance: setting "cap_floodlight_register jc"
    "str_setting ''setFloodLightDistance'' ''getFloodLightDistance'' fl_chan 16 ''value'' ''far''"
    "\<lambda>s ch. JObj [(''value'', JStr (or_default (fl_distance s ch) ''far''))]" floodlight0 for jc
  by unfold_locales (simp_all add: floodlight_simps floodlight_schedule_setting_def light_schedule_setting_def auto_trigger_setting_def)

interpretation floodlight_intensity: setting "cap_floodlight_register jc"
    "int_setting ''setFloodLightIntensity'' ''getFloodLightIntensity'' fl_chan ''value'' 80 0"
    "\<lambda>s ch. JObj [(''value'', JInt (fl_intensity_percent s ch))]" floodlight0 for jc
  by unfold_locales (simp_all add: floodlight_simps floodlight_schedule_setting_def light_schedule_setting_def auto_trigger_setting_def)

interpretation floodlight_night_vision: setting "cap_floodlight_register jc"
    "str_setting ''setFloodLightNightVisionMode'' ''getFloodLightNightVisionMode'' fl_chan 8 ''mode'' ''on''"
    "\<lambda>s ch. JObj [(''mode'', JStr (or_default (fl_night_vision_mode s ch) ''on''))]" floodlight0 for jc
  by unfold_locales (simp_all add: floodlight_simps floodlight_schedule_setting_def light_schedule_setting_def auto_trigger_setting_def)

interpretation floodlight_detection: setting "cap_floodlight_register jc"
    "bool_setting ''X_NightOwl_setChannelLightDetectionSwitch'' ''X_NightOwl_getChannelLightDetectionSwitch'' fl_chan ''value'' False False"
    "\<lambda>s ch. JObj [(''value'', JBool (fl_detection_switch s ch))]" floodlight0 for jc
  by unfold_locales (simp_all add: floodlight_simps floodlight_schedule_setting_def light_schedule_setting_def auto_trigger_setting_def)

interpretation floodlight_light_duration: setting "cap_floodlight_register jc"
    "int_setting ''X_NightOwl_setChannelLightDuration'' ''X_NightOwl_getChannelLightDuration'' fl_chan ''value'' 3 0"
    "\<lambda>s ch. JObj [(''value'', JInt (fl_light_duration_seconds s ch))]" floodlight0 for jc
  by unfold_locales (simp_all add: floodlight_simps floodlight_schedule_setting_def light_schedule_setting_def auto_trigger_setting_def)

interpretation floodlight_light_mode: setting "cap_floodlight_register jc"
    "str_setting ''X_NightOwl_setChannelLightMode'' ''X_NightOwl_getChannelLightMode'' fl_chan 8 ''value'' ''fixed''"
    "\<lambda>s ch. JObj [(''value'', JStr (or_default (fl_light_mode s ch) ''fixed''))]" floodlight0 for jc
  by unfold_locales (simp_all add: floodlight_simps floodlight_schedule_setting_def light_schedule_setting_def auto_trigger_setting_def)

interpretation floodlight_light_switch: setting "cap_floodlight_register jc"
    "bool_setting ''X_NightOwl_setChannelLightSwitch'' ''X_NightOwl_getChannelLightSwitch'' fl_chan ''value'' False False"
    "\<lambda>s ch. JObj [(''value'', JBool (fl_light_switch s ch))]" floodlight0 for jc
  by unfold_locales (simp_all add: floodlight_simps floodlight_schedule_setting_def light_schedule_setting_def auto_trigger_setting_def)

interpretation floodlight_schedule: setting "cap_floodlight_register jc"
    "floodlight_schedule_setting jc"
    "\<lambda>s ch. snapshot_or jc (fl_schedule_json s ch) None add_default_floodlight_schedule" floodlight0 for jc
  by unfold_locales (simp_all add: floodlight_simps floodlight_schedule_setting_def light_schedule_setting_def auto_trigger_setting_def)

interpretation floodlight_light_schedule: setting "cap_floodlight_register jc"
    "light_schedule_setting jc"
    "\<lambda>s ch. snapshot_or jc (fl_light_schedule_json s ch) None (JObj add_default_light_schedule)" floodlight0 for jc
  by unfold_locales (simp_all add: floodlight_simps floodlight_schedule_setting_def light_schedule_setting_def auto_trigger_setting_def)

interpretation floodlight_auto_trigger: setting "cap_floodlight_register jc"
    "auto_trigger_setting"
    "\<lambda>s ch. JObj [(''trigger'', JStr (if fl_auto_trigger_set s ch then fl_auto_trigger s ch else nop_detect_type_name NOP_DETECT_MOTION)), (''duration'', JInt (if fl_auto_trigger_set s ch then fl_auto_duration_seconds s ch else 3))]" floodlight0 for jc
  by unfold_locales (simp_all add: floodlight_simps floodlight_schedule_setting_def light_schedule_setting_def auto_trigger_setting_def)

definition floodlight_settings :: "json_codec \<Rightarrow> setting_decl list" where
  "floodlight_settings jc =
    [bool_setting ''setChannelFloodLightSwitch'' ''getChannelFloodLightSwitch'' fl_chan ''value'' False False,
     bool_setting ''setChannelFloodLightDetectSwitch'' ''getChannelFloodLightDetectSwitch'' fl_chan ''value'' False False,
     bool_setting ''setChannelFloodLightPirSwitch'' ''getChannelFloodLightPirSwitch'' fl_chan ''value'' False False,
     int_setting ''setChannelFloodLightDuration'' ''getChannelFloodLightDuration'' fl_chan ''value'' 30 0,
     bool_setting ''setChannelIndicatorLightSwitch'' ''getChannelIndicatorLightSwitch'' fl_chan ''value'' False False,
     str_setting ''setFloodLightDistance'' ''getFloodLightDistance'' fl_chan 16 ''value'' ''far'',
     int_setting ''setFloodLightIntensity'' ''getFloodLightIntensity'' fl_chan ''value'' 80 0,
     str_setting ''setFloodLightNightVisionMode'' ''getFloodLightNightVisionMode'' fl_chan 8 ''mode'' ''on'',
     bool_setting ''X_NightOwl_setChannelLightDetectionSwitch'' ''X_NightOwl_getChannelLightDetectionSwitch'' fl_chan ''value'' False False,
     int_setting ''X_NightOwl_setChannelLightDuration'' ''X_NightOwl_getChannelLightDuration'' fl_chan ''value'' 3 0,
     str_setting ''X_NightOwl_setChannelLightMode'' ''X_NightOwl_getChannelLightMode'' fl_chan 8 ''value'' ''fixed'',
     bool_setting ''X_NightOwl_setChannelLightSwitch'' ''X_NightOwl_getChannelLightSwitch'' fl_chan ''value'' False False,
     floodlight_schedule_setting jc, light_schedule_setting jc, auto_trigger_setting]"

lemma floodlight_settings_ok: "list_all (setting_ok (cap_floodlight_register jc) floodlight0) (floodlight_settings jc)"
  by (simp add: floodlight_settings_def floodlight_switch.holds floodlight_detect_switch.holds floodlight_pir_switch.holds floodlight_duration.holds
    floodlight_indicator.holds floodlight_distance.holds floodlight_intensity.holds floodlight_night_vision.holds
    floodlight_detection.holds floodlight_light_duration.holds floodlight_light_mode.holds floodlight_light_switch.holds
    floodlight_schedule.holds floodlight_light_schedule.holds floodlight_auto_trigger.holds)

text \<open>Switching the light schedule off without giving rules has no effect on what readers of the key see: the default schedule put
  first brings a switch of its own, which is on.\<close>

lemma light_schedule_off_reads_on:
  assumes "arg_get rq ''rules'' = None"
  shows "nop_json_get (Some (light_snapshot jc rq)) ''switch'' = Some (JStr ''on'')"
  using assms by (simp add: light_snapshot_def copied_rules_def add_default_light_schedule_def)

text \<open>The other setters of the family.\<close>

lemma floodlight_left_over: "left_over (cap_floodlight_register jc) (floodlight_settings jc) =
    []"
  by (simp add: left_over_def setters_of_def is_setter_def setting_simps floodlight_settings_def cap_floodlight_register_def floodlight_schedule_setting_def
    light_schedule_setting_def auto_trigger_setting_def)

end
