(* ===== verification/Cap_Misc.thy ===== *)
theory Cap_Misc
  imports Cap_Base
begin

text \<open>
  business/caps/cap_misc.c: credentials, owner, storage and serial number, switches, channel names, and the commands that only check
  their arguments and answer a fixed object. The module's static variables are the fields of the record; the channel of a
  request is taken to the nearest of 0..15.
\<close>

definition misc_chan :: "nop_request \<Rightarrow> int" where
  "misc_chan rq = (let c = arg_int rq ''channel'' 0; c = (if c < 0 then 0 else c) in if c \<ge> 16 then 15 else c)"

record misc =
  g_av_password :: string
  g_iotc_auth_key :: string
  g_serial_number :: string
  g_current_storage :: string
  g_chromecast_switch :: bool
  g_time_sync_switch :: bool
  g_owner_id :: string
  g_owner_user :: string
  g_owner_stoken :: string
  g_channel_name :: "int \<Rightarrow> string"
  g_attach_devices_json :: "string option"

definition misc0 :: misc where
  "misc0 = \<lparr>g_av_password = ''xxxxxx'', g_iotc_auth_key = ''xxxxxx'', g_serial_number = [], g_current_storage = ''sdcard'',
     g_chromecast_switch = True, g_time_sync_switch = True, g_owner_id = [], g_owner_user = [], g_owner_stoken = [],
     g_channel_name = \<lambda>_. [], g_attach_devices_json = None\<rparr>"

definition handle_get_av_password :: "misc nop_handler" where
  "handle_get_av_password rq rs s = ok_obj [(''value'', JStr (g_av_password s))] rs s"

definition handle_set_av_password :: "misc nop_handler" where
  "handle_set_av_password rq rs s =
     (case arg_str rq ''value'' of None \<Rightarrow> fails NOP_ERR_PARAM rs s | Some v \<Rightarrow> ok_empty rs (s\<lparr>g_av_password := field 64 v\<rparr>))"

definition handle_get_iotc_auth_key :: "misc nop_handler" where
  "handle_get_iotc_auth_key rq rs s = ok_obj [(''value'', JStr (g_iotc_auth_key s))] rs s"

definition handle_set_iotc_auth_key :: "misc nop_handler" where
  "handle_set_iotc_auth_key rq rs s =
     (case arg_str rq ''value'' of None \<Rightarrow> fails NOP_ERR_PARAM rs s | Some v \<Rightarrow> ok_empty rs (s\<lparr>g_iotc_auth_key := field 64 v\<rparr>))"

definition handle_get_current_clouds :: "misc nop_handler" where
  "handle_get_current_clouds rq rs s =
     ok_obj [(''currentCloud'', JStr ''tutk''), (''availableClouds'', JArr [JStr ''tutk'', JStr ''pepper''])] rs s"

definition handle_get_owner :: "misc nop_handler" where
  "handle_get_owner rq rs s =
     ok_obj [(''owner_id'', JStr (g_owner_id s)), (''username'', JStr (g_owner_user s)),
       (''stoken'', JStr (g_owner_stoken s))] rs s"

definition handle_set_owner :: "misc nop_handler" where
  "handle_set_owner rq rs s =
     (case (arg_str rq ''owner_id'', arg_str rq ''username'', arg_str rq ''stoken'') of
        (Some i, Some u, Some t) \<Rightarrow>
          ok_empty rs (s\<lparr>g_owner_id := field 64 i, g_owner_user := field 64 u,
            g_owner_stoken := field 256 t\<rparr>)
      | _ \<Rightarrow> fails NOP_ERR_PARAM rs s)"

definition handle_get_chromecast_switch :: "misc nop_handler" where
  "handle_get_chromecast_switch rq rs s = ok_obj [(''value'', JBool (g_chromecast_switch s))] rs s"

definition handle_set_chromecast_switch :: "misc nop_handler" where
  "handle_set_chromecast_switch rq rs s =
     need (arg_has rq ''value'') (ok_empty rs (s\<lparr>g_chromecast_switch := arg_bool rq ''value'' (g_chromecast_switch s)\<rparr>)) rs s"

definition handle_get_chromecast_info :: "misc nop_handler" where
  "handle_get_chromecast_info rq rs s =
     ok_obj [(''deviceName'', JStr ''officeDVR''), (''firmwareVersion'', JStr ''''),
       (''serialNumber'', JStr (g_serial_number s)), (''model'', JStr ''''), (''mac'', JStr ''''),
       (''manufacturer'', JStr ''NightOwl''), (''type'', JStr ''videoRecorder''), (''ip'', JStr ''''),
       (''protocol'', JArr []), (''streamType'', JArr []), (''channels'', JArr []),
       (''maximumChannelCount'', JInt 0), (''currentChannelCount'', JInt 0)] rs s"

definition handle_get_time_sync_switch :: "misc nop_handler" where
  "handle_get_time_sync_switch rq rs s = ok_obj [(''enable'', JBool (g_time_sync_switch s))] rs s"

definition handle_set_time_sync_switch :: "misc nop_handler" where
  "handle_set_time_sync_switch rq rs s =
     need (arg_has rq ''enable'') (ok_empty rs (s\<lparr>g_time_sync_switch := arg_bool rq ''enable'' (g_time_sync_switch s)\<rparr>)) rs s"

definition handle_get_input_channel_name :: "misc nop_handler" where
  "handle_get_input_channel_name rq rs s = ok_obj [(''name'', JStr (g_channel_name s (misc_chan rq)))] rs s"

definition handle_set_input_channel_name :: "misc nop_handler" where
  "handle_set_input_channel_name rq rs s =
     (case arg_str rq ''name'' of
        Some v \<Rightarrow> need (arg_has rq ''channel'')
          (ok_empty rs (s\<lparr>g_channel_name := (g_channel_name s)(misc_chan rq := field 64 v)\<rparr>)) rs s
      | None \<Rightarrow> fails NOP_ERR_PARAM rs s)"

definition handle_get_input_channel_names :: "misc nop_handler" where
  "handle_get_input_channel_names rq rs s =
     ok_obj [(''names'', JArr (map (\<lambda>c. JObj [(''name'', JStr (g_channel_name s c)), (''channel'', JInt c)])
        (filter (\<lambda>c. g_channel_name s c \<noteq> []) [0..15])))] rs s"

definition handle_get_channels_status :: "misc nop_handler" where
  "handle_get_channels_status rq rs s = ok_obj [(''channels'', JArr [])] rs s"

definition handle_get_channel_status :: "misc nop_handler" where
  "handle_get_channel_status rq rs s = need (arg_has rq ''channel'') (ok_obj [(''status'', JInt 0)] rs s) rs s"

definition handle_get_channel_info :: "misc nop_handler" where
  "handle_get_channel_info rq rs s =
     need (arg_has rq ''channel'') (ok_obj [(''name'', JStr (g_channel_name s (misc_chan rq))),
       (''firmwareVersion'', JStr ''''), (''serialNumber'', JStr ''''), (''model'', JStr ''''),
       (''mac'', JStr ''''), (''manufacturer'', JStr ''NightOwl''), (''type'', JStr ''''), (''ip'', JStr ''''),
       (''storageType'', JStr ''none''), (''network'', JStr ''''), (''signalStrength'', JInt 0)] rs s) rs s"

definition handle_get_channel_battery_status :: "misc nop_handler" where
  "handle_get_channel_battery_status rq rs s =
     need (arg_has rq ''channel'') (ok_obj [(''isCharging'', JBool False), (''batteryLevel'', JInt 0)] rs s) rs s"

definition handle_get_power_supply_stats :: "misc nop_handler" where
  "handle_get_power_supply_stats rq rs s =
     need (arg_has rq ''channel'') (ok_obj [(''timestamp'', JArr []), (''voltage'', JArr []),
       (''solarEnergyWh'', JArr []), (''solarTodayWh'', JArr []), (''greenEnergyTotal'', JInt 0),
       (''charge'', JArr [])] rs s) rs s"

definition handle_set_power_supply_stats :: "misc nop_handler" where
  "handle_set_power_supply_stats rq rs s = need (arg_has rq ''channel'') (ok_empty rs s) rs s"

definition handle_get_profile :: "misc nop_handler" where
  "handle_get_profile rq rs s = ok_obj [] rs s"

definition handle_set_current_storage :: "misc nop_handler" where
  "handle_set_current_storage rq rs s =
     (case arg_str rq ''value'' of None \<Rightarrow> fails NOP_ERR_PARAM rs s | Some v \<Rightarrow> ok_empty rs (s\<lparr>g_current_storage := field 16 v\<rparr>))"

definition handle_set_serial_number :: "misc nop_handler" where
  "handle_set_serial_number rq rs s =
     (case (arg_str rq ''securityCode'', arg_str rq ''serial'') of
        (Some _, Some v) \<Rightarrow> ok_empty rs (s\<lparr>g_serial_number := field 32 v\<rparr>)
      | _ \<Rightarrow> fails NOP_ERR_PARAM rs s)"

definition handle_build_tunnel :: "misc nop_handler" where
  "handle_build_tunnel rq rs s =
     need (arg_str rq ''protocol'' \<noteq> None) (ok_obj [(''username'', JStr ''admin''),
       (''password'', JStr (g_av_password s)), (''iotc-channel'', JInt 0)] rs s) rs s"

definition handle_sleep_camera :: "misc nop_handler" where
  "handle_sleep_camera rq rs s = need (arg_has rq ''channel'') (ok_empty rs s) rs s"

definition handle_sleep_packet :: "misc nop_handler" where
  "handle_sleep_packet rq rs s = ok_empty rs s"

definition handle_wake_up_camera :: "misc nop_handler" where
  "handle_wake_up_camera rq rs s = need (arg_has rq ''channel'') (ok_empty rs s) rs s"

definition handle_write_firmware :: "misc nop_handler" where
  "handle_write_firmware rq rs s = ok_empty rs s"

definition handle_upgrade_channel_firmware :: "onvif_map \<Rightarrow> misc nop_handler" where
  "handle_upgrade_channel_firmware om rq rs s =
     need (arg_has rq ''channel'' \<and> arg_str rq ''url'' \<noteq> None)
       (mapped om (arg_int rq ''channel'' 0) rq rs s (ok_empty rs s)) rs s"

definition handle_check_channel_upgrade_status :: "misc nop_handler" where
  "handle_check_channel_upgrade_status rq rs s =
     need (arg_has rq ''channel'') (ok_obj [(''status'', JInt 0)] rs s) rs s"

definition handle_attach_ip_devices :: "json_codec \<Rightarrow> misc nop_handler" where
  "handle_attach_ip_devices jc rq rs s =
     need (arg_arr rq ''devices'') (ok_obj [(''error'',
       JStr '''')] rs (s\<lparr>g_attach_devices_json := Option.bind (arg_get rq ''devices'') (jc_print jc)\<rparr>)) rs s"

definition handle_detach_ip_device :: "misc nop_handler" where
  "handle_detach_ip_device rq rs s = need (arg_has rq ''device'') (ok_empty rs s) rs s"

definition handle_get_attach_status :: "misc nop_handler" where
  "handle_get_attach_status rq rs s = ok_obj [(''devices'', JArr [])] rs s"

definition handle_update_p2p_credential :: "misc nop_handler" where
  "handle_update_p2p_credential rq rs s =
     ok_obj [(''func'', JStr ''X_NightOwl_updateP2PCredential''), (''authKey'', JStr (g_iotc_auth_key s)),
       (''avPassword'', JStr (g_av_password s))] rs s"

definition handle_set_upload_service :: "misc nop_handler" where
  "handle_set_upload_service rq rs s =
     need (arg_str rq ''url'' \<noteq> None \<and> arg_str rq ''token'' \<noteq> None) (ok_empty rs s) rs s"

definition handle_reset_to_factory_settings :: "misc nop_handler" where
  "handle_reset_to_factory_settings rq rs s = ok_empty rs s"

definition handle_unlock :: "misc nop_handler" where
  "handle_unlock rq rs s = ok_obj [(''func'', JStr ''X_NightOwl_unlock'')] rs s"

definition handle_login_user :: "misc nop_handler" where
  "handle_login_user rq rs s =
     need (arg_str rq ''user'' \<noteq> None \<and> arg_str rq ''BLEKey'' \<noteq> None) (ok_obj [(''func'',
       JStr ''X_NightOwl_loginUser'')] rs s) rs s"

definition cap_misc_register :: "onvif_map \<Rightarrow> json_codec \<Rightarrow> misc cap_regs" where
  "cap_misc_register om jc =
    [(''buildTunnel'', CAP_MISC, handle_build_tunnel), (''getAvPassword'', CAP_MISC, handle_get_av_password),
     (''setAvPassword'', CAP_MISC, handle_set_av_password), (''getChannelsStatus'', CAP_MISC, handle_get_channels_status),
     (''getCurrentClouds'', CAP_MISC, handle_get_current_clouds), (''getIotcAuthKey'', CAP_MISC, handle_get_iotc_auth_key),
     (''setIotcAuthKey'', CAP_MISC, handle_set_iotc_auth_key),
     (''getPowerSupplyStats'', CAP_MISC, handle_get_power_supply_stats),
     (''setPowerSupplyStats'', CAP_MISC, handle_set_power_supply_stats), (''getProfile'', CAP_MISC, handle_get_profile),
     (''setCurrentStorage'', CAP_MISC, handle_set_current_storage),
     (''setSerialNumber'', CAP_MISC, handle_set_serial_number), (''sleepCamera'', CAP_MISC, handle_sleep_camera),
     (''sleepPacket'', CAP_MISC, handle_sleep_packet), (''writeFirmware'', CAP_MISC, handle_write_firmware),
     (''X_NightOwl_attachIPDevices'', CAP_MISC, handle_attach_ip_devices jc),
     (''X_NightOwl_checkChannelUpgradeStatus'', CAP_MISC, handle_check_channel_upgrade_status),
     (''X_NightOwl_detachIPDevice'', CAP_MISC, handle_detach_ip_device),
     (''X_NightOwl_getAttachStatus'', CAP_MISC, handle_get_attach_status),
     (''X_NightOwl_getChannelBatteryStatus'', CAP_MISC, handle_get_channel_battery_status),
     (''X_NightOwl_getChannelInfo'', CAP_MISC, handle_get_channel_info),
     (''X_NightOwl_getChannelStatus'', CAP_MISC, handle_get_channel_status),
     (''X_NightOwl_getChromecastInfo'', CAP_MISC, handle_get_chromecast_info),
     (''X_NightOwl_getChromecastSwitch'', CAP_MISC, handle_get_chromecast_switch),
     (''X_NightOwl_setChromecastSwitch'', CAP_MISC, handle_set_chromecast_switch),
     (''X_NightOwl_getInputChannelName'', CAP_MISC, handle_get_input_channel_name),
     (''X_NightOwl_getInputChannelNames'', CAP_MISC, handle_get_input_channel_names),
     (''X_NightOwl_setInputChannelName'', CAP_MISC, handle_set_input_channel_name),
     (''X_NightOwl_getOwner'', CAP_MISC, handle_get_owner), (''X_NightOwl_setOwner'', CAP_MISC, handle_set_owner),
     (''X_NightOwl_getTimeSyncSwitch'', CAP_MISC, handle_get_time_sync_switch),
     (''X_NightOwl_setTimeSyncSwitch'', CAP_MISC, handle_set_time_sync_switch),
     (''X_NightOwl_resetToFactorySettings'', CAP_MISC, handle_reset_to_factory_settings),
     (''X_NightOwl_setUploadService'', CAP_MISC, handle_set_upload_service),
     (''X_NightOwl_unlock'', CAP_MISC, handle_unlock),
     (''X_NightOwl_updateP2PCredential'', CAP_MISC, handle_update_p2p_credential),
     (''X_NightOwl_upgradeChannelFirmware'', CAP_MISC, handle_upgrade_channel_firmware om),
     (''X_NightOwl_wakeUpCamera'', CAP_MISC, handle_wake_up_camera), (''X_NightOwl_loginUser'', CAP_MISC, handle_login_user)]"

text \<open>The settings whose value two commands share.\<close>

definition owner_setting :: setting_decl where
  "owner_setting =
     \<lparr>sd_set = ''X_NightOwl_setOwner'', sd_get = ''X_NightOwl_getOwner'', sd_chan = \<lambda>_. 0, sd_need = \<lambda>_. True,
      sd_wr = \<lambda>rq. (case (arg_str rq ''owner_id'', arg_str rq ''username'', arg_str rq ''stoken'') of
         (Some i, Some u, Some t) \<Rightarrow>
           Some (JObj [(''owner_id'', JStr (field 64 i)), (''username'', JStr (field 64 u)), (''stoken'', JStr (field 256 t))])
       | _ \<Rightarrow> None),
      sd_dflt = \<lambda>_. JObj [(''owner_id'', JStr []), (''username'', JStr []), (''stoken'', JStr [])]\<rparr>"

definition channel_name_setting :: setting_decl where
  "channel_name_setting = needing (\<lambda>rq. True)
     \<lparr>sd_set = ''X_NightOwl_setInputChannelName'', sd_get = ''X_NightOwl_getInputChannelName'', sd_chan = misc_chan, sd_need = \<lambda>_. True,
      sd_wr = \<lambda>rq. if arg_has rq ''channel'' then map_option (\<lambda>v. JObj [(''name'', JStr (field 64 v))]) (arg_str rq ''name'') else None,
      sd_dflt = \<lambda>_. JObj [(''name'', JStr [])]\<rparr>"

lemmas misc_handlers = handle_get_av_password_def handle_set_av_password_def handle_get_iotc_auth_key_def handle_set_iotc_auth_key_def
  handle_get_current_clouds_def handle_get_owner_def handle_set_owner_def handle_get_chromecast_switch_def
  handle_set_chromecast_switch_def handle_get_chromecast_info_def handle_get_time_sync_switch_def handle_set_time_sync_switch_def
  handle_get_input_channel_name_def handle_set_input_channel_name_def handle_get_input_channel_names_def handle_get_channels_status_def
  handle_get_channel_status_def handle_get_channel_info_def handle_get_channel_battery_status_def handle_get_power_supply_stats_def
  handle_set_power_supply_stats_def handle_get_profile_def handle_set_current_storage_def handle_set_serial_number_def
  handle_build_tunnel_def handle_sleep_camera_def handle_sleep_packet_def handle_wake_up_camera_def
  handle_write_firmware_def handle_upgrade_channel_firmware_def handle_check_channel_upgrade_status_def handle_attach_ip_devices_def
  handle_detach_ip_device_def handle_get_attach_status_def handle_update_p2p_credential_def handle_set_upload_service_def
  handle_reset_to_factory_settings_def handle_unlock_def handle_login_user_def

lemmas misc_simps = cap_misc_register_def setting_simps misc_handlers Let_def ok_obj_def cap_answer_def cap_reply_def
  misc0_def nop_response_init_def snapshot_or_def or_default_def owner_setting_def channel_name_setting_def arg_bool_def arg_get_def arg_has_def nop_json_bool_def nop_json_has_def

interpretation misc_av_password: setting "cap_misc_register om jc"
    "text_setting ''setAvPassword'' ''getAvPassword'' (\<lambda>_. 0) 64 ''value'' ''value'' ''xxxxxx''"
    "\<lambda>s k. JObj [(''value'', JStr (if k = 0 then g_av_password s else ''xxxxxx''))]" misc0 for om jc
  by unfold_locales (simp_all add: misc_simps split: option.splits json.splits prod.splits)

interpretation misc_iotc_key: setting "cap_misc_register om jc"
    "text_setting ''setIotcAuthKey'' ''getIotcAuthKey'' (\<lambda>_. 0) 64 ''value'' ''value'' ''xxxxxx''"
    "\<lambda>s k. JObj [(''value'', JStr (if k = 0 then g_iotc_auth_key s else ''xxxxxx''))]" misc0 for om jc
  by unfold_locales (simp_all add: misc_simps split: option.splits json.splits prod.splits)

interpretation misc_chromecast: setting "cap_misc_register om jc"
    "keep_setting ''X_NightOwl_setChromecastSwitch'' ''X_NightOwl_getChromecastSwitch'' ''value'' True"
    "\<lambda>s k. JObj [(''value'', JBool (k = 0 \<longrightarrow> g_chromecast_switch s))]" misc0 for om jc
  by unfold_locales (simp_all add: misc_simps split: option.splits json.splits prod.splits)

interpretation misc_time_sync: setting "cap_misc_register om jc"
    "keep_setting ''X_NightOwl_setTimeSyncSwitch'' ''X_NightOwl_getTimeSyncSwitch'' ''enable'' True"
    "\<lambda>s k. JObj [(''enable'', JBool (k = 0 \<longrightarrow> g_time_sync_switch s))]" misc0 for om jc
  by unfold_locales (simp_all add: misc_simps split: option.splits json.splits prod.splits)

interpretation misc_owner: setting "cap_misc_register om jc"
    "owner_setting"
    "\<lambda>s k. JObj [(''owner_id'', JStr (if k = 0 then g_owner_id s else [])), (''username'', JStr (if k = 0 then g_owner_user s else [])), (''stoken'', JStr (if k = 0 then g_owner_stoken s else []))]" misc0 for om jc
  by unfold_locales (simp_all add: misc_simps split: option.splits json.splits prod.splits)

interpretation misc_channel_name: setting "cap_misc_register om jc"
    "channel_name_setting"
    "\<lambda>s ch. JObj [(''name'', JStr (g_channel_name s ch))]" misc0 for om jc
  by unfold_locales (simp_all add: misc_simps split: option.splits json.splits prod.splits)

definition misc_lost :: "setting_decl list" where
  "misc_lost =
    [lost_setting ''setPowerSupplyStats'' ''getPowerSupplyStats'' (\<lambda>rq. arg_has rq ''channel'')
       (JObj [(''timestamp'', JArr []), (''voltage'', JArr []), (''solarEnergyWh'', JArr []), (''solarTodayWh'', JArr []), (''greenEnergyTotal'', JInt 0),
         (''charge'', JArr [])])]"

interpretation misc_power_supply: setting "cap_misc_register om jc" "hd misc_lost"
    "\<lambda>s k. sd_dflt (hd misc_lost) k" misc0 for om jc
  by unfold_locales (simp_all add: misc_simps misc_lost_def need_def fails_def)

definition misc_settings :: "onvif_map \<Rightarrow> json_codec \<Rightarrow> setting_decl list" where
  "misc_settings om jc =
    [text_setting ''setAvPassword'' ''getAvPassword'' (\<lambda>_. 0) 64 ''value'' ''value'' ''xxxxxx'',
     text_setting ''setIotcAuthKey'' ''getIotcAuthKey'' (\<lambda>_. 0) 64 ''value'' ''value'' ''xxxxxx'',
     keep_setting ''X_NightOwl_setChromecastSwitch'' ''X_NightOwl_getChromecastSwitch'' ''value'' True,
     keep_setting ''X_NightOwl_setTimeSyncSwitch'' ''X_NightOwl_getTimeSyncSwitch'' ''enable'' True, owner_setting,
     channel_name_setting]"

lemma misc_settings_ok: "list_all (setting_ok (cap_misc_register om jc) misc0) (misc_settings om jc)"
  by (simp add: misc_settings_def misc_av_password.holds misc_iotc_key.holds misc_chromecast.holds misc_time_sync.holds
    misc_owner.holds misc_channel_name.holds)

lemma misc_lost_ok: "list_all (setting_ok (cap_misc_register om jc) misc0) misc_lost"
  using misc_power_supply.holds[of om jc] by (simp add: misc_lost_def)

lemma misc_left_over: "left_over (cap_misc_register om jc) (misc_settings om jc @ misc_lost) =
    [''setCurrentStorage'', ''setSerialNumber'', ''X_NightOwl_setUploadService'']"
  by (simp add: left_over_def setters_of_def is_setter_def setting_simps misc_settings_def misc_lost_def owner_setting_def channel_name_setting_def
    cap_misc_register_def)

end
