(* ===== verification/Cap_Misc_Ext.thy ===== *)
theory Cap_Misc_Ext
  imports Cap_Base
begin

text \<open>
  business/caps/cap_misc_ext.c: statistics, recording content, sensor linkage, overlays, privacy zones, digital zoom, enhanced security
  and activation. The arrays of 16 entries, indexed by the channel of the request (an index out of range is taken for channel 0),
  are the fields of the record; object values are kept as printed JSON.
\<close>

definition read_channel :: "nop_request \<Rightarrow> int" where
  "read_channel rq = (let c = arg_int rq ''channel'' 1 in if c < 0 \<or> c \<ge> 16 then 0 else c)"

record misc_ext =
  g_recording_no_audio :: "int \<Rightarrow> bool"
  g_cloud_record_stats_switch :: "int \<Rightarrow> bool"
  g_sensor_linkage_json :: "int \<Rightarrow> string option"
  g_osd_configs_json :: "int \<Rightarrow> string option"
  g_privacy_zone_json :: "int \<Rightarrow> string option"
  g_zoom_pan_enable :: "int \<Rightarrow> bool"
  g_zoom_pan_center_x :: "int \<Rightarrow> int"
  g_zoom_pan_center_y :: "int \<Rightarrow> int"
  g_zoom_pan_ratio :: "int \<Rightarrow> int"
  g_zoom_pan_initialized :: "int \<Rightarrow> bool"
  g_enhanced_security_random :: "int \<Rightarrow> string option"
  g_device_active :: "int \<Rightarrow> bool"

definition misc_ext0 :: misc_ext where
  "misc_ext0 = \<lparr>g_recording_no_audio = \<lambda>_. False, g_cloud_record_stats_switch = \<lambda>_. False, g_sensor_linkage_json = \<lambda>_. None,
     g_osd_configs_json = \<lambda>_. None, g_privacy_zone_json = \<lambda>_. None, g_zoom_pan_enable = \<lambda>_. False, g_zoom_pan_center_x = \<lambda>_. 0,
     g_zoom_pan_center_y = \<lambda>_. 0, g_zoom_pan_ratio = \<lambda>_. 0, g_zoom_pan_initialized = \<lambda>_. False,
     g_enhanced_security_random = \<lambda>_. None, g_device_active = \<lambda>_. False\<rparr>"

definition load_json_snapshot :: "json_codec \<Rightarrow> string option \<Rightarrow> json option" where
  "load_json_snapshot jc text = Option.bind text (jc_parse jc)"

text \<open>A member copied through its text; the fallback when it cannot be.\<close>

definition copied_or :: "json_codec \<Rightarrow> json option \<Rightarrow> json \<Rightarrow> json" where
  "copied_or jc v dflt = (case Option.bind v (\<lambda>v. Option.bind (jc_print jc v) (jc_parse jc)) of None \<Rightarrow> dflt | Some c \<Rightarrow> c)"

definition ensure_zoom_pan_default :: "int \<Rightarrow> misc_ext \<Rightarrow> misc_ext" where
  "ensure_zoom_pan_default ch s =
     (if g_zoom_pan_initialized s ch then s
      else s\<lparr>g_zoom_pan_enable := (g_zoom_pan_enable s)(ch := True), g_zoom_pan_center_x := (g_zoom_pan_center_x s)(ch := 500),
             g_zoom_pan_center_y := (g_zoom_pan_center_y s)(ch := 500), g_zoom_pan_ratio := (g_zoom_pan_ratio s)(ch := 100),
             g_zoom_pan_initialized := (g_zoom_pan_initialized s)(ch := True)\<rparr>)"

definition handle_get_channel_stats :: "misc_ext nop_handler" where
  "handle_get_channel_stats rq rs s =
     need (arg_has rq ''channel'') (ok_obj [(''startTime'', JInt 0), (''endTime'', JInt 0),
       (''events_total'', JInt 0), (''events_pir'', JInt 0), (''events_md'', JInt 0), (''events_hd'', JInt 0),
       (''events_vd'', JInt 0), (''events_doorbellRing'', JInt 0), (''push_upload_image_success'', JInt 0),
       (''push_upload_image_fail'', JInt 0), (''push_success'', JInt 0), (''push_fail'', JInt 0),
       (''remote_connectCount'', JInt 0), (''remote_LiveviewCount'', JInt 0),
       (''remote_LiveviewSuccessCount'', JInt 0), (''remote_PlaybackCount'', JInt 0),
       (''remote_PlaybackSuccessCount'', JInt 0), (''remote_SpeakerCount'', JInt 0),
       (''remote_SpeakerSuccessCount'', JInt 0), (''bat_pirWakeupTotalSecs'', JInt 0),
       (''bat_pirFalseAlarmTotalSecs'', JInt 0), (''bat_remoteWakeupTotalSecs'', JInt 0),
       (''storage_usage_eventRec'', JInt 0), (''storage_usage_continueRec'', JInt 0)] rs s) rs s"

definition handle_get_cable_connect_status :: "misc_ext nop_handler" where
  "handle_get_cable_connect_status rq rs s = ok_obj [(''HDMI'', JBool False), (''VGA'', JBool False)] rs s"

definition handle_get_channel_binding_mode :: "misc_ext nop_handler" where
  "handle_get_channel_binding_mode rq rs s =
     need (arg_has rq ''channel'') (ok_obj [(''mode'', JStr ''notBinded'')] rs s) rs s"

definition handle_get_cloud_status_history :: "misc_ext nop_handler" where
  "handle_get_cloud_status_history rq rs s =
     ok_obj [(''retentionHours'', JInt 168), (''totalBuckets'', JInt 0), (''earliestWindowStart'', JStr ''''),
       (''latestWindowEnd'', JStr ''''), (''buckets'', JArr [])] rs s"

definition handle_get_channel_recording_content :: "misc_ext nop_handler" where
  "handle_get_channel_recording_content rq rs s =
     need (arg_has rq ''channel'') (ok_obj [(''noAudio'',
       JBool (g_recording_no_audio s (read_channel rq)))] rs s) rs s"

definition handle_set_channel_recording_content :: "misc_ext nop_handler" where
  "handle_set_channel_recording_content rq rs s =
     need (arg_has rq ''channel'') (ok_empty rs (s\<lparr>g_recording_no_audio := (g_recording_no_audio s)(read_channel rq := arg_bool rq ''noAudio'' False)\<rparr>)) rs s"

definition add_default_sensor_config :: json where
  "add_default_sensor_config = JArr (map (\<lambda>n. JObj [(''sensor'', JStr n), (''enable'', JBool True), (''drawRegion'', JBool False),
     (''drawText'', JBool False), (''eventInterval'', JInt 30)]) [''pixelChange'', ''human'', ''vehicle'', ''animal'', ''package''])"

definition handle_get_channel_sensor_config :: "onvif_map \<Rightarrow> misc_ext nop_handler" where
  "handle_get_channel_sensor_config om rq rs s =
     need (arg_has rq ''channel'')
       (mapped om (arg_int rq ''channel'' 0) rq rs s (ok_obj [(''sensors'', add_default_sensor_config)] rs s)) rs s"

definition add_default_sensor_linkage :: json where
  "add_default_sensor_linkage = JObj [(''sensors'', JArr (map (\<lambda>n. JObj [(''sensor'', JStr n), (''mail'', JBool False),
     (''buzzer'', JBool False), (''ftp'', JBool False)]) [''pixelChange'', ''human'', ''vehicle'']))]"

definition linkage_snapshot :: "json_codec \<Rightarrow> nop_request \<Rightarrow> json" where
  "linkage_snapshot jc rq = JObj [(''sensors'', copied_or jc (arg_get rq ''sensors'') (JArr []))]"

definition handle_get_channel_sensor_linkage :: "json_codec \<Rightarrow> misc_ext nop_handler" where
  "handle_get_channel_sensor_linkage jc rq rs s =
     need (arg_has rq ''channel'')
       (NOP_OK, rs\<lparr>rs_content := Some (snapshot_or jc (g_sensor_linkage_json s (read_channel rq)) None add_default_sensor_linkage)\<rparr>, s) rs s"

definition handle_set_channel_sensor_linkage :: "json_codec \<Rightarrow> misc_ext nop_handler" where
  "handle_set_channel_sensor_linkage jc rq rs s =
     need (arg_has rq ''channel'' \<and> arg_has rq ''sensors'') (ok_empty rs (s\<lparr>g_sensor_linkage_json := (g_sensor_linkage_json s)(read_channel rq := jc_print jc (linkage_snapshot jc rq))\<rparr>)) rs s"

definition handle_get_channel_cloud_record_stats :: "misc_ext nop_handler" where
  "handle_get_channel_cloud_record_stats rq rs s =
     need (arg_has rq ''channel'') (ok_obj [(''startTime'', JInt 0), (''endTime'', JInt 0),
       (''videoResolution'', JArr []), (''getUrlOKTimes'', JInt 0), (''getUrlNGTimes'', JInt 0),
       (''getUrlNGCodes'', JObj []), (''eventUploadOKTimes'', JInt 0), (''eventUploadNGTimes'', JInt 0),
       (''tsUploadOKTimes'', JInt 0), (''tsUploadNGTimes'', JInt 0), (''tsUploadNGCodes'', JObj []),
       (''tagsUpdateOKTimes'', JInt 0), (''tagsUpdateNGTimes'', JInt 0), (''tagsUpdateNGCodes'', JObj []),
       (''tsUploadDropForNoSpace'', JInt 0), (''tsUploadDropForNoNetwork'', JInt 0), (''mode'', JArr [])] rs s) rs s"

definition handle_get_channel_cloud_record_stats_switch :: "misc_ext nop_handler" where
  "handle_get_channel_cloud_record_stats_switch rq rs s =
     need (arg_has rq ''channel'') (ok_obj [(''value'',
       JBool (g_cloud_record_stats_switch s (read_channel rq)))] rs s) rs s"

definition handle_set_channel_cloud_record_stats_switch :: "misc_ext nop_handler" where
  "handle_set_channel_cloud_record_stats_switch rq rs s =
     need (arg_has rq ''channel'' \<and> arg_has rq ''value'') (ok_empty rs (s\<lparr>g_cloud_record_stats_switch := (g_cloud_record_stats_switch s)(read_channel rq := arg_bool rq ''value'' False)\<rparr>)) rs s"

definition handle_get_channel_loading :: "misc_ext nop_handler" where
  "handle_get_channel_loading rq rs s =
     need (arg_has rq ''channel'') (ok_obj [(''uptime'', JInt 0), (''CPUUsage'', JInt 0), (''DDRUsage'', JInt 0),
       (''temperature'', JInt 0)] rs s) rs s"

definition handle_clear_enhanced_security :: "misc_ext nop_handler" where
  "handle_clear_enhanced_security rq rs s =
     need (arg_has rq ''channel'' \<and> arg_has rq ''random'' \<and> arg_has rq ''forceToken'') (ok_obj [] rs (s\<lparr>g_enhanced_security_random := (g_enhanced_security_random s)(read_channel rq := None)\<rparr>)) rs s"

definition handle_get_enhanced_security :: "misc_ext nop_handler" where
  "handle_get_enhanced_security rq rs s =
     need (arg_has rq ''channel'') (ok_obj [(''random'',
       JStr (case g_enhanced_security_random s (read_channel rq) of Some r \<Rightarrow> r | None \<Rightarrow> []))] rs s) rs s"

definition NOP_ERRSTR_RANDOM_EMPTY :: string where "NOP_ERRSTR_RANDOM_EMPTY = ''random_empty_error''"
definition NOP_ERRSTR_ALREADY_ACTIVE :: string where "NOP_ERRSTR_ALREADY_ACTIVE = ''already_active_error''"

definition handle_set_enhanced_security :: "misc_ext nop_handler" where
  "handle_set_enhanced_security rq rs s =
     need (arg_has rq ''channel'' \<and> arg_has rq ''random'')
       (let r = arg_str_or rq ''random'' ''''
        in if r = [] then ok_obj [(''error'', JStr NOP_ERRSTR_RANDOM_EMPTY)] rs s
           else ok_obj [] rs (s\<lparr>g_enhanced_security_random := (g_enhanced_security_random s)(read_channel rq := Some r)\<rparr>)) rs s"

definition handle_factory_test_answer_popup_win :: "misc_ext nop_handler" where
  "handle_factory_test_answer_popup_win rq rs s = need (arg_has rq ''button'') (ok_obj [] rs s) rs s"

definition add_default_osd_configs :: json where
  "add_default_osd_configs = JObj [(''OSDConfigs'', JArr (map (\<lambda>(t, p). JObj [(''osdToken'', JStr t), (''enable'', JBool True),
     (''positionType'', JStr p)]) [(''OSD_Name'', ''BottomRight''), (''OSD_DateTime'', ''TopMiddle''), (''OSD_WaterMark'', ''TopRight'')]))]"

definition build_osd_snapshot :: "nop_request \<Rightarrow> json" where
  "build_osd_snapshot rq =
     JObj [(''OSDConfigs'', JArr [JObj ([(''osdToken'', JStr (arg_str_or rq ''osdToken'' ''OSD_WaterMark'')), (''enable'', JBool (arg_bool rq ''enable'' True))] @
       (if arg_has rq ''positionType'' then [(''positionType'', JStr (arg_str_or rq ''positionType'' ''''))] else []) @
       (if arg_has rq ''positionX'' then [(''positionX'', JNum (arg_num rq ''positionX'' 0))] else []) @
       (if arg_has rq ''positionY'' then [(''positionY'', JNum (arg_num rq ''positionY'' 0))] else []))])]"

definition handle_get_osd :: "onvif_map \<Rightarrow> json_codec \<Rightarrow> misc_ext nop_handler" where
  "handle_get_osd om jc rq rs s =
     need (arg_has rq ''channel'')
       (mapped om (read_channel rq) rq rs s
         (NOP_OK, rs\<lparr>rs_content := Some (snapshot_or jc (g_osd_configs_json s (read_channel rq)) None add_default_osd_configs)\<rparr>, s)) rs s"

definition handle_set_osd :: "onvif_map \<Rightarrow> json_codec \<Rightarrow> misc_ext nop_handler" where
  "handle_set_osd om jc rq rs s =
     need (arg_has rq ''channel'' \<and> arg_has rq ''osdToken'')
       (mapped om (read_channel rq) rq rs s
         (ok_obj [(''error'', JStr '''')] rs
           (s\<lparr>g_osd_configs_json := (g_osd_configs_json s)(read_channel rq := jc_print jc (build_osd_snapshot rq))\<rparr>))) rs s"

definition stored_points :: "json_codec \<Rightarrow> string option \<Rightarrow> json" where
  "stored_points jc text = copied_or jc (nop_json_get (load_json_snapshot jc text) ''privacyZonePoints'') (JArr [])"

definition privacy_snapshot :: "json_codec \<Rightarrow> nop_request \<Rightarrow> json" where
  "privacy_snapshot jc rq = JObj [(''privacyZonePoints'', copied_or jc (arg_get rq ''privacyZonePoints'') (JArr []))]"

definition handle_get_channel_privacy_zone :: "onvif_map \<Rightarrow> json_codec \<Rightarrow> misc_ext nop_handler" where
  "handle_get_channel_privacy_zone om jc rq rs s =
     need (arg_has rq ''channel'')
       (mapped om (read_channel rq) rq rs s
         (ok_obj [(''width'', JInt 22), (''height'', JInt 18),
           (''privacyZonePoints'', stored_points jc (g_privacy_zone_json s (read_channel rq)))] rs s)) rs s"

definition handle_set_channel_privacy_zone :: "onvif_map \<Rightarrow> json_codec \<Rightarrow> misc_ext nop_handler" where
  "handle_set_channel_privacy_zone om jc rq rs s =
     need (arg_has rq ''channel'' \<and> arg_has rq ''privacyZonePoints'')
       (mapped om (read_channel rq) rq rs s
         (ok_empty rs (s\<lparr>g_privacy_zone_json := (g_privacy_zone_json s)(read_channel rq := jc_print jc (privacy_snapshot jc rq))\<rparr>))) rs s"

definition handle_get_channel_zoom_pan :: "misc_ext nop_handler" where
  "handle_get_channel_zoom_pan rq rs s =
     need (arg_has rq ''channel'')
       (let ch = read_channel rq; s = ensure_zoom_pan_default ch s
        in ok_obj [(''enable'', JBool (g_zoom_pan_enable s ch)), (''CenterPointX'', JInt (g_zoom_pan_center_x s ch)),
             (''CenterPointY'', JInt (g_zoom_pan_center_y s ch)),
               (''ZoomRatio'', JInt (g_zoom_pan_ratio s ch))] rs s) rs s"

definition handle_set_channel_zoom_pan :: "misc_ext nop_handler" where
  "handle_set_channel_zoom_pan rq rs s =
     need (arg_has rq ''channel'' \<and> arg_has rq ''enable'')
       (let ch = read_channel rq; s = ensure_zoom_pan_default ch s;
            s = s\<lparr>g_zoom_pan_enable := (g_zoom_pan_enable s)(ch := arg_bool rq ''enable'' True),
                  g_zoom_pan_center_x := (g_zoom_pan_center_x s)(ch := arg_int rq ''CenterPointX'' (g_zoom_pan_center_x s ch)),
                  g_zoom_pan_center_y := (g_zoom_pan_center_y s)(ch := arg_int rq ''CenterPointY'' (g_zoom_pan_center_y s ch)),
                  g_zoom_pan_ratio := (g_zoom_pan_ratio s)(ch := arg_int rq ''ZoomRatio'' (g_zoom_pan_ratio s ch))\<rparr>
        in ok_obj [(''result'', JStr ''OK''), (''CenterPointX'', JInt (g_zoom_pan_center_x s ch)),
             (''CenterPointY'', JInt (g_zoom_pan_center_y s ch)),
               (''ZoomRatio'', JInt (g_zoom_pan_ratio s ch))] rs s) rs s"

definition handle_get_device_active :: "misc_ext nop_handler" where
  "handle_get_device_active rq rs s =
     need (arg_has rq ''channel'') (ok_obj [(''status'',
       JInt (if g_device_active s (read_channel rq) then 1 else 0))] rs s) rs s"

definition handle_set_device_active :: "misc_ext nop_handler" where
  "handle_set_device_active rq rs s =
     need (arg_has rq ''channel'' \<and> arg_has rq ''password'')
       (if g_device_active s (read_channel rq) then ok_obj [(''error'', JStr NOP_ERRSTR_ALREADY_ACTIVE)] rs s
        else ok_obj [(''error'',
          JStr '''')] rs (s\<lparr>g_device_active := (g_device_active s)(read_channel rq := True)\<rparr>)) rs s"

definition cap_misc_ext_register :: "onvif_map \<Rightarrow> json_codec \<Rightarrow> misc_ext cap_regs" where
  "cap_misc_ext_register om jc =
    [(''getChannelStats'', CAP_MISC, handle_get_channel_stats),
     (''getCableConnectStatus'', CAP_MISC, handle_get_cable_connect_status),
     (''getChannelBindingMode'', CAP_MISC, handle_get_channel_binding_mode),
     (''getCloudStatusHistory'', CAP_MISC, handle_get_cloud_status_history),
     (''getChannelRecordingContent'', CAP_MISC, handle_get_channel_recording_content),
     (''setChannelRecordingContent'', CAP_MISC, handle_set_channel_recording_content),
     (''getChannelSensorConfig'', CAP_MISC, handle_get_channel_sensor_config om),
     (''getChannelSensorLinkage'', CAP_MISC, handle_get_channel_sensor_linkage jc),
     (''setChannelSensorLinkage'', CAP_MISC, handle_set_channel_sensor_linkage jc),
     (''getChannelCloudRecordStats'', CAP_MISC, handle_get_channel_cloud_record_stats),
     (''getChannelCloudRecordStatsSwitch'', CAP_MISC, handle_get_channel_cloud_record_stats_switch),
     (''setChannelCloudRecordStatsSwitch'', CAP_MISC, handle_set_channel_cloud_record_stats_switch),
     (''getChannelLoading'', CAP_MISC, handle_get_channel_loading),
     (''ClearEnhancedSecurity'', CAP_MISC, handle_clear_enhanced_security),
     (''getEnhancedSecurity'', CAP_MISC, handle_get_enhanced_security),
     (''setEnhancedSecurity'', CAP_MISC, handle_set_enhanced_security),
     (''FactoryTest_AnswerPopupWin'', CAP_MISC, handle_factory_test_answer_popup_win),
     (''X_NightOwl_getOSD'', CAP_MISC, handle_get_osd om jc), (''X_NightOwl_setOSD'', CAP_MISC, handle_set_osd om jc),
     (''X_NightOwl_getChannelPrivacyZone'', CAP_MISC, handle_get_channel_privacy_zone om jc),
     (''X_NightOwl_setChannelPrivacyZone'', CAP_MISC, handle_set_channel_privacy_zone om jc),
     (''X_NightOwl_getChannelZoomPan'', CAP_MISC, handle_get_channel_zoom_pan),
     (''X_NightOwl_setChannelZoomPan'', CAP_MISC, handle_set_channel_zoom_pan),
     (''X_NightOwl_getDeviceActive'', CAP_MISC, handle_get_device_active),
     (''X_NightOwl_setDeviceActive'', CAP_MISC, handle_set_device_active)]"

definition sensor_linkage_setting :: "json_codec \<Rightarrow> setting_decl" where
  "sensor_linkage_setting jc =
     \<lparr>sd_set = ''setChannelSensorLinkage'', sd_get = ''getChannelSensorLinkage'', sd_chan = read_channel, sd_need = \<lambda>rq. arg_has rq ''channel'',
      sd_wr = \<lambda>rq. if arg_has rq ''channel'' \<and> arg_has rq ''sensors''
                   then Some (snapshot_or jc (jc_print jc (linkage_snapshot jc rq)) None add_default_sensor_linkage) else None,
      sd_dflt = \<lambda>_. add_default_sensor_linkage\<rparr>"

definition recording_content_setting :: setting_decl where
  "recording_content_setting =
     \<lparr>sd_set = ''setChannelRecordingContent'', sd_get = ''getChannelRecordingContent'', sd_chan = read_channel, sd_need = \<lambda>rq. arg_has rq ''channel'',
      sd_wr = \<lambda>rq. if arg_has rq ''channel'' then Some (JObj [(''noAudio'', JBool (arg_bool rq ''noAudio'' False))]) else None,
      sd_dflt = \<lambda>_. JObj [(''noAudio'', JBool False)]\<rparr>"

lemmas misc_ext_handlers = handle_get_channel_stats_def handle_get_cable_connect_status_def handle_get_channel_binding_mode_def handle_get_cloud_status_history_def
  handle_get_channel_recording_content_def handle_set_channel_recording_content_def handle_get_channel_sensor_config_def handle_get_channel_sensor_linkage_def
  handle_set_channel_sensor_linkage_def handle_get_channel_cloud_record_stats_def handle_get_channel_cloud_record_stats_switch_def handle_set_channel_cloud_record_stats_switch_def
  handle_get_channel_loading_def handle_clear_enhanced_security_def handle_get_enhanced_security_def handle_set_enhanced_security_def
  handle_factory_test_answer_popup_win_def handle_get_osd_def handle_set_osd_def handle_get_channel_privacy_zone_def
  handle_set_channel_privacy_zone_def handle_get_channel_zoom_pan_def handle_set_channel_zoom_pan_def handle_get_device_active_def
  handle_set_device_active_def

lemmas misc_ext_simps = cap_misc_ext_register_def setting_simps misc_ext_handlers Let_def ok_obj_def cap_answer_def cap_reply_def
  misc_ext0_def nop_response_init_def snapshot_or_def or_default_def sensor_linkage_setting_def recording_content_setting_def ensure_zoom_pan_default_def fails_def need_def

interpretation misc_ext_linkage: setting "cap_misc_ext_register om jc"
    "sensor_linkage_setting jc"
    "\<lambda>s k. snapshot_or jc (g_sensor_linkage_json s k) None add_default_sensor_linkage" misc_ext0 for om jc
  by unfold_locales (simp_all add: misc_ext_simps cong: conj_cong)

interpretation misc_ext_recording_content: setting "cap_misc_ext_register om jc"
    "recording_content_setting"
    "\<lambda>s k. JObj [(''noAudio'', JBool (g_recording_no_audio s k))]" misc_ext0 for om jc
  by unfold_locales (simp_all add: misc_ext_simps cong: conj_cong)

interpretation misc_ext_cloud_stats: setting "cap_misc_ext_register om jc"
    "needing (\<lambda>rq. arg_has rq ''channel'') (bool_setting ''setChannelCloudRecordStatsSwitch'' ''getChannelCloudRecordStatsSwitch'' read_channel ''value'' False False)"
    "\<lambda>s k. JObj [(''value'', JBool (g_cloud_record_stats_switch s k))]" misc_ext0 for om jc
  by unfold_locales (simp_all add: misc_ext_simps cong: conj_cong)

definition misc_ext_settings :: "onvif_map \<Rightarrow> json_codec \<Rightarrow> setting_decl list" where
  "misc_ext_settings om jc =
    [sensor_linkage_setting jc, recording_content_setting,
     needing (\<lambda>rq. arg_has rq ''channel'') (bool_setting ''setChannelCloudRecordStatsSwitch'' ''getChannelCloudRecordStatsSwitch'' read_channel ''value'' False False)]"

lemma misc_ext_settings_ok: "list_all (setting_ok (cap_misc_ext_register om jc) misc_ext0) (misc_ext_settings om jc)"
  by (simp add: misc_ext_settings_def misc_ext_linkage.holds misc_ext_recording_content.holds misc_ext_cloud_stats.holds)

text \<open>The other setters of the family.\<close>

lemma misc_ext_left_over: "left_over (cap_misc_ext_register om jc) (misc_ext_settings om jc) =
    [''setEnhancedSecurity'', ''X_NightOwl_setOSD'', ''X_NightOwl_setChannelPrivacyZone'', ''X_NightOwl_setChannelZoomPan'', ''X_NightOwl_setDeviceActive'']"
  by (simp add: left_over_def setters_of_def is_setter_def setting_simps misc_ext_settings_def cap_misc_ext_register_def recording_content_setting_def sensor_linkage_setting_def)

end
