(* ===== verification/Cap_Doorbell.thy ===== *)
theory Cap_Doorbell
  imports Cap_Base
begin

text \<open>
  business/caps/cap_doorbell.c: doorbell, audio alert and speaker commands. The arrays of 16 entries, indexed by the channel of the
  request (an index out of range is taken for channel 0), are the fields of the record.
\<close>

definition db_chan :: "nop_request \<Rightarrow> int" where
  "db_chan rq = (let c = arg_int rq ''channel'' 0 in if c < 0 \<or> c \<ge> 16 then 0 else c)"

record doorbell =
  db_alert_switch :: "int \<Rightarrow> bool"
  db_alert_detect_switch :: "int \<Rightarrow> bool"
  db_alert_json :: "int \<Rightarrow> string option"
  db_duration_set :: "int \<Rightarrow> bool"
  db_duration_seconds :: "int \<Rightarrow> int"
  db_switch_set :: "int \<Rightarrow> bool"
  db_switch :: "int \<Rightarrow> bool"
  db_type :: "int \<Rightarrow> string"

definition doorbell0 :: doorbell where
  "doorbell0 = \<lparr>db_alert_switch = \<lambda>_. False, db_alert_detect_switch = \<lambda>_. False, db_alert_json = \<lambda>_. None,
     db_duration_set = \<lambda>_. False, db_duration_seconds = \<lambda>_. 0, db_switch_set = \<lambda>_. False, db_switch = \<lambda>_. False, db_type = \<lambda>_. []\<rparr>"

definition add_audio_format :: "string \<Rightarrow> int \<Rightarrow> int \<Rightarrow> string \<Rightarrow> json" where
  "add_audio_format codec rate bits channel =
     JObj [(''codec'', JStr codec), (''sampleRate'', JInt rate), (''dataBit'', JInt bits), (''audioChannel'', JStr channel)]"

definition handle_get_speaker_capabilities :: "doorbell nop_handler" where
  "handle_get_speaker_capabilities rq rs s =
     ok_obj [(''protocol'', JArr [JStr ''https'', JStr ''iotc-av'']), (''channels'', JArr [JInt 0, JInt 1]),
       (''supportAudioFormats'', JArr [add_audio_format ''pcm'' 8000 16 ''mono'',
         add_audio_format ''g711u'' 8000 16 ''mono''])] rs s"

definition alert_sources :: json where
  "alert_sources = JArr [JStr ''Smile'', JStr ''Unavailable'', JStr ''Siren'']"

definition add_default_audio_alert :: json where
  "add_default_audio_alert =
     JObj [(''soundVolume'', JInt 66), (''selectedSource'', JStr ''Smile''), (''sources'', alert_sources)]"

definition alert_snapshot :: "nop_request \<Rightarrow> json" where
  "alert_snapshot rq =
     JObj [(''soundVolume'', JNum (arg_num rq ''soundVolume'' 66)), (''selectedSource'', JStr (arg_str_or rq ''source'' ''Smile'')),
           (''sources'', alert_sources)]"

definition handle_get_audio_alert :: "json_codec \<Rightarrow> doorbell nop_handler" where
  "handle_get_audio_alert jc rq rs s =
     (NOP_OK, rs\<lparr>rs_content := Some (snapshot_or jc (db_alert_json s (db_chan rq)) (rs_content rs) add_default_audio_alert)\<rparr>, s)"

definition handle_set_audio_alert :: "json_codec \<Rightarrow> doorbell nop_handler" where
  "handle_set_audio_alert jc rq rs s =
     need (arg_has rq ''soundVolume'' \<and> arg_has rq ''source'') (ok_empty rs (s\<lparr>db_alert_json := (db_alert_json s)(db_chan rq := jc_print jc (alert_snapshot rq))\<rparr>)) rs s"

definition handle_get_audio_alert_switch :: "doorbell nop_handler" where
  "handle_get_audio_alert_switch rq rs s = ok_obj [(''value'', JBool (db_alert_switch s (db_chan rq)))] rs s"

definition handle_set_audio_alert_switch :: "doorbell nop_handler" where
  "handle_set_audio_alert_switch rq rs s =
     need (arg_has rq ''value'') (ok_empty rs (s\<lparr>db_alert_switch := (db_alert_switch s)(db_chan rq := arg_bool rq ''value'' False)\<rparr>)) rs s"

definition handle_get_audio_alert_detect_switch :: "doorbell nop_handler" where
  "handle_get_audio_alert_detect_switch rq rs s =
     ok_obj [(''value'', JBool (db_alert_detect_switch s (db_chan rq)))] rs s"

definition handle_set_audio_alert_detect_switch :: "doorbell nop_handler" where
  "handle_set_audio_alert_detect_switch rq rs s =
     need (arg_has rq ''value'') (ok_empty rs (s\<lparr>db_alert_detect_switch := (db_alert_detect_switch s)(db_chan rq := arg_bool rq ''value'' False)\<rparr>)) rs s"

definition handle_get_doorbell_duration :: "doorbell nop_handler" where
  "handle_get_doorbell_duration rq rs s =
     ok_obj [(''value'', JInt (if db_duration_set s (db_chan rq)
       then db_duration_seconds s (db_chan rq) else 10))] rs s"

definition handle_set_doorbell_duration :: "doorbell nop_handler" where
  "handle_set_doorbell_duration rq rs s =
     need (arg_has rq ''value'') (ok_empty rs (s\<lparr>db_duration_seconds := (db_duration_seconds s)(db_chan rq := arg_int rq ''value'' 10), db_duration_set := (db_duration_set s)(db_chan rq := True)\<rparr>)) rs s"

definition handle_get_doorbell_switch :: "doorbell nop_handler" where
  "handle_get_doorbell_switch rq rs s =
     ok_obj [(''value'', JBool (if db_switch_set s (db_chan rq) then db_switch s (db_chan rq) else True))] rs s"

definition handle_set_doorbell_switch :: "doorbell nop_handler" where
  "handle_set_doorbell_switch rq rs s =
     need (arg_has rq ''value'') (ok_empty rs (s\<lparr>db_switch := (db_switch s)(db_chan rq := arg_bool rq ''value'' True), db_switch_set := (db_switch_set s)(db_chan rq := True)\<rparr>)) rs s"

definition handle_get_doorbell_type :: "doorbell nop_handler" where
  "handle_get_doorbell_type rq rs s =
     ok_obj [(''value'', JStr (or_default (db_type s (db_chan rq)) ''mechanical''))] rs s"

definition handle_set_doorbell_type :: "doorbell nop_handler" where
  "handle_set_doorbell_type rq rs s =
     need (arg_has rq ''value'') (ok_empty rs (s\<lparr>db_type := (db_type s)(db_chan rq := field 16 (arg_str_or rq ''value'' ''mechanical''))\<rparr>)) rs s"

definition cap_doorbell_register :: "json_codec \<Rightarrow> doorbell cap_regs" where
  "cap_doorbell_register jc =
    [(''getSpeakerCapabilities'', CAP_MISC, handle_get_speaker_capabilities),
     (''X_NightOwl_getChannelAudioAlert'', CAP_MISC, handle_get_audio_alert jc),
     (''X_NightOwl_setChannelAudioAlert'', CAP_MISC, handle_set_audio_alert jc),
     (''X_NightOwl_getChannelAudioAlertSwitch'', CAP_MISC, handle_get_audio_alert_switch),
     (''X_NightOwl_setChannelAudioAlertSwitch'', CAP_MISC, handle_set_audio_alert_switch),
     (''X_NightOwl_getChannelAudioAlertDetectSwitch'', CAP_MISC, handle_get_audio_alert_detect_switch),
     (''X_NightOwl_setChannelAudioAlertDetectSwitch'', CAP_MISC, handle_set_audio_alert_detect_switch),
     (''X_NightOwl_getDoorbellDuration'', CAP_MISC, handle_get_doorbell_duration),
     (''X_NightOwl_setDoorbellDuration'', CAP_MISC, handle_set_doorbell_duration),
     (''X_NightOwl_getDoorbellSwitch'', CAP_MISC, handle_get_doorbell_switch),
     (''X_NightOwl_setDoorbellSwitch'', CAP_MISC, handle_set_doorbell_switch),
     (''X_NightOwl_getDoorbellType'', CAP_MISC, handle_get_doorbell_type),
     (''X_NightOwl_setDoorbellType'', CAP_MISC, handle_set_doorbell_type)]"

definition audio_alert_setting :: "json_codec \<Rightarrow> setting_decl" where
  "audio_alert_setting jc =
     \<lparr>sd_set = ''X_NightOwl_setChannelAudioAlert'', sd_get = ''X_NightOwl_getChannelAudioAlert'', sd_chan = db_chan, sd_need = \<lambda>_. True,
      sd_wr = \<lambda>rq. if arg_has rq ''soundVolume'' \<and> arg_has rq ''source''
                   then Some (snapshot_or jc (jc_print jc (alert_snapshot rq)) None add_default_audio_alert) else None,
      sd_dflt = \<lambda>_. add_default_audio_alert\<rparr>"

lemmas doorbell_handlers = handle_get_speaker_capabilities_def handle_get_audio_alert_def handle_set_audio_alert_def handle_get_audio_alert_switch_def
  handle_set_audio_alert_switch_def handle_get_audio_alert_detect_switch_def handle_set_audio_alert_detect_switch_def handle_get_doorbell_duration_def
  handle_set_doorbell_duration_def handle_get_doorbell_switch_def handle_set_doorbell_switch_def handle_get_doorbell_type_def
  handle_set_doorbell_type_def

lemmas doorbell_simps = cap_doorbell_register_def setting_simps doorbell_handlers Let_def ok_obj_def cap_answer_def cap_reply_def
  doorbell0_def nop_response_init_def snapshot_or_def or_default_def audio_alert_setting_def

interpretation doorbell_alert_switch: setting "cap_doorbell_register jc"
    "bool_setting ''X_NightOwl_setChannelAudioAlertSwitch'' ''X_NightOwl_getChannelAudioAlertSwitch'' db_chan ''value'' False False"
    "\<lambda>s k. JObj [(''value'', JBool (db_alert_switch s k))]" doorbell0 for jc
  by unfold_locales (simp_all add: doorbell_simps cong: conj_cong)

interpretation doorbell_alert_detect: setting "cap_doorbell_register jc"
    "bool_setting ''X_NightOwl_setChannelAudioAlertDetectSwitch'' ''X_NightOwl_getChannelAudioAlertDetectSwitch'' db_chan ''value'' False False"
    "\<lambda>s k. JObj [(''value'', JBool (db_alert_detect_switch s k))]" doorbell0 for jc
  by unfold_locales (simp_all add: doorbell_simps cong: conj_cong)

interpretation doorbell_duration: setting "cap_doorbell_register jc"
    "int_setting ''X_NightOwl_setDoorbellDuration'' ''X_NightOwl_getDoorbellDuration'' db_chan ''value'' 10 10"
    "\<lambda>s k. JObj [(''value'', JInt (if db_duration_set s k then db_duration_seconds s k else 10))]" doorbell0 for jc
  by unfold_locales (simp_all add: doorbell_simps cong: conj_cong)

interpretation doorbell_switch: setting "cap_doorbell_register jc"
    "bool_setting ''X_NightOwl_setDoorbellSwitch'' ''X_NightOwl_getDoorbellSwitch'' db_chan ''value'' True True"
    "\<lambda>s k. JObj [(''value'', JBool (if db_switch_set s k then db_switch s k else True))]" doorbell0 for jc
  by unfold_locales (simp_all add: doorbell_simps cong: conj_cong)

interpretation doorbell_type: setting "cap_doorbell_register jc"
    "str_setting ''X_NightOwl_setDoorbellType'' ''X_NightOwl_getDoorbellType'' db_chan 16 ''value'' ''mechanical''"
    "\<lambda>s k. JObj [(''value'', JStr (or_default (db_type s k) ''mechanical''))]" doorbell0 for jc
  by unfold_locales (simp_all add: doorbell_simps cong: conj_cong)

interpretation doorbell_alert: setting "cap_doorbell_register jc"
    "audio_alert_setting jc"
    "\<lambda>s k. snapshot_or jc (db_alert_json s k) None add_default_audio_alert" doorbell0 for jc
  by unfold_locales (simp_all add: doorbell_simps cong: conj_cong)

definition doorbell_settings :: "json_codec \<Rightarrow> setting_decl list" where
  "doorbell_settings jc =
    [bool_setting ''X_NightOwl_setChannelAudioAlertSwitch'' ''X_NightOwl_getChannelAudioAlertSwitch'' db_chan ''value'' False False,
     bool_setting ''X_NightOwl_setChannelAudioAlertDetectSwitch'' ''X_NightOwl_getChannelAudioAlertDetectSwitch'' db_chan ''value'' False False,
     int_setting ''X_NightOwl_setDoorbellDuration'' ''X_NightOwl_getDoorbellDuration'' db_chan ''value'' 10 10,
     bool_setting ''X_NightOwl_setDoorbellSwitch'' ''X_NightOwl_getDoorbellSwitch'' db_chan ''value'' True True,
     str_setting ''X_NightOwl_setDoorbellType'' ''X_NightOwl_getDoorbellType'' db_chan 16 ''value'' ''mechanical'',
     audio_alert_setting jc]"

lemma doorbell_settings_ok: "list_all (setting_ok (cap_doorbell_register jc) doorbell0) (doorbell_settings jc)"
  by (simp add: doorbell_settings_def doorbell_alert_switch.holds doorbell_alert_detect.holds doorbell_duration.holds doorbell_switch.holds
    doorbell_type.holds doorbell_alert.holds)

text \<open>The other setters of the family.\<close>

lemma doorbell_left_over: "left_over (cap_doorbell_register jc) (doorbell_settings jc) =
    []"
  by (simp add: left_over_def setters_of_def is_setter_def setting_simps doorbell_settings_def cap_doorbell_register_def audio_alert_setting_def)

end
