(* ===== verification/Cap_Gui_Account.thy ===== *)
theory Cap_Gui_Account
  imports Cap_Base
begin

text \<open>
  business/caps/cap_gui_account.c: the login session of the local user interface and the user commands, which check their arguments
  and answer fixed objects.
\<close>

record account =
  g_login_user_type :: string
  g_login_username :: string
  g_login_user_level :: string

definition account0 :: account where
  "account0 = \<lparr>g_login_user_type = ''local'', g_login_username = [], g_login_user_level = []\<rparr>"

definition handle_login :: "account nop_handler" where
  "handle_login rq rs s =
     (case (arg_str rq ''userType'', arg_str rq ''username'', arg_str rq ''password'') of
        (Some t, Some u, Some p) \<Rightarrow>
          ok_obj [(''result'', JStr ''OK''), (''userType'', JStr (field 16 t)), (''userLevel'', JStr ''Admin'')] rs
            (s\<lparr>g_login_user_type := field 16 t, g_login_username := field 64 u,
              g_login_user_level := ''Admin''\<rparr>)
      | _ \<Rightarrow> fails NOP_ERR_PARAM rs s)"

definition handle_login_page :: "account nop_handler" where
  "handle_login_page rq rs s =
     need (arg_has rq ''Area'' \<and> arg_has rq ''Action'') (ok_obj [(''result'', JStr ''OK'')] rs s) rs s"

definition handle_logout :: "account nop_handler" where
  "handle_logout rq rs s = ok_empty rs (s\<lparr>g_login_username := [], g_login_user_level := []\<rparr>)"

definition handle_get_login_status :: "account nop_handler" where
  "handle_get_login_status rq rs s =
     ok_obj [(''userType'', JStr (g_login_user_type s)), (''username'', JStr (g_login_username s)),
       (''userLevel'', JStr (g_login_user_level s))] rs s"

definition handle_create_user :: "account nop_handler" where
  "handle_create_user rq rs s =
     need (arg_str rq ''username'' \<noteq> None \<and> arg_str rq ''password'' \<noteq> None \<and> arg_str rq ''userType'' \<noteq> None \<and> arg_str rq ''userLevel'' \<noteq> None) (ok_obj [(''result'', JStr ''OK'')] rs s) rs s"

definition handle_delete_user :: "account nop_handler" where
  "handle_delete_user rq rs s =
     need (arg_str rq ''username'' \<noteq> None) (ok_obj [(''result'', JStr ''OK'')] rs s) rs s"

definition handle_set_user :: "account nop_handler" where
  "handle_set_user rq rs s =
     need (arg_str rq ''username'' \<noteq> None) (ok_obj [(''result'', JStr ''OK'')] rs s) rs s"

definition handle_get_users :: "account nop_handler" where
  "handle_get_users rq rs s =
     ok_obj [(''users'', JArr [JObj [(''username'', JStr ''Admin''), (''userType'', JStr ''local''),
       (''userLevel'', JStr ''Admin''), (''createTime'', JStr ''''), (''lastLogin'', JStr '''')]])] rs s"

definition handle_set_password :: "account nop_handler" where
  "handle_set_password rq rs s =
     need (arg_str rq ''userType'' \<noteq> None \<and> arg_str rq ''username'' \<noteq> None \<and> arg_str rq ''password'' \<noteq> None) (ok_obj [(''result'', JStr ''OK'')] rs s) rs s"

definition handle_forget_password :: "account nop_handler" where
  "handle_forget_password rq rs s =
     need (arg_str rq ''userType'' \<noteq> None \<and> arg_str rq ''username'' \<noteq> None) (ok_obj [(''result'',
       JStr ''OK'')] rs s) rs s"

definition handle_get_user_group_permissions :: "account nop_handler" where
  "handle_get_user_group_permissions rq rs s =
     ok_obj [(''groups'', JObj [
        (''Admin'', JObj [(''LiveView'', JObj []), (''Control'', JObj []), (''Setting'', JObj []),
          (''Account'', JObj [])]),
        (''Technician'', JObj [(''LiveView'', JObj []), (''Control'', JObj [])]),
        (''Viewer'', JObj [(''LiveView'', JObj [])])])] rs s"

definition cap_gui_account_register :: "account cap_regs" where
  "cap_gui_account_register =
    [(''GUI_login'', CAP_MISC, handle_login), (''GUI_LoginPage'', CAP_MISC, handle_login_page),
     (''GUI_logout'', CAP_MISC, handle_logout), (''GUI_getLoginStatus'', CAP_MISC, handle_get_login_status),
     (''GUI_createUser'', CAP_MISC, handle_create_user), (''GUI_deleteUser'', CAP_MISC, handle_delete_user),
     (''GUI_setUser'', CAP_MISC, handle_set_user), (''GUI_getUsers'', CAP_MISC, handle_get_users),
     (''GUI_setPassword'', CAP_MISC, handle_set_password), (''GUI_forgetPassword'', CAP_MISC, handle_forget_password),
     (''GUI_getUserGroupPermissions'', CAP_MISC, handle_get_user_group_permissions)]"

lemmas gui_account_handlers = handle_login_def handle_login_page_def handle_logout_def handle_get_login_status_def
  handle_create_user_def handle_delete_user_def handle_set_user_def handle_get_users_def
  handle_set_password_def handle_forget_password_def handle_get_user_group_permissions_def

end
