(* ===== verification/Cap_Gui_Lan.thy ===== *)
theory Cap_Gui_Lan
  imports Cap_Base
begin

text \<open>
  business/caps/cap_gui_lan.c: cameras on the local network, the channel mapping, media profiles, firmware and alarm status. The module
  keeps one array, the channel mapping.
\<close>

record gui_lan =
  g_channel_mapping :: "int list"

definition gui_lan0 :: gui_lan where
  "gui_lan0 = \<lparr>g_channel_mapping = [1..16]\<rparr>"

definition handle_get_added_lan_devices :: "gui_lan nop_handler" where
  "handle_get_added_lan_devices rq rs s = ok_obj [(''devices'', JArr [])] rs s"

definition handle_lan_search :: "gui_lan nop_handler" where
  "handle_lan_search rq rs s = need (arg_str rq ''protocol'' \<noteq> None) (ok_obj [(''devices'', JArr [])] rs s) rs s"

definition handle_get_lan_device :: "gui_lan nop_handler" where
  "handle_get_lan_device rq rs s =
     (case arg_str rq ''ip'' of
        None \<Rightarrow> fails NOP_ERR_PARAM rs s
      | Some ip \<Rightarrow>
          ok_obj ((if arg_has rq ''channel'' then [(''channel'', JNum (arg_num rq ''channel'' 0))] else []) @
            [(''protocol'', JStr ''onvif''), (''mac'', JStr ''''), (''ip'', JStr ip), (''port'', JInt 8089),
              (''serial'', JStr ''''),
             (''model'', JStr ''''), (''name'', JStr ''''), (''password'', JStr ''''), (''status'', JInt 0),
             (''enhancedSecurity'', JBool False)]) rs s)"

definition handle_set_lan_device :: "gui_lan nop_handler" where
  "handle_set_lan_device rq rs s =
     need (arg_str rq ''protocol'' \<noteq> None \<and> arg_str rq ''ip'' \<noteq> None \<and> arg_has rq ''port'' \<and> arg_has rq ''enhancedSecurity'') (ok_obj [(''result'', JStr ''OK'')] rs s) rs s"

definition handle_lan_add_device :: "gui_lan nop_handler" where
  "handle_lan_add_device rq rs s =
     need (arg_str rq ''protocol'' \<noteq> None \<and> arg_str rq ''ip'' \<noteq> None) (ok_obj [(''result'',
       JStr ''OK'')] rs s) rs s"

definition handle_lan_del_device :: "gui_lan nop_handler" where
  "handle_lan_del_device rq rs s = need (arg_has rq ''channel'') (ok_empty rs s) rs s"

definition handle_get_channel_mapping :: "gui_lan nop_handler" where
  "handle_get_channel_mapping rq rs s = ok_obj [(''ChannelMapping'', JArr (map JInt (g_channel_mapping s)))] rs s"

definition handle_set_channel_mapping :: "gui_lan nop_handler" where
  "handle_set_channel_mapping rq rs s =
     need (arg_arr rq ''ChannelMapping'') (ok_obj [(''result'', JStr ''OK'')] rs s) rs s"

definition handle_get_channel_media_profiles :: "onvif_map \<Rightarrow> gui_lan nop_handler" where
  "handle_get_channel_media_profiles om rq rs s =
     need (arg_has rq ''channel'')
       (mapped om (arg_int rq ''channel'' 0) rq rs s (ok_obj [(''profiles'', JArr []),
         (''error'', JStr '''')] rs s)) rs s"

definition handle_set_channel_media_profiles :: "onvif_map \<Rightarrow> gui_lan nop_handler" where
  "handle_set_channel_media_profiles om rq rs s =
     need (arg_has rq ''channel'')
       (mapped om (arg_int rq ''channel'' 0) rq rs s
         (need (arg_arr rq ''profiles'') (ok_obj [(''error'', JStr '''')] rs s) rs s)) rs s"

definition handle_check_server_firmware :: "gui_lan nop_handler" where
  "handle_check_server_firmware rq rs s =
     ok_obj [(''newFW'', JBool False), (''version'', JStr ''''), (''description'', JStr ''''),
       (''error'', JStr '''')] rs s"

definition handle_check_channel_server_firmware :: "gui_lan nop_handler" where
  "handle_check_channel_server_firmware rq rs s =
     need (arg_has rq ''channel'') (ok_obj [(''newFW'', JBool False), (''version'', JStr ''''),
       (''description'', JStr ''''), (''error'', JStr '''')] rs s) rs s"

definition handle_gui_upgrade_firmware :: "gui_lan nop_handler" where
  "handle_gui_upgrade_firmware rq rs s = need (arg_str rq ''FileName'' \<noteq> None) (ok_empty rs s) rs s"

definition handle_gui_upgrade_channel_firmware :: "onvif_map \<Rightarrow> gui_lan nop_handler" where
  "handle_gui_upgrade_channel_firmware om rq rs s =
     need (arg_str rq ''FileName'' \<noteq> None \<and> arg_has rq ''channel'')
       (mapped om (arg_int rq ''channel'' 0) rq rs s (ok_empty rs s)) rs s"

definition handle_get_alarm_status :: "gui_lan nop_handler" where
  "handle_get_alarm_status rq rs s =
     ok_obj [(''LossStatus'', JInt 0), (''BlindStatus'', JInt 0), (''MotionStatus'', JInt 0),
       (''FaceStatus'', JInt 0), (''HumanStatus'', JInt 0), (''CarStatus'', JInt 0), (''RecordStatus'', JInt 0),
       (''ChannelStatusNotify'', JInt 0)] rs s"

definition cap_gui_lan_register :: "onvif_map \<Rightarrow> gui_lan cap_regs" where
  "cap_gui_lan_register om =
    [(''GUI_GetAddedLanDevices'', CAP_MISC, handle_get_added_lan_devices),
     (''GUI_getLanDevice'', CAP_MISC, handle_get_lan_device), (''GUI_setLanDevice'', CAP_MISC, handle_set_lan_device),
     (''GUI_LanAddDevice'', CAP_MISC, handle_lan_add_device), (''GUI_LanDelDevice'', CAP_MISC, handle_lan_del_device),
     (''GUI_LanSearch'', CAP_MISC, handle_lan_search), (''GUI_getChannelMapping'', CAP_MISC, handle_get_channel_mapping),
     (''GUI_setChannelMapping'', CAP_MISC, handle_set_channel_mapping),
     (''GUI_getChannelMediaProfiles'', CAP_MISC, handle_get_channel_media_profiles om),
     (''GUI_setChannelMediaProfiles'', CAP_MISC, handle_set_channel_media_profiles om),
     (''GUI_checkChannelServerFirmware'', CAP_MISC, handle_check_channel_server_firmware),
     (''GUI_checkServerFirmware'', CAP_MISC, handle_check_server_firmware),
     (''GUI_upgradeChannelFirmware'', CAP_MISC, handle_gui_upgrade_channel_firmware om),
     (''GUI_upgradeFirmware'', CAP_MISC, handle_gui_upgrade_firmware),
     (''GUI_getAlarmStatus'', CAP_MISC, handle_get_alarm_status)]"

lemmas gui_lan_handlers = handle_get_added_lan_devices_def handle_lan_search_def handle_get_lan_device_def handle_set_lan_device_def
  handle_lan_add_device_def handle_lan_del_device_def handle_get_channel_mapping_def handle_set_channel_mapping_def
  handle_get_channel_media_profiles_def handle_set_channel_media_profiles_def handle_check_server_firmware_def handle_check_channel_server_firmware_def
  handle_gui_upgrade_firmware_def handle_gui_upgrade_channel_firmware_def handle_get_alarm_status_def

text \<open>The channel mapping is answered, but no command ever changes it: what GUI_setChannelMapping accepts is lost.\<close>

lemma channel_mapping_never_set: "g_channel_mapping (cap_run (cap_gui_lan_register om) cs s) = g_channel_mapping s"
proof -
  have "list_all (\<lambda>(f, cap, h). \<forall>rq rs s. snd (snd (h rq rs s)) = s) (cap_gui_lan_register om)"
    by (simp add: cap_gui_lan_register_def gui_lan_handlers split: option.split)
  then have "cap_exec (cap_gui_lan_register om) c s = s" for c and s :: gui_lan
    by (auto simp: cap_exec_def cap_reply_def list_all_iff split: option.split dest!: map_of_SomeD)
  then show ?thesis unfolding cap_run_def by (induction cs arbitrary: s) simp_all
qed

definition gui_lan_lost :: "setting_decl list" where
  "gui_lan_lost = [lost_setting ''GUI_setChannelMapping'' ''GUI_getChannelMapping'' (\<lambda>_. True)
     (JObj [(''ChannelMapping'', JArr (map JInt [1..16]))])]"

interpretation gui_lan_mapping: setting "cap_gui_lan_register om" "hd gui_lan_lost"
    "\<lambda>s k. JObj [(''ChannelMapping'', JArr (map JInt (g_channel_mapping s)))]" gui_lan0 for om
  by unfold_locales (simp_all add: cap_gui_lan_register_def gui_lan_handlers gui_lan_lost_def lost_setting_def gui_lan0_def cap_answer_def cap_reply_def
    ok_obj_def nop_response_init_def split: option.split)

lemma gui_lan_lost_ok: "list_all (setting_ok (cap_gui_lan_register om) gui_lan0) gui_lan_lost"
  using gui_lan_mapping.holds[of om] by (simp add: gui_lan_lost_def)

lemma gui_lan_left_over: "left_over (cap_gui_lan_register om) gui_lan_lost = [''GUI_setLanDevice'', ''GUI_setChannelMediaProfiles'']"
  by (simp add: left_over_def setters_of_def is_setter_def gui_lan_lost_def lost_setting_def cap_gui_lan_register_def)

end
