(* ===== verification/Cap_Push.thy ===== *)
theory Cap_Push
  imports Cap_Base
begin

text \<open>
  business/caps/cap_push.c: push notification settings. The arrays of 16 entries are indexed by the channel number less one, taken to the
  nearest of 0..15. The first use of a handler puts the defaults in place; the trigger list is kept as printed JSON.
\<close>

definition push_channel_index :: "int \<Rightarrow> int" where
  "push_channel_index ch = (let i = ch - 1; i = (if i < 0 then 0 else i) in if i \<ge> 16 then 15 else i)"

definition push_chan :: "nop_request \<Rightarrow> int" where
  "push_chan rq = push_channel_index (arg_int rq ''channel'' 1)"

record push =
  pu_cooldown_seconds :: "int \<Rightarrow> int"
  pu_photo_enabled :: "int \<Rightarrow> bool"
  pu_snooze_end_time :: "int \<Rightarrow> int"
  pu_dnd_enabled :: "int \<Rightarrow> bool"
  pu_dnd_start_time :: "int \<Rightarrow> string"
  pu_dnd_end_time :: "int \<Rightarrow> string"
  pu_notification_enabled :: "int \<Rightarrow> bool"
  pu_triggers :: "int \<Rightarrow> string option"
  pu_panic_enabled :: bool
  pu_initialized :: bool

definition push0 :: push where
  "push0 = \<lparr>pu_cooldown_seconds = \<lambda>_. 0, pu_photo_enabled = \<lambda>_. False, pu_snooze_end_time = \<lambda>_. 0, pu_dnd_enabled = \<lambda>_. False,
     pu_dnd_start_time = \<lambda>_. [], pu_dnd_end_time = \<lambda>_. [], pu_notification_enabled = \<lambda>_. False, pu_triggers = \<lambda>_. None,
     pu_panic_enabled = False, pu_initialized = False\<rparr>"

definition push_state_initialize :: "push \<Rightarrow> push" where
  "push_state_initialize s =
     (if pu_initialized s then s
      else \<lparr>pu_cooldown_seconds = \<lambda>_. 20, pu_photo_enabled = \<lambda>_. True, pu_snooze_end_time = \<lambda>_. 0, pu_dnd_enabled = \<lambda>_. True,
             pu_dnd_start_time = \<lambda>_. ''2100'', pu_dnd_end_time = \<lambda>_. ''0700'', pu_notification_enabled = \<lambda>_. True,
             pu_triggers = \<lambda>_. None, pu_panic_enabled = False, pu_initialized = True\<rparr>)"

definition push_channels :: "(int \<Rightarrow> (string \<times> json) list) \<Rightarrow> json" where
  "push_channels entry = JArr (map (\<lambda>c. JObj (entry c)) [0..15])"

definition handle_get_cooldown_time :: "push nop_handler" where
  "handle_get_cooldown_time rq rs s =
     (let s = push_state_initialize s in need (arg_has rq ''channel'') (ok_obj [(''value'',
       JInt (pu_cooldown_seconds s (push_chan rq)))] rs s) rs s)"

definition handle_set_cooldown_time :: "push nop_handler" where
  "handle_set_cooldown_time rq rs s =
     (let s = push_state_initialize s
       in need (arg_has rq ''channel'' \<and> arg_has rq ''value'') (ok_empty rs (s\<lparr>pu_cooldown_seconds := (pu_cooldown_seconds s)(push_chan rq := arg_int rq ''value'' 20)\<rparr>)) rs s)"

definition handle_get_push_photo_switch :: "push nop_handler" where
  "handle_get_push_photo_switch rq rs s =
     (let s = push_state_initialize s in need (arg_has rq ''channels'') (ok_obj [(''channels'',
       push_channels (\<lambda>c. [(''enable'', JBool (pu_photo_enabled s c)),
       (''channel'', JInt (c + 1))]))] rs s) rs s)"

definition handle_set_push_photo_switch :: "push nop_handler" where
  "handle_set_push_photo_switch rq rs s =
     (let s = push_state_initialize s in need (arg_has rq ''channels'') (ok_empty rs s) rs s)"

definition handle_get_snooze :: "push nop_handler" where
  "handle_get_snooze rq rs s =
     (let s = push_state_initialize s in need (arg_has rq ''channels'') (ok_obj [(''channels'',
       push_channels (\<lambda>c. [(''endTime'', JInt (pu_snooze_end_time s c)),
       (''channel'', JInt (c + 1))]))] rs s) rs s)"

definition handle_set_snooze :: "push nop_handler" where
  "handle_set_snooze rq rs s = (let s = push_state_initialize s in need (arg_has rq ''channels'') (ok_empty rs s) rs s)"

definition handle_get_do_not_disturb :: "push nop_handler" where
  "handle_get_do_not_disturb rq rs s =
     (let s = push_state_initialize s in need (arg_has rq ''channel'') (ok_obj [(''isEnabled'',
       JBool (pu_dnd_enabled s (push_chan rq))), (''startTime'', JStr (pu_dnd_start_time s (push_chan rq))),
       (''endTime'', JStr (pu_dnd_end_time s (push_chan rq))), (''timeUnit'', JStr ''hour'')] rs s) rs s)"

definition handle_set_do_not_disturb :: "push nop_handler" where
  "handle_set_do_not_disturb rq rs s =
     (let s = push_state_initialize s; ch = push_chan rq
      in need (arg_has rq ''channel'' \<and> arg_has rq ''enable'')
           (let s = s\<lparr>pu_dnd_enabled := (pu_dnd_enabled s)(ch := arg_bool rq ''enable'' True)\<rparr>;
                s = (case arg_str rq ''startTime'' of
                       None \<Rightarrow> s | Some v \<Rightarrow> s\<lparr>pu_dnd_start_time := (pu_dnd_start_time s)(ch := field 8 v)\<rparr>);
                s = (case arg_str rq ''endTime'' of
                       None \<Rightarrow> s | Some v \<Rightarrow> s\<lparr>pu_dnd_end_time := (pu_dnd_end_time s)(ch := field 8 v)\<rparr>)
            in ok_empty rs s) rs s)"

definition handle_get_channel_push_switch :: "push nop_handler" where
  "handle_get_channel_push_switch rq rs s =
     (let s = push_state_initialize s in need (arg_has rq ''channel'') (ok_obj [(''value'',
       JBool (pu_notification_enabled s (push_chan rq)))] rs s) rs s)"

definition handle_set_channel_push_switch :: "push nop_handler" where
  "handle_set_channel_push_switch rq rs s =
     (let s = push_state_initialize s
       in need (arg_has rq ''channel'' \<and> arg_has rq ''value'') (ok_empty rs (s\<lparr>pu_notification_enabled := (pu_notification_enabled s)(push_chan rq := arg_bool rq ''value'' True)\<rparr>)) rs s)"

definition triggers_of :: "json_codec \<Rightarrow> nop_device_config option \<Rightarrow> string option \<Rightarrow> json" where
  "triggers_of jc cf text =
     (case text of None \<Rightarrow> JArr (cap_emit_detection_type_names cf)
      | Some t \<Rightarrow> (case jc_parse jc t of None \<Rightarrow> JArr [] | Some j \<Rightarrow> j))"

definition handle_get_channel_triggers :: "json_codec \<Rightarrow> nop_device_config option \<Rightarrow> push nop_handler" where
  "handle_get_channel_triggers jc cf rq rs s =
     (let s = push_state_initialize s in need (arg_has rq ''channel'') (ok_obj [(''triggers'',
       triggers_of jc cf (pu_triggers s (push_chan rq)))] rs s) rs s)"

definition handle_set_channel_triggers :: "json_codec \<Rightarrow> push nop_handler" where
  "handle_set_channel_triggers jc rq rs s =
     (let s = push_state_initialize s
       in need (arg_has rq ''channel'' \<and> arg_has rq ''triggers'') (ok_empty rs (s\<lparr>pu_triggers := (pu_triggers s)(push_chan rq := Option.bind (arg_get rq ''triggers'') (jc_print jc))\<rparr>)) rs s)"

definition handle_get_channels_push_switch :: "push nop_handler" where
  "handle_get_channels_push_switch rq rs s =
     (let s = push_state_initialize s in ok_obj [(''channels'', push_channels (\<lambda>c. [(''channel'',
       JInt (c + 1)), (''value'', JBool (pu_notification_enabled s c))]))] rs s)"

definition handle_set_channels_push_switch :: "push nop_handler" where
  "handle_set_channels_push_switch rq rs s =
     (let s = push_state_initialize s in need (rq_args rq \<noteq> None) (ok_empty rs s) rs s)"

definition handle_get_panic_switch :: "push nop_handler" where
  "handle_get_panic_switch rq rs s =
     (let s = push_state_initialize s in ok_obj [(''value'', JBool (pu_panic_enabled s))] rs s)"

definition handle_set_panic_switch :: "push nop_handler" where
  "handle_set_panic_switch rq rs s =
     (let s = push_state_initialize s
       in need (arg_has rq ''value'') (ok_empty rs (s\<lparr>pu_panic_enabled := arg_bool rq ''value'' False\<rparr>)) rs s)"

definition handle_notify_app_setup_status :: "push nop_handler" where
  "handle_notify_app_setup_status rq rs s = need (arg_has rq ''status'') (ok_empty rs s) rs s"

definition handle_notify_login_success :: "push nop_handler" where
  "handle_notify_login_success rq rs s = ok_empty rs s"

definition handle_notify_session_count :: "push nop_handler" where
  "handle_notify_session_count rq rs s = need (arg_has rq ''value'') (ok_empty rs s) rs s"

definition cap_push_register :: "json_codec \<Rightarrow> nop_device_config option \<Rightarrow> push cap_regs" where
  "cap_push_register jc cf =
    [(''getCooldownTime'', CAP_PUSH, handle_get_cooldown_time), (''setCooldownTime'', CAP_PUSH, handle_set_cooldown_time),
     (''getPushPhotoSwitch'', CAP_PUSH, handle_get_push_photo_switch),
     (''setPushPhotoSwitch'', CAP_PUSH, handle_set_push_photo_switch), (''getSnooze'', CAP_PUSH, handle_get_snooze),
     (''setSnooze'', CAP_PUSH, handle_set_snooze),
     (''X_NightOwl_getChannelPushNotificationDoNotDisturb'', CAP_PUSH, handle_get_do_not_disturb),
     (''X_NightOwl_setChannelPushNotificationDoNotDisturb'', CAP_PUSH, handle_set_do_not_disturb),
     (''X_NightOwl_getChannelPushNotificationSwitch'', CAP_PUSH, handle_get_channel_push_switch),
     (''X_NightOwl_setChannelPushNotificationSwitch'', CAP_PUSH, handle_set_channel_push_switch),
     (''X_NightOwl_getChannelPushNotificationTriggers'', CAP_PUSH, handle_get_channel_triggers jc cf),
     (''X_NightOwl_setChannelPushNotificationTriggers'', CAP_PUSH, handle_set_channel_triggers jc),
     (''X_NightOwl_getChannelsPushNotificationSwitch'', CAP_PUSH, handle_get_channels_push_switch),
     (''X_NightOwl_setChannelsPushNotificationSwitch'', CAP_PUSH, handle_set_channels_push_switch),
     (''X_NightOwl_getPanicSwitch'', CAP_PUSH, handle_get_panic_switch),
     (''X_NightOwl_setPanicSwitch'', CAP_PUSH, handle_set_panic_switch),
     (''notify_APPSetupStatus'', CAP_PUSH, handle_notify_app_setup_status),
     (''notifyLoginSuccess'', CAP_PUSH, handle_notify_login_success),
     (''notifySessionCount'', CAP_PUSH, handle_notify_session_count)]"

text \<open>A setting of the module as its getter sees it, before and after the defaults are in place.\<close>

definition triggers_setting :: "json_codec \<Rightarrow> nop_device_config option \<Rightarrow> setting_decl" where
  "triggers_setting jc cf =
     \<lparr>sd_set = ''X_NightOwl_setChannelPushNotificationTriggers'', sd_get = ''X_NightOwl_getChannelPushNotificationTriggers'', sd_chan = push_chan,
      sd_need = \<lambda>rq. arg_has rq ''channel'',
      sd_wr = \<lambda>rq. if arg_has rq ''channel'' \<and> arg_has rq ''triggers''
                   then Some (JObj [(''triggers'', triggers_of jc cf (Option.bind (arg_get rq ''triggers'') (jc_print jc)))]) else None,
      sd_dflt = \<lambda>_. JObj [(''triggers'', triggers_of jc cf None)]\<rparr>"

lemmas push_handlers = handle_get_cooldown_time_def handle_set_cooldown_time_def handle_get_push_photo_switch_def handle_set_push_photo_switch_def
  handle_get_snooze_def handle_set_snooze_def handle_get_do_not_disturb_def handle_set_do_not_disturb_def
  handle_get_channel_push_switch_def handle_set_channel_push_switch_def handle_get_channel_triggers_def handle_set_channel_triggers_def
  handle_get_channels_push_switch_def handle_set_channels_push_switch_def handle_get_panic_switch_def handle_set_panic_switch_def
  handle_notify_app_setup_status_def handle_notify_login_success_def handle_notify_session_count_def

lemmas push_simps = cap_push_register_def setting_simps push_handlers Let_def ok_obj_def cap_answer_def cap_reply_def
  push0_def nop_response_init_def snapshot_or_def or_default_def triggers_setting_def push_state_initialize_def fails_def need_def

interpretation push_cooldown: setting "cap_push_register jc cf"
    "needing (\<lambda>rq. arg_has rq ''channel'') (int_setting ''setCooldownTime'' ''getCooldownTime'' push_chan ''value'' 20 20)"
    "\<lambda>s k. JObj [(''value'', JInt (pu_cooldown_seconds (push_state_initialize s) k))]" push0 for jc cf
  by unfold_locales (simp_all add: push_simps cong: conj_cong split: option.split)

interpretation push_switch: setting "cap_push_register jc cf"
    "needing (\<lambda>rq. arg_has rq ''channel'') (bool_setting ''X_NightOwl_setChannelPushNotificationSwitch'' ''X_NightOwl_getChannelPushNotificationSwitch'' push_chan ''value'' True True)"
    "\<lambda>s k. JObj [(''value'', JBool (pu_notification_enabled (push_state_initialize s) k))]" push0 for jc cf
  by unfold_locales (simp_all add: push_simps cong: conj_cong split: option.split)

interpretation push_panic: setting "cap_push_register jc cf"
    "bool_setting ''X_NightOwl_setPanicSwitch'' ''X_NightOwl_getPanicSwitch'' (\<lambda>_. 0) ''value'' False False"
    "\<lambda>s k. JObj [(''value'', JBool (k = 0 \<and> pu_panic_enabled (push_state_initialize s)))]" push0 for jc cf
  by unfold_locales (simp_all add: push_simps cong: conj_cong split: option.split)

interpretation push_triggers: setting "cap_push_register jc cf"
    "triggers_setting jc cf"
    "\<lambda>s k. JObj [(''triggers'', triggers_of jc cf (pu_triggers (push_state_initialize s) k))]" push0 for jc cf
  by unfold_locales (simp_all add: push_simps cong: conj_cong split: option.split)

definition push_lost :: "setting_decl list" where
  "push_lost =
    [lost_setting ''setPushPhotoSwitch'' ''getPushPhotoSwitch'' (\<lambda>rq. arg_has rq ''channels'')
       (JObj [(''channels'', push_channels (\<lambda>c. [(''enable'', JBool True), (''channel'', JInt (c + 1))]))]),
     lost_setting ''setSnooze'' ''getSnooze'' (\<lambda>rq. arg_has rq ''channels'')
       (JObj [(''channels'', push_channels (\<lambda>c. [(''endTime'', JInt 0), (''channel'', JInt (c + 1))]))])]"

interpretation push_photo: setting "cap_push_register jc cf" "push_lost ! 0"
    "\<lambda>s k. JObj [(''channels'', push_channels (\<lambda>c. [(''enable'', JBool (pu_photo_enabled (push_state_initialize s) c)), (''channel'', JInt (c + 1))]))]"
    push0 for jc cf
  by unfold_locales (simp_all add: push_simps push_lost_def cong: conj_cong split: option.split)

interpretation push_snooze: setting "cap_push_register jc cf" "push_lost ! 1"
    "\<lambda>s k. JObj [(''channels'', push_channels (\<lambda>c. [(''endTime'', JInt (pu_snooze_end_time (push_state_initialize s) c)), (''channel'', JInt (c + 1))]))]"
    push0 for jc cf
  by unfold_locales (simp_all add: push_simps push_lost_def cong: conj_cong split: option.split)

definition push_settings :: "json_codec \<Rightarrow> nop_device_config option \<Rightarrow> setting_decl list" where
  "push_settings jc cf =
    [needing (\<lambda>rq. arg_has rq ''channel'') (int_setting ''setCooldownTime'' ''getCooldownTime'' push_chan ''value'' 20 20),
     needing (\<lambda>rq. arg_has rq ''channel'') (bool_setting ''X_NightOwl_setChannelPushNotificationSwitch'' ''X_NightOwl_getChannelPushNotificationSwitch'' push_chan ''value'' True True),
     bool_setting ''X_NightOwl_setPanicSwitch'' ''X_NightOwl_getPanicSwitch'' (\<lambda>_. 0) ''value'' False False,
     triggers_setting jc cf]"

lemma push_settings_ok: "list_all (setting_ok (cap_push_register jc cf) push0) (push_settings jc cf)"
  by (simp add: push_settings_def push_cooldown.holds push_switch.holds push_panic.holds push_triggers.holds)

lemma push_lost_ok: "list_all (setting_ok (cap_push_register jc cf) push0) push_lost"
  using push_photo.holds[of jc cf] push_snooze.holds[of jc cf] by (simp add: push_lost_def)

lemma push_left_over: "left_over (cap_push_register jc cf) (push_settings jc cf @ push_lost) =
    [''X_NightOwl_setChannelPushNotificationDoNotDisturb'', ''X_NightOwl_setChannelsPushNotificationSwitch'']"
  by (simp add: left_over_def setters_of_def is_setter_def push_settings_def push_lost_def setting_simps triggers_setting_def cap_push_register_def)

end
