(* ===== verification/Cap_Gui_Network.thy ===== *)
theory Cap_Gui_Network
  imports Cap_Base
begin

text \<open>
  business/caps/cap_gui_network.c: DDNS, NTP, FTP, PoE, UPnP, ports, mail alerts, the local link and remote access. The static
  variables of a group are a record of their own. A setter keeps every value its object does not give.
\<close>

record ntp_info =
  ntp_enable :: bool
  ntp_update_period :: int
  ntp_port :: int
  ntp_server_name :: string

record ftp_info =
  ftp_enable :: bool
  ftp_anonymous :: bool
  ftp_max_file_len :: int
  ftp_password :: string
  ftp_port :: int
  ftp_remote_dir :: string
  ftp_server :: string
  ftp_user_name :: string

record net_ports =
  np_http :: int
  np_https :: int
  np_tcp :: int
  np_rtsp :: int

record email_alert =
  em_enable :: bool
  em_receivers :: "string list"
  em_sender :: string
  em_smtp_port :: int
  em_smtp_server :: string
  em_user_name :: string
  em_password :: string
  em_use_ssl :: bool
  em_title :: string
  em_interval :: int

record local_link =
  ll_network_type :: string
  ll_mac_addr :: string
  ll_ip_addr :: string
  ll_subnet_mask :: string
  ll_gateway :: string
  ll_dns1 :: string
  ll_dns2 :: string

record gui_network =
  gn_ddns_json :: "string option"
  gn_ntp :: ntp_info
  gn_ftp :: ftp_info
  gn_poe_enable :: "int \<Rightarrow> bool"
  gn_poe_power_used :: "int \<Rightarrow> int"
  gn_upnp_enable :: bool
  gn_ports :: net_ports
  gn_email :: email_alert
  gn_link :: local_link
  gn_remote_enabled :: bool
  gn_remote_bound_aws :: bool

definition gui_network0 :: gui_network where
  "gui_network0 =
     \<lparr>gn_ddns_json = None,
      gn_ntp = \<lparr>ntp_enable = True, ntp_update_period = 100, ntp_port = 123, ntp_server_name = ''pool.ntp.org''\<rparr>,
      gn_ftp = \<lparr>ftp_enable = False, ftp_anonymous = False, ftp_max_file_len = 100, ftp_password = [], ftp_port = 21,
         ftp_remote_dir = [], ftp_server = [], ftp_user_name = []\<rparr>,
      gn_poe_enable = \<lambda>_. False, gn_poe_power_used = \<lambda>_. 0, gn_upnp_enable = True,
      gn_ports = \<lparr>np_http = 80, np_https = 443, np_tcp = 9000, np_rtsp = 554\<rparr>,
      gn_email = \<lparr>em_enable = False, em_receivers = replicate 5 ''none'', em_sender = [], em_smtp_port = 465,
         em_smtp_server = ''smtp.gmail.com'', em_user_name = [], em_password = [], em_use_ssl = True, em_title = [], em_interval = 600\<rparr>,
      gn_link = \<lparr>ll_network_type = ''Static'', ll_mac_addr = ''00:60:B7:01:02:09'', ll_ip_addr = ''192.168.0.222'',
         ll_subnet_mask = ''255.255.255.0'', ll_gateway = ''192.168.0.1'', ll_dns1 = ''202.96.128.86'', ll_dns2 = ''202.96.134.133''\<rparr>,
      gn_remote_enabled = False, gn_remote_bound_aws = False\<rparr>"

text \<open>Reading a member of an object with the current value as the default; a string is cut to its field.\<close>

definition get_bool :: "json \<Rightarrow> string \<Rightarrow> bool \<Rightarrow> bool" where
  "get_bool j k d = nop_json_bool (Some j) k d"

definition get_int :: "json \<Rightarrow> string \<Rightarrow> int \<Rightarrow> int" where
  "get_int j k d = c_int (nop_json_num (Some j) k (of_int d))"

definition store_str :: "nat \<Rightarrow> json \<Rightarrow> string \<Rightarrow> string \<Rightarrow> string" where
  "store_str n j k old = (case nop_json_str (Some j) k None of None \<Rightarrow> old | Some v \<Rightarrow> field n v)"

definition ddns_append_default :: "string \<Rightarrow> string \<Rightarrow> bool \<Rightarrow> json" where
  "ddns_append_default host key enable =
     JObj [(''Domain'', JStr ''''), (''Enable'', JBool enable), (''Password'', JStr ''''), (''HostName'', JStr host),
           (''DDNSKey'', JStr key), (''UserName'', JStr '''')]"

definition ddns_default :: json where
  "ddns_default = JObj [(''DDNSInfo'', JArr [ddns_append_default ''your.gicp.net'' ''Orey'' False,
     ddns_append_default ''your.dyndns.org'' ''DynDNS'' True, ddns_append_default ''your.dyndns.org'' ''CN99'' False,
     ddns_append_default ''your.dyndns.org'' ''MYO-SEE'' False, ddns_append_default ''your.dyndns.org'' ''NO-IP'' False])]"

definition handle_get_ddns :: "json_codec \<Rightarrow> gui_network nop_handler" where
  "handle_get_ddns jc rq rs s =
     (NOP_OK, rs\<lparr>rs_content := Some (snapshot_or jc (gn_ddns_json s) None ddns_default)\<rparr>, s)"

definition handle_set_ddns :: "json_codec \<Rightarrow> gui_network nop_handler" where
  "handle_set_ddns jc rq rs s =
     need (arg_arr rq ''DDNSOpt'')
       (case Option.bind (arg_get rq ''DDNSOpt'') (\<lambda>v. Option.bind (jc_print jc v) (jc_parse jc)) of
          None \<Rightarrow> fails NOP_ERR_PARAM rs s
        | Some l \<Rightarrow>
            (case jc_print jc (JObj [(''DDNSInfo'', l)]) of
               None \<Rightarrow> fails NOP_ERR_PARAM rs s
             | Some t \<Rightarrow> ok_empty rs (s\<lparr>gn_ddns_json := Some t\<rparr>))) rs s"

definition ntp_json :: "ntp_info \<Rightarrow> json" where
  "ntp_json i = JObj [(''Enable'', JBool (ntp_enable i)), (''UpdatePeriod'', JInt (ntp_update_period i)), (''Port'', JInt (ntp_port i)),
     (''ServerName'', JStr (ntp_server_name i)),
     (''ServerOption'', JObj [(''Option1'', JStr ''pool.ntp.org''), (''Option2'', JStr ''time.windows.com''), (''Option3'', JStr '''')])]"

definition ntp_update :: "json \<Rightarrow> ntp_info \<Rightarrow> ntp_info" where
  "ntp_update j i = \<lparr>ntp_enable = get_bool j ''Enable'' (ntp_enable i), ntp_update_period = get_int j ''UpdatePeriod'' (ntp_update_period i),
     ntp_port = get_int j ''Port'' (ntp_port i), ntp_server_name = store_str 128 j ''ServerName'' (ntp_server_name i)\<rparr>"

definition handle_get_ntp :: "gui_network nop_handler" where
  "handle_get_ntp rq rs s = ok_obj [(''NTPInfo'', ntp_json (gn_ntp s))] rs s"

definition handle_set_ntp :: "gui_network nop_handler" where
  "handle_set_ntp rq rs s =
     (case arg_get rq ''NTPInfo'' of None \<Rightarrow> fails NOP_ERR_PARAM rs s
      | Some j \<Rightarrow> ok_empty rs (s\<lparr>gn_ntp := ntp_update j (gn_ntp s)\<rparr>))"

definition ftp_json :: "ftp_info \<Rightarrow> json" where
  "ftp_json i = JObj [(''Enable'', JBool (ftp_enable i)), (''Anonymous'', JBool (ftp_anonymous i)), (''MaxFileLen'', JInt (ftp_max_file_len i)),
     (''Password'', JStr (ftp_password i)), (''Port'', JInt (ftp_port i)), (''RemoteDir'', JStr (ftp_remote_dir i)),
     (''Server'', JStr (ftp_server i)), (''UserName'', JStr (ftp_user_name i))]"

definition ftp_update :: "json \<Rightarrow> ftp_info \<Rightarrow> ftp_info" where
  "ftp_update j i = \<lparr>ftp_enable = get_bool j ''Enable'' (ftp_enable i), ftp_anonymous = get_bool j ''Anonymous'' (ftp_anonymous i),
     ftp_max_file_len = get_int j ''MaxFileLen'' (ftp_max_file_len i), ftp_password = store_str 128 j ''Password'' (ftp_password i),
     ftp_port = get_int j ''Port'' (ftp_port i), ftp_remote_dir = store_str 256 j ''RemoteDir'' (ftp_remote_dir i),
     ftp_server = store_str 128 j ''Server'' (ftp_server i), ftp_user_name = store_str 128 j ''UserName'' (ftp_user_name i)\<rparr>"

definition handle_get_ftp :: "gui_network nop_handler" where
  "handle_get_ftp rq rs s = ok_obj [(''FtpInfo'', ftp_json (gn_ftp s))] rs s"

definition handle_set_ftp :: "gui_network nop_handler" where
  "handle_set_ftp rq rs s =
     (case arg_get rq ''FtpInfo'' of None \<Rightarrow> fails NOP_ERR_PARAM rs s
      | Some j \<Rightarrow> ok_empty rs (s\<lparr>gn_ftp := ftp_update j (gn_ftp s)\<rparr>))"

definition handle_get_poe :: "gui_network nop_handler" where
  "handle_get_poe rq rs s =
     need (arg_has rq ''channel'')
       (let ch = arg_int rq ''channel'' 0
        in if ch \<ge> 1 \<and> ch \<le> 16
           then ok_obj [(''Enable'', JBool (gn_poe_enable s (ch - 1))),
             (''PowerUsed'', JInt (gn_poe_power_used s (ch - 1)))] rs s
           else ok_obj [(''Enable'', JBool False), (''PowerUsed'', JInt 0)] rs s) rs s"

definition handle_set_poe :: "gui_network nop_handler" where
  "handle_set_poe rq rs s =
     need (arg_has rq ''channel'' \<and> arg_has rq ''Enable'')
       (let ch = arg_int rq ''channel'' 0
        in if ch < 1 \<or> ch > 16 then fails NOP_ERR_PARAM rs s
           else let e = arg_bool rq ''Enable'' False
                in ok_empty rs (s\<lparr>gn_poe_enable := (gn_poe_enable s)(ch - 1 := e),
                     gn_poe_power_used := (gn_poe_power_used s)(ch - 1 := if e then 5 else 0)\<rparr>)) rs s"

definition handle_get_upnp :: "gui_network nop_handler" where
  "handle_get_upnp rq rs s =
     ok_obj [(''UPnPInfo'', JObj [(''Enable'', JBool (gn_upnp_enable s)), (''HTTPPort'', JInt 81),
       (''TCPPort'', JInt 9008)])] rs s"

definition handle_set_upnp :: "gui_network nop_handler" where
  "handle_set_upnp rq rs s =
     (case arg_get rq ''UPnPEnable'' of
        None \<Rightarrow> fails NOP_ERR_PARAM rs s
      | Some j \<Rightarrow> need (nop_json_has (Some j) ''Enable'') (ok_empty rs (s\<lparr>gn_upnp_enable := get_bool j ''Enable'' (gn_upnp_enable s)\<rparr>)) rs s)"

definition ports_json :: "net_ports \<Rightarrow> json" where
  "ports_json p = JObj [(''HttpPort'', JInt (np_http p)), (''HttpsPort'', JInt (np_https p)), (''TCPPort'', JInt (np_tcp p)),
     (''RtspPort'', JInt (np_rtsp p))]"

definition ports_update :: "json \<Rightarrow> net_ports \<Rightarrow> net_ports" where
  "ports_update j p = \<lparr>np_http = get_int j ''HttpPort'' (np_http p), np_https = get_int j ''HttpsPort'' (np_https p),
     np_tcp = get_int j ''TCPPort'' (np_tcp p), np_rtsp = get_int j ''RtspPort'' (np_rtsp p)\<rparr>"

definition handle_get_net_port :: "gui_network nop_handler" where
  "handle_get_net_port rq rs s = ok_obj [(''NetPortInfo'', ports_json (gn_ports s))] rs s"

definition handle_set_net_port :: "gui_network nop_handler" where
  "handle_set_net_port rq rs s =
     (case arg_get rq ''NetPortInfo'' of None \<Rightarrow> fails NOP_ERR_PARAM rs s
      | Some j \<Rightarrow> ok_empty rs (s\<lparr>gn_ports := ports_update j (gn_ports s)\<rparr>))"

text \<open>The five receivers are the variables g_email_receiver1 to g_email_receiver5.\<close>

definition receiver_keys :: "string list" where
  "receiver_keys = [''Receiver1'', ''Receiver2'', ''Receiver3'', ''Receiver4'', ''Receiver5'']"

definition email_json :: "email_alert \<Rightarrow> json" where
  "email_json e = JObj ([(''Enable'', JBool (em_enable e))] @ map2 (\<lambda>k v. (k, JStr v)) receiver_keys (em_receivers e) @
     [(''Sender'', JStr (em_sender e)), (''SMTPPort'', JInt (em_smtp_port e)), (''SMPTServer'', JStr (em_smtp_server e)),
      (''SMPTServerOpt'', JObj [(''SMPTServer1'', JStr ''smtp.gmail.com''), (''SMPTServer2'', JStr ''smtp.mail.yahoo.com''),
        (''SMPTServer3'', JStr ''smtp.live.com''), (''SMPTServer4'', JStr ''smtp.163.com''), (''SMPTServer5'', JStr ''smtp.126.com''),
        (''SMPTServer6'', JStr ''smtp.qq.com''), (''SMPTServer7'', JStr ''smtp.foxmail.com'')]),
      (''UserName'', JStr (em_user_name e)), (''Password'', JStr (em_password e)), (''UseSSL'', JBool (em_use_ssl e)),
      (''Title'', JStr (em_title e)), (''Interval'', JInt (em_interval e))])"

definition email_update :: "json \<Rightarrow> email_alert \<Rightarrow> email_alert" where
  "email_update j e = \<lparr>em_enable = get_bool j ''Enable'' (em_enable e),
     em_receivers = map2 (\<lambda>k v. store_str 256 j k v) receiver_keys (em_receivers e),
     em_sender = store_str 256 j ''Sender'' (em_sender e), em_smtp_port = get_int j ''SMTPPort'' (em_smtp_port e),
     em_smtp_server = store_str 256 j ''SMPTServer'' (em_smtp_server e), em_user_name = store_str 256 j ''UserName'' (em_user_name e),
     em_password = store_str 256 j ''Password'' (em_password e), em_use_ssl = get_bool j ''UseSSL'' (em_use_ssl e),
     em_title = store_str 256 j ''Title'' (em_title e), em_interval = get_int j ''Interval'' (em_interval e)\<rparr>"

definition handle_get_email_alert :: "gui_network nop_handler" where
  "handle_get_email_alert rq rs s = ok_obj [(''EmailAlertOpt'', email_json (gn_email s))] rs s"

definition handle_set_email_alert :: "gui_network nop_handler" where
  "handle_set_email_alert rq rs s =
     (case arg_get rq ''EmailAlertOpt'' of None \<Rightarrow> fails NOP_ERR_PARAM rs s
      | Some j \<Rightarrow> ok_empty rs (s\<lparr>gn_email := email_update j (gn_email s)\<rparr>))"

definition handle_test_email_alert :: "gui_network nop_handler" where
  "handle_test_email_alert rq rs s = need (arg_has rq ''testEmailAlert'') (ok_obj [(''rspCode'', JInt 200)] rs s) rs s"

definition handle_get_lan_interface :: "gui_network nop_handler" where
  "handle_get_lan_interface rq rs s =
     ok_obj [(''totalPhysicalBandwidth'', JInt 100), (''maxRxBandwidth'', JInt 100),
       (''allocatedRxBandwidth'', JInt 0)] rs s"

definition link_json :: "local_link \<Rightarrow> json" where
  "link_json l = JObj [(''networkType'', JStr (ll_network_type l)), (''macAddr'', JStr (ll_mac_addr l)), (''ipAddr'', JStr (ll_ip_addr l)),
     (''subnetMask'', JStr (ll_subnet_mask l)), (''gateway'', JStr (ll_gateway l)), (''DNS1'', JStr (ll_dns1 l)), (''DNS2'', JStr (ll_dns2 l))]"

definition link_update :: "json \<Rightarrow> local_link \<Rightarrow> local_link" where
  "link_update j l = \<lparr>ll_network_type = store_str 16 j ''networkType'' (ll_network_type l), ll_mac_addr = ll_mac_addr l,
     ll_ip_addr = store_str 64 j ''ipAddr'' (ll_ip_addr l), ll_subnet_mask = store_str 64 j ''subnetMask'' (ll_subnet_mask l),
     ll_gateway = store_str 64 j ''gateway'' (ll_gateway l), ll_dns1 = store_str 64 j ''DNS1'' (ll_dns1 l),
     ll_dns2 = store_str 64 j ''DNS2'' (ll_dns2 l)\<rparr>"

definition handle_get_local_link :: "gui_network nop_handler" where
  "handle_get_local_link rq rs s = ok_obj [(''LocalLink'', link_json (gn_link s))] rs s"

definition handle_set_local_link :: "gui_network nop_handler" where
  "handle_set_local_link rq rs s =
     (case arg_get rq ''LocalLink'' of None \<Rightarrow> fails NOP_ERR_PARAM rs s
      | Some j \<Rightarrow> ok_empty rs (s\<lparr>gn_link := link_update j (gn_link s)\<rparr>))"

definition NOP_RESULT_ALREADY_BOUND :: string where "NOP_RESULT_ALREADY_BOUND = ''AlreadyBound''"

definition handle_get_remote_access_state :: "gui_network nop_handler" where
  "handle_get_remote_access_state rq rs s =
     ok_obj [(''enabled'', JBool (gn_remote_enabled s)), (''isBoundAws'', JBool (gn_remote_bound_aws s))] rs s"

definition handle_set_remote_access_state :: "gui_network nop_handler" where
  "handle_set_remote_access_state rq rs s =
     need (arg_has rq ''enable'')
       (if gn_remote_bound_aws s then ok_obj [(''result'', JStr NOP_RESULT_ALREADY_BOUND)] rs s
        else ok_obj [(''result'',
          JStr ''OK'')] rs (s\<lparr>gn_remote_enabled := arg_bool rq ''enable'' (gn_remote_enabled s)\<rparr>)) rs s"

definition handle_get_uid :: "gui_network nop_handler" where
  "handle_get_uid rq rs s =
     ok_obj [(''uid'', JStr ''SKXGY35G8S7UST5X111A''), (''serial'', JStr ''50GNMLE6IRGF''),
       (''mac_address'', JStr ''54:2B:57:47:D0:5A'')] rs s"

definition cap_gui_network_register :: "json_codec \<Rightarrow> gui_network cap_regs" where
  "cap_gui_network_register jc =
    [(''GUI_getDDNS'', CAP_NETWORK, handle_get_ddns jc), (''GUI_setDDNS'', CAP_NETWORK, handle_set_ddns jc),
     (''GUI_getNTP'', CAP_NETWORK, handle_get_ntp), (''GUI_setNTP'', CAP_NETWORK, handle_set_ntp),
     (''GUI_getFTP'', CAP_NETWORK, handle_get_ftp), (''GUI_setFTP'', CAP_NETWORK, handle_set_ftp),
     (''GUI_getPoE'', CAP_NETWORK, handle_get_poe), (''GUI_setPoE'', CAP_NETWORK, handle_set_poe),
     (''GUI_getUPnP'', CAP_NETWORK, handle_get_upnp), (''GUI_setUPnP'', CAP_NETWORK, handle_set_upnp),
     (''GUI_getNetPort'', CAP_NETWORK, handle_get_net_port), (''GUI_setNetPort'', CAP_NETWORK, handle_set_net_port),
     (''GUI_getEmailAlert'', CAP_NETWORK, handle_get_email_alert),
     (''GUI_setEmailAlert'', CAP_NETWORK, handle_set_email_alert),
     (''GUI_testEmailAlert'', CAP_NETWORK, handle_test_email_alert),
     (''GUI_getLanInterface'', CAP_NETWORK, handle_get_lan_interface),
     (''GUI_getLocalLink'', CAP_NETWORK, handle_get_local_link), (''GUI_setLocalLink'', CAP_NETWORK, handle_set_local_link),
     (''GUI_getRemoteAccessState'', CAP_NETWORK, handle_get_remote_access_state),
     (''GUI_setRemoteAccessState'', CAP_NETWORK, handle_set_remote_access_state),
     (''GUI_getUID'', CAP_NETWORK, handle_get_uid)]"

lemmas gui_network_handlers = handle_get_ddns_def handle_set_ddns_def handle_get_ntp_def handle_set_ntp_def
  handle_get_ftp_def handle_set_ftp_def handle_get_poe_def handle_set_poe_def
  handle_get_upnp_def handle_set_upnp_def handle_get_net_port_def handle_set_net_port_def
  handle_get_email_alert_def handle_set_email_alert_def handle_test_email_alert_def handle_get_lan_interface_def
  handle_get_local_link_def handle_set_local_link_def handle_get_remote_access_state_def handle_set_remote_access_state_def
  handle_get_uid_def

section \<open>Backup and restore\<close>

text \<open>The strings fit their fields, in the initial state and after every command.\<close>

definition net_fits :: "gui_network \<Rightarrow> bool" where
  "net_fits s \<longleftrightarrow> length (ntp_server_name (gn_ntp s)) < 128 \<and>
     length (ftp_password (gn_ftp s)) < 128 \<and> length (ftp_remote_dir (gn_ftp s)) < 256 \<and> length (ftp_server (gn_ftp s)) < 128 \<and>
     length (ftp_user_name (gn_ftp s)) < 128 \<and>
     length (em_receivers (gn_email s)) = 5 \<and> list_all (\<lambda>v. length v < 256) (em_receivers (gn_email s)) \<and>
     length (em_sender (gn_email s)) < 256 \<and> length (em_smtp_server (gn_email s)) < 256 \<and> length (em_user_name (gn_email s)) < 256 \<and>
     length (em_password (gn_email s)) < 256 \<and> length (em_title (gn_email s)) < 256 \<and>
     length (ll_network_type (gn_link s)) < 16 \<and> length (ll_ip_addr (gn_link s)) < 64 \<and> length (ll_subnet_mask (gn_link s)) < 64 \<and>
     length (ll_gateway (gn_link s)) < 64 \<and> length (ll_dns1 (gn_link s)) < 64 \<and> length (ll_dns2 (gn_link s)) < 64"

lemma store_str_fits: "\<lbrakk>length old < n; 0 < n\<rbrakk> \<Longrightarrow> length (store_str n j k old) < n"
  by (auto simp: store_str_def field_def split: option.split)

lemma length_five: "(length xs = 5) = (\<exists>a b c d e. xs = [a, b, c, d, e])"
  by (auto simp: length_Suc_conv eval_nat_numeral)

lemma net_fits_0: "net_fits gui_network0"
  by (simp add: net_fits_def gui_network0_def eval_nat_numeral)

lemma net_fits_step:
  "list_all (\<lambda>(f, cap, h). \<forall>rq rs s. net_fits s \<longrightarrow> net_fits (snd (snd (h rq rs s)))) (cap_gui_network_register jc)"
  unfolding cap_gui_network_register_def
  by (auto simp: gui_network_handlers Let_def net_fits_def ntp_update_def ftp_update_def email_update_def link_update_def
      store_str_fits length_five receiver_keys_def split: option.split)

lemma net_fits_run: "net_fits (cap_run (cap_gui_network_register jc) cs gui_network0)"
proof -
  have "net_fits (cap_exec (cap_gui_network_register jc) c s)" if "net_fits s" for c s
    using net_fits_step[of jc] that by (auto simp: cap_exec_def cap_reply_def list_all_iff split: option.split dest!: map_of_SomeD)
  then have "net_fits s \<Longrightarrow> net_fits (cap_run (cap_gui_network_register jc) cs s)" for s
    unfolding cap_run_def by (induction cs arbitrary: s) simp_all
  then show ?thesis using net_fits_0 by simp
qed

lemma field_fits: "length v < n \<Longrightarrow> field n v = v"
  by (simp add: field_def)

lemma updates_same:
  "net_fits s \<Longrightarrow> ntp_update (ntp_json (gn_ntp s)) (gn_ntp s) = gn_ntp s"
  "net_fits s \<Longrightarrow> ftp_update (ftp_json (gn_ftp s)) (gn_ftp s) = gn_ftp s"
  "ports_update (ports_json p) p = p"
  "net_fits s \<Longrightarrow> email_update (email_json (gn_email s)) (gn_email s) = gn_email s"
  "net_fits s \<Longrightarrow> link_update (link_json (gn_link s)) (gn_link s) = gn_link s"
  by (auto simp: net_fits_def ntp_update_def ntp_json_def ftp_update_def ftp_json_def ports_update_def ports_json_def email_update_def
      email_json_def link_update_def link_json_def get_bool_def get_int_def store_str_def nop_json_bool_def nop_json_num_def
      nop_json_str_def JInt_def field_fits length_five receiver_keys_def)

text \<open>The object that DDNS answers: the list that was set, under the name DDNSInfo.\<close>

definition ddns_kept :: "json_codec \<Rightarrow> gui_network \<Rightarrow> bool" where
  "ddns_kept jc s \<longleftrightarrow> (\<forall>t. gn_ddns_json s = Some t \<longrightarrow> (\<exists>l. jc_print jc (JObj [(''DDNSInfo'', l)]) = Some t))"

lemma ddns_kept_run: "ddns_kept jc (cap_run (cap_gui_network_register jc) cs gui_network0)"
proof -
  have "list_all (\<lambda>(f, cap, h). \<forall>rq rs s. ddns_kept jc s \<longrightarrow> ddns_kept jc (snd (snd (h rq rs s)))) (cap_gui_network_register jc)"
    unfolding cap_gui_network_register_def
    by (auto simp: gui_network_handlers Let_def ddns_kept_def need_def ok_empty_def ok_obj_def fails_def split: option.split)
  then have "ddns_kept jc (cap_exec (cap_gui_network_register jc) c s)" if "ddns_kept jc s" for c s
    using that by (auto simp: cap_exec_def cap_reply_def list_all_iff split: option.split dest!: map_of_SomeD)
  then have "ddns_kept jc s \<Longrightarrow> ddns_kept jc (cap_run (cap_gui_network_register jc) cs s)" for s
    unfolding cap_run_def by (induction cs arbitrary: s) simp_all
  moreover have "ddns_kept jc gui_network0" by (simp add: ddns_kept_def gui_network0_def)
  ultimately show ?thesis by blast
qed

text \<open>What the third-party JSON library documents: a printed text parses back.\<close>

definition reparses :: "json_codec \<Rightarrow> bool" where
  "reparses jc \<longleftrightarrow> (\<forall>v t. jc_print jc v = Some t \<longrightarrow> jc_parse jc t = Some v)"

lemma ddns_answer:
  assumes "ddns_kept jc s" "reparses jc"
  shows "\<exists>l. snapshot_or jc (gn_ddns_json s) None ddns_default = JObj [(''DDNSInfo'', l)]"
proof (cases "gn_ddns_json s")
  case (Some t)
  then obtain l where "jc_print jc (JObj [(''DDNSInfo'', l)]) = Some t" using assms(1) by (auto simp: ddns_kept_def)
  then show ?thesis using assms(2) Some by (simp add: reparses_def snapshot_or_def)
qed (simp add: snapshot_or_def ddns_default_def)

text \<open>The pairs of getter and setter of the family, and whether the setter takes what the getter answers.\<close>

definition network_pairs :: "(string \<times> string \<times> bool) list" where
  "network_pairs = [(''GUI_getDDNS'', ''GUI_setDDNS'', False), (''GUI_getNTP'', ''GUI_setNTP'', True), (''GUI_getFTP'', ''GUI_setFTP'', True),
     (''GUI_getPoE'', ''GUI_setPoE'', False), (''GUI_getUPnP'', ''GUI_setUPnP'', False), (''GUI_getNetPort'', ''GUI_setNetPort'', True),
     (''GUI_getEmailAlert'', ''GUI_setEmailAlert'', True), (''GUI_getLocalLink'', ''GUI_setLocalLink'', True),
     (''GUI_getRemoteAccessState'', ''GUI_setRemoteAccessState'', False)]"

text \<open>The content that a getter's reply carries is sent to a setter.\<close>

definition sent_back :: "json_codec \<Rightarrow> string \<Rightarrow> string \<Rightarrow> json option \<Rightarrow> gui_network \<Rightarrow> nop_status \<times> nop_response \<times> gui_network" where
  "sent_back jc getf setf args s =
     cap_reply (cap_gui_network_register jc) (setf, snd (cap_answer (cap_gui_network_register jc) (getf, args) s)) s"

lemma sent_back_ddns:
  assumes "ddns_kept jc s" "reparses jc"
  shows "sent_back jc ''GUI_getDDNS'' ''GUI_setDDNS'' args s = (NOP_ERR_PARAM, nop_response_init, s)"
proof -
  obtain l where l: "snapshot_or jc (gn_ddns_json s) None ddns_default = JObj [(''DDNSInfo'', l)]" using ddns_answer[OF assms] by blast
  show ?thesis
    by (simp add: sent_back_def cap_answer_def cap_reply_def cap_gui_network_register_def handle_get_ddns_def handle_set_ddns_def
        l need_def fails_def arg_arr_def nop_json_is_arr_def nop_response_init_def)
qed

lemmas sent_simps = sent_back_def cap_answer_def cap_reply_def cap_gui_network_register_def ok_obj_def
  ok_empty_def arg_get_def arg_has_def need_def fails_def nop_response_init_def Let_def

lemma sent_back_restores:
  assumes "net_fits s"
  shows "list_all (\<lambda>(g, st). sent_back jc g st args s = (NOP_OK, nop_response_init, s) \<and> fst (cap_answer (cap_gui_network_register jc) (g, args) s) = NOP_OK)
    [(''GUI_getNTP'', ''GUI_setNTP''), (''GUI_getFTP'', ''GUI_setFTP''), (''GUI_getNetPort'', ''GUI_setNetPort''),
     (''GUI_getEmailAlert'', ''GUI_setEmailAlert''), (''GUI_getLocalLink'', ''GUI_setLocalLink'')]"
  using updates_same(1,2,4,5)[OF assms] updates_same(3)
  by (simp add: sent_simps handle_get_ntp_def handle_set_ntp_def handle_get_ftp_def handle_set_ftp_def handle_get_net_port_def
    handle_set_net_port_def handle_get_email_alert_def handle_set_email_alert_def handle_get_local_link_def handle_set_local_link_def)

lemma sent_back_refused:
  "list_all (\<lambda>(g, st). sent_back jc g st args s = (NOP_ERR_PARAM, nop_response_init, s))
    [(''GUI_getPoE'', ''GUI_setPoE''), (''GUI_getUPnP'', ''GUI_setUPnP''), (''GUI_getRemoteAccessState'', ''GUI_setRemoteAccessState'')]"
  by (simp add: sent_simps nop_json_has_def handle_get_poe_def handle_set_poe_def handle_get_upnp_def handle_set_upnp_def
    handle_get_remote_access_state_def handle_set_remote_access_state_def)

lemma network_setters: "setters_of (cap_gui_network_register jc) = map (\<lambda>(g, st, restores). st) network_pairs"
  by (simp add: setters_of_def cap_gui_network_register_def is_setter_def network_pairs_def)


text \<open>A library that prints the two values of one backup, for lack of memory nothing else.\<close>

definition demo_codec :: json_codec where
  "demo_codec = \<lparr>jc_print = (\<lambda>v. if v = JArr [] then Some ''[]'' else if v = JObj [(''DDNSInfo'', JArr [])] then Some ''{}'' else None),
     jc_parse = (\<lambda>t. if t = ''[]'' then Some (JArr []) else if t = ''{}'' then Some (JObj [(''DDNSInfo'', JArr [])]) else None)\<rparr>"


end
