(* ===== verification/Cap_Gui_System.thy ===== *)
theory Cap_Gui_System
  imports Cap_Base
begin

text \<open>
  business/caps/cap_gui_system.c: display, audio, disk, light, reboot and abnormality settings of the local user interface. Arrays of
  16 entries are indexed by the channel number less one, an index out of range is taken for the first.
\<close>

definition sys_index :: "nop_request \<Rightarrow> int" where
  "sys_index rq = (let c = arg_int rq ''channel'' 1 in if c < 1 \<or> c > 16 then 0 else c - 1)"

record gui_system =
  g_display_mode :: int
  g_display_page :: int
  g_display_ext_json :: "string option"
  g_sys_resolution :: string
  g_sys_display_opacity :: int
  g_speaker_volume :: "int \<Rightarrow> int"
  g_speaker_volume_set :: "int \<Rightarrow> bool"
  g_audio_switch :: "int \<Rightarrow> bool"
  g_audio_switch_set :: "int \<Rightarrow> bool"
  g_ir_light_state :: "int \<Rightarrow> string"
  g_ir_light_set :: "int \<Rightarrow> bool"
  g_hdd_overwrite :: bool
  g_hdd_overwrite_set :: bool
  g_auto_reboot_enable :: bool
  g_auto_reboot_day :: int
  g_auto_reboot_time :: int
  g_surveillance_json :: "string option"

definition gui_system0 :: gui_system where
  "gui_system0 =
     \<lparr>g_display_mode = 4, g_display_page = 1, g_display_ext_json = None, g_sys_resolution = ''1920*1080'', g_sys_display_opacity = 255,
      g_speaker_volume = \<lambda>_. 0, g_speaker_volume_set = \<lambda>_. False, g_audio_switch = \<lambda>_. False, g_audio_switch_set = \<lambda>_. False,
      g_ir_light_state = \<lambda>_. [], g_ir_light_set = \<lambda>_. False, g_hdd_overwrite = True, g_hdd_overwrite_set = False,
      g_auto_reboot_enable = True, g_auto_reboot_day = 1, g_auto_reboot_time = 2230, g_surveillance_json = None\<rparr>"

definition handle_get_device_display_mode :: "gui_system nop_handler" where
  "handle_get_device_display_mode rq rs s =
     ok_obj [(''displayMode'', JInt (g_display_mode s)), (''displayPage'', JInt (g_display_page s))] rs s"

definition handle_set_device_display_mode :: "gui_system nop_handler" where
  "handle_set_device_display_mode rq rs s =
     need (arg_has rq ''displayMode'' \<and> arg_has rq ''displayPage'') (ok_obj [(''result'',
       JStr ''OK'')] rs (s\<lparr>g_display_mode := arg_int rq ''displayMode'' (g_display_mode s),
       g_display_page := arg_int rq ''displayPage'' (g_display_page s)\<rparr>)) rs s"

definition display_ext_default :: json where
  "display_ext_default = JObj [(''channels'', JArr [])]"

definition display_ext_snapshot :: "json_codec \<Rightarrow> nop_request \<Rightarrow> json" where
  "display_ext_snapshot jc rq =
     JObj [(''channels'', case Option.bind (arg_get rq ''channels'') (\<lambda>v. Option.bind (jc_print jc v) (jc_parse jc)) of
        None \<Rightarrow> JArr [] | Some c \<Rightarrow> c)]"

definition handle_get_device_display_ext :: "json_codec \<Rightarrow> gui_system nop_handler" where
  "handle_get_device_display_ext jc rq rs s =
     (NOP_OK, rs\<lparr>rs_content := Some (snapshot_or jc (g_display_ext_json s) (rs_content rs) display_ext_default)\<rparr>, s)"

definition handle_set_device_display_ext :: "json_codec \<Rightarrow> gui_system nop_handler" where
  "handle_set_device_display_ext jc rq rs s =
     need (arg_has rq ''channels'') (ok_empty rs (s\<lparr>g_display_ext_json := jc_print jc (display_ext_snapshot jc rq)\<rparr>)) rs s"

definition handle_get_sys_display :: "gui_system nop_handler" where
  "handle_get_sys_display rq rs s =
     ok_obj [(''resolutionList'', JArr [JStr ''1280*720'', JStr ''1280*1024'', JStr ''1920*1080'']),
       (''resolution'', JStr (g_sys_resolution s)), (''displayOpacity'', JInt (g_sys_display_opacity s))] rs s"

definition handle_set_sys_display :: "gui_system nop_handler" where
  "handle_set_sys_display rq rs s =
     (let s = (case arg_str rq ''resolution'' of None \<Rightarrow> s | Some v \<Rightarrow> s\<lparr>g_sys_resolution := field 32 v\<rparr>);
          s = (if arg_has rq ''displayOpacity''
               then s\<lparr>g_sys_display_opacity := arg_int rq ''displayOpacity'' (g_sys_display_opacity s)\<rparr> else s)
      in ok_empty rs s)"

definition handle_get_audio_cfg :: "gui_system nop_handler" where
  "handle_get_audio_cfg rq rs s =
     need (arg_has rq ''channel'') (ok_obj [(''speakerVolume'',
       JInt (if g_speaker_volume_set s (sys_index rq) then g_speaker_volume s (sys_index rq) else 50))] rs s) rs s"

definition handle_set_audio_cfg :: "gui_system nop_handler" where
  "handle_set_audio_cfg rq rs s =
     need (arg_has rq ''channel'')
       (ok_empty rs (if arg_has rq ''speakerVolume''
          then s\<lparr>g_speaker_volume := (g_speaker_volume s)(sys_index rq := arg_int rq ''speakerVolume'' 50),
                 g_speaker_volume_set := (g_speaker_volume_set s)(sys_index rq := True)\<rparr> else s)) rs s"

definition handle_get_audio_switch :: "gui_system nop_handler" where
  "handle_get_audio_switch rq rs s =
     need (arg_has rq ''channel'') (ok_obj [(''enable'',
       JBool (if g_audio_switch_set s (sys_index rq) then g_audio_switch s (sys_index rq) else False))] rs s) rs s"

definition handle_set_audio_switch :: "gui_system nop_handler" where
  "handle_set_audio_switch rq rs s =
     need (arg_has rq ''channel'' \<and> arg_has rq ''enable'') (ok_empty rs (s\<lparr>g_audio_switch := (g_audio_switch s)(sys_index rq := arg_bool rq ''enable'' False), g_audio_switch_set := (g_audio_switch_set s)(sys_index rq := True)\<rparr>)) rs s"

definition handle_get_hdd_config :: "gui_system nop_handler" where
  "handle_get_hdd_config rq rs s =
     ok_obj [(''overWrite'', JBool (if g_hdd_overwrite_set s then g_hdd_overwrite s else True))] rs s"

definition handle_set_hdd_config :: "gui_system nop_handler" where
  "handle_set_hdd_config rq rs s =
     need (arg_has rq ''overWrite'') (ok_empty rs (s\<lparr>g_hdd_overwrite := arg_bool rq ''overWrite'' True,
       g_hdd_overwrite_set := True\<rparr>)) rs s"

definition handle_get_ir_light :: "gui_system nop_handler" where
  "handle_get_ir_light rq rs s =
     need (arg_has rq ''channel'') (ok_obj [(''State'',
       JStr (if g_ir_light_set s (sys_index rq) then g_ir_light_state s (sys_index rq) else ''Auto''))] rs s) rs s"

definition handle_set_ir_light :: "gui_system nop_handler" where
  "handle_set_ir_light rq rs s =
     need (arg_has rq ''channel'')
       (case arg_str rq ''State'' of
          None \<Rightarrow> fails NOP_ERR_PARAM rs s
        | Some v \<Rightarrow> ok_empty rs (s\<lparr>g_ir_light_state := (g_ir_light_state s)(sys_index rq := field 16 v),
            g_ir_light_set := (g_ir_light_set s)(sys_index rq := True)\<rparr>)) rs s"

definition handle_get_auto_reboot_setting :: "gui_system nop_handler" where
  "handle_get_auto_reboot_setting rq rs s =
     ok_obj [(''Enable'', JBool (g_auto_reboot_enable s)), (''WhichDay'', JInt (g_auto_reboot_day s)),
       (''WhichTime'', JInt (g_auto_reboot_time s))] rs s"

definition handle_set_auto_reboot_setting :: "gui_system nop_handler" where
  "handle_set_auto_reboot_setting rq rs s =
     need (arg_has rq ''Enable'' \<and> arg_has rq ''WhichDay'' \<and> arg_has rq ''WhichTime'') (ok_empty rs (s\<lparr>g_auto_reboot_enable := arg_bool rq ''Enable'' True, g_auto_reboot_day := arg_int rq ''WhichDay'' (g_auto_reboot_day s), g_auto_reboot_time := arg_int rq ''WhichTime'' (g_auto_reboot_time s)\<rparr>)) rs s"

definition handle_get_system_log :: "gui_system nop_handler" where
  "handle_get_system_log rq rs s =
     ok_obj [(''TotalLogNum'', JInt 0), (''LogPageIndex'', JInt (arg_int rq ''LogPageIndex'' 0)),
       (''CurPageLogNum'', JInt 0), (''LogList'', JObj [])] rs s"

definition handle_shut_down :: "gui_system nop_handler" where
  "handle_shut_down rq rs s = ok_obj [] rs s"

definition g_feature_list :: "string list" where
  "g_feature_list = [''General'', ''Encode'', ''Record'', ''Alarm'', ''Network'', ''NetService'', ''OutputSettings'', ''Account'', ''RS232'']"

definition handle_restore_feature_setting :: "gui_system nop_handler" where
  "handle_restore_feature_setting rq rs s = need (arg_arr rq ''Restore'') (ok_empty rs s) rs s"

definition handle_get_feature_list :: "gui_system nop_handler" where
  "handle_get_feature_list rq rs s = ok_obj [(''Restore'', JArr (map JStr g_feature_list))] rs s"

definition add_default_abnormality_entry :: "string \<Rightarrow> bool \<Rightarrow> string \<times> json" where
  "add_default_abnormality_entry key lt =
     (key, JObj ([(''MessageEnable'', JBool True), (''BeepEnable'', JBool True), (''EmailEnable'', JBool True),
        (''NotificationEnable'', JBool True)] @ (if lt then [(''LessThan'', JInt 5)] else [])))"

definition add_default_surveillance :: json where
  "add_default_surveillance = JObj [add_default_abnormality_entry ''nodisk'' False, add_default_abnormality_entry ''diskerr'' False,
     add_default_abnormality_entry ''disknospace'' True, add_default_abnormality_entry ''netdiscon'' False,
     add_default_abnormality_entry ''ipconflict'' False]"

definition handle_get_surveillance_abnormality :: "json_codec \<Rightarrow> gui_system nop_handler" where
  "handle_get_surveillance_abnormality jc rq rs s =
     (NOP_OK, rs\<lparr>rs_content := Some (snapshot_or jc (g_surveillance_json s) (rs_content rs) add_default_surveillance)\<rparr>, s)"

definition handle_set_surveillance_abnormality :: "json_codec \<Rightarrow> gui_system nop_handler" where
  "handle_set_surveillance_abnormality jc rq rs s =
     need (arg_has rq ''nodisk'' \<and> arg_has rq ''diskerr'' \<and> arg_has rq ''disknospace'' \<and> arg_has rq ''netdiscon'' \<and> arg_has rq ''ipconflict'') (ok_empty rs (s\<lparr>g_surveillance_json := Option.bind (rq_args rq) (jc_print jc)\<rparr>)) rs s"

definition cap_gui_system_register :: "json_codec \<Rightarrow> gui_system cap_regs" where
  "cap_gui_system_register jc =
    [(''GUI_getDeviceDisplayMode'', CAP_SYSTEM, handle_get_device_display_mode),
     (''GUI_setDeviceDisplayMode'', CAP_SYSTEM, handle_set_device_display_mode),
     (''GUI_getDeviceDisplayExt'', CAP_SYSTEM, handle_get_device_display_ext jc),
     (''GUI_setDeviceDisplayExt'', CAP_SYSTEM, handle_set_device_display_ext jc),
     (''GUI_getSysDisplay'', CAP_SYSTEM, handle_get_sys_display),
     (''GUI_setSysDisplay'', CAP_SYSTEM, handle_set_sys_display), (''GUI_getAudioCfg'', CAP_SYSTEM, handle_get_audio_cfg),
     (''GUI_setAudioCfg'', CAP_SYSTEM, handle_set_audio_cfg), (''GUI_getAudioSwitch'', CAP_SYSTEM, handle_get_audio_switch),
     (''GUI_setAudioSwitch'', CAP_SYSTEM, handle_set_audio_switch),
     (''GUI_getHddConfig'', CAP_SYSTEM, handle_get_hdd_config), (''GUI_setHddConfig'', CAP_SYSTEM, handle_set_hdd_config),
     (''GUI_getIrLight'', CAP_SYSTEM, handle_get_ir_light), (''GUI_setIrLight'', CAP_SYSTEM, handle_set_ir_light),
     (''GUI_getAutoRebootSetting'', CAP_SYSTEM, handle_get_auto_reboot_setting),
     (''GUI_setAutoRebootSetting'', CAP_SYSTEM, handle_set_auto_reboot_setting),
     (''GUI_getSystemLog'', CAP_SYSTEM, handle_get_system_log), (''GUI_shutDown'', CAP_SYSTEM, handle_shut_down),
     (''GUI_restoreFeatureSetting'', CAP_SYSTEM, handle_restore_feature_setting),
     (''GUI_getFeatureList'', CAP_SYSTEM, handle_get_feature_list),
     (''GUI_getSurveillanceAbnormality'', CAP_SYSTEM, handle_get_surveillance_abnormality jc),
     (''GUI_setSurveillanceAbnormality'', CAP_SYSTEM, handle_set_surveillance_abnormality jc)]"

definition display_ext_setting :: "json_codec \<Rightarrow> setting_decl" where
  "display_ext_setting jc =
     \<lparr>sd_set = ''GUI_setDeviceDisplayExt'', sd_get = ''GUI_getDeviceDisplayExt'', sd_chan = \<lambda>_. 0, sd_need = \<lambda>_. True,
      sd_wr = \<lambda>rq. if arg_has rq ''channels''
                   then Some (snapshot_or jc (jc_print jc (display_ext_snapshot jc rq)) None display_ext_default) else None,
      sd_dflt = \<lambda>_. display_ext_default\<rparr>"

definition surveillance_setting :: "json_codec \<Rightarrow> setting_decl" where
  "surveillance_setting jc =
     \<lparr>sd_set = ''GUI_setSurveillanceAbnormality'', sd_get = ''GUI_getSurveillanceAbnormality'', sd_chan = \<lambda>_. 0, sd_need = \<lambda>_. True,
      sd_wr = \<lambda>rq. if arg_has rq ''nodisk'' \<and> arg_has rq ''diskerr'' \<and> arg_has rq ''disknospace'' \<and> arg_has rq ''netdiscon'' \<and> arg_has rq ''ipconflict''
                   then Some (snapshot_or jc (Option.bind (rq_args rq) (jc_print jc)) None add_default_surveillance) else None,
      sd_dflt = \<lambda>_. add_default_surveillance\<rparr>"

definition speaker_setting :: setting_decl where
  "speaker_setting =
     \<lparr>sd_set = ''GUI_setAudioCfg'', sd_get = ''GUI_getAudioCfg'', sd_chan = sys_index, sd_need = \<lambda>rq. arg_has rq ''channel'',
      sd_wr = \<lambda>rq. if arg_has rq ''channel'' \<and> arg_has rq ''speakerVolume''
                   then Some (JObj [(''speakerVolume'', JInt (arg_int rq ''speakerVolume'' 50))]) else None,
      sd_dflt = \<lambda>_. JObj [(''speakerVolume'', JInt 50)]\<rparr>"

definition ir_light_setting :: setting_decl where
  "ir_light_setting =
     \<lparr>sd_set = ''GUI_setIrLight'', sd_get = ''GUI_getIrLight'', sd_chan = sys_index, sd_need = \<lambda>rq. arg_has rq ''channel'',
      sd_wr = \<lambda>rq. if arg_has rq ''channel'' then map_option (\<lambda>v. JObj [(''State'', JStr (field 16 v))]) (arg_str rq ''State'') else None,
      sd_dflt = \<lambda>_. JObj [(''State'', JStr ''Auto'')]\<rparr>"

lemmas gui_system_handlers = handle_get_device_display_mode_def handle_set_device_display_mode_def handle_get_device_display_ext_def handle_set_device_display_ext_def
  handle_get_sys_display_def handle_set_sys_display_def handle_get_audio_cfg_def handle_set_audio_cfg_def
  handle_get_audio_switch_def handle_set_audio_switch_def handle_get_hdd_config_def handle_set_hdd_config_def
  handle_get_ir_light_def handle_set_ir_light_def handle_get_auto_reboot_setting_def handle_set_auto_reboot_setting_def
  handle_get_system_log_def handle_shut_down_def handle_restore_feature_setting_def handle_get_feature_list_def
  handle_get_surveillance_abnormality_def handle_set_surveillance_abnormality_def

lemmas gui_system_simps = cap_gui_system_register_def setting_simps gui_system_handlers Let_def ok_obj_def cap_answer_def cap_reply_def
  gui_system0_def nop_response_init_def snapshot_or_def or_default_def display_ext_setting_def surveillance_setting_def speaker_setting_def ir_light_setting_def fails_def need_def

interpretation gui_system_display_ext: setting "cap_gui_system_register jc"
    "display_ext_setting jc"
    "\<lambda>s k. snapshot_or jc (if k = 0 then g_display_ext_json s else None) None display_ext_default" gui_system0 for jc
  by unfold_locales (simp_all add: gui_system_simps cong: conj_cong split: option.split)

interpretation gui_system_surveillance: setting "cap_gui_system_register jc"
    "surveillance_setting jc"
    "\<lambda>s k. snapshot_or jc (if k = 0 then g_surveillance_json s else None) None add_default_surveillance" gui_system0 for jc
  by unfold_locales (simp_all add: gui_system_simps cong: conj_cong split: option.split)

interpretation gui_system_speaker: setting "cap_gui_system_register jc"
    "speaker_setting"
    "\<lambda>s k. JObj [(''speakerVolume'', JInt (if g_speaker_volume_set s k then g_speaker_volume s k else 50))]" gui_system0 for jc
  by unfold_locales (simp_all add: gui_system_simps cong: conj_cong split: option.split)

interpretation gui_system_ir_light: setting "cap_gui_system_register jc"
    "ir_light_setting"
    "\<lambda>s k. JObj [(''State'', JStr (if g_ir_light_set s k then g_ir_light_state s k else ''Auto''))]" gui_system0 for jc
  by unfold_locales (simp_all add: gui_system_simps cong: conj_cong split: option.split)

interpretation gui_system_audio_switch: setting "cap_gui_system_register jc"
    "needing (\<lambda>rq. arg_has rq ''channel'') (bool_setting ''GUI_setAudioSwitch'' ''GUI_getAudioSwitch'' sys_index ''enable'' False False)"
    "\<lambda>s k. JObj [(''enable'', JBool (if g_audio_switch_set s k then g_audio_switch s k else False))]" gui_system0 for jc
  by unfold_locales (simp_all add: gui_system_simps cong: conj_cong split: option.split)

interpretation gui_system_hdd: setting "cap_gui_system_register jc"
    "bool_setting ''GUI_setHddConfig'' ''GUI_getHddConfig'' (\<lambda>_. 0) ''overWrite'' True True"
    "\<lambda>s k. JObj [(''overWrite'', JBool (k = 0 \<and> g_hdd_overwrite_set s \<longrightarrow> g_hdd_overwrite s))]" gui_system0 for jc
  by unfold_locales (simp_all add: gui_system_simps cong: conj_cong split: option.split)

definition gui_system_settings :: "json_codec \<Rightarrow> setting_decl list" where
  "gui_system_settings jc =
    [display_ext_setting jc, surveillance_setting jc, speaker_setting, ir_light_setting,
     needing (\<lambda>rq. arg_has rq ''channel'') (bool_setting ''GUI_setAudioSwitch'' ''GUI_getAudioSwitch'' sys_index ''enable'' False False),
     bool_setting ''GUI_setHddConfig'' ''GUI_getHddConfig'' (\<lambda>_. 0) ''overWrite'' True True]"

lemma gui_system_settings_ok: "list_all (setting_ok (cap_gui_system_register jc) gui_system0) (gui_system_settings jc)"
  by (simp add: gui_system_settings_def gui_system_display_ext.holds gui_system_surveillance.holds gui_system_speaker.holds gui_system_ir_light.holds
    gui_system_audio_switch.holds gui_system_hdd.holds)

text \<open>The other setters of the family.\<close>

lemma gui_system_left_over: "left_over (cap_gui_system_register jc) (gui_system_settings jc) =
    [''GUI_setDeviceDisplayMode'', ''GUI_setSysDisplay'', ''GUI_setAutoRebootSetting'']"
  by (simp add: left_over_def setters_of_def is_setter_def setting_simps gui_system_settings_def cap_gui_system_register_def display_ext_setting_def surveillance_setting_def speaker_setting_def ir_light_setting_def)

end
