(* ===== verification/Cap_Cloud.thy ===== *)
theory Cap_Cloud
  imports Cap_Base
begin

text \<open>
  business/caps/cap_cloud.c: cloud recording settings, recording time, schedule and triggers of the channels, playback and backup
  commands. Arrays of 16 entries are indexed by the channel (an index out of range is taken for channel 0).
\<close>

definition cl_chan :: "nop_request \<Rightarrow> int" where
  "cl_chan rq = (let c = arg_int rq ''channel'' 0 in if c < 0 \<or> c \<ge> 16 then 0 else c)"

record cloud =
  g_cloud_record_configs_json :: "string option"
  g_cloud_record_log_interval :: int
  g_cloud_record_log_start_time :: int
  g_cloud_record_switch :: bool
  g_channel_recording_time :: "int \<Rightarrow> int"
  g_continuous_schedule_switch :: "int \<Rightarrow> bool"
  g_recording_triggers_json :: "int \<Rightarrow> string option"
  g_continuous_schedule_json :: "int \<Rightarrow> string option"

definition cloud0 :: cloud where
  "cloud0 = \<lparr>g_cloud_record_configs_json = None, g_cloud_record_log_interval = 86400, g_cloud_record_log_start_time = 1598489497,
     g_cloud_record_switch = False, g_channel_recording_time = \<lambda>_. 0, g_continuous_schedule_switch = \<lambda>_. False,
     g_recording_triggers_json = \<lambda>_. None, g_continuous_schedule_json = \<lambda>_. None\<rparr>"

text \<open>A member of the request copied through its text; an empty array when it cannot be.\<close>

definition copied_member :: "json_codec \<Rightarrow> nop_request \<Rightarrow> string \<Rightarrow> json" where
  "copied_member jc rq k =
     (case Option.bind (arg_get rq k) (\<lambda>v. Option.bind (jc_print jc v) (jc_parse jc)) of None \<Rightarrow> JArr [] | Some c \<Rightarrow> c)"

definition add_default_cloud_record_configs :: "nop_device_config option \<Rightarrow> json" where
  "add_default_cloud_record_configs cf =
     JObj [(''mode'', JStr ''sync''), (''channels'', JArr [JObj [(''channel'', JInt 1), (''streamType'', JStr ''main''),
       (''triggers'', JArr (cap_emit_detection_type_names cf))]])]"

definition cloud_configs_snapshot :: "json_codec \<Rightarrow> nop_request \<Rightarrow> json" where
  "cloud_configs_snapshot jc rq =
     JObj [(''mode'', JStr (if arg_has rq ''mode'' then arg_str_or rq ''mode'' ''sync'' else ''sync'')),
           (''channels'', copied_member jc rq ''channels'')]"

definition handle_get_cloud_record_configs :: "json_codec \<Rightarrow> nop_device_config option \<Rightarrow> cloud nop_handler" where
  "handle_get_cloud_record_configs jc cf rq rs s =
     (NOP_OK, rs\<lparr>rs_content := Some (snapshot_or jc (g_cloud_record_configs_json s) (rs_content rs) (add_default_cloud_record_configs cf))\<rparr>, s)"

definition handle_set_cloud_record_configs :: "json_codec \<Rightarrow> cloud nop_handler" where
  "handle_set_cloud_record_configs jc rq rs s =
     need (arg_has rq ''channels'') (ok_empty rs (s\<lparr>g_cloud_record_configs_json := jc_print jc (cloud_configs_snapshot jc rq)\<rparr>)) rs s"

definition handle_get_cloud_record_log_config :: "cloud nop_handler" where
  "handle_get_cloud_record_log_config rq rs s =
     ok_obj [(''interval'', JInt (g_cloud_record_log_interval s)),
       (''startTime'', JInt (g_cloud_record_log_start_time s))] rs s"

definition handle_set_cloud_record_log_config :: "cloud nop_handler" where
  "handle_set_cloud_record_log_config rq rs s =
     need (arg_has rq ''interval'') (ok_empty rs (s\<lparr>g_cloud_record_log_interval := arg_int rq ''interval'' 86400\<rparr>)) rs s"

definition handle_get_cloud_record_test_progress :: "cloud nop_handler" where
  "handle_get_cloud_record_test_progress rq rs s =
     ok_obj [(''channel'', JInt 1), (''startTime'', JInt 1598489497), (''endTime'', JInt (-1)),
       (''streamType'', JArr []), (''status'', JArr [JStr ''idle'']), (''timestamp'', JArr [JInt (-1)])] rs s"

definition handle_start_cloud_record_test :: "cloud nop_handler" where
  "handle_start_cloud_record_test rq rs s = ok_obj [] rs s"

definition handle_stop_cloud_record_test :: "cloud nop_handler" where
  "handle_stop_cloud_record_test rq rs s = ok_obj [] rs s"

definition handle_get_cloud_record_switch :: "cloud nop_handler" where
  "handle_get_cloud_record_switch rq rs s = ok_obj [(''value'', JBool (g_cloud_record_switch s))] rs s"

definition handle_set_cloud_record_switch :: "cloud nop_handler" where
  "handle_set_cloud_record_switch rq rs s =
     need (arg_has rq ''value'') (ok_empty rs (s\<lparr>g_cloud_record_switch := arg_bool rq ''value'' False\<rparr>)) rs s"

definition handle_get_channel_recording_time :: "cloud nop_handler" where
  "handle_get_channel_recording_time rq rs s =
     need (arg_has rq ''channel'') (ok_obj [(''value'', JInt (g_channel_recording_time s (cl_chan rq)))] rs s) rs s"

definition handle_set_channel_recording_time :: "cloud nop_handler" where
  "handle_set_channel_recording_time rq rs s =
     need (arg_has rq ''channel'' \<and> arg_has rq ''value'') (ok_empty rs (s\<lparr>g_channel_recording_time := (g_channel_recording_time s)(cl_chan rq := arg_int rq ''value'' 10)\<rparr>)) rs s"

definition handle_get_recording_backup_progress :: "cloud nop_handler" where
  "handle_get_recording_backup_progress rq rs s =
     ok_obj [(''channel'', JInt 1), (''percentage'', JInt 0), (''date'', JArr []),
       (''startTime'', JInt 1598489497), (''endTime'', JInt (-1))] rs s"

definition handle_start_recording_backup :: "cloud nop_handler" where
  "handle_start_recording_backup rq rs s =
     need (arg_has rq ''channel'' \<and> arg_has rq ''date'') (ok_obj [] rs s) rs s"

definition handle_get_playback_capabilities :: "cloud nop_handler" where
  "handle_get_playback_capabilities rq rs s =
     ok_obj [(''protocol'', JArr [JStr ''rtsp-iotc-tunnel'']),
       (''streamType'', JArr [JStr ''audioAndVideo'', JStr ''audioAndSubVideo'']), (''channels'', JArr [])] rs s"

definition handle_start_playback :: "cloud nop_handler" where
  "handle_start_playback rq rs s =
     need (arg_has rq ''channel'' \<and> arg_has rq ''streamType'' \<and> arg_has rq ''preferProtocol'') (ok_obj [(''url'', JStr '''')] rs s) rs s"

definition handle_get_continuous_schedule_switch :: "cloud nop_handler" where
  "handle_get_continuous_schedule_switch rq rs s =
     need (arg_has rq ''channel'') (ok_obj [(''value'',
       JBool (g_continuous_schedule_switch s (cl_chan rq)))] rs s) rs s"

definition handle_set_continuous_schedule_switch :: "cloud nop_handler" where
  "handle_set_continuous_schedule_switch rq rs s =
     need (arg_has rq ''channel'' \<and> arg_has rq ''value'') (ok_empty rs (s\<lparr>g_continuous_schedule_switch := (g_continuous_schedule_switch s)(cl_chan rq := arg_bool rq ''value'' False)\<rparr>)) rs s"

definition default_triggers :: "nop_device_config option \<Rightarrow> json" where
  "default_triggers cf = JObj [(''triggers'', JArr (cap_emit_detection_type_names cf))]"

definition handle_get_recording_triggers :: "json_codec \<Rightarrow> nop_device_config option \<Rightarrow> cloud nop_handler" where
  "handle_get_recording_triggers jc cf rq rs s =
     need (arg_has rq ''channel'')
       (NOP_OK, rs\<lparr>rs_content := Some (snapshot_or jc (g_recording_triggers_json s (cl_chan rq)) (rs_content rs) (default_triggers cf))\<rparr>, s) rs s"

definition handle_set_recording_triggers :: "json_codec \<Rightarrow> cloud nop_handler" where
  "handle_set_recording_triggers jc rq rs s =
     need (arg_has rq ''channel'' \<and> arg_has rq ''triggers'') (ok_empty rs (s\<lparr>g_recording_triggers_json := (g_recording_triggers_json s)(cl_chan rq := jc_print jc (JObj [(''triggers'', copied_member jc rq ''triggers'')]))\<rparr>)) rs s"

definition handle_set_continuous_schedule :: "json_codec \<Rightarrow> cloud nop_handler" where
  "handle_set_continuous_schedule jc rq rs s =
     need (arg_has rq ''channel'' \<and> arg_has rq ''rules'') (ok_empty rs (s\<lparr>g_continuous_schedule_json := (g_continuous_schedule_json s)(cl_chan rq := jc_print jc (JObj [(''rules'', copied_member jc rq ''rules'')]))\<rparr>)) rs s"

definition handle_query_continuous_calendar :: "cloud nop_handler" where
  "handle_query_continuous_calendar rq rs s =
     need (arg_has rq ''resolution'' \<and> arg_has rq ''year'' \<and> arg_has rq ''channels'') (ok_obj [(''resolution'', JStr (arg_str_or rq ''resolution'' ''day'')), (''list'', JArr [])] rs s) rs s"

definition handle_query_recording_interval :: "cloud nop_handler" where
  "handle_query_recording_interval rq rs s =
     need (arg_has rq ''year'' \<and> arg_has rq ''month'' \<and> arg_has rq ''day'' \<and> arg_has rq ''channels'') (ok_obj [(''list'', JArr (replicate 24 (JInt 0)))] rs s) rs s"

definition cap_cloud_register :: "json_codec \<Rightarrow> nop_device_config option \<Rightarrow> cloud cap_regs" where
  "cap_cloud_register jc cf =
    [(''getCloudRecordConfigs'', CAP_MISC, handle_get_cloud_record_configs jc cf),
     (''setCloudRecordConfigs'', CAP_MISC, handle_set_cloud_record_configs jc),
     (''getCloudRecordLogConfig'', CAP_MISC, handle_get_cloud_record_log_config),
     (''setCloudRecordLogConfig'', CAP_MISC, handle_set_cloud_record_log_config),
     (''getCloudRecordTestProgress'', CAP_MISC, handle_get_cloud_record_test_progress),
     (''startCloudRecordTest'', CAP_MISC, handle_start_cloud_record_test),
     (''stopCloudRecordTest'', CAP_MISC, handle_stop_cloud_record_test),
     (''X_NightOwl_getCloudRecordSwitch'', CAP_MISC, handle_get_cloud_record_switch),
     (''X_NightOwl_setCloudRecordSwitch'', CAP_MISC, handle_set_cloud_record_switch),
     (''getChannelRecordingTime'', CAP_MISC, handle_get_channel_recording_time),
     (''setChannelRecordingTime'', CAP_MISC, handle_set_channel_recording_time),
     (''getRecordingBackupProgress'', CAP_MISC, handle_get_recording_backup_progress),
     (''startRecordingBackup'', CAP_MISC, handle_start_recording_backup),
     (''getPlaybackCapabilities'', CAP_MISC, handle_get_playback_capabilities),
     (''startPlayback'', CAP_MISC, handle_start_playback),
     (''X_NightOwl_getChannelContinuousScheduleRecordingSwitch'', CAP_MISC, handle_get_continuous_schedule_switch),
     (''X_NightOwl_setChannelContinuousScheduleRecordingSwitch'', CAP_MISC, handle_set_continuous_schedule_switch),
     (''X_NightOwl_getChannelRecordingTriggers'', CAP_MISC, handle_get_recording_triggers jc cf),
     (''X_NightOwl_setChannelRecordingTriggers'', CAP_MISC, handle_set_recording_triggers jc),
     (''X_NightOwl_setChannelContinuousRecordingSchedule'', CAP_MISC, handle_set_continuous_schedule jc),
     (''X_NightOwl_queryContinuousCalendar'', CAP_MISC, handle_query_continuous_calendar),
     (''X_NightOwl_queryRecordingInterval'', CAP_MISC, handle_query_recording_interval)]"

definition cloud_configs_setting :: "json_codec \<Rightarrow> nop_device_config option \<Rightarrow> setting_decl" where
  "cloud_configs_setting jc cf =
     \<lparr>sd_set = ''setCloudRecordConfigs'', sd_get = ''getCloudRecordConfigs'', sd_chan = \<lambda>_. 0, sd_need = \<lambda>_. True,
      sd_wr = \<lambda>rq. if arg_has rq ''channels''
                   then Some (snapshot_or jc (jc_print jc (cloud_configs_snapshot jc rq)) None (add_default_cloud_record_configs cf)) else None,
      sd_dflt = \<lambda>_. add_default_cloud_record_configs cf\<rparr>"

definition recording_triggers_setting :: "json_codec \<Rightarrow> nop_device_config option \<Rightarrow> setting_decl" where
  "recording_triggers_setting jc cf =
     \<lparr>sd_set = ''X_NightOwl_setChannelRecordingTriggers'', sd_get = ''X_NightOwl_getChannelRecordingTriggers'', sd_chan = cl_chan,
      sd_need = \<lambda>rq. arg_has rq ''channel'',
      sd_wr = \<lambda>rq. if arg_has rq ''channel'' \<and> arg_has rq ''triggers''
                   then Some (snapshot_or jc (jc_print jc (JObj [(''triggers'', copied_member jc rq ''triggers'')])) None (default_triggers cf))
                   else None,
      sd_dflt = \<lambda>_. default_triggers cf\<rparr>"

lemmas cloud_handlers = handle_get_cloud_record_configs_def handle_set_cloud_record_configs_def handle_get_cloud_record_log_config_def handle_set_cloud_record_log_config_def
  handle_get_cloud_record_test_progress_def handle_start_cloud_record_test_def handle_stop_cloud_record_test_def handle_get_cloud_record_switch_def
  handle_set_cloud_record_switch_def handle_get_channel_recording_time_def handle_set_channel_recording_time_def handle_get_recording_backup_progress_def
  handle_start_recording_backup_def handle_get_playback_capabilities_def handle_start_playback_def handle_get_continuous_schedule_switch_def
  handle_set_continuous_schedule_switch_def handle_get_recording_triggers_def handle_set_recording_triggers_def handle_set_continuous_schedule_def
  handle_query_continuous_calendar_def handle_query_recording_interval_def

lemmas cloud_simps = cap_cloud_register_def setting_simps cloud_handlers Let_def ok_obj_def cap_answer_def cap_reply_def
  cloud0_def nop_response_init_def snapshot_or_def or_default_def cloud_configs_setting_def recording_triggers_setting_def fails_def need_def

interpretation cloud_configs: setting "cap_cloud_register jc cf"
    "cloud_configs_setting jc cf"
    "\<lambda>s k. snapshot_or jc (if k = 0 then g_cloud_record_configs_json s else None) None (add_default_cloud_record_configs cf)" cloud0 for jc cf
  by unfold_locales (simp_all add: cloud_simps cong: conj_cong)

interpretation cloud_triggers: setting "cap_cloud_register jc cf"
    "recording_triggers_setting jc cf"
    "\<lambda>s k. snapshot_or jc (g_recording_triggers_json s k) None (default_triggers cf)" cloud0 for jc cf
  by unfold_locales (simp_all add: cloud_simps cong: conj_cong)

interpretation cloud_switch: setting "cap_cloud_register jc cf"
    "bool_setting ''X_NightOwl_setCloudRecordSwitch'' ''X_NightOwl_getCloudRecordSwitch'' (\<lambda>_. 0) ''value'' False False"
    "\<lambda>s k. JObj [(''value'', JBool (k = 0 \<and> g_cloud_record_switch s))]" cloud0 for jc cf
  by unfold_locales (simp_all add: cloud_simps cong: conj_cong)

interpretation cloud_time: setting "cap_cloud_register jc cf"
    "needing (\<lambda>rq. arg_has rq ''channel'') (int_setting ''setChannelRecordingTime'' ''getChannelRecordingTime'' cl_chan ''value'' 10 0)"
    "\<lambda>s k. JObj [(''value'', JInt (g_channel_recording_time s k))]" cloud0 for jc cf
  by unfold_locales (simp_all add: cloud_simps cong: conj_cong)

interpretation cloud_schedule_switch: setting "cap_cloud_register jc cf"
    "needing (\<lambda>rq. arg_has rq ''channel'') (bool_setting ''X_NightOwl_setChannelContinuousScheduleRecordingSwitch'' ''X_NightOwl_getChannelContinuousScheduleRecordingSwitch'' cl_chan ''value'' False False)"
    "\<lambda>s k. JObj [(''value'', JBool (g_continuous_schedule_switch s k))]" cloud0 for jc cf
  by unfold_locales (simp_all add: cloud_simps cong: conj_cong)

definition cloud_settings :: "json_codec \<Rightarrow> nop_device_config option \<Rightarrow> setting_decl list" where
  "cloud_settings jc cf =
    [cloud_configs_setting jc cf, recording_triggers_setting jc cf,
     bool_setting ''X_NightOwl_setCloudRecordSwitch'' ''X_NightOwl_getCloudRecordSwitch'' (\<lambda>_. 0) ''value'' False False,
     needing (\<lambda>rq. arg_has rq ''channel'') (int_setting ''setChannelRecordingTime'' ''getChannelRecordingTime'' cl_chan ''value'' 10 0),
     needing (\<lambda>rq. arg_has rq ''channel'') (bool_setting ''X_NightOwl_setChannelContinuousScheduleRecordingSwitch'' ''X_NightOwl_getChannelContinuousScheduleRecordingSwitch'' cl_chan ''value'' False False)]"

lemma cloud_settings_ok: "list_all (setting_ok (cap_cloud_register jc cf) cloud0) (cloud_settings jc cf)"
  by (simp add: cloud_settings_def cloud_configs.holds cloud_triggers.holds cloud_switch.holds cloud_time.holds
    cloud_schedule_switch.holds)

text \<open>The continuous schedule a client sets is stored and never read: no command of the module answers with it.\<close>

lemma continuous_schedule_not_read:
  "list_all (\<lambda>(f, cap, h). \<forall>rq s x. rs_content (fst (snd (h rq nop_response_init (s\<lparr>g_continuous_schedule_json := x\<rparr>)))) =
     rs_content (fst (snd (h rq nop_response_init s)))) (cap_cloud_register jc cf)"
  by (simp add: cap_cloud_register_def cloud_handlers ok_obj_def ok_empty_def fails_def need_def cong: conj_cong)

text \<open>The other setters of the family.\<close>

lemma cloud_left_over: "left_over (cap_cloud_register jc cf) (cloud_settings jc cf) =
    [''setCloudRecordLogConfig'', ''X_NightOwl_setChannelContinuousRecordingSchedule'']"
  by (simp add: left_over_def setters_of_def is_setter_def setting_simps cloud_settings_def cap_cloud_register_def cloud_configs_setting_def recording_triggers_setting_def)

end
