(* ===== verification/Cap_Network.thy ===== *)
theory Cap_Network
  imports Cap_Base Nop_Chime Nop_Channels
begin

text \<open>
  business/caps/cap_network.c: the Wi-Fi and uplink commands, and the commands that drive the chime registry (Nop_Chime) and the
  add-camera window (Nop_Channels) when the application attached them. The two clock readings a call may make are the argument \<open>now\<close>.
\<close>

record network =
  g_wifi_ssid :: string
  g_wifi_password :: string
  g_wifi_enctype :: int
  g_wifi_signal :: int
  g_wifi_status :: string
  g_wakeup_window_extend :: bool
  g_wan_interface :: string
  nw_chime :: "nop_chime option"
  nw_addcamera :: "nop_nvr_addcamera option"

definition network0 :: "nop_chime option \<Rightarrow> nop_nvr_addcamera option \<Rightarrow> network" where
  "network0 ch ac = \<lparr>g_wifi_ssid = [], g_wifi_password = [], g_wifi_enctype = 5, g_wifi_signal = 70, g_wifi_status = ''connected'',
     g_wakeup_window_extend = False, g_wan_interface = ''wifi'', nw_chime = ch, nw_addcamera = ac\<rparr>"

definition handle_get_current_wifi :: "network nop_handler" where
  "handle_get_current_wifi rq rs s =
     ok_obj [(''ssid'', JStr (g_wifi_ssid s)), (''enctype'', JInt (g_wifi_enctype s)),
       (''signal'', JInt (g_wifi_signal s)), (''status'', JStr (g_wifi_status s))] rs s"

definition handle_get_wifi_config :: "network nop_handler" where
  "handle_get_wifi_config rq rs s = ok_obj [(''wakeupWindowExtend'', JBool (g_wakeup_window_extend s))] rs s"

definition handle_set_wifi_config :: "network nop_handler" where
  "handle_set_wifi_config rq rs s =
     need (arg_has rq ''wakeupWindowExtend'') (ok_empty rs (s\<lparr>g_wakeup_window_extend := arg_bool rq ''wakeupWindowExtend'' (g_wakeup_window_extend s)\<rparr>)) rs s"

definition handle_set_wifi :: "network nop_handler" where
  "handle_set_wifi rq rs s =
     (case (arg_str rq ''ssid'', arg_str rq ''pwd'') of
        (Some i, Some p) \<Rightarrow>
          ok_empty rs (s\<lparr>g_wifi_ssid := field 64 i, g_wifi_password := field 128 p,
            g_wifi_status := ''connected''\<rparr>)
      | _ \<Rightarrow> fails NOP_ERR_PARAM rs s)"

definition handle_query_wifi_list :: "network nop_handler" where
  "handle_query_wifi_list rq rs s = ok_obj [(''list'', JArr [])] rs s"

definition handle_get_wan_interface :: "network nop_handler" where
  "handle_get_wan_interface rq rs s =
     ok_obj [(''value'', JStr (g_wan_interface s)), (''list'', JArr [JStr ''wifi'', JStr ''eth'']),
       (''connected'', JArr [JStr (g_wan_interface s)])] rs s"

definition handle_get_channel_wifi_signal_strength :: "network nop_handler" where
  "handle_get_channel_wifi_signal_strength rq rs s =
     need (arg_has rq ''channel'') (ok_obj [(''strength'', JInt (g_wifi_signal s))] rs s) rs s"

section \<open>Chimes\<close>

fun chime_state_name :: "nop_chime_pair_state \<Rightarrow> string" where
  "chime_state_name NOP_CHIME_PAIRING = ''pairing''"
| "chime_state_name NOP_CHIME_DONE = ''done''"
| "chime_state_name NOP_CHIME_IDLE = ''idle''"

definition chime_json :: "nop_chime_entry \<Rightarrow> json" where
  "chime_json e = JObj [(''id'', JStr (ce_id e)), (''name'', JStr (ce_name e)), (''volume'', JInt (ce_volume e)), (''tone'', JInt (ce_tone_id e))]"

definition handle_get_wireless_chimes :: "u64 \<Rightarrow> network nop_handler" where
  "handle_get_wireless_chimes now rq rs s =
     need (arg_has rq ''channel'')
       (case nw_chime s of
          None \<Rightarrow> ok_obj [(''status'', JStr ''idle''), (''chimes'', JArr [])] rs s
        | Some e \<Rightarrow>
            (case nop_chime_pair_status e now of
               (e, st, _, _) \<Rightarrow>
                 ok_obj [(''status'', JStr (chime_state_name st)),
                   (''chimes'', JArr (map chime_json (nop_chime_list e 16)))] rs
                   (s\<lparr>nw_chime := Some e\<rparr>))) rs s"

text \<open>The loop over the elements of the request's array, each with a call on the engine.\<close>

definition set_chime_item :: "json \<Rightarrow> nop_chime \<Rightarrow> nop_chime" where
  "set_chime_item item e =
     (case nop_json_str (Some item) ''id'' None of
        None \<Rightarrow> e
      | Some i \<Rightarrow> fst (nop_chime_set e i (c_int (nop_json_num (Some item) ''volume'' 50)) (c_int (nop_json_num (Some item) ''tone'' 0))))"

definition remove_chime_item :: "json \<Rightarrow> nop_chime \<Rightarrow> nop_chime" where
  "remove_chime_item item e =
     (case nop_json_str (Some item) ''id'' None of None \<Rightarrow> e | Some i \<Rightarrow> fst (nop_chime_remove e i))"

definition handle_set_wireless_chimes :: "network nop_handler" where
  "handle_set_wireless_chimes rq rs s =
     need (arg_has rq ''channel'' \<and> arg_arr rq ''channels'') (ok_empty rs (s\<lparr>nw_chime := map_option (fold set_chime_item (json_children (arg_get rq ''channels''))) (nw_chime s)\<rparr>)) rs s"

definition handle_ring_wireless_chimes :: "network nop_handler" where
  "handle_ring_wireless_chimes rq rs s =
     need (arg_has rq ''channel'' \<and> arg_arr rq ''channels'') (ok_empty rs s) rs s"

section \<open>Wireless cameras\<close>

fun addcamera_state_name :: "nop_addcamera_state \<Rightarrow> string" where
  "addcamera_state_name NOP_ADDCAMERA_SCANNING = ''scanning''"
| "addcamera_state_name NOP_ADDCAMERA_DONE = ''done''"
| "addcamera_state_name NOP_ADDCAMERA_IDLE = ''idle''"

definition handle_get_add_wireless_cameras_status :: "u64 \<Rightarrow> network nop_handler" where
  "handle_get_add_wireless_cameras_status now rq rs s =
     (case nw_addcamera s of
        None \<Rightarrow> ok_obj [(''status'', JStr ''idle''), (''channels'', JArr [])] rs s
      | Some e \<Rightarrow>
          (case nop_nvr_addcamera_status e now of
             (e, st, added, left) \<Rightarrow>
               ok_obj [(''status'', JStr (addcamera_state_name st)), (''addedCount'', JInt added),
                 (''secondsRemaining'', JInt left),
                 (''channels'', JArr [])] rs (s\<lparr>nw_addcamera := Some e\<rparr>)))"

definition handle_start_add_wireless_cameras :: "u64 \<Rightarrow> network nop_handler" where
  "handle_start_add_wireless_cameras now rq rs s =
     ok_empty rs (s\<lparr>nw_addcamera := map_option (\<lambda>e. fst (nop_nvr_addcamera_start e 0 now now)) (nw_addcamera s)\<rparr>)"

definition handle_stop_add_wireless_cameras :: "network nop_handler" where
  "handle_stop_add_wireless_cameras rq rs s =
     ok_empty rs (s\<lparr>nw_addcamera := map_option (\<lambda>e. fst (nop_nvr_addcamera_stop e)) (nw_addcamera s)\<rparr>)"

definition handle_start_remove_wireless_cameras :: "network nop_handler" where
  "handle_start_remove_wireless_cameras rq rs s = need (arg_arr rq ''channels'') (ok_empty rs s) rs s"

definition handle_start_add_wireless_chime :: "u64 \<Rightarrow> network nop_handler" where
  "handle_start_add_wireless_chime now rq rs s =
     need (arg_has rq ''channel'') (ok_empty rs (s\<lparr>nw_chime := map_option (\<lambda>e. fst (nop_chime_pair_start e 0 now now)) (nw_chime s)\<rparr>)) rs s"

definition handle_stop_add_wireless_chime :: "network nop_handler" where
  "handle_stop_add_wireless_chime rq rs s =
     need (arg_has rq ''channel'') (ok_empty rs (s\<lparr>nw_chime := map_option (\<lambda>e. fst (nop_chime_pair_stop e)) (nw_chime s)\<rparr>)) rs s"

definition handle_start_remove_wireless_chime :: "network nop_handler" where
  "handle_start_remove_wireless_chime rq rs s =
     need (arg_has rq ''channel'' \<and> arg_arr rq ''channels'') (ok_empty rs (s\<lparr>nw_chime := map_option (fold remove_chime_item (json_children (arg_get rq ''channels''))) (nw_chime s)\<rparr>)) rs s"

definition cap_network_register :: "u64 \<Rightarrow> network cap_regs" where
  "cap_network_register now =
    [(''getCurrentWifi'', CAP_NETWORK, handle_get_current_wifi), (''getWiFiConfig'', CAP_NETWORK, handle_get_wifi_config),
     (''setWiFiConfig'', CAP_NETWORK, handle_set_wifi_config), (''setWifi'', CAP_NETWORK, handle_set_wifi),
     (''queryWifiList'', CAP_NETWORK, handle_query_wifi_list), (''getWanInterface'', CAP_NETWORK, handle_get_wan_interface),
     (''X_NightOwl_getChannelWifiSignalStrength'', CAP_NETWORK, handle_get_channel_wifi_signal_strength),
     (''getWirelessChimes'', CAP_NETWORK, handle_get_wireless_chimes now),
     (''setWirelessChimes'', CAP_NETWORK, handle_set_wireless_chimes),
     (''ringWirelessChimes'', CAP_NETWORK, handle_ring_wireless_chimes),
     (''getAddWirelessCamerasStatus'', CAP_NETWORK, handle_get_add_wireless_cameras_status now),
     (''startAddWirelessCameras'', CAP_NETWORK, handle_start_add_wireless_cameras now),
     (''stopAddWirelessCameras'', CAP_NETWORK, handle_stop_add_wireless_cameras),
     (''startRemoveWirelessCameras'', CAP_NETWORK, handle_start_remove_wireless_cameras),
     (''startAddWirelessChime'', CAP_NETWORK, handle_start_add_wireless_chime now),
     (''stopAddWirelessChime'', CAP_NETWORK, handle_stop_add_wireless_chime),
     (''startRemoveWirelessChime'', CAP_NETWORK, handle_start_remove_wireless_chime)]"

lemmas network_handlers = handle_get_current_wifi_def handle_get_wifi_config_def handle_set_wifi_config_def handle_set_wifi_def
  handle_query_wifi_list_def handle_get_wan_interface_def handle_get_channel_wifi_signal_strength_def handle_get_wireless_chimes_def
  handle_set_wireless_chimes_def handle_ring_wireless_chimes_def handle_get_add_wireless_cameras_status_def handle_start_add_wireless_cameras_def
  handle_stop_add_wireless_cameras_def handle_start_remove_wireless_cameras_def handle_start_add_wireless_chime_def handle_stop_add_wireless_chime_def
  handle_start_remove_wireless_chime_def

end
