(* ===== verification/Cap_Ai.thy ===== *)
theory Cap_Ai
  imports Cap_Base
begin

text \<open>
  business/caps/cap_ai.c and cap_ai_advanced.c: detection filters, thresholds, tracking, activity zones, line crossing and field
  intrusion rules, and event information. Every value is a JSON object kept as printed text per channel (an index out of range is
  taken for channel 0); the getters parse it again and fall back to a default.
\<close>

definition ai_chan :: "nop_request \<Rightarrow> int" where
  "ai_chan rq = (let c = arg_int rq ''channel'' 1 in if c < 0 \<or> c \<ge> 16 then 0 else c)"

record ai =
  g_detect_filter_json :: "int \<Rightarrow> string option"
  g_detect_threshold_json :: "int \<Rightarrow> string option"
  g_ptz_track_json :: "int \<Rightarrow> string option"
  g_activity_zone_json :: "int \<Rightarrow> string option"
  g_line_cross_json :: "int \<Rightarrow> string option"
  g_field_intrusion_json :: "int \<Rightarrow> string option"
  g_event_ext_info_config_json :: "int \<Rightarrow> string option"

definition ai0 :: ai where
  "ai0 = \<lparr>g_detect_filter_json = \<lambda>_. None, g_detect_threshold_json = \<lambda>_. None, g_ptz_track_json = \<lambda>_. None,
     g_activity_zone_json = \<lambda>_. None, g_line_cross_json = \<lambda>_. None, g_field_intrusion_json = \<lambda>_. None,
     g_event_ext_info_config_json = \<lambda>_. None\<rparr>"

definition clone_json :: "json_codec \<Rightarrow> json option \<Rightarrow> json option" where
  "clone_json jc v = Option.bind v (\<lambda>v. Option.bind (jc_print jc v) (jc_parse jc))"

definition cloned_member :: "json_codec \<Rightarrow> nop_request \<Rightarrow> string \<Rightarrow> json" where
  "cloned_member jc rq k = (case clone_json jc (arg_get rq k) of Some c \<Rightarrow> c | None \<Rightarrow> JArr [])"

text \<open>A getter of such an object, and a setter that replaces it.\<close>

definition ai_stored :: "json_codec \<Rightarrow> string option \<Rightarrow> json \<Rightarrow> nop_response \<Rightarrow> 's \<Rightarrow> nop_status \<times> nop_response \<times> 's" where
  "ai_stored jc text dflt rs s = (NOP_OK, rs\<lparr>rs_content := Some (snapshot_or jc text (rs_content rs) dflt)\<rparr>, s)"

definition add_default_filter_sensor :: "string \<Rightarrow> json" where
  "add_default_filter_sensor n = JObj [(''sensor'', JStr n), (''min'', JArr []), (''max'', JArr []), (''movement'', JBool False)]"

definition filter_default :: "nop_device_config option \<Rightarrow> json" where
  "filter_default cf = JObj [(''sensors'', JArr (cap_for_each_detection_type cf add_default_filter_sensor))]"

definition add_default_threshold_sensor :: "string \<Rightarrow> json" where
  "add_default_threshold_sensor n = JObj [(''sensor'', JStr n), (''threshold'', JInt 80)]"

definition threshold_default :: "nop_device_config option \<Rightarrow> json" where
  "threshold_default cf = JObj [(''sensors'', JArr (cap_for_each_detection_type cf add_default_threshold_sensor))]"

definition track_default :: json where "track_default = JObj [(''modes'', JArr [JStr ''hd''])]"

definition add_default_activity_zone :: json where
  "add_default_activity_zone = JObj [(''width'', JInt 22), (''height'', JInt 18), (''sensitivity'', JStr ''middle''),
     (''activityZonePoints'', JArr (map (\<lambda>row. JArr [JInt 0, JInt row]) [0..2]))]"

definition zone_snapshot :: "json_codec \<Rightarrow> nop_request \<Rightarrow> json" where
  "zone_snapshot jc rq = JObj [(''width'', JNum (arg_num rq ''width'' 22)), (''height'', JNum (arg_num rq ''height'' 18)),
     (''sensitivity'', JStr (arg_str_or rq ''sensitivity'' ''middle'')), (''activityZonePoints'', cloned_member jc rq ''activityZonePoints'')]"

definition handle_get_detect_filter :: "json_codec \<Rightarrow> nop_device_config option \<Rightarrow> ai nop_handler" where
  "handle_get_detect_filter jc cf rq rs s = ai_stored jc (g_detect_filter_json s (ai_chan rq)) (filter_default cf) rs s"

definition handle_set_detect_filter :: "json_codec \<Rightarrow> ai nop_handler" where
  "handle_set_detect_filter jc rq rs s =
     need (arg_has rq ''sensors'') (ok_empty rs (s\<lparr>g_detect_filter_json := (g_detect_filter_json s)(ai_chan rq := jc_print jc (JObj [(''sensors'', cloned_member jc rq ''sensors'')]))\<rparr>)) rs s"

definition handle_get_detect_threshold :: "json_codec \<Rightarrow> nop_device_config option \<Rightarrow> ai nop_handler" where
  "handle_get_detect_threshold jc cf rq rs s =
     ai_stored jc (g_detect_threshold_json s (ai_chan rq)) (threshold_default cf) rs s"

definition handle_set_detect_threshold :: "json_codec \<Rightarrow> ai nop_handler" where
  "handle_set_detect_threshold jc rq rs s =
     need (arg_has rq ''sensors'') (ok_empty rs (s\<lparr>g_detect_threshold_json := (g_detect_threshold_json s)(ai_chan rq := jc_print jc (JObj [(''sensors'', cloned_member jc rq ''sensors'')]))\<rparr>)) rs s"

definition handle_get_ptz_track :: "json_codec \<Rightarrow> ai nop_handler" where
  "handle_get_ptz_track jc rq rs s = ai_stored jc (g_ptz_track_json s (ai_chan rq)) track_default rs s"

definition handle_set_ptz_track :: "json_codec \<Rightarrow> ai nop_handler" where
  "handle_set_ptz_track jc rq rs s =
     need (arg_has rq ''modes'') (ok_empty rs (s\<lparr>g_ptz_track_json := (g_ptz_track_json s)(ai_chan rq := jc_print jc (JObj [(''modes'', cloned_member jc rq ''modes'')]))\<rparr>)) rs s"

definition handle_set_channel_sensor_config :: "onvif_map \<Rightarrow> ai nop_handler" where
  "handle_set_channel_sensor_config om rq rs s =
     need (arg_has rq ''sensors'') (mapped om (arg_int rq ''channel'' 0) rq rs s (ok_empty rs s)) rs s"

definition handle_get_activity_zone_types :: "ai nop_handler" where
  "handle_get_activity_zone_types rq rs s =
     ok_obj [(''triggers'', JArr [JStr (nop_detect_type_name NOP_DETECT_PIXEL_CHANGE)])] rs s"

definition handle_get_trigger_activity_zone :: "onvif_map \<Rightarrow> json_codec \<Rightarrow> ai nop_handler" where
  "handle_get_trigger_activity_zone om jc rq rs s =
     mapped om (ai_chan rq) rq rs s (ai_stored jc (g_activity_zone_json s (ai_chan rq)) add_default_activity_zone rs s)"

definition handle_set_trigger_activity_zone :: "onvif_map \<Rightarrow> json_codec \<Rightarrow> ai nop_handler" where
  "handle_set_trigger_activity_zone om jc rq rs s =
     mapped om (ai_chan rq) rq rs s
       (need (arg_has rq ''triggers'' \<or> arg_has rq ''activityZonePoints'') (ok_empty rs (s\<lparr>g_activity_zone_json := (g_activity_zone_json s)(ai_chan rq := jc_print jc (zone_snapshot jc rq))\<rparr>)) rs s)"

definition cap_ai_register :: "onvif_map \<Rightarrow> json_codec \<Rightarrow> nop_device_config option \<Rightarrow> ai cap_regs" where
  "cap_ai_register om jc cf =
    [(''AI_getDetectFilter'', CAP_AI, handle_get_detect_filter jc cf),
     (''AI_setDetectFilter'', CAP_AI, handle_set_detect_filter jc),
     (''AI_getDetectThreshold'', CAP_AI, handle_get_detect_threshold jc cf),
     (''AI_setDetectThreshold'', CAP_AI, handle_set_detect_threshold jc), (''getPtzTrack'', CAP_AI, handle_get_ptz_track jc),
     (''setPtzTrack'', CAP_AI, handle_set_ptz_track jc),
     (''setChannelSensorConfig'', CAP_AI, handle_set_channel_sensor_config om),
     (''X_NightOwl_getChannelActivityZoneTypes'', CAP_AI, handle_get_activity_zone_types),
     (''X_NightOwl_getChannelTriggerActivityZone'', CAP_AI, handle_get_trigger_activity_zone om jc),
     (''X_NightOwl_setChannelTriggerActivityZone'', CAP_AI, handle_set_trigger_activity_zone om jc)]"

section \<open>Advanced detection (cap_ai_advanced.c)\<close>

definition make_object_detection_caps :: json where
  "make_object_detection_caps = JObj [(''drawRegion'', JBool True), (''drawText'', JBool True), (''drawIn'', JArr [JStr ''main'', JStr ''sub'']),
     (''minMaxFilter'', JObj []), (''threshold'', JObj []), (''metaData'', JObj [(''eventExtInfo'', JBool True)])]"

definition add_default_triggers :: json where
  "add_default_triggers = JArr [JStr (nop_detect_type_name NOP_DETECT_HUMAN), JStr (nop_detect_type_name NOP_DETECT_VEHICLE)]"

definition handle_get_channel_ai_capabilities :: "ai nop_handler" where
  "handle_get_channel_ai_capabilities rq rs s =
     ok_obj [
       (''objectDetection'', JObj (map (\<lambda>t. (nop_detect_type_name t, make_object_detection_caps))
          [NOP_DETECT_HUMAN, NOP_DETECT_VEHICLE, NOP_DETECT_ANIMAL, NOP_DETECT_PACKAGE])),
       (''ruledDetection'', JObj [
          (nop_detect_type_name NOP_DETECT_LINE_CROSS, JObj [(''maxLineCount'', JInt 2),
            (''maxPointsPerLine'', JInt 2),
             (''classFilter'', add_default_triggers),
               (''direction'', JArr [JStr ''AB'', JStr ''BA'', JStr ''BOTH''])]),
          (nop_detect_type_name NOP_DETECT_FIELD_INTRUSION, JObj [(''maxFieldCount'', JInt 2),
            (''maxVerticesPerField'', JInt 6),
             (''classFilter'', add_default_triggers)]),
          (''objectMissing'', JObj [])])] rs s"

definition add_default_line_cross_rule :: "string \<Rightarrow> json" where
  "add_default_line_cross_rule n = JObj [(''enable'', JBool False), (''name'', JStr n), (''line'', JArr []), (''direction'', JStr ''BOTH''),
     (''triggers'', add_default_triggers)]"

definition line_cross_default :: json where
  "line_cross_default = JObj [(''rules'', JArr [add_default_line_cross_rule ''line1'', add_default_line_cross_rule ''line2''])]"

definition add_default_field_intrusion_rule :: "string \<Rightarrow> json" where
  "add_default_field_intrusion_rule n = JObj [(''enable'', JBool False), (''name'', JStr n), (''area'', JArr []), (''timeThreshold'', JInt 0),
     (''triggers'', add_default_triggers)]"

definition field_intrusion_default :: json where
  "field_intrusion_default = JObj [(''rules'', JArr [add_default_field_intrusion_rule ''area1'', add_default_field_intrusion_rule ''area2''])]"

definition ext_info_default :: json where
  "ext_info_default = JObj [(''enable'', JBool False), (''collectionIntervalMs'', JInt 1000)]"

definition ext_info_snapshot :: "nop_request \<Rightarrow> json" where
  "ext_info_snapshot rq = JObj [(''enable'', JBool (arg_bool rq ''enable'' False)),
     (''collectionIntervalMs'', JNum (arg_num rq ''collectionIntervalMs'' 1000))]"

definition handle_get_channel_line_cross_detect :: "onvif_map \<Rightarrow> json_codec \<Rightarrow> ai nop_handler" where
  "handle_get_channel_line_cross_detect om jc rq rs s =
     mapped om (ai_chan rq) rq rs s (ai_stored jc (g_line_cross_json s (ai_chan rq)) line_cross_default rs s)"

definition handle_set_channel_line_cross_detect :: "onvif_map \<Rightarrow> json_codec \<Rightarrow> ai nop_handler" where
  "handle_set_channel_line_cross_detect om jc rq rs s =
     mapped om (ai_chan rq) rq rs s
       (need (arg_has rq ''rules'') (ok_obj [(''error'',
         JStr '''')] rs (s\<lparr>g_line_cross_json := (g_line_cross_json s)(ai_chan rq := jc_print jc (JObj [(''rules'', cloned_member jc rq ''rules'')]))\<rparr>)) rs s)"

definition handle_get_channel_field_intrusion_detect :: "onvif_map \<Rightarrow> json_codec \<Rightarrow> ai nop_handler" where
  "handle_get_channel_field_intrusion_detect om jc rq rs s =
     mapped om (ai_chan rq) rq rs s (ai_stored jc (g_field_intrusion_json s (ai_chan rq)) field_intrusion_default rs s)"

definition handle_set_channel_field_intrusion_detect :: "onvif_map \<Rightarrow> json_codec \<Rightarrow> ai nop_handler" where
  "handle_set_channel_field_intrusion_detect om jc rq rs s =
     mapped om (ai_chan rq) rq rs s
       (need (arg_has rq ''rules'') (ok_obj [(''error'',
         JStr '''')] rs (s\<lparr>g_field_intrusion_json := (g_field_intrusion_json s)(ai_chan rq := jc_print jc (JObj [(''rules'', cloned_member jc rq ''rules'')]))\<rparr>)) rs s)"

definition handle_get_event_ext_info :: "ai nop_handler" where
  "handle_get_event_ext_info rq rs s =
     need (arg_has rq ''startTime'') (ok_obj [(''startTime'', JNum (arg_num rq ''startTime'' 0)),
       (''hdTrigger'', JArr []), (''fdTrigger'', JArr []), (''vdTrigger'', JArr []), (''adTrigger'', JArr []),
       (''pdTrigger'', JArr [])] rs s) rs s"

definition handle_get_event_ext_info_batch_by_reverse_time :: "ai nop_handler" where
  "handle_get_event_ext_info_batch_by_reverse_time rq rs s =
     need (arg_has rq ''startTime'') (ok_obj [(''list'', JArr [])] rs s) rs s"

definition handle_get_event_ext_info_config :: "json_codec \<Rightarrow> ai nop_handler" where
  "handle_get_event_ext_info_config jc rq rs s =
     ai_stored jc (g_event_ext_info_config_json s (ai_chan rq)) ext_info_default rs s"

definition handle_set_event_ext_info_config :: "json_codec \<Rightarrow> ai nop_handler" where
  "handle_set_event_ext_info_config jc rq rs s =
     need (arg_has rq ''enable'' \<or> arg_has rq ''collectionIntervalMs'') (ok_empty rs (s\<lparr>g_event_ext_info_config_json := (g_event_ext_info_config_json s)(ai_chan rq := jc_print jc (ext_info_snapshot rq))\<rparr>)) rs s"

definition cap_ai_advanced_register :: "onvif_map \<Rightarrow> json_codec \<Rightarrow> ai cap_regs" where
  "cap_ai_advanced_register om jc =
    [(''AI_getChannelAICapabilities'', CAP_AI, handle_get_channel_ai_capabilities),
     (''AI_getChannelLineCrossDetect'', CAP_AI, handle_get_channel_line_cross_detect om jc),
     (''AI_setChannelLineCrossDetect'', CAP_AI, handle_set_channel_line_cross_detect om jc),
     (''AI_getChannelFieldIntrusionDetect'', CAP_AI, handle_get_channel_field_intrusion_detect om jc),
     (''AI_setChannelFieldIntrusionDetect'', CAP_AI, handle_set_channel_field_intrusion_detect om jc),
     (''AI_getEventExtInfo'', CAP_AI, handle_get_event_ext_info),
     (''AI_getEventExtInfoBatchByReverseTime'', CAP_AI, handle_get_event_ext_info_batch_by_reverse_time),
     (''AI_getEventExtInfoConfig'', CAP_AI, handle_get_event_ext_info_config jc),
     (''AI_setEventExtInfoConfig'', CAP_AI, handle_set_event_ext_info_config jc)]"

section \<open>Settings\<close>

text \<open>The two files keep separate variables: their families together are one family over the record.\<close>

definition ai_commands :: "onvif_map \<Rightarrow> json_codec \<Rightarrow> nop_device_config option \<Rightarrow> ai cap_regs" where
  "ai_commands om jc cf = cap_ai_register om jc cf @ cap_ai_advanced_register om jc"

definition json_setting :: "string \<Rightarrow> string \<Rightarrow> (nop_request \<Rightarrow> int) \<Rightarrow> json_codec \<Rightarrow> (nop_request \<Rightarrow> bool) \<Rightarrow> (nop_request \<Rightarrow> json) \<Rightarrow> json \<Rightarrow> setting_decl" where
  "json_setting setf getf chan jc c snap dflt =
     \<lparr>sd_set = setf, sd_get = getf, sd_chan = chan, sd_need = \<lambda>_. True,
      sd_wr = \<lambda>rq. if c rq then Some (snapshot_or jc (jc_print jc (snap rq)) None dflt) else None, sd_dflt = \<lambda>_. dflt\<rparr>"

lemmas ai_handlers = handle_get_detect_filter_def handle_set_detect_filter_def handle_get_detect_threshold_def handle_set_detect_threshold_def
  handle_get_ptz_track_def handle_set_ptz_track_def handle_set_channel_sensor_config_def handle_get_activity_zone_types_def
  handle_get_trigger_activity_zone_def handle_set_trigger_activity_zone_def handle_get_channel_ai_capabilities_def handle_get_channel_line_cross_detect_def
  handle_set_channel_line_cross_detect_def handle_get_channel_field_intrusion_detect_def handle_set_channel_field_intrusion_detect_def handle_get_event_ext_info_def
  handle_get_event_ext_info_batch_by_reverse_time_def handle_get_event_ext_info_config_def handle_set_event_ext_info_config_def

lemmas ai_simps = cap_ai_register_def setting_simps ai_handlers Let_def ok_obj_def cap_answer_def cap_reply_def
  ai0_def nop_response_init_def snapshot_or_def or_default_def ai_commands_def cap_ai_advanced_register_def json_setting_def ai_stored_def fails_def need_def mapped_def

interpretation ai_filter: setting "ai_commands om jc cf"
    "json_setting ''AI_setDetectFilter'' ''AI_getDetectFilter'' ai_chan jc (\<lambda>rq. arg_has rq ''sensors'') (\<lambda>rq. JObj [(''sensors'', cloned_member jc rq ''sensors'')]) (filter_default cf)"
    "\<lambda>s k. snapshot_or jc (g_detect_filter_json s k) None (filter_default cf)" ai0 for om jc cf
  by unfold_locales (simp_all add: ai_simps cong: conj_cong split: prod.split)

interpretation ai_threshold: setting "ai_commands om jc cf"
    "json_setting ''AI_setDetectThreshold'' ''AI_getDetectThreshold'' ai_chan jc (\<lambda>rq. arg_has rq ''sensors'') (\<lambda>rq. JObj [(''sensors'', cloned_member jc rq ''sensors'')]) (threshold_default cf)"
    "\<lambda>s k. snapshot_or jc (g_detect_threshold_json s k) None (threshold_default cf)" ai0 for om jc cf
  by unfold_locales (simp_all add: ai_simps cong: conj_cong split: prod.split)

interpretation ai_track: setting "ai_commands om jc cf"
    "json_setting ''setPtzTrack'' ''getPtzTrack'' ai_chan jc (\<lambda>rq. arg_has rq ''modes'') (\<lambda>rq. JObj [(''modes'', cloned_member jc rq ''modes'')]) track_default"
    "\<lambda>s k. snapshot_or jc (g_ptz_track_json s k) None track_default" ai0 for om jc cf
  by unfold_locales (simp_all add: ai_simps cong: conj_cong split: prod.split)

interpretation ai_ext_info: setting "ai_commands om jc cf"
    "json_setting ''AI_setEventExtInfoConfig'' ''AI_getEventExtInfoConfig'' ai_chan jc (\<lambda>rq. arg_has rq ''enable'' \<or> arg_has rq ''collectionIntervalMs'') (\<lambda>rq. ext_info_snapshot rq) ext_info_default"
    "\<lambda>s k. snapshot_or jc (g_event_ext_info_config_json s k) None ext_info_default" ai0 for om jc cf
  by unfold_locales (simp_all add: ai_simps cong: conj_cong split: prod.split)

definition ai_settings :: "onvif_map \<Rightarrow> json_codec \<Rightarrow> nop_device_config option \<Rightarrow> setting_decl list" where
  "ai_settings om jc cf =
    [json_setting ''AI_setDetectFilter'' ''AI_getDetectFilter'' ai_chan jc (\<lambda>rq. arg_has rq ''sensors'') (\<lambda>rq. JObj [(''sensors'', cloned_member jc rq ''sensors'')]) (filter_default cf),
     json_setting ''AI_setDetectThreshold'' ''AI_getDetectThreshold'' ai_chan jc (\<lambda>rq. arg_has rq ''sensors'') (\<lambda>rq. JObj [(''sensors'', cloned_member jc rq ''sensors'')]) (threshold_default cf),
     json_setting ''setPtzTrack'' ''getPtzTrack'' ai_chan jc (\<lambda>rq. arg_has rq ''modes'') (\<lambda>rq. JObj [(''modes'', cloned_member jc rq ''modes'')]) track_default,
     json_setting ''AI_setEventExtInfoConfig'' ''AI_getEventExtInfoConfig'' ai_chan jc (\<lambda>rq. arg_has rq ''enable'' \<or> arg_has rq ''collectionIntervalMs'') (\<lambda>rq. ext_info_snapshot rq) ext_info_default]"

lemma ai_settings_ok: "list_all (setting_ok (ai_commands om jc cf) ai0) (ai_settings om jc cf)"
  by (simp add: ai_settings_def ai_filter.holds ai_threshold.holds ai_track.holds ai_ext_info.holds)

text \<open>The other setters of the family.\<close>

lemma ai_left_over: "left_over (ai_commands om jc cf) (ai_settings om jc cf) =
    [''setChannelSensorConfig'', ''X_NightOwl_setChannelTriggerActivityZone'', ''AI_setChannelLineCrossDetect'', ''AI_setChannelFieldIntrusionDetect'']"
  by (simp add: left_over_def setters_of_def is_setter_def setting_simps ai_settings_def ai_commands_def cap_ai_register_def cap_ai_advanced_register_def json_setting_def)

end
