(* ===== verification/Cap_Hal.thy ===== *)
theory Cap_Hal
  imports Cap_Base
begin

text \<open>
  The capability handlers that work on a driver of the hardware abstraction layer: business/caps/cap_light.c, cap_ota.c,
  cap_record.c, cap_stream.c, cap_audio.c, cap_storage.c and cap_device.c, with cap_auth.c. A driver interface is a record of
  optional functions, as the function tables of hal/*.h are; the drivers are firmware and not part of the repository, so the
  interface is a parameter of the handlers (None when nothing is registered) and \<open>'d\<close> is whatever state the firmware keeps. What a
  driver writes through a pointer is part of its result.
\<close>

section \<open>Driver calls\<close>

text \<open>A handler that ends in a driver call: not implemented without the driver or the function.\<close>

definition hal_call :: "('d \<Rightarrow> nop_status \<times> 'd) option \<Rightarrow> nop_response \<Rightarrow> 'd \<Rightarrow> nop_status \<times> nop_response \<times> 'd" where
  "hal_call f rs d = (case f of None \<Rightarrow> fails NOP_ERR_NOTIMPL rs d | Some f \<Rightarrow> case f d of (st, d) \<Rightarrow> (st, rs, d))"

text \<open>A handler that reads from the driver: any failure of the driver is an internal error.\<close>

definition hal_read :: "('d \<Rightarrow> (nop_status \<times> 'a) \<times> 'd) option \<Rightarrow> ('a \<Rightarrow> json) \<Rightarrow> nop_response \<Rightarrow> 'd \<Rightarrow>
    nop_status \<times> nop_response \<times> 'd" where
  "hal_read f show_answer rs d =
     (case f of None \<Rightarrow> fails NOP_ERR_NOTIMPL rs d
      | Some f \<Rightarrow> case f d of ((st, v), d) \<Rightarrow>
          if st \<noteq> NOP_OK then fails NOP_ERR_INTERNAL rs d else (NOP_OK, rs\<lparr>rs_content := Some (show_answer v)\<rparr>, d))"

section \<open>Light (cap_light.c)\<close>

record 'd hal_light =
  hl_set_switch :: "(int \<Rightarrow> int \<Rightarrow> 'd \<Rightarrow> nop_status \<times> 'd) option"
  hl_set_brightness :: "(int \<Rightarrow> int \<Rightarrow> 'd \<Rightarrow> nop_status \<times> 'd) option"

definition handle_hal_light_switch :: "'d hal_light option \<Rightarrow> 'd nop_handler" where
  "handle_hal_light_switch light rq rs d =
     need (arg_has rq ''enable'')
       (hal_call (map_option (\<lambda>f. f (arg_int rq ''channel'' 0) (if arg_bool rq ''enable'' False then 1 else 0))
          (Option.bind light hl_set_switch)) rs d) rs d"

definition handle_set_light_brightness :: "'d hal_light option \<Rightarrow> 'd nop_handler" where
  "handle_set_light_brightness light rq rs d =
     need (arg_has rq ''brightness'')
       (hal_call (map_option (\<lambda>f. f (arg_int rq ''channel'' 0) (arg_int rq ''brightness'' 0))
          (Option.bind light hl_set_brightness)) rs d) rs d"

definition cap_light_register :: "'d hal_light option \<Rightarrow> 'd cap_regs" where
  "cap_light_register light =
    [(''setChannelLightSwitch'', CAP_LIGHT, handle_hal_light_switch light),
     (''setChannelLightBrightness'', CAP_LIGHT, handle_set_light_brightness light)]"

section \<open>Firmware upgrade (cap_ota.c)\<close>

datatype hal_ota_status = HAL_OTA_STATUS_IDLE | HAL_OTA_STATUS_DOWNLOADING | HAL_OTA_STATUS_FAILED
  | HAL_OTA_STATUS_DOWNLOADED | HAL_OTA_STATUS_NONE_AVAILABLE

fun ota_status_int :: "hal_ota_status \<Rightarrow> int" where
  "ota_status_int HAL_OTA_STATUS_IDLE = 0"
| "ota_status_int HAL_OTA_STATUS_DOWNLOADING = 1"
| "ota_status_int HAL_OTA_STATUS_FAILED = 2"
| "ota_status_int HAL_OTA_STATUS_DOWNLOADED = 3"
| "ota_status_int HAL_OTA_STATUS_NONE_AVAILABLE = 4"

record 'd hal_ota =
  ho_begin_upgrade :: "(string option \<Rightarrow> int \<Rightarrow> 'd \<Rightarrow> nop_status \<times> 'd) option"
  ho_get_upgrade_status :: "('d \<Rightarrow> (nop_status \<times> hal_ota_status \<times> int) \<times> 'd) option"

definition handle_hal_upgrade_firmware :: "'d hal_ota option \<Rightarrow> 'd nop_handler" where
  "handle_hal_upgrade_firmware ota rq rs d =
     hal_call (map_option (\<lambda>f. f (arg_str rq ''url'') (if arg_bool rq ''auto'' True then 1 else 0))
       (Option.bind ota ho_begin_upgrade)) rs d"

definition handle_check_upgrade_status :: "'d hal_ota option \<Rightarrow> 'd nop_handler" where
  "handle_check_upgrade_status ota rq rs d =
     hal_read (Option.bind ota ho_get_upgrade_status)
       (\<lambda>(status, error_code). JObj ((''status'', JInt (ota_status_int status)) #
          (if status = HAL_OTA_STATUS_FAILED then [(''error'', JInt error_code)] else []))) rs d"

definition cap_ota_register :: "'d hal_ota option \<Rightarrow> 'd cap_regs" where
  "cap_ota_register ota =
    [(''upgradeFirmware'', CAP_OTA, handle_hal_upgrade_firmware ota),
     (''checkFirmwareUpgradeStatus'', CAP_OTA, handle_check_upgrade_status ota)]"

section \<open>Recording (cap_record.c)\<close>

definition HAL_RECORD_MAX_RULES :: int where "HAL_RECORD_MAX_RULES = 16"

record hal_record_rule =
  hr_id :: string
  hr_weekday_mask :: u32
  hr_start_time :: string
  hr_end_time :: string

text \<open>The rules are the array of the C struct, read below the count.\<close>

record hal_record_schedule =
  hs_rule_count :: int
  hs_rules :: "nat \<Rightarrow> hal_record_rule"

record 'd hal_record =
  hr_get_recording_enabled :: "(int \<Rightarrow> 'd \<Rightarrow> (nop_status \<times> int) \<times> 'd) option"
  hr_set_recording_enabled :: "(int \<Rightarrow> int \<Rightarrow> 'd \<Rightarrow> nop_status \<times> 'd) option"
  hr_get_continuous_schedule :: "(int \<Rightarrow> 'd \<Rightarrow> (nop_status \<times> hal_record_schedule) \<times> 'd) option"

definition handle_get_recording_switch :: "'d hal_record option \<Rightarrow> 'd nop_handler" where
  "handle_get_recording_switch record rq rs d =
     need (arg_has rq ''channel'')
       (hal_read (map_option (\<lambda>f. f (arg_int rq ''channel'' 0)) (Option.bind record hr_get_recording_enabled))
          (\<lambda>enabled. JObj [(''value'', JBool (enabled \<noteq> 0))]) rs d) rs d"

definition handle_set_recording_switch :: "'d hal_record option \<Rightarrow> 'd nop_handler" where
  "handle_set_recording_switch record rq rs d =
     need (arg_has rq ''channel'' \<and> arg_has rq ''value'')
       (hal_call (map_option (\<lambda>f. f (arg_int rq ''channel'' 0) (if arg_bool rq ''value'' False then 1 else 0))
          (Option.bind record hr_set_recording_enabled)) rs d) rs d"

definition weekdays :: "u32 \<Rightarrow> int list" where
  "weekdays days = map (\<lambda>weekday. int weekday + 1) (filter (\<lambda>weekday. bit days weekday) [0..<7])"

definition schedule_rule_json :: "hal_record_rule \<Rightarrow> json" where
  "schedule_rule_json rule =
     JObj [(''id'', JStr (hr_id rule)), (''weekdays'', JArr (map JInt (weekdays (hr_weekday_mask rule)))),
           (''startTime'', JStr (hr_start_time rule)), (''endTime'', JStr (hr_end_time rule))]"

definition handle_get_continuous_schedule :: "'d hal_record option \<Rightarrow> 'd nop_handler" where
  "handle_get_continuous_schedule record rq rs d =
     need (arg_has rq ''channel'')
       (hal_read (map_option (\<lambda>f. f (arg_int rq ''channel'' 0)) (Option.bind record hr_get_continuous_schedule))
          (\<lambda>schedule. JObj [(''rules'',
             JArr (map (\<lambda>i. schedule_rule_json (hs_rules schedule i)) [0..<nat (min (hs_rule_count schedule) HAL_RECORD_MAX_RULES)]))])
          rs d) rs d"

definition cap_record_register :: "'d hal_record option \<Rightarrow> 'd cap_regs" where
  "cap_record_register record =
    [(''X_NightOwl_getChannelRecordingSwitch'', CAP_RECORD, handle_get_recording_switch record),
     (''X_NightOwl_setChannelRecordingSwitch'', CAP_RECORD, handle_set_recording_switch record),
     (''X_NightOwl_getChannelContinuousRecordingSchedule'', CAP_RECORD, handle_get_continuous_schedule record)]"

section \<open>Live streams (cap_stream.c)\<close>

text \<open>The functions of the video driver that the handlers use; \<open>encoder_config\<close> is what modifying a stream sets.\<close>

record encoder_config =
  ec_h265 :: bool
  ec_width :: int
  ec_height :: int
  ec_framerate :: int
  ec_bitrate_kbps :: int
  ec_gop :: int

record 'd hal_camera =
  hc_channel_count :: "('d \<Rightarrow> int \<times> 'd) option"
  hc_start_stream :: "(int \<Rightarrow> int \<Rightarrow> 'd \<Rightarrow> nop_status \<times> 'd) option"
  hc_stop_stream :: "(int \<Rightarrow> int \<Rightarrow> 'd \<Rightarrow> nop_status \<times> 'd) option"
  hc_set_encoder_config :: "(int \<Rightarrow> int \<Rightarrow> encoder_config \<Rightarrow> 'd \<Rightarrow> nop_status \<times> 'd) option"

definition handle_get_live_capabilities :: "'d hal_camera option \<Rightarrow> 'd nop_handler" where
  "handle_get_live_capabilities video rq rs d =
     (case Option.bind video hc_channel_count of
        None \<Rightarrow> fails NOP_ERR_NOTIMPL rs d
      | Some f \<Rightarrow> case f d of (channel_count, d) \<Rightarrow>
          ok_obj [(''channels'', JArr (map (\<lambda>i. JObj [(''channel'', JInt (int i))]) [0..<nat channel_count]))] rs d)"

definition handle_start_live_stream :: "'d hal_camera option \<Rightarrow> 'd nop_handler" where
  "handle_start_live_stream video rq rs d =
     need (arg_has rq ''channel'')
       (hal_call (map_option (\<lambda>f. f (arg_int rq ''channel'' 0) (arg_int rq ''stream'' 0))
          (Option.bind video hc_start_stream)) rs d) rs d"

definition handle_stop_live_stream :: "'d hal_camera option \<Rightarrow> 'd nop_handler" where
  "handle_stop_live_stream video rq rs d =
     need (arg_has rq ''channel'')
       (hal_call (map_option (\<lambda>f. f (arg_int rq ''channel'' 0) (arg_int rq ''stream'' 0))
          (Option.bind video hc_stop_stream)) rs d) rs d"

definition cap_stream_register :: "'d hal_camera option \<Rightarrow> 'd cap_regs" where
  "cap_stream_register video =
    [(''getLiveCapabilities'', CAP_STREAM, handle_get_live_capabilities video),
     (''startLiveStream'', CAP_STREAM, handle_start_live_stream video),
     (''stopLiveStream'', CAP_STREAM, handle_stop_live_stream video)]"

section \<open>Talk-down audio (cap_audio.c)\<close>

datatype hal_audio_codec = HAL_AUDIO_CODEC_PCM | HAL_AUDIO_CODEC_G711A | HAL_AUDIO_CODEC_G711U | HAL_AUDIO_CODEC_AAC
datatype hal_audio_channel_mode = HAL_AUDIO_CHANNEL_MONO | HAL_AUDIO_CHANNEL_STEREO

record hal_audio_format =
  af_codec :: hal_audio_codec
  af_sample_rate :: int
  af_data_bit :: int
  af_channel_mode :: hal_audio_channel_mode

record 'd hal_audio =
  ha_start_speaker :: "(int \<Rightarrow> hal_audio_format \<Rightarrow> 'd \<Rightarrow> nop_status \<times> 'd) option"
  ha_stop_speaker :: "(int \<Rightarrow> 'd \<Rightarrow> nop_status \<times> 'd) option"

definition parse_codec :: "string \<Rightarrow> hal_audio_codec" where
  "parse_codec codec_name =
     (if codec_name = ''g711a'' \<or> codec_name = ''G711A'' then HAL_AUDIO_CODEC_G711A
      else if codec_name = ''g711u'' \<or> codec_name = ''G711U'' \<or> codec_name = ''g711'' \<or> codec_name = ''G711''
        then HAL_AUDIO_CODEC_G711U
      else if codec_name = ''aac'' \<or> codec_name = ''AAC'' then HAL_AUDIO_CODEC_AAC
      else HAL_AUDIO_CODEC_PCM)"

definition speaker_format :: "json option \<Rightarrow> hal_audio_format" where
  "speaker_format format_obj =
     (case format_obj of
        None \<Rightarrow> \<lparr>af_codec = HAL_AUDIO_CODEC_PCM, af_sample_rate = 8000, af_data_bit = 16, af_channel_mode = HAL_AUDIO_CHANNEL_MONO\<rparr>
      | Some f \<Rightarrow>
          \<lparr>af_codec = parse_codec (case nop_json_str (Some f) ''codec'' None of Some c \<Rightarrow> c | None \<Rightarrow> ''pcm''),
           af_sample_rate = c_int (nop_json_num (Some f) ''sampleRate'' 8000),
           af_data_bit = c_int (nop_json_num (Some f) ''dataBit'' 16),
           af_channel_mode = (if nop_json_str (Some f) ''audioChannel'' (Some ''mono'') = Some ''stereo''
             then HAL_AUDIO_CHANNEL_STEREO else HAL_AUDIO_CHANNEL_MONO)\<rparr>)"

definition handle_start_speaker :: "'d hal_audio option \<Rightarrow> 'd nop_handler" where
  "handle_start_speaker audio rq rs d =
     need (arg_has rq ''channel'')
       (case Option.bind audio ha_start_speaker of
          None \<Rightarrow> fails NOP_ERR_NOTIMPL rs d
        | Some f \<Rightarrow> case f (arg_int rq ''channel'' 0) (speaker_format (arg_get rq ''audioFormat'')) d of (status, d) \<Rightarrow>
            if status \<noteq> NOP_OK then fails status rs d else ok_obj [(''url'', JStr [])] rs d) rs d"

definition handle_stop_speaker :: "'d hal_audio option \<Rightarrow> 'd nop_handler" where
  "handle_stop_speaker audio rq rs d =
     need (arg_has rq ''channel'')
       (hal_call (map_option (\<lambda>f. f (arg_int rq ''channel'' 0)) (Option.bind audio ha_stop_speaker)) rs d) rs d"

definition cap_audio_register :: "'d hal_audio option \<Rightarrow> 'd cap_regs" where
  "cap_audio_register audio =
    [(''startSpeaker'', CAP_AUDIO, handle_start_speaker audio),
     (''stopSpeaker'', CAP_AUDIO, handle_stop_speaker audio)]"

section \<open>Storage volumes (cap_storage.c)\<close>

datatype hal_storage_status = HAL_STORAGE_STATUS_UNKNOWN | HAL_STORAGE_STATUS_READY | HAL_STORAGE_STATUS_FORMATTING
  | HAL_STORAGE_STATUS_UNFORMATTED | HAL_STORAGE_STATUS_ERROR | HAL_STORAGE_STATUS_ABSENT

record hal_storage_volume =
  hv_name :: string
  hv_total_size_kilobytes :: int
  hv_free_size_kilobytes :: int
  hv_status :: hal_storage_status

record 'd hal_storage =
  hg_volume_count :: "('d \<Rightarrow> int \<times> 'd) option"
  hg_get_volume_info :: "(int \<Rightarrow> 'd \<Rightarrow> (nop_status \<times> hal_storage_volume) \<times> 'd) option"
  hg_get_current_volume_name :: "(int \<Rightarrow> 'd \<Rightarrow> (nop_status \<times> string) \<times> 'd) option"
  hg_format :: "(string \<Rightarrow> 'd \<Rightarrow> nop_status \<times> 'd) option"

fun storage_status_name :: "hal_storage_status \<Rightarrow> string" where
  "storage_status_name HAL_STORAGE_STATUS_READY = ''ready''"
| "storage_status_name HAL_STORAGE_STATUS_FORMATTING = ''formatting''"
| "storage_status_name HAL_STORAGE_STATUS_UNFORMATTED = ''unformatted''"
| "storage_status_name HAL_STORAGE_STATUS_ERROR = ''error''"
| "storage_status_name HAL_STORAGE_STATUS_ABSENT = ''absent''"
| "storage_status_name HAL_STORAGE_STATUS_UNKNOWN = ''unknown''"

text \<open>The current volume's name by the driver, and the fall-back to the first volume.\<close>

definition current_volume_name :: "'d hal_storage \<Rightarrow> 'd \<Rightarrow> string \<times> 'd" where
  "current_volume_name storage d =
     (case hg_get_current_volume_name storage of
        None \<Rightarrow> ([], d)
      | Some f \<Rightarrow> case f 16 d of ((st, name), d) \<Rightarrow> (if st = NOP_OK then name else [], d))"

definition first_volume_name :: "'d hal_storage \<Rightarrow> 'd \<Rightarrow> string \<times> 'd" where
  "first_volume_name storage d =
     (case (hg_volume_count storage, hg_get_volume_info storage) of
        (Some vc, Some vi) \<Rightarrow>
          (case vc d of (n, d) \<Rightarrow>
             if 0 < n then case vi 0 d of ((st, v), d) \<Rightarrow> (if st = NOP_OK then field 16 (hv_name v) else [], d) else ([], d))
      | _ \<Rightarrow> ([], d))"

definition handle_get_current_storage :: "'d hal_storage option \<Rightarrow> 'd nop_handler" where
  "handle_get_current_storage storage rq rs d =
     (case storage of
        None \<Rightarrow> fails NOP_ERR_NOTIMPL rs d
      | Some storage \<Rightarrow> case current_volume_name storage d of (name, d) \<Rightarrow>
          (case if name = [] then first_volume_name storage d else (name, d) of (name, d) \<Rightarrow> ok_obj [(''value'', JStr name)] rs d))"

text \<open>The loop over the volumes, skipping those the driver cannot describe.\<close>

fun volume_entries :: "(int \<Rightarrow> 'd \<Rightarrow> (nop_status \<times> hal_storage_volume) \<times> 'd) \<Rightarrow> (hal_storage_volume \<Rightarrow> json) \<Rightarrow>
    int list \<Rightarrow> 'd \<Rightarrow> json list \<times> 'd" where
  "volume_entries info emit [] d = ([], d)"
| "volume_entries info emit (i # is) d =
     (case info i d of ((st, v), d) \<Rightarrow>
        case volume_entries info emit is d of (rest, d) \<Rightarrow> (if st \<noteq> NOP_OK then rest else emit v # rest, d))"

definition list_volumes :: "(hal_storage_volume \<Rightarrow> json) \<Rightarrow> 'd hal_storage option \<Rightarrow> nop_response \<Rightarrow> 'd \<Rightarrow>
    nop_status \<times> nop_response \<times> 'd" where
  "list_volumes emit storage rs d =
     (case (Option.bind storage hg_volume_count, Option.bind storage hg_get_volume_info) of
        (Some vc, Some vi) \<Rightarrow>
          (case vc d of (n, d) \<Rightarrow> case volume_entries vi emit (map int [0..<nat n]) d of (list, d) \<Rightarrow>
             ok_obj [(''list'', JArr list)] rs d)
      | _ \<Rightarrow> fails NOP_ERR_NOTIMPL rs d)"

definition handle_get_storage_info :: "'d hal_storage option \<Rightarrow> 'd nop_handler" where
  "handle_get_storage_info storage rq rs d =
     list_volumes (\<lambda>v. JObj [(''name'', JStr (hv_name v)), (''totalSize'', JInt (hv_total_size_kilobytes v)),
       (''freeSize'', JInt (hv_free_size_kilobytes v)), (''status'', JStr (storage_status_name (hv_status v)))]) storage rs d"

definition handle_get_all_disks_health :: "'d hal_storage option \<Rightarrow> 'd nop_handler" where
  "handle_get_all_disks_health storage rq rs d =
     list_volumes (\<lambda>v. JObj [(''name'', JStr (hv_name v)),
       (''status'', JStr (if hv_status v = HAL_STORAGE_STATUS_ERROR then ''bad'' else ''good''))]) storage rs d"

definition handle_format_storage :: "'d hal_storage option \<Rightarrow> 'd nop_handler" where
  "handle_format_storage storage rq rs d =
     (case arg_str rq ''value'' of
        None \<Rightarrow> fails NOP_ERR_PARAM rs d
      | Some volume_name \<Rightarrow> hal_call (map_option (\<lambda>f. f volume_name) (Option.bind storage hg_format)) rs d)"

definition cap_storage_register :: "'d hal_storage option \<Rightarrow> 'd cap_regs" where
  "cap_storage_register storage =
    [(''getCurrentStorage'', CAP_STORAGE, handle_get_current_storage storage),
     (''X_NightOwl_getStorageInfo'', CAP_STORAGE, handle_get_storage_info storage),
     (''getAllDisksHealth'', CAP_STORAGE, handle_get_all_disks_health storage),
     (''formatStorage'', CAP_STORAGE, handle_format_storage storage)]"

section \<open>Device (cap_device.c)\<close>

record hal_device_info =
  di_type :: string
  di_serial_number :: string
  di_model :: string
  di_firmware_version :: string
  di_mac :: string
  di_ip :: string
  di_name :: string
  di_maximum_channel_count :: int
  di_current_channel_count :: int
  di_upgrade_fail :: int

record 'd hal_system =
  hy_get_device_info :: "('d \<Rightarrow> (nop_status \<times> hal_device_info) \<times> 'd) option"
  hy_reboot :: "('d \<Rightarrow> nop_status \<times> 'd) option"
  hy_factory_reset :: "('d \<Rightarrow> nop_status \<times> 'd) option"

definition device_info_json :: "hal_device_info \<Rightarrow> json" where
  "device_info_json i =
     JObj [(''type'', JStr (di_type i)), (''serialNumber'', JStr (di_serial_number i)), (''model'', JStr (di_model i)),
       (''firmwareVersion'', JStr (di_firmware_version i)), (''mac'', JStr (di_mac i)), (''ip'', JStr (di_ip i)),
       (''name'', JStr (di_name i)), (''maximumChannelCount'', JInt (di_maximum_channel_count i)),
       (''currentChannelCount'', JInt (di_current_channel_count i)), (''upgradeFail'', JBool (di_upgrade_fail i \<noteq> 0))]"

definition handle_get_device_info :: "'d hal_system option \<Rightarrow> 'd nop_handler" where
  "handle_get_device_info system rq rs d = hal_read (Option.bind system hy_get_device_info) device_info_json rs d"

text \<open>The summary is of the router's registry, which the application puts into the handler context.\<close>

definition handle_get_device_capabilities :: "cap_registry \<Rightarrow> 'd hal_camera option \<Rightarrow> 'd nop_handler" where
  "handle_get_device_capabilities registry video rq rs d =
     (case (case Option.bind video hc_channel_count of None \<Rightarrow> (0, d) | Some f \<Rightarrow> f d) of (channel_count, d) \<Rightarrow>
        (NOP_OK, rs\<lparr>rs_content := Some (cap_registry_summary registry channel_count)\<rparr>, d))"

definition handle_get_api_version :: "'d nop_handler" where
  "handle_get_api_version rq rs d = ok_obj [(''version'', JStr ''1.56.0912'')] rs d"

definition cap_device_register :: "cap_registry \<Rightarrow> 'd hal_system option \<Rightarrow> 'd hal_camera option \<Rightarrow> 'd cap_regs" where
  "cap_device_register registry system video =
    [(''getDeviceInfo'', CAP_DEVICE, handle_get_device_info system),
     (''X_NightOwl_getDeviceCapabilities'', CAP_DEVICE, handle_get_device_capabilities registry video),
     (''X_NightOwl_getAPIVersion'', CAP_DEVICE, handle_get_api_version)]"

section \<open>Credentials (cap_auth.c)\<close>

definition handle_create_credential :: "'d nop_handler" where
  "handle_create_credential rq rs d =
     need (arg_str rq ''username'' \<noteq> None \<and> arg_str rq ''password'' \<noteq> None)
       (ok_obj [(''credential'', JStr ''nop-session-token'')] rs d) rs d"

definition handle_delete_credential :: "'d nop_handler" where
  "handle_delete_credential rq rs d = need (arg_str rq ''credential'' \<noteq> None) (ok_empty rs d) rs d"

definition cap_auth_register :: "'d cap_regs" where
  "cap_auth_register =
    [(''createCredential'', CAP_AUTH, handle_create_credential), (''deleteCredential'', CAP_AUTH, handle_delete_credential)]"

end
