(* ===== verification/Cap_Ptz.thy ===== *)
theory Cap_Ptz
  imports Cap_Hal Nop_Patrol
begin

text \<open>
  business/caps/cap_ptz.c and cap_ptz_patrol.c: moving a camera, and the presets, the home position and the patrols. The presets
  and patrols are two tables of slots; a patrol that is started runs on the engine of \<open>Nop_Patrol\<close>, one at a time, and
  \<open>pz_active\<close> remembers which one. The driver is a parameter, as in \<open>Cap_Hal\<close>; so is what happens when the engine starts a run
  (\<open>start_outcome\<close>: memory or a thread may be missing).
\<close>

datatype hal_ptz_dir = HAL_PTZ_STOP | HAL_PTZ_UP | HAL_PTZ_DOWN | HAL_PTZ_LEFT | HAL_PTZ_RIGHT | HAL_PTZ_ZOOM_IN | HAL_PTZ_ZOOM_OUT

record 'd hal_ptz =
  hp_move :: "(int \<Rightarrow> hal_ptz_dir \<Rightarrow> int \<Rightarrow> 'd \<Rightarrow> nop_status \<times> 'd) option"
  hp_goto_preset :: "(int \<Rightarrow> int \<Rightarrow> 'd \<Rightarrow> nop_status \<times> 'd) option"
  hp_move_by_step :: "(int \<Rightarrow> hal_ptz_dir \<Rightarrow> int \<Rightarrow> 'd \<Rightarrow> nop_status \<times> 'd) option"
  hp_stop :: "(int \<Rightarrow> 'd \<Rightarrow> nop_status \<times> 'd) option"
  hp_focus_by_step :: "(int \<Rightarrow> int \<Rightarrow> int \<Rightarrow> 'd \<Rightarrow> nop_status \<times> 'd) option"
  hp_focus_stop :: "(int \<Rightarrow> 'd \<Rightarrow> nop_status \<times> 'd) option"
  hp_set_preset :: "(int \<Rightarrow> int \<Rightarrow> 'd \<Rightarrow> nop_status \<times> 'd) option"
  hp_remove_preset :: "(int \<Rightarrow> int \<Rightarrow> 'd \<Rightarrow> nop_status \<times> 'd) option"
  hp_set_home :: "(int \<Rightarrow> 'd \<Rightarrow> nop_status \<times> 'd) option"
  hp_goto_home :: "(int \<Rightarrow> 'd \<Rightarrow> nop_status \<times> 'd) option"

section \<open>Moving (cap_ptz.c)\<close>

definition parse_direction :: "string \<Rightarrow> hal_ptz_dir" where
  "parse_direction n =
     (if n = ''up'' then HAL_PTZ_UP else if n = ''down'' then HAL_PTZ_DOWN else if n = ''left'' then HAL_PTZ_LEFT
      else if n = ''right'' then HAL_PTZ_RIGHT else if n = ''zoomIn'' then HAL_PTZ_ZOOM_IN
      else if n = ''zoomOut'' then HAL_PTZ_ZOOM_OUT else HAL_PTZ_STOP)"

definition handle_ptz_move :: "onvif_map \<Rightarrow> 'd hal_ptz option \<Rightarrow> 'd nop_handler" where
  "handle_ptz_move om ptz rq rs d =
     (case arg_str rq ''direction'' of None \<Rightarrow> fails NOP_ERR_PARAM rs d
      | Some direction_name \<Rightarrow>
          let channel = arg_int rq ''channel'' 0; speed = arg_int rq ''speed'' 50
          in mapped om channel rq rs d
            (hal_call (map_option (\<lambda>f. f channel (parse_direction direction_name) speed) (Option.bind ptz hp_move)) rs d))"

definition handle_ptz_goto_preset :: "onvif_map \<Rightarrow> 'd hal_ptz option \<Rightarrow> 'd nop_handler" where
  "handle_ptz_goto_preset om ptz rq rs d =
     need (arg_has rq ''preset'')
       (let channel = arg_int rq ''channel'' 0; preset = arg_int rq ''preset'' 0
        in mapped om channel rq rs d (hal_call (map_option (\<lambda>f. f channel preset) (Option.bind ptz hp_goto_preset)) rs d)) rs d"

definition handle_ptz_move_by_step :: "onvif_map \<Rightarrow> 'd hal_ptz option \<Rightarrow> 'd nop_handler" where
  "handle_ptz_move_by_step om ptz rq rs d =
     (case arg_str rq ''direction'' of None \<Rightarrow> fails NOP_ERR_PARAM rs d
      | Some direction_name \<Rightarrow>
          let channel = arg_int rq ''channel'' 0; step = arg_int rq ''step'' 1
          in mapped om channel rq rs d
            (hal_call (map_option (\<lambda>f. f channel (parse_direction direction_name) step) (Option.bind ptz hp_move_by_step)) rs d))"

definition handle_ptz_move_stop :: "onvif_map \<Rightarrow> 'd hal_ptz option \<Rightarrow> 'd nop_handler" where
  "handle_ptz_move_stop om ptz rq rs d =
     (let channel = arg_int rq ''channel'' 0
      in mapped om channel rq rs d (hal_call (map_option (\<lambda>f. f channel) (Option.bind ptz hp_stop)) rs d))"

definition handle_ptz_focus_by_step :: "onvif_map \<Rightarrow> 'd hal_ptz option \<Rightarrow> 'd nop_handler" where
  "handle_ptz_focus_by_step om ptz rq rs d =
     (case arg_str rq ''direction'' of None \<Rightarrow> fails NOP_ERR_PARAM rs d
      | Some direction_name \<Rightarrow>
          let channel = arg_int rq ''channel'' 0; step = arg_int rq ''step'' 1;
              focus_in = (if direction_name = ''focusIn'' then 1 else 0)
          in mapped om channel rq rs d (hal_call (map_option (\<lambda>f. f channel focus_in step) (Option.bind ptz hp_focus_by_step)) rs d))"

definition handle_ptz_focus_stop :: "onvif_map \<Rightarrow> 'd hal_ptz option \<Rightarrow> 'd nop_handler" where
  "handle_ptz_focus_stop om ptz rq rs d =
     (let channel = arg_int rq ''channel'' 0
      in mapped om channel rq rs d (hal_call (map_option (\<lambda>f. f channel) (Option.bind ptz hp_focus_stop)) rs d))"

definition cap_ptz_register :: "onvif_map \<Rightarrow> 'd hal_ptz option \<Rightarrow> 'd cap_regs" where
  "cap_ptz_register om ptz =
    [(''ptzMove'', CAP_PTZ, handle_ptz_move om ptz), (''ptzGotoPreset'', CAP_PTZ, handle_ptz_goto_preset om ptz),
     (''ptzMoveByStep'', CAP_PTZ, handle_ptz_move_by_step om ptz), (''ptzMoveStop'', CAP_PTZ, handle_ptz_move_stop om ptz),
     (''ptzFocusByStep'', CAP_PTZ, handle_ptz_focus_by_step om ptz), (''ptzFocusStop'', CAP_PTZ, handle_ptz_focus_stop om ptz)]"

section \<open>The store of presets and patrols (cap_ptz_patrol.c)\<close>

definition CAP_PTZ_PATROL_MAX_PRESETS :: nat where "CAP_PTZ_PATROL_MAX_PRESETS = 32"
definition CAP_PTZ_PATROL_MAX_PATROLS :: nat where "CAP_PTZ_PATROL_MAX_PATROLS = 16"
definition CAP_PTZ_PATROL_MAX_SPOTS :: nat where "CAP_PTZ_PATROL_MAX_SPOTS = 16"
definition CAP_PTZ_PATROL_NAME_LEN :: nat where "CAP_PTZ_PATROL_NAME_LEN = 64"
definition CAP_PTZ_PATROL_TOKEN_LEN :: nat where "CAP_PTZ_PATROL_TOKEN_LEN = 32"

record ptz_preset =
  ps_used :: bool
  ps_index :: int
  ps_token :: string
  ps_name :: string

record ptz_patrol =
  pp_used :: bool
  pp_token :: string
  pp_name :: string
  pp_spots :: "nop_ptz_spot list"

record 'd ptz_store =
  pz_presets :: "ptz_preset list"
  pz_patrols :: "ptz_patrol list"
  pz_preset_seq :: int
  pz_patrol_seq :: int
  pz_active :: string
  pz_engine :: "nop_ptz_patrol option"
  pz_dev :: 'd

definition no_preset :: ptz_preset where
  "no_preset = \<lparr>ps_used = False, ps_index = 0, ps_token = [], ps_name = []\<rparr>"

definition no_patrol :: ptz_patrol where
  "no_patrol = \<lparr>pp_used = False, pp_token = [], pp_name = [], pp_spots = []\<rparr>"

definition ptz_store0 :: "nop_ptz_patrol option \<Rightarrow> 'd \<Rightarrow> 'd ptz_store" where
  "ptz_store0 engine d =
     \<lparr>pz_presets = replicate CAP_PTZ_PATROL_MAX_PRESETS no_preset, pz_patrols = replicate CAP_PTZ_PATROL_MAX_PATROLS no_patrol,
      pz_preset_seq = 0, pz_patrol_seq = 0, pz_active = [], pz_engine = engine, pz_dev = d\<rparr>"

text \<open>A number of type int has at most 10 digits, which fit the 16 of the C buffer.\<close>

definition make_token :: "nat \<Rightarrow> string \<Rightarrow> int \<Rightarrow> string" where
  "make_token cap prefix n = take (cap - 1) (prefix @ (if n \<le> 0 then ''0'' else show_nat (nat n)))"

fun slot_of :: "('a \<Rightarrow> bool) \<Rightarrow> 'a list \<Rightarrow> nat option" where
  "slot_of P [] = None"
| "slot_of P (x # xs) = (if P x then Some 0 else map_option Suc (slot_of P xs))"

definition preset_find :: "'d ptz_store \<Rightarrow> string \<Rightarrow> nat option" where
  "preset_find s token = (if token = [] then None else slot_of (\<lambda>p. ps_used p \<and> ps_token p = token) (pz_presets s))"

text \<open>A free slot, whose index becomes its position.\<close>

definition preset_alloc :: "'d ptz_store \<Rightarrow> nat option" where
  "preset_alloc s = slot_of (\<lambda>p. \<not> ps_used p) (pz_presets s)"

definition patrol_find :: "'d ptz_store \<Rightarrow> string \<Rightarrow> nat option" where
  "patrol_find s token = (if token = [] then None else slot_of (\<lambda>p. pp_used p \<and> pp_token p = token) (pz_patrols s))"

definition patrol_alloc :: "'d ptz_store \<Rightarrow> nat option" where
  "patrol_alloc s = slot_of (\<lambda>p. \<not> pp_used p) (pz_patrols s)"

definition parse_spot :: "json \<Rightarrow> nop_ptz_spot" where
  "parse_spot spot =
     \<lparr>sp_preset = c_int (nop_json_num (Some spot) ''preset'' 0),
      sp_dwell_seconds = c_int (nop_json_num (Some spot) ''dwell'' (nop_json_num (Some spot) ''dwellTime'' 5)),
      sp_speed = c_int (nop_json_num (Some spot) ''speed'' 50)\<rparr>"

definition parse_spots :: "json option \<Rightarrow> nat \<Rightarrow> nop_ptz_spot list" where
  "parse_spots spots_json maximum = map parse_spot (take maximum (json_children spots_json))"

definition preset_update :: "nat \<Rightarrow> (ptz_preset \<Rightarrow> ptz_preset) \<Rightarrow> 'd ptz_store \<Rightarrow> 'd ptz_store" where
  "preset_update i f s = s\<lparr>pz_presets := (pz_presets s)[i := f (pz_presets s ! i)]\<rparr>"

definition patrol_update :: "nat \<Rightarrow> (ptz_patrol \<Rightarrow> ptz_patrol) \<Rightarrow> 'd ptz_store \<Rightarrow> 'd ptz_store" where
  "patrol_update i f s = s\<lparr>pz_patrols := (pz_patrols s)[i := f (pz_patrols s ! i)]\<rparr>"

text \<open>A call of the driver whose answer is not looked at.\<close>

definition hal_effect :: "('d \<Rightarrow> nop_status \<times> 'd) option \<Rightarrow> 'd ptz_store \<Rightarrow> 'd ptz_store" where
  "hal_effect f s = (case f of None \<Rightarrow> s | Some f \<Rightarrow> s\<lparr>pz_dev := snd (f (pz_dev s))\<rparr>)"

definition hal_action :: "('d \<Rightarrow> nop_status \<times> 'd) option \<Rightarrow> nop_response \<Rightarrow> 'd ptz_store \<Rightarrow> nop_status \<times> nop_response \<times> 'd ptz_store" where
  "hal_action f rs s =
     (case f of None \<Rightarrow> fails NOP_ERR_NOTIMPL rs s
      | Some f \<Rightarrow> case f (pz_dev s) of (st, d) \<Rightarrow> (st, rs\<lparr>rs_content := Some (JObj [])\<rparr>, s\<lparr>pz_dev := d\<rparr>))"

section \<open>Presets and the home position\<close>

definition preset_json :: "ptz_preset \<Rightarrow> json" where
  "preset_json p = JObj [(''token'', JStr (ps_token p)), (''name'', JStr (ps_name p)), (''index'', JInt (ps_index p))]"

definition handle_get_ptz_presets :: "onvif_map \<Rightarrow> 'd ptz_store nop_handler" where
  "handle_get_ptz_presets om rq rs s =
     mapped om (arg_int rq ''channel'' 0) rq rs s
       (ok_obj [(''presets'', JArr (map preset_json (filter ps_used (pz_presets s))))] rs s)"

text \<open>The slot of the token, or a fresh one with the client's token or an assigned one; None when the table is full.\<close>

definition preset_slot :: "'d ptz_store \<Rightarrow> string \<Rightarrow> (nat \<times> 'd ptz_store) option" where
  "preset_slot s token =
     (case preset_find s token of
        Some i \<Rightarrow> Some (i, s)
      | None \<Rightarrow>
          (case preset_alloc s of
             None \<Rightarrow> None
           | Some i \<Rightarrow>
               if token \<noteq> []
               then Some (i, preset_update i (\<lambda>p. p\<lparr>ps_index := int i, ps_used := True, ps_token := field CAP_PTZ_PATROL_TOKEN_LEN token\<rparr>) s)
               else Some (i, (preset_update i (\<lambda>p. p\<lparr>ps_index := int i, ps_used := True,
                      ps_token := make_token CAP_PTZ_PATROL_TOKEN_LEN ''preset_'' (pz_preset_seq s)\<rparr>) s)
                    \<lparr>pz_preset_seq := pz_preset_seq s + 1\<rparr>)))"

definition handle_set_ptz_preset :: "onvif_map \<Rightarrow> 'd hal_ptz option \<Rightarrow> 'd ptz_store nop_handler" where
  "handle_set_ptz_preset om ptz rq rs s =
     need (arg_has rq ''channel'' \<and> arg_has rq ''token'' \<and> arg_str rq ''name'' \<noteq> None)
       (let channel = arg_int rq ''channel'' 0
        in mapped om channel rq rs s
          (case preset_slot s (arg_str_or rq ''token'' []) of
             None \<Rightarrow> fails NOP_ERR_PARAM rs s
           | Some (i, s) \<Rightarrow>
               let s = preset_update i (\<lambda>p. p\<lparr>ps_name := field CAP_PTZ_PATROL_NAME_LEN (arg_str_or rq ''name'' [])\<rparr>) s;
                   s = hal_effect (map_option (\<lambda>f. f channel (ps_index (pz_presets s ! i))) (Option.bind ptz hp_set_preset)) s
               in ok_obj [(''token'', JStr (ps_token (pz_presets s ! i)))] rs s)) rs s"

definition has_token :: "nop_request \<Rightarrow> bool" where
  "has_token rq \<longleftrightarrow> arg_str_or rq ''token'' [] \<noteq> []"

definition handle_remove_ptz_preset :: "onvif_map \<Rightarrow> 'd hal_ptz option \<Rightarrow> 'd ptz_store nop_handler" where
  "handle_remove_ptz_preset om ptz rq rs s =
     need (arg_has rq ''channel'' \<and> has_token rq)
       (let channel = arg_int rq ''channel'' 0
        in mapped om channel rq rs s
          (let s = (case preset_find s (arg_str_or rq ''token'' []) of
                      None \<Rightarrow> s
                    | Some i \<Rightarrow> preset_update i (\<lambda>_. no_preset)
                        (hal_effect (map_option (\<lambda>f. f channel (ps_index (pz_presets s ! i))) (Option.bind ptz hp_remove_preset)) s))
           in ok_obj [] rs s)) rs s"

definition handle_goto_ptz_preset :: "onvif_map \<Rightarrow> 'd hal_ptz option \<Rightarrow> 'd ptz_store nop_handler" where
  "handle_goto_ptz_preset om ptz rq rs s =
     need (arg_has rq ''channel'' \<and> has_token rq \<and> arg_has rq ''speed'')
       (let channel = arg_int rq ''channel'' 0
        in mapped om channel rq rs s
          (case preset_find s (arg_str_or rq ''token'' []) of
             None \<Rightarrow> fails NOP_ERR_PARAM rs s
           | Some i \<Rightarrow> hal_action (map_option (\<lambda>f. f channel (ps_index (pz_presets s ! i))) (Option.bind ptz hp_goto_preset)) rs s)) rs s"

definition handle_set_ptz_home :: "onvif_map \<Rightarrow> 'd hal_ptz option \<Rightarrow> 'd ptz_store nop_handler" where
  "handle_set_ptz_home om ptz rq rs s =
     need (arg_has rq ''channel'')
       (let channel = arg_int rq ''channel'' 0
        in mapped om channel rq rs s
          (ok_obj [] rs (hal_effect (map_option (\<lambda>f. f channel) (Option.bind ptz hp_set_home)) s))) rs s"

definition handle_goto_ptz_home :: "onvif_map \<Rightarrow> 'd hal_ptz option \<Rightarrow> 'd ptz_store nop_handler" where
  "handle_goto_ptz_home om ptz rq rs s =
     need (arg_has rq ''channel'' \<and> arg_has rq ''speed'')
       (let channel = arg_int rq ''channel'' 0
        in mapped om channel rq rs s (hal_action (map_option (\<lambda>f. f channel) (Option.bind ptz hp_goto_home)) rs s)) rs s"

section \<open>Patrols\<close>

text \<open>Starting and stopping the engine from a handler: the call returns when the worker has exited, which takes it at most
  three steps after it is told to stop.\<close>

datatype start_outcome = Starts | No_memory | No_thread

definition patrol_stop_inner :: "nop_ptz_patrol \<Rightarrow> nop_ptz_patrol" where
  "patrol_stop_inner e = stop_joined ((worker_step ^^ 3) (e\<lparr>pt_running := False\<rparr>))"

definition nop_ptz_patrol_stop :: "nop_ptz_patrol \<Rightarrow> nop_ptz_patrol" where
  "nop_ptz_patrol_stop e = patrol_stop_inner e"

definition nop_ptz_patrol_start :: "bool \<Rightarrow> start_outcome \<Rightarrow> int \<Rightarrow> nop_ptz_spot list \<Rightarrow> nop_ptz_patrol \<Rightarrow> nop_status \<times> nop_ptz_patrol" where
  "nop_ptz_patrol_start has_ptz outcome channel spots e =
     (if patrol_start_status has_ptz spots \<noteq> NOP_OK then (patrol_start_status has_ptz spots, e)
      else case outcome of
          No_memory \<Rightarrow> (NOP_ERR_STATE, e)
        | No_thread \<Rightarrow> (NOP_ERR_STATE, start_worker False channel spots (patrol_stop_inner e))
        | Starts \<Rightarrow> (NOP_OK, start_worker True channel spots (patrol_stop_inner e)))"

definition spot_json :: "nop_ptz_spot \<Rightarrow> json" where
  "spot_json sp = JObj [(''preset'', JInt (sp_preset sp)), (''dwell'', JInt (sp_dwell_seconds sp)), (''speed'', JInt (sp_speed sp))]"

definition emit_patrol :: "ptz_patrol \<Rightarrow> bool \<Rightarrow> json" where
  "emit_patrol p running =
     JObj [(''token'', JStr (pp_token p)), (''name'', JStr (pp_name p)), (''status'', JStr (if running then ''Running'' else ''Idle'')),
       (''autoStart'', JBool False), (''spots'', JArr (map spot_json (pp_spots p)))]"

definition engine_running :: "'d ptz_store \<Rightarrow> bool" where
  "engine_running s = (case pz_engine s of Some e \<Rightarrow> nop_ptz_patrol_is_running e | None \<Rightarrow> False)"

definition handle_get_ptz_patrols :: "onvif_map \<Rightarrow> 'd ptz_store nop_handler" where
  "handle_get_ptz_patrols om rq rs s =
     mapped om (arg_int rq ''channel'' 0) rq rs s
       (ok_obj [(''patrols'', JArr (map (\<lambda>p. emit_patrol p (engine_running s \<and> pp_token p = pz_active s))
          (filter pp_used (pz_patrols s))))] rs s)"

definition handle_create_ptz_patrol :: "onvif_map \<Rightarrow> 'd ptz_store nop_handler" where
  "handle_create_ptz_patrol om rq rs s =
     need (arg_has rq ''channel'')
       (mapped om (arg_int rq ''channel'' 0) rq rs s
         (need (arg_str rq ''name'' \<noteq> None \<and> arg_arr rq ''spots'')
           (case patrol_alloc s of
              None \<Rightarrow> fails NOP_ERR_PARAM rs s
            | Some i \<Rightarrow>
                let s = (patrol_update i (\<lambda>p. p\<lparr>pp_used := True,
                           pp_token := make_token CAP_PTZ_PATROL_TOKEN_LEN ''patrol_'' (pz_patrol_seq s),
                           pp_name := field CAP_PTZ_PATROL_NAME_LEN (arg_str_or rq ''name'' []),
                           pp_spots := parse_spots (arg_get rq ''spots'') CAP_PTZ_PATROL_MAX_SPOTS\<rparr>) s)
                        \<lparr>pz_patrol_seq := pz_patrol_seq s + 1\<rparr>
                in ok_obj [(''token'', JStr (pp_token (pz_patrols s ! i)))] rs s) rs s)) rs s"

definition handle_modify_ptz_patrol :: "onvif_map \<Rightarrow> 'd ptz_store nop_handler" where
  "handle_modify_ptz_patrol om rq rs s =
     need (arg_has rq ''channel'')
       (mapped om (arg_int rq ''channel'' 0) rq rs s
         (need (has_token rq \<and> arg_arr rq ''spots'')
           (case patrol_find s (arg_str_or rq ''token'' []) of
              None \<Rightarrow> fails NOP_ERR_PARAM rs s
            | Some i \<Rightarrow> ok_obj [] rs
                (patrol_update i (\<lambda>p. p\<lparr>pp_spots := parse_spots (arg_get rq ''spots'') CAP_PTZ_PATROL_MAX_SPOTS\<rparr>) s)) rs s)) rs s"

definition handle_operate_ptz_patrol :: "onvif_map \<Rightarrow> 'd hal_ptz option \<Rightarrow> start_outcome \<Rightarrow> 'd ptz_store nop_handler" where
  "handle_operate_ptz_patrol om ptz outcome rq rs s =
     need (arg_has rq ''channel'')
       (mapped om (arg_int rq ''channel'' 0) rq rs s
         (need (has_token rq \<and> arg_str_or rq ''op'' [] \<noteq> [])
           (case patrol_find s (arg_str_or rq ''token'' []) of
              None \<Rightarrow> fails NOP_ERR_PARAM rs s
            | Some i \<Rightarrow>
                let p = pz_patrols s ! i; rs = rs\<lparr>rs_content := Some (JObj [])\<rparr> in
                case pz_engine s of
                  None \<Rightarrow> (NOP_OK, rs, s)
                | Some e \<Rightarrow>
                    if arg_str_or rq ''op'' [] = ''start''
                    then case nop_ptz_patrol_start (Option.bind ptz hp_goto_preset \<noteq> None) outcome (arg_int rq ''channel'' 0) (pp_spots p) e of
                           (st, e) \<Rightarrow>
                             if st \<noteq> NOP_OK then (st, rs, s\<lparr>pz_engine := Some e\<rparr>)
                             else (NOP_OK, rs, s\<lparr>pz_engine := Some e, pz_active := pp_token p\<rparr>)
                    else if arg_str_or rq ''op'' [] = ''stop'' \<and> pz_active s = pp_token p
                    then (NOP_OK, rs, s\<lparr>pz_engine := Some (nop_ptz_patrol_stop e), pz_active := []\<rparr>)
                    else (NOP_OK, rs, s)) rs s)) rs s"

definition handle_remove_ptz_patrol :: "onvif_map \<Rightarrow> 'd ptz_store nop_handler" where
  "handle_remove_ptz_patrol om rq rs s =
     need (arg_has rq ''channel'')
       (mapped om (arg_int rq ''channel'' 0) rq rs s
         (need (has_token rq)
           (let s = (case patrol_find s (arg_str_or rq ''token'' []) of
                       None \<Rightarrow> s
                     | Some i \<Rightarrow> patrol_update i (\<lambda>_. no_patrol)
                         (case pz_engine s of
                            Some e \<Rightarrow> if pz_active s = pp_token (pz_patrols s ! i)
                                      then s\<lparr>pz_engine := Some (nop_ptz_patrol_stop e), pz_active := []\<rparr> else s
                          | None \<Rightarrow> s))
            in ok_obj [] rs s) rs s)) rs s"

definition cap_ptz_patrol_register :: "onvif_map \<Rightarrow> 'd hal_ptz option \<Rightarrow> start_outcome \<Rightarrow> 'd ptz_store cap_regs" where
  "cap_ptz_patrol_register om ptz outcome =
    [(''createPtzPatrol'', CAP_PTZ, handle_create_ptz_patrol om),
     (''modifyPtzPatrol'', CAP_PTZ, handle_modify_ptz_patrol om),
     (''operatePtzPatrol'', CAP_PTZ, handle_operate_ptz_patrol om ptz outcome),
     (''removePtzPatrol'', CAP_PTZ, handle_remove_ptz_patrol om),
     (''getPtzPatrols'', CAP_PTZ, handle_get_ptz_patrols om),
     (''getPtzPresets'', CAP_PTZ, handle_get_ptz_presets om),
     (''setPtzPreset'', CAP_PTZ, handle_set_ptz_preset om ptz),
     (''removePtzPreset'', CAP_PTZ, handle_remove_ptz_preset om ptz),
     (''gotoPtzPreset'', CAP_PTZ, handle_goto_ptz_preset om ptz),
     (''setPtzHome'', CAP_PTZ, handle_set_ptz_home om ptz),
     (''gotoPtzHome'', CAP_PTZ, handle_goto_ptz_home om ptz)]"

text \<open>A life of the module: commands, each with the outcome a start would have, and steps of the patrol worker in between.\<close>

datatype ptz_event = Command start_outcome command | Worker

definition ptz_event_step :: "onvif_map \<Rightarrow> 'd hal_ptz option \<Rightarrow> ptz_event \<Rightarrow> 'd ptz_store \<Rightarrow> 'd ptz_store" where
  "ptz_event_step om ptz ev s =
     (case ev of
        Command outcome c \<Rightarrow> cap_exec (cap_ptz_patrol_register om ptz outcome) c s
      | Worker \<Rightarrow> s\<lparr>pz_engine := map_option worker_step (pz_engine s)\<rparr>)"

definition ptz_run :: "onvif_map \<Rightarrow> 'd hal_ptz option \<Rightarrow> ptz_event list \<Rightarrow> 'd ptz_store \<Rightarrow> 'd ptz_store" where
  "ptz_run om ptz evs s = fold (ptz_event_step om ptz) evs s"

section \<open>The invariant of the store\<close>

lemma slot_of_Some: "slot_of P xs = Some i \<Longrightarrow> i < length xs \<and> P (xs ! i)"
  by (induction xs arbitrary: i) (auto split: if_splits)

lemma slot_of_None: "slot_of P xs = None \<Longrightarrow> x \<in> set xs \<Longrightarrow> \<not> P x"
  by (induction xs) (auto split: if_splits)

definition patrol_token :: "int \<Rightarrow> string" where
  "patrol_token k = make_token CAP_PTZ_PATROL_TOKEN_LEN ''patrol_'' k"

lemma show_nat_0: "show_nat 0 = ''0''"
  by code_simp

lemma patrol_token: "\<lbrakk>0 \<le> k; k < 10000000000\<rbrakk> \<Longrightarrow> patrol_token k = ''patrol_'' @ show_nat (nat k)"
proof -
  assume k: "0 \<le> k" "k < 10000000000"
  have "length (show_nat (nat k)) \<le> 10" by (rule length_show_nat) (use k in simp_all)
  moreover have "(if k \<le> 0 then ''0'' else show_nat (nat k)) = show_nat (nat k)" using k show_nat_0 by (cases "k = 0") simp_all
  ultimately show ?thesis by (simp add: patrol_token_def make_token_def CAP_PTZ_PATROL_TOKEN_LEN_def)
qed

definition patrol_slots_ok :: "int \<Rightarrow> ptz_patrol list \<Rightarrow> bool" where
  "patrol_slots_ok n ps \<longleftrightarrow>
     (\<forall>i<length ps. pp_used (ps ! i) \<longrightarrow> (\<exists>k. 0 \<le> k \<and> k < n \<and> pp_token (ps ! i) = patrol_token k)) \<and>
     (\<forall>i<length ps. \<forall>j<length ps. pp_used (ps ! i) \<and> pp_used (ps ! j) \<and> pp_token (ps ! i) = pp_token (ps ! j) \<longrightarrow> i = j)"

definition engine_ok :: "'d ptz_store \<Rightarrow> bool" where
  "engine_ok s \<longleftrightarrow> (\<forall>e. pz_engine s = Some e \<longrightarrow> pt_ctl e = Idle \<and> patrol_step\<^sup>*\<^sup>* nop_ptz_patrol_create e \<and>
     (pt_running e \<longrightarrow> (\<exists>i<length (pz_patrols s). pp_used (pz_patrols s ! i) \<and> pp_token (pz_patrols s ! i) = pz_active s)))"

definition ptz_inv :: "'d ptz_store \<Rightarrow> bool" where
  "ptz_inv s \<longleftrightarrow> length (pz_presets s) = CAP_PTZ_PATROL_MAX_PRESETS \<and> length (pz_patrols s) = CAP_PTZ_PATROL_MAX_PATROLS \<and>
     0 \<le> pz_patrol_seq s \<and> (\<forall>i<length (pz_presets s). ps_used (pz_presets s ! i) \<longrightarrow> ps_index (pz_presets s ! i) = int i) \<and>
     patrol_slots_ok (pz_patrol_seq s) (pz_patrols s) \<and> engine_ok s"

lemma ptz_inv0: "pz_engine s0 = None \<or> pz_engine s0 = Some nop_ptz_patrol_create \<Longrightarrow> s0 = ptz_store0 (pz_engine s0) d \<Longrightarrow> ptz_inv s0"
  unfolding ptz_store0_def
  by (erule ssubst) (auto simp: ptz_inv_def patrol_slots_ok_def engine_ok_def no_preset_def no_patrol_def nop_ptz_patrol_create_def)

text \<open>What the handlers do to the engine is a run of the engine.\<close>

lemma worker_step_ctl: "worker_step (e\<lparr>pt_ctl := c\<rparr>) = (worker_step e)\<lparr>pt_ctl := c\<rparr>"
  by (auto simp: worker_step_def Let_def split: option.split worker.split)

lemma worker_steps_ctl: "(worker_step ^^ n) (e\<lparr>pt_ctl := c\<rparr>) = ((worker_step ^^ n) e)\<lparr>pt_ctl := c\<rparr>"
  by (induction n) (simp_all add: worker_step_ctl)

lemma worker_step_exited: "pt_worker e = Some Exited \<Longrightarrow> worker_step e = e"
  by (simp add: worker_step_def)

lemma worker_exited_later: "pt_worker ((worker_step ^^ n) e) = Some Exited \<Longrightarrow> n \<le> m \<Longrightarrow> pt_worker ((worker_step ^^ m) e) = Some Exited"
proof (induction m)
  case (Suc m)
  then show ?case by (cases "n = Suc m") (auto simp: worker_step_exited)
qed simp

lemma stopped_in_three:
  assumes "\<not> pt_running e"
  shows "pt_worker ((worker_step ^^ 3) e) = None \<or> pt_worker ((worker_step ^^ 3) e) = Some Exited"
proof (cases "pt_worker e = None")
  case True
  then have "worker_step e = e" by (simp add: worker_step_def)
  then show ?thesis using True by (simp add: numeral_3_eq_3)
next
  case False
  then show ?thesis using worker_exits[OF assms] worker_exited_later by blast
qed

lemma joined:
  assumes "pt_ctl e = Idle"
  shows "stop_joined ((worker_step ^^ 3) (stop_signal k e)) = (patrol_stop_inner e)\<lparr>pt_ctl := Joining k\<rparr>"
    "pt_ctl ((worker_step ^^ 3) (stop_signal k e)) = Joining k"
    "pt_worker ((worker_step ^^ 3) (stop_signal k e)) = None \<or> pt_worker ((worker_step ^^ 3) (stop_signal k e)) = Some Exited"
proof -
  have "stop_signal k e = (e\<lparr>pt_running := False\<rparr>)\<lparr>pt_ctl := Joining k\<rparr>" by (simp add: stop_signal_def)
  then have x: "(worker_step ^^ 3) (stop_signal k e) = ((worker_step ^^ 3) (e\<lparr>pt_running := False\<rparr>))\<lparr>pt_ctl := Joining k\<rparr>"
    by (simp only: worker_steps_ctl)
  show "stop_joined ((worker_step ^^ 3) (stop_signal k e)) = (patrol_stop_inner e)\<lparr>pt_ctl := Joining k\<rparr>"
    by (simp add: x patrol_stop_inner_def stop_joined_def)
  show "pt_ctl ((worker_step ^^ 3) (stop_signal k e)) = Joining k" by (simp add: x)
  show "pt_worker ((worker_step ^^ 3) (stop_signal k e)) = None \<or> pt_worker ((worker_step ^^ 3) (stop_signal k e)) = Some Exited"
    unfolding x by (simp add: stopped_in_three)
qed

lemma stop_ctl: "pt_ctl e = Idle \<Longrightarrow> pt_ctl (patrol_stop_inner e) = Idle" "\<not> pt_running (patrol_stop_inner e)"
proof -
  have run: "\<not> pt_running ((worker_step ^^ n) (e\<lparr>pt_running := False\<rparr>))" for n by (induction n) simp_all
  show "\<not> pt_running (patrol_stop_inner e)" using run[of 3] by (simp add: patrol_stop_inner_def stop_joined_def)
  show "pt_ctl (patrol_stop_inner e) = Idle" if "pt_ctl e = Idle"
    using that worker_funpow_ctl[of 3 "e\<lparr>pt_running := False\<rparr>"] by (simp add: patrol_stop_inner_def stop_joined_def)
qed

lemma stop_is_run: "pt_ctl e = Idle \<Longrightarrow> patrol_step\<^sup>*\<^sup>* e (nop_ptz_patrol_stop e)"
proof -
  assume e: "pt_ctl e = Idle"
  let ?x = "(worker_step ^^ 3) (stop_signal None e)"
  have "patrol_step e (stop_signal None e)" by (rule patrol_step.Stop[OF e])
  moreover have "patrol_step\<^sup>*\<^sup>* (stop_signal None e) ?x" by (rule worker_steps_reach)
  moreover have "patrol_step ?x ((stop_joined ?x)\<lparr>pt_ctl := Idle\<rparr>)" using joined[OF e, where k = None] by (intro patrol_step.Stopped)
  moreover have "(stop_joined ?x)\<lparr>pt_ctl := Idle\<rparr> = nop_ptz_patrol_stop e"
    using stop_ctl(1)[OF e] joined(1)[OF e, where k = None] by (simp add: nop_ptz_patrol_stop_def)
  ultimately show ?thesis by (metis converse_rtranclp_into_rtranclp rtranclp.rtrancl_into_rtrancl)
qed

lemma start_is_run:
  assumes "pt_ctl e = Idle"
  shows "patrol_step\<^sup>*\<^sup>* e (snd (nop_ptz_patrol_start has_ptz outcome ch spots e))"
proof (cases "patrol_start_status has_ptz spots = NOP_OK \<and> outcome \<noteq> No_memory")
  case True
  let ?x = "(worker_step ^^ 3) (stop_signal (Some (ch, spots)) e)" and ?c = "outcome = Starts"
  have "patrol_start_status True spots = NOP_OK" using True by (auto simp: patrol_start_status_def split: if_splits)
  then have "patrol_step e (stop_signal (Some (ch, spots)) e)" by (rule patrol_step.Start[OF assms])
  moreover have "patrol_step\<^sup>*\<^sup>* (stop_signal (Some (ch, spots)) e) ?x" by (rule worker_steps_reach)
  moreover have "patrol_step ?x (start_worker ?c ch spots (stop_joined ?x))"
    using joined[OF assms, where k = "Some (ch, spots)"] by (intro patrol_step.Started)
  moreover have "start_worker ?c ch spots (stop_joined ?x) = snd (nop_ptz_patrol_start has_ptz outcome ch spots e)"
    using True joined(1)[OF assms, where k = "Some (ch, spots)"]
    by (cases outcome) (simp_all add: nop_ptz_patrol_start_def start_worker_def)
  ultimately show ?thesis by (metis converse_rtranclp_into_rtranclp rtranclp.rtrancl_into_rtrancl)
qed (cases outcome, auto simp: nop_ptz_patrol_start_def)

lemma start_ctl:
  assumes "pt_ctl e = Idle"
  shows "pt_ctl (snd (nop_ptz_patrol_start has_ptz outcome ch spots e)) = Idle"
    "fst (nop_ptz_patrol_start has_ptz outcome ch spots e) \<noteq> NOP_OK \<Longrightarrow>
       pt_running (snd (nop_ptz_patrol_start has_ptz outcome ch spots e)) \<longrightarrow> pt_running e"
  using assms by (auto simp: nop_ptz_patrol_start_def start_worker_def split: start_outcome.splits)

text \<open>Each way a handler changes the store keeps the invariant.\<close>

lemma hal_effect_keeps [simp]:
  "pz_presets (hal_effect f s) = pz_presets s" "pz_patrols (hal_effect f s) = pz_patrols s"
  "pz_patrol_seq (hal_effect f s) = pz_patrol_seq s" "pz_active (hal_effect f s) = pz_active s"
  "pz_engine (hal_effect f s) = pz_engine s"
  by (auto simp: hal_effect_def split: option.split)

lemma ptz_inv_hal [simp]: "ptz_inv (hal_effect f s) = ptz_inv s" "ptz_inv (s\<lparr>pz_dev := d\<rparr>) = ptz_inv s"
  "ptz_inv (s\<lparr>pz_preset_seq := n\<rparr>) = ptz_inv s"
  by (simp_all add: ptz_inv_def engine_ok_def)

lemma nth_upd: "j < length xs \<Longrightarrow> xs[i := x] ! j = (if i = j then x else xs ! j)"
  by simp

lemma ptz_inv_preset:
  "\<lbrakk>ptz_inv s; ps_used (f (pz_presets s ! i)) \<longrightarrow> ps_index (f (pz_presets s ! i)) = int i\<rbrakk> \<Longrightarrow> ptz_inv (preset_update i f s)"
  by (auto simp: ptz_inv_def engine_ok_def preset_update_def nth_upd)

lemma same_slots:
  assumes "length ps = length qs" "\<And>j. j < length qs \<Longrightarrow> pp_used (ps ! j) = pp_used (qs ! j)"
    "\<And>j. j < length qs \<Longrightarrow> pp_token (ps ! j) = pp_token (qs ! j)"
  shows "patrol_slots_ok n ps = patrol_slots_ok n qs"
    "(\<exists>j<length ps. pp_used (ps ! j) \<and> pp_token (ps ! j) = t) = (\<exists>j<length qs. pp_used (qs ! j) \<and> pp_token (qs ! j) = t)"
  using assms unfolding patrol_slots_ok_def by auto

lemma ptz_inv_spots:
  assumes "ptz_inv s"
  shows "ptz_inv (patrol_update i (\<lambda>p. p\<lparr>pp_spots := sp\<rparr>) s)"
proof -
  let ?ps = "(pz_patrols s)[i := (pz_patrols s ! i)\<lparr>pp_spots := sp\<rparr>]"
  have "length ?ps = length (pz_patrols s)" by simp
  moreover have "pp_used (?ps ! j) = pp_used (pz_patrols s ! j)" "pp_token (?ps ! j) = pp_token (pz_patrols s ! j)"
    if "j < length (pz_patrols s)" for j
    using that by (simp_all add: nth_upd)
  ultimately have "patrol_slots_ok (pz_patrol_seq s) ?ps = patrol_slots_ok (pz_patrol_seq s) (pz_patrols s)"
    "engine_ok (s\<lparr>pz_patrols := ?ps\<rparr>) = engine_ok s"
    unfolding engine_ok_def using same_slots[of ?ps "pz_patrols s"] by (blast, simp)
  then show ?thesis using assms by (simp add: ptz_inv_def patrol_update_def)
qed

text \<open>An engine that is stopped, or that did not start, needs no patrol.\<close>

lemma ptz_inv_engine:
  "\<lbrakk>ptz_inv s; pz_engine s = Some e; pt_ctl e' = Idle; patrol_step\<^sup>*\<^sup>* e e';
    pt_running e' \<longrightarrow> (\<exists>i<length (pz_patrols s). pp_used (pz_patrols s ! i) \<and> pp_token (pz_patrols s ! i) = act)\<rbrakk> \<Longrightarrow>
   ptz_inv (s\<lparr>pz_engine := Some e', pz_active := act\<rparr>)"
  unfolding ptz_inv_def engine_ok_def by (auto intro: rtranclp_trans)

lemma ptz_inv_forget:
  assumes "ptz_inv s" "pz_engine s = None \<or> \<not> engine_running s \<or> pz_active s \<noteq> pp_token (pz_patrols s ! i)"
  shows "ptz_inv (patrol_update i (\<lambda>_. no_patrol) s)"
proof -
  have "engine_ok (patrol_update i (\<lambda>_. no_patrol) s)"
    unfolding engine_ok_def
  proof (intro allI impI)
    fix e assume "pz_engine (patrol_update i (\<lambda>_. no_patrol) s) = Some e"
    then have e: "pz_engine s = Some e" by (simp add: patrol_update_def)
    then have I: "pt_ctl e = Idle" "patrol_step\<^sup>*\<^sup>* nop_ptz_patrol_create e"
      "pt_running e \<Longrightarrow> \<exists>j<length (pz_patrols s). pp_used (pz_patrols s ! j) \<and> pp_token (pz_patrols s ! j) = pz_active s"
      using assms(1) by (auto simp: ptz_inv_def engine_ok_def)
    have "\<exists>j<length (pz_patrols s). pp_used ((pz_patrols s)[i := no_patrol] ! j) \<and>
        pp_token ((pz_patrols s)[i := no_patrol] ! j) = pz_active s" if run: "pt_running e"
    proof -
      obtain j where "j < length (pz_patrols s)" "pp_used (pz_patrols s ! j)" "pp_token (pz_patrols s ! j) = pz_active s"
        using I(3)[OF run] by blast
      moreover from this have "i \<noteq> j"
        using assms(2) e run by (auto simp: engine_running_def nop_ptz_patrol_is_running_def)
      ultimately show ?thesis by (intro exI[of _ j]) (simp add: nth_upd)
    qed
    then show "pt_ctl e = Idle \<and> patrol_step\<^sup>*\<^sup>* nop_ptz_patrol_create e \<and>
        (pt_running e \<longrightarrow> (\<exists>j<length (pz_patrols (patrol_update i (\<lambda>_. no_patrol) s)).
           pp_used (pz_patrols (patrol_update i (\<lambda>_. no_patrol) s) ! j) \<and>
           pp_token (pz_patrols (patrol_update i (\<lambda>_. no_patrol) s) ! j) = pz_active (patrol_update i (\<lambda>_. no_patrol) s)))"
      using I by (simp add: patrol_update_def)
  qed
  then show ?thesis using assms(1)
    by (auto simp: ptz_inv_def patrol_slots_ok_def patrol_update_def nth_upd no_patrol_def)
qed

text \<open>A new patrol gets a token that no other patrol has.\<close>

lemma ptz_inv_create:
  assumes "ptz_inv s" "patrol_alloc s = Some i" "pz_patrol_seq s < 10000000000"
  shows "ptz_inv ((patrol_update i (\<lambda>p. p\<lparr>pp_used := True, pp_token := patrol_token (pz_patrol_seq s), pp_name := nm, pp_spots := sp\<rparr>) s)
      \<lparr>pz_patrol_seq := pz_patrol_seq s + 1\<rparr>)"
proof -
  let ?n = "pz_patrol_seq s"
  let ?ps = "(pz_patrols s)[i := (pz_patrols s ! i)\<lparr>pp_used := True, pp_token := patrol_token ?n, pp_name := nm, pp_spots := sp\<rparr>]"
  have i: "i < length (pz_patrols s)" "\<not> pp_used (pz_patrols s ! i)"
    using slot_of_Some[OF assms(2)[unfolded patrol_alloc_def]] by simp_all
  have n: "0 \<le> ?n" using assms(1) by (simp add: ptz_inv_def)
  have old: "\<exists>k. 0 \<le> k \<and> k < ?n \<and> pp_token (pz_patrols s ! j) = patrol_token k" if "j < length (pz_patrols s)" "pp_used (pz_patrols s ! j)" for j
    using assms(1) that by (auto simp: ptz_inv_def patrol_slots_ok_def)
  have fresh: "pp_token (pz_patrols s ! j) \<noteq> patrol_token ?n" if j: "j < length (pz_patrols s)" "pp_used (pz_patrols s ! j)" for j
  proof -
    obtain k where "0 \<le> k" "k < ?n" "pp_token (pz_patrols s ! j) = patrol_token k" using old[OF j] by blast
    then show ?thesis using n assms(3) by (simp add: patrol_token)
  qed
  have "patrol_slots_ok (?n + 1) ?ps"
    unfolding patrol_slots_ok_def
  proof (intro conjI allI impI)
    fix j assume "j < length ?ps" "pp_used (?ps ! j)"
    then show "\<exists>k\<ge>0. k < ?n + 1 \<and> pp_token (?ps ! j) = patrol_token k"
      using old[of j] i n by (cases "j = i") (auto intro: order.strict_trans)
  next
    fix j k assume "j < length ?ps" "k < length ?ps" "pp_used (?ps ! j) \<and> pp_used (?ps ! k) \<and> pp_token (?ps ! j) = pp_token (?ps ! k)"
    then show "j = k"
      using fresh[of j] fresh[of k] i assms(1)
      by (cases "j = i"; cases "k = i") (auto simp: ptz_inv_def patrol_slots_ok_def)
  qed
  moreover have "engine_ok (s\<lparr>pz_patrols := ?ps\<rparr>)"
    using assms(1) i by (auto simp: ptz_inv_def engine_ok_def nth_list_update)
  ultimately show ?thesis using assms(1) n by (auto simp: ptz_inv_def patrol_update_def engine_ok_def nth_list_update)
qed

definition ptz_next :: "'d ptz_store \<Rightarrow> 'd ptz_store \<Rightarrow> bool" where
  "ptz_next s s' \<longleftrightarrow> ptz_inv s' \<and> pz_patrol_seq s' \<le> pz_patrol_seq s + 1 \<and> (pz_engine s' = None) = (pz_engine s = None)"

lemma ptz_next_refl: "ptz_inv s \<Longrightarrow> ptz_next s s"
  by (simp add: ptz_next_def)

lemma preset_slot_next:
  "\<lbrakk>ptz_inv s; preset_slot s token = Some (i, s1)\<rbrakk> \<Longrightarrow>
     ptz_inv s1 \<and> i < length (pz_presets s1) \<and> ps_used (pz_presets s1 ! i) \<and> pz_patrol_seq s1 = pz_patrol_seq s \<and> pz_engine s1 = pz_engine s"
proof -
  assume s: "ptz_inv s" "preset_slot s token = Some (i, s1)"
  show ?thesis
  proof (cases "preset_find s token")
    case None
    then obtain j where j: "preset_alloc s = Some j" using s(2) by (auto simp: preset_slot_def split: option.splits)
    then have "j < length (pz_presets s)" using slot_of_Some[of _ "pz_presets s" j] by (auto simp: preset_alloc_def)
    moreover have "ptz_inv (preset_update j (\<lambda>p. p\<lparr>ps_index := int j, ps_used := True, ps_token := t\<rparr>) s)" for t
      by (rule ptz_inv_preset[OF s(1)]) simp
    ultimately show ?thesis using s(2) None j by (auto simp: preset_slot_def preset_update_def split: if_splits)
  next
    case (Some j)
    then have "j < length (pz_presets s) \<and> ps_used (pz_presets s ! j)"
      using slot_of_Some[of _ "pz_presets s" j] by (auto simp: preset_find_def split: if_splits)
    then show ?thesis using s Some by (auto simp: preset_slot_def)
  qed
qed

lemma ptz_next_hal [simp]: "ptz_next s (hal_effect f s') = ptz_next s s'"
  by (simp add: ptz_next_def)

lemma ptz_next_set_preset: "ptz_inv s \<Longrightarrow> ptz_next s (snd (snd (handle_set_ptz_preset om ptz rq rs s)))"
proof -
  assume s: "ptz_inv s"
  have "ptz_next s (preset_update i (\<lambda>p. p\<lparr>ps_name := nm\<rparr>) s1)" if "preset_slot s token = Some (i, s1)" for i s1 nm token
  proof -
    note S = preset_slot_next[OF s that]
    have "ptz_inv (preset_update i (\<lambda>p. p\<lparr>ps_name := nm\<rparr>) s1)"
      by (rule ptz_inv_preset) (use S in \<open>auto simp: ptz_inv_def\<close>)
    then show ?thesis using S by (simp add: ptz_next_def preset_update_def)
  qed
  then show ?thesis using s by (auto simp: handle_set_ptz_preset_def Let_def ptz_next_refl split: option.split)
qed

lemma ptz_next_remove_preset: "ptz_inv s \<Longrightarrow> ptz_next s (snd (snd (handle_remove_ptz_preset om ptz rq rs s)))"
  using ptz_inv_preset[of "hal_effect f s" "\<lambda>_. no_preset" for f]
  by (auto simp: handle_remove_ptz_preset_def Let_def ptz_next_def no_preset_def preset_update_def split: option.split)

lemma ptz_next_action: "ptz_inv s \<Longrightarrow> ptz_next s (snd (snd (hal_action f rs s)))"
  by (auto simp: hal_action_def ptz_next_def split: option.split prod.split)

lemma ptz_next_presets:
  assumes "ptz_inv s"
  shows "ptz_next s (snd (snd (handle_goto_ptz_preset om ptz rq rs s)))" "ptz_next s (snd (snd (handle_set_ptz_home om ptz rq rs s)))"
    "ptz_next s (snd (snd (handle_goto_ptz_home om ptz rq rs s)))" "ptz_next s (snd (snd (handle_get_ptz_presets om rq rs s)))"
    "ptz_next s (snd (snd (handle_get_ptz_patrols om rq rs s)))"
  using assms ptz_next_action[OF assms] ptz_next_refl[OF assms]
  by (auto simp: handle_goto_ptz_preset_def handle_set_ptz_home_def handle_goto_ptz_home_def handle_get_ptz_presets_def
      handle_get_ptz_patrols_def Let_def ptz_next_def split: option.split)

lemma ptz_next_create: "\<lbrakk>ptz_inv s; pz_patrol_seq s < 10000000000\<rbrakk> \<Longrightarrow> ptz_next s (snd (snd (handle_create_ptz_patrol om rq rs s)))"
  using ptz_inv_create[of s] ptz_next_refl[of s]
  by (auto simp: handle_create_ptz_patrol_def Let_def ptz_next_def patrol_update_def patrol_token_def split: option.split)

lemma ptz_next_modify: "ptz_inv s \<Longrightarrow> ptz_next s (snd (snd (handle_modify_ptz_patrol om rq rs s)))"
  using ptz_inv_spots[of s] ptz_next_refl[of s]
  by (auto simp: handle_modify_ptz_patrol_def Let_def ptz_next_def patrol_update_def split: option.split)

lemma patrol_find_Some:
  "patrol_find s token = Some i \<Longrightarrow> i < length (pz_patrols s) \<and> pp_used (pz_patrols s ! i) \<and> pp_token (pz_patrols s ! i) = token"
  using slot_of_Some[of _ "pz_patrols s" i] by (auto simp: patrol_find_def split: if_splits)

lemma ptz_inv_ctl: "\<lbrakk>ptz_inv s; pz_engine s = Some e\<rbrakk> \<Longrightarrow> pt_ctl e = Idle"
  by (simp add: ptz_inv_def engine_ok_def)

lemma ptz_inv_stopped:
  assumes "ptz_inv s" "pz_engine s = Some e"
  shows "ptz_inv (s\<lparr>pz_engine := Some (nop_ptz_patrol_stop e), pz_active := a\<rparr>)"
  using ptz_inv_ctl[OF assms] by (intro ptz_inv_engine[OF assms]) (simp_all add: stop_is_run stop_ctl nop_ptz_patrol_stop_def[symmetric]
      stop_ctl[unfolded nop_ptz_patrol_stop_def[symmetric]])

lemma ptz_next_operate:
  assumes "ptz_inv s"
  shows "ptz_next s (snd (snd (handle_operate_ptz_patrol om ptz outcome rq rs s)))"
proof -
  have A: "ptz_inv (s\<lparr>pz_engine := Some (snd (nop_ptz_patrol_start hp outcome ch sp e)),
      pz_active := (if fst (nop_ptz_patrol_start hp outcome ch sp e) \<noteq> NOP_OK then pz_active s else pp_token (pz_patrols s ! i))\<rparr>)"
    if e: "pz_engine s = Some e" "patrol_find s t = Some i" for e i t hp ch sp
    using ptz_inv_ctl[OF assms e(1)] patrol_find_Some[OF e(2)] assms start_ctl(2)[OF ptz_inv_ctl[OF assms e(1)], of hp outcome ch sp] e(1)
    by (intro ptz_inv_engine[OF assms e(1)]) (auto simp: start_is_run start_ctl ptz_inv_def engine_ok_def)
  then have B: "ptz_inv (if st \<noteq> NOP_OK then s\<lparr>pz_engine := Some e'\<rparr> else s\<lparr>pz_engine := Some e', pz_active := pp_token (pz_patrols s ! i)\<rparr>)"
    if "pz_engine s = Some e" "patrol_find s t = Some i" "nop_ptz_patrol_start hp outcome ch sp e = (st, e')" for e i t hp ch sp st e'
    using A[OF that(1,2), of hp ch sp] that(3) by (auto split: if_splits)
  show ?thesis
  proof (cases "patrol_find s (arg_str_or rq ''token'' [])")
    case None
    then show ?thesis using assms by (simp add: handle_operate_ptz_patrol_def ptz_next_refl)
  next
    case (Some i)
    show ?thesis
    proof (cases "pz_engine s")
      case None
      then show ?thesis using assms Some by (simp add: handle_operate_ptz_patrol_def ptz_next_refl Let_def)
    next
      case e: (Some e)
      obtain st e' where st: "nop_ptz_patrol_start (Option.bind ptz hp_goto_preset \<noteq> None) outcome (arg_int rq ''channel'' 0)
          (pp_spots (pz_patrols s ! i)) e = (st, e')" by (cases "nop_ptz_patrol_start (Option.bind ptz hp_goto_preset \<noteq> None) outcome (arg_int rq ''channel'' 0)
          (pp_spots (pz_patrols s ! i)) e")
      show ?thesis using assms Some e st B[OF e Some st] ptz_inv_stopped[OF assms e]
        by (auto simp: handle_operate_ptz_patrol_def Let_def ptz_next_def split: if_splits)
    qed
  qed
qed

lemma ptz_next_remove:
  assumes "ptz_inv s"
  shows "ptz_next s (snd (snd (handle_remove_ptz_patrol om rq rs s)))"
proof -
  have "ptz_inv (patrol_update i (\<lambda>_. no_patrol) (case pz_engine s of
           Some e \<Rightarrow> if pz_active s = pp_token (pz_patrols s ! i) then s\<lparr>pz_engine := Some (nop_ptz_patrol_stop e), pz_active := []\<rparr> else s
         | None \<Rightarrow> s))" for i
    using assms ptz_inv_stopped[OF assms, of _ "[]"]
    by (intro ptz_inv_forget) (auto split: option.split
        simp: engine_running_def nop_ptz_patrol_is_running_def nop_ptz_patrol_stop_def stop_ctl)
  then show ?thesis using assms
    by (auto simp: handle_remove_ptz_patrol_def Let_def ptz_next_def patrol_update_def split: option.split)
qed

lemma ptz_next_exec:
  assumes "ptz_inv s" "pz_patrol_seq s < 10000000000"
  shows "ptz_next s (cap_exec (cap_ptz_patrol_register om ptz outcome) c s)"
proof (rule cap_exec_all)
  show "list_all (\<lambda>(f, cap, h). \<forall>rq rs. ptz_next s (snd (snd (h rq rs s)))) (cap_ptz_patrol_register om ptz outcome)"
    using assms by (simp add: cap_ptz_patrol_register_def ptz_next_create ptz_next_modify ptz_next_operate ptz_next_remove
        ptz_next_presets ptz_next_set_preset ptz_next_remove_preset)
qed (rule ptz_next_refl[OF assms(1)])

lemma ptz_next_event:
  assumes "ptz_inv s" "pz_patrol_seq s < 10000000000"
  shows "ptz_next s (ptz_event_step om ptz ev s)"
proof (cases ev)
  case Worker
  have "ptz_inv (s\<lparr>pz_engine := map_option worker_step (pz_engine s)\<rparr>)"
  proof (cases "pz_engine s")
    case None
    then show ?thesis using assms(1) by (simp add: ptz_inv_def engine_ok_def)
  next
    case (Some e)
    have "patrol_step\<^sup>*\<^sup>* e (worker_step e)" using worker_steps_reach[of e 1] by simp
    moreover have "pt_ctl (worker_step e) = Idle" using ptz_inv_ctl[OF assms(1) Some] by simp
    moreover have "pt_running (worker_step e) \<longrightarrow> (\<exists>i<length (pz_patrols s). pp_used (pz_patrols s ! i) \<and> pp_token (pz_patrols s ! i) = pz_active s)"
      using assms(1) Some by (auto simp: ptz_inv_def engine_ok_def)
    ultimately have "ptz_inv (s\<lparr>pz_engine := Some (worker_step e), pz_active := pz_active s\<rparr>)"
      by (intro ptz_inv_engine[OF assms(1) Some])
    then show ?thesis using Some by simp
  qed
  then show ?thesis using Worker by (simp add: ptz_event_step_def ptz_next_def)
qed (use ptz_next_exec[OF assms] in \<open>simp add: ptz_event_step_def\<close>)

lemma ptz_run_inv:
  "\<lbrakk>ptz_inv s; pz_patrol_seq s + int (length evs) \<le> 10000000000\<rbrakk> \<Longrightarrow>
     ptz_inv (ptz_run om ptz evs s) \<and> (pz_engine (ptz_run om ptz evs s) = None) = (pz_engine s = None)"
proof (induction evs arbitrary: s)
  case (Cons ev evs)
  have "ptz_next s (ptz_event_step om ptz ev s)" by (rule ptz_next_event) (use Cons.prems in simp_all)
  then show ?case using Cons.IH[of "ptz_event_step om ptz ev s"] Cons.prems by (simp add: ptz_run_def ptz_next_def)
qed (simp add: ptz_run_def)

section \<open>Properties\<close>

definition reported_running :: "json \<Rightarrow> bool" where
  "reported_running p \<longleftrightarrow> nop_json_str (Some p) ''status'' None = Some ''Running''"

lemma reported_running_emit: "reported_running (emit_patrol p running) = running"
  by (simp add: reported_running_def emit_patrol_def nop_json_str_def)

lemma running_count:
  assumes "ptz_inv s"
  shows "length (filter reported_running (map (\<lambda>p. emit_patrol p (engine_running s \<and> pp_token p = pz_active s))
      (filter pp_used (pz_patrols s)))) = (if engine_running s then 1 else 0)"
proof -
  let ?P = "\<lambda>p. pp_used p \<and> engine_running s \<and> pp_token p = pz_active s"
  have "length (filter reported_running (map (\<lambda>p. emit_patrol p (engine_running s \<and> pp_token p = pz_active s)) (filter pp_used (pz_patrols s)))) =
      length (filter ?P (pz_patrols s))"
    by (simp add: filter_map comp_def reported_running_emit conj_assoc)
  also have "\<dots> = card {i. i < length (pz_patrols s) \<and> ?P (pz_patrols s ! i)}" by (rule length_filter_conv_card)
  also have "\<dots> = (if engine_running s then 1 else 0)"
  proof (cases "engine_running s")
    case True
    then obtain e where "pz_engine s = Some e" "pt_running e"
      by (auto simp: engine_running_def nop_ptz_patrol_is_running_def split: option.splits)
    then obtain i where i: "i < length (pz_patrols s)" "pp_used (pz_patrols s ! i)" "pp_token (pz_patrols s ! i) = pz_active s"
      using assms by (auto simp: ptz_inv_def engine_ok_def)
    have U: "\<forall>i<length (pz_patrols s). \<forall>j<length (pz_patrols s). pp_used (pz_patrols s ! i) \<and> pp_used (pz_patrols s ! j) \<and>
        pp_token (pz_patrols s ! i) = pp_token (pz_patrols s ! j) \<longrightarrow> i = j"
      using assms by (simp add: ptz_inv_def patrol_slots_ok_def)
    have J: "j = i" if "j < length (pz_patrols s)" "?P (pz_patrols s ! j)" for j
      by (rule U[rule_format]) (use that i in simp_all)
    have "{j. j < length (pz_patrols s) \<and> ?P (pz_patrols s ! j)} = {i}"
    proof (intro equalityI subsetI)
      fix j assume "j \<in> {j. j < length (pz_patrols s) \<and> ?P (pz_patrols s ! j)}"
      then show "j \<in> {i}" using J by simp
    next
      fix j assume "j \<in> {i}"
      then show "j \<in> {j. j < length (pz_patrols s) \<and> ?P (pz_patrols s ! j)}" using i True by simp
    qed
    then show ?thesis using True by simp
  qed simp
  finally show ?thesis .
qed

text \<open>C23: Patrols. Whatever commands arrive, with the patrol worker running in between and starts that may fail, the engine only ever does
  what its own specification allows, the list of patrols shows exactly one patrol as running while the engine runs and none
  otherwise, and every stored preset is numbered by its slot, so no two presets share a position of the camera.\<close>

theorem one_patrol_runs:
  assumes "length evs < 2 ^ 31" "\<not> om_is_onvif om (arg_int \<lparr>rq_func = ''getPtzPatrols'', rq_args = args\<rparr> ''channel'' 0)"
  shows "\<exists>e ps. pz_engine (ptz_run om ptz evs (ptz_store0 (Some nop_ptz_patrol_create) d)) = Some e \<and>
    patrol_step\<^sup>*\<^sup>* nop_ptz_patrol_create e \<and>
    cap_answer (cap_ptz_patrol_register om ptz outcome) (''getPtzPatrols'', args)
        (ptz_run om ptz evs (ptz_store0 (Some nop_ptz_patrol_create) d)) = (NOP_OK, Some (JObj [(''patrols'', JArr ps)])) \<and>
    length (filter reported_running ps) = (if nop_ptz_patrol_is_running e then 1 else 0) \<and>
    map ps_index (filter ps_used (pz_presets (ptz_run om ptz evs (ptz_store0 (Some nop_ptz_patrol_create) d)))) =
      map int (filter (\<lambda>i. ps_used (pz_presets (ptz_run om ptz evs (ptz_store0 (Some nop_ptz_patrol_create) d)) ! i)) [0..<32])"
proof -
  let ?s = "ptz_run om ptz evs (ptz_store0 (Some nop_ptz_patrol_create) d)"
  have "ptz_inv (ptz_store0 (Some nop_ptz_patrol_create) d)" by (rule ptz_inv0) (simp_all add: ptz_store0_def)
  then have I: "ptz_inv ?s" "pz_engine ?s \<noteq> None"
    using ptz_run_inv[of "ptz_store0 (Some nop_ptz_patrol_create) d" evs om ptz] assms(1) by (simp_all add: ptz_store0_def)
  then obtain e where e: "pz_engine ?s = Some e" by blast
  moreover have "patrol_step\<^sup>*\<^sup>* nop_ptz_patrol_create e" using I(1) e by (simp add: ptz_inv_def engine_ok_def)
  moreover have "cap_answer (cap_ptz_patrol_register om ptz outcome) (''getPtzPatrols'', args) ?s = (NOP_OK, Some (JObj [(''patrols'',
      JArr (map (\<lambda>p. emit_patrol p (engine_running ?s \<and> pp_token p = pz_active ?s)) (filter pp_used (pz_patrols ?s))))]))"
    using assms(2) by (simp add: cap_answer_def cap_reply_def cap_ptz_patrol_register_def handle_get_ptz_patrols_def mapped_def ok_obj_def)
  moreover have "engine_running ?s = nop_ptz_patrol_is_running e" using e by (simp add: engine_running_def)
  moreover have "map ps_index (filter ps_used (pz_presets ?s)) = map int (filter (\<lambda>i. ps_used (pz_presets ?s ! i)) [0..<32])"
  proof -
    have n: "length (pz_presets ?s) = 32" using I(1) by (simp add: ptz_inv_def CAP_PTZ_PATROL_MAX_PRESETS_def)
    have "filter ps_used (pz_presets ?s) = map (nth (pz_presets ?s)) (filter (\<lambda>i. ps_used (pz_presets ?s ! i)) [0..<32])"
      using arg_cong[OF map_nth[of "pz_presets ?s"], of "filter ps_used"] n by (simp add: filter_map comp_def)
    then show ?thesis using I(1) n by (auto simp: ptz_inv_def)
  qed
  ultimately show ?thesis using running_count[OF I(1)] by (intro exI conjI) (assumption, assumption, assumption, simp_all)
qed

lemma one_patrol_runs_witness:
  "\<exists>e ps. cap_answer (cap_ptz_patrol_register \<lparr>om_is_onvif = \<lambda>_. False, om_dispatch = \<lambda>rq rs. (NOP_OK, rs)\<rparr> None Starts)
      (''getPtzPatrols'', None)
      (ptz_run \<lparr>om_is_onvif = \<lambda>_. False, om_dispatch = \<lambda>rq rs. (NOP_OK, rs)\<rparr> None [Worker] (ptz_store0 (Some nop_ptz_patrol_create) ())) =
      (NOP_OK, Some (JObj [(''patrols'', JArr ps)])) \<and>
    length (filter reported_running ps) = (if nop_ptz_patrol_is_running e then 1 else 0)"
  using one_patrol_runs[of "[Worker]" "\<lparr>om_is_onvif = \<lambda>_. False, om_dispatch = \<lambda>rq rs. (NOP_OK, rs)\<rparr>" None None "()" Starts]
  by auto

section \<open>Presets\<close>

text \<open>A preset that was stored under a token of at most 31 characters is found again under that token, at the slot it was given.\<close>

lemma slot_of_first:
  "\<lbrakk>slot_of P xs = None; slot_of Q xs = Some i; P y\<rbrakk> \<Longrightarrow> slot_of P (xs[i := y]) = Some i"
  by (induction xs arbitrary: i) (auto split: if_splits)

lemma slot_of_update_same: "\<lbrakk>slot_of P xs = Some i; P y\<rbrakk> \<Longrightarrow> slot_of P (xs[i := y]) = Some i"
  by (induction xs arbitrary: i) (auto split: if_splits)

lemma preset_found_again:
  assumes "preset_slot s token = Some (i, s')" "token \<noteq> []" "length token < CAP_PTZ_PATROL_TOKEN_LEN"
  shows "preset_find (hal_effect f (preset_update i (\<lambda>p. p\<lparr>ps_name := nm\<rparr>) s')) token = Some i"
proof -
  let ?P = "\<lambda>p. ps_used p \<and> ps_token p = token"
  have "slot_of ?P ((pz_presets s')[i := (pz_presets s' ! i)\<lparr>ps_name := nm\<rparr>]) = Some i"
  proof (cases "preset_find s token")
    case None
    then have n: "slot_of ?P (pz_presets s) = None" using assms(2) by (simp add: preset_find_def)
    obtain j where j: "preset_alloc s = Some j" using None assms(1) by (auto simp: preset_slot_def split: option.splits)
    then have "j < length (pz_presets s)" using slot_of_Some[of _ "pz_presets s" j] by (auto simp: preset_alloc_def)
    moreover have "slot_of ?P ((pz_presets s)[j := y]) = Some j" if "?P y" for y
      by (rule slot_of_first[OF n j[unfolded preset_alloc_def] that])
    ultimately show ?thesis using assms None j by (auto simp: preset_slot_def preset_update_def field_def)
  next
    case (Some j)
    then have "slot_of ?P (pz_presets s) = Some j" using assms(2) by (simp add: preset_find_def)
    then show ?thesis using assms Some slot_of_update_same[of ?P "pz_presets s" j] slot_of_Some[of ?P "pz_presets s" j]
      by (auto simp: preset_slot_def)
  qed
  then show ?thesis using assms(2) by (simp add: preset_find_def preset_update_def)
qed

text \<open>A longer token is cut when it is stored and compared in full when it is looked up: the preset is stored and not found again.\<close>

lemma long_preset_token_lost:
  assumes "CAP_PTZ_PATROL_TOKEN_LEN \<le> length token" "\<forall>p \<in> set (pz_presets s). length (ps_token p) < CAP_PTZ_PATROL_TOKEN_LEN"
    "preset_slot s token = Some (i, s')"
  shows "preset_find s' token = None"
proof -
  have none: "slot_of (\<lambda>p. ps_used p \<and> ps_token p = token) ps = None" if "\<forall>p \<in> set ps. length (ps_token p) < CAP_PTZ_PATROL_TOKEN_LEN" for ps
    using that assms(1) by (induction ps) auto
  have "preset_find s token = None" using none[OF assms(2)] by (simp add: preset_find_def)
  moreover obtain j where "preset_alloc s = Some j" using calculation assms(3) by (auto simp: preset_slot_def split: option.splits)
  ultimately have s': "s' = preset_update j (\<lambda>p. p\<lparr>ps_index := int j, ps_used := True, ps_token := field CAP_PTZ_PATROL_TOKEN_LEN token\<rparr>) s"
    using assms(1,3) by (auto simp: preset_slot_def CAP_PTZ_PATROL_TOKEN_LEN_def split: if_splits)
  have "\<forall>p \<in> set (pz_presets s'). length (ps_token p) < CAP_PTZ_PATROL_TOKEN_LEN"
    using assms(2) unfolding s' by (auto simp: preset_update_def field_def CAP_PTZ_PATROL_TOKEN_LEN_def dest!: set_update_subset_insert[THEN subsetD])
  then have "slot_of (\<lambda>p. ps_used p \<and> ps_token p = token) (pz_presets s') = None" by (rule none)
  then show ?thesis by (simp add: preset_find_def)
qed

text \<open>An assigned token may be one that a client has already chosen: then two presets have it and only the first is ever found.\<close>

lemma assigned_token_collides:
  "case preset_slot (ptz_store0 None ()) ''preset_0'' of Some (i, s) \<Rightarrow>
     (case preset_slot s [] of Some (j, s) \<Rightarrow>
        (i, j, map ps_token (filter ps_used (pz_presets s))) = (0, 1, [''preset_0'', ''preset_0''])) "
  by code_simp

end
