(* ===== verification/Cap_Video.thy ===== *)
theory Cap_Video
  imports Cap_Hal
begin

text \<open>
  business/caps/cap_video.c: image settings, resolutions and snapshots. Channels count from 1; an index out of range is taken for
  the first. A resolution also reaches the encoder through the video driver of \<open>Cap_Hal\<close>, whose answer is not looked at;
  \<open>g_dev\<close> is the driver's state. The defaults are filled in by the first command.
\<close>

definition video_channel_index :: "nop_request \<Rightarrow> int" where
  "video_channel_index rq = (let c = arg_int rq ''channel'' 1 - 1 in if c < 0 \<or> 16 \<le> c then 0 else c)"

record 'd video =
  g_brightness :: "int \<Rightarrow> int"
  g_contrast :: "int \<Rightarrow> int"
  g_orientation :: "int \<Rightarrow> int"
  g_main_stream_width :: "int \<Rightarrow> int"
  g_main_stream_height :: "int \<Rightarrow> int"
  g_sub_stream_width :: "int \<Rightarrow> int"
  g_sub_stream_height :: "int \<Rightarrow> int"
  g_time_lapse_switch :: "int \<Rightarrow> bool"
  g_fisheye_mode :: string
  g_state_initialized :: bool
  g_dev :: 'd

definition video0 :: "'d \<Rightarrow> 'd video" where
  "video0 d = \<lparr>g_brightness = \<lambda>_. 0, g_contrast = \<lambda>_. 0, g_orientation = \<lambda>_. 0, g_main_stream_width = \<lambda>_. 0,
     g_main_stream_height = \<lambda>_. 0, g_sub_stream_width = \<lambda>_. 0, g_sub_stream_height = \<lambda>_. 0, g_time_lapse_switch = \<lambda>_. False,
     g_fisheye_mode = ''spherical'', g_state_initialized = False, g_dev = d\<rparr>"

definition video_state_init :: "'d video \<Rightarrow> 'd video" where
  "video_state_init s =
     (if g_state_initialized s then s
      else s\<lparr>g_brightness := \<lambda>_. 150, g_contrast := \<lambda>_. 150, g_orientation := \<lambda>_. 0, g_main_stream_width := \<lambda>_. 1920,
             g_main_stream_height := \<lambda>_. 1080, g_sub_stream_width := \<lambda>_. 800, g_sub_stream_height := \<lambda>_. 600,
             g_time_lapse_switch := \<lambda>_. False, g_state_initialized := True\<rparr>)"

text \<open>A resolution reaches the encoder when there is one.\<close>

definition video_apply_encoder :: "'d hal_camera option \<Rightarrow> int \<Rightarrow> int \<Rightarrow> int \<Rightarrow> int \<Rightarrow> 'd video \<Rightarrow> 'd video" where
  "video_apply_encoder cam channel stream width height s =
     (case Option.bind cam hc_set_encoder_config of
        None \<Rightarrow> s
      | Some f \<Rightarrow> s\<lparr>g_dev := snd (f channel stream \<lparr>ec_h265 = False, ec_width = width, ec_height = height, ec_framerate = 25,
           ec_bitrate_kbps = (if stream = 0 then 4096 else 1024), ec_gop = 50\<rparr> (g_dev s))\<rparr>)"

definition video_make_resolution :: "int \<Rightarrow> int \<Rightarrow> json" where
  "video_make_resolution width height = JObj [(''width'', JInt width), (''height'', JInt height)]"

definition handle_get_video_brightness :: "'d video nop_handler" where
  "handle_get_video_brightness rq rs s =
     (let s = video_state_init s in ok_obj [(''value'', JInt (g_brightness s (video_channel_index rq)))] rs s)"

definition handle_set_video_brightness :: "'d video nop_handler" where
  "handle_set_video_brightness rq rs s =
     (let s = video_state_init s in need (arg_has rq ''value'')
         (ok_empty rs (s\<lparr>g_brightness := (g_brightness s)(video_channel_index rq := arg_int rq ''value'' 150)\<rparr>)) rs s)"

definition handle_get_video_contrast :: "'d video nop_handler" where
  "handle_get_video_contrast rq rs s =
     (let s = video_state_init s in ok_obj [(''value'', JInt (g_contrast s (video_channel_index rq)))] rs s)"

definition handle_set_video_contrast :: "'d video nop_handler" where
  "handle_set_video_contrast rq rs s =
     (let s = video_state_init s in need (arg_has rq ''value'')
         (ok_empty rs (s\<lparr>g_contrast := (g_contrast s)(video_channel_index rq := arg_int rq ''value'' 150)\<rparr>)) rs s)"

definition handle_get_video_orientation :: "'d video nop_handler" where
  "handle_get_video_orientation rq rs s =
     (let s = video_state_init s in ok_obj [(''value'', JInt (g_orientation s (video_channel_index rq)))] rs s)"

definition handle_set_video_orientation :: "'d video nop_handler" where
  "handle_set_video_orientation rq rs s =
     (let s = video_state_init s in need (arg_has rq ''value'')
         (ok_empty rs (s\<lparr>g_orientation := (g_orientation s)(video_channel_index rq := arg_int rq ''value'' 0)\<rparr>)) rs s)"

definition handle_get_channel_current_video_resolution :: "'d video nop_handler" where
  "handle_get_channel_current_video_resolution rq rs s =
     (let s = video_state_init s; ch = video_channel_index rq
      in ok_obj [(''mainStream'', video_make_resolution (g_main_stream_width s ch) (g_main_stream_height s ch)),
                 (''subStream'', video_make_resolution (g_sub_stream_width s ch) (g_sub_stream_height s ch))] rs s)"

text \<open>The two halves of setting a resolution: a stream that is not in the request keeps its own.\<close>

definition set_main_resolution :: "'d hal_camera option \<Rightarrow> json option \<Rightarrow> int \<Rightarrow> 'd video \<Rightarrow> 'd video" where
  "set_main_resolution cam main_stream ch s =
     (case main_stream of
        None \<Rightarrow> s
      | Some m \<Rightarrow>
          let s = s\<lparr>g_main_stream_width := (g_main_stream_width s)(ch := c_int (nop_json_num (Some m) ''width'' 1920)),
                    g_main_stream_height := (g_main_stream_height s)(ch := c_int (nop_json_num (Some m) ''height'' 1080))\<rparr>
          in video_apply_encoder cam ch 0 (g_main_stream_width s ch) (g_main_stream_height s ch) s)"

definition set_sub_resolution :: "'d hal_camera option \<Rightarrow> json option \<Rightarrow> int \<Rightarrow> 'd video \<Rightarrow> 'd video" where
  "set_sub_resolution cam sub_stream ch s =
     (case sub_stream of
        None \<Rightarrow> s
      | Some m \<Rightarrow>
          let s = s\<lparr>g_sub_stream_width := (g_sub_stream_width s)(ch := c_int (nop_json_num (Some m) ''width'' 800)),
                    g_sub_stream_height := (g_sub_stream_height s)(ch := c_int (nop_json_num (Some m) ''height'' 600))\<rparr>
          in video_apply_encoder cam ch 1 (g_sub_stream_width s ch) (g_sub_stream_height s ch) s)"

definition handle_set_channel_current_video_resolution :: "'d hal_camera option \<Rightarrow> 'd video nop_handler" where
  "handle_set_channel_current_video_resolution cam rq rs s =
     (let s = video_state_init s
      in need (arg_get rq ''mainStream'' \<noteq> None \<or> arg_get rq ''subStream'' \<noteq> None)
        (let ch = video_channel_index rq
         in ok_empty rs (set_sub_resolution cam (arg_get rq ''subStream'') ch (set_main_resolution cam (arg_get rq ''mainStream'') ch s))) rs s)"

definition handle_get_channel_supported_video_resolutions :: "'d video nop_handler" where
  "handle_get_channel_supported_video_resolutions rq rs s =
     (let s = video_state_init s
      in ok_obj [(''mainStreamResolutions'', JArr [video_make_resolution 800 600, video_make_resolution 1920 1080]),
                 (''subStreamResolutions'', JArr [video_make_resolution 400 300,
                   video_make_resolution 800 600])] rs s)"

definition handle_get_channel_fisheye_control :: "'d video nop_handler" where
  "handle_get_channel_fisheye_control rq rs s =
     (let s = video_state_init s in ok_obj [(''mode'', JStr (g_fisheye_mode s))] rs s)"

definition handle_set_channel_fisheye_control :: "'d video nop_handler" where
  "handle_set_channel_fisheye_control rq rs s =
     (let s = video_state_init s in case arg_str rq ''mode'' of
        None \<Rightarrow> fails NOP_ERR_PARAM rs s | Some mode \<Rightarrow> ok_empty rs (s\<lparr>g_fisheye_mode := field 32 mode\<rparr>))"

definition handle_get_channel_time_lapse_switch :: "'d video nop_handler" where
  "handle_get_channel_time_lapse_switch rq rs s =
     (let s = video_state_init s in ok_obj [(''value'', JBool (g_time_lapse_switch s (video_channel_index rq)))] rs s)"

definition handle_set_channel_time_lapse_switch :: "'d video nop_handler" where
  "handle_set_channel_time_lapse_switch rq rs s =
     (let s = video_state_init s in need (arg_has rq ''value'')
         (ok_empty rs (s\<lparr>g_time_lapse_switch := (g_time_lapse_switch s)(video_channel_index rq := arg_bool rq ''value'' False)\<rparr>)) rs s)"

definition handle_query_panoramic_status :: "'d video nop_handler" where
  "handle_query_panoramic_status rq rs s =
     (let s = video_state_init s in ok_obj [(''status'', JStr ''idle''), (''timestamp'', JInt 0),
       (''url'', JStr [])] rs s)"

definition handle_take_panoramic_view :: "'d video nop_handler" where
  "handle_take_panoramic_view rq rs s =
     (let s = video_state_init s in need (arg_has rq ''channel'') (ok_empty rs s) rs s)"

definition handle_snapshot_channel :: "'d video nop_handler" where
  "handle_snapshot_channel rq rs s =
     (let s = video_state_init s in need (arg_has rq ''channel'') (ok_obj [(''url'', JStr [])] rs s) rs s)"

definition cap_video_register :: "'d hal_camera option \<Rightarrow> 'd video cap_regs" where
  "cap_video_register cam =
    [(''X_NightOwl_getVideoBrightness'', CAP_MISC, handle_get_video_brightness),
     (''X_NightOwl_setVideoBrightness'', CAP_MISC, handle_set_video_brightness),
     (''X_NightOwl_getVideoContrast'', CAP_MISC, handle_get_video_contrast),
     (''X_NightOwl_setVideoContrast'', CAP_MISC, handle_set_video_contrast),
     (''X_NightOwl_getVideoOrientation'', CAP_MISC, handle_get_video_orientation),
     (''X_NightOwl_setVideoOrientation'', CAP_MISC, handle_set_video_orientation),
     (''X_NightOwl_getChannelCurrentVideoResolution'', CAP_MISC, handle_get_channel_current_video_resolution),
     (''X_NightOwl_setChannelCurrentVideoResolution'', CAP_MISC, handle_set_channel_current_video_resolution cam),
     (''X_NightOwl_getChannelSupportedVideoResolutions'', CAP_MISC, handle_get_channel_supported_video_resolutions),
     (''X_NightOwl_getChannelFisheyeControl'', CAP_MISC, handle_get_channel_fisheye_control),
     (''X_NightOwl_setChannelFisheyeControl'', CAP_MISC, handle_set_channel_fisheye_control),
     (''X_NightOwl_getChannelTimeLapseSwitch'', CAP_MISC, handle_get_channel_time_lapse_switch),
     (''X_NightOwl_setChannelTimeLapseSwitch'', CAP_MISC, handle_set_channel_time_lapse_switch),
     (''queryPanoramicStatus'', CAP_MISC, handle_query_panoramic_status),
     (''takePanoramicView'', CAP_MISC, handle_take_panoramic_view), (''snapshotChannel'', CAP_MISC, handle_snapshot_channel)]"

lemmas video_handlers = handle_get_video_brightness_def handle_set_video_brightness_def handle_get_video_contrast_def
  handle_set_video_contrast_def handle_get_video_orientation_def handle_set_video_orientation_def
  handle_get_channel_current_video_resolution_def handle_set_channel_current_video_resolution_def handle_get_channel_supported_video_resolutions_def
  handle_get_channel_fisheye_control_def handle_set_channel_fisheye_control_def handle_get_channel_time_lapse_switch_def
  handle_set_channel_time_lapse_switch_def handle_query_panoramic_status_def handle_take_panoramic_view_def
  handle_snapshot_channel_def

lemma video_apply_encoder_keeps [simp]:
  "g_brightness (video_apply_encoder cam c t w h s) = g_brightness s" "g_contrast (video_apply_encoder cam c t w h s) = g_contrast s"
  "g_orientation (video_apply_encoder cam c t w h s) = g_orientation s"
  "g_time_lapse_switch (video_apply_encoder cam c t w h s) = g_time_lapse_switch s"
  "g_fisheye_mode (video_apply_encoder cam c t w h s) = g_fisheye_mode s"
  "g_state_initialized (video_apply_encoder cam c t w h s) = g_state_initialized s"
  "g_main_stream_width (video_apply_encoder cam c t w h s) = g_main_stream_width s"
  "g_main_stream_height (video_apply_encoder cam c t w h s) = g_main_stream_height s"
  "g_sub_stream_width (video_apply_encoder cam c t w h s) = g_sub_stream_width s"
  "g_sub_stream_height (video_apply_encoder cam c t w h s) = g_sub_stream_height s"
  by (auto simp: video_apply_encoder_def split: option.split)

lemma set_resolution_keeps [simp]:
  "g_brightness (set_main_resolution cam v c s) = g_brightness s" "g_brightness (set_sub_resolution cam v c s) = g_brightness s"
  "g_contrast (set_main_resolution cam v c s) = g_contrast s" "g_contrast (set_sub_resolution cam v c s) = g_contrast s"
  "g_orientation (set_main_resolution cam v c s) = g_orientation s" "g_orientation (set_sub_resolution cam v c s) = g_orientation s"
  "g_time_lapse_switch (set_main_resolution cam v c s) = g_time_lapse_switch s"
  "g_time_lapse_switch (set_sub_resolution cam v c s) = g_time_lapse_switch s"
  "g_fisheye_mode (set_main_resolution cam v c s) = g_fisheye_mode s" "g_fisheye_mode (set_sub_resolution cam v c s) = g_fisheye_mode s"
  "g_state_initialized (set_main_resolution cam v c s) = g_state_initialized s"
  "g_state_initialized (set_sub_resolution cam v c s) = g_state_initialized s"
  by (auto simp: set_main_resolution_def set_sub_resolution_def Let_def split: option.split)

lemma video_init [simp]: "video_state_init (video_state_init s) = video_state_init s" "g_state_initialized (video_state_init s)"
  by (simp_all add: video_state_init_def)

lemma video_initialized: "g_state_initialized s \<Longrightarrow> video_state_init s = s"
  by (simp add: video_state_init_def)

lemmas video_simps = cap_video_register_def setting_simps video_handlers Let_def ok_obj_def cap_answer_def cap_reply_def
  video_initialized nop_response_init_def or_default_def fails_def need_def ok_empty_def

lemma video0_defaults [simp]:
  "g_brightness (video_state_init (video0 d)) = (\<lambda>_. 150)" "g_contrast (video_state_init (video0 d)) = (\<lambda>_. 150)"
  "g_orientation (video_state_init (video0 d)) = (\<lambda>_. 0)" "g_time_lapse_switch (video_state_init (video0 d)) = (\<lambda>_. False)"
  "g_fisheye_mode (video_state_init (video0 d)) = ''spherical''"
  by (simp_all add: video_state_init_def video0_def)

interpretation video_brightness: setting "cap_video_register cam"
    "int_setting ''X_NightOwl_setVideoBrightness'' ''X_NightOwl_getVideoBrightness'' video_channel_index ''value'' 150 150"
    "\<lambda>s k. JObj [(''value'', JInt (g_brightness (video_state_init s) k))]" "video0 d" for cam d
  by unfold_locales (simp_all add: video_simps split: option.split)

interpretation video_contrast: setting "cap_video_register cam"
    "int_setting ''X_NightOwl_setVideoContrast'' ''X_NightOwl_getVideoContrast'' video_channel_index ''value'' 150 150"
    "\<lambda>s k. JObj [(''value'', JInt (g_contrast (video_state_init s) k))]" "video0 d" for cam d
  by unfold_locales (simp_all add: video_simps split: option.split)

interpretation video_orientation: setting "cap_video_register cam"
    "int_setting ''X_NightOwl_setVideoOrientation'' ''X_NightOwl_getVideoOrientation'' video_channel_index ''value'' 0 0"
    "\<lambda>s k. JObj [(''value'', JInt (g_orientation (video_state_init s) k))]" "video0 d" for cam d
  by unfold_locales (simp_all add: video_simps split: option.split)

interpretation video_time_lapse: setting "cap_video_register cam"
    "bool_setting ''X_NightOwl_setChannelTimeLapseSwitch'' ''X_NightOwl_getChannelTimeLapseSwitch'' video_channel_index ''value'' False False"
    "\<lambda>s k. JObj [(''value'', JBool (g_time_lapse_switch (video_state_init s) k))]" "video0 d" for cam d
  by unfold_locales (simp_all add: video_simps split: option.split)

interpretation video_fisheye: setting "cap_video_register cam"
    "text_setting ''X_NightOwl_setChannelFisheyeControl'' ''X_NightOwl_getChannelFisheyeControl'' (\<lambda>_. 0) 32 ''mode'' ''mode'' ''spherical''"
    "\<lambda>s k. JObj [(''mode'', JStr (if k = 0 then g_fisheye_mode (video_state_init s) else ''spherical''))]" "video0 d" for cam d
  by unfold_locales (simp_all add: video_simps split: option.split)

definition video_settings :: "setting_decl list" where
  "video_settings =
    [int_setting ''X_NightOwl_setVideoBrightness'' ''X_NightOwl_getVideoBrightness'' video_channel_index ''value'' 150 150,
     int_setting ''X_NightOwl_setVideoContrast'' ''X_NightOwl_getVideoContrast'' video_channel_index ''value'' 150 150,
     int_setting ''X_NightOwl_setVideoOrientation'' ''X_NightOwl_getVideoOrientation'' video_channel_index ''value'' 0 0,
     bool_setting ''X_NightOwl_setChannelTimeLapseSwitch'' ''X_NightOwl_getChannelTimeLapseSwitch'' video_channel_index ''value'' False False,
     text_setting ''X_NightOwl_setChannelFisheyeControl'' ''X_NightOwl_getChannelFisheyeControl'' (\<lambda>_. 0) 32 ''mode'' ''mode'' ''spherical'']"

lemma video_settings_ok: "list_all (setting_ok (cap_video_register cam) (video0 d)) video_settings"
  by (simp add: video_settings_def video_brightness.holds video_contrast.holds video_orientation.holds video_time_lapse.holds video_fisheye.holds)

section \<open>The encoder\<close>

text \<open>With a driver that keeps the resolutions it is given: what a channel's encoder was given last is what the module answers for it,
  whatever else is commanded.\<close>

definition mirror_camera :: "(int \<Rightarrow> int \<Rightarrow> (int \<times> int) option) hal_camera" where
  "mirror_camera = \<lparr>hc_channel_count = None, hc_start_stream = None, hc_stop_stream = None,
     hc_set_encoder_config = Some (\<lambda>ch st c m. (NOP_OK, m(ch := (m ch)(st := Some (ec_width c, ec_height c)))))\<rparr>"

definition encoder_agrees :: "(int \<Rightarrow> int \<Rightarrow> (int \<times> int) option) video \<Rightarrow> bool" where
  "encoder_agrees s \<longleftrightarrow> (\<forall>ch w h. (g_dev s ch 0 = Some (w, h) \<longrightarrow> g_main_stream_width s ch = w \<and> g_main_stream_height s ch = h) \<and>
     (g_dev s ch 1 = Some (w, h) \<longrightarrow> g_sub_stream_width s ch = w \<and> g_sub_stream_height s ch = h)) \<and>
     (g_state_initialized s \<or> g_dev s = (\<lambda>_ _. None))"

lemma encoder_agrees_init: "encoder_agrees s \<Longrightarrow> encoder_agrees (video_state_init s)"
  by (auto simp: encoder_agrees_def video_state_init_def)

lemma encoder_agrees_set:
  "\<lbrakk>encoder_agrees s; g_state_initialized s\<rbrakk> \<Longrightarrow> encoder_agrees (set_main_resolution (Some mirror_camera) v ch s)"
  "\<lbrakk>encoder_agrees s; g_state_initialized s\<rbrakk> \<Longrightarrow> encoder_agrees (set_sub_resolution (Some mirror_camera) v ch s)"
  by (auto simp: encoder_agrees_def set_main_resolution_def set_sub_resolution_def video_apply_encoder_def mirror_camera_def Let_def
      split: option.split)

lemma encoder_agrees_keep [simp]:
  "encoder_agrees (s\<lparr>g_brightness := a\<rparr>) = encoder_agrees s" "encoder_agrees (s\<lparr>g_contrast := a\<rparr>) = encoder_agrees s"
  "encoder_agrees (s\<lparr>g_orientation := a\<rparr>) = encoder_agrees s" "encoder_agrees (s\<lparr>g_time_lapse_switch := b\<rparr>) = encoder_agrees s"
  "encoder_agrees (s\<lparr>g_fisheye_mode := t\<rparr>) = encoder_agrees s"
  by (simp_all add: encoder_agrees_def)

lemma encoder_agrees_step:
  assumes "encoder_agrees s"
  shows "encoder_agrees (cap_exec (cap_video_register (Some mirror_camera)) c s)"
proof (rule cap_exec_all)
  have I: "encoder_agrees (video_state_init s)" by (rule encoder_agrees_init[OF assms])
  have "encoder_agrees (set_sub_resolution (Some mirror_camera) v ch (set_main_resolution (Some mirror_camera) w ch (video_state_init s)))" for v w ch
    by (intro encoder_agrees_set I) simp_all
  then show "list_all (\<lambda>(f, cap, h). \<forall>rq rs. encoder_agrees (snd (snd (h rq rs s)))) (cap_video_register (Some mirror_camera))"
    using I by (simp add: cap_video_register_def video_handlers Let_def split: option.split)
qed (rule assms)

lemma encoder_follows:
  "encoder_agrees (cap_run (cap_video_register (Some mirror_camera)) cs (video0 (\<lambda>_ _. None)))"
proof -
  have "encoder_agrees (fold (cap_exec (cap_video_register (Some mirror_camera))) cs s)" if "encoder_agrees s" for s
    using that by (induction cs arbitrary: s) (simp_all add: encoder_agrees_step)
  then show ?thesis by (simp add: cap_run_def encoder_agrees_def video0_def)
qed

text \<open>The encoder that a resolution reaches is the one before the channel of the request, while a live stream is started on the
  channel of the request itself.\<close>

lemma resolution_channel_shift:
  assumes "arg_int rq ''channel'' 1 = c" "1 \<le> c" "c \<le> 16" "arg_get rq ''mainStream'' = Some m" "arg_get rq ''subStream'' = None"
  shows "g_dev (snd (snd (handle_set_channel_current_video_resolution (Some mirror_camera) rq rs (video0 (\<lambda>_ _. None))))) (c - 1) 0 =
      Some (c_int (nop_json_num (Some m) ''width'' 1920), c_int (nop_json_num (Some m) ''height'' 1080))"
  using assms by (simp add: handle_set_channel_current_video_resolution_def set_main_resolution_def set_sub_resolution_def
      video_apply_encoder_def mirror_camera_def video_channel_index_def Let_def)

end
