(* ===== verification/Cap_Event.thy ===== *)
theory Cap_Event
  imports Cap_Base
begin

text \<open>
  business/caps/cap_event.c: event queries and downloads. The list of events comes from the event hub of \<open>Nop_Event\<close> when the
  application attached one (\<open>hub\<close>); the other queries have no store behind them. The handlers keep no state.
\<close>

definition handle_query_event_calendar :: "'s nop_handler" where
  "handle_query_event_calendar rq rs s =
     need (arg_has rq ''resolution'' \<and> arg_has rq ''year'' \<and> arg_has rq ''month'' \<and> arg_has rq ''channels'') (ok_obj [(''resolution'', JStr (arg_str_or rq ''resolution'' ''day'')), (''list'', JArr [])] rs s) rs s"

definition event_entry :: "nop_event \<Rightarrow> json" where
  "event_entry e =
     JObj [(''channel'', JInt (ev_channel e)), (''eventType'', JStr (nop_detect_type_name (ev_type e))),
       (''msgType'', JInt (int (unat (nop_event_msgtype_code (ev_type e))))), (''time'', JInt (int (unat (ev_timestamp_ms e))))]"

definition wanted :: "nop_request \<Rightarrow> int" where
  "wanted rq = (let want = arg_int rq ''listNumber'' 20 in if want \<le> 0 \<or> 64 < want then 64 else want)"

definition handle_query_event_list :: "'k nop_event_hub option \<Rightarrow> 's nop_handler" where
  "handle_query_event_list hub rq rs s =
     need (arg_has rq ''startTime'' \<and> arg_has rq ''eventTypes'' \<and> arg_has rq ''channels'' \<and> arg_has rq ''command'' \<and> arg_has rq ''listNumber'') (ok_obj [(''queryID'', JNum (arg_num rq ''queryID'' 0)), (''list'', JArr (case hub of None \<Rightarrow> [] | Some h \<Rightarrow> map event_entry (nop_event_hub_recent h (wanted rq))))] rs s) rs s"

definition handle_query_event_list_with_specific_order :: "'s nop_handler" where
  "handle_query_event_list_with_specific_order rq rs s =
     need (arg_has rq ''startTime'' \<and> arg_has rq ''order'' \<and> arg_has rq ''eventTypes'' \<and> arg_has rq ''channels'' \<and> arg_has rq ''command'' \<and> arg_has rq ''listNumber'') (ok_obj [(''list'', JArr [])] rs s) rs s"

definition handle_get_event_download_capability :: "'s nop_handler" where
  "handle_get_event_download_capability rq rs s =
     ok_obj [(''produceMode'', JStr ''dynamic''), (''container'', JStr ''mp4'')] rs s"

definition handle_get_event_download_progress :: "'s nop_handler" where
  "handle_get_event_download_progress rq rs s =
     need (arg_has rq ''processId'') (ok_obj [(''percentage'', JInt 0)] rs s) rs s"

definition handle_start_event_download :: "'s nop_handler" where
  "handle_start_event_download rq rs s =
     need (arg_has rq ''channel'' \<and> arg_has rq ''startTime'' \<and> arg_has rq ''duration'' \<and> arg_has rq ''resolution'') (ok_obj [(''processId'', JStr [])] rs s) rs s"

definition handle_start_event_download_with_url :: "'s nop_handler" where
  "handle_start_event_download_with_url rq rs s =
     need (arg_has rq ''channel'' \<and> arg_has rq ''startTime'') (ok_obj [(''downloadUrl'', JStr []),
       (''filesize'', JInt 0)] rs s) rs s"

definition cap_event_register :: "'k nop_event_hub option \<Rightarrow> 's cap_regs" where
  "cap_event_register hub =
    [(''X_NightOwl_queryEventCalendar'', CAP_NOTIFY, handle_query_event_calendar),
     (''X_NightOwl_queryEventList'', CAP_NOTIFY, handle_query_event_list hub),
     (''X_NightOwl_queryEventListWithSpecificOrder'', CAP_NOTIFY, handle_query_event_list_with_specific_order),
     (''X_NightOwl_getEventDownloadCapability'', CAP_NOTIFY, handle_get_event_download_capability),
     (''X_NightOwl_getEventDownloadProgress'', CAP_NOTIFY, handle_get_event_download_progress),
     (''X_NightOwl_startEventDownload'', CAP_NOTIFY, handle_start_event_download),
     (''X_NightOwl_startEventDownloadwithURL'', CAP_NOTIFY, handle_start_event_download_with_url)]"

section \<open>Properties\<close>

text \<open>The event list. After any events have been published, a query answers the newest of them, newest first, as many as it asked for but
  at most 64 (all 64 when it asks for none, for a negative number or for more), each with its channel, its type by name and by message code,
  and its time; a query that lacks one of the five required arguments is refused.\<close>

theorem query_event_list:
  "cap_answer (cap_event_register (Some (publish_all es (nop_event_hub_create :: 'k nop_event_hub)))) (''X_NightOwl_queryEventList'', args) s =
     (let rq = \<lparr>rq_func = ''X_NightOwl_queryEventList'', rq_args = args\<rparr>
      in if arg_has rq ''startTime'' \<and> arg_has rq ''eventTypes'' \<and> arg_has rq ''channels'' \<and> arg_has rq ''command'' \<and> arg_has rq ''listNumber''
         then (NOP_OK, Some (JObj [(''queryID'', JNum (arg_num rq ''queryID'' 0)),
           (''list'', JArr (map event_entry (take (nat (let n = arg_int rq ''listNumber'' 20 in if n \<le> 0 \<or> 64 < n then 64 else n)) (rev es))))]))
         else (NOP_ERR_PARAM, None))"
proof -
  have "event_entry (event_meta e) = event_entry e" for e by (simp add: event_entry_def event_meta_def)
  moreover have "nop_event_hub_recent (publish_all es (nop_event_hub_create :: 'k nop_event_hub)) (wanted rq) =
      take (min 64 (nat (wanted rq))) (map event_meta (rev es))" for rq
    by (rule recent_spec[OF ring_all[OF ring_create, of es], simplified]) (simp add: wanted_def Let_def)
  moreover have "min 64 (nat (wanted rq)) = nat (wanted rq)" for rq by (auto simp: wanted_def Let_def)
  ultimately have "map event_entry (nop_event_hub_recent (publish_all es (nop_event_hub_create :: 'k nop_event_hub)) (wanted rq)) =
      map event_entry (take (nat (let n = arg_int rq ''listNumber'' 20 in if n \<le> 0 \<or> 64 < n then 64 else n)) (rev es))" for rq
    by (simp add: take_map comp_def wanted_def[symmetric, unfolded Let_def] Let_def)
  then show ?thesis
    by (simp add: cap_answer_def cap_reply_def cap_event_register_def handle_query_event_list_def need_def ok_obj_def fails_def
        nop_response_init_def Let_def)
qed

end
