(* ===== verification/Cap_Agent.thy ===== *)
theory Cap_Agent
  imports Cap_Base
begin

text \<open>
  business/caps/cap_agent.c: the device agent's logging, diagnostics and report commands. The state is two flags that no
  command reads except the one that sets them.
\<close>

record agent =
  g_log_enabled :: bool
  g_diagnostic_enabled :: bool

definition agent0 :: agent where
  "agent0 = \<lparr>g_log_enabled = False, g_diagnostic_enabled = False\<rparr>"

definition handle_enable_log :: "agent nop_handler" where
  "handle_enable_log rq rs s = ok_empty rs (s\<lparr>g_log_enabled := True\<rparr>)"

definition handle_get_log :: "agent nop_handler" where
  "handle_get_log rq rs s = ok_obj [(''data'', JStr [])] rs s"

definition handle_error_report :: "agent nop_handler" where
  "handle_error_report rq rs s =
     need (arg_str rq ''api'' \<noteq> None \<and> arg_has rq ''error'') (ok_empty rs s) rs s"

definition handle_restart_agent :: "agent nop_handler" where
  "handle_restart_agent rq rs s = ok_empty rs s"

definition agent_versions :: json where
  "agent_versions = JObj [(''IOTCVer'', JStr ''-''), (''AVVer'', JStr ''-''), (''RDTVer'', JStr ''-''), (''TunnelVer'', JStr ''-''),
     (''AgentVer'', JStr ''-'')]"

definition agent_sdk_options :: json where
  "agent_sdk_options = JObj [(''iotcConnMaxNumber'', JInt 10), (''iotcConnTimeout'', JInt 10), (''iotcSessionAliveTimeout'', JInt 60),
     (''iotcSessionMaxChannleNumber'', JInt 2), (''avMaxChannelNumber'', JInt 12), (''avConnTimeout'', JInt 30),
     (''rdtConnMaxNumber'', JInt 10), (''rdtConnTimeout'', JInt 10), (''tunnelBufSize'', JInt 5120000)]"

definition agent_status :: json where
  "agent_status = JObj [(''online'', JBool True), (''last_errorNum'', JInt 0), (''last_errorInfo'', JStr []), (''curConn'', JArr [])]"

definition handle_agent_diagnosis :: "agent nop_handler" where
  "handle_agent_diagnosis rq rs s =
     ok_obj [(''ver'', agent_versions), (''sdkOptions'', agent_sdk_options),
       (''agentOptions'', JObj [(''AgentMaxClientNumber'', JInt 10), (''AgentMaxTunnelNumber'', JInt 10)]),
         (''status'', agent_status)] rs s"

definition handle_agent_reset_tunnel :: "agent nop_handler" where
  "handle_agent_reset_tunnel rq rs s = ok_empty rs s"

definition handle_enable_diagnostic :: "agent nop_handler" where
  "handle_enable_diagnostic rq rs s =
     need (arg_has rq ''durationMinutes'' \<and> arg_has rq ''maxEvents'')
       (let s = s\<lparr>g_diagnostic_enabled := True\<rparr>
        in ok_obj [(''enabled'', JBool (g_diagnostic_enabled s)), (''windowStart'', JStr []),
          (''windowEnd'', JStr []),
                   (''maxEvents'', JInt (arg_int rq ''maxEvents'' 50))] rs s) rs s"

definition handle_get_report_server :: "agent nop_handler" where
  "handle_get_report_server rq rs s =
     need (arg_str rq ''model'' \<noteq> None \<and> arg_str rq ''serialNumber'' \<noteq> None) (ok_obj [(''queryRedirect'', JStr []), (''reportIntervalMins'', JInt 1440),
       (''reportTo'', JObj [(''url'', JStr []), (''auth'', JStr [])]), (''cmd'', JArr [])] rs s) rs s"

definition handle_get_environment :: "agent nop_handler" where
  "handle_get_environment rq rs s = ok_obj [(''env'', JStr ''prodution'')] rs s"

definition handle_notify_app_setup_status :: "agent nop_handler" where
  "handle_notify_app_setup_status rq rs s = need (arg_has rq ''status'') (ok_empty rs s) rs s"

definition cap_agent_register :: "agent cap_regs" where
  "cap_agent_register =
    [(''agent_diagnosis'', CAP_MISC, handle_agent_diagnosis), (''agent_resetTunnel'', CAP_MISC, handle_agent_reset_tunnel),
     (''enableLog'', CAP_MISC, handle_enable_log), (''getLog'', CAP_MISC, handle_get_log),
     (''errorReport'', CAP_MISC, handle_error_report), (''restartAgent'', CAP_MISC, handle_restart_agent),
     (''enableDiagnostic'', CAP_MISC, handle_enable_diagnostic), (''getReportServer'', CAP_MISC, handle_get_report_server),
     (''notify_appSetupStatus'', CAP_MISC, handle_notify_app_setup_status),
     (''getEnvironment'', CAP_MISC, handle_get_environment)]"

end
