(* ===== verification/Cap_Gui_Playback.thy ===== *)
theory Cap_Gui_Playback
  imports Cap_Base App_Classify
begin

text \<open>
  business/caps/cap_gui_playback.c: playback and backup on the recorder's own screen, and its long polling. The arrays of 16 cells are
  functions with their active counts. \<open>gp_longpoll\<close> is the pending mask of the long-poll object of the handler context, None when there
  is none.
\<close>

definition PLAYBACK_MAX_CHANNELS :: int where "PLAYBACK_MAX_CHANNELS = 16"

record gui_playback =
  gp_audio_enable :: "int \<Rightarrow> int"
  gp_audio_count :: int
  gp_display_mode :: int
  gp_channels :: "int \<Rightarrow> int"
  gp_channel_count :: int
  gp_status :: string
  gp_speed :: string
  gp_direction :: string
  gp_pack_duration :: "int \<Rightarrow> int"
  gp_pack_duration_set :: "int \<Rightarrow> bool"
  gp_event_schedule_json :: "string option"
  gp_longpoll :: "u32 option"

definition gui_playback0 :: gui_playback where
  "gui_playback0 = \<lparr>gp_audio_enable = \<lambda>_. 0, gp_audio_count = 4, gp_display_mode = 4,
     gp_channels = (\<lambda>_. 0)(0 := 1, 1 := 2, 2 := 3, 3 := 4), gp_channel_count = 4, gp_status = ''stopped'', gp_speed = ''1X'',
     gp_direction = ''forward'', gp_pack_duration = \<lambda>_. 0, gp_pack_duration_set = \<lambda>_. False, gp_event_schedule_json = None,
     gp_longpoll = Some 0\<rparr>"

definition playback_channel :: "nop_request \<Rightarrow> int" where
  "playback_channel rq =
     (let c = arg_int rq ''channel'' 0; c = (if c < 0 then 0 else c) in if PLAYBACK_MAX_CHANNELS \<le> c then PLAYBACK_MAX_CHANNELS - 1 else c)"

text \<open>The loops over the first \<open>n\<close> cells of an array.\<close>

definition cells :: "int \<Rightarrow> (int \<Rightarrow> int) \<Rightarrow> json" where
  "cells n a = JArr (map (\<lambda>i. JInt (a (int i))) [0..<nat n])"

definition fill_cells :: "(json option \<Rightarrow> int) \<Rightarrow> json option \<Rightarrow> int \<Rightarrow> (int \<Rightarrow> int) \<Rightarrow> int \<Rightarrow> int" where
  "fill_cells f arr n a = (\<lambda>i. if 0 \<le> i \<and> i < n then f (nop_json_arr_at arr i) else a i)"

definition atoi :: "string \<Rightarrow> int" where
  "atoi v = (case scan_d v of None \<Rightarrow> 0 | Some (n, rest) \<Rightarrow> n)"

text \<open>An element as the handlers read it: as a string, the text of zero when it is not one.\<close>

definition cell_of :: "json option \<Rightarrow> int" where
  "cell_of item = (case item of None \<Rightarrow> 0 | Some j \<Rightarrow> (case nop_json_as_str (Some j) None of Some v \<Rightarrow> atoi v | None \<Rightarrow> atoi ''0''))"

definition handle_playback_control :: "gui_playback nop_handler" where
  "handle_playback_control rq rs s =
     (case arg_str rq ''action'' of
        None \<Rightarrow> fails NOP_ERR_PARAM rs s
      | Some action \<Rightarrow>
          let s = (case arg_str rq ''speed'' of Some v \<Rightarrow> s\<lparr>gp_speed := field 16 v\<rparr> | None \<Rightarrow> s);
              s = (case arg_str rq ''direction'' of Some v \<Rightarrow> s\<lparr>gp_direction := field 16 v\<rparr> | None \<Rightarrow> s);
              s = (if action = ''play'' \<or> action = ''start'' then s\<lparr>gp_status := ''playing''\<rparr>
                   else if action = ''pause'' then s\<lparr>gp_status := ''paused''\<rparr>
                   else if action = ''stop'' then s\<lparr>gp_status := ''stopped''\<rparr> else s)
          in ok_obj [(''status'', JStr (gp_status s)), (''speed'', JStr (gp_speed s)),
            (''direction'', JStr (gp_direction s)),
                     (''timestamp'', JNum (arg_num rq ''startTime'' 0))] rs s)"

definition handle_get_playback_audio :: "gui_playback nop_handler" where
  "handle_get_playback_audio rq rs s = ok_obj [(''enable'', cells (gp_audio_count s) (gp_audio_enable s))] rs s"

definition handle_set_playback_audio :: "gui_playback nop_handler" where
  "handle_set_playback_audio rq rs s =
     need (arg_arr rq ''enable'')
       (let enable = arg_get rq ''enable''; n = min (nop_json_arr_size enable) PLAYBACK_MAX_CHANNELS
        in ok_empty rs (s\<lparr>gp_audio_enable := fill_cells (\<lambda>item. if cell_of item \<noteq> 0
          then 1 else 0) enable n (gp_audio_enable s),
                          gp_audio_count := n\<rparr>)) rs s"

definition handle_get_playback_mode :: "gui_playback nop_handler" where
  "handle_get_playback_mode rq rs s =
     ok_obj [(''displayMode'', JInt (gp_display_mode s)),
       (''channels'', cells (gp_channel_count s) (gp_channels s))] rs s"

definition handle_set_playback_mode :: "gui_playback nop_handler" where
  "handle_set_playback_mode rq rs s =
     need (arg_has rq ''displayMode'' \<and> arg_arr rq ''channels'')
       (let channels = arg_get rq ''channels''; n = min (nop_json_arr_size channels) PLAYBACK_MAX_CHANNELS
        in ok_obj [(''result'', JStr ''OK'')] rs
             (s\<lparr>gp_display_mode := arg_int rq ''displayMode'' 4,
               gp_channels := fill_cells cell_of channels n (gp_channels s),
                gp_channel_count := n\<rparr>)) rs s"

definition handle_get_file_list :: "gui_playback nop_handler" where
  "handle_get_file_list rq rs s = ok_obj [(''FileList'', JArr [])] rs s"

definition handle_channel_backup_files :: "gui_playback nop_handler" where
  "handle_channel_backup_files rq rs s = need (arg_has rq ''channel'' \<and> arg_arr rq ''list'') (ok_empty rs s) rs s"

definition handle_get_channel_backup_status :: "gui_playback nop_handler" where
  "handle_get_channel_backup_status rq rs s = ok_obj [(''percent'', JInt 0)] rs s"

definition handle_stop_channel_backup :: "gui_playback nop_handler" where
  "handle_stop_channel_backup rq rs s = ok_empty rs s"

definition stored_rules :: "json_codec \<Rightarrow> string option \<Rightarrow> json" where
  "stored_rules jc text =
     (let stored = Option.bind text (jc_parse jc)
      in case stored of Some r \<Rightarrow> if nop_json_is_arr (Some r) then r else JArr [] | None \<Rightarrow> JArr [])"

definition handle_get_channel_event_recording_schedule :: "json_codec \<Rightarrow> gui_playback nop_handler" where
  "handle_get_channel_event_recording_schedule jc rq rs s =
     need (arg_has rq ''channel'' \<and> arg_str rq ''sensor'' \<noteq> None) (ok_obj [(''rules'',
       stored_rules jc (gp_event_schedule_json s))] rs s) rs s"

definition handle_set_channel_event_recording_schedule :: "json_codec \<Rightarrow> gui_playback nop_handler" where
  "handle_set_channel_event_recording_schedule jc rq rs s =
     need (arg_has rq ''channel'' \<and> arg_str rq ''sensor'' \<noteq> None \<and> arg_arr rq ''rules'') (ok_empty rs (s\<lparr>gp_event_schedule_json := Option.bind (arg_get rq ''rules'') (jc_print jc)\<rparr>)) rs s"

definition handle_get_channel_pack_duration :: "gui_playback nop_handler" where
  "handle_get_channel_pack_duration rq rs s =
     need (arg_has rq ''channel'') (ok_obj [(''value'',
       JInt (if gp_pack_duration_set s (playback_channel rq)
       then gp_pack_duration s (playback_channel rq) else 10))] rs s) rs s"

definition handle_set_channel_pack_duration :: "gui_playback nop_handler" where
  "handle_set_channel_pack_duration rq rs s =
     (let ch = playback_channel rq
      in need (arg_has rq ''channel'' \<and> arg_has rq ''value'')
        (ok_empty rs (s\<lparr>gp_pack_duration := (gp_pack_duration s)(ch := arg_int rq ''value'' 10),
                         gp_pack_duration_set := (gp_pack_duration_set s)(ch := True)\<rparr>)) rs s)"

definition handle_long_polling :: "gui_playback nop_handler" where
  "handle_long_polling rq rs s =
     (case (case gp_longpoll s of None \<Rightarrow> (0,
       None) | Some raised \<Rightarrow> case nop_longpoll_drain raised of (pending, m) \<Rightarrow> (pending,
       Some m)) of
        (pending, m) \<Rightarrow> ok_obj [(''pending'',
          JBool (pending \<noteq> 0))] rs (s\<lparr>gp_longpoll := m\<rparr>))"

definition handle_long_polling_test :: "gui_playback nop_handler" where
  "handle_long_polling_test rq rs s = need (arg_str rq ''sub'' \<noteq> None) (ok_empty rs s) rs s"

definition cap_gui_playback_register :: "json_codec \<Rightarrow> gui_playback cap_regs" where
  "cap_gui_playback_register jc =
    [(''GUI_playbackControl'', CAP_MISC, handle_playback_control),
     (''GUI_getPlaybackAudio'', CAP_MISC, handle_get_playback_audio),
     (''GUI_setPlaybackAudio'', CAP_MISC, handle_set_playback_audio),
     (''GUI_getPlaybackMode'', CAP_MISC, handle_get_playback_mode),
     (''GUI_setPlaybackMode'', CAP_MISC, handle_set_playback_mode), (''GUI_getFileList'', CAP_MISC, handle_get_file_list),
     (''GUI_ChannelBackupFiles'', CAP_MISC, handle_channel_backup_files),
     (''GUI_GetChannelBackupStatus'', CAP_MISC, handle_get_channel_backup_status),
     (''GUI_StopChannelBackup'', CAP_MISC, handle_stop_channel_backup),
     (''GUI_getChannelEventRecordingSchedule'', CAP_MISC, handle_get_channel_event_recording_schedule jc),
     (''GUI_setChannelEventRecordingSchedule'', CAP_MISC, handle_set_channel_event_recording_schedule jc),
     (''GUI_getChannelPackDuration'', CAP_MISC, handle_get_channel_pack_duration),
     (''GUI_setChannelPackDuration'', CAP_MISC, handle_set_channel_pack_duration),
     (''GUI_longPolling'', CAP_MISC, handle_long_polling), (''GUI_longPolling_Test'', CAP_MISC, handle_long_polling_test)]"

text \<open>The event recording schedule: asked for a channel and a sensor, but one value for all of them.\<close>

definition event_schedule_setting :: "json_codec \<Rightarrow> setting_decl" where
  "event_schedule_setting jc =
     \<lparr>sd_set = ''GUI_setChannelEventRecordingSchedule'', sd_get = ''GUI_getChannelEventRecordingSchedule'', sd_chan = \<lambda>_. 0,
      sd_need = \<lambda>rq. arg_has rq ''channel'' \<and> arg_str rq ''sensor'' \<noteq> None,
      sd_wr = \<lambda>rq. if arg_has rq ''channel'' \<and> arg_str rq ''sensor'' \<noteq> None \<and> arg_arr rq ''rules''
        then Some (JObj [(''rules'', stored_rules jc (Option.bind (arg_get rq ''rules'') (jc_print jc)))]) else None,
      sd_dflt = \<lambda>_. JObj [(''rules'', JArr [])]\<rparr>"

lemma playback_keeps [simp]:
  "gp_pack_duration (snd (snd (handle_playback_control rq rs s))) = gp_pack_duration s"
  "gp_pack_duration_set (snd (snd (handle_playback_control rq rs s))) = gp_pack_duration_set s"
  "gp_event_schedule_json (snd (snd (handle_playback_control rq rs s))) = gp_event_schedule_json s"
  "gp_pack_duration (snd (snd (handle_long_polling rq rs s))) = gp_pack_duration s"
  "gp_pack_duration_set (snd (snd (handle_long_polling rq rs s))) = gp_pack_duration_set s"
  "gp_event_schedule_json (snd (snd (handle_long_polling rq rs s))) = gp_event_schedule_json s"
  by (simp_all add: handle_playback_control_def handle_long_polling_def Let_def split: option.split prod.split)

lemma stored_rules_none [simp]: "stored_rules jc None = JArr []"
  by (simp add: stored_rules_def)

lemmas gui_playback_handlers = handle_playback_control_def handle_get_playback_audio_def handle_set_playback_audio_def handle_get_playback_mode_def
  handle_set_playback_mode_def handle_get_file_list_def handle_channel_backup_files_def handle_get_channel_backup_status_def
  handle_stop_channel_backup_def handle_get_channel_event_recording_schedule_def handle_set_channel_event_recording_schedule_def handle_get_channel_pack_duration_def
  handle_set_channel_pack_duration_def handle_long_polling_def handle_long_polling_test_def

lemmas gui_playback_simps = cap_gui_playback_register_def setting_simps gui_playback_handlers Let_def ok_obj_def cap_answer_def cap_reply_def
  gui_playback0_def nop_response_init_def snapshot_or_def or_default_def event_schedule_setting_def fails_def need_def ok_empty_def

interpretation gui_playback_pack: setting "cap_gui_playback_register jc"
    "needing (\<lambda>rq. arg_has rq ''channel'') (int_setting ''GUI_setChannelPackDuration'' ''GUI_getChannelPackDuration'' playback_channel ''value'' 10 10)"
    "\<lambda>s k. JObj [(''value'', JInt (if gp_pack_duration_set s k then gp_pack_duration s k else 10))]" gui_playback0 for jc
  by unfold_locales (simp_all add: gui_playback_simps del: handle_playback_control_def handle_long_polling_def cong: conj_cong)

interpretation gui_playback_schedule: setting "cap_gui_playback_register jc"
    "event_schedule_setting jc"
    "\<lambda>s k. if k = 0 then JObj [(''rules'', stored_rules jc (gp_event_schedule_json s))] else JObj [(''rules'', JArr [])]" gui_playback0 for jc
  by unfold_locales (auto simp: gui_playback_simps simp del: handle_playback_control_def handle_long_polling_def cong: conj_cong)

definition gui_playback_settings :: "json_codec \<Rightarrow> setting_decl list" where
  "gui_playback_settings jc =
    [needing (\<lambda>rq. arg_has rq ''channel'') (int_setting ''GUI_setChannelPackDuration'' ''GUI_getChannelPackDuration'' playback_channel ''value'' 10 10),
     event_schedule_setting jc]"

lemma gui_playback_settings_ok: "list_all (setting_ok (cap_gui_playback_register jc) gui_playback0) (gui_playback_settings jc)"
  by (simp add: gui_playback_settings_def gui_playback_pack.holds gui_playback_schedule.holds)

section \<open>What is not read back\<close>

text \<open>The setters of the audio mask and of the layout read each element as a string, while the getters write numbers: given a getter's own
  answer, they store zeros.\<close>

lemma numbers_read_as_zero: "fill_cells cell_of (Some (JArr (map JInt ns))) (int (length ns)) a i = (if 0 \<le> i \<and> i < int (length ns) then 0 else a i)"
proof -
  have "atoi ''0'' = 0" by code_simp
  then have "cell_of (Some (JInt n)) = 0" for n by (simp add: cell_of_def JInt_def nop_json_as_str_def)
  then show ?thesis by (simp add: fill_cells_def nop_json_arr_at_def nth_map nat_less_iff)
qed

lemma layout_not_read_back:
  "gp_channels (snd (snd (handle_set_playback_mode
     \<lparr>rq_func = ''GUI_setPlaybackMode'', rq_args = rs_content (fst (snd (handle_get_playback_mode rq nop_response_init gui_playback0)))\<rparr>
     nop_response_init gui_playback0))) 0 = 0"
  by code_simp

text \<open>The schedule that one channel is given is the schedule of every channel.\<close>

lemma schedule_of_every_channel:
  assumes "arg_has rq ''channel'' \<and> arg_str rq ''sensor'' \<noteq> None \<and> arg_arr rq ''rules''"
    "arg_has rq' ''channel'' \<and> arg_str rq' ''sensor'' \<noteq> None"
  shows "handle_get_channel_event_recording_schedule jc rq' rs (snd (snd (handle_set_channel_event_recording_schedule jc rq rs s))) =
    ok_obj [(''rules'', stored_rules jc (Option.bind (arg_get rq ''rules'') (jc_print jc)))] rs
      (s\<lparr>gp_event_schedule_json := Option.bind (arg_get rq ''rules'') (jc_print jc)\<rparr>)"
  using assms by (simp add: handle_get_channel_event_recording_schedule_def handle_set_channel_event_recording_schedule_def need_def)

text \<open>The other setters of the family.\<close>

lemma gui_playback_left_over: "left_over (cap_gui_playback_register jc) (gui_playback_settings jc) =
    [''GUI_setPlaybackAudio'', ''GUI_setPlaybackMode'']"
  by (simp add: left_over_def setters_of_def is_setter_def setting_simps gui_playback_settings_def cap_gui_playback_register_def event_schedule_setting_def)

end
