(* ===== verification/Cap_Calendar.thy ===== *)
theory Cap_Calendar
  imports App_Classify "HOL-Library.Signed_Division"
begin

text \<open>
  The calendar that business/caps/cap_system.c computes with: \<open>civil_to_epoch\<close>, the seconds since 1970 of a date and time, and
  the conversions of the C library it relies on: \<open>gmtime\<close>, the \<open>%Nd\<close> of \<open>sscanf\<close> and the \<open>%0Nd\<close> of \<open>snprintf\<close>. The Gregorian
  calendar is stated by its rule for the next day, and \<open>civil_to_epoch\<close> is shown to count those days.
\<close>

definition civil_days :: "int \<Rightarrow> int \<Rightarrow> int \<Rightarrow> int" where
  "civil_days year month day =
     (let year = year - (if month \<le> 2 then 1 else 0);
          era = (if 0 \<le> year then year else year - 399) sdiv 400;
          year_of_era = year - era * 400;
          day_of_year = (153 * (month + (if 2 < month then - 3 else 9)) + 2) sdiv 5 + day - 1;
          day_of_era = year_of_era * 365 + year_of_era div 4 - year_of_era div 100 + day_of_year
      in era * 146097 + day_of_era - 719468)"

definition civil_to_epoch :: "int \<Rightarrow> int \<Rightarrow> int \<Rightarrow> int \<Rightarrow> int \<Rightarrow> int \<Rightarrow> int" where
  "civil_to_epoch year month day hour minute second = civil_days year month day * 86400 + hour * 3600 + minute * 60 + second"

section \<open>The Gregorian calendar\<close>

type_synonym date = "int \<times> int \<times> int"

definition leap :: "int \<Rightarrow> bool" where
  "leap y \<longleftrightarrow> 4 dvd y \<and> (\<not> 100 dvd y \<or> 400 dvd y)"

definition month_days :: "int \<Rightarrow> int \<Rightarrow> int" where
  "month_days y m = (if m = 2 then (if leap y then 29 else 28) else if m = 4 \<or> m = 6 \<or> m = 9 \<or> m = 11 then 30 else 31)"

fun valid_date :: "date \<Rightarrow> bool" where
  "valid_date (y, m, d) \<longleftrightarrow> 1 \<le> m \<and> m \<le> 12 \<and> 1 \<le> d \<and> d \<le> month_days y m"

fun next_day :: "date \<Rightarrow> date" where
  "next_day (y, m, d) = (if d < month_days y m then (y, m, d + 1) else if m < 12 then (y, m + 1, 1) else (y + 1, 1, 1))"

fun prev_day :: "date \<Rightarrow> date" where
  "prev_day (y, m, d) = (if 1 < d then (y, m, d - 1) else if 1 < m then (y, m - 1, month_days y (m - 1)) else (y - 1, 12, 31))"

definition date_of_day :: "int \<Rightarrow> date" where
  "date_of_day n = (if 0 \<le> n then (next_day ^^ nat n) (1970, 1, 1) else (prev_day ^^ nat (- n)) (1970, 1, 1))"

fun day_number :: "date \<Rightarrow> int" where
  "day_number (y, m, d) = civil_days y m d"

text \<open>The closed form: days before the year that starts in March, plus the day of that year.\<close>

definition year_start :: "int \<Rightarrow> int" where
  "year_start y = 365 * y + y div 4 - y div 100 + y div 400"

definition day_of_year :: "int \<Rightarrow> int \<Rightarrow> int" where
  "day_of_year m d = (153 * (m + (if 2 < m then - 3 else 9)) + 2) div 5 + d - 1"

definition march_year :: "int \<Rightarrow> int \<Rightarrow> int" where
  "march_year y m = y - (if m \<le> 2 then 1 else 0)"

lemma neg_div: "0 < k \<Longrightarrow> - ((k - 1 - y) div k) = y div (k::int)"
proof -
  assume k: "0 < k"
  have "(k - 1 - y) div k = - (y div k)"
  proof (rule int_div_pos_eq)
    have "y = k * (y div k) + y mod k" by simp
    then show "k - 1 - y = k * - (y div k) + (k - 1 - y mod k)" by (simp add: algebra_simps)
  qed (use k pos_mod_bound[of k y] pos_mod_sign[of k y] in linarith)+
  then show ?thesis by simp
qed

lemma era_floor: "(if 0 \<le> y then y else y - 399) sdiv 400 = y div (400::int)"
  using neg_div[of 400 y] by (simp add: signed_divide_int_def sgn_if)

lemma year_of_era_days: "0 \<le> r \<Longrightarrow> r < 400 \<Longrightarrow> year_start (400 * e + r) = e * 146097 + (r * 365 + r div 4 - r div 100)"
proof -
  assume r: "0 \<le> r" "r < 400"
  have "(400 * e + r) div 4 = 100 * e + r div 4" "(400 * e + r) div 100 = 4 * e + r div 100"
    using div_mult_self2[of 4 r "100 * e"] div_mult_self2[of 100 r "4 * e"] by (simp_all add: add.commute mult.assoc[symmetric])
  moreover have "(400 * e + r) div 400 = e" using r by simp
  ultimately show ?thesis unfolding year_start_def by simp
qed

lemma civil_days_eq:
  assumes "1 \<le> m"
  shows "civil_days y m d = year_start (march_year y m) + day_of_year m d - 719468"
proof -
  have "(153 * (m + (if 2 < m then - 3 else 9)) + 2) sdiv 5 = (153 * (m + (if 2 < m then - 3 else 9)) + 2) div (5::int)"
    using assms by (simp add: signed_divide_int_def sgn_if)
  moreover have "march_year y m - march_year y m div 400 * 400 = march_year y m mod 400" by (rule minus_div_mult_eq_mod)
  ultimately have "civil_days y m d = march_year y m div 400 * 146097 +
      (march_year y m mod 400 * 365 + march_year y m mod 400 div 4 - march_year y m mod 400 div 100 + day_of_year m d) - 719468"
    by (simp only: civil_days_def march_year_def[symmetric] day_of_year_def Let_def era_floor)
  also have "\<dots> = year_start (march_year y m) + day_of_year m d - 719468"
    using year_of_era_days[of "march_year y m mod 400" "march_year y m div 400"] by simp
  finally show ?thesis .
qed

lemma div_succ: "0 < k \<Longrightarrow> (a + 1) div k = a div k + (if k dvd a + 1 then 1 else (0::int))"
proof -
  assume k: "0 < k"
  have a: "a = k * (a div k) + a mod k" by simp
  show ?thesis
  proof (cases "a mod k + 1 = k")
    case True
    moreover have "k * (a div k + 1) = k * (a div k) + k" by (simp add: distrib_left)
    ultimately have "a + 1 = k * (a div k + 1)" using a by linarith
    then have "k dvd a + 1" "(a + 1) div k = a div k + 1"
      using k nonzero_mult_div_cancel_left[of k "a div k + 1"] by (metis dvd_triv_left, metis less_irrefl)
    then show ?thesis by simp
  next
    case False
    then have r: "0 \<le> a mod k + 1" "a mod k + 1 < k" using k pos_mod_sign[of k a] pos_mod_bound[of k a] by linarith+
    have e: "a + 1 = k * (a div k) + (a mod k + 1)" using a by linarith
    have "(a + 1) div k = a div k" "(a + 1) mod k = a mod k + 1"
      using int_div_pos_eq[OF e r] int_mod_pos_eq[OF e r] by simp_all
    moreover have "a mod k + 1 \<noteq> 0" using k pos_mod_sign[of k a] by linarith
    ultimately show ?thesis by (simp add: dvd_eq_mod_eq_0)
  qed
qed

lemma year_start_succ: "year_start (y + 1) = year_start y + 365 + (if leap (y + 1) then 1 else 0)"
proof -
  have "400 dvd y + 1 \<Longrightarrow> 100 dvd y + 1" using dvd_trans[of 100 400 "y + 1"] by simp
  moreover have "100 dvd y + 1 \<Longrightarrow> 4 dvd y + 1" using dvd_trans[of 4 100 "y + 1"] by simp
  ultimately show ?thesis 
    by (cases "4 dvd y + 1"; cases "100 dvd y + 1"; cases "400 dvd y + 1") (simp_all add: year_start_def leap_def div_succ)
qed

text \<open>The next day has the next number.\<close>

lemma year_start_pred: "year_start y = year_start (y - 1) + 365 + (if leap y then 1 else 0)"
  using year_start_succ[of "y - 1"] by simp

lemma month_cases:
  fixes m :: int
  assumes "1 \<le> m" "m \<le> 12"
  obtains "m = 1" | "m = 2" | "m = 3" | "m = 4" | "m = 5" | "m = 6" | "m = 7" | "m = 8" | "m = 9" | "m = 10" | "m = 11" | "m = 12"
proof -
  have "m = 1 \<or> m = 2 \<or> m = 3 \<or> m = 4 \<or> m = 5 \<or> m = 6 \<or> m = 7 \<or> m = 8 \<or> m = 9 \<or> m = 10 \<or> m = 11 \<or> m = 12"
    using assms by presburger
  then show thesis using that by blast
qed

lemma next_valid: "valid_date x \<Longrightarrow> valid_date (next_day x)"
  by (cases x) (auto simp: month_days_def)

lemma prev_valid: "valid_date x \<Longrightarrow> valid_date (prev_day x)"
  by (cases x) (auto simp: month_days_def)

lemma next_number: "valid_date x \<Longrightarrow> day_number (next_day x) = day_number x + 1"
proof (cases x)
  case (fields y m d)
  assume v: "valid_date x"
  then have m: "1 \<le> m" "m \<le> 12" "1 \<le> d" "d \<le> month_days y m" using fields by simp_all
  from m(1,2) show ?thesis
    by (rule month_cases)
      (use m fields year_start_pred[of y] in \<open>auto simp: civil_days_eq day_of_year_def march_year_def month_days_def\<close>)
qed

lemma prev_number: "valid_date x \<Longrightarrow> day_number (prev_day x) = day_number x - 1"
proof -
  assume v: "valid_date x"
  have "next_day (prev_day x) = x" using v by (cases x) (auto simp: month_days_def)
  then show ?thesis using next_number[OF prev_valid[OF v]] by simp
qed

lemma date_of_day_number: "valid_date (date_of_day n) \<and> day_number (date_of_day n) = n"
proof -
  have "valid_date ((next_day ^^ k) (1970, 1, 1)) \<and> day_number ((next_day ^^ k) (1970, 1, 1)) = int k" for k
  proof (induction k)
    case 0
    show ?case by (simp add: month_days_def civil_days_eq year_start_def march_year_def day_of_year_def)
  qed (simp_all add: next_valid next_number del: valid_date.simps day_number.simps next_day.simps)
  moreover have "valid_date ((prev_day ^^ k) (1970, 1, 1)) \<and> day_number ((prev_day ^^ k) (1970, 1, 1)) = - int k" for k
  proof (induction k)
    case 0
    show ?case by (simp add: month_days_def civil_days_eq year_start_def march_year_def day_of_year_def)
  qed (simp_all add: prev_valid prev_number del: valid_date.simps day_number.simps prev_day.simps)
  ultimately show ?thesis by (cases "0 \<le> n") (simp_all add: date_of_day_def)
qed

text \<open>Two dates with the same number are the same.\<close>

lemma year_start_mono: "a \<le> b \<Longrightarrow> year_start a \<le> year_start b"
proof (induction b rule: int_ge_induct)
  case (step b)
  then show ?case using year_start_succ[of b] by simp
qed simp

lemma day_of_year_bounds:
  assumes "valid_date (y, m, d)"
  shows "0 \<le> day_of_year m d" "year_start (march_year y m) + day_of_year m d < year_start (march_year y m + 1)"
proof -
  have m: "1 \<le> m" "m \<le> 12" "1 \<le> d" "d \<le> month_days y m" using assms by simp_all
  have "0 \<le> day_of_year m d \<and> day_of_year m d < 365 + (if leap (march_year y m + 1) then 1 else 0)"
    by (rule month_cases[OF m(1,2)]) (use m in \<open>auto simp: day_of_year_def month_days_def march_year_def\<close>)
  then show "0 \<le> day_of_year m d" "year_start (march_year y m) + day_of_year m d < year_start (march_year y m + 1)"
    using year_start_succ[of "march_year y m"] by simp_all
qed

lemma day_number_inj:
  assumes "valid_date x" "valid_date x'" "day_number x = day_number x'"
  shows "x = x'"
proof -
  obtain y m d y' m' d' where x: "x = (y, m, d)" "x' = (y', m', d')" by (cases x; cases x')
  have v: "1 \<le> m" "m \<le> 12" "1 \<le> d" "d \<le> month_days y m" "1 \<le> m'" "m' \<le> 12" "1 \<le> d'" "d' \<le> month_days y' m'"
    using assms x by simp_all
  let ?Y = "march_year y m" and ?Y' = "march_year y' m'"
  have e: "year_start ?Y + day_of_year m d = year_start ?Y' + day_of_year m' d'" using assms(3) x v by (simp add: civil_days_eq)
  note B = day_of_year_bounds[OF assms(1)[unfolded x]] day_of_year_bounds[OF assms(2)[unfolded x]]
  have Y: "?Y = ?Y'"
  proof (rule ccontr)
    assume "?Y \<noteq> ?Y'"
    then consider "?Y + 1 \<le> ?Y'" | "?Y' + 1 \<le> ?Y" by linarith
    then show False by cases (use year_start_mono[of "?Y + 1" ?Y'] year_start_mono[of "?Y' + 1" ?Y] B e in linarith)+
  qed
  then have D: "day_of_year m d = day_of_year m' d'" using e by simp
  have "m = m'"
    by (rule month_cases[OF v(1,2)]; rule month_cases[OF v(5,6)])
      (use v D in \<open>simp_all add: day_of_year_def month_days_def split: if_splits\<close>)
  then show ?thesis using D Y x by (simp add: day_of_year_def march_year_def)
qed

lemma date_of_day_of_number: "valid_date x \<Longrightarrow> date_of_day (day_number x) = x"
  using day_number_inj[of "date_of_day (day_number x)" x] date_of_day_number[of "day_number x"] by blast

section \<open>Seconds\<close>

type_synonym moment = "date \<times> int \<times> int \<times> int"

fun valid_moment :: "moment \<Rightarrow> bool" where
  "valid_moment (x, h, mi, s) \<longleftrightarrow> valid_date x \<and> 0 \<le> h \<and> h < 24 \<and> 0 \<le> mi \<and> mi < 60 \<and> 0 \<le> s \<and> s < 60"

fun tick :: "moment \<Rightarrow> moment" where
  "tick (x, h, mi, s) =
     (if s < 59 then (x, h, mi, s + 1) else if mi < 59 then (x, h, mi + 1, 0) else if h < 23 then (x, h + 1, 0, 0) else (next_day x, 0, 0, 0))"

fun moment_seconds :: "moment \<Rightarrow> int" where
  "moment_seconds ((y, m, d), h, mi, s) = civil_to_epoch y m d h mi s"

lemma moment_seconds: "moment_seconds (x, h, mi, s) = day_number x * 86400 + h * 3600 + mi * 60 + s"
  by (cases x) (simp add: civil_to_epoch_def)

lemma tick_valid: "valid_moment t \<Longrightarrow> valid_moment (tick t)"
  by (cases t) (auto simp: next_valid simp del: valid_date.simps next_day.simps)

lemma tick_seconds: "valid_moment t \<Longrightarrow> moment_seconds (tick t) = moment_seconds t + 1"
  by (cases t) (auto simp: moment_seconds next_number simp del: valid_date.simps next_day.simps moment_seconds.simps day_number.simps)

lemma ticks: "valid_moment t \<Longrightarrow> valid_moment ((tick ^^ n) t) \<and> moment_seconds ((tick ^^ n) t) = moment_seconds t + int n"
  by (induction n) (simp_all add: tick_valid tick_seconds del: valid_moment.simps tick.simps moment_seconds.simps)

text \<open>\<open>gmtime\<close>: no result when the year does not fit an int.\<close>

definition gmtime :: "int \<Rightarrow> moment option" where
  "gmtime t =
     (case date_of_day (t div 86400) of (y, m, d) \<Rightarrow>
        let r = t mod 86400
        in if y - 1900 < - (2 ^ 31) \<or> 2 ^ 31 \<le> y - 1900 then None else Some ((y, m, d), r div 3600, r div 60 mod 60, r mod 60))"

lemma gmtime_moment:
  assumes "valid_moment t" "\<bar>fst (fst t)\<bar> < 2 ^ 31 - 2000"
  shows "gmtime (moment_seconds t) = Some t"
proof -
  obtain y m d h mi s where t: "t = ((y, m, d), h, mi, s)" by (metis prod.exhaust)
  let ?r = "h * 3600 + mi * 60 + s"
  have v: "valid_date (y, m, d)" "0 \<le> h" "h < 24" "0 \<le> mi" "mi < 60" "0 \<le> s" "s < 60" using assms(1) t by simp_all
  have r: "0 \<le> ?r" "?r < 86400" using v by linarith+
  have e: "moment_seconds t = 86400 * day_number (y, m, d) + ?r" unfolding t moment_seconds by simp
  have D: "moment_seconds t div 86400 = day_number (y, m, d)" "moment_seconds t mod 86400 = ?r"
    using int_div_pos_eq[OF e r] int_mod_pos_eq[OF e r] by simp_all
  have h: "?r div 3600 = h" by (rule int_div_pos_eq[of _ _ _ "mi * 60 + s"]) (use v in linarith)+
  have m: "?r div 60 = h * 60 + mi" "?r mod 60 = s"
    using v by (intro int_div_pos_eq[of _ _ _ s] int_mod_pos_eq[of _ _ "h * 60 + mi"]; simp)+
  have "?r div 60 mod 60 = mi" using v m by (simp add: int_mod_pos_eq[of _ _ h mi])
  then show ?thesis
    using assms(2) h m date_of_day_of_number[OF v(1)] unfolding gmtime_def D by (simp add: t Let_def abs_less_iff)
qed

section \<open>Digits\<close>

definition pad_int :: "nat \<Rightarrow> int \<Rightarrow> string" where
  "pad_int w k =
     (let ds = show_nat (nat \<bar>k\<bar>); sg = (if k < 0 then ''-'' else [])
      in sg @ replicate (w - length sg - length ds) (CHR ''0'') @ ds)"

definition scan_width :: "nat \<Rightarrow> string \<Rightarrow> (int \<times> string) option" where
  "scan_width w v =
     (let v = dropWhile isspace v;
          signed = (v \<noteq> [] \<and> (hd v = CHR ''-'' \<or> hd v = CHR ''+''));
          neg = (v \<noteq> [] \<and> hd v = CHR ''-'');
          rest = (if signed then tl v else v);
          ds = takeWhile isdigit (take (if signed then w - 1 else w) rest)
      in if ds = [] then None else Some (if neg then - decimal ds else decimal ds, drop (length ds) rest))"

lemma digit_char: "n < 10 \<Longrightarrow> isdigit (char_of (48 + n)) \<and> int (code (char_of (48 + n))) - 48 = int n"
  by (simp add: isdigit_def code_def)

lemma show_nat_digits: "list_all isdigit (show_nat n)"
proof (induction n rule: less_induct)
  case (less n)
  show ?case
  proof (cases "n < 10")
    case True
    then show ?thesis using digit_char by (subst show_nat.simps) simp
  next
    case False
    then show ?thesis using less[of "n div 10"] digit_char[of "n mod 10"] by (subst show_nat.simps) simp
  qed
qed

lemma decimal_snoc: "decimal (ds @ [d]) = decimal ds * 10 + (int (code d) - 48)"
  by (simp add: decimal_def)

lemma decimal_show_nat [simp]: "decimal (show_nat n) = int n"
proof (induction n rule: less_induct)
  case (less n)
  show ?case
  proof (cases "n < 10")
    case True
    then show ?thesis using digit_char[of n] by (subst show_nat.simps) (simp add: decimal_def)
  next
    case False
    have "int (n div 10) * 10 + int (n mod 10) = int n" by (simp add: zdiv_int zmod_int)
    then show ?thesis using False less[of "n div 10"] digit_char[of "n mod 10"] by (subst show_nat.simps) (simp add: decimal_snoc)
  qed
qed

lemma decimal_zeros: "decimal (replicate n (CHR ''0'') @ ds) = decimal ds"
proof (induction n)
  case (Suc n)
  have "decimal (CHR ''0'' # es) = decimal es" for es by (simp add: decimal_def code_def)
  then show ?case using Suc by simp
qed simp

lemma pad_int_facts:
  assumes "0 \<le> k" "k < 10 ^ w" "0 < w"
  shows "length (pad_int w k) = w" "list_all isdigit (pad_int w k)" "decimal (pad_int w k) = k"
proof -
  have "length (show_nat (nat k)) \<le> w" by (rule length_show_nat) (use assms in \<open>simp_all add: nat_less_iff\<close>)
  then show "length (pad_int w k) = w" using assms by (simp add: pad_int_def Let_def)
  have "isdigit (CHR ''0'')" by code_simp
  then have "list_all isdigit (replicate n (CHR ''0''))" for n by (simp add: list_all_iff)
  then show "list_all isdigit (pad_int w k)" using assms show_nat_digits by (simp add: pad_int_def Let_def)
  show "decimal (pad_int w k) = k" using assms by (simp add: pad_int_def Let_def decimal_zeros)
qed

lemma takeWhile_digits: "list_all isdigit ds \<Longrightarrow> takeWhile isdigit ds = ds"
  by (simp add: takeWhile_eq_all_conv list_all_iff)

lemma scan_pad:
  assumes "0 \<le> k" "k < 10 ^ w" "0 < w"
  shows "scan_width w (pad_int w k @ rest) = Some (k, rest)"
proof -
  note P = pad_int_facts[OF assms]
  obtain c cs where p: "pad_int w k = c # cs" using P(1) assms(3) by (cases "pad_int w k") auto
  have "isdigit c" using P(2) p by simp
  then have "\<not> isspace c" "c \<noteq> CHR ''-''" "c \<noteq> CHR ''+''" by (auto simp: isspace_def isdigit_def code_def)
  then have "dropWhile isspace (pad_int w k @ rest) = pad_int w k @ rest" "hd (pad_int w k @ rest) \<noteq> CHR ''-''"
    "hd (pad_int w k @ rest) \<noteq> CHR ''+''" "pad_int w k @ rest \<noteq> []" using p by simp_all
  moreover have "pad_int w k \<noteq> []" using p by simp
  ultimately show ?thesis using P by (simp add: scan_width_def Let_def takeWhile_digits)
qed

end
