(* ===== verification/Cap_System.thy ===== *)
theory Cap_System
  imports Cap_Hal Cap_Calendar
begin

text \<open>
  business/caps/cap_system.c: power, the device's name, language, time zone and display mode, and its soft clock. The clock follows the
  host's (\<open>host\<close>, seconds since 1970) until it is set; from then on it is the epoch that was set plus the time that has passed on the
  monotonic clock (\<open>now\<close>, milliseconds).
\<close>

record 'd system =
  y_device_name :: string
  y_language :: string
  y_timezone :: string
  y_timezone_dst :: string
  y_display_mode :: int
  y_display_page :: int
  y_auto_change_camera :: int
  y_auto_select_event_camera :: int
  y_first_view :: int
  y_clock_epoch :: int
  y_clock_mono_base :: u64
  y_dev :: 'd

definition system0 :: "'d \<Rightarrow> 'd system" where
  "system0 d = \<lparr>y_device_name = ''NOP Device'', y_language = ''english'', y_timezone = ''GMT +0:00'', y_timezone_dst = [],
     y_display_mode = 4, y_display_page = 1, y_auto_change_camera = - 1, y_auto_select_event_camera = 0, y_first_view = 1,
     y_clock_epoch = 0, y_clock_mono_base = 0, y_dev = d\<rparr>"

definition current_epoch :: "u64 \<Rightarrow> int \<Rightarrow> 'd system \<Rightarrow> int" where
  "current_epoch now host s =
     (if y_clock_epoch s \<noteq> 0 then y_clock_epoch s + int (unat ((now - y_clock_mono_base s) div 1000)) else host)"

text \<open>A request that the system driver answers alone.\<close>

definition power_call :: "('d \<Rightarrow> nop_status \<times> 'd) option \<Rightarrow> nop_response \<Rightarrow> 'd system \<Rightarrow> nop_status \<times> nop_response \<times> 'd system" where
  "power_call f rs s =
     (case f of None \<Rightarrow> fails NOP_ERR_NOTIMPL rs s | Some f \<Rightarrow> case f (y_dev s) of (st, d) \<Rightarrow> (st, rs, s\<lparr>y_dev := d\<rparr>))"

definition handle_reboot :: "'d hal_system option \<Rightarrow> 'd system nop_handler" where
  "handle_reboot sys rq rs s = power_call (Option.bind sys hy_reboot) rs s"

definition handle_reset_device :: "'d hal_system option \<Rightarrow> 'd system nop_handler" where
  "handle_reset_device sys rq rs s = power_call (Option.bind sys hy_factory_reset) rs s"

definition handle_get_name :: "'d system nop_handler" where
  "handle_get_name rq rs s = ok_obj [(''name'', JStr (y_device_name s))] rs s"

definition handle_set_name :: "'d system nop_handler" where
  "handle_set_name rq rs s =
     (case arg_str rq ''name'' of None \<Rightarrow> fails NOP_ERR_PARAM rs s | Some v \<Rightarrow> ok_empty rs (s\<lparr>y_device_name := field 48 v\<rparr>))"

definition date_text :: "date \<Rightarrow> string" where
  "date_text x = (case x of (y, m, d) \<Rightarrow> pad_int 4 y @ pad_int 2 m @ pad_int 2 d)"

definition time_text :: "int \<times> int \<times> int \<Rightarrow> string" where
  "time_text x = (case x of (h, m, s) \<Rightarrow> pad_int 2 h @ pad_int 2 m @ pad_int 2 s)"

definition moment_json :: "moment \<Rightarrow> json" where
  "moment_json t = JObj [(''date'', JStr (date_text (fst t))), (''time'', JStr (time_text (snd t)))]"

definition handle_get_datetime :: "u64 \<Rightarrow> int \<Rightarrow> 'd system nop_handler" where
  "handle_get_datetime now host rq rs s =
     (case gmtime (current_epoch now host s) of
        None \<Rightarrow> fails NOP_ERR_INTERNAL rs s | Some t \<Rightarrow> (NOP_OK, rs\<lparr>rs_content := Some (moment_json t)\<rparr>, s))"

text \<open>The three numbers of a date, of widths \<open>a\<close>, 2 and 2.\<close>

definition scan3 :: "nat \<Rightarrow> string \<Rightarrow> (int \<times> int \<times> int) option" where
  "scan3 a v =
     Option.bind (scan_width a v) (\<lambda>(x, v). Option.bind (scan_width 2 v) (\<lambda>(y, v). Option.bind (scan_width 2 v) (\<lambda>(z, v). Some (x, y, z))))"

definition handle_set_datetime :: "u64 \<Rightarrow> 'd system nop_handler" where
  "handle_set_datetime now rq rs s =
     (case (arg_str rq ''date'', arg_str rq ''time'') of
        (Some date, Some clock_str) \<Rightarrow>
          if length date \<noteq> 8 \<or> length clock_str \<noteq> 6 then fails NOP_ERR_PARAM rs s
          else case (scan3 4 date, scan3 2 clock_str) of
              (Some (year, month, day), Some (hour, minute, second)) \<Rightarrow>
                if month < 1 \<or> 12 < month \<or> day < 1 \<or> 31 < day \<or> 23 < hour \<or> 59 < minute \<or> 59 < second
                then fails NOP_ERR_PARAM rs s
                else ok_empty rs (s\<lparr>y_clock_epoch := civil_to_epoch year month day hour minute second, y_clock_mono_base := now\<rparr>)
            | _ \<Rightarrow> fails NOP_ERR_PARAM rs s
      | _ \<Rightarrow> fails NOP_ERR_PARAM rs s)"

definition handle_get_language :: "'d system nop_handler" where
  "handle_get_language rq rs s = ok_obj [(''language'', JStr (y_language s))] rs s"

definition handle_set_language :: "'d system nop_handler" where
  "handle_set_language rq rs s =
     (case arg_str rq ''language'' of None \<Rightarrow> fails NOP_ERR_PARAM rs s | Some v \<Rightarrow> ok_empty rs (s\<lparr>y_language := field 32 v\<rparr>))"

definition handle_get_timezone :: "'d system nop_handler" where
  "handle_get_timezone rq rs s = ok_obj [(''timezone'', JStr (y_timezone s)), (''tz_dst'', JStr (y_timezone_dst s))] rs s"

definition handle_set_timezone :: "'d system nop_handler" where
  "handle_set_timezone rq rs s =
     (case arg_str rq ''timezone'' of
        None \<Rightarrow> fails NOP_ERR_PARAM rs s
      | Some v \<Rightarrow>
          let s = s\<lparr>y_timezone := field 48 v\<rparr>
          in ok_empty rs (case arg_str rq ''tz_dst'' of None \<Rightarrow> s | Some t \<Rightarrow> s\<lparr>y_timezone_dst := field 80 t\<rparr>))"

definition handle_get_display_mode :: "'d system nop_handler" where
  "handle_get_display_mode rq rs s =
     ok_obj [(''displayMode'', JInt (y_display_mode s)), (''displayPage'', JInt (y_display_page s)),
       (''allDisplayModes'', JArr (map JInt [1, 4, 8, 16])), (''autoChangeCamera'', JInt (y_auto_change_camera s)),
       (''autoSelectEventCamera'', JInt (y_auto_select_event_camera s)), (''firstView'', JInt (y_first_view s))] rs s"

definition handle_set_display_mode :: "'d system nop_handler" where
  "handle_set_display_mode rq rs s =
     need (arg_has rq ''displayMode'')
       (ok_empty rs (s\<lparr>y_display_mode := arg_int rq ''displayMode'' (y_display_mode s),
          y_display_page := arg_int rq ''displayPage'' (y_display_page s),
          y_auto_change_camera := arg_int rq ''autoChangeCamera'' (y_auto_change_camera s),
          y_auto_select_event_camera := arg_int rq ''autoSelectEventCamera'' (y_auto_select_event_camera s),
          y_first_view := arg_int rq ''firstView'' (y_first_view s)\<rparr>)) rs s"

definition handle_get_logs :: "'d system nop_handler" where
  "handle_get_logs rq rs s = ok_obj [(''list'', JArr [])] rs s"

definition cap_system_register :: "'d hal_system option \<Rightarrow> u64 \<Rightarrow> int \<Rightarrow> 'd system cap_regs" where
  "cap_system_register sys now host =
    [(''reboot'', CAP_SYSTEM, handle_reboot sys), (''resetDevice'', CAP_SYSTEM, handle_reset_device sys),
     (''getName'', CAP_SYSTEM, handle_get_name), (''setName'', CAP_SYSTEM, handle_set_name),
     (''get_datetime'', CAP_SYSTEM, handle_get_datetime now host), (''set_datetime'', CAP_SYSTEM, handle_set_datetime now),
     (''get_language'', CAP_SYSTEM, handle_get_language), (''set_language'', CAP_SYSTEM, handle_set_language),
     (''X_NightOwl_getTimezone'', CAP_SYSTEM, handle_get_timezone), (''X_NightOwl_setTimezone'', CAP_SYSTEM, handle_set_timezone),
     (''getDeviceDisplayMode'', CAP_SYSTEM, handle_get_display_mode), (''setDeviceDisplayMode'', CAP_SYSTEM, handle_set_display_mode),
     (''getLogs'', CAP_SYSTEM, handle_get_logs)]"

section \<open>Settings\<close>

lemmas system_handlers = handle_reboot_def handle_reset_device_def handle_get_name_def handle_set_name_def
  handle_get_datetime_def handle_set_datetime_def handle_get_language_def handle_set_language_def
  handle_get_timezone_def handle_set_timezone_def handle_get_display_mode_def handle_set_display_mode_def handle_get_logs_def

lemma system_keeps [simp]:
  "y_device_name (snd (snd (power_call f rs s))) = y_device_name s" "y_language (snd (snd (power_call f rs s))) = y_language s"
  "y_device_name (snd (snd (handle_set_datetime now rq rs s))) = y_device_name s"
  "y_language (snd (snd (handle_set_datetime now rq rs s))) = y_language s"
  "snd (snd (handle_get_datetime now host rq rs s)) = s"
  by (auto simp: power_call_def handle_set_datetime_def handle_get_datetime_def split: option.split prod.split)

lemmas system_simps = cap_system_register_def setting_simps system_handlers Let_def ok_obj_def cap_answer_def cap_reply_def
  system0_def nop_response_init_def fails_def need_def ok_empty_def

interpretation system_name: setting "cap_system_register sys now host"
    "text_setting ''setName'' ''getName'' (\<lambda>_. 0) 48 ''name'' ''name'' ''NOP Device''"
    "\<lambda>s k. JObj [(''name'', JStr (if k = 0 then y_device_name s else ''NOP Device''))]" "system0 d" for sys now host d
  by unfold_locales (simp_all add: system_simps del: handle_set_datetime_def handle_get_datetime_def split: option.split)

interpretation system_language: setting "cap_system_register sys now host"
    "text_setting ''set_language'' ''get_language'' (\<lambda>_. 0) 32 ''language'' ''language'' ''english''"
    "\<lambda>s k. JObj [(''language'', JStr (if k = 0 then y_language s else ''english''))]" "system0 d" for sys now host d
  by unfold_locales (simp_all add: system_simps del: handle_set_datetime_def handle_get_datetime_def split: option.split)

definition system_settings :: "setting_decl list" where
  "system_settings =
    [text_setting ''setName'' ''getName'' (\<lambda>_. 0) 48 ''name'' ''name'' ''NOP Device'',
     text_setting ''set_language'' ''get_language'' (\<lambda>_. 0) 32 ''language'' ''language'' ''english'']"

lemma system_settings_ok: "list_all (setting_ok (cap_system_register sys now host) (system0 d)) system_settings"
  by (simp add: system_settings_def system_name.holds system_language.holds)

section \<open>The clock\<close>

definition set_clock_args :: "moment \<Rightarrow> json option" where
  "set_clock_args t = Some (moment_json t)"

lemma date_text_facts:
  assumes "valid_moment t" "0 \<le> fst (fst t)" "fst (fst t) < 10000"
  shows "length (date_text (fst t)) = 8" "scan3 4 (date_text (fst t)) = Some (fst t)"
    "length (time_text (snd t)) = 6" "scan3 2 (time_text (snd t)) = Some (snd t)"
proof -
  obtain y m d h mi s where t: "t = ((y, m, d), h, mi, s)" by (metis prod.exhaust)
  have "month_days y m \<le> 31" by (simp add: month_days_def)
  then have v: "0 \<le> y" "y < 10 ^ 4" "0 \<le> m" "m < 10 ^ 2" "0 \<le> d" "d < 10 ^ 2" "0 \<le> h" "h < 10 ^ 2" "0 \<le> mi" "mi < 10 ^ 2"
    "0 \<le> s" "s < 10 ^ 2" using assms by (simp_all add: t)
  note S = scan_pad[OF v(1,2)] scan_pad[OF v(3,4)] scan_pad[OF v(5,6), of "[]"] scan_pad[OF v(7,8)] scan_pad[OF v(9,10)] scan_pad[OF v(11,12), of "[]"]
  note L = pad_int_facts(1)[OF v(1,2)] pad_int_facts(1)[OF v(3,4)] pad_int_facts(1)[OF v(5,6)] pad_int_facts(1)[OF v(7,8)]
    pad_int_facts(1)[OF v(9,10)] pad_int_facts(1)[OF v(11,12)]
  show "length (date_text (fst t)) = 8" "length (time_text (snd t)) = 6" using L by (simp_all add: t date_text_def time_text_def)
  show "scan3 4 (date_text (fst t)) = Some (fst t)" "scan3 2 (time_text (snd t)) = Some (snd t)"
    using S by (simp_all add: t date_text_def time_text_def scan3_def)
qed

lemma set_clock:
  assumes "valid_moment t" "0 \<le> fst (fst t)" "fst (fst t) < 10000"
  shows "cap_exec (cap_system_register sys now host) (''set_datetime'', set_clock_args t) s =
    s\<lparr>y_clock_epoch := moment_seconds t, y_clock_mono_base := now\<rparr>"
proof -
  obtain y m d h mi z where t: "t = ((y, m, d), h, mi, z)" by (metis prod.exhaust)
  have "month_days y m \<le> 31" by (simp add: month_days_def)
  then show ?thesis
    using assms(1) date_text_facts[OF assms]
    by (simp add: cap_exec_def cap_reply_def cap_system_register_def handle_set_datetime_def set_clock_args_def moment_json_def
        arg_str_def nop_json_str_def t ok_empty_def)
qed

lemma tick_year: "valid_moment t \<Longrightarrow> fst (fst t) \<le> fst (fst (tick t))"
  by (cases t; cases "fst t") auto

lemma ticks_year: "valid_moment t \<Longrightarrow> fst (fst t) \<le> fst (fst ((tick ^^ n) t))"
proof (induction n)
  case (Suc n)
  then show ?case using tick_year[of "(tick ^^ n) t"] ticks[of t n] by simp
qed simp

lemma year_bounds:
  assumes "valid_date (y, m, d)" "0 \<le> y"
  shows "365 * (y - 1) - 719469 \<le> day_number (y, m, d)" "y < 10000 \<Longrightarrow> day_number (y, m, d) < 3652425"
proof -
  let ?Y = "march_year y m"
  have Y: "y - 1 \<le> ?Y" "?Y \<le> y" by (simp_all add: march_year_def)
  note B = day_of_year_bounds[OF assms(1)]
  have D: "day_number (y, m, d) = year_start ?Y + day_of_year m d - 719468" using assms(1) by (simp add: civil_days_eq)
  have "365 * ?Y - 1 \<le> year_start ?Y"
  proof (cases "?Y = - 1")
    case False
    then have "0 \<le> ?Y" using Y assms(2) by simp
    then have "?Y div 100 \<le> ?Y div 4" "0 \<le> ?Y div 400" by (simp_all add: zdiv_mono2 pos_imp_zdiv_nonneg_iff)
    then show ?thesis by (simp add: year_start_def)
  qed (simp add: year_start_def)
  then have "365 * (y - 1) - 719469 \<le> year_start ?Y + day_of_year m d - 719468" using B(1) Y by simp
  then show "365 * (y - 1) - 719469 \<le> day_number (y, m, d)" by (simp only: D)
  assume "y < 10000"
  then have "year_start (?Y + 1) \<le> year_start 10000" using Y by (intro year_start_mono) simp
  moreover have "year_start 10000 = 3652425" by (simp add: year_start_def)
  ultimately show "day_number (y, m, d) < 3652425" using B(2) D by linarith
qed

text \<open>However long the monotonic clock runs, the year still fits an int.\<close>

lemma later_year_fits:
  assumes "valid_moment t" "0 \<le> fst (fst t)" "fst (fst t) < 10000" "int n < 2 ^ 64 div 1000 + 1"
  shows "\<bar>fst (fst ((tick ^^ n) t))\<bar> < 2 ^ 31 - 2000"
proof -
  let ?u = "(tick ^^ n) t"
  obtain y m d h mi s where t: "t = ((y, m, d), h, mi, s)" by (metis prod.exhaust)
  obtain y' m' d' h' mi' s' where u: "?u = ((y', m', d'), h', mi', s')" by (metis prod.exhaust)
  have T: "valid_moment ?u" "moment_seconds ?u = moment_seconds t + int n" using ticks[OF assms(1)] by simp_all
  have y: "0 \<le> y'" using ticks_year[OF assms(1), of n] assms(2) t u by simp
  have v: "valid_date (y, m, d)" "valid_date (y', m', d')" using assms(1) T(1) t u by simp_all
  define A B where AB: "A = day_number (y', m', d')" "B = day_number (y, m, d)"
  have "365 * (y' - 1) - 719469 \<le> A" unfolding AB by (rule year_bounds(1)[OF v(2) y])
  moreover have "A * 86400 \<le> moment_seconds ?u" unfolding AB using T(1) u by (simp add: moment_seconds)
  moreover have "moment_seconds t < B * 86400 + 86400" using assms(1) unfolding AB t moment_seconds by auto
  moreover have "B < 3652425" unfolding AB by (rule year_bounds(2)[OF v(1)]) (use assms t in simp_all)
  ultimately have "365 * (y' - 1) - 719469 \<le> A" "A * 86400 < 3652425 * 86400 + int n" using T(2) by simp_all
  then have "(365 * (y' - 1) - 719469) * 86400 < 3652425 * 86400 + int n" by simp
  then show ?thesis using y assms(4) u by simp
qed

text \<open>Edge cases. The first second of 1970 is what the module takes for a clock that was never set; the day is not checked against its month;
  and the signs that \<open>sscanf\<close> accepts pass as hours, minutes and seconds below zero.\<close>

lemma first_second_of_1970_is_unset:
  "current_epoch now' host (cap_exec (cap_system_register sys now h) (''set_datetime'', set_clock_args ((1970, 1, 1), 0, 0, 0)) s) = host"
proof -
  have "valid_moment ((1970, 1, 1), 0, 0, 0)" "moment_seconds ((1970, 1, 1), 0, 0, 0) = 0" by code_simp+
  then show ?thesis using set_clock[of "((1970, 1, 1), 0, 0, 0)" sys now h s] by (simp add: current_epoch_def)
qed

lemma day_not_checked_against_month: "gmtime (civil_to_epoch 1970 2 31 0 0 0) = Some ((1970, 3, 3), 0, 0, 0)"
  by code_simp

lemma signs_accepted: "scan3 2 ''-1-1-1'' = Some (- 1, - 1, - 1)"
  by code_simp

section \<open>Properties\<close>

text \<open>C24: The soft clock. A date and time that exists, from year 0 to 9999 and other than the first second of 1970, set with \<open>set_datetime\<close>, is what
  \<open>get_datetime\<close> answers, advanced by as many ticks of a clock of the Gregorian calendar as whole seconds have passed since on the monotonic clock,
  through minutes, hours, the ends of months and leap years; the host's own clock no longer matters.\<close>

theorem soft_clock:
  assumes "valid_moment t" "0 \<le> fst (fst t)" "fst (fst t) < 10000" "moment_seconds t \<noteq> 0"
  shows "cap_answer (cap_system_register sys now' host') (''get_datetime'', args)
      (cap_exec (cap_system_register sys now host) (''set_datetime'', set_clock_args t) s) =
    (NOP_OK, Some (moment_json ((tick ^^ unat ((now' - now) div 1000)) t)))"
proof -
  let ?n = "unat ((now' - now) div 1000)"
  have "unat (now' - now) div 1000 < 2 ^ 64 div 1000 + 1" using unat_64_lt[of "now' - now"] by (simp add: div_le_mono less_Suc_eq_le)
  then have "int ?n < 2 ^ 64 div 1000 + 1" by (simp add: unat_div)
  then have "gmtime (moment_seconds ((tick ^^ ?n) t)) = Some ((tick ^^ ?n) t)"
    using ticks[OF assms(1), of ?n] later_year_fits[OF assms(1-3), of ?n] by (intro gmtime_moment) simp_all
  then have "gmtime (moment_seconds t + int ?n) = Some ((tick ^^ ?n) t)" using ticks[OF assms(1), of ?n] by simp
  then show ?thesis unfolding set_clock[OF assms(1-3)]
    using assms(4)
    by (simp add: cap_answer_def cap_reply_def cap_system_register_def handle_get_datetime_def current_epoch_def)
qed

lemma soft_clock_witness:
  "cap_answer (cap_system_register None 61000 5) (''get_datetime'', None)
      (cap_exec (cap_system_register None 1000 7) (''set_datetime'', set_clock_args ((2024, 2, 28), 23, 59, 30)) (system0 ())) =
    (NOP_OK, Some (moment_json ((2024, 2, 29), 0, 0, 30)))"
proof -
  have "(tick ^^ unat ((61000 - 1000 :: u64) div 1000)) ((2024, 2, 28), 23, 59, 30) = ((2024, 2, 29), 0, 0, 30)" by code_simp
  moreover have "valid_moment ((2024, 2, 28), 23, 59, 30)" "moment_seconds ((2024, 2, 28), 23, 59, 30) \<noteq> 0" by code_simp+
  ultimately show ?thesis using soft_clock[of "((2024, 2, 28), 23, 59, 30)" None 61000 5 None 1000 7 "system0 ()"] by simp
qed

end
