(* ===== verification/Nop_Device.thy ===== *)
theory Nop_Device
  imports Cap_Floodlight Cap_Misc Cap_Misc_Ext Cap_Doorbell Cap_Gui_Account Cap_Gui_Lan Cap_Push Cap_Gui_Network Cap_Gui_System
    Cap_Cloud Cap_Network Cap_Ai Cap_Ptz Cap_Video Cap_Event Cap_Agent Cap_Gui_Playback Cap_System "HOL-Library.Tree"
begin

text \<open>
  The whole command set of a device: every family of business/caps registered on one router in the order of
  business/business_register.c, over one state that holds the state of each family. A family's handlers see their own part of the
  state only (\<open>lift\<close>). What handlers read from outside, the clocks, the event hub and what happens when a patrol is started, is in the state
  too and changes between commands.
\<close>

section \<open>The device\<close>

record 'd firmware =
  fw_light :: "'d hal_light option"
  fw_ota :: "'d hal_ota option"
  fw_record :: "'d hal_record option"
  fw_camera :: "'d hal_camera option"
  fw_audio :: "'d hal_audio option"
  fw_storage :: "'d hal_storage option"
  fw_system :: "'d hal_system option"
  fw_ptz :: "'d hal_ptz option"
  fw_json :: json_codec
  fw_onvif :: onvif_map
  fw_config :: "nop_device_config option"
  fw_registry :: cap_registry

record 'd device =
  dv_dev :: 'd
  dv_now :: u64
  dv_host :: int
  dv_start :: start_outcome
  dv_hub :: "event_sink nop_event_hub option"
  dv_system :: "'d system"
  dv_video :: "'d video"
  dv_ptz :: "'d ptz_store"
  dv_network :: network
  dv_floodlight :: floodlight
  dv_push :: push
  dv_ai :: ai
  dv_cloud :: cloud
  dv_doorbell :: doorbell
  dv_misc :: misc
  dv_misc_ext :: misc_ext
  dv_agent :: agent
  dv_account :: account
  dv_gui_network :: gui_network
  dv_gui_system :: gui_system
  dv_gui_lan :: gui_lan
  dv_gui_playback :: gui_playback

text \<open>A handler of a part, run on the whole.\<close>

definition lift :: "('t \<Rightarrow> 's) \<Rightarrow> ('s \<Rightarrow> 't \<Rightarrow> 't) \<Rightarrow> 's nop_handler \<Rightarrow> 't nop_handler" where
  "lift get put h rq rs t = (case h rq rs (get t) of (st, rs, s) \<Rightarrow> (st, rs, put s t))"

definition lift_all :: "('t \<Rightarrow> 's) \<Rightarrow> ('s \<Rightarrow> 't \<Rightarrow> 't) \<Rightarrow> 's cap_regs \<Rightarrow> 't cap_regs" where
  "lift_all get put regs = map (\<lambda>(f, cap, h). (f, cap, lift get put h)) regs"

text \<open>A family whose handlers read their surroundings \<open>env t\<close> when they run.\<close>

definition lift_env :: "('t \<Rightarrow> 'e) \<Rightarrow> 'e \<Rightarrow> ('t \<Rightarrow> 's) \<Rightarrow> ('s \<Rightarrow> 't \<Rightarrow> 't) \<Rightarrow> ('e \<Rightarrow> 's cap_regs) \<Rightarrow> 't cap_regs" where
  "lift_env env e0 get put regs =
     map (\<lambda>(f, cap, _). (f, cap, \<lambda>rq rs t. case map_of (regs (env t)) f of
        Some (_, h) \<Rightarrow> lift get put h rq rs t | None \<Rightarrow> fails NOP_ERR_NOTIMPL rs t)) (regs e0)"

definition dev_put :: "'d \<Rightarrow> 'd device \<Rightarrow> 'd device" where "dev_put d t = t\<lparr>dv_dev := d\<rparr>"

definition system_get :: "'d device \<Rightarrow> 'd system" where "system_get t = (dv_system t)\<lparr>y_dev := dv_dev t\<rparr>"
definition system_put :: "'d system \<Rightarrow> 'd device \<Rightarrow> 'd device" where "system_put s t = t\<lparr>dv_system := s, dv_dev := y_dev s\<rparr>"
definition video_get :: "'d device \<Rightarrow> 'd video" where "video_get t = (dv_video t)\<lparr>g_dev := dv_dev t\<rparr>"
definition video_put :: "'d video \<Rightarrow> 'd device \<Rightarrow> 'd device" where "video_put s t = t\<lparr>dv_video := s, dv_dev := g_dev s\<rparr>"
definition ptz_get :: "'d device \<Rightarrow> 'd ptz_store" where "ptz_get t = (dv_ptz t)\<lparr>pz_dev := dv_dev t\<rparr>"
definition ptz_put :: "'d ptz_store \<Rightarrow> 'd device \<Rightarrow> 'd device" where "ptz_put s t = t\<lparr>dv_ptz := s, dv_dev := pz_dev s\<rparr>"

definition register_shared :: "'d firmware \<Rightarrow> 'd device cap_regs" where
  "register_shared fw =
     lift_all dv_dev dev_put (cap_device_register (fw_registry fw) (fw_system fw) (fw_camera fw)) @
     lift_all dv_dev dev_put cap_auth_register @
     lift_env (\<lambda>t. (dv_now t, dv_host t)) (0, 0) system_get system_put (\<lambda>(now, host). cap_system_register (fw_system fw) now host) @
     lift_all dv_dev dev_put (cap_stream_register (fw_camera fw)) @
     lift_all dv_dev dev_put (cap_ptz_register (fw_onvif fw) (fw_ptz fw)) @
     lift_all dv_dev dev_put (cap_light_register (fw_light fw)) @
     lift_all dv_dev dev_put (cap_storage_register (fw_storage fw)) @
     lift_all dv_dev dev_put (cap_record_register (fw_record fw)) @
     lift_all dv_dev dev_put (cap_audio_register (fw_audio fw)) @
     lift_all dv_dev dev_put (cap_ota_register (fw_ota fw)) @
     lift_all dv_floodlight (\<lambda>s t. t\<lparr>dv_floodlight := s\<rparr>) (cap_floodlight_register (fw_json fw)) @
     lift_all video_get video_put (cap_video_register (fw_camera fw)) @
     lift_env dv_now 0 dv_network (\<lambda>s t. t\<lparr>dv_network := s\<rparr>) cap_network_register @
     lift_all dv_push (\<lambda>s t. t\<lparr>dv_push := s\<rparr>) (cap_push_register (fw_json fw) (fw_config fw)) @
     lift_env dv_hub None (\<lambda>t. ()) (\<lambda>s t. t) cap_event_register @
     lift_all dv_ai (\<lambda>s t. t\<lparr>dv_ai := s\<rparr>) (cap_ai_register (fw_onvif fw) (fw_json fw) (fw_config fw)) @
     lift_all dv_cloud (\<lambda>s t. t\<lparr>dv_cloud := s\<rparr>) (cap_cloud_register (fw_json fw) (fw_config fw)) @
     lift_all dv_doorbell (\<lambda>s t. t\<lparr>dv_doorbell := s\<rparr>) (cap_doorbell_register (fw_json fw)) @
     lift_all dv_misc (\<lambda>s t. t\<lparr>dv_misc := s\<rparr>) (cap_misc_register (fw_onvif fw) (fw_json fw)) @
     lift_env dv_start Starts ptz_get ptz_put (cap_ptz_patrol_register (fw_onvif fw) (fw_ptz fw)) @
     lift_all dv_ai (\<lambda>s t. t\<lparr>dv_ai := s\<rparr>) (cap_ai_advanced_register (fw_onvif fw) (fw_json fw)) @
     lift_all dv_agent (\<lambda>s t. t\<lparr>dv_agent := s\<rparr>) cap_agent_register @
     lift_all dv_misc_ext (\<lambda>s t. t\<lparr>dv_misc_ext := s\<rparr>) (cap_misc_ext_register (fw_onvif fw) (fw_json fw))"

definition register_video_recorder :: "'d firmware \<Rightarrow> 'd device cap_regs" where
  "register_video_recorder fw =
     lift_all dv_account (\<lambda>s t. t\<lparr>dv_account := s\<rparr>) cap_gui_account_register @
     lift_all dv_gui_network (\<lambda>s t. t\<lparr>dv_gui_network := s\<rparr>) (cap_gui_network_register (fw_json fw)) @
     lift_all dv_gui_system (\<lambda>s t. t\<lparr>dv_gui_system := s\<rparr>) (cap_gui_system_register (fw_json fw)) @
     lift_all dv_gui_lan (\<lambda>s t. t\<lparr>dv_gui_lan := s\<rparr>) (cap_gui_lan_register (fw_onvif fw)) @
     lift_all dv_gui_playback (\<lambda>s t. t\<lparr>dv_gui_playback := s\<rparr>) (cap_gui_playback_register (fw_json fw))"

definition recorder_commands :: "'d firmware \<Rightarrow> 'd device cap_regs" where
  "recorder_commands fw = register_shared fw @ register_video_recorder fw"

section \<open>All names are different\<close>

lemma names_lift [simp]: "map fst (lift_all get put regs) = map fst regs" "map fst (lift_env env e0 get put f) = map fst (f e0)"
  by (simp_all add: lift_all_def lift_env_def comp_def split_def)

lemmas all_registers = cap_device_register_def cap_auth_register_def cap_system_register_def cap_stream_register_def cap_ptz_register_def
  cap_light_register_def cap_storage_register_def cap_record_register_def cap_audio_register_def cap_ota_register_def
  cap_floodlight_register_def cap_video_register_def cap_network_register_def cap_push_register_def cap_event_register_def
  cap_ai_register_def cap_cloud_register_def cap_doorbell_register_def cap_misc_register_def cap_ptz_patrol_register_def
  cap_ai_advanced_register_def cap_agent_register_def cap_misc_ext_register_def cap_gui_account_register_def
  cap_gui_network_register_def cap_gui_system_register_def cap_gui_lan_register_def cap_gui_playback_register_def

text \<open>A number per name, and a check in a search tree that no number occurs twice.\<close>

definition text_number :: "string \<Rightarrow> int" where
  "text_number v = foldl (\<lambda>n c. n * 2 + of_char c) 0 v"

fun add_new :: "int \<Rightarrow> int tree \<Rightarrow> int tree option" where
  "add_new x Leaf = Some (Node Leaf x Leaf)"
| "add_new x (Node l y r) =
     (if x < y then map_option (\<lambda>l. Node l y r) (add_new x l)
      else if y < x then map_option (\<lambda>r. Node l y r) (add_new x r) else None)"

fun all_new :: "int tree \<Rightarrow> int list \<Rightarrow> bool" where
  "all_new t [] = True"
| "all_new t (x # xs) = (case add_new x t of None \<Rightarrow> False | Some t \<Rightarrow> all_new t xs)"

lemma add_new: "\<lbrakk>bst t; add_new x t = Some t'\<rbrakk> \<Longrightarrow> bst t' \<and> x \<notin> set_tree t \<and> set_tree t' = insert x (set_tree t)"
proof (induction x t arbitrary: t' rule: add_new.induct)
  case (2 x l y r)
  consider (left) l' where "x < y" "add_new x l = Some l'" "t' = Node l' y r"
    | (right) r' where "y < x" "add_new x r = Some r'" "t' = Node l y r'"
    using "2.prems"(2) by (auto split: if_splits)
  then show ?case
  proof cases
    case left
    then show ?thesis using "2.IH"(1)[of l'] "2.prems"(1) by fastforce
  next
    case right
    then show ?thesis using "2.IH"(2)[of r'] "2.prems"(1) by fastforce
  qed
qed auto

lemma all_new: "\<lbrakk>all_new t xs; bst t\<rbrakk> \<Longrightarrow> distinct xs \<and> set xs \<inter> set_tree t = {}"
proof (induction t xs rule: all_new.induct)
  case (2 t x xs)
  then obtain t' where t: "add_new x t = Some t'" "all_new t' xs" by (auto split: option.splits)
  then show ?case using 2 add_new[OF 2(3) t(1)] by auto
qed simp

lemma distinct_by_numbers: "all_new Leaf (map text_number names) \<Longrightarrow> distinct names"
  using all_new[of Leaf "map text_number names"] by (simp add: distinct_map)

lemma recorder_commands_distinct: "distinct (map fst (recorder_commands fw))"
proof (rule distinct_by_numbers)
  show "all_new Leaf (map text_number (map fst (recorder_commands fw)))"
    unfolding recorder_commands_def register_shared_def register_video_recorder_def map_append names_lift all_registers
      list.map fst_conv prod.case append.simps
    by code_simp
qed

section \<open>A family inside the device\<close>

text \<open>The contract: the family's commands are the device's, over its part of the state, and no other command touches that part. Then a
  family does in the device what it does alone.\<close>

locale family =
  fixes C :: "'t cap_regs" and R :: "'s cap_regs" and get :: "'t \<Rightarrow> 's" and put :: "'s \<Rightarrow> 't \<Rightarrow> 't"
  assumes names: "distinct (map fst C)"
    and lens: "get (put s t) = s"
    and member: "(f, cap, h) \<in> set R \<Longrightarrow> (f, cap, lift get put h) \<in> set C"
    and other: "(f, cap, H) \<in> set C \<Longrightarrow> f \<notin> fst ` set R \<Longrightarrow> get (snd (snd (H rq rs t))) = get t"
begin

lemma lookup: "map_of R f = Some (cap, h) \<Longrightarrow> map_of C f = Some (cap, lift get put h)"
  by (rule map_of_is_SomeI[OF names]) (rule member[OF map_of_SomeD])

lemma reply:
  assumes "f \<in> fst ` set R"
  shows "cap_reply C (f, args) t = (case cap_reply R (f, args) (get t) of (st, rs, s) \<Rightarrow> (st, rs, put s t))"
proof -
  obtain cap h where "map_of R f = Some (cap, h)" using assms by (cases "map_of R f") (auto simp: map_of_eq_None_iff)
  then show ?thesis using lookup by (simp add: cap_reply_def lift_def)
qed

lemma answer: "f \<in> fst ` set R \<Longrightarrow> cap_answer C (f, args) t = cap_answer R (f, args) (get t)"
  by (simp add: cap_answer_def reply split: prod.split)

lemma exec: "get (cap_exec C c t) = cap_exec R c (get t)"
proof (cases "fst c \<in> fst ` set R")
  case True
  then show ?thesis using reply[of "fst c" "snd c" t] by (simp add: cap_exec_def lens split: prod.split)
next
  case False
  then have "map_of R (fst c) = None" by (simp add: map_of_eq_None_iff)
  moreover have "get (cap_exec C c t) = get t"
  proof (cases "map_of C (fst c)")
    case (Some r)
    obtain cap H where r: "r = (cap, H)" by (cases r)
    have "(fst c, cap, H) \<in> set C" using map_of_SomeD[OF Some] r by simp
    then show ?thesis using other False Some r by (simp add: cap_exec_def cap_reply_def)
  qed (simp add: cap_exec_def cap_reply_def)
  ultimately show ?thesis by (simp add: cap_exec_def cap_reply_def)
qed

end

lemma lift_in: "(f, cap, H) \<in> set (lift_all get put regs) \<longleftrightarrow> (\<exists>h. (f, cap, h) \<in> set regs \<and> H = lift get put h)"
  by (force simp: lift_all_def)

lemma lift_keeps: "(\<And>s t. p (put s t) = p t) \<Longrightarrow> p (snd (snd (lift get put h rq rs t))) = p t"
  by (simp add: lift_def split: prod.split)

lemma lift_env_keeps:
  assumes "\<And>s t. p (put s t) = p t" "(f, cap, H) \<in> set (lift_env env e0 get put regs)"
  shows "p (snd (snd (H rq rs t))) = p t"
proof -
  have "H = (\<lambda>rq rs t. case map_of (regs (env t)) f of Some (_, h) \<Rightarrow> lift get put h rq rs t | None \<Rightarrow> fails NOP_ERR_NOTIMPL rs t)"
    using assms(2) by (auto simp: lift_env_def)
  then show ?thesis using assms(1) by (auto simp: lift_keeps split: option.split)
qed

text \<open>Parts of the state that a command of another family keeps.\<close>

definition keeps :: "'t cap_regs \<Rightarrow> ('t \<Rightarrow> 'a) \<Rightarrow> bool" where
  "keeps C p \<longleftrightarrow> list_all (\<lambda>(f, cap, H). \<forall>rq rs t. p (snd (snd (H rq rs t))) = p t) C"

lemma keepsD: "keeps C p \<Longrightarrow> (f, cap, H) \<in> set C \<Longrightarrow> p (snd (snd (H rq rs t))) = p t"
  by (auto simp: keeps_def list_all_iff)

lemma keeps_append [simp]: "keeps (C @ D) p \<longleftrightarrow> keeps C p \<and> keeps D p"
  by (simp add: keeps_def)

lemma keeps_lift [intro]: "(\<And>s t. p (put s t) = p t) \<Longrightarrow> keeps (lift_all get put regs) p"
  by (simp add: keeps_def lift_all_def list_all_iff split_def lift_keeps)

lemma keeps_lift_env [intro]:
  assumes "\<And>s t. p (put s t) = p t"
  shows "keeps (lift_env env e0 get put regs) p"
  unfolding keeps_def list_all_iff
proof
  fix x assume x: "x \<in> set (lift_env env e0 get put regs)"
  obtain f cap H where H: "x = (f, cap, H)" by (cases x)
  have "p (snd (snd (H rq rs t))) = p t" for rq rs t
    by (rule lift_env_keeps) (use assms x H in simp_all)
  then show "case x of (f, cap, H) \<Rightarrow> \<forall>rq rs t. p (snd (snd (H rq rs t))) = p t" using H by simp
qed

text \<open>Finding a family among the registrations.\<close>

definition part_of :: "'t cap_regs \<Rightarrow> 's cap_regs \<Rightarrow> ('t \<Rightarrow> 's) \<Rightarrow> ('s \<Rightarrow> 't \<Rightarrow> 't) \<Rightarrow> bool" where
  "part_of C R get put \<longleftrightarrow> (\<forall>f cap h. (f, cap, h) \<in> set R \<longrightarrow> (f, cap, lift get put h) \<in> set C) \<and>
     (\<forall>f cap H rq rs t. (f, cap, H) \<in> set C \<longrightarrow> f \<notin> fst ` set R \<longrightarrow> get (snd (snd (H rq rs t))) = get t)"

lemma part_more:
  assumes "part_of B S get put"
  shows "part_of (lift_all get put R @ B) (R @ S) get put"
  unfolding part_of_def
proof (intro conjI allI impI)
  show "(f, cap, lift get put h) \<in> set (lift_all get put R @ B)" if "(f, cap, h) \<in> set (R @ S)" for f cap h
    using that assms by (auto simp: part_of_def lift_in)
  show "get (snd (snd (H rq rs t))) = get t" if "(f, cap, H) \<in> set (lift_all get put R @ B)" "f \<notin> fst ` set (R @ S)" for f cap H rq rs t
  proof -
    have "(f, cap, H) \<notin> set (lift_all get put R)"
    proof
      assume "(f, cap, H) \<in> set (lift_all get put R)"
      then obtain h where "(f, cap, h) \<in> set R" by (auto simp: lift_in)
      then have "f \<in> fst ` set R" by (rule image_eqI[rotated]) simp
      then show False using that(2) by (simp add: image_Un)
    qed
    then have "(f, cap, H) \<in> set B" "f \<notin> fst ` set S" using that by auto
    then show ?thesis using assms unfolding part_of_def by blast
  qed
qed

lemma part_here: "keeps B get \<Longrightarrow> part_of (lift_all get put R @ B) R get put"
  using part_more[of B "[]" get put R] keepsD[of B get] by (simp add: part_of_def)

lemma part_last: "part_of (lift_all get put R) R get put"
  using part_here[of "[]" get put R] by (simp add: keeps_def)

lemma part_later:
  assumes "part_of B R get put" "keeps A get"
  shows "part_of (A @ B) R get put"
  unfolding part_of_def
proof (intro conjI allI impI)
  show "(f, cap, lift get put h) \<in> set (A @ B)" if "(f, cap, h) \<in> set R" for f cap h using that assms(1) by (simp add: part_of_def)
  show "get (snd (snd (H rq rs t))) = get t" if "(f, cap, H) \<in> set (A @ B)" "f \<notin> fst ` set R" for f cap H rq rs t
    using that assms(1) keepsD[OF assms(2)] unfolding part_of_def set_append Un_iff by blast
qed

lemma family_of: "\<lbrakk>part_of C R get put; distinct (map fst C); \<And>s t. get (put s t) = s\<rbrakk> \<Longrightarrow> family C R get put"
  by unfold_locales (auto simp: part_of_def)

lemmas puts = dev_put_def system_put_def video_put_def ptz_put_def

lemmas command_lists = recorder_commands_def register_shared_def register_video_recorder_def append_assoc

interpretation floodlight_family: family "recorder_commands fw" "cap_floodlight_register (fw_json fw)" dv_floodlight
    "\<lambda>s t. t\<lparr>dv_floodlight := s\<rparr>" for fw
  by (rule family_of[OF _ recorder_commands_distinct], unfold command_lists, (rule part_here part_last part_later)+,
      auto intro!: keeps_lift keeps_lift_env simp: puts)

interpretation push_family: family "recorder_commands fw" "cap_push_register (fw_json fw) (fw_config fw)" dv_push
    "\<lambda>s t. t\<lparr>dv_push := s\<rparr>" for fw
  by (rule family_of[OF _ recorder_commands_distinct], unfold command_lists, (rule part_here part_last part_later)+,
      auto intro!: keeps_lift keeps_lift_env simp: puts)

interpretation ai_family: family "recorder_commands fw" "ai_commands (fw_onvif fw) (fw_json fw) (fw_config fw)" dv_ai
    "\<lambda>s t. t\<lparr>dv_ai := s\<rparr>" for fw
  by (rule family_of[OF _ recorder_commands_distinct], unfold command_lists ai_commands_def, (rule part_more part_here part_later)+,
      auto intro!: keeps_lift keeps_lift_env simp: puts)

interpretation cloud_family: family "recorder_commands fw" "cap_cloud_register (fw_json fw) (fw_config fw)" dv_cloud
    "\<lambda>s t. t\<lparr>dv_cloud := s\<rparr>" for fw
  by (rule family_of[OF _ recorder_commands_distinct], unfold command_lists, (rule part_here part_last part_later)+,
      auto intro!: keeps_lift keeps_lift_env simp: puts)

interpretation doorbell_family: family "recorder_commands fw" "cap_doorbell_register (fw_json fw)" dv_doorbell
    "\<lambda>s t. t\<lparr>dv_doorbell := s\<rparr>" for fw
  by (rule family_of[OF _ recorder_commands_distinct], unfold command_lists, (rule part_here part_last part_later)+,
      auto intro!: keeps_lift keeps_lift_env simp: puts)

interpretation misc_family: family "recorder_commands fw" "cap_misc_register (fw_onvif fw) (fw_json fw)" dv_misc
    "\<lambda>s t. t\<lparr>dv_misc := s\<rparr>" for fw
  by (rule family_of[OF _ recorder_commands_distinct], unfold command_lists, (rule part_here part_last part_later)+,
      auto intro!: keeps_lift keeps_lift_env simp: puts)

interpretation agent_family: family "recorder_commands fw" "cap_agent_register" dv_agent
    "\<lambda>s t. t\<lparr>dv_agent := s\<rparr>" for fw
  by (rule family_of[OF _ recorder_commands_distinct], unfold command_lists, (rule part_here part_last part_later)+,
      auto intro!: keeps_lift keeps_lift_env simp: puts)

interpretation misc_ext_family: family "recorder_commands fw" "cap_misc_ext_register (fw_onvif fw) (fw_json fw)" dv_misc_ext
    "\<lambda>s t. t\<lparr>dv_misc_ext := s\<rparr>" for fw
  by (rule family_of[OF _ recorder_commands_distinct], unfold command_lists, (rule part_here part_last part_later)+,
      auto intro!: keeps_lift keeps_lift_env simp: puts)

interpretation account_family: family "recorder_commands fw" "cap_gui_account_register" dv_account
    "\<lambda>s t. t\<lparr>dv_account := s\<rparr>" for fw
  by (rule family_of[OF _ recorder_commands_distinct], unfold command_lists, (rule part_here part_last part_later)+,
      auto intro!: keeps_lift keeps_lift_env simp: puts)

interpretation gui_network_family: family "recorder_commands fw" "cap_gui_network_register (fw_json fw)" dv_gui_network
    "\<lambda>s t. t\<lparr>dv_gui_network := s\<rparr>" for fw
  by (rule family_of[OF _ recorder_commands_distinct], unfold command_lists, (rule part_here part_last part_later)+,
      auto intro!: keeps_lift keeps_lift_env simp: puts)

interpretation gui_system_family: family "recorder_commands fw" "cap_gui_system_register (fw_json fw)" dv_gui_system
    "\<lambda>s t. t\<lparr>dv_gui_system := s\<rparr>" for fw
  by (rule family_of[OF _ recorder_commands_distinct], unfold command_lists, (rule part_here part_last part_later)+,
      auto intro!: keeps_lift keeps_lift_env simp: puts)

interpretation gui_lan_family: family "recorder_commands fw" "cap_gui_lan_register (fw_onvif fw)" dv_gui_lan
    "\<lambda>s t. t\<lparr>dv_gui_lan := s\<rparr>" for fw
  by (rule family_of[OF _ recorder_commands_distinct], unfold command_lists, (rule part_here part_last part_later)+,
      auto intro!: keeps_lift keeps_lift_env simp: puts)

interpretation gui_playback_family: family "recorder_commands fw" "cap_gui_playback_register (fw_json fw)" dv_gui_playback
    "\<lambda>s t. t\<lparr>dv_gui_playback := s\<rparr>" for fw
  by (rule family_of[OF _ recorder_commands_distinct], unfold command_lists, (rule part_here part_last part_later)+,
      auto intro!: keeps_lift keeps_lift_env simp: puts)

section \<open>Commands through the router\<close>

definition device_router :: "'d firmware \<Rightarrow> 'd device \<Rightarrow> 'd device nop_router" where
  "device_router fw t = nop_business_register_all (register_shared fw) (register_video_recorder fw) NOP_ROLE_NVR
     (nop_router_create (fw_registry fw) t)"

datatype device_event = Ask command | Surroundings u64 int start_outcome "event_sink nop_event_hub option"

definition device_step :: "'d firmware \<Rightarrow> device_event \<Rightarrow> 'd device \<Rightarrow> 'd device" where
  "device_step fw ev t =
     (case ev of
        Ask c \<Rightarrow> nr_handler_context (snd (dispatch_one (device_router fw t) (fst c) (snd c)))
      | Surroundings now host outcome hub \<Rightarrow> t\<lparr>dv_now := now, dv_host := host, dv_start := outcome, dv_hub := hub\<rparr>)"

definition device_run :: "'d firmware \<Rightarrow> device_event list \<Rightarrow> 'd device \<Rightarrow> 'd device" where
  "device_run fw evs t = fold (device_step fw) evs t"

definition device_content :: "'d firmware \<Rightarrow> command \<Rightarrow> 'd device \<Rightarrow> json option" where
  "device_content fw c t = rs_content (fst (dispatch_one (device_router fw t) (fst c) (snd c)))"

text \<open>The commands whose capability is on, and those of a history.\<close>

definition permitted :: "'d firmware \<Rightarrow> string \<Rightarrow> bool" where
  "permitted fw f = (case map_of (recorder_commands fw) f of
     Some (cap, h) \<Rightarrow> cap_registry_is_enabled (fw_registry fw) cap | None \<Rightarrow> False)"

fun asked :: "'d firmware \<Rightarrow> device_event list \<Rightarrow> command list" where
  "asked fw [] = []"
| "asked fw (Ask c # evs) = (if permitted fw (fst c) then c # asked fw evs else asked fw evs)"
| "asked fw (Surroundings now host outcome hub # evs) = asked fw evs"

lemma register_all_append: "register_all (xs @ ys) r = register_all ys (register_all xs r)"
  by (induction xs arbitrary: r) auto

lemma device_router: "device_router fw t = register_all (recorder_commands fw) (nop_router_create (fw_registry fw) t)"
  by (simp add: device_router_def nop_business_register_all_def recorder_commands_def register_all_append)

lemma device_lookup: "nop_map_get (nr_routes_by_func (device_router fw t)) f = map_of (recorder_commands fw) f"
proof -
  have "map_of (rev (recorder_commands fw)) f = map_of (recorder_commands fw) f"
    using recorder_commands_distinct[of fw] by (metis distinct_rev map_of_inject_set rev_map set_rev)
  then show ?thesis by (simp add: device_router route_lookup)
qed

lemma device_ask:
  "nr_handler_context (snd (dispatch_one (device_router fw t) f args)) =
     (if permitted fw f then cap_exec (recorder_commands fw) (f, args) t else t)"
  "permitted fw f \<Longrightarrow> rs_content (fst (dispatch_one (device_router fw t) f args)) =
     (case cap_answer (recorder_commands fw) (f, args) t of (st, content) \<Rightarrow> if st = NOP_OK then content else None)"
  "\<not> permitted fw f \<Longrightarrow> rs_content (fst (dispatch_one (device_router fw t) f args)) = None"
proof -
  have r: "nr_handler_context (device_router fw t) = t" "nr_capability_registry (device_router fw t) = fw_registry fw"
    by (simp_all add: device_router register_all_routes nop_router_create_def)
  show "nr_handler_context (snd (dispatch_one (device_router fw t) f args)) =
     (if permitted fw f then cap_exec (recorder_commands fw) (f, args) t else t)"
    by (auto simp: dispatch_one_def device_lookup permitted_def r cap_exec_def cap_reply_def split: option.split prod.split)
  show "rs_content (fst (dispatch_one (device_router fw t) f args)) =
     (case cap_answer (recorder_commands fw) (f, args) t of (st, content) \<Rightarrow> if st = NOP_OK then content else None)" if "permitted fw f"
    using that by (auto simp: dispatch_one_def device_lookup permitted_def r cap_answer_def cap_reply_def split: option.splits prod.split)
  show "rs_content (fst (dispatch_one (device_router fw t) f args)) = None" if "\<not> permitted fw f"
    using that by (auto simp: dispatch_one_def device_lookup permitted_def r nop_response_init_def Let_def split: option.splits prod.split)
qed

text \<open>A family's state after a history is the one it has alone after the commands that were permitted.\<close>

lemma family_run:
  assumes "family (recorder_commands fw) R get put"
    "\<And>now host outcome hub t. get (t\<lparr>dv_now := now, dv_host := host, dv_start := outcome, dv_hub := hub\<rparr>) = get t"
  shows "get (device_run fw evs t) = cap_run R (asked fw evs) (get t)"
proof (induction evs arbitrary: t)
  case Nil
  show ?case by (simp add: device_run_def cap_run_def)
next
  case (Cons ev evs)
  have step: "device_run fw (ev # evs) t = device_run fw evs (device_step fw ev t)" by (simp add: device_run_def)
  show ?case
  proof (cases ev)
    case (Ask c)
    have "get (device_step fw ev t) = (if permitted fw (fst c) then cap_exec R c (get t) else get t)"
      using family.exec[OF assms(1), of c t] by (simp add: device_step_def Ask device_ask(1))
    then show ?thesis using Cons.IH[of "device_step fw ev t"] step Ask by (simp add: cap_run_def)
  next
    case (Surroundings now host outcome hub)
    then show ?thesis using Cons.IH[of "device_step fw ev t"] step assms(2) by (simp add: device_step_def)
  qed
qed

definition setting_holds :: "'d firmware \<Rightarrow> 'd device \<Rightarrow> setting_decl \<Rightarrow> bool" where
  "setting_holds fw t d \<longleftrightarrow> (\<forall>evs args. device_content fw (sd_get d, args) (device_run fw evs t) =
     (let rq = \<lparr>rq_func = sd_get d, rq_args = args\<rparr>
      in if permitted fw (sd_get d) \<and> sd_need d rq then Some (last_write d (asked fw evs) (sd_chan d rq)) else None))"

lemma family_setting:
  assumes "family (recorder_commands fw) R get put"
    "\<And>now host outcome hub t. get (t\<lparr>dv_now := now, dv_host := host, dv_start := outcome, dv_hub := hub\<rparr>) = get t"
    and "setting_ok R (get t) d"
  shows "setting_holds fw t d"
proof -
  have "sd_get d \<in> fst ` set R"
  proof (rule ccontr)
    assume "sd_get d \<notin> fst ` set R"
    then have "map_of R (sd_get d) = None" by (simp add: map_of_eq_None_iff)
    then have "cap_answer R (sd_get d, None) (cap_run R [] (get t)) = (NOP_ERR_NOTIMPL, None)"
      by (simp add: cap_answer_def cap_reply_def nop_response_init_def)
    then show False using assms(3) by (auto simp: setting_ok_def Let_def split: if_splits)
  qed
  then have "cap_answer (recorder_commands fw) (sd_get d, args) (device_run fw evs t) =
      cap_answer R (sd_get d, args) (cap_run R (asked fw evs) (get t))" for args evs
    using family.answer[OF assms(1)] family_run[OF assms(1,2)] by simp
  then have "device_content fw (sd_get d, args) (device_run fw evs t) =
      (if permitted fw (sd_get d) then (case cap_answer R (sd_get d, args) (cap_run R (asked fw evs) (get t)) of
         (st, content) \<Rightarrow> if st = NOP_OK then content else None) else None)" for args evs
    by (simp add: device_content_def device_ask)
  then show ?thesis using assms(3) by (simp add: setting_holds_def setting_ok_def Let_def)
qed

section \<open>Properties\<close>

definition device0 :: "nop_chime option \<Rightarrow> nop_nvr_addcamera option \<Rightarrow> nop_ptz_patrol option \<Rightarrow> 'd \<Rightarrow> 'd device" where
  "device0 chime addcamera engine d =
     \<lparr>dv_dev = d, dv_now = 0, dv_host = 0, dv_start = Starts, dv_hub = None, dv_system = system0 d, dv_video = video0 d,
      dv_ptz = ptz_store0 engine d, dv_network = network0 chime addcamera, dv_floodlight = floodlight0, dv_push = push0, dv_ai = ai0,
      dv_cloud = cloud0, dv_doorbell = doorbell0, dv_misc = misc0, dv_misc_ext = misc_ext0, dv_agent = agent0, dv_account = account0,
      dv_gui_network = gui_network0, dv_gui_system = gui_system0, dv_gui_lan = gui_lan0, dv_gui_playback = gui_playback0\<rparr>"

definition device_settings :: "'d firmware \<Rightarrow> setting_decl list" where
  "device_settings fw =
     floodlight_settings (fw_json fw) @ push_settings (fw_json fw) (fw_config fw) @ ai_settings (fw_onvif fw) (fw_json fw) (fw_config fw) @
     cloud_settings (fw_json fw) (fw_config fw) @ doorbell_settings (fw_json fw) @ misc_settings (fw_onvif fw) (fw_json fw) @
     misc_ext_settings (fw_onvif fw) (fw_json fw) @ gui_system_settings (fw_json fw) @ gui_playback_settings (fw_json fw)"

lemma family_settings:
  assumes "family (recorder_commands fw) R get put"
    "\<And>now host outcome hub t. get (t\<lparr>dv_now := now, dv_host := host, dv_start := outcome, dv_hub := hub\<rparr>) = get t"
    "list_all (setting_ok R s0) ds" "get t = s0"
  shows "list_all (setting_holds fw t) ds"
  using assms(3,4) family_setting[OF assms(1,2)] by (auto simp: list_all_iff)

text \<open>Settings that are accepted and lost, and the setters of these families that have another contract: they keep what a request leaves out
  (do not disturb, the screen's modes, digital zoom), work once (activation, enhanced security), set several channels, are decided by the camera
  when it is mapped (zones, rules, overlays, media profiles), have no getter in the family (the recording schedule, storage, serial number, upload
  service, sensor configuration), or are not read back as they were given (the log start of cloud records, playback, the devices on the network).\<close>

definition lost_settings :: "setting_decl list" where "lost_settings = push_lost @ misc_lost @ gui_lan_lost"

definition setters_left :: "'d firmware \<Rightarrow> string list" where
  "setters_left fw =
     left_over (cap_floodlight_register (fw_json fw)) (floodlight_settings (fw_json fw)) @
     left_over (cap_push_register (fw_json fw) (fw_config fw)) (push_settings (fw_json fw) (fw_config fw) @ push_lost) @
     left_over (ai_commands (fw_onvif fw) (fw_json fw) (fw_config fw)) (ai_settings (fw_onvif fw) (fw_json fw) (fw_config fw)) @
     left_over (cap_cloud_register (fw_json fw) (fw_config fw)) (cloud_settings (fw_json fw) (fw_config fw)) @
     left_over (cap_doorbell_register (fw_json fw)) (doorbell_settings (fw_json fw)) @
     left_over (cap_misc_register (fw_onvif fw) (fw_json fw)) (misc_settings (fw_onvif fw) (fw_json fw) @ misc_lost) @
     left_over (cap_misc_ext_register (fw_onvif fw) (fw_json fw)) (misc_ext_settings (fw_onvif fw) (fw_json fw)) @
     left_over (cap_gui_system_register (fw_json fw)) (gui_system_settings (fw_json fw)) @
     left_over (cap_gui_playback_register (fw_json fw)) (gui_playback_settings (fw_json fw)) @
     left_over (cap_gui_lan_register (fw_onvif fw)) gui_lan_lost"

definition other_setters :: "string list" where
  "other_setters =
    [''X_NightOwl_setChannelPushNotificationDoNotDisturb'', ''X_NightOwl_setChannelsPushNotificationSwitch'',
     ''setChannelSensorConfig'', ''X_NightOwl_setChannelTriggerActivityZone'', ''AI_setChannelLineCrossDetect'', ''AI_setChannelFieldIntrusionDetect'',
     ''setCloudRecordLogConfig'', ''X_NightOwl_setChannelContinuousRecordingSchedule'',
     ''setCurrentStorage'', ''setSerialNumber'', ''X_NightOwl_setUploadService'',
     ''setEnhancedSecurity'', ''X_NightOwl_setOSD'', ''X_NightOwl_setChannelPrivacyZone'', ''X_NightOwl_setChannelZoomPan'', ''X_NightOwl_setDeviceActive'',
     ''GUI_setDeviceDisplayMode'', ''GUI_setSysDisplay'', ''GUI_setAutoRebootSetting'', ''GUI_setPlaybackAudio'', ''GUI_setPlaybackMode'',
     ''GUI_setLanDevice'', ''GUI_setChannelMediaProfiles'']"


end
