(* ===== verification/Nop_Event8012.thy ===== *)
theory Nop_Event8012
  imports Nop_Event "HOL-Library.Sublist"
begin

text \<open>
  components/nop/src/services: the event centre on port 8012 (camera/svc_event8012.c) and its client in the recorder
  (nvr/svc_event8012_client.c). The server is the product of the threads of the C code: the accept loop, one
  thread per connection, and the fan-out of an event, which visits the connections one by one while the list lock is
  held. Each thread step is an action; a read returns as many of the bytes that have arrived as the kernel
  likes. The bytes a peer sends, when it closes and which writes fail are actions of the environment. \<open>cn_in\<close>, \<open>cn_out\<close>,
  \<open>cn_failed\<close>, \<open>cn_joined\<close> and \<open>sv_events\<close> record the history for the statements; no guard of the code reads them.
\<close>

section \<open>Messages\<close>

definition EV8012_MAGIC :: u32 where "EV8012_MAGIC = 0x1AA1B22C"
definition EV8012_VERSION :: u32 where "EV8012_VERSION = 1"
definition EV8012_HDR_SIZE :: nat where "EV8012_HDR_SIZE = 40"
definition EV8012_LOGIN_SIZE :: nat where "EV8012_LOGIN_SIZE = 64"
definition EV8012_USER_SIZE :: nat where "EV8012_USER_SIZE = 24"
definition EV8012_PASS_SIZE :: nat where "EV8012_PASS_SIZE = 40"
definition EV8012_MAX_JPEG :: nat where "EV8012_MAX_JPEG = 2 * 1024 * 1024"

definition CMD_LOGIN :: u32 where "CMD_LOGIN = 0"
definition CMD_HEARTBEAT :: u32 where "CMD_HEARTBEAT = 1"
definition CMD_ACK_OK :: u32 where "CMD_ACK_OK = 2"
definition CMD_ACK_FAIL :: u32 where "CMD_ACK_FAIL = 3"
definition CMD_SEND_MSG :: u32 where "CMD_SEND_MSG = 4"
definition CMD_CLOSE :: u32 where "CMD_CLOSE = 5"

lemmas ev8012_sizes = EV8012_HDR_SIZE_def EV8012_LOGIN_SIZE_def EV8012_USER_SIZE_def EV8012_PASS_SIZE_def
lemmas ev8012_cmds = CMD_LOGIN_def CMD_HEARTBEAT_def CMD_ACK_OK_def CMD_ACK_FAIL_def CMD_SEND_MSG_def CMD_CLOSE_def

definition put_le32 :: "u32 \<Rightarrow> bytes" where "put_le32 v = le 4 v"

definition get_le32 :: "nat \<Rightarrow> bytes \<Rightarrow> u32" where "get_le32 off b = unle (slice off 4 b)"

definition build_header :: "u32 \<Rightarrow> u32 \<Rightarrow> u32 \<Rightarrow> u32 \<Rightarrow> bytes" where
  "build_header cmd data_size msg_type extend_flag =
     put_le32 EV8012_MAGIC @ put_le32 EV8012_VERSION @ put_le32 data_size @ put_le32 cmd @ put_le32 0 @ put_le32 msg_type @
     put_le32 extend_flag @ replicate 12 0"

text \<open>C strings in fixed-size arrays: the bytes before the first NUL, and \<open>strncmp(a, b, n) == 0\<close>.\<close>

definition c_string :: "bytes \<Rightarrow> bytes" where "c_string b = takeWhile (\<lambda>c. c \<noteq> 0) b"

definition same_strn :: "nat \<Rightarrow> bytes \<Rightarrow> bytes \<Rightarrow> bool" where
  "same_strn n a b \<longleftrightarrow> take n (c_string a) = take n (c_string b)"

definition admin :: bytes where "admin = [97, 100, 109, 105, 110]"

section \<open>The server\<close>

text \<open>Where a connection thread is: at the top of its loop, inside \<open>read_fully\<close> for a header or a login with the
  bytes it has so far, about to answer a login, dropping the payload of an unknown command (the rest of the present
  chunk and what follows it), or past the loop.\<close>

datatype conn_pc = Top | Header bytes | Login bytes | Ack_ok | Ack_fail | Drain nat nat | Leaving

record ev8012_conn =
  cn_fd :: nat
  cn_logged_in :: bool
  cn_dead :: bool
  cn_pc :: conn_pc
  cn_in :: bytes
  cn_read :: nat
  cn_eof :: bool
  cn_out :: bytes
  cn_failed :: bool
  cn_joined :: nat

record ev8012_server =
  sv_username :: bytes
  sv_password :: bytes
  sv_stop :: bool
  sv_subscribed :: bool
  sv_conns :: "ev8012_conn list"
  sv_conn_count :: int
  sv_next_fd :: nat
  sv_fan :: "(nop_event \<times> nat list) option"
  sv_events :: "nop_event list"

definition nop_event8012_server_start :: "bytes \<Rightarrow> bytes \<Rightarrow> 'k \<Rightarrow> bool \<Rightarrow> bool \<Rightarrow> 'k nop_event_hub \<Rightarrow> ev8012_server option \<times> 'k nop_event_hub" where
  "nop_event8012_server_start username password sink listens starts hub =
     (if \<not> listens then (None, hub)
      else (case nop_event_subscribe hub sink of
          (None, hub) \<Rightarrow> (None, hub)
        | (Some i, hub) \<Rightarrow>
            if \<not> starts then (None, unsubscribe_clear hub i)
            else (Some \<lparr>sv_username = take 31 (if username = [] then admin else username),
                sv_password = take 63 (if password = [] then admin else password), sv_stop = False, sv_subscribed = True,
                sv_conns = [], sv_conn_count = 0, sv_next_fd = 0, sv_fan = None, sv_events = []\<rparr>, hub)))"

text \<open>\<open>write_fully\<close>: everything is written, or an error stops it after some bytes.\<close>

datatype written = All | Only nat

definition write_fully :: "bytes \<Rightarrow> written \<Rightarrow> ev8012_conn \<Rightarrow> bool \<times> ev8012_conn" where
  "write_fully b w c = (case w of
       All \<Rightarrow> (True, c\<lparr>cn_out := cn_out c @ b\<rparr>)
     | Only n \<Rightarrow> (False, c\<lparr>cn_out := cn_out c @ take n b, cn_failed := True\<rparr>))"

definition send_header_only :: "u32 \<Rightarrow> written \<Rightarrow> ev8012_conn \<Rightarrow> ev8012_conn" where
  "send_header_only cmd w c = snd (write_fully (build_header cmd 0 0 0) w c)"

definition event_extend :: "nop_event \<Rightarrow> bool" where
  "event_extend e = (case ev_jpeg e of None \<Rightarrow> False | Some j \<Rightarrow> j \<noteq> [])"

definition event_jpeg :: "nop_event \<Rightarrow> bytes" where
  "event_jpeg e = (case ev_jpeg e of None \<Rightarrow> [] | Some j \<Rightarrow> j)"

definition event_bytes :: "nop_event \<Rightarrow> bytes" where
  "event_bytes e = build_header CMD_SEND_MSG (of_nat (length (event_jpeg e))) (nop_event_msgtype_code (ev_type e)) (if event_extend e then 1 else 0)
     @ event_jpeg e"

text \<open>\<open>ev8012_sink\<close> with the list lock held: it takes the connections of the moment and visits them in order. The
  header and the picture are two calls of \<open>write_fully\<close> under one write lock.\<close>

definition fan_begin :: "nop_event \<Rightarrow> ev8012_server \<Rightarrow> ev8012_server" where
  "fan_begin e s =
     (if sv_subscribed s \<and> sv_fan s = None \<and> length (event_jpeg e) \<le> EV8012_MAX_JPEG
      then s\<lparr>sv_fan := Some (e, map cn_fd (sv_conns s)), sv_events := sv_events s @ [e]\<rparr> else s)"

definition fan_write :: "nop_event \<Rightarrow> written \<Rightarrow> ev8012_conn \<Rightarrow> ev8012_conn" where
  "fan_write e w c =
     (if \<not> cn_logged_in c \<or> cn_dead c then c
      else case write_fully (event_bytes e) w c of (ok, c) \<Rightarrow> if ok then c else c\<lparr>cn_dead := True\<rparr>)"

definition on_conn :: "nat \<Rightarrow> (ev8012_conn \<Rightarrow> ev8012_conn) \<Rightarrow> ev8012_conn list \<Rightarrow> ev8012_conn list" where
  "on_conn fd f cs = map (\<lambda>c. if cn_fd c = fd then f c else c) cs"

definition fan_visit :: "written \<Rightarrow> ev8012_server \<Rightarrow> ev8012_server" where
  "fan_visit w s = (case sv_fan s of
       None \<Rightarrow> s
     | Some (e, []) \<Rightarrow> s\<lparr>sv_fan := None\<rparr>
     | Some (e, fd # fds) \<Rightarrow> s\<lparr>sv_fan := Some (e, fds), sv_conns := on_conn fd (fan_write e w) (sv_conns s)\<rparr>)"

text \<open>\<open>conn_thread\<close>. A complete header and a complete login are judged at once.\<close>

definition drain :: "nat \<Rightarrow> conn_pc" where
  "drain left = (if left = 0 then Top else Drain (min 256 left) (left - min 256 left))"

definition judge_header :: "bytes \<Rightarrow> conn_pc" where
  "judge_header h =
     (let magic = get_le32 0 h; data_size = get_le32 8 h; cmd = get_le32 12 h in
      if magic \<noteq> EV8012_MAGIC then Leaving
      else if cmd = CMD_LOGIN then (if data_size \<noteq> of_nat EV8012_LOGIN_SIZE then Ack_fail else Login [])
      else if cmd = CMD_HEARTBEAT then Top
      else if cmd = CMD_CLOSE then Leaving
      else drain (unat data_size))"

definition login_accepted :: "ev8012_server \<Rightarrow> bytes \<Rightarrow> bool" where
  "login_accepted s login \<longleftrightarrow> same_strn EV8012_USER_SIZE (take EV8012_USER_SIZE login) (sv_username s) \<and>
     same_strn EV8012_PASS_SIZE (slice EV8012_USER_SIZE EV8012_PASS_SIZE login) (sv_password s)"

text \<open>How many fan-outs are behind a connection: all but one that has not visited it yet.\<close>

definition fans_behind :: "ev8012_server \<Rightarrow> nat \<Rightarrow> nat" where
  "fans_behind s fd = (case sv_fan s of
       Some (e, fds) \<Rightarrow> if fd \<in> set fds then length (sv_events s) - 1 else length (sv_events s)
     | None \<Rightarrow> length (sv_events s))"

definition judge_login :: "ev8012_server \<Rightarrow> bytes \<Rightarrow> ev8012_conn \<Rightarrow> ev8012_conn" where
  "judge_login s login c =
     (if login_accepted s login
      then c\<lparr>cn_logged_in := True, cn_pc := Ack_ok, cn_joined := (if cn_logged_in c then cn_joined c else fans_behind s (cn_fd c))\<rparr>
      else c\<lparr>cn_pc := Ack_fail\<rparr>)"

text \<open>One \<open>read\<close> inside \<open>read_fully\<close>: at most n of the bytes that have arrived; when none is left and the
  peer has closed, the read fails.\<close>

definition read_some :: "nat \<Rightarrow> ev8012_conn \<Rightarrow> bytes" where
  "read_some n c = slice (cn_read c) n (cn_in c)"

definition thread_read :: "ev8012_server \<Rightarrow> nat \<Rightarrow> ev8012_conn \<Rightarrow> ev8012_conn" where
  "thread_read s n c =
     (let ended = cn_eof c \<and> cn_read c = length (cn_in c) in
      case cn_pc c of
        Header got \<Rightarrow>
          (let b = read_some (min n (EV8012_HDR_SIZE - length got)) c; got = got @ b; c = c\<lparr>cn_read := cn_read c + length b\<rparr> in
           if ended then c\<lparr>cn_pc := Leaving\<rparr>
           else c\<lparr>cn_pc := (if length got < EV8012_HDR_SIZE then Header got else judge_header got)\<rparr>)
      | Login got \<Rightarrow>
          (let b = read_some (min n (EV8012_LOGIN_SIZE - length got)) c; got = got @ b; c = c\<lparr>cn_read := cn_read c + length b\<rparr> in
           if ended then c\<lparr>cn_pc := Leaving\<rparr>
           else if length got < EV8012_LOGIN_SIZE then c\<lparr>cn_pc := Login got\<rparr> else judge_login s got c)
      | Drain chunk left \<Rightarrow>
          (let b = read_some (min n chunk) c; c = c\<lparr>cn_read := cn_read c + length b\<rparr> in
           if ended then c\<lparr>cn_dead := True, cn_pc := Top\<rparr>
           else c\<lparr>cn_pc := (if length b < chunk then Drain (chunk - length b) left else drain left)\<rparr>)
      | _ \<Rightarrow> c)"

definition thread_goes :: "ev8012_server \<Rightarrow> written \<Rightarrow> ev8012_conn \<Rightarrow> ev8012_conn" where
  "thread_goes s w c = (case cn_pc c of
       Top \<Rightarrow> c\<lparr>cn_pc := (if \<not> sv_stop s \<and> \<not> cn_dead c then Header [] else Leaving)\<rparr>
     | Ack_ok \<Rightarrow> (send_header_only CMD_ACK_OK w c)\<lparr>cn_pc := Top\<rparr>
     | Ack_fail \<Rightarrow> (send_header_only CMD_ACK_FAIL w c)\<lparr>cn_pc := Leaving\<rparr>
     | _ \<Rightarrow> c)"

text \<open>\<open>conn_remove\<close> and \<open>accept_loop\<close> wait for the list lock.\<close>

definition conn_remove :: "nat \<Rightarrow> ev8012_server \<Rightarrow> ev8012_server" where
  "conn_remove fd s =
     (if sv_fan s = None \<and> (\<exists>c \<in> set (sv_conns s). cn_fd c = fd \<and> cn_pc c = Leaving)
      then s\<lparr>sv_conns := filter (\<lambda>c. cn_fd c \<noteq> fd) (sv_conns s), sv_conn_count := sv_conn_count s - 1\<rparr> else s)"

definition accept_loop :: "ev8012_server \<Rightarrow> ev8012_server" where
  "accept_loop s =
     (if sv_stop s \<or> sv_fan s \<noteq> None then s
      else s\<lparr>sv_conns := \<lparr>cn_fd = sv_next_fd s, cn_logged_in = False, cn_dead = False, cn_pc = Top, cn_in = [], cn_read = 0,
            cn_eof = False, cn_out = [], cn_failed = False, cn_joined = 0\<rparr> # sv_conns s,
          sv_conn_count := sv_conn_count s + 1, sv_next_fd := sv_next_fd s + 1\<rparr>)"

text \<open>\<open>nop_event8012_server_stop\<close>: the flag (after which the accept loop ends), the unsubscription, which
  waits until no fan-out is running, and the shutdown of every connection. It returns when \<open>conn_count\<close> is zero.\<close>

definition stop_accepting :: "ev8012_server \<Rightarrow> ev8012_server" where
  "stop_accepting s = s\<lparr>sv_stop := True\<rparr>"

definition stop_detach :: "ev8012_server \<Rightarrow> ev8012_server" where
  "stop_detach s = (if sv_stop s \<and> sv_fan s = None then s\<lparr>sv_subscribed := False\<rparr> else s)"

definition stop_shutdown :: "ev8012_server \<Rightarrow> ev8012_server" where
  "stop_shutdown s =
     (if sv_stop s \<and> \<not> sv_subscribed s then s\<lparr>sv_conns := map (\<lambda>c. c\<lparr>cn_dead := True, cn_eof := True\<rparr>) (sv_conns s)\<rparr> else s)"

definition stop_returns :: "ev8012_server \<Rightarrow> bool" where
  "stop_returns s \<longleftrightarrow> sv_stop s \<and> \<not> sv_subscribed s \<and> sv_conn_count s = 0"

datatype ev8012_action = Accept | Peer_sends nat bytes | Peer_closes nat | Thread_reads nat nat | Thread_goes nat written
  | Thread_leaves nat | Fan_begin nop_event | Fan_visit written | Stop_accepting | Stop_detach | Stop_shutdown

fun server_step :: "ev8012_action \<Rightarrow> ev8012_server \<Rightarrow> ev8012_server" where
  "server_step Accept s = accept_loop s"
| "server_step (Peer_sends fd b) s =
     s\<lparr>sv_conns := on_conn fd (\<lambda>c. if cn_eof c then c else c\<lparr>cn_in := cn_in c @ b\<rparr>) (sv_conns s)\<rparr>"
| "server_step (Peer_closes fd) s = s\<lparr>sv_conns := on_conn fd (\<lambda>c. c\<lparr>cn_eof := True\<rparr>) (sv_conns s)\<rparr>"
| "server_step (Thread_reads fd n) s = s\<lparr>sv_conns := on_conn fd (thread_read s n) (sv_conns s)\<rparr>"
| "server_step (Thread_goes fd w) s = s\<lparr>sv_conns := on_conn fd (thread_goes s w) (sv_conns s)\<rparr>"
| "server_step (Thread_leaves fd) s = conn_remove fd s"
| "server_step (Fan_begin e) s = fan_begin e s"
| "server_step (Fan_visit w) s = fan_visit w s"
| "server_step Stop_accepting s = stop_accepting s"
| "server_step Stop_detach s = stop_detach s"
| "server_step Stop_shutdown s = stop_shutdown s"

definition server_run :: "ev8012_action list \<Rightarrow> ev8012_server \<Rightarrow> ev8012_server" where
  "server_run as s = fold server_step as s"

section \<open>The client\<close>

text \<open>The client's \<open>build_header\<close> writes neither message type nor flag.\<close>

definition client_header :: "u32 \<Rightarrow> u32 \<Rightarrow> bytes" where
  "client_header cmd data_size =
     put_le32 EV8012_MAGIC @ put_le32 EV8012_VERSION @ put_le32 data_size @ put_le32 cmd @ replicate 24 0"

definition padded :: "nat \<Rightarrow> bytes \<Rightarrow> bytes" where
  "padded n b = take n b @ replicate (n - length b) 0"

definition login_payload :: "bytes \<Rightarrow> bytes \<Rightarrow> bytes" where
  "login_payload username password =
     padded EV8012_USER_SIZE (if username = [] then admin else username) @
     padded EV8012_PASS_SIZE (if password = [] then admin else password)"

definition login_bytes :: "bytes \<Rightarrow> bytes \<Rightarrow> bytes" where
  "login_bytes username password = client_header CMD_LOGIN (of_nat EV8012_LOGIN_SIZE) @ login_payload username password"

definition EV8012_HEARTBEAT_SECONDS :: int where "EV8012_HEARTBEAT_SECONDS = 30"

record ev8012_client =
  cl_connected :: bool
  cl_last_heartbeat :: int
  cl_in :: bytes
  cl_out :: bytes
  cl_calls :: "(u32 \<times> u32 \<times> bytes) list"

text \<open>\<open>connect_and_login\<close> with the thread's start: the login is written, and of what arrives the first header must be an acknowledgement.\<close>

definition connect_and_login :: "bytes \<Rightarrow> bytes \<Rightarrow> bool \<Rightarrow> bool \<Rightarrow> bytes \<Rightarrow> int \<Rightarrow> ev8012_client option" where
  "connect_and_login username password connects written arrives now =
     (if \<not> connects \<or> \<not> written then None
      else if length arrives < EV8012_HDR_SIZE then None
      else if get_le32 0 arrives \<noteq> EV8012_MAGIC \<or> get_le32 12 arrives \<noteq> CMD_ACK_OK then None
      else Some \<lparr>cl_connected = True, cl_last_heartbeat = now, cl_in = drop EV8012_HDR_SIZE arrives,
          cl_out = login_bytes username password, cl_calls = []\<rparr>)"

text \<open>One round of \<open>client_thread\<close>: what the clock says, whether \<open>select\<close> reports data, whether a heartbeat can be written, and the bytes that
  arrive before its reads give up.\<close>

record client_round =
  rn_now :: int
  rn_ready :: bool
  rn_written :: bool
  rn_arrives :: bytes

definition send_heartbeat :: "client_round \<Rightarrow> ev8012_client \<Rightarrow> ev8012_client" where
  "send_heartbeat r c =
     (if rn_now r - cl_last_heartbeat c \<ge> EV8012_HEARTBEAT_SECONDS
      then (if rn_written r then c\<lparr>cl_out := cl_out c @ client_header CMD_HEARTBEAT 0, cl_last_heartbeat := rn_now r\<rparr>
            else c\<lparr>cl_connected := False\<rparr>)
      else c)"

definition receive :: "ev8012_client \<Rightarrow> ev8012_client" where
  "receive c =
     (let b = cl_in c; data_size = unat (get_le32 8 b) in
      if length b < EV8012_HDR_SIZE \<or> get_le32 0 b \<noteq> EV8012_MAGIC \<or> data_size > EV8012_MAX_JPEG \<or>
         length b < EV8012_HDR_SIZE + data_size
      then c\<lparr>cl_connected := False\<rparr>
      else c\<lparr>cl_in := drop (EV8012_HDR_SIZE + data_size) b,
             cl_calls := (if get_le32 12 b = CMD_SEND_MSG
                          then cl_calls c @ [(get_le32 20 b, get_le32 24 b, slice EV8012_HDR_SIZE data_size b)] else cl_calls c)\<rparr>)"

definition client_thread :: "client_round \<Rightarrow> ev8012_client \<Rightarrow> ev8012_client" where
  "client_thread r c =
     (if \<not> cl_connected c then c
      else let c = send_heartbeat r (c\<lparr>cl_in := cl_in c @ rn_arrives r\<rparr>) in
        if cl_connected c \<and> rn_ready r then receive c else c)"

definition client_run :: "client_round list \<Rightarrow> ev8012_client \<Rightarrow> ev8012_client" where
  "client_run rs c = fold client_thread rs c"

section \<open>Headers\<close>

lemma length_header [simp]: "length (build_header cmd sz ty ext) = 40" "length (client_header cmd sz) = 40"
  by (simp_all add: build_header_def client_header_def put_le32_def)

lemma header_fields [simp]:
  "get_le32 0 (build_header cmd sz ty ext @ b) = EV8012_MAGIC"
  "get_le32 8 (build_header cmd sz ty ext @ b) = sz"
  "get_le32 12 (build_header cmd sz ty ext @ b) = cmd"
  "get_le32 20 (build_header cmd sz ty ext @ b) = ty"
  "get_le32 24 (build_header cmd sz ty ext @ b) = ext"
  by (simp_all add: get_le32_def build_header_def put_le32_def codec)

lemma client_header_fields [simp]:
  "get_le32 0 (client_header cmd sz) = EV8012_MAGIC"
  "get_le32 8 (client_header cmd sz) = sz"
  "get_le32 12 (client_header cmd sz) = cmd"
  by (simp_all add: get_le32_def client_header_def put_le32_def codec)

lemma get_le32_take: "off + 4 \<le> n \<Longrightarrow> get_le32 off (take n b) = get_le32 off b"
  by (simp add: get_le32_def slice_def drop_take min_def)

section \<open>What the client makes of a stream of messages\<close>

datatype ev_msg = Ack bool | Send nop_event

primrec msg_bytes :: "ev_msg \<Rightarrow> bytes" where
  "msg_bytes (Ack ok) = build_header (if ok then CMD_ACK_OK else CMD_ACK_FAIL) 0 0 0"
| "msg_bytes (Send e) = event_bytes e"

primrec msg_events :: "ev_msg \<Rightarrow> nop_event list" where
  "msg_events (Ack ok) = []"
| "msg_events (Send e) = [e]"

definition stream_bytes :: "ev_msg list \<Rightarrow> bytes" where "stream_bytes ms = concat (map msg_bytes ms)"

definition stream_events :: "ev_msg list \<Rightarrow> nop_event list" where "stream_events ms = concat (map msg_events ms)"

definition event_call :: "nop_event \<Rightarrow> u32 \<times> u32 \<times> bytes" where
  "event_call e = (nop_event_msgtype_code (ev_type e), if event_extend e then 1 else 0, event_jpeg e)"

definition small_event :: "nop_event \<Rightarrow> bool" where "small_event e \<longleftrightarrow> length (event_jpeg e) \<le> EV8012_MAX_JPEG"

lemma stream_simps [simp]:
  "stream_bytes [] = []" "stream_bytes (m # ms) = msg_bytes m @ stream_bytes ms" "stream_bytes (ms @ ns) = stream_bytes ms @ stream_bytes ns"
  "stream_events [] = []" "stream_events (m # ms) = msg_events m @ stream_events ms" "stream_events (ms @ ns) = stream_events ms @ stream_events ns"
  by (simp_all add: stream_bytes_def stream_events_def)

lemma jpeg_size: "small_event e \<Longrightarrow> unat (of_nat (length (event_jpeg e)) :: u32) = length (event_jpeg e)"
  by (rule unat_of_nat_small) (simp add: small_event_def EV8012_MAX_JPEG_def)

lemma receive_msg:
  assumes "cl_in c = msg_bytes m @ b" "list_all small_event (msg_events m)"
  shows "receive c = c\<lparr>cl_in := b, cl_calls := cl_calls c @ map event_call (msg_events m)\<rparr>"
proof (cases m)
  case (Ack ok)
  then show ?thesis using assms(1) by (simp add: receive_def ev8012_sizes ev8012_cmds EV8012_MAX_JPEG_def)
next
  case (Send e)
  have sm: "small_event e" using assms(2) Send by simp
  have sl: "slice 40 (length (event_jpeg e)) (build_header cmd sz ty ext @ event_jpeg e @ b) = event_jpeg e" for cmd sz ty ext
    by (simp add: codec)
  show ?thesis using assms(1) sm
    by (simp add: Send receive_def event_bytes_def ev8012_sizes jpeg_size Let_def event_call_def sl) (simp add: small_event_def)
qed

lemma receive_short:
  assumes "cl_in c @ rest = msg_bytes m @ b" "length (cl_in c) < length (msg_bytes m)" "list_all small_event (msg_events m)"
  shows "receive c = c\<lparr>cl_connected := False\<rparr>"
proof (cases "length (cl_in c) < EV8012_HDR_SIZE")
  case True
  then show ?thesis by (simp add: receive_def Let_def)
next
  case False
  define l where "l = cl_in c"
  have pre: "l = take (length l) (msg_bytes m)" using assms(1,2) l_def
    by (metis append_eq_append_conv_if append_take_drop_id less_imp_le take_append take_all_iff diff_is_0_eq take_0 append_Nil2 order_refl)
  obtain e where m: "m = Send e" using False assms(2) by (cases m) (auto simp: ev8012_sizes)
  have sm: "small_event e" using assms(3) m by simp
  have "get_le32 8 l = get_le32 8 (msg_bytes m)" using False pre l_def get_le32_take[of 8 "length l" "msg_bytes m"] by (simp add: ev8012_sizes)
  then have "unat (get_le32 8 l) = length (event_jpeg e)" using sm by (simp add: m event_bytes_def jpeg_size)
  moreover have "length l < 40 + length (event_jpeg e)" using assms(2) l_def by (simp add: m event_bytes_def)
  ultimately show ?thesis using l_def by (simp add: receive_def Let_def ev8012_sizes)
qed

lemma receive_end:
  "cl_in c = [] \<Longrightarrow> receive c = c\<lparr>cl_connected := False\<rparr>"
  by (simp add: receive_def ev8012_sizes)

lemma msg_bytes_ne: "msg_bytes m \<noteq> []"
  by (cases m) (simp_all add: event_bytes_def flip: length_0_conv)

definition stream_calls :: "ev_msg list \<Rightarrow> (u32 \<times> u32 \<times> bytes) list" where
  "stream_calls ms = map event_call (stream_events ms)"

text \<open>What the client has called back is the events of the messages it has read in full, and as long as
  it is connected it has read nothing else.\<close>

definition client_ok :: "ev_msg list \<Rightarrow> bytes \<Rightarrow> ev8012_client \<Rightarrow> bool" where
  "client_ok ms rest c \<longleftrightarrow> (\<exists>k \<le> length ms. cl_calls c = stream_calls (take k ms) \<and>
     (cl_connected c \<longrightarrow> cl_in c @ rest = stream_bytes (drop k ms)))"

lemma receive_ok:
  assumes "client_ok ms rest c" "cl_connected c" "list_all small_event (stream_events ms)"
  shows "client_ok ms rest (receive c)"
proof -
  obtain k where k: "k \<le> length ms" "cl_calls c = stream_calls (take k ms)" "cl_in c @ rest = stream_bytes (drop k ms)"
    using assms(1,2) by (auto simp: client_ok_def)
  have fails: "client_ok ms rest (receive c)" if "receive c = c\<lparr>cl_connected := False\<rparr>"
    using k(1,2) that by (auto simp: client_ok_def)
  show ?thesis
  proof (cases "drop k ms")
    case Nil
    then show ?thesis using k(3) fails[OF receive_end] by simp
  next
    case (Cons m ns)
    then have kl: "k < length ms" and m: "ms ! k = m" and ns: "drop (Suc k) ms = ns"
      by (metis drop_all list.distinct(1) not_less, metis nth_via_drop, metis drop_Suc list.sel(3) tl_drop)
    have sm: "list_all small_event (msg_events m)"
      using assms(3) nth_mem[OF kl] by (auto simp: stream_events_def list_all_iff m)
    have in_msg: "cl_in c @ rest = msg_bytes m @ stream_bytes ns" using k(3) Cons by simp
    show ?thesis
    proof (cases "length (cl_in c) < length (msg_bytes m)")
      case True
      then show ?thesis using fails[OF receive_short[OF in_msg True sm]] by simp
    next
      case False
      then have hd: "take (length (msg_bytes m)) (cl_in c) = msg_bytes m" and tl: "drop (length (msg_bytes m)) (cl_in c) @ rest = stream_bytes ns"
        using in_msg by (auto simp: append_eq_append_conv_if split: if_splits)
      have "cl_in c = msg_bytes m @ drop (length (msg_bytes m)) (cl_in c)" using append_take_drop_id[of "length (msg_bytes m)" "cl_in c"] hd by simp
      then have "receive c = c\<lparr>cl_in := drop (length (msg_bytes m)) (cl_in c), cl_calls := cl_calls c @ map event_call (msg_events m)\<rparr>"
        "drop (length (msg_bytes m)) (cl_in c) @ rest = stream_bytes (drop (Suc k) ms)"
        using receive_msg[OF _ sm] ns tl by blast+
      moreover have "stream_calls (take (Suc k) ms) = stream_calls (take k ms) @ map event_call (msg_events m)"
        using kl m by (simp add: stream_calls_def take_Suc_conv_app_nth)
      ultimately show ?thesis using k(2) kl unfolding client_ok_def by (intro exI[of _ "Suc k"]) simp
    qed
  qed
qed

lemma client_ok_upd:
  "client_ok ms rest (c\<lparr>cl_out := x, cl_last_heartbeat := y\<rparr>) = client_ok ms rest c"
  "client_ok ms rest c \<Longrightarrow> client_ok ms rest (c\<lparr>cl_connected := False\<rparr>)"
  by (auto simp: client_ok_def)

lemma client_thread_ok:
  assumes "client_ok ms (rn_arrives r @ rest) c" "list_all small_event (stream_events ms)"
  shows "client_ok ms rest (client_thread r c)"
proof (cases "cl_connected c")
  case True
  have "client_ok ms rest (c\<lparr>cl_in := cl_in c @ rn_arrives r\<rparr>)" using assms(1) by (simp add: client_ok_def)
  then have "client_ok ms rest (send_heartbeat r (c\<lparr>cl_in := cl_in c @ rn_arrives r\<rparr>))"
    by (auto simp: send_heartbeat_def client_ok_upd)
  then show ?thesis using True receive_ok[OF _ _ assms(2)] by (simp add: client_thread_def Let_def)
qed (use assms(1) in \<open>simp add: client_thread_def client_ok_def\<close>)

lemma client_run_ok:
  "client_ok ms (concat (map rn_arrives rs) @ rest) c \<Longrightarrow> list_all small_event (stream_events ms) \<Longrightarrow> client_ok ms rest (client_run rs c)"
  by (induction rs arbitrary: c) (simp_all add: client_run_def client_thread_ok)

section \<open>What the server writes\<close>

definition login_seen :: "ev8012_server \<Rightarrow> ev8012_conn \<Rightarrow> bool" where
  "login_seen s c \<longleftrightarrow> (\<exists>p. p + 104 \<le> cn_read c \<and> judge_header (slice p 40 (cn_in c)) = Login [] \<and>
     login_accepted s (slice (p + 40) 64 (cn_in c)))"

definition reading :: "ev8012_conn \<Rightarrow> bool" where
  "reading c \<longleftrightarrow> cn_read c \<le> length (cn_in c) \<and>
     (case cn_pc c of
        Header got \<Rightarrow> length got < 40 \<and> (\<exists>p. cn_read c = p + length got \<and> slice p (length got) (cn_in c) = got)
      | Login got \<Rightarrow> length got < 64 \<and> (\<exists>p. cn_read c = p + 40 + length got \<and> judge_header (slice p 40 (cn_in c)) = Login [] \<and>
          slice (p + 40) (length got) (cn_in c) = got)
      | _ \<Rightarrow> True)"

definition settled :: "ev8012_server \<Rightarrow> nat \<Rightarrow> nop_event list" where
  "settled s fd = take (fans_behind s fd) (sv_events s)"

definition feeds :: "nop_event list \<Rightarrow> ev8012_conn \<Rightarrow> bool" where
  "feeds E c \<longleftrightarrow> (\<not> cn_failed c \<longrightarrow> (\<exists>ms. cn_out c = stream_bytes ms \<and>
     (if cn_logged_in c then prefix (stream_events ms) (drop (cn_joined c) E) \<and> (\<not> cn_dead c \<longrightarrow> stream_events ms = drop (cn_joined c) E)
      else stream_events ms = [])))"

definition conn_ok :: "ev8012_server \<Rightarrow> nop_event list \<Rightarrow> ev8012_conn \<Rightarrow> bool" where
  "conn_ok s E c \<longleftrightarrow> reading c \<and> (cn_logged_in c \<longrightarrow> login_seen s c \<and> cn_joined c \<le> length E) \<and> feeds E c"

lemma slice_slice_snoc: "p + k + n \<le> length xs \<Longrightarrow> slice p (k + n) xs = slice p k xs @ slice (p + k) n xs"
  by (simp add: slice_def take_add add.commute)

lemma judge_not_header: "judge_header h \<noteq> Header got"
  by (auto simp: judge_header_def drain_def Let_def)

lemma judge_login_pc: "judge_header h = Login got \<Longrightarrow> got = []"
  by (auto simp: judge_header_def drain_def Let_def split: if_splits)

lemma drain_not_reading: "drain n \<noteq> Header got" "drain n \<noteq> Login got"
  by (auto simp: drain_def)

lemma feeds_upd:
  "feeds E (c\<lparr>cn_pc := pc\<rparr>) = feeds E c" "feeds E (c\<lparr>cn_read := r\<rparr>) = feeds E c" "feeds E (c\<lparr>cn_in := b\<rparr>) = feeds E c"
  "feeds E (c\<lparr>cn_eof := f\<rparr>) = feeds E c" "feeds E c \<Longrightarrow> feeds E (c\<lparr>cn_dead := True\<rparr>)"
  by (auto simp: feeds_def)

lemma feeds_ack: "feeds E c \<Longrightarrow> feeds E (send_header_only cmd w c)" if "cmd = CMD_ACK_OK \<or> cmd = CMD_ACK_FAIL"
proof -
  assume f: "feeds E c"
  have eq: "build_header cmd 0 0 0 = msg_bytes (Ack (cmd = CMD_ACK_OK))" using that by (auto simp: ev8012_cmds)
  show "feeds E (send_header_only cmd w c)"
  proof (cases "w = All \<and> \<not> cn_failed c")
    case True
    then obtain ms where "cn_out c = stream_bytes ms"
      "if cn_logged_in c then prefix (stream_events ms) (drop (cn_joined c) E) \<and> (\<not> cn_dead c \<longrightarrow> stream_events ms = drop (cn_joined c) E)
       else stream_events ms = []" using f by (auto simp: feeds_def)
    then show ?thesis using True unfolding feeds_def
      by (intro impI exI[of _ "ms @ [Ack (cmd = CMD_ACK_OK)]"]) (simp add: send_header_only_def write_fully_def eq del: msg_bytes.simps)
  next
    case False
    then show ?thesis using f by (cases w) (auto simp: feeds_def send_header_only_def write_fully_def)
  qed
qed

lemma send_header_keeps [simp]:
  "cn_fd (send_header_only cmd w c) = cn_fd c" "cn_pc (send_header_only cmd w c) = cn_pc c" "cn_in (send_header_only cmd w c) = cn_in c"
  "cn_read (send_header_only cmd w c) = cn_read c" "cn_logged_in (send_header_only cmd w c) = cn_logged_in c"
  "cn_joined (send_header_only cmd w c) = cn_joined c" "cn_dead (send_header_only cmd w c) = cn_dead c"
  by (simp_all add: send_header_only_def write_fully_def split: written.split)

lemma login_seen_cong: "cn_in c = cn_in d \<Longrightarrow> cn_read c = cn_read d \<Longrightarrow> login_seen s c = login_seen s d"
  by (simp add: login_seen_def)

lemma login_seen_upd [simp]:
  "login_seen s (c\<lparr>cn_pc := pc\<rparr>) = login_seen s c" "login_seen s (c\<lparr>cn_logged_in := l\<rparr>) = login_seen s c"
  "login_seen s (c\<lparr>cn_joined := j\<rparr>) = login_seen s c" "login_seen s (c\<lparr>cn_dead := x\<rparr>) = login_seen s c"
  "login_seen s (c\<lparr>cn_eof := y\<rparr>) = login_seen s c"
  by (simp_all add: login_seen_def)

lemma login_seen_reads: "login_seen s c \<Longrightarrow> cn_read c \<le> cn_read d \<Longrightarrow> cn_in d = cn_in c \<Longrightarrow> login_seen s d"
  by (auto simp: login_seen_def intro: order_trans)

lemma thread_goes_ok:
  assumes "conn_ok s E c"
  shows "conn_ok s E (thread_goes s w c)"
proof -
  have f: "feeds E (send_header_only CMD_ACK_OK w c)" "feeds E (send_header_only CMD_ACK_FAIL w c)" "feeds E c"
    using assms feeds_ack by (auto simp: conn_ok_def)
  have "slice (cn_read c) 0 (cn_in c) = []" by (rule slice_none)
  then show ?thesis using assms f
    by (auto simp: conn_ok_def thread_goes_def reading_def feeds_upd login_seen_def split: conn_pc.split)
qed

lemma length_read_some: "length (read_some n c) = min n (length (cn_in c) - cn_read c)"
  by (simp add: read_some_def)

lemma read_on:
  assumes "p + length got = cn_read c" "slice p (length got) (cn_in c) = got" "cn_read c \<le> length (cn_in c)"
  shows "slice p (length (got @ read_some n c)) (cn_in c) = got @ read_some n c" "cn_read c + length (read_some n c) \<le> length (cn_in c)"
proof -
  have "slice off (length (slice off n xs)) xs = slice off n xs" for off and xs :: bytes by (simp add: slice_def min_def)
  moreover show "cn_read c + length (read_some n c) \<le> length (cn_in c)" using assms(3) by (simp add: length_read_some)
  ultimately show "slice p (length (got @ read_some n c)) (cn_in c) = got @ read_some n c"
    using assms slice_slice_snoc[of p "length got" "length (read_some n c)" "cn_in c"] by (simp add: read_some_def)
qed

lemma read_header_ok:
  assumes "conn_ok s E c" "cn_pc c = Header got"
  shows "conn_ok s E (thread_read s n c)"
proof -
  define b where "b = read_some (min n (40 - length got)) c"
  obtain p where p: "length got < 40" "cn_read c = p + length got" "slice p (length got) (cn_in c) = got" "cn_read c \<le> length (cn_in c)"
    using assms by (auto simp: conn_ok_def reading_def)
  note on = read_on[OF p(2)[symmetric] p(3,4), of "min n (40 - length got)", folded b_def]
  have lb: "length b \<le> 40 - length got" by (simp add: b_def length_read_some)
  have seen: "login_seen s c \<Longrightarrow> login_seen s (c\<lparr>cn_read := cn_read c + length b, cn_pc := pc\<rparr>)" for pc
    by (rule login_seen_reads) simp_all
  have "reading (c\<lparr>cn_read := cn_read c + length b, cn_pc := Header (got @ b)\<rparr>)" if "length (got @ b) < 40"
    using on that p(2) by (auto simp: reading_def intro!: exI[of _ p])
  moreover have "reading (c\<lparr>cn_read := cn_read c + length b, cn_pc := judge_header (got @ b)\<rparr>)" if "\<not> length (got @ b) < 40"
  proof (cases "judge_header (got @ b)")
    case (Login x)
    have l: "length (got @ b) = 40" using that lb p(1) by simp
    have "slice p 40 (cn_in c) = got @ b" using on(1) unfolding l .
    then show ?thesis using Login on(2) judge_login_pc[OF Login] p(2) l by (auto simp: reading_def slice_none intro!: exI[of _ p])
  qed (use on(2) judge_not_header in \<open>auto simp: reading_def\<close>)
  moreover have "reading (c\<lparr>cn_read := cn_read c + length b, cn_pc := Leaving\<rparr>)" using on(2) by (simp add: reading_def)
  ultimately show ?thesis using assms seen
    by (auto simp: thread_read_def Let_def conn_ok_def feeds_upd ev8012_sizes simp flip: b_def)
qed

lemma read_login_ok:
  assumes "conn_ok s E c" "cn_pc c = Login got" "E = settled s (cn_fd c)"
  shows "conn_ok s E (thread_read s n c)"
proof -
  define b where "b = read_some (min n (64 - length got)) c"
  obtain p where p: "length got < 64" "cn_read c = p + 40 + length got" "judge_header (slice p 40 (cn_in c)) = Login []"
      "slice (p + 40) (length got) (cn_in c) = got" "cn_read c \<le> length (cn_in c)"
    using assms by (auto simp: conn_ok_def reading_def)
  note on = read_on[OF p(2)[symmetric] p(4,5), of "min n (64 - length got)", folded b_def]
  have lb: "length b \<le> 64 - length got" by (simp add: b_def length_read_some)
  define d where "d = c\<lparr>cn_read := cn_read c + length b\<rparr>"
  have seen: "login_seen s c \<Longrightarrow> login_seen s d"
    unfolding d_def by (rule login_seen_reads) simp_all
  have lseen: "login_seen s d" if "\<not> length (got @ b) < 64" "login_accepted s (got @ b)"
  proof -
    have l: "length (got @ b) = 64" using that(1) lb p(1) by simp
    have "slice (p + 40) 64 (cn_in c) = got @ b" using on(1) unfolding l .
    moreover have "cn_read c + length b = p + 104" using l p(2) by simp
    ultimately show ?thesis using that(2) p(3) unfolding login_seen_def d_def by (intro exI[of _ p]) simp
  qed
  have rd: "cn_read d \<le> length (cn_in d)" using on(2) by (simp add: d_def)
  have "feeds E d" using assms(1) by (simp add: d_def conn_ok_def feeds_upd)
  then have fjoin: "feeds E (d\<lparr>cn_logged_in := True, cn_pc := Ack_ok, cn_joined := (if cn_logged_in d then cn_joined d else fans_behind s (cn_fd d))\<rparr>)"
  proof (cases "cn_logged_in d")
    case False
    have "drop (fans_behind s (cn_fd c)) E = []" using assms(3) by (simp add: settled_def)
    then show ?thesis using \<open>feeds E d\<close> False by (auto simp: feeds_def d_def)
  qed (auto simp: feeds_def)
  have jle: "fans_behind s (cn_fd c) \<le> length E"
    using assms(3) by (auto simp: settled_def fans_behind_def split: option.split)
  have "reading (d\<lparr>cn_pc := Login (got @ b)\<rparr>)" if "length (got @ b) < 64"
    using on that p(2,3) by (auto simp: reading_def d_def add.assoc intro!: exI[of _ p])
  moreover have "conn_ok s E (judge_login s (got @ b) d)" if "\<not> length (got @ b) < 64"
    using assms(1) fjoin lseen[OF that] seen jle rd \<open>feeds E d\<close>
    by (auto simp: judge_login_def conn_ok_def reading_def feeds_upd d_def)
  moreover have "conn_ok s E (d\<lparr>cn_pc := Leaving\<rparr>)" using assms(1) seen rd \<open>feeds E d\<close> by (auto simp: conn_ok_def reading_def feeds_upd d_def)
  ultimately show ?thesis using assms(1,2) seen rd \<open>feeds E d\<close>
    by (auto simp: thread_read_def Let_def conn_ok_def feeds_upd ev8012_sizes simp flip: b_def d_def) (auto simp: d_def)
qed

lemma thread_read_ok:
  assumes "conn_ok s E c" "E = settled s (cn_fd c)"
  shows "conn_ok s E (thread_read s n c)"
proof (cases "cn_pc c")
  case (Drain chunk left)
  define b where "b = read_some (min n chunk) c"
  have rd: "cn_read c \<le> length (cn_in c)" "cn_read c + length b \<le> length (cn_in c)"
    using assms(1) by (auto simp: b_def length_read_some conn_ok_def reading_def)
  have seen: "login_seen s c \<Longrightarrow> login_seen s (c\<lparr>cn_read := cn_read c + length b, cn_pc := pc\<rparr>)"
     "login_seen s c \<Longrightarrow> login_seen s (c\<lparr>cn_read := cn_read c + length b, cn_dead := True, cn_pc := pc\<rparr>)" for pc
    by (auto intro: login_seen_reads)
  have "feeds E (c\<lparr>cn_read := cn_read c + length b\<rparr>)" using assms(1) by (simp add: conn_ok_def feeds_upd)
  then have f: "feeds E (c\<lparr>cn_read := cn_read c + length b, cn_dead := True\<rparr>)" by (rule feeds_upd(5))
  have pc: "reading (c\<lparr>cn_read := cn_read c + length b, cn_pc := drain left\<rparr>)"
    using rd(2) drain_not_reading by (auto simp: reading_def split: conn_pc.split)
  show ?thesis using Drain assms(1) seen f pc rd
    by (auto simp: thread_read_def Let_def conn_ok_def feeds_upd reading_def simp flip: b_def)
qed (use assms read_header_ok read_login_ok in \<open>simp_all add: thread_read_def\<close>)

text \<open>The invariant of the server: the connections are apart, a fan-out delivers the last event and has some of them
  left, and each connection has what it should.\<close>

fun fan_ok :: "(nop_event \<times> nat list) option \<Rightarrow> nop_event list \<Rightarrow> bool" where
  "fan_ok None es \<longleftrightarrow> True"
| "fan_ok (Some (e, fds)) es \<longleftrightarrow> distinct fds \<and> es \<noteq> [] \<and> last es = e"

definition server_ok :: "ev8012_server \<Rightarrow> bool" where
  "server_ok s \<longleftrightarrow> distinct (map cn_fd (sv_conns s)) \<and> (\<forall>c \<in> set (sv_conns s). cn_fd c < sv_next_fd s) \<and>
     sv_conn_count s = int (length (sv_conns s)) \<and> list_all small_event (sv_events s) \<and>
     fan_ok (sv_fan s) (sv_events s) \<and>
     (\<forall>c \<in> set (sv_conns s). conn_ok s (settled s (cn_fd c)) c)"

lemma conn_ok_cong:
  "sv_username s = sv_username t \<Longrightarrow> sv_password s = sv_password t \<Longrightarrow> conn_ok s E c = conn_ok t E c"
  by (simp add: conn_ok_def login_seen_def login_accepted_def)

lemma settled_cong: "sv_fan t = sv_fan s \<Longrightarrow> sv_events t = sv_events s \<Longrightarrow> settled t fd = settled s fd"
  by (auto simp: settled_def fans_behind_def split: option.split)

lemma on_conn_fds: "(\<And>c. cn_fd (f c) = cn_fd c) \<Longrightarrow> map cn_fd (on_conn fd f cs) = map cn_fd cs"
  by (simp add: on_conn_def)

lemma length_on_conn [simp]: "length (on_conn fd f cs) = length cs"
  by (simp add: on_conn_def)

lemma thread_fd [simp]: "cn_fd (thread_read s n c) = cn_fd c" "cn_fd (thread_goes s w c) = cn_fd c" "cn_fd (fan_write e w c) = cn_fd c"
  by (simp_all add: thread_read_def thread_goes_def judge_login_def fan_write_def write_fully_def Let_def split: conn_pc.split written.split prod.split)

lemma server_conns_ok:
  assumes "server_ok s" "map cn_fd cs = map cn_fd (sv_conns s)" "\<And>c. c \<in> set cs \<Longrightarrow> conn_ok s (settled s (cn_fd c)) c"
  shows "server_ok (s\<lparr>sv_conns := cs\<rparr>)"
proof -
  have "\<exists>d \<in> set (sv_conns s). cn_fd d = cn_fd c" if "c \<in> set cs" for c
    using that assms(2) by (metis (mono_tags) image_iff list.set_map)
  then have "\<forall>c \<in> set cs. cn_fd c < sv_next_fd s" using assms(1) unfolding server_ok_def by metis
  moreover have "settled (s\<lparr>sv_conns := cs\<rparr>) fd = settled s fd" for fd by (rule settled_cong) simp_all
  moreover have "length cs = length (sv_conns s)" using assms(2) by (metis length_map)
  ultimately show ?thesis using assms conn_ok_cong[of "s\<lparr>sv_conns := cs\<rparr>" s] by (simp add: server_ok_def)
qed

lemma server_on_conn:
  assumes "server_ok s" "\<And>c. cn_fd (f c) = cn_fd c"
    and "\<And>c. cn_fd c = fd \<Longrightarrow> conn_ok s (settled s fd) c \<Longrightarrow> conn_ok s (settled s fd) (f c)"
  shows "server_ok (s\<lparr>sv_conns := on_conn fd f (sv_conns s)\<rparr>)"
  using assms by (intro server_conns_ok) (auto simp: on_conn_fds on_conn_def server_ok_def)

lemma feeds_event:
  assumes "feeds E c" "cn_logged_in c \<longrightarrow> cn_joined c \<le> length E"
  shows "feeds (E @ [e]) (fan_write e w c)"
proof (cases "cn_logged_in c \<and> \<not> cn_dead c")
  case True
  show ?thesis
  proof (cases "w = All \<and> \<not> cn_failed c")
    case ok: True
    then obtain ms where ms: "cn_out c = stream_bytes ms" "stream_events ms = drop (cn_joined c) E"
      using assms(1) True by (auto simp: feeds_def)
    then show ?thesis using True ok assms(2) unfolding feeds_def
      by (intro impI exI[of _ "ms @ [Send e]"]) (simp add: fan_write_def write_fully_def)
  next
    case False
    then show ?thesis using True by (cases w) (auto simp: feeds_def fan_write_def write_fully_def)
  qed
next
  case False
  then show ?thesis using assms by (auto simp: fan_write_def feeds_def)
qed

lemma fan_write_keeps [simp]:
  "cn_in (fan_write e w c) = cn_in c" "cn_read (fan_write e w c) = cn_read c" "cn_pc (fan_write e w c) = cn_pc c"
  "cn_logged_in (fan_write e w c) = cn_logged_in c" "cn_joined (fan_write e w c) = cn_joined c"
  by (simp_all add: fan_write_def write_fully_def split: written.split)

lemma fan_write_ok:
  assumes "conn_ok s E c"
  shows "conn_ok s (E @ [e]) (fan_write e w c)"
proof -
  have "feeds (E @ [e]) (fan_write e w c)" using assms by (intro feeds_event) (auto simp: conn_ok_def)
  moreover have "reading (fan_write e w c) = reading c" "login_seen s (fan_write e w c) = login_seen s c"
    by (simp_all add: reading_def login_seen_def cong: conn_pc.case_cong)
  ultimately show ?thesis using assms by (auto simp: conn_ok_def)
qed

lemma fan_visit_ok:
  assumes "server_ok s"
  shows "server_ok (fan_visit w s)"
proof (cases "sv_fan s")
  case (Some f)
  obtain e fds where f: "f = (e, fds)" by (cases f)
  show ?thesis
  proof (cases fds)
    case Nil
    have "settled (s\<lparr>sv_fan := None\<rparr>) fd = settled s fd" for fd using Some f Nil by (simp add: settled_def fans_behind_def)
    then show ?thesis using assms Some f Nil conn_ok_cong[of "s\<lparr>sv_fan := None\<rparr>" s] by (auto simp: fan_visit_def server_ok_def)
  next
    case (Cons fd rest)
    define t where "t = s\<lparr>sv_fan := Some (e, rest), sv_conns := on_conn fd (fan_write e w) (sv_conns s)\<rparr>"
    have d: "fd \<notin> set rest" "distinct rest" "sv_events s \<noteq> []" "last (sv_events s) = e"
      using assms Some f Cons by (auto simp: server_ok_def)
    have "settled s fd = butlast (sv_events s)" "settled t fd = sv_events s"
      using Some f Cons d(1) by (simp_all add: settled_def fans_behind_def t_def butlast_conv_take)
    then have se: "settled t fd = settled s fd @ [e]" using d(3,4) by (metis append_butlast_last_id)
    have so: "settled t fd' = settled s fd'" if "fd' \<noteq> fd" for fd'
      using that Some f Cons by (simp add: settled_def fans_behind_def t_def)
    have "conn_ok t (settled t (cn_fd c)) c" if c: "c \<in> set (sv_conns t)" for c
    proof -
      obtain c0 where c0: "c0 \<in> set (sv_conns s)" "c = (if cn_fd c0 = fd then fan_write e w c0 else c0)"
        using c unfolding t_def on_conn_def by auto
      have "conn_ok s (settled s (cn_fd c0)) c0" using assms c0(1) by (simp add: server_ok_def)
      then have "conn_ok s (settled t (cn_fd c)) c" using c0(2) se so fan_write_ok by (auto split: if_splits)
      then show ?thesis using conn_ok_cong[of t s] by (simp add: t_def)
    qed
    moreover have "map cn_fd (sv_conns t) = map cn_fd (sv_conns s)" by (simp add: t_def on_conn_fds)
    moreover have "\<forall>c \<in> set (sv_conns t). cn_fd c < sv_next_fd t" using assms by (auto simp: t_def on_conn_def server_ok_def)
    ultimately have "server_ok t" using assms d by (simp add: server_ok_def) (simp add: t_def)
    then show ?thesis using Some f Cons by (simp add: fan_visit_def t_def)
  qed
qed (use assms in \<open>simp add: fan_visit_def\<close>)

lemma fan_begin_ok:
  assumes "server_ok s"
  shows "server_ok (fan_begin e s)"
proof (cases "sv_subscribed s \<and> sv_fan s = None \<and> length (event_jpeg e) \<le> EV8012_MAX_JPEG")
  case True
  define t where "t = s\<lparr>sv_fan := Some (e, map cn_fd (sv_conns s)), sv_events := sv_events s @ [e]\<rparr>"
  have "settled t (cn_fd c) = settled s (cn_fd c)" if "c \<in> set (sv_conns s)" for c
    using that True by (auto simp: t_def settled_def fans_behind_def)
  then have "\<forall>c \<in> set (sv_conns s). conn_ok t (settled t (cn_fd c)) c"
    using assms conn_ok_cong[of t s] by (simp add: server_ok_def) (simp add: t_def)
  then have "server_ok t" using assms True by (simp add: server_ok_def) (simp add: t_def small_event_def)
  then show ?thesis using True by (simp add: fan_begin_def t_def)
qed (use assms in \<open>auto simp: fan_begin_def\<close>)

lemma accept_ok:
  assumes "server_ok s"
  shows "server_ok (accept_loop s)"
proof (cases "sv_stop s \<or> sv_fan s \<noteq> None")
  case False
  define c where "c = \<lparr>cn_fd = sv_next_fd s, cn_logged_in = False, cn_dead = False, cn_pc = Top, cn_in = [], cn_read = 0,
            cn_eof = False, cn_out = [], cn_failed = False, cn_joined = 0\<rparr>"
  define t where "t = s\<lparr>sv_conns := c # sv_conns s, sv_conn_count := sv_conn_count s + 1, sv_next_fd := sv_next_fd s + 1\<rparr>"
  have "conn_ok s E c" for E by (auto simp: conn_ok_def c_def reading_def feeds_def stream_bytes_def stream_events_def intro!: exI[of _ "[]"])
  moreover have "settled t fd = settled s fd" for fd by (rule settled_cong) (simp_all add: t_def)
  moreover have "sv_next_fd s \<notin> cn_fd ` set (sv_conns s)" using assms by (auto simp: server_ok_def)
  ultimately have "server_ok t" using assms False conn_ok_cong[of t s] unfolding server_ok_def
    by (auto simp: t_def c_def intro: less_SucI)
  then show ?thesis using False by (simp add: accept_loop_def t_def c_def)
qed (use assms in \<open>auto simp: accept_loop_def\<close>)

lemma remove_ok:
  assumes "server_ok s"
  shows "server_ok (conn_remove fd s)"
proof (cases "sv_fan s = None \<and> (\<exists>c \<in> set (sv_conns s). cn_fd c = fd \<and> cn_pc c = Leaving)")
  case True
  define t where "t = s\<lparr>sv_conns := filter (\<lambda>c. cn_fd c \<noteq> fd) (sv_conns s), sv_conn_count := sv_conn_count s - 1\<rparr>"
  have d: "distinct (map cn_fd (sv_conns s))" using assms by (simp add: server_ok_def)
  have "length (filter (\<lambda>c. cn_fd c \<noteq> fd) cs) + 1 = length cs" if "distinct (map cn_fd cs)" "\<exists>c \<in> set cs. cn_fd c = fd" for cs :: "ev8012_conn list"
    using that
  proof (induction cs)
    case (Cons c cs)
    show ?case
    proof (cases "cn_fd c = fd")
      case True
      then have "filter (\<lambda>c. cn_fd c \<noteq> fd) cs = cs" using Cons.prems(1) by (intro filter_True) (auto simp: image_iff)
      then show ?thesis using True by simp
    qed (use Cons in auto)
  qed simp
  then have "length (sv_conns t) + 1 = length (sv_conns s)" using d True by (auto simp: t_def)
  moreover have "distinct (map cn_fd (sv_conns t))" using d by (simp add: t_def distinct_map_filter)
  moreover have "settled t x = settled s x" for x by (rule settled_cong) (simp_all add: t_def)
  ultimately have "server_ok t" using assms conn_ok_cong[of t s] unfolding server_ok_def by (auto simp: t_def)
  then show ?thesis using True by (simp add: conn_remove_def t_def)
qed (use assms in \<open>auto simp: conn_remove_def\<close>)

lemma reading_more: "reading c \<Longrightarrow> reading (c\<lparr>cn_in := cn_in c @ b\<rparr>)"
proof -
  assume r: "reading c"
  then have le: "cn_read c \<le> length (cn_in c)" by (simp add: reading_def)
  have "slice p n (cn_in c @ b) = slice p n (cn_in c)" if "p + n \<le> cn_read c" for p n
    using that le by (simp add: slice_def)
  then show ?thesis using r by (auto simp: reading_def split: conn_pc.splits)
qed

lemma conn_ok_more: "conn_ok s E c \<Longrightarrow> conn_ok s E (c\<lparr>cn_in := cn_in c @ b\<rparr>)"
proof -
  assume c: "conn_ok s E c"
  then have le: "cn_read c \<le> length (cn_in c)" by (simp add: conn_ok_def reading_def)
  have "slice p n (cn_in c @ b) = slice p n (cn_in c)" if "p + n \<le> cn_read c" for p n
    using that le by (simp add: slice_def)
  then have "login_seen s c \<Longrightarrow> login_seen s (c\<lparr>cn_in := cn_in c @ b\<rparr>)" by (fastforce simp: login_seen_def)
  then show ?thesis using c reading_more by (auto simp: conn_ok_def feeds_upd)
qed

lemma conn_ok_ends:
  assumes "conn_ok s E c"
  shows "conn_ok s E (c\<lparr>cn_eof := True\<rparr>)" "conn_ok s E (c\<lparr>cn_dead := True, cn_eof := True\<rparr>)"
  using assms feeds_upd(5) by (auto simp: conn_ok_def feeds_upd reading_def cong: conn_pc.case_cong)

lemma shutdown_ok:
  assumes "server_ok s"
  shows "server_ok (stop_shutdown s)"
proof -
  have "server_ok (s\<lparr>sv_conns := map (\<lambda>c. c\<lparr>cn_dead := True, cn_eof := True\<rparr>) (sv_conns s)\<rparr>)"
    using assms by (intro server_conns_ok) (auto simp: server_ok_def conn_ok_ends)
  then show ?thesis using assms by (simp add: stop_shutdown_def)
qed

lemma flags_ok: "server_ok s \<Longrightarrow> server_ok (s\<lparr>sv_stop := a\<rparr>)" "server_ok s \<Longrightarrow> server_ok (s\<lparr>sv_subscribed := b\<rparr>)"
  using conn_ok_cong[of "s\<lparr>sv_stop := a\<rparr>" s] conn_ok_cong[of "s\<lparr>sv_subscribed := b\<rparr>" s]
    settled_cong[of "s\<lparr>sv_stop := a\<rparr>" s] settled_cong[of "s\<lparr>sv_subscribed := b\<rparr>" s]
  by (simp_all add: server_ok_def)

lemma server_step_ok:
  assumes "server_ok s"
  shows "server_ok (server_step a s)"
proof (cases a)
  case (Peer_sends fd b)
  show ?thesis unfolding Peer_sends server_step.simps by (rule server_on_conn[OF assms]) (auto simp: conn_ok_more)
next
  case (Peer_closes fd)
  show ?thesis unfolding Peer_closes server_step.simps by (rule server_on_conn[OF assms]) (auto simp: conn_ok_ends)
next
  case (Thread_reads fd n)
  show ?thesis unfolding Thread_reads server_step.simps by (rule server_on_conn[OF assms]) (auto simp: thread_read_ok)
next
  case (Thread_goes fd w)
  show ?thesis unfolding Thread_goes server_step.simps by (rule server_on_conn[OF assms]) (auto simp: thread_goes_ok)
qed (use assms in \<open>simp_all add: accept_ok remove_ok fan_begin_ok fan_visit_ok shutdown_ok flags_ok stop_accepting_def stop_detach_def\<close>)

lemma server_run_ok: "server_ok s \<Longrightarrow> server_ok (server_run as s)"
  by (induction as arbitrary: s) (simp_all add: server_run_def server_step_ok)

lemma server_names:
  "sv_username (server_run as s) = sv_username s" "sv_password (server_run as s) = sv_password s"
proof -
  have "sv_username (server_step a s) = sv_username s \<and> sv_password (server_step a s) = sv_password s" for a s
    by (cases a) (auto simp: accept_loop_def conn_remove_def fan_begin_def fan_visit_def stop_accepting_def stop_detach_def stop_shutdown_def
        split: option.split list.split)
  then show "sv_username (server_run as s) = sv_username s" "sv_password (server_run as s) = sv_password s"
    by (induction as arbitrary: s) (simp_all add: server_run_def)
qed

lemma start_ok: "nop_event8012_server_start u p k l t h = (Some s, h') \<Longrightarrow> server_ok s"
  by (auto simp: nop_event8012_server_start_def server_ok_def split: if_splits option.splits prod.splits)

lemma ack_first:
  assumes "connect_and_login u p a b (take n (stream_bytes ms)) now = Some c"
  shows "\<exists>ns. ms = Ack True # ns"
proof -
  have l: "40 \<le> n" "40 \<le> length (stream_bytes ms)" and cmd: "get_le32 12 (take n (stream_bytes ms)) = CMD_ACK_OK"
    using assms by (auto simp: connect_and_login_def ev8012_sizes split: if_splits)
  have "get_le32 12 (stream_bytes ms) = CMD_ACK_OK" using cmd l(1) get_le32_take[of 12 n "stream_bytes ms"] by simp
  then show ?thesis using l(2)
  proof (cases ms)
    case (Cons m ns)
    then show ?thesis using \<open>get_le32 12 (stream_bytes ms) = CMD_ACK_OK\<close>
      by (cases m) (auto simp: event_bytes_def ev8012_cmds split: if_splits)
  qed simp
qed

lemma login_ok:
  assumes "connect_and_login u p a b first now = Some cl" "first @ later = stream_bytes ms"
  shows "\<exists>ns. ms = Ack True # ns \<and> client_ok ns later cl"
proof -
  have f: "first = take (length first) (stream_bytes ms)" using assms(2) by (metis append_eq_conv_conj)
  obtain ns where ns: "ms = Ack True # ns" using ack_first[of u p a b "length first" ms now cl] assms(1) f by auto
  have "40 \<le> length first" and cl: "cl_in cl = drop 40 first" "cl_calls cl = []"
    using assms(1) by (auto simp: connect_and_login_def ev8012_sizes split: if_splits)
  then have "drop 40 first @ later = drop 40 (stream_bytes ms)" using assms(2) by (metis drop_append diff_is_0_eq drop_0)
  then have "cl_in cl @ later = stream_bytes ns" using cl(1) ns by simp
  then show ?thesis using ns cl(2) unfolding client_ok_def by (auto simp: stream_calls_def intro!: exI[of _ "0::nat"])
qed

lemma prefix_take: "prefix xs ys \<Longrightarrow> xs = take (length xs) ys"
  by (metis append_eq_conv_conj prefixE)

lemma stream_prefix: "prefix (stream_events (take k ms)) (stream_events ms)"
  by (metis append_take_drop_id prefixI stream_simps(6))

definition or_admin :: "bytes \<Rightarrow> bytes" where "or_admin b = (if b = [] then admin else b)"

lemma c_string_ok: "list_all (\<lambda>c. c \<noteq> 0) b \<Longrightarrow> c_string b = b"
  by (simp add: c_string_def list_all_iff)

lemma c_string_padded:
  assumes "list_all (\<lambda>c. c \<noteq> 0) b"
  shows "c_string (padded n b) = take n b"
proof -
  have "takeWhile (\<lambda>c. c \<noteq> 0) (take n b @ replicate m 0) = take n b" for m :: nat
    using assms by (subst takeWhile_append2) (auto simp: list_all_iff takeWhile_replicate dest: in_set_takeD)
  then show ?thesis by (simp add: c_string_def padded_def)
qed

lemma nul_free_admin: "list_all (\<lambda>c. c \<noteq> 0) b \<Longrightarrow> list_all (\<lambda>c. c \<noteq> 0) (take n (or_admin b))"
  by (auto simp: or_admin_def admin_def list_all_iff dest: in_set_takeD)

lemma length_padded [simp]: "length (padded n b) = n"
  by (simp add: padded_def min_def)

lemma accepted_iff:
  assumes "nop_event8012_server_start username password sink True True hub = (Some s, hub')"
    "list_all (\<lambda>c. c \<noteq> 0) username" "list_all (\<lambda>c. c \<noteq> 0) password" "list_all (\<lambda>c. c \<noteq> 0) u" "list_all (\<lambda>c. c \<noteq> 0) p"
  shows "login_accepted s (login_payload u p) \<longleftrightarrow>
    take 24 (or_admin u) = take 24 (or_admin username) \<and> take 40 (or_admin p) = take 40 (or_admin password)"
proof -
  have n: "sv_username s = take 31 (or_admin username)" "sv_password s = take 63 (or_admin password)"
    using assms(1) by (auto simp: nop_event8012_server_start_def or_admin_def split: option.splits prod.splits)
  have pl: "login_payload u p = padded 24 (or_admin u) @ padded 40 (or_admin p)" by (simp add: login_payload_def or_admin_def ev8012_sizes)
  have nf: "list_all (\<lambda>c. c \<noteq> 0) (or_admin u)" "list_all (\<lambda>c. c \<noteq> 0) (or_admin p)"
    using assms(4,5) by (simp_all add: or_admin_def admin_def)
  have "take 24 (padded 24 (or_admin u) @ padded 40 (or_admin p)) = padded 24 (or_admin u)"
    "slice 24 40 (padded 24 (or_admin u) @ padded 40 (or_admin p)) = padded 40 (or_admin p)" by (simp_all add: codec)
  then show ?thesis
    unfolding login_accepted_def same_strn_def ev8012_sizes pl n
    by (simp add: c_string_padded[OF nf(1)] c_string_padded[OF nf(2)] c_string_ok nul_free_admin[OF assms(2)] nul_free_admin[OF assms(3)])
qed

lemma login_header: "judge_header (client_header CMD_LOGIN (of_nat EV8012_LOGIN_SIZE)) = Login []"
  by (simp add: judge_header_def Let_def)

lemma no_events_acks: "stream_events ms = [] \<Longrightarrow> \<exists>oks. ms = map Ack oks"
proof (induction ms)
  case (Cons m ms)
  then obtain oks where "ms = map Ack oks" by (cases m) auto
  then show ?case using Cons.prems by (cases m) (auto intro: exI[of _ "_ # oks"])
qed simp

definition feed_event :: nop_event where
  "feed_event = \<lparr>ev_channel = 0, ev_type = NOP_DETECT_HUMAN, ev_timestamp_ms = 5, ev_jpeg = Some [255, 216], ev_extra_json = None\<rparr>"

definition demo_server :: ev8012_server where
  "demo_server = \<lparr>sv_username = admin, sv_password = admin, sv_stop = False, sv_subscribed = True, sv_conns = [], sv_conn_count = 0,
     sv_next_fd = 0, sv_fan = None, sv_events = []\<rparr>"

lemma demo_start: "\<exists>hub. nop_event8012_server_start [] [] (0 :: nat) True True nop_event_hub_create = (Some demo_server, hub)"
  by (simp add: nop_event8012_server_start_def nop_event_subscribe_def nop_event_hub_create_def NOP_EVENT_MAX_SINKS_def eval_nat_numeral
      demo_server_def admin_def)

definition demo_login :: "ev8012_action list" where
  "demo_login = [Accept, Peer_sends 0 (login_bytes [] []), Thread_goes 0 All, Thread_reads 0 100, Thread_reads 0 100]"

section \<open>Properties\<close>

text \<open>C11: The event feed. Whatever the connection threads, the fan-outs and the peers do in whatever order, and however the
  kernel cuts the streams into reads, the callbacks of a client whose login was acknowledged,
  on a connection on which no write of the server has failed, are, in order and with message type, flag
  and picture, a prefix of the events whose fan-out reached the connection after its login. When the client is connected, has read
  everything, and no fan-out is running, they are all of these events.\<close>

theorem event_feed:
  assumes "nop_event8012_server_start username password sink True True hub = (Some s, hub')"
    "c \<in> set (sv_conns (server_run as s))" "\<not> cn_failed c" "cn_logged_in c"
    "connect_and_login u p True True first now = Some cl"
    "first @ concat (map rn_arrives rs) @ rest = cn_out c"
  shows "prefix (cl_calls (client_run rs cl)) (map event_call (drop (cn_joined c) (sv_events (server_run as s)))) \<and>
    (cl_connected (client_run rs cl) \<and> cl_in (client_run rs cl) = [] \<and> rest = [] \<and> \<not> cn_dead c \<and> sv_fan (server_run as s) = None \<longrightarrow>
     cl_calls (client_run rs cl) = map event_call (drop (cn_joined c) (sv_events (server_run as s))))"
proof -
  define t where "t = server_run as s"
  have ok: "server_ok t" using start_ok[OF assms(1)] server_run_ok by (simp add: t_def)
  define E where "E = settled t (cn_fd c)"
  have "conn_ok t E c" using ok assms(2) by (simp add: server_ok_def t_def E_def)
  then obtain ms where ms: "cn_out c = stream_bytes ms" "prefix (stream_events ms) (drop (cn_joined c) E)"
      "\<not> cn_dead c \<longrightarrow> stream_events ms = drop (cn_joined c) E"
    using assms(3,4) by (auto simp: conn_ok_def feeds_def)
  obtain ns where ns: "ms = Ack True # ns" "client_ok ns (concat (map rn_arrives rs) @ rest) cl"
    using login_ok[OF assms(5)] assms(6) ms(1) by metis
  have pE: "prefix (drop (cn_joined c) E) (drop (cn_joined c) (sv_events t))"
    by (simp add: E_def settled_def take_is_prefix drop_take)
  have ev: "stream_events ms = stream_events ns" by (simp add: ns(1))
  then have pn: "prefix (stream_events ns) (drop (cn_joined c) (sv_events t))" using ms(2) pE by (metis prefix_order.trans)
  moreover have "list_all small_event (sv_events t)" using ok by (simp add: server_ok_def)
  ultimately have "list_all small_event (stream_events ns)"
    by (metis list_all_append prefixE append_take_drop_id)
  then have "client_ok ns rest (client_run rs cl)" using client_run_ok[OF ns(2)] by simp
  then obtain k where k: "k \<le> length ns" "cl_calls (client_run rs cl) = stream_calls (take k ns)"
      "cl_connected (client_run rs cl) \<longrightarrow> cl_in (client_run rs cl) @ rest = stream_bytes (drop k ns)"
    by (auto simp: client_ok_def)
  have "prefix (stream_events (take k ns)) (drop (cn_joined c) (sv_events t))" using stream_prefix pn by (metis prefix_order.trans)
  then have "prefix (cl_calls (client_run rs cl)) (map event_call (drop (cn_joined c) (sv_events t)))"
    using k(2) by (simp add: stream_calls_def map_mono_prefix)
  moreover have "cl_calls (client_run rs cl) = map event_call (drop (cn_joined c) (sv_events t))"
    if "cl_connected (client_run rs cl)" "cl_in (client_run rs cl) = []" "rest = []" "\<not> cn_dead c" "sv_fan t = None"
  proof -
    have "stream_bytes (drop k ns) = []" using k(3) that by simp
    then have "drop k ns = []" by (cases "drop k ns") (simp_all add: msg_bytes_ne)
    then have "stream_events (take k ns) = drop (cn_joined c) E" using ms(3) that ev by simp
    moreover have "E = sv_events t" using that(5) by (simp add: E_def settled_def fans_behind_def)
    ultimately show ?thesis using k(2) by (simp add: stream_calls_def)
  qed
  ultimately show ?thesis by (simp add: t_def)
qed

definition demo_served :: ev8012_server where
  "demo_served = server_run (demo_login @ [Thread_goes 0 All, Fan_begin feed_event, Fan_visit All, Fan_visit All]) demo_server"

definition demo_conn :: ev8012_conn where "demo_conn = hd (sv_conns demo_served)"

lemma demo_reads:
  "slice 0 40 (login_bytes [] []) = client_header CMD_LOGIN (of_nat EV8012_LOGIN_SIZE)"
  "slice 40 64 (login_bytes [] []) = login_payload [] []" "length (login_bytes [] []) = 104" "length (login_payload [] []) = 64"
  by (simp_all add: login_bytes_def codec login_payload_def ev8012_sizes)

lemma demo_accepted: "login_accepted demo_server (login_payload [] [])"
proof -
  obtain hub where "nop_event8012_server_start [] [] (0 :: nat) True True nop_event_hub_create = (Some demo_server, hub)"
    using demo_start by blast
  then show ?thesis using accepted_iff[of "[]" "[]" "0 :: nat" nop_event_hub_create demo_server hub "[]" "[]"] by simp
qed

lemma demo_accepted': "sv_username t = sv_username demo_server \<Longrightarrow> sv_password t = sv_password demo_server \<Longrightarrow> login_accepted t (login_payload [] [])"
  using demo_accepted by (simp add: login_accepted_def)

lemmas server_ops = accept_loop_def thread_goes_def thread_read_def judge_login_def fan_begin_def fan_visit_def fan_write_def write_fully_def
  send_header_only_def on_conn_def read_some_def fans_behind_def

lemma demo_logged:
  "server_run demo_login demo_server = demo_server\<lparr>sv_conn_count := 1, sv_next_fd := 1,
     sv_conns := [\<lparr>cn_fd = 0, cn_logged_in = True, cn_dead = False, cn_pc = Ack_ok, cn_in = login_bytes [] [], cn_read = 104,
       cn_eof = False, cn_out = [], cn_failed = False, cn_joined = 0\<rparr>]\<rparr>"
  by (simp add: server_run_def demo_login_def server_ops demo_reads ev8012_sizes login_header[unfolded ev8012_sizes, simplified] demo_accepted' Let_def
      demo_server_def)

lemma demo_facts:
  "sv_conns demo_served \<noteq> []" "\<not> cn_failed demo_conn" "cn_logged_in demo_conn" "cn_joined demo_conn = 0"
  "cn_out demo_conn = build_header CMD_ACK_OK 0 0 0 @ event_bytes feed_event" "sv_events demo_served = [feed_event]"
proof -
  have "demo_served = server_run [Thread_goes 0 All, Fan_begin feed_event, Fan_visit All, Fan_visit All] (server_run demo_login demo_server)"
    by (simp add: demo_served_def server_run_def)
  also have "\<dots> = demo_server\<lparr>sv_conn_count := 1, sv_next_fd := 1, sv_events := [feed_event],
     sv_conns := [\<lparr>cn_fd = 0, cn_logged_in = True, cn_dead = False, cn_pc = Top, cn_in = login_bytes [] [], cn_read = 104,
       cn_eof = False, cn_out = build_header CMD_ACK_OK 0 0 0 @ event_bytes feed_event, cn_failed = False, cn_joined = 0\<rparr>]\<rparr>"
    unfolding demo_logged by (simp add: server_run_def server_ops demo_server_def feed_event_def event_jpeg_def EV8012_MAX_JPEG_def)
  finally have run: "demo_served = \<dots>" .
  show "sv_conns demo_served \<noteq> []" "\<not> cn_failed demo_conn" "cn_logged_in demo_conn" "cn_joined demo_conn = 0"
    "cn_out demo_conn = build_header CMD_ACK_OK 0 0 0 @ event_bytes feed_event" "sv_events demo_served = [feed_event]"
    by (simp_all add: demo_conn_def run)
qed

definition demo_client :: ev8012_client where
  "demo_client = \<lparr>cl_connected = True, cl_last_heartbeat = 0, cl_in = [], cl_out = login_bytes [] [], cl_calls = []\<rparr>"

definition demo_round :: client_round where
  "demo_round = \<lparr>rn_now = 0, rn_ready = True, rn_written = True, rn_arrives = event_bytes feed_event\<rparr>"

lemma event_feed_witness:
  "cl_calls (client_run [demo_round] demo_client) = [(2, 1, [255, 216])] \<and>
   prefix (cl_calls (client_run [demo_round] demo_client)) (map event_call (drop (cn_joined demo_conn) (sv_events demo_served)))"
proof -
  obtain hub where h: "nop_event8012_server_start [] [] (0 :: nat) True True nop_event_hub_create = (Some demo_server, hub)"
    using demo_start by blast
  define as where "as = demo_login @ [Thread_goes 0 All, Fan_begin feed_event, Fan_visit All, Fan_visit All]"
  have s: "server_run as demo_server = demo_served" by (simp add: demo_served_def as_def)
  have mem: "demo_conn \<in> set (sv_conns (server_run as demo_server))" using demo_facts(1) by (simp add: demo_conn_def s)
  have r: "receive (demo_client\<lparr>cl_in := event_bytes feed_event\<rparr>) = demo_client\<lparr>cl_in := [], cl_calls := [event_call feed_event]\<rparr>"
    using receive_msg[of "demo_client\<lparr>cl_in := event_bytes feed_event\<rparr>" "Send feed_event" "[]"]
    by (simp add: demo_client_def small_event_def event_jpeg_def feed_event_def EV8012_MAX_JPEG_def)
  then have run: "client_run [demo_round] demo_client = demo_client\<lparr>cl_in := [], cl_calls := [event_call feed_event]\<rparr>"
    by (simp add: client_run_def client_thread_def demo_round_def send_heartbeat_def EV8012_HEARTBEAT_SECONDS_def Let_def) (simp add: demo_client_def)
  have l: "connect_and_login [] [] True True (build_header CMD_ACK_OK 0 0 0) 0 = Some demo_client"
    using header_fields[of CMD_ACK_OK 0 0 0 "[]"] by (simp add: connect_and_login_def demo_client_def ev8012_sizes)
  have "build_header CMD_ACK_OK 0 0 0 @ concat (map rn_arrives [demo_round]) @ [] = cn_out demo_conn"
    by (simp add: demo_round_def demo_facts(5))
  from event_feed[OF h mem demo_facts(2,3) l this] show ?thesis
    by (simp add: run s) (simp add: event_call_def feed_event_def event_extend_def event_jpeg_def)
qed

text \<open>C17: Logins. A connection is logged in only if its peer has sent, somewhere in its stream, a login message with
  the credentials of the server; a connection that is not logged in has received nothing but acknowledgements.
  The login of a client is accepted exactly if its user name and password agree with the server's in the 24 and
  40 bytes of the message, an empty name or password standing for admin.\<close>

theorem event_login:
  assumes "nop_event8012_server_start username password sink True True hub = (Some s, hub')"
    "list_all (\<lambda>c. c \<noteq> 0) username" "list_all (\<lambda>c. c \<noteq> 0) password" "list_all (\<lambda>c. c \<noteq> 0) u" "list_all (\<lambda>c. c \<noteq> 0) p"
    "c \<in> set (sv_conns (server_run as s))"
  shows "(cn_logged_in c \<longrightarrow> login_seen s c) \<and>
    (\<not> cn_logged_in c \<and> \<not> cn_failed c \<longrightarrow> (\<exists>oks. cn_out c = stream_bytes (map Ack oks))) \<and>
    (login_accepted s (login_payload u p) \<longleftrightarrow>
       take 24 (or_admin u) = take 24 (or_admin username) \<and> take 40 (or_admin p) = take 40 (or_admin password))"
proof -
  have "server_ok (server_run as s)" using start_ok[OF assms(1)] server_run_ok by blast
  then have ok: "conn_ok (server_run as s) (settled (server_run as s) (cn_fd c)) c" using assms(6) by (simp add: server_ok_def)
  then have "conn_ok s (settled (server_run as s) (cn_fd c)) c" using conn_ok_cong server_names by blast
  then have "cn_logged_in c \<longrightarrow> login_seen s c" by (simp add: conn_ok_def)
  moreover have "\<not> cn_logged_in c \<and> \<not> cn_failed c \<longrightarrow> (\<exists>oks. cn_out c = stream_bytes (map Ack oks))"
    using ok no_events_acks by (fastforce simp: conn_ok_def feeds_def)
  ultimately show ?thesis using accepted_iff[OF assms(1-5)] by blast
qed

lemma event_login_witness:
  "login_seen demo_server demo_conn \<and> login_accepted demo_server (login_payload [] [])"
proof -
  obtain hub where h: "nop_event8012_server_start [] [] (0 :: nat) True True nop_event_hub_create = (Some demo_server, hub)"
    using demo_start by blast
  define as where "as = demo_login @ [Thread_goes 0 All, Fan_begin feed_event, Fan_visit All, Fan_visit All]"
  have "server_run as demo_server = demo_served" by (simp add: demo_served_def as_def)
  then have "demo_conn \<in> set (sv_conns (server_run as demo_server))" using demo_facts(1) by (simp add: demo_conn_def)
  then show ?thesis using event_login[OF h, of "[]" "[]" demo_conn as] demo_facts(3) by simp
qed

text \<open>The login race. The connection counts as logged in before its acknowledgement is written; an event that is
  published in between reaches the client first, and the client takes it for a refusal.\<close>

lemma login_race:
  "\<exists>as c. c \<in> set (sv_conns (server_run as demo_server)) \<and> cn_logged_in c \<and> \<not> cn_failed c \<and>
     cn_out c = event_bytes feed_event @ build_header CMD_ACK_OK 0 0 0 \<and>
     (\<forall>n. connect_and_login [] [] True True (take n (cn_out c)) now = None)"
proof -
  have "server_run (demo_login @ [Fan_begin feed_event, Fan_visit All, Thread_goes 0 All]) demo_server =
      server_run [Fan_begin feed_event, Fan_visit All, Thread_goes 0 All] (server_run demo_login demo_server)"
    by (simp add: server_run_def)
  also have "sv_conns \<dots> = [\<lparr>cn_fd = 0, cn_logged_in = True, cn_dead = False, cn_pc = Top, cn_in = login_bytes [] [], cn_read = 104,
       cn_eof = False, cn_out = event_bytes feed_event @ build_header CMD_ACK_OK 0 0 0, cn_failed = False, cn_joined = 0\<rparr>]"
    unfolding demo_logged by (simp add: server_run_def server_ops demo_server_def feed_event_def event_jpeg_def EV8012_MAX_JPEG_def)
  finally have run: "sv_conns (server_run (demo_login @ [Fan_begin feed_event, Fan_visit All, Thread_goes 0 All]) demo_server) = \<dots>" .
  have "connect_and_login [] [] True True (take n (event_bytes feed_event @ build_header CMD_ACK_OK 0 0 0)) now = None" for n
    using ack_first[of "[]" "[]" True True n "[Send feed_event, Ack True]" now] by (cases "connect_and_login [] [] True True (take n (event_bytes feed_event @ build_header CMD_ACK_OK 0 0 0)) now") auto
  then show ?thesis using run by (intro exI[of _ "demo_login @ [Fan_begin feed_event, Fan_visit All, Thread_goes 0 All]"] exI) auto
qed

end
