(* ===== verification/Rsdk_Backup.thy ===== *)
theory Rsdk_Backup
  imports Rsdk_Group_Play
begin

text \<open>
  components/recorder/src/rsdk_backup.c: exporting recordings as MP4 files (one moov box at the end, one chunk of
  samples) and as fragmented MP4, and the registry of muxers. A file that is being written is the list of its bytes, whether it can be
  opened and whether its last write succeeds are arguments. \<open>box\<close> is the pair \<open>box_begin\<close>, \<open>box_end\<close> around the body
  written in between. The four-byte size of a box is the size modulo 2^32, as in the code.
\<close>

section \<open>NAL units\<close>

definition RSDK_CODEC_H264 :: int where "RSDK_CODEC_H264 = 0"
definition RSDK_CODEC_H265 :: int where "RSDK_CODEC_H265 = 1"

definition start_code :: "bytes \<Rightarrow> nat \<Rightarrow> bool" where
  "start_code d i \<longleftrightarrow> i + 3 \<le> length d \<and> d ! i = 0 \<and> d ! (i + 1) = 0 \<and> d ! (i + 2) = 1"

text \<open>The inner loops of \<open>for_each_nal\<close>: the end of a unit, and the same without trailing zeros.\<close>

function nal_end :: "bytes \<Rightarrow> nat \<Rightarrow> nat" where
  "nal_end d j = (if j + 3 \<le> length d then (if start_code d j then j else nal_end d (j + 1)) else length d)"
  by pat_completeness auto
termination by (relation "measure (\<lambda>(d, j). length d - j)") auto

declare nal_end.simps [simp del]

fun strip_zeros :: "bytes \<Rightarrow> nat \<Rightarrow> nat \<Rightarrow> nat" where
  "strip_zeros d s 0 = 0"
| "strip_zeros d s (Suc e) = (if s < Suc e \<and> d ! e = 0 then strip_zeros d s e else Suc e)"

lemma nal_end_ge: "j \<le> length d \<Longrightarrow> j \<le> nal_end d j"
  by (induction d j rule: nal_end.induct) (subst nal_end.simps, auto)

function for_each_nal :: "bytes \<Rightarrow> nat \<Rightarrow> bytes list" where
  "for_each_nal d i =
     (if i + 3 \<le> length d then
        (if start_code d i
         then (let s = i + 3; j = nal_end d s; e = strip_zeros d s j in
               (if s < e then [slice s (e - s) d] else []) @ for_each_nal d j)
         else for_each_nal d (i + 1))
      else [])"
  by pat_completeness auto
termination
proof (relation "measure (\<lambda>(d, i). length d - i)", simp_all)
  fix d :: bytes and i assume "i + 3 \<le> length d"
  then show "length d - nal_end d (i + 3) < length d - i" using nal_end_ge[of "i + 3" d] by simp
qed

declare for_each_nal.simps [simp del]

definition nal_type :: "int \<Rightarrow> bytes \<Rightarrow> int" where
  "nal_type codec nal = (if codec = RSDK_CODEC_H265 then uint (drop_bit 1 (nal ! 0) AND 0x3f) else uint (nal ! 0 AND 0x1f))"

definition is_vcl :: "int \<Rightarrow> int \<Rightarrow> bool" where
  "is_vcl codec t = (if codec = RSDK_CODEC_H265 then 0 \<le> t \<and> t \<le> 31 else 1 \<le> t \<and> t \<le> 5)"
definition is_ps :: "int \<Rightarrow> int \<Rightarrow> bool" where
  "is_ps codec t = (if codec = RSDK_CODEC_H265 then t = 32 \<or> t = 33 \<or> t = 34 else t = 7 \<or> t = 8)"
definition is_key :: "int \<Rightarrow> int \<Rightarrow> bool" where
  "is_key codec t = (if codec = RSDK_CODEC_H265 then 16 \<le> t \<and> t \<le> 21 else t = 5)"

text \<open>The parameter sets: arrays of 512 bytes, zero at first, with the length of what was copied last.\<close>

record param_sets =
  ps_vps :: bytes
  ps_vlen :: nat
  ps_sps :: bytes
  ps_slen :: nat
  ps_pps :: bytes
  ps_plen :: nat

definition no_params :: param_sets where
  "no_params = \<lparr>ps_vps = replicate 512 0, ps_vlen = 0, ps_sps = replicate 512 0, ps_slen = 0, ps_pps = replicate 512 0, ps_plen = 0\<rparr>"

definition memcpy :: "bytes \<Rightarrow> bytes \<Rightarrow> bytes" where "memcpy dst src = src @ drop (length src) dst"

definition set_vps :: "bytes \<Rightarrow> param_sets \<Rightarrow> param_sets" where
  "set_vps nal p = (if length nal < 512 then p\<lparr>ps_vps := memcpy (ps_vps p) nal, ps_vlen := length nal\<rparr> else p)"
definition set_sps :: "bytes \<Rightarrow> param_sets \<Rightarrow> param_sets" where
  "set_sps nal p = (if length nal < 512 then p\<lparr>ps_sps := memcpy (ps_sps p) nal, ps_slen := length nal\<rparr> else p)"
definition set_pps :: "bytes \<Rightarrow> param_sets \<Rightarrow> param_sets" where
  "set_pps nal p = (if length nal < 512 then p\<lparr>ps_pps := memcpy (ps_pps p) nal, ps_plen := length nal\<rparr> else p)"

definition keep_params :: "int \<Rightarrow> bytes \<Rightarrow> param_sets \<Rightarrow> param_sets" where
  "keep_params codec nal p =
     (let t = nal_type codec nal in
      if codec = RSDK_CODEC_H265
      then (if t = 32 then set_vps nal p else if t = 33 then set_sps nal p else if t = 34 then set_pps nal p else p)
      else (if t = 7 then set_sps nal p else if t = 8 then set_pps nal p else p))"

section \<open>Boxes\<close>

definition box :: "bytes \<Rightarrow> bytes \<Rightarrow> bytes" where
  "box t body = be32 (of_nat (8 + length body)) @ t @ body"

definition b32s :: "u32 list \<Rightarrow> bytes" where "b32s vs = concat (map be32 vs)"

definition ascii :: "string \<Rightarrow> bytes" where "ascii s = map (\<lambda>c. of_nat (of_char c)) s"

definition IDENTITY :: bytes where
  "IDENTITY = [0,1,0,0, 0,0,0,0, 0,0,0,0, 0,0,0,0, 0,1,0,0, 0,0,0,0, 0,0,0,0, 0,0,0,0, 0x40,0,0,0]"

record mux_cfg =
  mc_codec :: int
  mc_params :: param_sets
  mc_w :: u32
  mc_h :: u32

definition put_avcC :: "mux_cfg \<Rightarrow> bytes" where
  "put_avcC c = (let p = mc_params c; s = ps_sps p in
     box (ascii ''avcC'')
       ([1, s ! 1, s ! 2, s ! 3, 0xFF, 0xE1] @ be16 (of_nat (ps_slen p)) @ take (ps_slen p) s @
        [1] @ be16 (of_nat (ps_plen p)) @ take (ps_plen p) (ps_pps p)))"

definition put_hvcC :: "mux_cfg \<Rightarrow> bytes" where
  "put_hvcC c = (let p = mc_params c; s = ps_sps p in
     box (ascii ''hvcC'')
       ([1, s ! 3, s ! 4, s ! 5, s ! 6, s ! 7, s ! 8, s ! 9, s ! 10, s ! 11, s ! 12, s ! 13, s ! 14] @ be16 0xF000 @
        [0xFC, 0xFD, 0xF8, 0xF8] @ be16 0 @ [3, 3] @
        [0xA0] @ be16 1 @ be16 (of_nat (ps_vlen p)) @ take (ps_vlen p) (ps_vps p) @
        [0xA1] @ be16 1 @ be16 (of_nat (ps_slen p)) @ take (ps_slen p) s @
        [0xA2] @ be16 1 @ be16 (of_nat (ps_plen p)) @ take (ps_plen p) (ps_pps p)))"

definition put_sample_entry :: "mux_cfg \<Rightarrow> bytes" where
  "put_sample_entry c =
     box (if mc_codec c = RSDK_CODEC_H265 then ascii ''hvc1'' else ascii ''avc1'')
       (replicate 6 0 @ be16 1 @ be16 0 @ be16 0 @ b32s [0, 0, 0] @ be16 (mc_w c) @ be16 (mc_h c) @
        b32s [0x00480000, 0x00480000, 0] @ be16 1 @ replicate 32 0 @ be16 0x0018 @ be16 0xFFFF @
        (if mc_codec c = RSDK_CODEC_H265 then put_hvcC c else put_avcC c))"

definition put_url :: bytes where "put_url = box (ascii ''url '') (be32 1)"

definition put_dinf :: bytes where
  "put_dinf = box (ascii ''dinf'') (box (ascii ''dref'') (b32s [0, 1] @ put_url))"

definition put_vmhd :: bytes where "put_vmhd = box (ascii ''vmhd'') (be32 1 @ be16 0 @ be16 0 @ be16 0 @ be16 0)"

definition put_hdlr :: bytes where
  "put_hdlr = box (ascii ''hdlr'') (b32s [0, 0] @ ascii ''vide'' @ b32s [0, 0, 0] @ ascii ''VideoHandler'' @ [0])"

definition put_mvhd :: "u32 \<Rightarrow> bytes" where
  "put_mvhd dur = box (ascii ''mvhd'')
     (b32s [0, 0, 0, 1000, dur, 0x00010000] @ be16 0x0100 @ be16 0 @ b32s [0, 0] @ IDENTITY @ b32s [0, 0, 0, 0, 0, 0, 2])"

definition put_tkhd :: "u32 \<Rightarrow> u32 \<Rightarrow> u32 \<Rightarrow> bytes" where
  "put_tkhd dur w h = box (ascii ''tkhd'')
     (b32s [7, 0, 0, 1, 0, dur, 0, 0] @ be16 0 @ be16 0 @ be16 0 @ be16 0 @ IDENTITY @ b32s [push_bit 16 w, push_bit 16 h])"

definition put_mdhd :: "u32 \<Rightarrow> u32 \<Rightarrow> bytes" where
  "put_mdhd ts dur = box (ascii ''mdhd'') (b32s [0, 0, 0, ts, dur] @ be16 0x55C4 @ be16 0)"

section \<open>The MP4 muxer\<close>

record export_opt =
  eo_fmt :: int
  eo_width :: u32
  eo_height :: u32
  eo_timescale :: u32
  eo_fps :: u32

definition opt_or :: "(export_opt \<Rightarrow> u32) \<Rightarrow> u32 \<Rightarrow> export_opt option \<Rightarrow> u32" where
  "opt_or f d opt = (case opt of None \<Rightarrow> d | Some o' \<Rightarrow> if f o' \<noteq> 0 then f o' else d)"

record samp =
  sm_off :: u32
  sm_size :: u32
  sm_dur :: u32
  sm_key :: bool
  sm_pts :: u64

record mp4 =
  m4_file :: bytes
  m4_mdat_pos :: nat
  m4_codec :: int
  m4_w :: u32
  m4_h :: u32
  m4_ts :: u32
  m4_fps :: u32
  m4_params :: param_sets
  m4_samples :: "samp list"

record auctx =
  au_off :: u32
  au_size :: u32
  au_key :: bool
  au_started :: bool

definition length_prefixed :: "bytes \<Rightarrow> bytes" where "length_prefixed nal = be32 (of_nat (length nal)) @ nal"

definition nal_cb :: "bytes \<Rightarrow> mp4 \<times> auctx \<Rightarrow> mp4 \<times> auctx" where
  "nal_cb nal = (\<lambda>(m, a).
     let t = nal_type (m4_codec m) nal in
     if is_ps (m4_codec m) t then (m\<lparr>m4_params := keep_params (m4_codec m) nal (m4_params m)\<rparr>, a)
     else if \<not> is_vcl (m4_codec m) t then (m, a)
     else let a = (if au_started a then a else a\<lparr>au_off := of_nat (length (m4_file m)), au_started := True\<rparr>)
       in (m\<lparr>m4_file := m4_file m @ length_prefixed nal\<rparr>,
           a\<lparr>au_size := au_size a + 4 + of_nat (length nal), au_key := au_key a \<or> is_key (m4_codec m) t\<rparr>))"

definition mp4_ftyp :: bytes where
  "mp4_ftyp = box (ascii ''ftyp'') (ascii ''isom'' @ be32 0x200 @ ascii ''isom'' @ ascii ''iso2'' @ ascii ''mp41'' @ ascii ''hvc1'')"

definition mp4_open :: "bool \<Rightarrow> export_opt option \<Rightarrow> mp4 option" where
  "mp4_open opens opt =
     (if \<not> opens then None
      else Some \<lparr>m4_file = mp4_ftyp @ be32 0 @ ascii ''mdat'', m4_mdat_pos = length mp4_ftyp, m4_codec = -1,
        m4_w = opt_or eo_width 3840 opt, m4_h = opt_or eo_height 2160 opt, m4_ts = opt_or eo_timescale 90000 opt,
        m4_fps = opt_or eo_fps 15 opt, m4_params = no_params, m4_samples = []\<rparr>)"

definition mp4_add :: "bytes \<Rightarrow> u64 \<Rightarrow> bool \<Rightarrow> int \<Rightarrow> mp4 \<Rightarrow> mp4" where
  "mp4_add annexb pts key codec m =
     (let m = (if m4_codec m < 0 then m\<lparr>m4_codec := codec\<rparr> else m);
          (m, a) = fold nal_cb (for_each_nal annexb 0) (m, \<lparr>au_off = 0, au_size = 0, au_key = False, au_started = False\<rparr>)
      in if \<not> au_started a then m
         else m\<lparr>m4_samples := m4_samples m @
           [\<lparr>sm_off = au_off a, sm_size = au_size a, sm_dur = 0, sm_key = au_key a \<or> key, sm_pts = pts\<rparr>]\<rparr>)"

text \<open>The runs of equal durations, and the sync samples with their numbers from 1.\<close>

function dur_runs :: "u32 list \<Rightarrow> (nat \<times> u32) list" where
  "dur_runs [] = []"
| "dur_runs (d # ds) = (let c = length (takeWhile (\<lambda>e. e = d) ds) in (Suc c, d) # dur_runs (dropWhile (\<lambda>e. e = d) ds))"
  by pat_completeness auto
termination by (relation "measure length") (auto simp: less_Suc_eq_le length_dropWhile_le)

definition sync_numbers :: "samp list \<Rightarrow> nat list" where
  "sync_numbers ss = map (\<lambda>j. j + 1) (filter (\<lambda>j. sm_key (ss ! j)) [0..<length ss])"

definition put_stts :: "samp list \<Rightarrow> bytes" where
  "put_stts ss = (let runs = dur_runs (map sm_dur ss) in
     box (ascii ''stts'') (be32 0 @ be32 (of_nat (length runs)) @ concat (map (\<lambda>(c, d). be32 (of_nat c) @ be32 d) runs)))"

definition put_stss :: "samp list \<Rightarrow> bytes" where
  "put_stss ss = box (ascii ''stss'')
     (be32 0 @ be32 (of_nat (length (sync_numbers ss))) @ b32s (map of_nat (sync_numbers ss)))"

definition put_stsc :: "samp list \<Rightarrow> bytes" where
  "put_stsc ss = box (ascii ''stsc'') (b32s [0, 1, 1, of_nat (length ss), 1])"

definition put_stsz :: "samp list \<Rightarrow> bytes" where
  "put_stsz ss = box (ascii ''stsz'') (b32s [0, 0, of_nat (length ss)] @ b32s (map sm_size ss))"

definition put_stco :: "samp list \<Rightarrow> bytes" where
  "put_stco ss = box (ascii ''stco'') (b32s [0, 1, if ss = [] then 0 else sm_off (hd ss)])"

definition cfg_from_mp4 :: "mp4 \<Rightarrow> mux_cfg" where
  "cfg_from_mp4 m = \<lparr>mc_codec = m4_codec m, mc_params = m4_params m, mc_w = m4_w m, mc_h = m4_h m\<rparr>"

definition put_stbl :: "mp4 \<Rightarrow> bytes" where
  "put_stbl m = (let ss = m4_samples m in
     box (ascii ''stbl'')
       (box (ascii ''stsd'') (b32s [0, 1] @ put_sample_entry (cfg_from_mp4 m)) @ put_stts ss @ put_stss ss @ put_stsc ss @
        put_stsz ss @ put_stco ss))"

definition default_dur :: "u32 \<Rightarrow> u32 \<Rightarrow> u32" where "default_dur ts fps = ts div (if fps \<noteq> 0 then fps else 15)"

fun set_durs :: "u32 \<Rightarrow> u32 option \<Rightarrow> samp list \<Rightarrow> samp list" where
  "set_durs def prev [] = []"
| "set_durs def prev (s # ss) =
     (let p = (case prev of Some d \<Rightarrow> d | None \<Rightarrow> def);
          d = (case ss of s' # _ \<Rightarrow> if sm_pts s' > sm_pts s then ucast (sm_pts s' - sm_pts s) else p | [] \<Rightarrow> p);
          d = (if d = 0 then def else d)
      in s\<lparr>sm_dur := d\<rparr> # set_durs def (Some d) ss)"

definition total_dur :: "samp list \<Rightarrow> u64" where "total_dur ss = sum_list (map (\<lambda>s. ucast (sm_dur s)) ss)"

definition put_moov :: "mp4 \<Rightarrow> bytes" where
  "put_moov m =
     (let total = total_dur (m4_samples m);
          movie_dur = ucast (total * 1000 div ucast (if m4_ts m \<noteq> 0 then m4_ts m else 1)) in
      box (ascii ''moov'')
        (put_mvhd movie_dur @
         box (ascii ''trak'')
           (put_tkhd movie_dur (m4_w m) (m4_h m) @
            box (ascii ''mdia'')
              (put_mdhd (m4_ts m) (ucast total) @ put_hdlr @
               box (ascii ''minf'') (put_vmhd @ put_dinf @ put_stbl m)))))"

definition mp4_finish :: "bool \<Rightarrow> mp4 \<Rightarrow> int \<times> bytes" where
  "mp4_finish writes m =
     (let f = m4_file m; pos = m4_mdat_pos m;
          f = take pos f @ be32 (of_nat (length f - pos)) @ drop (pos + 4) f;
          m = m\<lparr>m4_samples := set_durs (default_dur (m4_ts m) (m4_fps m)) None (m4_samples m)\<rparr>
      in if writes then (0, f @ put_moov m) else (-1, f))"

section \<open>The fragmented MP4 muxer\<close>

record fsamp =
  fs_size :: u32
  fs_dur :: u32
  fs_key :: bool
  fs_pts :: u64

record fmp4 =
  f4_file :: bytes
  f4_codec :: int
  f4_init :: bool
  f4_w :: u32
  f4_h :: u32
  f4_ts :: u32
  f4_fps :: u32
  f4_seq :: u32
  f4_base_dt :: u64
  f4_params :: param_sets
  f4_frag :: bytes
  f4_fs :: "fsamp list"

definition fmp4_ftyp :: bytes where
  "fmp4_ftyp = box (ascii ''ftyp'') (ascii ''iso5'' @ be32 0x200 @ ascii ''iso5'' @ ascii ''iso6'' @ ascii ''mp41'' @ ascii ''dash'')"

definition fmp4_write_init :: "fmp4 \<Rightarrow> fmp4" where
  "fmp4_write_init m =
     (let c = \<lparr>mc_codec = f4_codec m, mc_params = f4_params m, mc_w = f4_w m, mc_h = f4_h m\<rparr>;
          stbl = box (ascii ''stbl'')
            (box (ascii ''stsd'') (b32s [0, 1] @ put_sample_entry c) @ box (ascii ''stts'') (b32s [0, 0]) @
             box (ascii ''stsc'') (b32s [0, 0]) @ box (ascii ''stsz'') (b32s [0, 0, 0]) @ box (ascii ''stco'') (b32s [0, 0]));
          moov = box (ascii ''moov'')
            (put_mvhd 0 @
             box (ascii ''trak'')
               (put_tkhd 0 (f4_w m) (f4_h m) @
                box (ascii ''mdia'') (put_mdhd (f4_ts m) 0 @ put_hdlr @ box (ascii ''minf'') (put_vmhd @ put_dinf @ stbl))) @
             box (ascii ''mvex'') (box (ascii ''trex'') (b32s [0, 1, 1, 0, 0, 0])))
      in m\<lparr>f4_file := f4_file m @ moov, f4_init := True\<rparr>)"

fun frag_durs :: "u32 \<Rightarrow> fsamp list \<Rightarrow> fsamp list" where
  "frag_durs def [] = []"
| "frag_durs def (s # ss) =
     (let d = (case ss of s' # _ \<Rightarrow> if fs_pts s' > fs_pts s then ucast (fs_pts s' - fs_pts s) else def | [] \<Rightarrow> def)
      in s\<lparr>fs_dur := (if d \<noteq> 0 then d else def)\<rparr> # frag_durs def ss)"

definition put_trun :: "u32 \<Rightarrow> fsamp list \<Rightarrow> bytes" where
  "put_trun doff ss = box (ascii ''trun'')
     (b32s [0x000701, of_nat (length ss), doff] @
      concat (map (\<lambda>s. b32s [fs_dur s, fs_size s, if fs_key s then 0x02000000 else 0x00010000]) ss))"

definition put_moof :: "u32 \<Rightarrow> u64 \<Rightarrow> u32 \<Rightarrow> fsamp list \<Rightarrow> bytes" where
  "put_moof seq base_dt doff ss =
     box (ascii ''moof'')
       (box (ascii ''mfhd'') (b32s [0, seq]) @
        box (ascii ''traf'')
          (box (ascii ''tfhd'') (b32s [0x020000, 1]) @
           box (ascii ''tfdt'') (b32s [0x01000000, ucast (drop_bit 32 base_dt), ucast base_dt]) @ put_trun doff ss))"

text \<open>The data offset is written as zero and patched once the length of the moof box is known.\<close>

definition fmp4_flush :: "fmp4 \<Rightarrow> fmp4" where
  "fmp4_flush m =
     (if f4_fs m = [] then m
      else let ss = frag_durs (default_dur (f4_ts m) (f4_fps m)) (f4_fs m);
          doff = of_nat (length (put_moof (f4_seq m + 1) (f4_base_dt m) 0 ss)) + 8;
          moof = put_moof (f4_seq m + 1) (f4_base_dt m) doff ss
        in m\<lparr>f4_file := f4_file m @ moof @ be32 (of_nat (length (f4_frag m) + 8)) @ ascii ''mdat'' @ f4_frag m,
             f4_seq := f4_seq m + 1, f4_base_dt := f4_base_dt m + sum_list (map (\<lambda>s. ucast (fs_dur s)) ss),
             f4_frag := [], f4_fs := []\<rparr>)"

text \<open>\<open>fmp4_nal\<close>: parameter sets are kept, slices are appended to the access unit.\<close>

definition fmp4_nal :: "int \<Rightarrow> bytes \<Rightarrow> param_sets \<times> bytes \<times> u32 \<times> bool \<Rightarrow> param_sets \<times> bytes \<times> u32 \<times> bool" where
  "fmp4_nal codec nal = (\<lambda>(p, out, size, key).
     let t = nal_type codec nal in
     if is_ps codec t then (keep_params codec nal p, out, size, key)
     else if \<not> is_vcl codec t then (p, out, size, key)
     else (p, out @ length_prefixed nal, size + 4 + of_nat (length nal), key \<or> is_key codec t))"

definition fmp4_open :: "bool \<Rightarrow> export_opt option \<Rightarrow> fmp4 option" where
  "fmp4_open opens opt =
     (if \<not> opens then None
      else Some \<lparr>f4_file = fmp4_ftyp, f4_codec = -1, f4_init = False,
        f4_w = opt_or eo_width 3840 opt, f4_h = opt_or eo_height 2160 opt, f4_ts = opt_or eo_timescale 90000 opt,
        f4_fps = opt_or eo_fps 15 opt, f4_seq = 0, f4_base_dt = 0, f4_params = no_params, f4_frag = [], f4_fs = []\<rparr>)"

definition fmp4_add :: "bytes \<Rightarrow> u64 \<Rightarrow> bool \<Rightarrow> int \<Rightarrow> fmp4 \<Rightarrow> fmp4" where
  "fmp4_add annexb pts key codec m =
     (let m = (if f4_codec m < 0 then m\<lparr>f4_codec := codec\<rparr> else m);
          (p, out, size, au_key) = fold (fmp4_nal (f4_codec m)) (for_each_nal annexb 0) (f4_params m, [], 0, False);
          m = m\<lparr>f4_params := p\<rparr>
      in if size = 0 then m
         else let kf = (au_key \<or> key);
             m = (if \<not> f4_init m \<and> ps_slen (f4_params m) > 0 then fmp4_write_init m else m);
             m = (if kf \<and> f4_fs m \<noteq> [] then fmp4_flush m else m)
           in m\<lparr>f4_frag := f4_frag m @ out, f4_fs := f4_fs m @ [\<lparr>fs_size = size, fs_dur = 0, fs_key = kf, fs_pts = pts\<rparr>]\<rparr>)"

definition fmp4_finish :: "fmp4 \<Rightarrow> int \<times> bytes" where
  "fmp4_finish m =
     (let m = (if \<not> f4_init m \<and> ps_slen (f4_params m) > 0 then fmp4_write_init m else m) in (0, f4_file (fmp4_flush m)))"

section \<open>Muxers and exports\<close>

definition RSDK_EXPORT_MP4 :: int where "RSDK_EXPORT_MP4 = 0"
definition RSDK_EXPORT_FMP4 :: int where "RSDK_EXPORT_FMP4 = 1"

record 'c rsdk_muxer =
  mx_name :: string
  mx_fmt :: int
  mx_open :: "bool \<Rightarrow> export_opt option \<Rightarrow> 'c option"
  mx_add :: "bytes \<Rightarrow> u64 \<Rightarrow> bool \<Rightarrow> int \<Rightarrow> 'c \<Rightarrow> 'c"
  mx_finish :: "bool \<Rightarrow> 'c \<Rightarrow> int \<times> bytes"

datatype 'x mux_ctx = Mp4 mp4 | Fmp4 fmp4 | Other 'x

definition MP4_MUXER :: "'x mux_ctx rsdk_muxer" where
  "MP4_MUXER = \<lparr>mx_name = ''mp4'', mx_fmt = RSDK_EXPORT_MP4, mx_open = (\<lambda>opens opt. map_option Mp4 (mp4_open opens opt)),
     mx_add = (\<lambda>b pts key codec c. case c of Mp4 m \<Rightarrow> Mp4 (mp4_add b pts key codec m) | _ \<Rightarrow> c),
     mx_finish = (\<lambda>writes c. case c of Mp4 m \<Rightarrow> mp4_finish writes m | _ \<Rightarrow> (0, []))\<rparr>"

definition FMP4_MUXER :: "'x mux_ctx rsdk_muxer" where
  "FMP4_MUXER = \<lparr>mx_name = ''fmp4'', mx_fmt = RSDK_EXPORT_FMP4, mx_open = (\<lambda>opens opt. map_option Fmp4 (fmp4_open opens opt)),
     mx_add = (\<lambda>b pts key codec c. case c of Fmp4 m \<Rightarrow> Fmp4 (fmp4_add b pts key codec m) | _ \<Rightarrow> c),
     mx_finish = (\<lambda>writes c. case c of Fmp4 m \<Rightarrow> fmp4_finish m | _ \<Rightarrow> (0, []))\<rparr>"

definition MAXMUX :: nat where "MAXMUX = 8"

definition ensure_builtin :: "'x mux_ctx rsdk_muxer list \<Rightarrow> 'x mux_ctx rsdk_muxer list" where
  "ensure_builtin reg = (if reg = [] then [MP4_MUXER, FMP4_MUXER] else reg)"

definition rsdk_backup_register :: "'x mux_ctx rsdk_muxer \<Rightarrow> 'x mux_ctx rsdk_muxer list \<Rightarrow> rsdk_err \<times> 'x mux_ctx rsdk_muxer list" where
  "rsdk_backup_register mux reg =
     (let reg = ensure_builtin reg in if MAXMUX \<le> length reg then (RSDK_E_PARAM, reg) else (RSDK_OK, reg @ [mux]))"

definition find_mux :: "int \<Rightarrow> 'x mux_ctx rsdk_muxer list \<Rightarrow> 'x mux_ctx rsdk_muxer option" where
  "find_mux fmt reg = find (\<lambda>m. mx_fmt m = fmt) (ensure_builtin reg)"

definition add_frame :: "'c rsdk_muxer \<Rightarrow> frame_hdr \<Rightarrow> bytes \<Rightarrow> 'c \<Rightarrow> 'c" where
  "add_frame mx h b c = mx_add mx b (fh_pts h) (fh_frame_type h = RSDK_FRAME_I) (uint (fh_codec h)) c"

partial_function (option) drive_loop :: "'c rsdk_muxer \<Rightarrow> rsdk_player \<Rightarrow> nat \<Rightarrow> 'c \<Rightarrow> (nat \<times> 'c) option" where
  "drive_loop mx p frames c =
     (case rsdk_play_next_frame p of
        (Inl e, p') \<Rightarrow> Some (frames, c)
      | (Inr x, p') \<Rightarrow> drive_loop mx p' (frames + 1) (add_frame mx (fst x) (snd x) c))"

definition drive :: "'c rsdk_muxer \<Rightarrow> export_opt option \<Rightarrow> bool \<Rightarrow> bool \<Rightarrow> rsdk_player \<Rightarrow> (rsdk_err \<times> bytes option) option" where
  "drive mx opt opens writes p =
     (case mx_open mx opens opt of
        None \<Rightarrow> Some (RSDK_E_IO, None)
      | Some c \<Rightarrow>
          (case drive_loop mx p 0 c of
             None \<Rightarrow> None
           | Some (frames, c) \<Rightarrow>
               (case mx_finish mx writes c of (rc, file) \<Rightarrow>
                  Some (if rc = 0 \<and> frames > 0 then RSDK_OK else if frames = 0 then RSDK_E_NOTFOUND else RSDK_E_IO, Some file))))"

definition opt_fmt :: "export_opt option \<Rightarrow> int" where
  "opt_fmt opt = (case opt of None \<Rightarrow> RSDK_EXPORT_MP4 | Some o' \<Rightarrow> eo_fmt o')"

definition rsdk_backup_export_seg ::
  "'x mux_ctx rsdk_muxer list \<Rightarrow> rsdk_dev \<Rightarrow> index_slot \<Rightarrow> export_opt option \<Rightarrow> bool \<Rightarrow> bool \<Rightarrow> (rsdk_err \<times> bytes option) option" where
  "rsdk_backup_export_seg reg d seg opt opens writes =
     (case find_mux (opt_fmt opt) reg of
        None \<Rightarrow> Some (RSDK_E_PARAM, None)
      | Some mx \<Rightarrow> drive mx opt opens writes (rsdk_play_open d seg))"

partial_function (option) export_loop ::
  "'c rsdk_muxer \<Rightarrow> rsdk_group \<Rightarrow> group_player \<Rightarrow> nat \<Rightarrow> 'c \<Rightarrow> (nat \<times> 'c) option" where
  "export_loop mx g p frames c =
     (case rsdk_group_play_next g p of
        None \<Rightarrow> None
      | Some (r, p') \<Rightarrow>
          (case r of
             Inl e \<Rightarrow> Some (frames, c)
           | Inr x \<Rightarrow> export_loop mx g p' (frames + 1) (add_frame mx (fst x) (fst (snd x)) c)))"

definition EXPORT_MAX_SEGS :: int where "EXPORT_MAX_SEGS = 256"

definition rsdk_backup_export ::
  "'x mux_ctx rsdk_muxer list \<Rightarrow> rsdk_group \<Rightarrow> u32 \<Rightarrow> u32 \<Rightarrow> int \<Rightarrow> export_opt option \<Rightarrow> bool \<Rightarrow> bool \<Rightarrow> (rsdk_err \<times> bytes option) option" where
  "rsdk_backup_export reg g t0 t1 chn opt opens writes =
     (case find_mux (opt_fmt opt) reg of
        None \<Rightarrow> Some (RSDK_E_PARAM, None)
      | Some mx \<Rightarrow>
          (let segs = rsdk_group_query g t0 t1 chn (-1) EXPORT_MAX_SEGS in
           if segs = [] then Some (RSDK_E_NOTFOUND, None)
           else (case rsdk_group_play_open g segs of
               None \<Rightarrow> None
             | Some (Inl e) \<Rightarrow> Some (e, None)
             | Some (Inr p) \<Rightarrow>
                 (case mx_open mx opens opt of
                    None \<Rightarrow> Some (RSDK_E_IO, None)
                  | Some c \<Rightarrow>
                      (case export_loop mx g p 0 c of
                         None \<Rightarrow> None
                       | Some (frames, c) \<Rightarrow>
                           (case mx_finish mx writes c of (rc, file) \<Rightarrow>
                              Some (if rc = 0 \<and> frames > 0 then RSDK_OK else RSDK_E_IO, Some file)))))))"

end
