(* ===== verification/Rsdk_Export.thy ===== *)
theory Rsdk_Export
  imports Rsdk_Backup
begin

text \<open>
  What an exported MP4 file means to a player. \<open>mp4_read\<close> is a reference reader of the file format: it walks the boxes, takes
  the sizes, the chunk offset, the durations and the sync samples from the sample tables and cuts the samples out of the
  file. The theorems say that it gets back from an export exactly the slices of the frames that went in.
\<close>

section \<open>A reader of MP4 files\<close>

definition unbe :: "bytes \<Rightarrow> u32" where "unbe b = unle (rev b)"

function boxes :: "bytes \<Rightarrow> (bytes \<times> bytes) list" where
  "boxes b =
     (let n = unat (unbe (take 4 b)) in
      if n < 8 \<or> length b < n then [] else (slice 4 4 b, slice 8 (n - 8) b) # boxes (drop n b))"
  by pat_completeness auto
termination by (relation "measure length") auto

declare boxes.simps [simp del]

definition child :: "string \<Rightarrow> bytes \<Rightarrow> bytes" where
  "child t b = (case map_of (boxes b) (ascii t) of Some x \<Rightarrow> x | None \<Rightarrow> [])"

definition word_at :: "nat \<Rightarrow> bytes \<Rightarrow> u32" where "word_at k b = unbe (slice (4 * k) 4 b)"

definition read_sizes :: "bytes \<Rightarrow> nat list" where
  "read_sizes b = map (\<lambda>k. unat (word_at (3 + k) b)) [0..<unat (word_at 2 b)]"

definition read_durs :: "bytes \<Rightarrow> u32 list" where
  "read_durs b = concat (map (\<lambda>k. replicate (unat (word_at (2 + 2 * k) b)) (word_at (3 + 2 * k) b)) [0..<unat (word_at 1 b)])"

definition read_syncs :: "bytes \<Rightarrow> nat list" where
  "read_syncs b = map (\<lambda>k. unat (word_at (2 + k) b)) [0..<unat (word_at 1 b)]"

definition mp4_read :: "bytes \<Rightarrow> (bytes \<times> u32 \<times> bool) list" where
  "mp4_read file =
     (let stbl = child ''stbl'' (child ''minf'' (child ''mdia'' (child ''trak'' (child ''moov'' file))));
          sizes = read_sizes (child ''stsz'' stbl); off = unat (word_at 2 (child ''stco'' stbl));
          durs = read_durs (child ''stts'' stbl); syncs = read_syncs (child ''stss'' stbl)
      in map (\<lambda>k. (slice (off + sum_list (take k sizes)) (sizes ! k) file, durs ! k, k + 1 \<in> set syncs)) [0..<length sizes])"

section \<open>Boxes are read back\<close>

lemma be32_le: "be32 v = rev (le 4 v)"
  by (simp add: be32_def le_def upt_rec[of _ 4] upt_rec[of _ "Suc _"] eval_nat_numeral)

lemma unbe_be32 [simp]: "unbe (be32 v) = v"
  by (simp add: unbe_def be32_le)

lemma length_ascii [simp]: "length (ascii s) = length s"
  by (simp add: ascii_def)

lemma ascii_inj [simp]: "ascii s = ascii t \<longleftrightarrow> s = t"
proof -
  have "c = d" if "(of_nat (of_char c) :: u8) = of_nat (of_char d)" for c d :: char
  proof -
    have "unat (of_nat (of_char x) :: u8) = of_char x" for x :: char
      using mod_less_divisor[of 256 "of_char x :: nat"] by (intro unat_of_nat_small) simp
    then show ?thesis using that by (metis of_char_eq_iff)
  qed
  then have "inj (\<lambda>c. of_nat (of_char c) :: u8)" by (auto intro: injI)
  then show ?thesis by (simp add: ascii_def inj_map_eq_map)
qed

lemma length_box [simp]: "length (box t b) = 4 + length t + length b"
  by (simp add: box_def)

lemma boxes_box:
  assumes "length t = 4" "8 + length b < 2 ^ 32"
  shows "boxes (box t b @ r) = (t, b) # boxes r"
proof -
  have "unat (of_nat (8 + length b) :: u32) = 8 + length b" using assms(2) by (intro unat_of_nat_small) simp
  moreover have "take 4 (box t b @ r) = be32 (of_nat (8 + length b))" by (simp add: box_def)
  ultimately have n: "unat (unbe (take 4 (box t b @ r))) = 8 + length b" by simp
  have "slice 4 4 (box t b @ r) = t" "slice 8 (length b) (box t b @ r) = b" "drop (8 + length b) (box t b @ r) = r"
    using assms(1) by (simp_all add: box_def slice_def)
  then show ?thesis using n assms(1) by (subst boxes.simps) (simp add: Let_def)
qed

lemma child_here: "length t = 4 \<Longrightarrow> 8 + length b < 2 ^ 32 \<Longrightarrow> child t (box (ascii t) b @ r) = b"
  by (simp add: child_def boxes_box)

lemma child_later: "t \<noteq> u \<Longrightarrow> length u = 4 \<Longrightarrow> 8 + length b < 2 ^ 32 \<Longrightarrow> child t (box (ascii u) b @ r) = child t r"
  by (simp add: child_def boxes_box)

lemma child_only: "length t = 4 \<Longrightarrow> 8 + length b < 2 ^ 32 \<Longrightarrow> child t (box (ascii t) b) = b"
  using child_here[of t b "[]"] by simp

lemma length_b32s [simp]: "length (b32s vs) = 4 * length vs"
  by (induction vs) (simp_all add: b32s_def)

lemma b32s_append: "b32s vs @ b32s ws = b32s (vs @ ws)"
  by (simp add: b32s_def)

lemma b32s_Cons: "be32 v @ b32s vs = b32s (v # vs)"
  by (simp add: b32s_def)

lemma word_at_b32s: "k < length vs \<Longrightarrow> word_at k (b32s vs) = vs ! k"
proof (induction vs arbitrary: k)
  case (Cons v vs)
  show ?case
  proof (cases k)
    case 0
    then show ?thesis by (simp add: word_at_def b32s_def slice_def)
  next
    case (Suc j)
    have "slice (4 * Suc j) 4 (b32s (v # vs)) = slice (4 * j) 4 (b32s vs)" by (simp add: b32s_def slice_def)
    then show ?thesis using Cons Suc by (simp add: word_at_def)
  qed
qed simp

lemma pairs_words: "concat (map (\<lambda>(c, d). be32 (of_nat c) @ be32 d) runs) = b32s (concat (map (\<lambda>(c, d). [of_nat c, d]) runs))"
  by (induction runs) (auto simp: b32s_def)

lemma pairs_nth: "k < length runs \<Longrightarrow> concat (map (\<lambda>(c, d). [of_nat c, d]) runs) ! (2 * k) = of_nat (fst (runs ! k)) \<and>
   concat (map (\<lambda>(c, d). [of_nat c, d]) runs) ! (Suc (2 * k)) = (snd (runs ! k) :: u32)"
proof (induction runs arbitrary: k)
  case (Cons r runs)
  then show ?case by (cases r; cases k) auto
qed simp

lemma length_pairs: "length (concat (map (\<lambda>(c, d). [of_nat c, d]) runs)) = 2 * length (runs :: (nat \<times> u32) list)"
  by (induction runs) auto

section \<open>The tables are read back\<close>

lemma runs_expand: "concat (map (\<lambda>(c, d). replicate c d) (dur_runs ds)) = ds"
proof (induction ds rule: dur_runs.induct)
  case (2 d ds)
  have "replicate (length (takeWhile (\<lambda>e. e = d) ds)) d = takeWhile (\<lambda>e. e = d) ds"
    by (induction ds) auto
  then show ?case using 2 by (simp add: Let_def)
qed simp

lemma runs_length: "length (dur_runs ds) \<le> length ds" "(c, d) \<in> set (dur_runs ds) \<Longrightarrow> c \<le> length ds"
proof (induction ds rule: dur_runs.induct)
  case (2 e ds)
  have l: "length (dropWhile (\<lambda>x. x = e) ds) \<le> length ds" "length (takeWhile (\<lambda>x. x = e) ds) \<le> length ds"
    by (simp_all add: length_dropWhile_le length_takeWhile_le)
  { case 1 show ?case using "2.IH"(1)[OF refl] l by (simp add: Let_def) }
  { case 2 then show ?case using "2.IH"(2)[OF refl] l by (auto simp: Let_def) }
qed simp_all

lemma stts_read:
  assumes "length ss < 2 ^ 32"
  shows "read_durs (b32s [0, of_nat (length (dur_runs (map sm_dur ss)))] @ concat (map (\<lambda>(c, d). be32 (of_nat c) @ be32 d) (dur_runs (map sm_dur ss)))) = map sm_dur ss"
proof -
  let ?runs = "dur_runs (map sm_dur ss)"
  let ?b = "b32s ([0, of_nat (length ?runs)] @ concat (map (\<lambda>(c, d). [of_nat c, d]) ?runs))"
  have n: "length ?runs < 2 ^ 32" using runs_length(1)[of "map sm_dur ss"] assms by simp
  have w1: "word_at 1 ?b = of_nat (length ?runs)" by (subst word_at_b32s) simp_all
  have w: "word_at (2 + 2 * k) ?b = of_nat (fst (?runs ! k))" "word_at (3 + 2 * k) ?b = snd (?runs ! k)" if "k < length ?runs" for k
    using that pairs_nth[OF that] length_pairs[of ?runs] by (subst word_at_b32s; simp)+
  have c: "unat (of_nat (fst (?runs ! k)) :: u32) = fst (?runs ! k)" if "k < length ?runs" for k
    using runs_length(2)[of "fst (?runs ! k)" "snd (?runs ! k)" "map sm_dur ss"] that assms by (intro unat_of_nat_small) (simp add: nth_mem)
  have eq: "replicate (unat (word_at (2 + 2 * k) ?b)) (word_at (3 + 2 * k) ?b) = replicate (fst (?runs ! k)) (snd (?runs ! k))"
    if "k < length ?runs" for k by (simp only: w[OF that] c[OF that])
  have u: "unat (word_at 1 ?b) = length ?runs" unfolding w1 using n by (intro unat_of_nat_small) simp
  have "read_durs ?b = concat (map (\<lambda>k. replicate (fst (?runs ! k)) (snd (?runs ! k))) [0..<length ?runs])"
    unfolding read_durs_def u by (rule arg_cong[where f = concat], rule map_cong[OF refl], rule eq) simp
  also have "map (\<lambda>k. replicate (fst (?runs ! k)) (snd (?runs ! k))) [0..<length ?runs] = map (\<lambda>(c, d). replicate c d) ?runs"
    by (intro nth_equalityI) (simp_all add: case_prod_beta)
  finally show ?thesis by (simp add: pairs_words b32s_append runs_expand)
qed

lemma counted_read:
  assumes "length vs < 2 ^ 32"
  shows "map (\<lambda>k. unat (word_at (length h + 1 + k) (b32s (h @ [of_nat (length vs)] @ vs)))) [0..<unat (word_at (length h) (b32s (h @ [of_nat (length vs)] @ vs)))] = map unat vs"
proof -
  have n: "unat (of_nat (length vs) :: u32) = length vs" using assms by (intro unat_of_nat_small) simp
  have "word_at (length h) (b32s (h @ [of_nat (length vs)] @ vs)) = of_nat (length vs)" by (subst word_at_b32s) simp_all
  moreover have "word_at (length h + 1 + k) (b32s (h @ [of_nat (length vs)] @ vs)) = vs ! k" if "k < length vs" for k
    using that by (subst word_at_b32s) (simp_all add: nth_append)
  ultimately show ?thesis using n by (intro nth_equalityI) simp_all
qed

section \<open>What the muxer writes\<close>

type_synonym frame_in = "bytes \<times> u64 \<times> bool \<times> int"

definition vcl_nals :: "int \<Rightarrow> bytes \<Rightarrow> bytes list" where
  "vcl_nals c b = filter (\<lambda>n. is_vcl c (nal_type c n)) (for_each_nal b 0)"

text \<open>The slices of a frame with their lengths, whether it is a sync sample, and its time stamp; frames without slices give no sample.\<close>

definition sample_of :: "int \<Rightarrow> frame_in \<Rightarrow> bytes \<times> bool \<times> u64" where
  "sample_of c = (\<lambda>(b, pts, key, codec).
     (concat (map length_prefixed (vcl_nals c b)), key \<or> list_ex (\<lambda>n. is_key c (nal_type c n)) (vcl_nals c b), pts))"

definition samples_of :: "int \<Rightarrow> frame_in list \<Rightarrow> (bytes \<times> bool \<times> u64) list" where
  "samples_of c fs = map (sample_of c) (filter (\<lambda>(b, pts, key, codec). vcl_nals c b \<noteq> []) fs)"

fun sample_table :: "nat \<Rightarrow> (bytes \<times> bool \<times> u64) list \<Rightarrow> samp list" where
  "sample_table pos [] = []"
| "sample_table pos ((d, k, t) # us) =
     \<lparr>sm_off = of_nat pos, sm_size = of_nat (length d), sm_dur = 0, sm_key = k, sm_pts = t\<rparr> # sample_table (pos + length d) us"

definition sample_bytes :: "(bytes \<times> bool \<times> u64) list \<Rightarrow> bytes" where "sample_bytes us = concat (map fst us)"

lemma sample_bytes_simps [simp]:
  "sample_bytes [] = []" "sample_bytes (u # us) = fst u @ sample_bytes us" "sample_bytes (us @ vs) = sample_bytes us @ sample_bytes vs"
  by (simp_all add: sample_bytes_def)

lemma sample_table_append: "sample_table pos (us @ vs) = sample_table pos us @ sample_table (pos + length (sample_bytes us)) vs"
  by (induction pos us rule: sample_table.induct) (simp_all add: add.assoc)

lemma length_sample_table [simp]: "length (sample_table pos us) = length us"
  by (induction pos us rule: sample_table.induct) simp_all

lemma vcl_not_ps: "is_vcl c t \<Longrightarrow> \<not> is_ps c t"
  by (auto simp: is_vcl_def is_ps_def split: if_splits)

definition after_nals :: "bytes list \<Rightarrow> param_sets \<Rightarrow> mp4 \<Rightarrow> auctx \<Rightarrow> mp4 \<times> auctx" where
  "after_nals V p m a =
     (m\<lparr>m4_file := m4_file m @ concat (map length_prefixed V), m4_params := p\<rparr>,
      \<lparr>au_off = (if au_started a \<or> V = [] then au_off a else of_nat (length (m4_file m))),
       au_size = au_size a + of_nat (length (concat (map length_prefixed V))),
       au_key = (au_key a \<or> list_ex (\<lambda>n. is_key (m4_codec m) (nal_type (m4_codec m) n)) V), au_started = (au_started a \<or> V \<noteq> [])\<rparr>)"

lemma nal_fold:
  "\<exists>p. fold nal_cb ns (m, a) = after_nals (filter (\<lambda>n. is_vcl (m4_codec m) (nal_type (m4_codec m) n)) ns) p m a"
proof (induction ns arbitrary: m a)
  case Nil
  show ?case by (intro exI[of _ "m4_params m"]) (simp add: after_nals_def)
next
  case (Cons n ns)
  let ?t = "nal_type (m4_codec m) n"
  consider "is_ps (m4_codec m) ?t" "\<not> is_vcl (m4_codec m) ?t" | "\<not> is_ps (m4_codec m) ?t" "\<not> is_vcl (m4_codec m) ?t"
    | "\<not> is_ps (m4_codec m) ?t" "is_vcl (m4_codec m) ?t" using vcl_not_ps by blast
  then show ?case
  proof cases
    case 1
    define m' where "m' = m\<lparr>m4_params := keep_params (m4_codec m) n (m4_params m)\<rparr>"
    have "nal_cb n (m, a) = (m', a)" using 1 by (simp add: nal_cb_def Let_def m'_def)
    moreover obtain p where "fold nal_cb ns (m', a) = after_nals (filter (\<lambda>n. is_vcl (m4_codec m) (nal_type (m4_codec m) n)) ns) p m' a"
      using Cons.IH[of m' a] by (auto simp: m'_def)
    ultimately show ?thesis using 1 by (intro exI[of _ p]) (simp add: after_nals_def m'_def)
  next
    case 2
    then have "nal_cb n (m, a) = (m, a)" by (simp add: nal_cb_def Let_def)
    then show ?thesis using 2 Cons.IH[of m a] by simp
  next
    case 3
    define a' where "a' = (let a = (if au_started a then a else a\<lparr>au_off := of_nat (length (m4_file m)), au_started := True\<rparr>)
      in a\<lparr>au_size := au_size a + 4 + of_nat (length n), au_key := au_key a \<or> is_key (m4_codec m) ?t\<rparr>)"
    define m' where "m' = m\<lparr>m4_file := m4_file m @ length_prefixed n\<rparr>"
    have "nal_cb n (m, a) = (m', a')" using 3 by (simp add: nal_cb_def Let_def m'_def a'_def)
    moreover obtain p where "fold nal_cb ns (m', a') = after_nals (filter (\<lambda>n. is_vcl (m4_codec m) (nal_type (m4_codec m) n)) ns) p m' a'"
      using Cons.IH[of m' a'] by (auto simp: m'_def)
    ultimately show ?thesis using 3
      by (intro exI[of _ p]) (simp add: after_nals_def Let_def m'_def a'_def length_prefixed_def algebra_simps)
  qed
qed

definition mp4_head :: bytes where "mp4_head = mp4_ftyp @ be32 0 @ ascii ''mdat''"

text \<open>The state of the muxer after the frames of the list.\<close>

definition mp4_inv :: "int \<Rightarrow> (bytes \<times> bool \<times> u64) list \<Rightarrow> mp4 \<Rightarrow> bool" where
  "mp4_inv c us m \<longleftrightarrow> m4_codec m = c \<and> m4_mdat_pos m = length mp4_ftyp \<and> m4_file m = mp4_head @ sample_bytes us \<and>
     m4_samples m = sample_table (length mp4_head) us"

definition mp4_frame :: "frame_in \<Rightarrow> mp4 \<Rightarrow> mp4" where "mp4_frame = (\<lambda>(b, pts, key, codec). mp4_add b pts key codec)"

lemma mp4_add_inv:
  assumes "mp4_inv c us m" "0 \<le> c"
  shows "mp4_inv c (us @ samples_of c [f]) (mp4_frame f m)"
proof -
  obtain b pts key codec where f: "f = (b, pts, key, codec)" by (cases f)
  have c: "m4_codec m = c" "\<not> m4_codec m < 0" using assms by (simp_all add: mp4_inv_def)
  obtain p where p: "fold nal_cb (for_each_nal b 0) (m, \<lparr>au_off = 0, au_size = 0, au_key = False, au_started = False\<rparr>) =
      after_nals (vcl_nals c b) p m \<lparr>au_off = 0, au_size = 0, au_key = False, au_started = False\<rparr>"
    using nal_fold[of "for_each_nal b 0" m] c(1) by (auto simp: vcl_nals_def)
  show ?thesis using assms(1) c p
    by (simp add: f mp4_frame_def mp4_add_def mp4_inv_def samples_of_def sample_of_def after_nals_def Let_def sample_table_append disj_commute)
qed

lemma samples_of_simps: "samples_of c [] = []" "samples_of c (f # fs) = samples_of c [f] @ samples_of c fs"
  by (simp_all add: samples_of_def)

lemma mp4_run_inv:
  "mp4_inv c us m \<Longrightarrow> 0 \<le> c \<Longrightarrow> mp4_inv c (us @ samples_of c fs) (fold mp4_frame fs m)"
proof (induction fs arbitrary: us m)
  case (Cons f fs)
  then show ?case using mp4_add_inv[of c us m f] Cons.IH[of "us @ samples_of c [f]"] by (simp add: samples_of_simps(2)[of c f fs])
qed (simp add: samples_of_simps)

lemma mp4_first:
  assumes "mp4_open True opt = Some m" "fs \<noteq> []" "c = snd (snd (snd (hd fs)))" "0 \<le> c"
  shows "mp4_inv c (samples_of c fs) (fold mp4_frame fs m)" "m4_ts (fold mp4_frame fs m) = m4_ts m" "m4_fps (fold mp4_frame fs m) = m4_fps m"
proof -
  obtain f gs where fs: "fs = f # gs" using assms(2) by (cases fs) auto
  obtain b pts key where f: "f = (b, pts, key, c)" using assms(3) fs by (cases f) auto
  have m: "m4_codec m = -1" "m = m\<lparr>m4_codec := -1\<rparr>" using assms(1) by (auto simp: mp4_open_def)
  have "mp4_frame f m = mp4_frame f (m\<lparr>m4_codec := c\<rparr>)" using assms(4) m(1) by (simp add: f mp4_frame_def mp4_add_def Let_def)
  then have "fold mp4_frame fs m = fold mp4_frame fs (m\<lparr>m4_codec := c\<rparr>)" by (simp add: fs)
  moreover have "mp4_inv c [] (m\<lparr>m4_codec := c\<rparr>)" using assms(1) by (auto simp: mp4_open_def mp4_inv_def mp4_head_def)
  ultimately show "mp4_inv c (samples_of c fs) (fold mp4_frame fs m)" using mp4_run_inv[of c "[]" _ fs] assms(4) by simp
  have keep: "m4_ts (mp4_frame f m) = m4_ts m \<and> m4_fps (mp4_frame f m) = m4_fps m" for f m
  proof -
    obtain b pts key codec where f: "f = (b, pts, key, codec)" by (cases f)
    let ?m = "if m4_codec m < 0 then m\<lparr>m4_codec := codec\<rparr> else m"
    obtain p V where "fold nal_cb (for_each_nal b 0) (?m, \<lparr>au_off = 0, au_size = 0, au_key = False, au_started = False\<rparr>) =
        after_nals V p ?m \<lparr>au_off = 0, au_size = 0, au_key = False, au_started = False\<rparr>"
      using nal_fold[of "for_each_nal b 0" ?m] by blast
    then show ?thesis by (simp add: f mp4_frame_def mp4_add_def Let_def after_nals_def)
  qed
  show "m4_ts (fold mp4_frame fs m) = m4_ts m" "m4_fps (fold mp4_frame fs m) = m4_fps m"
    using keep by (induction fs arbitrary: m; simp)+
qed

section \<open>Reading back what was written\<close>

definition finished :: "mp4 \<Rightarrow> mp4" where
  "finished m = m\<lparr>m4_samples := set_durs (default_dur (m4_ts m) (m4_fps m)) None (m4_samples m)\<rparr>"

lemma finish_file:
  assumes "mp4_inv c us m"
  shows "mp4_finish True m = (0, mp4_ftyp @ box (ascii ''mdat'') (sample_bytes us) @ put_moov (finished m))"
proof -
  have "m4_file m = mp4_ftyp @ be32 0 @ ascii ''mdat'' @ sample_bytes us" "m4_mdat_pos m = length mp4_ftyp"
    using assms by (simp_all add: mp4_inv_def mp4_head_def)
  then show ?thesis by (simp add: mp4_finish_def finished_def Let_def box_def)
qed

lemma set_durs_keeps:
  "length (set_durs def prev ss) = length ss"
  "map sm_off (set_durs def prev ss) = map sm_off ss" "map sm_size (set_durs def prev ss) = map sm_size ss"
  "map sm_key (set_durs def prev ss) = map sm_key ss" "map sm_pts (set_durs def prev ss) = map sm_pts ss"
  by (induction def prev ss rule: set_durs.induct) (simp_all add: Let_def)

lemma sample_table_fields:
  "map sm_size (sample_table pos us) = map (\<lambda>u. of_nat (length (fst u))) us" "map sm_key (sample_table pos us) = map (\<lambda>u. fst (snd u)) us"
  "map sm_pts (sample_table pos us) = map (\<lambda>u. snd (snd u)) us" "us \<noteq> [] \<Longrightarrow> sm_off (hd (sample_table pos us)) = of_nat pos"
  by (induction pos us rule: sample_table.induct) simp_all

definition stbl_body :: "mp4 \<Rightarrow> bytes" where
  "stbl_body m = (let ss = m4_samples m in
     box (ascii ''stsd'') (b32s [0, 1] @ put_sample_entry (cfg_from_mp4 m)) @ put_stts ss @ put_stss ss @ put_stsc ss @ put_stsz ss @ put_stco ss)"

lemma stbl_found:
  assumes "length (put_moov m) < 2 ^ 32"
  shows "child ''stbl'' (child ''minf'' (child ''mdia'' (child ''trak'' (child ''moov'' (put_moov m))))) = stbl_body m"
    "length (stbl_body m) + 8 \<le> length (put_moov m)"
proof -
  define x where "x = put_vmhd @ put_dinf @ box (ascii ''stbl'') (stbl_body m)"
  define total where "total = total_dur (m4_samples m)"
  define dur where "dur = (ucast (total * 1000 div ucast (if m4_ts m \<noteq> 0 then m4_ts m else 1)) :: u32)"
  define y where "y = put_mdhd (m4_ts m) (ucast total) @ put_hdlr @ box (ascii ''minf'') x"
  define z where "z = put_tkhd dur (m4_w m) (m4_h m) @ box (ascii ''mdia'') y"
  have m: "put_moov m = box (ascii ''moov'') (put_mvhd dur @ box (ascii ''trak'') z)"
    by (simp add: put_moov_def put_stbl_def stbl_body_def x_def y_def z_def dur_def total_def Let_def)
  have l: "length (put_moov m) = 16 + length (put_mvhd dur) + length z" "length z = length (put_tkhd dur (m4_w m) (m4_h m)) + 8 + length y"
    "length y = length (put_mdhd (m4_ts m) (ucast total)) + length put_hdlr + 8 + length x"
    "length x = length put_vmhd + length put_dinf + 8 + length (stbl_body m)"
    by (simp_all add: m x_def y_def z_def)
  show "length (stbl_body m) + 8 \<le> length (put_moov m)" using l by linarith
  have b: "8 + length (stbl_body m) < 2 ^ 32" "8 + length x < 2 ^ 32" "8 + length y < 2 ^ 32" "8 + length z < 2 ^ 32"
    "8 + length (put_mvhd dur @ box (ascii ''trak'') z) < 2 ^ 32"
    using assms l by simp_all
  have "child ''moov'' (put_moov m) = put_mvhd dur @ box (ascii ''trak'') z" using b(5) by (simp add: m child_only)
  moreover have "child ''trak'' (put_mvhd dur @ box (ascii ''trak'') z) = z"
    using b(4) by (simp add: put_mvhd_def child_later child_only IDENTITY_def)
  moreover have "child ''mdia'' z = y" using b(3) by (simp add: z_def put_tkhd_def child_later child_only IDENTITY_def)
  moreover have "child ''minf'' y = x" using b(2) by (simp add: y_def put_mdhd_def put_hdlr_def child_later child_only)
  moreover have "child ''stbl'' x = stbl_body m"
    using b(1) by (simp add: x_def put_vmhd_def put_dinf_def put_url_def child_later child_only)
  ultimately show "child ''stbl'' (child ''minf'' (child ''mdia'' (child ''trak'' (child ''moov'' (put_moov m))))) = stbl_body m" by simp
qed

lemma tables_found:
  assumes "8 + length (stbl_body m) < 2 ^ 32"
  defines "ss \<equiv> m4_samples m"
  shows "child ''stts'' (stbl_body m) = b32s [0, of_nat (length (dur_runs (map sm_dur ss)))] @ concat (map (\<lambda>(c, d). be32 (of_nat c) @ be32 d) (dur_runs (map sm_dur ss)))"
    "child ''stss'' (stbl_body m) = b32s ([0] @ [of_nat (length (sync_numbers ss))] @ map of_nat (sync_numbers ss))"
    "child ''stsz'' (stbl_body m) = b32s ([0, 0] @ [of_nat (length ss)] @ map sm_size ss)"
    "child ''stco'' (stbl_body m) = b32s [0, 1, if ss = [] then 0 else sm_off (hd ss)]"
    "4 * length ss < 2 ^ 32"
proof -
  define e where "e = b32s [0, 1] @ put_sample_entry (cfg_from_mp4 m)"
  define tt where "tt = b32s [0, of_nat (length (dur_runs (map sm_dur ss)))] @ concat (map (\<lambda>(c, d). be32 (of_nat c) @ be32 d) (dur_runs (map sm_dur ss)))"
  define sy where "sy = b32s ([0] @ [of_nat (length (sync_numbers ss))] @ map of_nat (sync_numbers ss))"
  define sc where "sc = b32s [0, 1, 1, of_nat (length ss), 1]"
  define sz where "sz = b32s ([0, 0] @ [of_nat (length ss)] @ map sm_size ss)"
  define co where "co = b32s [0, 1, if ss = [] then 0 else sm_off (hd ss)]"
  have b: "stbl_body m = box (ascii ''stsd'') e @ box (ascii ''stts'') tt @ box (ascii ''stss'') sy @ box (ascii ''stsc'') sc @
      box (ascii ''stsz'') sz @ box (ascii ''stco'') co"
    by (simp add: stbl_body_def e_def tt_def sy_def sc_def sz_def co_def ss_def put_stts_def put_stss_def put_stsc_def put_stsz_def put_stco_def
        Let_def b32s_def)
  have l: "8 + length e < 2 ^ 32" "8 + length tt < 2 ^ 32" "8 + length sy < 2 ^ 32" "8 + length sc < 2 ^ 32" "8 + length sz < 2 ^ 32"
    "8 + length co < 2 ^ 32"
    using assms(1) by (simp_all add: b)
  show "child ''stts'' (stbl_body m) = tt" "child ''stss'' (stbl_body m) = sy" "child ''stsz'' (stbl_body m) = sz" "child ''stco'' (stbl_body m) = co"
    using l by (simp_all add: b child_later child_here child_only)
  show "4 * length ss < 2 ^ 32" using l(5) by (simp add: sz_def)
qed

lemma in_sync_numbers: "k < length ss \<Longrightarrow> Suc k \<in> set (sync_numbers ss) \<longleftrightarrow> sm_key (ss ! k)"
  by (auto simp: sync_numbers_def)

lemma sync_numbers_bound: "n \<in> set (sync_numbers ss) \<Longrightarrow> n \<le> length ss" "length (sync_numbers ss) \<le> length ss"
  using length_filter_le[of "\<lambda>j. sm_key (ss ! j)" "[0..<length ss]"] by (auto simp: sync_numbers_def)

lemma cut_sample:
  "k < length us \<Longrightarrow> slice (length h + sum_list (take k (map (\<lambda>u. length (fst u)) us))) (length (fst (us ! k))) (h @ sample_bytes us @ r) = fst (us ! k)"
proof (induction us arbitrary: h k)
  case (Cons u us)
  show ?case
  proof (cases k)
    case 0
    then show ?thesis by (simp add: slice_def)
  next
    case (Suc j)
    then show ?thesis using Cons.IH[of j "h @ fst u"] Cons.prems by (simp add: add.assoc)
  qed
qed simp

lemma length_sample_bytes: "u \<in> set us \<Longrightarrow> length (fst u) \<le> length (sample_bytes us)"
  by (induction us) auto

lemma length_ftyp [simp]: "length mp4_ftyp = 32"
  by (simp add: mp4_ftyp_def)

lemma read_finished:
  assumes "mp4_inv c us m" "mp4_finish True m = (rc, file)" "length file < 2 ^ 32"
  shows "rc = 0" "mp4_read file = map2 (\<lambda>(d, k, t) s. (d, sm_dur s, k)) us (m4_samples (finished m))"
proof -
  define ss where "ss = m4_samples (finished m)"
  have f: "file = mp4_ftyp @ box (ascii ''mdat'') (sample_bytes us) @ put_moov (finished m)" and "rc = 0"
    using finish_file[OF assms(1)] assms(2) by simp_all
  then show "rc = 0" by blast
  have sb: "length (sample_bytes us) + 8 < 2 ^ 32" "length (put_moov (finished m)) < 2 ^ 32" using assms(3) f by simp_all
  have "child ''moov'' file = child ''moov'' (put_moov (finished m))"
    using sb by (simp add: f mp4_ftyp_def child_later)
  then have stbl: "child ''stbl'' (child ''minf'' (child ''mdia'' (child ''trak'' (child ''moov'' file)))) = stbl_body (finished m)"
    using stbl_found(1)[OF sb(2)] by simp
  have "8 + length (stbl_body (finished m)) < 2 ^ 32" using stbl_found(2)[OF sb(2)] sb(2) by simp
  note T = tables_found[OF this, folded ss_def]
  have tab: "m4_samples m = sample_table 40 us" using assms(1) by (simp add: mp4_inv_def mp4_head_def)
  have ssf: "map sm_size ss = map (\<lambda>u. of_nat (length (fst u))) us" "map sm_key ss = map (\<lambda>u. fst (snd u)) us" "length ss = length us"
    by (simp_all add: ss_def finished_def tab set_durs_keeps sample_table_fields)
  have ssoff: "sm_off (hd ss) = 40" if "us \<noteq> []"
  proof -
    have "map sm_off ss = map sm_off (sample_table 40 us)" by (simp add: ss_def finished_def tab set_durs_keeps)
    moreover have "ss \<noteq> []" "sample_table 40 us \<noteq> []" using that ssf(3) length_sample_table[of 40 us] by (metis length_0_conv)+
    ultimately have "sm_off (hd ss) = sm_off (hd (sample_table 40 us))" by (metis hd_map)
    then show ?thesis using that sample_table_fields(4)[of us 40] by simp
  qed
  have lens: "unat (of_nat (length (fst u)) :: u32) = length (fst u)" if "u \<in> set us" for u
    using length_sample_bytes[OF that] sb(1) by (intro unat_of_nat_small) simp
  have n32: "length us < 2 ^ 32" using T(5) ssf(3) by simp
  have "read_sizes (child ''stsz'' (stbl_body (finished m))) = map unat (map sm_size ss)"
    using counted_read[of "map sm_size ss" "[0, 0]"] n32 ssf(3) unfolding T(3) read_sizes_def by (simp add: numeral_3_eq_3 numeral_2_eq_2)
  then have sizes: "read_sizes (child ''stsz'' (stbl_body (finished m))) = map (\<lambda>u. length (fst u)) us"
    using lens by (simp add: ssf(1))
  have durs: "read_durs (child ''stts'' (stbl_body (finished m))) = map sm_dur ss"
    unfolding T(1) using n32 ssf(3) by (intro stts_read) simp
  have "read_syncs (child ''stss'' (stbl_body (finished m))) = map unat (map of_nat (sync_numbers ss) :: u32 list)"
    using counted_read[of "map of_nat (sync_numbers ss)" "[0]"] sync_numbers_bound(2)[of ss] n32 ssf(3)
    unfolding T(2) read_syncs_def by (simp add: numeral_2_eq_2)
  moreover have "unat (of_nat k :: u32) = k" if "k \<in> set (sync_numbers ss)" for k
    using sync_numbers_bound(1)[OF that] n32 ssf(3) by (intro unat_of_nat_small) simp
  ultimately have syncs: "set (read_syncs (child ''stss'' (stbl_body (finished m)))) = set (sync_numbers ss)" by (force simp: image_iff)
  have off: "unat (word_at 2 (child ''stco'' (stbl_body (finished m)))) = 40" if "us \<noteq> []"
    unfolding T(4) using ssf(3) ssoff that by (subst word_at_b32s) auto
  have keys: "sm_key (ss ! k) = fst (snd (us ! k))" if "k < length us" for k
    using that ssf(2,3) by (metis nth_map)
  have whole: "file = (mp4_ftyp @ be32 (of_nat (8 + length (sample_bytes us))) @ ascii ''mdat'') @ sample_bytes us @ put_moov (finished m)"
    by (simp add: f box_def)
  have cut: "slice (40 + sum_list (take k (map (\<lambda>u. length (fst u)) us))) (length (fst (us ! k))) file = fst (us ! k)" if "k < length us" for k
    using cut_sample[OF that, of "mp4_ftyp @ be32 (of_nat (8 + length (sample_bytes us))) @ ascii ''mdat''" "put_moov (finished m)"] whole by simp
  show "mp4_read file = map2 (\<lambda>(d, k, t) s. (d, sm_dur s, k)) us (m4_samples (finished m))"
  proof (cases "us = []")
    case False
    show ?thesis
      unfolding mp4_read_def Let_def stbl sizes durs syncs off[OF False] ss_def[symmetric]
      by (intro nth_equalityI) (simp_all add: cut ssf(3) in_sync_numbers keys case_prod_beta)
  qed (simp add: mp4_read_def Let_def stbl sizes)
qed

text \<open>The durations of the samples, as the time line a player makes of them: with increasing time stamps the samples begin
  where their time stamps say, relative to the first.\<close>

lemma narrow_widen: "x < 2 ^ 32 \<Longrightarrow> ucast (ucast x :: u32) = (x :: u64)"
proof -
  assume "x < 2 ^ 32"
  then have "unat x < 2 ^ 32" by (simp add: word_less_nat_alt)
  then show ?thesis by (simp add: word_unat_eq_iff unsigned_ucast_eq unsigned_take_bit_eq take_bit_nat_eq_self)
qed

lemma increasing_durs:
  assumes "sorted_wrt (<) (map sm_pts ss)" "\<forall>k. Suc k < length ss \<longrightarrow> sm_pts (ss ! Suc k) - sm_pts (ss ! k) < 2 ^ 32" "Suc k < length ss"
  shows "ucast (sm_dur (set_durs def prev ss ! k)) = sm_pts (ss ! Suc k) - sm_pts (ss ! k)"
  using assms
proof (induction ss arbitrary: k prev)
  case (Cons s ss)
  obtain s' rest where ss: "ss = s' # rest" using Cons.prems(3) by (cases ss) auto
  show ?case
  proof (cases k)
    case 0
    have lt: "sm_pts s < sm_pts s'" using Cons.prems(1) ss by simp
    have d: "sm_pts s' - sm_pts s < 2 ^ 32" using Cons.prems(2)[rule_format, of 0] ss by simp
    then have u: "ucast (ucast (sm_pts s' - sm_pts s) :: u32) = sm_pts s' - sm_pts s"
      by (rule narrow_widen)
    have "sm_pts s' - sm_pts s \<noteq> 0" using lt by auto
    then have "(ucast (sm_pts s' - sm_pts s) :: u32) \<noteq> 0" using u by (metis unsigned_0)
    then show ?thesis using lt u ss 0 by (simp add: Let_def)
  next
    case (Suc j)
    have "sm_pts (ss ! Suc i) - sm_pts (ss ! i) < 2 ^ 32" if "Suc i < length ss" for i
      using Cons.prems(2)[rule_format, of "Suc i"] that by simp
    then show ?thesis using Cons.IH[of j] Cons.prems Suc by (simp add: Let_def)
  qed
qed simp

end
