(* ===== verification/Rsdk_Export_Play.thy ===== *)
theory Rsdk_Export_Play
  imports Rsdk_Export Rsdk_Group_Loop
begin

text \<open>
  The whole export: the segments that the query finds, played by the group player into the MP4 muxer, give a file from
  which the reader of Rsdk\_Export gets back the slices of the recorded frames.
\<close>

section \<open>The loop\<close>

definition fed :: "rsdk_frame \<Rightarrow> frame_in" where
  "fed f = (fr_data f, fr_pts f, fr_frame_type f = RSDK_FRAME_I, uint (fr_codec f))"

definition export_feed :: "'c rsdk_muxer \<Rightarrow> rsdk_frame \<Rightarrow> nat \<times> 'c \<Rightarrow> nat \<times> 'c" where
  "export_feed mx f = (\<lambda>(n, c). (n + 1, mx_add mx (fr_data f) (fr_pts f) (fr_frame_type f = RSDK_FRAME_I) (uint (fr_codec f)) c))"

lemma add_frame_delivered: "(n + 1, add_frame mx h b c) = export_feed mx (delivered (h, b)) (n, c)"
  by (simp add: add_frame_def export_feed_def delivered_def)

interpretation ex: group_client g "\<lambda>p (n, c). export_loop mx g p n c" "export_feed mx" "\<lambda>x. x" for g mx
proof
  fix p x p' and c :: "nat \<times> 'a" assume "rsdk_group_play_next g p = Some (Inr x, p')"
  then show "(case c of (n, c) \<Rightarrow> export_loop mx g p n c) =
      (case export_feed mx (delivered (fst x, fst (snd x))) c of (n, c) \<Rightarrow> export_loop mx g p' n c)"
    by (cases c) (simp add: export_loop.simps[of mx g p] add_frame_delivered[symmetric])
next
  fix p e p' and c :: "nat \<times> 'a" assume "rsdk_group_play_next g p = Some (Inl e, p')"
  then show "(case c of (n, c) \<Rightarrow> export_loop mx g p n c) = Some c" by (cases c) (simp add: export_loop.simps[of mx g p])
next
  fix p p' and c :: "nat \<times> 'a" assume "rsdk_group_play_next g p = rsdk_group_play_next g p'"
  then show "(case c of (n, c) \<Rightarrow> export_loop mx g p n c) = (case c of (n, c) \<Rightarrow> export_loop mx g p' n c)"
    by (cases c) (simp add: export_loop.simps[of mx g p] export_loop.simps[of mx g p'])
qed

lemma fold_export_feed: "fold (export_feed MP4_MUXER) fs (n, Mp4 m) = (n + length fs, Mp4 (fold mp4_frame (map fed fs) m))"
  by (induction fs arbitrary: n m) (simp_all add: export_feed_def MP4_MUXER_def mp4_frame_def fed_def)

section \<open>How long the file is\<close>

text \<open>The parameter sets stay within their arrays.\<close>

definition params_fit :: "param_sets \<Rightarrow> bool" where
  "params_fit p \<longleftrightarrow> length (ps_vps p) = 512 \<and> length (ps_sps p) = 512 \<and> length (ps_pps p) = 512"

lemma keep_params_fit: "params_fit p \<Longrightarrow> params_fit (keep_params c nal p)"
  by (auto simp: params_fit_def keep_params_def set_vps_def set_sps_def set_pps_def memcpy_def Let_def)

lemma nal_fold_fit: "params_fit (m4_params m) \<Longrightarrow> params_fit (m4_params (fst (fold nal_cb ns (m, a))))"
proof (induction ns arbitrary: m a)
  case (Cons n ns)
  obtain m' a' where n: "nal_cb n (m, a) = (m', a')" by fastforce
  have "params_fit (m4_params m')" using Cons.prems n keep_params_fit
    by (auto simp: nal_cb_def Let_def split: if_splits)
  then show ?case using Cons.IH n by simp
qed simp

lemma mp4_run_fit: "params_fit (m4_params m) \<Longrightarrow> params_fit (m4_params (fold mp4_frame fs m))"
proof (induction fs arbitrary: m)
  case (Cons f fs)
  have "params_fit (m4_params (mp4_frame f m))"
    using Cons.prems nal_fold_fit[of "if m4_codec m < 0 then m\<lparr>m4_codec := snd (snd (snd f))\<rparr> else m"
        "for_each_nal (fst f) 0" "\<lparr>au_off = 0, au_size = 0, au_key = False, au_started = False\<rparr>"]
    by (auto simp: mp4_frame_def mp4_add_def Let_def split: prod.splits if_splits)
  then show ?case using Cons.IH by simp
qed simp

lemma sample_entry_size: "params_fit (mc_params c) \<Longrightarrow> length (put_sample_entry c) \<le> 1700"
  by (auto simp: put_sample_entry_def put_hvcC_def put_avcC_def params_fit_def Let_def)

lemma moov_size:
  assumes "params_fit (m4_params m)"
  shows "length (put_moov m) \<le> 2600 + 16 * length (m4_samples m)"
proof -
  let ?ss = "m4_samples m"
  have e: "length (put_sample_entry (cfg_from_mp4 m)) \<le> 1700" using assms by (intro sample_entry_size) (simp add: cfg_from_mp4_def)
  have r: "length (dur_runs (map sm_dur ?ss)) \<le> length ?ss" using runs_length(1)[of "map sm_dur ?ss"] by simp
  have "length (concat (map (\<lambda>(c, d). be32 (of_nat c) @ be32 d) (dur_runs (map sm_dur ?ss)))) = 8 * length (dur_runs (map sm_dur ?ss))"
    unfolding pairs_words by (simp only: length_b32s length_pairs)
  then have "length (put_stbl m) \<le> 1900 + 16 * length ?ss"
    using e r sync_numbers_bound(2)[of ?ss]
    by (simp add: put_stbl_def put_stts_def put_stss_def put_stsc_def put_stsz_def put_stco_def Let_def)
  then show ?thesis
    by (simp add: put_moov_def put_mvhd_def put_tkhd_def put_mdhd_def put_hdlr_def put_vmhd_def put_dinf_def put_url_def IDENTITY_def Let_def)
qed

section \<open>The export\<close>

lemma length_finished [simp]: "m4_params (finished m) = m4_params m" "length (m4_samples (finished m)) = length (m4_samples m)"
  by (simp_all add: finished_def set_durs_keeps)

lemma samples_of_len: "length (samples_of c fs) \<le> length fs"
  by (simp add: samples_of_def)

lemma finish_size:
  assumes "mp4_inv c us m" "params_fit (m4_params m)"
  shows "length (snd (mp4_finish True m)) \<le> 2700 + 16 * length us + length (sample_bytes us)"
  using moov_size[of "finished m"] assms by (simp add: finish_file[OF assms(1)] mp4_inv_def)

lemma finished_durs:
  assumes "mp4_inv c us m" "sorted_wrt (<) (map (\<lambda>u. snd (snd u)) us)"
    "\<forall>k. Suc k < length us \<longrightarrow> snd (snd (us ! Suc k)) - snd (snd (us ! k)) < 2 ^ 32" "Suc k < length us"
  shows "ucast (sm_dur (m4_samples (finished m) ! k)) = snd (snd (us ! Suc k)) - snd (snd (us ! k))"
proof -
  let ?ss = "m4_samples m"
  have f: "map sm_pts ?ss = map (\<lambda>u. snd (snd u)) us" "length ?ss = length us"
    using assms(1) by (simp_all add: mp4_inv_def sample_table_fields)
  have p: "sm_pts (?ss ! i) = snd (snd (us ! i))" if "i < length us" for i using that f by (metis nth_map)
  show ?thesis
    using increasing_durs[of ?ss k] assms(2,3,4) f p by (simp add: finished_def)
qed

lemma open_default: "mp4_open True opt = Some m \<Longrightarrow> params_fit (m4_params m)"
  by (auto simp: mp4_open_def params_fit_def no_params_def)

lemma export_mp4:
  assumes "opt_fmt opt = RSDK_EXPORT_MP4" "rsdk_group_query g t0 t1 chn (-1) EXPORT_MAX_SEGS = map fst sf" "sf \<noteq> []"
    "\<And>x. x \<in> set sf \<Longrightarrow> seg_plays g (fst x) (snd x)" "mp4_open True opt = Some m"
  shows "rsdk_backup_export [] g t0 t1 chn opt True True =
    (case mp4_finish True (fold mp4_frame (map fed (concat (map snd sf))) m) of (rc, file) \<Rightarrow> Some (if rc = 0 then RSDK_OK else RSDK_E_IO, Some file))"
proof -
  obtain p where p: "rsdk_group_play_open g (map fst sf) = Some (Inr p)"
    "\<And>u. (case u of (n, c) \<Rightarrow> export_loop (MP4_MUXER :: 'a mux_ctx rsdk_muxer) g p n c) = Some (fold (export_feed MP4_MUXER) (concat (map snd sf)) u)"
    using ex.loop_all[of sf g MP4_MUXER] assms(3,4) by blast
  have l: "export_loop (MP4_MUXER :: 'a mux_ctx rsdk_muxer) g p 0 (Mp4 m) =
      Some (length (concat (map snd sf)), Mp4 (fold mp4_frame (map fed (concat (map snd sf))) m))"
    using p(2)[of "(0, Mp4 m)"] fold_export_feed[of "concat (map snd sf)" 0 m] by simp
  obtain x ss where sf: "sf = x # ss" using assms(3) by (cases sf) auto
  have "snd x \<noteq> []" using assms(4)[of x] seg_plays_ne by (auto simp: sf)
  then have n: "0 < length (concat (map snd sf))" by (simp add: sf)
  have fm: "find_mux (opt_fmt opt) [] = Some (MP4_MUXER :: 'a mux_ctx rsdk_muxer)"
    using assms(1) by (simp add: find_mux_def ensure_builtin_def MP4_MUXER_def)
  have mo: "mx_open (MP4_MUXER :: 'a mux_ctx rsdk_muxer) True opt = Some (Mp4 m)" using assms(5) by (simp add: MP4_MUXER_def)
  have mf: "mx_finish (MP4_MUXER :: 'a mux_ctx rsdk_muxer) True (Mp4 x) = mp4_finish True x" for x by (simp add: MP4_MUXER_def)
  show ?thesis
    using n by (simp add: rsdk_backup_export_def fm mo mf l p(1) assms(2,3) Let_def split: prod.splits)
qed

section \<open>A recording to export\<close>

definition clip :: rsdk_frame where
  "clip = (demo_frame 0)\<lparr>fr_data := [0, 0, 0, 1, 0x40, 1, 0xC, 0, 0, 1, 0x26, 1, 0xAA]\<rparr>"

text \<open>A disk whose index is the one slot of a recorded segment; its index lies beyond the data.\<close>

lemma one_slot_query:
  fixes d :: rsdk_dev
  assumes "slot_matches 0 0xFFFFFFFF (-1) (-1) s" "sl_wf s" "sl_start_off s = 0" "plays (rsdk_play_open d s) (dv_crypto d) (sl_seg_id s) fs"
  shows "\<exists>g. rsdk_group_query g 0 0 (-1) (-1) EXPORT_MAX_SEGS = [retag 0 s] \<and> seg_plays g (retag 0 s) fs"
proof -
  define d1 where "d1 = d\<lparr>dv_st := (dv_st d)\<lparr>st_index_start_sec := 2 ^ 54, st_index_slot_count := 1\<rparr>\<rparr>"
  define d2 where "d2 = wr_slot d1 0 s"
  have off: "unat (slot_off d1 0) = 2 ^ 63" by (simp add: slot_off_def d1_def RSDK_SEC_def)
  have r: "rd_slot d2 0 = s" using assms(2) by (simp add: d2_def rd_wr_slot_same)
  have c: "slot_count d2 = 1" by (simp add: d2_def d1_def)
  have "mset (rsdk_index_query d2 0 0 (-1) (-1) 256) = mset [s]"
    using query_spec(1)[of 256 d2 0 0 "-1" "-1"] assms(1) r c by simp
  then have q: "rsdk_index_query d2 0 0 (-1) (-1) 256 = [s]" by simp
  have "rsdk_group_query \<lparr>gr_devs = [d2], gr_rr = 0\<rparr> 0 0 (-1) (-1) EXPORT_MAX_SEGS = exchange_sort sl_start_time [retag 0 s]"
    using q by (simp add: rsdk_group_query_def EXPORT_MAX_SEGS_def)
  moreover have "exchange_sort sl_start_time [retag 0 s] = [retag 0 s]"
    using exchange_sort_mset[of sl_start_time "[retag 0 s]"] by (metis add_mset_eq_single mset.simps mset_zero_iff neq_Nil_conv)
  moreover have "plays (rsdk_play_open d2 (retag 0 s)) (dv_crypto d2) (sl_seg_id s) fs"
  proof -
    define base where "base = unat (pl_base_off (rsdk_play_open d s))"
    have raw: "rw_data (dv_raw d2) = dwrite (rw_data (dv_raw d)) (2 ^ 63) (sl_encode s)"
      using off by (simp add: d2_def wr_slot_def d1_def rsdk_rawdev_pwrite_def)
    have b: "base + offs fs k + 64 + length (fr_data (fs ! k)) \<le> 2 ^ 63" if "k < length fs" for k
      using assms(4) offs_Suc[OF that] need_nat_bounds(1)[of "fs ! k"] offs_mono[of "Suc k" "length fs" fs] that
      by (simp add: plays_def base_def)
    have "dread (rw_data (dv_raw d2)) (base + offs fs k) 64 = dread (rw_data (dv_raw d)) (base + offs fs k) 64"
      "dread (rw_data (dv_raw d2)) (base + offs fs k + 64) (length (fr_data (fs ! k))) =
        dread (rw_data (dv_raw d)) (base + offs fs k + 64) (length (fr_data (fs ! k)))" if "k < length fs" for k
      using b[OF that] unfolding raw by (intro dread_dwrite_other; linarith)+
    then have "seg_laid (rw_data (dv_raw d2)) (dv_crypto d) (sl_seg_id s) base fs"
      using assms(4) by (simp add: plays_def seg_laid_def frame_at_def base_def)
    moreover have "pl_base_off (rsdk_play_open d2 (retag 0 s)) = pl_base_off (rsdk_play_open d s)" "dv_crypto d2 = dv_crypto d"
      "pl_end_off (rsdk_play_open d2 (retag 0 s)) = pl_end_off (rsdk_play_open d s)"
      by (simp_all add: rsdk_play_open_def Let_def d2_def wr_slot_def d1_def retag_def)
    ultimately show ?thesis using assms(4) by (simp add: plays_def base_def)
  qed
  ultimately show ?thesis
    using assms(3) by (intro exI[of _ "\<lparr>gr_devs = [d2], gr_rr = 0\<rparr>"]) (simp add: seg_plays_def rsdk_group_dev_def retag_def)
qed

lemma clip_recorded: "\<exists>d s. slot_matches 0 0xFFFFFFFF (-1) (-1) s \<and> sl_wf s \<and> sl_start_off s = 0 \<and>
  plays (rsdk_play_open d s) (dv_crypto d) (sl_seg_id s) [clip]"
proof -
  let ?g = "\<lparr>gr_devs = [demo_disk 0], gr_rr = 0\<rparr>"
  have h: "0 < length (gr_devs ?g)" "disk_ok (gr_devs ?g ! 0)" "0 < dN (gr_devs ?g ! 0)"
    "sb_hdd_full (dv_sb (gr_devs ?g ! 0)) \<noteq> RSDK_HDDFULL_STOP"
    by (simp_all add: disk_ok_demo RSDK_HDDFULL_STOP_def)
  have f: "\<And>f. f \<in> set [clip] \<Longrightarrow> frame_ok (dC (gr_devs ?g ! 0)) f"
    "2 * sum_list (map need_nat [clip]) < dN (gr_devs ?g ! 0) * dC (gr_devs ?g ! 0)"
    by (simp_all add: frame_ok_def clip_def need_nat_def)
  have "\<exists>w g1 g2 w2 g3 segs. rsdk_rec_open (\<lambda>x. x) ?g 0 3 0 = (Inr w, g1) \<and>
      rec_run (\<lambda>x. x) g1 w [clip] = (RSDK_OK, g2, w2) \<and> rsdk_rec_close g2 w2 = (RSDK_OK, g3) \<and>
      concat (map snd segs) = [clip] \<and> (\<forall>x \<in> set segs. \<exists>c. seg_ok (gr_devs g3 ! 0) c x) \<and>
      segs \<noteq> [] \<and> (\<forall>cap \<ge> int (slot_count (gr_devs g3 ! 0)).
         fst (last segs) \<in> set (rsdk_index_query (gr_devs g3 ! 0) 0 0 (-1) (-1) cap))"
    by (rule recording_segs[OF h(1,2,4,3)]) (simp_all add: f[simplified])
  then obtain g3 :: rsdk_group and segs where S: "concat (map snd segs) = [clip]" "\<forall>x \<in> set segs. \<exists>c. seg_ok (gr_devs g3 ! 0) c x"
    "segs \<noteq> []" "fst (last segs) \<in> set (rsdk_index_query (gr_devs g3 ! 0) 0 0 (-1) (-1) (int (slot_count (gr_devs g3 ! 0))))"
    by blast
  obtain s gs ss where x: "segs = ss @ [(s, gs)]" using S(3) by (cases segs rule: rev_cases) auto
  then have P: "sl_start_off s = 0" "plays (rsdk_play_open (gr_devs g3 ! 0) s) (dv_crypto (gr_devs g3 ! 0)) (sl_seg_id s) gs"
    using S(2) by (auto simp: seg_ok_def)
  have "gs = [clip]" using S(1) x P(2) by (auto simp: plays_def append_eq_Cons_conv)
  moreover have "slot_matches 0 0xFFFFFFFF (-1) (-1) s" "sl_wf s" using query_sound[OF S(4)] x rd_slot_wf by auto
  ultimately show ?thesis using P by blast
qed

section \<open>Properties\<close>

text \<open>C9: An export is readable, and is the recording. When the segments that the query finds can be played, the export with the
  built-in MP4 muxer ends with RSDK\_OK, and a reader that follows the sample tables of the file gets back, in order, the length-prefixed slices
  of every recorded frame that has any, with its sync mark; if the time stamps increase by less than 2^32 ticks, the
  duration it reads for a sample is the time to the next one. Offsets and counts have 32 bits, hence the bound on the input.\<close>

theorem backup_export:
  assumes "opt_fmt opt = RSDK_EXPORT_MP4" "rsdk_group_query g t0 t1 chn (-1) EXPORT_MAX_SEGS = map fst sf" "sf \<noteq> []"
    "\<And>x. x \<in> set sf \<Longrightarrow> seg_plays g (fst x) (snd x)"
    "us = samples_of (uint (fr_codec (hd (concat (map snd sf))))) (map fed (concat (map snd sf)))"
    "2700 + 16 * length us + length (sample_bytes us) < 2 ^ 32"
  shows "\<exists>file. rsdk_backup_export [] g t0 t1 chn opt True True = Some (RSDK_OK, Some file) \<and>
    map (\<lambda>(d, dur, key). (d, key)) (mp4_read file) = map (\<lambda>(d, key, t). (d, key)) us \<and>
    (sorted_wrt (<) (map (\<lambda>u. snd (snd u)) us) \<and> (\<forall>k. Suc k < length us \<longrightarrow> snd (snd (us ! Suc k)) - snd (snd (us ! k)) < 2 ^ 32) \<longrightarrow>
      (\<forall>k. Suc k < length us \<longrightarrow> ucast (fst (snd (mp4_read file ! k))) = snd (snd (us ! Suc k)) - snd (snd (us ! k))))"
proof -
  obtain m where m: "mp4_open True opt = Some m" by (simp add: mp4_open_def)
  let ?fs = "concat (map snd sf)" and ?m = "fold mp4_frame (map fed (concat (map snd sf))) m"
  obtain x ss where sf: "sf = x # ss" using assms(3) by (cases sf) auto
  have ne: "?fs \<noteq> []" using assms(4)[of x] seg_plays_ne by (auto simp: sf)
  have I: "mp4_inv (uint (fr_codec (hd ?fs))) us ?m"
    unfolding assms(5) using ne by (intro mp4_first[OF m]) (simp_all add: hd_map fed_def)
  obtain rc out where f: "mp4_finish True ?m = (rc, out)" by fastforce
  have "length out < 2 ^ 32" using finish_size[OF I mp4_run_fit[OF open_default[OF m]]] f assms(6) by simp
  note R = read_finished[OF I f this]
  have l: "length (m4_samples (finished ?m)) = length us" using I by (simp add: mp4_inv_def)
  have ex: "rsdk_backup_export [] g t0 t1 chn opt True True = Some (RSDK_OK, Some out)"
    using export_mp4[OF assms(1-4) m] f R(1) by simp
  have data: "map (\<lambda>(d, dur, key). (d, key)) (mp4_read out) = map (\<lambda>(d, key, t). (d, key)) us"
    unfolding R(2) using l by (intro nth_equalityI) (simp_all add: case_prod_beta)
  have "fst (snd (mp4_read out ! k)) = sm_dur (m4_samples (finished ?m) ! k)" if "k < length us" for k
    unfolding R(2) using l that by (simp add: case_prod_beta)
  then show ?thesis using ex data finished_durs[OF I] by (intro exI[of _ out]) auto
qed

lemma strip_nothing: "0 < e \<Longrightarrow> d ! (e - 1) \<noteq> 0 \<Longrightarrow> strip_zeros d s e = e"
  by (cases e) simp_all

lemma nal_step: "i + 3 \<le> length d \<Longrightarrow> for_each_nal d i = (if start_code d i
   then (let e = strip_zeros d (i + 3) (nal_end d (i + 3)) in if i + 3 < e then [slice (i + 3) (e - (i + 3)) d] else []) @
     for_each_nal d (nal_end d (i + 3)) else for_each_nal d (i + 1))"
  "\<not> i + 3 \<le> length d \<Longrightarrow> for_each_nal d i = []"
  by (subst for_each_nal.simps, simp add: Let_def)+

lemma clip_nals: "for_each_nal (fr_data clip) 0 = [[0x40, 1, 0xC], [0x26, 1, 0xAA]]"
  by (simp add: clip_def nal_step nal_end.simps start_code_def strip_nothing slice_def Let_def)

lemma backup_export_witness:
  "\<exists>g file. rsdk_backup_export [] g 0 0 (-1) None True True = Some (RSDK_OK, Some file) \<and>
     map (\<lambda>(d, dur, key). (d, key)) (mp4_read file) = [([0, 0, 0, 3, 0x26, 1, 0xAA], True)]"
proof -
  obtain d s where d: "slot_matches 0 0xFFFFFFFF (-1) (-1) s" "sl_wf s" "sl_start_off s = 0"
    "plays (rsdk_play_open d s) (dv_crypto d) (sl_seg_id s) [clip]"
    using clip_recorded by blast
  obtain g where g: "rsdk_group_query g 0 0 (-1) (-1) EXPORT_MAX_SEGS = map fst [(retag 0 s, [clip])]" "seg_plays g (retag 0 s) [clip]"
    using one_slot_query[OF d] by auto
  have us: "samples_of 1 (map fed [clip]) = [([0, 0, 0, 3, 0x26, 1, 0xAA], True, 0)]"
    by (simp add: samples_of_def sample_of_def vcl_nals_def fed_def clip_nals) (simp add: clip_def demo_frame_def is_vcl_def is_key_def
      nal_type_def RSDK_CODEC_H265_def length_prefixed_def be32_def)
  have c: "uint (fr_codec clip) = 1" by (simp add: clip_def demo_frame_def)
  show ?thesis
    using backup_export[of None g 0 0 "-1" "[(retag 0 s, [clip])]" "[([0, 0, 0, 3, 0x26, 1, 0xAA], True, 0)]"] g us
    by (auto simp: opt_fmt_def c intro!: exI[of _ g])
qed

text \<open>The codec of the export is the codec of the first frame, whatever it is: where an audio frame comes first, the slices of
  H.265 are read as H.264, the IDR picture is taken for an SEI message, and the export succeeds without a sample.\<close>

definition audio_clip :: rsdk_frame where
  "audio_clip = clip\<lparr>fr_codec := 2, fr_frame_type := 3, fr_data := [0x21, 0x10, 5]\<rparr>"

lemma audio_nals: "for_each_nal (fr_data audio_clip) 0 = []"
  by (simp add: audio_clip_def nal_step start_code_def)

lemma audio_first_loses_video:
  "samples_of 1 (map fed [clip, audio_clip]) = [([0, 0, 0, 3, 0x26, 1, 0xAA], True, 0)]"
  "samples_of (uint (fr_codec (hd [audio_clip, clip]))) (map fed [audio_clip, clip]) = []"
proof -
  show "samples_of 1 (map fed [clip, audio_clip]) = [([0, 0, 0, 3, 0x26, 1, 0xAA], True, 0)]"
    by (simp add: samples_of_def sample_of_def vcl_nals_def fed_def clip_nals audio_nals) (simp add: clip_def demo_frame_def is_vcl_def
      is_key_def nal_type_def RSDK_CODEC_H265_def length_prefixed_def be32_def)
  have "uint (fr_codec (hd [audio_clip, clip])) = 2" by (simp add: audio_clip_def)
  then show "samples_of (uint (fr_codec (hd [audio_clip, clip]))) (map fed [audio_clip, clip]) = []"
    by (simp add: samples_of_def vcl_nals_def fed_def clip_nals audio_nals is_vcl_def nal_type_def RSDK_CODEC_H265_def)
qed

end
