(* ===== verification/Rsdk_Meta.thy ===== *)
theory Rsdk_Meta
  imports Rsdk_Util
begin

text \<open>
  components/recorder/src/rsdk_meta.c: the document store. The SQLite table \<open>meta_doc\<close> is the list of its rows in the order
  of their ids; each SQL statement of the code is the function on that list. Whether statement \<open>i\<close> of a call can be prepared
  and run is the argument \<open>sql i\<close>; a statement that fails changes nothing. The documents are of any type; what
  \<open>json_extract(json, path) LIKE pattern\<close> says of one is an argument.
\<close>

section \<open>Rows\<close>

record rsdk_segref =
  sr_disk :: u16
  sr_chunk :: u64
  sr_off :: u32
  sr_pts :: u64

record rsdk_meta_key =
  mk_ts :: u32
  mk_ts_ms :: u16
  mk_chn :: u16
  mk_event_id :: u64
  mk_doc_type :: u32
  mk_seg :: rsdk_segref

record 'j meta_row =
  mr_id :: nat
  mr_ts :: int
  mr_ts_ms :: int
  mr_chn :: int
  mr_event_id :: int
  mr_doc_type :: int
  mr_seg_disk :: int
  mr_seg_chunk :: int
  mr_seg_off :: int
  mr_seg_pts :: int
  mr_json_len :: int
  mr_json :: 'j

record 'j meta_db =
  md_rows :: "'j meta_row list"
  md_last_id :: nat

definition rsdk_meta_open :: "(nat \<Rightarrow> bool) \<Rightarrow> 'j meta_db option \<Rightarrow> rsdk_err + 'j meta_db" where
  "rsdk_meta_open sql file =
     (if \<not> sql 0 \<or> \<not> sql 1 then Inl RSDK_E_DB
      else Inr (case file of Some db \<Rightarrow> db | None \<Rightarrow> \<lparr>md_rows = [], md_last_id = 0\<rparr>))"

section \<open>Statements\<close>

definition insert_row :: "(nat \<Rightarrow> 'j meta_row) \<Rightarrow> 'j meta_db \<Rightarrow> 'j meta_db" where
  "insert_row r db = \<lparr>md_rows = md_rows db @ [r (md_last_id db + 1)], md_last_id = md_last_id db + 1\<rparr>"

definition update_rows :: "('j meta_row \<Rightarrow> bool) \<Rightarrow> ('j meta_row \<Rightarrow> 'j meta_row) \<Rightarrow> 'j meta_db \<Rightarrow> 'j meta_db" where
  "update_rows P f db = db\<lparr>md_rows := map (\<lambda>r. if P r then f r else r) (md_rows db)\<rparr>"

definition delete_rows :: "('j meta_row \<Rightarrow> bool) \<Rightarrow> 'j meta_db \<Rightarrow> 'j meta_db" where
  "delete_rows P db = db\<lparr>md_rows := filter (\<lambda>r. \<not> P r) (md_rows db)\<rparr>"

definition select_by_ts :: "('j meta_row \<Rightarrow> bool) \<Rightarrow> 'j meta_db \<Rightarrow> 'j meta_row list" where
  "select_by_ts P db = sort_key mr_ts (filter P (md_rows db))"

definition changes :: "('j meta_row \<Rightarrow> bool) \<Rightarrow> 'j meta_db \<Rightarrow> nat" where
  "changes P db = length (filter P (md_rows db))"

section \<open>Operations\<close>

definition rsdk_meta_put :: "(nat \<Rightarrow> bool) \<Rightarrow> rsdk_meta_key \<Rightarrow> 'j \<Rightarrow> nat \<Rightarrow> 'j meta_db \<Rightarrow> rsdk_err \<times> nat \<times> 'j meta_db" where
  "rsdk_meta_put sql k json len db =
     (if \<not> sql 0 then (RSDK_E_DB, 0, db)
      else if \<not> sql 1 then (RSDK_E_DB, md_last_id db, db)
      else let s = mk_seg k;
          db = insert_row (\<lambda>i. \<lparr>mr_id = i, mr_ts = uint (mk_ts k), mr_ts_ms = uint (mk_ts_ms k), mr_chn = sint (mk_chn k),
            mr_event_id = sint (mk_event_id k), mr_doc_type = sint (mk_doc_type k), mr_seg_disk = uint (sr_disk s),
            mr_seg_chunk = sint (sr_chunk s), mr_seg_off = sint (sr_off s), mr_seg_pts = sint (sr_pts s),
            mr_json_len = int len, mr_json = json\<rparr>) db
        in (RSDK_OK, md_last_id db, db))"

record meta_query =
  mq_t0 :: u32
  mq_t1 :: u32
  mq_chn :: u16
  mq_event_id :: u64
  mq_doc_type :: u32
  mq_deep :: "(string \<times> string) option"
  mq_limit :: int

record 'j rsdk_metadoc =
  mo_id :: nat
  mo_key :: rsdk_meta_key
  mo_json :: 'j

definition row_key :: "'j meta_row \<Rightarrow> rsdk_meta_key" where
  "row_key r = \<lparr>mk_ts = of_int (mr_ts r), mk_ts_ms = of_int (mr_ts_ms r), mk_chn = of_int (mr_chn r),
     mk_event_id = of_int (mr_event_id r), mk_doc_type = of_int (mr_doc_type r),
     mk_seg = \<lparr>sr_disk = of_int (mr_seg_disk r), sr_chunk = of_int (mr_seg_chunk r), sr_off = of_int (mr_seg_off r),
       sr_pts = of_int (mr_seg_pts r)\<rparr>\<rparr>"

definition row_wanted :: "('j \<Rightarrow> string \<Rightarrow> string \<Rightarrow> bool) \<Rightarrow> meta_query \<Rightarrow> 'j meta_row \<Rightarrow> bool" where
  "row_wanted like q r \<longleftrightarrow>
     uint (mq_t0 q) \<le> mr_ts r \<and> mr_ts r \<le> uint (if mq_t1 q \<noteq> 0 then mq_t1 q else 0xFFFFFFFF) \<and>
     (0 \<le> sint (mq_chn q) \<longrightarrow> mr_chn r = sint (mq_chn q)) \<and>
     (mq_event_id q \<noteq> 0 \<longrightarrow> mr_event_id r = sint (mq_event_id q)) \<and>
     (mq_doc_type q \<noteq> 0 \<longrightarrow> mr_doc_type r = sint (mq_doc_type q)) \<and>
     (case mq_deep q of None \<Rightarrow> True | Some (path, pat) \<Rightarrow> like (mr_json r) path pat)"

text \<open>A limit of zero is none, and SQLite takes a negative one for none.\<close>

definition rsdk_meta_query ::
  "(nat \<Rightarrow> bool) \<Rightarrow> ('j \<Rightarrow> string \<Rightarrow> string \<Rightarrow> bool) \<Rightarrow> meta_query \<Rightarrow> 'j meta_db \<Rightarrow> rsdk_err + 'j rsdk_metadoc list" where
  "rsdk_meta_query sql like q db =
     (if \<not> sql 0 then Inl RSDK_E_DB
      else let rows = select_by_ts (row_wanted like q) db in
        Inr (map (\<lambda>r. \<lparr>mo_id = mr_id r, mo_key = row_key r, mo_json = mr_json r\<rparr>)
          (if 0 < mq_limit q then take (nat (mq_limit q)) rows else rows)))"

definition rsdk_meta_get :: "(nat \<Rightarrow> bool) \<Rightarrow> nat \<Rightarrow> 'j meta_db \<Rightarrow> rsdk_err + 'j rsdk_metadoc" where
  "rsdk_meta_get sql doc_id db =
     (if \<not> sql 0 then Inl RSDK_E_DB
      else case find (\<lambda>r. mr_id r = doc_id) (md_rows db) of
        None \<Rightarrow> Inl RSDK_E_NOTFOUND
      | Some r \<Rightarrow> Inr \<lparr>mo_id = doc_id,
          mo_key = \<lparr>mk_ts = of_int (mr_ts r), mk_ts_ms = 0, mk_chn = of_int (mr_chn r), mk_event_id = of_int (mr_event_id r),
            mk_doc_type = of_int (mr_doc_type r), mk_seg = \<lparr>sr_disk = 0, sr_chunk = 0, sr_off = 0, sr_pts = 0\<rparr>\<rparr>,
          mo_json = mr_json r\<rparr>)"

definition rsdk_meta_purge :: "u32 \<Rightarrow> 'j meta_db \<Rightarrow> nat \<times> 'j meta_db" where
  "rsdk_meta_purge before db =
     (let P = (\<lambda>r. mr_ts r < uint before) in (changes P db, delete_rows P db))"

definition rsdk_meta_purge_chunk :: "int \<Rightarrow> u64 \<Rightarrow> 'j meta_db \<Rightarrow> nat \<times> 'j meta_db" where
  "rsdk_meta_purge_chunk disk chunk db =
     (let P = (\<lambda>r. mr_seg_disk r = disk \<and> mr_seg_chunk r = sint chunk) in (changes P db, delete_rows P db))"

end
