(* ===== verification/Rsdk_Cloud.thy ===== *)
theory Rsdk_Cloud
  imports Rsdk_Meta Cloud_Upload "HOL-Library.AList"
begin

text \<open>
  components/recorder/src/rsdk_cloud.c: the upload state of cloud events, kept as JSON documents of type 8 in the document
  store. A document is the list of its members; \<open>json_set\<close>, \<open>json_insert\<close> on the end of an array, \<open>json_extract\<close> and the
  comparison of values are SQLite's: an integer is less than any text. The clock is an argument. Start chunks are below
  2^63 throughout, as on any disk.
\<close>

section \<open>Values and documents of SQLite\<close>

datatype jv = JNull | JInt int | JText string | JArr "(string \<times> jv) list list"

type_synonym jdoc = "(string \<times> jv) list"

definition json_set :: "string \<Rightarrow> jv \<Rightarrow> jdoc \<Rightarrow> jdoc" where "json_set k v d = AList.update k v d"

definition json_extract :: "jdoc \<Rightarrow> string \<Rightarrow> jv" where
  "json_extract d k = (case map_of d k of Some v \<Rightarrow> v | None \<Rightarrow> JNull)"

definition json_push :: "string \<Rightarrow> jdoc \<Rightarrow> jdoc \<Rightarrow> jdoc" where
  "json_push k x d = (case map_of d k of Some (JArr xs) \<Rightarrow> AList.update k (JArr (xs @ [x])) d | _ \<Rightarrow> d)"

definition coalesce :: "jv \<Rightarrow> jv \<Rightarrow> jv" where "coalesce v w = (if v = JNull then w else v)"

text \<open>\<open>a < b\<close> for values without a column affinity; NULL compares as unknown, which selects nothing. Arrays are texts.\<close>

fun sql_less :: "jv \<Rightarrow> jv \<Rightarrow> bool" where
  "sql_less (JInt a) (JInt b) = (a < b)"
| "sql_less (JInt a) (JText b) = True"
| "sql_less (JText a) (JText b) = ord_class.lexordp (map of_char a :: nat list) (map of_char b)"
| "sql_less _ _ = False"

fun column_int :: "jv \<Rightarrow> int" where
  "column_int (JInt i) = i"
| "column_int (JText s) = int (read_nat s)"
| "column_int _ = 0"

fun sql_plus :: "jv \<Rightarrow> int \<Rightarrow> jv" where
  "sql_plus JNull b = JNull"
| "sql_plus v b = JInt (column_int v + b)"

section \<open>Events\<close>

definition DOC_CLOUD :: int where "DOC_CLOUD = 8"

definition state_code :: "rsdk_cloud_state \<Rightarrow> int" where
  "state_code s = (case s of RSDK_CLOUD_NONE \<Rightarrow> 0 | RSDK_CLOUD_PENDING \<Rightarrow> 1 | RSDK_CLOUD_UPLOADING \<Rightarrow> 2
     | RSDK_CLOUD_DONE \<Rightarrow> 3 | RSDK_CLOUD_FAILED \<Rightarrow> 4 | RSDK_CLOUD_LOST \<Rightarrow> 5)"

definition state_of :: "int \<Rightarrow> rsdk_cloud_state" where
  "state_of n = (if n = 1 then RSDK_CLOUD_PENDING else if n = 2 then RSDK_CLOUD_UPLOADING else if n = 3 then RSDK_CLOUD_DONE
     else if n = 4 then RSDK_CLOUD_FAILED else if n = 5 then RSDK_CLOUD_LOST else RSDK_CLOUD_NONE)"

definition rsdk_cloud_make_event_id :: "int \<Rightarrow> u32 \<Rightarrow> int \<Rightarrow> u16 \<Rightarrow> u64" where
  "rsdk_cloud_make_event_id chn starttime rectype salt =
     push_bit 56 (of_int chn AND 0xFF) OR push_bit 48 (of_int rectype AND 0xFF) OR push_bit 32 (ucast salt AND 0xFFFF) OR ucast starttime"

text \<open>The document that \<open>rsdk_cloud_event_begin\<close> formats, as members and as text.\<close>

definition begin_doc :: "rsdk_cloud_event \<Rightarrow> jdoc" where
  "begin_doc ev =
     [(''state'', JInt (if cv_state ev \<noteq> RSDK_CLOUD_NONE then state_code (cv_state ev) else state_code RSDK_CLOUD_PENDING)),
      (''rectype'', JInt (uint (cv_rectype ev))), (''starttime'', JInt (uint (cv_starttime ev))),
      (''end'', JInt (uint (cv_end_time ev))), (''seg_id'', JInt (uint (cv_seg_id ev))), (''disk'', JInt (uint (cv_disk ev))),
      (''start_chunk'', JInt (uint (cv_start_chunk ev))), (''attempts'', JInt (uint (cv_attempts ev))),
      (''last_err'', JInt (cv_last_err ev)), (''segs'', JArr [])]"

definition begin_json :: "rsdk_cloud_event \<Rightarrow> string" where
  "begin_json ev = take 511
     (''{\"state\":'' @ show_int (if cv_state ev \<noteq> RSDK_CLOUD_NONE then state_code (cv_state ev) else state_code RSDK_CLOUD_PENDING) @
      '',\"rectype\":'' @ show_nat (unat (cv_rectype ev)) @ '',\"starttime\":'' @ show_nat (unat (cv_starttime ev)) @
      '',\"end\":'' @ show_nat (unat (cv_end_time ev)) @ '',\"seg_id\":'' @ show_nat (unat (cv_seg_id ev)) @
      '',\"disk\":'' @ show_nat (unat (cv_disk ev)) @ '',\"start_chunk\":'' @ show_nat (unat (cv_start_chunk ev)) @
      '',\"attempts\":'' @ show_nat (unat (cv_attempts ev)) @ '',\"last_err\":'' @ show_int (cv_last_err ev) @ '',\"segs\":[]}'')"

definition cloud_row :: "u64 \<Rightarrow> jdoc meta_row \<Rightarrow> bool" where
  "cloud_row eid r \<longleftrightarrow> mr_doc_type r = DOC_CLOUD \<and> mr_event_id r = sint eid"

definition begin_update :: "rsdk_cloud_event \<Rightarrow> jdoc \<Rightarrow> jdoc" where
  "begin_update ev d =
     json_set ''start_chunk'' (JInt (sint (cv_start_chunk ev))) (json_set ''disk'' (JInt (uint (cv_disk ev)))
       (json_set ''seg_id'' (JInt (sint (cv_seg_id ev))) (json_set ''end'' (JInt (uint (cv_end_time ev)))
         (json_set ''starttime'' (JInt (uint (cv_starttime ev))) (json_set ''rectype'' (JInt (sint (cv_rectype ev))) d)))))"

definition rsdk_cloud_event_begin :: "(nat \<Rightarrow> bool) \<Rightarrow> rsdk_cloud_event \<Rightarrow> jdoc meta_db \<Rightarrow> rsdk_err \<times> jdoc meta_db" where
  "rsdk_cloud_event_begin sql ev db =
     (if \<not> sql 0 \<or> \<not> sql 1 then (RSDK_E_DB, db)
      else let P = cloud_row (cv_event_id ev) in
        if 0 < changes P db
        then (RSDK_OK, update_rows P (\<lambda>r. r\<lparr>mr_ts := uint (cv_starttime ev), mr_chn := cv_chn ev, mr_json := begin_update ev (mr_json r)\<rparr>) db)
        else if \<not> sql 2 \<or> \<not> sql 3 then (RSDK_E_DB, db)
        else (RSDK_OK, insert_row (\<lambda>i. \<lparr>mr_id = i, mr_ts = uint (cv_starttime ev), mr_ts_ms = 0, mr_chn = cv_chn ev,
            mr_event_id = sint (cv_event_id ev), mr_doc_type = DOC_CLOUD, mr_seg_disk = uint (cv_disk ev),
            mr_seg_chunk = sint (cv_start_chunk ev), mr_seg_off = 0, mr_seg_pts = 0, mr_json_len = int (length (begin_json ev)), mr_json = begin_doc ev\<rparr>) db))"

definition seg_doc :: "index_slot \<Rightarrow> jdoc" where
  "seg_doc seg = [(''disk'', JInt (uint (sl_start_disk seg))), (''chunk'', JInt (sint (sl_start_chunk seg))), (''seg_id'', JInt (sint (sl_seg_id seg)))]"

definition rsdk_cloud_event_add_seg :: "(nat \<Rightarrow> bool) \<Rightarrow> u64 \<Rightarrow> index_slot \<Rightarrow> jdoc meta_db \<Rightarrow> rsdk_err \<times> jdoc meta_db" where
  "rsdk_cloud_event_add_seg sql eid seg db =
     (if \<not> sql 0 \<or> \<not> sql 1 then (RSDK_E_DB, db)
      else (RSDK_OK, update_rows (cloud_row eid)
        (\<lambda>r. r\<lparr>mr_json := json_set ''end'' (JInt (if sl_end_time seg = 0xFFFFFFFF then 0 else uint (sl_end_time seg)))
           (json_push ''segs'' (seg_doc seg) (mr_json r))\<rparr>) db))"

definition rsdk_cloud_set_state ::
  "(nat \<Rightarrow> bool) \<Rightarrow> nat \<Rightarrow> u64 \<Rightarrow> rsdk_cloud_state \<Rightarrow> int \<Rightarrow> jdoc meta_db \<Rightarrow> rsdk_err \<times> jdoc meta_db" where
  "rsdk_cloud_set_state sql now eid stt err db =
     (if \<not> sql 0 \<or> \<not> sql 1 then (RSDK_E_DB, db)
      else (RSDK_OK, update_rows (cloud_row eid)
        (\<lambda>r. r\<lparr>mr_json := (let d = mr_json r in
           json_set ''attempts'' (sql_plus (json_extract d ''attempts'') (if stt = RSDK_CLOUD_UPLOADING then 1 else 0))
             (json_set ''updated'' (JText (show_nat now)) (json_set ''last_err'' (JInt err) (json_set ''state'' (JInt (state_code stt)) d))))\<rparr>) db))"

definition fill_event :: "jdoc meta_row \<Rightarrow> rsdk_cloud_event" where
  "fill_event r = (let col = (\<lambda>k. column_int (json_extract (mr_json r) k)) in
     \<lparr>cv_event_id = of_int (mr_event_id r), cv_chn = mr_chn r, cv_rectype = of_int (col ''rectype''), cv_starttime = of_int (mr_ts r),
      cv_end_time = of_int (col ''end''), cv_state = state_of (col ''state''), cv_seg_id = of_int (col ''seg_id''),
      cv_disk = of_int (col ''disk''), cv_start_chunk = of_int (col ''start_chunk''), cv_attempts = of_int (col ''attempts''),
      cv_updated_ts = of_int (column_int (coalesce (json_extract (mr_json r) ''updated'') (JInt 0))), cv_last_err = col ''last_err''\<rparr>)"

definition rsdk_cloud_get :: "(nat \<Rightarrow> bool) \<Rightarrow> u64 \<Rightarrow> jdoc meta_db \<Rightarrow> rsdk_err + rsdk_cloud_event" where
  "rsdk_cloud_get sql eid db =
     (if \<not> sql 0 then Inl RSDK_E_DB
      else case find (cloud_row eid) (md_rows db) of None \<Rightarrow> Inl RSDK_E_NOTFOUND | Some r \<Rightarrow> Inr (fill_event r))"

record cloud_poll_opt =
  co_include_failed :: bool
  co_stale_uploading_s :: u32
  co_chn :: int

definition stale_upload :: "nat \<Rightarrow> u32 \<Rightarrow> jdoc \<Rightarrow> bool" where
  "stale_upload now stale d \<longleftrightarrow> json_extract d ''state'' = JInt 2 \<and>
     sql_less (coalesce (json_extract d ''updated'') (JInt 0)) (JInt (int now - sint stale))"

definition upload_wanted :: "nat \<Rightarrow> cloud_poll_opt \<Rightarrow> jdoc meta_row \<Rightarrow> bool" where
  "upload_wanted now opt r \<longleftrightarrow> (let d = mr_json r in
     mr_doc_type r = DOC_CLOUD \<and>
     (json_extract d ''state'' = JInt (state_code RSDK_CLOUD_PENDING) \<or>
      (co_include_failed opt \<and> json_extract d ''state'' = JInt 4) \<or>
      (co_stale_uploading_s opt \<noteq> 0 \<and> stale_upload now (co_stale_uploading_s opt) d)) \<and>
     (0 \<le> co_chn opt \<longrightarrow> mr_chn r = co_chn opt))"

definition default_poll :: cloud_poll_opt where
  "default_poll = \<lparr>co_include_failed = True, co_stale_uploading_s = 0, co_chn = -1\<rparr>"

definition rsdk_cloud_enumerate_pending ::
  "(nat \<Rightarrow> bool) \<Rightarrow> nat \<Rightarrow> cloud_poll_opt option \<Rightarrow> int \<Rightarrow> jdoc meta_db \<Rightarrow> rsdk_cloud_event list option" where
  "rsdk_cloud_enumerate_pending sql now opt cap db =
     (if cap \<le> 0 \<or> \<not> sql 0 then None
      else Some (map fill_event (take (nat cap)
        (select_by_ts (upload_wanted now (case opt of None \<Rightarrow> default_poll | Some o' \<Rightarrow> o')) db))))"

definition reclaim_hit :: "u16 \<Rightarrow> u64 \<Rightarrow> jdoc \<Rightarrow> bool" where
  "reclaim_hit disk chunk d \<longleftrightarrow>
     json_extract d ''disk'' = JInt (uint disk) \<and> json_extract d ''start_chunk'' = JInt (sint chunk) \<or>
     (case json_extract d ''segs'' of
        JArr xs \<Rightarrow> list_ex (\<lambda>x. json_extract x ''disk'' = JInt (uint disk) \<and> json_extract x ''chunk'' = JInt (sint chunk)) xs
      | _ \<Rightarrow> False)"

definition reclaim_row :: "u16 \<Rightarrow> u64 \<Rightarrow> jdoc meta_row \<Rightarrow> bool" where
  "reclaim_row disk chunk r \<longleftrightarrow>
     mr_doc_type r = DOC_CLOUD \<and> json_extract (mr_json r) ''state'' \<notin> {JNull, JInt 3, JInt 5} \<and> reclaim_hit disk chunk (mr_json r)"

definition rsdk_cloud_on_reclaim :: "(nat \<Rightarrow> bool) \<Rightarrow> u16 \<Rightarrow> u64 \<Rightarrow> jdoc meta_db \<Rightarrow> int \<times> jdoc meta_db" where
  "rsdk_cloud_on_reclaim sql disk chunk db =
     (if \<not> sql 0 \<or> \<not> sql 1 then (-1, db)
      else let P = reclaim_row disk chunk in
        (int (changes P db), update_rows P (\<lambda>r. r\<lparr>mr_json := json_set ''state'' (JInt (state_code RSDK_CLOUD_LOST)) (mr_json r)\<rparr>) db))"

section \<open>What the store promises\<close>

text \<open>An entry for every event, in the order of registration: the event, its segments, and whether its state was ever set.\<close>

record cloud_entry =
  ce_ev :: rsdk_cloud_event
  ce_segs :: "index_slot list"
  ce_touched :: bool

datatype cloud_op =
    CBegin rsdk_cloud_event
  | CAddSeg u64 index_slot
  | CSetState nat u64 rsdk_cloud_state int
  | CReclaim u16 u64
  | CPurge u32
  | CPut rsdk_meta_key jdoc nat

definition cloud_do :: "(nat \<Rightarrow> bool) \<Rightarrow> cloud_op \<Rightarrow> jdoc meta_db \<Rightarrow> rsdk_err \<times> jdoc meta_db" where
  "cloud_do sql op db = (case op of
     CBegin ev \<Rightarrow> rsdk_cloud_event_begin sql ev db
   | CAddSeg eid seg \<Rightarrow> rsdk_cloud_event_add_seg sql eid seg db
   | CSetState now eid st err \<Rightarrow> rsdk_cloud_set_state sql now eid st err db
   | CReclaim disk chunk \<Rightarrow> (let (n, db') = rsdk_cloud_on_reclaim sql disk chunk db in (if n < 0 then RSDK_E_DB else RSDK_OK, db'))
   | CPurge before \<Rightarrow> (RSDK_OK, snd (rsdk_meta_purge before db))
   | CPut k doc len \<Rightarrow> (let (rc, n, db') = rsdk_meta_put sql k doc len db in (rc, db')))"

definition op_ok :: "cloud_op \<Rightarrow> bool" where
  "op_ok op \<longleftrightarrow> (case op of CPut k doc len \<Rightarrow> sint (mk_doc_type k) \<noteq> DOC_CLOUD | CBegin ev \<Rightarrow> cv_start_chunk ev < 2 ^ 63 | _ \<Rightarrow> True)"

abbreviation entry_id :: "cloud_entry \<Rightarrow> u64" where "entry_id e \<equiv> cv_event_id (ce_ev e)"

definition change :: "(cloud_entry \<Rightarrow> bool) \<Rightarrow> (cloud_entry \<Rightarrow> cloud_entry) \<Rightarrow> cloud_entry list \<Rightarrow> cloud_entry list" where
  "change Q g L = map (\<lambda>e. if Q e then g e else e) L"

definition renewed :: "rsdk_cloud_event \<Rightarrow> cloud_entry \<Rightarrow> cloud_entry" where
  "renewed ev e = e\<lparr>ce_ev := (ce_ev e)\<lparr>cv_chn := cv_chn ev, cv_rectype := cv_rectype ev, cv_starttime := cv_starttime ev,
     cv_end_time := cv_end_time ev, cv_seg_id := cv_seg_id ev, cv_disk := cv_disk ev, cv_start_chunk := cv_start_chunk ev\<rparr>\<rparr>"

definition fresh_entry :: "rsdk_cloud_event \<Rightarrow> cloud_entry" where
  "fresh_entry ev = \<lparr>ce_ev = ev\<lparr>cv_state := (if cv_state ev = RSDK_CLOUD_NONE then RSDK_CLOUD_PENDING else cv_state ev), cv_updated_ts := 0\<rparr>,
     ce_segs = [], ce_touched = False\<rparr>"

definition with_seg :: "index_slot \<Rightarrow> cloud_entry \<Rightarrow> cloud_entry" where
  "with_seg seg e = e\<lparr>ce_ev := (ce_ev e)\<lparr>cv_end_time := (if sl_end_time seg = 0xFFFFFFFF then 0 else sl_end_time seg)\<rparr>,
     ce_segs := ce_segs e @ [seg]\<rparr>"

definition with_state :: "nat \<Rightarrow> rsdk_cloud_state \<Rightarrow> int \<Rightarrow> cloud_entry \<Rightarrow> cloud_entry" where
  "with_state now st err e = e\<lparr>ce_ev := (ce_ev e)\<lparr>cv_state := st, cv_last_err := err, cv_updated_ts := of_nat now,
     cv_attempts := cv_attempts (ce_ev e) + (if st = RSDK_CLOUD_UPLOADING then 1 else 0)\<rparr>, ce_touched := True\<rparr>"

definition overwritten :: "u16 \<Rightarrow> u64 \<Rightarrow> cloud_entry \<Rightarrow> bool" where
  "overwritten disk chunk e \<longleftrightarrow> cv_state (ce_ev e) \<notin> {RSDK_CLOUD_DONE, RSDK_CLOUD_LOST} \<and>
     (cv_disk (ce_ev e) = disk \<and> cv_start_chunk (ce_ev e) = chunk \<or>
      (\<exists>s \<in> set (ce_segs e). sl_start_disk s = disk \<and> sl_start_chunk s = chunk))"

definition cloud_spec :: "cloud_op \<Rightarrow> cloud_entry list \<Rightarrow> cloud_entry list" where
  "cloud_spec op L = (case op of
     CBegin ev \<Rightarrow> if list_ex (\<lambda>e. entry_id e = cv_event_id ev) L
       then change (\<lambda>e. entry_id e = cv_event_id ev) (renewed ev) L else L @ [fresh_entry ev]
   | CAddSeg eid seg \<Rightarrow> change (\<lambda>e. entry_id e = eid) (with_seg seg) L
   | CSetState now eid st err \<Rightarrow> change (\<lambda>e. entry_id e = eid) (with_state now st err) L
   | CReclaim disk chunk \<Rightarrow> change (overwritten disk chunk) (\<lambda>e. e\<lparr>ce_ev := (ce_ev e)\<lparr>cv_state := RSDK_CLOUD_LOST\<rparr>\<rparr>) L
   | CPurge before \<Rightarrow> filter (\<lambda>e. \<not> cv_starttime (ce_ev e) < before) L
   | CPut k doc len \<Rightarrow> L)"

text \<open>Which entries the uploader is given. An upload in progress is given again only if its state was never set.\<close>

definition entry_wanted :: "nat \<Rightarrow> cloud_poll_opt \<Rightarrow> cloud_entry \<Rightarrow> bool" where
  "entry_wanted now opt e \<longleftrightarrow>
     (cv_state (ce_ev e) = RSDK_CLOUD_PENDING \<or> co_include_failed opt \<and> cv_state (ce_ev e) = RSDK_CLOUD_FAILED \<or>
      co_stale_uploading_s opt \<noteq> 0 \<and> cv_state (ce_ev e) = RSDK_CLOUD_UPLOADING \<and> \<not> ce_touched e \<and> sint (co_stale_uploading_s opt) < int now) \<and>
     (0 \<le> co_chn opt \<longrightarrow> cv_chn (ce_ev e) = co_chn opt)"

text \<open>A row stands for an entry.\<close>

definition stands :: "jv \<Rightarrow> u32 \<Rightarrow> bool" where
  "stands v w \<longleftrightarrow> (\<exists>i. v = JInt i \<and> of_int i = w)"

definition row_rep :: "cloud_entry \<Rightarrow> jdoc meta_row \<Rightarrow> bool" where
  "row_rep e r \<longleftrightarrow> (let ev = ce_ev e; d = mr_json r in
     mr_doc_type r = DOC_CLOUD \<and> mr_event_id r = sint (cv_event_id ev) \<and> mr_chn r = cv_chn ev \<and> mr_ts r = uint (cv_starttime ev) \<and>
     json_extract d ''state'' = JInt (state_code (cv_state ev)) \<and> stands (json_extract d ''rectype'') (cv_rectype ev) \<and>
     stands (json_extract d ''end'') (cv_end_time ev) \<and> stands (json_extract d ''seg_id'') (cv_seg_id ev) \<and>
     json_extract d ''disk'' = JInt (uint (cv_disk ev)) \<and> json_extract d ''start_chunk'' = JInt (sint (cv_start_chunk ev)) \<and>
     stands (json_extract d ''attempts'') (cv_attempts ev) \<and> json_extract d ''last_err'' = JInt (cv_last_err ev) \<and>
     map_of d ''segs'' = Some (JArr (map seg_doc (ce_segs e))) \<and>
     (if ce_touched e then \<exists>n. json_extract d ''updated'' = JText (show_nat n) \<and> cv_updated_ts ev = of_nat n
      else json_extract d ''updated'' = JNull \<and> cv_updated_ts ev = 0))"

definition is_cloud :: "'j meta_row \<Rightarrow> bool" where "is_cloud r \<longleftrightarrow> mr_doc_type r = DOC_CLOUD"

definition cloud_rep :: "cloud_entry list \<Rightarrow> jdoc meta_db \<Rightarrow> bool" where
  "cloud_rep L db \<longleftrightarrow> list_all2 row_rep L (filter is_cloud (md_rows db)) \<and> distinct (map entry_id L)"

section \<open>The store keeps its promise\<close>

lemma extract_set [simp]: "json_extract (json_set k v d) k' = (if k = k' then v else json_extract d k')"
  by (simp add: json_extract_def json_set_def update_conv')

lemma map_of_set [simp]: "map_of (json_set k v d) k' = (if k = k' then Some v else map_of d k')"
  by (simp add: json_set_def update_conv')

lemma sint_inj64 [simp]: "sint (x :: u64) = sint y \<longleftrightarrow> x = y"
  by (auto intro: signed_word_eqI)

lemma state_of_code [simp]: "state_of (state_code s) = s"
  by (cases s) (simp_all add: state_of_def state_code_def)

lemma state_code_iff [simp]:
  "state_code s = 1 \<longleftrightarrow> s = RSDK_CLOUD_PENDING" "state_code s = 2 \<longleftrightarrow> s = RSDK_CLOUD_UPLOADING"
  "state_code s = 3 \<longleftrightarrow> s = RSDK_CLOUD_DONE" "state_code s = 4 \<longleftrightarrow> s = RSDK_CLOUD_FAILED" "state_code s = 5 \<longleftrightarrow> s = RSDK_CLOUD_LOST"
  by (cases s; simp add: state_code_def)+

lemma row_rep_id: "row_rep e r \<Longrightarrow> cloud_row eid r \<longleftrightarrow> entry_id e = eid"
  by (auto simp: row_rep_def cloud_row_def Let_def)

lemma rep_fill: "row_rep e r \<Longrightarrow> fill_event r = ce_ev e"
  by (cases "ce_touched e") (auto simp: row_rep_def fill_event_def stands_def coalesce_def Let_def intro!: rsdk_cloud_event.equality)

lemma rep_update:
  assumes "list_all2 row_rep L (filter is_cloud rows)"
    and "\<And>e r. row_rep e r \<Longrightarrow> P r \<longleftrightarrow> Q e" "\<And>e r. row_rep e r \<Longrightarrow> Q e \<Longrightarrow> row_rep (g e) (f r)" "\<And>r. is_cloud (f r) = is_cloud r"
  shows "list_all2 row_rep (change Q g L) (filter is_cloud (map (\<lambda>r. if P r then f r else r) rows))"
proof -
  have "filter is_cloud (map (\<lambda>r. if P r then f r else r) rows) = map (\<lambda>r. if P r then f r else r) (filter is_cloud rows)"
    using assms(4) by (induction rows) auto
  then show ?thesis
    using assms(1) by (auto simp: change_def list_all2_map1 list_all2_map2 assms(2,3) elim!: list_all2_mono)
qed

lemma rep_update_db:
  assumes "cloud_rep L db" "\<And>e r. row_rep e r \<Longrightarrow> P r \<longleftrightarrow> Q e" "\<And>e r. row_rep e r \<Longrightarrow> Q e \<Longrightarrow> row_rep (g e) (f r)"
    "\<And>r. is_cloud (f r) = is_cloud r" "\<And>e. entry_id (g e) = entry_id e"
  shows "cloud_rep (change Q g L) (update_rows P f db)"
proof -
  have "map entry_id (change Q g L) = map entry_id L" by (simp add: change_def assms(5))
  then show ?thesis using assms(1) rep_update[OF _ assms(2-4)] by (simp add: cloud_rep_def update_rows_def)
qed

lemma rep_delete:
  assumes "cloud_rep L db" "\<And>e r. row_rep e r \<Longrightarrow> P r \<longleftrightarrow> Q e"
  shows "cloud_rep (filter (\<lambda>e. \<not> Q e) L) (delete_rows P db)"
proof -
  have "list_all2 row_rep (filter (\<lambda>e. \<not> Q e) L) (filter (\<lambda>r. \<not> P r) rs)" if "list_all2 row_rep L rs" for rs
    using that by (induction rule: list_all2_induct) (auto simp: assms(2))
  then have "list_all2 row_rep (filter (\<lambda>e. \<not> Q e) L) (filter (\<lambda>r. \<not> P r) (filter is_cloud (md_rows db)))"
    using assms(1) by (simp only: cloud_rep_def)
  moreover have "filter (\<lambda>r. \<not> P r) (filter is_cloud (md_rows db)) = filter is_cloud (filter (\<lambda>r. \<not> P r) (md_rows db))"
    by (simp add: conj_commute)
  ultimately show ?thesis using assms(1) by (simp add: cloud_rep_def delete_rows_def distinct_map_filter del: filter_filter)
qed

lemma rep_insert:
  assumes "cloud_rep L db" "\<And>i. row_rep e (r i)" "entry_id e \<notin> entry_id ` set L"
  shows "cloud_rep (L @ [e]) (insert_row r db)"
proof -
  have "is_cloud (r i)" for i using assms(2)[of i] by (simp add: row_rep_def is_cloud_def Let_def)
  then show ?thesis using assms by (auto simp: cloud_rep_def insert_row_def intro!: list_all2_appendI)
qed

lemma rep_exists:
  assumes "cloud_rep L db"
  shows "0 < changes (cloud_row eid) db \<longleftrightarrow> list_ex (\<lambda>e. entry_id e = eid) L"
proof -
  have f: "filter (cloud_row eid) rs = filter (cloud_row eid) (filter is_cloud rs)" for rs :: "jdoc meta_row list"
    by (induction rs) (auto simp: cloud_row_def is_cloud_def)
  have g: "filter (cloud_row eid) rs \<noteq> [] \<longleftrightarrow> list_ex (\<lambda>e. entry_id e = eid) L" if "list_all2 row_rep L rs" for rs
    using that by (induction rule: list_all2_induct) (auto simp: row_rep_id)
  have "list_all2 row_rep L (filter is_cloud (md_rows db))" using assms by (simp add: cloud_rep_def)
  from g[OF this] show ?thesis unfolding changes_def length_greater_0_conv f[of "md_rows db"] .
qed

lemma stands_intros [simp]: "stands (JInt (uint w)) w" "stands (JInt (sint w)) w" "stands (JInt 0) 0"
  by (auto simp: stands_def)

lemma small_sint: "(w :: u64) < 2 ^ 63 \<Longrightarrow> sint w = uint w"
proof -
  assume "w < 2 ^ 63"
  then have "uint w < 2 ^ 63" by (simp add: word_less_def)
  then show ?thesis by (simp add: sint_uint signed_take_bit_int_eq_self[OF order_trans[of _ 0]])
qed

lemma rep_begin_new:
  assumes "cv_start_chunk ev < 2 ^ 63"
  shows "row_rep (fresh_entry ev) \<lparr>mr_id = i, mr_ts = uint (cv_starttime ev), mr_ts_ms = 0, mr_chn = cv_chn ev,
    mr_event_id = sint (cv_event_id ev), mr_doc_type = DOC_CLOUD, mr_seg_disk = uint (cv_disk ev),
    mr_seg_chunk = sint (cv_start_chunk ev), mr_seg_off = 0, mr_seg_pts = 0, mr_json_len = n, mr_json = begin_doc ev\<rparr>"
  using small_sint[OF assms] by (simp add: row_rep_def fresh_entry_def begin_doc_def json_extract_def)

lemma rep_begin_known:
  "row_rep e r \<Longrightarrow> cv_event_id ev = entry_id e \<Longrightarrow>
   row_rep (renewed ev e) (r\<lparr>mr_ts := uint (cv_starttime ev), mr_chn := cv_chn ev, mr_json := begin_update ev (mr_json r)\<rparr>)"
  by (cases "ce_touched e") (simp_all add: row_rep_def renewed_def begin_update_def Let_def)

lemma extract_push: "map_of d ''segs'' = Some (JArr xs) \<Longrightarrow> json_extract (json_push ''segs'' x d) k =
    (if k = ''segs'' then JArr (xs @ [x]) else json_extract d k)"
  "map_of d ''segs'' = Some (JArr xs) \<Longrightarrow> map_of (json_push ''segs'' x d) k = (if k = ''segs'' then Some (JArr (xs @ [x])) else map_of d k)"
  by (simp_all add: json_push_def json_extract_def update_conv')

lemma rep_add_seg:
  assumes "row_rep e r"
  shows "row_rep (with_seg seg e) (r\<lparr>mr_json := json_set ''end'' (JInt (if sl_end_time seg = 0xFFFFFFFF then 0 else uint (sl_end_time seg)))
    (json_push ''segs'' (seg_doc seg) (mr_json r))\<rparr>)"
  using assms by (cases "ce_touched e") (simp_all add: row_rep_def with_seg_def Let_def extract_push)

lemma rep_set_state:
  assumes "row_rep e r"
  shows "row_rep (with_state now st err e) (r\<lparr>mr_json := (let d = mr_json r in
     json_set ''attempts'' (sql_plus (json_extract d ''attempts'') (if st = RSDK_CLOUD_UPLOADING then 1 else 0))
       (json_set ''updated'' (JText (show_nat now)) (json_set ''last_err'' (JInt err) (json_set ''state'' (JInt (state_code st)) d))))\<rparr>)"
proof -
  obtain i where "json_extract (mr_json r) ''attempts'' = JInt i" "of_int i = cv_attempts (ce_ev e)"
    using assms by (auto simp: row_rep_def Let_def stands_def)
  then have "stands (sql_plus (json_extract (mr_json r) ''attempts'') (if st = RSDK_CLOUD_UPLOADING then 1 else 0))
      (cv_attempts (ce_ev e) + (if st = RSDK_CLOUD_UPLOADING then 1 else 0))" by (auto simp: stands_def)
  then show ?thesis using assms by (auto simp add: row_rep_def with_state_def Let_def)
qed

lemma rep_lost:
  "row_rep e r \<Longrightarrow> row_rep (e\<lparr>ce_ev := (ce_ev e)\<lparr>cv_state := RSDK_CLOUD_LOST\<rparr>\<rparr>)
     (r\<lparr>mr_json := json_set ''state'' (JInt (state_code RSDK_CLOUD_LOST)) (mr_json r)\<rparr>)"
  by (cases "ce_touched e") (simp_all add: row_rep_def Let_def)

lemma rep_reclaim:
  assumes "row_rep e r"
  shows "reclaim_row disk chunk r \<longleftrightarrow> overwritten disk chunk e"
proof -
  let ?d = "mr_json r"
  have d: "json_extract ?d ''segs'' = JArr (map seg_doc (ce_segs e))" "json_extract ?d ''state'' = JInt (state_code (cv_state (ce_ev e)))"
    "json_extract ?d ''disk'' = JInt (uint (cv_disk (ce_ev e)))" "json_extract ?d ''start_chunk'' = JInt (sint (cv_start_chunk (ce_ev e)))"
    "mr_doc_type r = DOC_CLOUD"
    using assms by (simp_all add: row_rep_def Let_def) (simp add: json_extract_def)
  have s: "json_extract (seg_doc x) ''disk'' = JInt (uint (sl_start_disk x))" "json_extract (seg_doc x) ''chunk'' = JInt (sint (sl_start_chunk x))" for x
    by (simp_all add: seg_doc_def json_extract_def)
  show ?thesis
    by (simp add: reclaim_row_def reclaim_hit_def overwritten_def d s list_ex_iff word_uint_eq_iff[symmetric])
qed

lemma entry_ids:
  "entry_id (renewed ev e) = entry_id e" "entry_id (with_seg seg e) = entry_id e" "entry_id (with_state now st err e) = entry_id e"
  "entry_id (fresh_entry ev) = cv_event_id ev"
  by (simp_all add: renewed_def with_seg_def with_state_def fresh_entry_def)

lemma rep_begin:
  assumes R: "cloud_rep L db" and "cv_start_chunk ev < 2 ^ 63" "rsdk_cloud_event_begin sql ev db = (rc, db')"
  shows "cloud_rep (if rc = RSDK_OK then cloud_spec (CBegin ev) L else L) db'"
proof (cases "0 < changes (cloud_row (cv_event_id ev)) db")
  case True
  have "cloud_rep (change (\<lambda>e. entry_id e = cv_event_id ev) (renewed ev) L) (update_rows (cloud_row (cv_event_id ev))
      (\<lambda>r. r\<lparr>mr_ts := uint (cv_starttime ev), mr_chn := cv_chn ev, mr_json := begin_update ev (mr_json r)\<rparr>) db)"
    by (rule rep_update_db[OF R]) (auto simp: row_rep_id rep_begin_known is_cloud_def entry_ids)
  then show ?thesis
    using assms True rep_exists[OF R, of "cv_event_id ev"]
    by (auto simp: rsdk_cloud_event_begin_def cloud_spec_def Let_def split: if_splits)
next
  case False
  then have new: "\<not> list_ex (\<lambda>e. entry_id e = cv_event_id ev) L" using rep_exists[OF R] by simp
  have "cloud_rep (L @ [fresh_entry ev]) (insert_row (\<lambda>i. \<lparr>mr_id = i, mr_ts = uint (cv_starttime ev), mr_ts_ms = 0, mr_chn = cv_chn ev,
        mr_event_id = sint (cv_event_id ev), mr_doc_type = DOC_CLOUD, mr_seg_disk = uint (cv_disk ev),
        mr_seg_chunk = sint (cv_start_chunk ev), mr_seg_off = 0, mr_seg_pts = 0, mr_json_len = int (length (begin_json ev)), mr_json = begin_doc ev\<rparr>) db)"
    using new by (intro rep_insert[OF R] rep_begin_new[OF assms(2)]) (auto simp: fresh_entry_def list_ex_iff)
  then show ?thesis using assms False new R
    by (auto simp: rsdk_cloud_event_begin_def cloud_spec_def Let_def split: if_splits)
qed

lemma rep_put:
  assumes R: "cloud_rep L db" and "sint (mk_doc_type k) \<noteq> DOC_CLOUD" "rsdk_meta_put sql k doc len db = (rc, n, db')"
  shows "cloud_rep L db'"
  using assms by (auto simp: rsdk_meta_put_def insert_row_def cloud_rep_def is_cloud_def Let_def split: if_splits)

lemma rep_ops:
  assumes R: "cloud_rep L db"
  shows "cloud_rep (change (\<lambda>e. entry_id e = eid) (with_seg seg) L) (update_rows (cloud_row eid)
      (\<lambda>r. r\<lparr>mr_json := json_set ''end'' (JInt (if sl_end_time seg = 0xFFFFFFFF then 0 else uint (sl_end_time seg)))
         (json_push ''segs'' (seg_doc seg) (mr_json r))\<rparr>) db)"
    "cloud_rep (change (\<lambda>e. entry_id e = eid) (with_state now st err) L) (update_rows (cloud_row eid)
      (\<lambda>r. r\<lparr>mr_json := (let d = mr_json r in
         json_set ''attempts'' (sql_plus (json_extract d ''attempts'') (if st = RSDK_CLOUD_UPLOADING then 1 else 0))
           (json_set ''updated'' (JText (show_nat now)) (json_set ''last_err'' (JInt err) (json_set ''state'' (JInt (state_code st)) d))))\<rparr>) db)"
    "cloud_rep (change (overwritten disk chunk) (\<lambda>e. e\<lparr>ce_ev := (ce_ev e)\<lparr>cv_state := RSDK_CLOUD_LOST\<rparr>\<rparr>) L)
      (update_rows (reclaim_row disk chunk) (\<lambda>r. r\<lparr>mr_json := json_set ''state'' (JInt (state_code RSDK_CLOUD_LOST)) (mr_json r)\<rparr>) db)"
  by (rule rep_update_db[OF R]; simp add: row_rep_id rep_add_seg rep_set_state rep_lost rep_reclaim is_cloud_def entry_ids)+

lemma cloud_do_rep:
  assumes R: "cloud_rep L db" and ok: "op_ok op" and do: "cloud_do sql op db = (rc, db')"
  shows "cloud_rep (if rc = RSDK_OK then cloud_spec op L else L) db'"
proof (cases op)
  case (CBegin ev)
  then show ?thesis using rep_begin[OF R, of ev sql rc db'] ok do by (simp only: cloud_do_def op_ok_def cloud_op.case)
next
  case (CAddSeg eid seg)
  show ?thesis
  proof (cases "sql 0 \<and> sql 1")
    case True
    then show ?thesis using do rep_ops(1)[OF R, of eid seg] by (simp only: CAddSeg cloud_do_def rsdk_cloud_event_add_seg_def cloud_spec_def cloud_op.case) simp
  qed (use do R in \<open>auto simp: CAddSeg cloud_do_def rsdk_cloud_event_add_seg_def\<close>)
next
  case (CSetState now eid st err)
  show ?thesis
  proof (cases "sql 0 \<and> sql 1")
    case True
    then show ?thesis using do rep_ops(2)[OF R, of eid now st err] by (simp only: CSetState cloud_do_def rsdk_cloud_set_state_def cloud_spec_def cloud_op.case) simp
  qed (use do R in \<open>auto simp: CSetState cloud_do_def rsdk_cloud_set_state_def\<close>)
next
  case (CReclaim disk chunk)
  show ?thesis using do R rep_ops(3)[OF R, of disk chunk]
    by (auto simp: CReclaim cloud_do_def rsdk_cloud_on_reclaim_def cloud_spec_def Let_def split: if_splits)
next
  case (CPurge before)
  have "cloud_rep (filter (\<lambda>e. \<not> cv_starttime (ce_ev e) < before) L) (delete_rows (\<lambda>r. mr_ts r < uint before) db)"
    by (rule rep_delete[OF R]) (simp add: row_rep_def Let_def word_less_def)
  then show ?thesis using do by (auto simp: CPurge cloud_do_def rsdk_meta_purge_def cloud_spec_def Let_def)
next
  case (CPut k doc len)
  obtain rc' n db'' where p: "rsdk_meta_put sql k doc len db = (rc', n, db'')" by (metis prod_cases3)
  then show ?thesis using rep_put[OF R _ p] ok do by (auto simp: CPut cloud_do_def op_ok_def cloud_spec_def)
qed

lemma rep_empty: "cloud_rep [] \<lparr>md_rows = [], md_last_id = 0\<rparr>"
  by (simp add: cloud_rep_def)

section \<open>What is read from it\<close>

lemma rep_get:
  assumes "cloud_rep L db"
  shows "rsdk_cloud_get sql eid db =
    (if \<not> sql 0 then Inl RSDK_E_DB else case find (\<lambda>e. entry_id e = eid) L of None \<Rightarrow> Inl RSDK_E_NOTFOUND | Some e \<Rightarrow> Inr (ce_ev e))"
proof -
  have f: "find (cloud_row eid) rs = find (cloud_row eid) (filter is_cloud rs)" for rs :: "jdoc meta_row list"
    by (induction rs) (auto simp: cloud_row_def is_cloud_def)
  have g: "(case find (cloud_row eid) rs of None \<Rightarrow> Inl RSDK_E_NOTFOUND | Some r \<Rightarrow> Inr (fill_event r)) =
      (case find (\<lambda>e. entry_id e = eid) L of None \<Rightarrow> Inl RSDK_E_NOTFOUND | Some e \<Rightarrow> Inr (ce_ev e))" if "list_all2 row_rep L rs" for rs
    using that by (induction rule: list_all2_induct) (auto simp: row_rep_id rep_fill)
  show ?thesis using g[of "filter is_cloud (md_rows db)"] assms f[of "md_rows db"] by (simp add: rsdk_cloud_get_def cloud_rep_def)
qed

lemma rep_wanted: "row_rep e r \<Longrightarrow> upload_wanted now opt r \<longleftrightarrow> entry_wanted now opt e"
  by (cases "ce_touched e")
    (auto simp: row_rep_def upload_wanted_def entry_wanted_def stale_upload_def coalesce_def Let_def state_code_def[of RSDK_CLOUD_PENDING])

lemma rep_insort:
  assumes "list_all2 row_rep L rs" "row_rep e r"
  shows "list_all2 row_rep (insort_key (\<lambda>e. cv_starttime (ce_ev e)) e L) (insort_key mr_ts r rs)"
proof -
  have k: "mr_ts r = uint (cv_starttime (ce_ev e))" if "row_rep e r" for e r using that by (simp add: row_rep_def Let_def)
  show ?thesis using assms by (induction rule: list_all2_induct) (auto simp: k word_le_def)
qed

lemma rep_sort: "list_all2 row_rep L rs \<Longrightarrow> list_all2 row_rep (sort_key (\<lambda>e. cv_starttime (ce_ev e)) L) (sort_key mr_ts rs)"
  by (induction rule: list_all2_induct) (auto simp: rep_insort)

lemma rep_enumerate:
  assumes "cloud_rep L db"
  shows "rsdk_cloud_enumerate_pending sql now (Some opt) cap db =
    (if cap \<le> 0 \<or> \<not> sql 0 then None
     else Some (map ce_ev (take (nat cap) (sort_key (\<lambda>e. cv_starttime (ce_ev e)) (filter (entry_wanted now opt) L)))))"
proof -
  have f: "filter (upload_wanted now opt) rs = filter (upload_wanted now opt) (filter is_cloud rs)" for rs
    by (induction rs) (auto simp: upload_wanted_def is_cloud_def Let_def)
  have "list_all2 row_rep (filter (entry_wanted now opt) L) (filter (upload_wanted now opt) rs)" if "list_all2 row_rep L rs" for rs
    using that by (induction rule: list_all2_induct) (auto simp: rep_wanted)
  then have "list_all2 row_rep (sort_key (\<lambda>e. cv_starttime (ce_ev e)) (filter (entry_wanted now opt) L))
      (select_by_ts (upload_wanted now opt) db)"
    using assms unfolding select_by_ts_def f[of "md_rows db"] by (intro rep_sort) (simp add: cloud_rep_def del: filter_filter)
  then have "list_all2 row_rep (take (nat cap) (sort_key (\<lambda>e. cv_starttime (ce_ev e)) (filter (entry_wanted now opt) L)))
      (take (nat cap) (select_by_ts (upload_wanted now opt) db))" by (rule list_all2_takeI)
  moreover have "map fill_event rs = map ce_ev M" if "list_all2 row_rep M rs" for M rs
    using that by (induction rule: list_all2_induct) (auto simp: rep_fill)
  ultimately show ?thesis by (simp add: rsdk_cloud_enumerate_pending_def)
qed

section \<open>Histories\<close>

text \<open>The store and the entries side by side; an operation that fails changes neither.\<close>

definition cloud_both :: "(nat \<Rightarrow> bool) \<times> cloud_op \<Rightarrow> jdoc meta_db \<times> cloud_entry list \<Rightarrow> jdoc meta_db \<times> cloud_entry list" where
  "cloud_both = (\<lambda>(sql, op) (db, L). case cloud_do sql op db of (rc, db') \<Rightarrow> (db', if rc = RSDK_OK then cloud_spec op L else L))"

definition new_store :: "jdoc meta_db \<times> cloud_entry list" where
  "new_store = (\<lparr>md_rows = [], md_last_id = 0\<rparr>, [])"

lemma both_rep:
  "cloud_rep L db \<Longrightarrow> list_all (\<lambda>x. op_ok (snd x)) ops \<Longrightarrow> fold cloud_both ops (db, L) = (db', L') \<Longrightarrow> cloud_rep L' db'"
proof (induction ops arbitrary: db L)
  case (Cons x ops)
  obtain sql op where x: "x = (sql, op)" by (cases x)
  obtain rc db1 where d: "cloud_do sql op db = (rc, db1)" by fastforce
  have "cloud_rep (if rc = RSDK_OK then cloud_spec op L else L) db1"
    using cloud_do_rep[OF Cons.prems(1) _ d] Cons.prems(2) x by simp
  then show ?case using Cons.IH Cons.prems(2,3) by (simp add: x cloud_both_def d)
qed simp

text \<open>An event whose state was set to UPLOADING, or was overwritten since.\<close>

definition held :: "u64 \<Rightarrow> cloud_entry list \<Rightarrow> bool" where
  "held eid L \<longleftrightarrow> list_all (\<lambda>e. entry_id e = eid \<longrightarrow> ce_touched e \<and> cv_state (ce_ev e) \<in> {RSDK_CLOUD_UPLOADING, RSDK_CLOUD_LOST}) L \<and>
     list_ex (\<lambda>e. entry_id e = eid) L"

definition leaves :: "u64 \<Rightarrow> cloud_op \<Rightarrow> bool" where
  "leaves eid op \<longleftrightarrow> (case op of CSetState now e st err \<Rightarrow> e \<noteq> eid | CPurge before \<Rightarrow> False | _ \<Rightarrow> True)"

lemma held_change:
  assumes "held eid L" "\<And>e. entry_id (g e) = entry_id e"
    "\<And>e. entry_id e = eid \<Longrightarrow> Q e \<Longrightarrow> ce_touched e \<Longrightarrow> cv_state (ce_ev e) \<in> {RSDK_CLOUD_UPLOADING, RSDK_CLOUD_LOST} \<Longrightarrow>
       ce_touched (g e) \<and> cv_state (ce_ev (g e)) \<in> {RSDK_CLOUD_UPLOADING, RSDK_CLOUD_LOST}"
  shows "held eid (change Q g L)"
proof -
  have "list_ex (\<lambda>e. entry_id e = eid) (change Q g M) = list_ex (\<lambda>e. entry_id e = eid) M" for M
    by (induction M) (auto simp: change_def assms(2))
  moreover have "list_all (\<lambda>e. entry_id e = eid \<longrightarrow> ce_touched e \<and> cv_state (ce_ev e) \<in> {RSDK_CLOUD_UPLOADING, RSDK_CLOUD_LOST}) (change Q g L)"
    unfolding list_all_iff change_def
  proof (intro ballI impI)
    fix x assume x: "x \<in> set (map (\<lambda>e. if Q e then g e else e) L)" "entry_id x = eid"
    then obtain e where e: "e \<in> set L" "x = (if Q e then g e else e)" by auto
    then have i: "entry_id e = eid" using x(2) assms(2) by (metis (full_types))
    then have h: "ce_touched e" "cv_state (ce_ev e) \<in> {RSDK_CLOUD_UPLOADING, RSDK_CLOUD_LOST}"
      using assms(1) e(1) by (auto simp: held_def list_all_iff)
    show "ce_touched x \<and> cv_state (ce_ev x) \<in> {RSDK_CLOUD_UPLOADING, RSDK_CLOUD_LOST}"
      using assms(3)[OF i _ h] h e(2) by (cases "Q e") simp_all
  qed
  ultimately show ?thesis using assms(1) by (simp add: held_def)
qed

lemma held_spec: "held eid L \<Longrightarrow> leaves eid op \<Longrightarrow> held eid (cloud_spec op L)"
proof (cases op)
  case (CBegin ev)
  assume h: "held eid L"
  have new: "eid \<noteq> cv_event_id ev" if "\<not> list_ex (\<lambda>e. entry_id e = cv_event_id ev) L" using h that by (auto simp: held_def)
  have "held eid (change (\<lambda>e. entry_id e = cv_event_id ev) (renewed ev) L)"
    using h by (rule held_change) (simp_all add: entry_ids, simp add: renewed_def)
  moreover have "held eid (L @ [fresh_entry ev])" if "\<not> list_ex (\<lambda>e. entry_id e = cv_event_id ev) L"
    using h new[OF that] by (simp add: held_def entry_ids)
  ultimately show ?thesis by (simp add: CBegin cloud_spec_def)
next
  case (CAddSeg e seg)
  assume h: "held eid L"
  then show ?thesis unfolding CAddSeg cloud_spec_def cloud_op.case by (rule held_change) (simp_all add: with_seg_def)
next
  case (CSetState now e st err)
  assume h: "held eid L" "leaves eid op"
  then show ?thesis unfolding CSetState cloud_spec_def cloud_op.case
    by (intro held_change) (simp_all add: entry_ids leaves_def CSetState)
next
  case (CReclaim disk chunk)
  assume h: "held eid L"
  then show ?thesis unfolding CReclaim cloud_spec_def cloud_op.case by (rule held_change) simp_all
qed (simp_all add: cloud_spec_def leaves_def)

lemma held_run:
  "held eid L \<Longrightarrow> list_all (\<lambda>x. leaves eid (snd x)) ops \<Longrightarrow> fold cloud_both ops (db, L) = (db', L') \<Longrightarrow> held eid L'"
proof (induction ops arbitrary: db L)
  case (Cons x ops)
  obtain sql op where x: "x = (sql, op)" by (cases x)
  obtain rc db1 where d: "cloud_do sql op db = (rc, db1)" by fastforce
  have "held eid (if rc = RSDK_OK then cloud_spec op L else L)" using Cons.prems(1,2) x held_spec by simp
  then show ?case using Cons.IH Cons.prems(2,3) by (simp add: x cloud_both_def d)
qed simp

section \<open>Properties\<close>

text \<open>C10: The store of upload states refines a list of events. After any history of registrations, segments, state changes, reclaimed chunks,
  purges and foreign documents, with SQL failures anywhere, reading an event gives exactly the entry that the successful operations make, and
  the uploader is given the first \<open>cap\<close> of the entries that wait, in the order of their start times.\<close>

theorem cloud_store_refines:
  assumes "list_all (\<lambda>x. op_ok (snd x)) ops" "fold cloud_both ops new_store = (db, L)"
  shows "distinct (map entry_id L) \<and>
    rsdk_cloud_get sql eid db =
      (if \<not> sql 0 then Inl RSDK_E_DB else case find (\<lambda>e. entry_id e = eid) L of None \<Rightarrow> Inl RSDK_E_NOTFOUND | Some e \<Rightarrow> Inr (ce_ev e)) \<and>
    rsdk_cloud_enumerate_pending sql now (Some opt) cap db =
      (if cap \<le> 0 \<or> \<not> sql 0 then None
       else Some (map ce_ev (take (nat cap) (sort_key (\<lambda>e. cv_starttime (ce_ev e)) (filter (entry_wanted now opt) L)))))"
proof -
  have R: "cloud_rep L db" using both_rep[OF rep_empty assms(1)] assms(2) by (simp add: new_store_def)
  show ?thesis using rep_get[OF R] rep_enumerate[OF R] R by (simp add: cloud_rep_def)
qed

definition demo_cloud :: "nat \<Rightarrow> rsdk_cloud_event" where
  "demo_cloud k = \<lparr>cv_event_id = of_nat (100 + k), cv_chn = 3, cv_rectype = 2, cv_starttime = of_nat (1700000000 - k), cv_end_time = 0,
     cv_state = RSDK_CLOUD_PENDING, cv_seg_id = 0, cv_disk = 0, cv_start_chunk = 0, cv_attempts = 0, cv_updated_ts = 0, cv_last_err = 0\<rparr>"

definition demo_ops :: "((nat \<Rightarrow> bool) \<times> cloud_op) list" where
  "demo_ops = [(\<lambda>i. True, CBegin (demo_cloud 0)), (\<lambda>i. True, CBegin (demo_cloud 1)), (\<lambda>i. False, CBegin (demo_cloud 2))]"

lemma demo_ops_ok: "list_all (\<lambda>x. op_ok (snd x)) demo_ops"
  by (simp add: demo_ops_def op_ok_def demo_cloud_def)

lemma demo_ops_run: "snd (fold cloud_both demo_ops new_store) = [fresh_entry (demo_cloud 0), fresh_entry (demo_cloud 1)]"
  by (simp add: demo_ops_def cloud_both_def cloud_do_def rsdk_cloud_event_begin_def new_store_def changes_def cloud_spec_def insert_row_def
    cloud_row_def demo_cloud_def fresh_entry_def Let_def)

lemma cloud_store_refines_witness:
  "rsdk_cloud_enumerate_pending (\<lambda>i. True) 1700000100 (Some default_poll) 32 (fst (fold cloud_both demo_ops new_store)) =
     Some [demo_cloud 1, demo_cloud 0]"
proof -
  obtain db L where r: "fold cloud_both demo_ops new_store = (db, L)" by fastforce
  then have L: "L = [fresh_entry (demo_cloud 0), fresh_entry (demo_cloud 1)]" using demo_ops_run by simp
  show ?thesis
    using cloud_store_refines[OF demo_ops_ok r, of "\<lambda>i. True" 0 1700000100 default_poll 32] r
    by (simp add: L entry_wanted_def fresh_entry_def demo_cloud_def default_poll_def)
qed

text \<open>C16: An interrupted upload is never resumed. Once an event that exists has been marked as being uploaded, then, as long as nobody
  sets its state again, no query gives it to an uploader any more, whatever time has passed and whatever age is asked
  for: the time of the last change is stored as a text, and for SQLite no text is less than a number.\<close>

theorem interrupted_upload_stuck:
  assumes "list_all (\<lambda>x. op_ok (snd x)) before" "fold cloud_both before new_store = (db0, L0)" "rsdk_cloud_get (\<lambda>i. True) eid db0 = Inr ev"
    "rsdk_cloud_set_state sql now eid RSDK_CLOUD_UPLOADING err db0 = (RSDK_OK, db1)"
    "list_all (\<lambda>x. op_ok (snd x) \<and> leaves eid (snd x)) since"
    "rsdk_cloud_enumerate_pending sql' later (Some opt) cap (fst (fold cloud_both since (db1, L))) = Some evs"
  shows "eid \<notin> cv_event_id ` set evs"
proof -
  define L1 where "L1 = cloud_spec (CSetState now eid RSDK_CLOUD_UPLOADING err) L0"
  have R0: "cloud_rep L0 db0" using both_rep[OF rep_empty assms(1)] assms(2) by (simp add: new_store_def)
  have R1: "cloud_rep L1 db1" using cloud_do_rep[OF R0, of "CSetState now eid RSDK_CLOUD_UPLOADING err" sql RSDK_OK db1] assms(4)
    by (simp add: op_ok_def cloud_do_def L1_def)
  have "find (\<lambda>e. entry_id e = eid) L0 \<noteq> None" using rep_get[OF R0, of "\<lambda>i. True" eid] assms(3) by (auto split: option.splits)
  then have "list_ex (\<lambda>e. entry_id e = eid) L0" by (auto simp: list_ex_iff find_None_iff)
  moreover have "list_ex (\<lambda>e. entry_id e = eid) (change Q (with_state now RSDK_CLOUD_UPLOADING err) M) = list_ex (\<lambda>e. entry_id e = eid) M" for Q M
    by (induction M) (auto simp: change_def entry_ids)
  ultimately have "list_ex (\<lambda>e. entry_id e = eid) L1" by (simp add: L1_def cloud_spec_def)
  moreover have "list_all (\<lambda>e. entry_id e = eid \<longrightarrow> ce_touched e \<and> cv_state (ce_ev e) \<in> {RSDK_CLOUD_UPLOADING, RSDK_CLOUD_LOST})
      (change (\<lambda>e. entry_id e = eid) (with_state now RSDK_CLOUD_UPLOADING err) M)" for M
    by (induction M) (simp_all add: change_def with_state_def)
  ultimately have "held eid L1" by (simp add: held_def L1_def cloud_spec_def)
  obtain db2 L2 where r: "fold cloud_both since (db1, L1) = (db2, L2)" by fastforce
  have same: "fst (fold cloud_both since (db1, L)) = fst (fold cloud_both since (db1, L1))"
  proof -
    have "fst (fold cloud_both xs (db, A)) = fst (fold cloud_both xs (db, B))" for xs db A B
      by (induction xs arbitrary: db A B) (auto simp: cloud_both_def split: prod.splits)
    then show ?thesis .
  qed
  have "list_all (\<lambda>x. op_ok (snd x)) since" "list_all (\<lambda>x. leaves eid (snd x)) since" using assms(5) by (simp_all add: list_all_iff)
  then have R2: "cloud_rep L2 db2" and h: "held eid L2" using both_rep[OF R1 _ r] held_run[OF \<open>held eid L1\<close> _ r] by simp_all
  let ?S = "sort_key (\<lambda>e. cv_starttime (ce_ev e)) (filter (entry_wanted later opt) L2)"
  have evs: "evs = map ce_ev (take (nat cap) ?S)"
    using assms(6) unfolding same r fst_conv rep_enumerate[OF R2] by (simp split: if_splits)
  show ?thesis
  proof
    assume "eid \<in> cv_event_id ` set evs"
    then obtain e where "e \<in> set (take (nat cap) ?S)" "entry_id e = eid" by (auto simp: evs)
    then have "e \<in> set L2" "entry_wanted later opt e" "entry_id e = eid" using in_set_takeD by fastforce+
    then show False using h by (auto simp: held_def list_all_iff entry_wanted_def)
  qed
qed

lemma interrupted_upload_stuck_witness:
  "\<exists>db1. rsdk_cloud_set_state (\<lambda>i. True) 1700000100 100 RSDK_CLOUD_UPLOADING 0 (fst (fold cloud_both demo_ops new_store)) = (RSDK_OK, db1) \<and>
     (\<exists>evs. rsdk_cloud_enumerate_pending (\<lambda>i. True) 1800000000 (Some \<lparr>co_include_failed = True, co_stale_uploading_s = 300, co_chn = -1\<rparr>) 32 db1 = Some evs \<and>
       100 \<notin> cv_event_id ` set evs)"
proof -
  obtain db L where r: "fold cloud_both demo_ops new_store = (db, L)" by fastforce
  then have L: "L = [fresh_entry (demo_cloud 0), fresh_entry (demo_cloud 1)]" using demo_ops_run by simp
  have R: "cloud_rep L db" using both_rep[OF rep_empty demo_ops_ok] r by (simp add: new_store_def)
  have "rsdk_cloud_get (\<lambda>i. True) 100 db = Inr (demo_cloud 0)"
    using rep_get[OF R, of "\<lambda>i. True" 100] by (simp add: L fresh_entry_def demo_cloud_def)
  moreover obtain db1 where s: "rsdk_cloud_set_state (\<lambda>i. True) 1700000100 100 RSDK_CLOUD_UPLOADING 0 db = (RSDK_OK, db1)"
    by (simp add: rsdk_cloud_set_state_def)
  moreover obtain evs where e: "rsdk_cloud_enumerate_pending (\<lambda>i. True) 1800000000
      (Some \<lparr>co_include_failed = True, co_stale_uploading_s = 300, co_chn = -1\<rparr>) 32 db1 = Some evs"
    by (simp add: rsdk_cloud_enumerate_pending_def)
  ultimately have "100 \<notin> cv_event_id ` set evs"
    using interrupted_upload_stuck[OF demo_ops_ok r, of 100 "demo_cloud 0" "\<lambda>i. True" 1700000100 0 db1 "[]"] by simp
  then show ?thesis using r s e by auto
qed

end
