(* ===== verification/App_Events.thy ===== *)
theory App_Events
  imports Nop_Event Rsdk_Cloud
begin

text \<open>
  app/record\_sched/nvr\_record\_sched.c and app/event/nvr\_event.c: the scheduler of event recordings, which registers cloud
  events in the store of Rsdk\_Cloud, and the event hub of the application, which passes detections on to the event hub of nop,
  to the scheduler and to the icons of the preview. The clock is an argument; what the preview is told is returned.
\<close>

section \<open>The recording scheduler\<close>

definition REC_MAX_CH :: int where "REC_MAX_CH = 32"

datatype nvr_stg_evt =
    NVR_STG_EVT_DISK_ADDED | NVR_STG_EVT_DISK_REMOVED | NVR_STG_EVT_DISK_FAILED | NVR_STG_EVT_FULL | NVR_STG_EVT_NEED_FORMAT

record rec_ch =
  rc_in_use :: bool
  rc_codec :: int
  rc_evt_active :: bool
  rc_evt_rectype :: int
  rc_evt_id :: u64
  rc_evt_start :: u32
  rc_evt_until :: int

record nvr_rec_sched =
  rs_group :: bool
  rs_meta :: bool
  rs_hdd_full_policy :: int
  rs_post_record_s :: int
  rs_ch :: "rec_ch list"
  rs_stopped :: bool

definition idle_ch :: rec_ch where
  "idle_ch = \<lparr>rc_in_use = False, rc_codec = 0, rc_evt_active = False, rc_evt_rectype = 0, rc_evt_id = 0, rc_evt_start = 0, rc_evt_until = 0\<rparr>"

definition nvr_rec_sched_init :: "bool \<Rightarrow> bool \<Rightarrow> int \<Rightarrow> int \<Rightarrow> nvr_rec_sched" where
  "nvr_rec_sched_init has_group has_meta policy post =
     \<lparr>rs_group = has_group, rs_meta = has_meta, rs_hdd_full_policy = policy, rs_post_record_s = (if post \<le> 0 then 10 else post),
      rs_ch = replicate (nat REC_MAX_CH) idle_ch, rs_stopped = False\<rparr>"

definition ch_of :: "int \<Rightarrow> nat option" where
  "ch_of chn = (if chn < 0 \<or> chn \<ge> REC_MAX_CH then None else Some (nat chn))"

definition nvr_rec_channel_up :: "int \<Rightarrow> int \<Rightarrow> nvr_rec_sched \<Rightarrow> int \<times> nvr_rec_sched" where
  "nvr_rec_channel_up chn codec r = (case ch_of chn of
     None \<Rightarrow> (-1, r)
   | Some i \<Rightarrow> (0, r\<lparr>rs_ch := (rs_ch r)[i := (rs_ch r ! i)\<lparr>rc_in_use := True, rc_codec := codec\<rparr>]\<rparr>))"

definition nvr_rec_channel_down :: "int \<Rightarrow> nvr_rec_sched \<Rightarrow> int \<times> nvr_rec_sched" where
  "nvr_rec_channel_down chn r = (case ch_of chn of
     None \<Rightarrow> (-1, r)
   | Some i \<Rightarrow> (0, r\<lparr>rs_ch := (rs_ch r)[i := (rs_ch r ! i)\<lparr>rc_in_use := False, rc_evt_active := False\<rparr>]\<rparr>))"

definition pending_event :: "u64 \<Rightarrow> int \<Rightarrow> int \<Rightarrow> u32 \<Rightarrow> rsdk_cloud_event" where
  "pending_event eid chn rectype start =
     \<lparr>cv_event_id = eid, cv_chn = chn, cv_rectype = of_int rectype, cv_starttime = start, cv_end_time = 0, cv_state = RSDK_CLOUD_PENDING,
      cv_seg_id = 0, cv_disk = 0, cv_start_chunk = 0, cv_attempts = 0, cv_updated_ts = 0, cv_last_err = 0\<rparr>"

definition nvr_rec_trigger_event ::
  "(nat \<Rightarrow> bool) \<Rightarrow> nat \<Rightarrow> int \<Rightarrow> int \<Rightarrow> u32 \<Rightarrow> nvr_rec_sched \<times> jdoc meta_db \<Rightarrow> u64 \<times> nvr_rec_sched \<times> jdoc meta_db" where
  "nvr_rec_trigger_event sql now chn rectype start_epoch = (\<lambda>(r, db).
     case ch_of chn of
       None \<Rightarrow> (0, r, db)
     | Some i \<Rightarrow>
         let c = rs_ch r ! i in
         if \<not> rc_in_use c then (0, r, db)
         else let start = (if start_epoch = 0 then of_nat now else start_epoch) in
           if rc_evt_active c \<and> rc_evt_rectype c = rectype
           then (rc_evt_id c, r\<lparr>rs_ch := (rs_ch r)[i := c\<lparr>rc_evt_until := int now + rs_post_record_s r\<rparr>]\<rparr>, db)
           else let eid = rsdk_cloud_make_event_id chn start rectype (of_nat now AND 0xFFFF);
                db = (if rs_meta r \<and> rs_group r \<and> \<not> rs_stopped r
                      then snd (rsdk_cloud_event_begin sql (pending_event eid chn rectype start) db) else db);
                c = c\<lparr>rc_evt_active := True, rc_evt_rectype := rectype, rc_evt_id := eid, rc_evt_start := start,
                  rc_evt_until := int now + rs_post_record_s r\<rparr>
              in (eid, r\<lparr>rs_ch := (rs_ch r)[i := c]\<rparr>, db))"

definition nvr_rec_on_storage_evt :: "nvr_stg_evt \<Rightarrow> nvr_rec_sched \<Rightarrow> nvr_rec_sched" where
  "nvr_rec_on_storage_evt e r =
     (if e = NVR_STG_EVT_FULL \<and> rs_hdd_full_policy r = uint RSDK_HDDFULL_STOP then r\<lparr>rs_stopped := True\<rparr> else r)"

definition nvr_rec_tick :: "nat \<Rightarrow> nvr_rec_sched \<Rightarrow> nvr_rec_sched" where
  "nvr_rec_tick now r =
     r\<lparr>rs_ch := map (\<lambda>c. if rc_evt_active c \<and> int now \<ge> rc_evt_until c then c\<lparr>rc_evt_active := False, rc_evt_id := 0\<rparr> else c) (rs_ch r)\<rparr>"

definition nvr_rec_is_recording :: "int \<Rightarrow> nvr_rec_sched \<Rightarrow> bool" where
  "nvr_rec_is_recording chn r = (case ch_of chn of
     None \<Rightarrow> False | Some i \<Rightarrow> rc_in_use (rs_ch r ! i) \<and> rs_group r \<and> \<not> rs_stopped r)"

definition nvr_rec_stopped :: "nvr_rec_sched \<Rightarrow> bool" where "nvr_rec_stopped r = rs_stopped r"

section \<open>The event hub of the application\<close>

definition EVT_MAX_CH :: int where "EVT_MAX_CH = 32"
definition ICON_DECAY_S :: int where "ICON_DECAY_S = 5"
definition NVR_ICON_MOTION :: u32 where "NVR_ICON_MOTION = 1"
definition NVR_ICON_HUMAN :: u32 where "NVR_ICON_HUMAN = 2"
definition NVR_ICON_FACE :: u32 where "NVR_ICON_FACE = 4"

record 'k nvr_evt_hub =
  eh_hub :: "'k nop_event_hub option"
  eh_rs :: "nvr_rec_sched option"
  eh_icons :: "(u32 \<times> int) list"

definition nvr_evt_init :: "'k nop_event_hub option \<Rightarrow> nvr_rec_sched option \<Rightarrow> 'k nvr_evt_hub" where
  "nvr_evt_init hub rs = \<lparr>eh_hub = hub, eh_rs = rs, eh_icons = replicate (nat EVT_MAX_CH) (0, 0)\<rparr>"

definition nvr_evt_rectype_of :: "nop_detect_type \<Rightarrow> int" where
  "nvr_evt_rectype_of t = (case t of
     NOP_DETECT_MOTION \<Rightarrow> RSDK_REC_MOTION | NOP_DETECT_PIXEL_CHANGE \<Rightarrow> RSDK_REC_MOTION | NOP_DETECT_HUMAN \<Rightarrow> RSDK_REC_HUMAN
   | NOP_DETECT_FACE \<Rightarrow> RSDK_REC_FACE | NOP_DETECT_VEHICLE \<Rightarrow> RSDK_REC_VEHICLE | NOP_DETECT_LINE_CROSS \<Rightarrow> RSDK_REC_LINECROSS
   | NOP_DETECT_FIELD_INTRUSION \<Rightarrow> RSDK_REC_INTRUSION | NOP_DETECT_ANIMAL \<Rightarrow> RSDK_REC_ANIMAL | NOP_DETECT_PACKAGE \<Rightarrow> RSDK_REC_PACKAGE
   | NOP_DETECT_DOORBELL_RING \<Rightarrow> RSDK_REC_DOORBELL | _ \<Rightarrow> -1)"

definition icon_of :: "nop_detect_type \<Rightarrow> u32" where
  "icon_of t = (case t of
     NOP_DETECT_MOTION \<Rightarrow> NVR_ICON_MOTION | NOP_DETECT_PIXEL_CHANGE \<Rightarrow> NVR_ICON_MOTION | NOP_DETECT_HUMAN \<Rightarrow> NVR_ICON_HUMAN
   | NOP_DETECT_FACE \<Rightarrow> NVR_ICON_FACE | _ \<Rightarrow> 0)"

text \<open>What an event causes: the sinks of the nop hub that are invoked with it, and the icons the preview is told.\<close>

record 'k effects =
  ef_sinks :: "('k \<times> nop_event) list"
  ef_icons :: "(nat \<times> u32) list"

definition plain_event :: "int \<Rightarrow> nop_detect_type \<Rightarrow> u64 \<Rightarrow> nop_event" where
  "plain_event chn t ts = \<lparr>ev_channel = chn, ev_type = t, ev_timestamp_ms = ts, ev_jpeg = None, ev_extra_json = None\<rparr>"

definition nvr_evt_ingest ::
  "(nat \<Rightarrow> bool) \<Rightarrow> nat \<Rightarrow> int \<Rightarrow> nop_detect_type \<Rightarrow> u64 \<Rightarrow> 'k nvr_evt_hub \<times> jdoc meta_db \<Rightarrow> int \<times> 'k effects \<times> 'k nvr_evt_hub \<times> jdoc meta_db" where
  "nvr_evt_ingest sql now chn t ts_ms = (\<lambda>(h, db).
     if chn < 0 \<or> chn \<ge> EVT_MAX_CH then (-1, \<lparr>ef_sinks = [], ef_icons = []\<rparr>, h, db)
     else let ev = plain_event chn t ts_ms;
          (sinks, h) = (case eh_hub h of None \<Rightarrow> ([], h) | Some hub \<Rightarrow> (case nop_event_publish hub ev of (ks, hub) \<Rightarrow> (ks, h\<lparr>eh_hub := Some hub\<rparr>)));
          rectype = nvr_evt_rectype_of t;
          (h, db) = (if 0 \<le> rectype then (case eh_rs h of None \<Rightarrow> (h, db)
             | Some r \<Rightarrow> (case nvr_rec_trigger_event sql now chn rectype (ucast (ts_ms div 1000)) (r, db) of (eid, r, db) \<Rightarrow> (h\<lparr>eh_rs := Some r\<rparr>, db)))
             else (h, db));
          bit = icon_of t;
          (icons, h) = (if bit \<noteq> 0 then (let b = fst (eh_icons h ! nat chn) OR bit in
             ([(nat chn, b)], h\<lparr>eh_icons := (eh_icons h)[nat chn := (b, int now)]\<rparr>)) else ([], h))
        in (0, \<lparr>ef_sinks = map (\<lambda>k. (k, ev)) sinks, ef_icons = icons\<rparr>, h, db))"

definition faded :: "nat \<Rightarrow> u32 \<times> int \<Rightarrow> bool" where
  "faded now x \<longleftrightarrow> fst x \<noteq> 0 \<and> int now - snd x \<ge> ICON_DECAY_S"

definition nvr_evt_tick :: "nat \<Rightarrow> 'k nvr_evt_hub \<Rightarrow> (nat \<times> u32) list \<times> 'k nvr_evt_hub" where
  "nvr_evt_tick now h =
     (map (\<lambda>i. (i, 0)) (filter (\<lambda>i. faded now (eh_icons h ! i)) [0..<length (eh_icons h)]),
      h\<lparr>eh_icons := map (\<lambda>x. if faded now x then (0, snd x) else x) (eh_icons h)\<rparr>)"

section \<open>Event ids\<close>

text \<open>The fields of an event id can be read back, so events that differ in one of them have different ids.\<close>

lemma event_id_bit:
  "bit (rsdk_cloud_make_event_id chn starttime rectype salt) n \<longleftrightarrow> n < 64 \<and>
     (if n < 32 then bit starttime n else if n < 48 then bit salt (n - 32)
      else if n < 56 then bit rectype (n - 48) else bit chn (n - 56))"
proof -
  have m: "x AND 0xFF = take_bit 8 x" "x AND 0xFFFF = take_bit 16 x" for x :: u64
    by (simp_all add: take_bit_eq_mask mask_eq_exp_minus_1)
  have l: "bit starttime k \<Longrightarrow> k < 32" "bit salt k \<Longrightarrow> k < 16" for k
    using bit_imp_le_length[of starttime k] bit_imp_le_length[of salt k] by simp_all
  show ?thesis
    unfolding rsdk_cloud_make_event_id_def m by (auto simp: bit_simps dest: l)
qed

lemma event_id_fields:
  "ucast (rsdk_cloud_make_event_id chn starttime rectype salt) = starttime"
  "ucast (drop_bit 32 (rsdk_cloud_make_event_id chn starttime rectype salt)) = salt"
  "0 \<le> rectype \<Longrightarrow> rectype < 256 \<Longrightarrow> uint (ucast (drop_bit 48 (rsdk_cloud_make_event_id chn starttime rectype salt)) :: u8) = rectype"
  "0 \<le> chn \<Longrightarrow> chn < 256 \<Longrightarrow> uint (drop_bit 56 (rsdk_cloud_make_event_id chn starttime rectype salt)) = chn"
proof -
  show "ucast (rsdk_cloud_make_event_id chn starttime rectype salt) = starttime"
    by (rule bit_word_eqI) (simp add: bit_simps event_id_bit)
  show "ucast (drop_bit 32 (rsdk_cloud_make_event_id chn starttime rectype salt)) = salt"
    by (rule bit_word_eqI) (simp add: bit_simps event_id_bit)
  have small: "\<not> bit k n" if "0 \<le> k" "k < 256" "8 \<le> n" for k :: int and n
    using that bit_take_bit_iff[of 8 k n] take_bit_int_eq_self[of k 8] by simp
  show "uint (ucast (drop_bit 48 (rsdk_cloud_make_event_id chn starttime rectype salt)) :: u8) = rectype" if "0 \<le> rectype" "rectype < 256"
  proof (rule bit_eqI)
    fix n show "bit (uint (ucast (drop_bit 48 (rsdk_cloud_make_event_id chn starttime rectype salt)) :: u8)) n = bit rectype n"
      using small[OF that, of n] by (cases "n < 8") (auto simp: bit_simps event_id_bit)
  qed
  show "uint (drop_bit 56 (rsdk_cloud_make_event_id chn starttime rectype salt)) = chn" if "0 \<le> chn" "chn < 256"
  proof (rule bit_eqI)
    fix n show "bit (uint (drop_bit 56 (rsdk_cloud_make_event_id chn starttime rectype salt))) n = bit chn n"
      using small[OF that, of n] by (cases "n < 8") (auto simp: bit_simps event_id_bit)
  qed
qed

section \<open>From a detection to the upload queue\<close>

lemma active_of_store [simp]: "active_sinks (store_event h e) = active_sinks h"
  by (simp add: active_sinks_def store_event_def)

lemma publish_sinks: "fst (nop_event_publish h e) = active_sinks h"
  by (simp add: nop_event_publish_def publish_begin_def Let_def)

lemma trigger_new:
  assumes "0 \<le> chn" "chn < REC_MAX_CH" "rc_in_use (rs_ch r ! nat chn)"
    "\<not> (rc_evt_active (rs_ch r ! nat chn) \<and> rc_evt_rectype (rs_ch r ! nat chn) = rectype)"
    "rs_meta r" "rs_group r" "\<not> rs_stopped r"
  and "st = (if stamp = 0 then of_nat now else stamp)"
  and "eid = rsdk_cloud_make_event_id chn st rectype (of_nat now AND 0xFFFF)"
  shows "nvr_rec_trigger_event sql now chn rectype stamp (r, db) =
    (eid, r\<lparr>rs_ch := (rs_ch r)[nat chn := (rs_ch r ! nat chn)\<lparr>rc_evt_active := True, rc_evt_rectype := rectype, rc_evt_id := eid,
       rc_evt_start := st, rc_evt_until := int now + rs_post_record_s r\<rparr>]\<rparr>,
     snd (rsdk_cloud_event_begin sql (pending_event eid chn rectype st) db))"
  using assms by (auto simp: nvr_rec_trigger_event_def ch_of_def Let_def)

lemma ingest_effect:
  assumes "0 \<le> chn" "chn < EVT_MAX_CH" "0 \<le> nvr_evt_rectype_of t" "eh_rs h = Some r"
    "nvr_rec_trigger_event sql now chn (nvr_evt_rectype_of t) (ucast (ts div 1000)) (r, db) = (eid, r', db1)"
  shows "\<exists>ef h'. nvr_evt_ingest sql now chn t ts (h, db) = (0, ef, h', db1) \<and> eh_rs h' = Some r' \<and>
    ef_sinks ef = (case eh_hub h of None \<Rightarrow> [] | Some hub \<Rightarrow> map (\<lambda>k. (k, plain_event chn t ts)) (active_sinks hub))"
proof (cases "eh_hub h")
  case None
  then show ?thesis using assms by (simp add: nvr_evt_ingest_def Let_def)
next
  case (Some hub)
  obtain ks hub' where p: "nop_event_publish hub (plain_event chn t ts) = (ks, hub')" by fastforce
  then have "ks = active_sinks hub" using publish_sinks[of hub "plain_event chn t ts"] by simp
  then show ?thesis using assms Some p by (simp add: nvr_evt_ingest_def Let_def)
qed

lemma find_append: "find P (xs @ ys) = (case find P xs of None \<Rightarrow> find P ys | Some x \<Rightarrow> Some x)"
  by (induction xs) simp_all

lemma begin_new:
  assumes R: "cloud_rep L db" and new: "rsdk_cloud_get (\<lambda>i. True) (cv_event_id ev) db = Inl RSDK_E_NOTFOUND"
    and ok: "cv_start_chunk ev < 2 ^ 63"
  shows "cloud_rep (L @ [fresh_entry ev]) (snd (rsdk_cloud_event_begin (\<lambda>i. True) ev db))"
proof -
  obtain rc db' where b: "rsdk_cloud_event_begin (\<lambda>i. True) ev db = (rc, db')" by fastforce
  have "\<not> list_ex (\<lambda>e. entry_id e = cv_event_id ev) L"
    using new rep_get[OF R, of "\<lambda>i. True"] by (auto simp: list_ex_iff find_None_iff split: option.splits)
  moreover have "rc = RSDK_OK" using b by (auto simp: rsdk_cloud_event_begin_def Let_def split: if_splits)
  ultimately show ?thesis using rep_begin[OF R ok b] b by (simp add: cloud_spec_def)
qed

text \<open>C18: A detection reaches the upload queue. When a detection that is worth a recording comes in on a channel in use and no event of its type is
  going on there, every subscriber of the nop hub is invoked with it, a cloud event with the id of channel, time and type is in
  the store, pending, every other event is as it was, and the next poll of an uploader gets it, if fewer than its limit wait.\<close>

theorem detection_queued:
  assumes "list_all (\<lambda>x. op_ok (snd x)) ops" "fold cloud_both ops new_store = (db, L)"
    "0 \<le> chn" "chn < REC_MAX_CH" "0 \<le> nvr_evt_rectype_of t" "eh_rs h = Some r" "rc_in_use (rs_ch r ! nat chn)"
    "\<not> (rc_evt_active (rs_ch r ! nat chn) \<and> rc_evt_rectype (rs_ch r ! nat chn) = nvr_evt_rectype_of t)"
    "rs_meta r" "rs_group r" "\<not> rs_stopped r"
    "st = (if ucast (ts div 1000) = (0 :: u32) then of_nat now else ucast (ts div 1000))"
    "eid = rsdk_cloud_make_event_id chn st (nvr_evt_rectype_of t) (of_nat now AND 0xFFFF)"
    "rsdk_cloud_get (\<lambda>i. True) eid db = Inl RSDK_E_NOTFOUND"
  shows "\<exists>ef h' db'. nvr_evt_ingest (\<lambda>i. True) now chn t ts (h, db) = (0, ef, h', db') \<and>
    ef_sinks ef = (case eh_hub h of None \<Rightarrow> [] | Some hub \<Rightarrow> map (\<lambda>k. (k, plain_event chn t ts)) (active_sinks hub)) \<and>
    (\<forall>e. rsdk_cloud_get (\<lambda>i. True) e db' =
       (if e = eid then Inr (pending_event eid chn (nvr_evt_rectype_of t) st) else rsdk_cloud_get (\<lambda>i. True) e db)) \<and>
    (\<forall>later cap. int (length (filter (entry_wanted later default_poll) L)) < cap \<longrightarrow>
       (\<exists>evs. rsdk_cloud_enumerate_pending (\<lambda>i. True) later (Some default_poll) cap db' = Some evs \<and>
          pending_event eid chn (nvr_evt_rectype_of t) st \<in> set evs))"
proof -
  let ?ev = "pending_event eid chn (nvr_evt_rectype_of t) st" and ?db = "snd (rsdk_cloud_event_begin (\<lambda>i. True) (pending_event eid chn (nvr_evt_rectype_of t) st) db)"
  have R: "cloud_rep L db" using both_rep[OF rep_empty assms(1)] assms(2) by (simp add: new_store_def)
  have id: "cv_event_id ?ev = eid" "cv_start_chunk ?ev < 2 ^ 63" by (simp_all add: pending_event_def)
  have R': "cloud_rep (L @ [fresh_entry ?ev]) ?db" using begin_new[OF R, of ?ev] assms(14) id by simp
  have fresh: "ce_ev (fresh_entry ?ev) = ?ev" "entry_wanted later default_poll (fresh_entry ?ev)" for later
    by (simp_all add: fresh_entry_def pending_event_def entry_wanted_def default_poll_def)
  have new: "find (\<lambda>e. entry_id e = eid) L = None" using assms(14) rep_get[OF R] by (auto split: option.splits)
  have get: "rsdk_cloud_get (\<lambda>i. True) e ?db = (if e = eid then Inr ?ev else rsdk_cloud_get (\<lambda>i. True) e db)" for e
    unfolding rep_get[OF R'] rep_get[OF R] using new fresh(1) id(1) by (simp add: find_append split: option.splits)
  have queue: "\<exists>evs. rsdk_cloud_enumerate_pending (\<lambda>i. True) later (Some default_poll) cap ?db = Some evs \<and> ?ev \<in> set evs"
    if "int (length (filter (entry_wanted later default_poll) L)) < cap" for later cap
  proof -
    let ?S = "sort_key (\<lambda>e. cv_starttime (ce_ev e)) (filter (entry_wanted later default_poll) (L @ [fresh_entry ?ev]))"
    have "length ?S \<le> nat cap" using that fresh(2) by simp
    then have "take (nat cap) ?S = ?S" by simp
    moreover have "fresh_entry ?ev \<in> set ?S" using fresh(2) by simp
    ultimately have "?ev \<in> set (map ce_ev (take (nat cap) ?S))" using fresh(1) by (metis image_eqI list.set_map)
    then show ?thesis using that unfolding rep_enumerate[OF R'] by auto
  qed
  have "nvr_rec_trigger_event (\<lambda>i. True) now chn (nvr_evt_rectype_of t) (ucast (ts div 1000)) (r, db) =
      (eid, r\<lparr>rs_ch := (rs_ch r)[nat chn := (rs_ch r ! nat chn)\<lparr>rc_evt_active := True, rc_evt_rectype := nvr_evt_rectype_of t, rc_evt_id := eid,
         rc_evt_start := st, rc_evt_until := int now + rs_post_record_s r\<rparr>]\<rparr>, ?db)"
    by (rule trigger_new[OF assms(3,4,7-13)])
  from ingest_effect[OF assms(3) _ assms(5,6) this] obtain ef h' where
    "nvr_evt_ingest (\<lambda>i. True) now chn t ts (h, db) = (0, ef, h', ?db)"
    "ef_sinks ef = (case eh_hub h of None \<Rightarrow> [] | Some hub \<Rightarrow> map (\<lambda>k. (k, plain_event chn t ts)) (active_sinks hub))"
    using assms(4) by (auto simp: EVT_MAX_CH_def REC_MAX_CH_def)
  then show ?thesis using get queue by blast
qed

definition demo_evt_hub :: "nat nvr_evt_hub" where
  "demo_evt_hub = nvr_evt_init (Some nop_event_hub_create) (Some (snd (nvr_rec_channel_up 3 1 (nvr_rec_sched_init True True 0 10))))"

lemma detection_queued_witness:
  "\<exists>ef h' db' evs. nvr_evt_ingest (\<lambda>i. True) 1700000001 3 NOP_DETECT_HUMAN 1700000000123 (demo_evt_hub, fst new_store) = (0, ef, h', db') \<and>
     rsdk_cloud_enumerate_pending (\<lambda>i. True) 1700000005 (Some default_poll) 32 db' = Some evs \<and> evs \<noteq> []"
proof -
  define r where "r = snd (nvr_rec_channel_up 3 1 (nvr_rec_sched_init True True 0 10))"
  have r: "eh_rs demo_evt_hub = Some r" "rs_meta r" "rs_group r" "\<not> rs_stopped r" "rc_in_use (rs_ch r ! nat 3)" "\<not> rc_evt_active (rs_ch r ! nat 3)"
    by (simp_all add: demo_evt_hub_def nvr_evt_init_def r_def nvr_rec_channel_up_def nvr_rec_sched_init_def ch_of_def REC_MAX_CH_def idle_ch_def)
  have f: "fold cloud_both [] new_store = (fst new_store, [])" by (simp add: new_store_def)
  have g: "rsdk_cloud_get (\<lambda>i. True) e (fst new_store) = Inl RSDK_E_NOTFOUND" for e by (simp add: rsdk_cloud_get_def new_store_def)
  have c: "0 \<le> (3 :: int)" "3 < REC_MAX_CH" "0 \<le> nvr_evt_rectype_of NOP_DETECT_HUMAN"
    by (simp_all add: REC_MAX_CH_def nvr_evt_rectype_of_def RSDK_REC_HUMAN_def)
  have "\<not> (rc_evt_active (rs_ch r ! nat 3) \<and> rc_evt_rectype (rs_ch r ! nat 3) = nvr_evt_rectype_of NOP_DETECT_HUMAN)" using r(6) by simp
  note D = detection_queued[OF _ f c r(1,5) this r(2-4) refl refl g, where ts = 1700000000123 and now = 1700000001]
  obtain ef h' db' where I: "nvr_evt_ingest (\<lambda>i. True) 1700000001 3 NOP_DETECT_HUMAN 1700000000123 (demo_evt_hub, fst new_store) = (0, ef, h', db')"
    and Q: "\<forall>later cap. int (length (filter (entry_wanted later default_poll) [])) < cap \<longrightarrow>
       (\<exists>evs. rsdk_cloud_enumerate_pending (\<lambda>i. True) later (Some default_poll) cap db' = Some evs \<and> (\<exists>x. x \<in> set evs))"
    using D by fastforce
  obtain evs where "rsdk_cloud_enumerate_pending (\<lambda>i. True) 1700000005 (Some default_poll) 32 db' = Some evs" "evs \<noteq> []"
    using Q[rule_format, of 1700000005 32] by (auto dest: length_pos_if_in_set)
  then show ?thesis using I by blast
qed

section \<open>One event per window\<close>

datatype rec_act = Detect nat u32 | RecTick nat

definition rec_do :: "(nat \<Rightarrow> bool) \<Rightarrow> int \<Rightarrow> int \<Rightarrow> rec_act \<Rightarrow> nvr_rec_sched \<times> jdoc meta_db \<Rightarrow> nvr_rec_sched \<times> jdoc meta_db" where
  "rec_do sql chn rectype a s = (case a of
     Detect now st \<Rightarrow> snd (nvr_rec_trigger_event sql now chn rectype st s)
   | RecTick now \<Rightarrow> (nvr_rec_tick now (fst s), snd s))"

text \<open>No tick comes at or after the end of the window, which every detection moves.\<close>

fun in_window :: "int \<Rightarrow> int \<Rightarrow> rec_act list \<Rightarrow> bool" where
  "in_window post until [] = True"
| "in_window post until (Detect now st # acts) = in_window post (int now + post) acts"
| "in_window post until (RecTick now # acts) = (int now < until \<and> in_window post until acts)"

fun window_end :: "int \<Rightarrow> int \<Rightarrow> rec_act list \<Rightarrow> int" where
  "window_end post until [] = until"
| "window_end post until (Detect now st # acts) = window_end post (int now + post) acts"
| "window_end post until (RecTick now # acts) = window_end post until acts"

definition going_on :: "int \<Rightarrow> int \<Rightarrow> u64 \<Rightarrow> int \<Rightarrow> int \<Rightarrow> nvr_rec_sched \<Rightarrow> bool" where
  "going_on chn rectype eid post until r \<longleftrightarrow> 0 \<le> chn \<and> chn < REC_MAX_CH \<and> length (rs_ch r) = nat REC_MAX_CH \<and> rs_post_record_s r = post \<and>
     (let c = rs_ch r ! nat chn in rc_in_use c \<and> rc_evt_active c \<and> rc_evt_rectype c = rectype \<and> rc_evt_id c = eid \<and> rc_evt_until c = until)"

lemma going_on_trigger:
  assumes "going_on chn rectype eid post until r"
  shows "\<exists>r'. nvr_rec_trigger_event sql now chn rectype st (r, db) = (eid, r', db) \<and> going_on chn rectype eid post (int now + post) r'"
  using assms by (auto simp: going_on_def nvr_rec_trigger_event_def ch_of_def REC_MAX_CH_def Let_def)

lemma tick_ch: "0 \<le> chn \<Longrightarrow> chn < 32 \<Longrightarrow> length (rs_ch r) = 32 \<Longrightarrow> rs_ch (nvr_rec_tick n r) ! nat chn =
    (let c = rs_ch r ! nat chn in if rc_evt_active c \<and> int n \<ge> rc_evt_until c then c\<lparr>rc_evt_active := False, rc_evt_id := 0\<rparr> else c)"
  by (simp add: nvr_rec_tick_def Let_def nat_less_iff)

lemma tick_keeps: "length (rs_ch (nvr_rec_tick n r)) = length (rs_ch r)" "rs_post_record_s (nvr_rec_tick n r) = rs_post_record_s r"
  by (simp_all add: nvr_rec_tick_def)

lemma going_on_tick: "going_on chn rectype eid post until r \<Longrightarrow> int now < until \<Longrightarrow> going_on chn rectype eid post until (nvr_rec_tick now r)"
  by (simp add: going_on_def tick_ch tick_keeps REC_MAX_CH_def Let_def)

lemma going_on_run:
  "going_on chn rectype eid post until r \<Longrightarrow> in_window post until acts \<Longrightarrow>
   \<exists>r'. fold (rec_do sql chn rectype) acts (r, db) = (r', db) \<and> going_on chn rectype eid post (window_end post until acts) r'"
proof (induction acts arbitrary: until r)
  case (Cons a acts)
  show ?case
  proof (cases a)
    case (Detect now st)
    obtain r1 where "nvr_rec_trigger_event sql now chn rectype st (r, db) = (eid, r1, db)" "going_on chn rectype eid post (int now + post) r1"
      using going_on_trigger[OF Cons.prems(1)] by blast
    then show ?thesis using Cons.IH[of "int now + post" r1] Cons.prems(2) by (simp add: Detect rec_do_def)
  next
    case (RecTick now)
    then show ?thesis using Cons.IH[OF going_on_tick[OF Cons.prems(1)]] Cons.prems(2) by (simp add: rec_do_def)
  qed
qed simp

text \<open>One cloud event per window. After a detection on a channel in use, further detections of the same type register nothing and report the same
  event, however often and however long, as long as no tick falls at or after the last detection plus the post-record time; the first
  tick that does ends the event, and the next detection starts a new one.\<close>

theorem one_event_per_window:
  assumes "0 \<le> chn" "chn < REC_MAX_CH" "length (rs_ch r) = nat REC_MAX_CH" "rc_in_use (rs_ch r ! nat chn)"
    "nvr_rec_trigger_event sql now chn rectype st (r, db) = (eid, r1, db1)" "in_window (rs_post_record_s r) (int now + rs_post_record_s r) acts"
  shows "\<exists>r2. fold (rec_do sql chn rectype) acts (r1, db1) = (r2, db1) \<and>
    (\<forall>n s. \<exists>r3. nvr_rec_trigger_event sql n chn rectype s (r2, db1) = (eid, r3, db1)) \<and>
    (\<forall>n. window_end (rs_post_record_s r) (int now + rs_post_record_s r) acts \<le> int n \<longrightarrow> \<not> rc_evt_active (rs_ch (nvr_rec_tick n r2) ! nat chn))"
proof -
  have g: "going_on chn rectype eid (rs_post_record_s r) (int now + rs_post_record_s r) r1"
    using assms(1-5) by (auto simp: going_on_def nvr_rec_trigger_event_def ch_of_def REC_MAX_CH_def Let_def split: if_splits)
  obtain r2 where r: "fold (rec_do sql chn rectype) acts (r1, db1) = (r2, db1)"
    "going_on chn rectype eid (rs_post_record_s r) (window_end (rs_post_record_s r) (int now + rs_post_record_s r) acts) r2"
    using going_on_run[OF g assms(6)] by blast
  have "\<exists>r3. nvr_rec_trigger_event sql n chn rectype s (r2, db1) = (eid, r3, db1)" for n s using going_on_trigger[OF r(2)] by blast
  moreover have "\<not> rc_evt_active (rs_ch (nvr_rec_tick n r2) ! nat chn)"
    if "window_end (rs_post_record_s r) (int now + rs_post_record_s r) acts \<le> int n" for n
    using r(2) that by (simp add: going_on_def tick_ch tick_keeps REC_MAX_CH_def Let_def)
  ultimately show ?thesis using r(1) by blast
qed

lemma one_event_per_window_witness:
  "\<exists>eid r1 db1 r2. nvr_rec_trigger_event (\<lambda>i. True) 100 3 2 100 (snd (nvr_rec_channel_up 3 1 (nvr_rec_sched_init True True 0 10)), fst new_store) = (eid, r1, db1) \<and>
     fold (rec_do (\<lambda>i. True) 3 2) [RecTick 109, Detect 109 109, RecTick 118] (r1, db1) = (r2, db1)"
proof -
  define r where "r = snd (nvr_rec_channel_up 3 1 (nvr_rec_sched_init True True 0 10))"
  have r: "0 \<le> (3 :: int)" "3 < REC_MAX_CH" "length (rs_ch r) = nat REC_MAX_CH" "rc_in_use (rs_ch r ! nat 3)"
    "in_window (rs_post_record_s r) (int 100 + rs_post_record_s r) [RecTick 109, Detect 109 109, RecTick 118]"
    by (simp_all add: r_def nvr_rec_channel_up_def nvr_rec_sched_init_def ch_of_def REC_MAX_CH_def)
  obtain eid r1 db1 where t: "nvr_rec_trigger_event (\<lambda>i. True) 100 3 2 100 (r, fst new_store) = (eid, r1, db1)" by (metis prod_cases3)
  from one_event_per_window[OF r(1-4) t r(5)] show ?thesis using t unfolding r_def by blast
qed

end
