(* ===== verification/Cloud_Queue.thy ===== *)
theory Cloud_Queue
  imports Rsdk_Cloud
begin

text \<open>
  The worker of the uploader (Cloud\_Upload) and the store of upload states (Rsdk\_Cloud) together: a turn of \<open>worker_main\<close>
  reads the waiting events from the store, and the state changes it reports are applied to the store. The list of calls
  goes on from turn to turn.
\<close>

section \<open>Turns of the worker\<close>

definition upload_opt :: cloud_poll_opt where
  "upload_opt = \<lparr>co_include_failed = True, co_stale_uploading_s = 300, co_chn = -1\<rparr>"

definition store_call :: "nat \<Rightarrow> cloud_call \<Rightarrow> jdoc meta_db \<Rightarrow> jdoc meta_db" where
  "store_call now c db = (case c of SetState eid st err \<Rightarrow> snd (rsdk_cloud_set_state (\<lambda>i. True) now eid st err db) | _ \<Rightarrow> db)"

definition worker_turn ::
  "vsaas \<Rightarrow> (nat \<Rightarrow> bool) \<Rightarrow> nat \<Rightarrow> nvr_cloud_uploader \<times> jdoc meta_db \<times> cloud_call list \<Rightarrow>
   (nvr_cloud_uploader \<times> jdoc meta_db \<times> cloud_call list) option" where
  "worker_turn v stop now = (\<lambda>(up, db, log).
     case rsdk_cloud_enumerate_pending (\<lambda>i. True) now (Some upload_opt) 32 db of
       None \<Rightarrow> Some (up, db, log)
     | Some pend \<Rightarrow>
         (case worker_poll v stop pend up log of
            None \<Rightarrow> None
          | Some (up, log') \<Rightarrow> Some (up, fold (store_call now) (drop (length log) log') db, log')))"

fun worker_turns ::
  "vsaas \<Rightarrow> (nat \<Rightarrow> nat \<Rightarrow> bool) \<Rightarrow> nat list \<Rightarrow> nvr_cloud_uploader \<times> jdoc meta_db \<times> cloud_call list \<Rightarrow>
   (nvr_cloud_uploader \<times> jdoc meta_db \<times> cloud_call list) option" where
  "worker_turns v stop [] s = Some s"
| "worker_turns v stop (now # nows) s = (case worker_turn v (stop now) now s of None \<Rightarrow> None | Some s \<Rightarrow> worker_turns v stop nows s)"

section \<open>What processing an event reports\<close>

definition reports :: "u64 \<Rightarrow> cloud_call list \<Rightarrow> bool" where
  "reports eid cs \<longleftrightarrow> list_all (\<lambda>c. case c of SetState i st err \<Rightarrow> i = eid | _ \<Rightarrow> True) cs"

definition no_recording :: "rsdk_group \<Rightarrow> rsdk_cloud_event \<Rightarrow> bool" where
  "no_recording g ev \<longleftrightarrow> rsdk_group_query g (cv_starttime ev) (cv_starttime ev + 300) (cv_chn ev) RSDK_REC_CONTINUOUS 64 = []"

lemma reports_simps [simp]: "reports eid []" "reports eid (cs @ ds) \<longleftrightarrow> reports eid cs \<and> reports eid ds"
  "reports eid (SetState i st err # cs) \<longleftrightarrow> i = eid \<and> reports eid cs" "reports eid (GetUrl a b c d e f # cs) \<longleftrightarrow> reports eid cs"
  "reports eid (map PostTs ps)"
  by (auto simp: reports_def list_all_iff)

lemma process_reports:
  assumes "process_event v up ev stoken calls = Some (rc, calls')"
  shows "\<exists>new. calls' = calls @ new \<and> reports (cv_event_id ev) new \<and>
    (no_recording (up_group up) ev \<longrightarrow> new = [SetState (cv_event_id ev) RSDK_CLOUD_UPLOADING 0, SetState (cv_event_id ev) RSDK_CLOUD_FAILED (-1)])"
proof (cases "no_recording (up_group up) ev")
  case True
  then show ?thesis using assms by (auto simp: process_event_def no_recording_def Let_def)
next
  case False
  have loop: "\<exists>ps. ul_calls u = calls @ [SetState (cv_event_id ev) RSDK_CLOUD_UPLOADING 0, r] @ map PostTs ps"
    if "upload_loop v ms url base (up_group up) pl (upload_start (calls @ [SetState (cv_event_id ev) RSDK_CLOUD_UPLOADING 0, r])) = Some u"
    for ms url base pl r u
    using upload_loop_calls[OF that] by (simp add: upload_start_def)
  show ?thesis
    using assms False
    by (auto simp: process_event_def no_recording_def Let_def split: option.splits sum.splits if_splits dest!: loop)
qed

section \<open>What the reports do to the store\<close>

text \<open>Reports leave id, channel and start time of every entry, and touch only the entry they name.\<close>

definition key_of :: "cloud_entry \<Rightarrow> u64 \<times> int \<times> u32" where
  "key_of e = (entry_id e, cv_chn (ce_ev e), cv_starttime (ce_ev e))"

fun report_entry :: "nat \<Rightarrow> cloud_call \<Rightarrow> cloud_entry list \<Rightarrow> cloud_entry list" where
  "report_entry now (SetState eid st err) L = change (\<lambda>e. entry_id e = eid) (with_state now st err) L"
| "report_entry now _ L = L"

lemma store_call_rep:
  assumes "cloud_rep L db"
  shows "cloud_rep (report_entry now c L) (store_call now c db)"
proof (cases c)
  case (SetState eid st err)
  have "cloud_do (\<lambda>i. True) (CSetState now eid st err) db = (RSDK_OK, store_call now c db)"
    by (simp add: SetState store_call_def cloud_do_def rsdk_cloud_set_state_def)
  from cloud_do_rep[OF assms _ this] show ?thesis by (simp add: SetState op_ok_def cloud_spec_def)
qed (use assms in \<open>simp_all add: store_call_def\<close>)

lemma store_calls_rep: "cloud_rep L db \<Longrightarrow> cloud_rep (fold (report_entry now) cs L) (fold (store_call now) cs db)"
  by (induction cs arbitrary: L db) (simp_all add: store_call_rep)

lemma change_keys: "map key_of (change Q (with_state now st err) L) = map key_of L"
  by (simp add: change_def key_of_def with_state_def)

lemma report_keys: "map key_of (report_entry now c L) = map key_of L"
  by (cases c) (simp_all add: change_keys)

lemma reports_keys: "map key_of (fold (report_entry now) cs L) = map key_of L"
  by (induction cs arbitrary: L) (simp_all add: report_keys)

lemma reports_others: "reports eid cs \<Longrightarrow> entry_id e \<noteq> eid \<Longrightarrow> e \<in> set (fold (report_entry now) cs L) \<longleftrightarrow> e \<in> set L"
proof (induction cs arbitrary: L)
  case (Cons c cs)
  have "e \<in> set (report_entry now c L) \<longleftrightarrow> e \<in> set L"
    using Cons.prems by (cases c) (auto simp: reports_def change_def with_state_def image_iff)
  then show ?case using Cons by (simp add: reports_def)
qed simp

text \<open>Entries that wait in vain: their recording is gone.\<close>

definition waiting :: "cloud_entry \<Rightarrow> bool" where
  "waiting e \<longleftrightarrow> cv_state (ce_ev e) \<in> {RSDK_CLOUD_PENDING, RSDK_CLOUD_FAILED}"

definition hopeless :: "rsdk_group \<Rightarrow> u32 \<Rightarrow> cloud_entry \<Rightarrow> bool" where
  "hopeless g t e \<longleftrightarrow> waiting e \<and> cv_starttime (ce_ev e) < t \<and> no_recording g (ce_ev e)"

lemma hopeless_key: "no_recording g ev \<longleftrightarrow> no_recording g ev'" if "cv_chn ev = cv_chn ev'" "cv_starttime ev = cv_starttime ev'"
  by (simp add: no_recording_def that)

text \<open>The entries whose ids are in \<open>ids\<close> wait; ids, channels and start times are those of \<open>L0\<close>; entry \<open>e\<close> is there.\<close>

definition clogged :: "u64 set \<Rightarrow> cloud_entry list \<Rightarrow> cloud_entry \<Rightarrow> jdoc meta_db \<Rightarrow> bool" where
  "clogged ids L0 e db \<longleftrightarrow> (\<exists>L. cloud_rep L db \<and> map key_of L = map key_of L0 \<and> e \<in> set L \<and> (\<forall>x \<in> set L. entry_id x \<in> ids \<longrightarrow> waiting x))"

lemma clogged_event:
  assumes "clogged ids L0 e db" "x0 \<in> set L0" "entry_id x0 = cv_event_id ev" "cv_event_id ev \<noteq> entry_id e"
    "entry_id x0 \<in> ids \<Longrightarrow> new = [SetState (cv_event_id ev) RSDK_CLOUD_UPLOADING 0, SetState (cv_event_id ev) RSDK_CLOUD_FAILED (-1)]"
    "reports (cv_event_id ev) new"
  shows "clogged ids L0 e (fold (store_call now) new db)"
proof -
  obtain L where L: "cloud_rep L db" "map key_of L = map key_of L0" "e \<in> set L" "\<forall>x \<in> set L. entry_id x \<in> ids \<longrightarrow> waiting x"
    using assms(1) by (auto simp: clogged_def)
  let ?L = "fold (report_entry now) new L"
  have "waiting x" if x: "x \<in> set ?L" "entry_id x \<in> ids" for x
  proof (cases "entry_id x = cv_event_id ev")
    case True
    then have "new = [SetState (cv_event_id ev) RSDK_CLOUD_UPLOADING 0, SetState (cv_event_id ev) RSDK_CLOUD_FAILED (-1)]"
      using assms(3,5) x(2) by simp
    then show ?thesis using x(1) True by (auto simp: change_def waiting_def with_state_def split: if_splits)
  next
    case False
    then show ?thesis using reports_others[OF assms(6), of x] x L(4) by auto
  qed
  then show ?thesis
    using store_calls_rep[OF L(1)] reports_keys[of now new L] L(2,3) reports_others[OF assms(6), of e now L] assms(4)
    unfolding clogged_def by (intro exI[of _ ?L]) auto
qed

section \<open>A clogged queue\<close>

lemma take_sorted_below:
  fixes k :: "'a \<Rightarrow> 'b::linorder"
  shows "sorted (map k xs) \<Longrightarrow> n \<le> length (filter (\<lambda>x. k x < t) xs) \<Longrightarrow> x \<in> set (take n xs) \<Longrightarrow> k x < t"
proof (induction xs arbitrary: n)
  case (Cons y ys)
  show ?case
  proof (cases "k y < t")
    case True
    then show ?thesis using Cons by (cases n) auto
  next
    case False
    then have "filter (\<lambda>x. k x < t) (y # ys) = []" using Cons.prems(1) by (auto simp: filter_empty_conv)
    then show ?thesis using Cons.prems(2,3) by simp
  qed
qed simp

definition named :: "cloud_entry list \<Rightarrow> cloud_entry \<Rightarrow> rsdk_cloud_event \<Rightarrow> bool" where
  "named L0 e ev \<longleftrightarrow> cv_event_id ev \<noteq> entry_id e \<and> (\<exists>x0 \<in> set L0. key_of x0 = (cv_event_id ev, cv_chn ev, cv_starttime ev))"

lemma poll_loop_clogged:
  assumes "list_all (named L0 e) evs" "clogged ids L0 e db" "poll_loop v stop stoken i evs up calls = Some (up', calls')"
    "\<forall>x \<in> set L0. entry_id x \<in> ids \<longrightarrow> no_recording (up_group up) (ce_ev x)"
  shows "\<exists>new. calls' = calls @ new \<and> clogged ids L0 e (fold (store_call now) new db) \<and>
    (\<forall>st err. SetState (entry_id e) st err \<notin> set new) \<and> up_group up' = up_group up"
  using assms
proof (induction v stop stoken i evs up calls arbitrary: db rule: poll_loop.induct)
  case (2 v stop stoken i ev evs up calls)
  show ?case
  proof (cases "stop i")
    case True
    then show ?thesis using "2.prems" by auto
  next
    case False
    then obtain rc calls1 where p: "process_event v up ev stoken calls = Some (rc, calls1)"
      using "2.prems"(3) by (auto split: option.splits)
    obtain new where new: "calls1 = calls @ new" "reports (cv_event_id ev) new"
      "no_recording (up_group up) ev \<longrightarrow> new = [SetState (cv_event_id ev) RSDK_CLOUD_UPLOADING 0, SetState (cv_event_id ev) RSDK_CLOUD_FAILED (-1)]"
      using process_reports[OF p] by blast
    obtain x0 where x0: "x0 \<in> set L0" "entry_id x0 = cv_event_id ev" "cv_chn (ce_ev x0) = cv_chn ev" "cv_starttime (ce_ev x0) = cv_starttime ev"
      and ne: "cv_event_id ev \<noteq> entry_id e"
      using "2.prems"(1) by (auto simp: named_def key_of_def)
    have "new = [SetState (cv_event_id ev) RSDK_CLOUD_UPLOADING 0, SetState (cv_event_id ev) RSDK_CLOUD_FAILED (-1)]" if "entry_id x0 \<in> ids"
      using "2.prems"(4) that x0 hopeless_key[OF x0(3,4)] new(3) by blast
    note C = clogged_event[OF "2.prems"(2) x0(1,2) ne this new(2), of now]
    have n: "SetState (entry_id e) st err \<notin> set new" for st err using new(2) ne by (auto simp: reports_def list_all_iff split: cloud_call.splits)
    show ?thesis
    proof (cases "rc = -1000")
      case True
      then show ?thesis using "2.prems"(3) False p new(1) C n
        by (auto simp: nvr_cloud_uploader_force_off_def nvr_cloud_uploader_set_switch_def)
    next
      case rc: False
      then have "poll_loop v stop stoken (Suc i) evs up calls1 = Some (up', calls')" using "2.prems"(3) False p by simp
      from "2.IH"[OF False p refl rc _ C this "2.prems"(4)] "2.prems"(1) obtain rest where
        "calls' = calls1 @ rest" "clogged ids L0 e (fold (store_call now) rest (fold (store_call now) new db))"
        "\<forall>st err. SetState (entry_id e) st err \<notin> set rest" "up_group up' = up_group up" by auto
      then show ?thesis using new(1) n by (intro exI[of _ "new @ rest"]) auto
    qed
  qed
qed auto

lemma turn_clogged:
  assumes "clogged ids L0 e db" "worker_turn v stop now (up, db, lg) = Some (up', db', log')"
    "\<forall>x \<in> set L0. entry_id x \<in> ids \<longrightarrow> no_recording (up_group up) (ce_ev x) \<and> cv_starttime (ce_ev x) < t"
    "32 \<le> length (filter (\<lambda>x. entry_id x \<in> ids) L0)" "t \<le> cv_starttime (ce_ev e)"
  shows "clogged ids L0 e db' \<and> up_group up' = up_group up \<and> (\<exists>new. log' = lg @ new \<and> (\<forall>st err. SetState (entry_id e) st err \<notin> set new))"
proof -
  obtain L where L: "cloud_rep L db" "map key_of L = map key_of L0" "e \<in> set L" "\<forall>x \<in> set L. entry_id x \<in> ids \<longrightarrow> waiting x"
    using assms(1) by (auto simp: clogged_def)
  let ?k = "\<lambda>e. cv_starttime (ce_ev e)"
  define S where "S = sort_key ?k (filter (entry_wanted now upload_opt) L)"
  have pend: "rsdk_cloud_enumerate_pending (\<lambda>i. True) now (Some upload_opt) 32 db = Some (map ce_ev (take 32 S))"
    unfolding S_def rep_enumerate[OF L(1)] by simp
  have key: "\<exists>x0 \<in> set L0. key_of x0 = key_of x" if "x \<in> set L" for x using L(2) that by (metis imageE image_eqI list.set_map)
  have early: "entry_id x \<in> ids \<Longrightarrow> entry_wanted now upload_opt x \<and> ?k x < t" if xl: "x \<in> set L" for x
  proof -
    assume i: "entry_id x \<in> ids"
    obtain x0 where "x0 \<in> set L0" "key_of x0 = key_of x" using key[OF xl] by blast
    then have "?k x < t" using assms(3) i by (auto simp: key_of_def)
    moreover have "waiting x" using L(4) xl i by simp
    ultimately show "entry_wanted now upload_opt x \<and> ?k x < t" by (auto simp: waiting_def entry_wanted_def upload_opt_def)
  qed
  have "map entry_id L = map entry_id L0" using arg_cong[OF L(2), of "map fst"] by (simp add: key_of_def comp_def)
  then have a: "length (filter (\<lambda>x. entry_id x \<in> ids) L) = length (filter (\<lambda>x. entry_id x \<in> ids) L0)"
  proof -
    assume m: "map entry_id L = map entry_id L0"
    have l: "length (filter (\<lambda>x. entry_id x \<in> ids) M) = length (filter (\<lambda>i. i \<in> ids) (map entry_id M))" for M
      by (induction M) simp_all
    show ?thesis unfolding l m ..
  qed
  have b: "length (filter (\<lambda>x. entry_id x \<in> ids) M) \<le> length (filter (\<lambda>x. ?k x < t) (filter (entry_wanted now upload_opt) M))"
    if "set M \<subseteq> set L" for M using that early by (induction M) auto
  have "32 \<le> length (filter (\<lambda>x. ?k x < t) (filter (entry_wanted now upload_opt) L))" using assms(4) a b[OF order_refl] by linarith
  also have "\<dots> = length (filter (\<lambda>x. ?k x < t) S)" by (simp add: S_def filter_sort del: filter_filter)
  finally have first: "?k x < t" if "x \<in> set (take 32 S)" for x using take_sorted_below[of ?k S 32 t x] that by (simp add: S_def)
  have dist: "x = y" if "x \<in> set L" "y \<in> set L" "entry_id x = entry_id y" for x y
    using L(1) that by (auto simp: cloud_rep_def distinct_map inj_on_def)
  have nm: "named L0 e (ce_ev x)" if x: "x \<in> set (take 32 S)" for x
  proof -
    have "x \<in> set L" using set_take_subset[of 32 S] x by (auto simp: S_def)
    then show ?thesis using first[OF x] assms(5) dist[of x e] L(3) key[of x] by (auto simp: named_def key_of_def)
  qed
  then have nam: "list_all (named L0 e) (map ce_ev (take 32 S))" by (simp add: list_all_iff)
  define evs where "evs = map ce_ev (take 32 S)"
  obtain log1 where w: "worker_poll v stop evs up lg = Some (up', log1)"
      "db' = fold (store_call now) (drop (length lg) log1) db" "log' = log1"
    using assms(2) unfolding worker_turn_def prod.case pend evs_def[symmetric] by (auto split: option.splits)
  have t: "take 32 evs = evs" by (simp add: evs_def)
  have P: "worker_poll v stop evs up lg = (if up_running up \<and> up_sw_on up \<and> up_stoken up \<noteq> ''''
      then poll_loop v stop (up_stoken up) 0 evs up lg else Some (up, lg))"
    unfolding worker_poll_def t by simp
  consider "up' = up" "log1 = lg" | "poll_loop v stop (up_stoken up) 0 evs up lg = Some (up', log1)"
    using w(1) unfolding P by (cases "up_running up \<and> up_sw_on up \<and> up_stoken up \<noteq> ''''") simp_all
  then show ?thesis
  proof cases
    case 1
    then show ?thesis using assms(1) w by auto
  next
    case 2
    from poll_loop_clogged[OF nam[folded evs_def] assms(1) this, of now] assms(3) w show ?thesis by auto
  qed
qed

lemma turns_clogged:
  assumes "worker_turns v stop nows (up, db, lg) = Some (up', db', log')" "clogged ids L0 e db"
    "\<forall>x \<in> set L0. entry_id x \<in> ids \<longrightarrow> no_recording (up_group up) (ce_ev x) \<and> cv_starttime (ce_ev x) < t"
    "32 \<le> length (filter (\<lambda>x. entry_id x \<in> ids) L0)" "t \<le> cv_starttime (ce_ev e)"
  shows "clogged ids L0 e db' \<and> (\<exists>new. log' = lg @ new \<and> (\<forall>st err. SetState (entry_id e) st err \<notin> set new))"
  using assms(1-3)
proof (induction nows arbitrary: up db lg)
  case (Cons now nows)
  obtain up1 db1 log1 where t: "worker_turn v (stop now) now (up, db, lg) = Some (up1, db1, log1)"
    "worker_turns v stop nows (up1, db1, log1) = Some (up', db', log')"
    using Cons.prems(1) by (auto split: option.splits)
  note T = turn_clogged[OF Cons.prems(2) t(1) Cons.prems(3) assms(4,5)]
  then have "clogged ids L0 e db' \<and> (\<exists>new. log' = log1 @ new \<and> (\<forall>st err. SetState (entry_id e) st err \<notin> set new))"
    using Cons.IH[OF t(2)] Cons.prems(3) by simp
  then show ?case using T by auto
qed auto

section \<open>Properties\<close>

text \<open>C15: A clogged queue. If 32 events that wait for their upload are older than an event and nothing is recorded any more at their times, then
  that event is never uploaded, however often the worker polls and whatever the server answers: its entry stays as it is
  and no call about it is made. The worker takes the 32 oldest events of every poll, and an event without a recording goes back into the queue as failed.\<close>

theorem queue_starves:
  assumes "list_all (\<lambda>x. op_ok (snd x)) ops" "fold cloud_both ops new_store = (db, L)"
    "32 \<le> length (filter (hopeless (up_group up) t) L)" "e \<in> set L" "t \<le> cv_starttime (ce_ev e)"
    "worker_turns v stop nows (up, db, calls) = Some (up', db', calls')"
  shows "rsdk_cloud_get (\<lambda>i. True) (entry_id e) db' = Inr (ce_ev e) \<and>
    (\<exists>new. calls' = calls @ new \<and> (\<forall>st err. SetState (entry_id e) st err \<notin> set new))"
proof -
  define ids where "ids = entry_id ` set (filter (hopeless (up_group up) t) L)"
  have R: "cloud_rep L db" using both_rep[OF rep_empty assms(1)] assms(2) by (simp add: new_store_def)
  then have dist: "x = y" if "x \<in> set L" "y \<in> set L" "entry_id x = entry_id y" for x y
    using that by (auto simp: cloud_rep_def distinct_map inj_on_def)
  have h: "hopeless (up_group up) t x" if "x \<in> set L" "entry_id x \<in> ids" for x
    using that dist[OF that(1)] by (auto simp: ids_def)
  then have C: "clogged ids L e db" using R assms(4) by (auto simp: clogged_def hopeless_def)
  have "length (filter (hopeless (up_group up) t) M) \<le> length (filter (\<lambda>x. entry_id x \<in> ids) M)" if "set M \<subseteq> set L" for M
    using that by (induction M) (auto simp: ids_def)
  then have n: "32 \<le> length (filter (\<lambda>x. entry_id x \<in> ids) L)" using assms(3) by (meson order_refl order_trans)
  have q: "\<forall>x \<in> set L. entry_id x \<in> ids \<longrightarrow> no_recording (up_group up) (ce_ev x) \<and> cv_starttime (ce_ev x) < t"
    using h by (auto simp: hopeless_def)
  note T = turns_clogged[OF assms(6) C q n assms(5)]
  then obtain L' where L': "cloud_rep L' db'" "e \<in> set L'" by (auto simp: clogged_def)
  have "find (\<lambda>x. entry_id x = entry_id e) L' = Some e"
  proof -
    obtain y where y: "find (\<lambda>x. entry_id x = entry_id e) L' = Some y"
      using L'(2) by (cases "find (\<lambda>x. entry_id x = entry_id e) L'") (auto simp: find_None_iff)
    then have "y \<in> set L'" "entry_id y = entry_id e" by (auto simp: find_Some_iff)
    then show ?thesis using y L' by (auto simp: cloud_rep_def distinct_map inj_on_def)
  qed
  then have "rsdk_cloud_get (\<lambda>i. True) (entry_id e) db' = Inr (ce_ev e)" using rep_get[OF L'(1)] by simp
  then show ?thesis using T by blast
qed

lemma begin_run:
  "cloud_rep L db \<Longrightarrow> distinct (map entry_id L @ map cv_event_id evs) \<Longrightarrow> list_all (\<lambda>ev. cv_start_chunk ev < 2 ^ 63) evs \<Longrightarrow>
   snd (fold cloud_both (map (\<lambda>ev. (\<lambda>i. True, CBegin ev)) evs) (db, L)) = L @ map fresh_entry evs"
proof (induction evs arbitrary: L db)
  case (Cons ev evs)
  obtain rc db' where b: "rsdk_cloud_event_begin (\<lambda>i. True) ev db = (rc, db')" by fastforce
  then have rc: "rc = RSDK_OK" by (auto simp: rsdk_cloud_event_begin_def Let_def split: if_splits)
  have new: "\<not> list_ex (\<lambda>e. entry_id e = cv_event_id ev) L" using Cons.prems(2) by (auto simp: list_ex_iff image_iff)
  then have R: "cloud_rep (L @ [fresh_entry ev]) db'" using rep_begin[OF Cons.prems(1) _ b] Cons.prems(3) rc by (simp add: cloud_spec_def)
  show ?case using Cons.IH[OF R] Cons.prems(2,3) new b rc by (simp add: cloud_both_def cloud_do_def cloud_spec_def entry_ids)
qed simp

definition demo_uploader :: nvr_cloud_uploader where
  "demo_uploader = (nvr_cloud_uploader_start \<lparr>uc_udid = ''U'', uc_stage = 0, uc_worker_count = 1, uc_poll_interval_s = 5, uc_slice_ms = 0\<rparr>
     \<lparr>gr_devs = [], gr_rr = 0\<rparr> (Some ''T''))\<lparr>up_sw_on := True\<rparr>"

lemma demo_query: "no_recording (up_group demo_uploader) ev"
  by (simp add: no_recording_def demo_uploader_def nvr_cloud_uploader_start_def rsdk_group_query_def exchange_sort_def)

lemma demo_poll: "up_group up = up_group demo_uploader \<Longrightarrow> \<exists>calls'. poll_loop v (\<lambda>i. False) stoken i evs up calls = Some (up, calls')"
proof (induction evs arbitrary: i calls)
  case (Cons ev evs)
  have "rsdk_group_query (up_group up) (cv_starttime ev) (cv_starttime ev + 300) (cv_chn ev) RSDK_REC_CONTINUOUS 64 = []"
    using demo_query[of ev] Cons.prems by (simp add: no_recording_def)
  then show ?case using Cons by (simp add: process_event_def Let_def)
qed simp

lemma queue_starves_witness:
  "\<exists>db db' calls'. worker_turns demo_vsaas (\<lambda>now i. False) [1700001000] (demo_uploader, db, []) = Some (demo_uploader, db', calls') \<and>
     rsdk_cloud_get (\<lambda>i. True) 100 db' = Inr (demo_cloud 0)"
proof -
  define evs where "evs = map demo_cloud [0..<33]"
  define ops where "ops = map (\<lambda>ev. ((\<lambda>i. True) :: nat \<Rightarrow> bool, CBegin ev)) evs"
  obtain db L where r: "fold cloud_both ops new_store = (db, L)" by fastforce
  have ok: "list_all (\<lambda>x. op_ok (snd x)) ops" by (simp add: ops_def evs_def op_ok_def demo_cloud_def list_all_iff)
  have d: "distinct (map cv_event_id evs)" "list_all (\<lambda>ev. cv_start_chunk ev < 2 ^ 63) evs"
    by (simp_all add: evs_def demo_cloud_def upt_rec[of _ 33] upt_rec[of _ "Suc _"])
  have L: "L = map fresh_entry evs" using begin_run[OF rep_empty, of evs] d r by (simp add: ops_def new_store_def)
  have h: "32 \<le> length (filter (hopeless (up_group demo_uploader) 1700000000) L)"
    by (simp add: L evs_def hopeless_def demo_query waiting_def fresh_entry_def demo_cloud_def upt_rec[of _ 33])
  have e: "fresh_entry (demo_cloud 0) \<in> set L" "1700000000 \<le> cv_starttime (ce_ev (fresh_entry (demo_cloud 0)))"
  proof -
    have "demo_cloud 0 \<in> set evs" by (simp add: evs_def)
    then show "fresh_entry (demo_cloud 0) \<in> set L" by (simp add: L)
    show "1700000000 \<le> cv_starttime (ce_ev (fresh_entry (demo_cloud 0)))" by (simp add: fresh_entry_def demo_cloud_def)
  qed
  obtain pend where p: "rsdk_cloud_enumerate_pending (\<lambda>i. True) 1700001000 (Some upload_opt) 32 db = Some pend"
    by (simp add: rsdk_cloud_enumerate_pending_def)
  obtain calls' where "poll_loop demo_vsaas (\<lambda>i. False) (up_stoken demo_uploader) 0 (take 32 pend) demo_uploader [] = Some (demo_uploader, calls')"
    using demo_poll by blast
  then have "worker_poll demo_vsaas (\<lambda>i. False) pend demo_uploader [] = Some (demo_uploader, calls')"
    by (simp add: worker_poll_def demo_uploader_def nvr_cloud_uploader_start_def)
  then obtain db' where t: "worker_turns demo_vsaas (\<lambda>now i. False) [1700001000] (demo_uploader, db, []) = Some (demo_uploader, db', calls')"
    using p by (simp add: worker_turn_def)
  then show ?thesis using queue_starves[OF ok r h e t] by (auto simp: fresh_entry_def demo_cloud_def)
qed

end
