(* ===== verification/App_Settings.thy ===== *)
theory App_Settings
  imports Nop_Base
begin

text \<open>
  components/config/src/nvr\_settings.c: the writable settings in SQLite. A table is the list of its rows; an upsert replaces
  the row of its key in place or appends it. Whether statement \<open>i\<close> of a call succeeds is \<open>sql i\<close>; one that fails changes nothing.
  A call returns the callbacks it notifies, with their keys, in the order of the calls; the callbacks of the program
  only read. The columns \<open>updated\<close>, which nothing reads, and the tables \<open>rec_schedule\<close>, \<open>rec_triggers\<close> and \<open>netif\<close>, which nothing
  uses, are left out. A string read into an array of n bytes keeps its first n - 1.
\<close>

section \<open>Tables\<close>

type_synonym sql = "nat \<Rightarrow> bool"

record setting_row =
  kv_key :: string
  kv_ival :: "int option"
  kv_sval :: "string option"
  kv_bval :: "8 word list option"

record nvr_auth_row =
  au_pw_algo :: string
  au_pw_hash :: "8 word list"
  au_pw_salt :: "8 word list"
  au_fail_count :: int
  au_lockout_until :: int

record nvr_owner_row =
  ow_owner_id :: string
  ow_username :: string
  ow_stoken :: string

record nvr_chan_row =
  cr_chn :: int
  cr_name :: string
  cr_url :: string
  cr_user :: string
  cr_pass :: string
  cr_codec :: int
  cr_stream :: int
  cr_record :: int
  cr_onvif_auto :: int
  cr_onvif_ip :: string
  cr_onvif_port :: int
  cr_poe_port :: int
  cr_enabled :: int
  cr_kind :: int
  cr_source :: string

record nvr_cloud_ch_row =
  cc_chn :: int
  cc_stream_type :: string
  cc_triggers :: string

record settings_db =
  sd_setting :: "setting_row list"
  sd_auth :: "nvr_auth_row option"
  sd_owner :: "nvr_owner_row option"
  sd_channel :: "nvr_chan_row list"
  sd_cloud_channel :: "nvr_cloud_ch_row list"
  sd_meta_kv :: "(string \<times> string) list"

definition empty_db :: settings_db where
  "empty_db = \<lparr>sd_setting = [], sd_auth = None, sd_owner = None, sd_channel = [], sd_cloud_channel = [], sd_meta_kv = []\<rparr>"

definition NVR_STG_MAX_SUB :: nat where "NVR_STG_MAX_SUB = 32"

record 'cb settings_sub =
  su_prefix :: string
  su_cb :: 'cb
  su_id :: int

text \<open>\<open>se_tx\<close> is the database as it was at the BEGIN of a transaction that is still open.\<close>

record 'cb nvr_settings =
  se_db :: settings_db
  se_subs :: "'cb settings_sub option list"
  se_next_sub_id :: int
  se_tx :: "settings_db option"

definition upsert :: "('r \<Rightarrow> 'k) \<Rightarrow> 'k \<Rightarrow> ('r \<Rightarrow> 'r) \<Rightarrow> 'r \<Rightarrow> 'r list \<Rightarrow> 'r list" where
  "upsert key k f new rows = (if list_ex (\<lambda>r. key r = k) rows then map (\<lambda>r. if key r = k then f r else r) rows else rows @ [new])"

definition with_db :: "(settings_db \<Rightarrow> settings_db) \<Rightarrow> 'cb nvr_settings \<Rightarrow> 'cb nvr_settings" where
  "with_db f s = s\<lparr>se_db := f (se_db s)\<rparr>"

section \<open>Subscriptions\<close>

fun starts_with :: "string \<Rightarrow> string \<Rightarrow> bool" where
  "starts_with [] s = True"
| "starts_with (c # p) [] = False"
| "starts_with (c # p) (d # s) = (c = d \<and> starts_with p s)"

definition notify :: "'cb nvr_settings \<Rightarrow> string \<Rightarrow> ('cb \<times> string) list" where
  "notify s key = map (\<lambda>u. (su_cb u, key)) (filter (\<lambda>u. starts_with (su_prefix u) key) (map the (filter (\<lambda>u. u \<noteq> None) (se_subs s))))"

fun free_sub :: "nat \<Rightarrow> 'a option list \<Rightarrow> nat option" where
  "free_sub i [] = None"
| "free_sub i (None # us) = Some i"
| "free_sub i (Some u # us) = free_sub (Suc i) us"

definition nvr_settings_subscribe :: "string option \<Rightarrow> 'cb option \<Rightarrow> 'cb nvr_settings \<Rightarrow> int \<times> 'cb nvr_settings" where
  "nvr_settings_subscribe prefix cb s = (case cb of
     None \<Rightarrow> (-1, s)
   | Some f \<Rightarrow> (case free_sub 0 (se_subs s) of
       None \<Rightarrow> (-1, s)
     | Some i \<Rightarrow> (se_next_sub_id s,
         s\<lparr>se_subs := (se_subs s)[i := Some \<lparr>su_prefix = take 63 (case prefix of None \<Rightarrow> [] | Some p \<Rightarrow> p), su_cb = f, su_id = se_next_sub_id s\<rparr>],
           se_next_sub_id := se_next_sub_id s + 1\<rparr>)))"

definition nvr_settings_unsubscribe :: "int \<Rightarrow> 'cb nvr_settings \<Rightarrow> 'cb nvr_settings" where
  "nvr_settings_unsubscribe sub_id s =
     s\<lparr>se_subs := map (\<lambda>u. case u of Some x \<Rightarrow> if su_id x = sub_id then None else u | None \<Rightarrow> None) (se_subs s)\<rparr>"

section \<open>Keys and values\<close>

definition setting :: "string \<Rightarrow> settings_db \<Rightarrow> setting_row option" where
  "setting key db = find (\<lambda>r. kv_key r = key) (sd_setting db)"

definition put_setting :: "string \<Rightarrow> (setting_row \<Rightarrow> setting_row) \<Rightarrow> settings_db \<Rightarrow> settings_db" where
  "put_setting key f db = db\<lparr>sd_setting := upsert kv_key key f (f \<lparr>kv_key = key, kv_ival = None, kv_sval = None, kv_bval = None\<rparr>) (sd_setting db)\<rparr>"

definition nvr_settings_get_int :: "sql \<Rightarrow> string \<Rightarrow> int \<Rightarrow> 'cb nvr_settings \<Rightarrow> int" where
  "nvr_settings_get_int sql key dflt s =
     (if \<not> sql 0 then dflt else case setting key (se_db s) of None \<Rightarrow> dflt | Some r \<Rightarrow> (case kv_ival r of None \<Rightarrow> dflt | Some v \<Rightarrow> v))"

definition nvr_settings_set_int :: "sql \<Rightarrow> string \<Rightarrow> int \<Rightarrow> 'cb nvr_settings \<Rightarrow> int \<times> ('cb \<times> string) list \<times> 'cb nvr_settings" where
  "nvr_settings_set_int sql key val s =
     (if \<not> sql 0 then (-1, [], s) else (0, notify s key, with_db (put_setting key (\<lambda>r. r\<lparr>kv_ival := Some val\<rparr>)) s))"

definition nvr_settings_get_str :: "sql \<Rightarrow> string \<Rightarrow> nat \<Rightarrow> string option \<Rightarrow> 'cb nvr_settings \<Rightarrow> string" where
  "nvr_settings_get_str sql key cap dflt s =
     take (cap - 1) (case (if sql 0 then (case setting key (se_db s) of None \<Rightarrow> None | Some r \<Rightarrow> kv_sval r) else None) of
       Some v \<Rightarrow> v | None \<Rightarrow> (case dflt of Some d \<Rightarrow> d | None \<Rightarrow> []))"

definition nvr_settings_set_str :: "sql \<Rightarrow> string \<Rightarrow> string option \<Rightarrow> 'cb nvr_settings \<Rightarrow> int \<times> ('cb \<times> string) list \<times> 'cb nvr_settings" where
  "nvr_settings_set_str sql key val s =
     (if \<not> sql 0 then (-1, [], s)
      else (0, notify s key, with_db (put_setting key (\<lambda>r. r\<lparr>kv_sval := Some (case val of None \<Rightarrow> [] | Some v \<Rightarrow> v)\<rparr>)) s))"

definition nvr_settings_get_blob :: "sql \<Rightarrow> string \<Rightarrow> int \<Rightarrow> 'cb nvr_settings \<Rightarrow> int \<times> 8 word list" where
  "nvr_settings_get_blob sql key cap s =
     (if cap \<le> 0 then (-1, [])
      else case (if sql 0 then (case setting key (se_db s) of None \<Rightarrow> None | Some r \<Rightarrow> kv_bval r) else None) of
        None \<Rightarrow> (0, []) | Some b \<Rightarrow> (min (int (length b)) cap, take (nat cap) b))"

definition nvr_settings_set_blob :: "sql \<Rightarrow> string \<Rightarrow> 8 word list option \<Rightarrow> int \<Rightarrow> 'cb nvr_settings \<Rightarrow> int \<times> ('cb \<times> string) list \<times> 'cb nvr_settings" where
  "nvr_settings_set_blob sql key val len s =
     (if val = None \<and> len \<noteq> 0 \<or> \<not> sql 0 then (-1, [], s)
      else (0, notify s key, with_db (put_setting key (\<lambda>r. r\<lparr>kv_bval := map_option (take (nat len)) val\<rparr>)) s))"

record nvr_kv =
  kv_name :: string
  kv_is_str :: bool
  kv_int :: int
  kv_str :: "string option"

definition set_kv :: "sql \<Rightarrow> nvr_kv \<Rightarrow> 'cb nvr_settings \<Rightarrow> int \<times> ('cb \<times> string) list \<times> 'cb nvr_settings" where
  "set_kv sql kv s = (if kv_is_str kv then nvr_settings_set_str sql (kv_name kv) (kv_str kv) s
     else nvr_settings_set_int sql (kv_name kv) (kv_int kv) s)"

fun set_all :: "sql \<Rightarrow> nat \<Rightarrow> nvr_kv list \<Rightarrow> 'cb nvr_settings \<Rightarrow> bool \<times> ('cb \<times> string) list \<times> 'cb nvr_settings" where
  "set_all sql i [] s = (True, [], s)"
| "set_all sql i (kv # kvs) s =
     (case set_kv (\<lambda>n. sql i) kv s of
        (rc, ns, s) \<Rightarrow> if rc \<noteq> 0 then (False, ns, s)
          else (case set_all sql (Suc i) kvs s of (ok, ns', s) \<Rightarrow> (ok, ns @ ns', s)))"

definition begin_tx :: "'cb nvr_settings \<Rightarrow> 'cb nvr_settings" where "begin_tx s = s\<lparr>se_tx := Some (se_db s)\<rparr>"
definition commit_tx :: "'cb nvr_settings \<Rightarrow> 'cb nvr_settings" where "commit_tx s = s\<lparr>se_tx := None\<rparr>"
definition rollback_tx :: "'cb nvr_settings \<Rightarrow> 'cb nvr_settings" where
  "rollback_tx s = (case se_tx s of None \<Rightarrow> s | Some db \<Rightarrow> s\<lparr>se_db := db, se_tx := None\<rparr>)"

text \<open>A BEGIN inside a transaction is an error of SQLite; a COMMIT that fails leaves the transaction open. \<open>sql 0\<close> is the BEGIN, the
  last statement the COMMIT; the ROLLBACK is taken to succeed.\<close>

definition nvr_settings_set_many :: "sql \<Rightarrow> nvr_kv list \<Rightarrow> 'cb nvr_settings \<Rightarrow> int \<times> ('cb \<times> string) list \<times> 'cb nvr_settings" where
  "nvr_settings_set_many sql kvs s =
     (if kvs = [] \<or> \<not> sql 0 \<or> se_tx s \<noteq> None then (-1, [], s)
      else case set_all sql 1 kvs (begin_tx s) of
        (ok, ns, s) \<Rightarrow> if \<not> ok then (-1, ns, rollback_tx s)
          else if sql (Suc (length kvs)) then (0, ns, commit_tx s) else (-1, ns, s))"

section \<open>Structured tables\<close>

definition nvr_settings_channel_upsert :: "sql \<Rightarrow> nvr_chan_row \<Rightarrow> 'cb nvr_settings \<Rightarrow> int \<times> ('cb \<times> string) list \<times> 'cb nvr_settings" where
  "nvr_settings_channel_upsert sql r s =
     (if \<not> sql 0 then (-1, [], s)
      else let r = r\<lparr>cr_source := (if cr_source r \<noteq> [] then cr_source r else ''user'')\<rparr>
        in (0, notify s ''channel.'', with_db (\<lambda>db. db\<lparr>sd_channel := upsert cr_chn (cr_chn r) (\<lambda>_. r) r (sd_channel db)\<rparr>) s))"

definition nvr_settings_channel_delete :: "sql \<Rightarrow> int \<Rightarrow> 'cb nvr_settings \<Rightarrow> int \<times> ('cb \<times> string) list \<times> 'cb nvr_settings" where
  "nvr_settings_channel_delete sql chn s =
     (if \<not> sql 0 then (-1, [], s)
      else (0, notify s ''channel.'', with_db (\<lambda>db. db\<lparr>sd_channel := filter (\<lambda>r. cr_chn r \<noteq> chn) (sd_channel db)\<rparr>) s))"

definition chan_row_out :: "nvr_chan_row \<Rightarrow> nvr_chan_row" where
  "chan_row_out r = r\<lparr>cr_name := take 63 (cr_name r), cr_url := take 255 (cr_url r), cr_user := take 63 (cr_user r),
     cr_pass := take 63 (cr_pass r), cr_onvif_ip := take 63 (cr_onvif_ip r), cr_source := take 7 (cr_source r)\<rparr>"

definition nvr_settings_channel_list :: "sql \<Rightarrow> int \<Rightarrow> 'cb nvr_settings \<Rightarrow> nvr_chan_row list option" where
  "nvr_settings_channel_list sql cap s =
     (if cap \<le> 0 \<or> \<not> sql 0 then None else Some (map chan_row_out (take (nat cap) (sort_key cr_chn (sd_channel (se_db s))))))"

definition nvr_settings_auth_get :: "sql \<Rightarrow> 'cb nvr_settings \<Rightarrow> nvr_auth_row option" where
  "nvr_settings_auth_get sql s =
     (if \<not> sql 0 then None
      else map_option (\<lambda>r. r\<lparr>au_pw_algo := take 15 (au_pw_algo r), au_pw_hash := take 64 (au_pw_hash r), au_pw_salt := take 32 (au_pw_salt r)\<rparr>)
        (sd_auth (se_db s)))"

definition nvr_settings_auth_set :: "sql \<Rightarrow> nvr_auth_row \<Rightarrow> 'cb nvr_settings \<Rightarrow> int \<times> ('cb \<times> string) list \<times> 'cb nvr_settings" where
  "nvr_settings_auth_set sql r s =
     (if \<not> sql 0 then (-1, [], s) else (0, notify s ''auth.'', with_db (\<lambda>db. db\<lparr>sd_auth := Some r\<rparr>) s))"

definition nvr_settings_owner_get :: "sql \<Rightarrow> 'cb nvr_settings \<Rightarrow> nvr_owner_row option" where
  "nvr_settings_owner_get sql s =
     (if \<not> sql 0 then None
      else map_option (\<lambda>r. \<lparr>ow_owner_id = take 63 (ow_owner_id r), ow_username = take 63 (ow_username r), ow_stoken = take 255 (ow_stoken r)\<rparr>)
        (sd_owner (se_db s)))"

definition nvr_settings_owner_set :: "sql \<Rightarrow> nvr_owner_row \<Rightarrow> 'cb nvr_settings \<Rightarrow> int \<times> ('cb \<times> string) list \<times> 'cb nvr_settings" where
  "nvr_settings_owner_set sql r s =
     (if \<not> sql 0 then (-1, [], s) else (0, notify s ''nop_owner.'', with_db (\<lambda>db. db\<lparr>sd_owner := Some r\<rparr>) s))"

definition nvr_settings_cloud_ch_upsert :: "sql \<Rightarrow> nvr_cloud_ch_row \<Rightarrow> 'cb nvr_settings \<Rightarrow> int \<times> ('cb \<times> string) list \<times> 'cb nvr_settings" where
  "nvr_settings_cloud_ch_upsert sql r s =
     (if \<not> sql 0 then (-1, [], s)
      else let r = r\<lparr>cc_stream_type := (if cc_stream_type r \<noteq> [] then cc_stream_type r else ''main'')\<rparr>
        in (0, notify s ''cloud_channel.'', with_db (\<lambda>db. db\<lparr>sd_cloud_channel := upsert cc_chn (cc_chn r) (\<lambda>_. r) r (sd_cloud_channel db)\<rparr>) s))"

definition nvr_settings_cloud_ch_list :: "sql \<Rightarrow> int \<Rightarrow> 'cb nvr_settings \<Rightarrow> nvr_cloud_ch_row list option" where
  "nvr_settings_cloud_ch_list sql cap s =
     (if cap \<le> 0 \<or> \<not> sql 0 then None
      else Some (map (\<lambda>r. r\<lparr>cc_stream_type := take 7 (cc_stream_type r), cc_triggers := take 127 (cc_triggers r)\<rparr>)
        (take (nat cap) (sort_key cc_chn (sd_cloud_channel (se_db s))))))"

section \<open>Seeding\<close>

text \<open>\<open>cJSON_GetObjectItem\<close> compares names without case and takes the first; \<open>valueint\<close> of a number saturates.\<close>

definition lower :: "string \<Rightarrow> string" where
  "lower s = map (\<lambda>c. if 65 \<le> (of_char c :: nat) \<and> (of_char c :: nat) \<le> 90 then char_of ((of_char c :: nat) + 32) else c) s"

fun cj_item :: "json option \<Rightarrow> string \<Rightarrow> json option" where
  "cj_item (Some (JObj kvs)) k = map_option snd (find (\<lambda>(n, v). lower n = lower k) kvs)"
| "cj_item _ k = None"

definition cj_valueint :: "rat \<Rightarrow> int" where
  "cj_valueint q = max (- 2147483648) (min 2147483647 (c_int q))"

definition jstr :: "json option \<Rightarrow> string \<Rightarrow> string option \<Rightarrow> string option" where
  "jstr o' k d = (case cj_item o' k of Some (JStr v) \<Rightarrow> Some v | _ \<Rightarrow> d)"

definition jint :: "json option \<Rightarrow> string \<Rightarrow> int \<Rightarrow> int" where
  "jint o' k d = (case cj_item o' k of Some (JNum q) \<Rightarrow> cj_valueint q | _ \<Rightarrow> d)"

definition is_true :: "json option \<Rightarrow> bool" where "is_true j \<longleftrightarrow> j = Some (JBool True)"

fun elements :: "json option \<Rightarrow> json list" where
  "elements (Some (JArr xs)) = xs"
| "elements _ = []"

datatype seed_op = SeedStr string string | SeedInt string int | SeedChan nvr_chan_row | SeedMeta string string

definition seed_str :: "string \<Rightarrow> json option \<Rightarrow> string \<Rightarrow> string \<Rightarrow> seed_op" where
  "seed_str key o' k d = SeedStr key (case jstr o' k (Some d) of Some v \<Rightarrow> v | None \<Rightarrow> d)"

definition seed_system :: "json option \<Rightarrow> seed_op list" where
  "seed_system sys =
     (let item = cj_item sys; net = item ''network''; e0 = cj_item net ''eth0''; e1 = cj_item net ''eth1'' in
      (if item ''device'' = None then []
       else [seed_str ''system.model'' (item ''device'') ''model'' ''NT12-32'', seed_str ''system.device_name'' (item ''device'') ''name'' ''NVR'',
             seed_str ''system.sn'' (item ''device'') ''sn'' []]) @
      (if item ''time'' = None then []
       else [seed_str ''system.timezone'' (item ''time'') ''timezone'' ''UTC'', seed_str ''system.ntp'' (item ''time'') ''ntp'' ''pool.ntp.org'']) @
      (if net = None \<or> e0 = None then []
       else [SeedInt ''network.eth0.dhcp'' (case cj_item e0 ''dhcp'' of Some (JBool b) \<Rightarrow> if b then 1 else 0 | _ \<Rightarrow> 1),
             seed_str ''network.eth0.ip'' e0 ''ip'' [], seed_str ''network.eth0.mask'' e0 ''mask'' ''255.255.255.0'', seed_str ''network.eth0.gw'' e0 ''gw'' []]) @
      (if net = None \<or> e1 = None then [] else [SeedInt ''network.eth1.vlan_base'' (jint e1 ''vlan_base'' 2000)]) @
      (if item ''channels'' = None then []
       else [SeedInt ''system.capacity'' (jint (item ''channels'') ''capacity'' 32), SeedInt ''system.poe_ports'' (jint (item ''channels'') ''poe_ports'' 16),
             SeedInt ''system.ip_channels'' (jint (item ''channels'') ''ip_channels'' 16)]))"

definition seed_storage :: "json option \<Rightarrow> seed_op list" where
  "seed_storage st =
     (let enc = cj_item st ''encryption'' in
      [seed_str ''storage.hdd_full'' st ''hdd_full'' ''overwrite'',
       SeedInt ''storage.encryption'' (if enc \<noteq> None then (if is_true (cj_item enc ''enable'') then 1 else jint enc ''enable'' 1) else 1)])"

definition str_or :: "json option \<Rightarrow> string \<Rightarrow> string \<Rightarrow> string" where
  "str_or o' k d = (case jstr o' k (Some d) of Some v \<Rightarrow> v | None \<Rightarrow> d)"

definition seed_source :: "json option \<Rightarrow> json \<Rightarrow> seed_op list" where
  "seed_source onvif src =
     (let chn = jint (Some src) ''channel'' (-1) in
      if chn < 0 then []
      else [SeedChan \<lparr>cr_chn = chn, cr_name = take 63 (str_or (Some src) ''name'' ''Camera''), cr_url = take 255 (str_or (Some src) ''url'' []),
        cr_user = [], cr_pass = [], cr_codec = 0, cr_stream = 0, cr_record = 1, cr_onvif_auto = (if onvif \<noteq> None then 1 else 0),
        cr_onvif_ip = (if onvif \<noteq> None then take 63 (str_or onvif ''ip'' []) else []),
        cr_onvif_port = (if onvif \<noteq> None then jint onvif ''port'' 80 else 0), cr_poe_port = 0, cr_enabled = 1, cr_kind = 2, cr_source = ''json''\<rparr>])"

definition seed_channels :: "json option \<Rightarrow> seed_op list" where
  "seed_channels cj = concat (map (\<lambda>dev. concat (map (seed_source (cj_item (Some dev) ''onvif'')) (elements (cj_item (Some dev) ''sources''))))
     (elements (cj_item cj ''devices'')))"

text \<open>\<open>files\<close> gives the parsed file of a name, if it can be read and parsed.\<close>

definition seed_ops :: "(string \<Rightarrow> json option) \<Rightarrow> seed_op list" where
  "seed_ops files =
     (case files ''system.json'' of None \<Rightarrow> [] | Some j \<Rightarrow> seed_system (Some j)) @
     (case files ''storage.json'' of None \<Rightarrow> [] | Some j \<Rightarrow> seed_storage (Some j)) @
     [SeedInt ''cloud.switch'' 0] @
     (case files ''channels.json'' of None \<Rightarrow> [] | Some j \<Rightarrow> seed_channels (Some j)) @
     [SeedMeta ''schema_version'' ''1'', SeedMeta ''seeded'' ''1'']"

definition seed_one :: "sql \<Rightarrow> nat \<times> seed_op \<Rightarrow> 'cb nvr_settings \<Rightarrow> 'cb nvr_settings" where
  "seed_one sql = (\<lambda>(i, op) s. case op of
     SeedStr k v \<Rightarrow> snd (snd (nvr_settings_set_str (\<lambda>n. sql i) k (Some v) s))
   | SeedInt k v \<Rightarrow> snd (snd (nvr_settings_set_int (\<lambda>n. sql i) k v s))
   | SeedChan r \<Rightarrow> snd (snd (nvr_settings_channel_upsert (\<lambda>n. sql i) r s))
   | SeedMeta k v \<Rightarrow> (if sql i then with_db (\<lambda>db. db\<lparr>sd_meta_kv := upsert fst k (\<lambda>_. (k, v)) (k, v) (sd_meta_kv db)\<rparr>) s else s))"

definition seed_from_json :: "sql \<Rightarrow> (string \<Rightarrow> json option) option \<Rightarrow> 'cb nvr_settings \<Rightarrow> 'cb nvr_settings" where
  "seed_from_json sql dir s = (case dir of
     None \<Rightarrow> s
   | Some files \<Rightarrow>
       (let s = (if sql 0 then begin_tx s else s); ops = seed_ops files;
            s = fold (seed_one sql) (zip [1..<Suc (length ops)] ops) s
        in if sql (Suc (length ops)) then commit_tx s else s))"

text \<open>Statements: 0 opens, 1 makes the tables, 2 asks whether the database was seeded, the others seed it.\<close>

definition nvr_settings_open :: "sql \<Rightarrow> settings_db option \<Rightarrow> (string \<Rightarrow> json option) option \<Rightarrow> 'cb nvr_settings option" where
  "nvr_settings_open sql file dir =
     (if \<not> sql 0 \<or> \<not> sql 1 then None
      else let s = \<lparr>se_db = (case file of Some db \<Rightarrow> db | None \<Rightarrow> empty_db), se_subs = replicate NVR_STG_MAX_SUB None, se_next_sub_id = 1, se_tx = None\<rparr>;
          seeded = (sql 2 \<and> (case map_of (sd_meta_kv (se_db s)) ''seeded'' of Some v \<Rightarrow> read_nat v \<noteq> 0 | None \<Rightarrow> False))
        in Some (if seeded then s else seed_from_json (\<lambda>i. sql (i + 3)) dir s))"

text \<open>What is on the disk when the program ends: an open transaction is rolled back.\<close>

definition nvr_settings_close :: "'cb nvr_settings \<Rightarrow> settings_db" where
  "nvr_settings_close s = se_db (rollback_tx s)"

section \<open>The store as maps\<close>

record settings_spec =
  sp_int :: "string \<Rightarrow> int option"
  sp_str :: "string \<Rightarrow> string option"
  sp_chan :: "int \<Rightarrow> nvr_chan_row option"
  sp_cloud :: "int \<Rightarrow> nvr_cloud_ch_row option"
  sp_owner :: "nvr_owner_row option"
  sp_auth :: "nvr_auth_row option"

definition settings_abs :: "settings_db \<Rightarrow> settings_spec" where
  "settings_abs db = \<lparr>sp_int = (\<lambda>k. Option.bind (setting k db) kv_ival), sp_str = (\<lambda>k. Option.bind (setting k db) kv_sval),
     sp_chan = (\<lambda>c. find (\<lambda>r. cr_chn r = c) (sd_channel db)), sp_cloud = (\<lambda>c. find (\<lambda>r. cc_chn r = c) (sd_cloud_channel db)),
     sp_owner = sd_owner db, sp_auth = sd_auth db\<rparr>"

datatype set_op =
    SetInt string int
  | SetStr string string
  | SetMany "nvr_kv list"
  | ChanUpsert nvr_chan_row
  | ChanDelete int
  | CloudUpsert nvr_cloud_ch_row
  | OwnerSet nvr_owner_row
  | AuthSet nvr_auth_row

definition set_do :: "sql \<Rightarrow> set_op \<Rightarrow> 'cb nvr_settings \<Rightarrow> int \<times> ('cb \<times> string) list \<times> 'cb nvr_settings" where
  "set_do sql op s = (case op of
     SetInt k v \<Rightarrow> nvr_settings_set_int sql k v s
   | SetStr k v \<Rightarrow> nvr_settings_set_str sql k (Some v) s
   | SetMany kvs \<Rightarrow> nvr_settings_set_many sql kvs s
   | ChanUpsert r \<Rightarrow> nvr_settings_channel_upsert sql r s
   | ChanDelete c \<Rightarrow> nvr_settings_channel_delete sql c s
   | CloudUpsert r \<Rightarrow> nvr_settings_cloud_ch_upsert sql r s
   | OwnerSet r \<Rightarrow> nvr_settings_owner_set sql r s
   | AuthSet r \<Rightarrow> nvr_settings_auth_set sql r s)"

definition kv_spec :: "nvr_kv \<Rightarrow> settings_spec \<Rightarrow> settings_spec" where
  "kv_spec kv a = (if kv_is_str kv then a\<lparr>sp_str := (sp_str a)(kv_name kv \<mapsto> (case kv_str kv of None \<Rightarrow> [] | Some v \<Rightarrow> v))\<rparr>
     else a\<lparr>sp_int := (sp_int a)(kv_name kv \<mapsto> kv_int kv)\<rparr>)"

definition set_spec :: "set_op \<Rightarrow> settings_spec \<Rightarrow> settings_spec" where
  "set_spec op a = (case op of
     SetInt k v \<Rightarrow> a\<lparr>sp_int := (sp_int a)(k \<mapsto> v)\<rparr>
   | SetStr k v \<Rightarrow> a\<lparr>sp_str := (sp_str a)(k \<mapsto> v)\<rparr>
   | SetMany kvs \<Rightarrow> fold kv_spec kvs a
   | ChanUpsert r \<Rightarrow> a\<lparr>sp_chan := (sp_chan a)(cr_chn r \<mapsto> r\<lparr>cr_source := (if cr_source r \<noteq> [] then cr_source r else ''user'')\<rparr>)\<rparr>
   | ChanDelete c \<Rightarrow> a\<lparr>sp_chan := (sp_chan a)(c := None)\<rparr>
   | CloudUpsert r \<Rightarrow> a\<lparr>sp_cloud := (sp_cloud a)(cc_chn r \<mapsto> r\<lparr>cc_stream_type := (if cc_stream_type r \<noteq> [] then cc_stream_type r else ''main'')\<rparr>)\<rparr>
   | OwnerSet r \<Rightarrow> a\<lparr>sp_owner := Some r\<rparr>
   | AuthSet r \<Rightarrow> a\<lparr>sp_auth := Some r\<rparr>)"

text \<open>The keys an operation announces.\<close>

definition set_keys :: "set_op \<Rightarrow> string list" where
  "set_keys op = (case op of SetInt k v \<Rightarrow> [k] | SetStr k v \<Rightarrow> [k] | SetMany kvs \<Rightarrow> map kv_name kvs | ChanUpsert r \<Rightarrow> [''channel.'']
   | ChanDelete c \<Rightarrow> [''channel.''] | CloudUpsert r \<Rightarrow> [''cloud_channel.''] | OwnerSet r \<Rightarrow> [''nop_owner.''] | AuthSet r \<Rightarrow> [''auth.''])"

definition keys_ok :: "settings_db \<Rightarrow> bool" where
  "keys_ok db \<longleftrightarrow> distinct (map cr_chn (sd_channel db)) \<and> distinct (map cc_chn (sd_cloud_channel db))"

lemma find_upsert:
  assumes "key new = k" "\<And>r. key r = k \<Longrightarrow> key (f r) = k"
  shows "find (\<lambda>r. key r = k') (upsert key k f new rows) =
    (if k' = k then Some (case find (\<lambda>r. key r = k) rows of Some r \<Rightarrow> f r | None \<Rightarrow> new) else find (\<lambda>r. key r = k') rows)"
proof -
  have m: "find (\<lambda>r. key r = k') (map (\<lambda>r. if key r = k then f r else r) rows) =
      (if k' = k then map_option f (find (\<lambda>r. key r = k) rows) else find (\<lambda>r. key r = k') rows)" for rows
    using assms(2) by (induction rows) auto
  have a: "find P (rows @ [new]) = (case find P rows of None \<Rightarrow> if P new then Some new else None | Some r \<Rightarrow> Some r)" for P
    by (induction rows) auto
  show ?thesis
  proof (cases "find (\<lambda>r. key r = k) rows")
    case None
    then have "\<not> list_ex (\<lambda>r. key r = k) rows" by (auto simp: find_None_iff list_ex_iff)
    then show ?thesis using None assms(1) by (auto simp: upsert_def a split: option.splits)
  next
    case (Some r)
    then have "list_ex (\<lambda>r. key r = k) rows" by (auto simp: find_Some_iff list_ex_iff)
    then show ?thesis using Some m by (simp add: upsert_def)
  qed
qed

lemma upsert_distinct:
  assumes "distinct (map key rows)" "key new = k" "\<And>r. key r = k \<Longrightarrow> key (f r) = k"
  shows "distinct (map key (upsert key k f new rows))"
proof -
  have "key (if key r = k then f r else r) = key r" for r using assms(3)[of r] by (cases "key r = k") simp_all
  then have m: "map key (map (\<lambda>r. if key r = k then f r else r) rows) = map key rows" by (simp only: map_map o_def)
  show ?thesis
  proof (cases "list_ex (\<lambda>r. key r = k) rows")
    case True
    then have "map key (upsert key k f new rows) = map key rows" by (simp only: upsert_def if_True m)
    then show ?thesis using assms(1) by (simp only:)
  next
    case False
    then show ?thesis using assms(1,2) by (auto simp: upsert_def list_ex_iff)
  qed
qed

lemma abs_put_int: "settings_abs (put_setting k (\<lambda>r. r\<lparr>kv_ival := Some v\<rparr>) db) = settings_abs db\<lparr>sp_int := (sp_int (settings_abs db))(k \<mapsto> v)\<rparr>"
  and abs_put_str: "settings_abs (put_setting k (\<lambda>r. r\<lparr>kv_sval := Some w\<rparr>) db) = settings_abs db\<lparr>sp_str := (sp_str (settings_abs db))(k \<mapsto> w)\<rparr>"
  by (auto simp: settings_abs_def setting_def put_setting_def find_upsert fun_eq_iff split: option.splits)

lemma put_setting_keys: "keys_ok (put_setting k f db) = keys_ok db"
  by (simp add: keys_ok_def put_setting_def)

lemma set_kv_facts:
  assumes "set_kv sql kv s = (rc, ns, s')"
  shows "rc = 0 \<Longrightarrow> settings_abs (se_db s') = kv_spec kv (settings_abs (se_db s)) \<and> ns = notify s (kv_name kv)"
    "rc \<noteq> 0 \<Longrightarrow> s' = s \<and> ns = []" "se_subs s' = se_subs s" "se_tx s' = se_tx s" "keys_ok (se_db s') = keys_ok (se_db s)"
  using assms by (auto simp: set_kv_def nvr_settings_set_str_def nvr_settings_set_int_def kv_spec_def with_db_def abs_put_int abs_put_str
      put_setting_keys split: if_splits)

lemma notify_subs: "se_subs s' = se_subs s \<Longrightarrow> notify s' k = notify s k"
  by (simp add: notify_def)

lemma set_all_facts:
  "set_all sql i kvs s = (ok, ns, s') \<Longrightarrow>
   (ok \<longrightarrow> settings_abs (se_db s') = fold kv_spec kvs (settings_abs (se_db s)) \<and> ns = concat (map (notify s) (map kv_name kvs))) \<and>
   (\<exists>n. ns = concat (map (notify s) (take n (map kv_name kvs)))) \<and>
   se_subs s' = se_subs s \<and> se_tx s' = se_tx s \<and> (keys_ok (se_db s') \<longleftrightarrow> keys_ok (se_db s))"
proof (induction kvs arbitrary: i s ok ns s')
  case (Cons kv kvs)
  obtain rc ns1 s1 where k: "set_kv (\<lambda>n. sql i) kv s = (rc, ns1, s1)" by (metis prod_cases3)
  note K = set_kv_facts[OF k]
  show ?case
  proof (cases "rc = 0")
    case False
    then have "ns = []" "s' = s" "\<not> ok" using K(2)[OF False] Cons.prems k by auto
    then show ?thesis by (auto intro!: exI[of _ 0])
  next
    case True
    obtain ns2 where n: "set_all sql (Suc i) kvs s1 = (ok, ns2, s')" "ns = ns1 @ ns2"
      using Cons.prems k True by (auto split: prod.splits)
    have nt: "notify s1 = notify s" using notify_subs[OF K(3)] by (simp add: fun_eq_iff)
    obtain m where m: "ns2 = concat (map (notify s) (take m (map kv_name kvs)))" using Cons.IH[OF n(1)] nt by auto
    then have "ns = concat (map (notify s) (take (Suc m) (map kv_name (kv # kvs))))" using K(1)[OF True] n(2) by simp
    then have "\<exists>m. ns = concat (map (notify s) (take m (map kv_name (kv # kvs))))" by blast
    moreover have "ok \<longrightarrow> settings_abs (se_db s') = fold kv_spec (kv # kvs) (settings_abs (se_db s)) \<and>
        ns = concat (map (notify s) (map kv_name (kv # kvs)))"
      using Cons.IH[OF n(1)] K(1)[OF True] n(2) nt by simp
    ultimately show ?thesis using Cons.IH[OF n(1)] K(3-5) by simp
  qed
qed (auto intro!: exI[of _ 0])

lemma find_drop: "find (\<lambda>r. key r = c') (filter (\<lambda>r. key r \<noteq> c) rows) = (if c' = c then None else find (\<lambda>r. key r = c') rows)"
  by (induction rows) auto

lemma close_open: "se_tx s = None \<Longrightarrow> nvr_settings_close s = se_db s" "se_tx s = Some db \<Longrightarrow> nvr_settings_close s = db"
  by (simp_all add: nvr_settings_close_def rollback_tx_def)

definition set_outcome :: "int \<Rightarrow> ('cb \<times> string) list \<Rightarrow> 'cb nvr_settings \<Rightarrow> 'cb nvr_settings \<Rightarrow> settings_spec \<Rightarrow> string list \<Rightarrow> bool" where
  "set_outcome rc ns s s' a keys \<longleftrightarrow>
     (rc = 0 \<and> settings_abs (se_db s') = a \<and> ns = concat (map (notify s) keys) \<and> se_tx s' = None \<or>
      rc = -1 \<and> nvr_settings_close s' = se_db s \<and> (\<exists>n. ns = concat (map (notify s) (take n keys)))) \<and>
     se_subs s' = se_subs s \<and> (keys_ok (se_db s) \<longrightarrow> keys_ok (se_db s'))"

lemma set_many_outcome:
  assumes "nvr_settings_set_many sql kvs s = (rc, ns, s')" "se_tx s = None"
  shows "set_outcome rc ns s s' (fold kv_spec kvs (settings_abs (se_db s))) (map kv_name kvs)"
proof -
  obtain ok ns1 s1 where a: "set_all sql 1 kvs (begin_tx s) = (ok, ns1, s1)" by (metis prod_cases3)
  have nt: "notify (begin_tx s) = notify s" by (simp add: notify_def begin_tx_def fun_eq_iff)
  have b: "se_db (begin_tx s) = se_db s" "se_tx (begin_tx s) = Some (se_db s)" "se_subs (begin_tx s) = se_subs s" by (simp_all add: begin_tx_def)
  note A = set_all_facts[OF a, unfolded nt b]
  have r: "(rc, ns, s') = (if kvs = [] \<or> \<not> sql 0 then (-1, [], s) else if \<not> ok then (-1, ns1, rollback_tx s1)
      else if sql (Suc (length kvs)) then (0, ns1, commit_tx s1) else (-1, ns1, s1))"
    using assms(1)[symmetric] by (simp only: nvr_settings_set_many_def assms(2) a prod.case simp_thms if_False)
  have none: "\<exists>n. [] = concat (map (notify s) (take n (map kv_name kvs)))" by (rule exI[of _ 0]) simp
  consider "kvs = [] \<or> \<not> sql 0" | "kvs \<noteq> []" "sql 0" "\<not> ok" | "kvs \<noteq> []" "sql 0" ok "sql (Suc (length kvs))"
    | "kvs \<noteq> []" "sql 0" ok "\<not> sql (Suc (length kvs))" by blast
  then show ?thesis
  proof cases
    case 1
    then show ?thesis using r assms(2) none by (simp add: set_outcome_def close_open)
  next
    case 2
    then show ?thesis using r A by (simp add: set_outcome_def rollback_tx_def nvr_settings_close_def)
  next
    case 3
    then show ?thesis using r A by (simp add: set_outcome_def commit_tx_def)
  next
    case 4
    have "\<exists>n. concat (map (notify s \<circ> kv_name) kvs) = concat (map (notify s) (take n (map kv_name kvs)))"
      by (rule exI[of _ "length kvs"]) simp
    then show ?thesis using 4 r A by (simp add: set_outcome_def close_open)
  qed
qed

lemma set_do_outcome:
  assumes "set_do sql op s = (rc, ns, s')" "se_tx s = None"
  shows "set_outcome rc ns s s' (set_spec op (settings_abs (se_db s))) (set_keys op)"
proof -
  have none: "\<exists>n. [] = concat (map (notify s) (take n keys))" for keys by (rule exI[of _ 0]) simp
  have fail: "set_outcome (-1) [] s s a keys" for a keys using assms(2) none by (simp add: set_outcome_def close_open)
  have put: "set_outcome 0 (notify s k) s (with_db f s) a [k]"
    if "settings_abs (f (se_db s)) = a" "keys_ok (se_db s) \<longrightarrow> keys_ok (f (se_db s))" for k f a
    using that assms(2) by (simp add: set_outcome_def with_db_def)
  show ?thesis
  proof (cases op)
    case (SetMany kvs)
    then show ?thesis using assms set_many_outcome by (simp add: set_do_def set_spec_def set_keys_def)
  next
    case (SetInt k v)
    then show ?thesis using assms(1) fail put[of "put_setting k (\<lambda>r. r\<lparr>kv_ival := Some v\<rparr>)"]
      by (auto simp: set_do_def set_spec_def set_keys_def nvr_settings_set_int_def abs_put_int put_setting_keys split: if_splits)
  next
    case (SetStr k v)
    then show ?thesis using assms(1) fail put[of "put_setting k (\<lambda>r. r\<lparr>kv_sval := Some v\<rparr>)"]
      by (auto simp: set_do_def set_spec_def set_keys_def nvr_settings_set_str_def abs_put_str put_setting_keys split: if_splits)
  next
    case (OwnerSet r)
    then show ?thesis using assms(1) fail put[of "\<lambda>db. db\<lparr>sd_owner := Some r\<rparr>"]
      by (auto simp: set_do_def set_spec_def set_keys_def nvr_settings_owner_set_def settings_abs_def setting_def keys_ok_def split: if_splits)
  next
    case (AuthSet r)
    then show ?thesis using assms(1) fail put[of "\<lambda>db. db\<lparr>sd_auth := Some r\<rparr>"]
      by (auto simp: set_do_def set_spec_def set_keys_def nvr_settings_auth_set_def settings_abs_def setting_def keys_ok_def split: if_splits)
  next
    case (ChanDelete c)
    then show ?thesis using assms(1) fail put[of "\<lambda>db. db\<lparr>sd_channel := filter (\<lambda>r. cr_chn r \<noteq> c) (sd_channel db)\<rparr>"]
      by (auto simp: set_do_def set_spec_def set_keys_def nvr_settings_channel_delete_def settings_abs_def setting_def keys_ok_def
          find_drop fun_eq_iff distinct_map_filter split: if_splits)
  next
    case (ChanUpsert r)
    define q where "q = r\<lparr>cr_source := (if cr_source r \<noteq> [] then cr_source r else ''user'')\<rparr>"
    have "cr_chn q = cr_chn r" by (simp add: q_def)
    then show ?thesis using ChanUpsert assms(1) fail put[of "\<lambda>db. db\<lparr>sd_channel := upsert cr_chn (cr_chn r) (\<lambda>_. q) q (sd_channel db)\<rparr>"]
      by (auto simp: set_do_def set_spec_def set_keys_def nvr_settings_channel_upsert_def settings_abs_def setting_def keys_ok_def
          find_upsert upsert_distinct fun_eq_iff Let_def simp flip: q_def split: if_splits option.splits)
  next
    case (CloudUpsert r)
    define q where "q = r\<lparr>cc_stream_type := (if cc_stream_type r \<noteq> [] then cc_stream_type r else ''main'')\<rparr>"
    have "cc_chn q = cc_chn r" by (simp add: q_def)
    then show ?thesis using CloudUpsert assms(1) fail put[of "\<lambda>db. db\<lparr>sd_cloud_channel := upsert cc_chn (cc_chn r) (\<lambda>_. q) q (sd_cloud_channel db)\<rparr>"]
      by (auto simp: set_do_def set_spec_def set_keys_def nvr_settings_cloud_ch_upsert_def settings_abs_def setting_def keys_ok_def
          find_upsert upsert_distinct fun_eq_iff Let_def simp flip: q_def split: if_splits option.splits)
  qed
qed

section \<open>Runs of calls\<close>

fun set_run :: "(sql \<times> set_op) list \<Rightarrow> 'cb nvr_settings \<Rightarrow> int list \<times> 'cb nvr_settings" where
  "set_run [] s = ([], s)"
| "set_run ((sql, op) # calls) s =
     (case set_do sql op s of (rc, ns, s) \<Rightarrow> (case set_run calls s of (rcs, s) \<Rightarrow> (rc # rcs, s)))"

text \<open>The operations that returned success.\<close>

definition accepted :: "int list \<Rightarrow> (sql \<times> set_op) list \<Rightarrow> set_op list" where
  "accepted rcs calls = map snd (filter (\<lambda>(rc, op). rc = 0) (zip rcs (map snd calls)))"

lemma accepted_simps [simp]: "accepted [] calls = []"
  "accepted (rc # rcs) ((sql, op) # calls) = (if rc = 0 then op # accepted rcs calls else accepted rcs calls)"
  by (simp_all add: accepted_def)

lemma set_do_tx:
  assumes "set_do sql op s = (rc, ns, s')" "se_tx s = Some db \<or> (\<forall>kvs. op \<noteq> SetMany kvs)"
  shows "se_tx s' = se_tx s"
  using assms by (cases op) (auto simp: set_do_def nvr_settings_set_many_def nvr_settings_set_int_def nvr_settings_set_str_def
      nvr_settings_owner_set_def nvr_settings_auth_set_def nvr_settings_channel_delete_def nvr_settings_channel_upsert_def
      nvr_settings_cloud_ch_upsert_def with_db_def Let_def split: if_splits)

lemma set_run_open: "set_run calls s = (rcs, s') \<Longrightarrow> se_tx s = Some db \<Longrightarrow> se_tx s' = Some db"
  by (induction calls arbitrary: s rcs) (auto split: prod.splits dest!: set_do_tx[where db = db])

text \<open>C12: Whatever the statements of a run of writes do, what is on the disk at the end is what the writes that returned success made of the
  tables, as maps from their keys, up to a point: either all the calls count and no transaction is left open, or the run met a
  \<open>nvr_settings_set_many\<close> whose COMMIT failed, and every write after it is lost, also those that returned success.\<close>

theorem settings_durable:
  assumes "set_run calls s = (rcs, s')" "se_tx s = None"
  shows "\<exists>k. settings_abs (nvr_settings_close s') = fold set_spec (accepted (take k rcs) (take k calls)) (settings_abs (se_db s)) \<and>
    (k = length calls \<and> se_tx s' = None \<or>
     k < length calls \<and> (\<exists>kvs. snd (calls ! k) = SetMany kvs) \<and> rcs ! k = -1 \<and> se_tx s' \<noteq> None)"
  using assms
proof (induction calls arbitrary: s rcs)
  case Nil
  then show ?case by (simp add: close_open)
next
  case (Cons c calls)
  obtain sql op where c: "c = (sql, op)" by fastforce
  obtain rc ns s1 where d: "set_do sql op s = (rc, ns, s1)" by (metis prod_cases3)
  obtain rcs1 where r: "set_run calls s1 = (rcs1, s')" "rcs = rc # rcs1" using Cons.prems(1) c d by (auto split: prod.splits)
  note O = set_do_outcome[OF d Cons.prems(2), unfolded set_outcome_def]
  show ?case
  proof (cases "se_tx s1")
    case (Some db)
    have m: "\<exists>kvs. op = SetMany kvs" using set_do_tx[OF d] Some Cons.prems(2) by (cases "\<exists>kvs. op = SetMany kvs") auto
    have "rc = -1" "db = se_db s" using O Some by (auto simp: close_open)
    then show ?thesis using m c r close_open(2)[OF set_run_open[OF r(1) Some]] set_run_open[OF r(1) Some] by (intro exI[of _ 0]) simp
  next
    case None
    have a: "settings_abs (se_db s1) = (if rc = 0 then set_spec op (settings_abs (se_db s)) else settings_abs (se_db s))"
      using O None by (auto simp: close_open)
    from Cons.IH[OF r(1) None] obtain k where k: "settings_abs (nvr_settings_close s') =
        fold set_spec (accepted (take k rcs1) (take k calls)) (settings_abs (se_db s1))"
      "k = length calls \<and> se_tx s' = None \<or> k < length calls \<and> (\<exists>kvs. snd (calls ! k) = SetMany kvs) \<and> rcs1 ! k = -1 \<and> se_tx s' \<noteq> None"
      by blast
    show ?thesis using k a c r(2) by (intro exI[of _ "Suc k"]) auto
  qed
qed

text \<open>Its witness: a COMMIT that fails, and a write that returns success after it and is gone.\<close>

definition fresh_settings :: "nat nvr_settings" where
  "fresh_settings = \<lparr>se_db = empty_db, se_subs = [Some \<lparr>su_prefix = ''cloud.'', su_cb = 7, su_id = 1\<rparr>, None], se_next_sub_id = 2, se_tx = None\<rparr>"

definition lossy_calls :: "(sql \<times> set_op) list" where
  "lossy_calls = [(\<lambda>i. True, SetInt ''cloud.switch'' 1),
     (\<lambda>i. i < 2, SetMany [\<lparr>kv_name = ''cloud.switch'', kv_is_str = False, kv_int = 0, kv_str = None\<rparr>]),
     (\<lambda>i. True, SetInt ''network.bleEnable'' 1)]"

lemma settings_durable_witness:
  "fst (set_run lossy_calls fresh_settings) = [0, -1, 0] \<and>
   sp_int (settings_abs (nvr_settings_close (snd (set_run lossy_calls fresh_settings)))) ''network.bleEnable'' = None \<and>
   (\<exists>k. settings_abs (nvr_settings_close (snd (set_run lossy_calls fresh_settings))) =
      fold set_spec (accepted (take k [0, -1, 0]) (take k lossy_calls)) (settings_abs (se_db fresh_settings)) \<and>
    (k = length lossy_calls \<and> se_tx (snd (set_run lossy_calls fresh_settings)) = None \<or>
     k < length lossy_calls \<and> (\<exists>kvs. snd (lossy_calls ! k) = SetMany kvs) \<and> [0, -1, 0::int] ! k = -1 \<and>
       se_tx (snd (set_run lossy_calls fresh_settings)) \<noteq> None))"
proof -
  have f: "fst (set_run lossy_calls fresh_settings) = [0, -1, 0]" by code_simp
  have g: "sp_int (settings_abs (nvr_settings_close (snd (set_run lossy_calls fresh_settings)))) ''network.bleEnable'' = None" by code_simp
  have h: "set_run lossy_calls fresh_settings = ([0, -1, 0], snd (set_run lossy_calls fresh_settings))" using f by (metis prod.collapse)
  show ?thesis using f g settings_durable[OF h] by (simp add: fresh_settings_def)
qed

text \<open>A rolled back \<open>nvr_settings_set_many\<close> has announced the keys before the one that failed.\<close>

lemma rolled_back_announced:
  "nvr_settings_set_many (\<lambda>i. i \<noteq> 2)
     [\<lparr>kv_name = ''cloud.switch'', kv_is_str = False, kv_int = 1, kv_str = None\<rparr>, \<lparr>kv_name = ''cloud.app_key'', kv_is_str = True, kv_int = 0, kv_str = Some ''k''\<rparr>]
     fresh_settings = (-1, [(7, ''cloud.switch'')], fresh_settings)"
  by code_simp

text \<open>The switch of the encryption cannot be seeded off with a JSON false.\<close>

lemma seeded_encryption_on:
  "seed_storage (Some (JObj [(''encryption'', JObj [(''enable'', JBool False)])])) =
     [SeedStr ''storage.hdd_full'' ''overwrite'', SeedInt ''storage.encryption'' 1]"
  by code_simp

end
