(* ===== verification/App_Ble.thy ===== *)
theory App_Ble
  imports Prelude
begin

text \<open>
  app/ble/nvr\_ble.c: commands over Bluetooth. A message travels as one first packet, of a header of six bytes, and packets of a
  header of one byte. The link and the dispatcher of commands are arguments: \<open>sent i\<close> says whether the link takes packet \<open>i\<close> of a message,
  \<open>dispatch\<close> answers a command. Memory never runs out, so the growing buffer \<open>asm_buf\<close> is the list of the \<open>asm_len\<close> bytes received.
  An operation returns the commands it dispatched and the packets it notified.
\<close>

definition BLE_PKT_FIRST :: u8 where "BLE_PKT_FIRST = 1"
definition BLE_PKT_MID :: u8 where "BLE_PKT_MID = 2"
definition BLE_PKT_LAST :: u8 where "BLE_PKT_LAST = 0"
definition BLE_FIRST_HDR :: nat where "BLE_FIRST_HDR = 6"
definition BLE_CONT_HDR :: nat where "BLE_CONT_HDR = 1"
definition BLE_MAX_MSG :: nat where "BLE_MAX_MSG = 16 * 1024"

lemmas ble_consts = BLE_PKT_FIRST_def BLE_PKT_MID_def BLE_PKT_LAST_def BLE_FIRST_HDR_def BLE_CONT_HDR_def BLE_MAX_MSG_def

section \<open>Cutting a message\<close>

function ble_cont :: "(nat \<Rightarrow> bool) \<Rightarrow> nat \<Rightarrow> nat \<Rightarrow> bytes \<Rightarrow> int \<times> bytes list" where
  "ble_cont sent cap i rest =
     (if rest = [] \<or> cap = 0 then (int i, [])
      else let pkt = (if length rest \<le> cap then BLE_PKT_LAST else BLE_PKT_MID) # take cap rest
        in if \<not> sent i then (-1, [])
          else (case ble_cont sent cap (Suc i) (drop cap rest) of (rc, pkts) \<Rightarrow> (rc, pkt # pkts)))"
  by pat_completeness auto
termination by (relation "measure (\<lambda>(_, _, _, rest). length rest)") auto

declare ble_cont.simps [simp del]

definition ble_mtu :: "int \<Rightarrow> nat" where
  "ble_mtu mtu = (let m = (if mtu < 7 then 40 else mtu) in nat (if m > 512 then 512 else m))"

definition nvr_ble_frame_encode :: "(nat \<Rightarrow> bool) \<Rightarrow> bytes \<Rightarrow> bool \<Rightarrow> int \<Rightarrow> int \<times> bytes list" where
  "nvr_ble_frame_encode sent payload enc mtu =
     (let first_cap = ble_mtu mtu - BLE_FIRST_HDR; cont_cap = ble_mtu mtu - BLE_CONT_HDR; len = length payload;
          pkt = [BLE_PKT_FIRST, of_nat len, of_nat (len div 256), 0, 0, if enc then 1 else 0] @ take first_cap payload
      in if \<not> sent 0 then (-1, [])
         else (case ble_cont sent cont_cap 1 (drop first_cap payload) of (rc, pkts) \<Rightarrow> (rc, pkt # pkts)))"

section \<open>Putting it together again\<close>

record nvr_ble =
  bl_mtu :: int
  bl_notify :: "(nat \<Rightarrow> bool) option"
  asm_buf :: bytes
  asm_total :: nat
  asm_enc :: bool
  asm_active :: bool

definition asm_reset :: "nvr_ble \<Rightarrow> nvr_ble" where
  "asm_reset b = b\<lparr>asm_buf := [], asm_total := 0, asm_enc := False, asm_active := False\<rparr>"

definition emit_notify :: "nvr_ble \<Rightarrow> nat \<Rightarrow> bool" where
  "emit_notify b i = (case bl_notify b of None \<Rightarrow> False | Some sent \<Rightarrow> sent i)"

text \<open>The dispatcher takes a C string: it sees the bytes before the first NUL.\<close>

definition c_str :: "bytes \<Rightarrow> bytes" where "c_str = takeWhile (\<lambda>c. c \<noteq> 0)"

definition no_dispatch :: bytes where
  "no_dispatch = map of_char ''{\"statusCode\":500,\"statusMsg\":\"no dispatch\"}''"

type_synonym ble_dispatch = "bytes \<Rightarrow> bool \<Rightarrow> bytes option"

definition deliver :: "ble_dispatch option \<Rightarrow> nvr_ble \<Rightarrow> (bytes \<times> bool) list \<times> bytes list \<times> nvr_ble" where
  "deliver dispatch b =
     (let msg = c_str (asm_buf b);
          calls = (case dispatch of None \<Rightarrow> [] | Some d \<Rightarrow> [(msg, asm_enc b)]);
          resp = (case dispatch of None \<Rightarrow> None | Some d \<Rightarrow> d msg (asm_enc b));
          reply = c_str (case resp of None \<Rightarrow> no_dispatch | Some r \<Rightarrow> r)
      in (calls, snd (nvr_ble_frame_encode (emit_notify b) reply (asm_enc b) (bl_mtu b)), asm_reset b))"

definition rx_done :: "ble_dispatch option \<Rightarrow> nvr_ble \<Rightarrow> int \<times> (bytes \<times> bool) list \<times> bytes list \<times> nvr_ble" where
  "rx_done dispatch b = (0, if asm_active b \<and> asm_total b \<le> length (asm_buf b)
     then deliver dispatch (b\<lparr>asm_buf := take (asm_total b) (asm_buf b)\<rparr>) else ([], [], b))"

definition nvr_ble_on_rx :: "ble_dispatch option \<Rightarrow> bytes \<Rightarrow> nvr_ble \<Rightarrow> int \<times> (bytes \<times> bool) list \<times> bytes list \<times> nvr_ble" where
  "nvr_ble_on_rx dispatch pkt b =
     (if pkt = [] then (-1, [], [], b)
      else if pkt ! 0 = BLE_PKT_FIRST then
        (if length pkt < BLE_FIRST_HDR then (-1, [], [], b)
         else let total = unat (pkt ! 1) + 256 * unat (pkt ! 2) in
           if BLE_MAX_MSG < total then (-1, [], [], asm_reset b)
           else rx_done dispatch (b\<lparr>asm_buf := drop BLE_FIRST_HDR pkt, asm_total := total, asm_enc := (pkt ! 5 \<noteq> 0), asm_active := True\<rparr>))
      else if pkt ! 0 = BLE_PKT_MID \<or> pkt ! 0 = BLE_PKT_LAST then
        (if \<not> asm_active b then (-1, [], [], b)
         else rx_done dispatch (b\<lparr>asm_buf := asm_buf b @ drop BLE_CONT_HDR pkt\<rparr>))
      else (-1, [], [], b))"

fun rx_all :: "ble_dispatch option \<Rightarrow> bytes list \<Rightarrow> nvr_ble \<Rightarrow> (bytes \<times> bool) list \<times> bytes list \<times> nvr_ble" where
  "rx_all dispatch [] b = ([], [], b)"
| "rx_all dispatch (pkt # pkts) b =
     (case nvr_ble_on_rx dispatch pkt b of (rc, calls, out, b) \<Rightarrow>
        (case rx_all dispatch pkts b of (calls', out', b) \<Rightarrow> (calls @ calls', out @ out', b)))"

section \<open>Advertising\<close>

definition to_upper :: "char \<Rightarrow> char" where
  "to_upper c = (if 97 \<le> (of_char c :: nat) \<and> (of_char c :: nat) \<le> 122 then char_of ((of_char c :: nat) - 32) else c)"

definition nvr_ble_update_adv :: "string \<Rightarrow> string \<Rightarrow> string \<Rightarrow> bool \<Rightarrow> bool \<Rightarrow> string \<times> string" where
  "nvr_ble_update_adv model mac serial bound unlocked =
     (let m = take 23 (map to_upper (filter (\<lambda>c. c \<noteq> CHR '':'' \<and> c \<noteq> CHR ''-'') mac)) in
      (take 63 (''NO_'' @ model),
       take 79 (m @ ''_'' @ serial @ (if bound then ''_'' @ (if unlocked then ''1'' else ''0'') else []))))"

definition nvr_ble_create :: "int \<Rightarrow> (nat \<Rightarrow> bool) option \<Rightarrow> nvr_ble" where
  "nvr_ble_create mtu notify = \<lparr>bl_mtu = (if mtu < 7 then 40 else mtu), bl_notify = notify,
     asm_buf = [], asm_total = 0, asm_enc = False, asm_active = False\<rparr>"

section \<open>A message arrives\<close>

abbreviation link_up :: "nat \<Rightarrow> bool" where "link_up \<equiv> \<lambda>i. True"

definition frames :: "bytes \<Rightarrow> bool \<Rightarrow> int \<Rightarrow> bytes list" where
  "frames payload enc mtu = snd (nvr_ble_frame_encode link_up payload enc mtu)"

lemma ble_mtu_bounds: "7 \<le> ble_mtu mtu" "ble_mtu mtu \<le> 512"
  by (auto simp: ble_mtu_def Let_def)

lemma ble_cont_snd: "snd (ble_cont sent cap i rest) = (if rest = [] \<or> cap = 0 \<or> \<not> sent i then []
    else ((if length rest \<le> cap then BLE_PKT_LAST else BLE_PKT_MID) # take cap rest) # snd (ble_cont sent cap (Suc i) (drop cap rest)))"
  by (subst ble_cont.simps) (simp add: Let_def split: prod.split)

lemma cont_packets:
  "\<forall>p \<in> set (snd (ble_cont sent cap i rest)). p \<noteq> [] \<and> length p \<le> Suc cap \<and> (p ! 0 = BLE_PKT_MID \<or> p ! 0 = BLE_PKT_LAST)"
proof (induction sent cap i rest rule: ble_cont.induct)
  case (1 sent cap i rest)
  show ?case
  proof (cases "rest = [] \<or> cap = 0 \<or> \<not> sent i")
    case True
    then show ?thesis by (subst ble_cont_snd) simp
  next
    case False
    then show ?thesis using 1[OF _ refl] by (subst ble_cont_snd) auto
  qed
qed

lemma rx_idle:
  assumes "\<not> asm_active b" "\<forall>p \<in> set pkts. p \<noteq> [] \<and> (p ! 0 = BLE_PKT_MID \<or> p ! 0 = BLE_PKT_LAST)"
  shows "rx_all d pkts b = ([], [], b)"
  using assms(2) by (induction pkts) (use assms(1) in \<open>auto simp: nvr_ble_on_rx_def ble_consts\<close>)

text \<open>The packets of the rest of a message, given to a receiver that holds its beginning.\<close>

lemma rx_cont:
  assumes "asm_active b" "length (asm_buf b) < asm_total b" "0 < cap"
  shows "rx_all d (snd (ble_cont link_up cap i rest)) b =
    (if asm_total b \<le> length (asm_buf b) + length rest then deliver d (b\<lparr>asm_buf := take (asm_total b) (asm_buf b @ rest)\<rparr>)
     else ([], [], b\<lparr>asm_buf := asm_buf b @ rest\<rparr>))"
  using assms
proof (induction "link_up" cap i rest arbitrary: b rule: ble_cont.induct)
  case (1 cap i rest)
  show ?case
  proof (cases "rest = []")
    case True
    then show ?thesis using 1(3) by (subst ble_cont_snd) simp
  next
    case False
    define b1 where "b1 = b\<lparr>asm_buf := asm_buf b @ take cap rest\<rparr>"
    have b1: "asm_active b1" "asm_total b1 = asm_total b" "asm_buf b1 = asm_buf b @ take cap rest" using 1(2) by (simp_all add: b1_def)
    define t where "t = (if length rest \<le> cap then BLE_PKT_LAST else BLE_PKT_MID)"
    have rx: "nvr_ble_on_rx d (t # take cap rest) b = rx_done d b1"
      using 1(2) by (simp add: nvr_ble_on_rx_def t_def b1_def ble_consts)
    have step: "rx_all d (snd (ble_cont link_up cap i rest)) b =
        (case rx_done d b1 of (rc, calls, out, b) \<Rightarrow>
          (case rx_all d (snd (ble_cont link_up cap (Suc i) (drop cap rest))) b of (calls', out', b) \<Rightarrow> (calls @ calls', out @ out', b)))"
      using False 1(4) rx by (subst ble_cont_snd) (simp add: t_def)
    show ?thesis
    proof (cases "asm_total b \<le> length (asm_buf b1)")
      case True
      define done_b where "done_b = b1\<lparr>asm_buf := take (asm_total b) (asm_buf b1)\<rparr>"
      obtain calls out b2 where del: "deliver d done_b = (calls, out, b2)" by (metis prod_cases3)
      have idle: "rx_all d (snd (ble_cont link_up cap (Suc i) (drop cap rest))) b2 = ([], [], b2)"
        using del cont_packets by (intro rx_idle) (auto simp: deliver_def Let_def asm_reset_def)
      have "done_b = b\<lparr>asm_buf := take (asm_total b) (asm_buf b @ rest)\<rparr>"
        using True 1(3) by (simp add: done_b_def b1_def min_def split: if_splits)
      moreover have "asm_total b \<le> length (asm_buf b) + length rest" using True b1(3) by simp
      ultimately show ?thesis using step True b1 1(3) del idle by (simp add: rx_done_def done_b_def)
    next
      case False2: False
      have lr: "length (asm_buf b1) + length (drop cap rest) = length (asm_buf b) + length rest" using b1(3) by simp
      have ap: "asm_buf b1 @ drop cap rest = asm_buf b @ rest" using b1(3) by simp
      have upd: "b1\<lparr>asm_buf := x\<rparr> = b\<lparr>asm_buf := x\<rparr>" for x by (simp add: b1_def)
      have "rx_all d (snd (ble_cont link_up cap i rest)) b = rx_all d (snd (ble_cont link_up cap (Suc i) (drop cap rest))) b1"
        using step False2 b1 by (simp add: rx_done_def split: prod.split)
      also have "\<dots> = (if asm_total b1 \<le> length (asm_buf b1) + length (drop cap rest)
          then deliver d (b1\<lparr>asm_buf := take (asm_total b1) (asm_buf b1 @ drop cap rest)\<rparr>) else ([], [], b1\<lparr>asm_buf := asm_buf b1 @ drop cap rest\<rparr>))"
        using 1(1)[OF _ refl, of b1] False False2 b1 1(4) by simp
      finally show ?thesis unfolding lr ap upd b1(2) .
    qed
  qed
qed

lemma first_total:
  "unat (of_nat n :: u8) + 256 * unat (of_nat (n div 256) :: u8) = n mod 65536"
proof -
  have "n mod 65536 = 256 * (n div 256 mod 256) + n mod 256" using mod_mult2_eq[of n 256 256] by simp
  then show ?thesis by (simp add: unat_of_nat)
qed

lemma rx_frames:
  "rx_all dispatch (frames p enc mtu) b =
    (let t = length p mod 65536; b' = b\<lparr>asm_buf := take t p, asm_total := t, asm_enc := enc, asm_active := True\<rparr> in
     if BLE_MAX_MSG < t then ([], [], asm_reset b) else deliver dispatch b')"
proof -
  define fc cc where "fc = ble_mtu mtu - BLE_FIRST_HDR" and "cc = ble_mtu mtu - BLE_CONT_HDR"
  have fc: "0 < cc" using ble_mtu_bounds[of mtu] by (simp_all add: cc_def ble_consts)
  define rest where "rest = snd (ble_cont link_up cc 1 (drop fc p))"
  define pkt where "pkt = [BLE_PKT_FIRST, of_nat (length p), of_nat (length p div 256), 0, 0, if enc then 1 else 0] @ take fc p"
  have f: "frames p enc mtu = pkt # rest"
    by (simp add: frames_def nvr_ble_frame_encode_def Let_def pkt_def rest_def fc_def cc_def split: prod.split)
  define t where "t = length p mod 65536"
  have tl: "t \<le> length p" by (simp add: t_def)
  have tt: "unat (of_nat (length p) :: u8) + 256 * unat (of_nat (length p div 256) :: u8) = t" using first_total t_def by simp
  define b1 where "b1 = b\<lparr>asm_buf := take fc p, asm_total := t, asm_enc := enc, asm_active := True\<rparr>"
  have rx: "nvr_ble_on_rx dispatch pkt b = (if BLE_MAX_MSG < t then (-1, [], [], asm_reset b) else rx_done dispatch b1)"
    using tt by (simp add: nvr_ble_on_rx_def pkt_def ble_consts b1_def)
  have idle: "rx_all dispatch rest b2 = ([], [], b2)" if "\<not> asm_active b2" for b2
    using that cont_packets unfolding rest_def by (intro rx_idle) auto
  consider "BLE_MAX_MSG < t" | "t \<le> BLE_MAX_MSG" "t \<le> length (take fc p)" | "t \<le> BLE_MAX_MSG" "length (take fc p) < t" by linarith
  then show ?thesis
  proof cases
    case 1
    then show ?thesis using f rx idle[of "asm_reset b"] by (simp add: t_def asm_reset_def)
  next
    case 2
    define b2 where "b2 = b1\<lparr>asm_buf := take t (take fc p)\<rparr>"
    have b2: "b2 = b\<lparr>asm_buf := take t p, asm_total := t, asm_enc := enc, asm_active := True\<rparr>"
      using 2(2) by (simp add: b2_def b1_def min_absorb1)
    obtain calls out b3 where d: "deliver dispatch b2 = (calls, out, b3)" by (metis prod_cases3)
    have "\<not> asm_active b3" using d by (auto simp: deliver_def Let_def asm_reset_def)
    then have "rx_all dispatch (frames p enc mtu) b = (calls, out, b3)"
      using f rx idle 2 d by (simp add: rx_done_def b1_def b2_def)
    then show ?thesis using 2(1) d b2 by (simp add: t_def Let_def)
  next
    case 3
    have "rx_all dispatch rest b1 = deliver dispatch (b1\<lparr>asm_buf := take t (take fc p @ drop fc p)\<rparr>)"
      using rx_cont[of b1 cc dispatch 1 "drop fc p"] 3 fc tl unfolding rest_def by (simp add: b1_def)
    moreover have "b1\<lparr>asm_buf := take t (take fc p @ drop fc p)\<rparr> = b\<lparr>asm_buf := take t p, asm_total := t, asm_enc := enc, asm_active := True\<rparr>"
      by (simp add: b1_def)
    moreover have "rx_done dispatch b1 = (0, [], [], b1)" using 3(2) by (auto simp: rx_done_def b1_def min_less_iff_disj)
    then have "rx_all dispatch (frames p enc mtu) b = rx_all dispatch rest b1"
      using f rx 3(1) by (simp split: prod.split)
    ultimately show ?thesis using 3(1) by (simp add: t_def[symmetric] Let_def)
  qed
qed

lemma c_str_id: "0 \<notin> set m \<Longrightarrow> c_str m = m"
  by (auto simp: c_str_def intro!: takeWhile_eq_all_conv[THEN iffD2])

lemma frames_any: "bl_notify b = Some link_up \<Longrightarrow> snd (nvr_ble_frame_encode (emit_notify b) p enc mtu) = frames p enc mtu"
proof -
  assume "bl_notify b = Some link_up"
  then have "emit_notify b = link_up" by (simp add: emit_notify_def fun_eq_iff)
  then show ?thesis by (simp add: frames_def)
qed

definition messages :: "(bytes \<times> bool) list \<times> bytes list \<times> nvr_ble \<Rightarrow> (bytes \<times> bool) list" where "messages r = fst r"
definition notified :: "(bytes \<times> bool) list \<times> bytes list \<times> nvr_ble \<Rightarrow> bytes list" where "notified r = fst (snd r)"
definition receiver :: "(bytes \<times> bool) list \<times> bytes list \<times> nvr_ble \<Rightarrow> nvr_ble" where "receiver r = snd (snd r)"

text \<open>C14: A command of at most 16 KiB without a NUL, cut into packets for any MTU and received in any state of the recorder's end, is
  dispatched exactly once, as it was sent, and leaves that end idle. The packets of the reply, received by a peer of the same code in any
  state, are the reply when it has at most 16 KiB; a longer one is lost, but for one whose length modulo 65536, the only length the first
  packet carries, is small enough: its beginning arrives as if it were the whole reply.\<close>

theorem ble_exchange:
  assumes "length cmd \<le> BLE_MAX_MSG" "0 \<notin> set cmd" "0 \<notin> set reply" "d cmd enc = Some reply" "bl_notify nvr = Some link_up"
  shows "messages (rx_all (Some d) (frames cmd enc mtu) nvr) = [(cmd, enc)] \<and>
    receiver (rx_all (Some d) (frames cmd enc mtu) nvr) = asm_reset nvr \<and>
    messages (rx_all (Some d2) (notified (rx_all (Some d) (frames cmd enc mtu) nvr)) peer) =
      (if BLE_MAX_MSG < length reply mod 65536 then [] else [(take (length reply mod 65536) reply, enc)])"
proof -
  have l: "length cmd mod 65536 = length cmd" "\<not> BLE_MAX_MSG < length cmd" using assms(1) by (simp_all add: ble_consts)
  have r: "rx_all (Some d) (frames cmd enc mtu) nvr = ([(cmd, enc)], frames reply enc (bl_mtu nvr), asm_reset nvr)"
    unfolding rx_frames using l assms
    by (simp add: Let_def deliver_def c_str_id frames_any asm_reset_def)
  have "0 \<notin> set (take n reply)" for n using assms(3) by (meson in_set_takeD)
  then show ?thesis unfolding messages_def notified_def receiver_def r fst_conv snd_conv rx_frames[of "Some d2"]
    by (simp add: Let_def deliver_def c_str_id)
qed

text \<open>Its witness: a reply of three packets, and one of 65538 bytes that arrives as its first two.\<close>

lemma ble_exchange_witness:
  "messages (rx_all (Some (\<lambda>c e. Some (replicate 90 65))) (notified (rx_all (Some (\<lambda>c e. Some (replicate 90 65)))
     (frames [123, 125] False 40) (nvr_ble_create 40 (Some link_up)))) (nvr_ble_create 23 None)) = [(replicate 90 65, False)] \<and>
   messages (rx_all (Some (\<lambda>c e. None)) (notified (rx_all (Some (\<lambda>c e. Some (replicate 65538 65)))
     (frames [123, 125] False 40) (nvr_ble_create 40 (Some link_up)))) (nvr_ble_create 23 None)) = [([65, 65], False)]"
proof -
  have nul: "(0 :: u8) \<notin> set (replicate n 65)" for n by simp
  have a: "length [123, 125 :: u8] \<le> BLE_MAX_MSG" "(0 :: u8) \<notin> set [123, 125]" "bl_notify (nvr_ble_create 40 (Some link_up)) = Some link_up"
    by (simp_all add: ble_consts nvr_ble_create_def)
  have E: "messages (rx_all (Some d2) (notified (rx_all (Some (\<lambda>c e. Some (replicate n 65)))
      (frames [123, 125] False 40) (nvr_ble_create 40 (Some link_up)))) peer) =
      (if BLE_MAX_MSG < n mod 65536 then [] else [(take (n mod 65536) (replicate n 65), False)])" for n d2 peer
    using ble_exchange[of "[123, 125]" "replicate n 65" "\<lambda>c e. Some (replicate n 65)" False "nvr_ble_create 40 (Some link_up)" 40 d2 peer]
      a nul[of n] by simp
  have two: "take 2 (replicate 65538 (65 :: u8)) = [65, 65]" by (simp add: take_replicate numeral_2_eq_2)
  show ?thesis
    unfolding E using two by (simp add: BLE_MAX_MSG_def)
qed

end
