(* ===== verification/Storage.thy ===== *)
theory Storage
  imports App_Events
begin

text \<open>
  components/storage: which disks there are, whose they are, their assembly into the group of the recorder, and the periodic check of
  their health, of removal and of full disks. The disks are the images of Rsdk\_Rawdev under their device paths. \<open>sys name attr\<close> is
  the attribute file of /sys/block, with decimal numbers as the kernel writes them; the directory listing, the uevents of the
  kernel and the lines of /proc/mounts, as fgets cuts them, are arguments. An operation returns the events it hands to the callback, a disk by its place in the table.
\<close>

section \<open>Disks\<close>

datatype nvr_disk_state =
    NVR_DISK_UNKNOWN | NVR_DISK_BLANK | NVR_DISK_FOREIGN | NVR_DISK_OURS | NVR_DISK_OURS_OTHER | NVR_DISK_ACTIVE
  | NVR_DISK_FAILED | NVR_DISK_OFFLINE

record nvr_disk_health =
  dh_ok :: bool
  dh_read_only :: bool
  dh_temp_celsius :: int
  dh_reallocated :: u32
  dh_pending :: u32
  dh_power_on_hours :: u32
  dh_io_errors :: u64

record nvr_disk =
  dk_path :: string
  dk_model :: string
  dk_serial :: string
  dk_capacity_bytes :: u64
  dk_state :: nvr_disk_state
  dk_group_uuid :: bytes
  dk_group_disk_index :: u16
  dk_group_disk_count :: u16
  dk_feature_mask :: u32
  dk_enc_algo :: u8
  dk_health :: nvr_disk_health

definition NVR_MAX_DISKS :: nat where "NVR_MAX_DISKS = 8"

record nvr_storage_cfg =
  sc_device_sn :: "bytes option"
  sc_hdd_full :: u8
  sc_cb :: bool

record nvr_storage =
  sg_cfg :: nvr_storage_cfg
  sg_disks :: "nvr_disk list"
  sg_group :: "rsdk_group option"
  sg_hotplug :: bool

type_synonym stg_events = "(nvr_stg_evt \<times> nat option) list"
type_synonym sysfs = "string \<Rightarrow> string \<Rightarrow> string option"

definition stg_emit :: "nvr_storage \<Rightarrow> nvr_stg_evt \<Rightarrow> nat option \<Rightarrow> stg_events" where
  "stg_emit s e d = (if sc_cb (sg_cfg s) then [(e, d)] else [])"

definition nvr_storage_init :: "nvr_storage_cfg \<Rightarrow> bool \<Rightarrow> nvr_storage" where
  "nvr_storage_init cfg hotplug = \<lparr>sg_cfg = cfg, sg_disks = [], sg_group = None, sg_hotplug = hotplug\<rparr>"

section \<open>Reading /sys/block\<close>

definition digit :: "char \<Rightarrow> bool" where "digit c \<longleftrightarrow> 48 \<le> (of_char c :: nat) \<and> (of_char c :: nat) \<le> 57"

definition strtoul :: "string \<Rightarrow> u64" where
  "strtoul s = of_nat (min (read_nat (takeWhile digit (dropWhile (\<lambda>c. c = CHR '' '') s))) (2 ^ 64 - 1))"

definition strip_end :: "string \<Rightarrow> string" where
  "strip_end s = rev (dropWhile (\<lambda>c. c = CHR 0x0A \<or> c = CHR '' '') (rev s))"

definition sysfs_read :: "sysfs \<Rightarrow> string \<Rightarrow> string \<Rightarrow> string option" where
  "sysfs_read sys name attr = map_option (\<lambda>text. strip_end (take 63 text)) (sys name attr)"

definition is_whole_disk :: "string \<Rightarrow> bool" where
  "is_whole_disk name \<longleftrightarrow> (take 2 name = ''sd'' \<or> take 2 name = ''hd'') \<and> \<not> digit (last name)"

definition base_name :: "string \<Rightarrow> string" where
  "base_name path = rev (takeWhile (\<lambda>c. c \<noteq> CHR ''/'') (rev path))"

definition sysfs_read_u :: "sysfs \<Rightarrow> string \<Rightarrow> string \<Rightarrow> u64 option" where
  "sysfs_read_u sys name attr = (case sys name attr of None \<Rightarrow> None | Some text \<Rightarrow> if text = [] then None else Some (strtoul (take 63 text)))"

definition zero_health :: nvr_disk_health where
  "zero_health = \<lparr>dh_ok = False, dh_read_only = False, dh_temp_celsius = 0, dh_reallocated = 0, dh_pending = 0, dh_power_on_hours = 0, dh_io_errors = 0\<rparr>"

definition nvr_storage_read_health :: "sysfs \<Rightarrow> string \<Rightarrow> nvr_disk_health" where
  "nvr_storage_read_health sys path =
     (let h = zero_health\<lparr>dh_temp_celsius := -1,
            dh_read_only := (case sysfs_read_u sys (base_name path) ''ro'' of Some v \<Rightarrow> v \<noteq> 0 | None \<Rightarrow> False)\<rparr>
      in h\<lparr>dh_ok := (\<not> dh_read_only h \<and> dh_reallocated h < 64 \<and> dh_pending h = 0)\<rparr>)"

section \<open>Identification and scan\<close>

definition nvr_storage_identify :: "image_fs \<Rightarrow> bytes option \<Rightarrow> nvr_disk \<Rightarrow> nvr_disk_state \<times> nvr_disk" where
  "nvr_storage_identify fs want d =
     (case rsdk_rawdev_open fs (dk_path d) of
        Inl e \<Rightarrow> (NVR_DISK_UNKNOWN, d)
      | Inr raw \<Rightarrow>
          (let sb = sb_decode (rsdk_rawdev_pread raw RSDK_SEC 512) in
           if sb_magic sb = RSDK_SB_MAGIC \<and> sb_version sb = 1
           then (if (case want of None \<Rightarrow> False | Some u \<Rightarrow> sb_group_uuid sb \<noteq> u) then NVR_DISK_OURS_OTHER else NVR_DISK_OURS,
                 d\<lparr>dk_group_uuid := sb_group_uuid sb, dk_group_disk_index := sb_group_disk_index sb, dk_group_disk_count := sb_group_disk_count sb,
                   dk_feature_mask := sb_feature_mask sb, dk_enc_algo := sb_enc_algo sb\<rparr>)
           else (NVR_DISK_BLANK, d)))"


definition scan_disk :: "sysfs \<Rightarrow> image_fs \<Rightarrow> string \<Rightarrow> nvr_disk" where
  "scan_disk sys fs name =
     (let text = (\<lambda>attr. case sysfs_read sys name attr of None \<Rightarrow> [] | Some v \<Rightarrow> v);
          d = \<lparr>dk_path = take 31 (''/dev/'' @ name), dk_model = text ''device/model'', dk_serial = text ''device/serial'',
            dk_capacity_bytes = (if text ''size'' \<noteq> [] then strtoul (text ''size'') * 512 else 0), dk_state = NVR_DISK_UNKNOWN,
            dk_group_uuid = replicate 16 0, dk_group_disk_index = 0, dk_group_disk_count = 0, dk_feature_mask = 0, dk_enc_algo = 0,
            dk_health = zero_health\<rparr>;
          (st, d) = nvr_storage_identify fs None d
      in d\<lparr>dk_state := st, dk_health := nvr_storage_read_health sys (dk_path d)\<rparr>)"

definition nvr_storage_scan :: "sysfs \<Rightarrow> image_fs \<Rightarrow> string list option \<Rightarrow> nvr_storage \<Rightarrow> nat \<times> nvr_storage" where
  "nvr_storage_scan sys fs listing s =
     (case listing of
        None \<Rightarrow> (0, s)
      | Some names \<Rightarrow>
          (let ds = map (scan_disk sys fs) (take NVR_MAX_DISKS (filter is_whole_disk names)) in (length ds, s\<lparr>sg_disks := ds\<rparr>)))"

definition nvr_storage_list :: "int \<Rightarrow> nvr_storage \<Rightarrow> nvr_disk list" where
  "nvr_storage_list cap s = take (nat cap) (sg_disks s)"

section \<open>Format and assembly\<close>

definition storage_format_opt :: "nvr_storage \<Rightarrow> format_opt" where
  "storage_format_opt s = \<lparr>fo_sn = sc_device_sn (sg_cfg s), fo_chunk_mib = 0, fo_slots_per_chunk = 0, fo_feature_mask = 0, fo_meta_ratio_pct = 0,
     fo_format_time = 0, fo_hdd_full = sc_hdd_full (sg_cfg s)\<rparr>"

definition nvr_storage_format ::
  "rsdk_cfg \<Rightarrow> (rat \<Rightarrow> rat) \<Rightarrow> format_rnd \<Rightarrow> string \<Rightarrow> u16 \<Rightarrow> u16 \<Rightarrow> nvr_storage \<Rightarrow> image_fs \<Rightarrow> rsdk_err \<times> image_fs" where
  "nvr_storage_format cfg fl rnd path group_index group_count s fs =
     (case rsdk_format cfg fl rnd fs path (Some (storage_format_opt s)) of
        (rc, fs) \<Rightarrow> if rc \<noteq> RSDK_OK then (rc, fs)
          else (case rsdk_dev_open fs path of Inl e \<Rightarrow> (e, fs) | Inr d \<Rightarrow> (RSDK_OK, fs)))"

definition assembled :: "nvr_disk \<Rightarrow> bool" where
  "assembled d \<longleftrightarrow> (dk_state d = NVR_DISK_OURS \<or> dk_state d = NVR_DISK_ACTIVE) \<and> unat (dk_group_disk_index d) < NVR_MAX_DISKS"

fun collect :: "nvr_disk list \<Rightarrow> string option list \<times> nat \<times> nat \<Rightarrow> string option list \<times> nat \<times> nat" where
  "collect [] acc = acc"
| "collect (d # ds) (ordered, found, expect) =
     (if assembled d
      then collect ds (ordered[unat (dk_group_disk_index d) := Some (dk_path d)], found + 1, max expect (unat (dk_group_disk_count d)))
      else collect ds (ordered, found, expect))"

text \<open>A group of more disks than the array of paths has places is read past its end: None.\<close>

definition nvr_storage_assemble :: "image_fs \<Rightarrow> nvr_storage \<Rightarrow> (rsdk_err \<times> stg_events \<times> nvr_storage) option" where
  "nvr_storage_assemble fs s =
     (case collect (sg_disks s) (replicate NVR_MAX_DISKS None, 0, 0) of
        (ordered, found, expect) \<Rightarrow>
          if found = 0 then Some (RSDK_E_NOTFOUND, [], s)
          else let expect = (if expect = 0 then found else expect) in
            if NVR_MAX_DISKS < expect then None
            else let paths = map the (filter (\<lambda>p. p \<noteq> None) (take expect ordered));
                evs = (if found < expect then stg_emit s NVR_STG_EVT_DISK_REMOVED None else [])
              in Some (case rsdk_group_open fs paths of
                   Inl e \<Rightarrow> (e, evs, s)
                 | Inr g \<Rightarrow> (RSDK_OK, evs, s\<lparr>sg_group := Some g,
                     sg_disks := map (\<lambda>d. if dk_state d = NVR_DISK_OURS then d\<lparr>dk_state := NVR_DISK_ACTIVE\<rparr> else d) (sg_disks s)\<rparr>)))"

definition nvr_storage_group :: "nvr_storage \<Rightarrow> rsdk_group option" where "nvr_storage_group s = sg_group s"

section \<open>Hot-plug, health and full disks\<close>

fun split_nul :: "string \<Rightarrow> string list" where
  "split_nul [] = [[]]"
| "split_nul (c # s) = (if c = CHR 0x00 then [] # split_nul s else (case split_nul s of w # ws \<Rightarrow> (c # w) # ws | [] \<Rightarrow> [[c]]))"

definition uevent_key :: "string \<Rightarrow> string list \<Rightarrow> string option" where
  "uevent_key key lines = (case filter (\<lambda>l. take (length key) l = key) lines of [] \<Rightarrow> None | ls \<Rightarrow> Some (drop (length key) (last ls)))"

fun contains :: "string \<Rightarrow> string \<Rightarrow> bool" where
  "contains [] needle = (needle = [])"
| "contains (c # s) needle = (take (length needle) (c # s) = needle \<or> contains s needle)"

fun first_disk :: "nat \<Rightarrow> (nvr_disk \<Rightarrow> bool) \<Rightarrow> nvr_disk list \<Rightarrow> nat option" where
  "first_disk i P [] = None"
| "first_disk i P (d # ds) = (if P d then Some i else first_disk (Suc i) P ds)"

definition parse_uevent :: "string \<Rightarrow> nvr_storage \<Rightarrow> stg_events \<times> nvr_storage" where
  "parse_uevent buf s =
     (let lines = filter (\<lambda>l. l \<noteq> []) (split_nul buf); get = (\<lambda>k. uevent_key k lines) in
      case get ''ACTION='' of
        None \<Rightarrow> ([], s)
      | Some action \<Rightarrow>
          if get ''SUBSYSTEM='' \<noteq> Some ''block'' \<or> (get ''DEVTYPE='' \<noteq> None \<and> get ''DEVTYPE='' \<noteq> Some ''disk'') then ([], s)
          else if action = ''add'' then (stg_emit s NVR_STG_EVT_DISK_ADDED None, s)
          else if action = ''remove'' then
            (let hit = (case get ''DEVNAME='' of None \<Rightarrow> None | Some n \<Rightarrow> first_disk 0 (\<lambda>d. contains (dk_path d) n) (sg_disks s)) in
             (stg_emit s NVR_STG_EVT_DISK_REMOVED hit,
              case hit of None \<Rightarrow> s | Some k \<Rightarrow> s\<lparr>sg_disks := (sg_disks s)[k := (sg_disks s ! k)\<lparr>dk_state := NVR_DISK_OFFLINE\<rparr>]\<rparr>))
          else ([], s))"

fun stg_hotplug_poll :: "string list \<Rightarrow> nvr_storage \<Rightarrow> stg_events \<times> nvr_storage" where
  "stg_hotplug_poll [] s = ([], s)"
| "stg_hotplug_poll (m # ms) s =
     (if \<not> sg_hotplug s then ([], s)
      else case parse_uevent (take 4095 m) s of (evs, s) \<Rightarrow> (case stg_hotplug_poll ms s of (evs', s) \<Rightarrow> (evs @ evs', s)))"

definition tick_disk :: "sysfs \<Rightarrow> nat \<Rightarrow> nvr_storage \<Rightarrow> stg_events \<times> nvr_storage" where
  "tick_disk sys i s =
     (let d = sg_disks s ! i in
      if dk_state d = NVR_DISK_OFFLINE then ([], s)
      else let h = nvr_storage_read_health sys (dk_path d); was_ok = dh_ok (dk_health d); d = d\<lparr>dk_health := h\<rparr> in
        if was_ok \<and> \<not> dh_ok h \<and> dk_state d = NVR_DISK_ACTIVE
        then (stg_emit s NVR_STG_EVT_DISK_FAILED (Some i), s\<lparr>sg_disks := (sg_disks s)[i := d\<lparr>dk_state := NVR_DISK_FAILED\<rparr>]\<rparr>)
        else ([], s\<lparr>sg_disks := (sg_disks s)[i := d]\<rparr>))"

fun tick_disks :: "sysfs \<Rightarrow> nat list \<Rightarrow> nvr_storage \<Rightarrow> stg_events \<times> nvr_storage" where
  "tick_disks sys [] s = ([], s)"
| "tick_disks sys (i # ks) s = (case tick_disk sys i s of (evs, s) \<Rightarrow> (case tick_disks sys ks s of (evs', s) \<Rightarrow> (evs @ evs', s)))"

definition nvr_storage_tick :: "sysfs \<Rightarrow> string list \<Rightarrow> nvr_storage \<Rightarrow> stg_events \<times> nvr_storage" where
  "nvr_storage_tick sys msgs s =
     (case stg_hotplug_poll msgs s of (evs1, s) \<Rightarrow>
       (case tick_disks sys [0..<length (sg_disks s)] s of (evs2, s) \<Rightarrow>
         (evs1 @ evs2 @
          (case sg_group s of None \<Rightarrow> [] | Some g \<Rightarrow> if list_ex rsdk_dev_is_wrapped (gr_devs g) then stg_emit s NVR_STG_EVT_FULL None else []), s)))"

definition nvr_storage_disk_healthy :: "u16 \<Rightarrow> nvr_storage \<Rightarrow> bool" where
  "nvr_storage_disk_healthy index s = (case find (\<lambda>d. dk_group_disk_index d = index) (sg_disks s) of
     None \<Rightarrow> False | Some d \<Rightarrow> dh_ok (dk_health d) \<and> dk_state d = NVR_DISK_ACTIVE)"

definition guard_line :: "nvr_storage \<Rightarrow> string \<Rightarrow> nat list" where
  "guard_line s line = filter (\<lambda>i. let p = dk_path (sg_disks s ! i) in take (length p) line = p) [0..<length (sg_disks s)]"

definition nvr_storage_guard_check :: "string list option \<Rightarrow> nvr_storage \<Rightarrow> nat \<times> stg_events" where
  "nvr_storage_guard_check mounts s =
     (case mounts of
        None \<Rightarrow> (0, [])
      | Some lines \<Rightarrow> (let hits = concat (map (guard_line s) lines) in
          (length hits, concat (map (\<lambda>i. stg_emit s NVR_STG_EVT_DISK_FAILED (Some i)) hits))))"

section \<open>Full disks that must not be overwritten\<close>

text \<open>The recorder allocates chunks on the disks of the group, the application ticks the storage and hands its events to the scheduler.\<close>

datatype stg_step = Alloc nat | Tick sysfs "string list"

fun stg_do :: "stg_step \<Rightarrow> nvr_storage \<times> nvr_rec_sched \<Rightarrow> nvr_storage \<times> nvr_rec_sched" where
  "stg_do (Alloc i) (s, r) =
     (case sg_group s of
        None \<Rightarrow> (s, r)
      | Some g \<Rightarrow> if i < length (gr_devs g) then (s\<lparr>sg_group := Some (set_dev g i (snd (rsdk_dev_alloc_chunk (gr_devs g ! i))))\<rparr>, r) else (s, r))"
| "stg_do (Tick sys msgs) (s, r) =
     (case nvr_storage_tick sys msgs s of (evs, s) \<Rightarrow> (s, fold (\<lambda>(e, d). nvr_rec_on_storage_evt e) evs r))"

definition stop_disk :: "rsdk_dev \<Rightarrow> bool" where
  "stop_disk d \<longleftrightarrow> dev_ok d \<and> sb_hdd_full (dv_sb d) = RSDK_HDDFULL_STOP \<and> \<not> rsdk_dev_is_wrapped d"

lemma alloc_many_snoc: "alloc_many (Suc n) d =
  (fst (alloc_many n d) @ [fst (rsdk_dev_alloc_chunk (snd (alloc_many n d)))], snd (rsdk_dev_alloc_chunk (snd (alloc_many n d))))"
proof (induction n arbitrary: d)
  case 0
  show ?case by (simp add: case_prod_beta)
next
  case (Suc n)
  obtain r d1 where d1: "rsdk_dev_alloc_chunk d = (r, d1)" by fastforce
  have "alloc_many (Suc (Suc n)) d = (r # fst (alloc_many (Suc n) d1), snd (alloc_many (Suc n) d1))"
    by (subst alloc_many.simps(2)) (simp only: d1 Let_def case_prod_beta fst_conv snd_conv)
  moreover have "alloc_many (Suc n) d = (r # fst (alloc_many n d1), snd (alloc_many n d1))"
    by (subst alloc_many.simps(2)) (simp only: d1 Let_def case_prod_beta fst_conv snd_conv)
  ultimately show ?case using Suc.IH[of d1] by (simp only: fst_conv snd_conv append_Cons)
qed

lemma alloc_many_stop_disk:
  assumes "stop_disk d"
  shows "stop_disk (snd (alloc_many n d))" "dN d \<le> n \<Longrightarrow> fst (rsdk_dev_alloc_chunk (snd (alloc_many n d))) = Inl RSDK_E_NOSPACE"
proof -
  have d: "dev_ok d" "sb_hdd_full (dv_sb d) = RSDK_HDDFULL_STOP" "\<not> rsdk_dev_is_wrapped d" using assms by (simp_all add: stop_disk_def)
  note M = alloc_many_stop[OF d(1,2) refl]
  have same: "sb_hdd_full (dv_sb (snd (rsdk_dev_alloc_chunk e))) = sb_hdd_full (dv_sb e)" for e
    by (simp add: rsdk_dev_alloc_chunk_def Let_def)
  have "sb_hdd_full (dv_sb (snd (alloc_many n d))) = RSDK_HDDFULL_STOP"
    by (induction n) (use d(2) same in \<open>simp_all add: alloc_many_snoc del: alloc_many.simps(2)\<close>)
  then show "stop_disk (snd (alloc_many n d))" using M[of n] d(3) by (simp add: stop_disk_def rsdk_dev_is_wrapped_def)
  assume n: "dN d \<le> n"
  have len: "length (fst (alloc_many n d)) = n" using M[of n] by simp
  have "fst (alloc_many (Suc n) d) ! n = fst (rsdk_dev_alloc_chunk (snd (alloc_many n d)))"
    unfolding alloc_many_snoc fst_conv using len by (simp add: nth_append)
  moreover have "fst (alloc_many (Suc n) d) ! n = Inl RSDK_E_NOSPACE"
    using M[of "Suc n"] n by (simp del: alloc_many.simps upt_Suc)
  ultimately show "fst (rsdk_dev_alloc_chunk (snd (alloc_many n d))) = Inl RSDK_E_NOSPACE" by simp
qed

definition allocs :: "nat \<Rightarrow> stg_step list \<Rightarrow> nat" where
  "allocs i steps = length (filter (\<lambda>st. case st of Alloc j \<Rightarrow> j = i | _ \<Rightarrow> False) steps)"

lemma stg_emit_kind: "(e, d) \<in> set (stg_emit s e' d') \<Longrightarrow> e = e'"
  by (simp add: stg_emit_def split: if_splits)

lemma uevent_group: "sg_group (snd (parse_uevent buf s)) = sg_group s \<and> (NVR_STG_EVT_FULL, d) \<notin> set (fst (parse_uevent buf s))"
  by (auto simp: parse_uevent_def Let_def stg_emit_def split: option.splits if_splits)

lemma poll_group: "sg_group (snd (stg_hotplug_poll msgs s)) = sg_group s \<and> (NVR_STG_EVT_FULL, d) \<notin> set (fst (stg_hotplug_poll msgs s))"
proof (induction msgs arbitrary: s)
  case (Cons m ms)
  show ?case using uevent_group[where buf = "take 4095 m" and s = s and d = d] Cons[of "snd (parse_uevent (take 4095 m) s)"]
    by (simp add: case_prod_beta)
qed simp

lemma tick_disk_group: "sg_group (snd (tick_disk sys i s)) = sg_group s \<and> (NVR_STG_EVT_FULL, d) \<notin> set (fst (tick_disk sys i s))"
  by (simp add: tick_disk_def Let_def stg_emit_def)

lemma tick_disks_group: "sg_group (snd (tick_disks sys ks s)) = sg_group s \<and> (NVR_STG_EVT_FULL, d) \<notin> set (fst (tick_disks sys ks s))"
proof (induction ks arbitrary: s)
  case (Cons i ks)
  show ?case using tick_disk_group[where sys = sys and i = i and s = s and d = d] Cons[of "snd (tick_disk sys i s)"]
    by (simp add: case_prod_beta)
qed simp

lemma tick_stop:
  assumes "sg_group s = Some g" "\<forall>d \<in> set (gr_devs g). \<not> rsdk_dev_is_wrapped d" "nvr_storage_tick sys msgs s = (evs, s')"
  shows "sg_group s' = Some g" "(NVR_STG_EVT_FULL, d) \<notin> set evs"
proof -
  obtain e1 s1 where p: "stg_hotplug_poll msgs s = (e1, s1)" by fastforce
  obtain e2 s2 where t: "tick_disks sys [0..<length (sg_disks s1)] s1 = (e2, s2)" by fastforce
  have g: "sg_group s2 = Some g" using poll_group[of msgs s] tick_disks_group[of sys "[0..<length (sg_disks s1)]" s1] p t assms(1) by simp
  have "list_ex rsdk_dev_is_wrapped (gr_devs g) = False" using assms(2) by (auto simp: list_ex_iff)
  then have "evs = e1 @ e2" "s' = s2" using assms(3) p t g by (simp_all add: nvr_storage_tick_def)
  then show "sg_group s' = Some g" "(NVR_STG_EVT_FULL, d) \<notin> set evs" using g poll_group[of msgs s d] tick_disks_group[of sys "[0..<length (sg_disks s1)]" s1 d] p t by auto
qed

lemma sched_no_full: "\<forall>d. (NVR_STG_EVT_FULL, d) \<notin> set evs \<Longrightarrow> fold (\<lambda>(e, d). nvr_rec_on_storage_evt e) evs r = r"
proof (induction evs)
  case (Cons x evs)
  then have "fst x \<noteq> NVR_STG_EVT_FULL" by (cases x) auto
  then have "(\<lambda>(e, d). nvr_rec_on_storage_evt e) x r = r" by (cases x) (simp add: nvr_rec_on_storage_evt_def)
  then show ?case using Cons by simp
qed simp

lemma devs_from:
  assumes "length ds' = length ds" "\<forall>i < length ds. ds' ! i = snd (alloc_many (f i) (ds ! i))" "d \<in> set ds'"
  obtains i where "i < length ds" "ds ! i \<in> set ds" "d = snd (alloc_many (f i) (ds ! i))"
  using assms(2) assms(3)[unfolded in_set_conv_nth] unfolding assms(1) by fastforce

lemma stg_run:
  assumes "sg_group s = Some g" "\<forall>d \<in> set (gr_devs g). stop_disk d"
  shows "\<exists>s' g'. fold stg_do steps (s, r) = (s', r) \<and> sg_group s' = Some g' \<and> length (gr_devs g') = length (gr_devs g) \<and>
    (\<forall>i < length (gr_devs g). gr_devs g' ! i = snd (alloc_many (allocs i steps) (gr_devs g ! i)))"
proof (induction steps rule: rev_induct)
  case Nil
  then show ?case using assms(1) by (simp add: allocs_def)
next
  case (snoc st steps)
  then obtain s' g' where IH: "fold stg_do steps (s, r) = (s', r)" "sg_group s' = Some g'" "length (gr_devs g') = length (gr_devs g)"
    "\<forall>i < length (gr_devs g). gr_devs g' ! i = snd (alloc_many (allocs i steps) (gr_devs g ! i))" by blast
  have nw: "\<forall>d \<in> set (gr_devs g'). \<not> rsdk_dev_is_wrapped d"
  proof
    fix d assume "d \<in> set (gr_devs g')"
    then obtain i where "gr_devs g ! i \<in> set (gr_devs g)" "d = snd (alloc_many (allocs i steps) (gr_devs g ! i))"
      using devs_from[OF IH(3,4)] by blast
    then show "\<not> rsdk_dev_is_wrapped d" using alloc_many_stop_disk(1) assms(2) by (simp add: stop_disk_def)
  qed
  show ?case
  proof (cases st)
    case (Alloc j)
    have a: "allocs i (steps @ [st]) = (if i = j then Suc (allocs i steps) else allocs i steps)" for i by (simp add: allocs_def Alloc)
    show ?thesis
    proof (cases "j < length (gr_devs g)")
      case True
      then show ?thesis using IH unfolding a
        by (simp add: Alloc set_dev_def nth_list_update alloc_many_snoc del: alloc_many.simps(2))
    next
      case False
      then show ?thesis using IH unfolding a by (simp add: Alloc)
    qed
  next
    case (Tick sys msgs)
    obtain evs s2 where t: "nvr_storage_tick sys msgs s' = (evs, s2)" by fastforce
    have "allocs i (steps @ [st]) = allocs i steps" for i by (simp add: allocs_def Tick)
    then show ?thesis using IH t tick_stop[OF IH(2) nw t] sched_no_full[of evs r] by (simp add: Tick)
  qed
qed

text \<open>C30: Disks formatted with the policy to stop when they are full fill up unnoticed: after every run of chunk allocations on them and
  ticks of the storage, whatever the kernel and /sys report, the scheduler is as it was before - no event of the storage has stopped it - and once
  each disk has been asked for as many chunks as it has, every further allocation fails while the scheduler still says that it is recording.\<close>

theorem full_disks_unnoticed:
  assumes "sg_group s = Some g" "\<forall>d \<in> set (gr_devs g). stop_disk d"
    "\<forall>i < length (gr_devs g). dN (gr_devs g ! i) \<le> allocs i steps"
    "nvr_rec_is_recording chn r"
  shows "\<exists>s' g'. fold stg_do steps (s, r) = (s', r) \<and> sg_group s' = Some g' \<and> length (gr_devs g') = length (gr_devs g) \<and>
    (\<forall>d \<in> set (gr_devs g'). fst (rsdk_dev_alloc_chunk d) = Inl RSDK_E_NOSPACE) \<and> nvr_rec_is_recording chn r \<and> \<not> nvr_rec_stopped r"
proof -
  obtain s' g' where R: "fold stg_do steps (s, r) = (s', r)" "sg_group s' = Some g'" "length (gr_devs g') = length (gr_devs g)"
    "\<forall>i < length (gr_devs g). gr_devs g' ! i = snd (alloc_many (allocs i steps) (gr_devs g ! i))"
    using stg_run[OF assms(1,2)] by blast
  have "fst (rsdk_dev_alloc_chunk d) = Inl RSDK_E_NOSPACE" if m: "d \<in> set (gr_devs g')" for d
  proof -
    obtain i where "i < length (gr_devs g)" "gr_devs g ! i \<in> set (gr_devs g)" "d = snd (alloc_many (allocs i steps) (gr_devs g ! i))"
      using devs_from[OF R(3,4) m] by blast
    then show ?thesis using alloc_many_stop_disk(2) assms(2,3) by simp
  qed
  moreover have "\<not> nvr_rec_stopped r" using assms(4) by (simp add: nvr_rec_is_recording_def nvr_rec_stopped_def split: option.splits)
  ultimately show ?thesis using R(1-3) assms(4) by blast
qed


definition demo_group_stop :: nvr_storage where
  "demo_group_stop = \<lparr>sg_cfg = \<lparr>sc_device_sn = None, sc_hdd_full = 1, sc_cb = True\<rparr>, sg_disks = [],
     sg_group = Some \<lparr>gr_devs = [demo_disk 1], gr_rr = 0\<rparr>, sg_hotplug = False\<rparr>"

definition demo_sched :: nvr_rec_sched where
  "demo_sched = snd (nvr_rec_channel_up 0 0 (nvr_rec_sched_init True True 1 10))"

definition demo_stop_run :: "stg_step list" where
  "demo_stop_run = replicate 8 (Alloc 0) @ [Tick (\<lambda>n a. None) []]"

lemma full_disks_unnoticed_witness:
  "\<exists>s' g'. fold stg_do demo_stop_run (demo_group_stop, demo_sched) = (s', demo_sched) \<and> sg_group s' = Some g' \<and>
     fst (rsdk_dev_alloc_chunk (gr_devs g' ! 0)) = Inl RSDK_E_NOSPACE \<and> nvr_rec_is_recording 0 demo_sched"
proof -
  let ?g = "\<lparr>gr_devs = [demo_disk 1], gr_rr = 0\<rparr>"
  have "sg_group demo_group_stop = Some ?g" by (simp add: demo_group_stop_def)
  moreover have "\<forall>d \<in> set (gr_devs ?g). stop_disk d"
    by (simp add: stop_disk_def demo_disk_ok RSDK_HDDFULL_STOP_def rsdk_dev_is_wrapped_def)
  moreover have "\<forall>i < length (gr_devs ?g). dN (gr_devs ?g ! i) \<le> allocs i demo_stop_run" by (simp add: allocs_def demo_stop_run_def)
  moreover have "nvr_rec_is_recording 0 demo_sched"
    by (simp add: demo_sched_def nvr_rec_is_recording_def nvr_rec_channel_up_def nvr_rec_sched_init_def ch_of_def REC_MAX_CH_def)
  ultimately obtain s' g' where R: "fold stg_do demo_stop_run (demo_group_stop, demo_sched) = (s', demo_sched)" "sg_group s' = Some g'"
    "length (gr_devs g') = length (gr_devs ?g)" "\<forall>d \<in> set (gr_devs g'). fst (rsdk_dev_alloc_chunk d) = Inl RSDK_E_NOSPACE"
    "nvr_rec_is_recording 0 demo_sched"
    using full_disks_unnoticed[of demo_group_stop ?g demo_stop_run 0 demo_sched] by blast
  then show ?thesis by auto
qed

section \<open>Formatting several disks\<close>

text \<open>The disks of a listing are formatted one after the other, each with the place and the size of the group it is meant for, and
  with its random numbers; then the storage is scanned and the group assembled.\<close>

type_synonym format_job = "string \<times> u16 \<times> u16 \<times> format_rnd"

definition dev_path :: "string \<Rightarrow> string" where "dev_path name = ''/dev/'' @ name"

fun format_all :: "rsdk_cfg \<Rightarrow> (rat \<Rightarrow> rat) \<Rightarrow> nvr_storage \<Rightarrow> format_job list \<Rightarrow> image_fs \<Rightarrow> image_fs" where
  "format_all cfg fl s [] fs = fs"
| "format_all cfg fl s ((name, i, n, rnd) # jobs) fs =
     format_all cfg fl s jobs (snd (nvr_storage_format cfg fl rnd (dev_path name) i n s fs))"

text \<open>A whole disk of at least 64 MiB whose path fits the table, and random numbers of the size asked for.\<close>

definition plugged :: "image_fs \<Rightarrow> format_job \<Rightarrow> bool" where
  "plugged fs = (\<lambda>(name, i, n, rnd). is_whole_disk name \<and> length name \<le> 26 \<and> rnd_ok (rn_uuid rnd) 16 \<and> rnd_ok (rn_salt rnd) 16 \<and>
     rnd_ok (rn_dek rnd) 32 \<and>
     (case fs (dev_path name) of None \<Rightarrow> False | Some im \<Rightarrow> 67108864 \<le> unat (im_bytes im) \<and> unat (im_bytes im) < 2 ^ 63))"

definition lone_member :: "image_fs \<Rightarrow> string \<Rightarrow> bool" where
  "lone_member fs path \<longleftrightarrow> (\<exists>d raw. rsdk_dev_open fs path = Inr d \<and> rsdk_rawdev_open fs path = Inr raw \<and>
     (let sb = sb_decode (rsdk_rawdev_pread raw RSDK_SEC 512) in
      sb_magic sb = RSDK_SB_MAGIC \<and> sb_version sb = 1 \<and> sb_group_disk_index sb = 0 \<and> sb_group_disk_count sb = 1))"

lemma lone_member_cong: "fs path = fs' path \<Longrightarrow> lone_member fs path = lone_member fs' path"
  by (simp add: lone_member_def rsdk_dev_open_def rsdk_rawdev_open_def)

lemma format_path:
  "snd (nvr_storage_format cfg fl rnd path i n s fs) = snd (rsdk_format cfg fl rnd fs path (Some (storage_format_opt s)))"
  by (simp add: nvr_storage_format_def split: prod.splits sum.splits)

lemma format_other: "q \<noteq> path \<Longrightarrow> snd (nvr_storage_format cfg fl rnd path i n s fs) q = fs q"
  by (simp add: format_path rsdk_format_def Let_def split: option.splits prod.splits)

lemma default_chunk_fits:
  assumes "67108864 \<le> unat (b :: u64)"
  shows "\<not> b div 512 < 64 * 2048" "2 * (unat (pick_chunk_mib t 0) * 2 ^ 20) \<le> unat (b div 512) * 512"
proof -
  have u: "unat (b div 512) = unat b div 512" by (simp add: unat_div)
  then show "\<not> b div 512 < 64 * 2048" using assms by (simp add: word_less_nat_alt)
  have "unat (pick_chunk_mib t 0) \<le> 32" by (simp add: pick_chunk_mib_def)
  then have "2 * (unat (pick_chunk_mib t 0) * 2 ^ 20) \<le> 67108864" using mult_le_mono1[of _ 32 "2 ^ 20"] by simp
  also have "67108864 \<le> unat b div 512 * 512" using div_le_mono[OF assms, of 512] by simp
  finally show "2 * (unat (pick_chunk_mib t 0) * 2 ^ 20) \<le> unat (b div 512) * 512" by (simp only: u)
qed

lemma format_lone:
  assumes p: "plugged fs (name, i, n, rnd)" and sl: "unat (cfg_slots_per_chunk cfg) \<le> 4096"
    and fl: "\<And>x y. x \<le> y \<Longrightarrow> fl x \<le> fl y" "\<And>n. n \<le> 2 ^ 53 \<Longrightarrow> fl (of_nat n) = of_nat n"
    and ratio: "0 \<le> fl (of_nat (cfg_meta_ratio_pct10 cfg) / 10)" "fl (of_nat (cfg_meta_ratio_pct10 cfg) / 10) \<le> 100"
  shows "lone_member (snd (nvr_storage_format cfg fl rnd (dev_path name) i n s fs)) (dev_path name)"
proof -
  let ?o = "Some (storage_format_opt s)" and ?p = "dev_path name"
  obtain im where im: "fs ?p = Some im" "67108864 \<le> unat (im_bytes im)" "unat (im_bytes im) < 2 ^ 63"
    using p by (auto simp: plugged_def split: option.splits)
  note fit = default_chunk_fits[OF im(2)]
  have "fst (rsdk_format cfg fl rnd fs ?p ?o) = RSDK_OK"
    using im(1) fit(1) by (simp add: rsdk_format_def rsdk_rawdev_sectors_def RSDK_SEC_def Let_def case_prod_beta)
  then obtain fs' where f: "rsdk_format cfg fl rnd fs ?p ?o = (RSDK_OK, fs')" by (metis prod.collapse)
  have "unat (im_bytes im div 512) * 512 < 2 ^ 63" using im(3) by (simp add: unat_div)
  moreover have "2 * (unat (pick_chunk_mib (im_bytes im div 512 * 512) (case ?o of Some p \<Rightarrow> fo_chunk_mib p | None \<Rightarrow> 0)) * 2 ^ 20)
      \<le> unat (im_bytes im div 512) * 512"
    using fit(2) by (simp add: storage_format_opt_def)
  moreover have "unat (format_slots cfg ?o) \<le> 4096" using sl by (simp add: format_slots_def storage_format_opt_def)
  moreover have "0 \<le> format_ratio fl cfg ?o" "format_ratio fl cfg ?o \<le> 100"
    using ratio by (simp_all add: format_ratio_def storage_format_opt_def)
  moreover have "rnd_ok (rn_uuid rnd) 16" "rnd_ok (rn_salt rnd) 16" "rnd_ok (rn_dek rnd) 32" using p by (simp_all add: plugged_def)
  ultimately obtain d where d: "rsdk_dev_open fs' ?p = Inr d" "dev_ok d" "on_disk (rw_data (dv_raw d)) (dv_sb d) (dv_st d)"
    "sb_version (dv_sb d) = 1" "sb_group_disk_index (dv_sb d) = 0" "sb_group_disk_count (dv_sb d) = 1"
    using format_open[OF f im(1) _ _ _ fl] by blast
  obtain raw where raw: "rsdk_rawdev_open fs' ?p = Inr raw" "dv_raw d = raw"
    using d(1) by (auto simp: rsdk_dev_open_def dev_assemble_def Let_def split: sum.splits if_splits)
  have "sb_decode (rsdk_rawdev_pread raw RSDK_SEC 512) = dv_sb d"
    using d(2,3) raw(2) by (simp add: rsdk_rawdev_pread_def RSDK_SEC_def on_disk_def dev_ok_def sb_roundtrip)
  then show ?thesis using d raw(1) f by (simp add: lone_member_def format_path dev_ok_def)
qed

lemma format_all_members:
  assumes "list_all (plugged fs) jobs" "distinct (map fst jobs)" "unat (cfg_slots_per_chunk cfg) \<le> 4096"
    "\<And>x y. x \<le> y \<Longrightarrow> fl x \<le> fl y" "\<And>n. n \<le> 2 ^ 53 \<Longrightarrow> fl (of_nat n) = of_nat n"
    "0 \<le> fl (of_nat (cfg_meta_ratio_pct10 cfg) / 10)" "fl (of_nat (cfg_meta_ratio_pct10 cfg) / 10) \<le> 100"
  shows "list_all (\<lambda>j. lone_member (format_all cfg fl s jobs fs) (dev_path (fst j))) jobs \<and>
    (\<forall>q. q \<notin> dev_path ` set (map fst jobs) \<longrightarrow> format_all cfg fl s jobs fs q = fs q)"
  using assms(1,2)
proof (induction jobs arbitrary: fs)
  case (Cons j jobs)
  obtain name i n rnd where j: "j = (name, i, n, rnd)" by (metis prod_cases4)
  let ?fs = "snd (nvr_storage_format cfg fl rnd (dev_path name) i n s fs)"
  have ne: "dev_path (fst k) \<noteq> dev_path name" if "k \<in> set jobs" for k
    using Cons.prems(2) that by (auto simp: j dev_path_def)
  have "list_all (plugged ?fs) jobs"
    using Cons.prems(1) ne by (auto simp: list_all_iff plugged_def format_other split: prod.splits)
  then have IH: "list_all (\<lambda>j. lone_member (format_all cfg fl s jobs ?fs) (dev_path (fst j))) jobs"
    "\<forall>q. q \<notin> dev_path ` set (map fst jobs) \<longrightarrow> format_all cfg fl s jobs ?fs q = ?fs q"
    using Cons.IH[of ?fs] Cons.prems(2) by simp_all
  have "dev_path name \<notin> dev_path ` set (map fst jobs)" using ne by (metis (no_types, lifting) imageE list.set_map)
  then have same: "format_all cfg fl s jobs ?fs (dev_path name) = ?fs (dev_path name)" using IH(2) by blast
  have "plugged fs (name, i, n, rnd)" using Cons.prems(1) by (simp add: j)
  from format_lone[OF this assms(3-7)] have "lone_member (format_all cfg fl s jobs ?fs) (dev_path name)"
    using lone_member_cong[of "format_all cfg fl s jobs ?fs" "dev_path name" ?fs] same by simp
  then show ?case using IH format_other[of _ "dev_path name" cfg fl rnd i n s fs] by (simp add: j)
qed simp


lemma scan_lone:
  assumes "lone_member fs (dev_path name)" "length name \<le> 26"
  shows "dk_path (scan_disk sys fs name) = dev_path name \<and> dk_state (scan_disk sys fs name) = NVR_DISK_OURS \<and>
    dk_group_disk_index (scan_disk sys fs name) = 0 \<and> dk_group_disk_count (scan_disk sys fs name) = 1"
proof -
  have "take 31 (dev_path name) = dev_path name" using assms(2) by (simp add: dev_path_def)
  then show ?thesis using assms(1)
    by (auto simp: lone_member_def scan_disk_def nvr_storage_identify_def dev_path_def Let_def)
qed

lemma collect_lone:
  assumes "list_all (\<lambda>d. dk_state d = NVR_DISK_OURS \<and> dk_group_disk_index d = 0 \<and> dk_group_disk_count d = 1) ds" "ds \<noteq> []"
  shows "collect ds (ordered, found, expect) = (ordered[0 := Some (dk_path (last ds))], found + length ds, max expect 1)"
  using assms
proof (induction ds arbitrary: ordered found expect)
  case (Cons d ds)
  then show ?case by (cases "ds = []") (auto simp: assembled_def NVR_MAX_DISKS_def)
qed simp

text \<open>A group of several disks does not come out of formatting them. Whatever place and size of a group each disk of a listing is
  formatted for, the format leaves all of them as the only disk of a group: after a scan, assembling the group succeeds without an event, every
  disk is reported as in use, and the group has one device, the last disk of the listing. The hypotheses about \<open>fl\<close> are the IEEE-754
  behaviour of rounding.\<close>

lemma formatted_disks_lost:
  assumes "list_all (plugged fs) jobs" "distinct (map fst jobs)" "jobs \<noteq> []" "length jobs \<le> NVR_MAX_DISKS"
    "unat (cfg_slots_per_chunk cfg) \<le> 4096"
    "\<And>x y. x \<le> y \<Longrightarrow> fl x \<le> fl y" "\<And>n. n \<le> 2 ^ 53 \<Longrightarrow> fl (of_nat n) = of_nat n"
    "0 \<le> fl (of_nat (cfg_meta_ratio_pct10 cfg) / 10)" "fl (of_nat (cfg_meta_ratio_pct10 cfg) / 10) \<le> 100"
    "nvr_storage_scan sys (format_all cfg fl s jobs fs) (Some (map fst jobs)) s = (n, s1)"
  shows "n = length jobs \<and> (\<exists>s2 g d. nvr_storage_assemble (format_all cfg fl s jobs fs) s1 = Some (RSDK_OK, [], s2) \<and>
    map dk_state (sg_disks s2) = replicate (length jobs) NVR_DISK_ACTIVE \<and> nvr_storage_group s2 = Some g \<and>
    gr_devs g = [d] \<and> rsdk_dev_open (format_all cfg fl s jobs fs) (dev_path (fst (last jobs))) = Inr d)"
proof -
  let ?fs = "format_all cfg fl s jobs fs"
  have M: "list_all (\<lambda>j. lone_member ?fs (dev_path (fst j))) jobs" using format_all_members[OF assms(1,2,5-9)] by blast
  define ds where "ds = map (scan_disk sys ?fs) (map fst jobs)"
  have "filter is_whole_disk (map fst jobs) = map fst jobs" using assms(1) by (auto simp: list_all_iff plugged_def filter_id_conv)
  then have s1: "n = length jobs" "s1 = s\<lparr>sg_disks := ds\<rparr>"
    using assms(4,10) by (simp_all add: nvr_storage_scan_def ds_def)
  have D: "list_all (\<lambda>d. dk_state d = NVR_DISK_OURS \<and> dk_group_disk_index d = 0 \<and> dk_group_disk_count d = 1) ds"
    using M assms(1) scan_lone[of ?fs _ sys] by (fastforce simp: ds_def list_all_iff plugged_def)
  have ne: "ds \<noteq> []" using assms(3) by (simp add: ds_def)
  have last: "last jobs \<in> set jobs" using assms(3) by simp
  then have lm: "lone_member ?fs (dev_path (fst (last jobs)))" using M by (simp add: list_all_iff)
  have "length (fst (last jobs)) \<le> 26" using last assms(1) by (auto simp: list_all_iff plugged_def)
  then have p: "dk_path (last ds) = dev_path (fst (last jobs))"
    using scan_lone[OF lm] assms(3) by (simp add: ds_def last_map)
  obtain d where d: "rsdk_dev_open ?fs (dev_path (fst (last jobs))) = Inr d" using lm by (auto simp: lone_member_def)
  have c: "collect ds (replicate NVR_MAX_DISKS None, 0, 0) = ((replicate NVR_MAX_DISKS None)[0 := Some (dk_path (last ds))], length ds, 1)"
    using collect_lone[OF D ne] by simp
  have paths: "map the (filter (\<lambda>p. \<exists>y. p = Some y) (take 1 ((replicate NVR_MAX_DISKS None)[0 := Some q]))) = [q]" for q :: string
    by (simp add: NVR_MAX_DISKS_def numeral_eq_Suc)
  have g: "rsdk_group_open ?fs [dev_path (fst (last jobs))] = Inr \<lparr>gr_devs = [d], gr_rr = 0\<rparr>"
    using d by (simp add: rsdk_group_open_def)
  have n1: "\<not> NVR_MAX_DISKS < 1" "length ds \<noteq> 0" "\<not> length ds < 1" using ne by (simp_all add: NVR_MAX_DISKS_def Suc_le_eq)
  have a: "nvr_storage_assemble ?fs s1 = Some (RSDK_OK, [], s1\<lparr>sg_group := Some \<lparr>gr_devs = [d], gr_rr = 0\<rparr>,
      sg_disks := map (\<lambda>d. if dk_state d = NVR_DISK_OURS then d\<lparr>dk_state := NVR_DISK_ACTIVE\<rparr> else d) ds\<rparr>)"
    using n1 unfolding nvr_storage_assemble_def s1(2) by (simp add: c paths p g del: take_update_swap One_nat_def)
  have "map dk_state (map (\<lambda>d. if dk_state d = NVR_DISK_OURS then d\<lparr>dk_state := NVR_DISK_ACTIVE\<rparr> else d) ds) = replicate (length jobs) NVR_DISK_ACTIVE"
    using D by (intro replicate_eqI) (auto simp: list_all_iff ds_def)
  then show ?thesis using a s1(1) d by (simp add: nvr_storage_group_def)
qed


definition demo_jobs :: "format_job list" where
  "demo_jobs = [(''sda'', 0, 2, demo_rnd), (''sdb'', 1, 2, demo_rnd)]"

lemma formatted_disks_lost_witness:
  "\<exists>fs n s1 s2 g d. nvr_storage_scan (\<lambda>n a. None) fs (Some [''sda'', ''sdb'']) demo_group_stop = (n, s1) \<and>
     nvr_storage_assemble fs s1 = Some (RSDK_OK, [], s2) \<and> map dk_state (sg_disks s2) = [NVR_DISK_ACTIVE, NVR_DISK_ACTIVE] \<and>
     nvr_storage_group s2 = Some g \<and> gr_devs g = [d] \<and> rsdk_dev_open fs (dev_path ''sdb'') = Inr d"
proof -
  let ?fs = "[dev_path ''sda'' \<mapsto> demo_image, dev_path ''sdb'' \<mapsto> demo_image]"
  let ?all = "format_all rsdk_cfg_defaults (\<lambda>x. x) demo_group_stop demo_jobs ?fs"
  obtain n s1 where sc: "nvr_storage_scan (\<lambda>n a. None) ?all (Some (map fst demo_jobs)) demo_group_stop = (n, s1)" by fastforce
  have "list_all (plugged ?fs) demo_jobs"
    by (simp add: demo_jobs_def plugged_def demo_rnd_def rnd_ok_def is_whole_disk_def digit_def dev_path_def demo_image_def)
  moreover have "distinct (map fst demo_jobs)" "demo_jobs \<noteq> []" "length demo_jobs \<le> NVR_MAX_DISKS"
    by (simp_all add: demo_jobs_def NVR_MAX_DISKS_def)
  moreover have "unat (cfg_slots_per_chunk rsdk_cfg_defaults) \<le> 4096" "0 \<le> (of_nat (cfg_meta_ratio_pct10 rsdk_cfg_defaults) / 10 :: rat)"
    "(of_nat (cfg_meta_ratio_pct10 rsdk_cfg_defaults) / 10 :: rat) \<le> 100"
    by (simp_all add: rsdk_cfg_defaults_def)
  ultimately obtain s2 g d where R: "nvr_storage_assemble ?all s1 = Some (RSDK_OK, [], s2)"
    "map dk_state (sg_disks s2) = replicate (length demo_jobs) NVR_DISK_ACTIVE"
    "nvr_storage_group s2 = Some g" "gr_devs g = [d]" "rsdk_dev_open ?all (dev_path (fst (last demo_jobs))) = Inr d"
    using formatted_disks_lost[of ?fs demo_jobs rsdk_cfg_defaults "\<lambda>x. x" "\<lambda>n a. None" demo_group_stop n s1] sc by blast
  have "map dk_state (sg_disks s2) = [NVR_DISK_ACTIVE, NVR_DISK_ACTIVE]" "fst (last demo_jobs) = ''sdb''" "map fst demo_jobs = [''sda'', ''sdb'']"
    using R(2) by (simp_all add: demo_jobs_def)
  then show ?thesis using sc R by metis
qed


section \<open>The order of the group\<close>

definition place :: "nvr_disk \<Rightarrow> nat" where "place d = unat (dk_group_disk_index d)"

lemma collect_places:
  assumes "list_all assembled ds" "distinct (map place ds)" "length ordered = NVR_MAX_DISKS"
  shows "collect ds (ordered, found, expect) =
    (map (\<lambda>i. case find (\<lambda>d. place d = i) ds of None \<Rightarrow> ordered ! i | Some d \<Rightarrow> Some (dk_path d)) [0..<NVR_MAX_DISKS], found + length ds,
     fold max (map (\<lambda>d. unat (dk_group_disk_count d)) ds) expect)"
  using assms
proof (induction ds arbitrary: ordered found expect)
  case Nil
  then show ?case using map_nth[of ordered] by simp
next
  case (Cons d ds)
  let ?o = "ordered[place d := Some (dk_path d)]"
  have lt: "place d < NVR_MAX_DISKS" "assembled d" using Cons.prems(1) by (simp_all add: assembled_def place_def)
  have none: "find (\<lambda>x. place x = place d) ds = None" using Cons.prems(2) by (simp add: find_None_iff image_iff) (metis (no_types))
  have eq: "(case find (\<lambda>x. place x = i) ds of None \<Rightarrow> ?o ! i | Some x \<Rightarrow> Some (dk_path x)) =
      (case find (\<lambda>x. place x = i) (d # ds) of None \<Rightarrow> ordered ! i | Some x \<Rightarrow> Some (dk_path x))" for i
    using none lt(1) Cons.prems(3) by (cases "place d = i") (auto split: option.splits)
  have "collect ds (?o, found + 1, max expect (unat (dk_group_disk_count d))) =
    (map (\<lambda>i. case find (\<lambda>d. place d = i) ds of None \<Rightarrow> ?o ! i | Some d \<Rightarrow> Some (dk_path d)) [0..<NVR_MAX_DISKS], found + 1 + length ds,
     fold max (map (\<lambda>d. unat (dk_group_disk_count d)) ds) (max expect (unat (dk_group_disk_count d))))"
    using Cons.prems by (intro Cons.IH) simp_all
  then show ?case using lt(2) unfolding eq by (simp add: place_def max.commute)
qed

lemma places_in_order:
  assumes "distinct (map place ds)" "\<forall>d \<in> set ds. place d < n"
  shows "map the (filter (\<lambda>p. p \<noteq> None) (map (\<lambda>i. find (\<lambda>d. place d = i) ds) [0..<n])) = sort_key place ds"
proof -
  let ?f = "\<lambda>i. find (\<lambda>d. place d = i) ds"
  let ?is = "filter (\<lambda>i. ?f i \<noteq> None) [0..<n]"
  have inj: "inj_on place (set ds)" using assms(1) by (simp add: distinct_map)
  have fd: "?f (place d) = Some d" if m: "d \<in> set ds" for d
  proof -
    obtain e where e: "?f (place d) = Some e" using m find_None_iff[of "\<lambda>x. place x = place d" ds] by (metis option.exhaust)
    then show ?thesis using m inj by (auto simp: find_Some_iff dest: inj_onD)
  qed
  have fp: "\<And>i d. ?f i = Some d \<Longrightarrow> place d = i \<and> d \<in> set ds" by (auto simp: find_Some_iff)
  have L: "map the (filter (\<lambda>p. p \<noteq> None) (map ?f [0..<n])) = map (the \<circ> ?f) ?is" by (simp add: filter_map o_def)
  have "(place \<circ> (the \<circ> ?f)) i = i" if "i \<in> set ?is" for i using that fp[of i] by (cases "?f i") simp_all
  then have mp: "map place (map (the \<circ> ?f) ?is) = ?is" by (simp only: map_map map_idI)
  have st: "set (map (the \<circ> ?f) ?is) = set ds"
  proof (intro equalityI subsetI)
    fix d assume "d \<in> set ds"
    then have "place d \<in> set ?is" "d = (the \<circ> ?f) (place d)" using fd assms(2) by auto
    then show "d \<in> set (map (the \<circ> ?f) ?is)" unfolding set_map by (rule rev_image_eqI)
  next
    fix d assume "d \<in> set (map (the \<circ> ?f) ?is)"
    then obtain i where "?f i \<noteq> None" "d = the (?f i)" unfolding set_map set_filter o_def by blast
    then show "d \<in> set ds" using fp[of i] by (cases "?f i") simp_all
  qed
  have di: "distinct (map (the \<circ> ?f) ?is)" using mp distinct_map[of place] by (metis distinct_filter distinct_upt)
  have "distinct ds" using assms(1) unfolding distinct_map by (rule conjunct1)
  then have ms: "mset ds = mset (map (the \<circ> ?f) ?is)" using set_eq_iff_mset_eq_distinct[OF _ di] st by blast
  have "sorted ?is" by (intro sorted_wrt_filter) simp
  then have "sorted (map place (map (the \<circ> ?f) ?is))" unfolding mp .
  then have "sort_key place ds = map (the \<circ> ?f) ?is" by (rule sort_key_inj_key_eq[OF ms inj])
  then show ?thesis unfolding L by (rule HOL.sym)
qed

text \<open>C29: The group is assembled in the order of its disks. When the scanned disks are members of one group, at distinct places below its
  size, the recorder gets their paths ordered by place, whatever the order in which the kernel listed them; a missing member raises the event
  for a removed disk and leaves the others in order; when the group opens, its members are reported as in use.\<close>

theorem group_in_order:
  assumes "sg_disks s \<noteq> []" "n \<le> NVR_MAX_DISKS" "distinct (map place (sg_disks s))"
    "list_all (\<lambda>d. dk_state d = NVR_DISK_OURS \<and> place d < n \<and> unat (dk_group_disk_count d) = n) (sg_disks s)"
  shows "nvr_storage_assemble fs s =
    Some (let evs = (if length (sg_disks s) < n \<and> sc_cb (sg_cfg s) then [(NVR_STG_EVT_DISK_REMOVED, None)] else []) in
      case rsdk_group_open fs (map dk_path (sort_key place (sg_disks s))) of
        Inl e \<Rightarrow> (e, evs, s)
      | Inr g \<Rightarrow> (RSDK_OK, evs, s\<lparr>sg_group := Some g, sg_disks := map (\<lambda>d. d\<lparr>dk_state := NVR_DISK_ACTIVE\<rparr>) (sg_disks s)\<rparr>))"
proof -
  let ?ds = "sg_disks s"
  let ?f = "\<lambda>i. find (\<lambda>d. place d = i) ?ds"
  have m: "n \<noteq> 0" using assms(1,4) by (cases ?ds) auto
  have as: "list_all assembled ?ds" using assms(2,4) by (auto simp: list_all_iff assembled_def place_def)
  have "map (\<lambda>d. unat (dk_group_disk_count d)) ?ds = replicate (length ?ds) n"
    using assms(4) by (intro replicate_eqI) (auto simp: list_all_iff)
  moreover have "fold max (replicate (Suc k) n) a = max a n" for k a by (induction k arbitrary: a) (auto simp: max_def)
  moreover obtain k where "length ?ds = Suc k" using assms(1) by (cases ?ds) auto
  ultimately have mx: "fold max (map (\<lambda>d. unat (dk_group_disk_count d)) ?ds) 0 = n" by (metis max_0L)
  have c: "collect ?ds (replicate NVR_MAX_DISKS None, 0, 0) =
      (map (\<lambda>i. map_option dk_path (?f i)) [0..<NVR_MAX_DISKS], length ?ds, n)"
    unfolding collect_places[OF as assms(3) length_replicate] mx by (auto split: option.splits)
  have "map the (filter (\<lambda>p. p \<noteq> None) (map (map_option dk_path) os)) = map dk_path (map the (filter (\<lambda>p. p \<noteq> None) os))"
    for os :: "nvr_disk option list"
    by (induction os) auto
  moreover have "take n (map (\<lambda>i. map_option dk_path (?f i)) [0..<NVR_MAX_DISKS]) = map (map_option dk_path) (map ?f [0..<n])"
    using assms(2) by (simp add: take_map)
  moreover have "map the (filter (\<lambda>p. p \<noteq> None) (map ?f [0..<n])) = sort_key place ?ds"
    using assms(3,4) by (intro places_in_order) (auto simp: list_all_iff)
  ultimately have paths: "map the (filter (\<lambda>p. p \<noteq> None) (take n (map (\<lambda>i. map_option dk_path (?f i)) [0..<NVR_MAX_DISKS]))) =
      map dk_path (sort_key place ?ds)" by (simp only:)
  have act: "map (\<lambda>d. if dk_state d = NVR_DISK_OURS then d\<lparr>dk_state := NVR_DISK_ACTIVE\<rparr> else d) ?ds = map (\<lambda>d. d\<lparr>dk_state := NVR_DISK_ACTIVE\<rparr>) ?ds"
    using assms(4) by (auto simp: list_all_iff)
  have n: "(if n = 0 then length ?ds else n) = n" using m by simp
  show ?thesis using assms(1,2) unfolding nvr_storage_assemble_def c prod.case Let_def n paths act
    by (simp add: stg_emit_def split: sum.split)
qed


definition demo_member :: "string \<Rightarrow> u16 \<Rightarrow> nvr_disk" where
  "demo_member path i = \<lparr>dk_path = path, dk_model = [], dk_serial = [], dk_capacity_bytes = 0, dk_state = NVR_DISK_OURS,
     dk_group_uuid = replicate 16 0, dk_group_disk_index = i, dk_group_disk_count = 3, dk_feature_mask = 0, dk_enc_algo = 0, dk_health = zero_health\<rparr>"

lemma group_in_order_witness:
  "\<forall>fs. nvr_storage_assemble fs (demo_group_stop\<lparr>sg_disks := [demo_member ''/dev/sda'' 2, demo_member ''/dev/sdb'' 0]\<rparr>) =
    Some (case rsdk_group_open fs [''/dev/sdb'', ''/dev/sda''] of
        Inl e \<Rightarrow> (e, [(NVR_STG_EVT_DISK_REMOVED, None)], demo_group_stop\<lparr>sg_disks := [demo_member ''/dev/sda'' 2, demo_member ''/dev/sdb'' 0]\<rparr>)
      | Inr g \<Rightarrow> (RSDK_OK, [(NVR_STG_EVT_DISK_REMOVED, None)], demo_group_stop\<lparr>sg_group := Some g,
          sg_disks := map (\<lambda>d. d\<lparr>dk_state := NVR_DISK_ACTIVE\<rparr>) [demo_member ''/dev/sda'' 2, demo_member ''/dev/sdb'' 0]\<rparr>))"
proof
  fix fs
  let ?s = "demo_group_stop\<lparr>sg_disks := [demo_member ''/dev/sda'' 2, demo_member ''/dev/sdb'' 0]\<rparr>"
  have "sort_key place (sg_disks ?s) = [demo_member ''/dev/sdb'' 0, demo_member ''/dev/sda'' 2]" by (simp add: demo_member_def place_def)
  then show "nvr_storage_assemble fs ?s = Some (case rsdk_group_open fs [''/dev/sdb'', ''/dev/sda''] of
      Inl e \<Rightarrow> (e, [(NVR_STG_EVT_DISK_REMOVED, None)], ?s)
    | Inr g \<Rightarrow> (RSDK_OK, [(NVR_STG_EVT_DISK_REMOVED, None)], demo_group_stop\<lparr>sg_group := Some g,
        sg_disks := map (\<lambda>d. d\<lparr>dk_state := NVR_DISK_ACTIVE\<rparr>) [demo_member ''/dev/sda'' 2, demo_member ''/dev/sdb'' 0]\<rparr>))"
    using group_in_order[of ?s 3 fs] by (simp add: demo_member_def place_def NVR_MAX_DISKS_def demo_group_stop_def split: sum.split)
qed

end
